(* ===== verification/Prelude.thy ===== *)
theory Prelude
  imports Main "HOL-Library.Word" "HOL-Library.Monad_Syntax"
begin

text \<open>
  Shared by every component: the machine-integer types of the C code, bounds-checked buffer
  accesses, a total-correctness predicate for computations that may hit undefined behaviour
  (\<open>okp\<close>), and the bit lemmas the component proofs use.

  Modelling conventions.  \<open>uintN_t\<close> is \<open>N word\<close>; a C buffer is a list whose length is the size
  of its allocation; an access through \<open>mem_get\<close> or \<open>mem_set\<close> outside that size is undefined
  behaviour in the code and \<open>None\<close> in the model, so a lemma \<open>okp (f s) P\<close> states both that the
  code stays inside its buffers and that its result satisfies \<open>P\<close>.
\<close>

unbundle bit_operations_syntax

type_synonym u8 = "8 word"
type_synonym u16 = "16 word"
type_synonym u32 = "32 word"
type_synonym u64 = "64 word"
type_synonym i16 = "16 word"
type_synonym i32 = "32 word"

section \<open>Computations that may be undefined\<close>

definition okp :: "'a option \<Rightarrow> ('a \<Rightarrow> bool) \<Rightarrow> bool" where
  "okp m P = (case m of None \<Rightarrow> False | Some x \<Rightarrow> P x)"

text \<open>\<open>ok_intro\<close>: one rule per program construct, applied backwards by \<open>intro\<close>.\<close>

named_theorems ok_intro

lemma okp_iff: "okp m P \<longleftrightarrow> (\<exists>x. m = Some x \<and> P x)"
  by (auto simp: okp_def split: option.splits)

lemma okp_Some [simp]: "okp (Some x) P = P x"
  by (simp add: okp_def)

lemma okp_None [simp]: "\<not> okp None P"
  by (simp add: okp_def)

lemma okp_mono: "okp m P \<Longrightarrow> (\<And>x. P x \<Longrightarrow> Q x) \<Longrightarrow> okp m Q"
  by (auto simp: okp_iff)

lemma okp_bind: "okp m (\<lambda>x. okp (f x) Q) \<Longrightarrow> okp (m \<bind> f) Q"
  by (auto simp: okp_iff)

lemma okp_bindI: "okp m P \<Longrightarrow> (\<And>x. P x \<Longrightarrow> okp (f x) Q) \<Longrightarrow> okp (m \<bind> f) Q"
  by (auto simp: okp_iff)

lemma okp_bind2I:
  "okp m (\<lambda>(v, t). P v t) \<Longrightarrow> (\<And>v t. P v t \<Longrightarrow> okp (f v t) Q) \<Longrightarrow>
   okp (m \<bind> (\<lambda>(v, t). f v t)) Q"
  by (auto simp: okp_iff)

lemma okp_if:
  "(b \<Longrightarrow> okp x P) \<Longrightarrow> (\<not> b \<Longrightarrow> okp y P) \<Longrightarrow> okp (if b then x else y) P"
  by simp

lemma okp_conj: "okp m P \<Longrightarrow> okp m Q \<Longrightarrow> okp m (\<lambda>x. P x \<and> Q x)"
  by (auto simp: okp_iff)

lemma okpD: "okp m P \<Longrightarrow> m = Some x \<Longrightarrow> P x"
  by simp

lemma okp_ex: "okp m P \<Longrightarrow> \<exists>x. m = Some x \<and> P x"
  by (simp add: okp_iff)

text \<open>Partial correctness: what holds of a result if there is one.\<close>

definition pcp :: "'a option \<Rightarrow> ('a \<Rightarrow> bool) \<Rightarrow> bool" where
  "pcp m P \<longleftrightarrow> (\<forall>x. m = Some x \<longrightarrow> P x)"

lemma pcp_simps [simp]: "pcp (Some x) P = P x" "pcp None P"
  by (simp_all add: pcp_def)

lemma pcpD: "pcp m P \<Longrightarrow> m = Some x \<Longrightarrow> P x"
  by (simp add: pcp_def)

lemma pcp_if: "(b \<Longrightarrow> pcp x P) \<Longrightarrow> (\<not> b \<Longrightarrow> pcp y P) \<Longrightarrow> pcp (if b then x else y) P"
  by simp

lemma pcp_bind: "(\<And>x. m = Some x \<Longrightarrow> pcp (f x) P) \<Longrightarrow> pcp (m \<bind> f) P"
  by (cases m) auto

lemma pcp_bind2: "(\<And>x t. m = Some (x, t) \<Longrightarrow> pcp (f x t) P) \<Longrightarrow> pcp (m \<bind> (\<lambda>(x, t). f x t)) P"
  by (cases m) auto

section \<open>Buffers\<close>

definition mem_get :: "'a list \<Rightarrow> nat \<Rightarrow> 'a option" where
  "mem_get xs i = (if i < length xs then Some (xs ! i) else None)"

definition mem_set :: "'a list \<Rightarrow> nat \<Rightarrow> 'a \<Rightarrow> 'a list option" where
  "mem_set xs i v = (if i < length xs then Some (xs[i := v]) else None)"

lemma mem_get_in [simp]: "i < length xs \<Longrightarrow> mem_get xs i = Some (xs ! i)"
  by (simp add: mem_get_def)

lemma mem_set_in [simp]: "i < length xs \<Longrightarrow> mem_set xs i v = Some (xs[i := v])"
  by (simp add: mem_set_def)

lemma mem_get_Some: "mem_get xs i = Some v \<longleftrightarrow> i < length xs \<and> v = xs ! i"
  by (auto simp: mem_get_def)

lemma mem_set_Some: "mem_set xs i v = Some ys \<longleftrightarrow> i < length xs \<and> ys = xs[i := v]"
  by (auto simp: mem_set_def)

lemma mem_set_length: "mem_set xs i v = Some ys \<Longrightarrow> length ys = length xs"
  by (auto simp: mem_set_def split: if_splits)

lemma okp_mem_get: "i < length xs \<Longrightarrow> P (xs ! i) \<Longrightarrow> okp (mem_get xs i) P"
  by simp

lemma okp_mem_set: "i < length xs \<Longrightarrow> P (xs[i := v]) \<Longrightarrow> okp (mem_set xs i v) P"
  by simp

text \<open>\<open>memcpy\<close> into a buffer at an offset, and a slice of a buffer.\<close>

definition mem_blit :: "'a list \<Rightarrow> nat \<Rightarrow> 'a list \<Rightarrow> 'a list option" where
  "mem_blit xs i ys =
     (if i + length ys \<le> length xs
      then Some (take i xs @ ys @ drop (i + length ys) xs) else None)"

definition mem_slice :: "'a list \<Rightarrow> nat \<Rightarrow> nat \<Rightarrow> 'a list option" where
  "mem_slice xs i n = (if i + n \<le> length xs then Some (take n (drop i xs)) else None)"

lemma okp_mem_blit:
  "i + length ys \<le> length xs \<Longrightarrow> okp (mem_blit xs i ys) (\<lambda>zs. length zs = length xs)"
  by (simp add: mem_blit_def)

lemma okp_mem_slice:
  "i + n \<le> length xs \<Longrightarrow> okp (mem_slice xs i n) (\<lambda>zs. length zs = n)"
  by (simp add: mem_slice_def)

lemma mem_blit_nth:
  assumes "mem_blit xs i ys = Some zs" "k < length xs"
  shows "zs ! k = (if i \<le> k \<and> k < i + length ys then ys ! (k - i) else xs ! k)"
  using assms by (auto simp: mem_blit_def nth_append min_def split: if_splits)

section \<open>Bytes and 16-bit values\<close>

text \<open>\<open>(hi << 8) | lo\<close>, \<open>w & 0xFF\<close>, \<open>w >> 8\<close>, and the cast through \<open>int8_t\<close>.\<close>

definition w16 :: "u8 \<Rightarrow> u8 \<Rightarrow> u16" where
  "w16 hi lo = push_bit 8 (ucast hi) OR ucast lo"

definition lo8 :: "u16 \<Rightarrow> u8" where
  "lo8 w = ucast w"

definition hi8 :: "u16 \<Rightarrow> u8" where
  "hi8 w = ucast (drop_bit 8 w)"

definition sext8 :: "u8 \<Rightarrow> u16" where
  "sext8 b = scast b"

text \<open>The value of \<open>b ? m : 0\<close> in a flag expression.\<close>

definition flag_if :: "bool \<Rightarrow> u8 \<Rightarrow> u8" where
  "flag_if b m = (if b then m else 0)"

lemma hi8_w16 [simp]: "hi8 (w16 h l) = h"
  by (intro bit_word_eqI) (auto simp: hi8_def w16_def bit_simps dest: bit_imp_le_length)

lemma lo8_w16 [simp]: "lo8 (w16 h l) = l"
  by (intro bit_word_eqI) (auto simp: lo8_def w16_def bit_simps)

lemma w16_hi8_lo8 [simp]: "w16 (hi8 w) (lo8 w) = w"
  by (intro bit_word_eqI) (auto simp: hi8_def lo8_def w16_def bit_simps)

lemma w16_inject: "w16 h l = w16 h' l' \<longleftrightarrow> h = h' \<and> l = l'"
  by (metis hi8_w16 lo8_w16)

lemma u8_lt [simp]: "unat (x :: u8) < 256"
  using unsigned_less [of x] by simp

lemma u16_lt [simp]: "unat (x :: u16) < 65536"
  using unsigned_less [of x] by simp

lemma unat_w16: "unat (w16 h l) = 256 * unat h + unat l"
proof -
  have "w16 h l = push_bit 8 (ucast h) + ucast l"
    unfolding w16_def
    by (rule disjunctive_add [symmetric]) (auto simp: bit_simps dest: bit_imp_le_length)
  moreover have "unat (push_bit 8 (ucast h :: u16)) = 256 * unat h"
    using u8_lt [of h]
    by (simp add: push_bit_eq_mult unat_word_ariths unsigned_ucast_eq take_bit_eq_mod del: u8_lt)
  moreover have "unat (ucast l :: u16) = unat l"
    using u8_lt [of l] by (simp add: unsigned_ucast_eq take_bit_eq_mod del: u8_lt)
  ultimately show ?thesis
    using u8_lt [of h] u8_lt [of l] by (simp add: unat_word_ariths del: u8_lt)
qed

lemma unat_lo8: "unat (lo8 w) = unat w mod 256"
  by (simp add: lo8_def unsigned_ucast_eq take_bit_eq_mod)

lemma unat_hi8: "unat (hi8 w) = unat w div 256"
  using u16_lt [of w]
  by (simp add: hi8_def unsigned_ucast_eq unat_drop_bit_eq drop_bit_eq_div take_bit_eq_mod
      unat_div_distrib less_mult_imp_div_less del: u16_lt)

lemma unat_plus_small: "unat (x :: u16) + i < 65536 \<Longrightarrow> unat (x + of_nat i) = unat x + i"
  by (simp add: unat_word_ariths take_bit_eq_mod unsigned_of_nat)

lemma unat_plus_int:
  assumes "0 \<le> c" "unat (x :: u16) + nat c < 65536"
  shows "unat (x + of_int c) = unat x + nat c"
proof -
  obtain k where "c = int k" using assms(1) by (metis nonneg_int_cases)
  then show ?thesis using assms(2) by (simp add: unat_plus_small)
qed

section \<open>Masks\<close>

lemma flag_if_simps [simp]: "flag_if True m = m" "flag_if False m = 0"
  by (simp_all add: flag_if_def)

lemma and_or_zero: "(x OR y) AND (m :: 'a :: len word) = 0 \<longleftrightarrow> x AND m = 0 \<and> y AND m = 0"
  by (auto simp: bit_eq_iff bit_simps)

lemma flag_if_and: "m AND k = 0 \<Longrightarrow> flag_if b m AND k = 0"
  by (simp add: flag_if_def)

lemma unat_and_le: "unat (x AND (m :: 'a :: len word)) \<le> unat m"
  by (metis word_and_le1 word_le_nat_alt)

lemma unat_and_lt: "unat (m :: 'a :: len word) < k \<Longrightarrow> unat (x AND m) < k"
  using unat_and_le le_less_trans by blast

lemma unat_and_mask: "unat (x AND (mask n :: 'a :: len word)) = unat x mod 2 ^ n"
  by (simp flip: take_bit_eq_mask take_bit_eq_mod add: unsigned_take_bit_eq)

end
