(* ===== verification/Emu_Patches.thy ===== *)
theory Emu_Patches
  imports Prelude
begin

text \<open>
  The in-memory ROM patchers a freshly cached bank goes through: \<open>pokered::patchBank\<close>
  (gb/pokemon_red_patch.h) and \<open>gbpatches::applyToBank\<close> (gb/gb_eink_patches.h).  A patch table is a
  list of address/value pairs; both patchers write only the entries that fall inside the given
  bank and return the bank and the number of bytes written.  A bank buffer is a list of
  0x4000 bytes; a write outside it is \<open>None\<close>.
\<close>

type_synonym byte_patch = "nat \<times> u8"

definition HP_BAR_NOP_ADDR :: nat where
  "HP_BAR_NOP_ADDR = 0xFAB9"

definition HP_BAR_NOP_LEN :: nat where
  "HP_BAR_NOP_LEN = 5"

definition SINGLE_PATCHES :: "byte_patch list" where
  "SINGLE_PATCHES =
    [(0x38D3, 0xC9), (0x20E7, 0x01), (0x2105, 0x01), (0x70B68, 0x00), (0x73743, 0x04),
     (0x73756, 0x04), (0x3748, 0xC9), (0x0560, 0x04), (0x791C6, 0x00), (0x791CE, 0x00),
     (0x0F32A, 0x18),
     (0x701A7, 0x01), (0x7021E, 0x01), (0x70236, 0x01),
     (0x70477, 0x01), (0x704AA, 0x01), (0x704FB, 0x01),
     (0x7055F, 0x01), (0x705E5, 0x01), (0x70637, 0x01),
     (0x707B7, 0x01), (0x707E8, 0x01), (0x708F7, 0x01),
     (0x7090E, 0x01), (0x70BBA, 0x01), (0x70FF5, 0x01),
     (0x71CB5, 0x01), (0x73611, 0x01),
     (0x78D89, 0x01), (0x78FA3, 0x01)]"

text \<open>The loop over a table, shared by both patchers: skip entries outside the bank.\<close>

fun apply_table :: "byte_patch list \<Rightarrow> nat \<Rightarrow> nat \<Rightarrow> u8 list \<times> nat \<Rightarrow> (u8 list \<times> nat) option" where
  "apply_table [] base fin (bank, n) = Some (bank, n)"
| "apply_table ((addr, v) # ps) base fin (bank, n) =
     (if addr < base \<or> fin \<le> addr then apply_table ps base fin (bank, n)
      else do {
        bank \<leftarrow> mem_set bank (addr - base) v;
        apply_table ps base fin (bank, n + 1)
      })"

fun header_sum :: "u8 list \<Rightarrow> nat list \<Rightarrow> u8 \<Rightarrow> u8 option" where
  "header_sum bs [] x = Some x"
| "header_sum bs (i # is) x = do { b \<leftarrow> mem_get bs i; header_sum bs is (x - b - 1) }"

definition computeHeaderChecksum :: "u8 list \<Rightarrow> u8 option" where
  "computeHeaderChecksum rom = header_sum rom [0x134..<0x14D] 0"

fun write_nops :: "nat list \<Rightarrow> u8 list \<Rightarrow> u8 list option" where
  "write_nops [] bank = Some bank"
| "write_nops (i # is) bank = do { bank \<leftarrow> mem_set bank i 0; write_nops is bank }"

definition patchBank :: "u8 list \<Rightarrow> nat \<Rightarrow> (u8 list \<times> nat) option" where
  "patchBank bankBuf bankNum = do {
     let bankBase = bankNum * 0x4000;
     let bankEnd = bankBase + 0x4000;
     (bankBuf, applied) \<leftarrow> apply_table SINGLE_PATCHES bankBase bankEnd (bankBuf, 0);
     (bankBuf, applied) \<leftarrow>
       (if bankBase \<le> HP_BAR_NOP_ADDR \<and> HP_BAR_NOP_ADDR + HP_BAR_NOP_LEN \<le> bankEnd then do {
          bankBuf \<leftarrow> write_nops (map (\<lambda>i. HP_BAR_NOP_ADDR - bankBase + i) [0..<HP_BAR_NOP_LEN]) bankBuf;
          Some (bankBuf, applied + HP_BAR_NOP_LEN)
        } else Some (bankBuf, applied));
     bankBuf \<leftarrow>
       (if bankNum = 0 then do {
          c \<leftarrow> computeHeaderChecksum bankBuf;
          mem_set bankBuf 0x14D c
        } else Some bankBuf);
     Some (bankBuf, applied)
   }"

definition TETRIS_PATCHES :: "byte_patch list" where
  "TETRIS_PATCHES = [(0x29A8, 0x00), (0x2BB0, 0x01)]"

definition MARIO_PICROSS_PATCHES :: "byte_patch list" where
  "MARIO_PICROSS_PATCHES = [(0x3FA8, 0x01)]"

definition WARIO_LAND_PATCHES :: "byte_patch list" where
  "WARIO_LAND_PATCHES = [(0x0FCD, 0x08)]"

definition LINKS_AWAKENING_PATCHES :: "byte_patch list" where
  "LINKS_AWAKENING_PATCHES = []"

definition DR_MARIO_PATCHES :: "byte_patch list" where
  "DR_MARIO_PATCHES = [(0x0AC0, 0x02)]"

text \<open>\<open>titleEquals\<close> compares \<open>n\<close> header bytes from 0x134; every call passes the title's length.\<close>

definition titleEquals :: "u8 list \<Rightarrow> string \<Rightarrow> bool" where
  "titleEquals bank0 title \<longleftrightarrow> take (length title) (drop 0x134 bank0) = map of_char title"

definition applyToBank :: "u8 list \<Rightarrow> nat \<Rightarrow> u8 list \<Rightarrow> nat \<Rightarrow> (u8 list \<times> nat) option" where
  "applyToBank bank bankNum bank0 bank0Size =
     (if bank0Size < 0x150 then Some (bank, 0)
      else
        let applyTable = (\<lambda>t. apply_table t (bankNum * 0x4000) (bankNum * 0x4000 + 0x4000) (bank, 0))
        in if titleEquals bank0 ''TETRIS'' then applyTable TETRIS_PATCHES
           else if titleEquals bank0 ''MARIO'S PICROS'' \<or> titleEquals bank0 ''MARIOS PICROSS''
             then applyTable MARIO_PICROSS_PATCHES
           else if titleEquals bank0 ''SUPER MARIOLAND3'' \<or> titleEquals bank0 ''WARIOLAND''
                 \<or> titleEquals bank0 ''WARIO LAND'' \<or> titleEquals bank0 ''WARIO_LAND''
             then applyTable WARIO_LAND_PATCHES
           else if titleEquals bank0 ''ZELDA'' then applyTable LINKS_AWAKENING_PATCHES
           else if titleEquals bank0 ''DR.MARIO'' \<or> titleEquals bank0 ''DR MARIO''
             then applyTable DR_MARIO_PATCHES
           else Some (bank, 0))"

section \<open>Patchers stay inside the bank\<close>

lemma apply_table_ok:
  "fin - base \<le> length bank \<Longrightarrow>
   okp (apply_table ps base fin (bank, n)) (\<lambda>(bank', n'). length bank' = length bank)"
proof (induction ps base fin "(bank, n)" arbitrary: bank n rule: apply_table.induct)
  case (1 base fin bank n)
  then show ?case by simp
next
  case (2 addr v ps base fin bank n)
  show ?case
  proof (cases "addr < base \<or> fin \<le> addr")
    case True
    then show ?thesis using 2 by simp
  next
    case False
    then have i: "addr - base < length bank" using 2(3) by linarith
    show ?thesis using 2(2) [OF False _ ] 2(3) False i by (simp add: okp_iff)
  qed
qed

lemma write_nops_ok:
  "\<forall>i\<in>set is. i < length bank \<Longrightarrow> okp (write_nops is bank) (\<lambda>b. length b = length bank)"
proof (induction "is" arbitrary: bank)
  case (Cons i "is")
  then show ?case using Cons.IH [of "bank[i := 0]"] by simp
qed simp

lemma header_sum_ok: "\<forall>i\<in>set is. i < length bs \<Longrightarrow> okp (header_sum bs is x) (\<lambda>_. True)"
  by (induction "is" arbitrary: x) auto

lemma patchBank_ok:
  assumes "length bank = 0x4000"
  shows "okp (patchBank bank k) (\<lambda>(bank', n). length bank' = 0x4000)"
  unfolding patchBank_def Let_def
  apply (rule okp_bind2I [OF apply_table_ok])
   apply (simp add: assms)
  apply (rule okp_bind2I [where P = "\<lambda>b n. length b = 0x4000"])
   apply (rule okp_if)
    apply (rule okp_bindI [OF write_nops_ok])
     apply (auto simp: assms HP_BAR_NOP_ADDR_def HP_BAR_NOP_LEN_def)[1]
    apply (simp add: assms)
   apply (simp add: assms)
  apply (rule okp_bindI [where P = "\<lambda>b. length b = 0x4000"])
   apply (rule okp_if)
    apply (rule okp_bindI [where P = "\<lambda>_. True"])
     apply (simp add: computeHeaderChecksum_def header_sum_ok)
    apply simp_all
  done

lemma applyToBank_ok:
  "length bank = 0x4000 \<Longrightarrow> okp (applyToBank bank k bank0 sz) (\<lambda>(bank', n). length bank' = 0x4000)"
  using apply_table_ok [of "k * 0x4000 + 0x4000" "k * 0x4000" bank]
  by (simp add: applyToBank_def Let_def)

end
