(* ===== verification/Emu_State.thy ===== *)
theory Emu_State
  imports Emu_Patches
begin

text \<open>
  The state of \<open>class GBEmulator\<close> (components/gb_core/gb/gb_emulator.h), one record per section of
  the class, and the well-formedness invariant \<open>wf_gb\<close> every operation keeps.  Buffers
  allocated in \<open>init()\<close> are lists of their allocated size; a pointer that may be null is an
  \<open>option\<close>.  What the class gets from outside is part of the state: the ROM reader callback
  (\<open>rom_io\<close>, given the number of the call, the offset and the byte count, it returns
  success and what the destination holds afterwards), the clock (\<open>millis_at\<close>, given the number of
  the call), and the two sound hooks.  \<open>'snd\<close> is the sound context's type.
\<close>

datatype MBCType = MBC_NONE | MBC_MBC1 | MBC_MBC2 | MBC_MBC3 | MBC_MBC5

record cpu_regs =
  reg_pc :: u16
  reg_sp :: u16
  reg_a :: u8
  reg_f :: u8
  reg_b :: u8
  reg_c :: u8
  reg_d :: u8
  reg_e :: u8
  reg_h :: u8
  reg_l :: u8
  ime :: bool
  halted :: bool
  haltBug :: bool
  eiPending :: bool
  ie :: u8
  iflag :: u8

record lcd_regs =
  lcdc :: u8
  lcdstat :: u8
  scy :: u8
  scx :: u8
  ly :: u8
  lyc :: u8
  bgp :: u8
  obp0 :: u8
  obp1 :: u8
  wy :: u8
  wx :: u8
  ppuMode :: u8
  ppuDots :: int
  frameOvershoot :: int
  lcdChanged :: bool
  lcdFirstFrame :: bool
  renderThisFrame :: bool
  windowLine :: int
  prevStatLine :: bool

record timer_regs =
  tima :: u8
  tma :: u8
  tac :: u8
  timerCounter :: u16
  divCounter :: u16
  divReg :: u8

record joypad_regs =
  joyDpad :: u8
  joyButtons :: u8
  joypadSelect :: u8
  prevInputButtons :: u8
  sbReg :: u8
  scReg :: u8

record mbc_regs =
  mbcType :: MBCType
  romBank :: u16
  ramBank :: u8
  ramEnabled :: bool
  mbc1Mode :: u8
  mbc1Bank2 :: u8

text \<open>
  ROM access.  \<open>mapped0\<close>/\<open>mapped1\<close> are \<open>mappedRomBanks_[0/1]\<close> as offsets into \<open>romData_\<close>.
  \<open>romFile_\<close> is an \<open>FsFile\<close> in its ROM mode (sdfat_compat.cpp): attached or not, length, position.
\<close>

record rom_regs =
  romData :: "u8 list option"
  romSize :: nat
  romBankCount :: nat
  romInRam :: bool
  mapped0 :: "nat option"
  mapped1 :: "nat option"
  romBank0 :: "u8 list"
  bankCache :: "u8 list"
  cacheSlots :: nat
  cacheMap :: "int list"
  cacheNextSlot :: nat
  romIoFailed :: bool
  pokemonRedPatch :: bool
  gbPatchEnabled :: bool
  fileAttached :: bool
  fileLength :: nat
  filePosition :: nat
  romIo :: "nat \<Rightarrow> nat \<Rightarrow> nat \<Rightarrow> bool \<times> (nat \<Rightarrow> u8)"
  romIoCalls :: nat

record rtc_regs =
  rtcSec :: u8
  rtcMin :: u8
  rtcHour :: u8
  rtcDay :: u8
  rtcDayHi :: u8
  rtcLatched :: "u8 list"
  rtcLatchPrev :: bool
  rtcLastTickMs :: u32
  millis_at :: "nat \<Rightarrow> u32"
  millis_calls :: nat

record cgb_regs =
  isCgb :: bool
  vram1 :: "u8 list option"
  wramExtra :: "u8 list option"
  vramBank :: u8
  wramBank :: u8
  key1 :: u8
  doubleSpeed :: bool
  bcpsReg :: u8
  ocpsReg :: u8
  bgPalette :: "u8 list"
  objPalette :: "u8 list"
  hdma1 :: u8
  hdma2 :: u8
  hdma3 :: u8
  hdma4 :: u8
  hdma5 :: u8

record mem_bufs =
  framebuf :: "u8 list option"
  colorFramebuf :: "u8 list option"
  vram :: "u8 list"
  wram :: "u8 list"
  oam :: "u8 list"
  hram :: "u8 list"
  sramData :: "u8 list"
  sramSize :: nat
  sramPersistSize :: nat
  sramDirty :: bool
  soundRegs :: "u8 list"

text \<open>The cheat table \<open>cheats::g_active\<close>, its first \<open>g_activeCount\<close> entries (gb/cheats.h).\<close>

datatype SystemType =
  SYS_NONE | SYS_GAMEBOY | SYS_CHIP8 | SYS_NES | SYS_ZX_SPECTRUM | SYS_ZMACHINE | SYS_DOOM

record cheat =
  cheat_system :: SystemType
  cheat_address :: u16
  cheat_value :: u8
  cheat_compare :: u8
  cheat_useCompare :: bool
  cheat_active :: bool

record 'snd gb =
  cpu :: cpu_regs
  lcd :: lcd_regs
  timer :: timer_regs
  joy :: joypad_regs
  mbc :: mbc_regs
  rom :: rom_regs
  rtc :: rtc_regs
  cgb :: cgb_regs
  bufs :: mem_bufs
  cheats :: "cheat list"
  shadeRemap :: "u8 list"
  soundContext :: 'snd
  soundWrite :: "('snd \<Rightarrow> u16 \<Rightarrow> u8 \<Rightarrow> 'snd) option"
  soundRead :: "('snd \<Rightarrow> u16 \<Rightarrow> u8) option"

section \<open>Buffer sizes\<close>

definition GB_W :: nat where "GB_W = 160"
definition GB_H :: nat where "GB_H = 144"
definition ROM_BANK_SIZE :: nat where "ROM_BANK_SIZE = 0x4000"
definition RAM_BANK_SIZE :: nat where "RAM_BANK_SIZE = 0x2000"
definition GB_FB_SIZE :: nat where "GB_FB_SIZE = (GB_W * GB_H) div 4"
definition GB_FB_STRIDE :: nat where "GB_FB_STRIDE = GB_W div 4"
definition GB_VRAM_SIZE :: nat where "GB_VRAM_SIZE = 0x2000"
definition GB_WRAM_SIZE :: nat where "GB_WRAM_SIZE = 0x2000"

section \<open>The mapped bank pointers\<close>

text \<open>\<open>refreshMappedRomBanks\<close>: recomputed whenever the mapper changes.\<close>

definition mapped_low :: "'snd gb \<Rightarrow> nat option" where
  "mapped_low s =
     (if \<not> romInRam (rom s) \<or> romData (rom s) = None \<or> romBankCount (rom s) = 0 then None
      else
        let low = (if mbcType (mbc s) = MBC_MBC1 \<and> mbc1Mode (mbc s) = 1
                   then unat (mbc1Bank2 (mbc s)) * 32 else 0)
        in Some (low mod romBankCount (rom s) * ROM_BANK_SIZE))"

definition mapped_high :: "'snd gb \<Rightarrow> nat option" where
  "mapped_high s =
     (if \<not> romInRam (rom s) \<or> romData (rom s) = None \<or> romBankCount (rom s) = 0 then None
      else Some (unat (romBank (mbc s)) mod romBankCount (rom s) * ROM_BANK_SIZE))"

definition refreshMappedRomBanks :: "'snd gb \<Rightarrow> 'snd gb" where
  "refreshMappedRomBanks s =
     s\<lparr>rom := (rom s)\<lparr>mapped0 := mapped_low s, mapped1 := mapped_high s\<rparr>\<rparr>"

section \<open>Well-formed states\<close>

definition wf_rom :: "rom_regs \<Rightarrow> bool" where
  "wf_rom r \<longleftrightarrow>
     0 < romBankCount r \<and> romBankCount r \<le> 512 \<and>
     romInRam r = (romData r \<noteq> None) \<and>
     (\<forall>d. romData r = Some d \<longrightarrow> length d = romBankCount r * ROM_BANK_SIZE) \<and>
     (romData r = None \<longrightarrow> length (romBank0 r) = ROM_BANK_SIZE \<and>
        length (bankCache r) = cacheSlots r * ROM_BANK_SIZE \<and>
        length (cacheMap r) = cacheSlots r \<and>
        (0 < cacheSlots r \<longrightarrow> cacheNextSlot r < cacheSlots r))"

definition wf_cgb :: "cgb_regs \<Rightarrow> bool" where
  "wf_cgb c \<longleftrightarrow>
     (isCgb c \<longrightarrow> vram1 c \<noteq> None \<and> wramExtra c \<noteq> None) \<and>
     (\<forall>v. vram1 c = Some v \<longrightarrow> length v = 0x2000) \<and>
     (\<forall>w. wramExtra c = Some w \<longrightarrow> length w = 0x6000) \<and>
     unat (wramBank c) < 8 \<and> length (bgPalette c) = 64 \<and> length (objPalette c) = 64"

definition wf_bufs :: "mem_bufs \<Rightarrow> bool" where
  "wf_bufs m \<longleftrightarrow>
     length (vram m) = GB_VRAM_SIZE \<and> length (wram m) = GB_WRAM_SIZE \<and>
     length (oam m) = 0xA0 \<and> length (hram m) = 0x80 \<and> length (soundRegs m) = 0x30 \<and>
     length (sramData m) = sramSize m \<and> sramPersistSize m \<le> 32768 \<and>
     sramSize m = (if sramPersistSize m = 0 then 1 else sramPersistSize m) \<and>
     (\<forall>f. framebuf m = Some f \<longrightarrow> length f = GB_FB_SIZE) \<and>
     (\<forall>f. colorFramebuf m = Some f \<longrightarrow> length f = GB_W * GB_H)"

definition wf_ppu :: "lcd_regs \<Rightarrow> bool" where
  "wf_ppu l \<longleftrightarrow>
     unat (ly l) < 154 \<and> 0 \<le> ppuDots l \<and> ppuDots l < 456 \<and> ppuMode l \<le> 3 \<and>
     0 \<le> windowLine l \<and> windowLine l \<le> uint (ly l) + (if ppuMode l = 0 then 1 else 0)"

definition wf_timer :: "timer_regs \<Rightarrow> bool" where
  "wf_timer t \<longleftrightarrow> unat (divCounter t) < 256 \<and> unat (timerCounter t) < 1024"

definition wf_gb :: "'snd gb \<Rightarrow> bool" where
  "wf_gb s \<longleftrightarrow>
     wf_rom (rom s) \<and> wf_cgb (cgb s) \<and> wf_bufs (bufs s) \<and> wf_timer (timer s) \<and>
     length (rtcLatched (rtc s)) = 5 \<and> length (shadeRemap s) = 4 \<and>
     (mbcType (mbc s) = MBC_MBC2 \<longrightarrow> sramPersistSize (bufs s) = 512) \<and>
     isCgb (cgb s) = (colorFramebuf (bufs s) \<noteq> None) \<and>
     mapped0 (rom s) = mapped_low s \<and> mapped1 (rom s) = mapped_high s"

named_theorems wf_simps \<open>unfolding the well-formedness invariant\<close>

lemmas [wf_simps] = wf_gb_def wf_rom_def wf_cgb_def wf_bufs_def wf_timer_def
lemmas size_defs = GB_W_def GB_H_def ROM_BANK_SIZE_def RAM_BANK_SIZE_def GB_FB_SIZE_def
  GB_FB_STRIDE_def GB_VRAM_SIZE_def GB_WRAM_SIZE_def

lemma refresh_mapped [simp]:
  "mapped_low (refreshMappedRomBanks s) = mapped_low s"
  "mapped_high (refreshMappedRomBanks s) = mapped_high s"
  by (simp_all add: mapped_low_def mapped_high_def refreshMappedRomBanks_def)

lemma wf_refresh_fixed: "wf_gb s \<Longrightarrow> refreshMappedRomBanks s = s"
  by (simp add: wf_gb_def refreshMappedRomBanks_def)

text \<open>The mapped bank pointers stay inside the ROM image.\<close>

lemma bank_end: "0 < n \<Longrightarrow> m mod n * k + k \<le> n * (k :: nat)"
  by (metis Suc_leI add.commute mod_less_divisor mult_Suc mult_le_mono1)

lemma mapped_low_bound:
  assumes "wf_gb s" "mapped_low s = Some off" "romData (rom s) = Some d"
  shows "off + ROM_BANK_SIZE \<le> length d"
proof -
  from assms(1) have "wf_rom (rom s)" by (simp add: wf_gb_def)
  with assms(2,3) show ?thesis
    by (auto simp: wf_rom_def mapped_low_def Let_def bank_end split: if_splits)
qed

lemma mapped_high_bound:
  assumes "wf_gb s" "mapped_high s = Some off" "romData (rom s) = Some d"
  shows "off + ROM_BANK_SIZE \<le> length d"
proof -
  from assms(1) have "wf_rom (rom s)" by (simp add: wf_gb_def)
  with assms(2,3) show ?thesis
    by (auto simp: wf_rom_def mapped_high_def bank_end split: if_splits)
qed

section \<open>Frame rules: what the invariant does not depend on\<close>

lemma mapped_frame [simp]:
  "mapped_low (s\<lparr>cpu := x_cpu\<rparr>) = mapped_low s"
  "mapped_high (s\<lparr>cpu := x_cpu\<rparr>) = mapped_high s"
  "mapped_low (s\<lparr>lcd := x_lcd\<rparr>) = mapped_low s"
  "mapped_high (s\<lparr>lcd := x_lcd\<rparr>) = mapped_high s"
  "mapped_low (s\<lparr>timer := x_timer\<rparr>) = mapped_low s"
  "mapped_high (s\<lparr>timer := x_timer\<rparr>) = mapped_high s"
  "mapped_low (s\<lparr>joy := x_joy\<rparr>) = mapped_low s"
  "mapped_high (s\<lparr>joy := x_joy\<rparr>) = mapped_high s"
  "mapped_low (s\<lparr>rtc := x_rtc\<rparr>) = mapped_low s"
  "mapped_high (s\<lparr>rtc := x_rtc\<rparr>) = mapped_high s"
  "mapped_low (s\<lparr>cgb := x_cgb\<rparr>) = mapped_low s"
  "mapped_high (s\<lparr>cgb := x_cgb\<rparr>) = mapped_high s"
  "mapped_low (s\<lparr>bufs := x_bufs\<rparr>) = mapped_low s"
  "mapped_high (s\<lparr>bufs := x_bufs\<rparr>) = mapped_high s"
  "mapped_low (s\<lparr>cheats := x_cheats\<rparr>) = mapped_low s"
  "mapped_high (s\<lparr>cheats := x_cheats\<rparr>) = mapped_high s"
  "mapped_low (s\<lparr>shadeRemap := x_shadeRemap\<rparr>) = mapped_low s"
  "mapped_high (s\<lparr>shadeRemap := x_shadeRemap\<rparr>) = mapped_high s"
  "mapped_low (s\<lparr>soundContext := x_soundContext\<rparr>) = mapped_low s"
  "mapped_high (s\<lparr>soundContext := x_soundContext\<rparr>) = mapped_high s"
  by (simp_all add: mapped_low_def mapped_high_def)

lemma wf_frame [simp]:
  "wf_gb (s\<lparr>cpu := c\<rparr>) = wf_gb s"
  "wf_gb (s\<lparr>lcd := l\<rparr>) = wf_gb s"
  "wf_gb (s\<lparr>joy := j\<rparr>) = wf_gb s"
  "wf_gb (s\<lparr>cheats := cs\<rparr>) = wf_gb s"
  "wf_gb (s\<lparr>soundContext := sc\<rparr>) = wf_gb s"
  by (simp_all add: wf_gb_def)

lemma wf_set_timer: "wf_gb s \<Longrightarrow> wf_timer t \<Longrightarrow> wf_gb (s\<lparr>timer := t\<rparr>)"
  by (simp add: wf_gb_def)

lemma wf_set_rtc: "wf_gb s \<Longrightarrow> length (rtcLatched r) = 5 \<Longrightarrow> wf_gb (s\<lparr>rtc := r\<rparr>)"
  by (simp add: wf_gb_def)

lemma wf_set_cgb: "wf_gb s \<Longrightarrow> wf_cgb c \<Longrightarrow> isCgb c = isCgb (cgb s) \<Longrightarrow> wf_gb (s\<lparr>cgb := c\<rparr>)"
  by (simp add: wf_gb_def)

lemma wf_set_bufs:
  "wf_gb s \<Longrightarrow> wf_bufs b \<Longrightarrow> sramPersistSize b = sramPersistSize (bufs s) \<Longrightarrow>
   (colorFramebuf b = None) = (colorFramebuf (bufs s) = None) \<Longrightarrow> wf_gb (s\<lparr>bufs := b\<rparr>)"
  by (simp add: wf_gb_def)

lemma wf_gbD:
  assumes "wf_gb s"
  shows "wf_rom (rom s)" "wf_cgb (cgb s)" "wf_bufs (bufs s)" "wf_timer (timer s)"
    "length (rtcLatched (rtc s)) = 5" "length (shadeRemap s) = 4"
    "mbcType (mbc s) = MBC_MBC2 \<Longrightarrow> sramPersistSize (bufs s) = 512"
    "mapped0 (rom s) = mapped_low s" "mapped1 (rom s) = mapped_high s"
  using assms by (simp_all add: wf_gb_def)

text \<open>Only the mapper and the bank pointers change: the invariant needs the pointers refreshed.\<close>

lemma wf_refresh:
  "wf_gb s \<Longrightarrow> mbcType m = mbcType (mbc s) \<Longrightarrow> wf_gb (refreshMappedRomBanks (s\<lparr>mbc := m\<rparr>))"
  by (simp add: wf_gb_def refreshMappedRomBanks_def mapped_low_def mapped_high_def wf_rom_def)

end
