(* ===== verification/Emu_Rom.thy ===== *)
theory Emu_Rom
  imports Emu_State
begin

text \<open>
  What the memory bus calls: the virtual MBC3 clock (\<open>tickRTC\<close>), the ROM file in its callback mode
  (\<open>FsFile::attachRom/seek/read\<close>, sdfat_compat.cpp), the bank cache (\<open>readCachedBank\<close>), the cheat
  table (gb/cheats.h) and the STAT interrupt line (\<open>checkStatInterrupt\<close>).
\<close>

section \<open>The MBC3 real-time clock\<close>

definition tickRTC :: "rtc_regs \<Rightarrow> rtc_regs" where
  "tickRTC r =
     (let now = millis_at r (millis_calls r);
          r = r\<lparr>millis_calls := millis_calls r + 1\<rparr>
      in if rtcLastTickMs r = 0 then r\<lparr>rtcLastTickMs := now\<rparr>
         else if rtcDayHi r AND 0x40 \<noteq> 0 then r\<lparr>rtcLastTickMs := now\<rparr>
         else
           let elapsed = (now - rtcLastTickMs r) div 1000
           in if elapsed = 0 then r
              else
                let r = r\<lparr>rtcLastTickMs := rtcLastTickMs r + elapsed * 1000\<rparr>;
                    day = unat (rtcDay r) + 256 * unat (rtcDayHi r AND 1);
                    total = day * 86400 + unat (rtcHour r) * 3600 + unat (rtcMin r) * 60
                              + unat (rtcSec r) + unat elapsed;
                    days = total div 86400;
                    r = (if 512 \<le> days then r\<lparr>rtcDayHi := rtcDayHi r OR 0x80\<rparr> else r);
                    day = days mod 512;
                    total = total mod 86400
                in r\<lparr>rtcHour := of_nat (total div 3600),
                     rtcMin := of_nat (total mod 3600 div 60),
                     rtcSec := of_nat (total mod 60),
                     rtcDay := of_nat day,
                     rtcDayHi := (rtcDayHi r AND 0xC0) OR of_nat (day div 256)\<rparr>)"

lemma tickRTC_latched [simp]: "rtcLatched (tickRTC r) = rtcLatched r"
  by (simp add: tickRTC_def Let_def)

section \<open>The ROM file\<close>

definition fs_seek :: "nat \<Rightarrow> rom_regs \<Rightarrow> bool \<times> rom_regs" where
  "fs_seek offset r =
     (if fileAttached r then
        (if fileLength r < offset then (False, r) else (True, r\<lparr>filePosition := offset\<rparr>))
      else (False, r))"

text \<open>The count \<open>read\<close> returns, the bytes the destination holds (if it was touched), the file.\<close>

definition fs_read :: "nat \<Rightarrow> rom_regs \<Rightarrow> int \<times> u8 list option \<times> rom_regs" where
  "fs_read bytes r =
     (if \<not> fileAttached r then (-1, None, r)
      else if fileLength r < filePosition r \<or> fileLength r - filePosition r < bytes then (-1, None, r)
      else
        let (good, buf) = romIo r (romIoCalls r) (filePosition r) bytes;
            dst = map buf [0..<bytes];
            r = r\<lparr>romIoCalls := romIoCalls r + 1\<rparr>
        in if good then (int bytes, Some dst, r\<lparr>filePosition := filePosition r + bytes\<rparr>)
           else (-1, Some dst, r))"

section \<open>The bank cache\<close>

fun cache_find :: "int list \<Rightarrow> nat \<Rightarrow> nat list \<Rightarrow> nat option option" where
  "cache_find m bank [] = Some None"
| "cache_find m bank (i # is) =
     do { b \<leftarrow> mem_get m i; if b = int bank then Some (Some i) else cache_find m bank is }"

text \<open>The two patch hooks a freshly loaded bank goes through.\<close>

definition patch_loaded :: "nat \<Rightarrow> nat \<Rightarrow> rom_regs \<Rightarrow> rom_regs option" where
  "patch_loaded bank slot r = do {
     r \<leftarrow> (if pokemonRedPatch r then do {
              b \<leftarrow> mem_slice (bankCache r) (slot * ROM_BANK_SIZE) ROM_BANK_SIZE;
              (b, n) \<leftarrow> patchBank b bank;
              c \<leftarrow> mem_blit (bankCache r) (slot * ROM_BANK_SIZE) b;
              Some (r\<lparr>bankCache := c\<rparr>)
            } else Some r);
     (if gbPatchEnabled r then do {
        b \<leftarrow> mem_slice (bankCache r) (slot * ROM_BANK_SIZE) ROM_BANK_SIZE;
        (b, n) \<leftarrow> applyToBank b bank (romBank0 r) ROM_BANK_SIZE;
        c \<leftarrow> mem_blit (bankCache r) (slot * ROM_BANK_SIZE) b;
        Some (r\<lparr>bankCache := c\<rparr>)
      } else Some r)
   }"

text \<open>Without cache slots a byte is read straight from the file; \<open>None\<close> is the I/O failure.\<close>

definition read_uncached :: "nat \<Rightarrow> rom_regs \<Rightarrow> u8 option \<times> rom_regs" where
  "read_uncached off r =
     (let (sought, r) = fs_seek off r
      in if \<not> sought then (None, r)
         else let (n, dst, r) = fs_read 1 r
              in (if n \<noteq> 1 then None else map_option hd dst, r))"

text \<open>A miss: the slot is filled from the file, mapped and patched; \<open>False\<close> is the I/O failure.\<close>

definition load_bank :: "nat \<Rightarrow> nat \<Rightarrow> rom_regs \<Rightarrow> (bool \<times> rom_regs) option" where
  "load_bank bank slot r =
     (let (sought, r) = fs_seek (bank * ROM_BANK_SIZE) r
      in if \<not> sought then Some (False, r)
         else
           let (n, dst, r) = fs_read ROM_BANK_SIZE r
           in do {
             cache \<leftarrow> (case dst of
                 None \<Rightarrow> Some (bankCache r)
               | Some d \<Rightarrow> mem_blit (bankCache r) (slot * ROM_BANK_SIZE) d);
             let r = r\<lparr>bankCache := cache\<rparr>;
             (if n \<noteq> int ROM_BANK_SIZE then Some (False, r)
              else do {
                m \<leftarrow> mem_set (cacheMap r) slot (int bank);
                r \<leftarrow> patch_loaded bank slot (r\<lparr>cacheMap := m\<rparr>);
                Some (True, r)
              })
           })"

definition readCachedBank :: "nat \<Rightarrow> nat \<Rightarrow> rom_regs \<Rightarrow> (u8 \<times> rom_regs) option" where
  "readCachedBank bank offset r =
     (if cacheSlots r = 0 then
        (case read_uncached (bank * ROM_BANK_SIZE + offset) r of
           (None, r) \<Rightarrow> Some (0xFF, r\<lparr>romIoFailed := True\<rparr>)
         | (Some v, r) \<Rightarrow> Some (v, r))
      else do {
        hit \<leftarrow> cache_find (cacheMap r) bank [0..<cacheSlots r];
        (case hit of
           Some i \<Rightarrow> do {
             v \<leftarrow> mem_get (bankCache r) (i * ROM_BANK_SIZE + offset);
             Some (v, r)
           }
         | None \<Rightarrow> do {
             let slot = cacheNextSlot r;
             (good, r) \<leftarrow> load_bank bank slot
               (r\<lparr>cacheNextSlot := (cacheNextSlot r + 1) mod cacheSlots r\<rparr>);
             (if \<not> good then Some (0xFF, r\<lparr>romIoFailed := True\<rparr>)
              else do {
                v \<leftarrow> mem_get (bankCache r) (slot * ROM_BANK_SIZE + offset);
                Some (v, r)
              })
           })
      })"

section \<open>Cheats\<close>

text \<open>\<open>lookup\<close> returns the value of the first matching active cheat; \<open>None\<close> is \<open>MISS\<close> (0xFFFF, no
  byte value).\<close>

fun cheat_lookup :: "cheat list \<Rightarrow> SystemType \<Rightarrow> u16 \<Rightarrow> u8 \<Rightarrow> u8 option" where
  "cheat_lookup [] sys addr orig = None"
| "cheat_lookup (c # cs) sys addr orig =
     (if \<not> cheat_active c then cheat_lookup cs sys addr orig
      else if cheat_system c \<noteq> sys then cheat_lookup cs sys addr orig
      else if cheat_address c \<noteq> addr then cheat_lookup cs sys addr orig
      else if cheat_useCompare c \<and> orig \<noteq> cheat_compare c then cheat_lookup cs sys addr orig
      else Some (cheat_value c))"

definition cheatWrap :: "'snd gb \<Rightarrow> u16 \<Rightarrow> u8 \<Rightarrow> u8" where
  "cheatWrap s addr real =
     (case cheat_lookup (cheats s) SYS_GAMEBOY addr real of None \<Rightarrow> real | Some v \<Rightarrow> v)"

section \<open>The STAT interrupt line\<close>

text \<open>The line's level and its rising edge.\<close>

definition stat_line :: "lcd_regs \<Rightarrow> bool" where
  "stat_line l \<longleftrightarrow>
     (lcdstat l AND 0x40 \<noteq> 0 \<and> ly l = lyc l) \<or>
     (lcdstat l AND 0x20 \<noteq> 0 \<and> ppuMode l = 2) \<or>
     (lcdstat l AND 0x10 \<noteq> 0 \<and> ppuMode l = 1) \<or>
     (lcdstat l AND 0x08 \<noteq> 0 \<and> ppuMode l = 0)"

definition checkStatInterrupt :: "'snd gb \<Rightarrow> 'snd gb" where
  "checkStatInterrupt s =
     (if lcdc (lcd s) AND 0x80 = 0 then s\<lparr>lcd := (lcd s)\<lparr>prevStatLine := False\<rparr>\<rparr>
      else
        let line = stat_line (lcd s);
            s = (if line \<and> \<not> prevStatLine (lcd s)
                 then s\<lparr>cpu := (cpu s)\<lparr>iflag := iflag (cpu s) OR 0x02\<rparr>\<rparr> else s)
        in s\<lparr>lcd := (lcd s)\<lparr>prevStatLine := line\<rparr>\<rparr>)"

section \<open>The cache stays well-formed\<close>

lemma fs_seek_frame: "fs_seek off r = (b, r') \<Longrightarrow> r' = r\<lparr>filePosition := filePosition r'\<rparr>"
  by (auto simp: fs_seek_def split: if_splits)

lemma fs_read_frame:
  assumes "fs_read n r = (k, dst, r')"
  shows "r' = r\<lparr>filePosition := filePosition r', romIoCalls := romIoCalls r'\<rparr>"
  using assms by (cases "romIo r (romIoCalls r) (filePosition r) n")
    (auto simp: fs_read_def Let_def split: if_splits)

lemma fs_read_dst:
  assumes "fs_read n r = (k, dst, r')"
  shows "\<And>d. dst = Some d \<Longrightarrow> length d = n" "k = int n \<Longrightarrow> dst \<noteq> None"
  using assms by (cases "romIo r (romIoCalls r) (filePosition r) n";
      auto simp: fs_read_def Let_def split: if_splits)+

lemma cache_find_ok:
  "\<forall>i\<in>set is. i < length m \<Longrightarrow>
   okp (cache_find m bank is)
     (\<lambda>h. (\<forall>i. h = Some i \<longrightarrow> i \<in> set is \<and> m ! i = int bank) \<and>
          (h = None \<longrightarrow> (\<forall>i\<in>set is. m ! i \<noteq> int bank)))"
  by (induction "is") (auto simp: okp_iff)

text \<open>What a read through the cache may change.\<close>

definition same_image :: "rom_regs \<Rightarrow> rom_regs \<Rightarrow> bool" where
  "same_image r r' \<longleftrightarrow>
     romData r' = romData r \<and> romBankCount r' = romBankCount r \<and> romInRam r' = romInRam r \<and>
     romBank0 r' = romBank0 r \<and> mapped0 r' = mapped0 r \<and> mapped1 r' = mapped1 r \<and>
     cacheSlots r' = cacheSlots r \<and> romIo r' = romIo r \<and> fileLength r' = fileLength r \<and>
     fileAttached r' = fileAttached r \<and>
     pokemonRedPatch r' = pokemonRedPatch r \<and> gbPatchEnabled r' = gbPatchEnabled r"

lemma same_image_refl [simp]: "same_image r r"
  by (simp add: same_image_def)

lemma io_updates [simp]:
  "wf_rom (r\<lparr>romIoFailed := b\<rparr>) = wf_rom r"
  "wf_rom (r\<lparr>filePosition := p\<rparr>) = wf_rom r"
  "wf_rom (r\<lparr>romIoCalls := c\<rparr>) = wf_rom r"
  "same_image r0 (r\<lparr>romIoFailed := b\<rparr>) = same_image r0 r"
  "same_image r0 (r\<lparr>filePosition := p\<rparr>) = same_image r0 r"
  "same_image r0 (r\<lparr>romIoCalls := c\<rparr>) = same_image r0 r"
  "same_image r0 (r\<lparr>cacheNextSlot := n\<rparr>) = same_image r0 r"
  "same_image r0 (r\<lparr>bankCache := d\<rparr>) = same_image r0 r"
  "same_image r0 (r\<lparr>cacheMap := m\<rparr>) = same_image r0 r"
  by (simp_all add: wf_rom_def same_image_def)

lemma wf_cache_updates [simp]:
  "wf_rom r \<Longrightarrow> length d = length (bankCache r) \<Longrightarrow> wf_rom (r\<lparr>bankCache := d\<rparr>)"
  "wf_rom r \<Longrightarrow> length m = length (cacheMap r) \<Longrightarrow> wf_rom (r\<lparr>cacheMap := m\<rparr>)"
  "wf_rom r \<Longrightarrow> n < cacheSlots r \<Longrightarrow> wf_rom (r\<lparr>cacheNextSlot := n\<rparr>)"
  unfolding wf_rom_def by auto

lemma same_image_trans: "same_image r s \<Longrightarrow> same_image s t \<Longrightarrow> same_image r t"
  by (simp add: same_image_def)

lemma slot_in_cache:
  "slot < n \<Longrightarrow> slot * ROM_BANK_SIZE + ROM_BANK_SIZE \<le> n * ROM_BANK_SIZE"
  by (metis Suc_leI add.commute mult_Suc mult_le_mono1)

lemma patch_loaded_ok:
  assumes "length (bankCache r) = cacheSlots r * ROM_BANK_SIZE" "slot < cacheSlots r"
  shows "okp (patch_loaded bank slot r)
           (\<lambda>r'. \<exists>c. r' = r\<lparr>bankCache := c\<rparr> \<and> length c = length (bankCache r) \<and>
                 (\<not> pokemonRedPatch r \<longrightarrow> \<not> gbPatchEnabled r \<longrightarrow> c = bankCache r))"
proof (cases "pokemonRedPatch r \<or> gbPatchEnabled r")
  case False
  then show ?thesis by (auto simp: patch_loaded_def intro!: exI [of _ "bankCache r"])
next
  case True
  have step: "okp (mem_slice (bankCache t) (slot * ROM_BANK_SIZE) ROM_BANK_SIZE \<bind> (\<lambda>b.
        P b \<bind> (\<lambda>(b, n). mem_blit (bankCache t) (slot * ROM_BANK_SIZE) b \<bind>
        (\<lambda>c. Some (t\<lparr>bankCache := c\<rparr>))))) Q"
    if "length (bankCache t) = length (bankCache r)"
      and P: "\<And>b. length b = 0x4000 \<Longrightarrow> okp (P b) (\<lambda>(b', n :: nat). length b' = 0x4000)"
      and Q: "\<And>c. length c = length (bankCache r) \<Longrightarrow> Q (t\<lparr>bankCache := c\<rparr>)"
    for P Q and t :: rom_regs
    using that assms slot_in_cache [OF assms(2)]
    apply (intro okp_bindI [OF okp_mem_slice])
     apply simp
    apply (rule okp_bind2I [OF P])
     apply (simp add: ROM_BANK_SIZE_def)
    apply (rule okp_bindI [OF okp_mem_blit])
     apply (simp add: ROM_BANK_SIZE_def)
    apply simp
    done
  show ?thesis
    unfolding patch_loaded_def
    apply (rule okp_bindI [where P = "\<lambda>t. \<exists>c. t = r\<lparr>bankCache := c\<rparr> \<and> length c = length (bankCache r)"])
     apply (rule okp_if)
      apply (rule step [OF refl patchBank_ok])
       apply simp
      apply blast
     apply (simp, rule exI [of _ "bankCache r"], simp)
    apply (rule okp_if)
     apply (rule step [OF _ applyToBank_ok])
       apply auto [1]
      apply assumption
     using True apply auto [1]
    using True apply auto
    done
qed

definition cache_coherent :: "(nat \<Rightarrow> u8) \<Rightarrow> rom_regs \<Rightarrow> bool" where
  "cache_coherent img r \<longleftrightarrow>
     (\<forall>i < cacheSlots r. \<forall>b k. cacheMap r ! i = int b \<longrightarrow> k < ROM_BANK_SIZE \<longrightarrow>
        bankCache r ! (i * ROM_BANK_SIZE + k) = img (b * ROM_BANK_SIZE + k))"

text \<open>The reader callback delivers the image's bytes whenever it reports success.\<close>

definition rom_io_honest :: "(nat \<Rightarrow> u8) \<Rightarrow> rom_regs \<Rightarrow> bool" where
  "rom_io_honest img r \<longleftrightarrow>
     (\<forall>c off n k. fst (romIo r c off n) \<longrightarrow> k < n \<longrightarrow> snd (romIo r c off n) k = img (off + k))"

lemma fs_read_honest:
  assumes "rom_io_honest img r" "fs_read n r = (int n, Some d, r')"
  shows "d = map (\<lambda>k. img (filePosition r + k)) [0..<n]"
proof -
  obtain good buf where io: "romIo r (romIoCalls r) (filePosition r) n = (good, buf)" by fastforce
  with assms(2) have "good" "d = map buf [0..<n]"
    by (auto simp: fs_read_def Let_def split: if_splits)
  moreover from assms(1) io have "good \<Longrightarrow> k < n \<Longrightarrow> buf k = img (filePosition r + k)" for k
    unfolding rom_io_honest_def by (metis fst_conv snd_conv)
  ultimately show ?thesis by simp
qed

lemma fs_seek_pos: "fs_seek off r = (True, r') \<Longrightarrow> r' = r\<lparr>filePosition := off\<rparr>"
  by (auto simp: fs_seek_def split: if_splits)

lemma slot_disjoint:
  assumes "i \<noteq> slot" "k < ROM_BANK_SIZE"
  shows "\<not> (slot * ROM_BANK_SIZE \<le> i * ROM_BANK_SIZE + k \<and>
             i * ROM_BANK_SIZE + k < slot * ROM_BANK_SIZE + ROM_BANK_SIZE)"
proof
  assume a: "slot * ROM_BANK_SIZE \<le> i * ROM_BANK_SIZE + k \<and>
             i * ROM_BANK_SIZE + k < slot * ROM_BANK_SIZE + ROM_BANK_SIZE"
  have "(i * ROM_BANK_SIZE + k) div ROM_BANK_SIZE = i"
    using assms(2) by simp
  moreover have "(i * ROM_BANK_SIZE + k) div ROM_BANK_SIZE = slot"
    using a assms(2) by (intro div_nat_eqI) (simp_all add: mult.commute)
  ultimately show False using assms(1) by simp
qed

lemma fs_seek_keeps:
  "fs_seek off r = (b, r') \<Longrightarrow> wf_rom r' = wf_rom r \<and> same_image r r' \<and> bankCache r' = bankCache r \<and>
     cacheMap r' = cacheMap r"
  by (drule fs_seek_frame, erule ssubst) simp

lemma fs_read_keeps:
  "fs_read n r = (k, dst, r') \<Longrightarrow> wf_rom r' = wf_rom r \<and> same_image r r' \<and> bankCache r' = bankCache r \<and>
     cacheMap r' = cacheMap r"
  by (drule fs_read_frame, erule ssubst) simp

lemma read_uncached_ok:
  assumes "read_uncached off r = (v, r')"
  shows "wf_rom r' = wf_rom r" "same_image r r'"
    "rom_io_honest img r \<Longrightarrow> v = Some x \<Longrightarrow> x = img off"
proof -
  obtain b r1 where sk: "fs_seek off r = (b, r1)" by fastforce
  obtain n dst r2 where rd: "fs_read 1 r1 = (n, dst, r2)" by (metis prod_cases3)
  note k = fs_seek_keeps [OF sk] fs_read_keeps [OF rd]
  have r': "r' = r1 \<or> r' = r2"
    using assms by (simp add: read_uncached_def sk rd split: if_splits del: One_nat_def)
  have "same_image r r2" using k by (blast intro: same_image_trans)
  with r' k show "wf_rom r' = wf_rom r" "same_image r r'" by blast+
  assume h: "rom_io_honest img r" "v = Some x"
  then obtain d where d: "b" "n = 1" "dst = Some d" "x = hd d"
    using assms by (cases dst) (simp_all add: read_uncached_def sk rd split: if_splits del: One_nat_def)
  then have "r1 = r\<lparr>filePosition := off\<rparr>" using sk by (simp add: fs_seek_pos)
  then have "rom_io_honest img r1" "filePosition r1 = off" using h(1) by (simp_all add: rom_io_honest_def)
  from fs_read_honest [OF this(1), of 1 d r2] this(2) rd d show "x = img off" by simp
qed

text \<open>What the cache buffer holds once \<open>bank\<close> has been loaded into \<open>slot\<close>.\<close>

definition loaded :: "(nat \<Rightarrow> u8) \<Rightarrow> nat \<Rightarrow> nat \<Rightarrow> u8 list \<Rightarrow> u8 list \<Rightarrow> bool" where
  "loaded img bank slot c c' \<longleftrightarrow>
     (\<forall>j < length c. c' ! j =
        (if slot * ROM_BANK_SIZE \<le> j \<and> j < slot * ROM_BANK_SIZE + ROM_BANK_SIZE
         then img (bank * ROM_BANK_SIZE + (j - slot * ROM_BANK_SIZE)) else c ! j))"

lemma blit_loaded:
  assumes "slot * ROM_BANK_SIZE + ROM_BANK_SIZE \<le> length c"
    "d = map (\<lambda>k. img (bank * ROM_BANK_SIZE + k)) [0..<ROM_BANK_SIZE]"
    "mem_blit c (slot * ROM_BANK_SIZE) d = Some z"
  shows "loaded img bank slot c z"
  unfolding loaded_def using assms(1,2) by (auto simp: mem_blit_nth [OF assms(3)])

lemma load_bank_ok:
  assumes wf: "wf_rom r" and none: "romData r = None" and sl: "slot < cacheSlots r"
  shows "okp (load_bank bank slot r) (\<lambda>(good, r'). wf_rom r' \<and> same_image r r' \<and>
           (good \<longrightarrow> cacheMap r' = (cacheMap r)[slot := int bank]) \<and>
           (rom_io_honest img r \<longrightarrow> \<not> pokemonRedPatch r \<longrightarrow> \<not> gbPatchEnabled r \<longrightarrow> good \<longrightarrow>
            loaded img bank slot (bankCache r) (bankCache r')))"
proof -
  obtain b r1 where sk: "fs_seek (bank * ROM_BANK_SIZE) r = (b, r1)" by fastforce
  obtain n dst r2 where rd: "fs_read ROM_BANK_SIZE r1 = (n, dst, r2)" by (metis prod_cases3)
  note k1 = fs_seek_keeps [OF sk] and k2 = fs_read_keeps [OF rd] and d2 = fs_read_dst [OF rd]
  have w2: "wf_rom r2" "same_image r r2" "bankCache r2 = bankCache r" "cacheMap r2 = cacheMap r"
    using k1 k2 wf by (simp_all, blast intro: same_image_trans)
  have len: "length (bankCache r) = cacheSlots r * ROM_BANK_SIZE" "length (cacheMap r) = cacheSlots r"
    using wf none by (auto simp: wf_rom_def)
  have fits: "slot * ROM_BANK_SIZE + ROM_BANK_SIZE \<le> length (bankCache r)"
    using slot_in_cache [OF sl] len(1) by simp
  have blit: "okp (case dst of None \<Rightarrow> Some (bankCache r2)
        | Some d \<Rightarrow> mem_blit (bankCache r2) (slot * ROM_BANK_SIZE) d)
      (\<lambda>c. length c = length (bankCache r) \<and>
        (rom_io_honest img r \<longrightarrow> b \<longrightarrow> n = int ROM_BANK_SIZE \<longrightarrow> loaded img bank slot (bankCache r) c))"
  proof (cases dst)
    case None
    then show ?thesis using w2 d2(2) by auto
  next
    case (Some d)
    have ld: "length d = ROM_BANK_SIZE" using d2(1) Some by simp
    have honest: "d = map (\<lambda>k. img (bank * ROM_BANK_SIZE + k)) [0..<ROM_BANK_SIZE]"
      if "rom_io_honest img r" "b" "n = int ROM_BANK_SIZE"
    proof -
      have "r1 = r\<lparr>filePosition := bank * ROM_BANK_SIZE\<rparr>" using sk that by (simp add: fs_seek_pos)
      then show ?thesis
        using that fs_read_honest [of img r1 ROM_BANK_SIZE d r2] rd Some by (simp add: rom_io_honest_def)
    qed
    show ?thesis
      using okp_mem_blit [of "slot * ROM_BANK_SIZE" d "bankCache r"] fits ld
        blit_loaded [OF fits honest] w2(3) Some
      by (auto simp: okp_iff)
  qed
  have len2: "length (cacheMap r2) = cacheSlots r" "length (bankCache r2) = length (bankCache r)"
    using w2 len by simp_all
  have flags: "pokemonRedPatch r2 = pokemonRedPatch r" "gbPatchEnabled r2 = gbPatchEnabled r"
    "cacheSlots r2 = cacheSlots r"
    using w2(2) by (simp_all add: same_image_def)
  have finish: "okp (do { m \<leftarrow> mem_set (cacheMap (r2\<lparr>bankCache := c\<rparr>)) slot (int bank);
         t \<leftarrow> patch_loaded bank slot (r2\<lparr>bankCache := c, cacheMap := m\<rparr>); Some (True, t) })
      (\<lambda>(good, t). wf_rom t \<and> same_image r t \<and> cacheMap t = (cacheMap r)[slot := int bank] \<and>
         (\<not> pokemonRedPatch r \<longrightarrow> \<not> gbPatchEnabled r \<longrightarrow> bankCache t = c))"
    if c: "length c = length (bankCache r)" for c
  proof -
    let ?t = "r2\<lparr>bankCache := c, cacheMap := (cacheMap r)[slot := int bank]\<rparr>"
    have wt: "wf_rom ?t" "same_image r ?t"
      using w2 c by (simp_all only: wf_cache_updates io_updates length_list_update) simp_all
    have "okp (patch_loaded bank slot ?t \<bind> (\<lambda>t. Some (True, t)))
      (\<lambda>(good, t). wf_rom t \<and> same_image r t \<and> cacheMap t = (cacheMap r)[slot := int bank] \<and>
         (\<not> pokemonRedPatch r \<longrightarrow> \<not> gbPatchEnabled r \<longrightarrow> bankCache t = c))"
    proof (rule okp_bindI [OF patch_loaded_ok], goal_cases)
      case (3 t)
      then obtain c' where t: "t = ?t\<lparr>bankCache := c'\<rparr>" and l: "length c' = length (bankCache ?t)"
        and p: "\<not> pokemonRedPatch r \<longrightarrow> \<not> gbPatchEnabled r \<longrightarrow> c' = c"
        using flags by auto
      show ?case
        unfolding t using wf_cache_updates(1) [OF wt(1) l] wt(2) p by simp
    qed (use c len flags sl in simp_all)
    then show ?thesis using sl len2 w2(4) by simp
  qed
  show ?thesis
  proof (cases b)
    case False
    then show ?thesis using k1 wf by (simp add: load_bank_def sk)
  next
    case b: True
    show ?thesis
      unfolding load_bank_def sk rd Let_def prod.case using b
      apply (simp only: not_True_eq_False if_False)
      apply (rule okp_bindI [OF blit])
      apply (rule okp_if)
      subgoal for c using w2 by simp
      subgoal for c by (rule okp_mono [OF finish [of c]]) auto
      done
  qed
qed

lemma load_coherent:
  assumes l: "loaded img bank slot (bankCache r) (bankCache r')"
    and m: "cacheMap r' = (cacheMap r)[slot := int bank]"
    and len: "length (bankCache r) = cacheSlots r * ROM_BANK_SIZE" "length (cacheMap r) = cacheSlots r"
    and n: "cacheSlots r' = cacheSlots r" and coh: "cache_coherent img r"
  shows "cache_coherent img r'"
  unfolding cache_coherent_def
proof (intro allI impI)
  fix i b k
  assume i: "i < cacheSlots r'" "cacheMap r' ! i = int b" "k < ROM_BANK_SIZE"
  have "i * ROM_BANK_SIZE + k < length (bankCache r)"
    using slot_in_cache [of i "cacheSlots r"] i n len(1) by simp
  note v = l [unfolded loaded_def, rule_format, OF this]
  show "bankCache r' ! (i * ROM_BANK_SIZE + k) = img (b * ROM_BANK_SIZE + k)"
    using v i m n len(2) coh slot_disjoint [of i slot k]
    by (cases "i = slot") (auto simp: cache_coherent_def)
qed

text \<open>
  A read through the cache stays inside its buffers, keeps the cache well-formed and, when the
  callback is honest and no patch is enabled, either returns the image's byte and leaves the cache
  coherent or records the I/O failure.
\<close>

lemma readCachedBank_ok:
  assumes wf: "wf_rom r" and none: "romData r = None" and off: "offset < ROM_BANK_SIZE"
  shows "okp (readCachedBank bank offset r) (\<lambda>(v, r'). wf_rom r' \<and> same_image r r' \<and>
           (rom_io_honest img r \<longrightarrow> cache_coherent img r \<longrightarrow>
            \<not> pokemonRedPatch r \<longrightarrow> \<not> gbPatchEnabled r \<longrightarrow> \<not> romIoFailed r' \<longrightarrow>
            v = img (bank * ROM_BANK_SIZE + offset) \<and> cache_coherent img r'))"
    (is "okp _ ?Q")
proof (cases "cacheSlots r = 0")
  case True
  obtain v r' where rd: "read_uncached (bank * ROM_BANK_SIZE + offset) r = (v, r')" by fastforce
  note k = read_uncached_ok [OF rd]
  have "cacheSlots r' = 0" using k(2) True by (simp add: same_image_def)
  then show ?thesis
    using k wf True by (auto simp: readCachedBank_def rd cache_coherent_def split: option.split)
next
  case False
  then have slots: "cacheNextSlot r < cacheSlots r" and
    len: "length (bankCache r) = cacheSlots r * ROM_BANK_SIZE" "length (cacheMap r) = cacheSlots r"
    using wf none by (auto simp: wf_rom_def)
  let ?r0 = "r\<lparr>cacheNextSlot := (cacheNextSlot r + 1) mod cacheSlots r\<rparr>"
  have w0: "wf_rom ?r0" "romData ?r0 = None" using wf none False by simp_all
  have at: "i * ROM_BANK_SIZE + offset < cacheSlots r * ROM_BANK_SIZE" if "i < cacheSlots r" for i
    using slot_in_cache [OF that] off by simp
  have "okp (cache_find (cacheMap r) bank [0..<cacheSlots r] \<bind> (\<lambda>hit. case hit of
      Some i \<Rightarrow> mem_get (bankCache r) (i * ROM_BANK_SIZE + offset) \<bind> (\<lambda>v. Some (v, r))
    | None \<Rightarrow> load_bank bank (cacheNextSlot r) ?r0 \<bind> (\<lambda>(good, t).
        if \<not> good then Some (0xFF, t\<lparr>romIoFailed := True\<rparr>)
        else mem_get (bankCache t) (cacheNextSlot r * ROM_BANK_SIZE + offset) \<bind> (\<lambda>v. Some (v, t))))) ?Q"
  proof (rule okp_bindI [OF cache_find_ok], use len in simp, goal_cases)
    case (1 hit)
    show ?case
    proof (cases hit)
      case (Some i)
      with 1 have i: "i < cacheSlots r" "cacheMap r ! i = int bank" by auto
      with Some wf off at [OF i(1)] len show ?thesis by (auto simp: cache_coherent_def)
    next
      case None
      show ?thesis
        unfolding None option.case
      proof (rule okp_bind2I [OF load_bank_ok [OF w0, of "cacheNextSlot r" bank img]], goal_cases)
        case (2 good t)
        have lt: "length (bankCache t) = cacheSlots r * ROM_BANK_SIZE" "cacheSlots t = cacheSlots r"
          using 2 none by (auto simp: wf_rom_def same_image_def)
        have s: "same_image r t" using 2 by (simp add: same_image_def)
        show ?case
        proof (cases good)
          case True
          have c: "v = img (bank * ROM_BANK_SIZE + offset) \<and> cache_coherent img t"
            if h: "rom_io_honest img r" "cache_coherent img r" "\<not> pokemonRedPatch r" "\<not> gbPatchEnabled r"
              "v = bankCache t ! (cacheNextSlot r * ROM_BANK_SIZE + offset)" for v
          proof -
            have l: "loaded img bank (cacheNextSlot r) (bankCache r) (bankCache t)"
              using 2 h True by (simp add: rom_io_honest_def)
            with load_coherent [of img bank "cacheNextSlot r" r t] 2 True len lt h(2)
            have "cache_coherent img t" by simp
            with l h(5) at [OF slots] off len show ?thesis by (simp add: loaded_def)
          qed
          with 2 True s at [OF slots] lt show ?thesis by simp
        qed (use 2 s in simp)
      qed (use slots in simp)
    qed
  qed
  then show ?thesis
    unfolding readCachedBank_def Let_def if_not_P [OF False] .
qed

end
