(* ===== verification/Emu_Bus.thy ===== *)
theory Emu_Bus
  imports Emu_Rom
begin

text \<open>
  The memory bus of \<open>GBEmulator\<close>: \<open>readByte\<close> (the hot decoder), \<open>readByteSlow\<close> (mapper, RAM and
  I/O), \<open>writeMBC\<close> and \<open>writeByte\<close>.  Every access is bounds-checked by the model, so
  \<open>readByteSlow_ok\<close> and \<open>writeByte_ok\<close> state that no address, value or mapper setting takes the code
  outside a buffer, and that the well-formedness invariant is kept.
\<close>

section \<open>Reads\<close>

definition readBank :: "nat \<Rightarrow> nat \<Rightarrow> 'snd gb \<Rightarrow> (u8 \<times> 'snd gb) option" where
  "readBank bank offset s = do {
     (v, r) \<leftarrow> readCachedBank bank offset (rom s);
     Some (v, s\<lparr>rom := r\<rparr>)
   }"

definition read_image :: "nat \<Rightarrow> 'snd gb \<Rightarrow> (u8 \<times> 'snd gb) option" where
  "read_image off s = do {
     d \<leftarrow> romData (rom s);
     v \<leftarrow> mem_get d off;
     Some (v, s)
   }"

definition read_rom_low :: "u16 \<Rightarrow> 'snd gb \<Rightarrow> (u8 \<times> 'snd gb) option" where
  "read_rom_low addr s = do {
     (real, s) \<leftarrow>
       (if mbcType (mbc s) = MBC_MBC1 \<and> mbc1Mode (mbc s) = 1 then
          (let effectiveBank = unat (mbc1Bank2 (mbc s)) * 32;
               effectiveBank = (if romBankCount (rom s) \<le> effectiveBank
                                then effectiveBank mod romBankCount (rom s) else effectiveBank)
           in if romInRam (rom s) then read_image (effectiveBank * ROM_BANK_SIZE + unat addr) s
              else if effectiveBank = 0 then do { v \<leftarrow> mem_get (romBank0 (rom s)) (unat addr); Some (v, s) }
              else readBank effectiveBank (unat addr) s)
        else if romInRam (rom s) then read_image (unat addr) s
        else do { v \<leftarrow> mem_get (romBank0 (rom s)) (unat addr); Some (v, s) });
     Some (cheatWrap s addr real, s)
   }"

definition read_rom_high :: "u16 \<Rightarrow> 'snd gb \<Rightarrow> (u8 \<times> 'snd gb) option" where
  "read_rom_high addr s = do {
     let bank = unat (romBank (mbc s));
     let bank = (if romBankCount (rom s) \<le> bank then bank mod romBankCount (rom s) else bank);
     (real, s) \<leftarrow>
       (if romInRam (rom s) then read_image (bank * ROM_BANK_SIZE + (unat addr - 0x4000)) s
        else readBank bank (unat addr - 0x4000) s);
     Some (cheatWrap s addr real, s)
   }"

definition read_vram :: "u16 \<Rightarrow> 'snd gb \<Rightarrow> u8 option" where
  "read_vram addr s =
     (case vram1 (cgb s) of
        Some v1 \<Rightarrow> if isCgb (cgb s) \<and> vramBank (cgb s) \<noteq> 0 then mem_get v1 (unat addr - 0x8000)
                   else mem_get (vram (bufs s)) (unat addr - 0x8000)
      | None \<Rightarrow> mem_get (vram (bufs s)) (unat addr - 0x8000))"

definition read_ext_ram :: "u16 \<Rightarrow> 'snd gb \<Rightarrow> (u8 \<times> 'snd gb) option" where
  "read_ext_ram addr s =
     (if \<not> ramEnabled (mbc s) then Some (0xFF, s)
      else if mbcType (mbc s) = MBC_MBC2 then do {
        v \<leftarrow> mem_get (sramData (bufs s)) (unat ((addr - 0xA000) AND 0x1FF));
        Some (0xF0 OR (v AND 0x0F), s)
      }
      else if mbcType (mbc s) = MBC_MBC3 \<and> 0x08 \<le> ramBank (mbc s) \<and> ramBank (mbc s) \<le> 0x0C then do {
        let s = s\<lparr>rtc := tickRTC (rtc s)\<rparr>;
        v \<leftarrow> mem_get (rtcLatched (rtc s)) (unat (ramBank (mbc s)) - 8);
        Some (v, s)
      }
      else if ramBank (mbc s) \<le> 3 then
        (let idx = unat (ramBank (mbc s)) * RAM_BANK_SIZE + (unat addr - 0xA000)
         in if sramPersistSize (bufs s) \<le> idx then Some (0xFF, s)
            else do { v \<leftarrow> mem_get (sramData (bufs s)) idx; Some (v, s) })
      else Some (0xFF, s))"

text \<open>The two halves of work RAM, by an address in \<open>C000-DFFF\<close> (echo reads arrive mirrored).\<close>

definition read_wram :: "nat \<Rightarrow> 'snd gb \<Rightarrow> u8 option" where
  "read_wram a s =
     (if a < 0xD000 then mem_get (wram (bufs s)) (a - 0xC000)
      else (case wramExtra (cgb s) of
          Some x \<Rightarrow> if isCgb (cgb s) \<and> 2 \<le> wramBank (cgb s)
                    then mem_get x ((unat (wramBank (cgb s)) - 2) * 0x1000 + (a - 0xD000))
                    else mem_get (wram (bufs s)) (a - 0xC000)
        | None \<Rightarrow> mem_get (wram (bufs s)) (a - 0xC000)))"

definition is_sound_reg :: "nat \<Rightarrow> bool" where
  "is_sound_reg a \<longleftrightarrow>
     0xFF10 \<le> a \<and> a \<le> 0xFF14 \<or> 0xFF16 \<le> a \<and> a \<le> 0xFF1E \<or>
     0xFF20 \<le> a \<and> a \<le> 0xFF26 \<or> 0xFF30 \<le> a \<and> a \<le> 0xFF3F"

definition read_joypad :: "joypad_regs \<Rightarrow> u8" where
  "read_joypad j =
     (let result = 0xCF;
          result = (if joypadSelect j AND 0x10 = 0 then result AND (joyDpad j OR 0xF0) else result);
          result = (if joypadSelect j AND 0x20 = 0 then result AND (joyButtons j OR 0xF0) else result)
      in result)"

text \<open>The colour registers, which read 0xFF on a monochrome cartridge.\<close>

definition read_cgb_reg :: "nat \<Rightarrow> cgb_regs \<Rightarrow> u8 option" where
  "read_cgb_reg a c =
     (if \<not> isCgb c then Some 0xFF
      else if a = 0xFF4D then Some (flag_if (doubleSpeed c) 0x80 OR (key1 c AND 0x01) OR 0x7E)
      else if a = 0xFF4F then Some (vramBank c OR 0xFE)
      else if a = 0xFF51 then Some (hdma1 c)
      else if a = 0xFF52 then Some (hdma2 c)
      else if a = 0xFF53 then Some (hdma3 c)
      else if a = 0xFF54 then Some (hdma4 c)
      else if a = 0xFF55 then Some (hdma5 c)
      else if a = 0xFF68 then Some (bcpsReg c)
      else if a = 0xFF69 then mem_get (bgPalette c) (unat (bcpsReg c AND 0x3F))
      else if a = 0xFF6A then Some (ocpsReg c)
      else if a = 0xFF6B then mem_get (objPalette c) (unat (ocpsReg c AND 0x3F))
      else if a = 0xFF70 then Some (wramBank c OR 0xF8)
      else Some 0xFF)"

definition read_lcd_reg :: "nat \<Rightarrow> lcd_regs \<Rightarrow> u8" where
  "read_lcd_reg a l =
     (if a = 0xFF40 then lcdc l
      else if a = 0xFF41 then
        lcdstat l OR 0x80 OR flag_if (ly l = lyc l) 4 OR (ppuMode l AND 3)
      else if a = 0xFF42 then scy l
      else if a = 0xFF43 then scx l
      else if a = 0xFF44 then (if lcdc l AND 0x80 \<noteq> 0 then ly l else 0)
      else if a = 0xFF45 then lyc l
      else if a = 0xFF47 then bgp l
      else if a = 0xFF48 then obp0 l
      else if a = 0xFF49 then obp1 l
      else if a = 0xFF4A then wy l
      else if a = 0xFF4B then wx l
      else 0xFF)"

text \<open>The \<open>switch\<close> on the I/O registers and the fall-through to high RAM.\<close>

definition read_io :: "u16 \<Rightarrow> 'snd gb \<Rightarrow> u8 option" where
  "read_io addr s =
     (let a = unat addr
      in if a = 0xFF00 then Some (read_joypad (joy s))
         else if a = 0xFF01 then Some (sbReg (joy s))
         else if a = 0xFF02 then Some (scReg (joy s) OR 0x7E)
         else if a = 0xFF04 then Some (divReg (timer s))
         else if a = 0xFF05 then Some (tima (timer s))
         else if a = 0xFF06 then Some (tma (timer s))
         else if a = 0xFF07 then Some (tac (timer s) OR 0xF8)
         else if a = 0xFF0F then Some (iflag (cpu s) OR 0xE0)
         else if is_sound_reg a then
           (case soundRead s of
              Some f \<Rightarrow> Some (f (soundContext s) addr)
            | None \<Rightarrow> mem_get (soundRegs (bufs s)) (a - 0xFF10))
         else if 0xFF40 \<le> a \<and> a \<le> 0xFF4B then Some (read_lcd_reg a (lcd s))
         else if 0xFF4C \<le> a \<and> a \<le> 0xFF70 then read_cgb_reg a (cgb s)
         else if a = 0xFFFF then Some (ie (cpu s))
         else if 0xFF80 \<le> a then mem_get (hram (bufs s)) (a - 0xFF80)
         else Some 0xFF)"

definition pure_read :: "u8 option \<Rightarrow> 'snd gb \<Rightarrow> (u8 \<times> 'snd gb) option" where
  "pure_read v s = map_option (\<lambda>v. (v, s)) v"

definition readByteSlow :: "u16 \<Rightarrow> 'snd gb \<Rightarrow> (u8 \<times> 'snd gb) option" where
  "readByteSlow addr s =
     (let a = unat addr
      in if a < 0x4000 then read_rom_low addr s
         else if a < 0x8000 then read_rom_high addr s
         else if a < 0xA000 then pure_read (read_vram addr s) s
         else if a < 0xC000 then read_ext_ram addr s
         else if a < 0xE000 then pure_read (read_wram a s) s
         else if a < 0xFE00 then pure_read (read_wram (a - 0x2000) s) s
         else if a < 0xFEA0 then pure_read (mem_get (oam (bufs s)) (a - 0xFE00)) s
         else if a < 0xFF00 then Some (0xFF, s)
         else pure_read (read_io addr s) s)"

text \<open>The hot decoder: mapped flash, high RAM and unbanked work RAM, else the slow one.\<close>

definition mapped_bank :: "u16 \<Rightarrow> rom_regs \<Rightarrow> nat option" where
  "mapped_bank addr r = (if unat addr < 0x4000 then mapped0 r else mapped1 r)"

definition readByte :: "u16 \<Rightarrow> 'snd gb \<Rightarrow> (u8 \<times> 'snd gb) option" where
  "readByte addr s =
     (let a = unat addr
      in case (if a < 0x8000 then mapped_bank addr (rom s) else None) of
           Some off \<Rightarrow> do {
             (v, s) \<leftarrow> read_image (off + unat (addr AND 0x3FFF)) s;
             Some (cheatWrap s addr v, s)
           }
         | None \<Rightarrow>
             if 0xFF80 \<le> a \<and> a \<noteq> 0xFFFF then pure_read (mem_get (hram (bufs s)) (a - 0xFF80)) s
             else if 0xC000 \<le> a \<and> a < 0xE000 \<and>
                  (a < 0xD000 \<or> \<not> isCgb (cgb s) \<or> wramBank (cgb s) < 2 \<or> wramExtra (cgb s) = None)
             then pure_read (mem_get (wram (bufs s)) (a - 0xC000)) s
             else readByteSlow addr s)"

section \<open>The mapper registers\<close>

definition mbc1_write :: "nat \<Rightarrow> u8 \<Rightarrow> mbc_regs \<Rightarrow> mbc_regs" where
  "mbc1_write a val m =
     (if a < 0x2000 then m\<lparr>ramEnabled := (val AND 0x0F = 0x0A)\<rparr>
      else if a < 0x4000 then
        (let bank = val AND 0x1F;
             bank = (if bank = 0 then 1 else bank)
         in m\<lparr>romBank := push_bit 5 (ucast (mbc1Bank2 m)) OR ucast bank\<rparr>)
      else if a < 0x6000 then
        (let m = m\<lparr>mbc1Bank2 := val AND 0x03\<rparr>
         in if mbc1Mode m = 0
            then m\<lparr>romBank := push_bit 5 (ucast (mbc1Bank2 m)) OR (romBank m AND 0x1F)\<rparr>
            else m\<lparr>ramBank := mbc1Bank2 m\<rparr>)
      else
        (let m = m\<lparr>mbc1Mode := val AND 0x01\<rparr>
         in if mbc1Mode m = 0 then m\<lparr>ramBank := 0\<rparr> else m))"

definition mbc2_write :: "u16 \<Rightarrow> u8 \<Rightarrow> mbc_regs \<Rightarrow> mbc_regs" where
  "mbc2_write addr val m =
     (if unat addr < 0x4000 then
        (if addr AND 0x0100 \<noteq> 0 then
           (let m = m\<lparr>romBank := ucast (val AND 0x0F)\<rparr>
            in if romBank m = 0 then m\<lparr>romBank := 1\<rparr> else m)
         else m\<lparr>ramEnabled := (val AND 0x0F = 0x0A)\<rparr>)
      else m)"

definition mbc3_write :: "nat \<Rightarrow> u8 \<Rightarrow> mbc_regs \<Rightarrow> mbc_regs" where
  "mbc3_write a val m =
     (if a < 0x2000 then m\<lparr>ramEnabled := (val AND 0x0F = 0x0A)\<rparr>
      else if a < 0x4000 then
        (let m = m\<lparr>romBank := ucast (val AND 0x7F)\<rparr>
         in if romBank m = 0 then m\<lparr>romBank := 1\<rparr> else m)
      else if a < 0x6000 then m\<lparr>ramBank := val\<rparr>
      else m)"

text \<open>The latch window 6000-7FFF of the MBC3.\<close>

definition rtc_latch_write :: "u8 \<Rightarrow> rtc_regs \<Rightarrow> rtc_regs" where
  "rtc_latch_write val r =
     (let r = (if val = 0x01 \<and> rtcLatchPrev r = False then
                 (let r = tickRTC r
                  in r\<lparr>rtcLatched := [rtcSec r, rtcMin r, rtcHour r, rtcDay r, rtcDayHi r]\<rparr>)
               else r)
      in r\<lparr>rtcLatchPrev := (val = 0x00)\<rparr>)"

definition mbc5_write :: "nat \<Rightarrow> u8 \<Rightarrow> mbc_regs \<Rightarrow> mbc_regs" where
  "mbc5_write a val m =
     (if a < 0x2000 then m\<lparr>ramEnabled := (val AND 0x0F = 0x0A)\<rparr>
      else if a < 0x3000 then m\<lparr>romBank := (romBank m AND 0x100) OR ucast val\<rparr>
      else if a < 0x4000 then
        m\<lparr>romBank := (romBank m AND 0xFF) OR push_bit 8 (ucast (val AND 0x01))\<rparr>
      else if a < 0x6000 then m\<lparr>ramBank := val AND 0x0F\<rparr>
      else m)"

definition writeMBC :: "u16 \<Rightarrow> u8 \<Rightarrow> 'snd gb \<Rightarrow> 'snd gb" where
  "writeMBC addr val s =
     refreshMappedRomBanks
       (case mbcType (mbc s) of
          MBC_NONE \<Rightarrow> s
        | MBC_MBC1 \<Rightarrow> s\<lparr>mbc := mbc1_write (unat addr) val (mbc s)\<rparr>
        | MBC_MBC2 \<Rightarrow> s\<lparr>mbc := mbc2_write addr val (mbc s)\<rparr>
        | MBC_MBC3 \<Rightarrow>
            if unat addr < 0x6000 then s\<lparr>mbc := mbc3_write (unat addr) val (mbc s)\<rparr>
            else s\<lparr>rtc := rtc_latch_write val (rtc s)\<rparr>
        | MBC_MBC5 \<Rightarrow> s\<lparr>mbc := mbc5_write (unat addr) val (mbc s)\<rparr>)"

section \<open>Writes\<close>

definition write_vram :: "u16 \<Rightarrow> u8 \<Rightarrow> 'snd gb \<Rightarrow> 'snd gb option" where
  "write_vram addr val s =
     (let i = unat addr - 0x8000
      in if isCgb (cgb s) \<and> vramBank (cgb s) \<noteq> 0 \<and> vram1 (cgb s) \<noteq> None then do {
           v1 \<leftarrow> vram1 (cgb s);
           v1 \<leftarrow> mem_set v1 i val;
           Some (s\<lparr>cgb := (cgb s)\<lparr>vram1 := Some v1\<rparr>\<rparr>)
         }
         else do {
           v \<leftarrow> mem_set (vram (bufs s)) i val;
           Some (s\<lparr>bufs := (bufs s)\<lparr>vram := v\<rparr>\<rparr>)
         })"

definition write_rtc_reg :: "u8 \<Rightarrow> u8 \<Rightarrow> rtc_regs \<Rightarrow> rtc_regs" where
  "write_rtc_reg bank val r =
     (if bank = 0x08 then r\<lparr>rtcSec := val AND 0x3F\<rparr>
      else if bank = 0x09 then r\<lparr>rtcMin := val AND 0x3F\<rparr>
      else if bank = 0x0A then r\<lparr>rtcHour := val AND 0x1F\<rparr>
      else if bank = 0x0B then r\<lparr>rtcDay := val\<rparr>
      else if bank = 0x0C then r\<lparr>rtcDayHi := val AND 0xC1\<rparr>
      else r)"

text \<open>A byte of cartridge RAM; an equal byte does not dirty the save.\<close>

definition sram_store :: "nat \<Rightarrow> u8 \<Rightarrow> 'snd gb \<Rightarrow> 'snd gb option" where
  "sram_store idx val s = do {
     old \<leftarrow> mem_get (sramData (bufs s)) idx;
     (if old \<noteq> val then do {
        d \<leftarrow> mem_set (sramData (bufs s)) idx val;
        Some (s\<lparr>bufs := (bufs s)\<lparr>sramData := d, sramDirty := True\<rparr>\<rparr>)
      } else Some s)
   }"

definition write_ext_ram :: "u16 \<Rightarrow> u8 \<Rightarrow> 'snd gb \<Rightarrow> 'snd gb option" where
  "write_ext_ram addr val s =
     (if \<not> ramEnabled (mbc s) then Some s
      else if mbcType (mbc s) = MBC_MBC2 then
        sram_store (unat ((addr - 0xA000) AND 0x1FF)) (val AND 0x0F) s
      else if mbcType (mbc s) = MBC_MBC3 \<and> 0x08 \<le> ramBank (mbc s) \<and> ramBank (mbc s) \<le> 0x0C then
        Some (s\<lparr>rtc := write_rtc_reg (ramBank (mbc s)) val (rtc s)\<rparr>)
      else if ramBank (mbc s) \<le> 3 then
        (let idx = unat (ramBank (mbc s)) * RAM_BANK_SIZE + (unat addr - 0xA000)
         in if idx < sramPersistSize (bufs s) then sram_store idx val s else Some s)
      else Some s)"

definition write_wram :: "nat \<Rightarrow> u8 \<Rightarrow> 'snd gb \<Rightarrow> 'snd gb option" where
  "write_wram a val s =
     (if 0xD000 \<le> a \<and> isCgb (cgb s) \<and> 2 \<le> wramBank (cgb s) \<and> wramExtra (cgb s) \<noteq> None then do {
        x \<leftarrow> wramExtra (cgb s);
        x \<leftarrow> mem_set x ((unat (wramBank (cgb s)) - 2) * 0x1000 + (a - 0xD000)) val;
        Some (s\<lparr>cgb := (cgb s)\<lparr>wramExtra := Some x\<rparr>\<rparr>)
      } else do {
        w \<leftarrow> mem_set (wram (bufs s)) (a - 0xC000) val;
        Some (s\<lparr>bufs := (bufs s)\<lparr>wram := w\<rparr>\<rparr>)
      })"

definition write_serial_control :: "u8 \<Rightarrow> 'snd gb \<Rightarrow> 'snd gb" where
  "write_serial_control val s =
     (let s = s\<lparr>joy := (joy s)\<lparr>scReg := val AND 0x83\<rparr>\<rparr>
      in if val AND 0x80 \<noteq> 0 then
           s\<lparr>joy := (joy s)\<lparr>scReg := scReg (joy s) AND 0x7F, sbReg := 0xFF\<rparr>,
             cpu := (cpu s)\<lparr>iflag := iflag (cpu s) OR 0x08\<rparr>\<rparr>
         else s)"

definition write_sound :: "u16 \<Rightarrow> u8 \<Rightarrow> 'snd gb \<Rightarrow> 'snd gb option" where
  "write_sound addr val s = do {
     regs \<leftarrow> mem_set (soundRegs (bufs s)) (unat addr - 0xFF10) val;
     let s = s\<lparr>bufs := (bufs s)\<lparr>soundRegs := regs\<rparr>\<rparr>;
     Some (case soundWrite s of None \<Rightarrow> s
           | Some f \<Rightarrow> s\<lparr>soundContext := f (soundContext s) addr val\<rparr>)
   }"

definition GB_PORT_COLOR_BLANK :: u8 where "GB_PORT_COLOR_BLANK = 64"

text \<open>The two \<open>memset\<close>s that blank the screen.\<close>

definition blank_screen :: "mem_bufs \<Rightarrow> mem_bufs" where
  "blank_screen b =
     b\<lparr>framebuf := map_option (\<lambda>f. replicate GB_FB_SIZE 0) (framebuf b),
       colorFramebuf := map_option (\<lambda>f. replicate (GB_W * GB_H) GB_PORT_COLOR_BLANK) (colorFramebuf b)\<rparr>"

text \<open>LCDC: switching the LCD on or off restarts the PPU.\<close>

definition write_lcdc :: "u8 \<Rightarrow> 'snd gb \<Rightarrow> 'snd gb" where
  "write_lcdc val s =
     (let wasOn = (lcdc (lcd s) AND 0x80 \<noteq> 0);
          nowOn = (val AND 0x80 \<noteq> 0);
          s = s\<lparr>lcd := (lcd s)\<lparr>lcdc := val\<rparr>\<rparr>
      in if wasOn \<noteq> nowOn then
           let s = s\<lparr>lcd := (lcd s)\<lparr>ly := 0, ppuMode := (if nowOn then 2 else 0), ppuDots := 0,
                       lcdChanged := True, lcdFirstFrame := nowOn, prevStatLine := False,
                       windowLine := 0\<rparr>\<rparr>;
               s = (if \<not> nowOn then s\<lparr>bufs := blank_screen (bufs s)\<rparr> else s)
           in checkStatInterrupt s
         else s)"

text \<open>OAM DMA: 160 bus reads, each seeing the object memory written so far.\<close>

fun oam_dma :: "u8 \<Rightarrow> nat list \<Rightarrow> 'snd gb \<Rightarrow> 'snd gb option" where
  "oam_dma val [] s = Some s"
| "oam_dma val (i # is) s = do {
     (v, s) \<leftarrow> readByte (w16 val (of_nat i)) s;
     oam' \<leftarrow> mem_set (oam (bufs s)) i v;
     oam_dma val is (s\<lparr>bufs := (bufs s)\<lparr>oam := oam'\<rparr>\<rparr>)
   }"

text \<open>The general-purpose DMA loop; its destination is always in video RAM, where \<open>writeByte\<close> is
  \<open>write_vram\<close> (lemma \<open>writeByte_vram\<close>).\<close>

fun hdma_copy :: "u16 \<Rightarrow> u16 \<Rightarrow> nat list \<Rightarrow> 'snd gb \<Rightarrow> 'snd gb option" where
  "hdma_copy src dst [] s = Some s"
| "hdma_copy src dst (i # is) s =
     (if unat dst + i < 0xA000 then do {
        (v, s) \<leftarrow> readByte (src + of_nat i) s;
        s \<leftarrow> write_vram (dst + of_nat i) v s;
        hdma_copy src dst is s
      } else Some s)"

definition write_hdma5 :: "u8 \<Rightarrow> 'snd gb \<Rightarrow> 'snd gb option" where
  "write_hdma5 val s =
     (let c = cgb s;
          src = w16 (hdma1 c) (hdma2 c) AND 0xFFF0;
          dst = (0x8000 OR w16 (hdma3 c) (hdma4 c)) AND 0x9FF0;
          len = (unat (val AND 0x7F) + 1) * 16
      in if 0xE000 \<le> unat src \<or> 0x8000 \<le> unat src \<and> unat src < 0xA000 then
           Some (s\<lparr>cgb := c\<lparr>hdma5 := 0x80 OR (val AND 0x7F)\<rparr>\<rparr>)
         else do {
           s \<leftarrow> hdma_copy src dst [0..<len] s;
           Some (s\<lparr>cgb := (cgb s)\<lparr>hdma5 := 0xFF\<rparr>\<rparr>)
         })"

definition palette_step :: "u8 \<Rightarrow> u8" where
  "palette_step i = (if i AND 0x80 \<noteq> 0 then 0x80 OR ((i + 1) AND 0x3F) else i)"

text \<open>The colour registers other than HDMA5; they ignore writes on a monochrome cartridge.\<close>

definition write_cgb_reg :: "nat \<Rightarrow> u8 \<Rightarrow> cgb_regs \<Rightarrow> cgb_regs option" where
  "write_cgb_reg a val c =
     (if \<not> isCgb c then Some c
      else if a = 0xFF4D then Some (c\<lparr>key1 := (key1 c AND 0x80) OR (val AND 0x01)\<rparr>)
      else if a = 0xFF4F then Some (c\<lparr>vramBank := val AND 0x01\<rparr>)
      else if a = 0xFF51 then Some (c\<lparr>hdma1 := val\<rparr>)
      else if a = 0xFF52 then Some (c\<lparr>hdma2 := val AND 0xF0\<rparr>)
      else if a = 0xFF53 then Some (c\<lparr>hdma3 := val AND 0x1F\<rparr>)
      else if a = 0xFF54 then Some (c\<lparr>hdma4 := val AND 0xF0\<rparr>)
      else if a = 0xFF68 then Some (c\<lparr>bcpsReg := val\<rparr>)
      else if a = 0xFF69 then do {
        p \<leftarrow> mem_set (bgPalette c) (unat (bcpsReg c AND 0x3F)) val;
        Some (c\<lparr>bgPalette := p, bcpsReg := palette_step (bcpsReg c)\<rparr>)
      }
      else if a = 0xFF6A then Some (c\<lparr>ocpsReg := val\<rparr>)
      else if a = 0xFF6B then do {
        p \<leftarrow> mem_set (objPalette c) (unat (ocpsReg c AND 0x3F)) val;
        Some (c\<lparr>objPalette := p, ocpsReg := palette_step (ocpsReg c)\<rparr>)
      }
      else if a = 0xFF70 then
        (let c = c\<lparr>wramBank := val AND 0x07\<rparr>
         in Some (if wramBank c = 0 then c\<lparr>wramBank := 1\<rparr> else c))
      else Some c)"

text \<open>LCD registers other than LCDC and the DMA register.\<close>

definition write_lcd_reg :: "nat \<Rightarrow> u8 \<Rightarrow> 'snd gb \<Rightarrow> 'snd gb" where
  "write_lcd_reg a val s =
     (let l = lcd s
      in if a = 0xFF41 then
           checkStatInterrupt (s\<lparr>lcd := l\<lparr>lcdstat := (lcdstat l AND 0x07) OR (val AND 0x78)\<rparr>\<rparr>)
         else if a = 0xFF42 then s\<lparr>lcd := l\<lparr>scy := val\<rparr>\<rparr>
         else if a = 0xFF43 then s\<lparr>lcd := l\<lparr>scx := val\<rparr>\<rparr>
         else if a = 0xFF45 then checkStatInterrupt (s\<lparr>lcd := l\<lparr>lyc := val\<rparr>\<rparr>)
         else if a = 0xFF47 then s\<lparr>lcd := l\<lparr>bgp := val\<rparr>\<rparr>
         else if a = 0xFF48 then s\<lparr>lcd := l\<lparr>obp0 := val\<rparr>\<rparr>
         else if a = 0xFF49 then s\<lparr>lcd := l\<lparr>obp1 := val\<rparr>\<rparr>
         else if a = 0xFF4A then s\<lparr>lcd := l\<lparr>wy := val\<rparr>\<rparr>
         else if a = 0xFF4B then s\<lparr>lcd := l\<lparr>wx := val\<rparr>\<rparr>
         else s)"

definition write_io :: "u16 \<Rightarrow> u8 \<Rightarrow> 'snd gb \<Rightarrow> 'snd gb option" where
  "write_io addr val s =
     (let a = unat addr
      in if a = 0xFF00 then Some (s\<lparr>joy := (joy s)\<lparr>joypadSelect := val AND 0x30\<rparr>\<rparr>)
         else if a = 0xFF01 then Some (s\<lparr>joy := (joy s)\<lparr>sbReg := val\<rparr>\<rparr>)
         else if a = 0xFF02 then Some (write_serial_control val s)
         else if a = 0xFF04 then Some (s\<lparr>timer := (timer s)\<lparr>divReg := 0, divCounter := 0\<rparr>\<rparr>)
         else if a = 0xFF05 then Some (s\<lparr>timer := (timer s)\<lparr>tima := val\<rparr>\<rparr>)
         else if a = 0xFF06 then Some (s\<lparr>timer := (timer s)\<lparr>tma := val\<rparr>\<rparr>)
         else if a = 0xFF07 then Some (s\<lparr>timer := (timer s)\<lparr>tac := val AND 0x07\<rparr>\<rparr>)
         else if a = 0xFF0F then Some (s\<lparr>cpu := (cpu s)\<lparr>iflag := val AND 0x1F\<rparr>\<rparr>)
         else if is_sound_reg a then write_sound addr val s
         else if a = 0xFF40 then Some (write_lcdc val s)
         else if a = 0xFF46 then oam_dma val [0..<0xA0] s
         else if 0xFF41 \<le> a \<and> a \<le> 0xFF4B then Some (write_lcd_reg a val s)
         else if a = 0xFF55 then (if isCgb (cgb s) then write_hdma5 val s else Some s)
         else if 0xFF4C \<le> a \<and> a \<le> 0xFF70 then do {
           c \<leftarrow> write_cgb_reg a val (cgb s);
           Some (s\<lparr>cgb := c\<rparr>)
         }
         else if a = 0xFFFF then Some (s\<lparr>cpu := (cpu s)\<lparr>ie := val\<rparr>\<rparr>)
         else if 0xFF80 \<le> a then do {
           h \<leftarrow> mem_set (hram (bufs s)) (a - 0xFF80) val;
           Some (s\<lparr>bufs := (bufs s)\<lparr>hram := h\<rparr>\<rparr>)
         }
         else Some s)"

definition writeByte :: "u16 \<Rightarrow> u8 \<Rightarrow> 'snd gb \<Rightarrow> 'snd gb option" where
  "writeByte addr val s =
     (let a = unat addr
      in if a < 0x8000 then Some (writeMBC addr val s)
         else if a < 0xA000 then write_vram addr val s
         else if a < 0xC000 then write_ext_ram addr val s
         else if a < 0xE000 then write_wram a val s
         else if a < 0xFE00 then write_wram (a - 0x2000) val s
         else if a < 0xFEA0 then do {
           o' \<leftarrow> mem_set (oam (bufs s)) (a - 0xFE00) val;
           Some (s\<lparr>bufs := (bufs s)\<lparr>oam := o'\<rparr>\<rparr>)
         }
         else if a < 0xFF00 then Some s
         else write_io addr val s)"


section \<open>Reads are safe and change only the bank cache and the clock\<close>

text \<open>What a read leaves alone: everything but the cache half of \<open>rom\<close> and the running clock.\<close>

definition read_frame :: "'snd gb \<Rightarrow> 'snd gb \<Rightarrow> bool" where
  "read_frame s s' \<longleftrightarrow>
     cpu s' = cpu s \<and> lcd s' = lcd s \<and> timer s' = timer s \<and> joy s' = joy s \<and> mbc s' = mbc s \<and>
     cgb s' = cgb s \<and> bufs s' = bufs s \<and> cheats s' = cheats s \<and> shadeRemap s' = shadeRemap s \<and>
     soundContext s' = soundContext s \<and> soundWrite s' = soundWrite s \<and> soundRead s' = soundRead s \<and>
     same_image (rom s) (rom s') \<and> rtcLatched (rtc s') = rtcLatched (rtc s)"

lemma read_frame_refl [simp]: "read_frame s s"
  by (simp add: read_frame_def)

lemma read_frame_trans: "read_frame s t \<Longrightarrow> read_frame t u \<Longrightarrow> read_frame s u"
  by (simp add: read_frame_def same_image_def)

lemma wf_read_frame: "wf_gb s \<Longrightarrow> read_frame s s' \<Longrightarrow> wf_rom (rom s') \<Longrightarrow> wf_gb s'"
  by (simp add: wf_gb_def read_frame_def same_image_def mapped_low_def mapped_high_def)

definition read_ok :: "'snd gb \<Rightarrow> u8 \<times> 'snd gb \<Rightarrow> bool" where
  "read_ok s = (\<lambda>(v, s'). wf_gb s' \<and> read_frame s s')"

lemma read_ok_self [simp]: "read_ok s (v, s) = wf_gb s"
  by (simp add: read_ok_def)

lemma pure_read_ok: "wf_gb s \<Longrightarrow> okp m (\<lambda>v. True) \<Longrightarrow> okp (pure_read m s) (read_ok s)"
  by (auto simp: pure_read_def okp_iff)

lemma readBank_ok:
  assumes "wf_gb s" "romData (rom s) = None" "offset < ROM_BANK_SIZE"
  shows "okp (readBank bank offset s) (read_ok s)"
proof -
  from assms have "wf_rom (rom s)" by (simp add: wf_gb_def)
  then have "okp (readCachedBank bank offset (rom s)) (\<lambda>(v, r). wf_rom r \<and> same_image (rom s) r)"
    by (rule okp_mono [OF readCachedBank_ok [OF _ assms(2,3)]]) auto
  then show ?thesis
    unfolding readBank_def
    by (rule okp_bind2I) (use wf_read_frame [OF assms(1)] in \<open>auto simp: read_ok_def read_frame_def\<close>)
qed

lemma read_image_ok:
  assumes "wf_gb s" "romInRam (rom s)" "bank < romBankCount (rom s)" "k < ROM_BANK_SIZE"
  shows "okp (read_image (bank * ROM_BANK_SIZE + k) s) (read_ok s)"
proof -
  from assms(1) have "wf_rom (rom s)" by (simp add: wf_gb_def)
  with assms(2) obtain d where d: "romData (rom s) = Some d"
      "length d = romBankCount (rom s) * ROM_BANK_SIZE"
    by (auto simp: wf_rom_def)
  moreover have "bank * ROM_BANK_SIZE + k < romBankCount (rom s) * ROM_BANK_SIZE"
    using slot_in_cache [OF assms(3)] assms(4) by simp
  ultimately show ?thesis using assms(1) by (simp add: read_image_def)
qed

lemma mod_if_ge: "(if n \<le> x then x mod n else x) = x mod (n :: nat)"
  by simp

lemma cheatWrap_ok: "okp m (read_ok s) \<Longrightarrow> okp (m \<bind> (\<lambda>(v, t). Some (cheatWrap t a v, t))) (read_ok s)"
  by (auto simp: okp_iff read_ok_def)

lemma read_rom_low_ok:
  assumes "wf_gb s" "unat addr < 0x4000"
  shows "okp (read_rom_low addr s) (read_ok s)"
proof -
  have wr: "wf_rom (rom s)" using assms(1) by (simp add: wf_gb_def)
  then have c: "0 < romBankCount (rom s)" by (simp add: wf_rom_def)
  have k: "unat addr < ROM_BANK_SIZE" using assms(2) by (simp add: ROM_BANK_SIZE_def)
  have img: "romInRam (rom s) \<Longrightarrow> okp (read_image (b mod romBankCount (rom s) * ROM_BANK_SIZE + unat addr) s) (read_ok s)" for b
    by (rule read_image_ok [OF assms(1) _ _ k]) (use c in auto)
  have b0: "\<not> romInRam (rom s) \<Longrightarrow> okp (mem_get (romBank0 (rom s)) (unat addr) \<bind> (\<lambda>v. Some (v, s))) (read_ok s)"
    using wr k assms(1) by (simp add: wf_rom_def)
  have none: "\<not> romInRam (rom s) \<Longrightarrow> romData (rom s) = None" using wr by (auto simp: wf_rom_def)
  show ?thesis
    unfolding read_rom_low_def Let_def mod_if_ge
    apply (rule cheatWrap_ok)
    apply (intro okp_if)
        apply (rule img, assumption)
       apply (rule b0, assumption)
      apply (rule readBank_ok [OF assms(1) none k], assumption)
    using img [of 0] b0 by simp_all
qed

lemma read_rom_high_ok:
  assumes "wf_gb s" "0x4000 \<le> unat addr" "unat addr < 0x8000"
  shows "okp (read_rom_high addr s) (read_ok s)"
proof -
  have wr: "wf_rom (rom s)" using assms(1) by (simp add: wf_gb_def)
  then have c: "unat (romBank (mbc s)) mod romBankCount (rom s) < romBankCount (rom s)"
    by (simp add: wf_rom_def)
  have k: "unat addr - 0x4000 < ROM_BANK_SIZE" using assms(2,3) by (simp add: ROM_BANK_SIZE_def)
  show ?thesis
    unfolding read_rom_high_def Let_def mod_if_ge
    apply (rule cheatWrap_ok)
    apply (rule okp_if)
     apply (rule read_image_ok [OF assms(1) _ c k], assumption)
    apply (rule readBank_ok [OF assms(1) _ k])
    using wr by (simp add: wf_rom_def)
qed

lemma read_vram_ok:
  "wf_gb s \<Longrightarrow> 0x8000 \<le> unat addr \<Longrightarrow> unat addr < 0xA000 \<Longrightarrow> okp (read_vram addr s) (\<lambda>v. True)"
  by (auto simp: read_vram_def wf_gb_def wf_bufs_def wf_cgb_def GB_VRAM_SIZE_def split: option.split)

lemma u8_between: "(x :: u8) \<le> y \<longleftrightarrow> unat x \<le> unat y"
  by (simp add: word_le_nat_alt)

lemma read_ext_ram_ok:
  assumes "wf_gb s" "0xA000 \<le> unat addr" "unat addr < 0xC000"
  shows "okp (read_ext_ram addr s) (read_ok s)"
proof -
  have m: "unat (x AND 0x1FF :: u16) < 512" for x
    using unat_and_lt [of "0x1FF :: u16" 512 x] by simp
  have t: "wf_gb (s\<lparr>rtc := tickRTC (rtc s)\<rparr>)" "read_frame s (s\<lparr>rtc := tickRTC (rtc s)\<rparr>)"
    using assms(1) by (simp_all add: wf_gb_def read_frame_def)
  have sram: "sramPersistSize (bufs s) \<le> length (sramData (bufs s))"
    "mbcType (mbc s) = MBC_MBC2 \<Longrightarrow> length (sramData (bufs s)) = 512"
    "length (rtcLatched (rtc s)) = 5"
    using assms(1) by (auto simp: wf_gb_def wf_bufs_def)
  show ?thesis
    unfolding read_ext_ram_def Let_def
    using assms(1) sram m t by (auto simp: read_ok_def u8_between)
qed

lemma read_wram_ok:
  assumes "wf_gb s" "0xC000 \<le> a" "a < 0xE000"
  shows "okp (read_wram a s) (\<lambda>v. True)"
  using assms
  by (auto simp: read_wram_def wf_gb_def wf_bufs_def wf_cgb_def GB_WRAM_SIZE_def u8_between split: option.split)

lemma palette_index: "unat (x AND 0x3F :: u8) < 64"
  using unat_and_lt [of "0x3F :: u8" 64 x] by simp

lemma read_cgb_reg_ok: "wf_cgb c \<Longrightarrow> okp (read_cgb_reg a c) (\<lambda>v. True)"
  using palette_index by (simp add: read_cgb_reg_def wf_cgb_def)

lemma read_io_ok:
  assumes "wf_gb s" "0xFF00 \<le> unat addr"
  shows "okp (read_io addr s) (\<lambda>v. True)"
proof -
  have l: "length (hram (bufs s)) = 0x80" "length (soundRegs (bufs s)) = 0x30" "wf_cgb (cgb s)"
    using assms(1) by (simp_all add: wf_gb_def wf_bufs_def)
  have s: "is_sound_reg a \<Longrightarrow> a - 0xFF10 < 0x30" for a by (auto simp: is_sound_reg_def)
  have h: "unat addr \<noteq> 0xFFFF \<Longrightarrow> unat addr - 0xFF80 < 0x80" using u16_lt [of addr] by linarith
  show ?thesis
    unfolding read_io_def Let_def
    by (intro okp_if) (use l s h read_cgb_reg_ok in \<open>auto split: option.split\<close>)
qed

lemma readByteSlow_ok:
  assumes "wf_gb s"
  shows "okp (readByteSlow addr s) (read_ok s)"
proof -
  have o: "length (oam (bufs s)) = 0xA0" using assms by (simp add: wf_gb_def wf_bufs_def)
  show ?thesis
    unfolding readByteSlow_def Let_def
    by (intro okp_if)
      (auto intro!: assms pure_read_ok read_rom_low_ok read_rom_high_ok read_vram_ok read_ext_ram_ok
        read_wram_ok read_io_ok simp: o)
qed

section \<open>The hot decoder\<close>

lemma and_3FFF: "unat (a AND 0x3FFF :: u16) = unat a mod 0x4000"
  using unat_and_mask [of a 14] by (simp add: mask_eq_exp_minus_1)

lemma mapped_read_low:
  assumes "wf_gb s" "unat addr < 0x4000" "mapped0 (rom s) = Some off"
  shows "readByte addr s = read_rom_low addr s"
proof -
  have "mapped_low s = Some off" using assms(1,3) by (simp add: wf_gb_def)
  then show ?thesis
    using assms(2,3) unfolding mapped_low_def Let_def
    by (auto simp: readByte_def read_rom_low_def mapped_bank_def Let_def and_3FFF mod_if_ge
        split: if_splits)
qed

lemma mapped_read_high:
  assumes "wf_gb s" "0x4000 \<le> unat addr" "unat addr < 0x8000" "mapped1 (rom s) = Some off"
  shows "readByte addr s = read_rom_high addr s"
proof -
  have "mapped_high s = Some off" using assms(1,4) by (simp add: wf_gb_def)
  moreover have "unat addr mod 0x4000 = unat addr - 0x4000"
    using assms(2,3) by (simp add: mod_if)
  ultimately show ?thesis
    using assms(2-4) unfolding mapped_high_def
    by (auto simp: readByte_def read_rom_high_def mapped_bank_def Let_def and_3FFF mod_if_ge
        split: if_splits)
qed

text \<open>The hot decoder returns what the full decoder returns, in every reachable state.\<close>

lemma readByte_eq_slow:
  assumes "wf_gb s"
  shows "readByte addr s = readByteSlow addr s"
proof (cases "unat addr < 0x8000")
  case True
  show ?thesis
  proof (cases "mapped_bank addr (rom s)")
    case None
    with True show ?thesis by (simp add: readByte_def)
  next
    case (Some off)
    with True mapped_read_low [OF assms, of addr] mapped_read_high [OF assms, of addr]
    show ?thesis by (auto simp: mapped_bank_def readByteSlow_def split: if_splits)
  qed
next
  case False
  have h: "unat addr \<noteq> 0xFFFF \<Longrightarrow> 0xFF80 \<le> unat addr \<Longrightarrow>
      readByteSlow addr s = pure_read (mem_get (hram (bufs s)) (unat addr - 0xFF80)) s"
    by (simp add: readByteSlow_def read_io_def is_sound_reg_def Let_def)
  have w: "readByteSlow addr s = pure_read (mem_get (wram (bufs s)) (unat addr - 0xC000)) s"
    if "0xC000 \<le> unat addr" "unat addr < 0xE000"
      "unat addr < 0xD000 \<or> \<not> isCgb (cgb s) \<or> wramBank (cgb s) < 2 \<or> wramExtra (cgb s) = None"
    using that
    by (auto simp: readByteSlow_def read_wram_def Let_def word_le_nat_alt word_less_nat_alt split: option.split)
  show ?thesis
    using False h w by (simp add: readByte_def Let_def)
qed

lemma readByte_ok: "wf_gb s \<Longrightarrow> okp (readByte addr s) (read_ok s)"
  by (simp add: readByte_eq_slow readByteSlow_ok)

section \<open>Writes are safe and keep the invariant\<close>

lemma checkStat_wf [simp]: "wf_gb (checkStatInterrupt s) = wf_gb s"
  by (simp add: checkStatInterrupt_def Let_def)

lemma mbc_type_kept [simp]:
  "mbcType (mbc1_write a val m) = mbcType m" "mbcType (mbc2_write addr val m) = mbcType m"
  "mbcType (mbc3_write a val m) = mbcType m" "mbcType (mbc5_write a val m) = mbcType m"
  by (simp_all add: mbc1_write_def mbc2_write_def mbc3_write_def mbc5_write_def Let_def)

lemma latch_len: "length (rtcLatched r) = 5 \<Longrightarrow> length (rtcLatched (rtc_latch_write val r)) = 5"
  by (simp add: rtc_latch_write_def Let_def)

lemma writeMBC_wf:
  assumes "wf_gb s"
  shows "wf_gb (writeMBC addr val s)"
proof -
  have "wf_gb (s\<lparr>rtc := rtc_latch_write val (rtc s)\<rparr>)"
    using assms by (simp add: wf_set_rtc latch_len wf_gbD)
  with assms show ?thesis
    by (cases "mbcType (mbc s)") (simp_all add: writeMBC_def wf_refresh wf_refresh_fixed)
qed

lemma wf_buf_updates:
  "wf_gb s \<Longrightarrow> length v = length (vram (bufs s)) \<Longrightarrow> wf_gb (s\<lparr>bufs := (bufs s)\<lparr>vram := v\<rparr>\<rparr>)"
  "wf_gb s \<Longrightarrow> length v = length (wram (bufs s)) \<Longrightarrow> wf_gb (s\<lparr>bufs := (bufs s)\<lparr>wram := v\<rparr>\<rparr>)"
  "wf_gb s \<Longrightarrow> length v = 0x2000 \<Longrightarrow> wf_gb (s\<lparr>cgb := (cgb s)\<lparr>vram1 := Some v\<rparr>\<rparr>)"
  "wf_gb s \<Longrightarrow> length v = 0x6000 \<Longrightarrow> wf_gb (s\<lparr>cgb := (cgb s)\<lparr>wramExtra := Some v\<rparr>\<rparr>)"
  using wf_gbD(2,3) [of s] by (auto simp: wf_bufs_def wf_cgb_def intro!: wf_set_bufs wf_set_cgb)

lemma write_vram_ok:
  assumes "wf_gb s" "0x8000 \<le> unat addr" "unat addr < 0xA000"
  shows "okp (write_vram addr val s) wf_gb"
proof -
  have i: "unat addr - 0x8000 < 0x2000" using assms(2,3) by simp
  have b: "length (vram (bufs s)) = 0x2000" and c: "vram1 (cgb s) = Some v \<Longrightarrow> length v = 0x2000" for v
    using wf_gbD(2,3) [OF assms(1)] by (simp_all add: wf_bufs_def wf_cgb_def GB_VRAM_SIZE_def)
  show ?thesis
    unfolding write_vram_def Let_def
  proof (rule okp_if)
    assume "isCgb (cgb s) \<and> vramBank (cgb s) \<noteq> 0 \<and> vram1 (cgb s) \<noteq> None"
    then obtain v where v: "vram1 (cgb s) = Some v" by blast
    show "okp (vram1 (cgb s) \<bind> (\<lambda>v1. mem_set v1 (unat addr - 0x8000) val \<bind>
        (\<lambda>v1. Some (s\<lparr>cgb := (cgb s)\<lparr>vram1 := Some v1\<rparr>\<rparr>)))) wf_gb"
      using v c [OF v] i wf_buf_updates(3) [OF assms(1)] by simp
  qed (use b i wf_buf_updates(1) [OF assms(1)] in simp)
qed

lemma sram_store_ok:
  assumes "wf_gb s" "idx < length (sramData (bufs s))"
  shows "okp (sram_store idx val s) wf_gb"
  unfolding sram_store_def
  using assms wf_gbD(3) [OF assms(1)] by (auto simp: wf_bufs_def intro!: wf_set_bufs)

lemma write_ext_ram_ok:
  assumes "wf_gb s"
  shows "okp (write_ext_ram addr val s) wf_gb"
proof -
  have m: "unat (x AND 0x1FF :: u16) < 512" for x
    using unat_and_lt [of "0x1FF :: u16" 512 x] by simp
  have sram: "sramPersistSize (bufs s) \<le> length (sramData (bufs s))"
    "mbcType (mbc s) = MBC_MBC2 \<Longrightarrow> length (sramData (bufs s)) = 512"
    using assms(1) by (auto simp: wf_gb_def wf_bufs_def)
  have r: "wf_gb (s\<lparr>rtc := write_rtc_reg b val (rtc s)\<rparr>)" for b
    using assms by (intro wf_set_rtc) (simp_all add: write_rtc_reg_def wf_gb_def)
  show ?thesis
    unfolding write_ext_ram_def Let_def
    using sram m r assms by (auto intro!: sram_store_ok)
qed

lemma write_wram_ok:
  assumes "wf_gb s" "0xC000 \<le> a" "a < 0xE000"
  shows "okp (write_wram a val s) wf_gb"
proof -
  have b: "length (wram (bufs s)) = 0x2000" and c: "wramExtra (cgb s) = Some v \<Longrightarrow> length v = 0x6000" for v
    using wf_gbD(2,3) [OF assms(1)] by (simp_all add: wf_bufs_def wf_cgb_def GB_WRAM_SIZE_def)
  have n: "unat (wramBank (cgb s)) < 8" using wf_gbD(2) [OF assms(1)] by (simp add: wf_cgb_def)
  show ?thesis
    unfolding write_wram_def Let_def
  proof (rule okp_if)
    assume h: "0xD000 \<le> a \<and> isCgb (cgb s) \<and> 2 \<le> wramBank (cgb s) \<and> wramExtra (cgb s) \<noteq> None"
    then obtain v where v: "wramExtra (cgb s) = Some v" by blast
    have "(unat (wramBank (cgb s)) - 2) * 0x1000 + (a - 0xD000) < 0x6000"
      using h n assms(3) by linarith
    then show "okp (wramExtra (cgb s) \<bind> (\<lambda>x. mem_set x ((unat (wramBank (cgb s)) - 2) * 0x1000 + (a - 0xD000)) val \<bind>
        (\<lambda>x. Some (s\<lparr>cgb := (cgb s)\<lparr>wramExtra := Some x\<rparr>\<rparr>)))) wf_gb"
      using v c [OF v] wf_buf_updates(4) [OF assms(1)] by simp
  next
    have "a - 0xC000 < 0x2000" using assms(2,3) by linarith
    then show "okp (mem_set (wram (bufs s)) (a - 0xC000) val \<bind>
        (\<lambda>w. Some (s\<lparr>bufs := (bufs s)\<lparr>wram := w\<rparr>\<rparr>))) wf_gb"
      using b wf_buf_updates(2) [OF assms(1)] by simp
  qed
qed

lemma write_sound_ok:
  assumes "wf_gb s" "is_sound_reg (unat addr)"
  shows "okp (write_sound addr val s) wf_gb"
proof -
  have i: "unat addr - 0xFF10 < 0x30" using assms(2) by (auto simp: is_sound_reg_def)
  show ?thesis
    unfolding write_sound_def Let_def
    using i wf_gbD(3) [OF assms(1)]
    by (auto simp: wf_bufs_def split: option.split intro!: wf_set_bufs assms(1))
qed

lemma blank_screen_wf [simp]:
  "wf_bufs b \<Longrightarrow> wf_bufs (blank_screen b)"
  "sramPersistSize (blank_screen b) = sramPersistSize b"
  "(colorFramebuf (blank_screen b) = None) = (colorFramebuf b = None)"
  by (auto simp: blank_screen_def wf_bufs_def)

lemma write_lcdc_wf: "wf_gb s \<Longrightarrow> wf_gb (write_lcdc val s)"
  by (auto simp: write_lcdc_def Let_def wf_gbD intro!: wf_set_bufs)

lemma write_lcd_reg_wf [simp]: "wf_gb (write_lcd_reg a val s) = wf_gb s"
  by (simp add: write_lcd_reg_def Let_def)

lemma oam_dma_ok:
  "wf_gb s \<Longrightarrow> \<forall>i\<in>set is. i < 0xA0 \<Longrightarrow> okp (oam_dma val is s) wf_gb"
proof (induction "is" arbitrary: s)
  case (Cons i "is")
  show ?case
    unfolding oam_dma.simps
  proof (rule okp_bind2I [OF readByte_ok [OF Cons.prems(1), unfolded read_ok_def]])
    fix v t
    assume t: "wf_gb t \<and> read_frame s t"
    then have b: "length (oam (bufs t)) = 0xA0" "wf_bufs (bufs t)"
      by (simp_all add: wf_gb_def wf_bufs_def)
    have "wf_gb (t\<lparr>bufs := (bufs t)\<lparr>oam := (oam (bufs t))[i := v]\<rparr>\<rparr>)"
      using t b by (intro wf_set_bufs) (auto simp: wf_bufs_def)
    with b Cons show "okp (mem_set (oam (bufs t)) i v \<bind> (\<lambda>oam'. oam_dma val is
        (t\<lparr>bufs := (bufs t)\<lparr>oam := oam'\<rparr>\<rparr>))) wf_gb"
      by simp
  qed
qed simp

lemma writeByte_vram:
  "0x8000 \<le> unat addr \<Longrightarrow> unat addr < 0xA000 \<Longrightarrow> writeByte addr val s = write_vram addr val s"
  by (simp add: writeByte_def)

lemma hdma_copy_ok:
  "wf_gb s \<Longrightarrow> 0x8000 \<le> unat dst \<Longrightarrow> okp (hdma_copy src dst is s) wf_gb"
proof (induction "is" arbitrary: s)
  case (Cons i "is")
  show ?case
    unfolding hdma_copy.simps
  proof (rule okp_if)
    assume i: "unat dst + i < 0xA000"
    then have d: "unat (dst + of_nat i) = unat dst + i" by (simp add: unat_plus_small)
    show "okp (readByte (src + of_nat i) s \<bind> (\<lambda>(v, s).
        write_vram (dst + of_nat i) v s \<bind> hdma_copy src dst is)) wf_gb"
    proof (rule okp_bind2I [OF readByte_ok [OF Cons.prems(1), unfolded read_ok_def]])
      fix v t
      assume "wf_gb t \<and> read_frame s t"
      then have "okp (write_vram (dst + of_nat i) v t) wf_gb"
        using i d Cons.prems(2) by (intro write_vram_ok) auto
      then show "okp (write_vram (dst + of_nat i) v t \<bind> hdma_copy src dst is) wf_gb"
        by (rule okp_bindI) (use Cons in auto)
    qed
  qed (use Cons.prems in simp)
qed simp

lemma hdma_dst: "0x8000 \<le> unat ((0x8000 OR w) AND 0x9FF0 :: u16)"
proof -
  have "(0x8000 OR w) AND 0x9FF0 = 0x8000 OR (w AND 0x1FF0 :: u16)"
    by (intro bit_word_eqI) (auto simp: bit_simps numeral_eq_Suc less_Suc_eq)
  then have "0x8000 \<le> (0x8000 OR w) AND (0x9FF0 :: u16)" by (simp only: le_word_or2)
  then show ?thesis by (simp add: word_le_nat_alt)
qed

lemma write_hdma5_ok:
  assumes "wf_gb s"
  shows "okp (write_hdma5 val s) wf_gb"
proof -
  have *: "wf_gb t \<Longrightarrow> wf_gb (t\<lparr>cgb := (cgb t)\<lparr>hdma5 := h\<rparr>\<rparr>)" for t :: "'a gb" and h
    using wf_gbD(2) by (intro wf_set_cgb) (auto simp: wf_cgb_def)
  show ?thesis
    unfolding write_hdma5_def Let_def
    by (intro okp_if) (use * assms in \<open>auto intro!: okp_bindI [OF hdma_copy_ok] hdma_dst\<close>)
qed

lemma write_cgb_reg_ok:
  assumes "wf_cgb c"
  shows "okp (write_cgb_reg a val c) (\<lambda>c'. wf_cgb c' \<and> isCgb c' = isCgb c)"
proof -
  have b: "unat (val AND 0x07 :: u8) < 8" using unat_and_lt [of "0x07 :: u8" 8 val] by simp
  show ?thesis
    unfolding write_cgb_reg_def Let_def
    using assms b palette_index by (intro okp_if) (simp_all add: wf_cgb_def)
qed

lemma write_io_ok:
  assumes "wf_gb s" "0xFF00 \<le> unat addr"
  shows "okp (write_io addr val s) wf_gb"
proof -
  have l: "length (hram (bufs s)) = 0x80" using assms(1) by (simp add: wf_gb_def wf_bufs_def)
  have h: "unat addr \<noteq> 0xFFFF \<Longrightarrow> unat addr - 0xFF80 < 0x80" using u16_lt [of addr] by linarith
  have hw: "wf_gb (s\<lparr>bufs := (bufs s)\<lparr>hram := (hram (bufs s))[i := val]\<rparr>\<rparr>)" for i
    using assms(1) wf_gbD(3) [OF assms(1)] by (intro wf_set_bufs) (auto simp: wf_bufs_def)
  have c: "okp (write_cgb_reg a val (cgb s) \<bind> (\<lambda>c. Some (s\<lparr>cgb := c\<rparr>))) wf_gb" for a
    by (rule okp_bindI [OF write_cgb_reg_ok]) (use assms(1) in \<open>auto simp: wf_gbD intro: wf_set_cgb\<close>)
  have t: "wf_timer t \<Longrightarrow> wf_gb (s\<lparr>timer := t\<rparr>)" for t using assms(1) by (rule wf_set_timer)
  show ?thesis
    unfolding write_io_def Let_def
    apply (intro okp_if)
    using assms(1) wf_gbD(4) [OF assms(1)] l h hw
    by (simp_all add: write_sound_ok oam_dma_ok write_hdma5_ok c write_lcdc_wf t wf_timer_def
        write_serial_control_def Let_def)
qed

lemma writeByte_ok:
  assumes "wf_gb s"
  shows "okp (writeByte addr val s) wf_gb"
proof -
  have o: "length (oam (bufs s)) = 0xA0" "wf_bufs (bufs s)" using assms by (simp_all add: wf_gb_def wf_bufs_def)
  have w: "wf_gb (s\<lparr>bufs := (bufs s)\<lparr>oam := (oam (bufs s))[i := val]\<rparr>\<rparr>)" for i
    using assms o by (intro wf_set_bufs) (auto simp: wf_bufs_def)
  show ?thesis
    unfolding writeByte_def Let_def
    by (intro okp_if)
      (auto intro!: assms writeMBC_wf write_vram_ok write_ext_ram_ok write_wram_ok write_io_ok simp: o w)
qed

section \<open>What the bus does to the processor\<close>

text \<open>A bus access touches no processor register but the two interrupt registers.\<close>

definition core_regs :: "cpu_regs \<Rightarrow> cpu_regs" where
  "core_regs r = r\<lparr>ie := 0, iflag := 0\<rparr>"

lemma core_regs_irq [simp]:
  "core_regs (r\<lparr>ie := e\<rparr>) = core_regs r" "core_regs (r\<lparr>iflag := f\<rparr>) = core_regs r"
  by (simp_all add: core_regs_def)

lemma core_regsD:
  assumes "core_regs r = core_regs r'"
  shows "reg_pc r = reg_pc r'" "reg_sp r = reg_sp r'" "reg_a r = reg_a r'" "reg_f r = reg_f r'"
    "reg_b r = reg_b r'" "reg_c r = reg_c r'" "reg_d r = reg_d r'" "reg_e r = reg_e r'"
    "reg_h r = reg_h r'" "reg_l r = reg_l r'" "ime r = ime r'" "halted r = halted r'"
    "haltBug r = haltBug r'" "eiPending r = eiPending r'"
  using assms by (cases r; cases r'; simp add: core_regs_def)+

text \<open>What the cartridge and the configuration consist of; no bus access changes any of it.\<close>

definition cart_of ::
  "'snd gb \<Rightarrow> u8 list option \<times> nat \<times> bool \<times> u8 list \<times> nat \<times> (nat \<Rightarrow> nat \<Rightarrow> nat \<Rightarrow> bool \<times> (nat \<Rightarrow> u8)) \<times>
     nat \<times> bool \<times> MBCType \<times> bool \<times> nat \<times> cheat list \<times> u8 list" where
  "cart_of s =
     (romData (rom s), romBankCount (rom s), romInRam (rom s), romBank0 (rom s), cacheSlots (rom s),
      romIo (rom s), fileLength (rom s), fileAttached (rom s), mbcType (mbc s), isCgb (cgb s),
      sramPersistSize (bufs s), cheats s, shadeRemap s)"

definition bus_frame :: "'snd gb \<Rightarrow> 'snd gb \<Rightarrow> bool" where
  "bus_frame s t \<longleftrightarrow> cpu t = cpu s \<and> lcd t = lcd s \<and> cart_of t = cart_of s"

lemma bus_frame_refl [simp]: "bus_frame s s"
  by (simp add: bus_frame_def)

lemma bus_frame_trans: "bus_frame s t \<Longrightarrow> bus_frame t u \<Longrightarrow> bus_frame s u"
  by (simp add: bus_frame_def)

lemma read_bus_frame: "read_frame s t \<Longrightarrow> bus_frame s t"
  by (simp add: read_frame_def bus_frame_def cart_of_def same_image_def)

lemma readByte_frame: "wf_gb s \<Longrightarrow> okp (readByte a s) (\<lambda>(v, t). wf_gb t \<and> bus_frame s t)"
  by (rule okp_mono [OF readByte_ok]) (auto simp: read_ok_def read_bus_frame)

lemma writeMBC_frame: "bus_frame s (writeMBC a v s)"
  by (simp add: writeMBC_def refreshMappedRomBanks_def bus_frame_def cart_of_def split: MBCType.split)

lemmas frame_defs = bus_frame_def cart_of_def Let_def bind_eq_Some_conv

lemma frame_updates:
  "bus_frame s (s\<lparr>bufs := b\<rparr>) = (sramPersistSize b = sramPersistSize (bufs s))"
  "bus_frame s (s\<lparr>cgb := c\<rparr>) = (isCgb c = isCgb (cgb s))"
  "bus_frame s (s\<lparr>rtc := r\<rparr>)" "bus_frame s (s\<lparr>timer := t\<rparr>)" "bus_frame s (s\<lparr>joy := j\<rparr>)"
  "bus_frame s (u\<lparr>soundContext := x\<rparr>) = bus_frame s u"
  by (auto simp: bus_frame_def cart_of_def)

lemmas pcp_rules = pcp_if pcp_bind pcp_bind2

lemma write_vram_frame: "pcp (write_vram a v s) (bus_frame s)"
  unfolding write_vram_def Let_def by (intro pcp_rules) (simp_all add: frame_updates)

lemma sram_store_frame: "pcp (sram_store i v s) (bus_frame s)"
  unfolding sram_store_def by (intro pcp_rules) (simp_all add: frame_updates)

lemma write_ext_ram_frame: "pcp (write_ext_ram a v s) (bus_frame s)"
  unfolding write_ext_ram_def Let_def
  by (intro pcp_rules sram_store_frame) (simp_all add: frame_updates)

lemma write_wram_frame: "pcp (write_wram a v s) (bus_frame s)"
  unfolding write_wram_def Let_def by (intro pcp_rules) (simp_all add: frame_updates)

lemma write_sound_frame: "pcp (write_sound a v s) (bus_frame s)"
  unfolding write_sound_def Let_def
  by (intro pcp_rules) (simp add: frame_updates split: option.split)

lemma write_cgb_reg_frame: "write_cgb_reg a v c = Some c' \<Longrightarrow> isCgb c' = isCgb c"
  by (auto simp: write_cgb_reg_def frame_defs split: if_splits)

lemma oam_dma_frame:
  "wf_gb s \<Longrightarrow> oam_dma val is s = Some t \<Longrightarrow> bus_frame s t"
proof (induction "is" arbitrary: s)
  case (Cons i "is")
  obtain v u where r: "readByte (w16 val (of_nat i)) s = Some (v, u)" "wf_gb u" "bus_frame s u"
    using readByte_frame [OF Cons.prems(1), of "w16 val (of_nat i)"] by (auto simp: okp_iff)
  with Cons.prems(2) obtain o' where o': "mem_set (oam (bufs u)) i v = Some o'"
    "oam_dma val is (u\<lparr>bufs := (bufs u)\<lparr>oam := o'\<rparr>\<rparr>) = Some t"
    by (auto simp: bind_eq_Some_conv)
  moreover from o'(1) have "length o' = length (oam (bufs u))" by (rule mem_set_length)
  ultimately have "wf_gb (u\<lparr>bufs := (bufs u)\<lparr>oam := o'\<rparr>\<rparr>)"
    using r(2) wf_gbD(3) [OF r(2)] by (intro wf_set_bufs) (auto simp: wf_bufs_def)
  from Cons.IH [OF this o'(2)] r(3) show ?case by (simp add: bus_frame_def cart_of_def)
qed simp

lemma hdma_copy_frame:
  "wf_gb s \<Longrightarrow> 0x8000 \<le> unat dst \<Longrightarrow> hdma_copy src dst is s = Some t \<Longrightarrow> bus_frame s t"
proof (induction "is" arbitrary: s)
  case (Cons i "is")
  show ?case
  proof (cases "unat dst + i < 0xA000")
    case True
    obtain v u where r: "readByte (src + of_nat i) s = Some (v, u)" "wf_gb u" "bus_frame s u"
      using readByte_frame [OF Cons.prems(1), of "src + of_nat i"] by (auto simp: okp_iff)
    have "unat (dst + of_nat i) = unat dst + i" using True by (simp add: unat_plus_small)
    then obtain x where x: "write_vram (dst + of_nat i) v u = Some x" "wf_gb x"
      using write_vram_ok [OF r(2), of "dst + of_nat i" v] Cons.prems(2) True by (auto simp: okp_iff)
    have "bus_frame x t"
      using Cons.IH [OF x(2)] Cons.prems(2,3) r x(1) True by simp
    then show ?thesis using r(3) pcpD [OF write_vram_frame x(1)] bus_frame_trans by blast
  qed (use Cons.prems in simp)
qed simp

lemma write_hdma5_frame:
  assumes "wf_gb s"
  shows "pcp (write_hdma5 v s) (bus_frame s)"
  unfolding write_hdma5_def Let_def
proof (intro pcp_if pcp_bind)
  fix t
  assume "hdma_copy (w16 (hdma1 (cgb s)) (hdma2 (cgb s)) AND 0xFFF0)
    ((0x8000 OR w16 (hdma3 (cgb s)) (hdma4 (cgb s))) AND 0x9FF0) [0..<(unat (v AND 0x7F) + 1) * 16] s = Some t"
  from hdma_copy_frame [OF assms hdma_dst this]
  show "pcp (Some (t\<lparr>cgb := (cgb t)\<lparr>hdma5 := 0xFF\<rparr>\<rparr>)) (bus_frame s)"
    by (simp add: bus_frame_def cart_of_def)
qed (simp add: frame_updates)

section \<open>What a write does to the processor and the PPU\<close>

text \<open>A write touches no processor register but the interrupt registers, no part of the cartridge,
  and it moves the PPU only by restarting it.\<close>

definition lcd_pos :: "lcd_regs \<Rightarrow> u8 \<times> int \<times> u8 \<times> int \<times> bool" where
  "lcd_pos l = (ly l, ppuDots l, ppuMode l, windowLine l, lcdFirstFrame l)"

definition write_effect :: "'snd gb \<Rightarrow> 'snd gb \<Rightarrow> bool" where
  "write_effect s t \<longleftrightarrow>
     core_regs (cpu t) = core_regs (cpu s) \<and> cart_of t = cart_of s \<and>
     (wf_ppu (lcd s) \<longrightarrow> wf_ppu (lcd t)) \<and>
     (lcdChanged (lcd s) \<longrightarrow> lcdChanged (lcd t)) \<and>
     (lcdChanged (lcd t) \<or> lcd_pos (lcd t) = lcd_pos (lcd s))"

lemma bus_frame_effect: "bus_frame s t \<Longrightarrow> write_effect s t"
  by (simp add: bus_frame_def write_effect_def)

lemma checkStat_effect [simp]: "write_effect s (checkStatInterrupt t) = write_effect s t"
  by (simp add: checkStatInterrupt_def Let_def write_effect_def wf_ppu_def cart_of_def lcd_pos_def)

lemma cart_of_cpu [simp]:
  "cart_of (s\<lparr>cpu := c\<rparr>) = cart_of s" "cart_of (s\<lparr>lcd := l\<rparr>) = cart_of s"
  "cart_of (s\<lparr>timer := t\<rparr>) = cart_of s" "cart_of (s\<lparr>joy := j\<rparr>) = cart_of s"
  by (simp_all add: cart_of_def)

lemma write_lcdc_effect: "write_effect s (write_lcdc v s)"
  by (simp add: write_lcdc_def Let_def)
    (simp add: write_effect_def cart_of_def wf_ppu_def lcd_pos_def blank_screen_def)

lemma write_lcd_reg_effect: "write_effect s (write_lcd_reg a v s)"
  by (simp add: write_lcd_reg_def Let_def)
    (simp add: write_effect_def cart_of_def wf_ppu_def lcd_pos_def)

lemma effect_updates:
  "write_effect s (s\<lparr>joy := j\<rparr>)" "write_effect s (s\<lparr>timer := t\<rparr>)"
  "write_effect s (s\<lparr>cpu := (cpu s)\<lparr>ie := e\<rparr>\<rparr>)" "write_effect s (s\<lparr>cpu := (cpu s)\<lparr>iflag := f\<rparr>\<rparr>)"
  "write_effect s (write_serial_control v s)"
  by (simp_all add: write_effect_def write_serial_control_def Let_def)

lemma pcp_effect: "pcp m (bus_frame s) \<Longrightarrow> pcp m (write_effect s)"
  by (simp add: pcp_def bus_frame_effect)

lemma write_io_effect:
  assumes "wf_gb s"
  shows "pcp (write_io a v s) (write_effect s)"
proof -
  have oam: "pcp (oam_dma v [0..<0xA0] s) (bus_frame s)"
    using oam_dma_frame [OF assms] by (simp add: pcp_def)
  have c: "pcp (write_cgb_reg n v (cgb s) \<bind> (\<lambda>c. Some (s\<lparr>cgb := c\<rparr>))) (bus_frame s)" for n
    by (rule pcp_bind) (simp add: frame_updates write_cgb_reg_frame)
  have h: "pcp (mem_set (hram (bufs s)) n v \<bind> (\<lambda>h. Some (s\<lparr>bufs := (bufs s)\<lparr>hram := h\<rparr>\<rparr>))) (bus_frame s)" for n
    by (rule pcp_bind) (simp add: frame_updates)
  show ?thesis
    unfolding write_io_def Let_def
    by (intro pcp_if pcp_effect [OF write_sound_frame] pcp_effect [OF oam]
        pcp_effect [OF write_hdma5_frame [OF assms]] pcp_effect [OF c] pcp_effect [OF h])
      (simp_all add: effect_updates write_lcdc_effect write_lcd_reg_effect bus_frame_effect)
qed

lemma writeByte_effect:
  assumes "wf_gb s"
  shows "okp (writeByte a v s) (\<lambda>t. wf_gb t \<and> write_effect s t)"
proof -
  have oam: "pcp (mem_set (oam (bufs s)) n v \<bind> (\<lambda>x. Some (s\<lparr>bufs := (bufs s)\<lparr>oam := x\<rparr>\<rparr>))) (bus_frame s)" for n
    by (rule pcp_bind) (simp add: frame_updates)
  have "pcp (writeByte a v s) (write_effect s)"
    unfolding writeByte_def Let_def
    by (intro pcp_if pcp_effect [OF write_vram_frame] pcp_effect [OF write_ext_ram_frame]
        pcp_effect [OF write_wram_frame] pcp_effect [OF oam] write_io_effect assms)
      (simp_all add: bus_frame_effect writeMBC_frame)
  with writeByte_ok [OF assms, of a v] show ?thesis by (auto simp: okp_iff pcp_def)
qed

end
