(* ===== verification/Emu_Cpu.thy ===== *)
theory Emu_Cpu
  imports Emu_Bus
begin

text \<open>
  The SM83 interpreter \<open>cpu_step\<close>: interrupt dispatch, HALT fast-forward, the EI delay, the
  opcode switch in groups of rows, the CB page and the cycle tables.  The switch is translated
  case by case; what the C code repeats in every case (flag expressions, pushes, 16-bit pairs) has
  one definition.  An \<open>exec\<close> function returns \<open>branchExtra\<close> and the state.
\<close>

section \<open>Registers, operand fetch and the stack\<close>

definition with_cpu :: "(cpu_regs \<Rightarrow> cpu_regs) \<Rightarrow> 'snd gb \<Rightarrow> 'snd gb" where
  "with_cpu f s = s\<lparr>cpu := f (cpu s)\<rparr>"

definition reg_bc :: "cpu_regs \<Rightarrow> u16" where "reg_bc r = w16 (reg_b r) (reg_c r)"
definition reg_de :: "cpu_regs \<Rightarrow> u16" where "reg_de r = w16 (reg_d r) (reg_e r)"
definition reg_hl :: "cpu_regs \<Rightarrow> u16" where "reg_hl r = w16 (reg_h r) (reg_l r)"

definition set_bc :: "u16 \<Rightarrow> cpu_regs \<Rightarrow> cpu_regs" where
  "set_bc v r = r\<lparr>reg_b := hi8 v, reg_c := lo8 v\<rparr>"

definition set_de :: "u16 \<Rightarrow> cpu_regs \<Rightarrow> cpu_regs" where
  "set_de v r = r\<lparr>reg_d := hi8 v, reg_e := lo8 v\<rparr>"

definition set_hl :: "u16 \<Rightarrow> cpu_regs \<Rightarrow> cpu_regs" where
  "set_hl v r = r\<lparr>reg_h := hi8 v, reg_l := lo8 v\<rparr>"

text \<open>\<open>readByte(pc_++)\<close> and \<open>fetch16\<close>.\<close>

definition fetch8 :: "'snd gb \<Rightarrow> (u8 \<times> 'snd gb) option" where
  "fetch8 s = readByte (reg_pc (cpu s)) (with_cpu (\<lambda>r. r\<lparr>reg_pc := reg_pc r + 1\<rparr>) s)"

definition fetch16 :: "'snd gb \<Rightarrow> (u16 \<times> 'snd gb) option" where
  "fetch16 s = do {
     (low, s) \<leftarrow> fetch8 s;
     (high, s) \<leftarrow> fetch8 s;
     Some (w16 high low, s)
   }"

definition push16 :: "u16 \<Rightarrow> 'snd gb \<Rightarrow> 'snd gb option" where
  "push16 v s = do {
     let s = with_cpu (\<lambda>r. r\<lparr>reg_sp := reg_sp r - 2\<rparr>) s;
     s \<leftarrow> writeByte (reg_sp (cpu s)) (lo8 v) s;
     writeByte (reg_sp (cpu s) + 1) (hi8 v) s
   }"

text \<open>Both bytes at the stack pointer, which moves past them.\<close>

definition pop16 :: "'snd gb \<Rightarrow> (u16 \<times> 'snd gb) option" where
  "pop16 s = do {
     (low, s) \<leftarrow> readByte (reg_sp (cpu s)) s;
     (high, s) \<leftarrow> readByte (reg_sp (cpu s) + 1) s;
     Some (w16 high low, with_cpu (\<lambda>r. r\<lparr>reg_sp := reg_sp r + 2\<rparr>) s)
   }"

section \<open>Arithmetic and flags\<close>

text \<open>Z is 0x80, N is 0x40, H is 0x20, C is 0x10.\<close>

definition inc_flags :: "u8 \<Rightarrow> u8 \<Rightarrow> u8" where
  "inc_flags f v = (f AND 0x10) OR flag_if (v = 0) 0x80 OR flag_if (v AND 0x0F = 0) 0x20"

definition dec_flags :: "u8 \<Rightarrow> u8 \<Rightarrow> u8" where
  "dec_flags f v = (f AND 0x10) OR 0x40 OR flag_if (v = 0) 0x80 OR flag_if (v AND 0x0F = 0x0F) 0x20"

definition add_hl :: "u16 \<Rightarrow> cpu_regs \<Rightarrow> cpu_regs" where
  "add_hl v r =
     (let hl = reg_hl r;
          sum = (ucast hl :: u32) + ucast v
      in r\<lparr>reg_f := (reg_f r AND 0x80) OR flag_if (0xFFFF < sum) 0x10 OR
                    flag_if (0xFFF < (hl AND 0xFFF) + (v AND 0xFFF)) 0x20,
           reg_h := ucast (drop_bit 8 sum), reg_l := ucast sum\<rparr>)"

text \<open>The eight accumulator operations: the new A and F from A, F and the operand.\<close>

definition carry_in :: "u8 \<Rightarrow> u8" where
  "carry_in f = drop_bit 4 f AND 1"

definition alu_add :: "u8 \<Rightarrow> u8 \<Rightarrow> u8 \<times> u8" where
  "alu_add a v =
     (let r = (ucast a :: u16) + ucast v
      in (ucast r, flag_if (r AND 0xFF = 0) 0x80 OR flag_if (0xFF < r) 0x10 OR
                   flag_if (0xF < (a AND 0xF) + (v AND 0xF)) 0x20))"

definition alu_adc :: "u8 \<Rightarrow> u8 \<Rightarrow> u8 \<Rightarrow> u8 \<times> u8" where
  "alu_adc a f v =
     (let cy = carry_in f;
          r = (ucast a :: u16) + ucast v + ucast cy
      in (ucast r, flag_if (r AND 0xFF = 0) 0x80 OR flag_if (0xFF < r) 0x10 OR
                   flag_if (0xF < (a AND 0xF) + (v AND 0xF) + cy) 0x20))"

definition alu_cp :: "u8 \<Rightarrow> u8 \<Rightarrow> u8" where
  "alu_cp a v = flag_if (a = v) 0x80 OR 0x40 OR flag_if (a < v) 0x10 OR
                flag_if (a AND 0xF < v AND 0xF) 0x20"

definition alu_sub :: "u8 \<Rightarrow> u8 \<Rightarrow> u8 \<times> u8" where
  "alu_sub a v =
     (let r = a - v
      in (r, flag_if (r = 0) 0x80 OR 0x40 OR flag_if (a < v) 0x10 OR
             flag_if (a AND 0xF < v AND 0xF) 0x20))"

definition alu_sbc :: "u8 \<Rightarrow> u8 \<Rightarrow> u8 \<Rightarrow> u8 \<times> u8" where
  "alu_sbc a f v =
     (let cy = carry_in f;
          sum = (ucast v :: u16) + ucast cy;
          d = (ucast ((ucast a :: u16) - sum) :: u8)
      in (d, flag_if (d = 0) 0x80 OR 0x40 OR flag_if (ucast a < sum) 0x10 OR
             flag_if (a AND 0xF < (v AND 0xF) + cy) 0x20))"

definition alu_and :: "u8 \<Rightarrow> u8 \<Rightarrow> u8 \<times> u8" where
  "alu_and a v = (a AND v, flag_if (a AND v = 0) 0x80 OR 0x20)"

definition alu_xor :: "u8 \<Rightarrow> u8 \<Rightarrow> u8 \<times> u8" where
  "alu_xor a v = (a XOR v, flag_if (a XOR v = 0) 0x80)"

definition alu_or :: "u8 \<Rightarrow> u8 \<Rightarrow> u8 \<times> u8" where
  "alu_or a v = (a OR v, flag_if (a OR v = 0) 0x80)"

definition set_af :: "u8 \<times> u8 \<Rightarrow> cpu_regs \<Rightarrow> cpu_regs" where
  "set_af af r = r\<lparr>reg_a := fst af, reg_f := snd af\<rparr>"

text \<open>DAA.\<close>

definition daa :: "u8 \<Rightarrow> u8 \<Rightarrow> u8 \<times> u8" where
  "daa a f =
     (let adj = (if f AND 0x20 \<noteq> 0 \<or> f AND 0x40 = 0 \<and> 9 < a AND 0x0F then 0x06 else 0);
          big = (f AND 0x10 \<noteq> 0 \<or> f AND 0x40 = 0 \<and> 0x99 < a);
          adj = (if big then adj OR 0x60 else adj);
          f = (if big then f OR 0x10 else f);
          a = (if f AND 0x40 \<noteq> 0 then a - adj else a + adj)
      in (a, (f AND 0x50) OR flag_if (a = 0) 0x80))"

text \<open>ADD SP,n and LD HL,SP+n: the flags come from the low byte.\<close>

definition sp_flags :: "u16 \<Rightarrow> u8 \<Rightarrow> u8" where
  "sp_flags sp n =
     flag_if (0xFF < (sp AND 0xFF) + ucast n) 0x10 OR
     flag_if (0xF < (sp AND 0xF) + (ucast n AND 0xF)) 0x20"

text \<open>The four accumulator rotates.\<close>

definition rlca :: "cpu_regs \<Rightarrow> cpu_regs" where
  "rlca r = (let c7 = drop_bit 7 (reg_a r)
             in r\<lparr>reg_a := push_bit 1 (reg_a r) OR c7, reg_f := flag_if (c7 \<noteq> 0) 0x10\<rparr>)"

definition rrca :: "cpu_regs \<Rightarrow> cpu_regs" where
  "rrca r = (let c0 = reg_a r AND 1
             in r\<lparr>reg_a := drop_bit 1 (reg_a r) OR push_bit 7 c0, reg_f := flag_if (c0 \<noteq> 0) 0x10\<rparr>)"

definition rla :: "cpu_regs \<Rightarrow> cpu_regs" where
  "rla r = (let c7 = drop_bit 7 (reg_a r)
            in r\<lparr>reg_a := push_bit 1 (reg_a r) OR carry_in (reg_f r), reg_f := flag_if (c7 \<noteq> 0) 0x10\<rparr>)"

definition rra :: "cpu_regs \<Rightarrow> cpu_regs" where
  "rra r = (let c0 = reg_a r AND 1
            in r\<lparr>reg_a := drop_bit 1 (reg_a r) OR push_bit 3 (reg_f r AND 0x10),
                 reg_f := flag_if (c0 \<noteq> 0) 0x10\<rparr>)"

section \<open>Opcodes 0x00-0x3F\<close>

definition load8 :: "(u8 \<Rightarrow> cpu_regs \<Rightarrow> cpu_regs) \<Rightarrow> 'snd gb \<Rightarrow> (int \<times> 'snd gb) option" where
  "load8 put s = do { (v, s) \<leftarrow> fetch8 s; Some (0, with_cpu (put v) s) }"

definition load_from :: "u16 \<Rightarrow> (u8 \<Rightarrow> cpu_regs \<Rightarrow> cpu_regs) \<Rightarrow> 'snd gb \<Rightarrow> (int \<times> 'snd gb) option" where
  "load_from a put s = do { (v, s) \<leftarrow> readByte a s; Some (0, with_cpu (put v) s) }"

definition store8 :: "u16 \<Rightarrow> u8 \<Rightarrow> 'snd gb \<Rightarrow> (int \<times> 'snd gb) option" where
  "store8 a v s = do { s \<leftarrow> writeByte a v s; Some (0, s) }"

definition regs_only :: "(cpu_regs \<Rightarrow> cpu_regs) \<Rightarrow> 'snd gb \<Rightarrow> (int \<times> 'snd gb) option" where
  "regs_only f s = Some (0, with_cpu f s)"

definition jr_if :: "bool \<Rightarrow> 'snd gb \<Rightarrow> (int \<times> 'snd gb) option" where
  "jr_if c s =
     (if c then do {
        (n, s) \<leftarrow> readByte (reg_pc (cpu s)) s;
        Some (4, with_cpu (\<lambda>r. r\<lparr>reg_pc := reg_pc r + (sext8 n + 1)\<rparr>) s)
      } else Some (0, with_cpu (\<lambda>r. r\<lparr>reg_pc := reg_pc r + 1\<rparr>) s))"

definition flag_z :: "'snd gb \<Rightarrow> bool" where "flag_z s \<longleftrightarrow> reg_f (cpu s) AND 0x80 \<noteq> 0"
definition flag_c :: "'snd gb \<Rightarrow> bool" where "flag_c s \<longleftrightarrow> reg_f (cpu s) AND 0x10 \<noteq> 0"

text \<open>STOP: a two-byte NOP, or the speed switch a colour game has prepared.\<close>

definition op_stop :: "'snd gb \<Rightarrow> (int \<times> 'snd gb) option" where
  "op_stop s =
     (let s = with_cpu (\<lambda>r. r\<lparr>reg_pc := reg_pc r + 1\<rparr>) s
      in if isCgb (cgb s) \<and> key1 (cgb s) AND 0x01 \<noteq> 0 then
           (let d = (\<not> doubleSpeed (cgb s))
            in Some (0, s\<lparr>cgb := (cgb s)\<lparr>doubleSpeed := d, key1 := (if d then 0x80 else 0x00)\<rparr>\<rparr>))
         else Some (0, s))"

definition exec_00_0F :: "u8 \<Rightarrow> 'snd gb \<Rightarrow> (int \<times> 'snd gb) option" where
  "exec_00_0F op s =
     (if op = 0x00 then Some (0, s)
      else if op = 0x01 then do { (v, s) \<leftarrow> fetch16 s; Some (0, with_cpu (set_bc v) s) }
      else if op = 0x02 then store8 (reg_bc (cpu s)) (reg_a (cpu s)) s
      else if op = 0x03 then regs_only (\<lambda>r. set_bc (reg_bc r + 1) r) s
      else if op = 0x04 then
        regs_only (\<lambda>r. let v = reg_b r + 1 in r\<lparr>reg_b := v, reg_f := inc_flags (reg_f r) v\<rparr>) s
      else if op = 0x05 then
        regs_only (\<lambda>r. let v = reg_b r - 1 in r\<lparr>reg_b := v, reg_f := dec_flags (reg_f r) v\<rparr>) s
      else if op = 0x06 then load8 (\<lambda>v r. r\<lparr>reg_b := v\<rparr>) s
      else if op = 0x07 then regs_only rlca s
      else if op = 0x08 then do {
        (ad, s) \<leftarrow> fetch16 s;
        s \<leftarrow> writeByte ad (lo8 (reg_sp (cpu s))) s;
        s \<leftarrow> writeByte (ad + 1) (hi8 (reg_sp (cpu s))) s;
        Some (0, s)
      }
      else if op = 0x09 then regs_only (\<lambda>r. add_hl (reg_bc r) r) s
      else if op = 0x0A then load_from (reg_bc (cpu s)) (\<lambda>v r. r\<lparr>reg_a := v\<rparr>) s
      else if op = 0x0B then regs_only (\<lambda>r. set_bc (reg_bc r - 1) r) s
      else if op = 0x0C then
        regs_only (\<lambda>r. let v = reg_c r + 1 in r\<lparr>reg_c := v, reg_f := inc_flags (reg_f r) v\<rparr>) s
      else if op = 0x0D then
        regs_only (\<lambda>r. let v = reg_c r - 1 in r\<lparr>reg_c := v, reg_f := dec_flags (reg_f r) v\<rparr>) s
      else if op = 0x0E then load8 (\<lambda>v r. r\<lparr>reg_c := v\<rparr>) s
      else regs_only rrca s)"

definition exec_10_1F :: "u8 \<Rightarrow> 'snd gb \<Rightarrow> (int \<times> 'snd gb) option" where
  "exec_10_1F op s =
     (if op = 0x10 then op_stop s
      else if op = 0x11 then do { (v, s) \<leftarrow> fetch16 s; Some (0, with_cpu (set_de v) s) }
      else if op = 0x12 then store8 (reg_de (cpu s)) (reg_a (cpu s)) s
      else if op = 0x13 then regs_only (\<lambda>r. set_de (reg_de r + 1) r) s
      else if op = 0x14 then
        regs_only (\<lambda>r. let v = reg_d r + 1 in r\<lparr>reg_d := v, reg_f := inc_flags (reg_f r) v\<rparr>) s
      else if op = 0x15 then
        regs_only (\<lambda>r. let v = reg_d r - 1 in r\<lparr>reg_d := v, reg_f := dec_flags (reg_f r) v\<rparr>) s
      else if op = 0x16 then load8 (\<lambda>v r. r\<lparr>reg_d := v\<rparr>) s
      else if op = 0x17 then regs_only rla s
      else if op = 0x18 then do { (x, s) \<leftarrow> jr_if True s; Some (0, s) }
      else if op = 0x19 then regs_only (\<lambda>r. add_hl (reg_de r) r) s
      else if op = 0x1A then load_from (reg_de (cpu s)) (\<lambda>v r. r\<lparr>reg_a := v\<rparr>) s
      else if op = 0x1B then regs_only (\<lambda>r. set_de (reg_de r - 1) r) s
      else if op = 0x1C then
        regs_only (\<lambda>r. let v = reg_e r + 1 in r\<lparr>reg_e := v, reg_f := inc_flags (reg_f r) v\<rparr>) s
      else if op = 0x1D then
        regs_only (\<lambda>r. let v = reg_e r - 1 in r\<lparr>reg_e := v, reg_f := dec_flags (reg_f r) v\<rparr>) s
      else if op = 0x1E then load8 (\<lambda>v r. r\<lparr>reg_e := v\<rparr>) s
      else regs_only rra s)"

definition exec_20_2F :: "u8 \<Rightarrow> 'snd gb \<Rightarrow> (int \<times> 'snd gb) option" where
  "exec_20_2F op s =
     (if op = 0x20 then jr_if (\<not> flag_z s) s
      else if op = 0x21 then do { (v, s) \<leftarrow> fetch16 s; Some (0, with_cpu (set_hl v) s) }
      else if op = 0x22 then do {
        s \<leftarrow> writeByte (reg_hl (cpu s)) (reg_a (cpu s)) s;
        Some (0, with_cpu (\<lambda>r. let l = reg_l r + 1 in
                   r\<lparr>reg_l := l, reg_h := (if l = 0 then reg_h r + 1 else reg_h r)\<rparr>) s)
      }
      else if op = 0x23 then regs_only (\<lambda>r. set_hl (reg_hl r + 1) r) s
      else if op = 0x24 then
        regs_only (\<lambda>r. let v = reg_h r + 1 in r\<lparr>reg_h := v, reg_f := inc_flags (reg_f r) v\<rparr>) s
      else if op = 0x25 then
        regs_only (\<lambda>r. let v = reg_h r - 1 in r\<lparr>reg_h := v, reg_f := dec_flags (reg_f r) v\<rparr>) s
      else if op = 0x26 then load8 (\<lambda>v r. r\<lparr>reg_h := v\<rparr>) s
      else if op = 0x27 then regs_only (\<lambda>r. set_af (daa (reg_a r) (reg_f r)) r) s
      else if op = 0x28 then jr_if (flag_z s) s
      else if op = 0x29 then regs_only (\<lambda>r. add_hl (reg_hl r) r) s
      else if op = 0x2A then do {
        (v, s) \<leftarrow> readByte (reg_hl (cpu s)) s;
        Some (0, with_cpu (\<lambda>r. let l = reg_l r + 1 in
                   r\<lparr>reg_a := v, reg_l := l, reg_h := (if l = 0 then reg_h r + 1 else reg_h r)\<rparr>) s)
      }
      else if op = 0x2B then regs_only (\<lambda>r. set_hl (reg_hl r - 1) r) s
      else if op = 0x2C then
        regs_only (\<lambda>r. let v = reg_l r + 1 in r\<lparr>reg_l := v, reg_f := inc_flags (reg_f r) v\<rparr>) s
      else if op = 0x2D then
        regs_only (\<lambda>r. let v = reg_l r - 1 in r\<lparr>reg_l := v, reg_f := dec_flags (reg_f r) v\<rparr>) s
      else if op = 0x2E then load8 (\<lambda>v r. r\<lparr>reg_l := v\<rparr>) s
      else regs_only (\<lambda>r. r\<lparr>reg_a := NOT (reg_a r), reg_f := reg_f r OR 0x60\<rparr>) s)"

definition exec_30_3F :: "u8 \<Rightarrow> 'snd gb \<Rightarrow> (int \<times> 'snd gb) option" where
  "exec_30_3F op s =
     (if op = 0x30 then jr_if (\<not> flag_c s) s
      else if op = 0x31 then do { (v, s) \<leftarrow> fetch16 s; Some (0, with_cpu (\<lambda>r. r\<lparr>reg_sp := v\<rparr>) s) }
      else if op = 0x32 then do {
        s \<leftarrow> writeByte (reg_hl (cpu s)) (reg_a (cpu s)) s;
        Some (0, with_cpu (\<lambda>r. let l = reg_l r - 1 in
                   r\<lparr>reg_l := l, reg_h := (if l = 0xFF then reg_h r - 1 else reg_h r)\<rparr>) s)
      }
      else if op = 0x33 then regs_only (\<lambda>r. r\<lparr>reg_sp := reg_sp r + 1\<rparr>) s
      else if op = 0x34 then do {
        let ad = reg_hl (cpu s);
        (b, s) \<leftarrow> readByte ad s;
        let v = b + 1;
        s \<leftarrow> writeByte ad v s;
        Some (0, with_cpu (\<lambda>r. r\<lparr>reg_f := inc_flags (reg_f r) v\<rparr>) s)
      }
      else if op = 0x35 then do {
        let ad = reg_hl (cpu s);
        (b, s) \<leftarrow> readByte ad s;
        let v = b - 1;
        s \<leftarrow> writeByte ad v s;
        Some (0, with_cpu (\<lambda>r. r\<lparr>reg_f := dec_flags (reg_f r) v\<rparr>) s)
      }
      else if op = 0x36 then do { (v, s) \<leftarrow> fetch8 s; store8 (reg_hl (cpu s)) v s }
      else if op = 0x37 then regs_only (\<lambda>r. r\<lparr>reg_f := (reg_f r AND 0x80) OR 0x10\<rparr>) s
      else if op = 0x38 then jr_if (flag_c s) s
      else if op = 0x39 then regs_only (\<lambda>r. add_hl (reg_sp r) r) s
      else if op = 0x3A then do {
        (v, s) \<leftarrow> readByte (reg_hl (cpu s)) s;
        Some (0, with_cpu (\<lambda>r. let l = reg_l r - 1 in
                   r\<lparr>reg_a := v, reg_l := l, reg_h := (if l = 0xFF then reg_h r - 1 else reg_h r)\<rparr>) s)
      }
      else if op = 0x3B then regs_only (\<lambda>r. r\<lparr>reg_sp := reg_sp r - 1\<rparr>) s
      else if op = 0x3C then
        regs_only (\<lambda>r. let v = reg_a r + 1 in r\<lparr>reg_a := v, reg_f := inc_flags (reg_f r) v\<rparr>) s
      else if op = 0x3D then
        regs_only (\<lambda>r. let v = reg_a r - 1 in r\<lparr>reg_a := v, reg_f := dec_flags (reg_f r) v\<rparr>) s
      else if op = 0x3E then load8 (\<lambda>v r. r\<lparr>reg_a := v\<rparr>) s
      else regs_only (\<lambda>r. r\<lparr>reg_f := (reg_f r AND 0x80) OR flag_if (reg_f r AND 0x10 = 0) 0x10\<rparr>) s)"

section \<open>Opcodes 0x40-0x7F: loads between registers, and HALT\<close>

text \<open>HALT halts, unless it is reached with interrupts off and one pending: the HALT bug.\<close>

definition op_halt :: "'snd gb \<Rightarrow> (int \<times> 'snd gb) option" where
  "op_halt s =
     regs_only (\<lambda>r. if ime r then r\<lparr>halted := True\<rparr>
                   else if ie r AND iflag r AND 0x1F \<noteq> 0 then r\<lparr>haltBug := True\<rparr>
                   else r\<lparr>halted := True\<rparr>) s"

definition exec_40_4F :: "u8 \<Rightarrow> 'snd gb \<Rightarrow> (int \<times> 'snd gb) option" where
  "exec_40_4F op s =
     (if op = 0x40 then Some (0, s)
      else if op = 0x41 then regs_only (\<lambda>r. r\<lparr>reg_b := reg_c r\<rparr>) s
      else if op = 0x42 then regs_only (\<lambda>r. r\<lparr>reg_b := reg_d r\<rparr>) s
      else if op = 0x43 then regs_only (\<lambda>r. r\<lparr>reg_b := reg_e r\<rparr>) s
      else if op = 0x44 then regs_only (\<lambda>r. r\<lparr>reg_b := reg_h r\<rparr>) s
      else if op = 0x45 then regs_only (\<lambda>r. r\<lparr>reg_b := reg_l r\<rparr>) s
      else if op = 0x46 then load_from (reg_hl (cpu s)) (\<lambda>v r. r\<lparr>reg_b := v\<rparr>) s
      else if op = 0x47 then regs_only (\<lambda>r. r\<lparr>reg_b := reg_a r\<rparr>) s
      else if op = 0x48 then regs_only (\<lambda>r. r\<lparr>reg_c := reg_b r\<rparr>) s
      else if op = 0x49 then Some (0, s)
      else if op = 0x4A then regs_only (\<lambda>r. r\<lparr>reg_c := reg_d r\<rparr>) s
      else if op = 0x4B then regs_only (\<lambda>r. r\<lparr>reg_c := reg_e r\<rparr>) s
      else if op = 0x4C then regs_only (\<lambda>r. r\<lparr>reg_c := reg_h r\<rparr>) s
      else if op = 0x4D then regs_only (\<lambda>r. r\<lparr>reg_c := reg_l r\<rparr>) s
      else if op = 0x4E then load_from (reg_hl (cpu s)) (\<lambda>v r. r\<lparr>reg_c := v\<rparr>) s
      else regs_only (\<lambda>r. r\<lparr>reg_c := reg_a r\<rparr>) s)"

definition exec_50_5F :: "u8 \<Rightarrow> 'snd gb \<Rightarrow> (int \<times> 'snd gb) option" where
  "exec_50_5F op s =
     (if op = 0x50 then regs_only (\<lambda>r. r\<lparr>reg_d := reg_b r\<rparr>) s
      else if op = 0x51 then regs_only (\<lambda>r. r\<lparr>reg_d := reg_c r\<rparr>) s
      else if op = 0x52 then Some (0, s)
      else if op = 0x53 then regs_only (\<lambda>r. r\<lparr>reg_d := reg_e r\<rparr>) s
      else if op = 0x54 then regs_only (\<lambda>r. r\<lparr>reg_d := reg_h r\<rparr>) s
      else if op = 0x55 then regs_only (\<lambda>r. r\<lparr>reg_d := reg_l r\<rparr>) s
      else if op = 0x56 then load_from (reg_hl (cpu s)) (\<lambda>v r. r\<lparr>reg_d := v\<rparr>) s
      else if op = 0x57 then regs_only (\<lambda>r. r\<lparr>reg_d := reg_a r\<rparr>) s
      else if op = 0x58 then regs_only (\<lambda>r. r\<lparr>reg_e := reg_b r\<rparr>) s
      else if op = 0x59 then regs_only (\<lambda>r. r\<lparr>reg_e := reg_c r\<rparr>) s
      else if op = 0x5A then regs_only (\<lambda>r. r\<lparr>reg_e := reg_d r\<rparr>) s
      else if op = 0x5B then Some (0, s)
      else if op = 0x5C then regs_only (\<lambda>r. r\<lparr>reg_e := reg_h r\<rparr>) s
      else if op = 0x5D then regs_only (\<lambda>r. r\<lparr>reg_e := reg_l r\<rparr>) s
      else if op = 0x5E then load_from (reg_hl (cpu s)) (\<lambda>v r. r\<lparr>reg_e := v\<rparr>) s
      else regs_only (\<lambda>r. r\<lparr>reg_e := reg_a r\<rparr>) s)"

definition exec_60_6F :: "u8 \<Rightarrow> 'snd gb \<Rightarrow> (int \<times> 'snd gb) option" where
  "exec_60_6F op s =
     (if op = 0x60 then regs_only (\<lambda>r. r\<lparr>reg_h := reg_b r\<rparr>) s
      else if op = 0x61 then regs_only (\<lambda>r. r\<lparr>reg_h := reg_c r\<rparr>) s
      else if op = 0x62 then regs_only (\<lambda>r. r\<lparr>reg_h := reg_d r\<rparr>) s
      else if op = 0x63 then regs_only (\<lambda>r. r\<lparr>reg_h := reg_e r\<rparr>) s
      else if op = 0x64 then Some (0, s)
      else if op = 0x65 then regs_only (\<lambda>r. r\<lparr>reg_h := reg_l r\<rparr>) s
      else if op = 0x66 then load_from (reg_hl (cpu s)) (\<lambda>v r. r\<lparr>reg_h := v\<rparr>) s
      else if op = 0x67 then regs_only (\<lambda>r. r\<lparr>reg_h := reg_a r\<rparr>) s
      else if op = 0x68 then regs_only (\<lambda>r. r\<lparr>reg_l := reg_b r\<rparr>) s
      else if op = 0x69 then regs_only (\<lambda>r. r\<lparr>reg_l := reg_c r\<rparr>) s
      else if op = 0x6A then regs_only (\<lambda>r. r\<lparr>reg_l := reg_d r\<rparr>) s
      else if op = 0x6B then regs_only (\<lambda>r. r\<lparr>reg_l := reg_e r\<rparr>) s
      else if op = 0x6C then regs_only (\<lambda>r. r\<lparr>reg_l := reg_h r\<rparr>) s
      else if op = 0x6D then Some (0, s)
      else if op = 0x6E then load_from (reg_hl (cpu s)) (\<lambda>v r. r\<lparr>reg_l := v\<rparr>) s
      else regs_only (\<lambda>r. r\<lparr>reg_l := reg_a r\<rparr>) s)"

definition exec_70_7F :: "u8 \<Rightarrow> 'snd gb \<Rightarrow> (int \<times> 'snd gb) option" where
  "exec_70_7F op s =
     (if op = 0x70 then store8 (reg_hl (cpu s)) (reg_b (cpu s)) s
      else if op = 0x71 then store8 (reg_hl (cpu s)) (reg_c (cpu s)) s
      else if op = 0x72 then store8 (reg_hl (cpu s)) (reg_d (cpu s)) s
      else if op = 0x73 then store8 (reg_hl (cpu s)) (reg_e (cpu s)) s
      else if op = 0x74 then store8 (reg_hl (cpu s)) (reg_h (cpu s)) s
      else if op = 0x75 then store8 (reg_hl (cpu s)) (reg_l (cpu s)) s
      else if op = 0x76 then op_halt s
      else if op = 0x77 then store8 (reg_hl (cpu s)) (reg_a (cpu s)) s
      else if op = 0x78 then regs_only (\<lambda>r. r\<lparr>reg_a := reg_b r\<rparr>) s
      else if op = 0x79 then regs_only (\<lambda>r. r\<lparr>reg_a := reg_c r\<rparr>) s
      else if op = 0x7A then regs_only (\<lambda>r. r\<lparr>reg_a := reg_d r\<rparr>) s
      else if op = 0x7B then regs_only (\<lambda>r. r\<lparr>reg_a := reg_e r\<rparr>) s
      else if op = 0x7C then regs_only (\<lambda>r. r\<lparr>reg_a := reg_h r\<rparr>) s
      else if op = 0x7D then regs_only (\<lambda>r. r\<lparr>reg_a := reg_l r\<rparr>) s
      else if op = 0x7E then load_from (reg_hl (cpu s)) (\<lambda>v r. r\<lparr>reg_a := v\<rparr>) s
      else Some (0, s))"

section \<open>Opcodes 0x80-0xBF: the accumulator\<close>

text \<open>The operand \<open>switch(op&7)\<close> of the ALU rows and of the CB page, and the CB page's write-back.\<close>

definition operand :: "u8 \<Rightarrow> 'snd gb \<Rightarrow> (u8 \<times> 'snd gb) option" where
  "operand idx s =
     (let r = cpu s
      in if idx = 0 then Some (reg_b r, s) else if idx = 1 then Some (reg_c r, s)
         else if idx = 2 then Some (reg_d r, s) else if idx = 3 then Some (reg_e r, s)
         else if idx = 4 then Some (reg_h r, s) else if idx = 5 then Some (reg_l r, s)
         else if idx = 6 then readByte (reg_hl r) s
         else Some (reg_a r, s))"

definition write_back :: "u8 \<Rightarrow> u8 \<Rightarrow> 'snd gb \<Rightarrow> 'snd gb option" where
  "write_back idx v s =
     (if idx = 0 then Some (with_cpu (\<lambda>r. r\<lparr>reg_b := v\<rparr>) s)
      else if idx = 1 then Some (with_cpu (\<lambda>r. r\<lparr>reg_c := v\<rparr>) s)
      else if idx = 2 then Some (with_cpu (\<lambda>r. r\<lparr>reg_d := v\<rparr>) s)
      else if idx = 3 then Some (with_cpu (\<lambda>r. r\<lparr>reg_e := v\<rparr>) s)
      else if idx = 4 then Some (with_cpu (\<lambda>r. r\<lparr>reg_h := v\<rparr>) s)
      else if idx = 5 then Some (with_cpu (\<lambda>r. r\<lparr>reg_l := v\<rparr>) s)
      else if idx = 6 then writeByte (reg_hl (cpu s)) v s
      else Some (with_cpu (\<lambda>r. r\<lparr>reg_a := v\<rparr>) s))"

definition alu_op :: "u8 \<Rightarrow> u8 \<Rightarrow> cpu_regs \<Rightarrow> cpu_regs" where
  "alu_op row v r =
     (let a = reg_a r; f = reg_f r
      in if row = 0 then set_af (alu_add a v) r
         else if row = 1 then set_af (alu_adc a f v) r
         else if row = 2 then set_af (alu_sub a v) r
         else if row = 3 then set_af (alu_sbc a f v) r
         else if row = 4 then set_af (alu_and a v) r
         else if row = 5 then set_af (alu_xor a v) r
         else if row = 6 then set_af (alu_or a v) r
         else r\<lparr>reg_f := alu_cp a v\<rparr>)"

definition exec_80_BF :: "u8 \<Rightarrow> 'snd gb \<Rightarrow> (int \<times> 'snd gb) option" where
  "exec_80_BF op s = do {
     (v, s) \<leftarrow> operand (op AND 7) s;
     Some (0, with_cpu (alu_op (drop_bit 3 op AND 7) v) s)
   }"

section \<open>Opcodes 0xC0-0xFF: jumps, calls, returns, the stack, immediates and high memory\<close>

definition alu_imm :: "u8 \<Rightarrow> 'snd gb \<Rightarrow> (int \<times> 'snd gb) option" where
  "alu_imm row s = do {
     (v, s) \<leftarrow> fetch8 s;
     Some (0, with_cpu (alu_op row v) s)
   }"

definition ret_if :: "bool \<Rightarrow> 'snd gb \<Rightarrow> (int \<times> 'snd gb) option" where
  "ret_if c s =
     (if c then do {
        (v, s) \<leftarrow> pop16 s;
        Some (12, with_cpu (\<lambda>r. r\<lparr>reg_pc := v\<rparr>) s)
      } else Some (0, s))"

definition jp_if :: "('snd gb \<Rightarrow> bool) \<Rightarrow> 'snd gb \<Rightarrow> (int \<times> 'snd gb) option" where
  "jp_if c s = do {
     (ad, s) \<leftarrow> fetch16 s;
     Some (if c s then (4, with_cpu (\<lambda>r. r\<lparr>reg_pc := ad\<rparr>) s) else (0, s))
   }"

definition call_if :: "('snd gb \<Rightarrow> bool) \<Rightarrow> 'snd gb \<Rightarrow> (int \<times> 'snd gb) option" where
  "call_if c s = do {
     (ad, s) \<leftarrow> fetch16 s;
     (if c s then do {
        s \<leftarrow> push16 (reg_pc (cpu s)) s;
        Some (12, with_cpu (\<lambda>r. r\<lparr>reg_pc := ad\<rparr>) s)
      } else Some (0, s))
   }"

definition rst :: "u16 \<Rightarrow> 'snd gb \<Rightarrow> (int \<times> 'snd gb) option" where
  "rst v s = do {
     s \<leftarrow> push16 (reg_pc (cpu s)) s;
     Some (0, with_cpu (\<lambda>r. r\<lparr>reg_pc := v\<rparr>) s)
   }"

definition pop_to :: "(u16 \<Rightarrow> cpu_regs \<Rightarrow> cpu_regs) \<Rightarrow> 'snd gb \<Rightarrow> (int \<times> 'snd gb) option" where
  "pop_to put s = do { (v, s) \<leftarrow> pop16 s; Some (0, with_cpu (put v) s) }"

definition push_from :: "u16 \<Rightarrow> 'snd gb \<Rightarrow> (int \<times> 'snd gb) option" where
  "push_from v s = do { s \<leftarrow> push16 v s; Some (0, s) }"

definition exec_C0_CF :: "u8 \<Rightarrow> 'snd gb \<Rightarrow> (int \<times> 'snd gb) option" where
  "exec_C0_CF op s =
     (if op = 0xC0 then ret_if (\<not> flag_z s) s
      else if op = 0xC1 then pop_to set_bc s
      else if op = 0xC2 then jp_if (\<lambda>s. \<not> flag_z s) s
      else if op = 0xC3 then do {
        (low, s) \<leftarrow> readByte (reg_pc (cpu s)) s;
        (high, s) \<leftarrow> readByte (reg_pc (cpu s) + 1) s;
        Some (0, with_cpu (\<lambda>r. r\<lparr>reg_pc := w16 high low\<rparr>) s)
      }
      else if op = 0xC4 then call_if (\<lambda>s. \<not> flag_z s) s
      else if op = 0xC5 then push_from (reg_bc (cpu s)) s
      else if op = 0xC6 then alu_imm 0 s
      else if op = 0xC7 then rst 0x00 s
      else if op = 0xC8 then ret_if (flag_z s) s
      else if op = 0xC9 then do { (x, s) \<leftarrow> ret_if True s; Some (0, s) }
      else if op = 0xCA then jp_if flag_z s
      else if op = 0xCC then call_if flag_z s
      else if op = 0xCD then do { (x, s) \<leftarrow> call_if (\<lambda>s. True) s; Some (0, s) }
      else if op = 0xCE then alu_imm 1 s
      else rst 0x08 s)"

definition exec_D0_DF :: "u8 \<Rightarrow> 'snd gb \<Rightarrow> (int \<times> 'snd gb) option" where
  "exec_D0_DF op s =
     (if op = 0xD0 then ret_if (\<not> flag_c s) s
      else if op = 0xD1 then pop_to set_de s
      else if op = 0xD2 then jp_if (\<lambda>s. \<not> flag_c s) s
      else if op = 0xD4 then call_if (\<lambda>s. \<not> flag_c s) s
      else if op = 0xD5 then push_from (reg_de (cpu s)) s
      else if op = 0xD6 then do {
        (v, s) \<leftarrow> fetch8 s;
        Some (0, with_cpu (\<lambda>r. r\<lparr>reg_f := alu_cp (reg_a r) v, reg_a := reg_a r - v\<rparr>) s)
      }
      else if op = 0xD7 then rst 0x10 s
      else if op = 0xD8 then ret_if (flag_c s) s
      else if op = 0xD9 then do {
        (x, s) \<leftarrow> ret_if True (with_cpu (\<lambda>r. r\<lparr>ime := True\<rparr>) s);
        Some (0, s)
      }
      else if op = 0xDA then jp_if flag_c s
      else if op = 0xDC then call_if flag_c s
      else if op = 0xDE then alu_imm 3 s
      else if op = 0xDF then rst 0x18 s
      else Some (0, s))"

definition exec_E0_EF :: "u8 \<Rightarrow> 'snd gb \<Rightarrow> (int \<times> 'snd gb) option" where
  "exec_E0_EF op s =
     (if op = 0xE0 then do { (n, s) \<leftarrow> fetch8 s; store8 (0xFF00 + ucast n) (reg_a (cpu s)) s }
      else if op = 0xE1 then pop_to set_hl s
      else if op = 0xE2 then store8 (0xFF00 + ucast (reg_c (cpu s))) (reg_a (cpu s)) s
      else if op = 0xE5 then push_from (reg_hl (cpu s)) s
      else if op = 0xE6 then alu_imm 4 s
      else if op = 0xE7 then rst 0x20 s
      else if op = 0xE8 then do {
        (n, s) \<leftarrow> fetch8 s;
        Some (0, with_cpu (\<lambda>r. r\<lparr>reg_f := sp_flags (reg_sp r) n, reg_sp := reg_sp r + sext8 n\<rparr>) s)
      }
      else if op = 0xE9 then regs_only (\<lambda>r. r\<lparr>reg_pc := reg_hl r\<rparr>) s
      else if op = 0xEA then do { (ad, s) \<leftarrow> fetch16 s; store8 ad (reg_a (cpu s)) s }
      else if op = 0xEE then alu_imm 5 s
      else if op = 0xEF then rst 0x28 s
      else Some (0, s))"

definition exec_F0_FF :: "u8 \<Rightarrow> 'snd gb \<Rightarrow> (int \<times> 'snd gb) option" where
  "exec_F0_FF op s =
     (if op = 0xF0 then do {
        (n, s) \<leftarrow> fetch8 s;
        load_from (0xFF00 + ucast n) (\<lambda>v r. r\<lparr>reg_a := v\<rparr>) s
      }
      else if op = 0xF1 then pop_to (\<lambda>v r. r\<lparr>reg_f := lo8 v AND 0xF0, reg_a := hi8 v\<rparr>) s
      else if op = 0xF2 then load_from (0xFF00 + ucast (reg_c (cpu s))) (\<lambda>v r. r\<lparr>reg_a := v\<rparr>) s
      else if op = 0xF3 then regs_only (\<lambda>r. r\<lparr>ime := False\<rparr>) s
      else if op = 0xF5 then push_from (w16 (reg_a (cpu s)) (reg_f (cpu s))) s
      else if op = 0xF6 then alu_imm 6 s
      else if op = 0xF7 then rst 0x30 s
      else if op = 0xF8 then do {
        (n, s) \<leftarrow> fetch8 s;
        Some (0, with_cpu (\<lambda>r. set_hl (reg_sp r + sext8 n) (r\<lparr>reg_f := sp_flags (reg_sp r) n\<rparr>)) s)
      }
      else if op = 0xF9 then regs_only (\<lambda>r. r\<lparr>reg_sp := reg_hl r\<rparr>) s
      else if op = 0xFA then do {
        (ad, s) \<leftarrow> fetch16 s;
        load_from ad (\<lambda>v r. r\<lparr>reg_a := v\<rparr>) s
      }
      else if op = 0xFB then regs_only (\<lambda>r. r\<lparr>eiPending := True\<rparr>) s
      else if op = 0xFE then alu_imm 7 s
      else if op = 0xFF then rst 0x38 s
      else Some (0, s))"

section \<open>The CB page\<close>

text \<open>The rotates and shifts: the result and the carry out.\<close>

definition cb_shift :: "u8 \<Rightarrow> u8 \<Rightarrow> u8 \<Rightarrow> u8 \<times> u8" where
  "cb_shift row v f =
     (let c7 = drop_bit 7 v; c0 = v AND 1
      in if row = 0 then (push_bit 1 v OR c7, flag_if (c7 \<noteq> 0) 0x10)
         else if row = 1 then (drop_bit 1 v OR push_bit 7 c0, flag_if (c0 \<noteq> 0) 0x10)
         else if row = 2 then (push_bit 1 v OR carry_in f, flag_if (c7 \<noteq> 0) 0x10)
         else if row = 3 then (drop_bit 1 v OR push_bit 3 (f AND 0x10), flag_if (c0 \<noteq> 0) 0x10)
         else if row = 4 then (push_bit 1 v, flag_if (c7 \<noteq> 0) 0x10)
         else if row = 5 then (drop_bit 1 v OR (v AND 0x80), flag_if (c0 \<noteq> 0) 0x10)
         else if row = 6 then (push_bit 4 (v AND 0x0F) OR (drop_bit 4 v AND 0x0F), 0)
         else (drop_bit 1 v, flag_if (c0 \<noteq> 0) 0x10))"

definition cb_bit :: "u8 \<Rightarrow> u8" where
  "cb_bit cb = push_bit (unat (drop_bit 3 cb AND 0x07)) 1"

definition exec_cb :: "'snd gb \<Rightarrow> (u8 \<times> 'snd gb) option" where
  "exec_cb s = do {
     (cb, s) \<leftarrow> fetch8 s;
     let idx = cb AND 0x07;
     (val, s) \<leftarrow> operand idx s;
     s \<leftarrow> (if cb < 0x40 then
             (let (result, c) = cb_shift (drop_bit 3 cb AND 0x07) val (reg_f (cpu s))
              in write_back idx result
                   (with_cpu (\<lambda>r. r\<lparr>reg_f := flag_if (result = 0) 0x80 OR c\<rparr>) s))
           else if cb < 0x80 then
             Some (with_cpu (\<lambda>r. r\<lparr>reg_f := (reg_f r AND 0x10) OR 0x20 OR
                                    flag_if (val AND cb_bit cb = 0) 0x80\<rparr>) s)
           else if cb < 0xC0 then write_back idx (val AND NOT (cb_bit cb)) s
           else write_back idx (val OR cb_bit cb) s);
     Some (cb, s)
   }"

section \<open>The cycle tables\<close>

definition opCycles :: "int list" where
  "opCycles = [
      4, 12,  8,  8,  4,  4,  8,  4, 20,  8,  8,  8,  4,  4,  8,  4,
      4, 12,  8,  8,  4,  4,  8,  4, 12,  8,  8,  8,  4,  4,  8,  4,
      8, 12,  8,  8,  4,  4,  8,  4,  8,  8,  8,  8,  4,  4,  8,  4,
      8, 12,  8,  8, 12, 12, 12,  4,  8,  8,  8,  8,  4,  4,  8,  4,
      4,  4,  4,  4,  4,  4,  8,  4,  4,  4,  4,  4,  4,  4,  8,  4,
      4,  4,  4,  4,  4,  4,  8,  4,  4,  4,  4,  4,  4,  4,  8,  4,
      4,  4,  4,  4,  4,  4,  8,  4,  4,  4,  4,  4,  4,  4,  8,  4,
      8,  8,  8,  8,  8,  8,  4,  8,  4,  4,  4,  4,  4,  4,  8,  4,
      4,  4,  4,  4,  4,  4,  8,  4,  4,  4,  4,  4,  4,  4,  8,  4,
      4,  4,  4,  4,  4,  4,  8,  4,  4,  4,  4,  4,  4,  4,  8,  4,
      4,  4,  4,  4,  4,  4,  8,  4,  4,  4,  4,  4,  4,  4,  8,  4,
      4,  4,  4,  4,  4,  4,  8,  4,  4,  4,  4,  4,  4,  4,  8,  4,
      8, 12, 12, 16, 12, 16,  8, 16,  8, 16, 12,  4, 12, 24,  8, 16,
      8, 12, 12,  0, 12, 16,  8, 16,  8, 16, 12,  0, 12,  0,  8, 16,
     12, 12,  8,  0,  0, 16,  8, 16, 16,  4, 16,  0,  0,  0,  8, 16,
     12, 12,  8,  4,  0, 16,  8, 16, 12,  8, 16,  4,  0,  0,  8, 16]"

definition cbCycles :: "int list" where
  "cbCycles = [
      8,  8,  8,  8,  8,  8, 16,  8,  8,  8,  8,  8,  8,  8, 16,  8,
      8,  8,  8,  8,  8,  8, 16,  8,  8,  8,  8,  8,  8,  8, 16,  8,
      8,  8,  8,  8,  8,  8, 16,  8,  8,  8,  8,  8,  8,  8, 16,  8,
      8,  8,  8,  8,  8,  8, 16,  8,  8,  8,  8,  8,  8,  8, 16,  8,
      8,  8,  8,  8,  8,  8, 12,  8,  8,  8,  8,  8,  8,  8, 12,  8,
      8,  8,  8,  8,  8,  8, 12,  8,  8,  8,  8,  8,  8,  8, 12,  8,
      8,  8,  8,  8,  8,  8, 12,  8,  8,  8,  8,  8,  8,  8, 12,  8,
      8,  8,  8,  8,  8,  8, 12,  8,  8,  8,  8,  8,  8,  8, 12,  8,
      8,  8,  8,  8,  8,  8, 16,  8,  8,  8,  8,  8,  8,  8, 16,  8,
      8,  8,  8,  8,  8,  8, 16,  8,  8,  8,  8,  8,  8,  8, 16,  8,
      8,  8,  8,  8,  8,  8, 16,  8,  8,  8,  8,  8,  8,  8, 16,  8,
      8,  8,  8,  8,  8,  8, 16,  8,  8,  8,  8,  8,  8,  8, 16,  8,
      8,  8,  8,  8,  8,  8, 16,  8,  8,  8,  8,  8,  8,  8, 16,  8,
      8,  8,  8,  8,  8,  8, 16,  8,  8,  8,  8,  8,  8,  8, 16,  8,
      8,  8,  8,  8,  8,  8, 16,  8,  8,  8,  8,  8,  8,  8, 16,  8,
      8,  8,  8,  8,  8,  8, 16,  8,  8,  8,  8,  8,  8,  8, 16,  8]"

section \<open>One step\<close>

text \<open>The opcode switch.\<close>

definition exec_op :: "u8 \<Rightarrow> 'snd gb \<Rightarrow> (int \<times> 'snd gb) option" where
  "exec_op op s =
     (if op < 0x10 then exec_00_0F op s
      else if op < 0x20 then exec_10_1F op s
      else if op < 0x30 then exec_20_2F op s
      else if op < 0x40 then exec_30_3F op s
      else if op < 0x50 then exec_40_4F op s
      else if op < 0x60 then exec_50_5F op s
      else if op < 0x70 then exec_60_6F op s
      else if op < 0x80 then exec_70_7F op s
      else if op < 0xC0 then exec_80_BF op s
      else if op < 0xD0 then exec_C0_CF op s
      else if op < 0xE0 then exec_D0_DF op s
      else if op < 0xF0 then exec_E0_EF op s
      else exec_F0_FF op s)"

text \<open>The instruction at the program counter and what it costs.\<close>

definition run_instruction :: "'snd gb \<Rightarrow> (int \<times> 'snd gb) option" where
  "run_instruction s = do {
     (op, s) \<leftarrow> fetch8 s;
     let s = (if haltBug (cpu s)
              then with_cpu (\<lambda>r. r\<lparr>reg_pc := reg_pc r - 1, haltBug := False\<rparr>) s else s);
     (if op = 0xCB then do {
        (cb, s) \<leftarrow> exec_cb s;
        Some (cbCycles ! unat cb, s)
      }
      else do {
        (branchExtra, s) \<leftarrow> exec_op op s;
        Some (opCycles ! unat op + branchExtra, s)
      })
   }"

text \<open>Interrupt dispatch: the lowest pending bit wins.\<close>

definition dispatch :: "u8 \<Rightarrow> 'snd gb \<Rightarrow> 'snd gb option" where
  "dispatch pending s = do {
     s \<leftarrow> push16 (reg_pc (cpu s)) (with_cpu (\<lambda>r. r\<lparr>ime := False\<rparr>) s);
     Some (with_cpu (\<lambda>r.
       if pending AND 0x01 \<noteq> 0 then r\<lparr>iflag := iflag r AND NOT 0x01, reg_pc := 0x40\<rparr>
       else if pending AND 0x02 \<noteq> 0 then r\<lparr>iflag := iflag r AND NOT 0x02, reg_pc := 0x48\<rparr>
       else if pending AND 0x04 \<noteq> 0 then r\<lparr>iflag := iflag r AND NOT 0x04, reg_pc := 0x50\<rparr>
       else if pending AND 0x08 \<noteq> 0 then r\<lparr>iflag := iflag r AND NOT 0x08, reg_pc := 0x58\<rparr>
       else if pending AND 0x10 \<noteq> 0 then r\<lparr>iflag := iflag r AND NOT 0x10, reg_pc := 0x60\<rparr>
       else r) s)
   }"

text \<open>HALT skips to the next event: the caller's budget or the TIMA overflow.\<close>

definition halt_freq :: "u8 \<Rightarrow> int" where
  "halt_freq ctl =
     (let i = ctl AND 3 in if i = 0 then 1024 else if i = 1 then 16 else if i = 2 then 64 else 256)"

definition halt_skip :: "int \<Rightarrow> 'snd gb \<Rightarrow> int" where
  "halt_skip idleBudget s =
     (let t = timer s;
          skip = idleBudget;
          skip = (if tac t AND 0x04 \<noteq> 0 \<and> ie (cpu s) AND 0x04 \<noteq> 0 then
                    (let toOverflow = (256 - uint (tima t)) * halt_freq (tac t) - uint (timerCounter t)
                     in if 0 < toOverflow \<and> toOverflow < skip then toOverflow else skip)
                  else skip)
      in if skip < 4 then 4 else skip)"

definition cpu_step :: "int \<Rightarrow> 'snd gb \<Rightarrow> (int \<times> 'snd gb) option" where
  "cpu_step idleBudget s =
     (let pending = ie (cpu s) AND iflag (cpu s) AND 0x1F;
          s = (if pending \<noteq> 0 then with_cpu (\<lambda>r. r\<lparr>halted := False\<rparr>) s else s)
      in if pending \<noteq> 0 \<and> ime (cpu s) then do {
           s \<leftarrow> dispatch pending s;
           Some (20, s)
         }
         else if halted (cpu s) then Some (halt_skip idleBudget s, s)
         else
           let s = (if eiPending (cpu s)
                    then with_cpu (\<lambda>r. r\<lparr>eiPending := False, ime := True\<rparr>) s else s)
           in run_instruction s)"

section \<open>The contract between the interpreter and the bus\<close>

text \<open>
  What the interpreter needs of the bus to keep a property \<open>I\<close> of the machine: reads and writes
  keep it and leave the core registers alone, and it does not depend on the registers or on the
  speed switch.  \<open>cpu_step_keeps\<close> is proved once from this and used for every invariant.
\<close>

lemma and_mask_zero: "m AND k = 0 \<Longrightarrow> (x AND m) AND k = (0 :: 'a :: len word)"
  by (simp add: and.assoc)

text \<open>The low nibble of F reads as zero.\<close>

definition f_clean :: "cpu_regs \<Rightarrow> bool" where
  "f_clean r \<longleftrightarrow> reg_f r AND 0x0F = 0"

definition f_safe :: "(cpu_regs \<Rightarrow> cpu_regs) \<Rightarrow> bool" where
  "f_safe g \<longleftrightarrow> (\<forall>r. f_clean r \<longrightarrow> f_clean (g r))"

named_theorems f_defs \<open>register updates unfolded for the low-nibble invariant\<close>

lemmas [f_defs] = f_safe_def f_clean_def and_or_zero and_mask_zero flag_if_and Let_def
  set_bc_def set_de_def set_hl_def inc_flags_def dec_flags_def add_hl_def rlca_def rrca_def rla_def
  rra_def set_af_def alu_add_def alu_adc_def alu_sub_def alu_sbc_def alu_and_def alu_xor_def
  alu_or_def alu_cp_def alu_op_def daa_def sp_flags_def

lemma opCycles_bound: "0 \<le> opCycles ! unat (op :: u8) \<and> opCycles ! unat op \<le> 24"
proof -
  have "\<forall>c\<in>set opCycles. 0 \<le> c \<and> c \<le> 24" "length opCycles = 256" by (simp_all add: opCycles_def)
  then show ?thesis by (metis nth_mem u8_lt)
qed

lemma cbCycles_bound: "8 \<le> cbCycles ! unat (op :: u8) \<and> cbCycles ! unat op \<le> 16"
proof -
  have "\<forall>c\<in>set cbCycles. 8 \<le> c \<and> c \<le> 16" "length cbCycles = 256" by (simp_all add: cbCycles_def)
  then show ?thesis by (metis nth_mem u8_lt)
qed

locale bus_invariant =
  fixes I :: "'snd gb \<Rightarrow> bool"
  assumes inv_read: "I s \<Longrightarrow> okp (readByte a s) (\<lambda>(v, t). I t \<and> cpu t = cpu s)"
    and inv_write: "I s \<Longrightarrow> okp (writeByte a v s) (\<lambda>t. I t \<and> core_regs (cpu t) = core_regs (cpu s))"
    and inv_cpu: "I (s\<lparr>cpu := r\<rparr>) = I s"
    and inv_speed: "I s \<Longrightarrow> I (s\<lparr>cgb := (cgb s)\<lparr>doubleSpeed := d, key1 := k\<rparr>\<rparr>)"
begin

definition J :: "'snd gb \<Rightarrow> bool" where
  "J s \<longleftrightarrow> I s \<and> f_clean (cpu s)"

lemma J_with_cpu: "J s \<Longrightarrow> f_safe f \<Longrightarrow> J (with_cpu f s)"
  by (simp add: J_def with_cpu_def inv_cpu f_safe_def)

lemma J_read: "J s \<Longrightarrow> (\<And>v t. J t \<Longrightarrow> okp (f v t) Q) \<Longrightarrow> okp (readByte a s \<bind> (\<lambda>(v, t). f v t)) Q"
  by (rule okp_bind2I [OF inv_read]) (auto simp: J_def)

lemma J_read_last: "J s \<Longrightarrow> okp (readByte a s) (\<lambda>(v, t). J t)"
  by (rule okp_mono [OF inv_read]) (auto simp: J_def)

lemma J_write: "J s \<Longrightarrow> okp (writeByte a v s) J"
  by (rule okp_mono [OF inv_write]) (auto simp: J_def f_clean_def dest: core_regsD)

lemma J_fetch: "J s \<Longrightarrow> okp (fetch8 s) (\<lambda>(v, t). J t)"
  unfolding fetch8_def by (rule J_read_last, rule J_with_cpu) (auto simp: f_defs)

lemmas J_fetch_bind = okp_bind2I [OF J_fetch]
lemmas J_write_bind = okp_bindI [OF J_write]

lemma J_fetch16: "J s \<Longrightarrow> okp (fetch16 s) (\<lambda>(v, t). J t)"
  unfolding fetch16_def by (intro J_fetch_bind) auto

lemma J_push16: "J s \<Longrightarrow> okp (push16 v s) J"
  unfolding push16_def Let_def
  by (intro J_write_bind J_write J_with_cpu) (auto simp: f_defs)

lemma J_pop16: "J s \<Longrightarrow> okp (pop16 s) (\<lambda>(v, t). J t)"
  unfolding pop16_def by (intro J_read) (auto simp: f_defs intro!: J_with_cpu)

lemma J_operand: "J s \<Longrightarrow> okp (operand idx s) (\<lambda>(v, t). J t)"
  unfolding operand_def Let_def by (intro okp_if J_read_last) auto

lemma J_write_back: "J s \<Longrightarrow> okp (write_back idx v s) J"
  unfolding write_back_def by (intro okp_if J_write) (auto simp: f_defs intro!: J_with_cpu)

lemmas J_fetch16_bind = okp_bind2I [OF J_fetch16]
lemmas J_push16_bind = okp_bindI [OF J_push16]
lemmas J_pop16_bind = okp_bind2I [OF J_pop16]
lemmas J_operand_bind = okp_bind2I [OF J_operand]

definition E :: "int \<times> 'snd gb \<Rightarrow> bool" where
  "E = (\<lambda>(x, t). 0 \<le> x \<and> x \<le> 12 \<and> J t)"

lemma E_iff [simp]: "E (x, t) \<longleftrightarrow> 0 \<le> x \<and> x \<le> 12 \<and> J t"
  by (simp add: E_def)

lemma E_regs: "J s \<Longrightarrow> f_safe f \<Longrightarrow> okp (regs_only f s) E"
  by (simp add: regs_only_def J_with_cpu)

lemma E_load8: "J s \<Longrightarrow> (\<And>v. f_safe (put v)) \<Longrightarrow> okp (load8 put s) E"
  unfolding load8_def by (intro J_fetch_bind) (auto intro: J_with_cpu)

lemma E_load_from: "J s \<Longrightarrow> (\<And>v. f_safe (put v)) \<Longrightarrow> okp (load_from a put s) E"
  unfolding load_from_def by (intro J_read) (auto intro: J_with_cpu)

lemma E_store8: "J s \<Longrightarrow> okp (store8 a v s) E"
  unfolding store8_def by (intro J_write_bind) auto

lemma E_jr: "J s \<Longrightarrow> okp (jr_if c s) E"
  unfolding jr_if_def by (intro okp_if J_read) (auto simp: f_defs intro!: J_with_cpu)

lemma E_ret: "J s \<Longrightarrow> okp (ret_if c s) E"
  unfolding ret_if_def by (intro okp_if J_pop16_bind) (auto simp: f_defs intro!: J_with_cpu)

lemma E_jp: "J s \<Longrightarrow> okp (jp_if c s) E"
  unfolding jp_if_def by (intro J_fetch16_bind) (auto simp: f_defs intro!: J_with_cpu)

lemma E_call: "J s \<Longrightarrow> okp (call_if c s) E"
  unfolding call_if_def by (intro J_fetch16_bind okp_if J_push16_bind) (auto simp: f_defs intro!: J_with_cpu)

lemma E_rst: "J s \<Longrightarrow> okp (rst v s) E"
  unfolding rst_def by (intro J_push16_bind) (auto simp: f_defs intro!: J_with_cpu)

lemma E_pop_to: "J s \<Longrightarrow> (\<And>v. f_safe (put v)) \<Longrightarrow> okp (pop_to put s) E"
  unfolding pop_to_def by (intro J_pop16_bind) (auto intro: J_with_cpu)

lemma E_push_from: "J s \<Longrightarrow> okp (push_from v s) E"
  unfolding push_from_def by (intro J_push16_bind) auto

lemma f_safe_alu: "f_safe (alu_op row v)"
  by (simp add: f_defs)

lemma E_alu_imm: "J s \<Longrightarrow> okp (alu_imm row s) E"
  unfolding alu_imm_def by (intro J_fetch_bind) (auto intro: J_with_cpu f_safe_alu)

lemma J_speed: "J s \<Longrightarrow> J (s\<lparr>cgb := (cgb s)\<lparr>doubleSpeed := d, key1 := k\<rparr>\<rparr>)"
  by (simp add: J_def inv_speed)

lemma E_stop:
  assumes "J s"
  shows "okp (op_stop s) E"
proof -
  have "J (with_cpu (\<lambda>r. r\<lparr>reg_pc := reg_pc r + 1\<rparr>) s)"
    using assms by (rule J_with_cpu) (simp add: f_defs)
  then show ?thesis
    unfolding op_stop_def Let_def by (intro okp_if) (auto intro: J_speed)
qed

lemma E_drop: "okp m E \<Longrightarrow> okp (m \<bind> (\<lambda>(x, t). Some (0, t))) E"
  by (auto simp: okp_iff)

lemmas E_rules = okp_if E_regs E_load8 E_load_from E_store8 E_jr E_ret E_jp E_call E_rst E_pop_to
  E_push_from E_alu_imm E_stop E_drop J_fetch_bind J_fetch16_bind J_write_bind J_read J_operand_bind

lemma E_exec_00_0F: "J s \<Longrightarrow> okp (exec_00_0F op s) E"
  unfolding exec_00_0F_def by (intro E_rules) (auto simp: f_defs intro!: J_with_cpu)

lemma E_exec_10_1F: "J s \<Longrightarrow> okp (exec_10_1F op s) E"
  unfolding exec_10_1F_def by (intro E_rules) (auto simp: f_defs intro!: J_with_cpu)

lemma E_exec_20_2F: "J s \<Longrightarrow> okp (exec_20_2F op s) E"
  unfolding exec_20_2F_def by (intro E_rules) (auto simp: f_defs intro!: J_with_cpu)

lemma E_exec_30_3F: "J s \<Longrightarrow> okp (exec_30_3F op s) E"
  unfolding exec_30_3F_def Let_def by (intro E_rules) (auto simp: f_defs intro!: J_with_cpu)

lemma E_exec_40_4F: "J s \<Longrightarrow> okp (exec_40_4F op s) E"
  unfolding exec_40_4F_def by (intro E_rules) (auto simp: f_defs intro!: J_with_cpu)

lemma E_exec_50_5F: "J s \<Longrightarrow> okp (exec_50_5F op s) E"
  unfolding exec_50_5F_def by (intro E_rules) (auto simp: f_defs intro!: J_with_cpu)

lemma E_exec_60_6F: "J s \<Longrightarrow> okp (exec_60_6F op s) E"
  unfolding exec_60_6F_def by (intro E_rules) (auto simp: f_defs intro!: J_with_cpu)

lemma E_exec_70_7F: "J s \<Longrightarrow> okp (exec_70_7F op s) E"
  unfolding exec_70_7F_def op_halt_def by (intro E_rules) (auto simp: f_defs intro!: J_with_cpu)

lemma E_exec_80_BF: "J s \<Longrightarrow> okp (exec_80_BF op s) E"
  unfolding exec_80_BF_def by (intro J_operand_bind) (auto intro: J_with_cpu f_safe_alu)

lemma E_exec_C0_CF: "J s \<Longrightarrow> okp (exec_C0_CF op s) E"
  unfolding exec_C0_CF_def by (intro E_rules) (auto simp: f_defs intro!: J_with_cpu)

lemma E_exec_D0_DF: "J s \<Longrightarrow> okp (exec_D0_DF op s) E"
  unfolding exec_D0_DF_def by (intro E_rules) (auto simp: f_defs intro!: J_with_cpu)

lemma E_exec_E0_EF: "J s \<Longrightarrow> okp (exec_E0_EF op s) E"
  unfolding exec_E0_EF_def by (intro E_rules) (auto simp: f_defs intro!: J_with_cpu)

lemma E_exec_F0_FF: "J s \<Longrightarrow> okp (exec_F0_FF op s) E"
  unfolding exec_F0_FF_def by (intro E_rules) (auto simp: f_defs intro!: J_with_cpu)

lemma E_exec_op: "J s \<Longrightarrow> okp (exec_op op s) E"
  unfolding exec_op_def
  by (intro okp_if E_exec_00_0F E_exec_10_1F E_exec_20_2F E_exec_30_3F E_exec_40_4F E_exec_50_5F
      E_exec_60_6F E_exec_70_7F E_exec_80_BF E_exec_C0_CF E_exec_D0_DF E_exec_E0_EF E_exec_F0_FF)

lemma J_exec_cb: "J s \<Longrightarrow> okp (exec_cb s) (\<lambda>(cb, t). J t)"
  unfolding exec_cb_def Let_def
  apply (rule J_fetch_bind, assumption)
  apply (rule J_operand_bind, assumption)
  subgoal for cb t v u
    apply (rule okp_bindI [where P = J])
     apply (intro okp_if)
        apply (auto simp: case_prod_unfold cb_shift_def Let_def f_defs intro!: J_write_back J_with_cpu)
    done
  done

text \<open>The cost of a step: an interrupt, the HALT skip, or at most 36 cycles.\<close>

definition S :: "int \<Rightarrow> int \<times> 'snd gb \<Rightarrow> bool" where
  "S n = (\<lambda>(c, t). 0 \<le> c \<and> (c \<le> 36 \<or> c \<le> n) \<and> J t)"

lemma S_run: "J s \<Longrightarrow> okp (run_instruction s) (S n)"
proof -
  have bug: "J t \<Longrightarrow> J (if haltBug (cpu t) then with_cpu (\<lambda>r. r\<lparr>reg_pc := reg_pc r - 1, haltBug := False\<rparr>) t else t)"
    for t by (simp add: f_defs J_with_cpu)
  have cb: "okp (exec_cb t \<bind> (\<lambda>(cb, s). Some (cbCycles ! unat cb, s))) (S n)" if "J t" for t
  proof (rule okp_bind2I [OF J_exec_cb [OF that]])
    fix cb :: u8 and u
    assume "J u"
    then show "okp (Some (cbCycles ! unat cb, u)) (S n)"
      using cbCycles_bound [of cb] by (simp add: S_def)
  qed
  have op: "okp (exec_op x t \<bind> (\<lambda>(b, s). Some (opCycles ! unat x + b, s))) (S n)" if "J t" for x t
    using E_exec_op [OF that, of x] opCycles_bound [of x] by (auto simp: okp_iff S_def)
  assume "J s"
  then show ?thesis
    unfolding run_instruction_def Let_def
    by (intro J_fetch_bind okp_if cb op bug)
qed

lemma J_dispatch: "J s \<Longrightarrow> okp (dispatch p s) J"
  unfolding dispatch_def
  by (intro J_push16_bind) (auto simp: f_defs intro!: J_with_cpu)

lemma cpu_step_keeps:
  assumes "I s" "f_clean (cpu s)"
  shows "okp (cpu_step n s) (\<lambda>(c, t). 0 \<le> c \<and> (c \<le> 36 \<or> c \<le> n) \<and> I t \<and> f_clean (cpu t))"
proof -
  have "J s" using assms by (simp add: J_def)
  then have "okp (cpu_step n s) (S n)"
    unfolding cpu_step_def Let_def
    apply (intro okp_if)
      apply (rule okp_bindI [OF J_dispatch])
       apply (auto simp: f_defs intro!: J_with_cpu) [1]
      apply (simp add: S_def)
     apply (auto simp: S_def halt_skip_def Let_def f_defs intro!: J_with_cpu) [1]
    apply (rule S_run)
    apply (auto simp: f_defs intro!: J_with_cpu) [1]
    done
  then show ?thesis by (rule okp_mono) (auto simp: S_def J_def)
qed

end

section \<open>Well-formedness and the cartridge as bus invariants\<close>

definition machine_ok :: "'snd gb \<Rightarrow> bool" where
  "machine_ok s \<longleftrightarrow> wf_gb s \<and> wf_ppu (lcd s)"

interpretation machine: bus_invariant machine_ok
proof
  fix s :: "'snd gb" and a v r d k
  assume s: "machine_ok s"
  then have w: "wf_gb s" by (simp add: machine_ok_def)
  show "okp (readByte a s) (\<lambda>(v, t). machine_ok t \<and> cpu t = cpu s)"
    by (rule okp_mono [OF readByte_frame [OF w]]) (use s in \<open>auto simp: machine_ok_def bus_frame_def\<close>)
  show "okp (writeByte a v s) (\<lambda>t. machine_ok t \<and> core_regs (cpu t) = core_regs (cpu s))"
    by (rule okp_mono [OF writeByte_effect [OF w]]) (use s in \<open>auto simp: machine_ok_def write_effect_def\<close>)
  show "machine_ok (s\<lparr>cgb := (cgb s)\<lparr>doubleSpeed := d, key1 := k\<rparr>\<rparr>)"
    using s wf_gbD(2) [OF w] by (auto simp: machine_ok_def wf_cgb_def intro!: wf_set_cgb)
qed (simp add: machine_ok_def)

text \<open>The same lemmas for the cartridge: whatever the program does, it stays \<open>c\<close>.\<close>

definition has_cart where
  "has_cart c s \<longleftrightarrow> wf_gb s \<and> cart_of s = c"

interpretation cart: bus_invariant "has_cart c" for c
proof
  fix s :: "'snd gb" and a v r d k
  assume s: "has_cart c s"
  then have w: "wf_gb s" by (simp add: has_cart_def)
  show "okp (readByte a s) (\<lambda>(v, t). has_cart c t \<and> cpu t = cpu s)"
    by (rule okp_mono [OF readByte_frame [OF w]]) (use s in \<open>auto simp: has_cart_def bus_frame_def\<close>)
  show "okp (writeByte a v s) (\<lambda>t. has_cart c t \<and> core_regs (cpu t) = core_regs (cpu s))"
    by (rule okp_mono [OF writeByte_effect [OF w]]) (use s in \<open>auto simp: has_cart_def write_effect_def\<close>)
  show "has_cart c (s\<lparr>cgb := (cgb s)\<lparr>doubleSpeed := d, key1 := k\<rparr>\<rparr>)"
    using s wf_gbD(2) [OF w] by (auto simp: has_cart_def wf_cgb_def cart_of_def intro!: wf_set_cgb)
qed (simp add: has_cart_def)

text \<open>And for the PPU: unless the program restarts it, it stays at position \<open>p\<close>.\<close>

definition at_pos where
  "at_pos p s \<longleftrightarrow> wf_gb s \<and> (lcdChanged (lcd s) \<or> lcd_pos (lcd s) = p)"

interpretation ppu: bus_invariant "at_pos p" for p
proof
  fix s :: "'snd gb" and a v r d k
  assume s: "at_pos p s"
  then have w: "wf_gb s" by (simp add: at_pos_def)
  show "okp (readByte a s) (\<lambda>(v, t). at_pos p t \<and> cpu t = cpu s)"
    by (rule okp_mono [OF readByte_frame [OF w]]) (use s in \<open>auto simp: at_pos_def bus_frame_def\<close>)
  show "okp (writeByte a v s) (\<lambda>t. at_pos p t \<and> core_regs (cpu t) = core_regs (cpu s))"
    by (rule okp_mono [OF writeByte_effect [OF w]]) (use s in \<open>auto simp: at_pos_def write_effect_def\<close>)
  show "at_pos p (s\<lparr>cgb := (cgb s)\<lparr>doubleSpeed := d, key1 := k\<rparr>\<rparr>)"
    using s wf_gbD(2) [OF w] by (auto simp: at_pos_def wf_cgb_def intro!: wf_set_cgb)
qed (simp add: at_pos_def)

section \<open>Steps that cost no cycles\<close>

definition illegal_ops :: "u8 set" where
  "illegal_ops = {0xD3, 0xDB, 0xDD, 0xE3, 0xE4, 0xEB, 0xEC, 0xED, 0xF4, 0xFC, 0xFD}"

fun zeros_from :: "nat \<Rightarrow> int list \<Rightarrow> nat list" where
  "zeros_from k [] = []"
| "zeros_from k (c # cs) = (if c = 0 then k # zeros_from (k + 1) cs else zeros_from (k + 1) cs)"

lemma zeros_from_iff: "i \<in> set (zeros_from k cs) \<longleftrightarrow> k \<le> i \<and> i < k + length cs \<and> cs ! (i - k) = 0"
proof (induction cs arbitrary: k)
  case (Cons c cs)
  show ?case
  proof (cases "i = k")
    case True
    then show ?thesis using Cons.IH [of "k + 1"] by auto
  next
    case False
    then show ?thesis using Cons.IH [of "k + 1"] by (auto simp: nth_Cons' Suc_diff_Suc)
  qed
qed simp

lemma opCycles_zeros:
  "zeros_from 0 opCycles = [0xD3, 0xDB, 0xDD, 0xE3, 0xE4, 0xEB, 0xEC, 0xED, 0xF4, 0xFC, 0xFD]"
  by (simp add: opCycles_def)

lemma zero_cycles: "opCycles ! unat op = 0 \<longleftrightarrow> op \<in> illegal_ops"
proof -
  have "length opCycles = 256" by (simp add: opCycles_def)
  then have "unat op < length opCycles" by simp
  then have "opCycles ! unat op = 0 \<longleftrightarrow> unat op \<in> set (zeros_from 0 opCycles)"
    by (simp only: zeros_from_iff) simp
  also have "\<dots> \<longleftrightarrow> op \<in> illegal_ops"
    unfolding opCycles_zeros by (simp add: illegal_ops_def word_unat_eq_iff)
  finally show ?thesis .
qed

lemma exec_illegal: "op \<in> illegal_ops \<Longrightarrow> exec_op op s = Some (0, s)"
  unfolding illegal_ops_def
  by (elim insertE emptyE; simp add: exec_op_def exec_D0_DF_def exec_E0_EF_def exec_F0_FF_def)

lemma exec_extra:
  assumes "wf_gb s" "f_clean (cpu s)" "exec_op op s = Some (x, t)"
  shows "0 \<le> x"
  using cart.E_exec_op [of "cart_of s" s op] assms by (simp add: cart.J_def cart.E_def has_cart_def)

lemma haltSkip_pos: "4 \<le> halt_skip n s"
  by (simp add: halt_skip_def Let_def)

text \<open>
  A step of cost zero is an illegal opcode: it moves the program counter by one (or, after the HALT
  bug, clears the bug) and happens nowhere near the unusable area, which reads as RST 38.
\<close>

lemma fetch8_regs:
  assumes "wf_gb s" "fetch8 s = Some (op, t)"
  shows "cpu t = (cpu s)\<lparr>reg_pc := reg_pc (cpu s) + 1\<rparr>" "lcd t = lcd s" "wf_gb t"
    "reg_pc (cpu s) = 0xFEA0 \<Longrightarrow> op = 0xFF"
proof -
  let ?s = "with_cpu (\<lambda>r. r\<lparr>reg_pc := reg_pc r + 1\<rparr>) s"
  have w: "wf_gb ?s" using assms(1) by (simp add: with_cpu_def)
  show "cpu t = (cpu s)\<lparr>reg_pc := reg_pc (cpu s) + 1\<rparr>" "lcd t = lcd s" "wf_gb t"
    using readByte_ok [OF w, of "reg_pc (cpu s)"] assms(2)
    by (simp_all add: fetch8_def read_ok_def read_frame_def) (simp_all add: with_cpu_def)
  show "reg_pc (cpu s) = 0xFEA0 \<Longrightarrow> op = 0xFF"
    using assms(2) by (simp add: fetch8_def readByte_eq_slow [OF w] readByteSlow_def)
qed

lemma zero_cost_step:
  assumes wf: "wf_gb s" "f_clean (cpu s)" and step: "cpu_step n s = Some (0, t)"
  shows "reg_pc (cpu t) = (if haltBug (cpu s) then reg_pc (cpu s) else reg_pc (cpu s) + 1)"
    "\<not> haltBug (cpu t)" "reg_pc (cpu s) \<noteq> 0xFEA0" "lcd t = lcd s"
proof -
  define pending where "pending = ie (cpu s) AND iflag (cpu s) AND 0x1F"
  define s1 where "s1 = (if pending \<noteq> 0 then with_cpu (\<lambda>r. r\<lparr>halted := False\<rparr>) s else s)"
  define s2 where "s2 = (if eiPending (cpu s1)
      then with_cpu (\<lambda>r. r\<lparr>eiPending := False, ime := True\<rparr>) s1 else s1)"
  have run: "run_instruction s2 = Some (0, t)"
    using step haltSkip_pos [of n s1]
    by (auto simp: cpu_step_def Let_def bind_eq_Some_conv s2_def
        simp flip: pending_def s1_def split: if_splits)
  have s2: "wf_gb s2" "f_clean (cpu s2)" "reg_pc (cpu s2) = reg_pc (cpu s)"
    "haltBug (cpu s2) = haltBug (cpu s)" "lcd s2 = lcd s"
    using wf by (auto simp: s2_def s1_def with_cpu_def f_clean_def)
  obtain op u where f: "fetch8 s2 = Some (op, u)"
    using run by (auto simp: run_instruction_def bind_eq_Some_conv)
  note r = fetch8_regs [OF s2(1) f]
  define u1 where "u1 = (if haltBug (cpu u)
      then with_cpu (\<lambda>r. r\<lparr>reg_pc := reg_pc r - 1, haltBug := False\<rparr>) u else u)"
  have u1: "wf_gb u1" "f_clean (cpu u1)"
    using r s2 by (auto simp: u1_def with_cpu_def f_clean_def)
  have ncb: "op \<noteq> 0xCB"
  proof
    assume "op = 0xCB"
    then obtain cb where "cbCycles ! unat (cb :: u8) = 0"
      using run f by (auto simp: run_instruction_def bind_eq_Some_conv)
    then show False using cbCycles_bound [of cb] by simp
  qed
  then obtain x where x: "exec_op op u1 = Some (x, t)" "opCycles ! unat op + x = 0"
    using run f by (auto simp: run_instruction_def Let_def bind_eq_Some_conv simp flip: u1_def)
  then have "opCycles ! unat op = 0"
    using exec_extra [OF u1 x(1)] opCycles_bound [of op] by linarith
  then have ill: "op \<in> illegal_ops" by (simp add: zero_cycles)
  then have t: "t = u1" using x(1) by (simp add: exec_illegal)
  show "reg_pc (cpu t) = (if haltBug (cpu s) then reg_pc (cpu s) else reg_pc (cpu s) + 1)"
    "\<not> haltBug (cpu t)" "lcd t = lcd s"
    using r s2 by (auto simp: t u1_def with_cpu_def)
  show "reg_pc (cpu s) \<noteq> 0xFEA0"
    using r(4) s2(3) ill by (auto simp: illegal_ops_def)
qed

text \<open>Every other step costs at least four cycles.\<close>

lemma opCycles_four: "opCycles ! unat (op :: u8) = 0 \<or> 4 \<le> opCycles ! unat op"
proof -
  have "\<forall>c\<in>set opCycles. c = 0 \<or> 4 \<le> c" "length opCycles = 256" by (simp_all add: opCycles_def)
  then show ?thesis by (metis nth_mem u8_lt)
qed

lemma run_instruction_cost:
  assumes "wf_gb s" "f_clean (cpu s)" "run_instruction s = Some (c, t)"
  shows "c = 0 \<or> 4 \<le> c"
proof -
  obtain op u where f: "fetch8 s = Some (op, u)"
    using assms(3) by (auto simp: run_instruction_def bind_eq_Some_conv)
  note r = fetch8_regs [OF assms(1) f]
  define u1 where "u1 = (if haltBug (cpu u)
      then with_cpu (\<lambda>r. r\<lparr>reg_pc := reg_pc r - 1, haltBug := False\<rparr>) u else u)"
  have u1: "wf_gb u1" "f_clean (cpu u1)"
    using r assms(2) by (auto simp: u1_def with_cpu_def f_clean_def)
  show ?thesis
  proof (cases "op = 0xCB")
    case True
    then obtain cb where "c = cbCycles ! unat (cb :: u8)"
      using assms(3) f by (auto simp: run_instruction_def bind_eq_Some_conv)
    then show ?thesis using cbCycles_bound [of cb] by simp
  next
    case False
    then obtain x where x: "exec_op op u1 = Some (x, t)" "c = opCycles ! unat op + x"
      using assms(3) f by (auto simp: run_instruction_def Let_def bind_eq_Some_conv simp flip: u1_def)
    have "0 \<le> x" using exec_extra [OF u1 x(1)] .
    moreover have "x = 0" if "opCycles ! unat op = 0"
      using that x(1) exec_illegal [of op u1] by (simp add: zero_cycles)
    ultimately show ?thesis using opCycles_four [of op] x(2) by auto
  qed
qed

lemma cpu_step_cost:
  assumes "wf_gb s" "f_clean (cpu s)" "cpu_step n s = Some (c, t)"
  shows "c = 0 \<or> 4 \<le> c"
proof -
  have run: "c = 0 \<or> 4 \<le> c" if "run_instruction (with_cpu g s) = Some (c, t)" "f_clean (g (cpu s))" for g
    using run_instruction_cost [of "with_cpu g s" c t] that assms(1) by (simp add: with_cpu_def)
  have id: "s = with_cpu (\<lambda>r. r) s" by (simp add: with_cpu_def)
  have comp: "with_cpu f (with_cpu g s) = with_cpu (\<lambda>r. f (g r)) s" for f g by (simp add: with_cpu_def)
  define pending where "pending = ie (cpu s) AND iflag (cpu s) AND 0x1F"
  define g1 :: "cpu_regs \<Rightarrow> cpu_regs" where "g1 = (\<lambda>r. if pending \<noteq> 0 then r\<lparr>halted := False\<rparr> else r)"
  define g2 :: "cpu_regs \<Rightarrow> cpu_regs" where "g2 = (\<lambda>r. if eiPending r then r\<lparr>eiPending := False, ime := True\<rparr> else r)"
  have s1: "(if pending \<noteq> 0 then with_cpu (\<lambda>r. r\<lparr>halted := False\<rparr>) s else s) = with_cpu g1 s"
    by (simp add: g1_def with_cpu_def)
  have s2: "(if eiPending (cpu u) then with_cpu (\<lambda>r. r\<lparr>eiPending := False, ime := True\<rparr>) u else u) = with_cpu g2 u"
    for u :: "'a gb" by (simp add: g2_def with_cpu_def)
  have cl: "f_clean (g2 (g1 (cpu s)))" using assms(2) by (simp add: g1_def g2_def f_clean_def)
  have "c = 20 \<or> c = halt_skip n (with_cpu g1 s) \<or> run_instruction (with_cpu (\<lambda>r. g2 (g1 r)) s) = Some (c, t)"
    using assms(3) unfolding cpu_step_def Let_def pending_def [symmetric] s1 s2 comp
    by (auto simp: bind_eq_Some_conv split: if_splits)
  then show ?thesis using haltSkip_pos [of n "with_cpu g1 s"] run [of "\<lambda>r. g2 (g1 r)", OF _ cl] by auto
qed

end
