(* ===== verification/Emu_Timer.thy ===== *)
theory Emu_Timer
  imports Emu_State
begin

text \<open>
  DIV and TIMA (\<open>updateTimer\<close>).  The two \<open>while\<close> loops are total recursions; \<open>div_loop_spec\<close> and
  \<open>tima_loop_refines\<close> relate them to plain counters, and \<open>updateTimer_split\<close> shows that feeding
  cycles in pieces or at once is the same, which is what lets HALT skip ahead in one step.
\<close>

definition timer_freq :: "u8 \<Rightarrow> u16" where
  "timer_freq ctl =
     (let i = ctl AND 0x03
      in if i = 0 then 1024 else if i = 1 then 16 else if i = 2 then 64 else 256)"

lemma timer_freq_pos: "0 < unat (timer_freq t)"
  by (simp add: timer_freq_def Let_def)

lemma timer_freq_le: "unat (timer_freq t) \<le> 1024"
  by (simp add: timer_freq_def Let_def)

function div_loop :: "u16 \<Rightarrow> u8 \<Rightarrow> u16 \<times> u8" where
  "div_loop dc dr = (if 256 \<le> dc then div_loop (dc - 256) (dr + 1) else (dc, dr))"
  by auto
termination
proof (relation "measure (\<lambda>(c, _). unat c)", goal_cases)
  case (2 c r)
  then have "256 \<le> unat c" by (simp add: word_le_nat_alt)
  then show ?case using 2 by (simp add: unat_sub)
qed simp

declare div_loop.simps [simp del]

text \<open>The TIMA loop: the counter, TIMA and the interrupt flags.\<close>

function tima_loop :: "u8 \<Rightarrow> u8 \<Rightarrow> u16 \<Rightarrow> u8 \<Rightarrow> u8 \<Rightarrow> u16 \<times> u8 \<times> u8" where
  "tima_loop ctl md tc ti fl =
     (if timer_freq ctl \<le> tc then
        (if ti + 1 = 0 then tima_loop ctl md (tc - timer_freq ctl) md (fl OR 0x04)
         else tima_loop ctl md (tc - timer_freq ctl) (ti + 1) fl)
      else (tc, ti, fl))"
  by auto
termination
proof (relation "measure (\<lambda>(_, _, c, _, _). unat c)", goal_cases)
  case (2 ctl md c t f)
  then show ?case using timer_freq_pos [of ctl] by (simp add: unat_sub word_le_nat_alt)
next
  case (3 ctl md c t f)
  then show ?case using timer_freq_pos [of ctl] by (simp add: unat_sub word_le_nat_alt)
qed simp

declare tima_loop.simps [simp del]

lemma tima_loop_eqs:
  "timer_freq ctl \<le> tc \<Longrightarrow> ti + 1 = 0 \<Longrightarrow>
     tima_loop ctl md tc ti fl = tima_loop ctl md (tc - timer_freq ctl) md (fl OR 0x04)"
  "timer_freq ctl \<le> tc \<Longrightarrow> ti + 1 \<noteq> 0 \<Longrightarrow>
     tima_loop ctl md tc ti fl = tima_loop ctl md (tc - timer_freq ctl) (ti + 1) fl"
  "\<not> timer_freq ctl \<le> tc \<Longrightarrow> tima_loop ctl md tc ti fl = (tc, ti, fl)"
  by (simp_all add: tima_loop.simps [of ctl md tc ti fl])

definition updateTimer :: "int \<Rightarrow> 'snd gb \<Rightarrow> 'snd gb" where
  "updateTimer cycles s =
     (let t = timer s;
          (dc, dr) = div_loop (divCounter t + of_int cycles) (divReg t);
          s = s\<lparr>timer := t\<lparr>divCounter := dc, divReg := dr\<rparr>\<rparr>
      in if tac t AND 0x04 = 0 then s
         else
           let (tc, ti, fl) = tima_loop (tac t) (tma t) (timerCounter t + of_int cycles) (tima t)
                                (iflag (cpu s))
           in s\<lparr>timer := (timer s)\<lparr>timerCounter := tc, tima := ti\<rparr>, cpu := (cpu s)\<lparr>iflag := fl\<rparr>\<rparr>)"

section \<open>DIV\<close>

lemma div_loop_spec:
  "div_loop c r = (of_nat (unat c mod 256), r + of_nat (unat c div 256))"
proof (induction c r rule: div_loop.induct)
  case (1 c r)
  show ?case
  proof (cases "256 \<le> c")
    case True
    then have u: "unat (c - 256) = unat c - 256" and g: "256 \<le> unat c"
      by (simp_all add: unat_sub word_le_nat_alt)
    then have d: "unat c div 256 = Suc ((unat c - 256) div 256)" "unat c mod 256 = (unat c - 256) mod 256"
      by (simp_all add: le_div_geq le_mod_geq)
    show ?thesis
      using 1 True u d by (subst div_loop.simps) (simp add: algebra_simps)
  next
    case False
    then have "unat c < 256" by (simp add: word_le_nat_alt)
    then show ?thesis
      using False by (subst div_loop.simps) simp
  qed
qed

section \<open>TIMA\<close>

text \<open>
  The abstract timer: one number, \<open>tima * freq + counter\<close>, counting up to \<open>256 * freq\<close>; reaching it
  raises the interrupt and restarts at \<open>tma * freq\<close>.
\<close>

function tima_abs :: "nat \<Rightarrow> nat \<Rightarrow> nat \<Rightarrow> u8 \<Rightarrow> nat \<times> u8" where
  "tima_abs f m n fl =
     (if 256 * f \<le> n \<and> 0 < f \<and> m < 256 then tima_abs f m (n - 256 * f + m * f) (fl OR 0x04) else (n, fl))"
  by auto
termination
proof (relation "measure (\<lambda>(_, _, n, _). n)", goal_cases)
  case (2 f m n fl)
  then have "m * f < 256 * f" by simp
  with 2 show ?case unfolding in_measure prod.case by linarith
qed simp

declare tima_abs.simps [simp del]

lemma tima_abs_eqs:
  "256 * f \<le> n \<Longrightarrow> 0 < f \<Longrightarrow> m < 256 \<Longrightarrow>
     tima_abs f m n fl = tima_abs f m (n - 256 * f + m * f) (fl OR 0x04)"
  "n < 256 * f \<Longrightarrow> tima_abs f m n fl = (n, fl)"
  by (simp_all add: tima_abs.simps [of f m n fl])

lemma unat_suc_u8: "t + 1 \<noteq> (0 :: u8) \<Longrightarrow> unat (t + 1) = unat t + 1"
  by (metis Suc_eq_plus1 add.commute unatSuc)

lemma suc_zero_u8: "t + 1 = (0 :: u8) \<Longrightarrow> unat t = 255"
  by (simp add: add_eq_0_iff2 unsigned_minus_1_eq_mask mask_eq_exp_minus_1)

lemma tima_loop_refines:
  "tima_loop ctl md c t fl = (c', t', fl') \<Longrightarrow>
   tima_abs (unat (timer_freq ctl)) (unat md) (unat t * unat (timer_freq ctl) + unat c) fl =
     (unat t' * unat (timer_freq ctl) + unat c', fl') \<and> unat c' < unat (timer_freq ctl)"
proof (induction ctl md c t fl rule: tima_loop.induct)
  case (1 ctl md c t fl)
  let ?f = "unat (timer_freq ctl)"
  show ?case
  proof (cases "timer_freq ctl \<le> c")
    case True
    then have u: "unat (c - timer_freq ctl) = unat c - ?f" "?f \<le> unat c"
      by (simp_all add: unat_sub word_le_nat_alt)
    show ?thesis
    proof (cases "t + 1 = 0")
      case z: True
      have n: "256 * ?f \<le> unat t * ?f + unat c"
        "unat t * ?f + unat c - 256 * ?f + unat md * ?f = unat md * ?f + (unat c - ?f)"
        using u suc_zero_u8 [OF z] by simp_all
      have "tima_abs ?f (unat md) (unat t * ?f + unat c) fl =
            tima_abs ?f (unat md) (unat md * ?f + (unat c - ?f)) (fl OR 4)"
        using n timer_freq_pos [of ctl] by (subst tima_abs_eqs(1)) simp_all
      then show ?thesis
        using 1(1) [OF True z] 1(3) True z u by (simp add: tima_loop_eqs)
    next
      case nz: False
      then have "unat (t + 1) * ?f + (unat c - ?f) = unat t * ?f + unat c"
        using u by (simp add: unat_suc_u8 [OF nz] add_mult_distrib)
      then show ?thesis
        using 1(2) [OF True nz] 1(3) True nz u by (simp add: tima_loop_eqs)
    qed
  next
    case False
    then have c: "unat c < ?f" by (simp add: word_le_nat_alt)
    have "unat t * ?f + unat c < 256 * ?f"
    proof -
      have "unat t * ?f \<le> 255 * ?f" using u8_lt [of t] by (intro mult_le_mono1) linarith
      with c show ?thesis by linarith
    qed
    then show ?thesis
      using 1(3) False c by (simp add: tima_loop_eqs tima_abs_eqs)
  qed
qed

lemma tima_abs_split:
  "tima_abs f m n fl = (n', fl') \<Longrightarrow> tima_abs f m (n' + k) fl' = tima_abs f m (n + k) fl"
proof (induction f m n fl rule: tima_abs.induct)
  case (1 f m n fl)
  show ?case
  proof (cases "256 * f \<le> n \<and> 0 < f \<and> m < 256")
    case True
    then have e: "n + k - 256 * f + m * f = n - 256 * f + m * f + k" by simp
    from True 1(2) have "tima_abs f m (n - 256 * f + m * f) (fl OR 4) = (n', fl')"
      by (simp add: tima_abs_eqs)
    from 1(1) [OF True this] True e show ?thesis
      by (simp add: tima_abs_eqs(1) [of f "n + k"] del: mult_less_cancel2)
  next
    case False
    then show ?thesis using 1(2) by (simp add: tima_abs.simps [of f m n fl] split: if_splits)
  qed
qed

section \<open>\<open>updateTimer\<close>\<close>

definition tima_count :: "timer_regs \<Rightarrow> nat" where
  "tima_count t = unat (tima t) * unat (timer_freq (tac t)) + unat (timerCounter t)"

lemma div_loop_count:
  assumes "0 \<le> c" "unat dc + nat c < 65536" "div_loop (dc + of_int c) dr = (dc', dr')"
  shows "unat dc' = (unat dc + nat c) mod 256" "dr' = dr + of_nat ((unat dc + nat c) div 256)"
  using assms unat_plus_int [OF assms(1,2)]
  by (auto simp: div_loop_spec unsigned_of_nat take_bit_eq_mod mod_less)

lemma updateTimer_parts:
  fixes s :: "'snd gb"
  defines "t \<equiv> timer s" and "t' c \<equiv> timer (updateTimer c s)"
  assumes wf: "wf_timer (timer s)" and c: "0 \<le> c" "c \<le> 60000"
  shows "unat (divCounter (t' c)) = (unat (divCounter t) + nat c) mod 256"
    and "divReg (t' c) = divReg t + of_nat ((unat (divCounter t) + nat c) div 256)"
    and "tac t AND 0x04 = 0 \<Longrightarrow> timerCounter (t' c) = timerCounter t \<and> tima (t' c) = tima t \<and>
           cpu (updateTimer c s) = cpu s"
    and "tac t AND 0x04 \<noteq> 0 \<Longrightarrow>
           tima_abs (unat (timer_freq (tac t))) (unat (tma t)) (tima_count t + nat c) (iflag (cpu s)) =
             (tima_count (t' c), iflag (cpu (updateTimer c s))) \<and>
           unat (timerCounter (t' c)) < unat (timer_freq (tac t))"
    and "tac (t' c) = tac t" and "tma (t' c) = tma t"
    and "updateTimer c s = s\<lparr>timer := t' c, cpu := (cpu s)\<lparr>iflag := iflag (cpu (updateTimer c s))\<rparr>\<rparr>"
proof -
  obtain dc dr where d: "div_loop (divCounter t + of_int c) (divReg t) = (dc, dr)" by fastforce
  obtain tc ti fl where l: "tima_loop (tac t) (tma t) (timerCounter t + of_int c) (tima t) (iflag (cpu s)) = (tc, ti, fl)"
    by (metis prod_cases3)
  have b: "unat (divCounter t) + nat c < 65536" "unat (timerCounter t) + nat c < 65536"
    using wf c nat_mono [OF c(2)] by (simp_all add: wf_timer_def t_def)
  have r: "tima_abs (unat (timer_freq (tac t))) (unat (tma t)) (tima_count t + nat c) (iflag (cpu s)) =
      (unat ti * unat (timer_freq (tac t)) + unat tc, fl) \<and> unat tc < unat (timer_freq (tac t))"
    using tima_loop_refines [OF l] unat_plus_int [OF c(1) b(2)] by (simp add: tima_count_def add.assoc)
  have u: "updateTimer c s = (if tac t AND 0x04 = 0 then s\<lparr>timer := t\<lparr>divCounter := dc, divReg := dr\<rparr>\<rparr>
      else s\<lparr>timer := t\<lparr>divCounter := dc, divReg := dr, timerCounter := tc, tima := ti\<rparr>,
             cpu := (cpu s)\<lparr>iflag := fl\<rparr>\<rparr>)"
    using d l by (simp add: updateTimer_def t_def)
  show "unat (divCounter (t' c)) = (unat (divCounter t) + nat c) mod 256"
    "divReg (t' c) = divReg t + of_nat ((unat (divCounter t) + nat c) div 256)"
    using div_loop_count [OF c(1) b(1) d] by (simp_all add: t'_def u)
  show "tac (t' c) = tac t" "tma (t' c) = tma t"
    "updateTimer c s = s\<lparr>timer := t' c, cpu := (cpu s)\<lparr>iflag := iflag (cpu (updateTimer c s))\<rparr>\<rparr>"
    by (simp_all add: t'_def u)
  show "tac t AND 0x04 = 0 \<Longrightarrow> timerCounter (t' c) = timerCounter t \<and> tima (t' c) = tima t \<and>
           cpu (updateTimer c s) = cpu s"
    by (simp add: t'_def u)
  assume "tac t AND 0x04 \<noteq> 0"
  then show "tima_abs (unat (timer_freq (tac t))) (unat (tma t)) (tima_count t + nat c) (iflag (cpu s)) =
      (tima_count (t' c), iflag (cpu (updateTimer c s))) \<and>
      unat (timerCounter (t' c)) < unat (timer_freq (tac t))"
    using r by (simp add: t'_def u tima_count_def)
qed

lemma updateTimer_wf_timer:
  assumes "wf_timer (timer s)" "0 \<le> c" "c \<le> 60000"
  shows "wf_timer (timer (updateTimer c s))"
  using updateTimer_parts(1,3,4) [OF assms] assms(1) timer_freq_le [of "tac (timer s)"]
  by (cases "tac (timer s) AND 4 = 0") (auto simp: wf_timer_def)

lemma updateTimer_wf:
  assumes "wf_gb s" "0 \<le> c" "c \<le> 60000"
  shows "wf_gb (updateTimer c s)"
proof -
  note w = wf_gbD(4) [OF assms(1)]
  show ?thesis
    by (subst updateTimer_parts(7) [OF w assms(2,3)])
      (simp add: wf_set_timer assms updateTimer_wf_timer w)
qed

text \<open>A counter below the frequency and the abstract count determine TIMA and the counter.\<close>

lemma tima_count_inject:
  assumes "tac t = tac t'" "tima_count t = tima_count t'"
    "unat (timerCounter t) < unat (timer_freq (tac t))" "unat (timerCounter t') < unat (timer_freq (tac t))"
  shows "tima t = tima t'" "timerCounter t = timerCounter t'"
proof -
  let ?f = "unat (timer_freq (tac t))"
  have "unat (tima t) = tima_count t div ?f" "unat (timerCounter t) = tima_count t mod ?f"
    using assms(3) by (simp_all add: tima_count_def)
  moreover have "unat (tima t') = tima_count t' div ?f" "unat (timerCounter t') = tima_count t' mod ?f"
    using assms(1,4) by (simp_all add: tima_count_def)
  ultimately have "unat (tima t) = unat (tima t')" "unat (timerCounter t) = unat (timerCounter t')"
    using assms(2) by (simp_all only:)
  then show "tima t = tima t'" "timerCounter t = timerCounter t'"
    by (simp_all only: word_unat_eq_iff)
qed

lemma timer_regs_eqI:
  "tima t = tima t' \<Longrightarrow> tma t = tma t' \<Longrightarrow> tac t = tac t' \<Longrightarrow> timerCounter t = timerCounter t' \<Longrightarrow>
   divCounter t = divCounter t' \<Longrightarrow> divReg t = divReg t' \<Longrightarrow> t = (t' :: timer_regs)"
  by simp

lemma div_split:
  "(x + a) mod 256 + b = y \<Longrightarrow>
   (x + (a + b)) mod 256 = y mod 256 \<and> (x + (a + b)) div 256 = (x + a) div 256 + y div (256 :: nat)"
proof -
  assume y: "(x + a) mod 256 + b = y"
  have "x + (a + b) = (x + a) div 256 * 256 + y" using y div_mult_mod_eq [of "x + a" 256] by linarith
  then show ?thesis by simp
qed

lemma timer_frame_trans:
  "x = s\<lparr>timer := t, cpu := (cpu s)\<lparr>iflag := f\<rparr>\<rparr> \<Longrightarrow>
   y = x\<lparr>timer := t', cpu := (cpu x)\<lparr>iflag := f'\<rparr>\<rparr> \<Longrightarrow>
   y = s\<lparr>timer := t', cpu := (cpu s)\<lparr>iflag := f'\<rparr>\<rparr>"
  by simp

text \<open>Feeding the cycles in two portions is feeding them at once.\<close>

lemma updateTimer_two_steps:
  assumes wf: "wf_timer (timer s)" and c: "0 \<le> a" "0 \<le> b" "a + b \<le> 60000"
  shows "updateTimer b (updateTimer a s) = updateTimer (a + b) s"
proof -
  have ca: "a \<le> 60000" "b \<le> 60000" "0 \<le> a + b" using c by simp_all
  let ?u = "updateTimer a s" and ?v = "updateTimer b (updateTimer a s)" and ?w = "updateTimer (a + b) s"
  note wu = updateTimer_wf_timer [OF wf c(1) ca(1)]
  note pa = updateTimer_parts [OF wf c(1) ca(1)] and pb = updateTimer_parts [OF wu c(2) ca(2)]
    and pw = updateTimer_parts [OF wf ca(3) c(3)]
  have n: "nat (a + b) = nat a + nat b" using c by (simp add: nat_add_distrib)
  note ds = div_split [of "unat (divCounter (timer s))" "nat a" "nat b", OF refl]
  have "unat (divCounter (timer ?v)) = unat (divCounter (timer ?w))"
    using pb(1) pw(1) ds by (simp only: pa(1) n)
  then have d: "divCounter (timer ?v) = divCounter (timer ?w)" by (simp only: word_unat_eq_iff)
  have d2: "divReg (timer ?v) = divReg (timer ?w)"
    unfolding pb(2) pw(2) pa(1,2) using ds by (simp only: n of_nat_add add.assoc)
  have t: "tima (timer ?v) = tima (timer ?w) \<and> timerCounter (timer ?v) = timerCounter (timer ?w) \<and>
      iflag (cpu ?v) = iflag (cpu ?w)"
  proof (cases "tac (timer s) AND 4 = 0")
    case True
    then show ?thesis using pa(3,5) pb(3) pw(3) by simp
  next
    case False
    let ?f = "unat (timer_freq (tac (timer s)))" and ?m = "unat (tma (timer s))"
    have "tima_abs ?f ?m (tima_count (timer ?u) + nat b) (iflag (cpu ?u)) =
          tima_abs ?f ?m (tima_count (timer s) + nat a + nat b) (iflag (cpu s))"
      using pa(4) [OF False] by (intro tima_abs_split) blast
    then have "(tima_count (timer ?v), iflag (cpu ?v)) = (tima_count (timer ?w), iflag (cpu ?w))"
      using pb(4) pw(4) [OF False] False by (simp add: pa(5,6) n add.assoc)
    moreover have "unat (timerCounter (timer ?v)) < ?f" "unat (timerCounter (timer ?w)) < ?f"
      using pb(4) pw(4) False by (simp_all add: pa(5))
    ultimately show ?thesis
      using tima_count_inject [of "timer ?v" "timer ?w"] by (simp add: pa(5) pb(5) pw(5))
  qed
  have "timer ?v = timer ?w"
    using d d2 t by (intro timer_regs_eqI) (simp_all add: pa(5,6) pb(5,6) pw(5,6))
  with t timer_frame_trans [OF pa(7) pb(7)] pw(7) show ?thesis by metis
qed

end
