(* ===== verification/Emu_Ppu.thy ===== *)
theory Emu_Ppu
  imports Emu_Bus
begin

text \<open>
  The scanline renderer (\<open>renderLine\<close>): background, window, sprite selection and painting, and the
  2-bit packing.  The stack buffers \<open>row\<close>, \<open>colorRow\<close> and \<open>bgPriority\<close> start uninitialised, so
  their elements are options and reading one that was never written is undefined behaviour; that
  \<open>renderLine\<close> is defined shows that no pixel is read before it is written.
\<close>

section \<open>Palettes and the window\<close>

definition applyPalette :: "'snd gb \<Rightarrow> u8 \<Rightarrow> nat \<Rightarrow> u8 option" where
  "applyPalette s palette colorIdx =
     mem_get (shadeRemap s) (unat (drop_bit (colorIdx * 2) palette AND 0x03))"

definition decode_palette :: "'snd gb \<Rightarrow> u8 \<Rightarrow> u8 list option" where
  "decode_palette s palette = do {
     a \<leftarrow> applyPalette s palette 0;
     b \<leftarrow> applyPalette s palette 1;
     c \<leftarrow> applyPalette s palette 2;
     d \<leftarrow> applyPalette s palette 3;
     Some [a, b, c, d]
   }"

definition windowVisible :: "nat \<Rightarrow> 'snd gb \<Rightarrow> bool" where
  "windowVisible line s \<longleftrightarrow>
     lcdc (lcd s) AND 0x20 \<noteq> 0 \<and> (lcdc (lcd s) AND 0x01 \<noteq> 0 \<or> isCgb (cgb s)) \<and>
     unat (wy (lcd s)) \<le> line \<and> unat (wx (lcd s)) \<le> 166"

section \<open>Scanline buffers\<close>

record scanline =
  row :: "u8 option list"
  colorRow :: "u8 option list"
  bgPriority :: "u8 option list"

text \<open>A color index from the two bit planes of a tile row.\<close>

definition color_index :: "u8 \<Rightarrow> u8 \<Rightarrow> nat \<Rightarrow> u8" where
  "color_index hi lo b = push_bit 1 (drop_bit b hi AND 1) OR (drop_bit b lo AND 1)"

definition put_pixel :: "bool \<Rightarrow> u8 list \<Rightarrow> nat \<Rightarrow> u8 \<Rightarrow> u8 \<Rightarrow> scanline \<Rightarrow> scanline option" where
  "put_pixel cgbMode shades x attr ci l = do {
     p \<leftarrow> mem_set (bgPriority l) x (Some (if cgbMode then ci OR flag_if (attr AND 0x80 \<noteq> 0) 4 else ci));
     sh \<leftarrow> mem_get shades (unat ci);
     r \<leftarrow> mem_set (row l) x (Some sh);
     (if cgbMode then do {
        c \<leftarrow> mem_set (colorRow l) x (Some ((attr AND 7) * 4 + ci));
        Some (l\<lparr>row := r, bgPriority := p, colorRow := c\<rparr>)
      } else Some (l\<lparr>row := r, bgPriority := p\<rparr>))
   }"

section \<open>Background and window tiles\<close>

text \<open>The tile at a map offset and its row \<open>y\<close>: attribute, low and high bit plane.\<close>

definition fetch_tile :: "'snd gb \<Rightarrow> nat \<Rightarrow> nat \<Rightarrow> (u8 \<times> u8 \<times> u8) option" where
  "fetch_tile s mapOffset y = do {
     let dataBase = (if lcdc (lcd s) AND 0x10 \<noteq> 0 then 0x0000 else 0x0800);
     let signedIdx = (lcdc (lcd s) AND 0x10 = 0);
     tileIdx \<leftarrow> mem_get (vram (bufs s)) mapOffset;
     attr \<leftarrow> (if isCgb (cgb s) then do { v1 \<leftarrow> vram1 (cgb s); mem_get v1 mapOffset } else Some 0);
     let tileAddr = (if signedIdx then dataBase + nat (sint tileIdx + 128) * 16
                     else dataBase + unat tileIdx * 16);
     let tileRow = (if attr AND 0x40 \<noteq> 0 then 7 - y mod 8 else y mod 8) * 2;
     bank \<leftarrow> (if attr AND 0x08 \<noteq> 0 then vram1 (cgb s) else Some (vram (bufs s)));
     lo \<leftarrow> mem_get bank (tileAddr + tileRow);
     hi \<leftarrow> mem_get bank (tileAddr + tileRow + 1);
     Some (attr, lo, hi)
   }"

text \<open>The pixels of one tile: the colour loop reads the bit from the position (and the flip flag), the
  monochrome one counts it down.\<close>

fun tile_pixels_cgb :: "u8 list \<Rightarrow> int \<Rightarrow> u8 \<Rightarrow> u8 \<Rightarrow> u8 \<Rightarrow> nat list \<Rightarrow> scanline \<Rightarrow> scanline option" where
  "tile_pixels_cgb shades shift attr lo hi [] l = Some l"
| "tile_pixels_cgb shades shift attr lo hi (x # xs) l = do {
     let p = nat ((int x + shift) mod 8);
     let b = (if attr AND 0x20 \<noteq> 0 then p else 7 - p);
     l \<leftarrow> put_pixel True shades x attr (color_index hi lo b) l;
     tile_pixels_cgb shades shift attr lo hi xs l
   }"

fun tile_pixels_dmg :: "u8 list \<Rightarrow> nat \<Rightarrow> u8 \<Rightarrow> u8 \<Rightarrow> nat list \<Rightarrow> scanline \<Rightarrow> scanline option" where
  "tile_pixels_dmg shades b lo hi [] l = Some l"
| "tile_pixels_dmg shades b lo hi (x # xs) l = do {
     l \<leftarrow> put_pixel False shades x 0 (color_index hi lo b) l;
     tile_pixels_dmg shades (b - 1) lo hi xs l
   }"

definition tile_pixels ::
  "bool \<Rightarrow> u8 list \<Rightarrow> int \<Rightarrow> u8 \<Rightarrow> u8 \<Rightarrow> u8 \<Rightarrow> nat \<Rightarrow> nat \<Rightarrow> scanline \<Rightarrow> scanline option" where
  "tile_pixels cgbMode shades shift attr lo hi x xend l =
     (if cgbMode then tile_pixels_cgb shades shift attr lo hi [x..<xend] l
      else tile_pixels_dmg shades (7 - nat ((int x + shift) mod 8)) lo hi [x..<xend] l)"

text \<open>The background loop over \<open>x\<close>, a tile at a time, up to \<open>bgEnd\<close>.\<close>

function bg_loop :: "'snd gb \<Rightarrow> u8 list \<Rightarrow> nat \<Rightarrow> nat \<Rightarrow> nat \<Rightarrow> nat \<Rightarrow> scanline \<Rightarrow> scanline option" where
  "bg_loop s shades mapRow y bgEnd x l =
     (if x < bgEnd then do {
        let sx = (x + unat (scx (lcd s))) mod 256;
        (attr, lo, hi) \<leftarrow> fetch_tile s (mapRow + sx div 8) y;
        let xend = min (x + 8 - sx mod 8) bgEnd;
        l \<leftarrow> tile_pixels (isCgb (cgb s)) shades (uint (scx (lcd s))) attr lo hi x xend l;
        bg_loop s shades mapRow y bgEnd xend l
      } else Some l)"
  by auto
termination
proof (relation "measure (\<lambda>(s, shades, mapRow, y, bgEnd, x, l). bgEnd - x)", goal_cases)
  case (2 s shades mapRow y bgEnd x l sx a attr a' lo hi xend l')
  have "x < min (x + 8 - sx mod 8) bgEnd" using 2(1) mod_less_divisor [of 8 sx] by simp
  with 2 show ?case by (simp add: diff_less_mono2)
qed simp

declare bg_loop.simps [simp del]

text \<open>The window loop, whose tiles start at \<open>winStartX = wx - 7\<close> (an integer: it may be negative).\<close>

function win_loop :: "'snd gb \<Rightarrow> u8 list \<Rightarrow> nat \<Rightarrow> nat \<Rightarrow> int \<Rightarrow> nat \<Rightarrow> scanline \<Rightarrow> scanline option" where
  "win_loop s shades mapRow winY winStartX x l =
     (if x < GB_W then do {
        let winX = nat (int x - winStartX);
        (attr, lo, hi) \<leftarrow> fetch_tile s (mapRow + winX div 8) winY;
        let xend = min (x + 8 - winX mod 8) GB_W;
        l \<leftarrow> tile_pixels (isCgb (cgb s)) shades (- winStartX) attr lo hi x xend l;
        win_loop s shades mapRow winY winStartX xend l
      } else Some l)"
  by auto
termination
proof (relation "measure (\<lambda>(s, shades, mapRow, winY, winStartX, x, l). GB_W - x)", goal_cases)
  case (2 s shades mapRow winY winStartX x l winX a attr a' lo hi xend l')
  have "x < min (x + 8 - winX mod 8) GB_W" using 2(1) mod_less_divisor [of 8 winX] by simp
  with 2 show ?case by (simp add: diff_less_mono2)
qed simp

declare win_loop.simps [simp del]

section \<open>Sprites\<close>

definition oam_at :: "'snd gb \<Rightarrow> nat \<Rightarrow> nat \<Rightarrow> u8 option" where
  "oam_at s i k = mem_get (oam (bufs s)) (i * 4 + k)"

text \<open>The first ten sprites in OAM order whose rows contain the line.\<close>

fun select_sprites :: "'snd gb \<Rightarrow> int \<Rightarrow> int \<Rightarrow> nat list \<Rightarrow> nat list \<Rightarrow> nat list option" where
  "select_sprites s line height vis [] = Some vis"
| "select_sprites s line height vis (i # is) =
     (if length vis < 10 then do {
        yb \<leftarrow> oam_at s i 0;
        let sy = uint yb - 16;
        (if line < sy \<or> sy + height \<le> line then select_sprites s line height vis is
         else select_sprites s line height (vis @ [i]) is)
      } else Some vis)"

text \<open>The insertion sort by X, then OAM index: \<open>shift_up\<close> is its inner \<open>while\<close>.\<close>

fun shift_up :: "'snd gb \<Rightarrow> nat \<Rightarrow> int \<Rightarrow> nat \<Rightarrow> nat list \<Rightarrow> (nat \<times> nat list) option" where
  "shift_up s cur curX 0 vis = Some (0, vis)"
| "shift_up s cur curX (Suc j) vis = do {
     p \<leftarrow> mem_get vis j;
     pb \<leftarrow> oam_at s p 1;
     let prevX = uint pb;
     (if prevX < curX \<or> prevX = curX \<and> p < cur then Some (Suc j, vis)
      else do {
        vis \<leftarrow> mem_set vis (Suc j) p;
        shift_up s cur curX j vis
      })
   }"

fun sort_sprites :: "'snd gb \<Rightarrow> nat list \<Rightarrow> nat list \<Rightarrow> nat list option" where
  "sort_sprites s [] vis = Some vis"
| "sort_sprites s (i # is) vis = do {
     cur \<leftarrow> mem_get vis i;
     cb \<leftarrow> oam_at s cur 1;
     (j, vis) \<leftarrow> shift_up s cur (uint cb) i vis;
     vis \<leftarrow> mem_set vis j cur;
     sort_sprites s is vis
   }"

text \<open>Whether the background priority hides a sprite pixel (the two \<open>continue\<close>s).\<close>

definition hidden :: "'snd gb \<Rightarrow> u8 \<Rightarrow> u8 \<Rightarrow> bool" where
  "hidden s flags bp \<longleftrightarrow>
     (let bgOver = (flags AND 0x80 \<noteq> 0)
      in if isCgb (cgb s) then lcdc (lcd s) AND 1 \<noteq> 0 \<and> bp AND 3 \<noteq> 0 \<and> (bgOver \<or> bp AND 4 \<noteq> 0)
         else bgOver \<and> bp \<noteq> 0)"

definition paint_sprite :: "'snd gb \<Rightarrow> u8 \<Rightarrow> u8 list \<Rightarrow> nat \<Rightarrow> u8 \<Rightarrow> scanline \<Rightarrow> scanline option" where
  "paint_sprite s flags shades x ci l = do {
     v \<leftarrow> mem_get (bgPriority l) x;
     bp \<leftarrow> v;
     (if hidden s flags bp then Some l
      else do {
        sh \<leftarrow> mem_get shades (unat ci);
        r \<leftarrow> mem_set (row l) x (Some sh);
        (if isCgb (cgb s) then do {
           c \<leftarrow> mem_set (colorRow l) x (Some (32 + (flags AND 7) * 4 + ci));
           Some (l\<lparr>row := r, colorRow := c\<rparr>)
         } else Some (l\<lparr>row := r\<rparr>))
      })
   }"

text \<open>One sprite pixel: clipped, transparent, or painted.\<close>

definition sprite_pixel ::
  "'snd gb \<Rightarrow> u8 \<Rightarrow> u8 list \<Rightarrow> int \<Rightarrow> u8 \<Rightarrow> u8 \<Rightarrow> nat \<Rightarrow> scanline \<Rightarrow> scanline option" where
  "sprite_pixel s flags shades sx lo hi px l =
     (let screenX = sx + int px
      in if screenX < 0 \<or> int GB_W \<le> screenX then Some l
         else
           let b = (if flags AND 0x20 \<noteq> 0 then px else 7 - px);
               ci = color_index hi lo b
           in if ci = 0 then Some l else paint_sprite s flags shades (nat screenX) ci l)"

fun sprite_pixels ::
  "'snd gb \<Rightarrow> u8 \<Rightarrow> u8 list \<Rightarrow> int \<Rightarrow> u8 \<Rightarrow> u8 \<Rightarrow> nat list \<Rightarrow> scanline \<Rightarrow> scanline option" where
  "sprite_pixels s flags shades sx lo hi [] l = Some l"
| "sprite_pixels s flags shades sx lo hi (px # pxs) l = do {
     l \<leftarrow> sprite_pixel s flags shades sx lo hi px l;
     sprite_pixels s flags shades sx lo hi pxs l
   }"

text \<open>The tile row of a sprite on the line: the palette flags and its bit planes.\<close>

definition sprite_row :: "'snd gb \<Rightarrow> int \<Rightarrow> int \<Rightarrow> nat \<Rightarrow> (u8 \<times> int \<times> u8 \<times> u8) option" where
  "sprite_row s line height i = do {
     yb \<leftarrow> oam_at s i 0;
     xb \<leftarrow> oam_at s i 1;
     tile \<leftarrow> oam_at s i 2;
     flags \<leftarrow> oam_at s i 3;
     let sy = uint yb - 16;
     let tileY = line - sy;
     let tileY = (if flags AND 0x40 \<noteq> 0 then height - 1 - tileY else tileY);
     let useTile = (if height = 16 then (tile AND 0xFE) + (if 8 \<le> tileY then 1 else 0) else tile);
     let tileY = (if height = 16 then tileY mod 8 else tileY);
     let tileAddr = nat (uint useTile * 16 + tileY * 2);
     bank \<leftarrow> (if isCgb (cgb s) \<and> flags AND 0x08 \<noteq> 0 then vram1 (cgb s) else Some (vram (bufs s)));
     lo \<leftarrow> mem_get bank tileAddr;
     hi \<leftarrow> mem_get bank (tileAddr + 1);
     Some (flags, uint xb - 8, lo, hi)
   }"

fun draw_sprites :: "'snd gb \<Rightarrow> int \<Rightarrow> int \<Rightarrow> u8 list \<Rightarrow> u8 list \<Rightarrow> nat list \<Rightarrow> scanline \<Rightarrow> scanline option" where
  "draw_sprites s line height shades0 shades1 [] l = Some l"
| "draw_sprites s line height shades0 shades1 (i # is) l = do {
     (flags, sx, lo, hi) \<leftarrow> sprite_row s line height i;
     let shades = (if drop_bit 4 flags AND 1 = 0 then shades0 else shades1);
     l \<leftarrow> sprite_pixels s flags shades sx lo hi [0..<8] l;
     draw_sprites s line height shades0 shades1 is l
   }"

section \<open>The line\<close>

definition draw_background :: "'snd gb \<Rightarrow> nat \<Rightarrow> u8 list \<Rightarrow> nat \<Rightarrow> scanline \<Rightarrow> scanline option" where
  "draw_background s line shades bgEnd l =
     (if lcdc (lcd s) AND 0x01 \<noteq> 0 \<or> isCgb (cgb s) then
        (let mapBase = (if lcdc (lcd s) AND 0x08 \<noteq> 0 then 0x1C00 else 0x1800);
             y = (line + unat (scy (lcd s))) mod 256
         in bg_loop s shades (mapBase + y div 8 * 32) y bgEnd 0 l)
      else Some (l\<lparr>row := replicate GB_W (Some 0), bgPriority := replicate GB_W (Some 0)\<rparr>))"

definition draw_window :: "'snd gb \<Rightarrow> u8 list \<Rightarrow> scanline \<Rightarrow> scanline option" where
  "draw_window s shades l =
     (let winMap = (if lcdc (lcd s) AND 0x40 \<noteq> 0 then 0x1C00 else 0x1800);
          winY = nat (windowLine (lcd s));
          winStartX = uint (wx (lcd s)) - 7
      in win_loop s shades (winMap + winY div 8 * 32) winY winStartX (nat winStartX) l)"

definition obj_height :: "'snd gb \<Rightarrow> int" where
  "obj_height s = (if lcdc (lcd s) AND 0x04 \<noteq> 0 then 16 else 8)"

definition draw_objects :: "'snd gb \<Rightarrow> nat \<Rightarrow> u8 list \<Rightarrow> u8 list \<Rightarrow> scanline \<Rightarrow> scanline option" where
  "draw_objects s line shades0 shades1 l =
     (if lcdc (lcd s) AND 0x02 \<noteq> 0 then do {
        let height = obj_height s;
        vis \<leftarrow> select_sprites s (int line) height [] [0..<40];
        vis \<leftarrow> (if isCgb (cgb s) then Some vis else sort_sprites s [1..<length vis] vis);
        draw_sprites s (int line) height shades0 shades1 (rev vis) l
      } else Some l)"

text \<open>Four 2-bit shades to a byte, the leftmost lowest.\<close>

definition pack_byte :: "u8 list \<Rightarrow> nat \<Rightarrow> u8 option" where
  "pack_byte r x = do {
     a \<leftarrow> mem_get r x;
     b \<leftarrow> mem_get r (x + 1);
     c \<leftarrow> mem_get r (x + 2);
     d \<leftarrow> mem_get r (x + 3);
     Some ((a AND 3) OR push_bit 2 (b AND 3) OR push_bit 4 (c AND 3) OR push_bit 6 (d AND 3))
   }"

fun pack_row :: "u8 list \<Rightarrow> nat \<Rightarrow> nat list \<Rightarrow> u8 list \<Rightarrow> u8 list option" where
  "pack_row r base [] fb = Some fb"
| "pack_row r base (k # ks) fb = do {
     b \<leftarrow> pack_byte r (4 * k);
     fb \<leftarrow> mem_set fb (base + k) b;
     pack_row r base ks fb
   }"

definition store_line :: "nat \<Rightarrow> scanline \<Rightarrow> mem_bufs \<Rightarrow> mem_bufs option" where
  "store_line line l m = do {
     m \<leftarrow> (case colorFramebuf m of
         None \<Rightarrow> Some m
       | Some cf \<Rightarrow> do {
           c \<leftarrow> those (colorRow l);
           cf \<leftarrow> mem_blit cf (line * GB_W) c;
           Some (m\<lparr>colorFramebuf := Some cf\<rparr>)
         });
     (case framebuf m of
        None \<Rightarrow> Some m
      | Some f \<Rightarrow> do {
          r \<leftarrow> those (row l);
          f \<leftarrow> pack_row r (line * GB_FB_STRIDE) [0..<GB_W div 4] f;
          Some (m\<lparr>framebuf := Some f\<rparr>)
        })
   }"

definition blank_line :: "bool \<Rightarrow> scanline" where
  "blank_line cgbMode =
     \<lparr>row = replicate GB_W None,
      colorRow = replicate GB_W (if cgbMode then Some 0 else None),
      bgPriority = replicate GB_W None\<rparr>"

definition renderLine :: "nat \<Rightarrow> 'snd gb \<Rightarrow> 'snd gb option" where
  "renderLine line s =
     (if lcdc (lcd s) AND 0x80 = 0 then Some s
      else do {
        bgShades \<leftarrow> decode_palette s (bgp (lcd s));
        objShades0 \<leftarrow> decode_palette s (obp0 (lcd s));
        objShades1 \<leftarrow> decode_palette s (obp1 (lcd s));
        let window = windowVisible line s;
        let bgEnd = (if window then (if wx (lcd s) < 7 then 0 else unat (wx (lcd s)) - 7) else GB_W);
        l \<leftarrow> draw_background s line bgShades bgEnd (blank_line (isCgb (cgb s)));
        l \<leftarrow> (if window then draw_window s bgShades l else Some l);
        l \<leftarrow> draw_objects s line objShades0 objShades1 l;
        m \<leftarrow> store_line line l (bufs s);
        Some (s\<lparr>bufs := m,
                lcd := (lcd s)\<lparr>windowLine := windowLine (lcd s) + (if window then 1 else 0)\<rparr>\<rparr>)
      })"

section \<open>Pixels of a tile\<close>

lemma color_index_lt: "unat (color_index hi lo b) < 4"
proof -
  have "color_index hi lo b = color_index hi lo b AND 3"
    by (intro bit_word_eqI) (auto simp: color_index_def bit_simps numeral_eq_Suc less_Suc_eq)
  moreover have "unat (color_index hi lo b AND 3) < 4" by (rule unat_and_lt) simp
  ultimately show ?thesis by (rule ssubst [where P = "\<lambda>x. unat x < 4"])
qed

definition wf_line :: "scanline \<Rightarrow> bool" where
  "wf_line l \<longleftrightarrow> length (row l) = GB_W \<and> length (colorRow l) = GB_W \<and> length (bgPriority l) = GB_W"

text \<open>What painting attribute and color index \<open>f k\<close> at every \<open>k\<close> of a set means.\<close>

definition painted ::
  "bool \<Rightarrow> u8 list \<Rightarrow> (nat \<Rightarrow> u8 \<times> u8) \<Rightarrow> nat set \<Rightarrow> scanline \<Rightarrow> scanline \<Rightarrow> bool" where
  "painted cgbMode shades f A l l' \<longleftrightarrow> wf_line l' \<and>
     (\<forall>k < GB_W.
        row l' ! k = (if k \<in> A then Some (shades ! unat (snd (f k))) else row l ! k) \<and>
        bgPriority l' ! k = (if k \<in> A then Some (if cgbMode then snd (f k) OR flag_if (fst (f k) AND 0x80 \<noteq> 0) 4
                                                 else snd (f k)) else bgPriority l ! k) \<and>
        colorRow l' ! k = (if k \<in> A \<and> cgbMode then Some ((fst (f k) AND 7) * 4 + snd (f k))
                           else colorRow l ! k))"

lemma painted_empty: "wf_line l \<Longrightarrow> painted cgbMode shades f {} l l"
  by (simp add: painted_def)

lemma painted_trans:
  "painted c sh f A l l' \<Longrightarrow> painted c sh f B l' l'' \<Longrightarrow> painted c sh f (A \<union> B) l l''"
  by (auto simp: painted_def)

lemma painted_cong:
  "painted c sh f A l l' \<Longrightarrow> (\<And>k. k \<in> A \<Longrightarrow> f k = g k) \<Longrightarrow> painted c sh g A l l'"
  by (simp add: painted_def)

lemma painted_wf: "painted c sh f A l l' \<Longrightarrow> wf_line l'"
  by (simp add: painted_def)

lemma put_pixel_ok:
  assumes "wf_line l" "x < GB_W" "length shades = 4" "unat ci < 4"
  shows "okp (put_pixel c shades x attr ci l) (painted c shades (\<lambda>k. (attr, ci)) {x} l)"
  using assms by (cases c) (auto simp: put_pixel_def painted_def wf_line_def nth_list_update)

text \<open>The bit of a tile row at position \<open>p\<close>.\<close>

definition tile_bit :: "bool \<Rightarrow> u8 \<Rightarrow> nat \<Rightarrow> nat" where
  "tile_bit cgbMode attr p = (if cgbMode \<and> attr AND 0x20 \<noteq> 0 then p else 7 - p)"

definition tile_color :: "bool \<Rightarrow> u8 \<Rightarrow> u8 \<Rightarrow> u8 \<Rightarrow> int \<Rightarrow> nat \<Rightarrow> u8 \<times> u8" where
  "tile_color c attr lo hi shift k =
     (if c then attr else 0, color_index hi lo (tile_bit c attr (nat ((int k + shift) mod 8))))"

lemma upt_induct_paint:
  assumes step: "\<And>x l. wf_line l \<Longrightarrow> x < xend \<Longrightarrow>
      okp (g x l) (\<lambda>l'. painted c sh f {x} l l')"
    and cons: "\<And>x l. x < xend \<Longrightarrow> G x l = g x l \<bind> G (Suc x)"
    and nil: "\<And>l. G xend l = Some l"
  shows "wf_line l \<Longrightarrow> x \<le> xend \<Longrightarrow> okp (G x l) (painted c sh f {x..<xend} l)"
proof (induction "xend - x" arbitrary: x l)
  case 0
  then have "x = xend" by simp
  then show ?case using 0 nil [of l] by (simp add: painted_empty)
next
  case (Suc n)
  then have x: "x < xend" "n = xend - Suc x" "Suc x \<le> xend" by auto
  have "okp (g x l \<bind> G (Suc x)) (painted c sh f {x..<xend} l)"
  proof (rule okp_bindI [OF step [OF Suc.prems(1) x(1)]])
    fix l1
    assume p: "painted c sh f {x} l l1"
    have "{x..<xend} = {x} \<union> {Suc x..<xend}" using x by auto
    with Suc.hyps(1) [OF x(2) painted_wf [OF p] x(3)] show "okp (G (Suc x) l1) (painted c sh f {x..<xend} l)"
      using painted_trans [OF p] by (auto simp: okp_iff)
  qed
  then show ?case by (simp add: cons [OF x(1)])
qed

lemma tile_pixels_cgb_ok:
  assumes "wf_line l" "x \<le> xend" "xend \<le> GB_W" "length shades = 4"
  shows "okp (tile_pixels_cgb shades shift attr lo hi [x..<xend] l)
           (painted True shades (tile_color True attr lo hi shift) {x..<xend} l)"
proof -
  let ?g = "\<lambda>x. put_pixel True shades x attr (color_index hi lo (tile_bit True attr (nat ((int x + shift) mod 8))))"
  have step: "okp (?g x l) (painted True shades (tile_color True attr lo hi shift) {x} l)"
    if "wf_line l" "x < xend" for x l
    by (rule okp_mono [OF put_pixel_ok])
      (use that assms color_index_lt in \<open>auto elim!: painted_cong simp: tile_color_def\<close>)
  have cons: "tile_pixels_cgb shades shift attr lo hi [x..<xend] l =
      ?g x l \<bind> tile_pixels_cgb shades shift attr lo hi [Suc x..<xend]" if "x < xend" for x l
    using that by (simp add: upt_conv_Cons tile_bit_def Let_def)
  show ?thesis
    by (rule upt_induct_paint [where g = ?g and G = "\<lambda>x. tile_pixels_cgb shades shift attr lo hi [x..<xend]",
          OF step cons _ assms(1,2)]) auto
qed

lemma tile_pixels_dmg_ok:
  assumes "wf_line l" "x \<le> xend" "xend \<le> GB_W" "length shades = 4"
  shows "okp (tile_pixels_dmg shades (b - x) lo hi [x..<xend] l)
           (painted False shades (\<lambda>k. (0, color_index hi lo (b - k))) {x..<xend} l)"
proof -
  let ?g = "\<lambda>x. put_pixel False shades x 0 (color_index hi lo (b - x))"
  have step: "okp (?g x l) (painted False shades (\<lambda>k. (0, color_index hi lo (b - k))) {x} l)"
    if "wf_line l" "x < xend" for x l
    by (rule okp_mono [OF put_pixel_ok])
      (use that assms color_index_lt in \<open>auto elim!: painted_cong\<close>)
  have cons: "tile_pixels_dmg shades (b - x) lo hi [x..<xend] l =
      ?g x l \<bind> tile_pixels_dmg shades (b - Suc x) lo hi [Suc x..<xend]" if "x < xend" for x l
    using that by (simp add: upt_conv_Cons)
  show ?thesis
    by (rule upt_induct_paint [where g = ?g and G = "\<lambda>x. tile_pixels_dmg shades (b - x) lo hi [x..<xend]",
          OF step cons _ assms(1,2)]) auto
qed

text \<open>A run of pixels inside one tile: both loops compute \<open>tile_color\<close>.\<close>

lemma tile_pixels_ok:
  assumes l: "wf_line l" "x \<le> xend" "xend \<le> GB_W" "length shades = 4"
    and run: "int xend - int x \<le> 8 - (int x + shift) mod 8"
  shows "okp (tile_pixels c shades shift attr lo hi x xend l)
           (painted c shades (tile_color c attr lo hi shift) {x..<xend} l)"
proof (cases c)
  case True
  then show ?thesis using tile_pixels_cgb_ok [OF l] by (simp add: tile_pixels_def)
next
  case False
  define p where "p = nat ((int x + shift) mod 8)"
  have p: "p < 8" "(int x + shift) mod 8 = int p" by (simp_all add: p_def nat_less_iff)
  have bit: "7 - nat ((int k + shift) mod 8) = 7 - p + x - k" if k: "x \<le> k" "k < xend" for k
  proof -
    have "(int k + shift) mod 8 = ((int x + shift) mod 8 + (int k - int x)) mod 8"
      unfolding mod_add_left_eq by (simp add: algebra_simps)
    also have "\<dots> = int p + (int k - int x)"
      unfolding p(2) by (rule mod_pos_pos_trivial) (use k run p(2) in linarith)+
    finally have "nat ((int k + shift) mod 8) = p + (k - x)" using k by linarith
    moreover have "k - x + p < 8" using k run p(2) by linarith
    ultimately show ?thesis using k by linarith
  qed
  have "okp (tile_pixels_dmg shades (7 - p + x - x) lo hi [x..<xend] l)
      (painted False shades (tile_color False attr lo hi shift) {x..<xend} l)"
  proof (rule okp_mono [OF tile_pixels_dmg_ok [OF l]], erule painted_cong)
    fix k
    assume "k \<in> {x..<xend}"
    with bit [of k] show "(0, color_index hi lo (7 - p + x - k)) = tile_color False attr lo hi shift k"
      by (simp add: tile_color_def tile_bit_def)
  qed
  then show ?thesis using False by (simp add: tile_pixels_def p_def)
qed

section \<open>The background and the window, pixel by pixel\<close>

text \<open>The tile under a pixel, computed directly.\<close>

definition tile_at :: "'snd gb \<Rightarrow> nat \<Rightarrow> nat \<Rightarrow> nat \<Rightarrow> (u8 \<times> u8) option" where
  "tile_at s mapBase y x =
     map_option (\<lambda>(attr, lo, hi). tile_color (isCgb (cgb s)) attr lo hi 0 x)
       (fetch_tile s (mapBase + y div 8 * 32 + x div 8) y)"

lemma tile_color_shift:
  "(int k + shift) mod 8 = int x mod 8 \<Longrightarrow> tile_color c attr lo hi shift k = tile_color c attr lo hi 0 x"
  by (simp add: tile_color_def)

lemma fetch_tile_ok:
  assumes "wf_gb s" "m < 0x2000"
  shows "okp (fetch_tile s m y) (\<lambda>(attr, lo, hi). True)"
proof -
  have v: "length (vram (bufs s)) = 0x2000" using wf_gbD(3) [OF assms(1)]
    by (simp add: wf_bufs_def GB_VRAM_SIZE_def)
  have v1: "vram1 (cgb s) = Some w \<Longrightarrow> length w = 0x2000" for w
    using wf_gbD(2) [OF assms(1)] by (simp add: wf_cgb_def)
  have v1c: "isCgb (cgb s) \<Longrightarrow> vram1 (cgb s) \<noteq> None" using wf_gbD(2) [OF assms(1)] by (simp add: wf_cgb_def)
  define ta where "ta t = (if lcdc (lcd s) AND 0x10 = 0 then 0x0800 + nat (sint (t :: u8) + 128) * 16 else unat t * 16)" for t
  have ta: "ta t + 16 \<le> 0x2000" for t
  proof -
    have "sint t < 128" "- 128 \<le> sint t" using sint_lt [of t] sint_ge [of t] by simp_all
    then have "nat (sint t + 128) < 256" by linarith
    moreover have "unat t * 16 + 16 \<le> 0x2000" using u8_lt [of t] by linarith
    ultimately show ?thesis unfolding ta_def by auto
  qed
  have r: "(if b then 7 - y mod 8 else y mod 8) * 2 + 1 < 16" for b by auto
  have bank: "okp (if a AND 0x08 \<noteq> 0 then vram1 (cgb s) else Some (vram (bufs s))) (\<lambda>w. length w = 0x2000)"
    if "a = 0 \<or> isCgb (cgb s)" for a :: u8
    using that v v1 v1c by (cases "vram1 (cgb s)") auto
  have attr: "okp (if isCgb (cgb s) then vram1 (cgb s) \<bind> (\<lambda>v1. mem_get v1 m) else Some 0)
      (\<lambda>a :: u8. a = 0 \<or> isCgb (cgb s))"
    using v1 v1c assms(2) by (cases "vram1 (cgb s)") auto
  have e: "(if lcdc (lcd s) AND 0x10 = 0 then (if lcdc (lcd s) AND 0x10 \<noteq> 0 then 0 else 0x0800) + nat (sint t + 128) * 16
      else (if lcdc (lcd s) AND 0x10 \<noteq> 0 then 0 else 0x0800) + unat t * 16) = ta t" for t
    by (simp add: ta_def)
  show ?thesis
    unfolding fetch_tile_def Let_def e
    apply (rule okp_bindI [OF okp_mem_get])
      apply (simp add: v assms(2))
     apply (rule TrueI)
    apply (rule okp_bindI [OF attr])
    apply (rule okp_bindI [OF bank], assumption)
    subgoal for t a w
      using ta [of t] r [of "a AND 0x40 \<noteq> 0"] by (intro okp_bindI [OF okp_mem_get]) auto
    done
qed

lemma same_tile:
  assumes "(d :: nat) < 8 - sx mod 8"
  shows "(sx + d) div 8 = sx div 8" "(sx + d) mod 8 = sx mod 8 + d"
proof -
  have "sx + d = 8 * (sx div 8) + (sx mod 8 + d)" using div_mult_mod_eq [of sx 8] by linarith
  moreover have "sx mod 8 + d < 8" using assms by linarith
  ultimately show "(sx + d) div 8 = sx div 8" "(sx + d) mod 8 = sx mod 8 + d"
    by (simp_all only: div_mult_self4 mod_mult_self4) simp_all
qed

lemma scroll_run:
  assumes "(x + c) mod 256 = sx" "x \<le> k" "k - x < 8 - sx mod (8 :: nat)"
  shows "(k + c) mod 256 = sx + (k - x)"
proof -
  have "sx < 256" using assms(1) by auto
  then have "sx div 8 < 32" by (simp add: less_mult_imp_div_less)
  then have "sx + (k - x) < 256"
    using assms(3) div_mult_mod_eq [of sx 8] by linarith
  moreover have "(k + c) mod 256 = (sx + (k - x)) mod 256"
  proof -
    have "k + c = (x + c) + (k - x)" using assms(2) by simp
    then show ?thesis using assms(1) by (metis mod_add_left_eq)
  qed
  ultimately show ?thesis by simp
qed

text \<open>The background loop paints, at every pixel, the tile pixel the scroll registers select.\<close>

lemma bg_loop_ok:
  assumes wf: "wf_gb s" and sh: "length shades = 4" and e: "bgEnd \<le> GB_W"
    and m: "mapBase + y div 8 * 32 + 31 < 0x2000"
  shows "wf_line l \<Longrightarrow> x \<le> bgEnd \<Longrightarrow>
    okp (bg_loop s shades (mapBase + y div 8 * 32) y bgEnd x l)
      (painted (isCgb (cgb s)) shades (\<lambda>k. the (tile_at s mapBase y ((k + unat (scx (lcd s))) mod 256)))
         {x..<bgEnd} l)"
proof (induction "bgEnd - x" arbitrary: x l rule: less_induct)
  case less
  define c where "c = unat (scx (lcd s))"
  let ?f = "\<lambda>k. the (tile_at s mapBase y ((k + c) mod 256))"
  show ?case
  proof (cases "x < bgEnd")
    case False
    then show ?thesis using less.prems by (simp add: bg_loop.simps painted_empty)
  next
    case True
    define sx where "sx = (x + c) mod 256"
    define xend where "xend = min (x + 8 - sx mod 8) bgEnd"
    have "sx < 256" by (simp add: sx_def)
    then have "sx div 8 < 32" by (simp add: less_mult_imp_div_less)
    then obtain attr lo hi where f: "fetch_tile s (mapBase + y div 8 * 32 + sx div 8) y = Some (attr, lo, hi)"
      using fetch_tile_ok [OF wf, of "mapBase + y div 8 * 32 + sx div 8" y] m by (auto simp: okp_iff)
    have m8: "sx mod 8 < 8" by simp
    have xe: "x < xend" "xend \<le> bgEnd" "xend - x \<le> 8 - sx mod 8"
      using True m8 unfolding xend_def by linarith+
    have sm: "(int x + uint (scx (lcd s))) mod 8 = int (sx mod 8)"
    proof -
      have "int (sx mod 8) = int ((x + c) mod 8)"
        unfolding sx_def by (simp add: mod_mod_cancel)
      then show ?thesis by (simp add: c_def zmod_int)
    qed
    have run: "int xend - int x \<le> 8 - (int x + uint (scx (lcd s))) mod 8"
      unfolding sm using xe m8 by linarith
    have col: "tile_color (isCgb (cgb s)) attr lo hi (uint (scx (lcd s))) k = ?f k" if k: "k \<in> {x..<xend}" for k
    proof -
      have d: "k - x < 8 - sx mod 8" "x \<le> k" using k xe by auto
      have t: "(k + c) mod 256 = sx + (k - x)" using scroll_run [OF sx_def [symmetric] d(2,1)] .
      have "(int k + uint (scx (lcd s))) mod 8 = int ((k + c) mod 256) mod 8"
        by (simp add: c_def zmod_int mod_mod_cancel)
      then have "tile_color (isCgb (cgb s)) attr lo hi (uint (scx (lcd s))) k =
          tile_color (isCgb (cgb s)) attr lo hi 0 ((k + c) mod 256)"
        by (rule tile_color_shift)
      then show ?thesis
        using f same_tile(1) [OF d(1)] by (simp add: tile_at_def t)
    qed
    have "okp (tile_pixels (isCgb (cgb s)) shades (uint (scx (lcd s))) attr lo hi x xend l \<bind>
        bg_loop s shades (mapBase + y div 8 * 32) y bgEnd xend)
        (painted (isCgb (cgb s)) shades ?f {x..<bgEnd} l)"
    proof (rule okp_bindI [OF tile_pixels_ok [OF less.prems(1) _ _ sh run]])
      fix l1
      assume "painted (isCgb (cgb s)) shades (tile_color (isCgb (cgb s)) attr lo hi (uint (scx (lcd s)))) {x..<xend} l l1"
      then have p: "painted (isCgb (cgb s)) shades ?f {x..<xend} l l1" by (rule painted_cong) (rule col)
      have u: "{x..<bgEnd} = {x..<xend} \<union> {xend..<bgEnd}" using xe by auto
      have "okp (bg_loop s shades (mapBase + y div 8 * 32) y bgEnd xend l1)
          (painted (isCgb (cgb s)) shades ?f {xend..<bgEnd} l1)"
        unfolding c_def using xe True painted_wf [OF p] by (intro less.hyps) auto
      then show "okp (bg_loop s shades (mapBase + y div 8 * 32) y bgEnd xend l1)
          (painted (isCgb (cgb s)) shades ?f {x..<bgEnd} l)"
        unfolding u by (rule okp_mono) (rule painted_trans [OF p])
    qed (use xe e in auto)
    then show ?thesis
      using True f by (subst bg_loop.simps) (simp add: sx_def xend_def c_def Let_def)
  qed
qed

text \<open>The window loop paints the tile pixel at the distance from the window's left edge.\<close>

lemma win_loop_ok:
  assumes wf: "wf_gb s" and sh: "length shades = 4"
    and m: "mapBase + y div 8 * 32 + 31 < 0x2000" and w: "- 7 \<le> wx0"
  shows "wf_line l \<Longrightarrow> x \<le> GB_W \<Longrightarrow> wx0 \<le> int x \<Longrightarrow>
    okp (win_loop s shades (mapBase + y div 8 * 32) y wx0 x l)
      (painted (isCgb (cgb s)) shades (\<lambda>k. the (tile_at s mapBase y (nat (int k - wx0)))) {x..<GB_W} l)"
proof (induction "GB_W - x" arbitrary: x l rule: less_induct)
  case less
  let ?f = "\<lambda>k. the (tile_at s mapBase y (nat (int k - wx0)))"
  show ?case
  proof (cases "x < GB_W")
    case False
    then show ?thesis using less.prems by (simp add: win_loop.simps painted_empty)
  next
    case True
    define sx where "sx = nat (int x - wx0)"
    define xend where "xend = min (x + 8 - sx mod 8) GB_W"
    have isx: "int sx = int x - wx0" using less.prems by (simp add: sx_def)
    then have "sx < 168" using True w by (simp add: GB_W_def)
    then have "sx div 8 < 32" by (simp add: less_mult_imp_div_less)
    then obtain attr lo hi where f: "fetch_tile s (mapBase + y div 8 * 32 + sx div 8) y = Some (attr, lo, hi)"
      using fetch_tile_ok [OF wf, of "mapBase + y div 8 * 32 + sx div 8" y] m by (auto simp: okp_iff)
    have m8: "sx mod 8 < 8" by simp
    have xe: "x < xend" "xend \<le> GB_W" "xend - x \<le> 8 - sx mod 8"
      using True m8 unfolding xend_def by linarith+
    have sm: "(int x + - wx0) mod 8 = int (sx mod 8)"
      using isx by (simp add: zmod_int)
    have run: "int xend - int x \<le> 8 - (int x + - wx0) mod 8"
      unfolding sm using xe m8 by linarith
    have col: "tile_color (isCgb (cgb s)) attr lo hi (- wx0) k = ?f k" if k: "k \<in> {x..<xend}" for k
    proof -
      have d: "k - x < 8 - sx mod 8" "x \<le> k" using k xe by auto
      have t: "nat (int k - wx0) = sx + (k - x)" using isx d(2) by linarith
      have "(int k + - wx0) mod 8 = int (nat (int k - wx0)) mod 8"
        using isx d(2) by simp
      then have "tile_color (isCgb (cgb s)) attr lo hi (- wx0) k =
          tile_color (isCgb (cgb s)) attr lo hi 0 (nat (int k - wx0))"
        by (rule tile_color_shift)
      then show ?thesis
        using f same_tile(1) [OF d(1)] by (simp add: tile_at_def t)
    qed
    have "okp (tile_pixels (isCgb (cgb s)) shades (- wx0) attr lo hi x xend l \<bind>
        win_loop s shades (mapBase + y div 8 * 32) y wx0 xend)
        (painted (isCgb (cgb s)) shades ?f {x..<GB_W} l)"
    proof (rule okp_bindI [OF tile_pixels_ok [OF less.prems(1) _ _ sh run]])
      fix l1
      assume "painted (isCgb (cgb s)) shades (tile_color (isCgb (cgb s)) attr lo hi (- wx0)) {x..<xend} l l1"
      then have p: "painted (isCgb (cgb s)) shades ?f {x..<xend} l l1" by (rule painted_cong) (rule col)
      have u: "{x..<GB_W} = {x..<xend} \<union> {xend..<GB_W}" using xe by auto
      have "okp (win_loop s shades (mapBase + y div 8 * 32) y wx0 xend l1)
          (painted (isCgb (cgb s)) shades ?f {xend..<GB_W} l1)"
        using xe True painted_wf [OF p] less.prems(3) by (intro less.hyps) auto
      then show "okp (win_loop s shades (mapBase + y div 8 * 32) y wx0 xend l1)
          (painted (isCgb (cgb s)) shades ?f {x..<GB_W} l)"
        unfolding u by (rule okp_mono) (rule painted_trans [OF p])
    qed (use xe in auto)
    then show ?thesis
      using True f by (subst win_loop.simps) (simp add: sx_def xend_def Let_def)
  qed
qed

end
