(* ===== verification/Emu_Sprites.thy ===== *)
theory Emu_Sprites
  imports Emu_Ppu "HOL-Library.Multiset" "HOL-Library.Product_Lexorder"
begin

text \<open>
  The sprite half of the renderer: selection keeps the first ten sprites on the line
  (\<open>select_sprites_take\<close>), the insertion sort sorts by X and then OAM index
  (\<open>sort_sprites_sorts\<close>), and painting back to front shows, at every pixel, the first sprite of that
  order that is visible there (\<open>draw_objects_ok\<close>).
\<close>

section \<open>Sprite selection and priority\<close>

definition oam_x :: "'snd gb \<Rightarrow> nat \<Rightarrow> int" where
  "oam_x s i = uint (oam (bufs s) ! (i * 4 + 1))"

definition on_line :: "'snd gb \<Rightarrow> int \<Rightarrow> int \<Rightarrow> nat \<Rightarrow> bool" where
  "on_line s line height i \<longleftrightarrow>
     (let sy = uint (oam (bufs s) ! (i * 4)) - 16 in sy \<le> line \<and> line < sy + height)"

lemma oam_at_ok: "wf_gb s \<Longrightarrow> i < 40 \<Longrightarrow> k < 4 \<Longrightarrow> oam_at s i k = Some (oam (bufs s) ! (i * 4 + k))"
  by (simp add: oam_at_def wf_gb_def wf_bufs_def)

text \<open>Selection keeps the first ten sprites on the line, in OAM order.\<close>

lemma select_sprites_take:
  assumes "wf_gb s"
  shows "\<forall>i\<in>set is. i < 40 \<Longrightarrow> length vis \<le> 10 \<Longrightarrow>
    select_sprites s line height vis is = Some (take 10 (vis @ filter (on_line s line height) is))"
proof (induction "is" arbitrary: vis)
  case (Cons i "is")
  then show ?case
    using oam_at_ok [OF assms, of i 0] by (auto simp: on_line_def Let_def take_Cons')
qed simp

lemma insort_key_split:
  "\<forall>y\<in>set A. f y < f x \<Longrightarrow> \<forall>y\<in>set B. f x \<le> f y \<Longrightarrow>
   insort_key f x (A @ B) = A @ x # B" for f :: "'a \<Rightarrow> 'b :: linorder"
  by (induction A) (auto, cases B, auto)

definition sprite_key :: "'snd gb \<Rightarrow> nat \<Rightarrow> int \<times> nat" where
  "sprite_key s i = (oam_x s i, i)"

lemma sprite_key_less:
  "sprite_key s i < sprite_key s j \<longleftrightarrow> oam_x s i < oam_x s j \<or> oam_x s i = oam_x s j \<and> i < j"
  by (auto simp: sprite_key_def less_prod_def)

text \<open>The inner loop: a block of greater elements moves up by one.\<close>

lemma shift_up_spec:
  assumes wf: "wf_gb s" and cur: "cur < 40"
  shows "j < length vis \<Longrightarrow> \<forall>i\<in>set vis. i < 40 \<Longrightarrow>
    \<exists>j' vis'. shift_up s cur (oam_x s cur) j vis = Some (j', vis') \<and> j' \<le> j \<and>
      length vis' = length vis \<and> take j' vis' = take j' vis \<and>
      drop (Suc j') (take (Suc j) vis') = drop j' (take j vis) \<and> drop (Suc j) vis' = drop (Suc j) vis \<and>
      (\<forall>k < j. j' \<le> k \<longrightarrow> sprite_key s cur \<le> sprite_key s (vis ! k)) \<and>
      (0 < j' \<longrightarrow> sprite_key s (vis ! (j' - 1)) < sprite_key s cur)"
proof (induction j arbitrary: vis)
  case 0
  then show ?case by simp
next
  case (Suc j)
  have p: "vis ! j < 40" "j < length vis" using Suc.prems by auto
  have x: "oam_at s (vis ! j) 1 = Some (oam (bufs s) ! (vis ! j * 4 + 1))"
    using oam_at_ok [OF wf p(1), of 1] by simp
  show ?case
  proof (cases "sprite_key s (vis ! j) < sprite_key s cur")
    case True
    then show ?thesis
      using p x by (auto simp: sprite_key_less oam_x_def intro!: exI [of _ "Suc j"] exI [of _ vis])
  next
    case False
    let ?v = "vis[Suc j := vis ! j]"
    have v: "j < length ?v" "\<forall>i\<in>set ?v. i < 40"
      using Suc.prems p set_update_subset_insert [of vis "Suc j" "vis ! j"] by auto
    from Suc.IH [OF v] obtain j' vis' where r: "shift_up s cur (oam_x s cur) j ?v = Some (j', vis')" "j' \<le> j"
      "length vis' = length vis" "take j' vis' = take j' ?v"
      "drop (Suc j') (take (Suc j) vis') = drop j' (take j ?v)" "drop (Suc j) vis' = drop (Suc j) ?v"
      "\<forall>k < j. j' \<le> k \<longrightarrow> sprite_key s cur \<le> sprite_key s (?v ! k)"
      "0 < j' \<longrightarrow> sprite_key s (?v ! (j' - 1)) < sprite_key s cur"
      by auto
    have nc: "\<not> (oam_x s (vis ! j) < oam_x s cur \<or> oam_x s (vis ! j) = oam_x s cur \<and> vis ! j < cur)"
      using False unfolding sprite_key_less .
    have "shift_up s cur (oam_x s cur) (Suc j) vis =
        (if oam_x s (vis ! j) < oam_x s cur \<or> oam_x s (vis ! j) = oam_x s cur \<and> vis ! j < cur
         then Some (Suc j, vis) else mem_set vis (Suc j) (vis ! j) \<bind> shift_up s cur (oam_x s cur) j)"
      unfolding shift_up.simps mem_get_in [OF p(2)] by (simp add: x oam_x_def del: One_nat_def)
    then have step: "shift_up s cur (oam_x s cur) (Suc j) vis = Some (j', vis')"
      unfolding if_not_P [OF nc] using r(1) Suc.prems(1) by simp
    have "vis' ! Suc j = drop (Suc j) vis' ! 0" using r(3) Suc.prems(1) by (simp del: drop_Suc)
    also have "\<dots> = ?v ! Suc j" unfolding r(6) using Suc.prems(1) by (simp del: drop_Suc)
    also have "\<dots> = vis ! j" using Suc.prems(1) by simp
    finally have nth: "vis' ! Suc j = vis ! j" .
    have d1: "drop (Suc j') (take (Suc (Suc j)) vis') = drop j' (take (Suc j) vis)"
    proof -
      have "take (Suc (Suc j)) vis' = take (Suc j) vis' @ [vis ! j]"
        using r(3) Suc.prems(1) nth by (simp add: take_Suc_conv_app_nth)
      then have "drop (Suc j') (take (Suc (Suc j)) vis') = drop (Suc j') (take (Suc j) vis') @ [vis ! j]"
        using r(2,3) Suc.prems(1) by simp
      also have "\<dots> = drop j' (take j vis) @ [vis ! j]" using r(5) by simp
      also have "\<dots> = drop j' (take (Suc j) vis)"
        using r(2) p by (simp add: take_Suc_conv_app_nth)
      finally show ?thesis .
    qed
    have d2: "drop (Suc (Suc j)) vis' = drop (Suc (Suc j)) vis"
    proof -
      have "drop 1 (drop (Suc j) vis') = drop 1 (drop (Suc j) ?v)" by (simp only: r(6))
      then show ?thesis unfolding drop_drop by simp
    qed
    have k: "\<forall>k < Suc j. j' \<le> k \<longrightarrow> sprite_key s cur \<le> sprite_key s (vis ! k)"
      using r(7) False by (auto simp: less_Suc_eq)
    have l: "0 < j' \<longrightarrow> sprite_key s (vis ! (j' - 1)) < sprite_key s cur" "take j' vis' = take j' vis"
      using r(2,4,8) by auto
    show ?thesis
      using step r(2,3) d1 d2 k l by (intro exI [of _ j'] exI [of _ vis']) simp
  qed
qed

lemma sorted_prefix_less:
  assumes "sorted (map f xs)" "j < length xs" "f (xs ! j) < f x"
  shows "\<forall>y\<in>set (take (Suc j) xs). f y < (f x :: 'b :: linorder)"
proof
  fix y
  assume "y \<in> set (take (Suc j) xs)"
  then obtain k where "k \<le> j" "y = xs ! k" using assms(2) by (auto simp: in_set_conv_nth less_Suc_eq_le)
  then have "f y \<le> f (xs ! j)" using assms(1,2) sorted_nth_mono [of "map f xs" k j] by simp
  with assms(3) show "f y < f x" by simp
qed

text \<open>One outer step inserts \<open>vis ! i\<close> into the sorted prefix.\<close>

lemma insert_sprite:
  assumes wf: "wf_gb s" and i: "i < length vis" "\<forall>k\<in>set vis. k < 40"
    and sorted: "sorted (map (sprite_key s) (take i vis))"
  shows "\<exists>j vis' vis''. shift_up s (vis ! i) (oam_x s (vis ! i)) i vis = Some (j, vis') \<and>
    mem_set vis' j (vis ! i) = Some vis'' \<and>
    vis'' = insort_key (sprite_key s) (vis ! i) (take i vis) @ drop (Suc i) vis"
proof -
  have c: "vis ! i < 40" using i by simp
  obtain j vis' where r: "shift_up s (vis ! i) (oam_x s (vis ! i)) i vis = Some (j, vis')" "j \<le> i"
      "length vis' = length vis" "take j vis' = take j vis"
      "drop (Suc j) (take (Suc i) vis') = drop j (take i vis)" "drop (Suc i) vis' = drop (Suc i) vis"
      "\<forall>k < i. j \<le> k \<longrightarrow> sprite_key s (vis ! i) \<le> sprite_key s (vis ! k)"
      "0 < j \<longrightarrow> sprite_key s (vis ! (j - 1)) < sprite_key s (vis ! i)"
    using shift_up_spec [OF wf c i] by blast
  have A: "\<forall>y\<in>set (take j vis). sprite_key s y < sprite_key s (vis ! i)"
  proof (cases j)
    case (Suc n)
    then have "sprite_key s (take i vis ! n) < sprite_key s (vis ! i)" "n < length (take i vis)"
      using r(2,8) i(1) by auto
    from sorted_prefix_less [OF sorted this(2,1)] show ?thesis
      using Suc r(2) by (simp add: min_def)
  qed simp
  have B: "\<forall>y\<in>set (drop j (take i vis)). sprite_key s (vis ! i) \<le> sprite_key s y"
    using r(7) i(1) by (auto simp: in_set_conv_nth)
  have "take i vis = take j vis @ drop j (take i vis)"
    using r(2) by (metis append_take_drop_id min.absorb1 take_take)
  then have ins: "insort_key (sprite_key s) (vis ! i) (take i vis) =
      take j vis @ vis ! i # drop j (take i vis)"
    using insort_key_split [OF A B] by simp
  have "vis'[j := vis ! i] = take j vis' @ vis ! i # drop (Suc j) vis'"
    using r(2,3) i(1) by (simp add: upd_conv_take_nth_drop)
  also have "drop (Suc j) vis' = drop (Suc j) (take (Suc i) vis') @ drop (Suc i) vis'"
  proof -
    have "vis' = take (Suc i) vis' @ drop (Suc i) vis'" by simp
    then have "drop (Suc j) vis' = drop (Suc j) (take (Suc i) vis' @ drop (Suc i) vis')" by simp
    then show ?thesis using r(2,3) i(1) by (simp only: drop_append) simp
  qed
  finally have "vis'[j := vis ! i] = insort_key (sprite_key s) (vis ! i) (take i vis) @ drop (Suc i) vis"
    using ins r(4,5,6) by simp
  with r(1,2,3) i(1) show ?thesis by auto
qed

text \<open>The insertion sort sorts by X, ties by OAM index.\<close>

lemma sort_sprites_aux:
  assumes wf: "wf_gb s"
  shows "i \<le> length vis \<Longrightarrow> \<forall>k\<in>set vis. k < 40 \<Longrightarrow> sorted (map (sprite_key s) (take i vis)) \<Longrightarrow>
    \<exists>vis'. sort_sprites s [i..<length vis] vis = Some vis' \<and> mset vis' = mset vis \<and>
      sorted (map (sprite_key s) vis')"
proof (induction "length vis - i" arbitrary: i vis)
  case 0
  then show ?case by simp
next
  case (Suc n)
  then have i: "i < length vis" "n = length vis - Suc i" by auto
  obtain j v1 v2 where r: "shift_up s (vis ! i) (oam_x s (vis ! i)) i vis = Some (j, v1)"
      "mem_set v1 j (vis ! i) = Some v2"
      "v2 = insort_key (sprite_key s) (vis ! i) (take i vis) @ drop (Suc i) vis"
    using insert_sprite [OF wf i(1) Suc.prems(2,3)] by blast
  have m: "mset v2 = mset vis"
  proof -
    have "mset v2 = mset (take i vis) + {#vis ! i#} + mset (drop (Suc i) vis)"
      by (simp add: r(3))
    also have "\<dots> = mset (take i vis @ vis ! i # drop (Suc i) vis)" by simp
    finally show ?thesis using i(1) by (simp add: id_take_nth_drop [symmetric])
  qed
  then have l: "length v2 = length vis" "set v2 = set vis" using mset_eq_length mset_eq_setD by blast+
  have t: "take (Suc i) v2 = insort_key (sprite_key s) (vis ! i) (take i vis)"
    using i(1) by (simp add: r(3))
  have "sorted (map (sprite_key s) (take (Suc i) v2))"
    unfolding t using Suc.prems(3) by (simp add: sorted_insort_key)
  then obtain v3 where v3: "sort_sprites s [Suc i..<length vis] v2 = Some v3" "mset v3 = mset vis"
      "sorted (map (sprite_key s) v3)"
    using Suc.hyps(1) [of v2 "Suc i"] i l m Suc.prems(2) by auto
  have x: "oam_at s (vis ! i) 1 = Some (oam (bufs s) ! (vis ! i * 4 + 1))"
    using oam_at_ok [OF wf, of "vis ! i" 1] Suc.prems(2) i(1) by simp
  have "sort_sprites s [i..<length vis] vis = Some v3"
    using i(1) x r(1,2) v3(1) by (simp add: upt_conv_Cons oam_x_def)
  with v3 show ?case by blast
qed

lemma sort_sprites_sorts:
  assumes "wf_gb s" "\<forall>k\<in>set vis. k < 40"
  shows "sort_sprites s [1..<length vis] vis = Some (sort_key (sprite_key s) vis)"
proof -
  have inj: "inj_on (sprite_key s) (set vis)" by (auto simp: inj_on_def sprite_key_def)
  show ?thesis
  proof (cases vis)
    case Nil
    then show ?thesis by simp
  next
    case (Cons v vs)
    then have "\<exists>vis'. sort_sprites s [1..<length vis] vis = Some vis' \<and> mset vis' = mset vis \<and>
        sorted (map (sprite_key s) vis')"
      using sort_sprites_aux [OF assms(1), of 1 vis] assms(2) by simp
    then show ?thesis using sort_key_inj_key_eq [OF _ inj] by metis
  qed
qed

section \<open>Sprite pixels\<close>

text \<open>Every pixel of the row and of the priority buffer (and of the colour row) has been written.\<close>

definition filled :: "bool \<Rightarrow> scanline \<Rightarrow> bool" where
  "filled cgbMode l \<longleftrightarrow> wf_line l \<and>
     (\<forall>k < GB_W. row l ! k \<noteq> None \<and> bgPriority l ! k \<noteq> None \<and> (cgbMode \<longrightarrow> colorRow l ! k \<noteq> None))"

text \<open>What a sprite shows at a pixel: its flags and color index, if it is visible there.\<close>

definition obj_at :: "'snd gb \<Rightarrow> u8 \<times> int \<times> u8 \<times> u8 \<Rightarrow> (nat \<Rightarrow> u8) \<Rightarrow> nat \<Rightarrow> (u8 \<times> u8) option" where
  "obj_at s r bp k =
     (case r of (flags, sx, lo, hi) \<Rightarrow>
        let px = int k - sx
        in if 0 \<le> px \<and> px < 8 then
             let ci = color_index hi lo (if flags AND 0x20 \<noteq> 0 then nat px else 7 - nat px)
             in if ci = 0 \<or> hidden s flags (bp k) then None else Some (flags, ci)
           else None)"

definition overlay ::
  "'snd gb \<Rightarrow> u8 list \<Rightarrow> u8 list \<Rightarrow> (nat \<Rightarrow> (u8 \<times> u8) option) \<Rightarrow> scanline \<Rightarrow> scanline \<Rightarrow> bool" where
  "overlay s sh0 sh1 g l l' \<longleftrightarrow> wf_line l' \<and> bgPriority l' = bgPriority l \<and>
     (\<forall>k < GB_W.
        row l' ! k = (case g k of None \<Rightarrow> row l ! k
          | Some (fl, ci) \<Rightarrow> Some ((if drop_bit 4 fl AND 1 = 0 then sh0 else sh1) ! unat ci)) \<and>
        colorRow l' ! k = (case g k of None \<Rightarrow> colorRow l ! k
          | Some (fl, ci) \<Rightarrow> if isCgb (cgb s) then Some (32 + (fl AND 7) * 4 + ci) else colorRow l ! k))"

lemma overlay_none: "wf_line l \<Longrightarrow> (\<And>k. k < GB_W \<Longrightarrow> g k = None) \<Longrightarrow> overlay s sh0 sh1 g l l"
  by (simp add: overlay_def)

lemma overlay_trans:
  assumes "overlay s sh0 sh1 g l l1" "overlay s sh0 sh1 h l1 l2"
    and "\<And>k. k < GB_W \<Longrightarrow> f k = (case h k of None \<Rightarrow> g k | Some p \<Rightarrow> Some p)"
  shows "overlay s sh0 sh1 f l l2"
  using assms by (auto simp: overlay_def split: option.split)

lemma overlay_filled: "overlay s sh0 sh1 g l l' \<Longrightarrow> filled (isCgb (cgb s)) l \<Longrightarrow> filled (isCgb (cgb s)) l'"
  by (auto simp: overlay_def filled_def split: option.split)

definition bp_of :: "scanline \<Rightarrow> nat \<Rightarrow> u8" where
  "bp_of l k = the (bgPriority l ! k)"

text \<open>One pixel: only position \<open>sx + px\<close> can change.\<close>

lemma sprite_pixel_ok:
  assumes l: "filled (isCgb (cgb s)) l" and sh: "length sh0 = 4" "length sh1 = 4" and px: "px < 8"
    and shades: "shades = (if drop_bit 4 flags AND 1 = 0 then sh0 else sh1)"
  shows "okp (sprite_pixel s flags shades sx lo hi px l)
    (overlay s sh0 sh1 (\<lambda>k. if int k = sx + int px then obj_at s (flags, sx, lo, hi) (bp_of l) k else None) l)"
    (is "okp _ (overlay s sh0 sh1 ?g l)")
proof (cases "0 \<le> sx + int px \<and> sx + int px < int GB_W")
  case False
  have "?g k = None" if "k < GB_W" for k
  proof -
    have "int k \<noteq> sx + int px" using False that by linarith
    then show ?thesis by simp
  qed
  then have "overlay s sh0 sh1 ?g l l" using l by (intro overlay_none) (auto simp: filled_def)
  moreover have "sx + int px < 0 \<or> int GB_W \<le> sx + int px" using False by linarith
  ultimately show ?thesis by (simp add: sprite_pixel_def)
next
  case True
  define x where "x = nat (sx + int px)"
  have x: "x < GB_W" "int x = sx + int px" using True by (auto simp: x_def)
  define ci where "ci = color_index hi lo (if flags AND 0x20 \<noteq> 0 then px else 7 - px)"
  have w: "length (row l) = GB_W" "length (colorRow l) = GB_W" "length (bgPriority l) = GB_W"
    and bp: "bgPriority l ! x = Some (bp_of l x)"
    using l x(1) by (auto simp: filled_def wf_line_def bp_of_def)
  have g: "?g k = (if k = x then (if ci = 0 \<or> hidden s flags (bp_of l x) then None else Some (flags, ci)) else None)" for k
    using x(2) px by (auto simp: obj_at_def Let_def ci_def)
  have shl: "length shades = 4" using sh shades by simp
  have run: "sprite_pixel s flags shades sx lo hi px l =
      (if ci = 0 then Some l else paint_sprite s flags shades x ci l)"
    using True by (simp add: sprite_pixel_def ci_def x_def)
  show ?thesis
  proof (cases "ci = 0 \<or> hidden s flags (bp_of l x)")
    case True
    then have "?g k = None" for k using g by simp
    then have "overlay s sh0 sh1 ?g l l" using l by (intro overlay_none) (auto simp: filled_def)
    then show ?thesis using True run w x(1) bp by (auto simp: paint_sprite_def)
  next
    case False
    then have g': "?g k = (if k = x then Some (flags, ci) else None)" for k using g by simp
    have ci: "unat ci < length shades" using color_index_lt shl by (simp add: ci_def)
    have p: "paint_sprite s flags shades x ci l = Some (if isCgb (cgb s)
        then l\<lparr>row := (row l)[x := Some (shades ! unat ci)],
               colorRow := (colorRow l)[x := Some (32 + (flags AND 7) * 4 + ci)]\<rparr>
        else l\<lparr>row := (row l)[x := Some (shades ! unat ci)]\<rparr>)"
      using False w x(1) bp ci by (simp add: paint_sprite_def)
    have "overlay s sh0 sh1 (\<lambda>k. if k = x then Some (flags, ci) else None) l (if isCgb (cgb s)
        then l\<lparr>row := (row l)[x := Some (shades ! unat ci)],
               colorRow := (colorRow l)[x := Some (32 + (flags AND 7) * 4 + ci)]\<rparr>
        else l\<lparr>row := (row l)[x := Some (shades ! unat ci)]\<rparr>)"
      using w by (simp add: overlay_def wf_line_def nth_list_update shades)
    then show ?thesis using run False p by (simp add: g' [abs_def])
  qed
qed

lemma overlay_cong:
  "overlay s sh0 sh1 g l l' \<Longrightarrow> (\<And>k. k < GB_W \<Longrightarrow> h k = g k) \<Longrightarrow> overlay s sh0 sh1 h l l'"
  by (simp add: overlay_def)

lemma overlay_bp: "overlay s sh0 sh1 g l l' \<Longrightarrow> bp_of l' = bp_of l"
  unfolding overlay_def by (intro ext) (simp add: bp_of_def)

lemma sprite_pixels_ok:
  assumes sh: "length sh0 = 4" "length sh1 = 4"
    and shades: "shades = (if drop_bit 4 flags AND 1 = 0 then sh0 else sh1)"
  shows "filled (isCgb (cgb s)) l \<Longrightarrow> \<forall>px\<in>set pxs. px < 8 \<Longrightarrow>
    okp (sprite_pixels s flags shades sx lo hi pxs l)
      (overlay s sh0 sh1 (\<lambda>k. if \<exists>px\<in>set pxs. int k = sx + int px
                             then obj_at s (flags, sx, lo, hi) (bp_of l) k else None) l)"
proof (induction pxs arbitrary: l)
  case Nil
  then show ?case by (auto simp: filled_def intro!: overlay_none)
next
  case (Cons px pxs)
  let ?o = "\<lambda>l k. obj_at s (flags, sx, lo, hi) (bp_of l) k"
  have px: "px < 8" and pxs: "\<forall>px\<in>set pxs. px < 8" using Cons.prems(2) by simp_all
  show ?case
    unfolding sprite_pixels.simps
  proof (rule okp_bindI [OF sprite_pixel_ok [OF Cons.prems(1) sh px shades]])
    fix l1
    assume o1: "overlay s sh0 sh1 (\<lambda>k. if int k = sx + int px then ?o l k else None) l l1"
    note f1 = overlay_filled [OF o1 Cons.prems(1)] and b1 = overlay_bp [OF o1]
    show "okp (sprite_pixels s flags shades sx lo hi pxs l1)
        (overlay s sh0 sh1 (\<lambda>k. if \<exists>px\<in>set (px # pxs). int k = sx + int px then ?o l k else None) l)"
      by (rule okp_mono [OF Cons.IH [OF f1 pxs]], rule overlay_trans [OF o1], assumption)
        (auto simp: b1 split: option.split)
  qed
qed

lemma two_planes:
  "length w = 0x2000 \<Longrightarrow> a + 1 < 0x2000 \<Longrightarrow>
   okp (mem_get w a \<bind> (\<lambda>lo. mem_get w (a + 1) \<bind> (\<lambda>hi. Some (f lo hi)))) (\<lambda>r. True)"
  by simp

lemma sprite_row_ok:
  assumes wf: "wf_gb s" and i: "i < 40" and on: "on_line s line height i"
    and h: "height = 8 \<or> height = 16"
  shows "okp (sprite_row s line height i) (\<lambda>r. True)"
proof -
  have v: "length (vram (bufs s)) = 0x2000" using wf_gbD(3) [OF wf]
    by (simp add: wf_bufs_def GB_VRAM_SIZE_def)
  have bank: "okp (if isCgb (cgb s) \<and> f AND 0x08 \<noteq> 0 then vram1 (cgb s) else Some (vram (bufs s)))
      (\<lambda>w. length w = 0x2000)" for f :: u8
    using wf_gbD(2) [OF wf] v by (cases "vram1 (cgb s)") (auto simp: wf_cgb_def)
  have at: "nat (uint (t :: u8) * 16 + ty * 2) + 1 < 0x2000" if "0 \<le> ty" "ty < 8" for t ty
    using unsigned_less [of t, where ?'a = int] that by simp
  have y: "0 \<le> line - (uint (oam (bufs s) ! (i * 4)) - 16)" "line - (uint (oam (bufs s) ! (i * 4)) - 16) < height"
    using on by (simp_all add: on_line_def Let_def)
  have ty: "0 \<le> (if height = 16 then (if b then height - 1 - d else d) mod 8 else if b then height - 1 - d else d)"
    "(if height = 16 then (if b then height - 1 - d else d) mod 8 else if b then height - 1 - d else d) < 8"
    if "0 \<le> d" "d < height" for d and b :: bool
    using that h by (auto simp: not_le)
  have o: "k < 4 \<Longrightarrow> okp (oam_at s i k) (\<lambda>v. v = oam (bufs s) ! (i * 4 + k))" for k
    using oam_at_ok [OF wf i] by simp
  have o0: "okp (oam_at s i 0) (\<lambda>v. v = oam (bufs s) ! (i * 4))" using o [of 0] by simp
  show ?thesis
    unfolding sprite_row_def Let_def
    apply (rule okp_bindI [OF o0])
    apply (rule okp_bindI [OF o, of 1], simp)
    apply (rule okp_bindI [OF o, of 2], simp)
    apply (rule okp_bindI [OF o, of 3], simp)
    apply (rule okp_bindI [OF bank])
    apply (rule two_planes, assumption)
    apply (rule at)
     apply (rule ty(1), use y in blast, use y in blast)
    apply (rule ty(2), use y in blast, use y in blast)
    done
qed

text \<open>The sprite shown at a pixel: the first of \<open>vis\<close> that is visible there.\<close>

definition top_obj :: "'snd gb \<Rightarrow> int \<Rightarrow> int \<Rightarrow> (nat \<Rightarrow> u8) \<Rightarrow> nat list \<Rightarrow> nat \<Rightarrow> (u8 \<times> u8) option" where
  "top_obj s line height bp vis k =
     foldr (\<lambda>i acc. case obj_at s (the (sprite_row s line height i)) bp k of Some p \<Rightarrow> Some p | None \<Rightarrow> acc)
       vis None"

lemma top_obj_snoc:
  "top_obj s line height bp (vis @ [i]) k =
     (case top_obj s line height bp vis k of
        None \<Rightarrow> obj_at s (the (sprite_row s line height i)) bp k | Some p \<Rightarrow> Some p)"
  by (induction vis) (auto simp: top_obj_def split: option.splits)

lemma draw_sprites_ok:
  assumes wf: "wf_gb s" and sh: "length sh0 = 4" "length sh1 = 4" and h: "height = 8 \<or> height = 16"
  shows "filled (isCgb (cgb s)) l \<Longrightarrow> \<forall>i\<in>set is. i < 40 \<and> on_line s line height i \<Longrightarrow>
    okp (draw_sprites s line height sh0 sh1 is l)
      (overlay s sh0 sh1 (top_obj s line height (bp_of l) (rev is)) l)"
proof (induction "is" arbitrary: l)
  case Nil
  then show ?case by (auto simp: filled_def top_obj_def intro!: overlay_none)
next
  case (Cons i "is")
  obtain fl sx lo hi where r: "sprite_row s line height i = Some (fl, sx, lo, hi)"
    using sprite_row_ok [OF wf _ _ h, of i line] Cons.prems(2) by (auto simp: okp_iff)
  let ?sh = "if drop_bit 4 fl AND 1 = 0 then sh0 else sh1"
  have "okp (sprite_pixels s fl ?sh sx lo hi [0..<8] l \<bind> draw_sprites s line height sh0 sh1 is)
      (overlay s sh0 sh1 (top_obj s line height (bp_of l) (rev (i # is))) l)"
  proof (rule okp_bindI [OF sprite_pixels_ok [OF sh refl Cons.prems(1)]])
    fix l1
    assume "overlay s sh0 sh1 (\<lambda>k. if \<exists>px\<in>set [0..<8]. int k = sx + int px
      then obj_at s (fl, sx, lo, hi) (bp_of l) k else None) l l1"
    then have o1: "overlay s sh0 sh1 (obj_at s (fl, sx, lo, hi) (bp_of l)) l l1"
    proof (rule overlay_cong)
      fix k
      have "obj_at s (fl, sx, lo, hi) (bp_of l) k = None" if "\<not> (\<exists>px\<in>set [0..<8]. int k = sx + int px)"
      proof -
        have "\<not> (0 \<le> int k - sx \<and> int k - sx < 8)"
        proof
          assume "0 \<le> int k - sx \<and> int k - sx < 8"
          then have "nat (int k - sx) \<in> set [0..<8]" "int k = sx + int (nat (int k - sx))" by auto
          with that show False by blast
        qed
        then show ?thesis by (simp add: obj_at_def Let_def)
      qed
      then show "obj_at s (fl, sx, lo, hi) (bp_of l) k =
          (if \<exists>px\<in>set [0..<8]. int k = sx + int px then obj_at s (fl, sx, lo, hi) (bp_of l) k else None)"
        by simp
    qed
    have IH: "okp (draw_sprites s line height sh0 sh1 is l1)
        (overlay s sh0 sh1 (top_obj s line height (bp_of l1) (rev is)) l1)"
      using Cons.IH [OF overlay_filled [OF o1 Cons.prems(1)]] Cons.prems(2) by simp
    show "okp (draw_sprites s line height sh0 sh1 is l1)
        (overlay s sh0 sh1 (top_obj s line height (bp_of l) (rev (i # is))) l)"
      by (rule okp_mono [OF IH], rule overlay_trans [OF o1], assumption)
        (simp add: overlay_bp [OF o1] top_obj_snoc r split: option.split)
  qed simp
  then show ?case by (simp add: r Let_def)
qed

text \<open>The visible sprites of a line in priority order.\<close>

definition line_sprites :: "'snd gb \<Rightarrow> int \<Rightarrow> int \<Rightarrow> nat list" where
  "line_sprites s line height =
     (let vis = take 10 (filter (on_line s line height) [0..<40])
      in if isCgb (cgb s) then vis else sort_key (sprite_key s) vis)"

lemma draw_objects_ok:
  assumes wf: "wf_gb s" and sh: "length sh0 = 4" "length sh1 = 4" and l: "filled (isCgb (cgb s)) l"
  shows "okp (draw_objects s line sh0 sh1 l)
    (overlay s sh0 sh1 (\<lambda>k. if lcdc (lcd s) AND 0x02 \<noteq> 0
       then top_obj s (int line) (obj_height s) (bp_of l) (line_sprites s (int line) (obj_height s)) k else None) l)"
proof (cases "lcdc (lcd s) AND 0x02 = 0")
  case True
  then show ?thesis using l by (auto simp: draw_objects_def filled_def intro!: overlay_none)
next
  case False
  let ?h = "obj_height s"
  let ?vis = "take 10 (filter (on_line s (int line) ?h) [0..<40])"
  have all: "\<forall>i\<in>set [0..<40]. i < (40 :: nat)" by (simp only: set_upt atLeastLessThan_iff) simp
  have m: "\<forall>i\<in>set ?vis. i < 40 \<and> on_line s (int line) ?h i"
    using set_take_subset [of 10 "filter (on_line s (int line) ?h) [0..<40]"] all
    unfolding set_filter by blast
  have sel: "select_sprites s (int line) ?h [] [0..<40] = Some ?vis"
    using select_sprites_take [OF wf all, of "[]"] unfolding append_Nil by (simp only: list.size le0)
  have m0: "\<forall>i\<in>set ?vis. i < 40" using m by blast
  have sort: "(if isCgb (cgb s) then Some ?vis else sort_sprites s [1..<length ?vis] ?vis) =
      Some (line_sprites s (int line) ?h)"
    unfolding line_sprites_def Let_def sort_sprites_sorts [OF wf m0] by (rule if_distrib [symmetric])
  have m2: "\<forall>i\<in>set (rev (line_sprites s (int line) ?h)). i < 40 \<and> on_line s (int line) ?h i"
    using m unfolding line_sprites_def Let_def by (cases "isCgb (cgb s)") (simp_all only: if_True if_False set_rev set_sort)
  have "okp (draw_sprites s (int line) ?h sh0 sh1 (rev (line_sprites s (int line) ?h)) l)
      (overlay s sh0 sh1 (top_obj s (int line) ?h (bp_of l) (line_sprites s (int line) ?h)) l)"
    using draw_sprites_ok [OF wf sh _ l m2] by (simp add: obj_height_def)
  moreover have "draw_objects s line sh0 sh1 l =
      draw_sprites s (int line) ?h sh0 sh1 (rev (line_sprites s (int line) ?h)) l"
    unfolding draw_objects_def Let_def using False by (simp only: sel sort bind.bind_lunit not_False_eq_True if_True)
  ultimately show ?thesis using False by simp
qed

end
