(* ===== verification/Emu_Scanline.thy ===== *)
theory Emu_Scanline
  imports Emu_Sprites
begin

text \<open>
  The whole line: \<open>line_shade\<close> and \<open>line_color\<close> give every pixel directly from video memory and the
  registers, and \<open>renderLine_ok\<close> shows that the renderer stores exactly these pixels, inside its
  buffers.
\<close>

section \<open>The scanline, pixel by pixel\<close>

definition bg_on :: "'snd gb \<Rightarrow> bool" where
  "bg_on s \<longleftrightarrow> lcdc (lcd s) AND 0x01 \<noteq> 0 \<or> isCgb (cgb s)"

text \<open>Attribute and color index of the window or background at a pixel.\<close>

definition base_pixel :: "'snd gb \<Rightarrow> nat \<Rightarrow> nat \<Rightarrow> u8 \<times> u8" where
  "base_pixel s line k =
     (let wx0 = uint (wx (lcd s)) - 7
      in if windowVisible line s \<and> wx0 \<le> int k
         then the (tile_at s (if lcdc (lcd s) AND 0x40 \<noteq> 0 then 0x1C00 else 0x1800)
                     (nat (windowLine (lcd s))) (nat (int k - wx0)))
         else the (tile_at s (if lcdc (lcd s) AND 0x08 \<noteq> 0 then 0x1C00 else 0x1800)
                     ((line + unat (scy (lcd s))) mod 256) ((k + unat (scx (lcd s))) mod 256)))"

definition base_priority :: "'snd gb \<Rightarrow> nat \<Rightarrow> nat \<Rightarrow> u8" where
  "base_priority s line k =
     (if \<not> bg_on s then 0
      else if isCgb (cgb s) then snd (base_pixel s line k) OR flag_if (fst (base_pixel s line k) AND 0x80 \<noteq> 0) 4
      else snd (base_pixel s line k))"

text \<open>The sprite on top at a pixel, if any.\<close>

definition obj_pixel :: "'snd gb \<Rightarrow> nat \<Rightarrow> nat \<Rightarrow> (u8 \<times> u8) option" where
  "obj_pixel s line k =
     (if lcdc (lcd s) AND 0x02 \<noteq> 0
      then top_obj s (int line) (obj_height s) (base_priority s line)
             (line_sprites s (int line) (obj_height s)) k
      else None)"

definition shades_of :: "'snd gb \<Rightarrow> u8 \<Rightarrow> u8 list" where
  "shades_of s palette = the (decode_palette s palette)"

text \<open>The shade (monochrome) and the palette index (colour) of a pixel.\<close>

definition line_shade :: "'snd gb \<Rightarrow> nat \<Rightarrow> nat \<Rightarrow> u8" where
  "line_shade s line k =
     (case obj_pixel s line k of
        Some (fl, ci) \<Rightarrow> shades_of s (if drop_bit 4 fl AND 1 = 0 then obp0 (lcd s) else obp1 (lcd s)) ! unat ci
      | None \<Rightarrow> if bg_on s then shades_of s (bgp (lcd s)) ! unat (snd (base_pixel s line k)) else 0)"

definition line_color :: "'snd gb \<Rightarrow> nat \<Rightarrow> nat \<Rightarrow> u8" where
  "line_color s line k =
     (case obj_pixel s line k of
        Some (fl, ci) \<Rightarrow> 32 + (fl AND 7) * 4 + ci
      | None \<Rightarrow> (fst (base_pixel s line k) AND 7) * 4 + snd (base_pixel s line k))"

lemma decode_palette_ok:
  assumes "wf_gb s"
  shows "okp (decode_palette s p) (\<lambda>sh. length sh = 4)"
proof -
  have "unat (drop_bit n p AND 3) < length (shadeRemap s)" for n
    using unat_and_lt [of "3 :: u8" 4] wf_gbD(6) [OF assms] by simp
  then show ?thesis by (simp add: decode_palette_def applyPalette_def del: drop_bit_0)
qed

lemma top_obj_cong: "bp k = bp' k \<Longrightarrow> top_obj s line h bp vis k = top_obj s line h bp' vis k"
  by (induction vis) (auto simp: top_obj_def obj_at_def Let_def split: prod.split)

text \<open>The buffers after the background and the window.\<close>

definition base_drawn :: "'snd gb \<Rightarrow> nat \<Rightarrow> scanline \<Rightarrow> bool" where
  "base_drawn s line l \<longleftrightarrow> filled (isCgb (cgb s)) l \<and>
     (\<forall>k < GB_W.
        row l ! k = Some (if bg_on s then shades_of s (bgp (lcd s)) ! unat (snd (base_pixel s line k)) else 0) \<and>
        bgPriority l ! k = Some (base_priority s line k) \<and>
        (isCgb (cgb s) \<longrightarrow>
           colorRow l ! k = Some ((fst (base_pixel s line k) AND 7) * 4 + snd (base_pixel s line k))))"

lemma blank_line_wf: "wf_line (blank_line c)"
  by (simp add: wf_line_def blank_line_def)

lemma draw_base_ok:
  fixes s :: "'snd gb" and line :: nat
  assumes wf: "wf_gb s" and w: "0 \<le> windowLine (lcd s)" "windowLine (lcd s) < 256"
  defines "window \<equiv> windowVisible line s"
  defines "bgEnd \<equiv> (if window then (if wx (lcd s) < 7 then 0 else unat (wx (lcd s)) - 7) else GB_W)"
  defines "sh \<equiv> shades_of s (bgp (lcd s))"
  shows "okp (draw_background s line sh bgEnd (blank_line (isCgb (cgb s))) \<bind>
      (\<lambda>l. if window then draw_window s sh l else Some l)) (base_drawn s line)"
proof (cases "bg_on s")
  case False
  then have "\<not> window" by (simp add: window_def windowVisible_def bg_on_def)
  with False show ?thesis
    by (auto simp: draw_background_def bg_on_def base_drawn_def filled_def wf_line_def blank_line_def
        base_priority_def)
next
  case True
  let ?c = "isCgb (cgb s)"
  have sh: "length sh = 4" using decode_palette_ok [OF wf, of "bgp (lcd s)"]
    by (auto simp: sh_def shades_of_def okp_iff)
  have bgE: "bgEnd \<le> GB_W" "window \<Longrightarrow> int bgEnd = max 0 (uint (wx (lcd s)) - 7)"
  proof -
    define n where "n = unat (wx (lcd s))"
    have u: "uint (wx (lcd s)) = int n" by (simp add: n_def)
    have v: "window \<Longrightarrow> n \<le> 166" by (simp add: window_def windowVisible_def n_def)
    have l: "wx (lcd s) < 7 \<longleftrightarrow> n < 7" by (simp add: word_less_nat_alt n_def)
    have b: "bgEnd = (if window then (if n < 7 then 0 else n - 7) else GB_W)"
      by (simp add: bgEnd_def l n_def)
    show "bgEnd \<le> GB_W" using v by (auto simp: b GB_W_def)
    show "window \<Longrightarrow> int bgEnd = max 0 (uint (wx (lcd s)) - 7)"
      unfolding b u by (auto simp: max_def)
  qed
  let ?mb = "if lcdc (lcd s) AND 0x08 \<noteq> 0 then 0x1C00 else 0x1800 :: nat"
  let ?y = "(line + unat (scy (lcd s))) mod 256"
  have "?y div 8 < 32" by (simp add: less_mult_imp_div_less)
  then have m: "?mb + ?y div 8 * 32 + 31 < 0x2000" by auto
  have bg: "okp (draw_background s line sh bgEnd (blank_line ?c))
      (painted ?c sh (\<lambda>k. the (tile_at s ?mb ?y ((k + unat (scx (lcd s))) mod 256))) {0..<bgEnd} (blank_line ?c))"
    using True bg_loop_ok [OF wf sh bgE(1) m blank_line_wf, of 0] by (simp add: draw_background_def bg_on_def Let_def)
  have fin: "base_drawn s line l" if "painted ?c sh (base_pixel s line) {0..<GB_W} (blank_line ?c) l" for l
    using that True by (auto simp: painted_def base_drawn_def filled_def base_priority_def sh_def)
  show ?thesis
  proof (rule okp_bindI [OF bg])
    fix l
    assume p: "painted ?c sh (\<lambda>k. the (tile_at s ?mb ?y ((k + unat (scx (lcd s))) mod 256))) {0..<bgEnd} (blank_line ?c) l"
    show "okp (if window then draw_window s sh l else Some l) (base_drawn s line)"
    proof (cases window)
      case False
      then have "painted ?c sh (base_pixel s line) {0..<GB_W} (blank_line ?c) l"
        using p by (auto simp: bgEnd_def base_pixel_def Let_def window_def elim!: painted_cong)
      then show ?thesis using False fin by simp
    next
      case win: True
      let ?wx0 = "uint (wx (lcd s)) - 7"
      have bE: "bgEnd = nat ?wx0" using bgE(2) [OF win] by linarith
      have p1: "painted ?c sh (base_pixel s line) {0..<bgEnd} (blank_line ?c) l"
        using p by (rule painted_cong) (auto simp: base_pixel_def Let_def bE)
      let ?wm = "if lcdc (lcd s) AND 0x40 \<noteq> 0 then 0x1C00 else 0x1800 :: nat"
      let ?wy = "nat (windowLine (lcd s))"
      have "?wy div 8 < 32" using w by (intro less_mult_imp_div_less) simp
      then have wm: "?wm + ?wy div 8 * 32 + 31 < 0x2000" by auto
      have "okp (draw_window s sh l) (painted ?c sh (\<lambda>k. the (tile_at s ?wm ?wy (nat (int k - ?wx0)))) {bgEnd..<GB_W} l)"
        using win_loop_ok [OF wf sh wm _ painted_wf [OF p], of ?wx0 bgEnd] bgE(1)
        by (simp add: draw_window_def Let_def bE)
      then have "okp (draw_window s sh l) (painted ?c sh (base_pixel s line) {0..<GB_W} (blank_line ?c))"
      proof (rule okp_mono)
        fix l2
        assume "painted ?c sh (\<lambda>k. the (tile_at s ?wm ?wy (nat (int k - ?wx0)))) {bgEnd..<GB_W} l l2"
        then have "painted ?c sh (base_pixel s line) {bgEnd..<GB_W} l l2"
          by (rule painted_cong) (use win in \<open>auto simp: base_pixel_def Let_def bE window_def\<close>)
        from painted_trans [OF p1 this] bgE(1) show "painted ?c sh (base_pixel s line) {0..<GB_W} (blank_line ?c) l2"
          by (simp add: ivl_disj_un_two)
      qed
      then show ?thesis using win fin by (auto simp: okp_iff)
    qed
  qed
qed

section \<open>Packing\<close>

text \<open>The shade a packed frame buffer holds at a pixel.\<close>

definition fb_shade :: "u8 list \<Rightarrow> nat \<Rightarrow> nat \<Rightarrow> u8" where
  "fb_shade fb line k = drop_bit (2 * (k mod 4)) (fb ! (line * GB_FB_STRIDE + k div 4)) AND 3"

lemma and_3_take_bit: "(x :: u8) AND 3 = take_bit 2 x"
  by (simp add: take_bit_eq_mask mask_eq_exp_minus_1)

lemma pack_byte_shades:
  fixes a b c d :: u8
  defines "p \<equiv> (a AND 3) OR push_bit 2 (b AND 3) OR push_bit 4 (c AND 3) OR push_bit 6 (d AND 3)"
  shows "drop_bit 0 p AND 3 = a AND 3" "drop_bit 2 p AND 3 = b AND 3"
    "drop_bit 4 p AND 3 = c AND 3" "drop_bit 6 p AND 3 = d AND 3"
  unfolding p_def and_3_take_bit
  by (intro bit_word_eqI; auto simp: bit_simps)+

lemma pack_byte_ok:
  assumes "4 * j + 3 < length r"
  shows "okp (pack_byte r (4 * j)) (\<lambda>b. \<forall>i < 4. drop_bit (2 * i) b AND 3 = r ! (4 * j + i) AND 3)"
proof -
  have i4: "i < 4 \<longleftrightarrow> i = 0 \<or> i = 1 \<or> i = 2 \<or> i = (3 :: nat)" for i by auto
  show ?thesis
    using assms pack_byte_shades [of "r ! (4 * j)" "r ! (4 * j + 1)" "r ! (4 * j + 2)" "r ! (4 * j + 3)"]
    by (auto simp: pack_byte_def i4)
qed

lemma pack_row_ok:
  assumes "base + n \<le> length fb" "4 * n \<le> length r"
  shows "m \<le> n \<Longrightarrow> okp (pack_row r base [m..<n] fb) (\<lambda>fb'. length fb' = length fb \<and>
    (\<forall>j. m \<le> j \<longrightarrow> j < n \<longrightarrow> (\<forall>i < 4. drop_bit (2 * i) (fb' ! (base + j)) AND 3 = r ! (4 * j + i) AND 3)) \<and>
    (\<forall>j. j < base + m \<or> base + n \<le> j \<longrightarrow> fb' ! j = fb ! j))"
  using assms(1)
proof (induction "n - m" arbitrary: m fb)
  case 0
  then show ?case by simp
next
  case (Suc x)
  then have m: "m < n" "x = n - Suc m" "Suc m \<le> n" by auto
  have b: "okp (pack_byte r (4 * m)) (\<lambda>b. \<forall>i < 4. drop_bit (2 * i) b AND 3 = r ! (4 * m + i) AND 3)"
    using m(1) assms(2) by (intro pack_byte_ok) linarith
  have "okp (pack_byte r (4 * m) \<bind> (\<lambda>b. mem_set fb (base + m) b \<bind> pack_row r base [Suc m..<n])) (\<lambda>fb'. length fb' = length fb \<and>
    (\<forall>j. m \<le> j \<longrightarrow> j < n \<longrightarrow> (\<forall>i < 4. drop_bit (2 * i) (fb' ! (base + j)) AND 3 = r ! (4 * j + i) AND 3)) \<and>
    (\<forall>j. j < base + m \<or> base + n \<le> j \<longrightarrow> fb' ! j = fb ! j))"
  proof (rule okp_bindI [OF b])
    fix b :: u8
    assume bb: "\<forall>i < 4. drop_bit (2 * i) b AND 3 = r ! (4 * m + i) AND 3"
    let ?fb = "fb[base + m := b]"
    have "okp (pack_row r base [Suc m..<n] ?fb) (\<lambda>fb'. length fb' = length fb \<and>
      (\<forall>j. m \<le> j \<longrightarrow> j < n \<longrightarrow> (\<forall>i < 4. drop_bit (2 * i) (fb' ! (base + j)) AND 3 = r ! (4 * j + i) AND 3)) \<and>
      (\<forall>j. j < base + m \<or> base + n \<le> j \<longrightarrow> fb' ! j = fb ! j))"
    proof (rule okp_mono [OF Suc.hyps(1) [of "Suc m" ?fb]], goal_cases)
      case (4 fb')
      have at: "fb' ! (base + m) = b" using 4 m(1) Suc.prems(2) by auto
      have "drop_bit (2 * i) (fb' ! (base + j)) AND 3 = r ! (4 * j + i) AND 3"
        if "m \<le> j" "j < n" "i < 4" for i j
        using that 4 bb at by (cases "j = m") auto
      then show ?case using 4 m(1) by auto
    qed (use m Suc.prems in auto)
    then show "okp (mem_set fb (base + m) b \<bind> pack_row r base [Suc m..<n]) (\<lambda>fb'. length fb' = length fb \<and>
      (\<forall>j. m \<le> j \<longrightarrow> j < n \<longrightarrow> (\<forall>i < 4. drop_bit (2 * i) (fb' ! (base + j)) AND 3 = r ! (4 * j + i) AND 3)) \<and>
      (\<forall>j. j < base + m \<or> base + n \<le> j \<longrightarrow> fb' ! j = fb ! j))"
      using m(1) Suc.prems(2) by simp
  qed
  then show ?case using m(1) by (simp add: upt_conv_Cons)
qed

section \<open>Storing the line\<close>

lemma those_Some: "\<forall>k < length xs. xs ! k \<noteq> None \<Longrightarrow> those xs = Some (map the xs)"
proof (induction xs)
  case (Cons x xs)
  then have "x \<noteq> None" "those xs = Some (map the xs)" by force+
  then show ?case by auto
qed simp

text \<open>What storing pixels \<open>sh\<close> at \<open>line\<close> does to the packed buffer, and \<open>co\<close> to the colour buffer.\<close>

definition fb_line :: "nat \<Rightarrow> (nat \<Rightarrow> u8) \<Rightarrow> u8 list \<Rightarrow> u8 list \<Rightarrow> bool" where
  "fb_line line sh f f' \<longleftrightarrow> length f' = length f \<and>
     (\<forall>k < GB_W. fb_shade f' line k = sh k AND 3) \<and>
     (\<forall>y k. y < GB_H \<longrightarrow> y \<noteq> line \<longrightarrow> k < GB_W \<longrightarrow> fb_shade f' y k = fb_shade f y k)"

definition cf_line :: "nat \<Rightarrow> (nat \<Rightarrow> u8) \<Rightarrow> u8 list \<Rightarrow> u8 list \<Rightarrow> bool" where
  "cf_line line co f f' \<longleftrightarrow> length f' = length f \<and>
     (\<forall>k < GB_W. f' ! (line * GB_W + k) = co k) \<and>
     (\<forall>y k. y < GB_H \<longrightarrow> y \<noteq> line \<longrightarrow> k < GB_W \<longrightarrow> f' ! (y * GB_W + k) = f ! (y * GB_W + k))"

lemma pack_line:
  assumes f: "length f = GB_FB_SIZE" and r: "length r = GB_W" and line: "line < GB_H"
  shows "okp (pack_row r (line * GB_FB_STRIDE) [0..<GB_W div 4] f) (fb_line line (\<lambda>k. r ! k) f)"
proof -
  have b: "line * GB_FB_STRIDE + GB_W div 4 \<le> length f" "4 * (GB_W div 4) \<le> length r"
    using line by (simp_all add: f r size_defs)
  show ?thesis
  proof (rule okp_mono [OF pack_row_ok [OF b le0]])
    fix f'
    assume h: "length f' = length f \<and>
      (\<forall>j. 0 \<le> j \<longrightarrow> j < GB_W div 4 \<longrightarrow> (\<forall>i < 4. drop_bit (2 * i) (f' ! (line * GB_FB_STRIDE + j)) AND 3 = r ! (4 * j + i) AND 3)) \<and>
      (\<forall>j. j < line * GB_FB_STRIDE + 0 \<or> line * GB_FB_STRIDE + GB_W div 4 \<le> j \<longrightarrow> f' ! j = f ! j)"
    have "fb_shade f' line k = r ! k AND 3" if "k < GB_W" for k
    proof -
      have "k div 4 < GB_W div 4" using that by (simp add: GB_W_def less_mult_imp_div_less)
      then show ?thesis using h by (simp add: fb_shade_def)
    qed
    moreover have "fb_shade f' y k = fb_shade f y k" if "y < GB_H" "y \<noteq> line" "k < GB_W" for y k
    proof -
      have k: "k div 4 < 40" using that by (simp add: GB_W_def less_mult_imp_div_less)
      have "y * 40 + k div 4 < line * 40 \<or> line * 40 + 40 \<le> y * 40 + k div 4"
      proof (cases "y < line")
        case True
        then have "Suc y * 40 \<le> line * 40" by (intro mult_le_mono1) simp
        with k show ?thesis by simp
      next
        case False
        then have "Suc line * 40 \<le> y * 40" using that(2) by (intro mult_le_mono1) simp
        then show ?thesis by simp
      qed
      then have "f' ! (y * GB_FB_STRIDE + k div 4) = f ! (y * GB_FB_STRIDE + k div 4)"
        using h by (auto simp: GB_FB_STRIDE_def GB_W_def)
      then show ?thesis by (simp add: fb_shade_def)
    qed
    ultimately show "fb_line line (\<lambda>k. r ! k) f f'" using h by (simp add: fb_line_def)
  qed
qed

lemma blit_line:
  assumes f: "length f = GB_W * GB_H" and c: "length c = GB_W" and line: "line < GB_H"
  shows "okp (mem_blit f (line * GB_W) c) (cf_line line (\<lambda>k. c ! k) f)"
proof -
  have e: "Suc line * GB_W \<le> GB_H * GB_W" using line by (intro mult_le_mono1) simp
  then obtain f' where f': "mem_blit f (line * GB_W) c = Some f'" "length f' = length f"
    using okp_mem_blit [of "line * GB_W" c f] f c by (auto simp: okp_iff mult.commute)
  have "f' ! (y * GB_W + k) = (if y = line then c ! k else f ! (y * GB_W + k))" if "y < GB_H" "k < GB_W" for y k
  proof -
    have "Suc y * GB_W \<le> GB_H * GB_W" using that(1) by (intro mult_le_mono1) simp
    then have in_f: "y * GB_W + k < length f" using that(2) f by (simp add: mult.commute)
    have "line * GB_W \<le> y * GB_W + k \<and> y * GB_W + k < line * GB_W + length c \<longleftrightarrow> y = line"
    proof
      assume a: "line * GB_W \<le> y * GB_W + k \<and> y * GB_W + k < line * GB_W + length c"
      have "(y * GB_W + k) div GB_W = y" using that(2) by (simp add: GB_W_def)
      moreover have "(y * GB_W + k) div GB_W = line"
        using a c by (intro div_nat_eqI) (simp_all add: mult.commute)
      ultimately show "y = line" by simp
    qed (use that c in simp)
    then show ?thesis using mem_blit_nth [OF f'(1) in_f] by auto
  qed
  with f' line show ?thesis by (simp add: cf_line_def)
qed

lemma store_line_ok:
  assumes m: "wf_bufs m" and l: "filled c l" and line: "line < GB_H"
    and col: "colorFramebuf m \<noteq> None \<Longrightarrow> c"
  shows "okp (store_line line l m) (\<lambda>m'. wf_bufs m' \<and>
    m' = m\<lparr>framebuf := framebuf m', colorFramebuf := colorFramebuf m'\<rparr> \<and>
    rel_option (fb_line line (\<lambda>k. the (row l ! k))) (framebuf m) (framebuf m') \<and>
    rel_option (cf_line line (\<lambda>k. the (colorRow l ! k))) (colorFramebuf m) (colorFramebuf m'))"
proof -
  have len: "length (row l) = GB_W" "length (colorRow l) = GB_W"
    using l by (simp_all add: filled_def wf_line_def)
  have row: "those (row l) = Some (map the (row l))"
    using l len by (intro those_Some) (auto simp: filled_def)
  have colr: "c \<Longrightarrow> those (colorRow l) = Some (map the (colorRow l))"
    using l len by (intro those_Some) (auto simp: filled_def)
  have 1: "okp (case colorFramebuf m of None \<Rightarrow> Some m
      | Some cf \<Rightarrow> those (colorRow l) \<bind> (\<lambda>c. mem_blit cf (line * GB_W) c \<bind>
          (\<lambda>cf. Some (m\<lparr>colorFramebuf := Some cf\<rparr>))))
    (\<lambda>m'. \<exists>cf. m' = m\<lparr>colorFramebuf := cf\<rparr> \<and>
       rel_option (cf_line line (\<lambda>k. the (colorRow l ! k))) (colorFramebuf m) cf)"
  proof (cases "colorFramebuf m")
    case None
    then show ?thesis by (auto intro: exI [of _ None])
  next
    case (Some cf)
    then have lc: "length cf = GB_W * GB_H" using m by (simp add: wf_bufs_def)
    have "okp (mem_blit cf (line * GB_W) (map the (colorRow l))) (cf_line line (\<lambda>k. map the (colorRow l) ! k) cf)"
      using len by (intro blit_line lc line) simp
    then obtain cf' where b: "mem_blit cf (line * GB_W) (map the (colorRow l)) = Some cf'"
        "cf_line line (\<lambda>k. map the (colorRow l) ! k) cf cf'"
      by (auto simp: okp_iff)
    from b(2) len have "cf_line line (\<lambda>k. the (colorRow l ! k)) cf cf'" by (simp add: cf_line_def)
    with b(1) Some colr [OF col] show ?thesis by (auto intro!: exI [of _ "Some cf'"])
  qed
  show ?thesis
    unfolding store_line_def
  proof (rule okp_bindI [OF 1])
    fix m1
    assume "\<exists>cf. m1 = m\<lparr>colorFramebuf := cf\<rparr> \<and>
       rel_option (cf_line line (\<lambda>k. the (colorRow l ! k))) (colorFramebuf m) cf"
    then obtain cf where m1: "m1 = m\<lparr>colorFramebuf := cf\<rparr>"
      and r1: "rel_option (cf_line line (\<lambda>k. the (colorRow l ! k))) (colorFramebuf m) cf" by blast
    have lcf: "cf = Some x \<Longrightarrow> length x = GB_W * GB_H" for x
      using r1 m by (cases "colorFramebuf m") (auto simp: cf_line_def wf_bufs_def)
    show "okp (case framebuf m1 of None \<Rightarrow> Some m1
      | Some f \<Rightarrow> those (row l) \<bind> (\<lambda>r. pack_row r (line * GB_FB_STRIDE) [0..<GB_W div 4] f \<bind>
          (\<lambda>f. Some (m1\<lparr>framebuf := Some f\<rparr>)))) (\<lambda>m'. wf_bufs m' \<and>
        m' = m\<lparr>framebuf := framebuf m', colorFramebuf := colorFramebuf m'\<rparr> \<and>
        rel_option (fb_line line (\<lambda>k. the (row l ! k))) (framebuf m) (framebuf m') \<and>
        rel_option (cf_line line (\<lambda>k. the (colorRow l ! k))) (colorFramebuf m) (colorFramebuf m'))"
    proof (cases "framebuf m")
      case None
      have "wf_bufs m1" using m lcf by (auto simp: m1 wf_bufs_def)
      then show ?thesis using None r1 by (simp add: m1)
    next
      case (Some f)
      then have lf: "length f = GB_FB_SIZE" using m by (simp add: wf_bufs_def)
      have "okp (pack_row (map the (row l)) (line * GB_FB_STRIDE) [0..<GB_W div 4] f)
          (fb_line line (\<lambda>k. map the (row l) ! k) f)"
        using len by (intro pack_line lf line) simp
      then obtain f' where p: "pack_row (map the (row l)) (line * GB_FB_STRIDE) [0..<GB_W div 4] f = Some f'"
          "fb_line line (\<lambda>k. map the (row l) ! k) f f'"
        by (auto simp: okp_iff)
      from p(2) len have q: "fb_line line (\<lambda>k. the (row l ! k)) f f'" by (simp add: fb_line_def)
      then have "length f' = GB_FB_SIZE" using lf by (simp add: fb_line_def)
      then have "wf_bufs (m\<lparr>colorFramebuf := cf, framebuf := Some f'\<rparr>)" using m lcf by (auto simp: wf_bufs_def)
      then show ?thesis using Some row p(1) q r1 by (simp add: m1)
    qed
  qed
qed

text \<open>
  A rendered line: the frame buffers hold the pixels \<open>line_shade\<close> and \<open>line_color\<close> on that line and
  are unchanged elsewhere; apart from them only the window's line counter changes.
\<close>

lemma renderLine_ok:
  fixes s :: "'snd gb" and line :: nat
  assumes wf: "wf_gb s" and line: "line < GB_H" and on: "lcdc (lcd s) AND 0x80 \<noteq> 0"
    and w: "0 \<le> windowLine (lcd s)" "windowLine (lcd s) < 256"
  shows "okp (renderLine line s) (\<lambda>s'. wf_gb s' \<and>
    rel_option (fb_line line (line_shade s line)) (framebuf (bufs s)) (framebuf (bufs s')) \<and>
    rel_option (cf_line line (line_color s line)) (colorFramebuf (bufs s)) (colorFramebuf (bufs s')) \<and>
    s' = s\<lparr>bufs := (bufs s)\<lparr>framebuf := framebuf (bufs s'), colorFramebuf := colorFramebuf (bufs s')\<rparr>,
           lcd := (lcd s)\<lparr>windowLine := windowLine (lcd s) + (if windowVisible line s then 1 else 0)\<rparr>\<rparr>)"
proof -
  have dec: "decode_palette s p = Some (shades_of s p)" "length (shades_of s p) = 4" for p
    using decode_palette_ok [OF wf, of p] by (auto simp: shades_of_def okp_iff)
  let ?bgEnd = "if windowVisible line s then (if wx (lcd s) < 7 then 0 else unat (wx (lcd s)) - 7) else GB_W"
  obtain l1 l2 where b: "draw_background s line (shades_of s (bgp (lcd s))) ?bgEnd (blank_line (isCgb (cgb s))) = Some l1"
    "(if windowVisible line s then draw_window s (shades_of s (bgp (lcd s))) l1 else Some l1) = Some l2"
    and d: "base_drawn s line l2"
    using draw_base_ok [OF wf w, of line] by (auto simp: okp_iff bind_eq_Some_conv)
  have f2: "filled (isCgb (cgb s)) l2" using d by (simp add: base_drawn_def)
  have bp: "bp_of l2 k = base_priority s line k" if "k < GB_W" for k
    using d that by (simp add: base_drawn_def bp_of_def)
  obtain l3 where o: "draw_objects s line (shades_of s (obp0 (lcd s))) (shades_of s (obp1 (lcd s))) l2 = Some l3"
    and ov: "overlay s (shades_of s (obp0 (lcd s))) (shades_of s (obp1 (lcd s))) (obj_pixel s line) l2 l3"
  proof -
    have "overlay s sh0 sh1 (obj_pixel s line) l2 l3" if
      "overlay s sh0 sh1 (\<lambda>k. if lcdc (lcd s) AND 0x02 \<noteq> 0
        then top_obj s (int line) (obj_height s) (bp_of l2) (line_sprites s (int line) (obj_height s)) k else None) l2 l3"
      for sh0 sh1 l3
      using that by (rule overlay_cong) (auto simp: obj_pixel_def intro: top_obj_cong simp: bp)
    with draw_objects_ok [OF wf dec(2) [of "obp0 (lcd s)"] dec(2) [of "obp1 (lcd s)"] f2, of line] that show thesis
      by (auto simp: okp_iff)
  qed
  have f3: "filled (isCgb (cgb s)) l3" using overlay_filled [OF ov f2] .
  have row: "the (row l3 ! k) = line_shade s line k" if "k < GB_W" for k
    using ov d that by (auto simp: overlay_def base_drawn_def line_shade_def split: option.split)
  have colr: "isCgb (cgb s) \<Longrightarrow> the (colorRow l3 ! k) = line_color s line k" if "k < GB_W" for k
    using ov d that by (auto simp: overlay_def base_drawn_def line_color_def split: option.split)
  have cg: "colorFramebuf (bufs s) \<noteq> None \<Longrightarrow> isCgb (cgb s)" using wf by (simp add: wf_gb_def)
  obtain m where st: "store_line line l3 (bufs s) = Some m" "wf_bufs m"
    and me: "m = (bufs s)\<lparr>framebuf := framebuf m, colorFramebuf := colorFramebuf m\<rparr>"
    and rf: "rel_option (fb_line line (\<lambda>k. the (row l3 ! k))) (framebuf (bufs s)) (framebuf m)"
    and rc: "rel_option (cf_line line (\<lambda>k. the (colorRow l3 ! k))) (colorFramebuf (bufs s)) (colorFramebuf m)"
    using store_line_ok [OF wf_gbD(3) [OF wf] f3 line cg] by (auto simp: okp_iff)
  have rf': "rel_option (fb_line line (line_shade s line)) (framebuf (bufs s)) (framebuf m)"
    using rf row by (auto simp: fb_line_def elim!: option.rel_mono_strong)
  have rc': "rel_option (cf_line line (line_color s line)) (colorFramebuf (bufs s)) (colorFramebuf m)"
    using rc colr cg by (cases "colorFramebuf (bufs s)"; cases "colorFramebuf m") (auto simp: cf_line_def)
  let ?s = "s\<lparr>bufs := m, lcd := (lcd s)\<lparr>windowLine := windowLine (lcd s) + (if windowVisible line s then 1 else 0)\<rparr>\<rparr>"
  have run: "renderLine line s = Some ?s"
    unfolding renderLine_def Let_def using on b o st(1) by (simp add: dec(1))
  have "sramPersistSize m = sramPersistSize (bufs s)" by (subst me) simp
  moreover have "(colorFramebuf m = None) = (colorFramebuf (bufs s) = None)"
    using rc by (cases "colorFramebuf (bufs s)"; cases "colorFramebuf m") auto
  ultimately have "wf_gb ?s" using wf st(2) by (simp add: wf_set_bufs)
  moreover have "?s = s\<lparr>bufs := (bufs s)\<lparr>framebuf := framebuf m, colorFramebuf := colorFramebuf m\<rparr>,
      lcd := (lcd s)\<lparr>windowLine := windowLine (lcd s) + (if windowVisible line s then 1 else 0)\<rparr>\<rparr>"
    by (subst me) (rule refl)
  ultimately show ?thesis using run rf' rc' by simp
qed

end
