(* ===== verification/Emu_Frame.thy ===== *)
theory Emu_Frame
  imports Emu_Cpu Emu_Timer Emu_Scanline
begin

text \<open>
  The frame scheduler: \<open>runFrame\<close> interleaves CPU steps, the timers and the PPU modes of every
  scanline until 70224 dots have elapsed.  Both loops are \<open>partial_function\<close>s, so that a frame
  that never ends would be \<open>None\<close>, like one that leaves a buffer; \<open>runFrame_total\<close> shows that
  neither happens.  The bound on the inner loop: an instruction costs at least four cycles unless
  it is an illegal opcode, and fewer than 65536 of these can follow one another.
\<close>

section \<open>The CPU loop\<close>

partial_function (option) cpu_run :: "int \<Rightarrow> int \<Rightarrow> 'snd gb \<Rightarrow> (int \<times> 'snd gb) option" where
  "cpu_run budget cycles s =
     (if cycles < budget \<and> \<not> lcdChanged (lcd s) then do {
        (c, s) \<leftarrow> cpu_step (budget - cycles) s;
        cpu_run budget (cycles + c) (updateTimer c s)
      } else Some (cycles, s))"

text \<open>\<open>runScanline\<close>, the older loop: a line's budget, doubled at double speed.\<close>

partial_function (option) scanline_run :: "int \<Rightarrow> int \<Rightarrow> 'snd gb \<Rightarrow> 'snd gb option" where
  "scanline_run budget cycles s =
     (if cycles < budget then do {
        (c, s) \<leftarrow> cpu_step 456 s;
        scanline_run budget (cycles + c) (updateTimer c s)
      } else Some s)"

definition runScanline :: "'snd gb \<Rightarrow> 'snd gb option" where
  "runScanline s = scanline_run (if doubleSpeed (cgb s) then 912 else 456) 0 s"

section \<open>The PPU modes of a line\<close>

definition enter_mode3 :: "'snd gb \<Rightarrow> 'snd gb" where
  "enter_mode3 s =
     (if unat (ly (lcd s)) < 144 \<and> ppuMode (lcd s) = 2 \<and> 80 \<le> ppuDots (lcd s)
      then checkStatInterrupt (s\<lparr>lcd := (lcd s)\<lparr>ppuMode := 3\<rparr>\<rparr>) else s)"

definition leave_mode3 :: "'snd gb \<Rightarrow> 'snd gb option" where
  "leave_mode3 s =
     (if unat (ly (lcd s)) < 144 \<and> ppuMode (lcd s) = 3 \<and> 252 \<le> ppuDots (lcd s) then do {
        s \<leftarrow> (if renderThisFrame (lcd s) \<and> \<not> lcdFirstFrame (lcd s) then renderLine (unat (ly (lcd s))) s
              else if windowVisible (unat (ly (lcd s))) s
              then Some (s\<lparr>lcd := (lcd s)\<lparr>windowLine := windowLine (lcd s) + 1\<rparr>\<rparr>)
              else Some s);
        Some (checkStatInterrupt (s\<lparr>lcd := (lcd s)\<lparr>ppuMode := 0\<rparr>\<rparr>))
      } else Some s)"

definition next_line :: "'snd gb \<Rightarrow> 'snd gb" where
  "next_line s =
     (if 456 \<le> ppuDots (lcd s) then
        (let s = s\<lparr>lcd := (lcd s)\<lparr>ppuDots := ppuDots (lcd s) - 456, ly := ly (lcd s) + 1\<rparr>\<rparr>;
             s = (if 154 \<le> ly (lcd s)
                  then s\<lparr>lcd := (lcd s)\<lparr>ly := 0, windowLine := 0, lcdFirstFrame := False\<rparr>\<rparr> else s);
             s = s\<lparr>lcd := (lcd s)\<lparr>ppuMode := (if ly (lcd s) < 144 then 2 else 1)\<rparr>\<rparr>;
             s = (if ly (lcd s) = 144 then s\<lparr>cpu := (cpu s)\<lparr>iflag := iflag (cpu s) OR 0x01\<rparr>\<rparr> else s)
         in checkStatInterrupt s)
      else s)"

section \<open>The frame\<close>

text \<open>One iteration of the outer loop: up to the next PPU event.\<close>

definition run_slice :: "int \<Rightarrow> 'snd gb \<Rightarrow> (int \<times> 'snd gb) option" where
  "run_slice elapsed s =
     (let enabled = (lcdc (lcd s) AND 0x80 \<noteq> 0);
          speed = (if doubleSpeed (cgb s) then 2 else 1);
          boundary = (if unat (ly (lcd s)) < 144 \<and> ppuDots (lcd s) < 80 then 80
                      else if unat (ly (lcd s)) < 144 \<and> ppuDots (lcd s) < 252 then 252 else 456);
          dots = (if enabled then boundary - ppuDots (lcd s) else 456);
          dots = (if 70224 - elapsed < dots then 70224 - elapsed else dots);
          budget = dots * speed
      in do {
        (cycles, s) \<leftarrow> cpu_run budget 0 (s\<lparr>lcd := (lcd s)\<lparr>lcdChanged := False\<rparr>\<rparr>);
        let elapsed = elapsed + cycles div speed;
        (if \<not> enabled \<or> lcdChanged (lcd s) then Some (elapsed, s)
         else do {
           let s = s\<lparr>lcd := (lcd s)\<lparr>ppuDots := ppuDots (lcd s) + cycles div speed\<rparr>\<rparr>;
           s \<leftarrow> leave_mode3 (enter_mode3 s);
           Some (elapsed, next_line s)
         })
      })"

partial_function (option) frame_loop :: "int \<Rightarrow> 'snd gb \<Rightarrow> (int \<times> 'snd gb) option" where
  "frame_loop elapsed s =
     (if elapsed < 70224 then do {
        (elapsed, s) \<leftarrow> run_slice elapsed s;
        frame_loop elapsed s
      } else Some (elapsed, s))"

definition runFrame :: "'snd gb \<Rightarrow> 'snd gb option" where
  "runFrame s = do {
     (elapsed, s) \<leftarrow> frame_loop (frameOvershoot (lcd s)) s;
     Some (s\<lparr>lcd := (lcd s)\<lparr>frameOvershoot := elapsed - 70224\<rparr>\<rparr>)
   }"

text \<open>\<open>runFrames\<close>: only the last of the \<open>n\<close> frames draws.\<close>

fun run_frames_from :: "nat \<Rightarrow> nat list \<Rightarrow> 'snd gb \<Rightarrow> 'snd gb option" where
  "run_frames_from n [] s = Some s"
| "run_frames_from n (i # is) s = do {
     s \<leftarrow> runFrame (s\<lparr>lcd := (lcd s)\<lparr>renderThisFrame := (i + 1 = n)\<rparr>\<rparr>);
     run_frames_from n is s
   }"

definition runFrames :: "nat \<Rightarrow> 'snd gb \<Rightarrow> 'snd gb option" where
  "runFrames n s = run_frames_from n [0..<n] s"

section \<open>The CPU loop ends\<close>

definition sys_ok :: "'snd gb \<Rightarrow> bool" where
  "sys_ok s \<longleftrightarrow> machine_ok s \<and> f_clean (cpu s)"

lemma sys_ok_step:
  assumes "sys_ok s"
  shows "okp (cpu_step n s) (\<lambda>(c, t). 0 \<le> c \<and> (c \<le> 36 \<or> c \<le> n) \<and> sys_ok t \<and>
    (lcdChanged (lcd t) \<or> lcd_pos (lcd s) = lcd_pos (lcd t)) \<and> cart_of t = cart_of s)"
proof -
  have wf: "wf_gb s" and f: "f_clean (cpu s)" using assms by (simp_all add: sys_ok_def machine_ok_def)
  have "okp (cpu_step n s) (\<lambda>(c, t). 0 \<le> c \<and> (c \<le> 36 \<or> c \<le> n) \<and> machine_ok t \<and> f_clean (cpu t))"
    using assms by (intro machine.cpu_step_keeps) (auto simp: sys_ok_def)
  moreover have "okp (cpu_step n s) (\<lambda>(c, t). 0 \<le> c \<and> (c \<le> 36 \<or> c \<le> n) \<and> at_pos (lcd_pos (lcd s)) t \<and> f_clean (cpu t))"
    using wf f by (intro ppu.cpu_step_keeps) (auto simp: at_pos_def)
  moreover have "okp (cpu_step n s) (\<lambda>(c, t). 0 \<le> c \<and> (c \<le> 36 \<or> c \<le> n) \<and> has_cart (cart_of s) t \<and> f_clean (cpu t))"
    using wf f by (intro cart.cpu_step_keeps) (auto simp: has_cart_def)
  ultimately show ?thesis by (auto simp: okp_iff sys_ok_def at_pos_def has_cart_def)
qed

lemma updateTimer_frame:
  assumes "sys_ok s" "0 \<le> c" "c \<le> 60000"
  shows "sys_ok (updateTimer c s)" "lcd (updateTimer c s) = lcd s" "cart_of (updateTimer c s) = cart_of s"
    "reg_pc (cpu (updateTimer c s)) = reg_pc (cpu s)" "haltBug (cpu (updateTimer c s)) = haltBug (cpu s)"
proof -
  have wf: "wf_gb s" using assms(1) by (simp add: sys_ok_def machine_ok_def)
  note e = updateTimer_parts(7) [OF wf_gbD(4) [OF wf] assms(2,3)]
  have "cpu (updateTimer c s) = (cpu s)\<lparr>iflag := iflag (cpu (updateTimer c s))\<rparr>" by (subst e) simp
  then have "core_regs (cpu (updateTimer c s)) = core_regs (cpu s)" by (metis core_regs_irq(2))
  then show "reg_pc (cpu (updateTimer c s)) = reg_pc (cpu s)" "haltBug (cpu (updateTimer c s)) = haltBug (cpu s)"
    by (auto dest: core_regsD)
  show l: "lcd (updateTimer c s) = lcd s" "cart_of (updateTimer c s) = cart_of s"
    by (subst e, simp)+
  have "f_clean (cpu (updateTimer c s))" using assms(1) by (subst e) (simp add: sys_ok_def f_clean_def)
  then show "sys_ok (updateTimer c s)"
    using assms(1) updateTimer_wf [OF wf assms(2,3)] by (simp add: sys_ok_def machine_ok_def l)
qed

text \<open>The distance, in illegal opcodes, to the unusable area.\<close>

definition zero_run :: "cpu_regs \<Rightarrow> nat" where
  "zero_run r = 2 * unat (0xFEA0 - reg_pc r) + (if haltBug r then 1 else 0)"

lemma zero_run_step:
  assumes "wf_gb s" "f_clean (cpu s)" "cpu_step n s = Some (0, t)"
  shows "zero_run (cpu t) < zero_run (cpu s)"
proof -
  note z = zero_cost_step [OF assms]
  have ne: "0xFEA0 - reg_pc (cpu s) \<noteq> 0" using z(3) by (metis eq_iff_diff_eq_0)
  have "0xFEA0 - (reg_pc (cpu s) + 1) = 0xFEA0 - reg_pc (cpu s) - 1" by simp
  then have "unat (0xFEA0 - (reg_pc (cpu s) + 1)) < unat (0xFEA0 - reg_pc (cpu s))"
    using ne by (metis measure_unat word_less_nat_alt)
  then show ?thesis using z(1,2) by (auto simp: zero_run_def)
qed

text \<open>What the CPU loop delivers when it has run from \<open>s\<close>.\<close>

definition ran :: "int \<Rightarrow> int \<Rightarrow> 'snd gb \<Rightarrow> int \<times> 'snd gb \<Rightarrow> bool" where
  "ran budget cycles s = (\<lambda>(c, t). sys_ok t \<and> cart_of t = cart_of s \<and> cycles \<le> c \<and>
     (c < budget + 36 \<or> c = cycles) \<and> (\<not> lcdChanged (lcd t) \<longrightarrow> budget \<le> c) \<and>
     (lcdChanged (lcd t) \<and> \<not> lcdChanged (lcd s) \<longrightarrow> cycles + 4 \<le> c) \<and>
     (lcdChanged (lcd s) \<longrightarrow> lcdChanged (lcd t)) \<and>
     (lcdChanged (lcd t) \<or> lcd_pos (lcd t) = lcd_pos (lcd s)))"

lemma cpu_run_ok:
  assumes "sys_ok s" "budget - cycles \<le> 60000" "0 \<le> cycles"
  shows "okp (cpu_run budget cycles s) (ran budget cycles s)"
  using assms
proof (induction "(nat (budget - cycles), zero_run (cpu s))" arbitrary: cycles s
    rule: wf_induct_rule [OF wf_lex_prod [OF wf_less_than wf_less_than]])
  case (1 cycles s)
  show ?case
  proof (cases "cycles < budget \<and> \<not> lcdChanged (lcd s)")
    case False
    then show ?thesis using 1 by (subst cpu_run.simps) (auto simp: ran_def)
  next
    case True
    have ok: "wf_gb s" "f_clean (cpu s)" using 1(2) by (simp_all add: sys_ok_def machine_ok_def)
    obtain c t where st: "cpu_step (budget - cycles) s = Some (c, t)" "0 \<le> c" "c \<le> 36 \<or> c \<le> budget - cycles"
      "sys_ok t" "lcdChanged (lcd t) \<or> lcd_pos (lcd s) = lcd_pos (lcd t)" "cart_of t = cart_of s"
      using sys_ok_step [OF 1(2), of "budget - cycles"] by (auto simp: okp_iff)
    have c6: "c \<le> 60000" using st(3) 1(3) by auto
    let ?u = "updateTimer c t"
    note u = updateTimer_frame [OF st(4) st(2) c6]
    have less: "((nat (budget - (cycles + c)), zero_run (cpu ?u)), (nat (budget - cycles), zero_run (cpu s)))
        \<in> less_than <*lex*> less_than"
    proof (cases "c = 0")
      case True
      have "zero_run (cpu ?u) = zero_run (cpu t)" by (simp add: zero_run_def u)
      with True zero_run_step [OF ok] st(1) show ?thesis by auto
    next
      case False
      with st(2) \<open>cycles < budget \<and> _\<close> show ?thesis by auto
    qed
    have "okp (cpu_run budget (cycles + c) ?u) (ran budget (cycles + c) ?u)"
      using 1(1) [OF less u(1)] 1(3,4) st(2) by simp
    then have "okp (cpu_run budget (cycles + c) ?u) (ran budget cycles s)"
    proof (rule okp_mono)
      fix r
      assume r: "ran budget (cycles + c) ?u r"
      obtain c' t' where e: "r = (c', t')" by fastforce
      have pos: "4 \<le> c" if "lcdChanged (lcd t)"
      proof (rule ccontr)
        assume "\<not> 4 \<le> c"
        then have "cpu_step (budget - cycles) s = Some (0, t)" using st(1) cpu_step_cost [OF ok st(1)] by simp
        from zero_cost_step(4) [OF ok this] that True show False by simp
      qed
      show "ran budget cycles s r"
        using r st(2,3,5,6) pos u(2,3) True by (auto simp: ran_def e)
    qed
    then show ?thesis
      using True st(1) by (subst cpu_run.simps) simp
  qed
qed

section \<open>The frame ends\<close>

text \<open>The frame loop keeps the machine well-formed, and the renderer's dependence on \<open>lcd\<close> is confined
  to the PPU record.\<close>

lemma sys_ok_lcd:
  "sys_ok s \<Longrightarrow> wf_ppu l \<Longrightarrow> sys_ok (s\<lparr>lcd := l\<rparr>)"
  by (simp add: sys_ok_def machine_ok_def)

lemma checkStat_sys: "sys_ok (checkStatInterrupt s) = sys_ok s"
  by (simp add: sys_ok_def machine_ok_def checkStatInterrupt_def Let_def wf_ppu_def f_clean_def)

lemma checkStat_lcd:
  "lcd_pos (lcd (checkStatInterrupt s)) = lcd_pos (lcd s)" "cart_of (checkStatInterrupt s) = cart_of s"
  by (simp_all add: checkStatInterrupt_def Let_def lcd_pos_def)

lemmas checkStat_pos = checkStat_lcd(1) [unfolded lcd_pos_def prod.inject]

text \<open>Between the mode changes the position may exceed the line: \<open>wf_mid\<close> allows up to 912 dots.\<close>

definition wf_mid :: "lcd_regs \<Rightarrow> bool" where
  "wf_mid l \<longleftrightarrow> unat (ly l) < 154 \<and> 0 \<le> ppuDots l \<and> ppuDots l < 912 \<and> ppuMode l \<le> 3 \<and>
     0 \<le> windowLine l \<and> windowLine l \<le> uint (ly l) + (if ppuMode l = 0 then 1 else 0)"

definition mid_ok :: "'snd gb \<Rightarrow> bool" where
  "mid_ok s \<longleftrightarrow> wf_gb s \<and> f_clean (cpu s) \<and> wf_mid (lcd s)"

lemma checkStat_mid: "mid_ok (checkStatInterrupt s) = mid_ok s"
  by (simp add: mid_ok_def checkStatInterrupt_def Let_def wf_mid_def f_clean_def)

lemma enter_mode3_ok:
  "mid_ok s \<Longrightarrow> mid_ok (enter_mode3 s) \<and> cart_of (enter_mode3 s) = cart_of s"
  by (auto simp: enter_mode3_def checkStat_mid checkStat_lcd) (auto simp: mid_ok_def wf_mid_def)

lemma leave_mode3_ok:
  assumes "mid_ok s"
  shows "okp (leave_mode3 s) (\<lambda>t. mid_ok t \<and> cart_of t = cart_of s)"
proof (cases "unat (ly (lcd s)) < 144 \<and> ppuMode (lcd s) = 3 \<and> 252 \<le> ppuDots (lcd s)")
  case False
  then show ?thesis using assms by (auto simp: leave_mode3_def)
next
  case True
  let ?line = "unat (ly (lcd s))"
  have wf: "wf_gb s" and m: "wf_mid (lcd s)" "f_clean (cpu s)" using assms by (simp_all add: mid_ok_def)
  have w: "0 \<le> windowLine (lcd s)" "windowLine (lcd s) \<le> int ?line"
    using m(1) True by (auto simp: wf_mid_def)
  then have w256: "windowLine (lcd s) < 256" using True by linarith
  text \<open>Whatever is drawn, the state is \<open>s\<close> with new frame buffers and the window counter moved.\<close>
  let ?P = "\<lambda>t. wf_gb t \<and> f_clean (cpu t) \<and> cart_of t = cart_of s \<and>
      (\<exists>n. (n = 0 \<or> n = 1) \<and> lcd t = (lcd s)\<lparr>windowLine := windowLine (lcd s) + n\<rparr>)"
  have "okp (if renderThisFrame (lcd s) \<and> \<not> lcdFirstFrame (lcd s) then renderLine ?line s
        else if windowVisible ?line s then Some (s\<lparr>lcd := (lcd s)\<lparr>windowLine := windowLine (lcd s) + 1\<rparr>\<rparr>)
        else Some s) ?P"
  proof (intro okp_if)
    show "okp (renderLine ?line s) ?P"
    proof (cases "lcdc (lcd s) AND 0x80 = 0")
      case True
      then show ?thesis using wf m by (auto simp: renderLine_def intro: exI [of _ 0])
    next
      case False
      have "?line < GB_H" using True by (simp add: GB_H_def)
      from renderLine_ok [OF wf this False w(1) w256] show ?thesis
      proof (rule okp_mono)
        fix t
        assume t: "wf_gb t \<and>
          rel_option (fb_line ?line (line_shade s ?line)) (framebuf (bufs s)) (framebuf (bufs t)) \<and>
          rel_option (cf_line ?line (line_color s ?line)) (colorFramebuf (bufs s)) (colorFramebuf (bufs t)) \<and>
          t = s\<lparr>bufs := (bufs s)\<lparr>framebuf := framebuf (bufs t), colorFramebuf := colorFramebuf (bufs t)\<rparr>,
             lcd := (lcd s)\<lparr>windowLine := windowLine (lcd s) + (if windowVisible ?line s then 1 else 0)\<rparr>\<rparr>"
        then obtain f c where "t = s\<lparr>bufs := (bufs s)\<lparr>framebuf := f, colorFramebuf := c\<rparr>,
             lcd := (lcd s)\<lparr>windowLine := windowLine (lcd s) + (if windowVisible ?line s then 1 else 0)\<rparr>\<rparr>"
          by blast
        with t m(2) show "?P t" by (auto simp: cart_of_def)
      qed
    qed
  qed (use wf m in \<open>auto intro: exI [of _ 1] exI [of _ 0]\<close>)
  then obtain t n where t: "(if renderThisFrame (lcd s) \<and> \<not> lcdFirstFrame (lcd s) then renderLine ?line s
        else if windowVisible ?line s then Some (s\<lparr>lcd := (lcd s)\<lparr>windowLine := windowLine (lcd s) + 1\<rparr>\<rparr>)
        else Some s) = Some t" "wf_gb t" "f_clean (cpu t)" "cart_of t = cart_of s" "n = 0 \<or> n = 1"
      "lcd t = (lcd s)\<lparr>windowLine := windowLine (lcd s) + n\<rparr>"
    by (auto simp: okp_iff)
  have "wf_mid ((lcd t)\<lparr>ppuMode := 0\<rparr>)"
    using m(1) w(2) t(5) by (auto simp: wf_mid_def t(6))
  then have "mid_ok (t\<lparr>lcd := (lcd t)\<lparr>ppuMode := 0\<rparr>\<rparr>)" using t(2,3) by (simp add: mid_ok_def)
  then show ?thesis
    unfolding leave_mode3_def if_P [OF True] t(1) by (simp add: checkStat_mid checkStat_lcd t(4))
qed

lemma next_line_ok:
  assumes "mid_ok s"
  shows "sys_ok (next_line s) \<and> cart_of (next_line s) = cart_of s"
proof (cases "456 \<le> ppuDots (lcd s)")
  case False
  then show ?thesis using assms by (simp add: next_line_def mid_ok_def sys_ok_def machine_ok_def wf_mid_def wf_ppu_def)
next
  case True
  have m: "wf_gb s" "f_clean (cpu s)" "wf_mid (lcd s)" using assms by (simp_all add: mid_ok_def)
  have u: "unat (ly (lcd s) + 1) = unat (ly (lcd s)) + 1"
    using m(3) by (simp add: wf_mid_def unat_word_ariths take_bit_eq_mod)
  have ui: "uint (ly (lcd s) + 1) = uint (ly (lcd s)) + 1" using u by (metis of_nat_1 of_nat_add uint_nat)
  show ?thesis
    using m True u ui
    unfolding next_line_def Let_def
    by (auto simp: checkStat_sys checkStat_lcd)
      (auto simp: sys_ok_def machine_ok_def f_clean_def wf_mid_def wf_ppu_def word_le_nat_alt split: if_splits)
qed

text \<open>A slice keeps the machine well-formed and makes progress.\<close>

lemma run_slice_ok:
  assumes ok: "sys_ok s" and e: "elapsed < 70224"
  shows "okp (run_slice elapsed s) (\<lambda>(e', t). sys_ok t \<and> cart_of t = cart_of s \<and> elapsed < e' \<and> e' < 70260)"
proof -
  define speed :: int where "speed = (if doubleSpeed (cgb s) then 2 else 1)"
  define boundary :: int where "boundary = (if unat (ly (lcd s)) < 144 \<and> ppuDots (lcd s) < 80 then 80
      else if unat (ly (lcd s)) < 144 \<and> ppuDots (lcd s) < 252 then 252 else 456)"
  define d0 where "d0 = (if lcdc (lcd s) AND 0x80 \<noteq> 0 then boundary - ppuDots (lcd s) else 456)"
  define dots where "dots = (if 70224 - elapsed < d0 then 70224 - elapsed else d0)"
  have ppu: "wf_ppu (lcd s)" using ok by (simp add: sys_ok_def machine_ok_def)
  have sp: "speed = 1 \<or> speed = 2" by (simp add: speed_def)
  have d0: "0 < d0" "d0 \<le> 456" "lcdc (lcd s) AND 0x80 \<noteq> 0 \<Longrightarrow> ppuDots (lcd s) + d0 \<le> 456"
    using ppu by (auto simp: d0_def boundary_def wf_ppu_def)
  have dots: "0 < dots" "dots \<le> 456" "dots \<le> 70224 - elapsed"
    "lcdc (lcd s) AND 0x80 \<noteq> 0 \<Longrightarrow> ppuDots (lcd s) + dots \<le> 456"
    using d0 e by (auto simp: dots_def)
  let ?s = "s\<lparr>lcd := (lcd s)\<lparr>lcdChanged := False\<rparr>\<rparr>"
  have s': "sys_ok ?s" "lcd_pos (lcd ?s) = lcd_pos (lcd s)" "\<not> lcdChanged (lcd ?s)" "cart_of ?s = cart_of s"
    using ok by (auto simp: sys_ok_def machine_ok_def wf_ppu_def lcd_pos_def)
  have b: "dots * speed - 0 \<le> 60000" using dots(2) sp by auto
  obtain c t where run: "cpu_run (dots * speed) 0 ?s = Some (c, t)" and r: "ran (dots * speed) 0 ?s (c, t)"
    using cpu_run_ok [OF s'(1) b order_refl] by (auto simp: okp_iff)
  have pos: "0 < dots * speed" using dots(1) sp by auto
  have q: "0 < c div speed" "c div speed < dots + 36"
  proof -
    have "4 \<le> c \<or> dots * speed \<le> c"
      and less: "c < dots * speed + 36 \<or> c = 0"
      using r s'(3) by (auto simp: ran_def)
    then have "2 \<le> c \<or> (speed = 1 \<and> 1 \<le> c)" using dots(1) sp by auto
    then show "0 < c div speed" using sp by auto
    have "c < dots * speed + 36" using less pos by auto
    then show "c div speed < dots + 36" using sp by auto
  qed
  have t: "sys_ok t" "cart_of t = cart_of s"
    and unchanged: "\<not> lcdChanged (lcd t) \<Longrightarrow> lcd_pos (lcd t) = lcd_pos (lcd s)"
    using r s'(2,4) by (auto simp: ran_def)
  let ?e = "elapsed + c div speed"
  let ?t = "t\<lparr>lcd := (lcd t)\<lparr>ppuDots := ppuDots (lcd t) + c div speed\<rparr>\<rparr>"
  have e': "elapsed < ?e \<and> ?e < 70260" using q dots(3) by auto
  have unfold: "run_slice elapsed s =
      (if lcdc (lcd s) AND 0x80 = 0 \<or> lcdChanged (lcd t) then Some (?e, t)
       else do { u \<leftarrow> leave_mode3 (enter_mode3 ?t); Some (?e, next_line u) })"
    unfolding run_slice_def Let_def speed_def [symmetric] boundary_def [symmetric]
    unfolding d0_def [symmetric]
    unfolding dots_def [symmetric] run
    by simp
  show ?thesis
  proof (cases "lcdc (lcd s) AND 0x80 = 0 \<or> lcdChanged (lcd t)")
    case True
    then show ?thesis using t e' by (simp add: unfold)
  next
    case False
    then have p: "lcd_pos (lcd t) = lcd_pos (lcd s)" using unchanged by simp
    have "mid_ok ?t"
      using t(1) p dots(2) dots(4) q False ppu
      by (auto simp: sys_ok_def machine_ok_def mid_ok_def wf_mid_def wf_ppu_def lcd_pos_def f_clean_def)
    from enter_mode3_ok [OF this] have en: "mid_ok (enter_mode3 ?t)" "cart_of (enter_mode3 ?t) = cart_of s"
      using t(2) by simp_all
    obtain u where u: "leave_mode3 (enter_mode3 ?t) = Some u" "mid_ok u" "cart_of u = cart_of s"
      using leave_mode3_ok [OF en(1)] en(2) by (auto simp: okp_iff)
    show ?thesis using False u(1) next_line_ok [OF u(2)] u(3) e' by (simp add: unfold)
  qed
qed

lemma frame_loop_ok:
  assumes "sys_ok s" "elapsed < 70260"
  shows "okp (frame_loop elapsed s) (\<lambda>(e', t). sys_ok t \<and> cart_of t = cart_of s \<and> 70224 \<le> e' \<and> e' < 70260)"
  using assms
proof (induction "nat (70224 - elapsed)" arbitrary: elapsed s rule: less_induct)
  case less
  show ?case
  proof (cases "elapsed < 70224")
    case False
    with less show ?thesis by (subst frame_loop.simps) simp
  next
    case True
    obtain e' t where r: "run_slice elapsed s = Some (e', t)" "sys_ok t" "cart_of t = cart_of s" "elapsed < e'" "e' < 70260"
      using run_slice_ok [OF less(2) True] by (auto simp: okp_iff)
    have "okp (frame_loop e' t) (\<lambda>(e', u). sys_ok u \<and> cart_of u = cart_of t \<and> 70224 \<le> e' \<and> e' < 70260)"
      using True r by (intro less(1)) auto
    then show ?thesis using True r(1,3) by (subst frame_loop.simps) simp
  qed
qed

text \<open>What a frame starts and ends with: a well-formed machine whose overshoot is below the cost of
  the longest instruction.\<close>

definition frame_ok :: "'snd gb \<Rightarrow> bool" where
  "frame_ok s \<longleftrightarrow> sys_ok s \<and> 0 \<le> frameOvershoot (lcd s) \<and> frameOvershoot (lcd s) < 36"

lemma runFrame_ok:
  assumes "frame_ok s"
  shows "okp (runFrame s) (\<lambda>t. frame_ok t \<and> cart_of t = cart_of s)"
proof -
  have "sys_ok s" "frameOvershoot (lcd s) < 70260" using assms by (auto simp: frame_ok_def)
  from frame_loop_ok [OF this] show ?thesis
    unfolding runFrame_def
    by (auto simp: okp_iff frame_ok_def sys_ok_def machine_ok_def wf_ppu_def)
qed

lemma run_frames_from_ok:
  assumes "frame_ok s"
  shows "okp (run_frames_from n is s) (\<lambda>t. frame_ok t \<and> cart_of t = cart_of s)"
  using assms
proof (induction "is" arbitrary: s)
  case Nil
  then show ?case by simp
next
  case (Cons i "is")
  define s1 where "s1 = s\<lparr>lcd := (lcd s)\<lparr>renderThisFrame := (i + 1 = n)\<rparr>\<rparr>"
  have "frame_ok s1" "cart_of s1 = cart_of s"
    using Cons(2) by (auto simp: s1_def frame_ok_def sys_ok_def machine_ok_def wf_ppu_def)
  with runFrame_ok [of s1] obtain t where t: "runFrame s1 = Some t" "frame_ok t" "cart_of t = cart_of s"
    by (auto simp: okp_iff)
  from Cons(1) [OF t(2)] t(3) show ?case by (simp add: s1_def [symmetric] t(1) del: One_nat_def)
qed

lemma runFrames_ok: "frame_ok s \<Longrightarrow> okp (runFrames n s) (\<lambda>t. frame_ok t \<and> cart_of t = cart_of s)"
  by (simp add: runFrames_def run_frames_from_ok)

end
