(* ===== verification/Emu_Setup.thy ===== *)
theory Emu_Setup
  imports Emu_Frame
begin

text \<open>
  Construction of \<open>GBEmulator\<close>: member initialisers, \<open>loadRom\<close>, \<open>init\<close>, \<open>reset\<close>, and the
  settings made from outside (input, theme, colour mode, bank cache).  A buffer not yet allocated
  (a null \<open>vram\<close>, \<open>wram\<close>, \<open>sramData\<close>, \<open>romBank0_\<close>) is the empty list.  \<open>malloc\<close> is a
  parameter: whether the \<open>i\<close>-th allocation succeeds, and what the block holds before it is written.
\<close>

record heap =
  heap_ok :: "nat \<Rightarrow> bool"
  heap_junk :: "nat \<Rightarrow> nat \<Rightarrow> u8"

definition malloc :: "heap \<Rightarrow> nat \<Rightarrow> nat \<Rightarrow> u8 list option" where
  "malloc h i n = (if heap_ok h i then Some (map (heap_junk h i) [0..<n]) else None)"

text \<open>\<open>if (!p) p = malloc(n)\<close> for a buffer whose null pointer is the empty list.\<close>

definition malloc_if_null :: "heap \<Rightarrow> nat \<Rightarrow> nat \<Rightarrow> u8 list \<Rightarrow> u8 list" where
  "malloc_if_null h i n p =
     (if p = [] then (case malloc h i n of None \<Rightarrow> [] | Some b \<Rightarrow> b) else p)"

section \<open>The fresh object\<close>

text \<open>\<open>new GBEmulator\<close>: the members without an initialiser hold the junk \<open>c\<close>, \<open>l\<close> and \<open>sr\<close>; the sound
  context is null, represented by any value, with no hook that could read it.\<close>

definition new_GBEmulator :: "cpu_regs \<Rightarrow> lcd_regs \<Rightarrow> u8 list \<Rightarrow> (nat \<Rightarrow> u32) \<Rightarrow> 'snd \<Rightarrow> 'snd gb" where
  "new_GBEmulator c l sr clock ctx =
     \<lparr>cpu = c\<lparr>ime := False, halted := False, haltBug := False, eiPending := False, ie := 0, iflag := 0\<rparr>,
      lcd = l\<lparr>ppuMode := 0, ppuDots := 0, frameOvershoot := 0, lcdChanged := False, lcdFirstFrame := False,
              renderThisFrame := True, windowLine := 0, prevStatLine := False\<rparr>,
      timer = \<lparr>tima = 0, tma = 0, tac = 0, timerCounter = 0, divCounter = 0, divReg = 0\<rparr>,
      joy = \<lparr>joyDpad = 0x0F, joyButtons = 0x0F, joypadSelect = 0, prevInputButtons = 0, sbReg = 0xFF, scReg = 0x7E\<rparr>,
      mbc = \<lparr>mbcType = MBC_MBC3, romBank = 1, ramBank = 0, ramEnabled = False, mbc1Mode = 0, mbc1Bank2 = 0\<rparr>,
      rom = \<lparr>romData = None, romSize = 0, romBankCount = 0, romInRam = False, mapped0 = None, mapped1 = None,
             romBank0 = [], bankCache = [], cacheSlots = 0, cacheMap = [], cacheNextSlot = 0,
             romIoFailed = False, pokemonRedPatch = False, gbPatchEnabled = False,
             fileAttached = False, fileLength = 0, filePosition = 0,
             romIo = (\<lambda>_ _ _. (False, \<lambda>_. 0)), romIoCalls = 0\<rparr>,
      rtc = \<lparr>rtcSec = 0, rtcMin = 0, rtcHour = 0, rtcDay = 0, rtcDayHi = 0, rtcLatched = replicate 5 0,
             rtcLatchPrev = False, rtcLastTickMs = 0, millis_at = clock, millis_calls = 0\<rparr>,
      cgb = \<lparr>isCgb = False, vram1 = None, wramExtra = None, vramBank = 0, wramBank = 1, key1 = 0,
             doubleSpeed = False, bcpsReg = 0, ocpsReg = 0, bgPalette = replicate 64 0,
             objPalette = replicate 64 0, hdma1 = 0, hdma2 = 0, hdma3 = 0, hdma4 = 0, hdma5 = 0xFF\<rparr>,
      bufs = \<lparr>framebuf = None, colorFramebuf = None, vram = [], wram = [], oam = replicate 0xA0 0,
              hram = replicate 0x80 0, sramData = [], sramSize = 1, sramPersistSize = 0, sramDirty = False,
              soundRegs = sr\<rparr>,
      cheats = [], shadeRemap = [0, 1, 2, 3],
      soundContext = ctx, soundWrite = None, soundRead = None\<rparr>"

section \<open>Settings\<close>

datatype ShadeTheme = SHADE_DEFAULT | SHADE_HIGH_CONTRAST | SHADE_INVERTED | SHADE_LIGHT

fun theme_remap :: "ShadeTheme \<Rightarrow> u8 list" where
  "theme_remap SHADE_DEFAULT = [0, 1, 2, 3]"
| "theme_remap SHADE_HIGH_CONTRAST = [0, 0, 3, 3]"
| "theme_remap SHADE_INVERTED = [3, 2, 1, 0]"
| "theme_remap SHADE_LIGHT = [0, 0, 1, 3]"

definition setShadeTheme :: "ShadeTheme \<Rightarrow> 'snd gb \<Rightarrow> 'snd gb" where
  "setShadeTheme t s = s\<lparr>shadeRemap := theme_remap t\<rparr>"

definition cgbPaletteToShade :: "u8 list \<Rightarrow> nat \<Rightarrow> u8 option" where
  "cgbPaletteToShade pal colorIdx = do {
     lo \<leftarrow> mem_get pal (colorIdx * 2);
     hi \<leftarrow> mem_get pal (colorIdx * 2 + 1);
     let rgb = w16 hi lo;
     let r = uint (rgb AND 0x1F);
     let g = uint (drop_bit 5 rgb AND 0x1F);
     let b = uint (drop_bit 10 rgb AND 0x1F);
     let lum = (306 * r + 601 * g + 117 * b) div 1024;
     Some (if lum < 8 then 0 else if lum < 16 then 1 else if lum < 24 then 2 else 3)
   }"

definition enableCgbMode :: "u8 list \<Rightarrow> u8 list \<Rightarrow> 'snd gb \<Rightarrow> 'snd gb" where
  "enableCgbMode vram1Buf wramExtraBuf s =
     s\<lparr>cgb := (cgb s)\<lparr>isCgb := True,
         vram1 := Some (replicate 0x2000 0 @ drop 0x2000 vram1Buf),
         wramExtra := Some (replicate 0x6000 0 @ drop 0x6000 wramExtraBuf)\<rparr>\<rparr>"

definition setupBankCache :: "u8 list \<Rightarrow> u8 list \<Rightarrow> nat \<Rightarrow> int list \<Rightarrow> 'snd gb \<Rightarrow> 'snd gb" where
  "setupBankCache bank0 cache slots m s =
     s\<lparr>rom := (rom s)\<lparr>romBank0 := bank0, bankCache := cache, cacheSlots := slots, cacheMap := m, cacheNextSlot := 0\<rparr>\<rparr>"

text \<open>\<open>FsFile::attachRom\<close> on \<open>romFile_\<close>.\<close>

definition attachRom :: "(nat \<Rightarrow> nat \<Rightarrow> nat \<Rightarrow> bool \<times> (nat \<Rightarrow> u8)) \<Rightarrow> nat \<Rightarrow> 'snd gb \<Rightarrow> bool \<times> 'snd gb" where
  "attachRom read len s =
     (if len = 0 then (False, s\<lparr>rom := (rom s)\<lparr>fileAttached := False\<rparr>\<rparr>)
      else (True, s\<lparr>rom := (rom s)\<lparr>fileAttached := True, romIo := read, fileLength := len, filePosition := 0\<rparr>\<rparr>))"

text \<open>\<open>setInput\<close>: the button mask is \<open>INPUT_*\<close>, the joypad lines are active low.\<close>

definition line_low :: "u8 \<Rightarrow> u8 \<Rightarrow> u8 \<Rightarrow> u8 \<Rightarrow> u8" where
  "line_low buttons input line v = (if buttons AND input \<noteq> 0 then v AND NOT line else v)"

definition setInput :: "u8 \<Rightarrow> 'snd gb \<Rightarrow> 'snd gb" where
  "setInput buttons s =
     (let dpad = line_low buttons 0x08 0x08 (line_low buttons 0x04 0x04
                   (line_low buttons 0x02 0x02 (line_low buttons 0x01 0x01 0x0F)));
          btns = line_low buttons 0x40 0x08 (line_low buttons 0x80 0x04
                   (line_low buttons 0x20 0x02 (line_low buttons 0x10 0x01 0x0F)));
          newPresses = buttons AND NOT (prevInputButtons (joy s))
      in s\<lparr>cpu := (if newPresses \<noteq> 0 then (cpu s)\<lparr>iflag := iflag (cpu s) OR 0x10\<rparr> else cpu s),
           joy := (joy s)\<lparr>joyDpad := dpad, joyButtons := btns, prevInputButtons := buttons\<rparr>\<rparr>)"

section \<open>Loading and resetting\<close>

definition detectMBC :: "u8 \<Rightarrow> MBCType" where
  "detectMBC t =
     (if t \<in> {0x01, 0x02, 0x03} then MBC_MBC1
      else if t \<in> {0x05, 0x06} then MBC_MBC2
      else if t \<in> {0x0F, 0x10, 0x11, 0x12, 0x13} then MBC_MBC3
      else if t \<in> {0x19, 0x1A, 0x1B, 0x1C, 0x1D, 0x1E} then MBC_MBC5
      else MBC_NONE)"

definition kRamSizes :: "nat list" where
  "kRamSizes = [0, 2048, 8192, 32768, 131072, 65536]"

text \<open>The part of \<open>loadRom\<close> after the mapper is known: the save RAM the header asks for.\<close>

definition load_sram :: "u8 \<Rightarrow> 'snd gb \<Rightarrow> bool \<times> 'snd gb" where
  "load_sram ramCode s =
     (if length kRamSizes \<le> unat ramCode then (False, s)
      else
        let bytes = (if mbcType (mbc s) = MBC_MBC2 then 512 else kRamSizes ! unat ramCode);
            s = s\<lparr>bufs := (bufs s)\<lparr>sramPersistSize := bytes\<rparr>\<rparr>
        in if 32768 < bytes then (False, s)
           else (True, refreshMappedRomBanks
                   (s\<lparr>bufs := (bufs s)\<lparr>sramSize := (if bytes = 0 then 1 else bytes)\<rparr>\<rparr>)))"

definition loadRom :: "u8 list option \<Rightarrow> nat \<Rightarrow> 'snd gb \<Rightarrow> (bool \<times> 'snd gb) option" where
  "loadRom data bytes_in s =
     (let count = (if bytes_in div ROM_BANK_SIZE = 0 then 1 else bytes_in div ROM_BANK_SIZE);
          image = (case data of Some d \<Rightarrow> d | None \<Rightarrow> romBank0 (rom s));
          null = (data = None \<and> romBank0 (rom s) = []);
          s = s\<lparr>rom := (rom s)\<lparr>romData := data, romSize := bytes_in, romBankCount := count, romInRam := (data \<noteq> None)\<rparr>\<rparr>
      in do {
        cartType \<leftarrow> (if 0x0148 < bytes_in \<and> \<not> null then mem_get image 0x0147 else Some 0);
        let s = s\<lparr>mbc := (mbc s)\<lparr>mbcType := detectMBC cartType\<rparr>\<rparr>;
        (if null \<or> bytes_in < 0x150 then Some (False, s)
         else do {
           ramCode \<leftarrow> mem_get image 0x149;
           Some (load_sram ramCode s)
         })
      })"

text \<open>\<open>if (p) memset(p, 0, n)\<close>, and \<open>reset\<close> by section of the class.\<close>

definition zero_fill :: "nat \<Rightarrow> u8 list \<Rightarrow> u8 list" where
  "zero_fill n xs = (if xs = [] then [] else replicate n 0 @ drop n xs)"

definition reset_cpu :: cpu_regs where
  "reset_cpu =
     \<lparr>reg_pc = 0x100, reg_sp = 0xFFFE, reg_a = 0x01, reg_f = 0xB0, reg_b = 0x00, reg_c = 0x13,
      reg_d = 0x00, reg_e = 0xD8, reg_h = 0x01, reg_l = 0x4D, ime = False, halted = False,
      haltBug = False, eiPending = False, ie = 0, iflag = 0\<rparr>"

definition reset_lcd :: "lcd_regs \<Rightarrow> lcd_regs" where
  "reset_lcd l =
     l\<lparr>lcdc := 0x91, lcdstat := 0, scy := 0, scx := 0, ly := 0, lyc := 0, bgp := 0xFC, obp0 := 0xFF,
       obp1 := 0xFF, wy := 0, wx := 0, ppuMode := 2, prevStatLine := False, ppuDots := 0,
       frameOvershoot := 0, lcdChanged := False, lcdFirstFrame := False, windowLine := 0\<rparr>"

definition reset_cgb :: "cgb_regs \<Rightarrow> cgb_regs" where
  "reset_cgb c =
     c\<lparr>vramBank := 0, wramBank := 1, key1 := 0, doubleSpeed := False, bcpsReg := 0, ocpsReg := 0,
       bgPalette := replicate 64 0, objPalette := replicate 64 0,
       hdma1 := 0, hdma2 := 0, hdma3 := 0, hdma4 := 0, hdma5 := 0xFF,
       vram1 := map_option (zero_fill 0x2000) (vram1 c),
       wramExtra := map_option (zero_fill 0x6000) (wramExtra c)\<rparr>"

definition reset_bufs :: "mem_bufs \<Rightarrow> mem_bufs" where
  "reset_bufs b =
     b\<lparr>framebuf := map_option (zero_fill GB_FB_SIZE) (framebuf b),
       colorFramebuf := map_option (zero_fill (GB_W * GB_H)) (colorFramebuf b),
       vram := zero_fill GB_VRAM_SIZE (vram b), wram := zero_fill GB_WRAM_SIZE (wram b),
       oam := replicate 0xA0 0, hram := replicate 0x80 0,
       sramData := zero_fill (sramSize b) (sramData b),
       soundRegs := (replicate 0x30 0)[0x16 := 0xF1]\<rparr>"

definition reset :: "'snd gb \<Rightarrow> 'snd gb" where
  "reset s =
     (let s = refreshMappedRomBanks
                (s\<lparr>cpu := reset_cpu, lcd := reset_lcd (lcd s),
                   timer := \<lparr>tima = 0, tma = 0, tac = 0, timerCounter = 0, divCounter = 0, divReg = 0\<rparr>,
                   mbc := (mbc s)\<lparr>romBank := 1, ramBank := 0, ramEnabled := False, mbc1Mode := 0, mbc1Bank2 := 0\<rparr>\<rparr>)
      in s\<lparr>joy := \<lparr>joyDpad = 0x0F, joyButtons = 0x0F, joypadSelect = 0, prevInputButtons = 0,
                  sbReg = 0xFF, scReg = 0x7E\<rparr>,
           cgb := reset_cgb (cgb s), bufs := reset_bufs (bufs s)\<rparr>)"

definition init :: "heap \<Rightarrow> 'snd gb \<Rightarrow> bool \<times> 'snd gb" where
  "init h s =
     (let b = bufs s;
          b = b\<lparr>vram := malloc_if_null h 6 GB_VRAM_SIZE (vram b), wram := malloc_if_null h 7 GB_WRAM_SIZE (wram b),
                sramData := malloc_if_null h 8 (sramSize b) (sramData b)\<rparr>;
          b = (if \<not> isCgb (cgb s) \<and> framebuf b = None then b\<lparr>framebuf := malloc h 9 GB_FB_SIZE\<rparr> else b);
          b = (if isCgb (cgb s) \<and> colorFramebuf b = None then b\<lparr>colorFramebuf := malloc h 10 (GB_W * GB_H)\<rparr> else b);
          s = s\<lparr>bufs := b\<rparr>
      in if (\<not> isCgb (cgb s) \<and> framebuf b = None) \<or> vram b = [] \<or> wram b = [] \<or> sramData b = [] \<or>
            (isCgb (cgb s) \<and> colorFramebuf b = None)
         then (False, s) else (True, reset s))"

section \<open>A loaded machine is well-formed\<close>

text \<open>What \<open>loadRom\<close> needs of the cartridge and leaves for \<open>init\<close>.\<close>

definition rom_ready :: "'snd gb \<Rightarrow> bool" where
  "rom_ready s \<longleftrightarrow>
     wf_rom (rom s) \<and> vram (bufs s) = [] \<and> wram (bufs s) = [] \<and> sramData (bufs s) = [] \<and>
     framebuf (bufs s) = None \<and> colorFramebuf (bufs s) = None \<and>
     sramPersistSize (bufs s) \<le> 32768 \<and>
     sramSize (bufs s) = (if sramPersistSize (bufs s) = 0 then 1 else sramPersistSize (bufs s)) \<and>
     (mbcType (mbc s) = MBC_MBC2 \<longrightarrow> sramPersistSize (bufs s) = 512) \<and>
     length (rtcLatched (rtc s)) = 5 \<and> length (shadeRemap s) = 4 \<and>
     (isCgb (cgb s) \<longrightarrow> vram1 (cgb s) \<noteq> None \<and> wramExtra (cgb s) \<noteq> None) \<and>
     (\<forall>v. vram1 (cgb s) = Some v \<longrightarrow> length v = 0x2000) \<and>
     (\<forall>w. wramExtra (cgb s) = Some w \<longrightarrow> length w = 0x6000)"

lemma malloc_length: "malloc h i n = Some b \<Longrightarrow> length b = n"
  by (auto simp: malloc_def split: if_splits)

lemma malloc_if_null_length:
  "malloc_if_null h i n [] \<noteq> [] \<Longrightarrow> length (malloc_if_null h i n []) = n"
  by (auto simp: malloc_if_null_def malloc_def split: option.splits if_splits)

text \<open>\<open>reset\<close> makes any machine with allocated buffers well-formed.\<close>

definition buffers_ready :: "'snd gb \<Rightarrow> bool" where
  "buffers_ready s \<longleftrightarrow>
     wf_rom (rom s) \<and>
     length (vram (bufs s)) = GB_VRAM_SIZE \<and> length (wram (bufs s)) = GB_WRAM_SIZE \<and>
     length (sramData (bufs s)) = sramSize (bufs s) \<and>
     sramPersistSize (bufs s) \<le> 32768 \<and>
     sramSize (bufs s) = (if sramPersistSize (bufs s) = 0 then 1 else sramPersistSize (bufs s)) \<and>
     (mbcType (mbc s) = MBC_MBC2 \<longrightarrow> sramPersistSize (bufs s) = 512) \<and>
     (\<forall>f. framebuf (bufs s) = Some f \<longrightarrow> length f = GB_FB_SIZE) \<and>
     (\<forall>f. colorFramebuf (bufs s) = Some f \<longrightarrow> length f = GB_W * GB_H) \<and>
     isCgb (cgb s) = (colorFramebuf (bufs s) \<noteq> None) \<and>
     length (rtcLatched (rtc s)) = 5 \<and> length (shadeRemap s) = 4 \<and>
     (isCgb (cgb s) \<longrightarrow> vram1 (cgb s) \<noteq> None \<and> wramExtra (cgb s) \<noteq> None) \<and>
     (\<forall>v. vram1 (cgb s) = Some v \<longrightarrow> length v = 0x2000) \<and>
     (\<forall>w. wramExtra (cgb s) = Some w \<longrightarrow> length w = 0x6000)"

lemma wf_rom_mapped [simp]: "wf_rom (r\<lparr>mapped0 := a, mapped1 := b\<rparr>) = wf_rom r"
  by (simp add: wf_rom_def)

lemma zero_fill_length: "length xs = n \<Longrightarrow> length (zero_fill n xs) = n"
  by (auto simp: zero_fill_def)

lemma reset_parts:
  "rtc (reset s) = rtc s" "shadeRemap (reset s) = shadeRemap s" "mbcType (mbc (reset s)) = mbcType (mbc s)"
  "cgb (reset s) = reset_cgb (cgb s)" "bufs (reset s) = reset_bufs (bufs s)" "cpu (reset s) = reset_cpu"
  "lcd (reset s) = reset_lcd (lcd s)" "timer (reset s) = \<lparr>tima = 0, tma = 0, tac = 0, timerCounter = 0, divCounter = 0, divReg = 0\<rparr>"
  by (simp_all add: reset_def Let_def refreshMappedRomBanks_def)

lemma reset_rom: "\<exists>a b. rom (reset s) = (rom s)\<lparr>mapped0 := a, mapped1 := b\<rparr>"
  by (auto simp: reset_def Let_def refreshMappedRomBanks_def)

lemma reset_mapped: "mapped0 (rom (reset s)) = mapped_low (reset s)" "mapped1 (rom (reset s)) = mapped_high (reset s)"
proof -
  define u where "u = s\<lparr>cpu := reset_cpu, lcd := reset_lcd (lcd s),
     timer := \<lparr>tima = 0, tma = 0, tac = 0, timerCounter = 0, divCounter = 0, divReg = 0\<rparr>,
     mbc := (mbc s)\<lparr>romBank := 1, ramBank := 0, ramEnabled := False, mbc1Mode := 0, mbc1Bank2 := 0\<rparr>\<rparr>"
  have "reset s = (refreshMappedRomBanks u)\<lparr>
      joy := \<lparr>joyDpad = 0x0F, joyButtons = 0x0F, joypadSelect = 0, prevInputButtons = 0, sbReg = 0xFF, scReg = 0x7E\<rparr>,
      cgb := reset_cgb (cgb (refreshMappedRomBanks u)), bufs := reset_bufs (bufs (refreshMappedRomBanks u))\<rparr>"
    by (simp add: reset_def Let_def u_def)
  then show "mapped0 (rom (reset s)) = mapped_low (reset s)" "mapped1 (rom (reset s)) = mapped_high (reset s)"
    by simp_all (simp_all add: refreshMappedRomBanks_def)
qed

lemma reset_cgb_wf:
  "buffers_ready s \<Longrightarrow> wf_cgb (reset_cgb (cgb s))"
  unfolding buffers_ready_def wf_cgb_def reset_cgb_def by (auto intro: zero_fill_length)

lemma reset_bufs_wf:
  assumes "buffers_ready s"
  shows "wf_bufs (reset_bufs (bufs s))"
proof -
  have "length ((replicate 0x30 0)[0x16 := (0xF1 :: u8)]) = 0x30" by (simp only: length_list_update length_replicate)
  with assms show ?thesis
    unfolding buffers_ready_def wf_bufs_def reset_bufs_def
    by (auto intro: zero_fill_length)
qed

lemma reset_ok:
  assumes "buffers_ready s"
  shows "frame_ok (reset s)"
proof -
  obtain a b where "rom (reset s) = (rom s)\<lparr>mapped0 := a, mapped1 := b\<rparr>" using reset_rom by blast
  then have "wf_rom (rom (reset s))" using assms by (simp add: buffers_ready_def)
  moreover have "wf_timer (timer (reset s))" "wf_ppu (lcd (reset s))" "f_clean (cpu (reset s))" "frameOvershoot (lcd (reset s)) = 0"
    by (simp_all add: reset_parts wf_timer_def wf_ppu_def f_clean_def reset_cpu_def reset_lcd_def)
  moreover have "isCgb (cgb (reset s)) = (colorFramebuf (bufs (reset s)) \<noteq> None)"
    "mbcType (mbc (reset s)) = MBC_MBC2 \<Longrightarrow> sramPersistSize (bufs (reset s)) = 512"
    using assms unfolding reset_parts buffers_ready_def by (simp_all add: reset_cgb_def reset_bufs_def)
  ultimately show ?thesis
    using assms reset_mapped [of s] reset_cgb_wf [OF assms] reset_bufs_wf [OF assms]
    by (simp add: frame_ok_def sys_ok_def machine_ok_def wf_gb_def reset_parts) (simp add: buffers_ready_def)
qed

lemma init_ok:
  assumes r: "rom_ready s" and i: "init h s = (True, t)"
  shows "frame_ok t"
proof -
  define b where "b = (bufs s)\<lparr>vram := malloc_if_null h 6 GB_VRAM_SIZE [], wram := malloc_if_null h 7 GB_WRAM_SIZE [],
      sramData := malloc_if_null h 8 (sramSize (bufs s)) [],
      framebuf := (if isCgb (cgb s) then None else malloc h 9 GB_FB_SIZE),
      colorFramebuf := (if isCgb (cgb s) then malloc h 10 (GB_W * GB_H) else None)\<rparr>"
  have z: "vram (bufs s) = []" "wram (bufs s) = []" "sramData (bufs s) = []"
      "framebuf (bufs s) = None" "colorFramebuf (bufs s) = None"
    using r by (simp_all add: rom_ready_def)
  have "init h s =
      (if (\<not> isCgb (cgb s) \<and> framebuf b = None) \<or> vram b = [] \<or> wram b = [] \<or> sramData b = [] \<or>
          (isCgb (cgb s) \<and> colorFramebuf b = None)
       then (False, s\<lparr>bufs := b\<rparr>) else (True, reset (s\<lparr>bufs := b\<rparr>)))"
    unfolding init_def Let_def by (cases "isCgb (cgb s)"; cases "bufs s") (use z in \<open>simp_all add: b_def\<close>)
  with i have t: "t = reset (s\<lparr>bufs := b\<rparr>)" and ne: "vram b \<noteq> []" "wram b \<noteq> []" "sramData b \<noteq> []"
      "isCgb (cgb s) \<Longrightarrow> colorFramebuf b \<noteq> None"
    by (auto split: if_splits)
  have "buffers_ready (s\<lparr>bufs := b\<rparr>)"
    using r ne malloc_if_null_length [of h 6 GB_VRAM_SIZE] malloc_if_null_length [of h 7 GB_WRAM_SIZE]
      malloc_if_null_length [of h 8 "sramSize (bufs s)"]
    by (auto simp: buffers_ready_def rom_ready_def b_def dest: malloc_length)
  then show ?thesis unfolding t by (rule reset_ok)
qed

text \<open>A machine before \<open>loadRom\<close>: nothing allocated but the colour banks and the bank cache.\<close>

definition blank :: "'snd gb \<Rightarrow> bool" where
  "blank s \<longleftrightarrow>
     vram (bufs s) = [] \<and> wram (bufs s) = [] \<and> sramData (bufs s) = [] \<and>
     framebuf (bufs s) = None \<and> colorFramebuf (bufs s) = None \<and>
     length (rtcLatched (rtc s)) = 5 \<and> length (shadeRemap s) = 4 \<and>
     (isCgb (cgb s) \<longrightarrow> vram1 (cgb s) \<noteq> None \<and> wramExtra (cgb s) \<noteq> None) \<and>
     (\<forall>v. vram1 (cgb s) = Some v \<longrightarrow> length v = 0x2000) \<and>
     (\<forall>w. wramExtra (cgb s) = Some w \<longrightarrow> length w = 0x6000)"

definition image_ready :: "u8 list option \<Rightarrow> nat \<Rightarrow> rom_regs \<Rightarrow> bool" where
  "image_ready data bytes_in r \<longleftrightarrow>
     32768 \<le> bytes_in \<and> bytes_in \<le> 4194304 \<and> bytes_in mod 16384 = 0 \<and>
     (\<forall>d. data = Some d \<longrightarrow> length d = bytes_in) \<and>
     (data = None \<longrightarrow> length (romBank0 r) = ROM_BANK_SIZE \<and>
        length (bankCache r) = cacheSlots r * ROM_BANK_SIZE \<and> length (cacheMap r) = cacheSlots r \<and>
        (0 < cacheSlots r \<longrightarrow> cacheNextSlot r < cacheSlots r))"

lemma bank_arith:
  assumes "32768 \<le> bytes_in" "bytes_in \<le> 4194304" "bytes_in mod 16384 = 0"
  shows "2 \<le> bytes_in div 16384" "bytes_in div 16384 \<le> 256" "bytes_in = bytes_in div 16384 * (16384 :: nat)"
proof -
  obtain k where k: "bytes_in = 16384 * k" using assms(3) by (auto simp only: mod_eq_0_iff_dvd elim: dvdE)
  then have "bytes_in div 16384 = k" by simp
  then show "2 \<le> bytes_in div 16384" "bytes_in div 16384 \<le> 256" "bytes_in = bytes_in div 16384 * (16384 :: nat)"
    using assms(1,2) k by simp_all
qed

lemma loadRom_wf_rom:
  assumes "image_ready data bytes_in r"
  shows "wf_rom (r\<lparr>romData := data, romSize := bytes_in, romBankCount := bytes_in div 16384, romInRam := (data \<noteq> None)\<rparr>)"
proof -
  define k where "k = bytes_in div 16384"
  have k: "2 \<le> k" "k \<le> 256" "bytes_in = k * ROM_BANK_SIZE"
  proof -
    have i: "32768 \<le> bytes_in" "bytes_in \<le> 4194304" "bytes_in mod 16384 = 0"
      using assms unfolding image_ready_def by simp_all
    show "2 \<le> k" "k \<le> 256" unfolding k_def by (rule bank_arith(1,2) [OF i])+
    show "bytes_in = k * ROM_BANK_SIZE" unfolding k_def ROM_BANK_SIZE_def by (rule bank_arith(3) [OF i])
  qed
  have d: "data = Some d \<Longrightarrow> length d = k * ROM_BANK_SIZE" for d
    using assms unfolding image_ready_def k(3) [symmetric] by simp
  have "data = None \<Longrightarrow> length (romBank0 r) = ROM_BANK_SIZE \<and>
      length (bankCache r) = cacheSlots r * ROM_BANK_SIZE \<and> length (cacheMap r) = cacheSlots r \<and>
      (0 < cacheSlots r \<longrightarrow> cacheNextSlot r < cacheSlots r)"
    using assms unfolding image_ready_def by blast
  with d k(1,2) show ?thesis unfolding k_def [symmetric] wf_rom_def by simp
qed

lemma loadRom_ok:
  assumes b: "blank s" and i: "image_ready data bytes_in (rom s)"
  shows "okp (loadRom data bytes_in s) (\<lambda>(ok, t). ok \<longrightarrow> rom_ready t \<and>
    rom t = (rom s)\<lparr>romData := data, romSize := bytes_in, romBankCount := bytes_in div 16384, romInRam := (data \<noteq> None),
      mapped0 := mapped_low t, mapped1 := mapped_high t\<rparr> \<and> isCgb (cgb t) = isCgb (cgb s))"
proof -
  define image where "image = (case data of Some d \<Rightarrow> d | None \<Rightarrow> romBank0 (rom s))"
  define r where "r = (rom s)\<lparr>romData := data, romSize := bytes_in, romBankCount := bytes_in div 16384, romInRam := (data \<noteq> None)\<rparr>"
  have big: "0x4000 \<le> length image" "32768 \<le> bytes_in" "\<not> (data = None \<and> romBank0 (rom s) = [])"
    using i by (auto simp: image_ready_def image_def ROM_BANK_SIZE_def split: option.splits)
  have count: "bytes_in div ROM_BANK_SIZE \<noteq> 0" "bytes_in div ROM_BANK_SIZE = bytes_in div 16384"
    using big(2) by (simp_all add: ROM_BANK_SIZE_def div_eq_0_iff)
  have wf: "wf_rom r" unfolding r_def by (rule loadRom_wf_rom [OF i])
  define t where "t = s\<lparr>rom := r, mbc := (mbc s)\<lparr>mbcType := detectMBC (image ! 0x147)\<rparr>\<rparr>"
  define n where "n = (if mbcType (mbc t) = MBC_MBC2 then 512 else kRamSizes ! unat (image ! 0x149))"
  have e: "loadRom data bytes_in s = Some (load_sram (image ! 0x149) t)"
    using big count unfolding loadRom_def Let_def image_def [symmetric] t_def r_def by auto
  show ?thesis
  proof (cases "length kRamSizes \<le> unat (image ! 0x149) \<or> 32768 < n")
    case True
    then show ?thesis unfolding e by (auto simp: load_sram_def Let_def n_def)
  next
    case False
    define u where "u = t\<lparr>bufs := (bufs s)\<lparr>sramPersistSize := n, sramSize := (if n = 0 then 1 else n)\<rparr>\<rparr>"
    have l: "load_sram (image ! 0x149) t = (True, refreshMappedRomBanks u)"
      using False by (simp add: load_sram_def Let_def n_def [symmetric] u_def) (simp add: t_def)
    have f: "refreshMappedRomBanks u = u\<lparr>rom := r\<lparr>mapped0 := mapped_low u, mapped1 := mapped_high u\<rparr>\<rparr>"
      by (simp add: refreshMappedRomBanks_def u_def t_def)
    have "mbcType (mbc u) = MBC_MBC2 \<Longrightarrow> n = 512" by (simp add: n_def u_def)
    then have "rom_ready (refreshMappedRomBanks u)"
      using b wf False unfolding f by (simp add: rom_ready_def blank_def u_def) (simp add: t_def)
    moreover have "rom (refreshMappedRomBanks u) = r\<lparr>mapped0 := mapped_low (refreshMappedRomBanks u),
        mapped1 := mapped_high (refreshMappedRomBanks u)\<rparr>"
      by (simp only: refresh_mapped) (simp add: f)
    moreover have "isCgb (cgb (refreshMappedRomBanks u)) = isCgb (cgb s)"
      unfolding f by (simp add: u_def t_def)
  ultimately show ?thesis using False unfolding e l by (simp add: r_def)
  qed
qed

lemma loadRom_sound: "pcp (loadRom data bytes_in s) (\<lambda>(ok, t). soundContext t = soundContext s)"
  unfolding loadRom_def Let_def
  by (intro pcp_if pcp_bind) (auto simp: load_sram_def Let_def refreshMappedRomBanks_def)

lemma init_sound: "soundContext (snd (init h s)) = soundContext s"
  by (simp add: init_def Let_def reset_def refreshMappedRomBanks_def)

end
