(* ===== verification/Apu.thy ===== *)
theory Apu
  imports Prelude "HOL-Library.Signed_Division"
begin

text \<open>
  components/minigb_apu/minigb_apu.c, the sound chip, in the configuration of its CMakeLists.txt:
  signed 16-bit samples at 16000 Hz.  Registers and counters keep their widths; \<open>None\<close> is an
  access outside \<open>audio_mem\<close> or the sample buffer, or a division by zero.  The channel's union is
  its four bytes \<open>un0\<close>..\<open>un3\<close> on the little-endian target: \<open>square.duty\<close> is the low byte of
  \<open>noise.lfsr_reg\<close>.
\<close>

record chan =
  ch_enabled :: bool
  ch_powered :: bool
  on_left :: u8
  on_right :: u8
  volume :: u8
  volume_init :: u8
  freq :: u16
  freq_counter :: u32
  freq_inc :: u32
  chan_val :: int
  len_load :: u8
  len_enabled :: u8
  len_counter :: u32
  len_inc :: u32
  env_step :: u8
  env_up :: u8
  env_counter :: u32
  env_inc :: u32
  sweep_rate :: u8
  sweep_shift :: u8
  sweep_down :: u8
  sweep_freq :: u16
  sweep_counter :: u32
  sweep_inc :: u32
  un0 :: u8
  un1 :: u8
  un2 :: u8
  un3 :: u8

record minigb_apu_ctx =
  chans :: "chan list"
  vol_l :: int
  vol_r :: int
  audio_mem :: "u8 list"

definition AUDIO_SAMPLES :: nat where "AUDIO_SAMPLES = 267"
definition AUDIO_SAMPLES_TOTAL :: nat where "AUDIO_SAMPLES_TOTAL = AUDIO_SAMPLES * 2"
definition AUDIO_MEM_SIZE :: nat where "AUDIO_MEM_SIZE = 48"
definition AUDIO_ADDR_COMPENSATION :: u16 where "AUDIO_ADDR_COMPENSATION = 0xFF10"
definition FREQ_INC_REF :: u32 where "FREQ_INC_REF = 1680000"
definition MAX_CHAN_VOLUME :: u8 where "MAX_CHAN_VOLUME = 15"
definition VOL_HIGH :: int where "VOL_HIGH = (32767 sdiv 8) sdiv 15"
definition VOL_LOW :: int where "VOL_LOW = (- 32768 sdiv 8) sdiv 15"

text \<open>The views of the union.\<close>

definition lfsr_reg :: "chan \<Rightarrow> u16" where
  "lfsr_reg c = w16 (un1 c) (un0 c)"

definition set_lfsr_reg :: "u16 \<Rightarrow> chan \<Rightarrow> chan" where
  "set_lfsr_reg r c = c\<lparr>un0 := lo8 r, un1 := hi8 r\<rparr>"

section \<open>The units of a channel\<close>

definition set_note_freq :: "chan \<Rightarrow> chan option" where
  "set_note_freq c =
     (let d = 2048 - ucast (freq c) :: u32
      in if d = 0 then None else Some (c\<lparr>freq_inc := (1048576 div d) * 105\<rparr>))"

definition chan_enable :: "nat \<Rightarrow> bool \<Rightarrow> minigb_apu_ctx \<Rightarrow> minigb_apu_ctx" where
  "chan_enable i enable x =
     (let cs = (chans x)[i := (chans x ! i)\<lparr>ch_enabled := enable\<rparr>];
          val = (audio_mem x ! 0x16 AND 0x80) OR
                flag_if (ch_enabled (cs ! 3)) 8 OR flag_if (ch_enabled (cs ! 2)) 4 OR
                flag_if (ch_enabled (cs ! 1)) 2 OR flag_if (ch_enabled (cs ! 0)) 1
      in x\<lparr>chans := cs, audio_mem := (audio_mem x)[0x16 := val]\<rparr>)"

lemma ref_decreases: "FREQ_INC_REF < k \<Longrightarrow> unat (k - FREQ_INC_REF) < unat k"
proof -
  assume k: "FREQ_INC_REF < k"
  then have "unat (k - FREQ_INC_REF) = unat k - unat FREQ_INC_REF" by (intro unat_sub) simp
  then show ?thesis using k by (simp add: FREQ_INC_REF_def word_less_nat_alt)
qed

text \<open>\<open>MAX(0, MIN(MAX_CHAN_VOLUME, volume))\<close> on a \<open>uint8_t\<close>: 0 - 1 is 255, which becomes 15.\<close>

definition env_tick :: "chan \<Rightarrow> chan" where
  "env_tick c =
     (if env_step c \<noteq> 0 then
        (let v = (if env_up c \<noteq> 0 then volume c + 1 else volume c - 1);
             inc = (if v = 0 \<or> v = MAX_CHAN_VOLUME then 0 else env_inc c)
         in c\<lparr>volume := (if MAX_CHAN_VOLUME \<le> v then MAX_CHAN_VOLUME else v), env_inc := inc\<rparr>)
      else c)"

function env_loop :: "chan \<Rightarrow> chan" where
  "env_loop c =
     (if FREQ_INC_REF < env_counter c
      then env_loop ((env_tick c)\<lparr>env_counter := env_counter c - FREQ_INC_REF\<rparr>)
      else c)"
  by pat_completeness auto
termination
  by (relation "measure (\<lambda>c. unat (env_counter c))") (auto simp: ref_decreases)

definition update_env :: "chan \<Rightarrow> chan" where
  "update_env c = env_loop (c\<lparr>env_counter := env_counter c + env_inc c\<rparr>)"

text \<open>\<open>update_len\<close>: the channel is given by its index, as \<open>c - ctx->chans\<close> is.\<close>

definition update_len :: "nat \<Rightarrow> minigb_apu_ctx \<Rightarrow> minigb_apu_ctx" where
  "update_len i x =
     (let c = chans x ! i in
      if len_enabled c = 0 then x
      else let c = c\<lparr>len_counter := len_counter c + len_inc c\<rparr>;
               x = x\<lparr>chans := (chans x)[i := c]\<rparr>
           in if FREQ_INC_REF < len_counter c
              then let x = chan_enable i False x
                   in x\<lparr>chans := (chans x)[i := (chans x ! i)\<lparr>len_counter := 0\<rparr>]\<rparr>
              else x)"

definition update_freq :: "chan \<Rightarrow> u32 \<Rightarrow> bool \<times> chan \<times> u32" where
  "update_freq c pos =
     (let k = freq_counter c + (freq_inc c - pos)
      in if FREQ_INC_REF < k
         then (True, c\<lparr>freq_counter := 0\<rparr>, freq_inc c - (k - FREQ_INC_REF))
         else (False, c\<lparr>freq_counter := k\<rparr>, freq_inc c))"

definition sweep_tick :: "chan \<Rightarrow> chan option" where
  "sweep_tick c =
     (if sweep_shift c \<noteq> 0 then
        (let inc = drop_bit (unat (sweep_shift c)) (sweep_freq c);
             inc = (if sweep_down c \<noteq> 0 then - inc else inc);
             c1 = c\<lparr>freq := sweep_freq c + inc\<rparr>
         in if 2047 < freq c1 then Some (c1\<lparr>ch_enabled := False\<rparr>)
            else do { c2 \<leftarrow> set_note_freq c1; Some (c2\<lparr>sweep_freq := freq c1\<rparr>) })
      else if sweep_rate c \<noteq> 0 then Some (c\<lparr>ch_enabled := False\<rparr>)
      else Some c)"

function sweep_loop :: "chan \<Rightarrow> chan option" where
  "sweep_loop c =
     (if FREQ_INC_REF < sweep_counter c then do {
        c' \<leftarrow> sweep_tick c;
        sweep_loop (c'\<lparr>sweep_counter := sweep_counter c - FREQ_INC_REF\<rparr>)
      } else Some c)"
  by pat_completeness auto
termination
  by (relation "measure (\<lambda>c. unat (sweep_counter c))") (auto simp: ref_decreases)

definition update_sweep :: "chan \<Rightarrow> chan option" where
  "update_sweep c = sweep_loop (c\<lparr>sweep_counter := sweep_counter c + sweep_inc c\<rparr>)"

section \<open>The generators\<close>

text \<open>The \<open>sample\<close> sums are unsigned 32-bit sums, as \<open>(pos - prev_pos) / c->freq_inc\<close> is.\<close>

definition square_tick :: "chan \<Rightarrow> chan" where
  "square_tick c =
     (let d = (un1 c + 1) AND 7
      in c\<lparr>un1 := d, chan_val := (if bit (un0 c) (unat d) then VOL_HIGH else VOL_LOW)\<rparr>)"

partial_function (option) square_steps :: "chan \<Rightarrow> u32 \<Rightarrow> u32 \<Rightarrow> i32 \<Rightarrow> (chan \<times> i32) option" where
  "square_steps c pos prev_pos sample =
     (case update_freq c pos of (again, c, pos) \<Rightarrow>
        if \<not> again then Some (c, sample)
        else if freq_inc c = 0 then None
        else let sample = sample + ((pos - prev_pos) div freq_inc c) * of_int (chan_val c)
             in square_steps (square_tick c) pos pos sample)"

text \<open>\<open>samples[i] += sample * on * vol\<close>, truncated to 16 bits.\<close>

definition mix :: "nat \<Rightarrow> int \<Rightarrow> chan \<Rightarrow> minigb_apu_ctx \<Rightarrow> i16 list \<Rightarrow> i16 list option" where
  "mix i sample c x samples = do {
     l \<leftarrow> mem_get samples i;
     samples \<leftarrow> mem_set samples i (l + of_int (sample * uint (on_left c) * vol_l x));
     r \<leftarrow> mem_get samples (i + 1);
     mem_set samples (i + 1) (r + of_int (sample * uint (on_right c) * vol_r x))
   }"

definition set_chan :: "nat \<Rightarrow> chan \<Rightarrow> minigb_apu_ctx \<Rightarrow> minigb_apu_ctx" where
  "set_chan i c x = x\<lparr>chans := (chans x)[i := c]\<rparr>"

fun square_loop :: "nat \<Rightarrow> nat \<Rightarrow> nat \<Rightarrow> minigb_apu_ctx \<Rightarrow> i16 list \<Rightarrow> (minigb_apu_ctx \<times> i16 list) option" where
  "square_loop ch 0 i x samples = Some (x, samples)"
| "square_loop ch (Suc n) i x samples =
     (let x = update_len ch x; c = chans x ! ch in
      if \<not> ch_enabled c then Some (x, samples)
      else let c = update_env c in
      if volume c = 0 then square_loop ch n (i + 2) (set_chan ch c x) samples
      else do {
        c \<leftarrow> (if ch = 0 then update_sweep c else Some c);
        (c, sample) \<leftarrow> square_steps c 0 0 0;
        let sample = (sint (sample + of_int (chan_val c)) * uint (volume c)) sdiv 4;
        samples \<leftarrow> mix i sample c x samples;
        square_loop ch n (i + 2) (set_chan ch c x) samples
      })"

definition update_square :: "nat \<Rightarrow> minigb_apu_ctx \<Rightarrow> i16 list \<Rightarrow> (minigb_apu_ctx \<times> i16 list) option" where
  "update_square ch x samples =
     (let c = chans x ! ch in
      if \<not> ch_powered c \<or> \<not> ch_enabled c then Some (x, samples)
      else do {
        c \<leftarrow> set_note_freq c;
        square_loop ch AUDIO_SAMPLES 0 (set_chan ch c x) samples
      })"

text \<open>\<open>wave_sample\<close>: a nibble of wave RAM, centred and shifted arithmetically.\<close>

definition wave_sample :: "minigb_apu_ctx \<Rightarrow> nat \<Rightarrow> nat \<Rightarrow> int option" where
  "wave_sample x pos vol = do {
     b \<leftarrow> mem_get (audio_mem x) (0x20 + pos div 2);
     let nib = (if odd pos then b AND 0xF else drop_bit 4 b);
     Some (if vol \<noteq> 0 then (uint nib - 8) div 2 ^ (vol - 1) else 0)
   }"

definition wave_tick :: "chan \<Rightarrow> chan" where
  "wave_tick c = c\<lparr>chan_val := (chan_val c + 1) mod 32\<rparr>"

partial_function (option) wave_steps ::
  "minigb_apu_ctx \<Rightarrow> chan \<Rightarrow> int \<Rightarrow> u32 \<Rightarrow> u32 \<Rightarrow> i16 \<Rightarrow> (chan \<times> int \<times> i16) option" where
  "wave_steps x c w pos prev_pos sample =
     (case update_freq c pos of (again, c, pos) \<Rightarrow>
        if \<not> again then Some (c, w, sample)
        else if freq_inc c = 0 then None
        else do {
          let c = wave_tick c;
          let sample = sample + ucast (((pos - prev_pos) div freq_inc c) * of_int w * of_int (32767 div 32));
          w \<leftarrow> wave_sample x (nat (chan_val c)) (unat (volume c));
          wave_steps x c w pos pos sample
        })"

text \<open>The stored \<open>wave.sample\<close> is the first byte of the union.\<close>

fun wave_loop :: "nat \<Rightarrow> nat \<Rightarrow> minigb_apu_ctx \<Rightarrow> i16 list \<Rightarrow> (minigb_apu_ctx \<times> i16 list) option" where
  "wave_loop 0 i x samples = Some (x, samples)"
| "wave_loop (Suc n) i x samples =
     (let x = update_len 2 x; c = chans x ! 2 in
      if \<not> ch_enabled c then Some (x, samples)
      else do {
        w \<leftarrow> wave_sample x (nat (chan_val c)) (unat (volume c));
        (c, w, sample) \<leftarrow> wave_steps x c w 0 0 0;
        let c = c\<lparr>un0 := of_int w\<rparr>;
        let sample = sample + of_int (w * (32767 div 32));
        d \<leftarrow> mem_get [32767, 1, 2, 4] (unat (volume c));
        let out = (sint sample sdiv d) sdiv 4;
        samples \<leftarrow> mix i out c x samples;
        wave_loop n (i + 2) (set_chan 2 c x) samples
      })"

definition update_wave :: "minigb_apu_ctx \<Rightarrow> i16 list \<Rightarrow> (minigb_apu_ctx \<times> i16 list) option" where
  "update_wave x samples =
     (let c = chans x ! 2 in
      if \<not> ch_powered c \<or> \<not> ch_enabled c \<or> volume c = 0 then Some (x, samples)
      else do {
        c \<leftarrow> set_note_freq c;
        wave_loop AUDIO_SAMPLES 0 (set_chan 2 (c\<lparr>freq_inc := freq_inc c * 2\<rparr>) x) samples
      })"

text \<open>One step of the noise register; \<open>lfsr_wide\<close> selects the tap pair.\<close>

definition lfsr_step :: "chan \<Rightarrow> chan" where
  "lfsr_step c =
     (let r = push_bit 1 (lfsr_reg c) OR (if VOL_HIGH \<le> chan_val c then 1 else 0);
          same = (if un2 c \<noteq> 0 then bit r 14 = bit r 13 else bit r 6 = bit r 5)
      in (set_lfsr_reg r c)\<lparr>chan_val := (if same then VOL_HIGH else VOL_LOW)\<rparr>)"

partial_function (option) noise_steps :: "chan \<Rightarrow> u32 \<Rightarrow> u32 \<Rightarrow> i32 \<Rightarrow> (chan \<times> i32) option" where
  "noise_steps c pos prev_pos sample =
     (case update_freq c pos of (again, c, pos) \<Rightarrow>
        if \<not> again then Some (c, sample)
        else if freq_inc c = 0 then None
        else let c = lfsr_step c;
                 sample = sample + ((pos - prev_pos) div freq_inc c) * of_int (chan_val c)
             in noise_steps c pos pos sample)"

fun noise_loop :: "nat \<Rightarrow> nat \<Rightarrow> minigb_apu_ctx \<Rightarrow> i16 list \<Rightarrow> (minigb_apu_ctx \<times> i16 list) option" where
  "noise_loop 0 i x samples = Some (x, samples)"
| "noise_loop (Suc n) i x samples =
     (let x = update_len 3 x; c = chans x ! 3 in
      if \<not> ch_enabled c then Some (x, samples)
      else let c = update_env c in
      if volume c = 0 then noise_loop n (i + 2) (set_chan 3 c x) samples
      else do {
        (c, sample) \<leftarrow> noise_steps c 0 0 0;
        let sample = (sint (sample + of_int (chan_val c)) * uint (volume c)) sdiv 4;
        samples \<leftarrow> mix i sample c x samples;
        noise_loop n (i + 2) (set_chan 3 c x) samples
      })"

definition lfsr_div_lut :: "u32 list" where
  "lfsr_div_lut = [8, 16, 32, 48, 64, 80, 96, 112]"

definition update_noise :: "minigb_apu_ctx \<Rightarrow> i16 list \<Rightarrow> (minigb_apu_ctx \<times> i16 list) option" where
  "update_noise x samples =
     (let c = chans x ! 3; c = (if 14 \<le> freq c then c\<lparr>ch_enabled := False\<rparr> else c); x = set_chan 3 c x in
      if \<not> ch_powered c \<or> \<not> ch_enabled c then Some (x, samples)
      else do {
        d \<leftarrow> mem_get lfsr_div_lut (unat (un3 c));
        let d = push_bit (unat (freq c)) d;
        (if d = 0 then None
         else noise_loop AUDIO_SAMPLES 0 (set_chan 3 (c\<lparr>freq_inc := (4194304 div d) * 105\<rparr>) x) samples)
      })"

definition minigb_apu_audio_callback :: "minigb_apu_ctx \<Rightarrow> (minigb_apu_ctx \<times> i16 list) option" where
  "minigb_apu_audio_callback x = do {
     (x, stream) \<leftarrow> update_square 0 x (replicate AUDIO_SAMPLES_TOTAL 0);
     (x, stream) \<leftarrow> update_square 1 x stream;
     (x, stream) \<leftarrow> update_wave x stream;
     update_noise x stream
   }"

section \<open>Registers\<close>

definition env_inc_lut :: "u32 list" where
  "env_inc_lut = [840, 6720, 3360, 2240, 1680, 1344, 1120, 960]"

text \<open>The channel after a trigger, but for the length counter: \<open>v\<close> is NRx2 and \<open>v10\<close> is NR10.\<close>

definition trigger_chan :: "nat \<Rightarrow> u8 \<Rightarrow> u32 \<Rightarrow> u8 \<Rightarrow> chan \<Rightarrow> chan" where
  "trigger_chan i v inc v10 c =
     (let c = c\<lparr>volume := volume_init c\<rparr>;
          c = c\<lparr>env_step := v AND 7, env_up := v AND 8, env_inc := inc, env_counter := 0\<rparr>;
          rate = drop_bit 4 v10 AND 7;
          c = (if i = 0 then c\<lparr>sweep_freq := freq c, sweep_rate := rate, sweep_down := v10 AND 8,
                 sweep_shift := v10 AND 7,
                 sweep_inc := (if rate \<noteq> 0 then (128 * FREQ_INC_REF) div (ucast rate * 16000) else 0),
                 sweep_counter := FREQ_INC_REF\<rparr>
               else c)
      in if i = 2 then c\<lparr>chan_val := 0\<rparr>
         else if i = 3 then (set_lfsr_reg 0xFFFF c)\<lparr>chan_val := VOL_LOW\<rparr> else c)"

definition chan_trigger :: "nat \<Rightarrow> minigb_apu_ctx \<Rightarrow> minigb_apu_ctx option" where
  "chan_trigger i x0 = (let x = chan_enable i True x0 in do {
     v \<leftarrow> mem_get (audio_mem x) (2 + i * 5);
     inc \<leftarrow> mem_get env_inc_lut (unat (v AND 7));
     v10 \<leftarrow> mem_get (audio_mem x) 0;
     let c = trigger_chan i v inc v10 (chans x ! i);
     let len_max = (if i = 2 then 256 else 64);
     let d = 16000 * (len_max - ucast (len_load c));
     (if d = 0 then None
      else Some (set_chan i (c\<lparr>len_inc := (256 * FREQ_INC_REF) div d, len_counter := 0\<rparr>) x))
   })"

definition ortab :: "u8 list" where
  "ortab = [0x80, 0x3f, 0x00, 0xff, 0xbf, 0xff, 0x3f, 0x00, 0xff, 0xbf,
     0x7f, 0xff, 0x9f, 0xff, 0xbf, 0xff, 0xff, 0x00, 0x00, 0xbf, 0x00, 0x00, 0x70,
     0xff, 0xff, 0xff, 0xff, 0xff, 0xff, 0xff, 0xff, 0xff,
     0x00, 0x00, 0x00, 0x00, 0x00, 0x00, 0x00, 0x00,
     0x00, 0x00, 0x00, 0x00, 0x00, 0x00, 0x00, 0x00]"

definition minigb_apu_audio_read :: "u16 \<Rightarrow> minigb_apu_ctx \<Rightarrow> u8 option" where
  "minigb_apu_audio_read addr x = do {
     let k = unat (addr - AUDIO_ADDR_COMPENSATION);
     v \<leftarrow> mem_get (audio_mem x) k;
     m \<leftarrow> mem_get ortab k;
     Some (v OR m)
   }"

definition upd_chan :: "nat \<Rightarrow> (chan \<Rightarrow> chan) \<Rightarrow> minigb_apu_ctx \<Rightarrow> minigb_apu_ctx" where
  "upd_chan i f x = set_chan i (f (chans x ! i)) x"

text \<open>NRx2: the initial volume, and the "zombie" changes of a running one.\<close>

definition write_envelope :: "u8 \<Rightarrow> chan \<Rightarrow> chan" where
  "write_envelope v c =
     (let c = c\<lparr>volume_init := drop_bit 4 v, ch_powered := (drop_bit 3 v \<noteq> 0)\<rparr>
      in if ch_powered c \<and> ch_enabled c
         then let vol = (if env_step c = 0 \<and> env_inc c \<noteq> 0
                         then (if v AND 8 \<noteq> 0 then volume c + 1 else volume c + 2)
                         else 16 - volume c)
              in c\<lparr>volume := vol AND 0x0F, env_step := v AND 7\<rparr>
         else c)"

definition duty_lookup :: "u8 list" where
  "duty_lookup = [0x10, 0x30, 0x3C, 0xCF]"

definition write_panning :: "u8 \<Rightarrow> minigb_apu_ctx \<Rightarrow> minigb_apu_ctx" where
  "write_panning v x =
     x\<lparr>chans := map (\<lambda>j. (chans x ! j)\<lparr>on_left := drop_bit (4 + j) v AND 1, on_right := drop_bit j v AND 1\<rparr>)
                  [0..<4] @ drop 4 (chans x)\<rparr>"

definition trigger_control :: "nat \<Rightarrow> u8 \<Rightarrow> minigb_apu_ctx \<Rightarrow> minigb_apu_ctx option" where
  "trigger_control i v x =
     (let x = upd_chan i (\<lambda>c. c\<lparr>len_enabled := v AND 0x40\<rparr>) x
      in if v AND 0x80 \<noteq> 0 then chan_trigger i x else Some x)"

definition minigb_apu_audio_write :: "u16 \<Rightarrow> u8 \<Rightarrow> minigb_apu_ctx \<Rightarrow> minigb_apu_ctx option" where
  "minigb_apu_audio_write addr v x =
     (let k = unat (addr - AUDIO_ADDR_COMPENSATION); i = k div 5 in
      if addr = 0xFF26 then do {
        m \<leftarrow> mem_set (audio_mem x) k (v AND 0x80);
        Some (if v AND 0x80 = 0
              then x\<lparr>audio_mem := replicate 0x16 0 @ drop 0x16 m,
                     chans := map (\<lambda>c. c\<lparr>ch_enabled := False\<rparr>) (take 4 (chans x)) @ drop 4 (chans x)\<rparr>
              else x\<lparr>audio_mem := m\<rparr>)
      }
      else if audio_mem x ! 0x16 = 0 then Some x
      else do {
        m \<leftarrow> mem_set (audio_mem x) k v;
        let x = x\<lparr>audio_mem := m\<rparr>;
        (if addr = 0xFF12 \<or> addr = 0xFF17 \<or> addr = 0xFF21 then Some (upd_chan i (write_envelope v) x)
         else if addr = 0xFF1C then
           Some (upd_chan i (\<lambda>c. c\<lparr>volume := drop_bit 5 v AND 3, volume_init := drop_bit 5 v AND 3\<rparr>) x)
         else if addr = 0xFF11 \<or> addr = 0xFF16 \<or> addr = 0xFF20 then do {
           d \<leftarrow> mem_get duty_lookup (unat (drop_bit 6 v));
           Some (upd_chan i (\<lambda>c. c\<lparr>len_load := v AND 0x3f, un0 := d\<rparr>) x)
         }
         else if addr = 0xFF1B then Some (upd_chan i (\<lambda>c. c\<lparr>len_load := v\<rparr>) x)
         else if addr = 0xFF13 \<or> addr = 0xFF18 \<or> addr = 0xFF1D then
           Some (upd_chan i (\<lambda>c. c\<lparr>freq := (freq c AND 0xFF00) OR ucast v\<rparr>) x)
         else if addr = 0xFF1A then
           Some (chan_enable i (v AND 0x80 \<noteq> 0) (upd_chan i (\<lambda>c. c\<lparr>ch_powered := (v AND 0x80 \<noteq> 0)\<rparr>) x))
         else if addr = 0xFF14 \<or> addr = 0xFF19 \<or> addr = 0xFF1E then
           trigger_control i v (upd_chan i (\<lambda>c. c\<lparr>freq := (freq c AND 0x00FF) OR push_bit 8 (ucast (v AND 7))\<rparr>) x)
         else if addr = 0xFF23 then trigger_control i v x
         else if addr = 0xFF22 then
           Some (upd_chan 3 (\<lambda>c. c\<lparr>freq := ucast (drop_bit 4 v),
              un2 := (if v AND 8 = 0 then 1 else 0), un3 := v AND 7\<rparr>) x)
         else if addr = 0xFF24 then
           Some (x\<lparr>vol_l := uint (drop_bit 4 v AND 7), vol_r := uint (v AND 7)\<rparr>)
         else if addr = 0xFF25 then Some (write_panning v x)
         else Some x)
      })"

section \<open>Initialisation\<close>

definition zero_chan :: chan where
  "zero_chan =
     \<lparr>ch_enabled = False, ch_powered = False, on_left = 0, on_right = 0, volume = 0, volume_init = 0,
      freq = 0, freq_counter = 0, freq_inc = 0, chan_val = 0, len_load = 0, len_enabled = 0,
      len_counter = 0, len_inc = 0, env_step = 0, env_up = 0, env_counter = 0, env_inc = 0,
      sweep_rate = 0, sweep_shift = 0, sweep_down = 0, sweep_freq = 0, sweep_counter = 0, sweep_inc = 0,
      un0 = 0, un1 = 0, un2 = 0, un3 = 0\<rparr>"

definition regs_init :: "u8 list" where
  "regs_init = [0x80, 0xBF, 0xF3, 0xFF, 0x3F, 0xFF, 0x3F, 0x00, 0xFF, 0x3F,
     0x7F, 0xFF, 0x9F, 0xFF, 0x3F, 0xFF, 0xFF, 0x00, 0x00, 0x3F, 0x77, 0xF3, 0xF1]"

definition wave_init :: "u8 list" where
  "wave_init = [0xac, 0xdd, 0xda, 0x48, 0x36, 0x02, 0xcf, 0x16,
     0x2c, 0x04, 0xe5, 0x2c, 0xac, 0xdd, 0xda, 0x48]"

fun write_from :: "u16 \<Rightarrow> u8 list \<Rightarrow> minigb_apu_ctx \<Rightarrow> minigb_apu_ctx option" where
  "write_from addr [] x = Some x"
| "write_from addr (v # vs) x = do {
     x \<leftarrow> minigb_apu_audio_write addr v x;
     write_from (addr + 1) vs x
   }"

definition minigb_apu_audio_init :: "minigb_apu_ctx \<Rightarrow> minigb_apu_ctx option" where
  "minigb_apu_audio_init x = do {
     let x = x\<lparr>chans := replicate 4 zero_chan\<rparr>;
     let x = upd_chan 0 (\<lambda>c. c\<lparr>chan_val := -1\<rparr>) x;
     let x = upd_chan 1 (\<lambda>c. c\<lparr>chan_val := -1\<rparr>) x;
     x \<leftarrow> write_from 0xFF10 regs_init x;
     write_from 0xFF30 wave_init x
   }"

section \<open>The invariant\<close>

declare env_loop.simps [simp del] sweep_loop.simps [simp del]

text \<open>What keeps the generators inside their tables and away from a division by zero.  A sweep may
  leave channel 0 with a frequency of 2048 or more, but only switched off.\<close>

definition chan_ok :: "nat \<Rightarrow> chan \<Rightarrow> bool" where
  "chan_ok i c \<longleftrightarrow>
     unat (freq_counter c) \<le> 1680000 \<and> unat (freq_inc c) \<le> 220200960 \<and> volume c \<le> 15 \<and> volume_init c \<le> 15 \<and>
     on_left c \<le> 1 \<and> on_right c \<le> 1 \<and>
     (i = 0 \<and> ch_enabled c \<or> i = 1 \<or> i = 2 \<longrightarrow> freq c \<le> 2047) \<and>
     (i \<noteq> 2 \<longrightarrow> len_load c < 64 \<and> \<bar>chan_val c\<bar> \<le> 273) \<and>
     (i = 2 \<longrightarrow> volume c \<le> 3 \<and> volume_init c \<le> 3 \<and> 0 \<le> chan_val c \<and> chan_val c < 32) \<and>
     (i = 3 \<longrightarrow> un3 c < 8)"

definition apu_ok :: "minigb_apu_ctx \<Rightarrow> bool" where
  "apu_ok x \<longleftrightarrow> length (chans x) = 4 \<and> length (audio_mem x) = 48 \<and>
     0 \<le> vol_l x \<and> vol_l x \<le> 7 \<and> 0 \<le> vol_r x \<and> vol_r x \<le> 7 \<and> (\<forall>i < 4. chan_ok i (chans x ! i))"

lemma apu_okD:
  assumes "apu_ok x"
  shows "length (chans x) = 4" "length (audio_mem x) = 48" "0 \<le> vol_l x" "vol_l x \<le> 7"
    "0 \<le> vol_r x" "vol_r x \<le> 7" "i < 4 \<Longrightarrow> chan_ok i (chans x ! i)"
  using assms by (auto simp: apu_ok_def)

lemma all_less_4: "(\<forall>i < 4. P i) \<longleftrightarrow> P 0 \<and> P 1 \<and> P 2 \<and> P (3 :: nat)"
  by (auto simp: numeral_eq_Suc less_Suc_eq)

lemma set_chan_ok: "apu_ok x \<Longrightarrow> chan_ok i c \<Longrightarrow> apu_ok (set_chan i c x)"
  by (cases "i < 4") (auto simp: apu_ok_def set_chan_def nth_list_update list_update_beyond)

lemma upd_chan_ok: "apu_ok x \<Longrightarrow> i < 4 \<Longrightarrow> (\<And>c. chan_ok i c \<Longrightarrow> chan_ok i (f c)) \<Longrightarrow> apu_ok (upd_chan i f x)"
  unfolding upd_chan_def by (intro set_chan_ok) (auto simp: apu_ok_def)

lemma set_chan_nth [simp]: "i < length (chans x) \<Longrightarrow> chans (set_chan i c x) ! i = c"
  "length (chans (set_chan i c x)) = length (chans x)" "audio_mem (set_chan i c x) = audio_mem x"
  by (simp_all add: set_chan_def)

lemma chan_enable_ok:
  assumes "apu_ok x" "i < 4" "b \<Longrightarrow> i = 0 \<Longrightarrow> freq (chans x ! 0) \<le> 2047"
  shows "apu_ok (chan_enable i b x)"
proof -
  have "chan_ok i (chans x ! i)" using assms by (simp add: apu_ok_def)
  then have "chan_ok i ((chans x ! i)\<lparr>ch_enabled := b\<rparr>)" using assms(3) by (auto simp: chan_ok_def)
  then show ?thesis using assms(1,2) by (auto simp: apu_ok_def chan_enable_def Let_def nth_list_update)
qed

lemma chan_enable_nth:
  "length (chans x) = 4 \<Longrightarrow> i < 4 \<Longrightarrow> chans (chan_enable i b x) ! i = (chans x ! i)\<lparr>ch_enabled := b\<rparr>"
  by (simp add: chan_enable_def Let_def)

text \<open>The envelope touches nothing but the volume and its own counters.\<close>

lemma env_tick_ok: "chan_ok i c \<Longrightarrow> i \<noteq> 2 \<Longrightarrow> chan_ok i (env_tick c) \<and> ch_enabled (env_tick c) = ch_enabled c"
  by (auto simp: env_tick_def Let_def chan_ok_def MAX_CHAN_VOLUME_def not_le intro: order.strict_implies_order)

lemma env_loop_ok: "chan_ok i c \<Longrightarrow> i \<noteq> 2 \<Longrightarrow> chan_ok i (env_loop c) \<and> ch_enabled (env_loop c) = ch_enabled c"
proof (induction c rule: env_loop.induct)
  case (1 c)
  let ?c = "(env_tick c)\<lparr>env_counter := env_counter c - FREQ_INC_REF\<rparr>"
  have "chan_ok i ?c" "ch_enabled ?c = ch_enabled c"
    using env_tick_ok [OF 1(2,3)] by (simp_all add: chan_ok_def)
  then show ?case using 1 by (cases "FREQ_INC_REF < env_counter c") (simp_all add: env_loop.simps [of c])
qed

lemma update_env_ok:
  assumes "chan_ok i c" "i \<noteq> 2"
  shows "chan_ok i (update_env c)" "ch_enabled (update_env c) = ch_enabled c"
proof -
  have "chan_ok i (c\<lparr>env_counter := env_counter c + env_inc c\<rparr>)" using assms(1) by (simp add: chan_ok_def)
  from env_loop_ok [OF this assms(2)]
  show "chan_ok i (update_env c)" "ch_enabled (update_env c) = ch_enabled c"
    by (simp_all add: update_env_def)
qed

lemma update_len_ok: "apu_ok x \<Longrightarrow> i < 4 \<Longrightarrow> apu_ok (update_len i x)"
proof -
  assume x: "apu_ok x" "i < 4"
  let ?c = "(chans x ! i)\<lparr>len_counter := len_counter (chans x ! i) + len_inc (chans x ! i)\<rparr>"
  have c: "chan_ok i (chans x ! i)" using x by (simp add: apu_ok_def)
  then have "chan_ok i ?c" by (auto simp: chan_ok_def)
  then have y: "apu_ok (x\<lparr>chans := (chans x)[i := ?c]\<rparr>)" using set_chan_ok [OF x(1)] by (simp add: set_chan_def)
  let ?z = "chan_enable i False (x\<lparr>chans := (chans x)[i := ?c]\<rparr>)"
  have z: "apu_ok ?z" by (rule chan_enable_ok [OF y x(2)]) simp
  have "chan_ok i ((chans ?z ! i)\<lparr>len_counter := 0\<rparr>)" using apu_okD(7) [OF z x(2)] by (auto simp: chan_ok_def)
  then have "apu_ok (set_chan i ((chans ?z ! i)\<lparr>len_counter := 0\<rparr>) ?z)" by (rule set_chan_ok [OF z])
  then show ?thesis using x y by (simp add: update_len_def Let_def set_chan_def)
qed

lemma set_note_freq_ok:
  assumes "freq c \<le> 2047"
  obtains k where "set_note_freq c = Some (c\<lparr>freq_inc := k\<rparr>)" "0 < unat k" "unat k \<le> 110100480"
proof -
  let ?d = "2048 - ucast (freq c) :: u32"
  have "unat (freq c) \<le> 2047" using assms by (simp add: word_le_nat_alt)
  then have u: "unat (ucast (freq c) :: u32) \<le> 2047"
    by (simp add: unsigned_ucast_eq take_bit_eq_mod)
  have "unat ?d = 2048 - unat (ucast (freq c) :: u32)"
    using u by (subst unat_sub) (simp_all add: word_le_nat_alt)
  then have d: "0 < unat ?d" "unat ?d \<le> 2048" using u by auto
  let ?q = "1048576 div ?d"
  have q: "unat ?q = 1048576 div unat ?d" by (simp add: unat_div_distrib)
  have "unat ?q \<le> 1048576" using q by simp
  then have "unat ?q * unat (105 :: u32) < 2 ^ 32" by simp
  then have "unat (?q * 105) = 105 * (1048576 div unat ?d)"
    using q unat_mult_lem [of ?q "105 :: u32"] by (simp add: mult.commute)
  moreover have "512 \<le> 1048576 div unat ?d"
    using div_le_mono2 [OF d(1) d(2), of 1048576] by simp
  ultimately have "0 < unat (?q * 105)" "unat (?q * 105) \<le> 110100480"
    using q \<open>unat ?q \<le> 1048576\<close> by auto
  moreover have "?d \<noteq> 0" using d(1) by (metis unsigned_0 less_irrefl)
  ultimately show thesis using that [of "?q * 105"] by (simp add: set_note_freq_def Let_def)
qed

lemma sweep_tick_ok:
  assumes "chan_ok 0 c"
  obtains c' where "sweep_tick c = Some c'" "chan_ok 0 c'"
proof (cases "sweep_shift c = 0")
  case True
  then show thesis using assms that by (cases "sweep_rate c = 0") (auto simp: sweep_tick_def chan_ok_def)
next
  case False
  define c1 where "c1 = c\<lparr>freq := sweep_freq c + (if sweep_down c \<noteq> 0 then - drop_bit (unat (sweep_shift c)) (sweep_freq c)
    else drop_bit (unat (sweep_shift c)) (sweep_freq c))\<rparr>"
  have e: "sweep_tick c = (if 2047 < freq c1 then Some (c1\<lparr>ch_enabled := False\<rparr>)
      else do { c2 \<leftarrow> set_note_freq c1; Some (c2\<lparr>sweep_freq := freq c1\<rparr>) })"
    using False by (simp add: sweep_tick_def c1_def Let_def)
  show thesis
  proof (cases "2047 < freq c1")
    case True
    then show thesis using assms that e by (auto simp: chan_ok_def c1_def)
  next
    case False
    then have f: "freq c1 \<le> 2047" by (simp add: not_less)
    from set_note_freq_ok [OF f] obtain k where k: "set_note_freq c1 = Some (c1\<lparr>freq_inc := k\<rparr>)" "unat k \<le> 110100480" .
    have "chan_ok 0 (c1\<lparr>freq_inc := k, sweep_freq := freq c1\<rparr>)"
      using assms f k(2) by (simp add: chan_ok_def) (simp add: c1_def)
    then show thesis using False that e k(1) by simp
  qed
qed

lemma update_sweep_ok: "chan_ok 0 c \<Longrightarrow> okp (update_sweep c) (chan_ok 0)"
proof -
  have "chan_ok 0 c \<Longrightarrow> okp (sweep_loop c) (chan_ok 0)" for c
  proof (induction c rule: sweep_loop.induct)
    case (1 c)
    obtain c' where c': "sweep_tick c = Some c'" "chan_ok 0 c'" using sweep_tick_ok [OF 1(2)] .
    then have "chan_ok 0 (c'\<lparr>sweep_counter := sweep_counter c - FREQ_INC_REF\<rparr>)" by (simp add: chan_ok_def)
    then show ?case using 1 c'(1) by (cases "FREQ_INC_REF < sweep_counter c") (simp_all add: sweep_loop.simps [of c])
  qed
  moreover assume "chan_ok 0 c"
  then have "chan_ok 0 (c\<lparr>sweep_counter := sweep_counter c + sweep_inc c\<rparr>)" by (simp add: chan_ok_def)
  ultimately show ?thesis by (simp add: update_sweep_def)
qed

section \<open>The phase counter in closed form\<close>

text \<open>One sample advances the phase by \<open>freq_inc\<close>; \<open>periods\<close> is how often it passes the
  reference.  The quotient \<open>(pos - prev_pos) / freq_inc\<close>, meant to weight the part of a sample before
  an edge, is an integer division below one: the weighted sums stay 0.\<close>

definition periods :: "nat \<Rightarrow> nat" where
  "periods t = (t - 1) div 1680000"

lemma periods_step: "1680000 < t \<Longrightarrow> periods t = Suc (periods (t - 1680000))"
proof -
  assume t: "1680000 < t"
  then have "t - 1 = (t - 1680000 - 1) + 1680000" by simp
  then show ?thesis unfolding periods_def by (metis Suc_eq_plus1 div_add_self2 zero_neq_numeral)
qed

lemma periods_none: "t \<le> 1680000 \<Longrightarrow> periods t = 0"
  by (auto simp: periods_def)

text \<open>\<open>update_freq\<close> on the amount \<open>r\<close> of the sample that is left.\<close>

lemma update_freq_cases:
  assumes c: "unat (freq_counter c) \<le> 1680000" "unat (freq_inc c) \<le> 220200960"
    and p: "unat pos + r = unat (freq_inc c)"
  shows "unat (freq_counter c) + r \<le> 1680000 \<Longrightarrow>
      update_freq c pos = (False, c\<lparr>freq_counter := of_nat (unat (freq_counter c) + r)\<rparr>, freq_inc c)"
    and "1680000 < unat (freq_counter c) + r \<Longrightarrow>
      \<exists>q. update_freq c pos = (True, c\<lparr>freq_counter := 0\<rparr>, q) \<and>
        unat q + (unat (freq_counter c) + r - 1680000) = unat (freq_inc c) \<and>
        (q - pos) div freq_inc c = 0"
proof -
  have le: "pos \<le> freq_inc c" using p by (simp add: word_le_nat_alt)
  have d: "unat (freq_inc c - pos) = r" using p by (simp add: unat_sub [OF le])
  have k: "unat (freq_counter c + (freq_inc c - pos)) = unat (freq_counter c) + r"
    using c p d by (subst unat_plus_if') simp
  have big: "(FREQ_INC_REF < freq_counter c + (freq_inc c - pos)) = (1680000 < unat (freq_counter c) + r)"
    by (simp add: word_less_nat_alt k FREQ_INC_REF_def)
  show "update_freq c pos = (False, c\<lparr>freq_counter := of_nat (unat (freq_counter c) + r)\<rparr>, freq_inc c)"
    if "unat (freq_counter c) + r \<le> 1680000"
  proof -
    have "freq_counter c + (freq_inc c - pos) = of_nat (unat (freq_counter c) + r)"
      by (simp flip: k)
    moreover have "\<not> FREQ_INC_REF < freq_counter c + (freq_inc c - pos)" using that big by simp
    ultimately show ?thesis by (simp add: update_freq_def Let_def)
  qed
  assume t: "1680000 < unat (freq_counter c) + r"
  let ?k = "freq_counter c + (freq_inc c - pos)"
  let ?q = "freq_inc c - (?k - FREQ_INC_REF)"
  have le2: "FREQ_INC_REF \<le> ?k" using t big by simp
  have rest: "unat (?k - FREQ_INC_REF) = unat (freq_counter c) + r - 1680000"
    unfolding unat_sub [OF le2] k by (simp add: FREQ_INC_REF_def)
  have le3: "?k - FREQ_INC_REF \<le> freq_inc c" using c(1) p rest by (simp add: word_le_nat_alt)
  have q: "unat ?q = unat (freq_inc c) - (unat (freq_counter c) + r - 1680000)"
    unfolding unat_sub [OF le3] rest ..
  have sum: "unat ?q + (unat (freq_counter c) + r - 1680000) = unat (freq_inc c)"
    using q c(1) p by simp
  have le4: "pos \<le> ?q" unfolding word_le_nat_alt q using p c(1) t by simp
  have "unat (?q - pos) < unat (freq_inc c)" unfolding unat_sub [OF le4] q using p c(1) t by simp
  then have "unat ((?q - pos) div freq_inc c) = 0" by (simp only: unat_div_distrib div_less)
  then have "(?q - pos) div freq_inc c = 0" by (simp only: unat_eq_zero)
  then show "\<exists>q. update_freq c pos = (True, c\<lparr>freq_counter := 0\<rparr>, q) \<and>
        unat q + (unat (freq_counter c) + r - 1680000) = unat (freq_inc c) \<and> (q - pos) div freq_inc c = 0"
    using t big sum by (intro exI [of _ ?q]) (simp only: update_freq_def Let_def if_True simp_thms)
qed

text \<open>What a loop over \<open>update_freq\<close> does to the channel: \<open>f\<close> once per period.\<close>

definition advance :: "(chan \<Rightarrow> chan) \<Rightarrow> nat \<Rightarrow> chan \<Rightarrow> chan" where
  "advance f t c = ((f ^^ periods t) c)\<lparr>freq_counter := of_nat (t - periods t * 1680000)\<rparr>"

lemma advance_none: "t \<le> 1680000 \<Longrightarrow> advance f t c = c\<lparr>freq_counter := of_nat t\<rparr>"
  by (simp add: advance_def periods_none)

lemma advance_step:
  assumes "1680000 < t" "\<And>c k. f (c\<lparr>freq_counter := k\<rparr>) = (f c)\<lparr>freq_counter := k\<rparr>"
  shows "advance f t c = advance f (t - 1680000) (f (c\<lparr>freq_counter := 0\<rparr>))"
proof -
  have pow: "(f ^^ n) (c\<lparr>freq_counter := k\<rparr>) = ((f ^^ n) c)\<lparr>freq_counter := k\<rparr>" for n c k
    by (induction n) (simp_all add: assms(2))
  have "t - Suc (periods (t - 1680000)) * 1680000 = t - 1680000 - periods (t - 1680000) * 1680000" by simp
  then show ?thesis
    using assms(1) by (simp add: advance_def periods_step pow assms(2) funpow_Suc_right del: funpow.simps mult_Suc)
qed

lemma square_tick_simps [simp]:
  "square_tick (c\<lparr>freq_counter := k\<rparr>) = (square_tick c)\<lparr>freq_counter := k\<rparr>"
  "freq_counter (square_tick c) = freq_counter c" "freq_inc (square_tick c) = freq_inc c"
  by (simp_all add: square_tick_def Let_def)

lemma square_steps_eq:
  assumes "unat (freq_counter c) \<le> 1680000" "unat (freq_inc c) \<le> 220200960" "unat pos + r = unat (freq_inc c)"
  shows "square_steps c pos pos s = Some (advance square_tick (unat (freq_counter c) + r) c, s)"
  using assms
proof (induction "unat (freq_counter c) + r" arbitrary: c r pos rule: less_induct)
  case (less c r)
  let ?t = "unat (freq_counter c) + r"
  show ?case
  proof (cases "?t \<le> 1680000")
    case True
    then show ?thesis
      using update_freq_cases(1) [OF less(2-4) True] by (subst square_steps.simps) (simp add: advance_none)
  next
    case False
    then have t: "1680000 < ?t" by simp
    from update_freq_cases(2) [OF less(2-4) t] obtain q where
      q: "update_freq c pos = (True, c\<lparr>freq_counter := 0\<rparr>, q)" "unat q + (?t - 1680000) = unat (freq_inc c)"
         "(q - pos) div freq_inc c = 0" by blast
    have nz: "freq_inc c \<noteq> 0" using t less(2,4) by (metis add.right_neutral add_is_0 le_antisym nat_less_le unsigned_0)
    let ?c = "(square_tick c)\<lparr>freq_counter := 0\<rparr>"
    have "square_steps ?c q q s = Some (advance square_tick (?t - 1680000) ?c, s)"
      using less(1) [of ?c "?t - 1680000" q] less(2-4) t q(2) by simp
    then show ?thesis
      using q(1,3) nz t by (subst square_steps.simps) (simp add: advance_step)
  qed
qed

lemma lfsr_step_simps [simp]:
  "lfsr_step (c\<lparr>freq_counter := k\<rparr>) = (lfsr_step c)\<lparr>freq_counter := k\<rparr>"
  "freq_counter (lfsr_step c) = freq_counter c" "freq_inc (lfsr_step c) = freq_inc c"
  by (simp_all add: lfsr_step_def lfsr_reg_def set_lfsr_reg_def Let_def)

lemma noise_steps_eq:
  assumes "unat (freq_counter c) \<le> 1680000" "unat (freq_inc c) \<le> 220200960" "unat pos + r = unat (freq_inc c)"
  shows "noise_steps c pos pos s = Some (advance lfsr_step (unat (freq_counter c) + r) c, s)"
  using assms
proof (induction "unat (freq_counter c) + r" arbitrary: c r pos rule: less_induct)
  case (less c r)
  let ?t = "unat (freq_counter c) + r"
  show ?case
  proof (cases "?t \<le> 1680000")
    case True
    then show ?thesis
      using update_freq_cases(1) [OF less(2-4) True] by (subst noise_steps.simps) (simp add: advance_none)
  next
    case False
    then have t: "1680000 < ?t" by simp
    from update_freq_cases(2) [OF less(2-4) t] obtain q where
      q: "update_freq c pos = (True, c\<lparr>freq_counter := 0\<rparr>, q)" "unat q + (?t - 1680000) = unat (freq_inc c)"
         "(q - pos) div freq_inc c = 0" by blast
    have nz: "freq_inc c \<noteq> 0" using t less(2,4) by (metis add.right_neutral add_is_0 le_antisym nat_less_le unsigned_0)
    let ?c = "(lfsr_step c)\<lparr>freq_counter := 0\<rparr>"
    have "noise_steps ?c q q s = Some (advance lfsr_step (?t - 1680000) ?c, s)"
      using less(1) [of ?c "?t - 1680000" q] less(2-4) t q(2) by simp
    then show ?thesis
      using q(1,3) nz t by (subst noise_steps.simps) (simp add: advance_step Let_def)
  qed
qed

text \<open>The wave channel steps through its 32 nibbles; the sample held last is that of its position.\<close>

lemma wave_tick_simps [simp]:
  "wave_tick (c\<lparr>freq_counter := k\<rparr>) = (wave_tick c)\<lparr>freq_counter := k\<rparr>"
  "freq_counter (wave_tick c) = freq_counter c" "freq_inc (wave_tick c) = freq_inc c"
  "volume (wave_tick c) = volume c" "0 \<le> chan_val (wave_tick c)" "chan_val (wave_tick c) < 32"
  by (simp_all add: wave_tick_def)

lemma advance_wave_val:
  "chan_val (advance wave_tick t c) = chan_val ((wave_tick ^^ periods t) c)"
  "volume (advance wave_tick t c) = volume c"
proof -
  have "volume ((wave_tick ^^ n) c) = volume c" for n by (induction n) simp_all
  then show "chan_val (advance wave_tick t c) = chan_val ((wave_tick ^^ periods t) c)"
    "volume (advance wave_tick t c) = volume c" by (simp_all add: advance_def)
qed

lemma high_nibble_lt: "unat (drop_bit 4 (b :: u8)) < 16"
proof -
  have "unat (drop_bit 4 b) = unat b div 16" by (simp add: unat_drop_bit_eq drop_bit_eq_div unat_div_distrib)
  then show ?thesis using u8_lt [of b] by linarith
qed

lemma wave_sample_total:
  assumes "apu_ok x" "0 \<le> v" "v < 32"
  shows "\<exists>w. wave_sample x (nat v) k = Some w \<and> -8 \<le> w \<and> w \<le> 7"
proof -
  have i: "0x20 + nat v div 2 < length (audio_mem x)" using assms by (simp add: apu_ok_def)
  define nib where "nib = (if odd (nat v) then audio_mem x ! (0x20 + nat v div 2) AND 0xF
    else drop_bit 4 (audio_mem x ! (0x20 + nat v div 2)))"
  have nib: "unat nib < 16" by (simp add: nib_def unat_and_lt high_nibble_lt)
  have n: "0 \<le> uint nib" "uint nib < 16" using nib unfolding uint_nat by linarith+
  have "-8 \<le> (uint nib - 8) div 2 ^ (k - 1) \<and> (uint nib - 8) div 2 ^ (k - 1) \<le> 7"
  proof (cases "8 \<le> uint nib")
    case True
    then have "0 \<le> uint nib - 8" by simp
    moreover have "(uint nib - 8) div 2 ^ (k - 1) \<le> (uint nib - 8) div 1"
      by (rule zdiv_mono2) (use True in auto)
    moreover have "0 \<le> (uint nib - 8) div 2 ^ (k - 1)" using True by (simp add: pos_imp_zdiv_nonneg_iff)
    ultimately show ?thesis using n by auto
  next
    case False
    have "(uint nib - 8) div 1 \<le> (uint nib - 8) div 2 ^ (k - 1)"
      by (rule zdiv_mono2_neg) (use False in auto)
    moreover have "(uint nib - 8) div 2 ^ (k - 1) \<le> 0" using False by (simp add: div_nonpos_pos_le0)
    ultimately show ?thesis using n unfolding div_by_1 by linarith
  qed
  then show ?thesis using i by (auto simp: wave_sample_def nib_def Let_def)
qed

lemma wave_steps_eq:
  assumes "unat (freq_counter c) \<le> 1680000" "unat (freq_inc c) \<le> 220200960" "unat pos + r = unat (freq_inc c)"
    and "apu_ok x" "0 \<le> chan_val c" "chan_val c < 32" "wave_sample x (nat (chan_val c)) (unat (volume c)) = Some w"
  shows "\<exists>w'. wave_steps x c w pos pos s = Some (advance wave_tick (unat (freq_counter c) + r) c, w', s) \<and>
    wave_sample x (nat (chan_val (advance wave_tick (unat (freq_counter c) + r) c))) (unat (volume c)) = Some w'"
  using assms
proof (induction "unat (freq_counter c) + r" arbitrary: c r pos w rule: less_induct)
  case (less c r)
  let ?t = "unat (freq_counter c) + r"
  show ?case
  proof (cases "?t \<le> 1680000")
    case True
    then show ?thesis
      using update_freq_cases(1) [OF less(2-4) True] less(8)
      by (subst wave_steps.simps) (simp add: advance_none)
  next
    case False
    then have t: "1680000 < ?t" by simp
    from update_freq_cases(2) [OF less(2-4) t] obtain q where
      q: "update_freq c pos = (True, c\<lparr>freq_counter := 0\<rparr>, q)" "unat q + (?t - 1680000) = unat (freq_inc c)"
         "(q - pos) div freq_inc c = 0" by blast
    have nz: "freq_inc c \<noteq> 0" using t less(2,4) by (metis add.right_neutral add_is_0 le_antisym nat_less_le unsigned_0)
    let ?c = "(wave_tick c)\<lparr>freq_counter := 0\<rparr>"
    obtain v where v: "wave_sample x (nat (chan_val (wave_tick c))) (unat (volume c)) = Some v"
      using wave_sample_total [OF less(5), of "chan_val (wave_tick c)"] by auto
    have "\<exists>w'. wave_steps x ?c v q q s = Some (advance wave_tick (?t - 1680000) ?c, w', s) \<and>
        wave_sample x (nat (chan_val (advance wave_tick (?t - 1680000) ?c))) (unat (volume c)) = Some w'"
      using less(1) [of ?c "?t - 1680000" q v] less(2-5) t q(2) v by simp
    then show ?thesis
      using q(1,3) nz t v
      by (subst wave_steps.simps) (simp add: advance_step Let_def)
  qed
qed

section \<open>A frame of sound\<close>

lemma mix_ok:
  "i + 1 < length samples \<Longrightarrow> okp (mix i k c x samples) (\<lambda>t. length t = length samples)"
  by (simp add: mix_def)

lemma advance_ok:
  assumes "\<And>c. chan_ok i c \<Longrightarrow> chan_ok i (f c)" "chan_ok i c"
  shows "chan_ok i (advance f t c)"
proof -
  have p: "chan_ok i ((f ^^ n) c)" for n by (induction n) (simp_all add: assms)
  have "unat (of_nat (t - periods t * 1680000) :: u32) \<le> 1680000"
  proof -
    have "t - periods t * 1680000 \<le> 1680000"
      unfolding periods_def by (cases t) (auto simp: minus_div_mult_eq_mod [symmetric] intro: less_imp_le_nat)
    then show ?thesis by (simp add: unsigned_of_nat take_bit_eq_mod)
  qed
  with p [of "periods t"] show ?thesis by (simp add: advance_def chan_ok_def)
qed

lemma vol_values: "VOL_HIGH = 273" "VOL_LOW = -273"
  by (simp_all add: VOL_HIGH_def VOL_LOW_def signed_divide_int_def)

lemma square_tick_ok: "chan_ok i c \<Longrightarrow> i \<noteq> 2 \<Longrightarrow> chan_ok i (square_tick c)"
  by (simp add: square_tick_def Let_def chan_ok_def vol_values)

lemma lfsr_step_ok: "chan_ok 3 c \<Longrightarrow> chan_ok 3 (lfsr_step c)"
  by (simp add: lfsr_step_def set_lfsr_reg_def Let_def chan_ok_def vol_values)

lemma wave_tick_ok: "chan_ok 2 c \<Longrightarrow> chan_ok 2 (wave_tick c)"
  by (simp add: wave_tick_def chan_ok_def)

lemma square_loop_ok:
  assumes "apu_ok x" "ch < 2" "length samples = AUDIO_SAMPLES_TOTAL" "i + 2 * n \<le> AUDIO_SAMPLES_TOTAL"
  shows "okp (square_loop ch n i x samples) (\<lambda>(y, t). apu_ok y \<and> length t = AUDIO_SAMPLES_TOTAL)"
  using assms
proof (induction n arbitrary: i x samples)
  case 0
  then show ?case by simp
next
  case (Suc n)
  let ?x = "update_len ch x"
  have x: "apu_ok ?x" using Suc(2,3) by (simp add: update_len_ok)
  define c where "c = update_env (chans ?x ! ch)"
  have c: "chan_ok ch c" "ch_enabled c = ch_enabled (chans ?x ! ch)"
    using update_env_ok [OF apu_okD(7) [OF x, of ch]] Suc(3) by (simp_all add: c_def)
  have i: "i + 2 + 2 * n \<le> AUDIO_SAMPLES_TOTAL" "i + 1 < length samples" using Suc(4,5) by auto
  consider "\<not> ch_enabled (chans ?x ! ch)" | "ch_enabled (chans ?x ! ch)" "volume c = 0"
    | "ch_enabled (chans ?x ! ch)" "volume c \<noteq> 0" by blast
  then show ?case
  proof cases
    case 1
    then show ?thesis using x Suc(4) by (simp add: Let_def)
  next
    case 2
    then show ?thesis
      using Suc(1) [OF set_chan_ok [OF x c(1)] Suc(3,4) i(1)] by (simp add: Let_def c_def [symmetric])
  next
    case 3
    obtain d where d: "(if ch = 0 then update_sweep c else Some c) = Some d" "chan_ok ch d"
      using update_sweep_ok [of c] c(1) by (cases "ch = 0") (auto simp: okp_iff)
    let ?d = "advance square_tick (unat (freq_counter d) + unat (freq_inc d)) d"
    have st: "square_steps d 0 0 0 = Some (?d, 0)"
      using d(2) by (intro square_steps_eq) (simp_all add: chan_ok_def)
    have ok: "chan_ok ch ?d" using Suc(3) by (intro advance_ok d(2) square_tick_ok) auto
    let ?k = "(sint (0 + of_int (chan_val ?d) :: i32) * uint (volume ?d)) sdiv 4"
    obtain t where t: "mix i ?k ?d ?x samples = Some t" "length t = AUDIO_SAMPLES_TOTAL"
      using mix_ok [OF i(2), of ?k ?d ?x] Suc(4) by (auto simp: okp_iff)
    from Suc(1) [OF set_chan_ok [OF x ok] Suc(3) t(2) i(1)] show ?thesis
      using 3 d(1) st t(1) by (simp add: Let_def c_def [symmetric])
  qed
qed

lemma noise_loop_ok:
  assumes "apu_ok x" "length samples = AUDIO_SAMPLES_TOTAL" "i + 2 * n \<le> AUDIO_SAMPLES_TOTAL"
  shows "okp (noise_loop n i x samples) (\<lambda>(y, t). apu_ok y \<and> length t = AUDIO_SAMPLES_TOTAL)"
  using assms
proof (induction n arbitrary: i x samples)
  case 0
  then show ?case by simp
next
  case (Suc n)
  let ?x = "update_len 3 x"
  have x: "apu_ok ?x" using Suc(2) by (simp add: update_len_ok)
  define c where "c = update_env (chans ?x ! 3)"
  have c: "chan_ok 3 c" using update_env_ok [OF apu_okD(7) [OF x, of 3]] by (simp add: c_def)
  have i: "i + 2 + 2 * n \<le> AUDIO_SAMPLES_TOTAL" "i + 1 < length samples" using Suc(3,4) by auto
  consider "\<not> ch_enabled (chans ?x ! 3)" | "ch_enabled (chans ?x ! 3)" "volume c = 0"
    | "ch_enabled (chans ?x ! 3)" "volume c \<noteq> 0" by blast
  then show ?case
  proof cases
    case 1
    then show ?thesis using x Suc(3) by (simp add: Let_def)
  next
    case 2
    then show ?thesis
      using Suc(1) [OF set_chan_ok [OF x c] Suc(3) i(1)] by (simp add: Let_def c_def [symmetric])
  next
    case 3
    let ?d = "advance lfsr_step (unat (freq_counter c) + unat (freq_inc c)) c"
    have st: "noise_steps c 0 0 0 = Some (?d, 0)"
      using c by (intro noise_steps_eq) (simp_all add: chan_ok_def)
    have ok: "chan_ok 3 ?d" by (intro advance_ok c lfsr_step_ok) auto
    let ?k = "(sint (0 + of_int (chan_val ?d) :: i32) * uint (volume ?d)) sdiv 4"
    obtain t where t: "mix i ?k ?d ?x samples = Some t" "length t = AUDIO_SAMPLES_TOTAL"
      using mix_ok [OF i(2), of ?k ?d ?x] Suc(3) by (auto simp: okp_iff)
    from Suc(1) [OF set_chan_ok [OF x ok] t(2) i(1)] show ?thesis
      using 3 st t(1) by (simp add: Let_def c_def [symmetric])
  qed
qed

lemma wave_loop_ok:
  assumes "apu_ok x" "length samples = AUDIO_SAMPLES_TOTAL" "i + 2 * n \<le> AUDIO_SAMPLES_TOTAL"
  shows "okp (wave_loop n i x samples) (\<lambda>(y, t). apu_ok y \<and> length t = AUDIO_SAMPLES_TOTAL)"
  using assms
proof (induction n arbitrary: i x samples)
  case 0
  then show ?case by simp
next
  case (Suc n)
  define y where "y = update_len 2 x"
  define c where "c = chans y ! 2"
  have y: "apu_ok y" using Suc(2) by (simp add: y_def update_len_ok)
  have c: "chan_ok 2 c" using apu_okD(7) [OF y] by (simp add: c_def)
  then have bounds: "unat (freq_counter c) \<le> 1680000" "unat (freq_inc c) \<le> 220200960"
    "0 \<le> chan_val c" "chan_val c < 32" "volume c \<le> 3" by (simp_all add: chan_ok_def)
  have i: "i + 2 + 2 * n \<le> AUDIO_SAMPLES_TOTAL" "i + 1 < length samples" using Suc(3,4) by auto
  show ?case
  proof (cases "ch_enabled c")
    case False
    then show ?thesis using y Suc(3) by (simp add: Let_def y_def [symmetric] c_def [symmetric])
  next
    case True
    obtain w where w: "wave_sample y (nat (chan_val c)) (unat (volume c)) = Some w"
      using wave_sample_total [OF y bounds(3,4)] by blast
    define d where "d = advance wave_tick (unat (freq_counter c) + unat (freq_inc c)) c"
    obtain v where st: "wave_steps y c w 0 0 0 = Some (d, v, 0)"
      using wave_steps_eq [OF bounds(1,2) _ y bounds(3,4) w, of 0] by (auto simp: d_def)
    have d: "chan_ok 2 d" unfolding d_def by (intro advance_ok c wave_tick_ok) auto
    then have ok: "chan_ok 2 (d\<lparr>un0 := of_int v\<rparr>)" by (simp add: chan_ok_def)
    have "unat (volume d) < 4" using d by (simp add: chan_ok_def word_le_nat_alt)
    then obtain k where k: "mem_get [32767, 1, 2, 4] (unat (volume d)) = Some (k :: int)" by (simp add: mem_get_def)
    let ?out = "(sint (0 + of_int (v * (32767 div 32)) :: i16) sdiv k) sdiv 4"
    obtain t where t: "mix i ?out (d\<lparr>un0 := of_int v\<rparr>) y samples = Some t" "length t = AUDIO_SAMPLES_TOTAL"
      using mix_ok [OF i(2), of ?out "d\<lparr>un0 := of_int v\<rparr>" y] Suc(3) by (auto simp: okp_iff)
    from Suc(1) [OF set_chan_ok [OF y ok] t(2) i(1)] show ?thesis
      using True w st k t(1) by (simp add: Let_def y_def [symmetric] c_def [symmetric])
  qed
qed

lemma update_square_ok:
  assumes "apu_ok x" "ch < 2" "length samples = AUDIO_SAMPLES_TOTAL"
  shows "okp (update_square ch x samples) (\<lambda>(y, t). apu_ok y \<and> length t = AUDIO_SAMPLES_TOTAL)"
proof (cases "ch_powered (chans x ! ch) \<and> ch_enabled (chans x ! ch)")
  case False
  then show ?thesis using assms by (auto simp: update_square_def Let_def)
next
  case True
  have c: "chan_ok ch (chans x ! ch)" using apu_okD(7) [OF assms(1)] assms(2) by simp
  then have "freq (chans x ! ch) \<le> 2047" using True assms(2) by (auto simp: chan_ok_def less_2_cases_iff)
  from set_note_freq_ok [OF this] obtain k where
    k: "set_note_freq (chans x ! ch) = Some ((chans x ! ch)\<lparr>freq_inc := k\<rparr>)" "unat k \<le> 110100480" .
  have "chan_ok ch ((chans x ! ch)\<lparr>freq_inc := k\<rparr>)" using c k(2) by (auto simp: chan_ok_def)
  from square_loop_ok [OF set_chan_ok [OF assms(1) this] assms(2,3), of 0 AUDIO_SAMPLES]
  show ?thesis using True k(1) by (simp add: update_square_def Let_def AUDIO_SAMPLES_TOTAL_def)
qed

lemma update_wave_ok:
  assumes "apu_ok x" "length samples = AUDIO_SAMPLES_TOTAL"
  shows "okp (update_wave x samples) (\<lambda>(y, t). apu_ok y \<and> length t = AUDIO_SAMPLES_TOTAL)"
proof (cases "ch_powered (chans x ! 2) \<and> ch_enabled (chans x ! 2) \<and> volume (chans x ! 2) \<noteq> 0")
  case False
  then show ?thesis using assms by (auto simp: update_wave_def Let_def)
next
  case True
  have c: "chan_ok 2 (chans x ! 2)" using apu_okD(7) [OF assms(1)] by simp
  then have "freq (chans x ! 2) \<le> 2047" by (simp add: chan_ok_def)
  from set_note_freq_ok [OF this] obtain k where
    k: "set_note_freq (chans x ! 2) = Some ((chans x ! 2)\<lparr>freq_inc := k\<rparr>)" "unat k \<le> 110100480" .
  have "unat (k * 2) \<le> 220200960" using k(2) by (simp add: unat_word_ariths take_bit_eq_mod)
  then have "chan_ok 2 ((chans x ! 2)\<lparr>freq_inc := k * 2\<rparr>)" using c by (simp add: chan_ok_def)
  from wave_loop_ok [OF set_chan_ok [OF assms(1) this] assms(2), of 0 AUDIO_SAMPLES]
  show ?thesis using True k(1) by (simp add: update_wave_def Let_def AUDIO_SAMPLES_TOTAL_def)
qed

lemma noise_divisor:
  assumes "f < 14" "k < 8"
  shows "8 \<le> push_bit f (lfsr_div_lut ! k)"
proof -
  have "\<forall>k \<in> set [0..<8]. \<forall>f \<in> set [0..<14]. 8 \<le> push_bit f (lfsr_div_lut ! k)"
    by code_simp
  then show ?thesis using assms by simp
qed

lemma update_noise_ok:
  assumes "apu_ok x" "length samples = AUDIO_SAMPLES_TOTAL"
  shows "okp (update_noise x samples) (\<lambda>(y, t). apu_ok y \<and> length t = AUDIO_SAMPLES_TOTAL)"
proof -
  define c where "c = (if 14 \<le> freq (chans x ! 3) then (chans x ! 3)\<lparr>ch_enabled := False\<rparr> else chans x ! 3)"
  have c: "chan_ok 3 c" using apu_okD(7) [OF assms(1), of 3] by (simp add: c_def chan_ok_def)
  then have y: "apu_ok (set_chan 3 c x)" by (rule set_chan_ok [OF assms(1)])
  show ?thesis
  proof (cases "ch_powered c \<and> ch_enabled c")
    case False
    then show ?thesis using assms y by (auto simp: update_noise_def Let_def c_def [symmetric])
  next
    case True
    have f: "unat (freq c) < 14" using True by (auto simp: c_def word_le_nat_alt split: if_splits)
    have u: "unat (un3 c) < 8" using c by (simp add: chan_ok_def word_less_nat_alt)
    let ?d = "push_bit (unat (freq c)) (lfsr_div_lut ! unat (un3 c))"
    have d: "8 \<le> unat ?d" using noise_divisor [OF f u] by (simp add: word_le_nat_alt)
    have "unat (4194304 div ?d) = 4194304 div unat ?d" by (simp add: unat_div_distrib)
    then have "unat (4194304 div ?d) \<le> 524288" using div_le_mono2 [OF _ d, of 4194304] by simp
    then have k: "unat ((4194304 div ?d) * 105) \<le> 220200960"
      by (subst unat_mult_lem [THEN iffD1]) simp_all
    have "chan_ok 3 (c\<lparr>freq_inc := (4194304 div ?d) * 105\<rparr>)" using c k by (simp add: chan_ok_def)
    from noise_loop_ok [OF set_chan_ok [OF y this] assms(2), of 0 AUDIO_SAMPLES]
    have *: "okp (noise_loop AUDIO_SAMPLES 0 (set_chan 3 (c\<lparr>freq_inc := (4194304 div ?d) * 105\<rparr>) (set_chan 3 c x)) samples)
        (\<lambda>(y, t). apu_ok y \<and> length t = AUDIO_SAMPLES_TOTAL)" by (simp add: AUDIO_SAMPLES_TOTAL_def)
    have "?d \<noteq> 0" using d by (metis unsigned_0 not_numeral_le_zero)
    moreover have "mem_get lfsr_div_lut (unat (un3 c)) = Some (lfsr_div_lut ! unat (un3 c))"
      using u by (simp add: mem_get_def lfsr_div_lut_def)
    moreover have "update_noise x samples = (do {
        d \<leftarrow> mem_get lfsr_div_lut (unat (un3 c));
        let d = push_bit (unat (freq c)) d;
        (if d = 0 then None
         else noise_loop AUDIO_SAMPLES 0 (set_chan 3 (c\<lparr>freq_inc := (4194304 div d) * 105\<rparr>) (set_chan 3 c x)) samples)
      })" using True by (simp only: update_noise_def Let_def c_def [symmetric]) simp
    ultimately show ?thesis using * by (simp add: Let_def)
  qed
qed

lemma audio_callback_ok:
  assumes "apu_ok x"
  shows "okp (minigb_apu_audio_callback x) (\<lambda>(y, t). apu_ok y \<and> length t = AUDIO_SAMPLES_TOTAL)"
  unfolding minigb_apu_audio_callback_def
  apply (rule okp_bind2I [where P = "\<lambda>y t. apu_ok y \<and> length t = AUDIO_SAMPLES_TOTAL"])
   apply (rule update_square_ok [OF assms]; simp)
  apply (rule okp_bind2I [where P = "\<lambda>y t. apu_ok y \<and> length t = AUDIO_SAMPLES_TOTAL"])
   apply (rule update_square_ok; simp)
  apply (rule okp_bind2I [where P = "\<lambda>y t. apu_ok y \<and> length t = AUDIO_SAMPLES_TOTAL"])
   apply (rule update_wave_ok; simp)
  apply (rule update_noise_ok; simp)
  done

section \<open>The registers keep the invariant\<close>

lemma unat_ucast8: "unat (ucast (v :: u8) :: u16) = unat v" "unat (ucast (v :: u8) :: u32) = unat v"
  using u8_lt [of v] by (simp_all add: unsigned_ucast_eq take_bit_eq_mod del: u8_lt)

lemma or_less_2048:
  assumes "unat (x :: u16) < 2048" "unat y < 2048"
  shows "x OR y \<le> 2047"
proof -
  have "x \<le> 2047" "y \<le> 2047" using assms by (simp_all add: word_le_nat_alt)
  then have "uint x < 2 ^ 11" "uint y < 2 ^ 11" by (simp_all add: word_le_def)
  then have "uint x OR uint y < 2 ^ 11" by (intro OR_upper) simp_all
  then have "uint (x OR y) < 2048" by (simp add: uint_or)
  then show ?thesis by (simp add: word_le_def)
qed

lemma freq_low: "freq c \<le> 2047 \<Longrightarrow> (freq c AND 0xFF00) OR ucast (v :: u8) \<le> 2047"
proof (rule or_less_2048)
  assume "freq c \<le> 2047"
  then have "freq c AND 0xFF00 \<le> 2047" using word_and_le2 order_trans by blast
  then show "unat (freq c AND 0xFF00) < 2048" by (simp add: word_le_nat_alt)
  show "unat (ucast v :: u16) < 2048" using u8_lt [of v] by (simp add: unat_ucast8 del: u8_lt)
qed

lemma freq_high: "(f AND 0x00FF) OR push_bit 8 (ucast (v AND 7 :: u8)) \<le> (2047 :: u16)"
proof (rule or_less_2048)
  have "unat (f AND 0x00FF) < 256" by (rule unat_and_lt) simp
  then show "unat (f AND 0x00FF) < 2048" by simp
  have "unat (v AND 7) < 8" by (rule unat_and_lt) simp
  then show "unat (push_bit 8 (ucast (v AND 7)) :: u16) < 2048"
    by (simp add: push_bit_eq_mult unat_word_ariths unsigned_ucast_eq take_bit_eq_mod)
qed

lemma and_le_mask: "v AND m \<le> (m :: 'a :: len word)"
  by (rule word_and_le1)

lemma high_nibble_le: "drop_bit 4 (b :: u8) \<le> 15"
  using high_nibble_lt [of b] unfolding word_le_nat_alt by simp

lemma trigger_chan_ok:
  assumes "chan_ok i c"
  shows "chan_ok i (trigger_chan i v inc v10 c) \<and> len_load (trigger_chan i v inc v10 c) = len_load c"
proof (cases "i = 0")
  case True
  then show ?thesis using assms by (simp add: trigger_chan_def Let_def chan_ok_def)
next
  case False
  then show ?thesis using assms by (auto simp: trigger_chan_def Let_def chan_ok_def set_lfsr_reg_def vol_values)
qed

lemma chan_trigger_ok:
  assumes "apu_ok x" "i < 4" "i = 0 \<Longrightarrow> freq (chans x ! 0) \<le> 2047"
  shows "okp (chan_trigger i x) apu_ok"
proof -
  define y where "y = chan_enable i True x"
  have y: "apu_ok y" unfolding y_def by (rule chan_enable_ok [OF assms(1,2)]) (use assms(3) in auto)
  have c: "chan_ok i (chans y ! i)" using apu_okD(7) [OF y assms(2)] .
  have "length (audio_mem y) = 48" using y by (simp add: apu_ok_def)
  then obtain v where v: "mem_get (audio_mem y) (2 + i * 5) = Some v" using assms(2) by (simp add: mem_get_def)
  have "unat (v AND 7) < 8" by (rule unat_and_lt) simp
  then obtain inc where inc: "mem_get env_inc_lut (unat (v AND 7)) = Some inc" by (simp add: mem_get_def env_inc_lut_def)
  let ?load = "unat (ucast (len_load (chans y ! i)) :: u32)"
  have l: "?load = unat (len_load (chans y ! i))"
    by (rule unat_ucast8)
  let ?max = "if i = 2 then 256 else 64 :: u32"
  have less: "?load < unat ?max"
    using c l by (auto simp: chan_ok_def word_less_nat_alt)
  then have "unat (?max - ucast (len_load (chans y ! i))) = unat ?max - ?load"
    by (intro unat_sub) (simp add: word_le_nat_alt)
  then have "0 < unat (?max - ucast (len_load (chans y ! i)))" "unat (?max - ucast (len_load (chans y ! i))) \<le> 256"
    using less by auto
  then have "0 < unat (16000 * (?max - ucast (len_load (chans y ! i))))"
    by (subst unat_mult_lem [THEN iffD1]) simp_all
  then have d: "16000 * (?max - ucast (len_load (chans y ! i))) \<noteq> 0" by (metis less_irrefl unsigned_0)
  obtain v10 where v10: "mem_get (audio_mem y) 0 = Some v10" using y by (simp add: apu_ok_def)
  let ?c = "trigger_chan i v inc v10 (chans y ! i)"
  have t: "chan_ok i ?c" "len_load ?c = len_load (chans y ! i)" using trigger_chan_ok [OF c] by auto
  let ?inc = "(256 * FREQ_INC_REF) div (16000 * (?max - ucast (len_load ?c)))"
  have "chan_ok i (?c\<lparr>len_inc := ?inc, len_counter := 0\<rparr>)" using t(1) by (auto simp: chan_ok_def)
  from set_chan_ok [OF y this]
  have "okp (Some (set_chan i (?c\<lparr>len_inc := ?inc, len_counter := 0\<rparr>) y)) apu_ok" by simp
  moreover have "chan_trigger i x = Some (set_chan i (?c\<lparr>len_inc := ?inc, len_counter := 0\<rparr>) y)"
    unfolding chan_trigger_def y_def [symmetric] Let_def v inc v10 bind.bind_lunit t(2) if_not_P [OF d] ..
  ultimately show ?thesis by simp
qed

lemma write_envelope_ok: "chan_ok i c \<Longrightarrow> i \<noteq> 2 \<Longrightarrow> chan_ok i (write_envelope v c)"
  using and_le_mask [of _ "0x0F :: u8"]
  by (auto simp: write_envelope_def Let_def chan_ok_def high_nibble_le)

lemma trigger_control_ok:
  assumes "apu_ok x" "i < 4" "i = 0 \<Longrightarrow> freq (chans x ! 0) \<le> 2047"
  shows "okp (trigger_control i v x) apu_ok"
proof -
  let ?x = "upd_chan i (\<lambda>c. c\<lparr>len_enabled := v AND 0x40\<rparr>) x"
  have x: "apu_ok ?x" by (rule upd_chan_ok [OF assms(1,2)]) (auto simp: chan_ok_def)
  have "i = 0 \<Longrightarrow> freq (chans ?x ! 0) \<le> 2047" using assms by (simp add: upd_chan_def apu_ok_def)
  with x show ?thesis using chan_trigger_ok [OF x assms(2)] by (simp add: trigger_control_def Let_def)
qed

lemma write_panning_ok: "apu_ok x \<Longrightarrow> apu_ok (write_panning v x)"
proof -
  have "chan_ok i c \<Longrightarrow> chan_ok i (c\<lparr>on_left := a AND 1, on_right := b AND 1\<rparr>)" for i c a b
    by (simp add: chan_ok_def and_le_mask)
  then show "apu_ok x \<Longrightarrow> ?thesis" by (simp add: apu_ok_def write_panning_def nth_append)
qed

lemma freq_low_ok: "apu_ok x \<Longrightarrow> i < 3 \<Longrightarrow>
  apu_ok (upd_chan i (\<lambda>c. c\<lparr>freq := (freq c AND 0xFF00) OR ucast (v :: u8)\<rparr>) x)"
  by (rule upd_chan_ok) (auto simp: chan_ok_def freq_low)

lemma freq_high_ok: "apu_ok x \<Longrightarrow> i < 3 \<Longrightarrow>
  apu_ok (upd_chan i (\<lambda>c. c\<lparr>freq := (freq c AND 0x00FF) OR push_bit 8 (ucast (v AND 7 :: u8))\<rparr>) x)"
  by (rule upd_chan_ok) (auto simp: chan_ok_def freq_high)

lemma audio_mem_ok: "apu_ok x \<Longrightarrow> length m = 48 \<Longrightarrow> apu_ok (x\<lparr>audio_mem := m\<rparr>)"
  by (simp add: apu_ok_def)

lemma power_off_ok:
  "apu_ok x \<Longrightarrow> length m = 48 \<Longrightarrow> apu_ok (x\<lparr>audio_mem := replicate 0x16 0 @ drop 0x16 m,
     chans := map (\<lambda>c. c\<lparr>ch_enabled := False\<rparr>) (take 4 (chans x)) @ drop 4 (chans x)\<rparr>)"
proof -
  have "chan_ok i c \<Longrightarrow> chan_ok i (c\<lparr>ch_enabled := False\<rparr>)" for i c by (auto simp: chan_ok_def)
  then show "apu_ok x \<Longrightarrow> length m = 48 \<Longrightarrow> ?thesis" by (simp add: apu_ok_def)
qed

lemma audio_addr:
  assumes "0xFF10 \<le> addr" "addr \<le> 0xFF3F"
  shows "unat (addr - AUDIO_ADDR_COMPENSATION) < 48"
proof -
  have "unat (addr - 0xFF10) = unat addr - 0xFF10" using assms(1) by (subst unat_sub) simp_all
  then show ?thesis using assms(2) by (simp add: AUDIO_ADDR_COMPENSATION_def word_le_nat_alt)
qed

lemma audio_index [simp]:
  "unat (0xFF12 - AUDIO_ADDR_COMPENSATION) div 5 = 0" "unat (0xFF17 - AUDIO_ADDR_COMPENSATION) div 5 = 1"
  "unat (0xFF21 - AUDIO_ADDR_COMPENSATION) div 5 = 3" "unat (0xFF1C - AUDIO_ADDR_COMPENSATION) div 5 = 2"
  "unat (0xFF11 - AUDIO_ADDR_COMPENSATION) div 5 = 0" "unat (0xFF16 - AUDIO_ADDR_COMPENSATION) div 5 = 1"
  "unat (0xFF20 - AUDIO_ADDR_COMPENSATION) div 5 = 3" "unat (0xFF1B - AUDIO_ADDR_COMPENSATION) div 5 = 2"
  "unat (0xFF13 - AUDIO_ADDR_COMPENSATION) div 5 = 0" "unat (0xFF18 - AUDIO_ADDR_COMPENSATION) div 5 = 1"
  "unat (0xFF1D - AUDIO_ADDR_COMPENSATION) div 5 = 2" "unat (0xFF1A - AUDIO_ADDR_COMPENSATION) div 5 = 2"
  "unat (0xFF14 - AUDIO_ADDR_COMPENSATION) div 5 = 0" "unat (0xFF19 - AUDIO_ADDR_COMPENSATION) div 5 = 1"
  "unat (0xFF1E - AUDIO_ADDR_COMPENSATION) div 5 = 2" "unat (0xFF23 - AUDIO_ADDR_COMPENSATION) div 5 = 3"
  "unat (0xFF26 - AUDIO_ADDR_COMPENSATION) = 0x16"
  by (simp_all add: AUDIO_ADDR_COMPENSATION_def)

lemma freq_high_nth:
  "apu_ok x \<Longrightarrow> freq (chans (upd_chan 0 (\<lambda>c. c\<lparr>freq := (freq c AND 0x00FF) OR push_bit 8 (ucast (v AND 7 :: u8))\<rparr>) x) ! 0) \<le> 2047"
  by (simp add: upd_chan_def apu_ok_def freq_high)

lemma audio_write_ok:
  assumes x: "apu_ok x" and a: "0xFF10 \<le> addr" "addr \<le> 0xFF3F"
  shows "okp (minigb_apu_audio_write addr v x) apu_ok"
proof -
  note k = audio_addr [OF a]
  have len: "length (audio_mem x) = 48" using x by (simp add: apu_ok_def)
  have sel: "chan_ok 2 c \<Longrightarrow> chan_ok 2 (c\<lparr>volume := drop_bit 5 v AND 3, volume_init := drop_bit 5 v AND 3\<rparr>)"
    "chan_ok i c \<Longrightarrow> i \<noteq> 2 \<Longrightarrow> chan_ok i (c\<lparr>len_load := v AND 0x3f, un0 := d\<rparr>)"
    "chan_ok 2 c \<Longrightarrow> chan_ok 2 (c\<lparr>len_load := v\<rparr>)"
    "chan_ok 2 c \<Longrightarrow> chan_ok 2 (c\<lparr>ch_powered := b\<rparr>)" for c i d b
    using and_le_mask [of "drop_bit 5 v" 3] and_le_mask [of v "0x3f :: u8"]
    by (auto simp: chan_ok_def elim: order_trans intro: le_less_trans)
  have noise: "chan_ok 3 c \<Longrightarrow> chan_ok 3 (c\<lparr>freq := f, un2 := b, un3 := v AND 7\<rparr>)" for c f b
    using and_le_mask [of v "7 :: u8"] by (auto simp: chan_ok_def intro: le_less_trans)
  have vols: "apu_ok y \<Longrightarrow> apu_ok (y\<lparr>vol_l := uint (drop_bit 4 v AND 7), vol_r := uint (v AND 7)\<rparr>)" for y
    using and_le_mask [of "drop_bit 4 v" "7 :: u8"] and_le_mask [of v "7 :: u8"]
    by (simp add: apu_ok_def word_le_def)
  have duty: "\<exists>d. mem_get duty_lookup (unat (drop_bit 6 v)) = Some d"
  proof -
    have "unat (drop_bit 6 v) = unat v div 64" by (simp add: unat_drop_bit_eq drop_bit_eq_div unat_div_distrib)
    then have "unat (drop_bit 6 v) < 4" using u8_lt [of v] by linarith
    then show ?thesis by (simp add: mem_get_def duty_lookup_def)
  qed
  show ?thesis
  proof (cases "addr = 0xFF26")
    case True
    then show ?thesis
      using x len by (simp add: minigb_apu_audio_write_def Let_def power_off_ok audio_mem_ok)
  next
    case False
    define y where "y = x\<lparr>audio_mem := (audio_mem x)[unat (addr - AUDIO_ADDR_COMPENSATION) := v]\<rparr>"
    have y: "apu_ok y" unfolding y_def by (rule audio_mem_ok [OF x]) (simp add: len)
    obtain d where d: "mem_get duty_lookup (unat (drop_bit 6 v)) = Some d" using duty by blast
    have set: "mem_set (audio_mem x) (unat (addr - AUDIO_ADDR_COMPENSATION)) v = Some (audio_mem y)"
      using k len by (simp add: y_def)
    have y': "x\<lparr>audio_mem := audio_mem y\<rparr> = y" by (simp add: y_def)
    show ?thesis
      unfolding minigb_apu_audio_write_def Let_def set if_not_P [OF False] bind.bind_lunit y' d
      apply (intro okp_if)
      apply (auto intro!: x y upd_chan_ok write_envelope_ok sel noise vols freq_low_ok freq_high_ok
        trigger_control_ok chan_enable_ok write_panning_ok freq_high_nth)
      done
  qed
qed

lemma audio_read_total:
  assumes "apu_ok x" "0xFF10 \<le> addr" "addr \<le> 0xFF3F"
  shows "\<exists>v. minigb_apu_audio_read addr x = Some v"
proof -
  have "length ortab = 48" by (simp add: ortab_def)
  then show ?thesis
    using assms(1) audio_addr [OF assms(2,3)] by (simp add: minigb_apu_audio_read_def apu_ok_def Let_def)
qed

section \<open>Power-up\<close>

text \<open>The context as the session's member initialiser leaves it, before \<open>minigb_apu_audio_init\<close>.\<close>

definition apu_zero :: minigb_apu_ctx where
  "apu_zero = \<lparr>chans = replicate 4 zero_chan, vol_l = 0, vol_r = 0, audio_mem = replicate 48 0\<rparr>"

text \<open>Writes are dropped while NR52 is 0, and NR52 is written last: of \<open>regs_init\<close> only the power bit
  arrives.\<close>

definition apu_start :: minigb_apu_ctx where
  "apu_start = \<lparr>chans = [zero_chan\<lparr>chan_val := -1\<rparr>, zero_chan\<lparr>chan_val := -1\<rparr>, zero_chan, zero_chan],
     vol_l = 0, vol_r = 0, audio_mem = replicate 0x16 0 @ [0x80] @ replicate 9 0 @ wave_init\<rparr>"

lemma audio_init_eq: "minigb_apu_audio_init apu_zero = Some apu_start"
  by code_simp

lemma apu_start_ok: "apu_ok apu_start"
  by (simp add: apu_ok_def all_less_4 chan_ok_def apu_start_def zero_chan_def wave_init_def)

end
