(* ===== verification/Gb_Port.thy ===== *)
theory Gb_Port
  imports Emu_Setup Apu
begin

text \<open>
  components/gb_core/gb_port.cpp, the C interface of the core: creating a session from a ROM
  source, keys, one frame, the mono sound mix, save RAM and the clock of the cartridge.  The
  session's APU is the core's sound context.  A null session or buffer, which every function
  tests for first, has no counterpart here.
\<close>

section \<open>The session\<close>

text \<open>The hooks: the C functions have no error path, so an access outside the register range,
  which the bus never makes, leaves the APU alone.\<close>

definition apu_write :: "minigb_apu_ctx \<Rightarrow> u16 \<Rightarrow> u8 \<Rightarrow> minigb_apu_ctx" where
  "apu_write x addr v = (case minigb_apu_audio_write addr v x of None \<Rightarrow> x | Some y \<Rightarrow> y)"

definition apu_read :: "minigb_apu_ctx \<Rightarrow> u16 \<Rightarrow> u8" where
  "apu_read x addr = (case minigb_apu_audio_read addr x of None \<Rightarrow> 0xFF | Some v \<Rightarrow> v)"

record gb_rom_source =
  src_read :: "(nat \<Rightarrow> nat \<Rightarrow> nat \<Rightarrow> bool \<times> (nat \<Rightarrow> u8)) option"
  src_size :: nat
  src_mapped :: "u8 list option"

record gb_session =
  core :: "minigb_apu_ctx gb"
  frame_count :: nat
  has_batt :: bool
  has_rtc :: bool
  stereo :: "i16 list"

definition supported_cart :: "u8 \<Rightarrow> bool" where
  "supported_cart t \<longleftrightarrow>
     t \<in> {0x00, 0x01, 0x02, 0x03, 0x05, 0x06, 0x0f, 0x10, 0x11, 0x12, 0x13,
           0x19, 0x1a, 0x1b, 0x1c, 0x1d, 0x1e}"

definition declared_rom_size :: "u8 \<Rightarrow> nat" where
  "declared_rom_size code =
     (if code \<le> 7 then 32768 * 2 ^ unat code
      else if code = 0x52 then 72 * 16384
      else if code = 0x53 then 80 * 16384
      else if code = 0x54 then 96 * 16384
      else 0)"

definition battery_cart :: "u8 \<Rightarrow> bool" where
  "battery_cart t \<longleftrightarrow> t \<in> {0x03, 0x06, 0x0f, 0x10, 0x13, 0x1b, 0x1e}"

text \<open>The uninitialised members of the fresh object.\<close>

record core_junk =
  junk_cpu :: cpu_regs
  junk_lcd :: lcd_regs
  junk_sound :: "u8 list"

text \<open>\<open>rom->read\<close> outside the core: call number \<open>k\<close>, \<open>n\<close> bytes at \<open>off\<close>.\<close>

definition source_read :: "(nat \<Rightarrow> nat \<Rightarrow> nat \<Rightarrow> bool \<times> (nat \<Rightarrow> u8)) \<Rightarrow> nat \<Rightarrow> nat \<Rightarrow> nat \<Rightarrow> bool \<times> u8 list" where
  "source_read read k off n = (case read k off n of (good, f) \<Rightarrow> (good, map f [0..<n]))"

text \<open>The streaming set-up: bank 0 is read into memory, everything else goes through one cache slot.
  \<open>None\<close> is a failure.\<close>

definition create_streaming ::
  "heap \<Rightarrow> (nat \<Rightarrow> nat \<Rightarrow> nat \<Rightarrow> bool \<times> (nat \<Rightarrow> u8)) \<Rightarrow> nat \<Rightarrow> minigb_apu_ctx gb \<Rightarrow> minigb_apu_ctx gb option" where
  "create_streaming h read bytes_in s = do {
     bank0 \<leftarrow> malloc h 4 16384;
     cache \<leftarrow> malloc h 5 16384;
     let (good, bank0) = source_read read 1 0 16384;
     (if \<not> good then None
      else
        let (attached, s) = attachRom read bytes_in s
        in if \<not> attached then None
           else Some (setupBankCache bank0 cache 1 [-1] (s\<lparr>rom := (rom s)\<lparr>romIoCalls := 2\<rparr>\<rparr>)))
   }"

text \<open>The end of \<open>gb_port_create\<close>: \<open>loadRom\<close>, \<open>init\<close> and the sound chip.\<close>

definition create_start :: "heap \<Rightarrow> u8 \<Rightarrow> gb_rom_source \<Rightarrow> minigb_apu_ctx gb \<Rightarrow> gb_session option option" where
  "create_start h cart src s = do {
     (loaded, s) \<leftarrow> loadRom (src_mapped src) (src_size src) s;
     (if \<not> loaded then Some None
      else case init h s of (started, s) \<Rightarrow>
        if \<not> started then Some None
        else do {
          apu \<leftarrow> minigb_apu_audio_init (soundContext s);
          Some (Some \<lparr>core = s\<lparr>soundContext := apu, soundWrite := Some apu_write, soundRead := Some apu_read\<rparr>,
            frame_count = 0, has_batt = battery_cart cart, has_rtc = (cart = 0x0f \<or> cart = 0x10),
            stereo = replicate AUDIO_SAMPLES_TOTAL 0\<rparr>)
        })
   }"

text \<open>\<open>gb_port_create\<close>.  \<open>cgb_build\<close> is the build option \<open>GB_ENABLE_CGB\<close>.  The outer \<open>None\<close> is an
  access outside a buffer, the inner one the failure the C function reports by \<open>false\<close>.\<close>

definition gb_port_create ::
  "bool \<Rightarrow> heap \<Rightarrow> core_junk \<Rightarrow> (nat \<Rightarrow> u32) \<Rightarrow> gb_rom_source \<Rightarrow> gb_session option option" where
  "gb_port_create cgb_build h j clock src =
     (case src_read src of
        None \<Rightarrow> Some None
      | Some read \<Rightarrow>
          if src_size src < 32768 \<or> 4194304 < src_size src \<or> src_size src mod 16384 \<noteq> 0 then Some None
          else case source_read read 0 0 0x150 of (good, header) \<Rightarrow>
          if \<not> good then Some None
          else do {
            flag \<leftarrow> mem_get header 0x143;
            cart \<leftarrow> mem_get header 0x147;
            code \<leftarrow> mem_get header 0x148;
            (if flag = 0xc0 \<or> \<not> supported_cart cart \<or> declared_rom_size code \<noteq> src_size src then Some None
             else if \<not> heap_ok h 0 \<or> \<not> heap_ok h 1 then Some None
             else
               let s = new_GBEmulator (junk_cpu j) (junk_lcd j) (junk_sound j) clock apu_zero;
                   s = (if cgb_build \<and> flag AND 0x80 \<noteq> 0 then
                          (case (malloc h 2 0x2000, malloc h 3 0x6000) of
                             (Some v, Some w) \<Rightarrow> Some (enableCgbMode v w s)
                           | _ \<Rightarrow> None)
                        else Some s);
                   s = (case s of None \<Rightarrow> None
                        | Some s \<Rightarrow> if src_mapped src = None then create_streaming h read (src_size src) s else Some s)
               in case s of None \<Rightarrow> Some None
                  | Some s \<Rightarrow> create_start h cart src s)
          })"

section \<open>Playing\<close>

record gb_port_keys =
  key_right :: bool
  key_left :: bool
  key_up :: bool
  key_down :: bool
  key_a :: bool
  key_b :: bool
  key_select :: bool
  key_start :: bool

definition key_mask :: "gb_port_keys \<Rightarrow> u8" where
  "key_mask k =
     flag_if (key_right k) 0x01 OR flag_if (key_left k) 0x02 OR flag_if (key_up k) 0x04 OR
     flag_if (key_down k) 0x08 OR flag_if (key_a k) 0x10 OR flag_if (key_b k) 0x20 OR
     flag_if (key_start k) 0x40 OR flag_if (key_select k) 0x80"

definition gb_port_set_keys :: "gb_port_keys \<Rightarrow> gb_session \<Rightarrow> gb_session" where
  "gb_port_set_keys k x = x\<lparr>core := setInput (key_mask k) (core x)\<rparr>"

definition gb_port_step_frame :: "bool \<Rightarrow> gb_session \<Rightarrow> (bool \<times> gb_session) option" where
  "gb_port_step_frame render x =
     (if romIoFailed (rom (core x)) then Some (False, x)
      else do {
        s \<leftarrow> runFrame ((core x)\<lparr>lcd := (lcd (core x))\<lparr>renderThisFrame := render\<rparr>\<rparr>);
        Some (\<not> romIoFailed (rom s), x\<lparr>core := s, frame_count := frame_count x + 1\<rparr>)
      })"

definition gb_port_framebuffer :: "gb_session \<Rightarrow> u8 list option" where
  "gb_port_framebuffer x = framebuf (bufs (core x))"

definition gb_port_is_cgb :: "gb_session \<Rightarrow> bool" where
  "gb_port_is_cgb x = isCgb (cgb (core x))"

definition gb_port_color_framebuffer :: "gb_session \<Rightarrow> u8 list option" where
  "gb_port_color_framebuffer x = (if gb_port_is_cgb x then colorFramebuf (bufs (core x)) else None)"

definition gb_port_bg_palette :: "gb_session \<Rightarrow> u8 list option" where
  "gb_port_bg_palette x = (if gb_port_is_cgb x then Some (bgPalette (cgb (core x))) else None)"

definition gb_port_obj_palette :: "gb_session \<Rightarrow> u8 list option" where
  "gb_port_obj_palette x = (if gb_port_is_cgb x then Some (objPalette (cgb (core x))) else None)"

text \<open>The stereo samples, averaged with C's truncating division.\<close>

fun mono_mix :: "nat list \<Rightarrow> i16 list \<Rightarrow> i16 list option" where
  "mono_mix [] samples = Some []"
| "mono_mix (i # is) samples = do {
     l \<leftarrow> mem_get samples (i * 2);
     r \<leftarrow> mem_get samples (i * 2 + 1);
     out \<leftarrow> mono_mix is samples;
     Some (of_int ((sint l + sint r) sdiv 2) # out)
   }"

definition gb_port_audio_frame :: "nat \<Rightarrow> gb_session \<Rightarrow> (i16 list \<times> gb_session) option" where
  "gb_port_audio_frame capacity x =
     (if capacity < AUDIO_SAMPLES then Some ([], x)
      else do {
        (apu, samples) \<leftarrow> minigb_apu_audio_callback (soundContext (core x));
        out \<leftarrow> mono_mix [0..<AUDIO_SAMPLES] samples;
        Some (out, x\<lparr>core := (core x)\<lparr>soundContext := apu\<rparr>, stereo := samples\<rparr>)
      })"

section \<open>Save RAM and the cartridge clock\<close>

definition gb_port_sram_size :: "gb_session \<Rightarrow> nat" where
  "gb_port_sram_size x = sramPersistSize (bufs (core x))"

definition gb_port_has_battery :: "gb_session \<Rightarrow> bool" where
  "gb_port_has_battery x = has_batt x"

definition gb_port_needs_save :: "gb_session \<Rightarrow> bool" where
  "gb_port_needs_save x \<longleftrightarrow> has_batt x \<and> (has_rtc x \<or> sramDirty (bufs (core x)))"

definition upd_bufs :: "(mem_bufs \<Rightarrow> mem_bufs) \<Rightarrow> gb_session \<Rightarrow> gb_session" where
  "upd_bufs f x = x\<lparr>core := (core x)\<lparr>bufs := f (bufs (core x))\<rparr>\<rparr>"

definition gb_port_mark_saved :: "gb_session \<Rightarrow> gb_session" where
  "gb_port_mark_saved x = upd_bufs (\<lambda>b. b\<lparr>sramDirty := False\<rparr>) x"

text \<open>A copy between save RAM and a caller's buffer; \<open>Some None\<close> is \<open>false\<close>.\<close>

definition gb_port_read_sram :: "nat \<Rightarrow> nat \<Rightarrow> gb_session \<Rightarrow> u8 list option option" where
  "gb_port_read_sram off n x =
     (if gb_port_sram_size x < off \<or> gb_port_sram_size x - off < n then Some None
      else map_option Some (mem_slice (sramData (bufs (core x))) off n))"

definition gb_port_export_sram :: "nat \<Rightarrow> gb_session \<Rightarrow> u8 list option option" where
  "gb_port_export_sram n x =
     (if n \<noteq> gb_port_sram_size x then Some None
      else map_option Some (mem_slice (sramData (bufs (core x))) 0 n))"

definition gb_port_write_sram :: "nat \<Rightarrow> u8 list \<Rightarrow> gb_session \<Rightarrow> (bool \<times> gb_session) option" where
  "gb_port_write_sram off src x =
     (if gb_port_sram_size x < off \<or> gb_port_sram_size x - off < length src then Some (False, x)
      else do {
        old \<leftarrow> mem_slice (sramData (bufs (core x))) off (length src);
        (if old = src then Some (True, x)
         else do {
           d \<leftarrow> mem_blit (sramData (bufs (core x))) off src;
           Some (True, upd_bufs (\<lambda>b. b\<lparr>sramData := d, sramDirty := True\<rparr>) x)
         })
      })"

definition gb_port_import_sram :: "u8 list \<Rightarrow> gb_session \<Rightarrow> (bool \<times> gb_session) option" where
  "gb_port_import_sram src x =
     (if length src \<noteq> gb_port_sram_size x then Some (False, x)
      else do {
        d \<leftarrow> mem_blit (sramData (bufs (core x))) 0 src;
        Some (True, upd_bufs (\<lambda>b. b\<lparr>sramData := d, sramDirty := True\<rparr>) x)
      })"

definition gb_port_export_rtc :: "gb_session \<Rightarrow> u8 list \<times> gb_session" where
  "gb_port_export_rtc x =
     (let r = tickRTC (rtc (core x))
      in ([rtcSec r, rtcMin r, rtcHour r, rtcDay r, rtcDayHi r] @ rtcLatched r,
          x\<lparr>core := (core x)\<lparr>rtc := r\<rparr>\<rparr>))"

definition gb_port_import_rtc :: "u8 list \<Rightarrow> gb_session \<Rightarrow> gb_session option" where
  "gb_port_import_rtc src x = do {
     sec \<leftarrow> mem_get src 0;
     min \<leftarrow> mem_get src 1;
     hour \<leftarrow> mem_get src 2;
     day \<leftarrow> mem_get src 3;
     hi \<leftarrow> mem_get src 4;
     latch \<leftarrow> mem_slice src 5 5;
     Some (x\<lparr>core := (core x)\<lparr>rtc := (rtc (core x))\<lparr>rtcSec := sec, rtcMin := min, rtcHour := hour,
       rtcDay := day, rtcDayHi := hi, rtcLatched := latch, rtcLastTickMs := 0\<rparr>\<rparr>\<rparr>)
   }"

section \<open>A created session\<close>

definition session_ok :: "gb_session \<Rightarrow> bool" where
  "session_ok x \<longleftrightarrow>
     frame_ok (core x) \<and> apu_ok (soundContext (core x)) \<and>
     soundWrite (core x) = Some apu_write \<and> soundRead (core x) = Some apu_read"

lemma new_blank: "blank (new_GBEmulator c l sr clock ctx)"
  by (simp add: blank_def new_GBEmulator_def)

lemma enableCgb_blank: "blank s \<Longrightarrow> length v = 0x2000 \<Longrightarrow> length w = 0x6000 \<Longrightarrow> blank (enableCgbMode v w s)"
  by (simp add: blank_def enableCgbMode_def)

lemma frame_ok_sound: "frame_ok (s\<lparr>soundContext := x, soundWrite := w, soundRead := r\<rparr>) = frame_ok s"
  by (simp add: frame_ok_def sys_ok_def machine_ok_def wf_gb_def mapped_low_def mapped_high_def)

lemma streaming_ready:
  assumes "create_streaming h read n s = Some t" "32768 \<le> n" "n \<le> 4194304" "n mod 16384 = 0"
  shows "image_ready None n (rom t) \<and> (blank s \<longrightarrow> blank t) \<and> soundContext t = soundContext s"
proof -
  from assms(1) obtain bank0 cache where b: "malloc h 4 16384 = Some bank0" "malloc h 5 16384 = Some cache"
    by (auto simp: create_streaming_def bind_eq_Some_conv)
  obtain good img where g: "source_read read 1 0 16384 = (good, img)" by fastforce
  then have img: "length img = 16384" by (auto simp: source_read_def split: prod.splits)
  have t: "t = setupBankCache img cache 1 [-1] ((snd (attachRom read n s))\<lparr>rom := (rom (snd (attachRom read n s)))\<lparr>romIoCalls := 2\<rparr>\<rparr>)"
    using assms(1) b g by (auto simp: create_streaming_def split: if_splits prod.splits)
  show ?thesis
    using assms(2-4) img malloc_length [OF b(2)] unfolding t
    by (simp add: image_ready_def setupBankCache_def ROM_BANK_SIZE_def)
      (auto simp: blank_def attachRom_def)
qed

text \<open>Creation never leaves a buffer, and what it returns is a well-formed session.\<close>

lemma create_ok:
  assumes m: "\<And>d. src_mapped src = Some d \<Longrightarrow> length d = src_size src"
  shows "okp (gb_port_create cgb_build h j clock src) (\<lambda>r. case r of None \<Rightarrow> True | Some x \<Rightarrow> session_ok x)"
proof (cases "src_read src")
  case None
  then show ?thesis by (simp add: gb_port_create_def)
next
  case (Some read)
  obtain good header where hd: "source_read read 0 0 0x150 = (good, header)" by fastforce
  then have len: "length header = 0x150" by (auto simp: source_read_def split: prod.splits)
  show ?thesis
  proof (cases "src_size src < 32768 \<or> 4194304 < src_size src \<or> src_size src mod 16384 \<noteq> 0 \<or> \<not> good")
    case True
    then show ?thesis using Some hd by (auto simp: gb_port_create_def)
  next
    case False
    then have n: "32768 \<le> src_size src" "src_size src \<le> 4194304" "src_size src mod 16384 = 0" by auto
    define s0 where "s0 = new_GBEmulator (junk_cpu j) (junk_lcd j) (junk_sound j) clock apu_zero"
    define s1 where "s1 = (if cgb_build \<and> header ! 0x143 AND 0x80 \<noteq> 0 then
        (case (malloc h 2 0x2000, malloc h 3 0x6000) of (Some v, Some w) \<Rightarrow> Some (enableCgbMode v w s0) | _ \<Rightarrow> None)
        else Some s0)"
    define s2 where "s2 = (case s1 of None \<Rightarrow> None
        | Some s \<Rightarrow> if src_mapped src = None then create_streaming h read (src_size src) s else Some s)"
    have s1: "blank s \<and> soundContext s = apu_zero" if "s1 = Some s" for s
      using that new_blank [of "junk_cpu j" "junk_lcd j" "junk_sound j" clock apu_zero]
      by (auto simp: s1_def s0_def [symmetric] enableCgb_blank malloc_length split: if_splits option.splits)
        (auto simp: s0_def new_GBEmulator_def enableCgbMode_def)
    have s2: "blank s \<and> soundContext s = apu_zero \<and> image_ready (src_mapped src) (src_size src) (rom s)" if "s2 = Some s" for s
      using that s1 streaming_ready [OF _ n] n m
      by (auto simp: s2_def image_ready_def split: if_splits option.splits)
    have k: "okp (create_start h (header ! 0x147) src s) (\<lambda>r. case r of None \<Rightarrow> True | Some x \<Rightarrow> session_ok x)" if s: "s2 = Some s" for s
    proof -
      obtain ok t where l: "loadRom (src_mapped src) (src_size src) s = Some (ok, t)" "ok \<Longrightarrow> rom_ready t"
        "soundContext t = apu_zero"
        using loadRom_ok [of s "src_mapped src" "src_size src"] loadRom_sound [of "src_mapped src" "src_size src" s] s2 [OF s]
        by (auto simp: okp_iff pcp_def)
      obtain started u where i: "init h t = (started, u)" by fastforce
      have "soundContext u = apu_zero" using init_sound [of h t] l(3) i by simp
      moreover have "frame_ok u" if "ok" "started" using init_ok [OF l(2) [OF that(1)]] i that(2) by simp
      ultimately show ?thesis
        by (auto simp: create_start_def l(1) i audio_init_eq session_ok_def apu_start_ok frame_ok_sound)
    qed
    have "gb_port_create cgb_build h j clock src =
      (if header ! 0x143 = 0xc0 \<or> \<not> supported_cart (header ! 0x147) \<or> declared_rom_size (header ! 0x148) \<noteq> src_size src
       then Some None else if \<not> heap_ok h 0 \<or> \<not> heap_ok h 1 then Some None
       else case s2 of None \<Rightarrow> Some None | Some s \<Rightarrow> create_start h (header ! 0x147) src s)"
      using False len
      by (simp add: gb_port_create_def Some hd Let_def s0_def [symmetric] s1_def [symmetric] s2_def [symmetric])
    then show ?thesis using k by (auto split: option.split)
  qed
qed

end
