(* ===== verification/Emu_Behaviour.thy ===== *)
theory Emu_Behaviour
  imports Gb_Port
begin

text \<open>
  What the parts of the emulator compute, over the definitions of the component theories: decimal
  adjustment, the mapper's bank registers, work RAM and its echo, the cartridge clock, the HALT
  shortcut, and the copies between a session and its caller.
\<close>

section \<open>A machine to instantiate hypotheses with\<close>

text \<open>A reset 32 KB ROM-only machine with its image mapped, colour mode off.\<close>

definition demo_base :: "minigb_apu_ctx gb" where
  "demo_base = new_GBEmulator reset_cpu
     \<lparr>lcdc = 0, lcdstat = 0, scy = 0, scx = 0, ly = 0, lyc = 0, bgp = 0, obp0 = 0, obp1 = 0, wy = 0, wx = 0,
      ppuMode = 0, ppuDots = 0, frameOvershoot = 0, lcdChanged = False, lcdFirstFrame = False,
      renderThisFrame = False, windowLine = 0, prevStatLine = False\<rparr>
     (replicate 0x30 0) (\<lambda>_. 0) apu_start"

definition demo_gb :: "minigb_apu_ctx gb" where
  "demo_gb = (reset (demo_base\<lparr>
     rom := (rom demo_base)\<lparr>romData := Some (replicate 0x8000 0), romSize := 0x8000, romBankCount := 2, romInRam := True\<rparr>,
     mbc := (mbc demo_base)\<lparr>mbcType := MBC_NONE\<rparr>,
     bufs := (bufs demo_base)\<lparr>framebuf := Some (replicate GB_FB_SIZE 0), vram := replicate GB_VRAM_SIZE 0,
       wram := replicate GB_WRAM_SIZE 0, sramData := [0]\<rparr>\<rparr>))\<lparr>soundWrite := Some apu_write, soundRead := Some apu_read\<rparr>"

lemma frame_ok_hooks: "frame_ok (s\<lparr>soundWrite := w, soundRead := r\<rparr>) = frame_ok s"
  by (simp add: frame_ok_def sys_ok_def machine_ok_def wf_gb_def mapped_low_def mapped_high_def)

lemma demo_frame_ok: "frame_ok demo_gb"
proof -
  have "buffers_ready (demo_base\<lparr>
     rom := (rom demo_base)\<lparr>romData := Some (replicate 0x8000 0), romSize := 0x8000, romBankCount := 2, romInRam := True\<rparr>,
     mbc := (mbc demo_base)\<lparr>mbcType := MBC_NONE\<rparr>,
     bufs := (bufs demo_base)\<lparr>framebuf := Some (replicate GB_FB_SIZE 0), vram := replicate GB_VRAM_SIZE 0,
       wram := replicate GB_WRAM_SIZE 0, sramData := [0]\<rparr>\<rparr>)"
    by (simp only: buffers_ready_def demo_base_def new_GBEmulator_def gb.simps mem_bufs.simps mbc_regs.simps
        rom_regs.simps length_replicate)
      (simp add: wf_rom_def ROM_BANK_SIZE_def)
  from reset_ok [OF this] show ?thesis
    unfolding demo_gb_def frame_ok_hooks .
qed

lemma demo_wf: "wf_gb demo_gb" "sys_ok demo_gb"
  using demo_frame_ok by (simp_all add: frame_ok_def sys_ok_def machine_ok_def)

text \<open>The demo machine in a session.\<close>

definition demo_session :: gb_session where
  "demo_session = \<lparr>core = demo_gb, frame_count = 0, has_batt = False, has_rtc = False,
     stereo = replicate AUDIO_SAMPLES_TOTAL 0\<rparr>"

lemma demo_sound: "soundContext demo_gb = apu_start"
  by (simp add: demo_gb_def reset_def refreshMappedRomBanks_def demo_base_def new_GBEmulator_def)

lemma demo_session_ok: "session_ok demo_session"
  unfolding session_ok_def using demo_frame_ok apu_start_ok
  by (simp add: demo_session_def demo_sound) (simp add: demo_gb_def)

section \<open>Decimal arithmetic\<close>

definition bcd :: "nat \<Rightarrow> u8" where
  "bcd n = of_nat (16 * (n div 10) + n mod 10)"

text \<open>The flags ADD and SUB leave for digits \<open>s\<close> (tens) and \<open>t\<close> (ones), all cases.\<close>

definition daa_add_case :: "nat \<Rightarrow> nat \<Rightarrow> bool" where
  "daa_add_case s t =
     (let r = of_nat (16 * s + t);
          f = flag_if (r = 0) 0x80 OR flag_if (255 < 16 * s + t) 0x10 OR flag_if (15 < t) 0x20;
          (a, g) = daa r f
      in a = bcd ((10 * s + t) mod 100) \<and> (g AND 0x10 \<noteq> 0) = (100 \<le> 10 * s + t))"

lemma daa_add_cases_0: "\<forall>s \<in> set [0..<5]. \<forall>t \<in> set [0..<19]. daa_add_case s t"
  by code_simp

lemma daa_add_cases_1: "\<forall>s \<in> set [5..<10]. \<forall>t \<in> set [0..<19]. daa_add_case s t"
  by code_simp

lemma daa_add_cases_2: "\<forall>s \<in> set [10..<15]. \<forall>t \<in> set [0..<19]. daa_add_case s t"
  by code_simp

lemma daa_add_cases_3: "\<forall>s \<in> set [15..<19]. \<forall>t \<in> set [0..<19]. daa_add_case s t"
  by code_simp

lemma daa_add_cases:
  assumes "s < 19" "t < 19"
  shows "daa_add_case s t"
proof -
  have t: "t \<in> set [0..<19]" using assms(2) by (simp only: set_upt atLeastLessThan_iff) simp
  consider "s \<in> set [0..<5]" | "s \<in> set [5..<10]" | "s \<in> set [10..<15]" | "s \<in> set [15..<19]"
    using assms(1) unfolding set_upt atLeastLessThan_iff by linarith
  then show ?thesis
    using t daa_add_cases_0 daa_add_cases_1 daa_add_cases_2 daa_add_cases_3 by cases blast+
qed

lemma digits: "n < 100 \<Longrightarrow> n div 10 \<le> 9 \<and> n mod 10 \<le> (9 :: nat)"
  by auto

lemma unat_bcd:
  assumes "n < 100"
  shows "unat (bcd n) = 16 * (n div 10) + n mod 10"
proof -
  have "16 * (n div 10) + n mod 10 < 2 ^ LENGTH(8)" using digits [OF assms] by simp
  then show ?thesis unfolding bcd_def unsigned_of_nat by (simp only: take_bit_nat_eq_self of_nat_id)
qed

lemma low_nibble: "unat (a AND 0xF :: u8) = unat a mod 16"
  using unat_and_mask [of a 4] by (simp add: mask_eq_exp_minus_1)

lemma alu_add_bcd:
  assumes "m < 100" "n < 100"
  shows "alu_add (bcd m) (bcd n) =
    (let s = m div 10 + n div 10; t = m mod 10 + n mod 10; r = of_nat (16 * s + t)
     in (r, flag_if (r = 0) 0x80 OR flag_if (255 < 16 * s + t) 0x10 OR flag_if (15 < t) 0x20))"
proof -
  define s where "s = m div 10 + n div 10"
  define t where "t = m mod 10 + n mod 10"
  have u: "unat (bcd m) + unat (bcd n) = 16 * s + t" using assms by (simp add: unat_bcd s_def t_def)
  have st: "s < 19" "t < 19" using digits [OF assms(1)] digits [OF assms(2)] by (simp_all add: s_def t_def)
  define r where "r = (ucast (bcd m) :: u16) + ucast (bcd n)"
  have r: "unat r = 16 * s + t"
    using st unfolding r_def by (simp add: unat_word_ariths unat_ucast8 take_bit_eq_mod u)
  have lo: "ucast r = (of_nat (16 * s + t) :: u8)"
    by (simp flip: r)
  have low: "r AND 0xFF = 0 \<longleftrightarrow> (ucast r :: u8) = 0"
  proof -
    have "unat (r AND 0xFF) = unat r mod 256" using unat_and_mask [of r 8] by (simp add: mask_eq_exp_minus_1)
    moreover have "unat (ucast r :: u8) = unat r mod 256" by (simp add: unsigned_ucast_eq take_bit_eq_mod)
    ultimately show ?thesis by (metis unat_eq_zero)
  qed
  have hi: "0xFF < r \<longleftrightarrow> 255 < 16 * s + t" by (simp add: word_less_nat_alt r)
  have "unat ((bcd m AND 0xF) + (bcd n AND 0xF)) = t"
    using assms st by (simp add: unat_word_ariths take_bit_eq_mod low_nibble unat_bcd t_def)
  then have half: "0xF < (bcd m AND 0xF) + (bcd n AND 0xF) \<longleftrightarrow> 15 < t" by (simp add: word_less_nat_alt)
  show ?thesis
    unfolding alu_add_def Let_def r_def [symmetric] low hi half lo s_def [symmetric] t_def [symmetric] ..
qed

lemma daa_after_add:
  assumes "m < 100" "n < 100"
  shows "case alu_add (bcd m) (bcd n) of (r, f) \<Rightarrow> case daa r f of (a, g) \<Rightarrow>
    a = bcd ((m + n) mod 100) \<and> (g AND 0x10 \<noteq> 0) = (100 \<le> m + n)"
proof -
  define s where "s = m div 10 + n div 10"
  define t where "t = m mod 10 + n mod 10"
  have "s < 19" "t < 19"
    unfolding s_def t_def using digits [OF assms(1)] digits [OF assms(2)] by simp_all
  then have "daa_add_case s t" by (rule daa_add_cases)
  moreover have "10 * s + t = m + n" by (simp add: s_def t_def)
  ultimately show ?thesis
    unfolding alu_add_bcd [OF assms] daa_add_case_def Let_def s_def [symmetric] t_def [symmetric]
    by (simp only: prod.case)
qed

section \<open>The bank registers\<close>

text \<open>The ROM bank each mapper can select: MBC1 never the banks 0, 32, 64 and 96, MBC2 and MBC3 never
  bank 0, MBC5 any of 512.\<close>

definition bank_ok :: "mbc_regs \<Rightarrow> bool" where
  "bank_ok m \<longleftrightarrow>
     (case mbcType m of
        MBC_NONE \<Rightarrow> romBank m = 1
      | MBC_MBC1 \<Rightarrow> unat (romBank m) < 128 \<and> unat (romBank m) mod 32 \<noteq> 0 \<and> unat (mbc1Bank2 m) < 4
      | MBC_MBC2 \<Rightarrow> 0 < unat (romBank m) \<and> unat (romBank m) < 16
      | MBC_MBC3 \<Rightarrow> 0 < unat (romBank m) \<and> unat (romBank m) < 128
      | MBC_MBC5 \<Rightarrow> unat (romBank m) < 512)"

lemma take_bit_small: "unat (w :: 'a :: len word) < 2 ^ n \<Longrightarrow> take_bit n w = w"
  by (metis unsigned_take_bit_eq take_bit_nat_eq_self unsigned_word_eqI)

text \<open>\<open>b\<close> shifted over five low bits.\<close>

lemma unat_bank1:
  assumes "unat (b :: u8) < 4" "unat (w :: u16) < 32"
  shows "unat (push_bit 5 (ucast b) OR w) = 32 * unat b + unat w"
proof -
  have "unat (push_bit 5 (ucast b) :: u16) = 32 * unat b"
    using assms(1) by (simp add: push_bit_eq_mult unat_word_ariths unat_ucast8 take_bit_eq_mod)
  moreover have "push_bit 5 (ucast b) OR w = push_bit 5 (ucast b) + w"
  proof (rule disjunctive_add [symmetric])
    fix n
    have "w = take_bit 5 w" using assms(2) by (simp add: take_bit_small)
    then show "\<not> bit (push_bit 5 (ucast b)) n \<or> \<not> bit w n"
      by (metis bit_push_bit_iff bit_take_bit_iff not_less)
  qed
  ultimately show ?thesis using assms by (simp add: unat_word_ariths take_bit_eq_mod)
qed

lemma unat_and_31: "unat (w AND 0x1F :: u16) = unat w mod 32" "unat (v AND 0x1F :: u8) = unat v mod 32"
  using unat_and_mask [of w 5] unat_and_mask [of v 5] by (simp_all add: mask_eq_exp_minus_1)

lemma mbc1_bank_ok:
  assumes "mbcType m = MBC_MBC1" "bank_ok m"
  shows "bank_ok (mbc1_write a v m)"
proof -
  have m: "unat (mbc1Bank2 m) < 4" "unat (romBank m) mod 32 \<noteq> 0" using assms by (simp_all add: bank_ok_def)
  have v3: "unat (v AND 3) < 4" by (rule unat_and_lt) simp
  define b :: u8 where "b = (if v AND 0x1F = 0 then 1 else v AND 0x1F)"
  have b: "unat b < 32" "unat b \<noteq> 0" by (auto simp: b_def unat_and_31 unat_eq_zero)
  have b16: "unat (ucast b :: u16) = unat b" by (rule unat_ucast8)
  have low: "unat (romBank m AND 0x1F) = unat (romBank m) mod 32" by (rule unat_and_31)
  have s1: "unat (push_bit 5 (ucast (mbc1Bank2 m)) OR ucast b :: u16) = 32 * unat (mbc1Bank2 m) + unat b"
    using b(1) by (subst unat_bank1 [OF m(1)]) (simp_all add: b16)
  have s2: "unat (push_bit 5 (ucast (v AND 3)) OR (romBank m AND 0x1F)) = 32 * unat (v AND 3) + unat (romBank m) mod 32"
    by (subst unat_bank1 [OF v3]) (simp_all add: low)
  show ?thesis
    using assms m v3 b
    by (auto simp: mbc1_write_def Let_def bank_ok_def b_def [symmetric] s1 s2)
qed

lemma mbc2_bank_ok:
  assumes "mbcType m = MBC_MBC2" "bank_ok m"
  shows "bank_ok (mbc2_write a v m)"
proof -
  have "unat (v AND 0x0F) < 16" by (rule unat_and_lt) simp
  then show ?thesis using assms by (auto simp: mbc2_write_def Let_def bank_ok_def unat_ucast8 unat_gt_0)
qed

lemma mbc3_bank_ok:
  assumes "mbcType m = MBC_MBC3" "bank_ok m"
  shows "bank_ok (mbc3_write a v m)"
proof -
  have "unat (v AND 0x7F) < 128" by (rule unat_and_lt) simp
  then show ?thesis using assms by (auto simp: mbc3_write_def Let_def bank_ok_def unat_ucast8 unat_gt_0)
qed

lemma or_lt_512:
  assumes "unat (x :: u16) < 512" "unat y < 512"
  shows "unat (x OR y) < 512"
proof -
  have "take_bit 9 x = x" "take_bit 9 y = y" using assms by (simp_all add: take_bit_small)
  then have "take_bit 9 (x OR y) = x OR y" by simp
  then have "unat (x OR y) = take_bit 9 (unat (x OR y))" by (metis unsigned_take_bit_eq)
  moreover have "take_bit 9 (unat (x OR y)) < 2 ^ 9" by (rule take_bit_nat_less_exp)
  ultimately show ?thesis by simp
qed

lemma mbc5_bank_ok:
  assumes "mbcType m = MBC_MBC5" "bank_ok m"
  shows "bank_ok (mbc5_write a v m)"
proof -
  have 1: "unat (romBank m AND 0x100) < 512" "unat (romBank m AND 0xFF) < 512" "unat (v AND 1) < 2"
    by (rule unat_and_lt, simp)+
  have 2: "unat (ucast v :: u16) < 512" using u8_lt [of v] by (simp add: unat_ucast8 del: u8_lt)
  have "unat (push_bit 8 (ucast (v AND 1)) :: u16) = 256 * unat (v AND 1)"
    using 1(3) by (simp add: push_bit_eq_mult unat_word_ariths unat_ucast8 take_bit_eq_mod)
  then have 3: "unat (push_bit 8 (ucast (v AND 1)) :: u16) < 512" using 1(3) by simp
  show ?thesis
    using assms or_lt_512 [OF 1(1) 2] or_lt_512 [OF 1(2) 3]
    by (auto simp: mbc5_write_def Let_def bank_ok_def)
qed

lemma mbc_write_type [simp]:
  "mbcType (mbc1_write a v m) = mbcType m" "mbcType (mbc2_write w v m) = mbcType m"
  "mbcType (mbc3_write a v m) = mbcType m" "mbcType (mbc5_write a v m) = mbcType m"
  by (simp_all add: mbc1_write_def mbc2_write_def mbc3_write_def mbc5_write_def Let_def)

lemma writeMBC_bank_ok: "bank_ok (mbc s) \<Longrightarrow> bank_ok (mbc (writeMBC a v s))"
  by (cases "mbcType (mbc s)")
    (simp_all add: writeMBC_def refreshMappedRomBanks_def mbc1_bank_ok mbc2_bank_ok mbc3_bank_ok mbc5_bank_ok)

section \<open>Work RAM and its echo\<close>

lemma wram_read_write:
  assumes "wf_gb s" "0xC000 \<le> a" "a < 0xE000"
  shows "okp (write_wram a v s) (\<lambda>t. wf_gb t \<and> read_wram a t = Some v)"
proof -
  have w: "length (wram (bufs s)) = 0x2000" using assms(1) by (simp add: wf_gb_def wf_bufs_def GB_WRAM_SIZE_def)
  have c: "wf_cgb (cgb s)" using assms(1) by (rule wf_gbD)
  show ?thesis
  proof (cases "0xD000 \<le> a \<and> isCgb (cgb s) \<and> 2 \<le> wramBank (cgb s) \<and> wramExtra (cgb s) \<noteq> None")
    case True
    then obtain x where x: "wramExtra (cgb s) = Some x" by auto
    have k: "2 \<le> unat (wramBank (cgb s))" "unat (wramBank (cgb s)) < 8" "length x = 0x6000"
      using True c x by (auto simp: wf_cgb_def word_le_nat_alt)
    then have "(unat (wramBank (cgb s)) - 2) * 0x1000 + (a - 0xD000) < length x" using True assms(3) by simp
    with True x assms(2) write_wram_ok [OF assms, of v] show ?thesis
      by (auto simp: write_wram_def read_wram_def okp_iff)
  next
    case False
    have "a - 0xC000 < length (wram (bufs s))" using w assms(2,3) by simp
    with False write_wram_ok [OF assms, of v] show ?thesis
      by (auto simp: write_wram_def read_wram_def okp_iff split: option.split)
  qed
qed

lemma wram_echo:
  assumes wf: "wf_gb s" and a: "0xC000 \<le> unat a" "unat a < 0xDE00"
  shows "\<exists>t. writeByte a v s = Some t \<and> readByte a t = Some (v, t) \<and> readByte (a + 0x2000) t = Some (v, t) \<and>
    writeByte (a + 0x2000) v s = Some t"
proof -
  obtain t where t: "write_wram (unat a) v s = Some t" "wf_gb t" "read_wram (unat a) t = Some v"
    using wram_read_write [OF wf a(1), of v] a(2) by (auto simp: okp_iff)
  have e: "unat (a + 0x2000) = unat a + 0x2000" using unat_plus_small [of a "0x2000"] a(2) by simp
  have "writeByte a v s = Some t" "writeByte (a + 0x2000) v s = Some t"
    using t(1) a by (simp_all add: writeByte_def Let_def e)
  moreover have "readByte a t = Some (v, t)" "readByte (a + 0x2000) t = Some (v, t)"
    using t(3) a by (simp_all add: readByte_eq_slow [OF t(2)] readByteSlow_def Let_def e pure_read_def)
  ultimately show ?thesis by blast
qed

section \<open>The cartridge clock\<close>

definition clock_day :: "rtc_regs \<Rightarrow> nat" where
  "clock_day r = unat (rtcDay r) + 256 * unat (rtcDayHi r AND 1)"

text \<open>The clock as one number of seconds.\<close>

definition clock_seconds :: "rtc_regs \<Rightarrow> nat" where
  "clock_seconds r = clock_day r * 86400 + unat (rtcHour r) * 3600 + unat (rtcMin r) * 60 + unat (rtcSec r)"

lemma unat_of_nat8: "n < 256 \<Longrightarrow> unat (of_nat n :: u8) = n"
  by (simp add: unsigned_of_nat take_bit_eq_mod)

lemma day_high_bit: "((h AND 0xC0) OR of_nat (d div 256)) AND 1 = (of_nat (d div 256) AND 1 :: u8)"
proof -
  have "(h AND 0xC0) AND 1 = (0 :: u8)" by (simp add: and.assoc)
  then show ?thesis by (simp add: bit.conj_disj_distrib2)
qed

lemma time_split:
  assumes "n < (86400 :: nat)"
  shows "n div 3600 < 24" "n mod 3600 div 60 < 60" "n mod 60 < 60"
    "n div 3600 * 3600 + n mod 3600 div 60 * 60 + n mod 60 = n"
proof -
  show "n div 3600 < 24" using assms by (simp add: less_mult_imp_div_less)
  show "n mod 3600 div 60 < 60" by (simp add: less_mult_imp_div_less)
  show "n mod 60 < 60" by simp
  have "n mod 3600 mod 60 = n mod 60" by (simp add: mod_mod_cancel)
  then show "n div 3600 * 3600 + n mod 3600 div 60 * 60 + n mod 60 = n"
    by (metis add.assoc div_mult_mod_eq)
qed

lemma tickRTC_seconds:
  fixes r :: rtc_regs
  defines "e \<equiv> (millis_at r (millis_calls r) - rtcLastTickMs r) div 1000"
  assumes run: "rtcLastTickMs r \<noteq> 0" "rtcDayHi r AND 0x40 = 0" "e \<noteq> 0"
  shows "clock_seconds (tickRTC r) = (clock_seconds r + unat e) mod (512 * 86400)"
    "unat (rtcHour (tickRTC r)) < 24" "unat (rtcMin (tickRTC r)) < 60" "unat (rtcSec (tickRTC r)) < 60"
proof -
  define total where "total = clock_seconds r + unat e"
  define d where "d = total div 86400 mod 512"
  define n where "n = total mod 86400"
  have n: "n < 86400" by (simp add: n_def)
  note ts = time_split [OF n]
  have d: "d < 512" by (simp add: d_def)
  let ?t = "tickRTC r"
  let ?h = "if 512 \<le> total div 86400 then rtcDayHi r OR 0x80 else rtcDayHi r"
  have tick: "rtcHour ?t = of_nat (n div 3600)" "rtcMin ?t = of_nat (n mod 3600 div 60)" "rtcSec ?t = of_nat (n mod 60)"
    "rtcDay ?t = of_nat d" "rtcDayHi ?t = (?h AND 0xC0) OR of_nat (d div 256)"
    using run unfolding e_def
    by (simp_all add: tickRTC_def Let_def clock_seconds_def clock_day_def total_def d_def n_def e_def)
  show "unat (rtcHour ?t) < 24" "unat (rtcMin ?t) < 60" "unat (rtcSec ?t) < 60"
    using ts by (simp_all add: tick unat_of_nat8)
  have "d div 256 < 2" using d by (simp add: less_mult_imp_div_less)
  then have "of_nat (d div 256) AND 1 = (of_nat (d div 256) :: u8)" by (auto simp: less_2_cases_iff)
  then have "unat (rtcDayHi ?t AND 1) = d div 256"
    using \<open>d div 256 < 2\<close> by (simp add: tick day_high_bit unat_of_nat8)
  moreover have "unat (rtcDay ?t) = d mod 256" by (simp add: tick unsigned_of_nat take_bit_eq_mod)
  ultimately have "clock_day ?t = d" by (simp add: clock_day_def)
  then have "clock_seconds ?t = d * 86400 + n"
    using ts by (simp add: clock_seconds_def tick unat_of_nat8 add.assoc)
  also have "d * 86400 + n = total mod (512 * 86400)"
    using mod_mult2_eq [of total 86400 512] by (simp add: d_def n_def mult.commute)
  finally show "clock_seconds ?t = (clock_seconds r + unat e) mod (512 * 86400)" by (simp add: total_def)
qed

section \<open>The HALT shortcut\<close>

lemma halt_freq_eq: "halt_freq c = int (unat (timer_freq c))"
  by (simp add: halt_freq_def timer_freq_def Let_def)

text \<open>How many cycles are left before TIMA overflows.\<close>

definition to_overflow :: "timer_regs \<Rightarrow> int" where
  "to_overflow t = 256 * int (unat (timer_freq (tac t))) - int (tima_count t)"

lemma halt_skip_timer:
  assumes "tac (timer s) AND 0x04 \<noteq> 0" "ie (cpu s) AND 0x04 \<noteq> 0" "4 \<le> to_overflow (timer s)" "4 \<le> n"
  shows "halt_skip n s = min n (to_overflow (timer s))"
proof -
  have "(256 - uint (tima (timer s))) * halt_freq (tac (timer s)) - uint (timerCounter (timer s)) = to_overflow (timer s)"
    unfolding halt_freq_eq to_overflow_def tima_count_def by (simp add: left_diff_distrib)
  then show ?thesis using assms by (simp add: halt_skip_def Let_def min_def)
qed

lemma timer_quiet:
  assumes wf: "wf_timer (timer s)" and on: "tac (timer s) AND 0x04 \<noteq> 0"
    and d: "0 \<le> d" "d \<le> 60000" "d < to_overflow (timer s)"
  shows "iflag (cpu (updateTimer d s)) = iflag (cpu s)"
proof -
  obtain k where k: "d = int k" using d(1) by (metis nonneg_int_cases)
  have "tima_count (timer s) + nat d < 256 * unat (timer_freq (tac (timer s)))"
    using d(3) unfolding to_overflow_def k nat_int by linarith
  from tima_abs_eqs(2) [OF this] updateTimer_parts(4) [OF wf d(1,2) on] show ?thesis by simp
qed

lemma timer_fires:
  assumes wf: "wf_timer (timer s)" and on: "tac (timer s) AND 0x04 \<noteq> 0"
    and d: "0 \<le> d" "d \<le> 60000" "to_overflow (timer s) = d"
  shows "iflag (cpu (updateTimer d s)) AND 0x04 \<noteq> 0"
proof -
  let ?f = "unat (timer_freq (tac (timer s)))" and ?m = "unat (tma (timer s))"
  obtain k where k: "d = int k" using d(1) by (metis nonneg_int_cases)
  have n: "tima_count (timer s) + nat d = 256 * ?f"
    using d(3) unfolding to_overflow_def k nat_int by linarith
  have f: "0 < ?f" by (rule timer_freq_pos)
  have m: "?m < 256" by simp
  have "tima_abs ?f ?m (256 * ?f) (iflag (cpu s)) = tima_abs ?f ?m (?m * ?f) (iflag (cpu s) OR 4)"
    using tima_abs_eqs(1) [OF order_refl f m, of "iflag (cpu s)"] by simp
  also have "\<dots> = (?m * ?f, iflag (cpu s) OR 4)"
    by (rule tima_abs_eqs(2)) (use f m in \<open>simp del: u8_lt\<close>)
  finally have "iflag (cpu (updateTimer d s)) = iflag (cpu s) OR 4"
    using updateTimer_parts(4) [OF wf d(1,2) on] n by simp
  then show ?thesis by (simp add: and_or_zero)
qed

section \<open>Copies between a session and its caller\<close>

lemma session_sram:
  assumes "session_ok x"
  shows "gb_port_sram_size x \<le> length (sramData (bufs (core x)))"
proof -
  have "wf_bufs (bufs (core x))"
    using assms by (simp add: session_ok_def frame_ok_def sys_ok_def machine_ok_def wf_gb_def)
  then show ?thesis by (auto simp: wf_bufs_def gb_port_sram_size_def)
qed

lemma blit_slice:
  assumes "mem_blit xs i ys = Some zs"
  shows "mem_slice zs j n = (if j + n \<le> length xs then Some (map (\<lambda>k. if i \<le> k \<and> k < i + length ys then ys ! (k - i) else xs ! k) [j..<j + n]) else None)"
proof -
  have len: "length zs = length xs" using assms by (auto simp: mem_blit_def split: if_splits)
  show ?thesis
  proof (cases "j + n \<le> length xs")
    case True
    then have "take n (drop j zs) = map ((!) zs) [j..<j + n]" using len by (intro nth_equalityI) simp_all
    also have "\<dots> = map (\<lambda>k. if i \<le> k \<and> k < i + length ys then ys ! (k - i) else xs ! k) [j..<j + n]"
      using True mem_blit_nth [OF assms] by (intro map_cong) auto
    finally show ?thesis using True len by (simp add: mem_slice_def)
  qed (simp add: mem_slice_def len)
qed

lemma write_then_read_sram:
  assumes ok: "session_ok x" and fit: "off + length src \<le> gb_port_sram_size x"
  obtains y where "gb_port_write_sram off src x = Some (True, y)"
    "gb_port_read_sram off (length src) y = Some (Some src)"
    "gb_port_sram_size y = gb_port_sram_size x"
    "\<And>i. i < gb_port_sram_size x \<Longrightarrow> i < off \<or> off + length src \<le> i \<Longrightarrow>
       sramData (bufs (core y)) ! i = sramData (bufs (core x)) ! i"
    "sramDirty (bufs (core y)) = (sramDirty (bufs (core x)) \<or> sramData (bufs (core y)) \<noteq> sramData (bufs (core x)))"
proof -
  let ?d = "sramData (bufs (core x))"
  have len: "off + length src \<le> length ?d" using session_sram [OF ok] fit by simp
  obtain old where old: "mem_slice ?d off (length src) = Some old" using len by (simp add: mem_slice_def)
  show thesis
  proof (cases "old = src")
    case True
    then show thesis
      using that [of x] old fit by (simp add: gb_port_write_sram_def gb_port_read_sram_def)
  next
    case False
    obtain z where z: "mem_blit ?d off src = Some z" using len by (simp add: mem_blit_def)
    have zlen: "length z = length ?d" using z by (auto simp: mem_blit_def split: if_splits)
    define y where "y = upd_bufs (\<lambda>b. b\<lparr>sramData := z, sramDirty := True\<rparr>) x"
    have s: "gb_port_sram_size y = gb_port_sram_size x" "sramData (bufs (core y)) = z" "sramDirty (bufs (core y))"
      by (simp_all add: y_def upd_bufs_def gb_port_sram_size_def)
    have "map (\<lambda>k. if off \<le> k \<and> k < off + length src then src ! (k - off) else ?d ! k) [off..<off + length src] = src"
      by (rule nth_equalityI) simp_all
    then have rd: "mem_slice z off (length src) = Some src" unfolding blit_slice [OF z] using len by simp
    then have "z \<noteq> ?d" using old False by auto
    moreover have "gb_port_write_sram off src x = Some (True, y)"
      using fit old False z by (simp add: gb_port_write_sram_def y_def)
    moreover have "gb_port_read_sram off (length src) y = Some (Some src)"
      using fit rd s by (simp add: gb_port_read_sram_def)
    moreover have "i < gb_port_sram_size x \<Longrightarrow> i < off \<or> off + length src \<le> i \<Longrightarrow> z ! i = ?d ! i" for i
      using mem_blit_nth [OF z, of i] session_sram [OF ok] by auto
    ultimately show thesis using that [of y] s by simp
  qed
qed

lemma import_then_export_rtc:
  assumes "length src = 10"
  shows "\<exists>y. gb_port_import_rtc src x = Some y \<and> fst (gb_port_export_rtc y) = src"
proof -
  obtain b0 b1 b2 b3 b4 c0 c1 c2 c3 c4 where s: "src = [b0, b1, b2, b3, b4, c0, c1, c2, c3, c4]"
    using assms by (auto simp: numeral_eq_Suc length_Suc_conv)
  show ?thesis
    by (simp add: s gb_port_import_rtc_def gb_port_export_rtc_def mem_slice_def mem_get_def tickRTC_def Let_def)
qed

end
