(* ===== verification/Emu_Properties.thy ===== *)
theory Emu_Properties
  imports Emu_Behaviour
begin

text \<open>
  The properties of the emulator core and of the session that wraps it, each with a witness where it
  has hypotheses.  The proofs apply the lemmas of the component theories.
\<close>

section \<open>The machine runs\<close>

text \<open>C1.  A frame ends.  From every well-formed machine, \<open>runFrame\<close> returns: it leaves no buffer,
  neither of its two unbounded loops runs forever (not even on programs made of the illegal opcodes
  that cost no cycles), and it leaves a well-formed machine with the same cartridge, ready for the
  next frame with an overshoot below 36 dots.\<close>

theorem frame_terminates:
  assumes "frame_ok s"
  shows "\<exists>t. runFrame s = Some t \<and> frame_ok t \<and> cart_of t = cart_of s"
  using runFrame_ok [OF assms] by (auto simp: okp_iff)

lemma frame_terminates_witness:
  "\<exists>t. runFrame demo_gb = Some t \<and> frame_ok t \<and> cart_of t = cart_of demo_gb"
  by (rule frame_terminates [OF demo_frame_ok])

text \<open>C3.  One CPU step is safe: whatever the opcode and the registers, \<open>cpu_step\<close> stays inside the
  machine's buffers, costs between 0 and 36 cycles or, halted, at most the idle budget, keeps the
  machine well-formed with the low four bits of F clear, and never changes the cartridge.\<close>

theorem cpu_step_safe:
  assumes "sys_ok s"
  shows "\<exists>c t. cpu_step n s = Some (c, t) \<and> 0 \<le> c \<and> (c \<le> 36 \<or> c \<le> n) \<and> sys_ok t \<and> cart_of t = cart_of s"
  using sys_ok_step [OF assms, of n] by (auto simp: okp_iff)

lemma cpu_step_safe_witness:
  "\<exists>c t. cpu_step 456 demo_gb = Some (c, t) \<and> 0 \<le> c \<and> (c \<le> 36 \<or> c \<le> 456) \<and> sys_ok t \<and> cart_of t = cart_of demo_gb"
  by (rule cpu_step_safe [OF demo_wf(2)])

text \<open>C19.  The fast bus decoder agrees with the full one: for every address and every well-formed
  machine, \<open>readByte\<close> with its mapped-bank, high-RAM and work-RAM shortcuts returns what
  \<open>readByteSlow\<close> returns, with the same effect on the machine.\<close>

theorem read_fast_path:
  assumes "wf_gb s"
  shows "readByte a s = readByteSlow a s"
  using assms by (rule readByte_eq_slow)

lemma read_fast_path_witness: "readByte 0xC123 demo_gb = readByteSlow 0xC123 demo_gb"
  by (rule read_fast_path [OF demo_wf(1)])

text \<open>Work RAM holds what was written and is mirrored: a byte written at \<open>C000\<close>-\<open>DDFF\<close> is read back
  there and 2000h above, and writing it through the mirror is the same write.\<close>

theorem work_ram_echo:
  assumes "wf_gb s" "0xC000 \<le> unat a" "unat a < 0xDE00"
  shows "\<exists>t. writeByte a v s = Some t \<and> readByte a t = Some (v, t) \<and>
    readByte (a + 0x2000) t = Some (v, t) \<and> writeByte (a + 0x2000) v s = Some t"
  using assms by (rule wram_echo)

lemma work_ram_echo_witness:
  "\<exists>t. writeByte 0xC123 7 demo_gb = Some t \<and> readByte 0xC123 t = Some (7, t) \<and>
    readByte (0xC123 + 0x2000) t = Some (7, t) \<and> writeByte (0xC123 + 0x2000) 7 demo_gb = Some t"
  by (rule work_ram_echo [OF demo_wf(1)]) simp_all

section \<open>Cartridge\<close>

text \<open>C15.  Streaming is transparent: if the ROM reader delivers the image's bytes whenever it reports
  success and the cache slots hold what their map says, a read through the bank cache that does not
  end in an I/O failure returns the image's byte, and the slots still hold what their map says.\<close>

theorem streamed_rom_read:
  assumes "wf_rom r" "romData r = None" "offset < ROM_BANK_SIZE"
    and "rom_io_honest img r" "cache_coherent img r" "\<not> pokemonRedPatch r" "\<not> gbPatchEnabled r"
  shows "\<exists>v r'. readCachedBank bank offset r = Some (v, r') \<and> wf_rom r' \<and> same_image r r' \<and>
    (\<not> romIoFailed r' \<longrightarrow> v = img (bank * ROM_BANK_SIZE + offset) \<and> cache_coherent img r')"
  using readCachedBank_ok [OF assms(1-3), of bank img] assms(4-) by (auto simp: okp_iff)

definition demo_stream :: rom_regs where
  "demo_stream = (rom demo_base)\<lparr>romBankCount := 4, romBank0 := replicate ROM_BANK_SIZE 9,
     bankCache := replicate ROM_BANK_SIZE 0, cacheSlots := 1, cacheMap := [-1], fileAttached := True,
     fileLength := 4 * ROM_BANK_SIZE, romIo := (\<lambda>_ _ _. (True, \<lambda>_. 9))\<rparr>"

lemma streamed_rom_read_witness:
  "\<exists>v r'. readCachedBank 3 5 demo_stream = Some (v, r') \<and> wf_rom r' \<and> same_image demo_stream r' \<and>
    (\<not> romIoFailed r' \<longrightarrow> v = 9 \<and> cache_coherent (\<lambda>_. 9) r')"
  by (rule streamed_rom_read [where img = "\<lambda>_. 9"])
    (simp_all add: demo_stream_def demo_base_def new_GBEmulator_def wf_rom_def rom_io_honest_def
      cache_coherent_def ROM_BANK_SIZE_def)

text \<open>C34.  No mapper write selects a bank the cartridge cannot map: MBC1 never ends at banks 0, 32, 64 or
  96, MBC2 stays within 1-15, MBC3 within 1-127, MBC5 below 512.\<close>

theorem mapper_banks:
  assumes "bank_ok (mbc s)"
  shows "bank_ok (mbc (writeMBC a v s))"
  using assms by (rule writeMBC_bank_ok)

lemma mapper_banks_witness: "bank_ok (mbc (writeMBC 0x2000 0x20 (demo_gb\<lparr>mbc := (mbc demo_gb)\<lparr>mbcType := MBC_MBC1\<rparr>\<rparr>)))"
  by (rule mapper_banks)
    (simp add: bank_ok_def demo_gb_def reset_def refreshMappedRomBanks_def demo_base_def new_GBEmulator_def)

text \<open>The documented latch sequence never latches.  Pan Docs and the comment on \<open>rtcLatched_\<close> say
  that writing 0 and then 1 to 6000-7FFF copies the clock into the latched registers; after these two
  writes the latched registers are what they were, whatever the state before.\<close>

theorem rtc_latch_never_latches:
  "rtcLatched (rtc_latch_write 1 (rtc_latch_write 0 r)) = rtcLatched r"
  by (simp add: rtc_latch_write_def Let_def)

text \<open>The cartridge clock keeps time: running, with at least one second elapsed since the last tick,
  \<open>tickRTC\<close> advances the clock by the elapsed seconds modulo 512 days and leaves a valid time of day.\<close>

theorem rtc_advances:
  assumes "rtcLastTickMs r \<noteq> 0" "rtcDayHi r AND 0x40 = 0"
    and "(millis_at r (millis_calls r) - rtcLastTickMs r) div 1000 \<noteq> 0"
  shows "clock_seconds (tickRTC r) =
      (clock_seconds r + unat ((millis_at r (millis_calls r) - rtcLastTickMs r) div 1000)) mod (512 * 86400) \<and>
    unat (rtcHour (tickRTC r)) < 24 \<and> unat (rtcMin (tickRTC r)) < 60 \<and> unat (rtcSec (tickRTC r)) < 60"
  using tickRTC_seconds [OF assms] by simp

definition demo_clock :: rtc_regs where
  "demo_clock = (rtc demo_base)\<lparr>rtcSec := 59, rtcMin := 59, rtcHour := 23, rtcDay := 255, rtcDayHi := 1,
     rtcLastTickMs := 1000, millis_at := (\<lambda>_. 4000)\<rparr>"

lemma rtc_advances_witness: "clock_seconds (tickRTC demo_clock) = (clock_seconds demo_clock + 3) mod (512 * 86400)"
  using rtc_advances [of demo_clock]
  by (simp add: demo_clock_def demo_base_def new_GBEmulator_def)

section \<open>Processor and timer\<close>

text \<open>Decimal addition: for two-digit numbers in BCD, ADD followed by DAA gives the BCD of their sum
  modulo 100, and sets the carry flag exactly when the sum is 100 or more.\<close>

theorem decimal_addition:
  assumes "m < 100" "n < 100"
  shows "case alu_add (bcd m) (bcd n) of (r, f) \<Rightarrow> case daa r f of (a, g) \<Rightarrow>
    a = bcd ((m + n) mod 100) \<and> (g AND 0x10 \<noteq> 0) = (100 \<le> m + n)"
  using assms by (rule daa_after_add)

lemma decimal_addition_witness:
  "case alu_add (bcd 58) (bcd 67) of (r, f) \<Rightarrow> case daa r f of (a, g) \<Rightarrow>
    a = bcd ((58 + 67) mod 100) \<and> (g AND 0x10 \<noteq> 0) = (100 \<le> (58 + 67 :: nat))"
  by (rule decimal_addition) simp_all

text \<open>The timer does not depend on how its cycles are delivered: feeding \<open>a\<close> and then \<open>b\<close> cycles is
  feeding \<open>a + b\<close>, with the same DIV, TIMA and interrupt request.\<close>

theorem timer_composes:
  assumes "wf_timer (timer s)" "0 \<le> a" "0 \<le> b" "a + b \<le> 60000"
  shows "updateTimer b (updateTimer a s) = updateTimer (a + b) s"
  using assms by (rule updateTimer_two_steps)

lemma timer_composes_witness: "updateTimer 30 (updateTimer 12 demo_gb) = updateTimer (12 + 30) demo_gb"
  by (rule timer_composes) (use demo_wf(1) in \<open>simp_all add: wf_gb_def\<close>)




section \<open>Picture\<close>

text \<open>C7.  A rendered line is the specified line: pixel \<open>x\<close> of the packed frame buffer holds
  \<open>line_shade\<close>, and of the colour frame buffer \<open>line_color\<close>, the value the background, the window and
  the at most ten sprites of the line give at that pixel in their priority order; every other line and
  everything but the window's line counter is unchanged.\<close>

theorem rendered_line:
  assumes "wf_gb s" "line < GB_H" "lcdc (lcd s) AND 0x80 \<noteq> 0" "0 \<le> windowLine (lcd s)" "windowLine (lcd s) < 256"
  shows "\<exists>t. renderLine line s = Some t \<and> wf_gb t \<and>
    rel_option (fb_line line (line_shade s line)) (framebuf (bufs s)) (framebuf (bufs t)) \<and>
    rel_option (cf_line line (line_color s line)) (colorFramebuf (bufs s)) (colorFramebuf (bufs t)) \<and>
    t = s\<lparr>bufs := (bufs s)\<lparr>framebuf := framebuf (bufs t), colorFramebuf := colorFramebuf (bufs t)\<rparr>,
          lcd := (lcd s)\<lparr>windowLine := windowLine (lcd s) + (if windowVisible line s then 1 else 0)\<rparr>\<rparr>"
  using renderLine_ok [OF assms] unfolding okp_iff .

lemma rendered_line_witness:
  "\<exists>t. renderLine 7 demo_gb = Some t \<and> wf_gb t \<and>
    rel_option (fb_line 7 (line_shade demo_gb 7)) (framebuf (bufs demo_gb)) (framebuf (bufs t))"
proof -
  have "lcdc (lcd demo_gb) AND 0x80 \<noteq> 0" "windowLine (lcd demo_gb) = 0"
    by (simp_all add: demo_gb_def reset_parts reset_lcd_def)
  then show ?thesis using rendered_line [OF demo_wf(1), of 7] by (auto simp: GB_H_def)
qed

text \<open>Sprite priority: the in-place sort of the selected sprites is the stable sort by X coordinate,
  ties by OAM index.\<close>

theorem sprite_order:
  assumes "wf_gb s" "\<forall>k \<in> set vis. k < 40"
  shows "sort_sprites s [1..<length vis] vis = Some (sort_key (sprite_key s) vis)"
  using assms by (rule sort_sprites_sorts)

lemma sprite_order_witness: "sort_sprites demo_gb [1..<3] [4, 2, 9] = Some (sort_key (sprite_key demo_gb) [4, 2, 9])"
  proof -
  have "\<forall>k \<in> set [4, 2, 9]. k < (40 :: nat)" "length [4, 2, 9 :: nat] = 3" by simp_all
  with sprite_order [OF demo_wf(1), of "[4, 2, 9]"] show ?thesis by (simp only:)
qed

section \<open>Sound\<close>

text \<open>C14.  The sound callback is safe: from every well-formed APU it produces 534 samples without an access
  outside the register file, the wave table or the sample buffer and without a division by zero (the
  sweep may leave a frequency of 2048, but never on a running channel), and the APU stays well-formed.\<close>

theorem sound_callback_safe:
  assumes "apu_ok x"
  shows "\<exists>y t. minigb_apu_audio_callback x = Some (y, t) \<and> apu_ok y \<and> length t = AUDIO_SAMPLES_TOTAL"
  using audio_callback_ok [OF assms] by (auto simp: okp_iff)

lemma sound_callback_safe_witness:
  "\<exists>y t. minigb_apu_audio_callback apu_start = Some (y, t) \<and> apu_ok y \<and> length t = AUDIO_SAMPLES_TOTAL"
  by (rule sound_callback_safe [OF apu_start_ok])

text \<open>Every write to a sound register keeps the APU well-formed.\<close>

theorem sound_write_safe:
  assumes "apu_ok x" "0xFF10 \<le> addr" "addr \<le> 0xFF3F"
  shows "\<exists>y. minigb_apu_audio_write addr v x = Some y \<and> apu_ok y"
  using audio_write_ok [OF assms] by (auto simp: okp_iff)

lemma sound_write_safe_witness: "\<exists>y. minigb_apu_audio_write 0xFF14 0xFF apu_start = Some y \<and> apu_ok y"
  by (rule sound_write_safe [OF apu_start_ok]) simp_all

text \<open>The phase of a square channel in closed form: over one sample the duty position advances once per
  period completed, the counter keeps the remainder, and the interpolated sum the code accumulates
  before each edge stays 0, because \<open>(pos - prev_pos) / freq_inc\<close> is an integer division below one.\<close>

theorem square_phase:
  assumes "unat (freq_counter c) \<le> 1680000" "unat (freq_inc c) \<le> 220200960"
  shows "square_steps c 0 0 0 = Some (advance square_tick (unat (freq_counter c) + unat (freq_inc c)) c, 0)"
  using assms by (intro square_steps_eq) simp_all

lemma square_phase_witness:
  "square_steps (zero_chan\<lparr>freq_inc := 4000000\<rparr>) 0 0 0 =
     Some (advance square_tick 4000000 (zero_chan\<lparr>freq_inc := 4000000\<rparr>), 0)"
  using square_phase [of "zero_chan\<lparr>freq_inc := 4000000\<rparr>"] by (simp add: zero_chan_def)

text \<open>Power-up drops the initial register values: of the 23 register writes of
  \<open>minigb_apu_audio_init\<close> on a fresh context only the power bit of NR52 takes effect, because the writes
  before it are ignored while NR52 is 0; master volume and panning stay 0.\<close>

theorem sound_init_drops_registers:
  "minigb_apu_audio_init apu_zero =
     Some \<lparr>chans = [zero_chan\<lparr>chan_val := -1\<rparr>, zero_chan\<lparr>chan_val := -1\<rparr>, zero_chan, zero_chan],
       vol_l = 0, vol_r = 0, audio_mem = replicate 0x16 0 @ [0x80] @ replicate 9 0 @ wave_init\<rparr>"
  using audio_init_eq unfolding apu_start_def .

section \<open>The session\<close>

text \<open>C10.  Creating a session: for every ROM source whose mapped image, if any, has its declared size, every
  outcome of the allocations and of the reads, \<open>gb_port_create\<close> stays inside its buffers and either
  fails or returns a session whose core can run and whose APU is well-formed.\<close>

theorem create_safe:
  assumes "\<And>d. src_mapped src = Some d \<Longrightarrow> length d = src_size src"
  shows "\<exists>r. gb_port_create cgb_build h j clock src = Some r \<and> (\<forall>x. r = Some x \<longrightarrow> session_ok x)"
  using create_ok [OF assms, of cgb_build h j clock] by (auto simp: okp_iff split: option.splits)

definition demo_source :: gb_rom_source where
  "demo_source = \<lparr>src_read = Some (\<lambda>_ _ _. (True, \<lambda>_. 0)), src_size = 32768, src_mapped = None\<rparr>"

lemma create_safe_witness:
  "\<exists>r. gb_port_create False \<lparr>heap_ok = (\<lambda>_. True), heap_junk = (\<lambda>_ _. 0)\<rparr>
     \<lparr>junk_cpu = reset_cpu, junk_lcd = lcd demo_gb, junk_sound = []\<rparr> (\<lambda>_. 0) demo_source = Some r \<and>
     (\<forall>x. r = Some x \<longrightarrow> session_ok x)"
  by (rule create_safe) (simp add: demo_source_def)

text \<open>Save RAM is addressable: a window written with \<open>gb_port_write_sram\<close> reads back, every byte
  outside it is unchanged, and the save is marked dirty exactly when a byte changed.\<close>

theorem sram_window_roundtrip:
  assumes "session_ok x" "off + length src \<le> gb_port_sram_size x"
  shows "\<exists>y. gb_port_write_sram off src x = Some (True, y) \<and>
    gb_port_read_sram off (length src) y = Some (Some src) \<and>
    (\<forall>i < gb_port_sram_size x. i < off \<or> off + length src \<le> i \<longrightarrow>
       sramData (bufs (core y)) ! i = sramData (bufs (core x)) ! i) \<and>
    sramDirty (bufs (core y)) = (sramDirty (bufs (core x)) \<or> sramData (bufs (core y)) \<noteq> sramData (bufs (core x)))"
  by (rule write_then_read_sram [OF assms]) blast

definition demo_saving :: gb_session where
  "demo_saving = demo_session\<lparr>core := demo_gb\<lparr>bufs := (bufs demo_gb)\<lparr>sramData := replicate 8192 0, sramSize := 8192,
     sramPersistSize := 8192\<rparr>\<rparr>\<rparr>"

lemma demo_saving_ok: "session_ok demo_saving" "gb_port_sram_size demo_saving = 8192"
proof -
  have w: "wf_bufs (bufs demo_gb)" "wf_gb demo_gb" using demo_wf(1) by (simp_all add: wf_gb_def)
  then have "wf_bufs ((bufs demo_gb)\<lparr>sramData := replicate 8192 0, sramSize := 8192, sramPersistSize := 8192\<rparr>)"
    unfolding wf_bufs_def by simp
  moreover have "mbcType (mbc demo_gb) = MBC_NONE" by (simp add: demo_gb_def reset_parts demo_base_def)
  ultimately show "session_ok demo_saving"
    using w(2) demo_session_ok
    by (simp add: session_ok_def demo_saving_def demo_session_def frame_ok_def sys_ok_def machine_ok_def wf_gb_def)
  show "gb_port_sram_size demo_saving = 8192" by (simp add: demo_saving_def gb_port_sram_size_def)
qed

lemma sram_window_roundtrip_witness:
  "\<exists>y. gb_port_write_sram 8189 [1, 2, 3] demo_saving = Some (True, y) \<and>
    gb_port_read_sram 8189 3 y = Some (Some [1, 2, 3])"
  using sram_window_roundtrip [OF demo_saving_ok(1), of 8189 "[1, 2, 3]"] demo_saving_ok(2) by (auto simp: numeral_3_eq_3)

text \<open>The clock survives a save: importing ten bytes and exporting them again gives the same bytes.\<close>

theorem rtc_roundtrip:
  assumes "length src = 10"
  shows "\<exists>y. gb_port_import_rtc src x = Some y \<and> fst (gb_port_export_rtc y) = src"
  using assms by (rule import_then_export_rtc)

lemma rtc_roundtrip_witness:
  "\<exists>y. gb_port_import_rtc [1, 2, 3, 4, 5, 6, 7, 8, 9, 10] demo_session = Some y \<and>
    fst (gb_port_export_rtc y) = [1, 2, 3, 4, 5, 6, 7, 8, 9, 10]"
  by (rule rtc_roundtrip) simp

end
