(* ===== verification/Fw_Base.thy ===== *)
theory Fw_Base
  imports Prelude
begin

text \<open>
  Shared by the models of the application (main/): bounds and conversions of 32- and 64-bit
  counters, and the C strings, which are byte lists without their terminating zero.
\<close>

type_synonym cstring = "u8 list"

lemma u32_lt: "unat (x :: u32) < 4294967296"
  using unsigned_less [of x, where ?'a = nat] by simp

lemma u64_lt: "unat (x :: u64) < 18446744073709551616"
  using unsigned_less [of x, where ?'a = nat] by simp

lemma of_nat_unat_ucast: "(of_nat (unat (w :: 'a :: len word)) :: 'b :: len word) = ucast w"
  by simp

lemma unat_of_nat_u32: "n < 4294967296 \<Longrightarrow> unat (of_nat n :: u32) = n"
  by (simp add: unsigned_of_nat take_bit_eq_mod)

lemma unat_of_nat_u64: "n < 18446744073709551616 \<Longrightarrow> unat (of_nat n :: u64) = n"
  by (simp add: unsigned_of_nat take_bit_eq_mod)

lemma unat_add_u32: "unat x + unat y < 4294967296 \<Longrightarrow> unat (x + y :: u32) = unat x + unat y"
  by (simp add: unat_word_ariths take_bit_eq_mod)

lemma unat_add_u64: "unat x + unat y < 18446744073709551616 \<Longrightarrow> unat (x + y :: u64) = unat x + unat y"
  by (simp add: unat_word_ariths take_bit_eq_mod)

lemma unat_mult_u64: "unat x * unat y < 18446744073709551616 \<Longrightarrow> unat (x * y :: u64) = unat x * unat y"
  by (simp add: unat_word_ariths take_bit_eq_mod)

section \<open>Bounded queues\<close>

text \<open>
  What a bounded first-in first-out buffer promises its client: \<open>ab\<close> is the list of what it holds,
  oldest first; \<open>put\<close> appends while there is room, \<open>get\<close> removes the oldest, \<open>clear\<close> empties.
\<close>

locale bounded_queue =
  fixes inv :: "'s \<Rightarrow> bool"
    and ab :: "'s \<Rightarrow> 'e list"
    and cap :: nat
    and put :: "'e \<Rightarrow> 's \<Rightarrow> 's"
    and get :: "'s \<Rightarrow> 'e \<times> 's"
    and clear :: "'s \<Rightarrow> 's"
  assumes bounded: "inv s \<Longrightarrow> length (ab s) \<le> cap"
    and put_inv: "inv s \<Longrightarrow> length (ab s) < cap \<Longrightarrow> inv (put e s)"
    and put_ab: "inv s \<Longrightarrow> length (ab s) < cap \<Longrightarrow> ab (put e s) = ab s @ [e]"
    and get_inv: "inv s \<Longrightarrow> ab s \<noteq> [] \<Longrightarrow> inv (snd (get s))"
    and get_ab: "inv s \<Longrightarrow> ab s \<noteq> [] \<Longrightarrow> fst (get s) = hd (ab s) \<and> ab (snd (get s)) = tl (ab s)"
    and clear_inv: "inv s \<Longrightarrow> inv (clear s)"
    and clear_ab: "ab (clear s) = []"
begin

fun get_all :: "nat \<Rightarrow> 's \<Rightarrow> 'e list \<times> 's" where
  "get_all 0 s = ([], s)"
| "get_all (Suc n) s = (let (e, s) = get s; (es, s) = get_all n s in (e # es, s))"

lemma put_all:
  assumes "inv s" "length (ab s) + length es \<le> cap"
  shows "inv (fold put es s) \<and> ab (fold put es s) = ab s @ es"
  using assms by (induction es arbitrary: s) (simp_all add: put_inv put_ab)

lemma get_all_ab:
  assumes "inv s" "n \<le> length (ab s)"
  shows "fst (get_all n s) = take n (ab s) \<and> inv (snd (get_all n s)) \<and> ab (snd (get_all n s)) = drop n (ab s)"
  using assms
proof (induction n arbitrary: s)
  case (Suc n)
  then have ne: "ab s \<noteq> []" by auto
  obtain e t where g: "get s = (e, t)" by (cases "get s")
  have t: "e = hd (ab s)" "ab t = tl (ab s)" "inv t"
    using get_ab [OF Suc.prems(1) ne] get_inv [OF Suc.prems(1) ne] g by auto
  show ?case
    using Suc.IH [of t] Suc.prems(2) t ne g
    by (cases "ab s") (auto simp: split_beta Let_def)
qed simp

text \<open>What is put into an empty queue comes out in the same order.\<close>

lemma fifo:
  assumes "inv s" "ab s = []" "length es \<le> cap"
  shows "fst (get_all (length es) (fold put es s)) = es"
  using put_all [of s es] get_all_ab [of "fold put es s" "length es"] assms by simp

end

end
