(* ===== verification/Gb_Pacing.thy ===== *)
theory Gb_Pacing
  imports Fw_Base
begin

text \<open>
  Frame and audio pacing (main/gb_frame_pacing.c, main/gb_audio_pacing.c): how many emulated frames
  pass per drawn frame, and how many blocks of 267 samples the sound unit owes the wall clock.
\<close>

section \<open>Frame pacing\<close>

record gb_frame_pacing =
  draw_interval :: u8
  pace_frames :: u32
  last_draw_frame :: u32
  has_drawn :: bool
  window_frames :: u32
  window_work_us :: u64

definition gb_frame_pacing_init :: gb_frame_pacing where
  "gb_frame_pacing_init = \<lparr>draw_interval = 2, pace_frames = 0, last_draw_frame = 0, has_drawn = False,
     window_frames = 0, window_work_us = 0\<rparr>"

definition gb_frame_pacing_draw :: "gb_frame_pacing \<Rightarrow> bool" where
  "gb_frame_pacing_draw p \<longleftrightarrow>
     \<not> has_drawn p \<or> ucast (draw_interval p) \<le> pace_frames p - last_draw_frame p"

definition gb_frame_pacing_mark_drawn :: "gb_frame_pacing \<Rightarrow> gb_frame_pacing" where
  "gb_frame_pacing_mark_drawn p = p\<lparr>last_draw_frame := pace_frames p, has_drawn := True\<rparr>"

definition adapt :: "u64 \<Rightarrow> u8 \<Rightarrow> u8" where
  "adapt average interval =
     (if 16000 < average \<and> interval < 4 then interval + 1
      else if average < 14000 \<and> 2 < interval then interval - 1
      else interval)"

definition gb_frame_pacing_record :: "u32 \<Rightarrow> gb_frame_pacing \<Rightarrow> gb_frame_pacing" where
  "gb_frame_pacing_record work p =
     (let p = p\<lparr>pace_frames := pace_frames p + 1, window_frames := window_frames p + 1,
                window_work_us := window_work_us p + ucast work\<rparr>
      in if window_frames p < 60 then p
         else p\<lparr>draw_interval := adapt (window_work_us p div ucast (window_frames p)) (draw_interval p),
                window_frames := 0, window_work_us := 0\<rparr>)"

text \<open>One turn of the game loop's pacing: draw if due, then account for the frame's work.\<close>

definition paced_frame :: "u32 \<Rightarrow> gb_frame_pacing \<Rightarrow> gb_frame_pacing" where
  "paced_frame work p =
     gb_frame_pacing_record work (if gb_frame_pacing_draw p then gb_frame_pacing_mark_drawn p else p)"

text \<open>The window never holds 60 frames between calls and its sum cannot overflow; the interval stays
  between 2 and 4 and no more frames than that go by undrawn.\<close>

definition pacing_ok :: "gb_frame_pacing \<Rightarrow> bool" where
  "pacing_ok p \<longleftrightarrow> 2 \<le> draw_interval p \<and> draw_interval p \<le> 4 \<and> unat (window_frames p) < 60 \<and>
     unat (window_work_us p) \<le> unat (window_frames p) * 4294967295"

lemma pacing_init_ok: "pacing_ok gb_frame_pacing_init"
  by (simp add: pacing_ok_def gb_frame_pacing_init_def)


lemma interval_cases: "2 \<le> (i :: u8) \<Longrightarrow> i \<le> 4 \<Longrightarrow> i = 2 \<or> i = 3 \<or> i = 4"
  by (simp add: word_le_nat_alt word_unat_eq_iff) linarith

lemma adapt_range: "2 \<le> i \<Longrightarrow> i \<le> 4 \<Longrightarrow> 2 \<le> adapt a i \<and> adapt a i \<le> 4"
  using interval_cases [of i] by (auto simp: adapt_def)

lemma window_step:
  assumes "pacing_ok p"
  shows "unat (window_frames p + 1) = unat (window_frames p) + 1"
    and "unat (window_work_us p + ucast (w :: u32)) = unat (window_work_us p) + unat w"
proof -
  have f: "unat (window_frames p) < 60" and u: "unat (window_work_us p) \<le> unat (window_frames p) * 4294967295"
    using assms by (simp_all add: pacing_ok_def)
  show "unat (window_frames p + 1) = unat (window_frames p) + 1"
    using f by (simp add: unat_word_ariths take_bit_eq_mod)
  have "unat w < 4294967296" by (rule u32_lt)
  moreover have "unat (window_work_us p) \<le> 253403070405" using f u by linarith
  ultimately show "unat (window_work_us p + ucast w) = unat (window_work_us p) + unat w"
    by (simp add: unat_word_ariths take_bit_eq_mod unsigned_ucast_eq)
qed

lemma record_ok:
  assumes "pacing_ok p"
  shows "pacing_ok (gb_frame_pacing_record w p)"
proof -
  have "unat w \<le> 4294967295" using u32_lt [of w] by simp
  moreover note window_step(1) [OF assms] window_step(2) [OF assms, of w]
  moreover have "2 \<le> draw_interval p" "draw_interval p \<le> 4" "unat (window_frames p) < 60"
    "unat (window_work_us p) \<le> unat (window_frames p) * 4294967295"
    using assms by (simp_all add: pacing_ok_def)
  ultimately show ?thesis
    using adapt_range [of "draw_interval p"]
    by (simp add: pacing_ok_def gb_frame_pacing_record_def Let_def word_less_nat_alt)
qed

text \<open>A drawn frame is at most four frames old.\<close>

definition fresh :: "gb_frame_pacing \<Rightarrow> bool" where
  "fresh p \<longleftrightarrow> has_drawn p \<and> unat (pace_frames p - last_draw_frame p) \<le> 4"

lemma paced_frame_ok:
  assumes "pacing_ok p"
  shows "pacing_ok (paced_frame w p)" "fresh (paced_frame w p)"
proof -
  have m: "pacing_ok (gb_frame_pacing_mark_drawn p)"
    using assms by (simp add: pacing_ok_def gb_frame_pacing_mark_drawn_def)
  show "pacing_ok (paced_frame w p)"
    using record_ok assms m by (simp add: paced_frame_def)
  have r: "pace_frames (gb_frame_pacing_record w q) = pace_frames q + 1"
    "last_draw_frame (gb_frame_pacing_record w q) = last_draw_frame q"
    "has_drawn (gb_frame_pacing_record w q) = has_drawn q" for q
    by (simp_all add: gb_frame_pacing_record_def Let_def)
  show "fresh (paced_frame w p)"
  proof (cases "gb_frame_pacing_draw p")
    case True
    then show ?thesis by (simp add: fresh_def paced_frame_def r gb_frame_pacing_mark_drawn_def)
  next
    case False
    let ?d = "pace_frames p - last_draw_frame p"
    from False have h: "has_drawn p" and d: "?d < ucast (draw_interval p)"
      by (auto simp: gb_frame_pacing_draw_def)
    have "unat (draw_interval p) \<le> 4" using assms by (simp add: pacing_ok_def word_le_nat_alt)
    then have "unat ?d \<le> 3" using d by (simp add: word_less_nat_alt unsigned_ucast_eq take_bit_eq_mod)
    then have "unat (?d + 1) \<le> 4" by (simp add: unat_word_ariths take_bit_eq_mod)
    then show ?thesis using False h by (simp add: fresh_def paced_frame_def r algebra_simps)
  qed
qed

lemma paced_frames_ok:
  "pacing_ok p \<Longrightarrow> pacing_ok (fold paced_frame ws p)"
  by (induction ws arbitrary: p) (simp_all add: paced_frame_ok)

text \<open>One full window: the average of its 60 frames decides the next interval.\<close>

lemma window_prefix:
  assumes "pacing_ok p" "window_frames p = 0" "window_work_us p = 0" "length ws < 60"
  shows "fold gb_frame_pacing_record ws p =
    p\<lparr>pace_frames := pace_frames p + of_nat (length ws), window_frames := of_nat (length ws),
      window_work_us := of_nat (sum_list (map unat ws))\<rparr>"
  using assms(4)
proof (induction ws rule: rev_induct)
  case Nil
  then show ?case using assms by simp
next
  case (snoc w ws)
  have n: "of_nat (length ws) + 1 < (60 :: u32)"
    using snoc.prems by (simp add: word_less_nat_alt unat_word_ariths take_bit_eq_mod unsigned_of_nat)
  have w: "of_nat (sum_list (map unat ws)) + ucast w = (of_nat (sum_list (map unat (ws @ [w]))) :: u64)"
    by (simp add: unsigned_ucast_eq of_nat_unat_ucast)
  show ?case
    using snoc n w by (simp add: gb_frame_pacing_record_def Let_def algebra_simps)
qed

lemma sum_unat_bound: "sum_list (map unat (ws :: u32 list)) \<le> length ws * 4294967295"
proof (induction ws)
  case (Cons w ws)
  have "unat w \<le> 4294967295" using u32_lt [of w] by simp
  with Cons show ?case by simp
qed simp

lemma record_full:
  "window_frames p = 59 \<Longrightarrow> gb_frame_pacing_record w p =
     p\<lparr>pace_frames := pace_frames p + 1, draw_interval := adapt ((window_work_us p + ucast w) div 60) (draw_interval p),
       window_frames := 0, window_work_us := 0\<rparr>"
  by (simp add: gb_frame_pacing_record_def Let_def)

lemma window_average:
  assumes "pacing_ok p" "window_frames p = 0" "window_work_us p = 0" "length ws = 60"
  shows "fold gb_frame_pacing_record ws p =
    p\<lparr>pace_frames := pace_frames p + 60,
      draw_interval := adapt (of_nat (sum_list (map unat ws) div 60)) (draw_interval p)\<rparr>"
proof -
  obtain us w where ws: "ws = us @ [w]" and us: "length us = 59"
    using assms(4) by (cases ws rule: rev_cases) auto
  have b: "sum_list (map unat us) + unat w < 18446744073709551616"
    using sum_unat_bound [of us] us u32_lt [of w] by simp
  have s: "of_nat (sum_list (map unat us)) + ucast w = (of_nat (sum_list (map unat ws)) :: u64)"
    by (simp add: ws of_nat_unat_ucast)
  have sb: "sum_list (map unat ws) < 18446744073709551616" using b by (simp add: ws)
  have div60: "(of_nat n :: u64) div 60 = of_nat (n div 60)" if "n < 18446744073709551616" for n
  proof -
    have "unat ((of_nat n :: u64) div 60) = n div 60" using that by (simp add: unat_div unat_of_nat_u64)
    moreover have "n div 60 < 18446744073709551616" using that div_le_dividend [of n 60] by linarith
    ultimately show ?thesis by (simp add: word_unat_eq_iff unat_of_nat_u64)
  qed
  note d = div60 [OF sb]
  define q where "q = fold gb_frame_pacing_record us p"
  have q: "q = p\<lparr>pace_frames := pace_frames p + 59, window_frames := 59,
      window_work_us := of_nat (sum_list (map unat us))\<rparr>"
    using window_prefix [OF assms(1-3), of us] us by (simp add: q_def)
  have "fold gb_frame_pacing_record ws p = gb_frame_pacing_record w q" by (simp add: ws q_def)
  also have "\<dots> = q\<lparr>pace_frames := pace_frames q + 1,
      draw_interval := adapt ((window_work_us q + ucast w) div 60) (draw_interval q),
      window_frames := 0, window_work_us := 0\<rparr>"
    by (rule record_full) (simp add: q)
  also have "window_work_us q + ucast w = of_nat (sum_list (map unat ws))" using s by (simp add: q)
  also note d
  finally show ?thesis by (simp add: q assms(2,3))
qed

section \<open>Audio pacing\<close>

definition GB_AUDIO_OUTPUT_RATE :: u64 where "GB_AUDIO_OUTPUT_RATE = 16000"
definition GB_AUDIO_SOURCE_RATE :: u64 where "GB_AUDIO_SOURCE_RATE = 16000"
definition GB_AUDIO_SOURCE_SAMPLES :: u64 where "GB_AUDIO_SOURCE_SAMPLES = 267"

lemmas audio_rates = GB_AUDIO_OUTPUT_RATE_def GB_AUDIO_SOURCE_RATE_def GB_AUDIO_SOURCE_SAMPLES_def

definition gb_audio_blocks_due :: "u64 \<Rightarrow> u64 \<Rightarrow> u32" where
  "gb_audio_blocks_due elapsed_us generated_blocks =
     (let source_samples = elapsed_us * GB_AUDIO_SOURCE_RATE div 1000000;
          due = (source_samples + GB_AUDIO_SOURCE_SAMPLES - 1) div GB_AUDIO_SOURCE_SAMPLES
      in if due \<le> generated_blocks then 0
         else let needed = due - generated_blocks in if 4 < needed then 4 else ucast needed)"

definition gb_audio_resampled_count :: "u64 \<Rightarrow> u32" where
  "gb_audio_resampled_count generated_blocks =
     (let total = generated_blocks * GB_AUDIO_SOURCE_SAMPLES * GB_AUDIO_OUTPUT_RATE div GB_AUDIO_SOURCE_RATE;
          previous = (generated_blocks - 1) * GB_AUDIO_SOURCE_SAMPLES * GB_AUDIO_OUTPUT_RATE div GB_AUDIO_SOURCE_RATE
      in ucast (total - previous))"

text \<open>What the wall clock asks for: the blocks that cover the samples elapsed, over the integers.\<close>

definition blocks_elapsed :: "nat \<Rightarrow> nat" where
  "blocks_elapsed us = (us * 16000 div 1000000 + 266) div 267"

lemma blocks_due_eq:
  assumes "unat elapsed < 2 ^ 50" "unat gen < 2 ^ 63"
  shows "unat (gb_audio_blocks_due elapsed gen) = min 4 (blocks_elapsed (unat elapsed) - unat gen)"
proof -
  let ?s = "elapsed * GB_AUDIO_SOURCE_RATE div 1000000"
  let ?due = "(?s + GB_AUDIO_SOURCE_SAMPLES - 1) div GB_AUDIO_SOURCE_SAMPLES"
  have e: "unat elapsed < 1125899906842624" using assms(1) by simp
  have s: "unat ?s = unat elapsed * 16000 div 1000000"
    using e by (simp add: audio_rates unat_div unat_word_ariths take_bit_eq_mod)
  have sb: "unat elapsed * 16000 div 1000000 < 18014398509482" using e by (simp add: less_mult_imp_div_less)
  have m: "unat (?s + 266) = unat elapsed * 16000 div 1000000 + 266"
    using s sb by (simp add: unat_word_ariths take_bit_eq_mod)
  have "?s + GB_AUDIO_SOURCE_SAMPLES - 1 = ?s + 266" by (simp add: audio_rates)
  then have due: "unat ?due = blocks_elapsed (unat elapsed)"
    by (simp only: unat_div m blocks_elapsed_def) (simp add: audio_rates)
  show ?thesis
  proof (cases "?due \<le> gen")
    case True
    then have "blocks_elapsed (unat elapsed) \<le> unat gen" by (simp add: word_le_nat_alt due)
    with True show ?thesis by (simp add: gb_audio_blocks_due_def Let_def)
  next
    case False
    then have lt: "unat gen < blocks_elapsed (unat elapsed)" by (simp add: word_le_nat_alt due)
    have n: "unat (?due - gen) = blocks_elapsed (unat elapsed) - unat gen"
      using False by (simp add: unat_sub due)
    show ?thesis
    proof (cases "4 < ?due - gen")
      case True
      then have "4 < blocks_elapsed (unat elapsed) - unat gen" using n by (simp add: word_less_nat_alt)
      with False True show ?thesis by (simp add: gb_audio_blocks_due_def Let_def)
    next
      case small: False
      then have b: "blocks_elapsed (unat elapsed) - unat gen \<le> 4" using n by (simp add: word_less_nat_alt)
      then have "unat (ucast (?due - gen) :: u32) = blocks_elapsed (unat elapsed) - unat gen"
        using n by (simp add: unsigned_ucast_eq take_bit_eq_mod)
      with False small b show ?thesis by (simp add: gb_audio_blocks_due_def Let_def)
    qed
  qed
qed

lemma resampled_count_eq:
  assumes "0 < unat g" "unat g < 2 ^ 40"
  shows "unat (gb_audio_resampled_count g) = 267"
proof -
  obtain k where k: "unat g = Suc k" using assms(1) by (cases "unat g") auto
  have b: "Suc k < 1099511627776" using assms(2) k by simp
  have p: "unat (g - 1) = k" using k by (simp add: unat_sub word_le_nat_alt)
  have scale: "unat (h * 267 * 16000 div 16000) = unat h * 267" if "unat h < 1099511627776" for h :: u64
  proof -
    have "unat (h * 267) = unat h * 267" using that by (subst unat_mult_u64) simp_all
    moreover from this have "unat (h * 267 * 16000) = unat h * 267 * 16000"
      using that by (subst unat_mult_u64) simp_all
    ultimately show ?thesis by (simp only: unat_div) simp
  qed
  have t: "unat (g * 267 * 16000 div 16000) = Suc k * 267" using scale [of g] b k by simp
  have q: "unat ((g - 1) * 267 * 16000 div 16000) = k * 267" using scale [of "g - 1"] b p by simp
  have "unat (g * 267 * 16000 div 16000 - (g - 1) * 267 * 16000 div 16000) = 267"
    using t q by (subst unat_sub) (simp_all only: word_le_nat_alt, simp_all)
  then show ?thesis
    by (simp add: gb_audio_resampled_count_def Let_def audio_rates unsigned_ucast_eq take_bit_eq_mod)
qed

end
