(* ===== verification/Gb_Input.thy ===== *)
theory Gb_Input
  imports Fw_Base
begin

text \<open>
  Controller input (main/gb_input.c, main/gb_screen_sleep.h): the buffer of gameplay samples, the
  Select long press, the keyboard and stick maps, menu actions and the screen-sleep gesture.
  Microsecond timestamps (\<open>int64_t\<close>) are integers; overflowing one takes 292,000 years.
\<close>

section \<open>Samples\<close>

record pad_sample =
  pad_connected :: bool
  pad_right :: bool
  pad_left :: bool
  pad_up :: bool
  pad_down :: bool
  pad_a :: bool
  pad_b :: bool
  pad_view :: bool
  pad_menu :: bool
  any_button :: bool

definition no_pad :: pad_sample where
  "no_pad = \<lparr>pad_connected = False, pad_right = False, pad_left = False, pad_up = False, pad_down = False,
     pad_a = False, pad_b = False, pad_view = False, pad_menu = False, any_button = False\<rparr>"

definition sample_bits :: "pad_sample \<Rightarrow> u32" where
  "sample_bits p =
     (if pad_right p then 1 else 0) OR (if pad_left p then 2 else 0) OR
     (if pad_up p then 4 else 0) OR (if pad_down p then 8 else 0) OR
     (if pad_a p then 16 else 0) OR (if pad_b p then 32 else 0) OR
     (if pad_view p then 64 else 0) OR (if pad_menu p then 128 else 0)"

definition released :: "pad_sample \<Rightarrow> bool" where
  "released p \<longleftrightarrow> pad_connected p \<and> \<not> any_button p \<and> sample_bits p = 0"

section \<open>The long press on Select\<close>

definition GB_SELECT_PAUSE_US :: int where "GB_SELECT_PAUSE_US = 1000000"

record gb_select_pause =
  sp_connected :: bool
  sp_armed :: bool
  sp_holding :: bool
  sp_started :: int

definition gb_select_pause_init :: "pad_sample \<Rightarrow> gb_select_pause" where
  "gb_select_pause_init p =
     \<lparr>sp_connected = pad_connected p, sp_armed = pad_connected p \<and> \<not> pad_view p, sp_holding = False,
      sp_started = 0\<rparr>"

definition gb_select_pause_step :: "pad_sample \<Rightarrow> int \<Rightarrow> gb_select_pause \<Rightarrow> bool \<times> gb_select_pause" where
  "gb_select_pause_step p now s =
     (if \<not> pad_connected p \<or> \<not> sp_connected s then (False, gb_select_pause_init p)
      else if \<not> pad_view p then (False, s\<lparr>sp_armed := True, sp_holding := False\<rparr>)
      else if \<not> sp_armed s then (False, s)
      else
        let s = (if \<not> sp_holding s then s\<lparr>sp_holding := True, sp_started := now\<rparr> else s)
        in if now - sp_started s < GB_SELECT_PAUSE_US then (False, s)
           else (True, s\<lparr>sp_armed := False\<rparr>))"

fun pause_run :: "(pad_sample \<times> int) list \<Rightarrow> gb_select_pause \<Rightarrow> bool list" where
  "pause_run [] s = []"
| "pause_run ((p, t) # xs) s = (let (fired, s') = gb_select_pause_step p t s in fired # pause_run xs s')"

lemma pause_disarmed:
  assumes "sp_connected s" "\<not> sp_armed s" "\<forall>(p, t) \<in> set xs. pad_connected p \<and> pad_view p"
  shows "pause_run xs s = replicate (length xs) False"
  using assms(3)
proof (induction xs)
  case (Cons x xs)
  then show ?case using assms(1,2) by (cases x) (simp add: gb_select_pause_step_def)
qed simp

lemma pause_holding:
  assumes "sp_connected s" "sp_armed s" "sp_holding s" "\<forall>(p, t) \<in> set xs. pad_connected p \<and> pad_view p"
  shows "pause_run xs s =
    map (\<lambda>i. GB_SELECT_PAUSE_US \<le> snd (xs ! i) - sp_started s \<and>
           (\<forall>j < i. snd (xs ! j) - sp_started s < GB_SELECT_PAUSE_US)) [0..<length xs]"
  using assms(4)
proof (induction xs)
  case (Cons x xs)
  obtain p t where x: "x = (p, t)" by (cases x)
  have v: "pad_connected p" "pad_view p" and tl: "\<forall>(p, t) \<in> set xs. pad_connected p \<and> pad_view p"
    using Cons.prems x by auto
  have shift: "map f [0..<length (x # xs)] = f 0 # map (\<lambda>i. f (Suc i)) [0..<length xs]" for f :: "nat \<Rightarrow> bool"
    by (simp add: map_upt_Suc del: upt_Suc)
  show ?case
  proof (cases "t - sp_started s < GB_SELECT_PAUSE_US")
    case True
    then have "gb_select_pause_step p t s = (False, s)"
      using assms v by (simp add: gb_select_pause_step_def Let_def)
    then show ?thesis
      using Cons.IH [OF tl] True by (simp only: shift) (auto simp: x All_less_Suc2)
  next
    case False
    then have "gb_select_pause_step p t s = (True, s\<lparr>sp_armed := False\<rparr>)"
      using assms v by (simp add: gb_select_pause_step_def Let_def)
    then have "pause_run (x # xs) s = True # replicate (length xs) False"
      using pause_disarmed [of "s\<lparr>sp_armed := False\<rparr>" xs] assms(1) tl by (simp add: x)
    also have "\<dots> = True # map (\<lambda>i. False) [0..<length xs]" by (simp add: map_replicate_const)
    finally show ?thesis using False by (simp only: shift) (auto simp: x)
  qed
qed simp

text \<open>Held from its first sample on, Select fires exactly once: at the first sample a second later.\<close>

lemma pause_fires_once:
  assumes "sp_connected s" "sp_armed s" "\<not> sp_holding s" "xs \<noteq> []"
    and "\<forall>(p, t) \<in> set xs. pad_connected p \<and> pad_view p"
  shows "pause_run xs s =
    map (\<lambda>i. GB_SELECT_PAUSE_US \<le> snd (xs ! i) - snd (hd xs) \<and>
           (\<forall>j < i. snd (xs ! j) - snd (hd xs) < GB_SELECT_PAUSE_US)) [0..<length xs]"
proof -
  obtain p t ys where xs: "xs = (p, t) # ys" using assms(4) by (cases xs) auto
  let ?s = "s\<lparr>sp_holding := True, sp_started := t\<rparr>"
  have "pause_run xs s = pause_run xs ?s"
    using assms by (simp add: xs gb_select_pause_step_def Let_def)
  then show ?thesis
    using pause_holding [of ?s xs] assms by (simp add: xs)
qed

section \<open>The sample buffer\<close>

definition GB_INPUT_BUFFER_CAPACITY :: nat where "GB_INPUT_BUFFER_CAPACITY = 16"
definition GB_INPUT_BUFFER_MAX_AGE_US :: int where "GB_INPUT_BUFFER_MAX_AGE_US = 100000"

record gb_input_event =
  ev_sample :: pad_sample
  ev_at :: int

record gb_input_buffer =
  ib_latest :: pad_sample
  ib_events :: "gb_input_event list"
  ib_head :: nat
  ib_count :: nat
  ib_enabled :: bool
  ib_armed :: bool
  ib_dropped :: u32

text \<open>The ring: what \<open>push\<close> and \<open>take\<close> do to \<open>events\<close>, \<open>head\<close> and \<open>count\<close>.\<close>

definition ring_clear :: "gb_input_buffer \<Rightarrow> gb_input_buffer" where
  "ring_clear s = s\<lparr>ib_head := 0, ib_count := 0\<rparr>"

definition ring_put :: "gb_input_event \<Rightarrow> gb_input_buffer \<Rightarrow> gb_input_buffer" where
  "ring_put e s =
     s\<lparr>ib_events := (ib_events s)[(ib_head s + ib_count s) mod GB_INPUT_BUFFER_CAPACITY := e],
       ib_count := ib_count s + 1\<rparr>"

definition ring_get :: "gb_input_buffer \<Rightarrow> gb_input_event \<times> gb_input_buffer" where
  "ring_get s = (ib_events s ! ib_head s,
     s\<lparr>ib_head := (ib_head s + 1) mod GB_INPUT_BUFFER_CAPACITY, ib_count := ib_count s - 1\<rparr>)"

definition gb_input_buffer_reset :: "pad_sample \<Rightarrow> bool \<Rightarrow> gb_input_buffer \<Rightarrow> gb_input_buffer" where
  "gb_input_buffer_reset p en s =
     (ring_clear s)\<lparr>ib_latest := p, ib_enabled := en, ib_armed := en \<and> released p\<rparr>"

definition gb_input_buffer_push :: "pad_sample \<Rightarrow> int \<Rightarrow> gb_input_buffer \<Rightarrow> gb_input_buffer" where
  "gb_input_buffer_push p now s =
     (let previous = sample_bits (ib_latest s);
          s = s\<lparr>ib_latest := p\<rparr>
      in if \<not> pad_connected p \<or> \<not> ib_enabled s then (ring_clear s)\<lparr>ib_armed := False\<rparr>
         else if \<not> ib_armed s then s\<lparr>ib_armed := released p\<rparr>
         else if sample_bits p = previous then s
         else
           let s = (if ib_count s = GB_INPUT_BUFFER_CAPACITY
                    then ring_clear (s\<lparr>ib_dropped := ib_dropped s + of_nat (ib_count s)\<rparr>) else s)
           in ring_put \<lparr>ev_sample = p, ev_at = now\<rparr> s)"

definition gb_input_buffer_take :: "int \<Rightarrow> gb_input_buffer \<Rightarrow> pad_sample \<times> gb_input_buffer" where
  "gb_input_buffer_take now s =
     (if \<not> ib_enabled s \<or> \<not> ib_armed s then (no_pad\<lparr>pad_connected := pad_connected (ib_latest s)\<rparr>, s)
      else
        let s = (if ib_count s \<noteq> 0 \<and> GB_INPUT_BUFFER_MAX_AGE_US < now - ev_at (ib_events s ! ib_head s)
                 then ring_clear (s\<lparr>ib_dropped := ib_dropped s + of_nat (ib_count s)\<rparr>) else s)
        in if ib_count s = 0 then (ib_latest s, s)
           else let (e, s) = ring_get s in (ev_sample e, s))"

text \<open>The events held, oldest first.\<close>

definition buffer_ok :: "gb_input_buffer \<Rightarrow> bool" where
  "buffer_ok s \<longleftrightarrow> length (ib_events s) = 16 \<and> ib_head s < 16 \<and> ib_count s \<le> 16"

definition held :: "gb_input_buffer \<Rightarrow> gb_input_event list" where
  "held s = map (\<lambda>i. ib_events s ! ((ib_head s + i) mod 16)) [0..<ib_count s]"

lemma ring_slot_neq: "h < 16 \<Longrightarrow> i < c \<Longrightarrow> c < 16 \<Longrightarrow> (h + c) mod 16 \<noteq> (h + i) mod (16 :: nat)"
  by (simp add: mod_if) linarith

lemma held_put:
  assumes "buffer_ok s" "ib_count s < 16"
  shows "held (ring_put e s) = held s @ [e]"
  using assms ring_slot_neq [of "ib_head s" _ "ib_count s"]
  by (auto simp: held_def ring_put_def buffer_ok_def GB_INPUT_BUFFER_CAPACITY_def nth_list_update
      intro!: map_cong)

lemma held_get:
  assumes "buffer_ok s" "held s \<noteq> []"
  shows "fst (ring_get s) = hd (held s) \<and> held (snd (ring_get s)) = tl (held s)"
proof -
  obtain n where n: "ib_count s = Suc n" using assms by (cases "ib_count s") (auto simp: held_def)
  have e: "map f [0..<Suc n] = f 0 # map (\<lambda>i. f (Suc i)) [0..<n]" for f :: "nat \<Rightarrow> gb_input_event"
    by (simp add: map_upt_Suc del: upt_Suc)
  have "((h + 1) mod 16 + i) mod 16 = (h + Suc i) mod 16" for h i :: nat
    by (simp add: mod_simps)
  then show ?thesis
    using assms(1) unfolding held_def n e
    by (simp add: ring_get_def buffer_ok_def GB_INPUT_BUFFER_CAPACITY_def n)
qed

interpretation ring: bounded_queue buffer_ok held 16 ring_put ring_get ring_clear
proof
  show "length (held s) \<le> 16" if "buffer_ok s" for s
    using that by (simp add: held_def buffer_ok_def)
  show "buffer_ok (ring_put e s)" if "buffer_ok s" "length (held s) < 16" for e s
    using that by (simp add: held_def buffer_ok_def ring_put_def)
  show "held (ring_put e s) = held s @ [e]" if "buffer_ok s" "length (held s) < 16" for e s
    using that by (intro held_put) (simp_all add: held_def)
  show "buffer_ok (snd (ring_get s))" if "buffer_ok s" "held s \<noteq> []" for s
    using that by (simp add: buffer_ok_def ring_get_def GB_INPUT_BUFFER_CAPACITY_def) linarith
  show "fst (ring_get s) = hd (held s) \<and> held (snd (ring_get s)) = tl (held s)"
    if "buffer_ok s" "held s \<noteq> []" for s
    using that by (rule held_get)
qed (simp_all add: buffer_ok_def ring_clear_def held_def)

text \<open>The specification of the buffer: a list of at most 16 events, and the same decisions.\<close>

record buffer_spec =
  bs_latest :: pad_sample
  bs_queue :: "gb_input_event list"
  bs_enabled :: bool
  bs_armed :: bool
  bs_dropped :: nat

definition buffer_abs :: "gb_input_buffer \<Rightarrow> buffer_spec" where
  "buffer_abs s = \<lparr>bs_latest = ib_latest s, bs_queue = held s, bs_enabled = ib_enabled s,
     bs_armed = ib_armed s, bs_dropped = unat (ib_dropped s)\<rparr>"

definition spec_push :: "pad_sample \<Rightarrow> int \<Rightarrow> buffer_spec \<Rightarrow> buffer_spec" where
  "spec_push p now b =
     (if \<not> pad_connected p \<or> \<not> bs_enabled b then b\<lparr>bs_latest := p, bs_queue := [], bs_armed := False\<rparr>
      else if \<not> bs_armed b then b\<lparr>bs_latest := p, bs_armed := released p\<rparr>
      else if sample_bits p = sample_bits (bs_latest b) then b\<lparr>bs_latest := p\<rparr>
      else if length (bs_queue b) < 16
      then b\<lparr>bs_latest := p, bs_queue := bs_queue b @ [\<lparr>ev_sample = p, ev_at = now\<rparr>]\<rparr>
      else b\<lparr>bs_latest := p, bs_queue := [\<lparr>ev_sample = p, ev_at = now\<rparr>],
             bs_dropped := (bs_dropped b + 16) mod 2 ^ 32\<rparr>)"

definition spec_take :: "int \<Rightarrow> buffer_spec \<Rightarrow> pad_sample \<times> buffer_spec" where
  "spec_take now b =
     (if \<not> bs_enabled b \<or> \<not> bs_armed b then (no_pad\<lparr>pad_connected := pad_connected (bs_latest b)\<rparr>, b)
      else case bs_queue b of
        [] \<Rightarrow> (bs_latest b, b)
      | e # es \<Rightarrow>
          if now - ev_at e \<le> GB_INPUT_BUFFER_MAX_AGE_US then (ev_sample e, b\<lparr>bs_queue := es\<rparr>)
          else (bs_latest b, b\<lparr>bs_queue := [], bs_dropped := (bs_dropped b + length (e # es)) mod 2 ^ 32\<rparr>))"

lemma ring_fields [simp]:
  "ib_latest (ring_put e s) = ib_latest s" "ib_enabled (ring_put e s) = ib_enabled s"
  "ib_armed (ring_put e s) = ib_armed s" "ib_dropped (ring_put e s) = ib_dropped s"
  "ib_latest (snd (ring_get s)) = ib_latest s" "ib_enabled (snd (ring_get s)) = ib_enabled s"
  "ib_armed (snd (ring_get s)) = ib_armed s" "ib_dropped (snd (ring_get s)) = ib_dropped s"
  "ib_latest (ring_clear s) = ib_latest s" "ib_enabled (ring_clear s) = ib_enabled s"
  "ib_armed (ring_clear s) = ib_armed s" "ib_dropped (ring_clear s) = ib_dropped s"
  by (simp_all add: ring_put_def ring_get_def ring_clear_def)

lemma held_upd [simp]:
  "held (s\<lparr>ib_latest := p\<rparr>) = held s" "held (s\<lparr>ib_armed := b\<rparr>) = held s" "held (s\<lparr>ib_dropped := d\<rparr>) = held s"
  by (simp_all add: held_def)

lemma buffer_ok_upd [simp]:
  "buffer_ok (s\<lparr>ib_latest := p\<rparr>) = buffer_ok s" "buffer_ok (s\<lparr>ib_armed := b\<rparr>) = buffer_ok s"
  "buffer_ok (s\<lparr>ib_dropped := d\<rparr>) = buffer_ok s"
  by (simp_all add: buffer_ok_def)

lemma held_length [simp]: "length (held s) = ib_count s"
  by (simp add: held_def)

lemma dropped_add: "unat (d + of_nat n :: u32) = (unat d + n) mod 2 ^ 32"
  by (simp add: unat_word_ariths unsigned_of_nat take_bit_eq_mod mod_simps)

lemma push_refines:
  assumes "buffer_ok s"
  shows "buffer_ok (gb_input_buffer_push p now s) \<and>
    buffer_abs (gb_input_buffer_push p now s) = spec_push p now (buffer_abs s)"
proof -
  let ?e = "\<lparr>ev_sample = p, ev_at = now\<rparr>"
  have c: "buffer_ok (ring_clear t)" "held (ring_clear t) = []" if "buffer_ok t" for t
    using that by (simp_all add: ring.clear_inv ring.clear_ab)
  have pt: "buffer_ok (ring_put ?e t) \<and> held (ring_put ?e t) = held t @ [?e]"
    if "buffer_ok t" "ib_count t < 16" for t
    using that ring.put_inv [of t ?e] ring.put_ab [of t ?e] by simp
  have n: "ib_count s \<le> 16" using assms by (simp add: buffer_ok_def)
  consider "\<not> pad_connected p \<or> \<not> ib_enabled s" | "pad_connected p" "ib_enabled s" "\<not> ib_armed s"
    | "pad_connected p" "ib_enabled s" "ib_armed s" "sample_bits p = sample_bits (ib_latest s)"
    | "pad_connected p" "ib_enabled s" "ib_armed s" "sample_bits p \<noteq> sample_bits (ib_latest s)" "ib_count s < 16"
    | "pad_connected p" "ib_enabled s" "ib_armed s" "sample_bits p \<noteq> sample_bits (ib_latest s)" "ib_count s = 16"
    using n by linarith
  then show ?thesis
  proof cases
    case 4
    then show ?thesis
      using assms pt [of "s\<lparr>ib_latest := p\<rparr>"]
      by (simp add: gb_input_buffer_push_def spec_push_def buffer_abs_def Let_def GB_INPUT_BUFFER_CAPACITY_def)
  next
    case 5
    let ?t = "ring_clear (s\<lparr>ib_latest := p, ib_dropped := ib_dropped s + 16\<rparr>)"
    have "buffer_ok ?t" "held ?t = []" "ib_count ?t = 0" using assms c by (simp_all add: ring_clear_def)
    then show ?thesis
      using 5 pt [of ?t] dropped_add [of "ib_dropped s" 16]
      by (simp add: gb_input_buffer_push_def spec_push_def buffer_abs_def Let_def GB_INPUT_BUFFER_CAPACITY_def)
  qed (use assms c in \<open>auto simp: gb_input_buffer_push_def spec_push_def buffer_abs_def Let_def\<close>)
qed

lemma take_refines:
  assumes "buffer_ok s"
  shows "buffer_ok (snd (gb_input_buffer_take now s)) \<and>
    spec_take now (buffer_abs s) =
      (fst (gb_input_buffer_take now s), buffer_abs (snd (gb_input_buffer_take now s)))"
proof (cases "ib_enabled s \<and> ib_armed s \<and> ib_count s \<noteq> 0")
  case False
  then have "held s = [] \<or> \<not> ib_enabled s \<or> \<not> ib_armed s" by (auto simp: held_def)
  with False assms show ?thesis
    by (auto simp: gb_input_buffer_take_def spec_take_def buffer_abs_def Let_def split: list.splits)
next
  case True
  then have ne: "held s \<noteq> []" by (auto simp: held_def)
  then obtain e es where q: "held s = e # es" by (cases "held s") auto
  obtain f t where g: "ring_get s = (f, t)" by (cases "ring_get s")
  have fe: "f = e" "held t = es" "buffer_ok t"
    using ring.get_ab [OF assms ne] ring.get_inv [OF assms ne] g q by simp_all
  have h: "ib_events s ! ib_head s = e" using fe(1) g by (simp add: ring_get_def)
  have t: "ib_latest t = ib_latest s" "ib_enabled t = ib_enabled s" "ib_armed t = ib_armed s"
    "ib_dropped t = ib_dropped s"
    using ring_fields(5-8) [of s] g by simp_all
  show ?thesis
  proof (cases "now - ev_at e \<le> GB_INPUT_BUFFER_MAX_AGE_US")
    case old: True
    then show ?thesis
      using True q h g fe t by (simp add: gb_input_buffer_take_def spec_take_def buffer_abs_def Let_def)
  next
    case False
    let ?t = "ring_clear (s\<lparr>ib_dropped := ib_dropped s + of_nat (ib_count s)\<rparr>)"
    have "buffer_ok ?t" "held ?t = []" "ib_count ?t = 0"
      using assms ring.clear_inv ring.clear_ab by (simp_all add: ring_clear_def buffer_ok_def)
    moreover have "ib_count s = Suc (length es)" using held_length [of s] by (simp add: q del: held_length)
    ultimately show ?thesis
      using True False q h dropped_add [of "ib_dropped s" "Suc (length es)"]
      by (simp add: gb_input_buffer_take_def spec_take_def buffer_abs_def Let_def)
  qed
qed

text \<open>A burst of changes, taken before it is stale, is replayed in order.\<close>

fun push_all :: "(pad_sample \<times> int) list \<Rightarrow> buffer_spec \<Rightarrow> buffer_spec" where
  "push_all [] b = b"
| "push_all ((p, t) # xs) b = push_all xs (spec_push p t b)"

fun take_all :: "nat \<Rightarrow> int \<Rightarrow> buffer_spec \<Rightarrow> pad_sample list" where
  "take_all 0 now b = []"
| "take_all (Suc n) now b = (let (p, b) = spec_take now b in p # take_all n now b)"

text \<open>\<open>changes prev xs\<close>: every sample is connected and differs in a button from the one before.\<close>

fun changes :: "pad_sample \<Rightarrow> (pad_sample \<times> int) list \<Rightarrow> bool" where
  "changes prev [] \<longleftrightarrow> True"
| "changes prev ((p, t) # xs) \<longleftrightarrow> pad_connected p \<and> sample_bits p \<noteq> sample_bits prev \<and> changes p xs"

lemma push_all_queue:
  assumes "changes (bs_latest b) xs" "bs_enabled b" "bs_armed b" "length (bs_queue b) + length xs \<le> 16"
  shows "bs_queue (push_all xs b) = bs_queue b @ map (\<lambda>(p, t). \<lparr>ev_sample = p, ev_at = t\<rparr>) xs \<and>
    bs_enabled (push_all xs b) \<and> bs_armed (push_all xs b)"
  using assms by (induction xs b rule: push_all.induct) (simp_all add: spec_push_def)

lemma take_all_queue:
  assumes "bs_enabled b" "bs_armed b" "\<forall>e \<in> set (bs_queue b). now - ev_at e \<le> GB_INPUT_BUFFER_MAX_AGE_US"
  shows "take_all (length (bs_queue b)) now b = map ev_sample (bs_queue b)"
proof -
  have "take_all (length q) now b = map ev_sample q"
    if "bs_queue b = q" "bs_enabled b" "bs_armed b" "\<forall>e \<in> set q. now - ev_at e \<le> GB_INPUT_BUFFER_MAX_AGE_US" for q b
    using that by (induction q arbitrary: b) (simp_all add: spec_take_def)
  then show ?thesis using assms by simp
qed

text \<open>The same operations on the buffer itself.\<close>

fun buffer_push_all :: "(pad_sample \<times> int) list \<Rightarrow> gb_input_buffer \<Rightarrow> gb_input_buffer" where
  "buffer_push_all [] s = s"
| "buffer_push_all ((p, t) # xs) s = buffer_push_all xs (gb_input_buffer_push p t s)"

fun buffer_take_all :: "nat \<Rightarrow> int \<Rightarrow> gb_input_buffer \<Rightarrow> pad_sample list" where
  "buffer_take_all 0 now s = []"
| "buffer_take_all (Suc n) now s = (let (p, s) = gb_input_buffer_take now s in p # buffer_take_all n now s)"

lemma push_all_refines:
  "buffer_ok s \<Longrightarrow> buffer_ok (buffer_push_all xs s) \<and> buffer_abs (buffer_push_all xs s) = push_all xs (buffer_abs s)"
  by (induction xs s rule: buffer_push_all.induct) (simp_all add: push_refines)

lemma take_all_refines:
  "buffer_ok s \<Longrightarrow> buffer_take_all n now s = take_all n now (buffer_abs s)"
proof (induction n arbitrary: s)
  case (Suc n)
  obtain p t where t: "gb_input_buffer_take now s = (p, t)" by (cases "gb_input_buffer_take now s")
  show ?case using take_refines [OF Suc.prems, of now] Suc.IH [of t] t by simp
qed simp

lemma burst_replayed:
  assumes "buffer_ok s" "ib_enabled s" "ib_armed s" "ib_count s = 0"
    and "changes (ib_latest s) xs" "length xs \<le> 16" "\<forall>(p, t) \<in> set xs. now - t \<le> GB_INPUT_BUFFER_MAX_AGE_US"
  shows "buffer_take_all (length xs) now (buffer_push_all xs s) = map fst xs"
proof -
  let ?b = "push_all xs (buffer_abs s)"
  have q: "bs_queue ?b = map (\<lambda>(p, t). \<lparr>ev_sample = p, ev_at = t\<rparr>) xs \<and> bs_enabled ?b \<and> bs_armed ?b"
    using push_all_queue [of "buffer_abs s" xs] assms by (simp add: buffer_abs_def held_def)
  moreover have "\<forall>e \<in> set (bs_queue ?b). now - ev_at e \<le> GB_INPUT_BUFFER_MAX_AGE_US"
    using q assms(7) by auto
  ultimately have "take_all (length xs) now ?b = map fst xs"
    using take_all_queue [of ?b now] by (simp add: split_beta comp_def)
  then show ?thesis using push_all_refines [OF assms(1), of xs] by (simp add: take_all_refines)
qed

section \<open>Stick, keyboard and key maps\<close>

definition gb_input_left_stick :: "int \<Rightarrow> int \<Rightarrow> pad_sample \<Rightarrow> pad_sample" where
  "gb_input_left_stick x y p =
     (if \<not> pad_connected p then p
      else
        let p = (if \<not> pad_left p \<and> \<not> pad_right p then p\<lparr>pad_left := x < -160, pad_right := 160 < x\<rparr> else p);
            p = (if \<not> pad_up p \<and> \<not> pad_down p then p\<lparr>pad_up := y < -160, pad_down := 160 < y\<rparr> else p)
        in p\<lparr>any_button := any_button p \<or> pad_left p \<or> pad_right p \<or> pad_up p \<or> pad_down p\<rparr>)"

definition press_key :: "u8 \<Rightarrow> pad_sample \<Rightarrow> pad_sample" where
  "press_key k out =
     (let out = out\<lparr>any_button := any_button out \<or> k \<noteq> 0\<rparr>
      in if k = 0x1a then out\<lparr>pad_up := True\<rparr>
         else if k = 0x04 then out\<lparr>pad_left := True\<rparr>
         else if k = 0x16 then out\<lparr>pad_down := True\<rparr>
         else if k = 0x07 then out\<lparr>pad_right := True\<rparr>
         else if k = 0x0d then out\<lparr>pad_a := True\<rparr>
         else if k = 0x0e then out\<lparr>pad_b := True\<rparr>
         else if k = 0x0f then out\<lparr>pad_menu := True\<rparr>
         else if k = 0x0c then out\<lparr>pad_view := True\<rparr>
         else out)"

fun keyboard_loop :: "u8 list \<Rightarrow> pad_sample \<Rightarrow> pad_sample" where
  "keyboard_loop [] out = out"
| "keyboard_loop (k # ks) out =
     (if 1 \<le> k \<and> k \<le> 3 then no_pad\<lparr>pad_connected := True\<rparr> else keyboard_loop ks (press_key k out))"

text \<open>\<open>keys\<close> is \<open>None\<close> for a null pointer.\<close>

definition gb_input_keyboard :: "u8 list option \<Rightarrow> u8 \<Rightarrow> pad_sample" where
  "gb_input_keyboard keys modifiers =
     (let out = no_pad\<lparr>pad_connected := True, any_button := modifiers \<noteq> 0\<rparr>
      in case keys of None \<Rightarrow> out | Some ks \<Rightarrow> keyboard_loop ks out)"

record gb_keys =
  k_right :: bool
  k_left :: bool
  k_up :: bool
  k_down :: bool
  k_a :: bool
  k_b :: bool
  k_select :: bool
  k_start :: bool

definition gb_input_map :: "pad_sample \<Rightarrow> gb_keys" where
  "gb_input_map p =
     (if \<not> pad_connected p
      then \<lparr>k_right = False, k_left = False, k_up = False, k_down = False, k_a = False, k_b = False,
            k_select = False, k_start = False\<rparr>
      else \<lparr>k_right = pad_right p \<and> \<not> pad_left p, k_left = pad_left p \<and> \<not> pad_right p,
            k_up = pad_up p \<and> \<not> pad_down p, k_down = pad_down p \<and> \<not> pad_up p,
            k_a = pad_a p, k_b = pad_b p, k_select = pad_view p, k_start = pad_menu p\<rparr>)"

text \<open>A report's keys by membership: the order does not matter, and one error code releases all.\<close>

definition keyboard_spec :: "u8 set \<Rightarrow> bool \<Rightarrow> pad_sample" where
  "keyboard_spec K mods =
     (if 1 \<in> K \<or> 2 \<in> K \<or> 3 \<in> K then no_pad\<lparr>pad_connected := True\<rparr>
      else \<lparr>pad_connected = True, pad_right = 0x07 \<in> K, pad_left = 0x04 \<in> K, pad_up = 0x1a \<in> K,
            pad_down = 0x16 \<in> K, pad_a = 0x0d \<in> K, pad_b = 0x0e \<in> K, pad_view = 0x0c \<in> K,
            pad_menu = 0x0f \<in> K, any_button = mods \<or> K - {0} \<noteq> {}\<rparr>)"

lemma error_code: "1 \<le> k \<and> k \<le> 3 \<longleftrightarrow> k = 1 \<or> k = 2 \<or> k = (3 :: u8)"
  by (auto simp: word_le_nat_alt word_unat_eq_iff)

lemma keyboard_loop_spec:
  "keyboard_loop ks p =
     (if 1 \<in> set ks \<or> 2 \<in> set ks \<or> 3 \<in> set ks then no_pad\<lparr>pad_connected := True\<rparr>
      else p\<lparr>pad_right := pad_right p \<or> 0x07 \<in> set ks, pad_left := pad_left p \<or> 0x04 \<in> set ks,
             pad_up := pad_up p \<or> 0x1a \<in> set ks, pad_down := pad_down p \<or> 0x16 \<in> set ks,
             pad_a := pad_a p \<or> 0x0d \<in> set ks, pad_b := pad_b p \<or> 0x0e \<in> set ks,
             pad_view := pad_view p \<or> 0x0c \<in> set ks, pad_menu := pad_menu p \<or> 0x0f \<in> set ks,
             any_button := any_button p \<or> set ks - {0} \<noteq> {}\<rparr>)"
proof (induction ks arbitrary: p)
  case (Cons k ks)
  show ?case
  proof (cases "1 \<le> k \<and> k \<le> 3")
    case True
    then show ?thesis by (auto simp: error_code)
  next
    case False
    then have "k \<noteq> 1" "k \<noteq> 2" "k \<noteq> 3" by (auto simp: error_code)
    moreover have "keyboard_loop (k # ks) p = keyboard_loop ks (press_key k p)"
      using False by (simp only: keyboard_loop.simps if_False)
    ultimately show ?thesis unfolding Cons.IH by (auto simp: press_key_def Let_def)
  qed
qed simp

lemma keyboard_by_set: "gb_input_keyboard (Some ks) m = keyboard_spec (set ks) (m \<noteq> 0)"
  by (simp add: gb_input_keyboard_def keyboard_loop_spec keyboard_spec_def no_pad_def)

lemma map_no_opposites:
  "\<not> (k_left (gb_input_map p) \<and> k_right (gb_input_map p))" "\<not> (k_up (gb_input_map p) \<and> k_down (gb_input_map p))"
  by (simp_all add: gb_input_map_def)

section \<open>Menu actions\<close>

datatype gb_menu_action = GB_MENU_NONE | GB_MENU_UP | GB_MENU_DOWN | GB_MENU_CONFIRM | GB_MENU_BACK

record gb_menu_input =
  mi_connected :: bool
  mi_up :: bool
  mi_down :: bool
  mi_a :: bool
  mi_b :: bool

definition gb_menu_input_init :: "pad_sample \<Rightarrow> gb_menu_input" where
  "gb_menu_input_init p =
     \<lparr>mi_connected = pad_connected p, mi_up = pad_connected p \<and> pad_up p,
      mi_down = pad_connected p \<and> pad_down p, mi_a = pad_connected p \<and> pad_a p,
      mi_b = pad_connected p \<and> pad_b p\<rparr>"

definition gb_menu_input_step :: "pad_sample \<Rightarrow> gb_menu_input \<Rightarrow> gb_menu_action \<times> gb_menu_input" where
  "gb_menu_input_step p s =
     (if \<not> pad_connected p \<or> \<not> mi_connected s then (GB_MENU_NONE, gb_menu_input_init p)
      else
        (if pad_up p \<and> \<not> pad_down p \<and> \<not> mi_up s then GB_MENU_UP
         else if pad_down p \<and> \<not> pad_up p \<and> \<not> mi_down s then GB_MENU_DOWN
         else if pad_a p \<and> \<not> mi_a s then GB_MENU_CONFIRM
         else if pad_b p \<and> \<not> mi_b s then GB_MENU_BACK
         else GB_MENU_NONE, gb_menu_input_init p))"

text \<open>What is held gives no second action, and a reconnecting pad gives none at once.\<close>

lemma menu_no_repeat:
  "fst (gb_menu_input_step p (snd (gb_menu_input_step p s))) = GB_MENU_NONE"
  by (auto simp: gb_menu_input_step_def gb_menu_input_init_def)

section \<open>Waking the screen\<close>

record gb_screen_sleep =
  sl_phase :: nat
  sl_released_ms :: u32
  sl_released :: bool

definition gb_screen_sleep_step :: "bool \<Rightarrow> u32 \<Rightarrow> gb_screen_sleep \<Rightarrow> gb_screen_sleep" where
  "gb_screen_sleep_step pressed now s =
     (let s = (if sl_phase s = 1 \<and> pressed then s\<lparr>sl_phase := 2, sl_released := False\<rparr> else s)
      in if sl_phase s = 0 \<or> sl_phase s = 2 then
           (if pressed then s\<lparr>sl_released := False\<rparr>
            else if \<not> sl_released s then s\<lparr>sl_released := True, sl_released_ms := now\<rparr>
            else if 80 \<le> now - sl_released_ms s then s\<lparr>sl_phase := sl_phase s + 1, sl_released := False\<rparr>
            else s)
         else s)"

definition sleep_run :: "(bool \<times> u32) list \<Rightarrow> gb_screen_sleep \<Rightarrow> gb_screen_sleep" where
  "sleep_run xs s = fold (\<lambda>(pressed, now). gb_screen_sleep_step pressed now) xs s"

lemma sleep_stays: "sl_phase s \<le> 1 \<Longrightarrow> sl_phase (gb_screen_sleep_step False now s) \<le> 1"
  by (auto simp: gb_screen_sleep_step_def Let_def)

lemma sleep_needs_press:
  "sl_phase s \<le> 1 \<Longrightarrow> \<forall>(pressed, now) \<in> set xs. \<not> pressed \<Longrightarrow> sl_phase (sleep_run xs s) \<le> 1"
proof (induction xs arbitrary: s)
  case (Cons x xs)
  obtain now where x: "x = (False, now)" using Cons.prems(2) by (cases x) auto
  have "sl_phase (sleep_run xs (gb_screen_sleep_step False now s)) \<le> 1"
    by (rule Cons.IH [OF sleep_stays [OF Cons.prems(1)]]) (use Cons.prems(2) in auto)
  then show ?case by (simp add: sleep_run_def x)
qed (simp add: sleep_run_def)

end
