(* ===== verification/Gb_Name.thy ===== *)
theory Gb_Name
  imports Fw_Base
begin

text \<open>
  ROM names (main/gb_name.c): the byte-level check of \<open>gb_name_valid\<close>, which is an incremental UTF-8
  decoder, and the decoding of a URL parameter into a name.  A \<open>char *\<close> is the list of the bytes
  from the pointer on; a list that ends stands for one followed by a terminating zero.
\<close>

definition cstr :: "u8 list \<Rightarrow> cstring" where
  "cstr m = takeWhile (\<lambda>b. b \<noteq> 0) m"

section \<open>The check\<close>

text \<open>The lead byte of a multi-byte sequence: its payload and how many bytes follow.\<close>

definition lead_byte :: "u8 \<Rightarrow> (u32 \<times> nat) option" where
  "lead_byte first =
     (if 0xC2 \<le> first \<and> first \<le> 0xDF then Some (ucast (first AND 0x1f), 1)
      else if 0xE0 \<le> first \<and> first \<le> 0xEF then Some (ucast (first AND 0x0f), 2)
      else if 0xF0 \<le> first \<and> first \<le> 0xF4 then Some (ucast (first AND 0x07), 3)
      else None)"

fun continuation :: "u8 list \<Rightarrow> u32 \<Rightarrow> u32 option" where
  "continuation [] cp = Some cp"
| "continuation (x # xs) cp =
     (if x AND 0xC0 \<noteq> 0x80 then None else continuation xs (push_bit 6 cp OR ucast (x AND 0x3f)))"

definition refused :: "nat \<Rightarrow> u32 \<Rightarrow> bool" where
  "refused remaining cp \<longleftrightarrow>
     (remaining = 1 \<and> cp < 0x80) \<or> (remaining = 2 \<and> cp < 0x800) \<or> (remaining = 3 \<and> cp < 0x10000) \<or>
     (0xD800 \<le> cp \<and> cp \<le> 0xDFFF) \<or> 0xFFFF < cp \<or> cp = 0x2028 \<or> cp = 0x2029 \<or> cp = 0xFEFF \<or>
     cp < 0xA0 \<or> (0x2000 \<le> cp \<and> cp \<le> 0x200F)"

function name_loop :: "u8 list \<Rightarrow> bool" where
  "name_loop [] = True"
| "name_loop (first # rest) =
     (if first < 0x80 then
        (if first < 0x20 \<or> first = 0x7f \<or> first = 0x2f \<or> first = 0x5c then False else name_loop rest)
      else case lead_byte first of
        None \<Rightarrow> False
      | Some (cp, remaining) \<Rightarrow>
          if length rest < remaining then False
          else case continuation (take remaining rest) cp of
            None \<Rightarrow> False
          | Some cp \<Rightarrow> if refused remaining cp then False else name_loop (drop remaining rest))"
  by pat_completeness auto
termination by (relation "measure length") auto

definition gb_name_valid :: "u8 list \<Rightarrow> bool" where
  "gb_name_valid m =
     (let name = cstr (take 32 m) in
      if length name = 0 \<or> 32 \<le> length name then False else name_loop name)"

section \<open>What it accepts\<close>

text \<open>UTF-8, for the code points of the basic plane.\<close>

definition utf8 :: "nat \<Rightarrow> u8 list" where
  "utf8 c =
     (if c < 0x80 then [of_nat c]
      else if c < 0x800 then [of_nat (0xC0 + c div 64), of_nat (0x80 + c mod 64)]
      else [of_nat (0xE0 + c div 4096), of_nat (0x80 + c div 64 mod 64), of_nat (0x80 + c mod 64)])"

text \<open>Names hold printable characters without separators, formatting spaces or surrogates.\<close>

definition name_char :: "nat \<Rightarrow> bool" where
  "name_char c \<longleftrightarrow> 0x20 \<le> c \<and> c \<noteq> 0x2f \<and> c \<noteq> 0x5c \<and> \<not> (0x7f \<le> c \<and> c < 0xA0) \<and> c \<le> 0xFFFF \<and>
     \<not> (0xD800 \<le> c \<and> c \<le> 0xDFFF) \<and> \<not> (0x2000 \<le> c \<and> c \<le> 0x200F) \<and> c \<noteq> 0x2028 \<and> c \<noteq> 0x2029 \<and> c \<noteq> 0xFEFF"

text \<open>The masks, arithmetically.\<close>

lemma mask_values: "(0x3f :: u8) = mask 6" "(0x1f :: u8) = mask 5" "(0x0f :: u8) = mask 4" "(0x07 :: u8) = mask 3"
  by (simp_all add: mask_eq_exp_minus_1)

lemma unat_and_payload:
  "unat (x AND 0x3f :: u8) = unat x mod 64" "unat (x AND 0x1f :: u8) = unat x mod 32"
  "unat (x AND 0x0f :: u8) = unat x mod 16" "unat (x AND 0x07 :: u8) = unat x mod 8"
  unfolding mask_values unat_and_mask by simp_all

lemma top_bits: "(x :: u8) AND 0xC0 = push_bit 6 (drop_bit 6 x)"
proof -
  have m: "(0xC0 :: u8) = NOT (mask 6)" by (simp add: mask_eq_exp_minus_1)
  show ?thesis unfolding m by (auto intro!: bit_word_eqI simp: bit_simps)
qed

lemma unat_top_bits: "unat ((x :: u8) AND 0xC0) = unat x div 64 * 64"
proof -
  have "unat x div 64 < 4" using u8_lt [of x] by (simp add: less_mult_imp_div_less del: u8_lt)
  then show ?thesis
    unfolding top_bits push_bit_eq_mult
    by (simp add: unat_word_ariths take_bit_eq_mod unat_drop_bit_eq drop_bit_eq_div)
qed

lemma continuation_byte: "x AND 0xC0 = 0x80 \<longleftrightarrow> unat (x :: u8) div 64 = 2"
proof -
  have "x AND 0xC0 = 0x80 \<longleftrightarrow> unat (x AND 0xC0) = 128" by (simp add: word_unat_eq_iff)
  then show ?thesis unfolding unat_top_bits by simp
qed

lemma unat_shift_in:
  assumes "unat a < 2 ^ 16" "unat (b :: u32) < 64"
  shows "unat (push_bit 6 a OR b) = unat a * 64 + unat b"
proof -
  have b: "b = take_bit 6 b" using assms(2)
    by (simp only: word_unat_eq_iff unsigned_take_bit_eq) (simp add: take_bit_eq_mod)
  have "push_bit 6 a OR b = push_bit 6 a + b"
    by (subst b, subst (2) b, rule disjunctive_add [symmetric]) (auto simp: bit_simps)
  moreover have "unat (push_bit 6 a) = unat a * 64"
    using assms(1) by (simp add: push_bit_eq_mult unat_word_ariths take_bit_eq_mod)
  ultimately show ?thesis using assms by (simp add: unat_word_ariths take_bit_eq_mod)
qed

lemma continuation_Cons:
  assumes "unat cp < 2 ^ 16"
  shows "continuation (x # xs) cp =
    (if unat x div 64 = 2 then continuation xs (of_nat (unat cp * 64 + unat x mod 64)) else None)"
proof -
  have "unat (ucast (x AND 0x3f) :: u32) = unat x mod 64"
    by (simp add: unsigned_ucast_eq take_bit_eq_mod unat_and_payload)
  moreover from this have "unat (push_bit 6 cp OR ucast (x AND 0x3f)) = unat cp * 64 + unat x mod 64"
    using assms by (subst unat_shift_in) simp_all
  ultimately have "push_bit 6 cp OR ucast (x AND 0x3f) = of_nat (unat cp * 64 + unat x mod 64)"
    using assms by (metis of_nat_unat_ucast ucast_id)
  then show ?thesis by (simp add: continuation_byte)
qed

lemma lead_byte_nat:
  "lead_byte b =
     (if 0xC2 \<le> unat b \<and> unat b \<le> 0xDF then Some (of_nat (unat b mod 32), 1)
      else if 0xE0 \<le> unat b \<and> unat b \<le> 0xEF then Some (of_nat (unat b mod 16), 2)
      else if 0xF0 \<le> unat b \<and> unat b \<le> 0xF4 then Some (of_nat (unat b mod 8), 3)
      else None)"
proof -
  have "ucast (b AND m) = (of_nat (unat (b AND m)) :: u32)" for m by simp
  then show ?thesis unfolding lead_byte_def by (simp only: unat_and_payload word_le_nat_alt) simp
qed

lemma refused_nat:
  assumes "n < 2 ^ 18"
  shows "refused k (of_nat n) \<longleftrightarrow> k = 1 \<and> n < 0x80 \<or> k = 2 \<and> n < 0x800 \<or> k = 3 \<or> \<not> name_char n \<or> n < 0xA0"
proof -
  have n: "unat (of_nat n :: u32) = n" using assms by (intro unat_of_nat_u32) simp
  have e: "of_nat n = (c :: u32) \<longleftrightarrow> n = unat c" for c
    by (simp only: word_unat_eq_iff n)
  have v: "unat (0x80 :: u32) = 0x80" "unat (0x800 :: u32) = 0x800" "unat (0x10000 :: u32) = 0x10000"
    "unat (0xD800 :: u32) = 0xD800" "unat (0xDFFF :: u32) = 0xDFFF" "unat (0xFFFF :: u32) = 0xFFFF"
    "unat (0x2028 :: u32) = 0x2028" "unat (0x2029 :: u32) = 0x2029" "unat (0xFEFF :: u32) = 0xFEFF"
    "unat (0xA0 :: u32) = 0xA0" "unat (0x2000 :: u32) = 0x2000" "unat (0x200F :: u32) = 0x200F"
    by simp_all
  show ?thesis
    unfolding refused_def name_char_def word_less_nat_alt word_le_nat_alt n e v by presburger
qed

text \<open>One multi-byte character whose continuation bytes decode to \<open>c\<close>.\<close>

lemma multibyte:
  assumes "\<not> f < 0x80" "lead_byte f = Some (cp, k)" "length xs = k" "continuation xs cp = Some (of_nat c)" "c < 2 ^ 18"
  shows "name_loop (f # xs @ r) \<longleftrightarrow>
    \<not> (k = 1 \<and> c < 0x80 \<or> k = 2 \<and> c < 0x800 \<or> k = 3 \<or> \<not> name_char c \<or> c < 0xA0) \<and> name_loop r"
  using assms refused_nat [OF assms(5)] by auto

lemma low_part:
  "n = 0x80 + q \<Longrightarrow> q < 64 \<Longrightarrow> n div 64 = 2 \<and> n mod 64 = (q :: nat)"
  "n = 0xC0 + q \<Longrightarrow> q < 32 \<Longrightarrow> n mod 32 = (q :: nat)"
  "n = 0xE0 + q \<Longrightarrow> q < 16 \<Longrightarrow> n mod 16 = (q :: nat)"
  using mod_mult_self3 [of 2 64 q] mod_mult_self3 [of 6 32 q] mod_mult_self3 [of 14 16 q] by simp_all

lemma decode2:
  assumes "unat f = 0xC0 + p" "2 \<le> p" "p < 32" "unat x = 0x80 + q" "q < 64"
  shows "name_loop (f # x # r) \<longleftrightarrow> name_char (p * 64 + q) \<and> 0xA0 \<le> p * 64 + q \<and> name_loop r"
proof -
  have "unat f mod 32 = p" by (rule low_part(2) [OF assms(1,3)])
  then have lead: "lead_byte f = Some (of_nat p, 1)" using assms(1-3) by (simp add: lead_byte_nat)
  have f: "\<not> f < 0x80" using assms(1) by (simp add: word_less_nat_alt)
  have p: "unat (of_nat p :: u32) = p" using assms(3) by (intro unat_of_nat_u32) simp
  have x: "unat x div 64 = 2" "unat x mod 64 = q" using low_part(1) [OF assms(4,5)] by simp_all
  have c: "continuation [x] (of_nat p) = Some (of_nat (p * 64 + q))"
    using assms(3) by (subst continuation_Cons) (simp_all only: p x, simp_all)
  show ?thesis
    using multibyte [OF f lead _ c, of r] assms(2,3,5) by auto
qed

lemma decode3:
  assumes "unat f = 0xE0 + p" "p < 16" "unat x = 0x80 + q" "q < 64" "unat y = 0x80 + k" "k < 64"
  shows "name_loop (f # x # y # r) \<longleftrightarrow>
    name_char ((p * 64 + q) * 64 + k) \<and> 0x800 \<le> (p * 64 + q) * 64 + k \<and> name_loop r"
proof -
  have "unat f mod 16 = p" by (rule low_part(3) [OF assms(1,2)])
  then have lead: "lead_byte f = Some (of_nat p, 2)" using assms(1,2) by (simp add: lead_byte_nat)
  have f: "\<not> f < 0x80" using assms(1) by (simp add: word_less_nat_alt)
  have p: "unat (of_nat p :: u32) = p" "unat (of_nat (p * 64 + q) :: u32) = p * 64 + q"
    using assms(2,4) by (intro unat_of_nat_u32, simp)+
  have x: "unat x div 64 = 2" "unat x mod 64 = q" "unat y div 64 = 2" "unat y mod 64 = k"
    using low_part(1) [OF assms(3,4)] low_part(1) [OF assms(5,6)] by simp_all
  have "continuation [x, y] (of_nat p) = continuation [y] (of_nat (p * 64 + q))"
    using assms(2) by (subst continuation_Cons) (simp_all only: p x, simp_all)
  also have "\<dots> = Some (of_nat ((p * 64 + q) * 64 + k))"
    using assms(2,4) by (subst continuation_Cons) (simp_all only: p x, simp_all)
  finally have c: "continuation [x, y] (of_nat p) = Some (of_nat ((p * 64 + q) * 64 + k))" .
  show ?thesis
    using multibyte [OF f lead _ c, of r] assms(2,4,6) by auto
qed

lemma ascii_char: "unat b < 0x80 \<Longrightarrow> name_loop (b # r) \<longleftrightarrow> name_char (unat b) \<and> name_loop r"
  by (auto simp: name_char_def word_less_nat_alt word_unat_eq_iff)

declare name_loop.simps(2) [simp del]

lemma unat_of_nat_u8: "n < 256 \<Longrightarrow> unat (of_nat n :: u8) = n"
  by (simp add: unsigned_of_nat take_bit_eq_mod)

lemma name_loop_utf8:
  assumes "name_char c"
  shows "name_loop (utf8 c @ r) \<longleftrightarrow> name_loop r"
proof -
  have c: "c \<le> 0xFFFF" "c < 0x80 \<or> 0xA0 \<le> c" using assms by (auto simp: name_char_def)
  consider "c < 0x80" | "0xA0 \<le> c" "c < 0x800" | "0x800 \<le> c" using c(2) by linarith
  then show ?thesis
  proof cases
    case 1
    then show ?thesis using assms by (simp add: utf8_def ascii_char unat_of_nat_u8)
  next
    case 2
    have "c div 64 < 32" "2 \<le> c div 64" using 2 by simp_all
    then have "name_loop (of_nat (0xC0 + c div 64) # of_nat (0x80 + c mod 64) # r) \<longleftrightarrow>
        name_char (c div 64 * 64 + c mod 64) \<and> 0xA0 \<le> c div 64 * 64 + c mod 64 \<and> name_loop r"
      by (intro decode2 unat_of_nat_u8) simp_all
    then show ?thesis using 2 assms by (simp add: utf8_def)
  next
    case 3
    have "c div 4096 < 16" using c(1) by simp
    then have "name_loop (of_nat (0xE0 + c div 4096) # of_nat (0x80 + c div 64 mod 64) # of_nat (0x80 + c mod 64) # r) \<longleftrightarrow>
        name_char ((c div 4096 * 64 + c div 64 mod 64) * 64 + c mod 64) \<and>
        0x800 \<le> (c div 4096 * 64 + c div 64 mod 64) * 64 + c mod 64 \<and> name_loop r"
      by (intro decode3 unat_of_nat_u8) simp_all
    moreover have "c div 4096 * 64 + c div 64 mod 64 = c div 64"
      using div_mult_mod_eq [of "c div 64" 64] by (simp add: div_mult2_eq [symmetric])
    moreover have "c div 64 * 64 + c mod 64 = c" by simp
    ultimately show ?thesis using 3 assms by (simp add: utf8_def)
  qed
qed

lemma u8_of_unat: "unat (b :: u8) = n \<Longrightarrow> b = of_nat n"
  by auto

text \<open>What the check reads first is the encoding of a permitted character.\<close>

lemma lead_byte_cases:
  assumes "lead_byte b = Some (cp, k)" "k \<noteq> 3"
  obtains p where "unat b = 0xC0 + p" "2 \<le> p" "p < 32" "k = 1" "cp = of_nat p"
    | p where "unat b = 0xE0 + p" "p < 16" "k = 2" "cp = of_nat p"
proof -
  have "(0xC2 \<le> unat b \<and> unat b \<le> 0xDF \<and> cp = of_nat (unat b mod 32) \<and> k = 1) \<or>
      (0xE0 \<le> unat b \<and> unat b \<le> 0xEF \<and> cp = of_nat (unat b mod 16) \<and> k = 2)"
    using assms by (auto simp: lead_byte_nat split: if_splits)
  then show thesis
  proof (elim disjE conjE)
    assume a: "0xC2 \<le> unat b" "unat b \<le> 0xDF" "cp = of_nat (unat b mod 32)" "k = 1"
    then have "unat b = 0xC0 + (unat b - 0xC0)" "2 \<le> unat b - 0xC0" "unat b - 0xC0 < 32" by linarith+
    then show thesis using that(1) low_part(2) a by metis
  next
    assume a: "0xE0 \<le> unat b" "unat b \<le> 0xEF" "cp = of_nat (unat b mod 16)" "k = 2"
    then have "unat b = 0xE0 + (unat b - 0xE0)" "unat b - 0xE0 < 16" by linarith+
    then show thesis using that(2) low_part(3) a by metis
  qed
qed

lemma continuation_parts:
  assumes "unat (x :: u8) div 64 = 2"
  shows "unat x = 0x80 + unat x mod 64" "unat x mod 64 < 64"
  using assms div_mult_mod_eq [of "unat x" 64] by simp_all

lemma utf8_bytes:
  assumes "unat f = 0xC0 + p" "2 \<le> p" "p < 32" "unat x = 0x80 + q" "q < 64"
  shows "utf8 (p * 64 + q) = [f, x]"
  using assms by (auto simp: utf8_def word_unat_eq_iff unat_of_nat_u8 simp del: of_nat_add)

lemma utf8_bytes3:
  assumes "unat f = 0xE0 + p" "p < 16" "unat x = 0x80 + q" "q < 64" "unat y = 0x80 + k" "k < 64"
    and "0x800 \<le> (p * 64 + q) * 64 + k"
  shows "utf8 ((p * 64 + q) * 64 + k) = [f, x, y]"
proof -
  let ?c = "(p * 64 + q) * 64 + k"
  have d: "?c div 64 = p * 64 + q" "?c mod 64 = k"
    using assms(6) mod_mult_self3 [of "p * 64 + q" 64 k] by (simp, simp only: mod_less)
  have "?c div 4096 = ?c div 64 div 64" by (simp add: div_mult2_eq [symmetric])
  then have "?c div 4096 = p" using d assms(4) by simp
  then show ?thesis
    using assms d by (simp add: utf8_def word_unat_eq_iff unat_of_nat_u8 del: of_nat_add)
qed

lemma name_loop_first:
  assumes "name_loop (b # r)"
  shows "\<exists>c r'. b # r = utf8 c @ r' \<and> name_char c \<and> name_loop r'"
proof (cases "unat b < 0x80")
  case True
  then have "b # r = utf8 (unat b) @ r" by (simp add: utf8_def)
  moreover have "name_char (unat b) \<and> name_loop r" using assms True by (simp add: ascii_char)
  ultimately show ?thesis by blast
next
  case False
  then have nb: "\<not> b < 0x80" by (simp add: word_less_nat_alt)
  obtain cp k where lead: "lead_byte b = Some (cp, k)"
    using assms nb by (auto simp: name_loop.simps split: option.splits)
  have len: "k \<le> length r" using assms nb lead by (auto simp: name_loop.simps split: if_splits)
  obtain xs s where r: "r = xs @ s" "length xs = k"
    using len by (metis append_take_drop_id length_take min.absorb2)
  obtain cp' where cont: "continuation xs cp = Some cp'" and ok: "\<not> refused k cp'"
    using assms nb lead r by (auto simp: name_loop.simps split: option.splits if_splits)
  have "k \<noteq> 3" using ok by (auto simp: refused_def word_less_nat_alt)
  with lead show ?thesis
  proof (cases rule: lead_byte_cases)
    case (1 p)
    then obtain x where xs: "xs = [x]" using r by (cases xs) auto
    have "unat cp < 2 ^ 16" using 1 by (simp add: unat_of_nat_u32)
    then have x: "unat x div 64 = 2" using cont by (auto simp: xs continuation_byte split: if_splits)
    note q = continuation_parts [OF x]
    have l: "name_loop (b # x # s)" using assms r xs by simp
    show ?thesis
      using l decode2 [OF 1(1-3) q, of s] utf8_bytes [OF 1(1-3) q] r xs
      by (intro exI [of _ "p * 64 + unat x mod 64"] exI [of _ s]) simp
  next
    case (2 p)
    then obtain x y where xs: "xs = [x, y]" using r by (cases xs; cases "tl xs") auto
    have cp: "unat cp = p" using 2 by (simp add: unat_of_nat_u32)
    then have c: "continuation xs cp = (if unat x div 64 = 2 then continuation [y] (of_nat (p * 64 + unat x mod 64)) else None)"
      using 2(2) unfolding xs by (subst continuation_Cons) simp_all
    have x: "unat x div 64 = 2" using cont c by (auto split: if_splits)
    note q = continuation_parts [OF x]
    have "p * 64 + unat x mod 64 < 2 ^ 16" using 2(2) q(2) by simp
    then have "unat (of_nat (p * 64 + unat x mod 64) :: u32) < 2 ^ 16" by (subst unat_of_nat_u32) simp_all
    from continuation_Cons [OF this, of y "[]"]
    have y: "unat y div 64 = 2" using cont c x by (auto split: if_splits)
    note k = continuation_parts [OF y]
    have l: "name_loop (b # x # y # s)" using assms r xs by simp
    show ?thesis
      using l decode3 [OF 2(1,2) q k, of s] utf8_bytes3 [OF 2(1,2) q k] r xs
      by (intro exI [of _ "(p * 64 + unat x mod 64) * 64 + unat y mod 64"] exI [of _ s]) simp
  qed
qed

lemma utf8_nonempty: "utf8 c \<noteq> []"
  by (simp add: utf8_def)

lemma name_loop_iff: "name_loop bs \<longleftrightarrow> (\<exists>cs. bs = concat (map utf8 cs) \<and> (\<forall>c \<in> set cs. name_char c))"
proof
  show "name_loop bs \<Longrightarrow> \<exists>cs. bs = concat (map utf8 cs) \<and> (\<forall>c \<in> set cs. name_char c)"
  proof (induction "length bs" arbitrary: bs rule: less_induct)
    case less
    show ?case
    proof (cases bs)
      case Nil
      then show ?thesis by (intro exI [of _ "[]"]) simp
    next
      case (Cons b r)
      then obtain c s where cs: "bs = utf8 c @ s" "name_char c" "name_loop s"
        using name_loop_first less.prems by blast
      then have "length s < length bs" using utf8_nonempty [of c] by simp
      then obtain ds where "s = concat (map utf8 ds)" "\<forall>c \<in> set ds. name_char c"
        using less.hyps cs(3) by blast
      then show ?thesis using cs by (intro exI [of _ "c # ds"]) simp
    qed
  qed
next
  assume "\<exists>cs. bs = concat (map utf8 cs) \<and> (\<forall>c \<in> set cs. name_char c)"
  then obtain cs where "bs = concat (map utf8 cs)" "\<forall>c \<in> set cs. name_char c" by blast
  then show "name_loop bs" by (induction cs arbitrary: bs) (simp_all add: name_loop_utf8)
qed

lemma cstr_take: "length (cstr (take n m)) < n \<Longrightarrow> cstr (take n m) = cstr m"
  unfolding cstr_def by (induction m arbitrary: n) (auto simp: take_Cons split: nat.splits)

lemma cstr_take_long: "n \<le> length (cstr (take n m)) \<longleftrightarrow> n \<le> length (cstr m)"
  unfolding cstr_def by (induction m arbitrary: n) (auto simp: take_Cons split: nat.splits)

lemma name_valid_iff:
  "gb_name_valid m \<longleftrightarrow> 1 \<le> length (cstr m) \<and> length (cstr m) \<le> 31 \<and>
     (\<exists>cs. cstr m = concat (map utf8 cs) \<and> (\<forall>c \<in> set cs. name_char c))"
proof (cases "32 \<le> length (cstr m)")
  case True
  then show ?thesis by (simp add: gb_name_valid_def Let_def cstr_take_long)
next
  case False
  then have "length (cstr (take 32 m)) < 32" using cstr_take_long [of 32 m] by simp
  from cstr_take [OF this] show ?thesis
    using False by (auto simp: gb_name_valid_def Let_def name_loop_iff Suc_le_eq)
qed

section \<open>URL parameters\<close>

definition hex_digit :: "u8 \<Rightarrow> int" where
  "hex_digit c =
     (if 0x30 \<le> c \<and> c \<le> 0x39 then uint c - 0x30
      else if 0x41 \<le> c \<and> c \<le> 0x46 then uint c - 0x41 + 10
      else if 0x61 \<le> c \<and> c \<le> 0x66 then uint c - 0x61 + 10
      else -1)"

text \<open>The loop, from \<open>encoded[i]\<close> on; \<open>None\<close> is an early \<open>return false\<close>.\<close>

fun url_loop :: "u8 list \<Rightarrow> cstring \<Rightarrow> nat \<Rightarrow> cstring option" where
  "url_loop [] out cap = Some out"
| "url_loop (c # cs) out cap =
     (if c = 0 then Some out
      else if c = 0x25 then
        (case cs of
           h # l # cs' \<Rightarrow>
             if hex_digit h < 0 \<or> h = 0 \<or> l = 0 then None
             else if hex_digit l < 0 then None
             else
               let value = (of_int (push_bit 4 (hex_digit h) OR hex_digit l) :: u8)
               in if value = 0 \<or> cap \<le> length out + 1 then None else url_loop cs' (out @ [value]) cap
         | _ \<Rightarrow> None)
      else
        let value = (if c = 0x2B then 0x20 else c)
        in if value = 0 \<or> cap \<le> length out + 1 then None else url_loop cs (out @ [value]) cap)"

definition gb_name_url_decode :: "u8 list \<Rightarrow> nat \<Rightarrow> cstring option" where
  "gb_name_url_decode encoded cap =
     (if cap < 2 then None
      else case url_loop encoded [] cap of
        None \<Rightarrow> None
      | Some out \<Rightarrow> if gb_name_valid out then Some out else None)"

text \<open>How a byte may be written in a URL: itself, as \<open>+\<close> for a space, or as \<open>%\<close> and two hex digits.\<close>

inductive url_byte :: "u8 \<Rightarrow> u8 list \<Rightarrow> bool" where
  literal: "b \<noteq> 0 \<Longrightarrow> b \<noteq> 0x25 \<Longrightarrow> b \<noteq> 0x2B \<Longrightarrow> url_byte b [b]"
| space: "url_byte 0x20 [0x2B]"
| percent: "0 \<le> hex_digit h \<Longrightarrow> 0 \<le> hex_digit l \<Longrightarrow>
    b = of_int (16 * hex_digit h + hex_digit l) \<Longrightarrow> b \<noteq> 0 \<Longrightarrow> url_byte b [0x25, h, l]"

inductive_cases url_byteE: "url_byte b e"

lemma hex_digit_bound: "hex_digit c < 16"
  by (auto simp: hex_digit_def word_le_def)

lemma hex_digit_0: "hex_digit 0 = -1"
  by (simp add: hex_digit_def)

lemma hex_pair:
  assumes "0 \<le> hex_digit h" "0 \<le> hex_digit l"
  shows "push_bit 4 (hex_digit h) OR hex_digit l = 16 * hex_digit h + hex_digit l"
proof -
  have l: "hex_digit l = take_bit 4 (hex_digit l)"
    using assms(2) hex_digit_bound [of l] by (simp add: take_bit_eq_mod)
  have "push_bit 4 (hex_digit h) OR hex_digit l = push_bit 4 (hex_digit h) + hex_digit l"
    by (subst l, subst (2) l, rule disjunctive_add [symmetric]) (auto simp: bit_simps)
  then show ?thesis by (simp add: push_bit_eq_mult)
qed

lemma url_loop_percent:
  assumes "0 \<le> hex_digit h" "0 \<le> hex_digit l"
  shows "url_loop (0x25 # h # l # cs) out cap =
    (let b = of_int (16 * hex_digit h + hex_digit l)
     in if b = 0 \<or> cap \<le> length out + 1 then None else url_loop cs (out @ [b]) cap)"
proof -
  have "h \<noteq> 0" "l \<noteq> 0" using assms hex_digit_0 by auto
  then show ?thesis using assms by (simp add: hex_pair Let_def)
qed

declare url_loop.simps(2) [simp del]

lemma url_loop_byte:
  assumes "url_byte b e"
  shows "url_loop (e @ cs) out cap = (if cap \<le> length out + 1 then None else url_loop cs (out @ [b]) cap)"
  using assms
proof cases
  case (percent h l)
  then show ?thesis using url_loop_percent [of h l cs out cap] by (simp add: Let_def)
qed (simp_all add: url_loop.simps(2) Let_def)

lemma url_loop_encoded:
  assumes "list_all2 url_byte bs es" "tail = [] \<or> hd tail = 0" "length out + length bs < cap"
  shows "url_loop (concat es @ tail) out cap = Some (out @ bs)"
  using assms(1,3)
proof (induction bs es arbitrary: out rule: list_all2_induct)
  case Nil
  then show ?case using assms(2) by (cases tail) (simp_all add: url_loop.simps(2))
next
  case (Cons b bs e es)
  have "url_loop (concat (e # es) @ tail) out cap = url_loop (e @ concat es @ tail) out cap" by simp
  also have "\<dots> = url_loop (concat es @ tail) (out @ [b]) cap"
    using Cons.prems url_loop_byte [OF Cons.hyps(1)] by simp
  also have "\<dots> = Some ((out @ [b]) @ bs)" using Cons.IH [of "out @ [b]"] Cons.prems by simp
  finally show ?case by simp
qed

text \<open>Conversely, what the loop returns was written in one of these ways.\<close>

lemma cstr_Cons: "c \<noteq> 0 \<Longrightarrow> cstr (c # cs) = c # cstr cs" "cstr (0 # cs) = []" "cstr [] = []"
  by (simp_all add: cstr_def)

lemma url_loop_decodes:
  "url_loop m out cap = Some r \<Longrightarrow> length out < cap \<Longrightarrow>
     \<exists>bs es. r = out @ bs \<and> length r < cap \<and> list_all2 url_byte bs es \<and> cstr m = concat es"
proof (induction m out cap rule: url_loop.induct)
  case (1 out cap)
  then show ?case by (intro exI [of _ "[]"]) (simp add: cstr_Cons)
next
  case (2 c cs out cap)
  let ?goal = "\<exists>bs es. r = out @ bs \<and> length r < cap \<and> list_all2 url_byte bs es \<and> cstr (c # cs) = concat es"
  have step: ?goal
    if "url_byte b e" "c # cs = e @ cs'" "0 \<notin> set e"
      "\<exists>bs es. r = (out @ [b]) @ bs \<and> length r < cap \<and> list_all2 url_byte bs es \<and> cstr cs' = concat es" for b e cs'
  proof -
    from that(4) obtain bs es where "r = (out @ [b]) @ bs" "length r < cap" "list_all2 url_byte bs es"
      "cstr cs' = concat es" by blast
    moreover have "cstr (c # cs) = e @ cstr cs'"
      unfolding that(2) cstr_def using that(3) by (induction e) auto
    ultimately show ?thesis using that(1) by (intro exI [of _ "b # bs"] exI [of _ "e # es"]) simp
  qed
  consider "c = 0" | "c \<noteq> 0" "c = 0x25" | "c \<noteq> 0" "c \<noteq> 0x25" by blast
  then show ?case
  proof cases
    case 1
    then show ?thesis
      using "2.prems" by (intro exI [of _ "[]"]) (simp add: url_loop.simps(2) cstr_Cons)
  next
    case 2
    then obtain h l cs' where cs: "cs = h # l # cs'"
      using "2.prems"(1) by (auto simp: url_loop.simps(2) split: list.splits)
    have hl: "0 \<le> hex_digit h" "0 \<le> hex_digit l" "h \<noteq> 0" "l \<noteq> 0"
      using "2.prems"(1) 2 cs by (auto simp: url_loop.simps(2) split: if_splits)
    define b where "b = (of_int (16 * hex_digit h + hex_digit l) :: u8)"
    have "url_loop (c # cs) out cap = (if b = 0 \<or> cap \<le> length out + 1 then None else url_loop cs' (out @ [b]) cap)"
      using 2 cs url_loop_percent [OF hl(1,2), of cs' out cap] by (simp add: b_def Let_def)
    then have b: "b \<noteq> 0" "\<not> cap \<le> length out + 1" "url_loop cs' (out @ [b]) cap = Some r"
      using "2.prems"(1) by (auto split: if_splits)
    have v: "b = of_int (push_bit 4 (hex_digit h) OR hex_digit l)" by (simp add: hex_pair hl b_def)
    have "\<exists>bs es. r = (out @ [b]) @ bs \<and> length r < cap \<and> list_all2 url_byte bs es \<and> cstr cs' = concat es"
      using "2.IH"(1) [OF 2 cs refl _ _ v] hl b(1,2) b(3) by (simp flip: v)
    then show ?thesis
      using step [of b "[c, h, l]" cs'] 2 cs hl b(1) by (simp add: url_byte.percent b_def)
  next
    case 3
    define b where "b = (if c = 0x2B then 0x20 else c)"
    have b: "b \<noteq> 0" "\<not> cap \<le> length out + 1" "url_loop cs (out @ [b]) cap = Some r"
      using "2.prems"(1) 3 by (auto simp: url_loop.simps(2) Let_def b_def split: if_splits)
    have "\<exists>bs es. r = (out @ [b]) @ bs \<and> length r < cap \<and> list_all2 url_byte bs es \<and> cstr cs = concat es"
      using "2.IH"(2) [OF 3 b_def] b by simp
    moreover have "url_byte b [c]" using 3 by (auto simp: b_def intro: url_byte.literal url_byte.space)
    ultimately show ?thesis using step [of b "[c]" cs] 3 by simp
  qed
qed

lemma url_decode_iff:
  "gb_name_url_decode m cap = Some n \<longleftrightarrow>
     length n < cap \<and> gb_name_valid n \<and> (\<exists>es. list_all2 url_byte n es \<and> cstr m = concat es)"
    (is "?l \<longleftrightarrow> ?r")
proof
  assume ?l
  then have v: "2 \<le> cap" "url_loop m [] cap = Some n" "gb_name_valid n"
    by (auto simp: gb_name_url_decode_def split: if_splits option.splits)
  with url_loop_decodes [OF v(2)] show ?r by auto
next
  assume r: ?r
  then obtain es where es: "list_all2 url_byte n es" "cstr m = concat es" by blast
  have m: "m = cstr m @ dropWhile (\<lambda>b. b \<noteq> 0) m" by (simp add: cstr_def)
  have "dropWhile (\<lambda>b. b \<noteq> 0) m = [] \<or> hd (dropWhile (\<lambda>b. b \<noteq> 0) m) = 0"
    using hd_dropWhile [of "\<lambda>b. b \<noteq> 0" m] by auto
  then have "url_loop m [] cap = Some n"
    using url_loop_encoded [OF es(1), of "dropWhile (\<lambda>b. b \<noteq> 0) m" "[]" cap] r es(2) m by simp
  moreover have "1 \<le> length n"
    using r length_takeWhile_le [of "\<lambda>b. b \<noteq> 0" n] by (simp add: name_valid_iff cstr_def)
  ultimately show ?l using r by (simp add: gb_name_url_decode_def)
qed

end
