(* ===== verification/Gb_Pixels.thy ===== *)
theory Gb_Pixels
  imports Fw_Base
begin

text \<open>
  Pixels of the packed monochrome frame (main/gb_pixels.c) and the boot animation drawn into it
  (main/gb_boot.c).  A frame holds four 2-bit shades per byte, 40 bytes per row, 144 rows.
\<close>

section \<open>Shades and colours\<close>

definition GB_WIDTH :: nat where "GB_WIDTH = 160"
definition GB_HEIGHT :: nat where "GB_HEIGHT = 144"
definition GB_FRAME_BYTES :: nat where "GB_FRAME_BYTES = GB_WIDTH * GB_HEIGHT div 4"
definition GB_LCD_LIGHT :: u16 where "GB_LCD_LIGHT = 0x9DC2"
definition GB_LCD_MID :: u16 where "GB_LCD_MID = 0x8D42"
definition GB_LCD_SHADE :: u16 where "GB_LCD_SHADE = 0x3306"
definition GB_LCD_DARK :: u16 where "GB_LCD_DARK = 0x09C2"

lemmas frame_size = GB_WIDTH_def GB_HEIGHT_def GB_FRAME_BYTES_def

text \<open>The two bits of pixel \<open>k\<close> in a byte.\<close>

definition shade_in :: "u8 \<Rightarrow> nat \<Rightarrow> u8" where
  "shade_in b k = drop_bit (k * 2) b AND 3"

definition gb_pixel_shade :: "u8 list \<Rightarrow> nat \<Rightarrow> nat \<Rightarrow> u8 option" where
  "gb_pixel_shade frame x y = do {
     b \<leftarrow> mem_get frame (y * (GB_WIDTH div 4) + x div 4);
     Some (shade_in b (x mod 4))
   }"

definition gb_pixel_rgb565 :: "u8 \<Rightarrow> u16" where
  "gb_pixel_rgb565 shade = [GB_LCD_LIGHT, GB_LCD_MID, GB_LCD_SHADE, GB_LCD_DARK] ! unat (shade AND 3)"

definition gb_pixel_source_x :: "nat \<Rightarrow> bool \<Rightarrow> nat" where
  "gb_pixel_source_x dest_x enlarged = (if enlarged then dest_x * GB_WIDTH div 240 else dest_x)"

definition gb_pixel_source_y :: "nat \<Rightarrow> bool \<Rightarrow> nat" where
  "gb_pixel_source_y dest_y enlarged = (if enlarged then dest_y * GB_HEIGHT div 216 else dest_y)"

definition bswap16 :: "u16 \<Rightarrow> u16" where
  "bswap16 w = w16 (lo8 w) (hi8 w)"

section \<open>Widening a row by three halves\<close>

definition wire_color :: "u8 \<Rightarrow> u16" where
  "wire_color s = bswap16 (gb_pixel_rgb565 s)"

text \<open>One packed byte becomes six words.\<close>

definition expand_byte :: "u8 \<Rightarrow> u16 list" where
  "expand_byte pixels =
     [wire_color (pixels AND 3), wire_color (pixels AND 3), wire_color (drop_bit 2 pixels AND 3),
      wire_color (drop_bit 4 pixels AND 3), wire_color (drop_bit 4 pixels AND 3), wire_color (drop_bit 6 pixels)]"

fun expand_loop :: "nat list \<Rightarrow> u8 list \<Rightarrow> u16 list \<Rightarrow> u16 list option" where
  "expand_loop [] packed wire = Some wire"
| "expand_loop (i # is) packed wire = do {
     pixels \<leftarrow> mem_get packed i;
     wire \<leftarrow> mem_blit wire (i * 6) (expand_byte pixels);
     expand_loop is packed wire
   }"

definition gb_pixels_expand_row_3_2 :: "u8 list \<Rightarrow> u16 list \<Rightarrow> u16 list option" where
  "gb_pixels_expand_row_3_2 packed wire = expand_loop [0..<GB_WIDTH div 4] packed wire"

lemma expand_byte_nth:
  assumes "k < 6"
  shows "expand_byte b ! k = wire_color (shade_in b (k * 2 div 3))"
proof -
  have "drop_bit 6 b AND 3 = drop_bit 6 (b :: u8)"
  proof -
    have m: "(3 :: u8) = mask 2" by (simp add: mask_eq_exp_minus_1)
    have "unat b div 64 < 4" using u8_lt [of b] by (simp add: less_mult_imp_div_less del: u8_lt)
    then show ?thesis
      unfolding m word_unat_eq_iff unat_and_mask unat_drop_bit_eq by (simp add: drop_bit_eq_div)
  qed
  moreover have "k = 0 \<or> k = 1 \<or> k = 2 \<or> k = 3 \<or> k = 4 \<or> k = 5" using assms by linarith
  ultimately show ?thesis by (auto simp: expand_byte_def shade_in_def)
qed

lemma expand_loop_spec:
  assumes "length packed = 40" "length wire = 240" "k + n = 40"
    and "\<forall>d < k * 6. wire ! d = wire_color (shade_in (packed ! (d div 6)) (d mod 6 * 2 div 3))"
  shows "\<exists>w. expand_loop [k..<40] packed wire = Some w \<and> length w = 240 \<and>
    (\<forall>d < 240. w ! d = wire_color (shade_in (packed ! (d div 6)) (d mod 6 * 2 div 3)))"
  using assms(2-4)
proof (induction n arbitrary: k wire)
  case 0
  then show ?case by simp
next
  case (Suc n)
  then have k: "k < 40" by simp
  let ?b = "expand_byte (packed ! k)"
  obtain w where w: "mem_blit wire (k * 6) ?b = Some w" and lw: "length w = 240"
    using k Suc.prems(1) okp_mem_blit [of "k * 6" ?b wire] by (auto simp: expand_byte_def okp_iff)
  have new: "w ! d = wire_color (shade_in (packed ! (d div 6)) (d mod 6 * 2 div 3))" if d: "d < Suc k * 6" for d
  proof (cases "d < k * 6")
    case True
    then show ?thesis using mem_blit_nth [OF w, of d] Suc.prems(1,3) k by simp
  next
    case False
    then obtain j where j: "d = k * 6 + j" "j < 6" using d by (metis add.commute le_Suc_ex mult_Suc nat_add_left_cancel_less not_less)
    have "w ! d = ?b ! j" using mem_blit_nth [OF w, of d] j Suc.prems(1) k by (simp add: expand_byte_def)
    then show ?thesis using j expand_byte_nth [of j "packed ! k"] by simp
  qed
  have "[k..<40] = k # [Suc k..<40]" using k by (simp add: upt_conv_Cons)
  then show ?case
    using Suc.IH [of w "Suc k"] lw new Suc.prems(2) k assms(1) w by simp
qed

text \<open>The row routine is the pixel-by-pixel mapping of the slow path.\<close>

lemma expand_row_spec:
  assumes "length packed = 40" "length wire = 240"
  shows "\<exists>w. gb_pixels_expand_row_3_2 packed wire = Some w \<and> length w = 240 \<and>
    (\<forall>d < 240. map_option wire_color (gb_pixel_shade packed (gb_pixel_source_x d True) 0) = Some (w ! d))"
proof -
  have s: "gb_pixel_source_x d True div 4 = d div 6 \<and> gb_pixel_source_x d True mod 4 = d mod 6 * 2 div 3" for d
  proof -
    obtain q r where d: "d = 6 * q + r" "r < 6" using div_mult_mod_eq [of d 6] by (metis mod_less_divisor mult.commute zero_less_numeral)
    have "r = 0 \<or> r = 1 \<or> r = 2 \<or> r = 3 \<or> r = 4 \<or> r = 5" using d(2) by linarith
    moreover have "gb_pixel_source_x d True = 4 * q + r * 2 div 3"
    proof -
      have "d * 160 div 240 = d * 2 div 3" using div_mult_mult2 [of 80 "d * 2" 3] by (simp add: mult.assoc)
      also have "\<dots> = (3 * (4 * q) + r * 2) div 3" by (simp add: d(1))
      finally show ?thesis by (simp add: gb_pixel_source_x_def GB_WIDTH_def)
    qed
    ultimately show ?thesis using d by auto
  qed
  have "d div 6 < 40" if "d < 240" for d :: nat using that by simp
  then show ?thesis
    using expand_loop_spec [of packed wire 0 40] assms
    by (auto simp: gb_pixels_expand_row_3_2_def gb_pixel_shade_def GB_WIDTH_def s)
qed

section \<open>Which strips changed\<close>

fun rows_differ :: "nat list \<Rightarrow> u8 list \<Rightarrow> u8 list \<Rightarrow> bool option" where
  "rows_differ [] frame previous = Some False"
| "rows_differ (sy # ys) frame previous = do {
     a \<leftarrow> mem_slice frame (sy * (GB_WIDTH div 4)) (GB_WIDTH div 4);
     b \<leftarrow> mem_slice previous (sy * (GB_WIDTH div 4)) (GB_WIDTH div 4);
     (if a \<noteq> b then Some True else rows_differ ys frame previous)
   }"

definition gb_pixels_strip_changed :: "u8 list \<Rightarrow> u8 list \<Rightarrow> nat \<Rightarrow> nat \<Rightarrow> bool \<Rightarrow> bool option" where
  "gb_pixels_strip_changed frame previous first_dest_row dest_rows enlarged =
     (let first = gb_pixel_source_y first_dest_row enlarged;
          last = gb_pixel_source_y (first_dest_row + dest_rows - 1) enlarged
      in rows_differ [first..<last + 1] frame previous)"

lemma byte_shades: "(\<forall>k < 4. shade_in a k = shade_in b k) \<longleftrightarrow> a = b"
proof
  assume s: "\<forall>k < 4. shade_in a k = shade_in b k"
  have m: "(3 :: u8) = mask 2" by (simp add: mask_eq_exp_minus_1)
  show "a = b"
  proof (rule bit_word_eqI)
    fix n assume n: "n < LENGTH(8)"
    then have "n div 2 < 4" by simp
    with s have e: "shade_in a (n div 2) = shade_in b (n div 2)" by blast
    have "bit a n = bit (shade_in a (n div 2)) (n mod 2)" for a :: u8
      using n less_trans [OF mod_less_divisor [of 2 n], of 8]
      by (simp add: shade_in_def m bit_simps)
    then show "bit a n = bit b n" using e by simp
  qed
qed simp

lemma row_bytes: "sy < 144 \<Longrightarrow> length f = 5760 \<Longrightarrow> mem_slice f (sy * 40) 40 = Some (map (\<lambda>i. f ! (sy * 40 + i)) [0..<40])"
  by (auto simp: mem_slice_def intro!: nth_equalityI)

lemma row_same_shades:
  assumes "sy < 144" "length f = 5760" "length g = 5760"
  shows "mem_slice f (sy * 40) 40 = mem_slice g (sy * 40) 40 \<longleftrightarrow>
    (\<forall>x < 160. gb_pixel_shade f x sy = gb_pixel_shade g x sy)"
proof -
  have "mem_slice f (sy * 40) 40 = mem_slice g (sy * 40) 40 \<longleftrightarrow> (\<forall>i < 40. f ! (sy * 40 + i) = g ! (sy * 40 + i))"
    using assms by (auto simp: row_bytes)
  also have "\<dots> \<longleftrightarrow> (\<forall>i < 40. \<forall>k < 4. shade_in (f ! (sy * 40 + i)) k = shade_in (g ! (sy * 40 + i)) k)"
    by (simp add: byte_shades)
  also have "\<dots> \<longleftrightarrow> (\<forall>x < 160. shade_in (f ! (sy * 40 + x div 4)) (x mod 4) = shade_in (g ! (sy * 40 + x div 4)) (x mod 4))"
  proof (intro iffI allI impI)
    fix i k :: nat
    assume a: "\<forall>x < 160. shade_in (f ! (sy * 40 + x div 4)) (x mod 4) = shade_in (g ! (sy * 40 + x div 4)) (x mod 4)"
      and "i < 40" "k < 4"
    then have "i * 4 + k < 160" by simp
    with a have "shade_in (f ! (sy * 40 + (i * 4 + k) div 4)) ((i * 4 + k) mod 4) =
        shade_in (g ! (sy * 40 + (i * 4 + k) div 4)) ((i * 4 + k) mod 4)" by blast
    with \<open>k < 4\<close> show "shade_in (f ! (sy * 40 + i)) k = shade_in (g ! (sy * 40 + i)) k" by simp
  qed simp
  finally show ?thesis using assms by (auto simp: gb_pixel_shade_def GB_WIDTH_def)
qed

lemma rows_differ_spec:
  assumes "\<forall>y \<in> set ys. y < 144" "length f = 5760" "length g = 5760"
  shows "rows_differ ys f g = Some (\<exists>y \<in> set ys. \<exists>x < 160. gb_pixel_shade f x y \<noteq> gb_pixel_shade g x y)"
  using assms(1)
proof (induction ys)
  case (Cons y ys)
  have y: "y < 144" using Cons.prems by simp
  note r = row_same_shades [OF y assms(2,3)] row_bytes [OF y assms(2)] row_bytes [OF y assms(3)]
  show ?case
  proof (cases "mem_slice f (y * 40) 40 = mem_slice g (y * 40) 40")
    case True
    then show ?thesis using Cons r by (auto simp: GB_WIDTH_def)
  next
    case False
    then have "rows_differ (y # ys) f g = Some True" using r(2,3) by (auto simp: GB_WIDTH_def)
    then show ?thesis using False r(1) by auto
  qed
qed simp

text \<open>Destination rows are mapped onto source rows without a gap.\<close>

lemma source_y_mono: "a \<le> b \<Longrightarrow> gb_pixel_source_y a e \<le> gb_pixel_source_y b e"
  by (simp add: gb_pixel_source_y_def div_le_mono)

lemma source_y_enlarged: "gb_pixel_source_y d True = d * 2 div 3"
  using div_mult_mult2 [of 72 "d * 2" 3] by (simp add: gb_pixel_source_y_def GB_HEIGHT_def mult.assoc)

lemma source_y_step: "gb_pixel_source_y (Suc d) e \<le> gb_pixel_source_y d e + 1"
proof (cases e)
  case True
  have "Suc d * 2 div 3 \<le> (d * 2 + 3) div 3" by (rule div_le_mono) simp
  then show ?thesis using True by (simp add: source_y_enlarged)
qed (simp add: gb_pixel_source_y_def)

lemma source_y_onto:
  assumes "gb_pixel_source_y a e \<le> y" "y \<le> gb_pixel_source_y (a + n) e"
  shows "\<exists>d. a \<le> d \<and> d \<le> a + n \<and> gb_pixel_source_y d e = y"
  using assms(2)
proof (induction n)
  case 0
  then show ?case using assms(1) by (intro exI [of _ a]) simp
next
  case (Suc n)
  show ?case
  proof (cases "y \<le> gb_pixel_source_y (a + n) e")
    case True
    then obtain d where "a \<le> d" "d \<le> a + n" "gb_pixel_source_y d e = y" using Suc.IH by blast
    then show ?thesis by (intro exI [of _ d]) simp
  next
    case False
    then have "gb_pixel_source_y (a + Suc n) e = y" using Suc.prems source_y_step [of "a + n" e] by simp
    then show ?thesis by (intro exI [of _ "a + Suc n"]) simp
  qed
qed

text \<open>A strip is redrawn exactly when a pixel of it changed.\<close>

lemma strip_changed_iff:
  assumes "length f = 5760" "length g = 5760" "0 < n" "a + n \<le> (if e then 216 else 144)"
  shows "gb_pixels_strip_changed f g a n e = Some (\<exists>d x. a \<le> d \<and> d < a + n \<and> x < 160 \<and>
    gb_pixel_shade f x (gb_pixel_source_y d e) \<noteq> gb_pixel_shade g x (gb_pixel_source_y d e))"
proof -
  obtain m where n: "n = Suc m" using assms(3) by (cases n) auto
  let ?lo = "gb_pixel_source_y a e" and ?hi = "gb_pixel_source_y (a + m) e"
  have hi: "?hi < 144"
  proof (cases e)
    case True
    then have "(a + m) * 2 div 3 \<le> 430 div 3" using assms(4) n by (intro div_le_mono) simp
    then show ?thesis using True by (simp add: source_y_enlarged)
  qed (use assms(4) n in \<open>simp add: gb_pixel_source_y_def\<close>)
  have "?lo \<le> y \<and> y \<le> ?hi \<longleftrightarrow> (\<exists>d. a \<le> d \<and> d \<le> a + m \<and> gb_pixel_source_y d e = y)" for y
    using source_y_onto [of a e y m] source_y_mono by blast
  then have rows: "y \<in> set [?lo..<?hi + 1] \<longleftrightarrow> (\<exists>d. a \<le> d \<and> d < a + n \<and> gb_pixel_source_y d e = y)" for y
    unfolding set_upt atLeastLessThan_iff n by (simp only: less_Suc_eq_le add_Suc_right Suc_eq_plus1 [symmetric])
  have "gb_pixels_strip_changed f g a n e =
      Some (\<exists>y \<in> set [?lo..<?hi + 1]. \<exists>x < 160. gb_pixel_shade f x y \<noteq> gb_pixel_shade g x y)"
  proof -
    have "\<forall>y \<in> set [?lo..<?hi + 1]. y < 144" using hi by auto
    moreover have "a + n - 1 = a + m" by (simp add: n)
    ultimately show ?thesis
      unfolding gb_pixels_strip_changed_def Let_def by (simp only: rows_differ_spec [OF _ assms(1,2)])
  qed
  then show ?thesis unfolding Bex_def rows by auto
qed

section \<open>The boot animation\<close>

definition boot_logo :: "u8 list" where
  "boot_logo = [
     0xce,0xed,0x66,0x66,0xcc,0x0d,0x00,0x0b,0x03,0x73,0x00,0x83,
     0x00,0x0c,0x00,0x0d,0x00,0x08,0x11,0x1f,0x88,0x89,0x00,0x0e,
     0xdc,0xcc,0x6e,0xe6,0xdd,0xdd,0xd9,0x99,0xbb,0xbb,0x67,0x63,
     0x6e,0x0e,0xec,0xcc,0xdd,0xdc,0x99,0x9f,0xbb,0xb9,0x33,0x3e]"

definition registered_mark :: "u8 list" where
  "registered_mark = [0x3c,0x42,0xb9,0xa5,0xb9,0xa5,0x42,0x3c]"

definition boot_dot :: "int \<Rightarrow> int \<Rightarrow> u8 list \<Rightarrow> u8 list option" where
  "boot_dot x y frame =
     (if 0 \<le> x \<and> x < int GB_WIDTH \<and> 0 \<le> y \<and> y < int GB_HEIGHT then
        (let i = nat y * (GB_WIDTH div 4) + nat x div 4 in do {
           b \<leftarrow> mem_get frame i;
           mem_set frame i (b OR push_bit (nat x mod 4 * 2) 3)
         })
      else Some frame)"

text \<open>The dots of the two loops, in their order.\<close>

definition logo_dots :: "int \<Rightarrow> nat \<Rightarrow> (int \<times> int) list" where
  "logo_dots y0 i =
     (let x = 32 + int (i div 2 mod 12) * 8; y = y0 + int (i div 24) * 8 + int (i mod 2) * 4
      in concat (map (\<lambda>k.
           if boot_logo ! i AND drop_bit k 0x80 \<noteq> 0 then
             (let dx = int (k mod 4) * 2; dy = int (k div 4) * 2
              in [(x + dx, y + dy), (x + dx + 1, y + dy), (x + dx, y + dy + 1), (x + dx + 1, y + dy + 1)])
           else []) [0..<8]))"

definition mark_dots :: "int \<Rightarrow> nat \<Rightarrow> (int \<times> int) list" where
  "mark_dots y0 y =
     concat (map (\<lambda>x. if registered_mark ! y AND drop_bit x 0x80 \<noteq> 0
                      then [(128 + int x, y0 + int y)] else []) [0..<8])"

definition boot_dots :: "int \<Rightarrow> (int \<times> int) list" where
  "boot_dots y0 = concat (map (logo_dots y0) [0..<48]) @ concat (map (mark_dots y0) [0..<8])"

fun draw_dots :: "(int \<times> int) list \<Rightarrow> u8 list \<Rightarrow> u8 list option" where
  "draw_dots [] frame = Some frame"
| "draw_dots ((x, y) # ds) frame = boot_dot x y frame \<bind> draw_dots ds"

definition gb_boot_frame :: "int \<Rightarrow> u8 list option" where
  "gb_boot_frame y0 = draw_dots (boot_dots y0) (replicate GB_FRAME_BYTES 0)"

lemma shade_or_same: "k < 4 \<Longrightarrow> shade_in (b OR push_bit (k * 2) 3) k = 3"
  and shade_or_other: "k < 4 \<Longrightarrow> j < 4 \<Longrightarrow> j \<noteq> k \<Longrightarrow> shade_in (b OR push_bit (k * 2) 3) j = shade_in b j"
proof -
  have m: "(3 :: u8) = mask 2" by (simp add: mask_eq_exp_minus_1)
  show "k < 4 \<Longrightarrow> shade_in (b OR push_bit (k * 2) 3) k = 3"
    unfolding shade_in_def m by (auto intro!: bit_word_eqI simp: bit_simps)
  show "k < 4 \<Longrightarrow> j < 4 \<Longrightarrow> j \<noteq> k \<Longrightarrow> shade_in (b OR push_bit (k * 2) 3) j = shade_in b j"
    unfolding shade_in_def m by (auto intro!: bit_word_eqI simp: bit_simps)
qed

lemma boot_dot_ok:
  assumes "length f = 5760"
  shows "\<exists>g. boot_dot dx dy f = Some g \<and> length g = 5760 \<and>
    (\<forall>x < 160. \<forall>y < 144. gb_pixel_shade g x y =
       (if dx = int x \<and> dy = int y then Some 3 else gb_pixel_shade f x y))"
proof (cases "0 \<le> dx \<and> dx < 160 \<and> 0 \<le> dy \<and> dy < 144")
  case False
  then show ?thesis using assms by (auto simp: boot_dot_def frame_size)
next
  case True
  then obtain px py where p: "dx = int px" "dy = int py" "px < 160" "py < 144"
    by (metis nonneg_int_cases of_nat_less_iff of_nat_numeral)
  let ?i = "py * 40 + px div 4"
  let ?g = "f[?i := f ! ?i OR push_bit (px mod 4 * 2) 3]"
  have i: "?i < 5760" using p(3,4) by simp
  have "boot_dot dx dy f = Some ?g" using p i assms by (simp add: boot_dot_def frame_size Let_def)
  moreover have "gb_pixel_shade ?g x y = (if dx = int x \<and> dy = int y then Some 3 else gb_pixel_shade f x y)"
    if xy: "x < 160" "y < 144" for x y
  proof -
    have j: "y * 40 + x div 4 < 5760" using xy by simp
    have q: "(c * 40 + r) div 40 = c" if "r < 40" for c r :: nat using that by simp
    have lt: "x div 4 < 40" "px div 4 < 40" using xy(1) p(3) by simp_all
    have same: "y * 40 + x div 4 = ?i \<longleftrightarrow> y = py \<and> x div 4 = px div 4"
    proof
      assume e: "y * 40 + x div 4 = ?i"
      then have "y = py" using q [OF lt(1), of y] q [OF lt(2), of py] by simp
      with e show "y = py \<and> x div 4 = px div 4" by simp
    qed simp
    have eq: "x = px \<longleftrightarrow> x div 4 = px div 4 \<and> x mod 4 = px mod 4" by (metis div_mult_mod_eq)
    show ?thesis
    proof (cases "y = py \<and> x div 4 = px div 4")
      case True
      then have g: "gb_pixel_shade ?g x y = Some (shade_in (f ! ?i OR push_bit (px mod 4 * 2) 3) (x mod 4))"
        and f: "gb_pixel_shade f x y = Some (shade_in (f ! ?i) (x mod 4))"
        using i assms by (simp_all add: gb_pixel_shade_def frame_size)
      show ?thesis
      proof (cases "x mod 4 = px mod 4")
        case same: True
        then have "x = px" using True eq by simp
        then show ?thesis unfolding g using shade_or_same [of "px mod 4" "f ! ?i"] True p by simp
      next
        case False
        then have "x \<noteq> px" by blast
        then show ?thesis unfolding g f using False shade_or_other [of "px mod 4" "x mod 4" "f ! ?i"] p by simp
      qed
    next
      case False
      then show ?thesis using j same assms p eq by (auto simp: gb_pixel_shade_def frame_size)
    qed
  qed
  ultimately show ?thesis using assms by auto
qed

lemma draw_dots_ok:
  assumes "length f = 5760"
  shows "\<exists>g. draw_dots ds f = Some g \<and> length g = 5760 \<and>
    (\<forall>x < 160. \<forall>y < 144. gb_pixel_shade g x y =
       (if (int x, int y) \<in> set ds then Some 3 else gb_pixel_shade f x y))"
  using assms
proof (induction ds arbitrary: f)
  case (Cons d ds)
  obtain dx dy where d: "d = (dx, dy)" by (cases d)
  obtain g where g: "boot_dot dx dy f = Some g" "length g = 5760"
    "\<forall>x < 160. \<forall>y < 144. gb_pixel_shade g x y = (if dx = int x \<and> dy = int y then Some 3 else gb_pixel_shade f x y)"
    using boot_dot_ok [OF Cons.prems] by blast
  obtain h where h: "draw_dots ds g = Some h" "length h = 5760"
    "\<forall>x < 160. \<forall>y < 144. gb_pixel_shade h x y = (if (int x, int y) \<in> set ds then Some 3 else gb_pixel_shade g x y)"
    using Cons.IH [OF g(2)] by blast
  show ?case using g h d by (intro exI [of _ h]) auto
qed auto

text \<open>Wherever the logo stands, it is drawn inside the frame and nowhere else.\<close>

lemma boot_frame_spec:
  "\<exists>f. gb_boot_frame y0 = Some f \<and> length f = GB_FRAME_BYTES \<and>
    (\<forall>x < 160. \<forall>y < 144. gb_pixel_shade f x y = Some (if (int x, int y) \<in> set (boot_dots y0) then 3 else 0))"
proof -
  have z: "gb_pixel_shade (replicate 5760 0) x y = Some 0" if "x < 160" "y < 144" for x y
    using that by (simp add: gb_pixel_shade_def frame_size shade_in_def)
  show ?thesis
    using draw_dots_ok [of "replicate 5760 0" "boot_dots y0"] z
    by (auto simp: gb_boot_frame_def frame_size)
qed

text \<open>The two tones: 32-bit arithmetic on the sample number, the product in 64 bits.\<close>

definition boot_first :: u32 where "boot_first = ucast (16000 * 4 * 70224 div 4194304 :: u64)"
definition boot_decay :: u32 where "boot_decay = 16000 * 3 div 64"

definition gb_boot_sample :: "u32 \<Rightarrow> i16" where
  "gb_boot_sample sample =
     (let end = boot_first + 15 * boot_decay in
      if end \<le> sample then 0
      else
        let n = (if sample < boot_first then sample else sample - boot_first);
            period = (if sample < boot_first then 125 else 63 :: u32);
            level = 15 - (if 15 < n div boot_decay then 15 else n div boot_decay);
            amplitude = (ucast level :: i16) * 180
        in if (ucast n * 262144 div (ucast (16000 * period)) :: u64) AND 1 \<noteq> 0 then amplitude else - amplitude)"


text \<open>Every sample is within the envelope, and the sound ends.\<close>

lemma boot_values: "boot_first = 1071" "boot_decay = 750"
  by (simp_all add: boot_first_def boot_decay_def)

lemma boot_sample_bound: "\<bar>sint (gb_boot_sample n)\<bar> \<le> 2700"
proof (cases "boot_first + 15 * boot_decay \<le> n")
  case True
  then show ?thesis by (simp add: gb_boot_sample_def Let_def)
next
  case False
  define m where "m = (if n < boot_first then n else n - boot_first)"
  define lv :: u32 where "lv = 15 - (if 15 < m div boot_decay then 15 else m div boot_decay)"
  have "unat (if 15 < m div boot_decay then 15 else m div boot_decay) \<le> 15"
    by (simp add: word_less_nat_alt)
  then have "unat lv \<le> 15" unfolding lv_def by (subst unat_sub) (simp_all add: word_le_nat_alt)
  then obtain k where k: "lv = of_nat k" "k \<le> 15" by (metis of_nat_unat ucast_id)
  have amp: "\<bar>sint ((ucast lv :: i16) * 180)\<bar> \<le> 2700 \<and> \<bar>sint (- ((ucast lv :: i16) * 180))\<bar> \<le> 2700"
  proof -
    have "k = 0 \<or> k = 1 \<or> k = 2 \<or> k = 3 \<or> k = 4 \<or> k = 5 \<or> k = 6 \<or> k = 7 \<or> k = 8 \<or> k = 9 \<or>
        k = 10 \<or> k = 11 \<or> k = 12 \<or> k = 13 \<or> k = 14 \<or> k = 15" using k(2) by presburger
    then show ?thesis unfolding k(1) by (elim disjE) simp_all
  qed
  have "gb_boot_sample n = (ucast lv :: i16) * 180 \<or> gb_boot_sample n = - ((ucast lv :: i16) * 180)"
    using False by (simp add: gb_boot_sample_def Let_def m_def lv_def)
  then show ?thesis using amp by auto
qed

end
