(* ===== verification/Fw_Properties.thy ===== *)
theory Fw_Properties
  imports Gb_Pacing Gb_Input Gb_Name Gb_Pixels
begin

text \<open>
  The properties of the application's components (main/), each with a witness where it has
  hypotheses.  The proofs apply the lemmas of the component theories.
\<close>

section \<open>Pacing\<close>

text \<open>The screen never falls far behind: after any number of game-loop turns with an idle display,
  whatever work each took, the last drawn frame is at most four frames old, the draw interval is
  between 2 and 4, and the measuring window is short of 60 frames with a sum that cannot overflow.\<close>

theorem drawn_frames_fresh:
  assumes "ws \<noteq> []"
  shows "pacing_ok (fold paced_frame ws gb_frame_pacing_init) \<and> fresh (fold paced_frame ws gb_frame_pacing_init)"
proof -
  obtain us w where ws: "ws = us @ [w]" using assms by (cases ws rule: rev_cases) auto
  show ?thesis
    using paced_frame_ok [OF paced_frames_ok [OF pacing_init_ok, of us], of w] by (simp add: ws)
qed

lemma drawn_frames_fresh_witness:
  "pacing_ok (fold paced_frame [16000, 17000] gb_frame_pacing_init) \<and>
   fresh (fold paced_frame [16000, 17000] gb_frame_pacing_init)"
  by (rule drawn_frames_fresh) simp

text \<open>The audio task is asked for exactly the blocks of 267 samples that wall-clock time has covered
  and that are not generated yet, at most four at a time, for 35 years of microseconds; every block
  is played as 267 samples.\<close>

theorem audio_keeps_pace:
  assumes "unat elapsed < 2 ^ 50" "0 < unat gen" "unat gen < 2 ^ 40"
  shows "unat (gb_audio_blocks_due elapsed gen) = min 4 (blocks_elapsed (unat elapsed) - unat gen) \<and>
    unat (gb_audio_resampled_count gen) = 267"
  using blocks_due_eq [OF assms(1), of gen] resampled_count_eq [OF assms(2,3)] assms(3) by simp

lemma audio_keeps_pace_witness:
  "unat (gb_audio_blocks_due 33000 1) = min 4 (blocks_elapsed (unat (33000 :: u64)) - unat (1 :: u64)) \<and>
    unat (gb_audio_resampled_count 1) = 267"
  by (rule audio_keeps_pace) simp_all

section \<open>Input\<close>

text \<open>Holding Select pauses once: from the first sample of the press on, for any sequence of held
  samples, the gesture fires exactly at the first sample a second or more after the press began.\<close>

theorem select_pauses_once:
  assumes "sp_connected s" "sp_armed s" "\<not> sp_holding s" "xs \<noteq> []"
    and "\<forall>(p, t) \<in> set xs. pad_connected p \<and> pad_view p"
  shows "pause_run xs s =
    map (\<lambda>i. GB_SELECT_PAUSE_US \<le> snd (xs ! i) - snd (xs ! 0) \<and>
           (\<forall>j < i. snd (xs ! j) - snd (xs ! 0) < GB_SELECT_PAUSE_US)) [0..<length xs]"
  using pause_fires_once [OF assms] assms(4) by (simp add: hd_conv_nth)

abbreviation held_select :: pad_sample where
  "held_select \<equiv> no_pad\<lparr>pad_connected := True, pad_view := True, any_button := True\<rparr>"

lemma select_pauses_once_witness:
  "pause_run [(held_select, 5), (held_select, 1000005)] (gb_select_pause_init (no_pad\<lparr>pad_connected := True\<rparr>)) = [False, True]"
  using select_pauses_once [of "gb_select_pause_init (no_pad\<lparr>pad_connected := True\<rparr>)" "[(held_select, 5), (held_select, 1000005)]"]
  by (simp add: gb_select_pause_init_def no_pad_def GB_SELECT_PAUSE_US_def upt_rec All_less_Suc)

text \<open>C22.  The sample buffer implements its specification, a list of at most 16 events: pushing and
  taking on the ring are pushing and taking on the list, with the same samples returned and the same
  count of dropped events.\<close>

theorem input_buffer_refines:
  assumes "buffer_ok s"
  shows "buffer_ok (gb_input_buffer_push p t s) \<and> buffer_ok (snd (gb_input_buffer_take t s)) \<and>
    buffer_abs (gb_input_buffer_push p t s) = spec_push p t (buffer_abs s) \<and>
    spec_take t (buffer_abs s) = (fst (gb_input_buffer_take t s), buffer_abs (snd (gb_input_buffer_take t s)))"
  using push_refines [OF assms, of p t] take_refines [OF assms, of t] by blast

definition demo_buffer :: gb_input_buffer where
  "demo_buffer = \<lparr>ib_latest = no_pad\<lparr>pad_connected := True\<rparr>, ib_events = replicate 16 \<lparr>ev_sample = no_pad, ev_at = 0\<rparr>,
     ib_head = 15, ib_count = 0, ib_enabled = True, ib_armed = True, ib_dropped = 0\<rparr>"

lemma demo_buffer_ok: "buffer_ok demo_buffer"
  by (simp add: demo_buffer_def buffer_ok_def)

lemma input_buffer_refines_witness:
  "buffer_ok (gb_input_buffer_push held_select 7 demo_buffer) \<and> buffer_ok (snd (gb_input_buffer_take 7 demo_buffer)) \<and>
    buffer_abs (gb_input_buffer_push held_select 7 demo_buffer) = spec_push held_select 7 (buffer_abs demo_buffer) \<and>
    spec_take 7 (buffer_abs demo_buffer) =
      (fst (gb_input_buffer_take 7 demo_buffer), buffer_abs (snd (gb_input_buffer_take 7 demo_buffer)))"
  by (rule input_buffer_refines [OF demo_buffer_ok])

text \<open>A burst of button changes is not lost: up to 16 changes pushed into an empty enabled buffer and
  taken within 100 ms come out complete and in order.\<close>

theorem input_burst_replayed:
  assumes "buffer_ok s" "ib_enabled s" "ib_armed s" "ib_count s = 0"
    and "changes (ib_latest s) xs" "length xs \<le> 16" "\<forall>(p, t) \<in> set xs. now - t \<le> GB_INPUT_BUFFER_MAX_AGE_US"
  shows "buffer_take_all (length xs) now (buffer_push_all xs s) = map fst xs"
  by (rule burst_replayed [OF assms])

lemma input_burst_replayed_witness:
  "buffer_take_all (length [(held_select, 10 :: int), (no_pad\<lparr>pad_connected := True\<rparr>, 20)]) 50
     (buffer_push_all [(held_select, 10), (no_pad\<lparr>pad_connected := True\<rparr>, 20)] demo_buffer) =
   map fst [(held_select, 10 :: int), (no_pad\<lparr>pad_connected := True\<rparr>, 20)]"
  by (rule input_burst_replayed [OF demo_buffer_ok])
    (simp_all add: demo_buffer_def sample_bits_def no_pad_def GB_INPUT_BUFFER_MAX_AGE_US_def)

text \<open>A keyboard report is read as a set of keys: their order and repetition do not matter, and one
  error code among them releases everything.\<close>

theorem keyboard_report:
  "gb_input_keyboard (Some ks) m = keyboard_spec (set ks) (m \<noteq> 0)"
  by (rule keyboard_by_set)

section \<open>Names\<close>

text \<open>C23.  \<open>gb_name_valid\<close> accepts exactly the names of 1 to 31 bytes that are the UTF-8 encoding of
  permitted characters: no overlong or truncated sequence, surrogate, control or separator passes,
  and every name of permitted characters does.\<close>

theorem name_validity:
  "gb_name_valid m \<longleftrightarrow> 1 \<le> length (cstr m) \<and> length (cstr m) \<le> 31 \<and>
     (\<exists>cs. cstr m = concat (map utf8 cs) \<and> (\<forall>c \<in> set cs. name_char c))"
  by (rule name_valid_iff)

lemma name_validity_witness: "gb_name_valid [0x52, 0x65, 0x64]"
  unfolding name_validity by (auto intro!: exI [of _ "[0x52, 0x65, 0x64]"] simp: cstr_def utf8_def name_char_def)

text \<open>URL decoding inverts URL encoding: \<open>gb_name_url_decode\<close> yields \<open>n\<close> exactly when \<open>n\<close> is a valid
  name that fits and the input is an encoding of \<open>n\<close>, each byte as itself, as \<open>%XX\<close>, or a space as
  \<open>+\<close>; every other input is refused.\<close>

theorem url_decoding:
  "gb_name_url_decode m cap = Some n \<longleftrightarrow>
     length n < cap \<and> gb_name_valid n \<and> (\<exists>es. list_all2 url_byte n es \<and> cstr m = concat es)"
  by (rule url_decode_iff)

section \<open>Pixels\<close>

text \<open>Enlarged drawing is exact: the unrolled 3:2 row expansion gives every one of the 240 pixels the
  byte-swapped colour of the source pixel that \<open>gb_pixel_source_x\<close> names.\<close>

theorem row_expansion:
  assumes "length packed = 40" "length wire = 240"
  shows "\<exists>w. gb_pixels_expand_row_3_2 packed wire = Some w \<and> length w = 240 \<and>
    (\<forall>d < 240. map_option wire_color (gb_pixel_shade packed (gb_pixel_source_x d True) 0) = Some (w ! d))"
  by (rule expand_row_spec [OF assms])

lemma row_expansion_witness:
  "\<exists>w. gb_pixels_expand_row_3_2 (replicate 40 0x1B) (replicate 240 0) = Some w \<and> length w = 240"
  using row_expansion [of "replicate 40 0x1B" "replicate 240 0"] by auto

text \<open>No change is missed: a strip of the screen is redrawn exactly when one of the source pixels it
  shows differs between the two frames.\<close>

theorem strip_redraw:
  assumes "length f = 5760" "length g = 5760" "0 < n" "a + n \<le> (if e then 216 else 144)"
  shows "gb_pixels_strip_changed f g a n e = Some (\<exists>d x. a \<le> d \<and> d < a + n \<and> x < 160 \<and>
    gb_pixel_shade f x (gb_pixel_source_y d e) \<noteq> gb_pixel_shade g x (gb_pixel_source_y d e))"
  by (rule strip_changed_iff [OF assms])

lemma strip_redraw_witness:
  "gb_pixels_strip_changed (replicate 5760 0) (replicate 5760 1) 207 9 True = Some (\<exists>d x. 207 \<le> d \<and> d < 207 + 9 \<and> x < 160 \<and>
    gb_pixel_shade (replicate 5760 0) x (gb_pixel_source_y d True) \<noteq> gb_pixel_shade (replicate 5760 1) x (gb_pixel_source_y d True))"
  by (rule strip_redraw) simp_all

end
