(* ===== verification/Gb_Flash.thy ===== *)
theory Gb_Flash
  imports Fw_Base
begin

text \<open>
  The environment of the storage code: the flash partition behind \<open>esp_partition_read\<close>, \<open>write\<close> and
  \<open>erase_range\<close> with every possible failure, and the little-endian layout of the structures that the
  code copies to flash byte by byte.

  The partition is a function from offsets to bytes.  Every fallible call of the environment
  (flash, allocation, hashing) has a number; \<open>fl_ok\<close> says which succeed.  Programming can only
  clear bits; a write that fails has programmed some prefix of its bytes (\<open>fl_cut\<close>), an erase that
  fails either does nothing or leaves any bytes (\<open>fl_junk\<close>).  A power cut is a call that fails with all calls after it.
\<close>

section \<open>The flash partition\<close>

record flash =
  fl_size :: nat
  fl_byte :: "nat \<Rightarrow> u8"
  fl_calls :: nat
  fl_ok :: "nat \<Rightarrow> bool"
  fl_cut :: "nat \<Rightarrow> nat"
  fl_junk :: "nat \<Rightarrow> (nat \<Rightarrow> u8) option"

definition tick :: "flash \<Rightarrow> bool \<times> flash" where
  "tick f = (fl_ok f (fl_calls f), f\<lparr>fl_calls := fl_calls f + 1\<rparr>)"

definition bytes_at :: "flash \<Rightarrow> nat \<Rightarrow> nat \<Rightarrow> u8 list" where
  "bytes_at f off n = map (fl_byte f) [off..<off + n]"

definition fl_read :: "nat \<Rightarrow> nat \<Rightarrow> flash \<Rightarrow> u8 list option \<times> flash" where
  "fl_read off n f =
     (let (ok, g) = tick f
      in (if ok \<and> off + n \<le> fl_size f then Some (bytes_at f off n) else None, g))"

definition fl_write :: "nat \<Rightarrow> u8 list \<Rightarrow> flash \<Rightarrow> bool \<times> flash" where
  "fl_write off data f =
     (let (ok, g) = tick f in
      if fl_size f < off + length data then (False, g)
      else
        let k = (if ok then length data else min (fl_cut f (fl_calls f)) (length data))
        in (ok, g\<lparr>fl_byte := (\<lambda>a. if off \<le> a \<and> a < off + k then fl_byte f a AND data ! (a - off) else fl_byte f a)\<rparr>))"

definition fl_erase :: "nat \<Rightarrow> nat \<Rightarrow> flash \<Rightarrow> bool \<times> flash" where
  "fl_erase off n f =
     (let (ok, g) = tick f in
      if fl_size f < off + n \<or> off mod 4096 \<noteq> 0 \<or> n mod 4096 \<noteq> 0 then (False, g)
      else if ok then (True, g\<lparr>fl_byte := (\<lambda>a. if off \<le> a \<and> a < off + n then 0xFF else fl_byte f a)\<rparr>)
      else case fl_junk f (fl_calls f) of
        None \<Rightarrow> (False, g)
      | Some junk \<Rightarrow> (False, g\<lparr>fl_byte := (\<lambda>a. if off \<le> a \<and> a < off + n then junk a else fl_byte f a)\<rparr>))"

text \<open>What an operation leaves alone.\<close>

definition same_outside :: "nat \<Rightarrow> nat \<Rightarrow> flash \<Rightarrow> flash \<Rightarrow> bool" where
  "same_outside off n f g \<longleftrightarrow> fl_size g = fl_size f \<and> fl_ok g = fl_ok f \<and> fl_cut g = fl_cut f \<and> fl_junk g = fl_junk f \<and>
     (\<forall>a. a < off \<or> off + n \<le> a \<longrightarrow> fl_byte g a = fl_byte f a)"

lemma same_outside_refl: "same_outside off n f f"
  by (simp add: same_outside_def)

lemma same_outside_trans: "same_outside off n f g \<Longrightarrow> same_outside off n g h \<Longrightarrow> same_outside off n f h"
  by (simp add: same_outside_def)

lemma same_outside_mono: "same_outside off n f g \<Longrightarrow> lo \<le> off \<Longrightarrow> off + n \<le> lo + m \<Longrightarrow> same_outside lo m f g"
  by (simp add: same_outside_def)

lemma same_outside_tick [simp]: "same_outside off n f (snd (tick f))"
  by (simp add: same_outside_def tick_def)

lemma same_outside_read: "same_outside off n f (snd (fl_read o' m f))"
  by (simp add: same_outside_def fl_read_def tick_def)

lemma same_outside_write: "same_outside off (length data) f (snd (fl_write off data f))"
  by (auto simp: same_outside_def fl_write_def tick_def Let_def)

lemma same_outside_erase: "same_outside off n f (snd (fl_erase off n f))"
  by (auto simp: same_outside_def fl_erase_def tick_def Let_def split: option.splits)

lemma bytes_at_length [simp]: "length (bytes_at f off n) = n"
  by (simp add: bytes_at_def)

lemma bytes_at_same:
  "same_outside off n f g \<Longrightarrow> p + m \<le> off \<or> off + n \<le> p \<Longrightarrow> bytes_at g p m = bytes_at f p m"
  by (auto simp: bytes_at_def same_outside_def)

lemma read_keeps: "fl_byte (snd (fl_read off n f)) = fl_byte f" "fl_byte (snd (tick f)) = fl_byte f"
  by (simp_all add: fl_read_def tick_def)

text \<open>Programming erased flash stores the data, up to the cut.\<close>

lemma write_erased:
  assumes "\<forall>a. off \<le> a \<and> a < off + n \<longrightarrow> fl_byte f a = 0xFF" "length data = n" "off + n \<le> fl_size f"
  shows "\<exists>k \<le> n. bytes_at (snd (fl_write off data f)) off n = take k data @ replicate (n - k) 0xFF \<and>
    (fst (fl_write off data f) \<longrightarrow> k = n)"
proof -
  let ?ok = "fl_ok f (fl_calls f)"
  let ?k = "if ?ok then n else min (fl_cut f (fl_calls f)) n"
  have m1: "(0xFF :: u8) = - 1" by simp
  have b: "fl_byte (snd (fl_write off data f)) (off + i) = (if i < ?k then data ! i else 0xFF)" if "i < n" for i
    using that assms unfolding fl_write_def tick_def Let_def by (auto simp: m1 simp del: word_of_int_numeral)
  have "bytes_at (snd (fl_write off data f)) off n = take ?k data @ replicate (n - ?k) 0xFF"
  proof (rule nth_equalityI)
    fix i assume "i < length (bytes_at (snd (fl_write off data f)) off n)"
    then have i: "i < n" by simp
    show "bytes_at (snd (fl_write off data f)) off n ! i = (take ?k data @ replicate (n - ?k) 0xFF) ! i"
      using i b [OF i] assms(2) by (simp add: bytes_at_def nth_append)
  qed (use assms(2) in simp)
  moreover have "?k \<le> n" by simp
  moreover have "fst (fl_write off data f) \<longrightarrow> ?k = n"
    using assms(2,3) by (auto simp: fl_write_def tick_def Let_def)
  ultimately show ?thesis by blast
qed

section \<open>Little-endian numbers\<close>

fun le :: "nat \<Rightarrow> nat \<Rightarrow> u8 list" where
  "le 0 n = []"
| "le (Suc k) n = of_nat n # le k (n div 256)"

fun nat_of_le :: "u8 list \<Rightarrow> nat" where
  "nat_of_le [] = 0"
| "nat_of_le (b # bs) = unat b + 256 * nat_of_le bs"

lemma le_length [simp]: "length (le k n) = k"
  by (induction k arbitrary: n) simp_all

lemma nat_of_le_le: "nat_of_le (le k n) = n mod 256 ^ k"
proof (induction k arbitrary: n)
  case (Suc k)
  have "nat_of_le (le (Suc k) n) = n mod 256 + 256 * (n div 256 mod 256 ^ k)"
    by (simp add: Suc unsigned_of_nat take_bit_eq_mod)
  also have "\<dots> = n mod (256 * 256 ^ k)" by (simp add: mod_mult2_eq add.commute)
  finally show ?case by simp
qed simp

lemma nat_of_le_bound: "nat_of_le bs < 256 ^ length bs"
proof (induction bs)
  case (Cons b bs)
  have "unat b + 256 * nat_of_le bs < 256 * (nat_of_le bs + 1)" using u8_lt [of b] by (simp del: u8_lt)
  also have "\<dots> \<le> 256 * 256 ^ length bs" using Cons by (intro mult_le_mono) simp_all
  finally show ?case by simp
qed simp

end
