(* ===== verification/Gb_Catalog.thy ===== *)
theory Gb_Catalog
  imports Gb_Flash Gb_Name
begin

text \<open>
  The ROM catalog of main/gb_storage.c as data: its entries, their byte layout in a directory sector,
  and the checks a directory passes before it is believed.  Offsets and sizes are \<open>uint32_t\<close>, held as
  naturals with the wrap-around of their sums written out (\<open>add32\<close>).
\<close>

definition SECTOR_BYTES :: nat where "SECTOR_BYTES = 4096"
definition ROM_BANK_BYTES :: nat where "ROM_BANK_BYTES = 16384"
definition DIRECTORY_SECTORS :: nat where "DIRECTORY_SECTORS = 2"
definition GB_STORAGE_MAX_ROMS :: nat where "GB_STORAGE_MAX_ROMS = 16"

lemmas storage_sizes = SECTOR_BYTES_def ROM_BANK_BYTES_def DIRECTORY_SECTORS_def GB_STORAGE_MAX_ROMS_def

record rom_entry =
  re_name :: "u8 list"
  re_offset :: nat
  re_bytes :: nat
  re_sha :: "u8 list"

definition add32 :: "nat \<Rightarrow> nat \<Rightarrow> nat" where
  "add32 a b = (a + b) mod 2 ^ 32"

section \<open>Checks\<close>

definition valid_range :: "nat \<Rightarrow> nat \<Rightarrow> nat \<Rightarrow> bool" where
  "valid_range len offset bytes \<longleftrightarrow> offset \<le> len \<and> bytes \<le> len - offset"

definition entry_sane :: "nat \<Rightarrow> rom_entry \<Rightarrow> bool" where
  "entry_sane end e \<longleftrightarrow>
     gb_name_valid (re_name e) \<and> re_offset e mod SECTOR_BYTES = 0 \<and> SECTOR_BYTES \<le> re_offset e \<and>
     32768 \<le> re_bytes e \<and> re_bytes e mod 16384 = 0 \<and> valid_range end (re_offset e) (re_bytes e)"

definition entry_conflict :: "rom_entry \<Rightarrow> rom_entry \<Rightarrow> bool" where
  "entry_conflict e o' \<longleftrightarrow>
     cstr (re_name e) = cstr (re_name o') \<or>
     (re_offset e < add32 (re_offset o') (re_bytes o') \<and> re_offset o' < add32 (re_offset e) (re_bytes e))"

fun entries_loop :: "nat \<Rightarrow> rom_entry list \<Rightarrow> rom_entry list \<Rightarrow> bool" where
  "entries_loop end seen [] = True"
| "entries_loop end seen (e # es) =
     (if \<not> entry_sane end e then False
      else if list_ex (entry_conflict e) seen then False
      else entries_loop end (seen @ [e]) es)"

definition entries_valid :: "nat \<Rightarrow> rom_entry list \<Rightarrow> bool" where
  "entries_valid end es \<longleftrightarrow> length es \<le> GB_STORAGE_MAX_ROMS \<and> entries_loop end [] es"

text \<open>What the checks establish: sane entries with distinct names in disjoint ranges.\<close>

definition apart :: "rom_entry \<Rightarrow> rom_entry \<Rightarrow> bool" where
  "apart a b \<longleftrightarrow> cstr (re_name a) \<noteq> cstr (re_name b) \<and>
     (re_offset a + re_bytes a \<le> re_offset b \<or> re_offset b + re_bytes b \<le> re_offset a)"

definition catalog_ok :: "nat \<Rightarrow> rom_entry list \<Rightarrow> bool" where
  "catalog_ok end es \<longleftrightarrow> length es \<le> 16 \<and> (\<forall>e \<in> set es. entry_sane end e) \<and> sorted_wrt apart es"

lemma entry_sane_end: "entry_sane end e \<Longrightarrow> re_offset e + re_bytes e \<le> end"
  by (auto simp: entry_sane_def valid_range_def)

lemma no_conflict_apart:
  assumes "entry_sane end e" "entry_sane end o'" "end < 2 ^ 32"
  shows "\<not> entry_conflict e o' \<longleftrightarrow> apart o' e"
  using entry_sane_end [OF assms(1)] entry_sane_end [OF assms(2)] assms
  by (auto simp: entry_conflict_def apart_def add32_def entry_sane_def)

lemma entries_loop_spec:
  assumes "end < 2 ^ 32" "\<forall>o' \<in> set seen. entry_sane end o'"
  shows "entries_loop end seen es \<longleftrightarrow>
    (\<forall>e \<in> set es. entry_sane end e) \<and> sorted_wrt apart es \<and> (\<forall>o' \<in> set seen. \<forall>e \<in> set es. apart o' e)"
  using assms(2)
proof (induction es arbitrary: seen)
  case (Cons e es)
  show ?case
  proof (cases "entry_sane end e")
    case False
    then show ?thesis by simp
  next
    case True
    have "list_ex (entry_conflict e) seen \<longleftrightarrow> \<not> (\<forall>o' \<in> set seen. apart o' e)"
      using no_conflict_apart [OF True _ assms(1)] Cons.prems by (auto simp: list_ex_iff)
    then show ?thesis using True Cons.prems Cons.IH [of "seen @ [e]"] by auto
  qed
qed simp

lemma entries_valid_iff: "end < 2 ^ 32 \<Longrightarrow> entries_valid end es \<longleftrightarrow> catalog_ok end es"
  using entries_loop_spec [of "end" "[]" es] by (auto simp: entries_valid_def catalog_ok_def GB_STORAGE_MAX_ROMS_def)

lemma apart_sym: "apart a b \<Longrightarrow> apart b a"
  by (auto simp: apart_def)

lemma catalog_pairs:
  assumes "catalog_ok end es" "i < length es" "j < length es" "i \<noteq> j"
  shows "apart (es ! i) (es ! j)"
  using assms apart_sym unfolding catalog_ok_def sorted_wrt_iff_nth_less by (metis linorder_neqE_nat)

lemma catalog_snoc:
  "catalog_ok end (es @ [e]) \<longleftrightarrow> length es < 16 \<and> catalog_ok end es \<and> entry_sane end e \<and> (\<forall>o' \<in> set es. apart o' e)"
  by (auto simp: catalog_ok_def sorted_wrt_append)

lemma sorted_wrt_drop_one: "sorted_wrt P es \<Longrightarrow> sorted_wrt P (take i es @ drop (Suc i) es)"
proof (cases "i < length es")
  case True
  assume "sorted_wrt P es"
  then have "sorted_wrt P (take i es @ es ! i # drop (Suc i) es)" using True by (simp add: id_take_nth_drop [symmetric])
  then show ?thesis by (simp add: sorted_wrt_append)
qed simp

lemma catalog_remove: "catalog_ok end es \<Longrightarrow> catalog_ok end (take i es @ drop (Suc i) es)"
  by (auto simp: catalog_ok_def sorted_wrt_drop_one dest: in_set_takeD in_set_dropD)

section \<open>Layout of a directory\<close>

definition entry_bytes :: "rom_entry \<Rightarrow> u8 list" where
  "entry_bytes e = re_name e @ le 4 (re_offset e) @ le 4 (re_bytes e) @ re_sha e"

definition entry_of :: "u8 list \<Rightarrow> rom_entry" where
  "entry_of bs = \<lparr>re_name = take 32 bs, re_offset = nat_of_le (take 4 (drop 32 bs)),
     re_bytes = nat_of_le (take 4 (drop 36 bs)), re_sha = take 32 (drop 40 bs)\<rparr>"

definition entry_fits :: "rom_entry \<Rightarrow> bool" where
  "entry_fits e \<longleftrightarrow> length (re_name e) = 32 \<and> re_offset e < 2 ^ 32 \<and> re_bytes e < 2 ^ 32 \<and> length (re_sha e) = 32"

definition no_entry :: rom_entry where
  "no_entry = \<lparr>re_name = replicate 32 0, re_offset = 0, re_bytes = 0, re_sha = replicate 32 0\<rparr>"

fun entries_of :: "nat \<Rightarrow> u8 list \<Rightarrow> rom_entry list" where
  "entries_of 0 bs = []"
| "entries_of (Suc k) bs = entry_of bs # entries_of k (drop 72 bs)"

text \<open>\<open>directory_t\<close> up to its digest: 1164 bytes; with the digest 1196.\<close>

definition MAGIC_FGB2 :: "u8 list" where "MAGIC_FGB2 = [0x46, 0x47, 0x42, 0x32]"
definition MAGIC_FGBR :: "u8 list" where "MAGIC_FGBR = [0x46, 0x47, 0x42, 0x52]"

definition directory_body :: "nat \<Rightarrow> rom_entry list \<Rightarrow> u8 list" where
  "directory_body gen es =
     MAGIC_FGB2 @ le 4 gen @ le 2 (length es) @ le 2 0 @
     concat (map entry_bytes (es @ replicate (GB_STORAGE_MAX_ROMS - length es) no_entry))"

definition directory_image :: "(u8 list \<Rightarrow> u8 list) \<Rightarrow> nat \<Rightarrow> rom_entry list \<Rightarrow> u8 list" where
  "directory_image sha gen es = directory_body gen es @ sha (directory_body gen es)"

text \<open>A directory's generation and entries, if it is believed.\<close>

definition directory_gen :: "u8 list \<Rightarrow> u32" where
  "directory_gen bs = of_nat (nat_of_le (take 4 (drop 4 bs)))"

definition directory_count :: "u8 list \<Rightarrow> nat" where
  "directory_count bs = nat_of_le (take 2 (drop 8 bs))"

definition directory_entries :: "u8 list \<Rightarrow> rom_entry list" where
  "directory_entries bs = entries_of (directory_count bs) (drop 12 bs)"

definition directory_plausible :: "nat \<Rightarrow> u8 list \<Rightarrow> bool" where
  "directory_plausible end bs \<longleftrightarrow>
     take 4 bs = MAGIC_FGB2 \<and> directory_count bs \<le> GB_STORAGE_MAX_ROMS \<and> entries_valid end (directory_entries bs)"

definition digest_matches :: "(u8 list \<Rightarrow> u8 list) \<Rightarrow> u8 list \<Rightarrow> bool" where
  "digest_matches sha bs \<longleftrightarrow> sha (take 1164 bs) = drop 1164 bs"

definition parse_directory :: "(u8 list \<Rightarrow> u8 list) \<Rightarrow> nat \<Rightarrow> u8 list \<Rightarrow> (u32 \<times> rom_entry list) option" where
  "parse_directory sha end bs =
     (if directory_plausible end bs \<and> digest_matches sha bs
      then Some (directory_gen bs, directory_entries bs) else None)"

lemmas directory_defs = parse_directory_def directory_plausible_def digest_matches_def directory_entries_def
  directory_gen_def directory_count_def

lemma entry_bytes_length: "entry_fits e \<Longrightarrow> length (entry_bytes e) = 72"
  by (simp add: entry_fits_def entry_bytes_def)

lemma entry_of_bytes: "entry_fits e \<Longrightarrow> entry_of (entry_bytes e @ r) = e"
  by (simp add: entry_fits_def entry_bytes_def entry_of_def nat_of_le_le)

lemma no_entry_fits: "entry_fits no_entry"
  by (simp add: entry_fits_def no_entry_def)

lemma entries_of_bytes:
  "\<forall>e \<in> set es. entry_fits e \<Longrightarrow> entries_of (length es) (concat (map entry_bytes es) @ r) = es"
  by (induction es) (simp_all add: entry_of_bytes entry_bytes_length)

lemma concat_entry_length: "\<forall>e \<in> set es. entry_fits e \<Longrightarrow> length (concat (map entry_bytes es)) = 72 * length es"
  by (induction es) (simp_all add: entry_bytes_length)

lemma body_length:
  assumes "\<forall>e \<in> set es. entry_fits e" "length es \<le> 16"
  shows "length (directory_body gen es) = 1164"
proof -
  have "length (concat (map entry_bytes (es @ replicate (16 - length es) no_entry))) = 72 * 16"
    using assms by (subst concat_entry_length) (auto simp: no_entry_fits)
  then show ?thesis by (simp add: directory_body_def MAGIC_FGB2_def GB_STORAGE_MAX_ROMS_def)
qed

lemma directory_fields:
  assumes "length m = 4"
  shows "take 4 (m @ le 4 g @ le 2 n @ le 2 z @ c) = m" "take 4 (drop 4 (m @ le 4 g @ le 2 n @ le 2 z @ c)) = le 4 g"
    "take 2 (drop 8 (m @ le 4 g @ le 2 n @ le 2 z @ c)) = le 2 n" "drop 12 (m @ le 4 g @ le 2 n @ le 2 z @ c) = c"
proof -
  define x y w where "x = le 4 g" and "y = le 2 n" and "w = le 2 z"
  have "length x = 4" "length y = 2" "length w = 2" by (simp_all add: x_def y_def w_def)
  then have "take 4 (m @ x @ y @ w @ c) = m \<and> take 4 (drop 4 (m @ x @ y @ w @ c)) = x \<and>
      take 2 (drop 8 (m @ x @ y @ w @ c)) = y \<and> drop 12 (m @ x @ y @ w @ c) = c"
    using assms by simp
  then show "take 4 (m @ le 4 g @ le 2 n @ le 2 z @ c) = m" "take 4 (drop 4 (m @ le 4 g @ le 2 n @ le 2 z @ c)) = le 4 g"
    "take 2 (drop 8 (m @ le 4 g @ le 2 n @ le 2 z @ c)) = le 2 n" "drop 12 (m @ le 4 g @ le 2 n @ le 2 z @ c) = c"
    by (simp_all only: x_def y_def w_def)
qed

text \<open>What is published is what is read back.\<close>

lemma parse_image:
  assumes "catalog_ok end es" "\<forall>e \<in> set es. entry_fits e" "end < 2 ^ 32" "gen < 2 ^ 32"
  shows "parse_directory sha end (directory_image sha gen es) = Some (of_nat gen, es)"
proof -
  have n: "length es \<le> 16" using assms(1) by (simp add: catalog_ok_def)
  define b where "b = directory_body gen es"
  define c where "c = concat (map entry_bytes (es @ replicate (16 - length es) no_entry)) @ sha b"
  have img: "directory_image sha gen es = MAGIC_FGB2 @ le 4 gen @ le 2 (length es) @ le 2 0 @ c"
    by (simp add: directory_image_def directory_body_def b_def c_def GB_STORAGE_MAX_ROMS_def)
  have m: "length MAGIC_FGB2 = 4" by (simp add: MAGIC_FGB2_def)
  have "take 4 (directory_image sha gen es) = MAGIC_FGB2" "take 4 (drop 4 (directory_image sha gen es)) = le 4 gen"
    "take 2 (drop 8 (directory_image sha gen es)) = le 2 (length es)" "drop 12 (directory_image sha gen es) = c"
    unfolding img using directory_fields [OF m] by simp_all
  moreover have "length b = 1164" unfolding b_def by (rule body_length [OF assms(2) n])
  then have "take 1164 (directory_image sha gen es) = b" "drop 1164 (directory_image sha gen es) = sha b"
    by (simp_all add: directory_image_def b_def)
  moreover have "entries_of (length es) c = es"
    unfolding c_def map_append concat_append append_assoc by (rule entries_of_bytes [OF assms(2)])
  moreover have "nat_of_le (le 2 (length es)) = length es" "nat_of_le (le 4 gen) = gen"
    using n assms(4) by (simp_all add: nat_of_le_le del: le.simps)
  ultimately show ?thesis
    using n assms(1,3) by (simp add: directory_defs entries_valid_iff GB_STORAGE_MAX_ROMS_def)
qed

text \<open>A partly programmed directory is not believed, unless all of it is there: the digest field of a
  torn image ends in erased bytes.  The one fact of the hash is that it never is all ones.\<close>

definition digest_fn :: "(u8 list \<Rightarrow> u8 list) \<Rightarrow> bool" where
  "digest_fn sha \<longleftrightarrow> (\<forall>x. length (sha x) = 32 \<and> sha x \<noteq> replicate 32 0xFF)"

lemma parse_digest: "parse_directory sha end t \<noteq> None \<Longrightarrow> sha (take 1164 t) = drop 1164 t"
  by (simp add: parse_directory_def digest_matches_def split: if_splits)

lemma torn_image:
  assumes "digest_fn sha" "length b = 1164" "k \<le> 1196" "img = b @ sha b"
    and "parse_directory sha end (take k img @ replicate (1196 - k) 0xFF) \<noteq> None"
  shows "take k img @ replicate (1196 - k) 0xFF = img"
proof -
  let ?t = "take k img @ replicate (1196 - k) 0xFF"
  have lsha: "length (sha x) = 32" "sha x \<noteq> replicate 32 0xFF" for x using assms(1) by (simp_all add: digest_fn_def)
  note ok = parse_digest [OF assms(5)]
  show ?thesis
  proof (cases "k \<le> 1164")
    case True
    then have "drop 1164 ?t = replicate 32 0xFF" by (simp add: assms(2,4))
    with ok lsha(2) show ?thesis by metis
  next
    case False
    then have "take 1164 ?t = b" using assms(2,4) by simp
    moreover have "drop 1164 ?t = take (k - 1164) (sha b) @ replicate (1196 - k) 0xFF"
      using False assms(2,3,4) by simp
    ultimately have "sha b = take (k - 1164) (sha b) @ replicate (1196 - k) 0xFF" using ok by simp
    then show ?thesis using False assms(2,4) by simp
  qed
qed

end
