(* ===== verification/Gb_Storage.thy ===== *)
theory Gb_Storage
  imports Gb_Catalog
begin

text \<open>
  ROM storage (main/gb_storage.c): a catalog of up to 16 ROMs in a flash partition.  The data grows
  from the second sector; the last two sectors hold two copies of the directory, and a change is
  committed by writing the next generation into the copy that is not in use.  The static variables
  of the file are the record \<open>storage\<close>; SHA-256 is the parameter \<open>sha\<close>.
\<close>

record storage =
  st_flash :: flash
  st_partition :: bool
  st_entries :: "rom_entry list"
  st_selected :: "rom_entry option"
  st_mapped :: bool
  st_slot :: "nat option"
  st_generation :: u32
  st_trusted :: bool
  st_reload :: bool
  st_read_error :: bool

definition data_end :: "flash \<Rightarrow> nat" where
  "data_end f = (fl_size f + 2 ^ 32 - DIRECTORY_SECTORS * SECTOR_BYTES) mod 2 ^ 32"

definition slot_offset :: "flash \<Rightarrow> nat \<Rightarrow> nat" where
  "slot_offset f slot = add32 (data_end f) (slot * SECTOR_BYTES)"

definition unmap_selected :: "storage \<Rightarrow> storage" where
  "unmap_selected s = s\<lparr>st_mapped := False, st_selected := None\<rparr>"

text \<open>A call on the partition.\<close>

definition on_flash :: "(flash \<Rightarrow> 'a \<times> flash) \<Rightarrow> storage \<Rightarrow> 'a \<times> storage" where
  "on_flash op s = (let (r, f) = op (st_flash s) in (r, s\<lparr>st_flash := f\<rparr>))"

section \<open>Reading the catalog\<close>

text \<open>The image of a directory that passes every check.\<close>

definition read_directory :: "(u8 list \<Rightarrow> u8 list) \<Rightarrow> nat \<Rightarrow> storage \<Rightarrow> u8 list option \<times> storage" where
  "read_directory sha slot s =
     (case on_flash (fl_read (slot_offset (st_flash s) slot) 1196) s of
        (None, s) \<Rightarrow> (None, s\<lparr>st_read_error := True\<rparr>)
      | (Some bs, s) \<Rightarrow>
          if \<not> directory_plausible (data_end (st_flash s)) bs then (None, s)
          else
            let (hashed, s) = on_flash tick s
            in if hashed \<and> digest_matches sha bs then (Some bs, s) else (None, s))"

text \<open>\<open>(int32_t)(a - b) > 0\<close>.\<close>

definition newer :: "u32 \<Rightarrow> u32 \<Rightarrow> bool" where
  "newer a b \<longleftrightarrow> 0 < sint (a - b)"

definition try_slot :: "(u8 list \<Rightarrow> u8 list) \<Rightarrow> nat \<Rightarrow> storage \<Rightarrow> storage" where
  "try_slot sha slot s =
     (case read_directory sha slot s of
        (None, s) \<Rightarrow> s
      | (Some bs, s) \<Rightarrow>
          if st_slot s = None \<or> newer (directory_gen bs) (st_generation s)
          then s\<lparr>st_slot := Some slot, st_generation := directory_gen bs, st_entries := directory_entries bs\<rparr>
          else s)"

text \<open>A partition written by the packing tool starts with a ROM table instead.\<close>

definition legacy_count :: "u8 list \<Rightarrow> nat" where
  "legacy_count bs = nat_of_le (take 2 (drop 6 bs))"

definition legacy_header_ok :: "u8 list \<Rightarrow> bool" where
  "legacy_header_ok bs \<longleftrightarrow>
     take 4 bs = MAGIC_FGBR \<and> nat_of_le (take 2 (drop 4 bs)) = 1 \<and>
     legacy_count bs \<noteq> 0 \<and> legacy_count bs \<le> GB_STORAGE_MAX_ROMS"

definition read_legacy :: "storage \<Rightarrow> bool \<times> storage" where
  "read_legacy s =
     (case on_flash (fl_read 0 8) s of
        (None, s) \<Rightarrow> (False, s)
      | (Some header, s) \<Rightarrow>
          if \<not> legacy_header_ok header then (True, s\<lparr>st_reload := False\<rparr>)
          else
            let count = legacy_count header; table_bytes = count * 72 in
            if \<not> valid_range (fl_size (st_flash s)) 8 table_bytes then (False, s)
            else case on_flash (fl_read 8 table_bytes) s of
              (None, s) \<Rightarrow> (False, s)
            | (Some tb, s) \<Rightarrow>
                if \<not> entries_valid (data_end (st_flash s)) (entries_of count tb) then (False, s)
                else (True, s\<lparr>st_entries := entries_of count tb, st_trusted := True, st_reload := False\<rparr>))"

definition gb_storage_init :: "(u8 list \<Rightarrow> u8 list) \<Rightarrow> bool \<Rightarrow> storage \<Rightarrow> bool \<times> storage" where
  "gb_storage_init sha found s =
     (let s = (unmap_selected s)\<lparr>st_entries := [], st_trusted := False, st_reload := True, st_read_error := False,
                st_slot := None, st_generation := 0, st_partition := found\<rparr>
      in if \<not> found then (False, s)
         else
           let (dir, s) = on_flash tick s
           in if \<not> dir then (False, s)
              else
                let s = try_slot sha 1 (try_slot sha 0 s)
                in if st_read_error s then (False, s\<lparr>st_entries := []\<rparr>)
                   else if st_slot s \<noteq> None then (True, s\<lparr>st_trusted := True, st_reload := False\<rparr>)
                   else read_legacy s)"

section \<open>Space\<close>

text \<open>One pass over the entries: does one overlap the candidate, and where does the last of these end.\<close>

fun overlap_scan :: "nat \<Rightarrow> nat \<Rightarrow> rom_entry list \<Rightarrow> bool \<times> nat \<Rightarrow> bool \<times> nat" where
  "overlap_scan candidate bytes [] r = r"
| "overlap_scan candidate bytes (e # es) (occupied, next) =
     (let stop = add32 (re_offset e) (re_bytes e) in
      if candidate < stop \<and> re_offset e < add32 candidate bytes
      then overlap_scan candidate bytes es (True, if next < stop then stop else next)
      else overlap_scan candidate bytes es (occupied, next))"

lemma add32_less: "add32 a b < 2 ^ 32"
  by (simp add: add32_def)

lemma overlap_scan_next:
  "overlap_scan c b es (occ, nx) = (occ', nx') \<Longrightarrow> c \<le> nx \<Longrightarrow> (occ \<Longrightarrow> c < nx) \<Longrightarrow> (c < nx \<Longrightarrow> nx < 2 ^ 32) \<Longrightarrow>
     nx \<le> nx' \<and> (occ' \<longrightarrow> c < nx' \<and> nx' < 2 ^ 32)"
proof (induction es arbitrary: occ nx)
  case (Cons e es)
  let ?stop = "add32 (re_offset e) (re_bytes e)"
  show ?case
  proof (cases "c < ?stop \<and> re_offset e < add32 c b")
    case True
    define m where "m = (if nx < ?stop then ?stop else nx)"
    have o: "overlap_scan c b es (True, m) = (occ', nx')"
      using Cons.prems(1) True by (simp add: Let_def m_def)
    have m: "c < m" "nx \<le> m" "m < 2 ^ 32"
      using True Cons.prems(2,4) add32_less [of "re_offset e" "re_bytes e"] by (auto simp: m_def)
    have "m \<le> nx' \<and> (occ' \<longrightarrow> c < nx' \<and> nx' < 2 ^ 32)"
      by (rule Cons.IH [OF o]) (use m in simp_all)
    with m(2) show ?thesis by simp
  next
    case False
    then have o: "overlap_scan c b es (occ, nx) = (occ', nx')"
      using Cons.prems(1) by (auto simp: Let_def split: if_splits)
    show ?thesis by (rule Cons.IH [OF o]) (use Cons.prems in simp_all)
  qed
qed auto

function gap_from :: "nat \<Rightarrow> nat \<Rightarrow> rom_entry list \<Rightarrow> nat \<Rightarrow> nat" where
  "gap_from end bytes es candidate =
     (if end < add32 candidate bytes then 0
      else
        let (occupied, next) = overlap_scan candidate bytes es (False, candidate)
        in if \<not> occupied then candidate else gap_from end bytes es next)"
  by pat_completeness auto
termination
proof (relation "measure (\<lambda>(end, bytes, es, c). 2 ^ 32 - c)", goal_cases)
  case (2 e bytes es c x occ nx)
  then have "overlap_scan c bytes es (False, c) = (occ, nx)" by simp
  from overlap_scan_next [OF this] 2 show ?case by auto
qed simp

definition find_gap :: "nat \<Rightarrow> storage \<Rightarrow> nat" where
  "find_gap bytes s = gap_from (data_end (st_flash s)) bytes (st_entries s) SECTOR_BYTES"

definition gb_storage_limit :: "storage \<Rightarrow> nat" where
  "gb_storage_limit s =
     (let n = fl_size (st_flash s) in
      if \<not> st_partition s \<or> n \<le> (DIRECTORY_SECTORS + 1) * SECTOR_BYTES then 0
      else (n - (DIRECTORY_SECTORS + 1) * SECTOR_BYTES) div ROM_BANK_BYTES * ROM_BANK_BYTES)"

definition gb_storage_used :: "storage \<Rightarrow> nat" where
  "gb_storage_used s = fold (\<lambda>e used. add32 used (re_bytes e)) (st_entries s) 0"

definition gb_storage_free_bytes :: "storage \<Rightarrow> nat" where
  "gb_storage_free_bytes s =
     (if \<not> st_partition s then 0
      else
        let capacity = (data_end (st_flash s) + 2 ^ 32 - SECTOR_BYTES) mod 2 ^ 32; used = gb_storage_used s
        in if used \<le> capacity then capacity - used else 0)"

text \<open>From an offset: the end of the entry it is in, or the start of the next entry.\<close>

fun region_scan :: "nat \<Rightarrow> rom_entry list \<Rightarrow> nat \<Rightarrow> nat + nat" where
  "region_scan from' [] to = Inr to"
| "region_scan from' (e # es) to =
     (if re_offset e \<le> from' \<and> from' < add32 (re_offset e) (re_bytes e) then Inl (add32 (re_offset e) (re_bytes e))
      else region_scan from' es (if from' < re_offset e \<and> re_offset e < to then re_offset e else to))"

lemma region_scan_inside: "region_scan p es to = Inl n \<Longrightarrow> p < n \<and> n < 2 ^ 32"
  by (induction es arbitrary: to) (auto simp: add32_def split: if_splits)

lemma region_scan_free: "region_scan p es to = Inr n \<Longrightarrow> p < to \<Longrightarrow> p < n \<and> n \<le> to"
proof (induction es arbitrary: to)
  case (Cons e es)
  define m where "m = (if p < re_offset e \<and> re_offset e < to then re_offset e else to)"
  have m: "p < m" "m \<le> to" using Cons.prems(2) by (auto simp: m_def)
  have "region_scan p es m = Inr n" using Cons.prems(1) by (auto simp: m_def split: if_splits)
  from Cons.IH [OF this m(1)] m(2) show ?case by simp
qed simp

function best_region :: "nat \<Rightarrow> rom_entry list \<Rightarrow> nat \<Rightarrow> nat \<Rightarrow> nat" where
  "best_region end es from' best =
     (if end \<le> from' then best
      else case region_scan from' es end of
        Inl n \<Rightarrow> best_region end es n best
      | Inr to \<Rightarrow> best_region end es to (if best < to - from' then to - from' else best))"
  by pat_completeness auto
termination
  by (relation "measure (\<lambda>(end, es, p, best). end - p)") (use region_scan_inside region_scan_free in fastforce)+

definition gb_storage_available :: "storage \<Rightarrow> nat" where
  "gb_storage_available s =
     (if \<not> st_partition s then 0
      else
        let used = gb_storage_used s; limit = gb_storage_limit s
        in if limit \<le> used then 0
           else
             let best = best_region (data_end (st_flash s)) (st_entries s) SECTOR_BYTES 0;
                 quota_left = limit - used;
                 available = (if best < quota_left then best else quota_left) div ROM_BANK_BYTES * ROM_BANK_BYTES
             in if 32768 \<le> available then available else 0)"

section \<open>Publishing a directory\<close>

definition publish_directory :: "(u8 list \<Rightarrow> u8 list) \<Rightarrow> rom_entry list \<Rightarrow> storage \<Rightarrow> bool \<times> storage" where
  "publish_directory sha es s =
     (let (buffers, s) = on_flash tick s in
      if \<not> buffers then (False, s)
      else
        let gen = st_generation s + 1;
            img = directory_image sha (unat gen) es;
            (hashed, s) = on_flash tick s;
            slot = (if st_slot s = Some 0 then 1 else 0);
            offset = slot_offset (st_flash s) slot
        in if \<not> hashed then (False, s)
           else
             let (erased, s) = on_flash (fl_erase offset SECTOR_BYTES) s in
             if \<not> erased then (False, s)
             else
               let (written, s) = on_flash (fl_write offset img) (s\<lparr>st_reload := True, st_trusted := False\<rparr>) in
               if \<not> written then (False, s)
               else
                 case read_directory sha slot s of
                   (None, s) \<Rightarrow> (False, s)
                 | (Some verify, s) \<Rightarrow>
                     if verify \<noteq> img then (False, s)
                     else (True, s\<lparr>st_entries := es, st_generation := gen, st_slot := Some slot,
                                   st_trusted := True, st_reload := False\<rparr>))"

section \<open>Upload, delete, rename\<close>

definition declared_rom_size_s :: "u8 \<Rightarrow> nat" where
  "declared_rom_size_s code =
     (if code \<le> 7 then 32768 * 2 ^ unat code
      else if code = 0x52 then 72 * 16384
      else if code = 0x53 then 80 * 16384
      else if code = 0x54 then 96 * 16384
      else 0)"

definition supported_type :: "u8 \<Rightarrow> bool" where
  "supported_type t \<longleftrightarrow>
     t \<in> {0x00, 0x01, 0x02, 0x03, 0x05, 0x06, 0x0f, 0x10, 0x11, 0x12, 0x13,
           0x19, 0x1a, 0x1b, 0x1c, 0x1d, 0x1e}"

text \<open>\<open>except\<close> is an index that may keep its name; \<open>SIZE_MAX\<close> is \<open>None\<close>.\<close>

definition valid_name :: "u8 list \<Rightarrow> nat option \<Rightarrow> storage \<Rightarrow> bool" where
  "valid_name name except s \<longleftrightarrow>
     gb_name_valid name \<and>
     list_all (\<lambda>i. Some i = except \<or> cstr name \<noteq> cstr (re_name (st_entries s ! i))) [0..<length (st_entries s)]"

text \<open>\<open>strcpy\<close> into 32 zeroed bytes.\<close>

definition name_field :: "u8 list \<Rightarrow> u8 list" where
  "name_field name = cstr name @ replicate (32 - length (cstr name)) 0"

text \<open>The reader of the upload, called with the bytes wanted: what it returns and the buffer after it.\<close>

type_synonym 'c reader = "nat \<Rightarrow> 'c \<Rightarrow> (int \<times> (nat \<Rightarrow> u8)) \<times> 'c"

record 'c upload =
  up_source :: 'c
  up_written :: nat
  up_hashed :: "u8 list"
  up_header :: "u8 list"

definition header_copy :: "nat \<Rightarrow> u8 list \<Rightarrow> u8 list \<Rightarrow> u8 list" where
  "header_copy written chunk header =
     (if written < 0x150
      then take written header @ take (0x150 - written) chunk @ drop (written + min (0x150 - written) (length chunk)) header
      else header)"

function upload_loop :: "'c reader \<Rightarrow> nat \<Rightarrow> nat \<Rightarrow> 'c upload \<Rightarrow> storage \<Rightarrow> bool \<times> 'c upload \<times> storage" where
  "upload_loop reader offset bytes u s =
     (if bytes \<le> up_written u then (True, u, s)
      else
        let want = min (bytes - up_written u) 1024; ((got, buffer), c) = reader want (up_source u); u = u\<lparr>up_source := c\<rparr>
        in if got \<le> 0 \<or> int want < got then (False, u, s)
           else
             let chunk = map buffer [0..<nat got];
                 (stored, s) = on_flash (fl_write (add32 offset (up_written u)) chunk) s
             in if \<not> stored then (False, u, s)
                else
                  let (hashed, s) = on_flash tick s
                  in if \<not> hashed then (False, u, s)
                     else upload_loop reader offset bytes
                       (u\<lparr>up_written := up_written u + nat got, up_hashed := up_hashed u @ chunk,
                          up_header := header_copy (up_written u) chunk (up_header u)\<rparr>) s)"
  by pat_completeness auto
termination
  by (relation "measure (\<lambda>(reader, offset, bytes, u, s). bytes - up_written u)") (auto split: prod.splits)

definition gb_storage_upload :: "(u8 list \<Rightarrow> u8 list) \<Rightarrow> u8 list \<Rightarrow> nat \<Rightarrow> 'c reader option \<Rightarrow> 'c \<Rightarrow> storage \<Rightarrow> bool \<times> storage" where
  "gb_storage_upload sha name bytes reader c s =
     (case reader of None \<Rightarrow> (False, s) | Some reader \<Rightarrow>
      if \<not> st_partition s \<or> st_reload s \<or> \<not> valid_name name None s \<or> GB_STORAGE_MAX_ROMS \<le> length (st_entries s) \<or>
         bytes < 32768 \<or> gb_storage_limit s < bytes \<or> bytes mod ROM_BANK_BYTES \<noteq> 0 \<or> gb_storage_available s < bytes
      then (False, s)
      else
        let offset = find_gap bytes s in
        if offset = 0 then (False, s)
        else
          let (erased, s) = on_flash (fl_erase offset bytes) (unmap_selected s) in
          if \<not> erased then (False, s)
          else
            let (started, s) = on_flash tick s in
            if \<not> started then (False, s)
            else
              let (ok, u, s) = upload_loop reader offset bytes
                    \<lparr>up_source = c, up_written = 0, up_hashed = [], up_header = replicate 0x150 0\<rparr> s in
              if \<not> ok then (False, s)
              else
                let (finished, s) = on_flash tick s in
                if \<not> finished \<or> up_header u ! 0x143 = 0xc0 \<or> \<not> supported_type (up_header u ! 0x147) \<or>
                   declared_rom_size_s (up_header u ! 0x148) \<noteq> bytes
                then (False, s)
                else publish_directory sha
                  (st_entries s @ [\<lparr>re_name = name_field name, re_offset = offset, re_bytes = bytes, re_sha = sha (up_hashed u)\<rparr>]) s)"

definition gb_storage_delete :: "(u8 list \<Rightarrow> u8 list) \<Rightarrow> nat \<Rightarrow> storage \<Rightarrow> bool \<times> storage" where
  "gb_storage_delete sha i s =
     (if \<not> st_partition s \<or> st_reload s \<or> length (st_entries s) \<le> i then (False, s)
      else publish_directory sha (take i (st_entries s) @ drop (Suc i) (st_entries s)) (unmap_selected s))"

definition gb_storage_rename :: "(u8 list \<Rightarrow> u8 list) \<Rightarrow> nat \<Rightarrow> u8 list \<Rightarrow> storage \<Rightarrow> bool \<times> storage" where
  "gb_storage_rename sha i name s =
     (if \<not> st_partition s \<or> st_reload s \<or> length (st_entries s) \<le> i \<or> \<not> valid_name name (Some i) s then (False, s)
      else if cstr (re_name (st_entries s ! i)) = cstr name then (True, s)
      else publish_directory sha
        ((st_entries s)[i := (st_entries s ! i)\<lparr>re_name := name_field name\<rparr>]) (unmap_selected s))"

section \<open>Opening a ROM\<close>

definition read_selected :: "rom_entry \<Rightarrow> nat \<Rightarrow> nat \<Rightarrow> storage \<Rightarrow> u8 list option \<times> storage" where
  "read_selected e offset bytes s =
     (if st_partition s \<and> valid_range (re_bytes e) offset bytes
      then on_flash (fl_read (add32 (re_offset e) offset) bytes) s else (None, s))"

text \<open>An entry's size is a multiple of 16384 below \<open>2\<^sup>3\<^sup>2\<close>, so the loop's offset does not wrap.\<close>

function open_loop :: "rom_entry \<Rightarrow> nat \<Rightarrow> u8 list \<Rightarrow> storage \<Rightarrow> u8 list option \<times> storage" where
  "open_loop e offset hashed s =
     (if re_bytes e \<le> offset then (Some hashed, s)
      else
        case read_selected e offset (min (re_bytes e - offset) 1024) s of
          (None, s) \<Rightarrow> (None, s)
        | (Some bs, s) \<Rightarrow>
            let (ok, s) = on_flash tick s
            in if ok then open_loop e (offset + 1024) (hashed @ bs) s else (None, s))"
  by pat_completeness auto
termination
  by (relation "measure (\<lambda>(e, offset, hashed, s). re_bytes e - offset)") auto

text \<open>The source handed to the emulator: the entry behind \<open>read_selected\<close>, and the mapped bytes if the
  partition could be mapped.\<close>

record rom_source =
  rs_entry :: rom_entry
  rs_mapped :: "u8 list option"

definition gb_storage_open :: "(u8 list \<Rightarrow> u8 list) \<Rightarrow> nat \<Rightarrow> storage \<Rightarrow> rom_source option \<times> storage" where
  "gb_storage_open sha i s =
     (if st_reload s \<or> length (st_entries s) \<le> i then (None, s)
      else
        let e = st_entries s ! i; (started, s) = on_flash tick s in
        if \<not> started then (None, s)
        else
          case open_loop e 0 [] s of
            (None, s) \<Rightarrow> (None, s)
          | (Some hashed, s) \<Rightarrow>
              let (finished, s) = on_flash tick s in
              if \<not> finished \<or> sha hashed \<noteq> re_sha e then (None, s)
              else
                let s = unmap_selected s;
                    (mapped, s) = (if 32768 \<le> re_bytes e then on_flash tick s else (False, s));
                    s = (if mapped then s\<lparr>st_mapped := True\<rparr> else s)
                in (Some \<lparr>rs_entry = e, rs_mapped = (if mapped then Some (bytes_at (st_flash s) (re_offset e) (re_bytes e)) else None)\<rparr>,
                    s\<lparr>st_selected := Some e\<rparr>))"

section \<open>Row tokens\<close>

definition hex_char :: "u8 \<Rightarrow> u8" where
  "hex_char d = (if d < 10 then 0x30 + d else 0x61 + (d - 10))"

fun ticks :: "nat \<Rightarrow> storage \<Rightarrow> bool \<times> storage" where
  "ticks 0 s = (True, s)"
| "ticks (Suc n) s = (let (ok, s) = on_flash tick s in if ok then ticks n s else (False, s))"

definition gb_storage_token :: "(u8 list \<Rightarrow> u8 list) \<Rightarrow> nat \<Rightarrow> storage \<Rightarrow> u8 list option \<times> storage" where
  "gb_storage_token sha i s =
     (if st_reload s \<or> length (st_entries s) \<le> i then (None, s)
      else
        let (ok, s) = ticks 5 s in
        if \<not> ok then (None, s)
        else (Some (concat (map (\<lambda>b. [hex_char (drop_bit 4 b), hex_char (b AND 15)])
               (sha (le 4 (unat (st_generation s)) @ le 4 i @ entry_bytes (st_entries s ! i))))), s))"

fun resolve_loop :: "(u8 list \<Rightarrow> u8 list) \<Rightarrow> u8 list \<Rightarrow> nat list \<Rightarrow> storage \<Rightarrow> nat option \<times> storage" where
  "resolve_loop sha token [] s = (None, s)"
| "resolve_loop sha token (i # is) s =
     (case gb_storage_token sha i s of
        (Some t, s) \<Rightarrow> if cstr token = t then (Some i, s) else resolve_loop sha token is s
      | (None, s) \<Rightarrow> resolve_loop sha token is s)"

definition gb_storage_resolve_token :: "(u8 list \<Rightarrow> u8 list) \<Rightarrow> u8 list \<Rightarrow> storage \<Rightarrow> nat option \<times> storage" where
  "gb_storage_resolve_token sha token s =
     (if length (cstr token) \<noteq> 64 \<or> st_reload s then (None, s)
      else resolve_loop sha token [0..<length (st_entries s)] s)"

definition gb_storage_entry :: "nat \<Rightarrow> storage \<Rightarrow> rom_entry option" where
  "gb_storage_entry i s = (if i < length (st_entries s) then Some (st_entries s ! i) else None)"

end
