(* ===== verification/Two_Copies.thy ===== *)
theory Two_Copies
  imports Fw_Base
begin

text \<open>
  Two copies of a structure, each with a generation: the ROM directory in its two sectors and a save
  game in its two files are both kept this way.  A copy is \<open>None\<close> if it is not believed; the reader
  picks the newer of two believed copies; a change writes the next generation into the copy not in use.
\<close>

definition pick_copy :: "('g \<Rightarrow> 'g \<Rightarrow> bool) \<Rightarrow> (nat \<Rightarrow> ('g \<times> 'd) option) \<Rightarrow> (nat \<times> 'g \<times> 'd) option" where
  "pick_copy wins c =
     (case (c 0, c 1) of
        (None, None) \<Rightarrow> None
      | (Some x, None) \<Rightarrow> Some (0, x)
      | (None, Some y) \<Rightarrow> Some (1, y)
      | (Some x, Some y) \<Rightarrow> if wins (fst x) (fst y) then Some (0, x) else Some (1, y))"

lemma pick_copy_slot: "pick_copy wins c = Some (k, x) \<Longrightarrow> c k = Some x \<and> k < 2"
  by (auto simp: pick_copy_def split: option.splits if_splits)

lemma pick_copy_None: "pick_copy wins c = None \<longleftrightarrow> c 0 = None \<and> c 1 = None"
  by (auto simp: pick_copy_def split: option.splits)

text \<open>\<open>wins g h\<close>: the first copy, of generation \<open>g\<close>, is preferred to the second, of generation \<open>h\<close>.\<close>

locale two_copies =
  fixes wins :: "'g \<Rightarrow> 'g \<Rightarrow> bool"
    and successor :: "'g \<Rightarrow> 'g"
  assumes wins_next: "wins (successor g) g"
    and next_wins: "\<not> wins g (successor g)"
begin

lemma commit:
  assumes "pick_copy wins c = Some (k, g, d)" "c' k = c k"
    and "c' (1 - k) = c (1 - k) \<or> c' (1 - k) = None \<or> c' (1 - k) = Some (successor g, d')"
  shows "pick_copy wins c' = Some (k, g, d) \<or>
    pick_copy wins c' = Some (1 - k, successor g, d') \<and> c' (1 - k) = Some (successor g, d')"
proof -
  have k: "c k = Some (g, d)" "k = 0 \<or> k = 1" using pick_copy_slot [OF assms(1)] by auto
  with assms wins_next [of g] next_wins [of g] show ?thesis
    by (auto simp: pick_copy_def split: option.splits if_splits)
qed

lemma committed:
  assumes "pick_copy wins c = Some (k, g, d)" "c' k = c k" "c' (1 - k) = Some (successor g, d')"
  shows "pick_copy wins c' = Some (1 - k, successor g, d')"
proof -
  have k: "c k = Some (g, d)" "k = 0 \<or> k = 1" using pick_copy_slot [OF assms(1)] by auto
  with assms wins_next [of g] next_wins [of g] show ?thesis
    by (auto simp: pick_copy_def split: option.splits if_splits)
qed

lemma kept:
  assumes "pick_copy wins c = Some (k, g, d)" "c' k = c k" "c' (1 - k) = c (1 - k) \<or> c' (1 - k) = None"
  shows "pick_copy wins c' = Some (k, g, d)"
proof -
  have "c k = Some (g, d)" "k = 0 \<or> k = 1" using pick_copy_slot [OF assms(1)] by auto
  with assms show ?thesis by (auto simp: pick_copy_def split: option.splits if_splits)
qed

end

lemma first_copy:
  assumes "pick_copy wins c = None" "k < 2" "c' (1 - k) = c (1 - k)"
  shows "pick_copy wins c' = map_option (Pair k) (c' k)"
proof -
  have "k = 0 \<or> k = 1" using assms(2) by linarith
  moreover have "c 0 = None \<and> c 1 = None" using assms(1) by (simp add: pick_copy_None)
  ultimately show ?thesis using assms(3) by (auto simp: pick_copy_def split: option.splits)
qed

end
