(* ===== verification/Gb_Storage_Safe.thy ===== *)
theory Gb_Storage_Safe
  imports Gb_Storage Two_Copies
begin

text \<open>
  Power safety of the ROM catalog: what a restart finds after any change, interrupted anywhere.
\<close>

section \<open>What a restart finds\<close>

definition dir_at :: "(u8 list \<Rightarrow> u8 list) \<Rightarrow> flash \<Rightarrow> nat \<Rightarrow> (u32 \<times> rom_entry list) option" where
  "dir_at sha f slot = parse_directory sha (data_end f) (bytes_at f (slot_offset f slot) 1196)"

definition boot_slot :: "(u8 list \<Rightarrow> u8 list) \<Rightarrow> flash \<Rightarrow> (nat \<times> u32 \<times> rom_entry list) option" where
  "boot_slot sha f = pick_copy (\<lambda>g h. \<not> newer h g) (dir_at sha f)"

definition legacy_entries :: "flash \<Rightarrow> rom_entry list option" where
  "legacy_entries f =
     (let h = bytes_at f 0 8; n = legacy_count h; es = entries_of n (bytes_at f 8 (n * 72)) in
      if \<not> legacy_header_ok h then Some []
      else if entries_valid (data_end f) es then Some es else None)"

definition boot_catalog :: "(u8 list \<Rightarrow> u8 list) \<Rightarrow> flash \<Rightarrow> (nat option \<times> u32 \<times> rom_entry list) option" where
  "boot_catalog sha f =
     (case boot_slot sha f of
        Some (k, g, es) \<Rightarrow> Some (Some k, g, es)
      | None \<Rightarrow> map_option (\<lambda>es. (None, 0, es)) (legacy_entries f))"

interpretation directories: two_copies "\<lambda>g h. \<not> newer h g" "\<lambda>g. g + 1"
  by unfold_locales (simp_all add: newer_def)

text \<open>The geometry of the partition; the real one is a few megabytes.\<close>

definition flash_ok :: "flash \<Rightarrow> bool" where
  "flash_ok f \<longleftrightarrow> 16384 \<le> fl_size f \<and> fl_size f \<le> 2 ^ 31 \<and> fl_size f mod 4096 = 0"

lemma flash_sectors:
  assumes "flash_ok f"
  obtains q where "fl_size f = 4096 * (q + 2)" "data_end f = 4096 * q" "2 \<le> q" "q + 2 \<le> 524288"
proof -
  obtain p where p: "fl_size f = 4096 * p" using assms by (auto simp: flash_ok_def mod_eq_0_iff_dvd dvd_def)
  have b: "4 \<le> p" "p \<le> 524288" using assms p by (simp_all add: flash_ok_def)
  then obtain q where q: "p = q + 2" by (metis add.commute le_Suc_ex numeral_Bit0 add_leD1)
  have "data_end f = (4096 * q + 2 ^ 32) mod 2 ^ 32" by (simp add: data_end_def p q storage_sizes)
  also have "\<dots> = 4096 * q" using b(2) q by simp
  finally show thesis using that p q b by simp
qed

lemma geometry:
  assumes "flash_ok f"
  shows "8192 \<le> data_end f" "data_end f < 2 ^ 31" "data_end f mod 4096 = 0" "data_end f + 8192 = fl_size f"
    "k < 2 \<Longrightarrow> slot_offset f k = data_end f + k * 4096"
proof -
  obtain q where q: "fl_size f = 4096 * (q + 2)" "data_end f = 4096 * q" "2 \<le> q" "q + 2 \<le> 524288"
    using flash_sectors [OF assms] by blast
  show "8192 \<le> data_end f" "data_end f < 2 ^ 31" "data_end f mod 4096 = 0" "data_end f + 8192 = fl_size f"
    using q by simp_all
  show "k < 2 \<Longrightarrow> slot_offset f k = data_end f + k * 4096"
    using q by (simp add: slot_offset_def add32_def storage_sizes)
qed

lemma flash_ok_same: "same_outside off n f g \<Longrightarrow> flash_ok g = flash_ok f"
  by (simp add: flash_ok_def same_outside_def)

lemma data_end_same: "same_outside off n f g \<Longrightarrow> data_end g = data_end f" "same_outside off n f g \<Longrightarrow> slot_offset g k = slot_offset f k"
  by (simp_all add: data_end_def slot_offset_def same_outside_def)

text \<open>Writes that stay in the data area, and writes that stay in one directory sector.\<close>

lemma dir_at_same:
  assumes "same_outside off n f g" "slot_offset f k + 1196 \<le> off \<or> off + n \<le> slot_offset f k"
  shows "dir_at sha g k = dir_at sha f k"
  using data_end_same [OF assms(1)] bytes_at_same [OF assms] by (simp add: dir_at_def)

lemma legacy_same:
  assumes "same_outside off n f g" "4096 \<le> off"
  shows "legacy_entries g = legacy_entries f"
proof -
  have h: "bytes_at g 0 8 = bytes_at f 0 8" by (rule bytes_at_same [OF assms(1)]) (use assms(2) in simp)
  show ?thesis
  proof (cases "legacy_header_ok (bytes_at f 0 8)")
    case False
    then show ?thesis by (simp add: legacy_entries_def Let_def h)
  next
    case True
    define n where "n = legacy_count (bytes_at f 0 8)"
    have "n \<le> 16" using True by (simp add: legacy_header_ok_def GB_STORAGE_MAX_ROMS_def n_def)
    then have "bytes_at g 8 (n * 72) = bytes_at f 8 (n * 72)"
      by (intro bytes_at_same [OF assms(1)]) (use assms(2) in simp)
    then show ?thesis
      using True data_end_same(1) [OF assms(1)] by (simp add: legacy_entries_def Let_def h n_def)
  qed
qed

lemma boot_data_same:
  assumes "same_outside off n f g" "flash_ok f" "4096 \<le> off" "off + n \<le> data_end f"
  shows "boot_catalog sha g = boot_catalog sha f"
proof -
  have "dir_at sha g k = dir_at sha f k" if "k < 2" for k
    by (rule dir_at_same [OF assms(1)]) (use assms(4) geometry(5) [OF assms(2) that] in simp)
  then have "boot_slot sha g = boot_slot sha f" by (simp add: boot_slot_def pick_copy_def)
  then show ?thesis using legacy_same [OF assms(1,3)] by (simp add: boot_catalog_def split: option.split)
qed

section \<open>Publishing\<close>

text \<open>A sector whose erase failed half-way does not hold a directory with a matching digest.\<close>

definition junk_refused :: "(u8 list \<Rightarrow> u8 list) \<Rightarrow> flash \<Rightarrow> bool" where
  "junk_refused sha f \<longleftrightarrow>
     (\<forall>n junk. fl_junk f n = Some junk \<longrightarrow>
        (\<forall>k < 2. parse_directory sha (data_end f) (map junk [slot_offset f k..<slot_offset f k + 1196]) = None))"

lemma junk_refused_same: "same_outside off n f g \<Longrightarrow> junk_refused sha g = junk_refused sha f"
  using data_end_same [of off n f g] by (simp add: junk_refused_def same_outside_def)

lemma erase_directory:
  assumes "flash_ok f" "junk_refused sha f" "k < 2" "fl_erase (slot_offset f k) 4096 f = (r, g)"
  shows "same_outside (slot_offset f k) 4096 f g"
    and "r \<Longrightarrow> \<forall>a. slot_offset f k \<le> a \<and> a < slot_offset f k + 4096 \<longrightarrow> fl_byte g a = 0xFF"
    and "\<not> r \<Longrightarrow> dir_at sha g k = dir_at sha f k \<or> dir_at sha g k = None"
proof -
  have so: "same_outside (slot_offset f k) 4096 f g"
    using same_outside_erase [of "slot_offset f k" 4096 f] assms(4) by simp
  then show "same_outside (slot_offset f k) 4096 f g" .
  note e = assms(4) [unfolded fl_erase_def tick_def Let_def]
  show "r \<Longrightarrow> \<forall>a. slot_offset f k \<le> a \<and> a < slot_offset f k + 4096 \<longrightarrow> fl_byte g a = 0xFF"
    using e by (auto split: if_splits option.splits)
  assume "\<not> r"
  then consider "fl_byte g = fl_byte f"
    | junk where "fl_junk f (fl_calls f) = Some junk"
        "fl_byte g = (\<lambda>a. if slot_offset f k \<le> a \<and> a < slot_offset f k + 4096 then junk a else fl_byte f a)"
    using e by (auto split: if_splits option.splits)
  then show "dir_at sha g k = dir_at sha f k \<or> dir_at sha g k = None"
  proof cases
    case 1
    then show ?thesis using data_end_same [OF so] by (simp add: dir_at_def bytes_at_def)
  next
    case 2
    have "bytes_at g (slot_offset f k) 1196 = map junk [slot_offset f k..<slot_offset f k + 1196]"
      by (simp add: bytes_at_def 2(2))
    then show ?thesis
      using assms(2,3) 2(1) data_end_same [OF so] by (simp add: dir_at_def junk_refused_def)
  qed
qed

lemma write_directory:
  assumes "flash_ok f" "digest_fn sha" "k < 2"
    and "\<forall>a. slot_offset f k \<le> a \<and> a < slot_offset f k + 4096 \<longrightarrow> fl_byte f a = 0xFF"
    and "catalog_ok (data_end f) es" "\<forall>e \<in> set es. entry_fits e"
    and "fl_write (slot_offset f k) (directory_image sha (unat gen) es) f = (r, g)"
  shows "same_outside (slot_offset f k) 4096 f g"
    and "dir_at sha g k = None \<or> dir_at sha g k = Some (gen, es)"
    and "r \<Longrightarrow> dir_at sha g k = Some (gen, es)"
proof -
  let ?o = "slot_offset f k" and ?img = "directory_image sha (unat gen) es"
  have "length es \<le> 16" using assms(5) by (simp add: catalog_ok_def)
  then have body: "length (directory_body (unat gen) es) = 1164" by (rule body_length [OF assms(6)])
  then have len: "length ?img = 1196" using assms(2) by (simp add: directory_image_def digest_fn_def)
  have o: "?o + 4096 \<le> fl_size f" using geometry(4,5) [OF assms(1)] assms(3) by (cases k) simp_all
  have w: "\<exists>n \<le> 1196. bytes_at g ?o 1196 = take n ?img @ replicate (1196 - n) 0xFF \<and> (r \<longrightarrow> n = 1196)"
    using write_erased [of ?o 1196 f ?img] assms(4,7) len o by simp
  have so: "same_outside ?o 1196 f g" using same_outside_write [of ?o ?img f] len assms(7) by simp
  then show "same_outside ?o 4096 f g" by (rule same_outside_mono) simp_all
  have p: "parse_directory sha (data_end f) ?img = Some (gen, es)"
    using parse_image [OF assms(5,6), of "unat gen" sha] geometry(2) [OF assms(1)] u32_lt [of gen] by simp
  obtain n where n: "n \<le> 1196" "bytes_at g ?o 1196 = take n ?img @ replicate (1196 - n) 0xFF" "r \<longrightarrow> n = 1196"
    using w by blast
  have d: "dir_at sha g k = parse_directory sha (data_end f) (take n ?img @ replicate (1196 - n) 0xFF)"
    using n(2) data_end_same [OF so] by (simp add: dir_at_def)
  show "r \<Longrightarrow> dir_at sha g k = Some (gen, es)" using d n(3) p len by simp
  show "dir_at sha g k = None \<or> dir_at sha g k = Some (gen, es)"
  proof (cases "dir_at sha g k")
    case (Some x)
    then have "parse_directory sha (data_end f) (take n ?img @ replicate (1196 - n) 0xFF) \<noteq> None" using d by simp
    from torn_image [OF assms(2) body n(1) directory_image_def this]
    have "take n ?img @ replicate (1196 - n) 0xFF = ?img" .
    then show ?thesis using d p by simp
  qed simp
qed

lemma on_flash_eq: "on_flash op s = (fst (op (st_flash s)), s\<lparr>st_flash := snd (op (st_flash s))\<rparr>)"
  by (simp add: on_flash_def split_beta)

lemma same_outside_read_tick: "same_outside off n f (snd (tick (snd (fl_read o' m f))))"
  by (rule same_outside_trans [OF same_outside_read same_outside_tick])

definition same_catalog :: "storage \<Rightarrow> storage \<Rightarrow> bool" where
  "same_catalog s t \<longleftrightarrow> st_entries t = st_entries s \<and> st_generation t = st_generation s \<and> st_slot t = st_slot s \<and>
     st_partition t = st_partition s"

lemma read_directory_spec:
  assumes "read_directory sha k s = (r, t)"
  shows "same_outside off n (st_flash s) (st_flash t)" "fl_byte (st_flash t) = fl_byte (st_flash s)"
    and "same_catalog s t" "st_reload t = st_reload s"
proof -
  let ?f = "st_flash s" and ?o = "slot_offset (st_flash s) k"
  note d = assms [unfolded read_directory_def on_flash_eq Let_def, simplified]
  have "st_flash t = snd (fl_read ?o 1196 ?f) \<or> st_flash t = snd (tick (snd (fl_read ?o 1196 ?f)))"
    using d by (auto split: option.splits if_splits)
  then show "same_outside off n ?f (st_flash t)" "fl_byte (st_flash t) = fl_byte ?f"
    using same_outside_read same_outside_read_tick by (auto simp: read_keeps)
  show "same_catalog s t" "st_reload t = st_reload s"
    using d by (auto simp: same_catalog_def split: option.splits if_splits)
qed

definition target_slot :: "storage \<Rightarrow> nat" where
  "target_slot s = (if st_slot s = Some 0 then 1 else 0)"

text \<open>Every way \<open>publish_directory\<close> can end.\<close>

lemma publish_cases:
  assumes "publish_directory sha es s = (r, t)"
  obtains (early) "\<not> r" "same_outside 0 0 (st_flash s) (st_flash t)" "same_catalog s t" "st_reload t = st_reload s"
  | (unerased) f g where "\<not> r" "same_outside 0 0 (st_flash s) f"
      "fl_erase (slot_offset (st_flash s) (target_slot s)) 4096 f = (False, g)"
      "same_catalog s t" "st_reload t = st_reload s" "st_flash t = g"
  | (programmed) f g h b where "same_outside 0 0 (st_flash s) f"
      "fl_erase (slot_offset (st_flash s) (target_slot s)) 4096 f = (True, g)"
      "fl_write (slot_offset (st_flash s) (target_slot s)) (directory_image sha (unat (st_generation s + 1)) es) g = (b, h)"
      "fl_byte (st_flash t) = fl_byte h" "same_outside 0 0 h (st_flash t)" "r \<Longrightarrow> b"
      "\<not> r \<Longrightarrow> same_catalog s t \<and> st_reload t"
      "r \<Longrightarrow> st_entries t = es \<and> st_generation t = st_generation s + 1 \<and> st_slot t = Some (target_slot s) \<and>
         st_partition t = st_partition s \<and> \<not> st_reload t \<and> st_trusted t"
proof -
  let ?o = "slot_offset (st_flash s) (target_slot s)"
  let ?img = "directory_image sha (unat (st_generation s + 1)) es"
  define f1 where "f1 = snd (tick (st_flash s))"
  define f2 where "f2 = snd (tick f1)"
  have s1: "same_outside 0 0 (st_flash s) f1" by (simp add: f1_def)
  have s2: "same_outside 0 0 (st_flash s) f2"
    unfolding f2_def by (rule same_outside_trans [OF s1 same_outside_tick])
  have o2: "slot_offset f2 k = slot_offset (st_flash s) k" for k using data_end_same(2) [OF s2] .
  note p = assms [unfolded publish_directory_def on_flash_eq, simplified Let_def prod.case fst_conv snd_conv,
      folded f1_def]
  show thesis
  proof (cases "fst (tick (st_flash s)) \<and> fst (tick f1)")
    case False
    then have "\<not> r \<and> (t = s\<lparr>st_flash := f1\<rparr> \<or> t = s\<lparr>st_flash := f2\<rparr>)"
      using p by (auto simp: f2_def split: if_splits)
    then show thesis using early s1 s2 by (auto simp: same_catalog_def)
  next
    case True
    obtain er g where e: "fl_erase ?o 4096 f2 = (er, g)" by (cases "fl_erase ?o 4096 f2")
    obtain b h where w: "fl_write ?o ?img g = (b, h)" by (cases "fl_write ?o ?img g")
    have o: "slot_offset f2 (if st_slot s = Some 0 then 1 else 0) = ?o" by (simp add: o2 target_slot_def)
    show thesis
    proof (cases er)
      case False
      then have "\<not> r \<and> t = s\<lparr>st_flash := g\<rparr>"
        using p True e o by (simp add: f2_def [symmetric] target_slot_def SECTOR_BYTES_def)
      with e False s2 unerased show thesis by (auto simp: same_catalog_def)
    next
      case er: True
      let ?s = "s\<lparr>st_reload := True, st_trusted := False, st_flash := h\<rparr>"
      show thesis
      proof (cases b)
        case False
        then have "\<not> r \<and> t = ?s"
          using p True e er w o by (simp add: f2_def [symmetric] target_slot_def SECTOR_BYTES_def)
        with e er w s2 same_outside_refl show thesis by (intro programmed) (auto simp: same_catalog_def)
      next
        case b: True
        obtain v u where rd: "read_directory sha (target_slot s) ?s = (v, u)"
          by (cases "read_directory sha (target_slot s) ?s")
        have q: "(r, t) = (case v of None \<Rightarrow> (False, u) | Some vv \<Rightarrow>
            if vv \<noteq> ?img then (False, u)
            else (True, u\<lparr>st_entries := es, st_generation := st_generation s + 1, st_slot := Some (target_slot s),
                         st_trusted := True, st_reload := False\<rparr>))"
          using p True e er w o b rd
          by (simp add: f2_def [symmetric] target_slot_def SECTOR_BYTES_def split: option.splits if_splits)
        note spec = read_directory_spec [OF rd]
        show thesis
          using spec(1) [of 0 0] spec(2-4) q e er w s2 b
          by (intro programmed [of f2 g b h]) (auto simp: same_catalog_def split: option.splits if_splits)
      qed
    qed
  qed
qed

lemma boot_change:
  assumes "boot_catalog sha f = Some (sl, g, es)" "flash_ok f" "k = (if sl = Some 0 then 1 else 0)"
    and so: "same_outside (slot_offset f k) 4096 f f'"
  shows "dir_at sha f' k = dir_at sha f k \<or> dir_at sha f' k = None \<Longrightarrow> boot_catalog sha f' = boot_catalog sha f"
    and "dir_at sha f' k = Some (g + 1, es') \<Longrightarrow> boot_catalog sha f' = Some (Some k, g + 1, es')"
proof -
  have k: "k < 2" using assms(3) by simp
  have o: "slot_offset f j = data_end f + j * 4096" if "j < 2" for j using geometry(5) [OF assms(2) that] .
  have other: "dir_at sha f' (1 - k) = dir_at sha f (1 - k)"
    by (rule dir_at_same [OF so]) (use k o [of k] o [of "1 - k"] in \<open>auto simp: less_2_cases_iff\<close>)
  have legacy: "legacy_entries f' = legacy_entries f"
    by (rule legacy_same [OF so]) (use o [OF k] geometry(1) [OF assms(2)] in simp)
  let ?pick = "pick_copy (\<lambda>g h. \<not> newer h g)"
  show "dir_at sha f' k = dir_at sha f k \<or> dir_at sha f' k = None \<Longrightarrow> boot_catalog sha f' = boot_catalog sha f"
    and "dir_at sha f' k = Some (g + 1, es') \<Longrightarrow> boot_catalog sha f' = Some (Some k, g + 1, es')"
  proof (atomize (full), cases "boot_slot sha f")
    case None
    then have p: "?pick (dir_at sha f) = None" by (simp add: boot_slot_def)
    then have d: "dir_at sha f k = None" using less_2_cases [OF k] by (auto simp: pick_copy_None)
    have sl: "sl = None" "g = 0" using assms(1) None by (auto simp: boot_catalog_def)
    have q: "boot_slot sha f' = map_option (Pair k) (dir_at sha f' k)"
      unfolding boot_slot_def by (rule first_copy [where c' = "dir_at sha f'", OF p k other])
    show "(dir_at sha f' k = dir_at sha f k \<or> dir_at sha f' k = None \<longrightarrow> boot_catalog sha f' = boot_catalog sha f) \<and>
      (dir_at sha f' k = Some (g + 1, es') \<longrightarrow> boot_catalog sha f' = Some (Some k, g + 1, es'))"
      using None d sl q legacy by (auto simp: boot_catalog_def)
  next
    case (Some x)
    then obtain j where sl: "sl = Some j" "?pick (dir_at sha f) = Some (j, g, es)"
      using assms(1) by (cases x) (auto simp: boot_catalog_def boot_slot_def)
    have j: "j < 2" using pick_copy_slot [OF sl(2)] by simp
    then have jk: "k = 1 - j" "1 - k = j" using sl(1) assms(3) by (auto simp: less_2_cases_iff)
    have eq: "dir_at sha f' j = dir_at sha f j" using other jk(2) by simp
    show "(dir_at sha f' k = dir_at sha f k \<or> dir_at sha f' k = None \<longrightarrow> boot_catalog sha f' = boot_catalog sha f) \<and>
      (dir_at sha f' k = Some (g + 1, es') \<longrightarrow> boot_catalog sha f' = Some (Some k, g + 1, es'))"
      using directories.kept [where c' = "dir_at sha f'", OF sl(2) eq]
        directories.committed [where c' = "dir_at sha f'", OF sl(2) eq, of es'] Some sl jk(1)
      by (auto simp: boot_catalog_def boot_slot_def)
  qed
qed

section \<open>The invariant\<close>

text \<open>Between operations the catalog in memory is the one a restart would find, unless the code has
  marked itself as needing a restart.\<close>

definition storage_ok :: "(u8 list \<Rightarrow> u8 list) \<Rightarrow> storage \<Rightarrow> bool" where
  "storage_ok sha s \<longleftrightarrow>
     flash_ok (st_flash s) \<and> junk_refused sha (st_flash s) \<and> catalog_ok (data_end (st_flash s)) (st_entries s) \<and>
     (\<forall>e \<in> set (st_entries s). entry_fits e) \<and>
     (st_reload s \<or> boot_catalog sha (st_flash s) = Some (st_slot s, st_generation s, st_entries s))"

lemma dir_at_calls: "same_outside 0 0 f g \<Longrightarrow> dir_at sha g k = dir_at sha f k"
  by (erule dir_at_same) simp

lemma same_outside_calls: "same_outside 0 0 f g \<Longrightarrow> same_outside off n f g"
  by (simp add: same_outside_def)

lemma publish_effect:
  assumes "digest_fn sha" "flash_ok (st_flash s)" "junk_refused sha (st_flash s)"
    and "catalog_ok (data_end (st_flash s)) es" "\<forall>e \<in> set es. entry_fits e"
    and "publish_directory sha es s = (r, t)"
  shows "same_outside (slot_offset (st_flash s) (target_slot s)) 4096 (st_flash s) (st_flash t)"
    and "r \<Longrightarrow> st_entries t = es \<and> st_generation t = st_generation s + 1 \<and> st_slot t = Some (target_slot s) \<and>
         st_partition t = st_partition s \<and> \<not> st_reload t \<and> st_trusted t \<and>
         dir_at sha (st_flash t) (target_slot s) = Some (st_generation s + 1, es)"
    and "\<not> r \<Longrightarrow> same_catalog s t \<and>
         (dir_at sha (st_flash t) (target_slot s) = dir_at sha (st_flash s) (target_slot s) \<or>
          dir_at sha (st_flash t) (target_slot s) = None \<or>
          st_reload t \<and> dir_at sha (st_flash t) (target_slot s) = Some (st_generation s + 1, es))"
proof -
  let ?f = "st_flash s" and ?k = "target_slot s"
  let ?o = "slot_offset ?f ?k"
  have k: "?k < 2" by (simp add: target_slot_def)
  let ?d = "dir_at sha (st_flash t) ?k"
  have "same_outside ?o 4096 ?f (st_flash t) \<and>
    (r \<longrightarrow> st_entries t = es \<and> st_generation t = st_generation s + 1 \<and> st_slot t = Some ?k \<and>
       st_partition t = st_partition s \<and> \<not> st_reload t \<and> st_trusted t \<and> ?d = Some (st_generation s + 1, es)) \<and>
    (\<not> r \<longrightarrow> same_catalog s t \<and>
       (?d = dir_at sha ?f ?k \<or> ?d = None \<or> st_reload t \<and> ?d = Some (st_generation s + 1, es)))"
    using assms(6)
  proof (cases rule: publish_cases)
    case early
    then show ?thesis
      using same_outside_calls dir_at_calls by auto
  next
    case (unerased f g)
    have o: "slot_offset f ?k = ?o" using data_end_same(2) [OF unerased(2)] .
    note e = erase_directory [of f sha ?k False g]
    have fok: "flash_ok f" "junk_refused sha f"
      using assms(2,3) flash_ok_same [OF unerased(2)] junk_refused_same [OF unerased(2)] by simp_all
    show ?thesis
      using e [OF fok k] o unerased same_outside_calls [OF unerased(2)] dir_at_calls [OF unerased(2)]
      by (auto dest: same_outside_trans)
  next
    case (programmed f g h b)
    have fok: "flash_ok f" "junk_refused sha f"
      using assms(2,3) flash_ok_same [OF programmed(1)] junk_refused_same [OF programmed(1)] by simp_all
    have o: "slot_offset f ?k = ?o" using data_end_same(2) [OF programmed(1)] .
    note e = erase_directory [OF fok k, of True g, unfolded o, OF programmed(2)]
    have gk: "flash_ok g" "data_end g = data_end ?f" "slot_offset g ?k = ?o"
      using flash_ok_same [OF e(1)] fok(1) data_end_same [OF e(1)] data_end_same [OF programmed(1)] by simp_all
    note w = write_directory [OF gk(1) assms(1) k, unfolded gk, OF e(2) [OF TrueI] assms(4,5) programmed(3)]
    have so: "same_outside ?o 4096 ?f (st_flash t)"
      using same_outside_trans [OF same_outside_trans [OF same_outside_calls [OF programmed(1)] e(1)]
          same_outside_trans [OF w(1) same_outside_calls [OF programmed(5)]]] .
    show ?thesis
      using so w(2,3) dir_at_calls [OF programmed(5)] programmed(6-8) by auto
  qed
  then show "same_outside ?o 4096 ?f (st_flash t)"
    and "r \<Longrightarrow> st_entries t = es \<and> st_generation t = st_generation s + 1 \<and> st_slot t = Some ?k \<and>
       st_partition t = st_partition s \<and> \<not> st_reload t \<and> st_trusted t \<and> ?d = Some (st_generation s + 1, es)"
    and "\<not> r \<Longrightarrow> same_catalog s t \<and>
       (?d = dir_at sha ?f ?k \<or> ?d = None \<or> st_reload t \<and> ?d = Some (st_generation s + 1, es))"
    by simp_all
qed

lemma publish_safe:
  assumes "digest_fn sha" "storage_ok sha s" "\<not> st_reload s" "publish_directory sha es s = (r, t)"
    and "catalog_ok (data_end (st_flash s)) es" "\<forall>e \<in> set es. entry_fits e"
  shows "storage_ok sha t"
    and "\<exists>k g. boot_catalog sha (st_flash t) = Some (k, g, if r then es else st_entries s) \<or>
               boot_catalog sha (st_flash t) = Some (k, g, es)"
    and "r \<Longrightarrow> st_entries t = es \<and> \<not> st_reload t" "\<not> r \<Longrightarrow> same_catalog s t"
    and "same_outside (data_end (st_flash s)) 8192 (st_flash s) (st_flash t)" "st_partition t = st_partition s"
proof -
  let ?f = "st_flash s" and ?k = "target_slot s"
  have ok: "flash_ok ?f" "junk_refused sha ?f" "catalog_ok (data_end ?f) (st_entries s)" "\<forall>e \<in> set (st_entries s). entry_fits e"
    and boot: "boot_catalog sha ?f = Some (st_slot s, st_generation s, st_entries s)"
    using assms(2,3) by (auto simp: storage_ok_def)
  have k: "?k < 2" and kd: "?k = (if st_slot s = Some 0 then 1 else 0)" by (simp_all add: target_slot_def)
  note eff = publish_effect [OF assms(1) ok(1,2) assms(5,6,4)]
  note bc = boot_change [OF boot ok(1) kd eff(1)]
  have base: "flash_ok (st_flash t)" "junk_refused sha (st_flash t)" "data_end (st_flash t) = data_end ?f"
    using flash_ok_same [OF eff(1)] junk_refused_same [OF eff(1)] data_end_same(1) [OF eff(1)] ok(1,2) by simp_all
  show "same_outside (data_end ?f) 8192 ?f (st_flash t)"
    by (rule same_outside_mono [OF eff(1)]) (use geometry(5) [OF ok(1) k] k in auto)
  show "r \<Longrightarrow> st_entries t = es \<and> \<not> st_reload t" "\<not> r \<Longrightarrow> same_catalog s t" using eff(2,3) by auto
  show "st_partition t = st_partition s" using eff(2,3) by (cases r) (auto simp: same_catalog_def)
  have b: "boot_catalog sha (st_flash t) = Some (st_slot s, st_generation s, st_entries s) \<and> \<not> r \<or>
      boot_catalog sha (st_flash t) = Some (Some ?k, st_generation s + 1, es) \<and> (r \<or> st_reload t)"
    using bc(1) bc(2) [of es] boot eff(2,3) by (cases r) auto
  then show "\<exists>k g. boot_catalog sha (st_flash t) = Some (k, g, if r then es else st_entries s) \<or>
      boot_catalog sha (st_flash t) = Some (k, g, es)" by auto
  show "storage_ok sha t"
    using b base ok(3,4) assms(5,6) eff(2,3) by (cases r) (auto simp: storage_ok_def same_catalog_def)
qed

end
