(* ===== verification/Gb_Storage_Ops.thy ===== *)
theory Gb_Storage_Ops
  imports Gb_Storage_Safe
begin

text \<open>
  The operations on the ROM catalog: space is found when the code says there is space, and every
  operation, however it ends, leaves the stored ROMs alone and the catalog old or new.
\<close>

declare gap_from.simps [simp del] best_region.simps [simp del] upload_loop.simps [simp del] open_loop.simps [simp del]

section \<open>Free space\<close>

definition clear_of :: "nat \<Rightarrow> nat \<Rightarrow> rom_entry \<Rightarrow> bool" where
  "clear_of p n e \<longleftrightarrow> p + n \<le> re_offset e \<or> re_offset e + re_bytes e \<le> p"

lemma sane_stop: "entry_sane lim e \<Longrightarrow> lim < 2 ^ 31 \<Longrightarrow> add32 (re_offset e) (re_bytes e) = re_offset e + re_bytes e"
  using entry_sane_end [of lim e] by (simp add: add32_def)

lemma overlap_scan_spec:
  assumes "overlap_scan c n es (occ, nx) = (occ', nx')" "\<forall>e \<in> set es. entry_sane lim e" "lim < 2 ^ 31" "c + n < 2 ^ 32"
  shows "(occ' \<longleftrightarrow> occ \<or> (\<exists>e \<in> set es. \<not> clear_of c n e)) \<and>
    (nx' = nx \<or> (\<exists>e \<in> set es. \<not> clear_of c n e \<and> nx' = re_offset e + re_bytes e))"
  using assms(1,2)
proof (induction es arbitrary: occ nx)
  case (Cons e es)
  let ?stop = "re_offset e + re_bytes e"
  have stop: "add32 (re_offset e) (re_bytes e) = ?stop" using sane_stop [of lim e] Cons.prems(2) assms(3) by simp
  have cn: "add32 c n = c + n" using assms(4) by (simp add: add32_def)
  have s: "\<forall>e \<in> set es. entry_sane lim e" using Cons.prems(2) by simp
  show ?case
  proof (cases "clear_of c n e")
    case True
    then have "overlap_scan c n es (occ, nx) = (occ', nx')"
      using Cons.prems(1) by (auto simp: clear_of_def stop cn Let_def split: if_splits)
    from Cons.IH [OF this s] True show ?thesis by auto
  next
    case False
    then have "overlap_scan c n es (True, if nx < ?stop then ?stop else nx) = (occ', nx')"
      using Cons.prems(1) by (auto simp: clear_of_def stop cn Let_def)
    from Cons.IH [OF this s] False show ?thesis by (auto split: if_splits)
  qed
qed auto

lemma aligned_sum: "a mod 4096 = 0 \<Longrightarrow> b mod 16384 = 0 \<Longrightarrow> (a + b) mod 4096 = (0 :: nat)"
  using mod_mod_cancel [of 4096 16384 b] by (simp add: mod_add_eq [symmetric, of a b])

text \<open>The first gap: what is found is free, and something is found if any place is.\<close>

lemma gap_from_spec:
  assumes "\<forall>e \<in> set es. entry_sane lim e" "lim < 2 ^ 31" "n \<le> lim" "c \<le> lim" "0 < c" "c mod 4096 = 0"
  shows "gap_from lim n es c \<noteq> 0 \<Longrightarrow>
      c \<le> gap_from lim n es c \<and> gap_from lim n es c mod 4096 = 0 \<and> gap_from lim n es c + n \<le> lim \<and>
      (\<forall>e \<in> set es. clear_of (gap_from lim n es c) n e)"
    and "c \<le> p \<Longrightarrow> p + n \<le> lim \<Longrightarrow> \<forall>e \<in> set es. clear_of p n e \<Longrightarrow> gap_from lim n es c \<noteq> 0"
  using assms
proof (atomize (full), induction lim n es c rule: gap_from.induct)
  case (1 lim n es c)
  note ih = "1.IH" and a = "1.prems"
  have cn: "add32 c n = c + n" and lt: "c + n < 2 ^ 32" using a(2-4) by (simp_all add: add32_def)
  obtain occ nx where sc: "overlap_scan c n es (False, c) = (occ, nx)" by (cases "overlap_scan c n es (False, c)")
  note sp = overlap_scan_spec [OF sc a(1,2) lt]
  have nx: "c \<le> nx" "occ \<Longrightarrow> c < nx" using overlap_scan_next [OF sc] by auto
  have g: "gap_from lim n es c = (if lim < c + n then 0 else if \<not> occ then c else gap_from lim n es nx)"
    by (subst gap_from.simps) (simp add: cn sc)
  show "(gap_from lim n es c \<noteq> 0 \<longrightarrow>
      c \<le> gap_from lim n es c \<and> gap_from lim n es c mod 4096 = 0 \<and> gap_from lim n es c + n \<le> lim \<and>
      (\<forall>e \<in> set es. clear_of (gap_from lim n es c) n e)) \<and>
    (c \<le> p \<longrightarrow> p + n \<le> lim \<longrightarrow> (\<forall>e \<in> set es. clear_of p n e) \<longrightarrow> gap_from lim n es c \<noteq> 0)"
  proof (cases "lim < c + n \<or> \<not> occ")
    case True
    then show ?thesis using g sp a by auto
  next
    case False
    then obtain e where e: "e \<in> set es" "\<not> clear_of c n e" "nx = re_offset e + re_bytes e"
      using sp nx by auto
    have es: "entry_sane lim e" using a(1) e(1) by blast
    have "re_offset e mod 4096 = 0" "re_bytes e mod 16384 = 0"
      using es by (simp_all add: entry_sane_def SECTOR_BYTES_def)
    then have m: "nx mod 4096 = 0" unfolding e(3) by (rule aligned_sum)
    have ne: "nx \<le> lim" using entry_sane_end [OF es] e(3) by simp
    have free: "nx \<le> p" if "c \<le> p" "clear_of p n e" using that e(2,3) by (auto simp: clear_of_def)
    have r: "gap_from lim n es c = gap_from lim n es nx" using g False by simp
    have "(gap_from lim n es nx \<noteq> 0 \<longrightarrow>
        nx \<le> gap_from lim n es nx \<and> gap_from lim n es nx mod 4096 = 0 \<and> gap_from lim n es nx + n \<le> lim \<and>
        (\<forall>e \<in> set es. clear_of (gap_from lim n es nx) n e)) \<and>
      (nx \<le> p \<longrightarrow> p + n \<le> lim \<longrightarrow> (\<forall>e \<in> set es. clear_of p n e) \<longrightarrow> gap_from lim n es nx \<noteq> 0)"
      using ih [of "(occ, nx)" occ nx] False a m ne nx sc by (simp add: cn)
    then show ?thesis using free e(1) nx(1) unfolding r by auto
  qed
qed

lemma region_scan_spec:
  assumes "\<forall>e \<in> set es. entry_sane lim e" "lim < 2 ^ 31"
  shows "region_scan p es to = Inr n \<Longrightarrow>
      n \<le> to \<and> (\<forall>e \<in> set es. re_offset e + re_bytes e \<le> p \<or> p < re_offset e \<and> n \<le> re_offset e)"
    and "region_scan p es to = Inl n \<Longrightarrow> n \<le> lim"
proof -
  have "(\<forall>n. region_scan p es to = Inr n \<longrightarrow>
      n \<le> to \<and> (\<forall>e \<in> set es. re_offset e + re_bytes e \<le> p \<or> p < re_offset e \<and> n \<le> re_offset e)) \<and>
    (\<forall>n. region_scan p es to = Inl n \<longrightarrow> n \<le> lim)"
    using assms(1)
  proof (induction es arbitrary: to)
    case (Cons e es)
    have e: "add32 (re_offset e) (re_bytes e) = re_offset e + re_bytes e" "re_offset e + re_bytes e \<le> lim"
      using sane_stop [of lim e] entry_sane_end [of lim e] Cons.prems assms(2) by simp_all
    have "\<forall>e \<in> set es. entry_sane lim e" using Cons.prems by simp
    note ih = Cons.IH [OF this, of to] Cons.IH [OF this, of "re_offset e"]
    show ?case using ih e by (auto simp: not_less)
  qed simp
  then show "region_scan p es to = Inr n \<Longrightarrow>
      n \<le> to \<and> (\<forall>e \<in> set es. re_offset e + re_bytes e \<le> p \<or> p < re_offset e \<and> n \<le> re_offset e)"
    and "region_scan p es to = Inl n \<Longrightarrow> n \<le> lim" by auto
qed

lemma best_region_spec:
  assumes "\<forall>e \<in> set es. entry_sane lim e" "lim < 2 ^ 31"
  shows "best_region lim es p best = best \<or>
    (\<exists>q. p \<le> q \<and> q + best_region lim es p best \<le> lim \<and> (\<forall>e \<in> set es. clear_of q (best_region lim es p best) e))"
  using assms
proof (induction lim es p best rule: best_region.induct)
  case (1 lim es p best)
  show ?case
  proof (cases "lim \<le> p")
    case True
    then show ?thesis by (simp add: best_region.simps)
  next
    case False
    show ?thesis
    proof (cases "region_scan p es lim")
      case (Inl n)
      then have r: "best_region lim es p best = best_region lim es n best"
        using False by (simp add: best_region.simps [of lim es p])
      have "p < n" using region_scan_inside [OF Inl] by simp
      then show ?thesis using "1.IH"(1) [OF False Inl "1.prems"] unfolding r by (meson less_imp_le le_trans)
    next
      case (Inr to)
      define b where "b = (if best < to - p then to - p else best)"
      have r: "best_region lim es p best = best_region lim es to b"
        using False Inr by (simp add: best_region.simps [of lim es p] b_def)
      note free = region_scan_spec(1) [OF "1.prems" Inr]
      have pt: "p < to" "to \<le> lim" using region_scan_free [OF Inr] False by auto
      have "b = best \<or> (\<forall>e \<in> set es. clear_of p b e) \<and> p + b \<le> lim"
        using free pt by (auto simp: b_def clear_of_def)
      then show ?thesis
        using "1.IH"(2) [OF False Inr "1.prems"] pt unfolding r b_def [symmetric] by (metis less_imp_le le_trans order_refl)
    qed
  qed
qed

text \<open>What the upload page shows as available can be placed.\<close>

lemma available_placed:
  assumes "flash_ok (st_flash s)" "catalog_ok (data_end (st_flash s)) (st_entries s)"
    and "0 < n" "n \<le> gb_storage_available s"
  shows "find_gap n s \<noteq> 0"
proof -
  let ?lim = "data_end (st_flash s)" and ?es = "st_entries s"
  let ?best = "best_region ?lim ?es 4096 0"
  have g: "8192 \<le> ?lim" "?lim < 2 ^ 31" using geometry [OF assms(1)] by auto
  have sane: "\<forall>e \<in> set ?es. entry_sane ?lim e" using assms(2) by (simp add: catalog_ok_def)
  have dm: "x div 16384 * 16384 \<le> x" for x :: nat by simp
  have "n \<le> ?best"
    using assms(3,4) dm [of "min ?best (gb_storage_limit s - gb_storage_used s)"]
    by (simp add: gb_storage_available_def Let_def storage_sizes min_def split: if_splits)
  moreover obtain q where q: "4096 \<le> q" "q + ?best \<le> ?lim" "\<forall>e \<in> set ?es. clear_of q ?best e"
    using best_region_spec [OF sane g(2), of 4096 0] calculation assms(3) by auto
  ultimately have fit: "q + n \<le> ?lim" "\<forall>e \<in> set ?es. clear_of q n e" by (auto simp: clear_of_def)
  then have "n \<le> ?lim" by simp
  from gap_from_spec(2) [OF sane g(2) this, of 4096 q] q(1) fit g
  show ?thesis by (simp add: find_gap_def SECTOR_BYTES_def)
qed

lemma available_bound:
  assumes "flash_ok (st_flash s)" "0 < n" "n \<le> gb_storage_available s"
  shows "n \<le> gb_storage_limit s" "n \<le> data_end (st_flash s)"
proof -
  let ?q = "gb_storage_limit s - gb_storage_used s"
  let ?b = "best_region (data_end (st_flash s)) (st_entries s) SECTOR_BYTES 0"
  have dm: "x div 16384 * 16384 \<le> x" for x :: nat by simp
  have "gb_storage_available s \<le> min ?b ?q div 16384 * 16384"
    by (simp add: gb_storage_available_def Let_def ROM_BANK_BYTES_def min_def)
  then have "n \<le> min ?b ?q" using assms(3) dm [of "min ?b ?q"] by linarith
  then have "n \<le> ?q" by simp
  then show l: "n \<le> gb_storage_limit s" by linarith
  have "gb_storage_limit s \<le> fl_size (st_flash s) - 12288"
    using dm [of "fl_size (st_flash s) - 12288"] by (simp add: gb_storage_limit_def Let_def storage_sizes)
  then show "n \<le> data_end (st_flash s)" using l geometry(4) [OF assms(1)] by simp
qed

lemma find_gap_spec:
  assumes "flash_ok (st_flash s)" "catalog_ok (data_end (st_flash s)) (st_entries s)"
    and "n \<le> data_end (st_flash s)" "find_gap n s \<noteq> 0"
  shows "4096 \<le> find_gap n s \<and> find_gap n s mod 4096 = 0 \<and> find_gap n s + n \<le> data_end (st_flash s) \<and>
    (\<forall>e \<in> set (st_entries s). clear_of (find_gap n s) n e)"
proof -
  let ?lim = "data_end (st_flash s)"
  have g: "8192 \<le> ?lim" "?lim < 2 ^ 31" using geometry [OF assms(1)] by auto
  have sane: "\<forall>e \<in> set (st_entries s). entry_sane ?lim e" using assms(2) by (simp add: catalog_ok_def)
  show ?thesis
    using gap_from_spec(1) [OF sane g(2) assms(3), of 4096] g assms(4) by (simp add: find_gap_def SECTOR_BYTES_def)
qed

section \<open>Names\<close>

lemma cstr_field: "cstr (cstr n @ replicate k 0) = cstr n"
proof -
  have "\<forall>b \<in> set (cstr n). b \<noteq> 0" by (auto simp: cstr_def dest: set_takeWhileD)
  then have "cstr (cstr n @ z) = cstr n @ cstr z" for z unfolding cstr_def by (simp add: takeWhile_append2)
  moreover have "cstr (replicate k 0) = []" by (cases k) (simp_all add: cstr_def)
  ultimately show ?thesis by simp
qed

lemma name_field_facts:
  "cstr (name_field n) = cstr n" "gb_name_valid (name_field n) = gb_name_valid n"
  "gb_name_valid n \<Longrightarrow> length (name_field n) = 32"
proof -
  show c: "cstr (name_field n) = cstr n" by (simp add: name_field_def cstr_field)
  then show "gb_name_valid (name_field n) = gb_name_valid n" by (simp add: name_valid_iff)
  show "gb_name_valid n \<Longrightarrow> length (name_field n) = 32" by (simp add: name_field_def name_valid_iff)
qed

lemma valid_name_iff:
  "valid_name n x s \<longleftrightarrow> gb_name_valid n \<and>
     (\<forall>i < length (st_entries s). Some i \<noteq> x \<longrightarrow> cstr n \<noteq> cstr (re_name (st_entries s ! i)))"
  by (auto simp: valid_name_def list_all_iff)

lemma catalog_rename:
  assumes "catalog_ok lim es" "i < length es" "gb_name_valid n"
    and "\<forall>j < length es. j \<noteq> i \<longrightarrow> cstr n \<noteq> cstr (re_name (es ! j))"
  shows "catalog_ok lim (es[i := (es ! i)\<lparr>re_name := name_field n\<rparr>])"
proof -
  let ?e = "(es ! i)\<lparr>re_name := name_field n\<rparr>"
  have sane: "entry_sane lim ?e"
    using assms(1-3) by (auto simp: catalog_ok_def entry_sane_def name_field_facts)
  have "sorted_wrt apart (es[i := ?e])"
    unfolding sorted_wrt_iff_nth_less
  proof (intro allI impI)
    fix a b assume ab: "a < b" "b < length (es[i := ?e])"
    have old: "apart (es ! a) (es ! b)" using catalog_pairs [OF assms(1)] ab by simp
    show "apart (es[i := ?e] ! a) (es[i := ?e] ! b)"
      using old ab assms(2) assms(4) [rule_format, of a] assms(4) [rule_format, of b]
      by (auto simp: nth_list_update apart_def name_field_facts)
  qed
  then show ?thesis using assms(1,2) sane by (auto simp: catalog_ok_def dest!: set_update_subset_insert [THEN subsetD])
qed

section \<open>Receiving a ROM\<close>

lemma bytes_at_append: "bytes_at f o' (n + m) = bytes_at f o' n @ bytes_at f (o' + n) m"
proof -
  have "[o'..<o' + (n + m)] = [o'..<o' + n] @ [o' + n..<o' + n + m]"
    using upt_add_eq_append [of o' "o' + n" m] by (simp add: add.assoc)
  then show ?thesis by (simp add: bytes_at_def)
qed

text \<open>One chunk, programmed into erased flash.\<close>

lemma chunk_stored:
  assumes "\<forall>a. p \<le> a \<and> a < q \<longrightarrow> fl_byte f a = 0xFF" "p + length chunk \<le> q" "q \<le> fl_size f"
    and "fl_write p chunk f = (True, g)"
  shows "same_outside p (length chunk) f g" "bytes_at g p (length chunk) = chunk"
    and "\<forall>a. p + length chunk \<le> a \<and> a < q \<longrightarrow> fl_byte g a = 0xFF"
proof -
  show so: "same_outside p (length chunk) f g" using same_outside_write [of p chunk f] assms(4) by simp
  show "bytes_at g p (length chunk) = chunk"
    using write_erased [of p "length chunk" f chunk] assms by auto
  show "\<forall>a. p + length chunk \<le> a \<and> a < q \<longrightarrow> fl_byte g a = 0xFF"
    using so assms(1) by (auto simp: same_outside_def)
qed

text \<open>The header holds the first 0x150 bytes received so far.\<close>

definition header_of :: "u8 list \<Rightarrow> u8 list \<Rightarrow> bool" where
  "header_of hashed header \<longleftrightarrow> (\<exists>z. 0x150 \<le> length hashed + length z \<and> header = take 0x150 (hashed @ z))"

lemma header_of_copy:
  assumes "header_of hashed header"
  shows "header_of (hashed @ chunk) (header_copy (length hashed) chunk header)"
proof -
  obtain z where z: "0x150 \<le> length hashed + length z" "header = take 0x150 (hashed @ z)"
    using assms by (auto simp: header_of_def)
  have "header_copy (length hashed) chunk header = take 0x150 ((hashed @ chunk) @ drop (length chunk) z)"
    by (simp add: header_copy_def z(2) min_def drop_take)
  moreover have "0x150 \<le> length (hashed @ chunk) + length (drop (length chunk) z)" using z(1) by simp
  ultimately show ?thesis unfolding header_of_def by blast
qed

lemma header_of_full: "header_of hashed header \<Longrightarrow> 0x150 \<le> length hashed \<Longrightarrow> header = take 0x150 hashed"
  by (auto simp: header_of_def)

text \<open>The loop: what is stored is what was hashed, and only the ROM's own range changes.\<close>

lemma upload_loop_spec:
  assumes "upload_loop reader off bytes u s = (ok, v, t)"
    and "off + bytes \<le> fl_size (st_flash s)" "fl_size (st_flash s) \<le> 2 ^ 31" "up_written u \<le> bytes"
    and "length (up_hashed u) = up_written u" "bytes_at (st_flash s) off (up_written u) = up_hashed u"
    and "\<forall>a. off + up_written u \<le> a \<and> a < off + bytes \<longrightarrow> fl_byte (st_flash s) a = 0xFF"
    and "header_of (up_hashed u) (up_header u)"
  shows "same_outside off bytes (st_flash s) (st_flash t) \<and> same_catalog s t \<and> st_reload t = st_reload s \<and>
    (ok \<longrightarrow> length (up_hashed v) = bytes \<and> bytes_at (st_flash t) off bytes = up_hashed v \<and> header_of (up_hashed v) (up_header v))"
  using assms
proof (induction "bytes - up_written u" arbitrary: u s ok v t rule: less_induct)
  case less
  let ?w = "up_written u" and ?f = "st_flash s"
  let ?want = "min (bytes - ?w) 1024"
  note pre = less.prems
  show ?case
  proof (cases "bytes \<le> ?w")
    case True
    then show ?thesis using pre by (simp add: upload_loop.simps same_outside_refl same_catalog_def)
  next
    case False
    obtain got buffer c where rd: "reader ?want (up_source u) = ((got, buffer), c)" by (metis prod.exhaust)
    let ?u = "u\<lparr>up_source := c\<rparr>"
    show ?thesis
    proof (cases "got \<le> 0 \<or> int ?want < got")
      case True
      then show ?thesis using pre(1) False rd
        by (simp add: upload_loop.simps [of reader off bytes u s] same_outside_refl same_catalog_def Let_def split: if_splits)
    next
      case got: False
      define chunk where "chunk = map buffer [0..<nat got]"
      have len: "length chunk = nat got" "?w + nat got \<le> bytes" using got False by (auto simp: chunk_def)
      have add: "add32 off ?w = off + ?w" using pre(2,3,4) by (simp add: add32_def)
      obtain b g where w: "fl_write (off + ?w) chunk ?f = (b, g)" by (cases "fl_write (off + ?w) chunk ?f")
      have so: "same_outside off bytes ?f g"
        using same_outside_mono [OF same_outside_write [of "off + ?w" chunk ?f], of off bytes] w len by simp
      let ?h = "snd (tick g)"
      have so2: "same_outside off bytes ?f ?h" by (rule same_outside_trans [OF so same_outside_tick])
      let ?v = "?u\<lparr>up_written := ?w + nat got, up_hashed := up_hashed u @ chunk,
                     up_header := header_copy ?w chunk (up_header u)\<rparr>"
      have un: "upload_loop reader off bytes u s =
          (if \<not> b then (False, ?u, s\<lparr>st_flash := g\<rparr>)
           else if \<not> fst (tick g) then (False, ?u, s\<lparr>st_flash := ?h\<rparr>)
           else upload_loop reader off bytes ?v (s\<lparr>st_flash := ?h\<rparr>))"
        using False rd got add w
        by (subst upload_loop.simps) (simp add: on_flash_eq Let_def chunk_def [symmetric] not_le)
      show ?thesis
      proof (cases "b \<and> fst (tick g)")
        case False
        then show ?thesis using pre(1) so so2 un by (auto simp: same_catalog_def split: if_splits)
      next
        case True
        have e: "\<forall>a. off + ?w \<le> a \<and> a < off + bytes \<longrightarrow> fl_byte ?f a = 0xFF" by (rule pre(7))
        have "fl_write (off + ?w) chunk ?f = (True, g)" using w True by simp
        note st = chunk_stored [OF e _ pre(2) this, unfolded len]
        have le: "off + ?w + nat got \<le> off + bytes" using len(2) by simp
        have "bytes_at g off (?w + nat got) = up_hashed u @ chunk"
          using st(2) [OF le] bytes_at_same [OF st(1) [OF le], of off ?w] pre(6) by (simp add: bytes_at_append)
        then have stored: "bytes_at ?h off (?w + nat got) = up_hashed u @ chunk" by (simp add: bytes_at_def read_keeps)
        have rest: "\<forall>a. off + (?w + nat got) \<le> a \<and> a < off + bytes \<longrightarrow> fl_byte ?h a = 0xFF"
          using st(3) [OF le] by (simp add: read_keeps add.assoc)
        have sz: "fl_size ?h = fl_size ?f" using so2 by (simp add: same_outside_def)
        have hd: "header_of (up_hashed u @ chunk) (header_copy ?w chunk (up_header u))"
          using header_of_copy [OF pre(8), of chunk] pre(5) by simp
        have run: "upload_loop reader off bytes ?v (s\<lparr>st_flash := ?h\<rparr>) = (ok, v, t)" using un True pre(1) by simp
        have "0 < nat got" using got by simp
        then have dec: "bytes - up_written ?v < bytes - ?w" using False by simp
        have "same_outside off bytes ?h (st_flash t) \<and> same_catalog (s\<lparr>st_flash := ?h\<rparr>) t \<and>
            st_reload t = st_reload s \<and>
            (ok \<longrightarrow> length (up_hashed v) = bytes \<and> bytes_at (st_flash t) off bytes = up_hashed v \<and>
              header_of (up_hashed v) (up_header v))"
          using less.hyps [OF dec run] pre(2,3) sz len stored rest hd pre(5) by simp
        then show ?thesis using same_outside_trans [OF so2] by (auto simp: same_catalog_def)
      qed
    qed
  qed
qed

section \<open>The operations\<close>

definition untouched :: "rom_entry list \<Rightarrow> flash \<Rightarrow> flash \<Rightarrow> bool" where
  "untouched es f g \<longleftrightarrow> (\<forall>e \<in> set es. bytes_at g (re_offset e) (re_bytes e) = bytes_at f (re_offset e) (re_bytes e))"

lemma untouched_refl [simp]: "untouched es f f"
  by (simp add: untouched_def)

lemma untouched_trans: "untouched es f g \<Longrightarrow> untouched es g h \<Longrightarrow> untouched es f h"
  by (simp add: untouched_def)

lemma untouched_directory:
  "same_outside (data_end f) 8192 f g \<Longrightarrow> \<forall>e \<in> set es. entry_sane (data_end f) e \<Longrightarrow> untouched es f g"
  using entry_sane_end unfolding untouched_def by (blast intro: bytes_at_same)

lemma untouched_clear:
  "same_outside off n f g \<Longrightarrow> \<forall>e \<in> set es. clear_of off n e \<Longrightarrow> untouched es f g"
  unfolding untouched_def clear_of_def by (blast intro: bytes_at_same)

lemma data_phase:
  assumes "storage_ok sha s" "same_outside off n (st_flash s) (st_flash t)" "same_catalog s t" "st_reload t = st_reload s"
    and "4096 \<le> off" "off + n \<le> data_end (st_flash s)"
  shows "storage_ok sha t" "data_end (st_flash t) = data_end (st_flash s)"
proof -
  have f: "flash_ok (st_flash s)" using assms(1) by (simp add: storage_ok_def)
  show "data_end (st_flash t) = data_end (st_flash s)" using data_end_same(1) [OF assms(2)] .
  then show "storage_ok sha t"
    using assms(1,3,4) boot_data_same [OF assms(2) f assms(5,6), of sha] flash_ok_same [OF assms(2)]
      junk_refused_same [OF assms(2), of sha]
    by (auto simp: storage_ok_def same_catalog_def)
qed

lemma storage_ok_calls:
  assumes "storage_ok sha s" "same_outside 0 0 (st_flash s) (st_flash t)" "same_catalog s t" "st_reload t = st_reload s"
  shows "storage_ok sha t" "data_end (st_flash t) = data_end (st_flash s)"
proof -
  have "same_outside 4096 0 (st_flash s) (st_flash t)" by (rule same_outside_calls [OF assms(2)])
  moreover have "4096 + 0 \<le> data_end (st_flash s)"
    using geometry(1) [of "st_flash s"] assms(1) by (simp add: storage_ok_def)
  ultimately show "storage_ok sha t" "data_end (st_flash t) = data_end (st_flash s)"
    using data_phase [OF assms(1) _ assms(3,4)] by auto
qed

lemma storage_ok_boot:
  "storage_ok sha s \<Longrightarrow> \<not> st_reload s \<Longrightarrow> boot_catalog sha (st_flash s) = Some (st_slot s, st_generation s, st_entries s)"
  by (simp add: storage_ok_def)

lemma unmap_selected_fields [simp]:
  "st_flash (unmap_selected s) = st_flash s" "st_partition (unmap_selected s) = st_partition s"
  "st_entries (unmap_selected s) = st_entries s" "st_slot (unmap_selected s) = st_slot s"
  "st_generation (unmap_selected s) = st_generation s" "st_reload (unmap_selected s) = st_reload s"
  "storage_ok sha (unmap_selected s) = storage_ok sha s" "same_catalog s (unmap_selected s)"
  by (simp_all add: unmap_selected_def storage_ok_def same_catalog_def)

text \<open>What an operation means to do to the catalog; \<open>f\<close> is the flash after it.\<close>

datatype 'c storage_op =
    Upload "u8 list" nat "'c reader option" 'c
  | Delete nat
  | Rename nat "u8 list"

fun run_op :: "(u8 list \<Rightarrow> u8 list) \<Rightarrow> 'c storage_op \<Rightarrow> storage \<Rightarrow> bool \<times> storage" where
  "run_op sha (Upload name bytes reader c) s = gb_storage_upload sha name bytes reader c s"
| "run_op sha (Delete i) s = gb_storage_delete sha i s"
| "run_op sha (Rename i name) s = gb_storage_rename sha i name s"

fun intended :: "(u8 list \<Rightarrow> u8 list) \<Rightarrow> 'c storage_op \<Rightarrow> flash \<Rightarrow> rom_entry list \<Rightarrow> rom_entry list \<Rightarrow> bool" where
  "intended sha (Upload name bytes reader c) f es es' \<longleftrightarrow>
     (\<exists>e. es' = es @ [e] \<and> cstr (re_name e) = cstr name \<and> re_bytes e = bytes \<and>
          re_sha e = sha (bytes_at f (re_offset e) bytes) \<and>
          supported_type (fl_byte f (re_offset e + 0x147)) \<and> declared_rom_size_s (fl_byte f (re_offset e + 0x148)) = bytes)"
| "intended sha (Delete i) f es es' \<longleftrightarrow> es' = take i es @ drop (Suc i) es"
| "intended sha (Rename i name) f es es' \<longleftrightarrow> (\<exists>n. cstr n = cstr name \<and> es' = es[i := (es ! i)\<lparr>re_name := n\<rparr>])"

text \<open>The outcome of an operation: the invariant holds, the ROMs are as they were, a restart finds the
  old catalog or the intended one, and success means the intended one.\<close>

definition outcome :: "(u8 list \<Rightarrow> u8 list) \<Rightarrow> 'c storage_op \<Rightarrow> storage \<Rightarrow> bool \<Rightarrow> storage \<Rightarrow> bool" where
  "outcome sha op s r t \<longleftrightarrow>
     storage_ok sha t \<and> untouched (st_entries s) (st_flash s) (st_flash t) \<and> st_partition t = st_partition s \<and>
     (st_reload s \<and> \<not> r \<and> t = s \<or>
      \<not> st_reload s \<and>
      (\<exists>k g es'. boot_catalog sha (st_flash t) = Some (k, g, es') \<and>
        (es' = st_entries s \<and> \<not> r \<or> intended sha op (st_flash t) (st_entries s) es')) \<and>
      (r \<longrightarrow> \<not> st_reload t \<and> intended sha op (st_flash t) (st_entries s) (st_entries t)) \<and>
      (\<not> r \<longrightarrow> st_entries t = st_entries s))"

lemma outcome_stop: "storage_ok sha s \<Longrightarrow> outcome sha op s False s"
  using storage_ok_boot [of sha s] by (auto simp: outcome_def)

text \<open>Publishing after a phase that changed only free space.\<close>

lemma outcome_publish:
  assumes "digest_fn sha" "storage_ok sha s" "\<not> st_reload s" "publish_directory sha es s = (r, t)"
    and "catalog_ok (data_end (st_flash s)) es" "\<forall>e \<in> set es. entry_fits e"
    and "\<And>g. untouched es (st_flash s) g \<Longrightarrow> intended sha op g (st_entries s) es"
  shows "outcome sha op s r t"
proof -
  note ps = publish_safe [OF assms(1-6)]
  have sane: "\<forall>e \<in> set es. entry_sane (data_end (st_flash s)) e" "\<forall>e \<in> set (st_entries s). entry_sane (data_end (st_flash s)) e"
    using assms(2,5) by (simp_all add: storage_ok_def catalog_ok_def)
  have u: "untouched es (st_flash s) (st_flash t)" "untouched (st_entries s) (st_flash s) (st_flash t)"
    using untouched_directory [OF ps(5)] sane by simp_all
  have "intended sha op (st_flash t) (st_entries s) es" by (rule assms(7) [OF u(1)])
  then show ?thesis
    using ps(1-4,6) u(2) assms(3) by (cases r) (auto simp: outcome_def same_catalog_def)
qed

lemma outcome_unmap: "\<not> st_reload s \<Longrightarrow> outcome sha op (unmap_selected s) r t = outcome sha op s r t"
  by (simp add: outcome_def)

lemma delete_outcome:
  assumes "digest_fn sha" "storage_ok sha s" "gb_storage_delete sha i s = (r, t)"
  shows "outcome sha (Delete i :: 'c storage_op) s r t"
proof (cases "\<not> st_partition s \<or> st_reload s \<or> length (st_entries s) \<le> i")
  case True
  then show ?thesis using assms outcome_stop by (auto simp: gb_storage_delete_def)
next
  case False
  let ?es = "take i (st_entries s) @ drop (Suc i) (st_entries s)"
  have p: "publish_directory sha ?es (unmap_selected s) = (r, t)"
    using assms(3) False by (auto simp: gb_storage_delete_def)
  have "outcome sha (Delete i :: 'c storage_op) (unmap_selected s) r t"
    by (rule outcome_publish [OF assms(1) _ _ p])
      (use assms(2) False in \<open>auto simp: storage_ok_def catalog_remove dest: in_set_takeD in_set_dropD\<close>)
  then show ?thesis using False by (simp add: outcome_unmap)
qed

lemma rename_outcome:
  assumes "digest_fn sha" "storage_ok sha s" "gb_storage_rename sha i name s = (r, t)"
  shows "outcome sha (Rename i name :: 'c storage_op) s r t"
proof (cases "\<not> st_partition s \<or> st_reload s \<or> length (st_entries s) \<le> i \<or> \<not> valid_name name (Some i) s")
  case True
  then show ?thesis using assms outcome_stop by (auto simp: gb_storage_rename_def)
next
  case bad: False
  let ?es = "(st_entries s)[i := (st_entries s ! i)\<lparr>re_name := name_field name\<rparr>]"
  have v: "gb_name_valid name" "\<forall>j < length (st_entries s). j \<noteq> i \<longrightarrow> cstr name \<noteq> cstr (re_name (st_entries s ! j))"
    using bad by (auto simp: valid_name_iff)
  show ?thesis
  proof (cases "cstr (re_name (st_entries s ! i)) = cstr name")
    case True
    then have "r" "t = s" using assms(3) bad by (auto simp: gb_storage_rename_def)
    moreover have "intended sha (Rename i name :: 'c storage_op) (st_flash s) (st_entries s) (st_entries s)"
      using True by (auto intro!: exI [of _ "re_name (st_entries s ! i)"])
    ultimately show ?thesis using assms(2) bad storage_ok_boot [OF assms(2)] by (auto simp: outcome_def)
  next
    case False
    have p: "publish_directory sha ?es (unmap_selected s) = (r, t)"
      using assms(3) bad False by (auto simp: gb_storage_rename_def)
    have c: "catalog_ok (data_end (st_flash s)) ?es"
      using catalog_rename [OF _ _ v] assms(2) bad by (auto simp: storage_ok_def)
    have f: "\<forall>e \<in> set ?es. entry_fits e"
      using assms(2) bad v(1) nth_mem [of i "st_entries s"]
      by (auto simp: storage_ok_def entry_fits_def name_field_facts dest!: set_update_subset_insert [THEN subsetD])
    have "outcome sha (Rename i name :: 'c storage_op) (unmap_selected s) r t"
      by (rule outcome_publish [OF assms(1) _ _ p])
        (use assms(2) bad c f in \<open>auto intro!: exI [of _ "name_field name"] simp: name_field_facts\<close>)
    then show ?thesis using bad by (simp add: outcome_unmap)
  qed
qed

text \<open>An operation that gave up after changing free space only.\<close>

lemma outcome_gave_up:
  assumes "storage_ok sha s" "\<not> st_reload s" "same_outside off n (st_flash s) (st_flash t)" "same_catalog s t" "\<not> st_reload t"
    and "4096 \<le> off" "off + n \<le> data_end (st_flash s)" "\<forall>e \<in> set (st_entries s). clear_of off n e"
  shows "outcome sha op s False t"
proof -
  have ok: "storage_ok sha t"
    using data_phase(1) [OF assms(1,3,4) _ assms(6,7)] assms(2,5) by simp
  have b: "boot_catalog sha (st_flash t) = Some (st_slot t, st_generation t, st_entries t)"
    by (rule storage_ok_boot [OF ok assms(5)])
  show ?thesis
    using ok b untouched_clear [OF assms(3,8)] assms(2,4) by (auto simp: outcome_def same_catalog_def)
qed

lemma outcome_then:
  assumes "outcome sha op t r u" "same_catalog s t" "st_reload t = st_reload s" "untouched (st_entries s) (st_flash s) (st_flash t)"
    and "\<not> st_reload s"
  shows "outcome sha op s r u"
  using assms untouched_trans [OF assms(4)] by (auto simp: outcome_def same_catalog_def)

lemma upload_entry:
  assumes "storage_ok sha s" "digest_fn sha" "valid_name name None s" "length (st_entries s) < 16"
    and "32768 \<le> n" "n mod 16384 = 0" "4096 \<le> off" "off mod 4096 = 0" "off + n \<le> data_end (st_flash s)"
    and "\<forall>e \<in> set (st_entries s). clear_of off n e"
  shows "catalog_ok (data_end (st_flash s))
      (st_entries s @ [\<lparr>re_name = name_field name, re_offset = off, re_bytes = n, re_sha = sha d\<rparr>])"
    and "entry_fits \<lparr>re_name = name_field name, re_offset = off, re_bytes = n, re_sha = sha d\<rparr>"
proof -
  let ?e = "\<lparr>re_name = name_field name, re_offset = off, re_bytes = n, re_sha = sha d\<rparr>"
  have v: "gb_name_valid name" using assms(3) by (simp add: valid_name_iff)
  have v2: "\<forall>e \<in> set (st_entries s). cstr (re_name e) \<noteq> cstr name"
    using assms(3) by (metis valid_name_iff in_set_conv_nth option.distinct(1))
  have e: "data_end (st_flash s) < 2 ^ 31" using geometry(2) assms(1) by (simp add: storage_ok_def)
  have "entry_sane (data_end (st_flash s)) ?e"
    using assms(5-9) v by (simp add: entry_sane_def name_field_facts valid_range_def SECTOR_BYTES_def)
  moreover have "\<forall>o' \<in> set (st_entries s). apart o' ?e"
    using v2 assms(10) by (auto simp: apart_def clear_of_def name_field_facts)
  ultimately show "catalog_ok (data_end (st_flash s)) (st_entries s @ [?e])"
    using assms(1,4) by (simp add: catalog_snoc storage_ok_def)
  show "entry_fits ?e"
    using assms(2,9) v e by (simp add: entry_fits_def name_field_facts digest_fn_def)
qed

lemma upload_outcome:
  assumes "digest_fn sha" "storage_ok sha s" "gb_storage_upload sha name n reader c s = (r, t)"
  shows "outcome sha (Upload name n reader c) s r t"
proof (cases "reader = None \<or> \<not> st_partition s \<or> st_reload s \<or> \<not> valid_name name None s \<or> 16 \<le> length (st_entries s) \<or>
    n < 32768 \<or> gb_storage_limit s < n \<or> n mod 16384 \<noteq> 0 \<or> gb_storage_available s < n \<or> find_gap n s = 0")
  case True
  then have "\<not> r \<and> t = s"
    using assms(3) by (auto simp: gb_storage_upload_def storage_sizes Let_def split: option.splits if_splits)
  then show ?thesis using outcome_stop [OF assms(2)] by simp
next
  case False
  then obtain rd where rd: "reader = Some rd" by auto
  let ?f = "st_flash s" and ?off = "find_gap n s"
  have fok: "flash_ok ?f" "catalog_ok (data_end ?f) (st_entries s)" using assms(2) by (simp_all add: storage_ok_def)
  have m: "x div 16384 * 16384 \<le> x" for x :: nat by simp
  have ne: "n \<le> data_end ?f"
    using False geometry(4) [OF fok(1)] m [of "fl_size ?f - 12288"]
    by (auto simp: gb_storage_limit_def storage_sizes Let_def split: if_splits)
  have gap: "4096 \<le> ?off" "?off mod 4096 = 0" "?off + n \<le> data_end ?f" "\<forall>e \<in> set (st_entries s). clear_of ?off n e"
    using find_gap_spec [OF fok ne] False by auto
  have sz: "?off + n \<le> fl_size ?f" "fl_size ?f \<le> 2 ^ 31" using gap(3) geometry(4) [OF fok(1)] fok(1) by (simp_all add: flash_ok_def)
  obtain er g where er: "fl_erase ?off n ?f = (er, g)" by (cases "fl_erase ?off n ?f")
  have g: "same_outside ?off n ?f g" using same_outside_erase [of ?off n ?f] er by simp
  define h where "h = snd (tick g)"
  have h: "same_outside ?off n ?f h" unfolding h_def by (rule same_outside_trans [OF g same_outside_tick])
  let ?u = "\<lparr>up_source = c, up_written = 0, up_hashed = [], up_header = replicate 0x150 0\<rparr>"
  let ?s = "unmap_selected s\<lparr>st_flash := h\<rparr>"
  obtain ok v w where lp: "upload_loop rd ?off n ?u ((unmap_selected s)\<lparr>st_flash := h\<rparr>) = (ok, v, w)"
    by (metis prod.exhaust)
  define x where "x = w\<lparr>st_flash := snd (tick (st_flash w))\<rparr>"
  let ?e = "\<lparr>re_name = name_field name, re_offset = ?off, re_bytes = n, re_sha = sha (up_hashed v)\<rparr>"
  have run: "(r, t) =
      (if \<not> er then (False, (unmap_selected s)\<lparr>st_flash := g\<rparr>)
       else if \<not> fst (tick g) then (False, (unmap_selected s)\<lparr>st_flash := h\<rparr>)
       else if \<not> ok then (False, w)
       else if \<not> fst (tick (st_flash w)) \<or> up_header v ! 0x143 = 0xc0 \<or> \<not> supported_type (up_header v ! 0x147) \<or>
              declared_rom_size_s (up_header v ! 0x148) \<noteq> n then (False, x)
       else publish_directory sha (st_entries x @ [?e]) x)"
    using assms(3) False er lp
    by (auto simp: gb_storage_upload_def storage_sizes Let_def rd on_flash_eq h_def [symmetric] x_def [symmetric] split: if_splits)
  have sc: "same_catalog s (unmap_selected s\<lparr>st_flash := f'\<rparr>)" for f' by (simp add: same_catalog_def)
  have live: "\<not> st_reload s" using False by simp
  have give_up: "outcome sha (Upload name n reader c) s False y"
    if "same_outside ?off n ?f (st_flash y)" "same_catalog s y" "\<not> st_reload y" for y
    by (rule outcome_gave_up [OF assms(2) live that gap(1,3,4)])
  show ?thesis
  proof (cases "er \<and> fst (tick g)")
    case False
    then have "\<not> r \<and> (t = (unmap_selected s)\<lparr>st_flash := g\<rparr> \<or> t = (unmap_selected s)\<lparr>st_flash := h\<rparr>)"
      using run by (auto split: if_splits)
    then show ?thesis using give_up [of t] g h sc live by auto
  next
    case er_ok: True
    have "\<forall>a. ?off \<le> a \<and> a < ?off + n \<longrightarrow> fl_byte g a = 0xFF"
      using er er_ok by (auto simp: fl_erase_def tick_def Let_def split: if_splits option.splits)
    then have ff: "\<forall>a. ?off \<le> a \<and> a < ?off + n \<longrightarrow> fl_byte h a = 0xFF" by (simp add: h_def read_keeps)
    have hs: "fl_size h = fl_size ?f" using h by (simp add: same_outside_def)
    have hd0: "header_of [] (replicate 0x150 (0 :: u8))" unfolding header_of_def by (intro exI [of _ "replicate 0x150 0"]) simp
    have w: "same_outside ?off n h (st_flash w)" "same_catalog s w" "\<not> st_reload w"
      "ok \<Longrightarrow> length (up_hashed v) = n \<and> bytes_at (st_flash w) ?off n = up_hashed v \<and> header_of (up_hashed v) (up_header v)"
      using upload_loop_spec [OF lp] sz hs ff hd0 live by (simp_all add: same_catalog_def bytes_at_def)
    have so_w: "same_outside ?off n ?f (st_flash w)" by (rule same_outside_trans [OF h w(1)])
    then have so_x: "same_outside ?off n ?f (st_flash x)"
      unfolding x_def by (auto intro: same_outside_trans)
    have x: "same_catalog s x" "\<not> st_reload x" using w(2,3) by (simp_all add: x_def same_catalog_def)
    show ?thesis
    proof (cases "ok \<and> fst (tick (st_flash w)) \<and> up_header v ! 0x143 \<noteq> 0xc0 \<and> supported_type (up_header v ! 0x147) \<and>
        declared_rom_size_s (up_header v ! 0x148) = n")
      case False
      then have "\<not> r \<and> (t = w \<or> t = x)" using run er_ok by (auto split: if_splits)
      then show ?thesis using give_up [of w] give_up [of x] so_w so_x w x by auto
    next
      case True
      have xe: "st_entries x = st_entries s" using x(1) by (simp add: same_catalog_def)
      have p: "publish_directory sha (st_entries s @ [?e]) x = (r, t)" using run er_ok True by (simp add: xe)
      have xok: "storage_ok sha x" "data_end (st_flash x) = data_end ?f"
        using data_phase [OF assms(2) so_x x(1) _ gap(1,3)] x(2) live by simp_all
      have vn: "valid_name name None s" "length (st_entries s) < 16" "32768 \<le> n" "n mod 16384 = 0"
        using \<open>\<not> (reader = None \<or> _)\<close> by auto
      note new = upload_entry [OF assms(2,1) vn gap(1,2,3,4), of "up_hashed v"]
      have fits: "\<forall>e \<in> set (st_entries s @ [?e]). entry_fits e" using new(2) assms(2) by (simp add: storage_ok_def)
      have stored: "bytes_at (st_flash x) ?off n = up_hashed v" "length (up_hashed v) = n" "up_header v = take 0x150 (up_hashed v)"
        using w(4) True vn(3) header_of_full by (auto simp: x_def bytes_at_def read_keeps)
      have "outcome sha (Upload name n reader c) x r t"
      proof (rule outcome_publish [OF assms(1) xok(1) x(2) p])
        show "catalog_ok (data_end (st_flash x)) (st_entries s @ [?e])" using new(1) by (simp add: xok(2))
        show "\<forall>e \<in> set (st_entries s @ [?e]). entry_fits e" by (rule fits)
        fix g' assume u: "untouched (st_entries s @ [?e]) (st_flash x) g'"
        then have b: "bytes_at g' ?off n = up_hashed v" using stored(1) by (simp add: untouched_def)
        have "fl_byte g' (?off + i) = up_header v ! i" if "i < 0x150" for i
          using arg_cong [OF b, of "\<lambda>l. l ! i"] that vn(3) stored(3) by (simp add: bytes_at_def)
        then show "intended sha (Upload name n reader c) g' (st_entries x) (st_entries s @ [?e])"
          using True b by (simp add: xe name_field_facts)
      qed
      then show ?thesis
        by (rule outcome_then) (use x live untouched_clear [OF so_x gap(4)] in simp_all)
    qed
  qed
qed

lemma run_op_outcome:
  assumes "digest_fn sha" "storage_ok sha s" "run_op sha op s = (r, t)"
  shows "outcome sha op s r t"
  using assms upload_outcome delete_outcome rename_outcome by (cases op) auto

end
