(* ===== verification/Gb_Storage_Boot.thy ===== *)
theory Gb_Storage_Boot
  imports Gb_Storage_Ops
begin

text \<open>
  Starting up: \<open>gb_storage_init\<close> on a working partition finds the catalog a restart should find, so an
  operation that was interrupted anywhere is, after the restart, done or not done.
\<close>

lemma entry_of_fits: "72 \<le> length bs \<Longrightarrow> entry_fits (entry_of bs)"
  using nat_of_le_bound [of "take 4 (drop 32 bs)"] nat_of_le_bound [of "take 4 (drop 36 bs)"]
  by (simp add: entry_fits_def entry_of_def)

lemma entries_of_fits: "72 * n \<le> length bs \<Longrightarrow> \<forall>e \<in> set (entries_of n bs). entry_fits e"
proof (induction n arbitrary: bs)
  case (Suc n)
  then show ?case using Suc.IH [of "drop 72 bs"] by (auto simp: entry_of_fits)
qed simp

lemma dir_at_entries:
  assumes "dir_at sha f k = Some (g, es)" "flash_ok f"
  shows "catalog_ok (data_end f) es \<and> (\<forall>e \<in> set es. entry_fits e)"
proof -
  let ?bs = "bytes_at f (slot_offset f k) 1196"
  have p: "directory_plausible (data_end f) ?bs" "es = directory_entries ?bs"
    using assms(1) by (auto simp: dir_at_def parse_directory_def split: if_splits)
  have e: "data_end f < 2 ^ 32" using geometry(2) [OF assms(2)] by simp
  have n: "directory_count ?bs \<le> 16" using p(1) by (simp add: directory_plausible_def GB_STORAGE_MAX_ROMS_def)
  then have "72 * directory_count ?bs \<le> length (drop 12 ?bs)" by simp
  from entries_of_fits [OF this] show ?thesis
    using p entries_valid_iff [OF e] by (auto simp: directory_plausible_def directory_entries_def)
qed

lemma legacy_entries_ok:
  assumes "legacy_entries f = Some es" "flash_ok f"
  shows "catalog_ok (data_end f) es \<and> (\<forall>e \<in> set es. entry_fits e)"
proof -
  have e: "data_end f < 2 ^ 32" using geometry(2) [OF assms(2)] by simp
  have nil: "catalog_ok (data_end f) []" by (simp add: catalog_ok_def)
  have f: "\<forall>e \<in> set (entries_of n (bytes_at f 8 (n * 72))). entry_fits e" for n
    by (rule entries_of_fits) simp
  from assms(1) nil f entries_valid_iff [OF e] show ?thesis
    by (auto simp: legacy_entries_def Let_def split: if_splits)
qed

lemma boot_catalog_ok:
  assumes "boot_catalog sha f = Some (k, g, es)" "flash_ok f"
  shows "catalog_ok (data_end f) es \<and> (\<forall>e \<in> set es. entry_fits e)"
proof (cases "boot_slot sha f")
  case None
  then show ?thesis using assms legacy_entries_ok [of f es] by (auto simp: boot_catalog_def)
next
  case (Some x)
  then obtain j where "dir_at sha f j = Some (g, es)"
    using assms(1) pick_copy_slot by (cases x) (fastforce simp: boot_catalog_def boot_slot_def)
  then show ?thesis using dir_at_entries assms(2) by blast
qed

section \<open>Initialisation without failures\<close>

definition working :: "flash \<Rightarrow> bool" where
  "working f \<longleftrightarrow> (\<forall>n. fl_ok f n)"

lemma calls_simps [simp]:
  "working (f\<lparr>fl_calls := n\<rparr>) = working f" "data_end (f\<lparr>fl_calls := n\<rparr>) = data_end f"
  "slot_offset (f\<lparr>fl_calls := n\<rparr>) k = slot_offset f k" "bytes_at (f\<lparr>fl_calls := n\<rparr>) o' m = bytes_at f o' m"
  "dir_at sha (f\<lparr>fl_calls := n\<rparr>) k = dir_at sha f k" "flash_ok (f\<lparr>fl_calls := n\<rparr>) = flash_ok f"
  by (simp_all add: working_def data_end_def slot_offset_def bytes_at_def dir_at_def flash_ok_def)

lemma working_calls:
  assumes "working f"
  shows "tick f = (True, f\<lparr>fl_calls := fl_calls f + 1\<rparr>)"
    and "o' + n \<le> fl_size f \<Longrightarrow> fl_read o' n f = (Some (bytes_at f o' n), f\<lparr>fl_calls := fl_calls f + 1\<rparr>)"
  using assms by (simp_all add: working_def tick_def fl_read_def)

lemma slot_readable: "flash_ok f \<Longrightarrow> k < 2 \<Longrightarrow> slot_offset f k + 1196 \<le> fl_size f"
  using geometry(4) [of f] geometry(5) [of f k] by (auto simp: less_2_cases_iff)

lemma read_directory_working:
  assumes "working (st_flash s)" "flash_ok (st_flash s)" "k < 2"
  shows "\<exists>m. read_directory sha k s =
    (if dir_at sha (st_flash s) k = None then None else Some (bytes_at (st_flash s) (slot_offset (st_flash s) k) 1196),
     s\<lparr>st_flash := (st_flash s)\<lparr>fl_calls := m\<rparr>\<rparr>)"
  using working_calls(2) [OF assms(1) slot_readable [OF assms(2,3)]] working_calls(1) assms(1)
  by (auto simp: read_directory_def on_flash_eq Let_def dir_at_def parse_directory_def)

lemma try_slot_working:
  assumes "working (st_flash s)" "flash_ok (st_flash s)" "k < 2"
  shows "\<exists>m. try_slot sha k s =
    (let t = s\<lparr>st_flash := (st_flash s)\<lparr>fl_calls := m\<rparr>\<rparr> in
     case dir_at sha (st_flash s) k of
       None \<Rightarrow> t
     | Some (g, es) \<Rightarrow>
         if st_slot s = None \<or> newer g (st_generation s)
         then t\<lparr>st_slot := Some k, st_generation := g, st_entries := es\<rparr> else t)"
proof -
  obtain m where m: "read_directory sha k s =
    (if dir_at sha (st_flash s) k = None then None else Some (bytes_at (st_flash s) (slot_offset (st_flash s) k) 1196),
     s\<lparr>st_flash := (st_flash s)\<lparr>fl_calls := m\<rparr>\<rparr>)"
    using read_directory_working [OF assms] by blast
  show ?thesis
    by (rule exI [of _ m])
      (auto simp: try_slot_def m Let_def dir_at_def parse_directory_def split: option.splits if_splits)
qed

lemma read_legacy_working:
  assumes "working (st_flash s)" "flash_ok (st_flash s)" "st_entries s = []"
  shows "\<exists>m. fst (read_legacy s) = (legacy_entries (st_flash s) \<noteq> None) \<and>
    (case legacy_entries (st_flash s) of
       Some es \<Rightarrow> st_entries (snd (read_legacy s)) = es \<and> \<not> st_reload (snd (read_legacy s))
     | None \<Rightarrow> st_entries (snd (read_legacy s)) = [] \<and> st_reload (snd (read_legacy s)) = st_reload s) \<and>
    st_slot (snd (read_legacy s)) = st_slot s \<and> st_generation (snd (read_legacy s)) = st_generation s \<and>
    st_partition (snd (read_legacy s)) = st_partition s \<and>
    st_flash (snd (read_legacy s)) = (st_flash s)\<lparr>fl_calls := m\<rparr>"
proof -
  let ?f = "st_flash s"
  let ?h = "bytes_at ?f 0 8"
  have sz: "16384 \<le> fl_size ?f" using assms(2) by (simp add: flash_ok_def)
  have r1: "fl_read 0 8 ?f = (Some ?h, ?f\<lparr>fl_calls := fl_calls ?f + 1\<rparr>)"
    using working_calls(2) [OF assms(1), of 0 8] sz by simp
  show ?thesis
  proof (cases "legacy_header_ok ?h")
    case False
    then show ?thesis using assms(3) by (auto simp: read_legacy_def on_flash_eq r1 legacy_entries_def Let_def)
  next
    case True
    define n where "n = legacy_count ?h"
    have n: "n \<le> 16" using True by (simp add: legacy_header_ok_def GB_STORAGE_MAX_ROMS_def n_def)
    have "fl_read 8 (n * 72) (?f\<lparr>fl_calls := fl_calls ?f + 1\<rparr>) =
        (Some (bytes_at ?f 8 (n * 72)), ?f\<lparr>fl_calls := fl_calls ?f + 2\<rparr>)"
      using working_calls(2) [of "?f\<lparr>fl_calls := fl_calls ?f + 1\<rparr>" 8 "n * 72"] assms(1) n sz by simp
    moreover have "valid_range (fl_size ?f) 8 (n * 72)" using n sz by (simp add: valid_range_def)
    ultimately show ?thesis
      using True assms(3)
      by (auto simp: read_legacy_def on_flash_eq r1 legacy_entries_def Let_def n_def [symmetric])
  qed
qed

lemma working_same: "st_flash t = f\<lparr>fl_calls := m\<rparr> \<Longrightarrow> same_outside 0 0 f (st_flash t)"
  by (simp add: same_outside_def)

lemma init_working:
  assumes "working (st_flash s)" "flash_ok (st_flash s)"
  obtains t m where "gb_storage_init sha True s = (boot_catalog sha (st_flash s) \<noteq> None, t)"
    and "st_flash t = (st_flash s)\<lparr>fl_calls := m\<rparr>" "st_partition t"
    and "case boot_catalog sha (st_flash s) of
           Some (k, g, es) \<Rightarrow> st_slot t = k \<and> st_generation t = g \<and> st_entries t = es \<and> \<not> st_reload t
         | None \<Rightarrow> st_entries t = [] \<and> st_reload t"
proof -
  let ?f = "st_flash s"
  define s0 where "s0 = (unmap_selected s)\<lparr>st_entries := [], st_trusted := False, st_reload := True, st_read_error := False,
                st_slot := None, st_generation := 0, st_partition := True, st_flash := ?f\<lparr>fl_calls := Suc (fl_calls ?f)\<rparr>\<rparr>"
  have w0: "working (st_flash s0)" "flash_ok (st_flash s0)" using assms by (simp_all add: s0_def)
  obtain m0 where m0: "try_slot sha 0 s0 =
    (let t = s0\<lparr>st_flash := (st_flash s0)\<lparr>fl_calls := m0\<rparr>\<rparr> in
     case dir_at sha (st_flash s0) 0 of
       None \<Rightarrow> t
     | Some (g, es) \<Rightarrow>
         if st_slot s0 = None \<or> newer g (st_generation s0)
         then t\<lparr>st_slot := Some 0, st_generation := g, st_entries := es\<rparr> else t)"
    using try_slot_working [OF w0, of 0 sha] by auto
  define s1 where "s1 = try_slot sha 0 s0"
  have f1: "st_flash s1 = ?f\<lparr>fl_calls := m0\<rparr>" "\<not> st_read_error s1" "st_partition s1" "st_reload s1"
    unfolding s1_def m0 by (simp_all add: s0_def Let_def split: option.split)
  have d0: "st_slot s1 = map_option (\<lambda>x. 0) (dir_at sha ?f 0)"
    "st_generation s1 = (case dir_at sha ?f 0 of None \<Rightarrow> 0 | Some (g, es) \<Rightarrow> g)"
    "st_entries s1 = (case dir_at sha ?f 0 of None \<Rightarrow> [] | Some (g, es) \<Rightarrow> es)"
    unfolding s1_def m0 by (simp_all add: s0_def Let_def split: option.split)
  have w1: "working (st_flash s1)" "flash_ok (st_flash s1)" using assms f1(1) by simp_all
  obtain m1 where m1: "try_slot sha 1 s1 =
    (let t = s1\<lparr>st_flash := (st_flash s1)\<lparr>fl_calls := m1\<rparr>\<rparr> in
     case dir_at sha (st_flash s1) 1 of
       None \<Rightarrow> t
     | Some (g, es) \<Rightarrow>
         if st_slot s1 = None \<or> newer g (st_generation s1)
         then t\<lparr>st_slot := Some 1, st_generation := g, st_entries := es\<rparr> else t)"
    using try_slot_working [OF w1, of 1 sha] by auto
  define s2 where "s2 = try_slot sha (Suc 0) s1"
  have m1': "s2 = (let t = s1\<lparr>st_flash := (st_flash s1)\<lparr>fl_calls := m1\<rparr>\<rparr> in
     case dir_at sha (st_flash s1) 1 of
       None \<Rightarrow> t
     | Some (g, es) \<Rightarrow>
         if st_slot s1 = None \<or> newer g (st_generation s1)
         then t\<lparr>st_slot := Some 1, st_generation := g, st_entries := es\<rparr> else t)"
    using m1 by (simp add: s2_def)
  have f2: "st_flash s2 = ?f\<lparr>fl_calls := m1\<rparr>" "\<not> st_read_error s2" "st_partition s2" "st_reload s2"
    unfolding m1' using f1 by (auto simp: Let_def split: option.split)
  have pick: "case boot_slot sha ?f of
      None \<Rightarrow> st_slot s2 = None \<and> st_generation s2 = 0 \<and> st_entries s2 = []
    | Some (k, g, es) \<Rightarrow> st_slot s2 = Some k \<and> st_generation s2 = g \<and> st_entries s2 = es"
    unfolding m1' using d0 f1(1) by (auto simp: boot_slot_def pick_copy_def Let_def split: option.split)
  have init: "gb_storage_init sha True s =
      (if st_slot s2 \<noteq> None then (True, s2\<lparr>st_trusted := True, st_reload := False\<rparr>) else read_legacy s2)"
    using f2(2) assms(1) unfolding gb_storage_init_def
    by (simp add: on_flash_eq working_calls(1) Let_def s0_def [symmetric] s1_def [symmetric] s2_def [symmetric])
  show thesis
  proof (cases "boot_slot sha ?f")
    case (Some x)
    then show thesis using pick init f2
      by (cases x) (intro that [of "s2\<lparr>st_trusted := True, st_reload := False\<rparr>" m1], auto simp: boot_catalog_def)
  next
    case None
    have w2: "working (st_flash s2)" "flash_ok (st_flash s2)" using assms f2(1) by simp_all
    have l: "legacy_entries (st_flash s2) = legacy_entries ?f" using f2(1) by (simp add: legacy_entries_def Let_def)
    from read_legacy_working [OF w2] pick None obtain m where
      m: "fst (read_legacy s2) = (legacy_entries ?f \<noteq> None)"
        "case legacy_entries ?f of
           Some es \<Rightarrow> st_entries (snd (read_legacy s2)) = es \<and> \<not> st_reload (snd (read_legacy s2))
         | None \<Rightarrow> st_entries (snd (read_legacy s2)) = [] \<and> st_reload (snd (read_legacy s2)) = st_reload s2"
        "st_slot (snd (read_legacy s2)) = None" "st_generation (snd (read_legacy s2)) = 0"
        "st_partition (snd (read_legacy s2)) = st_partition s2" "st_flash (snd (read_legacy s2)) = (st_flash s2)\<lparr>fl_calls := m\<rparr>"
      by (auto simp: l)
    have "gb_storage_init sha True s = (boot_catalog sha ?f \<noteq> None, snd (read_legacy s2))"
      using init pick None m(1) by (cases "read_legacy s2") (simp add: boot_catalog_def)
    then show thesis
      using m f2 None by (intro that) (auto simp: boot_catalog_def split: option.splits)
  qed
qed

text \<open>After a restart on a working partition the invariant holds.\<close>

lemma storage_init_ok:
  assumes "working (st_flash s)" "flash_ok (st_flash s)" "junk_refused sha (st_flash s)"
  shows "storage_ok sha (snd (gb_storage_init sha True s))"
proof -
  obtain t m where t: "gb_storage_init sha True s = (boot_catalog sha (st_flash s) \<noteq> None, t)"
      "st_flash t = (st_flash s)\<lparr>fl_calls := m\<rparr>"
      "case boot_catalog sha (st_flash s) of
         Some (k, g, es) \<Rightarrow> st_slot t = k \<and> st_generation t = g \<and> st_entries t = es \<and> \<not> st_reload t
       | None \<Rightarrow> st_entries t = [] \<and> st_reload t"
    using init_working [OF assms(1,2), of sha] by metis
  have d: "dir_at sha (st_flash t) = dir_at sha (st_flash s)" "legacy_entries (st_flash t) = legacy_entries (st_flash s)"
    unfolding t(2) by (simp_all add: fun_eq_iff legacy_entries_def Let_def)
  have b: "boot_catalog sha (st_flash t) = boot_catalog sha (st_flash s)"
    unfolding boot_catalog_def boot_slot_def d ..
  have j: "junk_refused sha (st_flash t)" "flash_ok (st_flash t)" "data_end (st_flash t) = data_end (st_flash s)"
    using junk_refused_same [OF working_same [OF t(2)]] assms(2,3) t(2) by simp_all
  show ?thesis
  proof (cases "boot_catalog sha (st_flash s)")
    case None
    then show ?thesis using t b j by (simp add: storage_ok_def catalog_ok_def)
  next
    case (Some x)
    then show ?thesis
      using t b j boot_catalog_ok [of sha "st_flash s"] assms(2) by (cases x) (auto simp: storage_ok_def)
  qed
qed

section \<open>Power cuts\<close>

text \<open>The next start: memory is lost, the flash keeps its bytes and works again.\<close>

definition restart :: "(u8 list \<Rightarrow> u8 list) \<Rightarrow> storage \<Rightarrow> bool \<times> storage" where
  "restart sha s = gb_storage_init sha True (s\<lparr>st_flash := (st_flash s)\<lparr>fl_ok := \<lambda>n. True\<rparr>\<rparr>)"

lemma restart_finds:
  assumes "storage_ok sha t" "boot_catalog sha (st_flash t) = Some (k, g, es)"
  shows "fst (restart sha t) \<and> st_entries (snd (restart sha t)) = es \<and> storage_ok sha (snd (restart sha t)) \<and>
    \<not> st_reload (snd (restart sha t))"
proof -
  let ?s = "t\<lparr>st_flash := (st_flash t)\<lparr>fl_ok := \<lambda>n. True\<rparr>\<rparr>"
  have ok: "working (st_flash ?s)" "flash_ok (st_flash ?s)" "junk_refused sha (st_flash ?s)"
    using assms(1) by (simp_all add: storage_ok_def working_def flash_ok_def junk_refused_def data_end_def slot_offset_def)
  have b: "boot_catalog sha (st_flash ?s) = Some (k, g, es)"
  proof -
    have e: "data_end (st_flash ?s) = data_end (st_flash t)" "slot_offset (st_flash ?s) = slot_offset (st_flash t)"
      "bytes_at (st_flash ?s) = bytes_at (st_flash t)"
      by (simp_all add: data_end_def slot_offset_def bytes_at_def fun_eq_iff)
    then have d: "dir_at sha (st_flash ?s) = dir_at sha (st_flash t)" by (simp add: dir_at_def fun_eq_iff)
    show ?thesis using assms(2) unfolding boot_catalog_def boot_slot_def d legacy_entries_def e .
  qed
  obtain u m where "gb_storage_init sha True ?s = (boot_catalog sha (st_flash ?s) \<noteq> None, u)"
      "case boot_catalog sha (st_flash ?s) of
         Some (k, g, es) \<Rightarrow> st_slot u = k \<and> st_generation u = g \<and> st_entries u = es \<and> \<not> st_reload u
       | None \<Rightarrow> st_entries u = [] \<and> st_reload u"
    using init_working [OF ok(1,2), of sha] by metis
  then show ?thesis using b storage_init_ok [OF ok] by (simp add: restart_def)
qed

lemma operation_atomic:
  assumes "digest_fn sha" "storage_ok sha s" "\<not> st_reload s" "run_op sha op s = (r, t)"
  shows "fst (restart sha t) \<and> storage_ok sha (snd (restart sha t)) \<and>
    (st_entries (snd (restart sha t)) = st_entries s \<and> \<not> r \<or>
     intended sha op (st_flash t) (st_entries s) (st_entries (snd (restart sha t))))"
  using run_op_outcome [OF assms(1,2,4)] restart_finds assms(3) unfolding outcome_def by metis

end
