(* ===== verification/Gb_Storage_Open.thy ===== *)
theory Gb_Storage_Open
  imports Gb_Storage_Boot
begin

text \<open>
  Opening a ROM: it is handed to the emulator exactly when every byte of it in flash matches the digest
  that was taken when it was received; and the concrete storage used by the witnesses.
\<close>

lemma read_selected_spec:
  assumes "read_selected e off n s = (r, t)" "re_offset e + re_bytes e < 2 ^ 32"
  shows "same_outside 0 0 (st_flash s) (st_flash t)" "t = s\<lparr>st_flash := st_flash t\<rparr>"
    and "r = Some bs \<Longrightarrow> off + n \<le> re_bytes e \<and> bs = bytes_at (st_flash s) (re_offset e + off) n"
proof -
  have a: "add32 (re_offset e) off = re_offset e + off" if "off \<le> re_bytes e"
    using that assms(2) by (simp add: add32_def)
  show "same_outside 0 0 (st_flash s) (st_flash t)" "t = s\<lparr>st_flash := st_flash t\<rparr>"
    using assms(1) same_outside_read [of 0 0 "st_flash s"]
    by (auto simp: read_selected_def on_flash_eq same_outside_refl split: if_splits)
  show "r = Some bs \<Longrightarrow> off + n \<le> re_bytes e \<and> bs = bytes_at (st_flash s) (re_offset e + off) n"
    using assms(1) a by (auto simp: read_selected_def on_flash_eq fl_read_def Let_def valid_range_def split_beta split: if_splits)
qed

lemma flash_only_trans:
  "s2 = s\<lparr>st_flash := st_flash s2\<rparr> \<Longrightarrow> t = s2\<lparr>st_flash := st_flash t\<rparr> \<Longrightarrow> t = s\<lparr>st_flash := st_flash t\<rparr>"
  by (cases s; cases s2; cases t; simp)

lemma open_loop_spec:
  assumes "open_loop e off hashed s = (r, t)" "re_offset e + re_bytes e < 2 ^ 32"
  shows "same_outside 0 0 (st_flash s) (st_flash t) \<and> t = s\<lparr>st_flash := st_flash t\<rparr> \<and>
    (\<forall>bs. r = Some bs \<longrightarrow> bs = hashed @ bytes_at (st_flash s) (re_offset e + off) (re_bytes e - off))"
  using assms
proof (induction "re_bytes e - off" arbitrary: off hashed s r t rule: less_induct)
  case less
  show ?case
  proof (cases "re_bytes e \<le> off")
    case True
    then show ?thesis using less.prems by (auto simp: open_loop.simps same_outside_refl bytes_at_def)
  next
    case False
    let ?n = "min (re_bytes e - off) 1024"
    obtain r1 s1 where rd: "read_selected e off ?n s = (r1, s1)" by (cases "read_selected e off ?n s")
    note sp = read_selected_spec [OF rd less.prems(2)]
    show ?thesis
    proof (cases r1)
      case None
      then have "r = None" "t = s1" using less.prems(1) rd False by (simp_all add: open_loop.simps [of e off])
      then show ?thesis using sp(1,2) by simp
    next
      case (Some bs)
      define s2 where "s2 = s1\<lparr>st_flash := snd (tick (st_flash s1))\<rparr>"
      have so: "same_outside 0 0 (st_flash s) (st_flash s2)"
        unfolding s2_def by (simp add: same_outside_trans [OF sp(1) same_outside_tick])
      have e2: "s2 = s\<lparr>st_flash := st_flash s2\<rparr>" unfolding s2_def by (subst sp(2)) simp
      have un: "(r, t) = (if fst (tick (st_flash s1)) then open_loop e (off + 1024) (hashed @ bs) s2 else (None, s2))"
        using less.prems(1) rd False Some by (simp add: open_loop.simps [of e off] on_flash_eq s2_def split: if_splits)
      show ?thesis
      proof (cases "fst (tick (st_flash s1))")
        case False
        then show ?thesis using un so e2 by simp
      next
        case True
        then have rec: "open_loop e (off + 1024) (hashed @ bs) s2 = (r, t)" using un by simp
        have b: "bs = bytes_at (st_flash s) (re_offset e + off) ?n" using sp(3) Some by simp
        have "same_outside 0 0 (st_flash s2) (st_flash t) \<and> t = s2\<lparr>st_flash := st_flash t\<rparr> \<and>
          (\<forall>bs'. r = Some bs' \<longrightarrow> bs' = (hashed @ bs) @ bytes_at (st_flash s2) (re_offset e + (off + 1024)) (re_bytes e - (off + 1024)))"
          by (rule less.hyps [OF _ rec less.prems(2)]) (use False in simp)
        moreover have "bytes_at (st_flash s2) p m = bytes_at (st_flash s) p m" for p m
          by (rule bytes_at_same [OF so]) simp
        moreover have "bytes_at (st_flash s) (re_offset e + off) (re_bytes e - off) =
            bs @ bytes_at (st_flash s) (re_offset e + (off + 1024)) (re_bytes e - (off + 1024))"
          using bytes_at_append [of "st_flash s" "re_offset e + off" ?n "re_bytes e - (off + 1024)"] False
          by (cases "re_bytes e - off \<le> 1024") (simp_all add: b min_def add.assoc bytes_at_def)
        ultimately show ?thesis using same_outside_trans [OF so] flash_only_trans [OF e2] by auto
      qed
    qed
  qed
qed

definition open_ok :: "(u8 list \<Rightarrow> u8 list) \<Rightarrow> rom_entry \<Rightarrow> flash \<Rightarrow> bool" where
  "open_ok sha e f \<longleftrightarrow> sha (bytes_at f (re_offset e) (re_bytes e)) = re_sha e"

lemma open_spec:
  assumes "gb_storage_open sha i s = (r, t)" "storage_ok sha s"
  shows "same_outside 0 0 (st_flash s) (st_flash t) \<and> same_catalog s t \<and>
    (\<forall>src. r = Some src \<longrightarrow> i < length (st_entries s) \<and> rs_entry src = st_entries s ! i \<and>
      open_ok sha (st_entries s ! i) (st_flash s) \<and>
      (\<forall>m. rs_mapped src = Some m \<longrightarrow> m = bytes_at (st_flash s) (re_offset (st_entries s ! i)) (re_bytes (st_entries s ! i))))"
proof (cases "st_reload s \<or> length (st_entries s) \<le> i")
  case True
  then show ?thesis using assms(1) by (simp add: gb_storage_open_def same_outside_refl same_catalog_def)
next
  case False
  let ?e = "st_entries s ! i"
  define s1 where "s1 = s\<lparr>st_flash := snd (tick (st_flash s))\<rparr>"
  have in': "?e \<in> set (st_entries s)" using False by simp
  have bnd: "re_offset ?e + re_bytes ?e < 2 ^ 32"
    using assms(2) entry_sane_end [of "data_end (st_flash s)" ?e] geometry(2) [of "st_flash s"] in'
    by (fastforce simp: storage_ok_def catalog_ok_def)
  obtain h s2 where lp: "open_loop ?e 0 [] s1 = (h, s2)" by (cases "open_loop ?e 0 [] s1")
  note sp = open_loop_spec [OF lp bnd]
  have so1: "same_outside 0 0 (st_flash s) (st_flash s1)" by (simp add: s1_def)
  then have so2: "same_outside 0 0 (st_flash s) (st_flash s2)" using sp same_outside_trans by blast
  obtain f2 where s2: "s2 = s1\<lparr>st_flash := f2\<rparr>" using sp by metis
  have so3: "same_outside 0 0 (st_flash s) (snd (tick (st_flash s2)))"
    by (rule same_outside_trans [OF so2 same_outside_tick])
  then have so4: "same_outside 0 0 (st_flash s) (snd (tick (snd (tick (st_flash s2)))))"
    by (rule same_outside_trans [OF _ same_outside_tick])
  have eqb: "bytes_at g p m = bytes_at (st_flash s) p m" if "same_outside 0 0 (st_flash s) g" for g p m
    by (rule bytes_at_same [OF that]) simp
  have hash: "h = Some bs \<Longrightarrow> bs = bytes_at (st_flash s) (re_offset ?e) (re_bytes ?e)" for bs
    using sp eqb [OF so1] by simp
  have run: "(r, t) = (if \<not> fst (tick (st_flash s)) then (None, s1) else case h of None \<Rightarrow> (None, s2)
    | Some hashed \<Rightarrow>
        let s3 = s2\<lparr>st_flash := snd (tick (st_flash s2))\<rparr> in
        if \<not> fst (tick (st_flash s2)) \<or> sha hashed \<noteq> re_sha ?e then (None, s3)
        else
          let s4 = unmap_selected s3;
              (mapped, s5) = (if 32768 \<le> re_bytes ?e then on_flash tick s4 else (False, s4));
              s6 = (if mapped then s5\<lparr>st_mapped := True\<rparr> else s5)
          in (Some \<lparr>rs_entry = ?e, rs_mapped = (if mapped then Some (bytes_at (st_flash s6) (re_offset ?e) (re_bytes ?e)) else None)\<rparr>,
              s6\<lparr>st_selected := Some ?e\<rparr>))"
    using assms(1) False lp
    by (auto simp: gb_storage_open_def on_flash_eq Let_def s1_def [symmetric] split: option.split)
  show ?thesis
  proof (cases "fst (tick (st_flash s)) \<and> h \<noteq> None")
    case False
    then show ?thesis using run so1 so2 s2 by (auto simp: same_catalog_def s1_def split: if_splits option.splits)
  next
    case True
    then obtain hashed where h: "h = Some hashed" by auto
    show ?thesis
      using run True h hash [OF h] so3 so4 s2 False eqb [OF so3] eqb [OF so4]
      by (auto simp: same_catalog_def s1_def Let_def on_flash_eq open_ok_def split: if_splits)
  qed
qed

text \<open>On a working partition a ROM whose bytes match its digest opens.\<close>

lemma open_loop_working:
  assumes "working (st_flash s)" "st_partition s" "re_offset e + re_bytes e \<le> fl_size (st_flash s)" "fl_size (st_flash s) < 2 ^ 32"
  shows "\<exists>bs m. open_loop e off hashed s = (Some bs, s\<lparr>st_flash := (st_flash s)\<lparr>fl_calls := m\<rparr>\<rparr>)"
  using assms
proof (induction "re_bytes e - off" arbitrary: off hashed s rule: less_induct)
  case less
  show ?case
  proof (cases "re_bytes e \<le> off")
    case True
    then show ?thesis by (auto simp: open_loop.simps intro: exI [of _ "fl_calls (st_flash s)"])
  next
    case False
    let ?n = "min (re_bytes e - off) 1024" and ?f = "st_flash s"
    have a: "add32 (re_offset e) off = re_offset e + off" using False less.prems(3,4) by (simp add: add32_def)
    have rd: "read_selected e off ?n s =
        (Some (bytes_at ?f (re_offset e + off) ?n), s\<lparr>st_flash := ?f\<lparr>fl_calls := fl_calls ?f + 1\<rparr>\<rparr>)"
      using less.prems False working_calls(2) [OF less.prems(1), of "re_offset e + off" ?n]
      by (simp add: read_selected_def valid_range_def on_flash_eq a)
    let ?s = "s\<lparr>st_flash := ?f\<lparr>fl_calls := fl_calls ?f + 2\<rparr>\<rparr>"
    have un: "open_loop e off hashed s = open_loop e (off + 1024) (hashed @ bytes_at ?f (re_offset e + off) ?n) ?s"
      using False rd working_calls(1) [of "?f\<lparr>fl_calls := fl_calls ?f + 1\<rparr>"] less.prems(1)
      by (simp add: open_loop.simps [of e off] on_flash_eq)
    have "\<exists>bs m. open_loop e (off + 1024) (hashed @ bytes_at ?f (re_offset e + off) ?n) ?s =
        (Some bs, ?s\<lparr>st_flash := (st_flash ?s)\<lparr>fl_calls := m\<rparr>\<rparr>)"
      by (rule less.hyps) (use less.prems False in simp_all)
    then show ?thesis unfolding un by simp
  qed
qed

lemma open_working:
  assumes "storage_ok sha s" "working (st_flash s)" "st_partition s" "\<not> st_reload s" "i < length (st_entries s)"
    and "open_ok sha (st_entries s ! i) (st_flash s)"
  shows "\<exists>src. fst (gb_storage_open sha i s) = Some src"
proof -
  let ?e = "st_entries s ! i"
  have f: "flash_ok (st_flash s)" "entry_sane (data_end (st_flash s)) ?e"
    using assms(1,5) by (auto simp: storage_ok_def catalog_ok_def)
  have sz: "re_offset ?e + re_bytes ?e \<le> fl_size (st_flash s)" "fl_size (st_flash s) < 2 ^ 32"
    using entry_sane_end [OF f(2)] geometry(4) [OF f(1)] f(1) by (simp_all add: flash_ok_def)
  define s1 where "s1 = s\<lparr>st_flash := (st_flash s)\<lparr>fl_calls := fl_calls (st_flash s) + 1\<rparr>\<rparr>"
  obtain bs m where lp: "open_loop ?e 0 [] s1 = (Some bs, s1\<lparr>st_flash := (st_flash s1)\<lparr>fl_calls := m\<rparr>\<rparr>)"
    using open_loop_working [of s1 ?e 0 "[]"] assms(2,3) sz by (auto simp: s1_def)
  have "bs = bytes_at (st_flash s1) (re_offset ?e) (re_bytes ?e)"
    using open_loop_spec [OF lp] sz by simp
  then have "sha bs = re_sha ?e" using assms(6) by (simp add: open_ok_def s1_def)
  then show ?thesis
    using assms(2,4,5) lp working_calls(1) [of "(st_flash s1)\<lparr>fl_calls := m\<rparr>"]
    by (simp add: gb_storage_open_def on_flash_eq working_calls(1) s1_def [symmetric] Let_def split_beta)
      (simp add: s1_def on_flash_eq working_calls(1) Let_def split_beta)
qed

end
