(* ===== verification/Gb_Storage_Works.thy ===== *)
theory Gb_Storage_Works
  imports Gb_Storage_Open
begin

text \<open>
  The storage on a working partition: a valid upload succeeds, and what was received is what is opened.
\<close>

lemma working_outside: "same_outside off n f g \<Longrightarrow> working g = working f"
  by (simp add: working_def same_outside_def)

lemma fl_erase_working:
  assumes "working f" "off + n \<le> fl_size f" "off mod 4096 = 0" "n mod 4096 = 0"
  obtains g where "fl_erase off n f = (True, g)" "\<forall>a. off \<le> a \<and> a < off + n \<longrightarrow> fl_byte g a = 0xFF"
    "same_outside off n f g"
  using assms same_outside_erase [of off n f] that [of "snd (fl_erase off n f)"]
  by (simp add: fl_erase_def tick_def working_def Let_def)

lemma fl_write_working:
  assumes "working f" "off + length data \<le> fl_size f"
  shows "fst (fl_write off data f)"
  using assms by (simp add: fl_write_def tick_def working_def Let_def)

lemma publish_working:
  assumes "digest_fn sha" "flash_ok (st_flash s)" "working (st_flash s)"
    and "catalog_ok (data_end (st_flash s)) es" "\<forall>e \<in> set es. entry_fits e"
  shows "\<exists>t. publish_directory sha es s = (True, t)"
proof -
  let ?f = "st_flash s" and ?k = "target_slot s"
  let ?o = "slot_offset ?f ?k" and ?img = "directory_image sha (unat (st_generation s + 1)) es"
  define f where "f = ?f\<lparr>fl_calls := fl_calls ?f + 2\<rparr>"
  have k: "?k < 2" by (simp add: target_slot_def)
  have f: "working f" "flash_ok f" "data_end f = data_end ?f" "fl_size f = fl_size ?f" "slot_offset f ?k = ?o"
    using assms(2,3) by (simp_all add: f_def)
  have o: "?o + 4096 \<le> fl_size ?f" "?o mod 4096 = 0"
    using geometry(3,4) [OF assms(2)] geometry(5) [OF assms(2) k] k by (auto simp: less_2_cases_iff mod_add_eq)
  obtain g where g: "fl_erase ?o 4096 f = (True, g)" "\<forall>a. ?o \<le> a \<and> a < ?o + 4096 \<longrightarrow> fl_byte g a = 0xFF" "same_outside ?o 4096 f g"
    using fl_erase_working [of f ?o 4096] f o by auto
  have gk: "flash_ok g" "data_end g = data_end ?f" "slot_offset g ?k = ?o" "working g" "fl_size g = fl_size ?f"
    using flash_ok_same [OF g(3)] f data_end_same [OF g(3)] working_outside [OF g(3)] g(3) by (simp_all add: same_outside_def)
  have "length es \<le> 16" using assms(4) by (simp add: catalog_ok_def)
  then have len: "length ?img = 1196"
    using assms(1) body_length [OF assms(5)] by (simp add: directory_image_def digest_fn_def)
  define h where "h = snd (fl_write ?o ?img g)"
  have wr: "fl_write ?o ?img g = (True, h)"
    using fl_write_working [OF gk(4), of ?o ?img] len o(1) gk(5) by (simp add: h_def prod_eq_iff)
  have w: "dir_at sha h ?k = Some (st_generation s + 1, es)" "same_outside ?o 4096 g h"
    using write_directory [OF gk(1) assms(1) k, unfolded gk, OF g(2) assms(4,5) wr] by auto
  have img: "bytes_at h ?o 1196 = ?img"
    using write_erased [of ?o 1196 g ?img] g(2) len o(1) gk(5) wr by auto
  let ?s = "s\<lparr>st_reload := True, st_trusted := False, st_flash := h\<rparr>"
  have hk: "working (st_flash ?s)" "flash_ok (st_flash ?s)" "slot_offset h ?k = ?o"
    using working_outside [OF w(2)] flash_ok_same [OF w(2)] data_end_same [OF w(2)] gk by simp_all
  obtain m where rd: "read_directory sha ?k ?s = (Some ?img, ?s\<lparr>st_flash := h\<lparr>fl_calls := m\<rparr>\<rparr>)"
    using read_directory_working [OF hk(1,2) k, of sha] w(1) img hk(3) by auto
  have t2: "tick ?f = (True, ?f\<lparr>fl_calls := Suc (fl_calls ?f)\<rparr>)"
    "tick (?f\<lparr>fl_calls := Suc (fl_calls ?f)\<rparr>) = (True, f)"
    using working_calls(1) [OF assms(3)] working_calls(1) [of "?f\<lparr>fl_calls := Suc (fl_calls ?f)\<rparr>"] assms(3)
    by (simp_all add: f_def)
  show ?thesis
    using g(1) wr rd f(5)
    by (simp add: publish_directory_def on_flash_eq t2 Let_def target_slot_def SECTOR_BYTES_def)
qed

text \<open>A reader that serves the bytes of a ROM in order; \<open>at\<close> is how far it is.\<close>

definition serves :: "('c \<Rightarrow> nat) \<Rightarrow> 'c reader \<Rightarrow> u8 list \<Rightarrow> bool" where
  "serves at reader rom \<longleftrightarrow>
     (\<forall>want c. 0 < want \<and> at c + want \<le> length rom \<longrightarrow>
        (\<exists>k buffer c'. reader want c = ((int k, buffer), c') \<and> 0 < k \<and> k \<le> want \<and> at c' = at c + k \<and>
           (\<forall>i < k. buffer i = rom ! (at c + i))))"

lemma upload_loop_working:
  assumes "serves at reader rom" "at (up_source u) = up_written u" "up_written u \<le> length rom"
    and "up_hashed u = take (up_written u) rom" "working (st_flash s)"
    and "off + length rom \<le> fl_size (st_flash s)" "fl_size (st_flash s) \<le> 2 ^ 31"
  shows "\<exists>v t. upload_loop reader off (length rom) u s = (True, v, t) \<and> up_hashed v = rom \<and> working (st_flash t)"
  using assms(2-)
proof (induction "length rom - up_written u" arbitrary: u s rule: less_induct)
  case less
  let ?w = "up_written u" and ?f = "st_flash s"
  show ?case
  proof (cases "length rom \<le> ?w")
    case True
    then show ?thesis using less.prems by (simp add: upload_loop.simps)
  next
    case False
    let ?want = "min (length rom - ?w) 1024"
    have "0 < ?want" "at (up_source u) + ?want \<le> length rom" using False less.prems(1) by simp_all
    then obtain k buffer c' where rd: "reader ?want (up_source u) = ((int k, buffer), c')" "0 < k" "k \<le> ?want"
        "at c' = ?w + k" "\<forall>i < k. buffer i = rom ! (?w + i)"
      using assms(1) less.prems(1) unfolding serves_def by metis
    define chunk where "chunk = map buffer [0..<k]"
    have chunk: "chunk = take k (drop ?w rom)"
      using rd(3,5) by (intro nth_equalityI) (auto simp: chunk_def)
    have nk: "\<not> ?want < k" using rd(3) by linarith
    have kw: "?w + k \<le> length rom" using rd(3) False by linarith
    have add: "add32 off ?w = off + ?w" using less.prems(5,6) False by (simp add: add32_def)
    define g where "g = snd (tick (snd (fl_write (off + ?w) chunk ?f)))"
    have so: "same_outside (off + ?w) (length chunk) ?f g"
      unfolding g_def by (rule same_outside_trans [OF same_outside_write same_outside_tick])
    have wr: "fst (fl_write (off + ?w) chunk ?f)"
      by (rule fl_write_working [OF less.prems(4)]) (use kw less.prems(5) in \<open>simp add: chunk_def\<close>)
    have tk: "fst (tick (snd (fl_write (off + ?w) chunk ?f)))"
      using working_outside [OF same_outside_write [of "off + ?w" chunk ?f]] less.prems(4) by (simp add: working_def tick_def)
    let ?v = "u\<lparr>up_source := c', up_written := ?w + k, up_hashed := up_hashed u @ chunk,
                 up_header := header_copy ?w chunk (up_header u)\<rparr>"
    have un: "upload_loop reader off (length rom) u s = upload_loop reader off (length rom) ?v (s\<lparr>st_flash := g\<rparr>)"
      using False rd(1,2) nk add wr tk
      by (subst upload_loop.simps) (simp add: on_flash_eq Let_def chunk_def [symmetric] g_def split_beta)
    have "take ?w rom @ chunk = take (?w + k) rom" by (simp add: chunk take_add)
    moreover have "length rom - up_written ?v < length rom - ?w" using rd(2) False by simp
    ultimately show ?thesis
      unfolding un using less.hyps [of ?v "s\<lparr>st_flash := g\<rparr>"] less.prems rd kw working_outside [OF so] so False
      by (simp add: same_outside_def)
  qed
qed

text \<open>What an upload needs; the last line is what the cartridge header must say.\<close>

definition upload_allowed :: "u8 list \<Rightarrow> u8 list \<Rightarrow> storage \<Rightarrow> bool" where
  "upload_allowed name rom s \<longleftrightarrow>
     st_partition s \<and> \<not> st_reload s \<and> valid_name name None s \<and> length (st_entries s) < 16 \<and>
     32768 \<le> length rom \<and> length rom mod 16384 = 0 \<and> length rom \<le> gb_storage_available s \<and>
     rom ! 0x143 \<noteq> 0xc0 \<and> supported_type (rom ! 0x147) \<and> declared_rom_size_s (rom ! 0x148) = length rom"

lemma upload_working:
  assumes "digest_fn sha" "storage_ok sha s" "working (st_flash s)" "serves at reader rom" "at c = 0" "upload_allowed name rom s"
  shows "\<exists>t. gb_storage_upload sha name (length rom) (Some reader) c s = (True, t) \<and> working (st_flash t) \<and>
    st_partition t \<and> storage_ok sha t \<and> \<not> st_reload t \<and>
    st_entries t = st_entries s @ [\<lparr>re_name = name_field name, re_offset = find_gap (length rom) s, re_bytes = length rom, re_sha = sha rom\<rparr>] \<and>
    bytes_at (st_flash t) (find_gap (length rom) s) (length rom) = rom"
proof -
  let ?f = "st_flash s" and ?n = "length rom"
  let ?off = "find_gap ?n s"
  let ?e = "\<lparr>re_name = name_field name, re_offset = ?off, re_bytes = ?n, re_sha = sha rom\<rparr>"
  have al: "st_partition s" "\<not> st_reload s" "valid_name name None s" "length (st_entries s) < 16" "32768 \<le> ?n"
    "?n mod 16384 = 0" "?n \<le> gb_storage_available s" and n0: "0 < ?n"
    using assms(6) by (auto simp: upload_allowed_def)
  have fok: "flash_ok ?f" "catalog_ok (data_end ?f) (st_entries s)" using assms(2) by (simp_all add: storage_ok_def)
  note bound = available_bound [OF fok(1) n0 al(7)]
  have gap0: "?off \<noteq> 0" by (rule available_placed [OF fok n0 al(7)])
  have gap: "4096 \<le> ?off" "?off mod 4096 = 0" "?off + ?n \<le> data_end ?f" "\<forall>e \<in> set (st_entries s). clear_of ?off ?n e"
    using find_gap_spec [OF fok bound(2) gap0] by auto
  have sz: "?off + ?n \<le> fl_size ?f" "fl_size ?f \<le> 2 ^ 31" using gap(3) geometry(4) [OF fok(1)] fok(1) by (simp_all add: flash_ok_def)
  obtain g where g: "fl_erase ?off ?n ?f = (True, g)" "\<forall>a. ?off \<le> a \<and> a < ?off + ?n \<longrightarrow> fl_byte g a = 0xFF" "same_outside ?off ?n ?f g"
  proof -
    have m: "?n mod 4096 = 0" using aligned_sum [of 0 ?n] al(6) by simp
    show thesis by (rule fl_erase_working [OF assms(3) sz(1) gap(2) m]) (rule that)
  qed
  define h where "h = snd (tick g)"
  have h: "tick g = (True, h)" "same_outside ?off ?n ?f h" "working h" "\<forall>a. ?off \<le> a \<and> a < ?off + ?n \<longrightarrow> fl_byte h a = 0xFF"
    using working_calls(1) [of g] working_outside [OF g(3)] assms(3) same_outside_trans [OF g(3) same_outside_tick] g(2)
    by (auto simp: h_def read_keeps tick_def working_def)
  let ?s = "(unmap_selected s)\<lparr>st_flash := h\<rparr>"
  let ?u = "\<lparr>up_source = c, up_written = 0, up_hashed = [], up_header = replicate 0x150 0\<rparr>"
  have hs: "fl_size h = fl_size ?f" using h(2) by (simp add: same_outside_def)
  obtain v w where lp: "upload_loop reader ?off ?n ?u ?s = (True, v, w)" "up_hashed v = rom" "working (st_flash w)"
    using upload_loop_working [OF assms(4), of ?u ?s ?off] assms(5) h(3) sz hs by auto
  have hd0: "header_of [] (replicate 0x150 (0 :: u8))" unfolding header_of_def by (intro exI [of _ "replicate 0x150 0"]) simp
  have wsp: "same_outside ?off ?n h (st_flash w)" "same_catalog s w" "st_reload w = st_reload s"
      "bytes_at (st_flash w) ?off ?n = rom" "header_of rom (up_header v)"
    using upload_loop_spec [OF lp(1)] sz hs h(4) hd0 lp(2) by (simp_all add: same_catalog_def bytes_at_def)
  have header: "up_header v = take 0x150 rom" using header_of_full [OF wsp(5)] al(5) by simp
  define x where "x = w\<lparr>st_flash := snd (tick (st_flash w))\<rparr>"
  have so: "same_outside ?off ?n ?f (st_flash x)"
    using same_outside_trans [OF h(2) same_outside_trans [OF wsp(1) same_outside_tick]] by (simp add: x_def)
  have x: "same_catalog s x" "st_reload x = st_reload s" "working (st_flash x)" "bytes_at (st_flash x) ?off ?n = rom"
    using wsp(2-4) lp(3) by (simp_all add: x_def same_catalog_def bytes_at_def read_keeps working_def tick_def)
  have xok: "storage_ok sha x" "data_end (st_flash x) = data_end ?f"
    using data_phase [OF assms(2) so x(1,2) gap(1,3)] by simp_all
  note new = upload_entry [OF assms(2,1) al(3,4,5,6) gap(1,2,3,4), of rom]
  have pre: "flash_ok (st_flash x)" "catalog_ok (data_end (st_flash x)) (st_entries s @ [?e])"
    "\<forall>e \<in> set (st_entries s @ [?e]). entry_fits e"
    using xok new assms(2) by (auto simp: storage_ok_def)
  obtain t where t: "publish_directory sha (st_entries s @ [?e]) x = (True, t)"
    using publish_working [OF assms(1) pre(1) x(3) pre(2,3)] by blast
  note ps = publish_safe [OF assms(1) xok(1) _ t pre(2,3)]
  have live: "\<not> st_reload x" using x(2) al(2) by simp
  have keep: "bytes_at (st_flash t) ?off ?n = bytes_at (st_flash x) ?off ?n"
    by (rule bytes_at_same [OF ps(5) [OF live]]) (use gap(3) xok(2) in simp)
  have xe: "st_entries x = st_entries s" "st_partition x = st_partition s" using x(1) by (simp_all add: same_catalog_def)
  have "gb_storage_upload sha name ?n (Some reader) c s = publish_directory sha (st_entries x @ [?e]) x"
    using al assms(6) bound(1) gap0 g(1) h(1) lp(1,2) header al(5) lp(3) sz
    by (simp add: gb_storage_upload_def storage_sizes Let_def on_flash_eq x_def upload_allowed_def working_def tick_def)
  then have "gb_storage_upload sha name ?n (Some reader) c s = (True, t)" using t xe by simp
  then show ?thesis
    using ps [OF live] working_outside [OF ps(5) [OF live]] x(3,4) xe al(1) keep by auto
qed

lemma upload_then_open:
  assumes "digest_fn sha" "storage_ok sha s" "working (st_flash s)" "serves at reader rom" "at c = 0" "upload_allowed name rom s"
    and "t = snd (gb_storage_upload sha name (length rom) (Some reader) c s)"
  shows "fst (gb_storage_upload sha name (length rom) (Some reader) c s) \<and>
    (\<exists>src. fst (gb_storage_open sha (length (st_entries s)) t) = Some src \<and> cstr (re_name (rs_entry src)) = cstr name \<and>
       bytes_at (st_flash t) (re_offset (rs_entry src)) (re_bytes (rs_entry src)) = rom)"
proof -
  obtain u where u: "gb_storage_upload sha name (length rom) (Some reader) c s = (True, u)" "working (st_flash u)"
      "st_partition u" "storage_ok sha u" "\<not> st_reload u"
      "st_entries u = st_entries s @ [\<lparr>re_name = name_field name, re_offset = find_gap (length rom) s, re_bytes = length rom, re_sha = sha rom\<rparr>]"
      "bytes_at (st_flash u) (find_gap (length rom) s) (length rom) = rom"
    using upload_working [OF assms(1-6)] by blast
  have "u = t" using assms(7) u(1) by simp
  moreover obtain src where src: "fst (gb_storage_open sha (length (st_entries s)) u) = Some src"
    using open_working [OF u(4,2,3,5), of "length (st_entries s)"] u(6,7) by (auto simp: open_ok_def)
  moreover have "rs_entry src = st_entries u ! length (st_entries s)"
    using open_spec [OF prod.collapse [symmetric] u(4)] src by metis
  ultimately show ?thesis using u by (auto simp: name_field_facts)
qed

end
