(* ===== verification/Storage_Properties.thy ===== *)
theory Storage_Properties
  imports Gb_Storage_Works
begin

text \<open>
  The properties of the ROM storage.  Every one holds for every outcome of every flash, allocation and
  hash call; a power cut is an outcome.  The two facts about the environment are \<open>digest_fn\<close>, the
  digest is 32 bytes and never all ones, and, inside \<open>storage_ok\<close>, \<open>junk_refused\<close>: a half-erased
  directory sector does not carry a matching digest.
\<close>

section \<open>A storage to apply them to\<close>

definition demo_sha :: "u8 list \<Rightarrow> u8 list" where
  "demo_sha x = replicate 32 0"

definition demo_flash :: flash where
  "demo_flash = \<lparr>fl_size = 1048576, fl_byte = (\<lambda>a. 0xFF), fl_calls = 0, fl_ok = (\<lambda>n. n < 60), fl_cut = (\<lambda>n. 7),
     fl_junk = (\<lambda>n. None)\<rparr>"

definition demo_storage :: storage where
  "demo_storage = \<lparr>st_flash = demo_flash, st_partition = True, st_entries = [], st_selected = None, st_mapped = False,
     st_slot = None, st_generation = 0, st_trusted = False, st_reload = False, st_read_error = False\<rparr>"

definition demo_reader :: "nat reader" where
  "demo_reader want c = ((int want, (\<lambda>i. 0)), c + want)"

lemma demo_digest: "digest_fn demo_sha"
proof -
  have "replicate 32 (0 :: u8) \<noteq> replicate 32 0xFF" by (rule notI) (drule arg_cong [of _ _ hd], simp)
  then show ?thesis by (simp only: digest_fn_def demo_sha_def length_replicate simp_thms)
qed

lemma demo_blank:
  assumes "fl_byte f = (\<lambda>a. 0xFF)"
  shows "boot_catalog sha f = Some (None, 0, [])"
proof -
  have b: "bytes_at f o' n = replicate n 0xFF" for o' n
    using assms by (simp add: bytes_at_def map_replicate_const)
  have r: "replicate 4 (0xFF :: u8) = [0xFF, 0xFF, 0xFF, 0xFF]" by (simp add: numeral_eq_Suc)
  have "dir_at sha f k = None" for k
    by (simp add: dir_at_def parse_directory_def directory_plausible_def b MAGIC_FGB2_def r)
  then have "boot_slot sha f = None" by (simp add: boot_slot_def pick_copy_def)
  moreover have "legacy_entries f = Some []"
    by (simp add: legacy_entries_def b legacy_header_ok_def MAGIC_FGBR_def r Let_def)
  ultimately show ?thesis by (simp add: boot_catalog_def)
qed

lemma demo_storage_ok: "storage_ok demo_sha demo_storage" "\<not> st_reload demo_storage"
  using demo_blank [of demo_flash] by (simp_all add: storage_ok_def demo_storage_def flash_ok_def junk_refused_def catalog_ok_def demo_flash_def)

section \<open>The catalog\<close>

text \<open>C2.  Every change of the ROM catalog is atomic.  Upload, delete or rename, stopped by a power cut
  or a failing call at any point: after a restart the catalog is the one before the operation or the
  one the operation intends, the storage starts, and an operation that reported success is done.  An
  intended upload includes that the ROM's bytes in flash match the recorded digest and that its header
  names a supported cartridge of that size.\<close>

theorem catalog_change_atomic:
  assumes "digest_fn sha" "storage_ok sha s" "\<not> st_reload s"
  shows "fst (restart sha (snd (run_op sha op s))) \<and>
    (st_entries (snd (restart sha (snd (run_op sha op s)))) = st_entries s \<and> \<not> fst (run_op sha op s) \<or>
     intended sha op (st_flash (snd (run_op sha op s))) (st_entries s) (st_entries (snd (restart sha (snd (run_op sha op s))))))"
  using operation_atomic [OF assms prod.collapse [symmetric]] by blast

lemma catalog_change_atomic_witness:
  "fst (restart demo_sha (snd (run_op demo_sha (Upload [0x52] 32768 (Some demo_reader) 0) demo_storage))) \<and>
    (st_entries (snd (restart demo_sha (snd (run_op demo_sha (Upload [0x52] 32768 (Some demo_reader) 0) demo_storage)))) = st_entries demo_storage \<and>
      \<not> fst (run_op demo_sha (Upload [0x52] 32768 (Some demo_reader) 0) demo_storage) \<or>
     intended demo_sha (Upload [0x52] 32768 (Some demo_reader) 0)
       (st_flash (snd (run_op demo_sha (Upload [0x52] 32768 (Some demo_reader) 0) demo_storage))) (st_entries demo_storage)
       (st_entries (snd (restart demo_sha (snd (run_op demo_sha (Upload [0x52] 32768 (Some demo_reader) 0) demo_storage))))))"
  by (rule catalog_change_atomic [OF demo_digest demo_storage_ok])

text \<open>C8.  The storage invariant is kept by every operation, however it ends: the catalog in memory is
  sane (at most 16 entries with distinct valid names in disjoint, aligned ranges of the data area) and
  is the one a restart would find, unless the code has marked itself as needing a restart; and no
  operation changes a byte of any ROM in the catalog.\<close>

theorem storage_invariant:
  assumes "digest_fn sha" "storage_ok sha s"
  shows "storage_ok sha (snd (run_op sha op s)) \<and>
    untouched (st_entries s) (st_flash s) (st_flash (snd (run_op sha op s)))"
  using run_op_outcome [OF assms prod.collapse [symmetric], of op] by (simp add: outcome_def)

lemma storage_invariant_witness:
  "storage_ok demo_sha (snd (run_op demo_sha (Delete 0 :: nat storage_op) demo_storage)) \<and>
    untouched (st_entries demo_storage) (st_flash demo_storage) (st_flash (snd (run_op demo_sha (Delete 0 :: nat storage_op) demo_storage)))"
  by (rule storage_invariant [OF demo_digest demo_storage_ok(1)])

text \<open>C21.  Start-up reads what is there.  On a working partition \<open>gb_storage_init\<close> finds the newer of the
  directory copies that pass every check, else the table of a partition written by the packing tool,
  else an empty catalog; it fails exactly when a table is present and refused; and the invariant holds.\<close>

theorem startup_reads_catalog:
  assumes "working (st_flash s)" "flash_ok (st_flash s)" "junk_refused sha (st_flash s)"
  shows "fst (gb_storage_init sha True s) = (boot_catalog sha (st_flash s) \<noteq> None) \<and>
    storage_ok sha (snd (gb_storage_init sha True s)) \<and>
    (case boot_catalog sha (st_flash s) of
       Some (k, g, es) \<Rightarrow> st_slot (snd (gb_storage_init sha True s)) = k \<and> st_generation (snd (gb_storage_init sha True s)) = g \<and>
         st_entries (snd (gb_storage_init sha True s)) = es
     | None \<Rightarrow> st_entries (snd (gb_storage_init sha True s)) = [])"
proof -
  obtain t m where t: "gb_storage_init sha True s = (boot_catalog sha (st_flash s) \<noteq> None, t)"
      "case boot_catalog sha (st_flash s) of
         Some (k, g, es) \<Rightarrow> st_slot t = k \<and> st_generation t = g \<and> st_entries t = es \<and> \<not> st_reload t
       | None \<Rightarrow> st_entries t = [] \<and> st_reload t"
    using init_working [OF assms(1,2), of sha] by metis
  then show ?thesis using storage_init_ok [OF assms] by (auto split: option.splits)
qed

lemma startup_reads_catalog_witness:
  "fst (gb_storage_init demo_sha True (demo_storage\<lparr>st_flash := demo_flash\<lparr>fl_ok := (\<lambda>n. True)\<rparr>\<rparr>)) =
     (boot_catalog demo_sha (st_flash (demo_storage\<lparr>st_flash := demo_flash\<lparr>fl_ok := (\<lambda>n. True)\<rparr>\<rparr>)) \<noteq> None) \<and>
    storage_ok demo_sha (snd (gb_storage_init demo_sha True (demo_storage\<lparr>st_flash := demo_flash\<lparr>fl_ok := (\<lambda>n. True)\<rparr>\<rparr>))) \<and>
    (case boot_catalog demo_sha (st_flash (demo_storage\<lparr>st_flash := demo_flash\<lparr>fl_ok := (\<lambda>n. True)\<rparr>\<rparr>)) of
       Some (k, g, es) \<Rightarrow>
         st_slot (snd (gb_storage_init demo_sha True (demo_storage\<lparr>st_flash := demo_flash\<lparr>fl_ok := (\<lambda>n. True)\<rparr>\<rparr>))) = k \<and>
         st_generation (snd (gb_storage_init demo_sha True (demo_storage\<lparr>st_flash := demo_flash\<lparr>fl_ok := (\<lambda>n. True)\<rparr>\<rparr>))) = g \<and>
         st_entries (snd (gb_storage_init demo_sha True (demo_storage\<lparr>st_flash := demo_flash\<lparr>fl_ok := (\<lambda>n. True)\<rparr>\<rparr>))) = es
     | None \<Rightarrow> st_entries (snd (gb_storage_init demo_sha True (demo_storage\<lparr>st_flash := demo_flash\<lparr>fl_ok := (\<lambda>n. True)\<rparr>\<rparr>))) = [])"
  by (rule startup_reads_catalog) (simp_all add: working_def flash_ok_def junk_refused_def demo_flash_def)

text \<open>C37.  What is shown as available can be used: a ROM no larger than \<open>gb_storage_available\<close> has a
  place, sector-aligned, inside the data area and clear of every stored ROM.\<close>

theorem free_space_usable:
  assumes "storage_ok sha s" "0 < n" "n \<le> gb_storage_available s"
  shows "4096 \<le> find_gap n s \<and> find_gap n s mod 4096 = 0 \<and> find_gap n s + n \<le> data_end (st_flash s) \<and>
    (\<forall>e \<in> set (st_entries s). clear_of (find_gap n s) n e)"
proof -
  have ok: "flash_ok (st_flash s)" "catalog_ok (data_end (st_flash s)) (st_entries s)"
    using assms(1) by (simp_all add: storage_ok_def)
  show ?thesis by (rule find_gap_spec [OF ok available_bound(2) [OF ok(1) assms(2,3)] available_placed [OF ok assms(2,3)]])
qed

lemma free_space_usable_witness:
  "4096 \<le> find_gap 32768 demo_storage \<and> find_gap 32768 demo_storage + 32768 \<le> data_end (st_flash demo_storage)"
proof -
  have "(32768 :: nat) \<le> gb_storage_available demo_storage"
    by (simp add: gb_storage_available_def demo_storage_def demo_flash_def gb_storage_used_def gb_storage_limit_def
        storage_sizes data_end_def best_region.simps)
  from free_space_usable [OF demo_storage_ok(1) _ this] show ?thesis by simp
qed

text \<open>C13.  A valid ROM is received and can be played: on a working partition, with a reader that delivers
  it, an upload that the guards allow (a valid new name, a free entry, a supported header of the ROM's
  size, available space) succeeds, and the new entry then opens with exactly the bytes sent.\<close>

theorem upload_opens:
  assumes "digest_fn sha" "storage_ok sha s" "working (st_flash s)" "serves at reader rom" "at c = 0" "upload_allowed name rom s"
    and "t = snd (gb_storage_upload sha name (length rom) (Some reader) c s)"
  shows "fst (gb_storage_upload sha name (length rom) (Some reader) c s) \<and>
    (\<exists>src. fst (gb_storage_open sha (length (st_entries s)) t) = Some src \<and> cstr (re_name (rs_entry src)) = cstr name \<and>
       bytes_at (st_flash t) (re_offset (rs_entry src)) (re_bytes (rs_entry src)) = rom)"
  by (rule upload_then_open [OF assms])

definition demo_working :: storage where
  "demo_working = demo_storage\<lparr>st_flash := demo_flash\<lparr>fl_ok := (\<lambda>n. True)\<rparr>\<rparr>"

definition demo_rom :: "u8 list" where
  "demo_rom = replicate 32768 0"

lemma demo_serves: "serves id demo_reader demo_rom"
  by (auto simp: serves_def demo_reader_def demo_rom_def)

lemma demo_working_ok: "storage_ok demo_sha demo_working" "working (st_flash demo_working)"
proof -
  have "boot_catalog demo_sha (st_flash demo_working) = Some (None, 0, [])"
    by (rule demo_blank) (simp add: demo_working_def demo_flash_def)
  then show "storage_ok demo_sha demo_working"
    by (simp add: storage_ok_def demo_working_def demo_storage_def flash_ok_def junk_refused_def catalog_ok_def demo_flash_def)
  show "working (st_flash demo_working)" by (simp add: demo_working_def working_def)
qed

lemma demo_allowed: "upload_allowed [0x52] demo_rom demo_working"
proof -
  have "gb_name_valid [0x52]"
    unfolding name_valid_iff by (auto intro!: exI [of _ "[0x52]"] simp: cstr_def utf8_def name_char_def)
  then have v: "valid_name [0x52] None demo_working" by (simp add: valid_name_def demo_working_def demo_storage_def)
  have "32768 \<le> gb_storage_available demo_working"
    by (simp add: gb_storage_available_def demo_working_def demo_storage_def demo_flash_def gb_storage_used_def gb_storage_limit_def
      storage_sizes data_end_def best_region.simps)
  then show ?thesis
    using v by (simp add: upload_allowed_def demo_rom_def supported_type_def declared_rom_size_s_def)
      (simp add: demo_working_def demo_storage_def)
qed

lemma upload_opens_witness:
  "fst (gb_storage_upload demo_sha [0x52] (length demo_rom) (Some demo_reader) 0 demo_working) \<and>
    (\<exists>src. fst (gb_storage_open demo_sha (length (st_entries demo_working))
          (snd (gb_storage_upload demo_sha [0x52] (length demo_rom) (Some demo_reader) 0 demo_working))) = Some src \<and>
       cstr (re_name (rs_entry src)) = cstr [0x52] \<and>
       bytes_at (st_flash (snd (gb_storage_upload demo_sha [0x52] (length demo_rom) (Some demo_reader) 0 demo_working)))
         (re_offset (rs_entry src)) (re_bytes (rs_entry src)) = demo_rom)"
  by (rule upload_opens [OF demo_digest demo_working_ok demo_serves _ demo_allowed]) simp_all

text \<open>C36.  A damaged ROM is not played: whatever calls fail, if \<open>gb_storage_open\<close> succeeds, every byte of
  the ROM in flash, and of the mapping it hands out, matches the recorded digest.\<close>

theorem opened_rom_intact:
  assumes "storage_ok sha s" "fst (gb_storage_open sha i s) = Some src"
  shows "i < length (st_entries s) \<and> rs_entry src = st_entries s ! i \<and>
    sha (bytes_at (st_flash s) (re_offset (rs_entry src)) (re_bytes (rs_entry src))) = re_sha (rs_entry src) \<and>
    (rs_mapped src = None \<or> rs_mapped src = Some (bytes_at (st_flash s) (re_offset (rs_entry src)) (re_bytes (rs_entry src))))"
  using open_spec [OF prod.collapse [symmetric] assms(1), of i] assms(2) by (cases "rs_mapped src") (auto simp: open_ok_def)

lemma opened_rom_intact_witness:
  "\<exists>t src. storage_ok demo_sha t \<and> fst (gb_storage_open demo_sha 0 t) = Some src \<and>
    0 < length (st_entries t) \<and> rs_entry src = st_entries t ! 0 \<and>
    demo_sha (bytes_at (st_flash t) (re_offset (rs_entry src)) (re_bytes (rs_entry src))) = re_sha (rs_entry src)"
proof -
  obtain t where t: "storage_ok demo_sha t" "working (st_flash t)" "st_partition t" "\<not> st_reload t" "st_entries t \<noteq> []"
      "open_ok demo_sha (st_entries t ! 0) (st_flash t)"
    using upload_working [OF demo_digest demo_working_ok demo_serves _ demo_allowed, of 0]
    by (auto simp: demo_working_def demo_storage_def open_ok_def)
  obtain src where src: "fst (gb_storage_open demo_sha 0 t) = Some src"
    using open_working [OF t(1-4) _ t(6)] t(5) by auto
  show ?thesis using opened_rom_intact [OF t(1) src] t(1) src by blast
qed

end
