(* ===== verification/Gb_Saves.thy ===== *)
theory Gb_Saves
  imports Gb_Port Gb_Storage Two_Copies "HOL-Library.AList"
begin

text \<open>
  Saved games (main/gb_saves.c): save RAM and clock of a cartridge in two files per ROM, \<open>.a\<close> and \<open>.b\<close>,
  each with a sequence number and a CRC; a save goes to the file that does not hold the latest one.

  The file system is the list of the files of its directory with their contents, in directory order;
  every path the code uses is in that directory.  Calls that read and
  calls that write are numbered separately and may each fail; a write that fails leaves some prefix
  of what the file would hold (\<open>sf_cut\<close>), which is also what a power cut leaves of buffered data.
\<close>

section \<open>The file system\<close>

record save_fs =
  sf_files :: "(cstring \<times> u8 list) list"
  sf_mounted :: bool
  sf_reads :: nat
  sf_read_ok :: "nat \<Rightarrow> bool"
  sf_writes :: nat
  sf_write_ok :: "nat \<Rightarrow> bool"
  sf_cut :: "nat \<Rightarrow> nat"

definition GB_SAVES_PREFIX :: cstring where
  "GB_SAVES_PREFIX = [0x2F, 0x73, 0x61, 0x76, 0x65, 0x73, 0x2F]" \<comment> \<open>/saves/\<close>

definition base_name :: "cstring \<Rightarrow> cstring" where
  "base_name path = drop (length GB_SAVES_PREFIX) path"

definition sf_file :: "save_fs \<Rightarrow> cstring \<Rightarrow> u8 list option" where
  "sf_file s path = map_of (sf_files s) (base_name path)"

definition read_call :: "save_fs \<Rightarrow> bool \<times> save_fs" where
  "read_call s = (sf_read_ok s (sf_reads s), s\<lparr>sf_reads := sf_reads s + 1\<rparr>)"

definition write_call :: "save_fs \<Rightarrow> bool \<times> save_fs" where
  "write_call s = (sf_write_ok s (sf_writes s), s\<lparr>sf_writes := sf_writes s + 1\<rparr>)"

text \<open>\<open>fopen\<close> for reading: the content, if the file is there.\<close>

definition fs_open :: "cstring \<Rightarrow> save_fs \<Rightarrow> u8 list option \<times> save_fs" where
  "fs_open path s = (let (ok, t) = read_call s in (if ok then sf_file s path else None, t))"

text \<open>\<open>fread\<close> of \<open>n > 0\<close> bytes at a position, short at the end of the file or when it fails; \<open>fgetc\<close>.\<close>

definition sf_fread :: "u8 list \<Rightarrow> nat \<Rightarrow> nat \<Rightarrow> save_fs \<Rightarrow> u8 list \<times> save_fs" where
  "sf_fread content pos n s = (let (ok, s) = read_call s in (if ok then take n (drop pos content) else [], s))"

definition fs_getc :: "u8 list \<Rightarrow> nat \<Rightarrow> save_fs \<Rightarrow> u8 option \<times> save_fs" where
  "fs_getc content pos s =
     (let (ok, s) = read_call s in (if ok \<and> pos < length content then Some (content ! pos) else None, s))"

definition put_file :: "cstring \<Rightarrow> u8 list \<Rightarrow> save_fs \<Rightarrow> save_fs" where
  "put_file path content s = s\<lparr>sf_files := AList.update (base_name path) content (sf_files s)\<rparr>"

text \<open>\<open>fopen\<close> for writing: empties or creates the file; if it fails the file is as it was or empty.\<close>

definition fs_create :: "cstring \<Rightarrow> save_fs \<Rightarrow> bool \<times> save_fs" where
  "fs_create path s =
     (let (ok, t) = write_call s
      in if ok then (True, put_file path [] t)
         else (False, if sf_cut s (sf_writes s) = 0 then t else put_file path [] t))"

text \<open>\<open>fwrite\<close>, and \<open>fflush\<close>, \<open>fsync\<close> and \<open>fclose\<close>, which write nothing new.\<close>

definition fs_append :: "cstring \<Rightarrow> u8 list \<Rightarrow> save_fs \<Rightarrow> bool \<times> save_fs" where
  "fs_append path bytes s =
     (let (ok, t) = write_call s; content = (case sf_file s path of None \<Rightarrow> [] | Some c \<Rightarrow> c) @ bytes
      in (ok, put_file path (if ok then content else take (sf_cut s (sf_writes s)) content) t))"

definition fs_remove :: "cstring \<Rightarrow> save_fs \<Rightarrow> bool \<times> save_fs" where
  "fs_remove path s =
     (let (ok, t) = write_call s
      in if sf_file s path = None then (True, t) \<comment> \<open>ENOENT\<close>
         else if ok then (True, t\<lparr>sf_files := AList.delete (base_name path) (sf_files t)\<rparr>) else (False, t))"

section \<open>Names and checksums\<close>

definition crc_bit :: "u32 \<Rightarrow> u32" where
  "crc_bit crc = drop_bit 1 crc XOR (0xedb88320 AND (0 - (crc AND 1)))"

definition crc_update :: "u32 \<Rightarrow> u8 list \<Rightarrow> u32" where
  "crc_update crc bytes = fold (\<lambda>b crc. (crc_bit ^^ 8) (crc XOR ucast b)) bytes crc"

definition save_name :: "u8 list \<Rightarrow> cstring" where
  "save_name hash = concat (map (\<lambda>b. [hex_char (drop_bit 4 b), hex_char (b AND 15)]) (take 8 hash))"

definition save_path :: "u8 list \<Rightarrow> u8 \<Rightarrow> cstring" where
  "save_path hash copy = GB_SAVES_PREFIX @ save_name hash @ [0x2E, copy]"

abbreviation COPY_A :: u8 where "COPY_A \<equiv> 0x61"
abbreviation COPY_B :: u8 where "COPY_B \<equiv> 0x62"

section \<open>Checking a copy\<close>

definition MAGIC_FGBS :: "u8 list" where "MAGIC_FGBS = [0x46, 0x47, 0x42, 0x53]"

text \<open>\<open>save_header_t\<close>: 52 bytes, packed.\<close>

definition save_header :: "u32 \<Rightarrow> nat \<Rightarrow> u8 list \<Rightarrow> u8 list" where
  "save_header sequence sram hash = MAGIC_FGBS @ le 2 1 @ le 2 0 @ le 4 (unat sequence) @ le 4 sram @ hash"

definition header_sequence :: "u8 list \<Rightarrow> u32" where
  "header_sequence h = of_nat (nat_of_le (take 4 (drop 8 h)))"

definition header_crc :: "u8 list \<Rightarrow> u32" where
  "header_crc h = of_nat (nat_of_le (take 4 (drop 48 h)))"

definition header_matches :: "u8 list \<Rightarrow> nat \<Rightarrow> u8 list \<Rightarrow> bool" where
  "header_matches hash sram h \<longleftrightarrow>
     length h = 52 \<and> take 4 h = MAGIC_FGBS \<and> nat_of_le (take 2 (drop 4 h)) = 1 \<and> nat_of_le (take 2 (drop 6 h)) = 0 \<and>
     nat_of_le (take 4 (drop 12 h)) = sram \<and> take 32 (drop 16 h) = hash"

text \<open>The rest of the file, 512 bytes at a time.\<close>

function check_loop :: "u8 list \<Rightarrow> nat \<Rightarrow> nat \<Rightarrow> u32 \<Rightarrow> save_fs \<Rightarrow> (u32 \<times> nat) option \<times> save_fs" where
  "check_loop content pos remaining crc s =
     (if remaining = 0 then (Some (crc, pos), s)
      else
        let n = min remaining 512; (chunk, s) = sf_fread content pos n s
        in if length chunk = n then check_loop content (pos + n) (remaining - n) (crc_update crc chunk) s
           else (None, s))"
  by pat_completeness auto
termination
  by (relation "measure (\<lambda>(content, pos, remaining, crc, s). remaining)") auto

definition check_copy :: "cstring \<Rightarrow> u8 list \<Rightarrow> nat \<Rightarrow> save_fs \<Rightarrow> u8 list option \<times> save_fs" where
  "check_copy path hash sram s =
     (case fs_open path s of
        (None, s) \<Rightarrow> (None, s)
      | (Some content, s) \<Rightarrow>
          let (h, s) = sf_fread content 0 52 s;
              (valid, s) =
                (if header_matches hash sram h then
                   (case check_loop content 52 (sram + 10) (crc_update 0xFFFFFFFF (take 48 h)) s of
                      (None, s) \<Rightarrow> (False, s)
                    | (Some (crc, pos), s) \<Rightarrow>
                        let (c, s) = fs_getc content pos s in (c = None \<and> crc XOR 0xFFFFFFFF = header_crc h, s))
                 else (False, s));
              (closed, s) = read_call s
          in (if closed \<and> valid then Some h else None, s))"

definition exists_file :: "cstring \<Rightarrow> save_fs \<Rightarrow> bool \<times> save_fs" where
  "exists_file path s =
     (case fs_open path s of (None, s) \<Rightarrow> (False, s) | (Some content, s) \<Rightarrow> (True, snd (read_call s)))"

text \<open>Which copy is the later one: \<open>(int32_t)(ha.sequence - hb.sequence) > 0\<close>.\<close>

definition later :: "u32 \<Rightarrow> u32 \<Rightarrow> bool" where
  "later a b \<longleftrightarrow> 0 < sint (a - b)"

section \<open>Loading\<close>

datatype gb_save_result = GB_SAVE_EMPTY | GB_SAVE_LOADED | GB_SAVE_ERROR

text \<open>The loop that copies save RAM into the session; the outer \<open>None\<close> is an access outside a buffer.\<close>

function load_loop :: "u8 list \<Rightarrow> nat \<Rightarrow> nat \<Rightarrow> gb_session \<Rightarrow> save_fs \<Rightarrow> (bool \<times> gb_session \<times> save_fs) option" where
  "load_loop content sram offset x s =
     (if sram \<le> offset then Some (True, x, s)
      else
        let n = min (sram - offset) 512; (chunk, s) = sf_fread content (52 + offset) n s
        in if length chunk \<noteq> n then Some (False, x, s)
           else
             case gb_port_write_sram offset chunk x of
               None \<Rightarrow> None
             | Some (ok, x) \<Rightarrow> if ok then load_loop content sram (offset + 512) x s else Some (False, x, s))"
  by pat_completeness auto
termination
  by (relation "measure (\<lambda>(content, sram, offset, x, s). sram - offset)") auto

definition load_from_file :: "cstring \<Rightarrow> nat \<Rightarrow> gb_session \<Rightarrow> save_fs \<Rightarrow> (gb_save_result \<times> gb_session \<times> save_fs) option" where
  "load_from_file path sram x s =
     (case fs_open path s of
        (None, s) \<Rightarrow> Some (GB_SAVE_ERROR, x, s)
      | (Some content, s) \<Rightarrow>
          let (okay, s) = read_call s \<comment> \<open>fseek\<close> in
          do {
            (okay, x, s) \<leftarrow> (if okay then load_loop content sram 0 x s else Some (False, x, s));
            (okay, x, s) \<leftarrow>
              (if \<not> okay then Some (False, x, s)
               else
                 let (clock, s) = sf_fread content (52 + sram) 10 s
                 in if length clock \<noteq> 10 then Some (False, x, s)
                    else map_option (\<lambda>x. (True, x, s)) (gb_port_import_rtc clock x));
            let (closed, s) = read_call s;
            (if closed \<and> okay then Some (GB_SAVE_LOADED, gb_port_mark_saved x, s) else Some (GB_SAVE_ERROR, x, s))
          })"

definition gb_saves_load :: "gb_session \<Rightarrow> u8 list \<Rightarrow> save_fs \<Rightarrow> (gb_save_result \<times> gb_session \<times> save_fs) option" where
  "gb_saves_load x hash s =
     (if \<not> gb_port_has_battery x then Some (GB_SAVE_EMPTY, x, s)
      else
        let sram = gb_port_sram_size x;
            a = save_path hash COPY_A; b = save_path hash COPY_B;
            (ha, s) = check_copy a hash sram s;
            (hb, s) = check_copy b hash sram s
        in case (ha, hb) of
             (None, None) \<Rightarrow>
               let (ea, s) = exists_file a s;
                   (e, s) = (if ea then (True, s) else exists_file b s)
               in Some (if e then GB_SAVE_ERROR else GB_SAVE_EMPTY, x, s)
           | _ \<Rightarrow>
               let path = (if ha \<noteq> None \<and> (hb = None \<or> later (header_sequence (the ha)) (header_sequence (the hb))) then a else b)
               in load_from_file path sram x s)"

section \<open>Saving\<close>

function sum_loop :: "nat \<Rightarrow> nat \<Rightarrow> u32 \<Rightarrow> gb_session \<Rightarrow> u32 option option" where
  "sum_loop sram offset crc x =
     (if sram \<le> offset then Some (Some crc)
      else
        case gb_port_read_sram offset (min (sram - offset) 512) x of
          None \<Rightarrow> None
        | Some None \<Rightarrow> Some None
        | Some (Some chunk) \<Rightarrow> sum_loop sram (offset + 512) (crc_update crc chunk) x)"
  by pat_completeness auto
termination
  by (relation "measure (\<lambda>(sram, offset, crc, x). sram - offset)") auto

function save_loop :: "cstring \<Rightarrow> nat \<Rightarrow> nat \<Rightarrow> gb_session \<Rightarrow> save_fs \<Rightarrow> (bool \<times> save_fs) option" where
  "save_loop path sram offset x s =
     (if sram \<le> offset then Some (True, s)
      else
        case gb_port_read_sram offset (min (sram - offset) 512) x of
          None \<Rightarrow> None
        | Some None \<Rightarrow> Some (False, s)
        | Some (Some chunk) \<Rightarrow>
            let (ok, s) = fs_append path chunk s
            in if ok then save_loop path sram (offset + 512) x s else Some (False, s))"
  by pat_completeness auto
termination
  by (relation "measure (\<lambda>(path, sram, offset, x, s). sram - offset)") auto

text \<open>A step of a chain of calls that stops at the first failure.\<close>

definition then_call :: "(save_fs \<Rightarrow> bool \<times> save_fs) \<Rightarrow> bool \<times> save_fs \<Rightarrow> bool \<times> save_fs" where
  "then_call f r = (case r of (ok, s) \<Rightarrow> if ok then f s else (False, s))"

text \<open>The file operations of a save: header, save RAM, clock, then the data is forced out.\<close>

definition save_to_file :: "cstring \<Rightarrow> u8 list \<Rightarrow> u8 list \<Rightarrow> nat \<Rightarrow> gb_session \<Rightarrow> save_fs \<Rightarrow> (bool \<times> save_fs) option" where
  "save_to_file path header clock sram x s =
     (case fs_create path s of
        (False, s) \<Rightarrow> Some (False, s)
      | (True, s) \<Rightarrow>
          do {
            let (okay, s) = fs_append path header s;
            r \<leftarrow> (if okay then save_loop path sram 0 x s else Some (False, s));
            let (okay, s) = then_call (fs_append path []) (then_call (fs_append path []) (then_call (fs_append path clock) r));
            let (closed, s) = fs_append path [] s;
            Some (closed \<and> okay, s)
          })"

text \<open>The save itself, once the file and the sequence are chosen.\<close>

definition save_as :: "cstring \<Rightarrow> u32 \<Rightarrow> gb_session \<Rightarrow> u8 list \<Rightarrow> save_fs \<Rightarrow> (bool \<times> gb_session \<times> save_fs) option" where
  "save_as target sequence x hash s =
     (let sram = gb_port_sram_size x; h = save_header sequence sram hash
      in do {
           crc \<leftarrow> sum_loop sram 0 (crc_update 0xFFFFFFFF h) x;
           (case crc of
              None \<Rightarrow> Some (False, x, s)
            | Some crc \<Rightarrow>
                let (clock, x) = gb_port_export_rtc x;
                    header = h @ le 4 (unat (crc_update crc clock XOR 0xFFFFFFFF))
                in do {
                     (okay, s) \<leftarrow> save_to_file target header clock sram x s;
                     (if \<not> okay then Some (False, x, s)
                      else case check_copy target hash sram s of
                        (None, s) \<Rightarrow> Some (False, x, s)
                      | (Some v, s) \<Rightarrow> Some (True, gb_port_mark_saved x, s))
                   })
         })"

definition gb_saves_write :: "gb_session \<Rightarrow> u8 list \<Rightarrow> save_fs \<Rightarrow> (bool \<times> gb_session \<times> save_fs) option" where
  "gb_saves_write x hash s =
     (if \<not> gb_port_has_battery x \<or> \<not> gb_port_needs_save x then Some (True, x, s)
      else
        let sram = gb_port_sram_size x;
            a = save_path hash COPY_A; b = save_path hash COPY_B;
            (ha, s) = check_copy a hash sram s;
            (hb, s) = check_copy b hash sram s;
            none = (ha = None \<and> hb = None);
            (ea, s) = (if none then exists_file a s else (False, s));
            (eb, s) = (if none \<and> ea then exists_file b s else (False, s))
        in if none \<and> ea \<and> eb then Some (False, x, s)
           else
             let newer_a = later (header_sequence (the ha)) (header_sequence (the hb));
                 latest = (if ha \<noteq> None \<and> (hb = None \<or> newer_a) then header_sequence (the ha)
                           else if hb \<noteq> None then header_sequence (the hb) else 0);
                 (ea, s) = (if none then exists_file a s else (False, s));
                 target = (if none then (if ea then b else a) else if ha = None then a else if hb = None then b
                           else if newer_a then b else a)
             in save_as target (latest + 1) x hash s)"

section \<open>Removing saves\<close>

definition remove_copy :: "cstring \<Rightarrow> save_fs \<Rightarrow> bool \<times> save_fs" where
  "remove_copy path s = fs_remove path s"

definition gb_saves_init :: "bool \<Rightarrow> save_fs \<Rightarrow> bool \<times> save_fs" where
  "gb_saves_init registered s = (registered, s\<lparr>sf_mounted := registered\<rparr>)"

definition gb_saves_delete :: "u8 list \<Rightarrow> save_fs \<Rightarrow> bool \<times> save_fs" where
  "gb_saves_delete hash s =
     (if \<not> sf_mounted s then (False, s)
      else
        let (first, s) = remove_copy (save_path hash COPY_A) s;
            (second, s) = remove_copy (save_path hash COPY_B) s
        in (first \<and> second, s))"

definition live_save_name :: "rom_entry list \<Rightarrow> cstring \<Rightarrow> bool" where
  "live_save_name roms name \<longleftrightarrow> list_ex (\<lambda>e. take 16 name = save_name (re_sha e)) roms"

definition hex_name_char :: "u8 \<Rightarrow> bool" where
  "hex_name_char c \<longleftrightarrow> 0x30 \<le> c \<and> c \<le> 0x39 \<or> 0x61 \<le> c \<and> c \<le> 0x66"

definition orphan :: "rom_entry list \<Rightarrow> cstring \<Rightarrow> bool" where
  "orphan roms name \<longleftrightarrow>
     length name = 18 \<and> name ! 16 = 0x2E \<and> (name ! 17 = COPY_A \<or> name ! 17 = COPY_B) \<and>
     list_all hex_name_char (take 16 name) \<and> \<not> live_save_name roms name"

lemma remove_listed:
  assumes "remove_copy (GB_SAVES_PREFIX @ name) s = (r, t)" "name \<in> fst ` set (sf_files s)"
  shows "r \<Longrightarrow> length (sf_files t) < length (sf_files s)" "\<not> r \<Longrightarrow> sf_files t = sf_files s"
proof -
  have "sf_file s (GB_SAVES_PREFIX @ name) \<noteq> None"
    using assms(2) by (simp add: sf_file_def base_name_def map_of_eq_None_iff)
  with assms show "r \<Longrightarrow> length (sf_files t) < length (sf_files s)" "\<not> r \<Longrightarrow> sf_files t = sf_files s"
    by (auto simp: remove_copy_def fs_remove_def write_call_def Let_def base_name_def AList.delete_eq
        intro!: length_filter_less split: if_splits)
qed

text \<open>The directory scan; it starts again after every removal.\<close>

function prune_loop :: "rom_entry list \<Rightarrow> nat \<Rightarrow> bool \<Rightarrow> save_fs \<Rightarrow> bool \<times> save_fs" where
  "prune_loop roms i okay s =
     (let (ok, t) = read_call s in
      if \<not> ok then (False, t)
      else if length (sf_files s) \<le> i then (okay, t)
      else
        let name = fst (sf_files s ! i) in
        if \<not> orphan roms name then prune_loop roms (i + 1) okay t
        else
          case remove_copy (GB_SAVES_PREFIX @ name) t of
            (True, u) \<Rightarrow> prune_loop roms 0 okay u
          | (False, u) \<Rightarrow> prune_loop roms (i + 1) False u)"
  by pat_completeness auto
termination
proof (relation "measures [\<lambda>(roms, i, okay, s). length (sf_files s), \<lambda>(roms, i, okay, s). length (sf_files s) - i]", goal_cases)
  case (2 roms i okay s x ok t)
  then show ?case by (auto simp: read_call_def)
next
  case (3 roms i okay s x ok t name z u)
  have f: "sf_files t = sf_files s" using 3 by (auto simp: read_call_def)
  show ?case using remove_listed(1) [of name t True u] 3 f nth_mem [of i "sf_files s"] by simp
next
  case (4 roms i okay s x ok t name z u)
  have f: "sf_files t = sf_files s" using 4 by (auto simp: read_call_def)
  have rm: "remove_copy (GB_SAVES_PREFIX @ fst (sf_files s ! i)) t = (False, u)" using 4 by simp
  have "sf_files u = sf_files s"
    using remove_listed(2) [OF rm] 4 f nth_mem [of i "sf_files s"] by simp
  then show ?case using 4 by (simp add: rm [simplified])
qed simp

definition gb_saves_prune_orphans :: "storage \<Rightarrow> save_fs \<Rightarrow> bool \<times> save_fs" where
  "gb_saves_prune_orphans st s =
     (if \<not> sf_mounted s \<or> \<not> st_trusted st then (False, s)
      else
        let (opened, s) = read_call s in
        if \<not> opened then (False, s)
        else
          let (okay, s) = prune_loop (st_entries st) 0 True s; (closed, s) = read_call s
          in (okay \<and> closed, s))"

declare check_loop.simps [simp del] load_loop.simps [simp del] sum_loop.simps [simp del]
  save_loop.simps [simp del] prune_loop.simps [simp del]

end
