(* ===== verification/Gb_Saves_Safe.thy ===== *)
theory Gb_Saves_Safe
  imports Gb_Saves
begin

text \<open>
  What the save files hold before and after \<open>gb_saves_write\<close>, whatever writes fail: the copies of a
  save as sequence and payload, the file calls as changes of one file, and the choice of the copy
  written as an instance of \<open>two_copies\<close>.
\<close>

section \<open>Reading\<close>

definition reads_ok :: "save_fs \<Rightarrow> bool" where
  "reads_ok s \<longleftrightarrow> (\<forall>k. sf_read_ok s k)"

text \<open>Two states that differ in the number of reads only.\<close>

definition reading :: "save_fs \<Rightarrow> save_fs \<Rightarrow> bool" where
  "reading s t \<longleftrightarrow>
     sf_files t = sf_files s \<and> sf_mounted t = sf_mounted s \<and> sf_read_ok t = sf_read_ok s \<and>
     sf_writes t = sf_writes s \<and> sf_write_ok t = sf_write_ok s \<and> sf_cut t = sf_cut s"

lemma reading_refl [simp]: "reading s s" by (simp add: reading_def)

lemma reading_trans: "reading s t \<Longrightarrow> reading t u \<Longrightarrow> reading s u" by (simp add: reading_def)

lemma reading_file: "reading s t \<Longrightarrow> sf_file t path = sf_file s path"
  by (simp add: reading_def sf_file_def)

lemma reading_reads_ok: "reading s t \<Longrightarrow> reads_ok t = reads_ok s"
  by (simp add: reading_def reads_ok_def)

lemma read_call_reading: "read_call s = (ok, t) \<Longrightarrow> reading s t" "reads_ok s \<Longrightarrow> fst (read_call s)"
  by (auto simp: read_call_def reading_def reads_ok_def)

lemma fs_open_works:
  assumes "reads_ok s"
  obtains t where "fs_open path s = (sf_file s path, t)" "reading s t"
  using that [of "s\<lparr>sf_reads := sf_reads s + 1\<rparr>"] assms
  by (simp add: fs_open_def read_call_def reads_ok_def reading_def)

lemma sf_fread_works:
  assumes "reads_ok s"
  obtains t where "sf_fread content pos n s = (take n (drop pos content), t)" "reading s t"
  using that [of "s\<lparr>sf_reads := sf_reads s + 1\<rparr>"] assms
  by (simp add: sf_fread_def read_call_def reads_ok_def reading_def)

lemma fs_getc_works:
  assumes "reads_ok s"
  obtains t where "fs_getc content pos s = (if pos < length content then Some (content ! pos) else None, t)" "reading s t"
  using that [of "s\<lparr>sf_reads := sf_reads s + 1\<rparr>"] assms
  by (simp add: fs_getc_def read_call_def reads_ok_def reading_def)

lemma crc_update_append: "crc_update crc (xs @ ys) = crc_update (crc_update crc xs) ys"
  by (simp add: crc_update_def)

lemma check_loop_works:
  assumes "reads_ok s"
  shows "\<exists>t. reading s t \<and> check_loop content pos n crc s =
    (if n = 0 \<or> pos + n \<le> length content then Some (crc_update crc (take n (drop pos content)), pos + n) else None, t)"
  using assms
proof (induction content pos n crc s rule: check_loop.induct)
  case (1 content pos n crc s)
  show ?case
  proof (cases "n = 0")
    case True
    then show ?thesis by (intro exI [of _ s]) (simp add: check_loop.simps crc_update_def)
  next
    case False
    let ?m = "min n 512" and ?chunk = "take (min n 512) (drop pos content)"
    obtain u where u: "sf_fread content pos ?m s = (?chunk, u)" "reading s u" using sf_fread_works [OF "1.prems"] .
    show ?thesis
    proof (cases "length ?chunk = ?m")
      case short: False
      then show ?thesis using False u by (intro exI [of _ u]) (subst check_loop.simps, auto)
    next
      case True
      obtain t where t: "reading u t" "check_loop content (pos + ?m) (n - ?m) (crc_update crc ?chunk) u =
        (if n - ?m = 0 \<or> pos + ?m + (n - ?m) \<le> length content
         then Some (crc_update (crc_update crc ?chunk) (take (n - ?m) (drop (pos + ?m) content)), pos + ?m + (n - ?m))
         else None, t)"
        using "1.IH" [OF False refl u(1) [symmetric] refl True] "1.prems" u(2) by (auto simp: reading_reads_ok)
      have "take n (drop pos content) = ?chunk @ take (n - ?m) (drop (pos + ?m) content)"
        using take_add [of ?m "n - ?m" "drop pos content"] by (simp add: add.commute)
      moreover have "check_loop content pos n crc s = check_loop content (pos + ?m) (n - ?m) (crc_update crc ?chunk) u"
        using True False u(1) by (subst check_loop.simps) (simp add: Let_def)
      moreover have "n - ?m = 0 \<or> pos + ?m + (n - ?m) \<le> length content \<longleftrightarrow> pos + n \<le> length content"
        using True False by auto
      ultimately show ?thesis
        using t False reading_trans [OF u(2) t(1)] by (intro exI [of _ t]) (simp add: crc_update_append)
    qed
  qed
qed

text \<open>A copy that is believed: right length, header and checksum.\<close>

definition copy_ok :: "u8 list \<Rightarrow> nat \<Rightarrow> u8 list \<Rightarrow> bool" where
  "copy_ok hash sram c \<longleftrightarrow>
     length c = 62 + sram \<and> header_matches hash sram (take 52 c) \<and>
     crc_update 0xFFFFFFFF (take 48 c @ drop 52 c) XOR 0xFFFFFFFF = header_crc (take 52 c)"

lemma check_copy_works:
  assumes "reads_ok s"
  obtains t where "reading s t"
    "check_copy path hash sram s =
       (case sf_file s path of None \<Rightarrow> None | Some c \<Rightarrow> if copy_ok hash sram c then Some (take 52 c) else None, t)"
proof -
  obtain s1 where s1: "fs_open path s = (sf_file s path, s1)" "reading s s1" using fs_open_works [OF assms] .
  have ok1: "reads_ok s1" using assms s1(2) by (simp add: reading_reads_ok)
  show thesis
  proof (cases "sf_file s path")
    case None
    then show thesis using that [of s1] s1 by (simp add: check_copy_def)
  next
    case (Some c)
    obtain s2 where s2: "sf_fread c 0 52 s1 = (take 52 (drop 0 c), s2)" "reading s1 s2" using sf_fread_works [OF ok1] .
    have ok2: "reads_ok s2" using ok1 s2(2) by (simp add: reading_reads_ok)
    show thesis
    proof (cases "header_matches hash sram (take 52 c)")
      case False
      obtain b t where t: "read_call s2 = (b, t)" by (cases "read_call s2")
      have "reading s t" using s1 s2 t by (metis read_call_reading(1) reading_trans)
      then show thesis using that [of t] s1 s2 t Some False by (simp add: check_copy_def copy_ok_def)
    next
      case True
      then have len: "52 \<le> length c" by (auto simp: header_matches_def)
      let ?crc = "crc_update 0xFFFFFFFF (take 48 (take 52 c))"
      obtain s3 where s3: "reading s2 s3" "check_loop c 52 (sram + 10) ?crc s2 =
          (if 62 + sram \<le> length c then Some (crc_update ?crc (take (sram + 10) (drop 52 c)), 62 + sram) else None, s3)"
        using check_loop_works [OF ok2, of c 52 "sram + 10" ?crc] by (auto simp: add.commute)
      have ok3: "reads_ok s3" using ok2 s3(1) by (simp add: reading_reads_ok)
      obtain s4 where s4: "fs_getc c (62 + sram) s3 = (if 62 + sram < length c then Some (c ! (62 + sram)) else None, s4)"
        "reading s3 s4" using fs_getc_works [OF ok3] .
      have ok4: "reads_ok s4" using ok3 s4(2) by (simp add: reading_reads_ok)
      have whole: "length c = 62 + sram \<Longrightarrow> take (sram + 10) (drop 52 c) = drop 52 c" by simp
      define u where "u = (if 62 + sram \<le> length c then s4 else s3)"
      obtain t where t: "read_call u = (True, t)"
        using ok3 ok4 read_call_reading(2) [of u] by (cases "read_call u") (auto simp: u_def)
      have r: "reading s t"
        using s1(2) s2(2) s3(1) s4(2) t unfolding u_def
        by (metis (full_types) read_call_reading(1) reading_trans)
      have "check_copy path hash sram s = (if copy_ok hash sram c then Some (take 52 c) else None, t)"
        using s1 s2 s3 s4 t Some True whole len unfolding u_def
        by (auto simp: check_copy_def copy_ok_def crc_update_append min_def)
      then show thesis using that [OF r] Some by simp
    qed
  qed
qed

lemma exists_file_works:
  assumes "reads_ok s"
  obtains t where "reading s t" "exists_file path s = (sf_file s path \<noteq> None, t)"
proof -
  obtain s1 where s1: "fs_open path s = (sf_file s path, s1)" "reading s s1" using fs_open_works [OF assms] .
  show thesis
  proof (cases "sf_file s path")
    case None
    then show thesis using that [of s1] s1 by (simp add: exists_file_def)
  next
    case (Some c)
    have "reading s (snd (read_call s1))"
      using s1(2) reading_trans [OF s1(2) read_call_reading(1)] by (metis prod.collapse)
    then show thesis using that s1 Some by (simp add: exists_file_def)
  qed
qed

end
