(* ===== verification/Gb_Saves_Write.thy ===== *)
theory Gb_Saves_Write
  imports Gb_Saves_Safe Emu_Behaviour
begin

text \<open>
  The calls that write a save, each of which may fail: after a failure the file holds some prefix of
  what the save would have written, and no other file has changed.
\<close>

section \<open>The session's bytes\<close>

definition sram_bytes :: "gb_session \<Rightarrow> u8 list" where
  "sram_bytes x = take (gb_port_sram_size x) (sramData (bufs (core x)))"

definition sram_fits :: "gb_session \<Rightarrow> bool" where
  "sram_fits x \<longleftrightarrow> gb_port_sram_size x \<le> length (sramData (bufs (core x))) \<and> gb_port_sram_size x \<le> 32768"

lemma session_sram_fits: "session_ok x \<Longrightarrow> sram_fits x"
  using session_sram [of x]
  by (auto simp: sram_fits_def session_ok_def frame_ok_def sys_ok_def machine_ok_def wf_gb_def wf_bufs_def gb_port_sram_size_def)

lemma length_sram_bytes: "sram_fits x \<Longrightarrow> length (sram_bytes x) = gb_port_sram_size x"
  by (simp add: sram_fits_def sram_bytes_def)

lemma read_sram_chunk:
  assumes "sram_fits x" "off + n \<le> gb_port_sram_size x"
  shows "gb_port_read_sram off n x = Some (Some (take n (drop off (sram_bytes x))))"
proof -
  have "take n (drop off (take (gb_port_sram_size x) (sramData (bufs (core x))))) = take n (drop off (sramData (bufs (core x))))"
    using assms(2) by (simp add: drop_take take_take min_def)
  then show ?thesis using assms by (simp add: gb_port_read_sram_def mem_slice_def sram_fits_def sram_bytes_def)
qed

lemma chunk_step: "take (min (length xs - off) 512) (drop off xs) @ drop (off + 512) xs = drop off xs"
proof -
  have "take (min (length xs - off) 512) (drop off xs) = take 512 (drop off xs)"
    by (simp add: min_def)
  moreover have "drop (off + 512) xs = drop 512 (drop off xs)" by (simp add: add.commute)
  ultimately show ?thesis by (simp only: append_take_drop_id)
qed

lemma sum_loop_works:
  assumes "sram_fits x"
  shows "sum_loop (gb_port_sram_size x) off crc x = Some (Some (crc_update crc (drop off (sram_bytes x))))"
proof (induction "gb_port_sram_size x - off" arbitrary: off crc rule: less_induct)
  case less
  show ?case
  proof (cases "gb_port_sram_size x \<le> off")
    case True
    then show ?thesis using length_sram_bytes [OF assms] by (simp add: sum_loop.simps crc_update_def)
  next
    case False
    let ?c = "take (min (gb_port_sram_size x - off) 512) (drop off (sram_bytes x))"
    have "gb_port_read_sram off (min (gb_port_sram_size x - off) 512) x = Some (Some ?c)"
      using False by (intro read_sram_chunk [OF assms]) simp
    moreover have "sum_loop (gb_port_sram_size x) (off + 512) (crc_update crc ?c) x =
        Some (Some (crc_update (crc_update crc ?c) (drop (off + 512) (sram_bytes x))))"
      using False by (intro less) simp
    moreover have "?c @ drop (off + 512) (sram_bytes x) = drop off (sram_bytes x)"
      using chunk_step [of "sram_bytes x" off] length_sram_bytes [OF assms] by simp
    ultimately show ?thesis
      using False by (subst sum_loop.simps) (simp add: crc_update_append [symmetric])
  qed
qed

section \<open>Writing\<close>

definition writes_ok :: "save_fs \<Rightarrow> bool" where
  "writes_ok s \<longleftrightarrow> (\<forall>k. sf_write_ok s k)"

text \<open>Only the file at \<open>path\<close> differs.\<close>

definition wrote :: "cstring \<Rightarrow> save_fs \<Rightarrow> save_fs \<Rightarrow> bool" where
  "wrote path s t \<longleftrightarrow>
     (\<forall>p. base_name p \<noteq> base_name path \<longrightarrow> sf_file t p = sf_file s p) \<and> sf_mounted t = sf_mounted s \<and>
     sf_read_ok t = sf_read_ok s \<and> sf_write_ok t = sf_write_ok s"

lemma wrote_refl [simp]: "wrote path s s" by (simp add: wrote_def)

lemma wrote_trans: "wrote path s t \<Longrightarrow> wrote path t u \<Longrightarrow> wrote path s u"
  by (simp add: wrote_def)

lemma wrote_oks: "wrote path s t \<Longrightarrow> reads_ok t = reads_ok s \<and> writes_ok t = writes_ok s"
  by (simp add: wrote_def reads_ok_def writes_ok_def)

lemma reading_wrote: "reading s t \<Longrightarrow> wrote path s t"
  by (simp add: wrote_def reading_def sf_file_def)

lemma put_file_file: "sf_file (put_file path c s) p = (if base_name p = base_name path then Some c else sf_file s p)"
  by (simp add: sf_file_def put_file_def update_conv')

lemma put_file_wrote: "wrote path s (put_file path c (s\<lparr>sf_writes := n\<rparr>))"
  by (simp add: wrote_def put_file_def sf_file_def update_conv')

lemma fs_append_works:
  assumes "sf_file s path = Some c"
  obtains ok t k where "fs_append path bytes s = (ok, t)" "wrote path s t" "writes_ok s \<Longrightarrow> ok"
    "sf_file t path = Some (if ok then c @ bytes else take k (c @ bytes))"
proof -
  obtain ok t where r: "fs_append path bytes s = (ok, t)" by (cases "fs_append path bytes s")
  then show thesis
    using that [of ok t "sf_cut s (sf_writes s)"] assms put_file_wrote [of path s]
    by (auto simp: fs_append_def write_call_def writes_ok_def put_file_file Let_def)
qed

text \<open>What an interrupted save leaves in the file: a prefix of the new content.\<close>

definition partly :: "cstring \<Rightarrow> u8 list \<Rightarrow> save_fs \<Rightarrow> bool" where
  "partly path new s \<longleftrightarrow> (\<exists>k. sf_file s path = Some (take k new))"

lemma partly_cut:
  assumes "sf_file s path = Some (take k c)" "new = c @ rest"
  shows "partly path new s"
  using assms unfolding partly_def by (intro exI [of _ "min k (length c)"]) (simp add: min_def)

lemma fs_append_partly:
  assumes "partly path new s" "fs_append path [] s = (ok, t)"
  shows "wrote path s t \<and> partly path new t"
proof -
  obtain k where k: "sf_file s path = Some (take k new)" using assms(1) by (auto simp: partly_def)
  obtain ok' t' j where r: "fs_append path [] s = (ok', t')" "wrote path s t'"
    "sf_file t' path = Some (if ok' then take k new @ [] else take j (take k new @ []))"
    using fs_append_works [OF k] by metis
  have "partly path new t'" using r(3) by (cases ok') (auto simp: partly_def)
  then show ?thesis using r assms(2) by simp
qed

text \<open>A link of the chain of writes, from \<open>c\<close> to \<open>c'\<close> on the way to \<open>new\<close>.\<close>

definition writes_chunk :: "cstring \<Rightarrow> u8 list \<Rightarrow> u8 list \<Rightarrow> save_fs \<Rightarrow> bool \<times> save_fs \<Rightarrow> bool" where
  "writes_chunk path new c' s r \<longleftrightarrow>
     wrote path s (snd r) \<and> (writes_ok s \<longrightarrow> fst r) \<and>
     (if fst r then sf_file (snd r) path = Some c' else partly path new (snd r))"

lemma append_writes_chunk:
  assumes "sf_file s path = Some c" "new = c @ bytes @ rest"
  shows "writes_chunk path new (c @ bytes) s (fs_append path bytes s)"
proof -
  obtain ok t k where r: "fs_append path bytes s = (ok, t)" "wrote path s t" "writes_ok s \<Longrightarrow> ok"
    "sf_file t path = Some (if ok then c @ bytes else take k (c @ bytes))"
    using fs_append_works [OF assms(1)] by metis
  have "\<not> ok \<Longrightarrow> partly path new t" using r(4) assms(2) by (intro partly_cut [of _ _ k "c @ bytes" _ rest]) simp_all
  then show ?thesis using r by (simp add: writes_chunk_def)
qed

lemma writes_chunk_step:
  assumes "writes_chunk path new c s (True, t)" "writes_chunk path new c' t r"
  shows "writes_chunk path new c' s r"
  using assms wrote_oks [of path s t] by (auto simp: writes_chunk_def intro: wrote_trans)

lemma then_writes_chunk:
  assumes "writes_chunk path new c s r" "new = c @ bytes @ rest"
  shows "writes_chunk path new (c @ bytes) s (then_call (fs_append path bytes) r)"
proof -
  obtain ok t where r: "r = (ok, t)" by (cases r)
  show ?thesis
  proof (cases ok)
    case True
    with assms r have "writes_chunk path new (c @ bytes) t (fs_append path bytes t)"
      by (intro append_writes_chunk) (simp_all add: writes_chunk_def)
    then show ?thesis using writes_chunk_step assms(1) r True by (simp add: then_call_def)
  qed (use assms r in \<open>simp add: writes_chunk_def then_call_def\<close>)
qed

lemma save_loop_works:
  assumes "sram_fits x" "sf_file s path = Some c" "new = c @ drop off (sram_bytes x) @ rest"
  shows "\<exists>r. save_loop path (gb_port_sram_size x) off x s = Some r \<and> writes_chunk path new (c @ drop off (sram_bytes x)) s r"
  using assms(2,3)
proof (induction "gb_port_sram_size x - off" arbitrary: off c s rule: less_induct)
  case less
  note len = length_sram_bytes [OF assms(1)]
  show ?case
  proof (cases "gb_port_sram_size x \<le> off")
    case True
    then show ?thesis
      using len less.prems by (simp add: save_loop.simps writes_chunk_def)
  next
    case False
    let ?c = "take (min (gb_port_sram_size x - off) 512) (drop off (sram_bytes x))"
    let ?rest = "drop (off + 512) (sram_bytes x)"
    have rd: "gb_port_read_sram off (min (gb_port_sram_size x - off) 512) x = Some (Some ?c)"
      using False by (intro read_sram_chunk [OF assms(1)]) simp
    have split: "?c @ ?rest = drop off (sram_bytes x)" using chunk_step [of "sram_bytes x" off] len by simp
    obtain ok t where r: "fs_append path ?c s = (ok, t)" by (cases "fs_append path ?c s")
    have new: "new = c @ (?c @ ?rest) @ rest" using less.prems(2) by (simp only: split)
    have w: "writes_chunk path new (c @ ?c) s (ok, t)"
      using append_writes_chunk [OF less.prems(1), of new ?c "?rest @ rest"] new r by simp
    show ?thesis
    proof (cases ok)
      case True
      have f: "sf_file t path = Some (c @ ?c)" using w True by (simp add: writes_chunk_def)
      have less: "gb_port_sram_size x - (off + 512) < gb_port_sram_size x - off" using False by simp
      obtain r' where r': "save_loop path (gb_port_sram_size x) (off + 512) x t = Some r'"
        "writes_chunk path new ((c @ ?c) @ ?rest) t r'"
        using less.hyps [OF less f] new by (simp only: append_assoc) blast
      have "writes_chunk path new (c @ drop off (sram_bytes x)) s r'"
        using writes_chunk_step [of path new "c @ ?c" s t] w True r'(2) split by simp
      then show ?thesis using rd r r'(1) True False by (subst save_loop.simps) simp
    next
      case no: False
      then show ?thesis using rd r w False by (subst save_loop.simps) (simp add: writes_chunk_def)
    qed
  qed
qed

lemma fs_create_works:
  obtains ok t where "fs_create path s = (ok, t)" "wrote path s t" "writes_ok s \<Longrightarrow> ok"
    "if ok then sf_file t path = Some [] else sf_file t path = sf_file s path \<or> partly path new t"
proof -
  obtain ok t where r: "fs_create path s = (ok, t)" by (cases "fs_create path s")
  have keep: "wrote path s (s\<lparr>sf_writes := n\<rparr>)" "sf_file (s\<lparr>sf_writes := n\<rparr>) p = sf_file s p" for n p
    by (simp_all add: wrote_def sf_file_def)
  have "wrote path s t \<and> (writes_ok s \<longrightarrow> ok) \<and>
      (if ok then sf_file t path = Some [] else sf_file t path = sf_file s path \<or> partly path new t)"
    using r put_file_wrote [of path s "[]"] keep
    by (auto simp: fs_create_def write_call_def writes_ok_def put_file_file partly_def split: if_splits intro: exI [of _ 0])
  then show thesis using that r by blast
qed

lemma save_to_file_works:
  assumes "sram_fits x" and new: "new = header @ sram_bytes x @ clock"
  obtains ok t where "save_to_file path header clock (gb_port_sram_size x) x s = Some (ok, t)" "wrote path s t"
    "writes_ok s \<Longrightarrow> ok" "ok \<Longrightarrow> sf_file t path = Some new" "sf_file t path = sf_file s path \<or> partly path new t"
proof -
  obtain ok1 s1 where 1: "fs_create path s = (ok1, s1)" "wrote path s s1" "writes_ok s \<Longrightarrow> ok1"
    "if ok1 then sf_file s1 path = Some [] else sf_file s1 path = sf_file s path \<or> partly path new s1"
    using fs_create_works [of path s new] by metis
  show thesis
  proof (cases ok1)
    case False
    then have run: "save_to_file path header clock (gb_port_sram_size x) x s = Some (False, s1)"
      using 1(1) by (simp add: save_to_file_def)
    show thesis by (rule that [OF run]) (use 1 False in auto)
  next
    case True
    have f1: "sf_file s1 path = Some []" using 1(4) True by simp
    obtain ok2 s2 where 2: "fs_append path header s1 = (ok2, s2)" by (cases "fs_append path header s1")
    have w2: "writes_chunk path new header s1 (ok2, s2)"
      using append_writes_chunk [OF f1, of new header] new 2 by simp
    have "\<exists>r. (if ok2 then save_loop path (gb_port_sram_size x) 0 x s2 else Some (False, s2)) = Some r \<and>
        writes_chunk path new (header @ sram_bytes x) s1 r"
    proof (cases ok2)
      case True
      have f2: "sf_file s2 path = Some header" using w2 True by (simp add: writes_chunk_def)
      have "new = header @ drop 0 (sram_bytes x) @ clock" using new by simp
      from save_loop_works [OF assms(1) f2 this] obtain r where
        "save_loop path (gb_port_sram_size x) 0 x s2 = Some r" "writes_chunk path new (header @ sram_bytes x) s2 r" by auto
      then show ?thesis using writes_chunk_step w2 True by auto
    qed (use w2 in \<open>simp add: writes_chunk_def\<close>)
    then obtain r where r: "(if ok2 then save_loop path (gb_port_sram_size x) 0 x s2 else Some (False, s2)) = Some r"
      "writes_chunk path new (header @ sram_bytes x) s1 r" by blast
    define r3 where "r3 = then_call (fs_append path []) (then_call (fs_append path []) (then_call (fs_append path clock) r))"
    have "writes_chunk path new (((header @ sram_bytes x) @ clock) @ [] @ []) s1 r3"
      unfolding r3_def append_assoc [symmetric]
      by (intro then_writes_chunk [where rest = "[]"] then_writes_chunk [where rest = "[]"] r(2)) (simp_all add: new)
    then have w3: "writes_chunk path new new s1 r3" by (simp add: new)
    obtain ok3 s3 where r3: "r3 = (ok3, s3)" by (cases r3)
    obtain ok4 s4 where 4: "fs_append path [] s3 = (ok4, s4)" by (cases "fs_append path [] s3")
    have run: "save_to_file path header clock (gb_port_sram_size x) x s = Some (ok4 \<and> ok3, s4)"
      using 1(1) True 2 r(1) r3 4 by (simp add: save_to_file_def r3_def split: if_splits)
    have w13: "wrote path s1 s3" and k3: "partly path new s3"
      using w3 r3 by (auto simp: writes_chunk_def partly_def split: if_splits intro: exI [of _ "length new"])
    have w4: "wrote path s3 s4" "partly path new s4" using fs_append_partly [OF k3 4] by simp_all
    have all: "ok4 \<and> ok3 \<Longrightarrow> sf_file s4 path = Some new"
    proof -
      assume ok: "ok4 \<and> ok3"
      then have "sf_file s3 path = Some new" using w3 r3 by (simp add: writes_chunk_def)
      from append_writes_chunk [OF this, of new "[]" "[]"] 4 ok show ?thesis by (simp add: writes_chunk_def)
    qed
    have works: "ok4 \<and> ok3" if "writes_ok s"
    proof -
      have ok3: "ok3" using w3 r3 that wrote_oks [OF 1(2)] by (simp add: writes_chunk_def)
      then have "sf_file s3 path = Some new" using w3 r3 by (simp add: writes_chunk_def)
      from append_writes_chunk [OF this, of new "[]" "[]"] 4 that wrote_oks [OF 1(2)] wrote_oks [OF w13] ok3
      show ?thesis by (simp add: writes_chunk_def)
    qed
    have "wrote path s s4" using 1(2) w13 w4(1) by (blast intro: wrote_trans)
    then show thesis using that [OF run] all works w4(2) by blast
  qed
qed

end
