(* ===== verification/Gb_Saves_Works.thy ===== *)
theory Gb_Saves_Works
  imports Gb_Saves_Write
begin

text \<open>
  Saving and loading as a whole: the two files as copies of the payload (save RAM, then clock), the
  result of \<open>gb_saves_write\<close> whatever writes fail, and loading as its inverse.
\<close>

section \<open>The two files\<close>

definition copy_letter :: "nat \<Rightarrow> u8" where
  "copy_letter k = (if k = 0 then COPY_A else COPY_B)"

definition save_copies :: "u8 list \<Rightarrow> nat \<Rightarrow> save_fs \<Rightarrow> nat \<Rightarrow> (u32 \<times> u8 list) option" where
  "save_copies hash sram s k =
     (case sf_file s (save_path hash (copy_letter k)) of
        None \<Rightarrow> None
      | Some c \<Rightarrow> if copy_ok hash sram c then Some (header_sequence (take 52 c), drop 52 c) else None)"

text \<open>The save a reader of the files would find.\<close>

definition latest_save :: "u8 list \<Rightarrow> nat \<Rightarrow> save_fs \<Rightarrow> u8 list option" where
  "latest_save hash sram s = map_option (\<lambda>(k, g, d). d) (pick_copy later (save_copies hash sram s))"

definition save_payload :: "gb_session \<Rightarrow> u8 list" where
  "save_payload x = sram_bytes x @ fst (gb_port_export_rtc x)"

interpretation saves: two_copies later "\<lambda>g. g + 1"
  by unfold_locales (simp_all add: later_def)

lemma base_save_path: "base_name (save_path hash c) = save_name hash @ [0x2E, c]"
  by (simp add: save_path_def base_name_def)

lemma copy_letter_base: "base_name (save_path hash (copy_letter k)) = base_name (save_path hash (copy_letter j)) \<longleftrightarrow> (k = 0 \<longleftrightarrow> j = 0)"
  by (simp add: base_save_path copy_letter_def)

lemma save_copies_reading: "reading s t \<Longrightarrow> save_copies hash sram t = save_copies hash sram s"
  by (rule ext) (simp add: save_copies_def reading_file)

lemma save_copies_wrote:
  assumes "wrote (save_path hash (copy_letter k)) s t" "j < 2" "k < 2" "j \<noteq> k"
  shows "save_copies hash sram t j = save_copies hash sram s j"
  using assms copy_letter_base [of hash j k] by (auto simp: save_copies_def wrote_def)

section \<open>The content of a new copy\<close>

lemma export_rtc_length: "length (rtcLatched (rtc (core x))) = 5 \<Longrightarrow> length (fst (gb_port_export_rtc x)) = 10"
  by (simp add: gb_port_export_rtc_def Let_def)

definition new_copy :: "u32 \<Rightarrow> u8 list \<Rightarrow> u8 list \<Rightarrow> u8 list \<Rightarrow> u8 list" where
  "new_copy seq hash sram clock =
     (let h = save_header seq (length sram) hash
      in (h @ le 4 (unat (crc_update 0xFFFFFFFF (h @ sram @ clock) XOR 0xFFFFFFFF))) @ sram @ clock)"

lemma length_le [simp]: "length (le k n) = k"
  by (induction k arbitrary: n) simp_all

lemma new_copy_parts:
  fixes seq :: u32
  assumes "length hash = 32" "length clock = 10" "length sram < 4294967296"
  shows "copy_ok hash (length sram) (new_copy seq hash sram clock)"
    "header_sequence (take 52 (new_copy seq hash sram clock)) = seq"
    "drop 52 (new_copy seq hash sram clock) = sram @ clock"
    "length (new_copy seq hash sram clock) = 62 + length sram"
proof -
  let ?h = "save_header seq (length sram) hash"
  define w where "w = crc_update 0xFFFFFFFF (?h @ sram @ clock) XOR 0xFFFFFFFF"
  have h: "length ?h = 48" using assms by (simp add: save_header_def MAGIC_FGBS_def del: le.simps)
  have n: "new_copy seq hash sram clock = (?h @ le 4 (unat w)) @ sram @ clock"
    by (simp add: new_copy_def w_def Let_def)
  have t: "take 52 (new_copy seq hash sram clock) = ?h @ le 4 (unat w)" "drop 52 (new_copy seq hash sram clock) = sram @ clock"
    "take 48 (new_copy seq hash sram clock) = ?h"
    unfolding n using h by simp_all
  have "nat_of_le (le 4 (unat w)) = unat w" "nat_of_le (le 4 (unat seq)) = unat seq" "nat_of_le (le 4 (length sram)) = length sram"
    using u32_lt [of w] u32_lt [of seq] assms(3) by (simp_all add: nat_of_le_le del: le.simps)
  then have p: "header_matches hash (length sram) (?h @ le 4 (unat w))" "header_sequence (?h @ le 4 (unat w)) = seq"
    "header_crc (?h @ le 4 (unat w)) = w"
    using h assms
    by (simp_all add: header_matches_def header_sequence_def header_crc_def save_header_def MAGIC_FGBS_def nat_of_le_le del: le.simps)
  show "header_sequence (take 52 (new_copy seq hash sram clock)) = seq" "drop 52 (new_copy seq hash sram clock) = sram @ clock"
    using t p by simp_all
  show l: "length (new_copy seq hash sram clock) = 62 + length sram" unfolding n using h assms by simp
  show "copy_ok hash (length sram) (new_copy seq hash sram clock)"
    using t p l by (simp add: copy_ok_def w_def)
qed

lemma partly_copy:
  assumes "partly path new t" "length new = 62 + sram" "sf_file t path = Some c" "copy_ok hash sram c"
  shows "c = new"
  using assms by (auto simp: partly_def copy_ok_def)

section \<open>Writing a save\<close>

text \<open>What \<open>gb_saves_write\<close> does once it has chosen the file and the sequence.\<close>

lemma saved_copy:
  assumes "sram_fits x" "length hash = 32" "length clock = 10" "reads_ok s" "k < 2"
    and "path = save_path hash (copy_letter k)" "sram = gb_port_sram_size x"
    and "new = new_copy seq hash (sram_bytes x) clock"
  obtains ok t u where "save_to_file path (take 52 new) clock sram x s = Some (ok, t)" "writes_ok s \<Longrightarrow> ok"
    "wrote path s u" "reading t u"
    "ok \<Longrightarrow> check_copy path hash sram t = (Some (take 52 new), u)"
    "save_copies hash sram t k = save_copies hash sram s k \<or> save_copies hash sram t k = None \<or>
     save_copies hash sram t k = Some (seq, sram_bytes x @ clock)"
    "ok \<Longrightarrow> save_copies hash sram t k = Some (seq, sram_bytes x @ clock)"
proof -
  have len: "length (sram_bytes x) = sram" "sram < 4294967296" "length clock = 10"
    using assms length_sram_bytes [OF assms(1)] assms(3) by (auto simp: sram_fits_def)
  have new: "copy_ok hash sram new" "header_sequence (take 52 new) = seq" "drop 52 new = sram_bytes x @ clock" "length new = 62 + sram"
    using new_copy_parts [OF assms(2), of clock "sram_bytes x" seq] len assms(8) by simp_all
  have split: "new = take 52 new @ sram_bytes x @ clock"
    using append_take_drop_id [of 52 new] new(3) by simp
  obtain ok t where w: "save_to_file path (take 52 new) clock sram x s = Some (ok, t)" "wrote path s t" "writes_ok s \<Longrightarrow> ok"
    "ok \<Longrightarrow> sf_file t path = Some new" "sf_file t path = sf_file s path \<or> partly path new t"
    using save_to_file_works [OF assms(1) split, of path s] assms(7) by metis
  have ok_t: "reads_ok t" using w(2) assms(4) by (simp add: wrote_oks)
  obtain u where u: "reading t u" "check_copy path hash sram t =
      (case sf_file t path of None \<Rightarrow> None | Some c \<Rightarrow> if copy_ok hash sram c then Some (take 52 c) else None, u)"
    by (rule check_copy_works [OF ok_t])
  have "wrote path s u" using w(2) u(1) by (blast intro: wrote_trans reading_wrote)
  moreover have "ok \<Longrightarrow> check_copy path hash sram t = (Some (take 52 new), u)"
    unfolding u(2) using w(4) new(1) by simp
  moreover have "save_copies hash sram t k = save_copies hash sram s k \<or> save_copies hash sram t k = None \<or>
      save_copies hash sram t k = Some (seq, sram_bytes x @ clock)"
  proof (cases "sf_file t path = sf_file s path")
    case False
    then have "copy_ok hash sram c \<Longrightarrow> c = new" if "sf_file t path = Some c" for c
      using w(5) partly_copy [OF _ new(4) that] by blast
    then show ?thesis using new(2,3) by (auto simp: save_copies_def assms(6) [symmetric] split: option.split)
  qed (simp add: save_copies_def assms(6) [symmetric])
  moreover have "ok \<Longrightarrow> save_copies hash sram t k = Some (seq, sram_bytes x @ clock)"
    using w(4) new by (simp add: save_copies_def assms(6) [symmetric])
  ultimately show thesis using that [OF w(1)] w(3) u(1) by blast
qed


lemma check_copy_copies:
  assumes "reads_ok s"
  obtains h t where "check_copy (save_path hash (copy_letter k)) hash sram s = (h, t)" "reading s t"
    "map_option header_sequence h = map_option fst (save_copies hash sram s k)"
proof -
  obtain t where "reading s t" "check_copy (save_path hash (copy_letter k)) hash sram s =
      (case sf_file s (save_path hash (copy_letter k)) of None \<Rightarrow> None
       | Some c \<Rightarrow> if copy_ok hash sram c then Some (take 52 c) else None, t)"
    by (rule check_copy_works [OF assms])
  then show thesis by (intro that) (auto simp: save_copies_def split: option.split)
qed

text \<open>The file and the sequence the next save takes, or nothing when two unreadable files are there.\<close>

definition next_copy :: "u8 list \<Rightarrow> nat \<Rightarrow> save_fs \<Rightarrow> (nat \<times> u32) option" where
  "next_copy hash sram s =
     (case pick_copy later (save_copies hash sram s) of
        Some (k, g, d) \<Rightarrow> Some (1 - k, g + 1)
      | None \<Rightarrow>
          if sf_file s (save_path hash COPY_A) = None then Some (0, 1)
          else if sf_file s (save_path hash COPY_B) = None then Some (1, 1) else None)"

definition save_in :: "nat \<Rightarrow> u32 \<Rightarrow> gb_session \<Rightarrow> u8 list \<Rightarrow> save_fs \<Rightarrow> (bool \<times> gb_session \<times> save_fs) option" where
  "save_in k seq x hash s =
     (let path = save_path hash (copy_letter k); sram = gb_port_sram_size x; (clock, y) = gb_port_export_rtc x
      in case save_to_file path (take 52 (new_copy seq hash (sram_bytes x) clock)) clock sram y s of
           None \<Rightarrow> None
         | Some (okay, s) \<Rightarrow>
             if \<not> okay then Some (False, y, s)
             else case check_copy path hash sram s of
               (None, s) \<Rightarrow> Some (False, y, s)
             | (Some v, s) \<Rightarrow> Some (True, gb_port_mark_saved y, s))"

lemma new_copy_header:
  assumes "length hash = 32"
  shows "take 52 (new_copy seq hash sram clock) = save_header seq (length sram) hash @
    le 4 (unat (crc_update (crc_update (crc_update 0xFFFFFFFF (save_header seq (length sram) hash)) sram) clock XOR 0xFFFFFFFF))"
  using assms by (simp add: new_copy_def Let_def crc_update_append save_header_def MAGIC_FGBS_def del: le.simps)

lemma save_in_steps:
  assumes "sram_fits x" "length hash = 32"
  shows "save_as (save_path hash (copy_letter k)) seq x hash s = save_in k seq x hash s"
proof -
  have len: "length (sram_bytes x) = gb_port_sram_size x" using length_sram_bytes assms by simp
  obtain clock y where c: "gb_port_export_rtc x = (clock, y)" by (cases "gb_port_export_rtc x")
  show ?thesis
    using sum_loop_works [OF assms(1), of 0] c
    by (simp add: save_as_def save_in_def new_copy_header [OF assms(2)] len Let_def del: le.simps split: Option.bind_split option.split)
qed

text \<open>A copy of the state after a choice that only reads.\<close>

lemma next_copy_reading: "reading s t \<Longrightarrow> next_copy hash sram t = next_copy hash sram s"
  by (cases "pick_copy later (save_copies hash sram s)") (simp_all add: next_copy_def save_copies_reading reading_file)

lemma gb_saves_write_plan:
  assumes x: "sram_fits x" "gb_port_has_battery x" "gb_port_needs_save x" and "length hash = 32" and ok: "reads_ok s"
  shows "\<exists>t. reading s t \<and> gb_saves_write x hash s =
    (case next_copy hash (gb_port_sram_size x) s of
       None \<Rightarrow> Some (False, x, t)
     | Some (k, seq) \<Rightarrow> save_in k seq x hash t)"
proof -
  let ?n = "gb_port_sram_size x"
  let ?c = "save_copies hash ?n s"
  have L: "copy_letter 0 = COPY_A" "copy_letter 1 = COPY_B" by (simp_all add: copy_letter_def)
  obtain ha s1 where 1: "check_copy (save_path hash COPY_A) hash ?n s = (ha, s1)" "reading s s1"
    "map_option header_sequence ha = map_option fst (?c 0)"
    using check_copy_copies [OF ok, where k = 0] unfolding L by blast
  have ok1: "reads_ok s1" using ok reading_reads_ok [OF 1(2)] by simp
  obtain hb s2 where 2: "check_copy (save_path hash COPY_B) hash ?n s1 = (hb, s2)" "reading s1 s2"
    "map_option header_sequence hb = map_option fst (save_copies hash ?n s1 1)"
    using check_copy_copies [OF ok1, where k = 1] unfolding L by blast
  have hb: "map_option header_sequence hb = map_option fst (?c 1)"
    using 2(3) save_copies_reading [OF 1(2)] by simp
  have r2: "reading s s2" using 1(2) 2(2) by (rule reading_trans)
  have ok2: "reads_ok s2" using ok reading_reads_ok [OF r2] by simp
  let ?A = "sf_file s (save_path hash COPY_A) \<noteq> None" and ?B = "sf_file s (save_path hash COPY_B) \<noteq> None"
  note steps = save_in_steps [OF x(1) assms(4), where k = 0, unfolded L] save_in_steps [OF x(1) assms(4), where k = 1, unfolded L]
  show ?thesis
  proof (cases "pick_copy later ?c")
    case None
    then have none: "ha = None" "hb = None" using 1(3) hb by (simp_all add: pick_copy_None)
    obtain s3 where 3: "reading s2 s3" "exists_file (save_path hash COPY_A) s2 = (?A, s3)"
      using exists_file_works [OF ok2, of "save_path hash COPY_A"] reading_file [OF r2] by metis
    have r3: "reading s s3" and ok3: "reads_ok s3"
      using r2 3(1) ok2 by (simp_all add: reading_reads_ok) (rule reading_trans)
    obtain s4 where 4: "reading s3 s4" "exists_file (save_path hash COPY_B) s3 = (?B, s4)"
      using exists_file_works [OF ok3, of "save_path hash COPY_B"] reading_file [OF r3] by metis
    have r4: "reading s s4" and ok4: "reads_ok s4"
      using r3 4(1) ok3 by (simp_all add: reading_reads_ok) (rule reading_trans)
    define s5 where "s5 = (if ?A then s4 else s3)"
    have r5: "reading s s5" and ok5: "reads_ok s5" using r3 r4 ok3 ok4 by (simp_all add: s5_def)
    obtain s6 where 6: "reading s5 s6" "exists_file (save_path hash COPY_A) s5 = (?A, s6)"
      using exists_file_works [OF ok5, of "save_path hash COPY_A"] reading_file [OF r5] by metis
    have r6: "reading s s6" using r5 6(1) by (rule reading_trans)
    show ?thesis
    proof (cases "?A \<and> ?B")
      case True
      then show ?thesis
        using None none r4 1(1) 2(1) 3(2) 4(2) x(2,3) by (intro exI [of _ s4]) (auto simp: gb_saves_write_def next_copy_def)
    next
      case False
      then show ?thesis
        using None none r6 1(1) 2(1) 3(2) 4(2) 6(2) x(2,3) steps [of 1]
        by (intro exI [of _ s6]) (cases ?A, auto simp: gb_saves_write_def next_copy_def s5_def Let_def)
    qed
  next
    case (Some p)
    obtain k g d where p: "p = (k, g, d)" by (cases p)
    show ?thesis
    proof (intro exI conjI)
      show "reading s s2" by (rule r2)
      show "gb_saves_write x hash s =
        (case next_copy hash ?n s of None \<Rightarrow> Some (False, x, s2) | Some (k, seq) \<Rightarrow> save_in k seq x hash s2)"
        using Some p 1(1,3) 2(1) hb x(2,3) steps [of "g + 1"]
        by (auto simp: gb_saves_write_def next_copy_def Let_def pick_copy_def split: option.splits if_splits)
    qed
  qed
qed

lemma export_rtc_sram:
  assumes "gb_port_export_rtc x = (clock, y)"
  shows "sram_bytes y = sram_bytes x" "gb_port_sram_size y = gb_port_sram_size x" "sram_fits y = sram_fits x"
    "sramDirty (bufs (core y)) = sramDirty (bufs (core x))"
  using assms by (auto simp: gb_port_export_rtc_def sram_bytes_def gb_port_sram_size_def sram_fits_def Let_def)

lemma next_copy_latest:
  assumes "next_copy hash sram s = Some (k, seq)"
    and same: "save_copies hash sram t (1 - k) = save_copies hash sram s (1 - k)"
  shows "k < 2"
    and "save_copies hash sram t k = save_copies hash sram s k \<or> save_copies hash sram t k = None \<or>
      save_copies hash sram t k = Some (seq, d) \<Longrightarrow>
      latest_save hash sram t = latest_save hash sram s \<or> latest_save hash sram t = Some d"
    and "save_copies hash sram t k = Some (seq, d) \<Longrightarrow> latest_save hash sram t = Some d"
proof -
  show k: "k < 2"
    using assms(1) by (auto simp: next_copy_def split: option.splits if_splits dest: pick_copy_slot)
  let ?s = "save_copies hash sram s" and ?t = "save_copies hash sram t"
  show "latest_save hash sram t = latest_save hash sram s \<or> latest_save hash sram t = Some d"
    if new: "?t k = ?s k \<or> ?t k = None \<or> ?t k = Some (seq, d)"
  proof (cases "pick_copy later ?s")
    case None
    then have "pick_copy later ?t = map_option (Pair k) (?t k)" using k same by (intro first_copy) simp_all
    then show ?thesis using new None k by (auto simp: latest_save_def pick_copy_None less_2_cases_iff)
  next
    case (Some p)
    obtain j g e where p: "p = (j, g, e)" by (cases p)
    then have j: "k = 1 - j" "seq = g + 1" "j < 2" using assms(1) Some pick_copy_slot [of later ?s] by (auto simp: next_copy_def)
    then have "1 - k = j" by auto
    with saves.commit [of ?s j g e ?t d] Some p new same j show ?thesis by (auto simp: latest_save_def)
  qed
  show "latest_save hash sram t = Some d" if new: "?t k = Some (seq, d)"
  proof (cases "pick_copy later ?s")
    case None
    then have "pick_copy later ?t = map_option (Pair k) (?t k)" using k same by (intro first_copy) simp_all
    then show ?thesis using new by (simp add: latest_save_def)
  next
    case (Some p)
    obtain j g e where p: "p = (j, g, e)" by (cases p)
    then have j: "k = 1 - j" "seq = g + 1" "j < 2" using assms(1) Some pick_copy_slot [of later ?s] by (auto simp: next_copy_def)
    then have "1 - k = j" by auto
    with saves.committed [of ?s j g e ?t d] Some p new same j show ?thesis by (auto simp: latest_save_def)
  qed
qed

text \<open>Whether the two files of a ROM are both there and neither is readable, so that a save is refused.\<close>

definition both_damaged :: "u8 list \<Rightarrow> nat \<Rightarrow> save_fs \<Rightarrow> bool" where
  "both_damaged hash sram s \<longleftrightarrow>
     latest_save hash sram s = None \<and> sf_file s (save_path hash COPY_A) \<noteq> None \<and> sf_file s (save_path hash COPY_B) \<noteq> None"

lemma next_copy_None: "next_copy hash sram s = None \<longleftrightarrow> both_damaged hash sram s"
  by (auto simp: next_copy_def both_damaged_def latest_save_def split: option.splits)

lemma mark_saved_parts [simp]:
  "\<not> sramDirty (bufs (core (gb_port_mark_saved x)))" "sram_bytes (gb_port_mark_saved x) = sram_bytes x"
  "gb_port_sram_size (gb_port_mark_saved x) = gb_port_sram_size x" "has_batt (gb_port_mark_saved x) = has_batt x"
  "has_rtc (gb_port_mark_saved x) = has_rtc x"
  "gb_port_export_rtc (gb_port_mark_saved x) = map_prod id gb_port_mark_saved (gb_port_export_rtc x)"
  by (simp_all add: gb_port_mark_saved_def upd_bufs_def sram_bytes_def gb_port_sram_size_def gb_port_export_rtc_def Let_def)

lemma session_set_bufs:
  assumes "session_ok x" "wf_bufs b" "sramPersistSize b = sramPersistSize (bufs (core x))"
    "(colorFramebuf b = None) = (colorFramebuf (bufs (core x)) = None)"
  shows "session_ok (x\<lparr>core := (core x)\<lparr>bufs := b\<rparr>\<rparr>)"
  using assms wf_set_bufs [of "core x" b] by (simp add: session_ok_def frame_ok_def sys_ok_def machine_ok_def)

lemma session_set_rtc:
  assumes "session_ok x" "length (rtcLatched r) = 5"
  shows "session_ok (x\<lparr>core := (core x)\<lparr>rtc := r\<rparr>\<rparr>)"
  using assms wf_set_rtc [of "core x" r] by (simp add: session_ok_def frame_ok_def sys_ok_def machine_ok_def)

lemma session_wf: "session_ok x \<Longrightarrow> wf_gb (core x)"
  by (simp add: session_ok_def frame_ok_def sys_ok_def machine_ok_def)

lemma mark_saved_ok:
  assumes "session_ok x"
  shows "session_ok (gb_port_mark_saved x)"
  unfolding gb_port_mark_saved_def upd_bufs_def
  by (rule session_set_bufs [OF assms]) (use wf_gbD(3) [OF session_wf [OF assms]] in \<open>simp_all add: wf_bufs_def\<close>)

lemma export_rtc_ok:
  assumes "session_ok x" "gb_port_export_rtc x = (clock, y)"
  shows "session_ok y"
proof -
  have "y = x\<lparr>core := (core x)\<lparr>rtc := tickRTC (rtc (core x))\<rparr>\<rparr>"
    using assms(2) by (simp add: gb_port_export_rtc_def Let_def)
  then show ?thesis using session_set_rtc [OF assms(1), of "tickRTC (rtc (core x))"] session_wf [OF assms(1)] by (simp add: wf_gb_def)
qed

text \<open>Saving and loading do not change which cartridge it is.\<close>

abbreviation kept_cart :: "gb_session \<Rightarrow> gb_session \<Rightarrow> bool" where
  "kept_cart x y \<equiv> (session_ok x \<longrightarrow> session_ok y) \<and> has_batt y = has_batt x \<and> has_rtc y = has_rtc x \<and>
     gb_port_sram_size y = gb_port_sram_size x"

lemma gb_saves_write_result:
  assumes x: "sram_fits x" "length (rtcLatched (rtc (core x))) = 5" "gb_port_has_battery x" "gb_port_needs_save x"
    and hash: "length hash = 32" and ok: "reads_ok s" and n: "n = gb_port_sram_size x"
  obtains okay y t where "gb_saves_write x hash s = Some (okay, y, t)"
    "latest_save hash n t = latest_save hash n s \<or> latest_save hash n t = Some (save_payload x)"
    "okay \<Longrightarrow> latest_save hash n t = Some (save_payload x) \<and> \<not> sramDirty (bufs (core y))"
    "\<not> okay \<Longrightarrow> sramDirty (bufs (core y)) = sramDirty (bufs (core x))"
    "writes_ok s \<Longrightarrow> \<not> both_damaged hash n s \<Longrightarrow> okay" "both_damaged hash n s \<Longrightarrow> \<not> okay"
    "sram_bytes y = sram_bytes x" "reads_ok t \<and> writes_ok t = writes_ok s" "kept_cart x y"
    "\<And>other m. save_name other \<noteq> save_name hash \<Longrightarrow> latest_save other m t = latest_save other m s"
proof -
  obtain t0 where t0: "reading s t0" "gb_saves_write x hash s =
    (case next_copy hash n s of None \<Rightarrow> Some (False, x, t0) | Some (k, seq) \<Rightarrow> save_in k seq x hash t0)"
    using gb_saves_write_plan [OF x(1,3,4) hash ok] n by blast
  have ok0: "reads_ok t0" using ok t0(1) by (simp add: reading_reads_ok)
  have w0: "writes_ok t0 = writes_ok s" using t0(1) by (simp add: writes_ok_def reading_def)
  have same0: "latest_save h m t0 = latest_save h m s" for h m using t0(1) by (simp add: latest_save_def save_copies_reading)
  show thesis
  proof (cases "next_copy hash n s")
    case None
    have run: "gb_saves_write x hash s = Some (False, x, t0)" using t0(2) None by simp
    show thesis by (rule that [OF run]) (use None next_copy_None [of hash n s] ok0 w0 same0 in simp_all)
  next
    case (Some p)
    then obtain k seq where p: "next_copy hash n s = Some (k, seq)" by (cases p) simp
    have p0: "next_copy hash n t0 = Some (k, seq)" using p t0(1) by (simp add: next_copy_reading)
    have k: "k < 2" using next_copy_latest(1) [OF p refl] .
    obtain clock y where c: "gb_port_export_rtc x = (clock, y)" by (cases "gb_port_export_rtc x")
    note y = export_rtc_sram [OF c]
    have ey: "session_ok x \<longrightarrow> session_ok y \<and> session_ok (gb_port_mark_saved y)"
      using export_rtc_ok [OF _ c] mark_saved_ok by blast
    have batt: "has_batt y = has_batt x" "has_rtc y = has_rtc x"
      using c by (auto simp: gb_port_export_rtc_def Let_def)
    have len: "length clock = 10" using export_rtc_length [OF x(2)] c by simp
    let ?path = "save_path hash (copy_letter k)" and ?new = "new_copy seq hash (sram_bytes y) clock"
    have pay: "save_payload x = sram_bytes y @ clock" using c y by (simp add: save_payload_def)
    obtain okay t u where w: "save_to_file ?path (take 52 ?new) clock n y t0 = Some (okay, t)" "writes_ok t0 \<Longrightarrow> okay"
      "wrote ?path t0 u" "reading t u" "okay \<Longrightarrow> check_copy ?path hash n t = (Some (take 52 ?new), u)"
      "save_copies hash n t k = save_copies hash n t0 k \<or> save_copies hash n t k = None \<or>
       save_copies hash n t k = Some (seq, sram_bytes y @ clock)"
      "okay \<Longrightarrow> save_copies hash n t k = Some (seq, sram_bytes y @ clock)"
      by (rule saved_copy [of y hash clock t0 k ?path n ?new seq]) (use x(1) y hash len ok0 k n in simp_all)
    define v where "v = (if okay then u else t)"
    have run: "gb_saves_write x hash s = Some (okay, if okay then gb_port_mark_saved y else y, v)"
      using t0(2) p c w(1,5) y n by (simp add: save_in_def v_def Let_def)
    have wt: "wrote ?path t0 t" using w(3,4) by (simp add: wrote_def reading_def sf_file_def)
    have wv: "wrote ?path t0 v" using w(3) wt by (simp add: v_def)
    have cv: "save_copies hash n v = save_copies hash n t" using w(4) by (simp add: v_def save_copies_reading)
    have other: "save_copies hash n v (1 - k) = save_copies hash n t0 (1 - k)"
      using k by (intro save_copies_wrote [OF wv]) (auto simp: less_2_cases_iff)
    have names: "latest_save h m v = latest_save h m s" if "save_name h \<noteq> save_name hash" for h m
    proof -
      have "save_copies h m v = save_copies h m t0"
        using wv that by (intro ext) (auto simp: save_copies_def wrote_def base_save_path)
      then have "latest_save h m v = latest_save h m t0" by (simp add: latest_save_def)
      then show ?thesis by (simp add: same0)
    qed
    have "latest_save hash n v = latest_save hash n t0 \<or> latest_save hash n v = Some (save_payload x)"
      using next_copy_latest(2) [OF p0 other] w(6) by (simp add: cv pay)
    then have either: "latest_save hash n v = latest_save hash n s \<or> latest_save hash n v = Some (save_payload x)"
      by (simp add: same0)
    have new: "latest_save hash n v = Some (save_payload x)" if okay
      using next_copy_latest(3) [OF p0 other] w(7) [OF that] by (simp add: cv pay)
    show thesis
    proof (rule that [OF run either])
      show "reads_ok v \<and> writes_ok v = writes_ok s" using wrote_oks [OF wv] ok0 w0 by simp
      show "writes_ok s \<Longrightarrow> \<not> both_damaged hash n s \<Longrightarrow> okay"
        using w(2) w0 by simp
      show "both_damaged hash n s \<Longrightarrow> \<not> okay" using p next_copy_None [of hash n s] by simp
    qed (use new y names ey batt in auto)
  qed
qed

end
