(* ===== verification/Gb_Saves_Load.thy ===== *)
theory Gb_Saves_Load
  imports Gb_Saves_Works
begin

text \<open>
  \<open>gb_saves_load\<close> restores the payload of the latest copy, and refuses when there is none; the
  directory scan removes exactly the files of ROMs the catalog no longer holds.
\<close>

section \<open>Loading\<close>

lemma take_patch:
  assumes "off + length src \<le> n" "n \<le> length d"
  shows "take n (take off d @ src @ drop (off + length src) d) = take off (take n d) @ src @ drop (off + length src) (take n d)"
  using assms by (intro nth_equalityI) (auto simp: nth_append)

lemma take_chunk:
  assumes "length c = min (length xs - off) 512"
  shows "take 512 (c @ drop (off + length c) xs) = c"
  using assms by (cases "length xs - off \<le> 512") (simp_all add: min_def)

lemma write_sram_chunk:
  assumes "sram_fits x" "off + length src \<le> gb_port_sram_size x"
  obtains y where "gb_port_write_sram off src x = Some (True, y)" "gb_port_sram_size y = gb_port_sram_size x" "sram_fits y"
    "sram_bytes y = take off (sram_bytes x) @ src @ drop (off + length src) (sram_bytes x)"
    "kept_cart x y"
proof -
  let ?d = "sramData (bufs (core x))" and ?n = "gb_port_sram_size x"
  have fits: "off + length src \<le> length ?d" using assms by (simp add: sram_fits_def)
  define z where "z = take off ?d @ src @ drop (off + length src) ?d"
  have z: "mem_blit ?d off src = Some z" using fits by (simp add: mem_blit_def z_def)
  have len: "length z = length ?d" using fits by (simp add: z_def)
  have bytes: "take ?n z = take off (sram_bytes x) @ src @ drop (off + length src) (sram_bytes x)"
    unfolding z_def sram_bytes_def using assms by (intro take_patch) (simp_all add: sram_fits_def)
  show thesis
  proof (cases "take (length src) (drop off ?d) = src")
    case True
    have "src @ drop (off + length src) ?d = drop off ?d"
      using append_take_drop_id [of "length src" "drop off ?d"] True by (simp add: add.commute)
    then have "z = ?d" unfolding z_def by simp
    then have same: "sram_bytes x = take off (sram_bytes x) @ src @ drop (off + length src) (sram_bytes x)"
      using bytes by (simp only: sram_bytes_def)
    have "gb_port_write_sram off src x = Some (True, x)"
      using assms(2) fits True by (simp add: gb_port_write_sram_def mem_slice_def)
    then show thesis by (rule that [OF _ refl assms(1) same]) simp
  next
    case False
    define y where "y = upd_bufs (\<lambda>b. b\<lparr>sramData := z, sramDirty := True\<rparr>) x"
    have y: "gb_port_sram_size y = ?n" "sram_fits y" "sram_bytes y = take ?n z"
      using assms(1) len by (simp_all add: y_def upd_bufs_def gb_port_sram_size_def sram_fits_def sram_bytes_def)
    moreover have "gb_port_write_sram off src x = Some (True, y)"
      using assms fits False z by (simp add: gb_port_write_sram_def mem_slice_def y_def)
    moreover have "session_ok y" if x: "session_ok x"
      unfolding y_def upd_bufs_def
      by (rule session_set_bufs [OF x]) (use wf_gbD(3) [OF session_wf [OF x]] len in \<open>simp_all add: wf_bufs_def\<close>)
    moreover have "has_batt y = has_batt x" "has_rtc y = has_rtc x" by (simp_all add: y_def upd_bufs_def)
    ultimately show thesis using that y bytes by simp
  qed
qed

lemma load_loop_works:
  assumes "reads_ok s" "sram_fits x" "sram = gb_port_sram_size x" "bytes = take sram (drop 52 content)" "length bytes = sram"
    and "off mod 512 = 0" "take off (sram_bytes x) = take off bytes"
  shows "\<exists>y t. load_loop content sram off x s = Some (True, y, t) \<and> reading s t \<and> sram_bytes y = bytes \<and>
    gb_port_sram_size y = sram \<and> sram_fits y \<and> (kept_cart x y)"
  using assms
proof (induction "sram - off" arbitrary: off x s rule: less_induct)
  case less
  note len = length_sram_bytes [OF less.prems(2)]
  show ?case
  proof (cases "sram \<le> off")
    case True
    then have "sram_bytes x = bytes" using less.prems(3,5,7) len by simp
    then show ?thesis using True less.prems by (intro exI [of _ x] exI [of _ s]) (simp add: load_loop.simps)
  next
    case False
    let ?m = "min (sram - off) 512"
    let ?c = "take ?m (drop (52 + off) content)"
    obtain u where u: "sf_fread content (52 + off) ?m s = (?c, u)" "reading s u"
      using sf_fread_works [OF less.prems(1)] .
    have c: "?c = take ?m (drop off bytes)"
      using False by (simp add: less.prems(4) drop_take take_take min_def add.commute)
    have lc: "length ?c = ?m" unfolding c using less.prems(5) by simp
    have fit: "off + length ?c \<le> gb_port_sram_size x" unfolding lc using less.prems(3) False by simp
    obtain y where y: "gb_port_write_sram off ?c x = Some (True, y)" "gb_port_sram_size y = gb_port_sram_size x" "sram_fits y"
      "sram_bytes y = take off (sram_bytes x) @ ?c @ drop (off + length ?c) (sram_bytes x)" "kept_cart x y"
      by (rule write_sram_chunk [OF less.prems(2) fit])
    have run: "load_loop content sram off x s = load_loop content sram (off + 512) y u"
      using False u(1) lc y(1) by (subst load_loop.simps) (simp add: Let_def)
    have "take (off + 512) (sram_bytes y) = take off bytes @ ?c"
    proof -
      have o: "length (take off (sram_bytes x)) = off" using len less.prems(3) False by simp
      have "take 512 (?c @ drop (off + length ?c) (sram_bytes x)) = ?c"
        by (rule take_chunk) (use lc len less.prems(3) in simp)
      moreover have "take (off + 512) (a @ b) = a @ take 512 b" if "length a = off" for a b :: "u8 list"
        using that by simp
      ultimately show ?thesis using o unfolding y(4) less.prems(7) [symmetric] by (simp only:)
    qed
    also have "\<dots> = take (off + 512) bytes"
      unfolding c take_add [of off 512] using less.prems(5) by (simp add: min_def)
    finally have t: "take (off + 512) (sram_bytes y) = take (off + 512) bytes" .
    have "(off + 512) mod 512 = 0" using less.prems(6) by simp
    moreover have "sram - (off + 512) < sram - off" using False by simp
    moreover have "reads_ok u" using less.prems(1) u(2) by (simp add: reading_reads_ok)
    ultimately obtain z t where "load_loop content sram (off + 512) y u = Some (True, z, t) \<and> reading u t \<and> sram_bytes z = bytes \<and>
        gb_port_sram_size z = sram \<and> sram_fits z \<and> (kept_cart y z)"
      using less.hyps [of "off + 512" u y] y(2,3) less.prems(3,4,5) t by metis
    then show ?thesis using run reading_trans [OF u(2)] y(5) by auto
  qed
qed

lemma import_rtc_parts:
  assumes "length clock = 10"
  obtains y where "gb_port_import_rtc clock x = Some y" "sram_bytes y = sram_bytes x"
    "fst (gb_port_export_rtc y) = clock" "kept_cart x y"
proof -
  obtain y where y: "gb_port_import_rtc clock x = Some y" "fst (gb_port_export_rtc y) = clock"
    using import_then_export_rtc [OF assms] by blast
  have "length (take 5 (drop 5 clock)) = 5" using assms by simp
  with y(1) obtain r where r: "y = x\<lparr>core := (core x)\<lparr>rtc := r\<rparr>\<rparr>" "length (rtcLatched r) = 5"
    unfolding gb_port_import_rtc_def mem_slice_def by (auto simp: bind_eq_Some_conv split: if_splits)
  then have "sram_bytes y = sram_bytes x" "kept_cart x y"
    using session_set_rtc [of x r] by (simp_all add: sram_bytes_def gb_port_sram_size_def)
  then show thesis using that y by blast
qed

lemma load_from_file_works:
  assumes ok: "reads_ok s" and x: "sram_fits x" "n = gb_port_sram_size x"
    and there: "sf_file s path = Some content" "length content = 62 + n"
  obtains y t where "load_from_file path n x s = Some (GB_SAVE_LOADED, y, t)" "reading s t"
    "save_payload y = drop 52 content" "\<not> sramDirty (bufs (core y))" "kept_cart x y"
proof -
  let ?bytes = "take n (drop 52 content)" and ?clock = "take 10 (drop (52 + n) content)"
  obtain s1 where 1: "fs_open path s = (Some content, s1)" "reading s s1"
    using fs_open_works [OF ok, of path] there(1) by metis
  have ok1: "reads_ok s1" using ok 1(2) by (simp add: reading_reads_ok)
  obtain s2 where 2: "read_call s1 = (True, s2)" "reading s1 s2"
    using read_call_reading [of s1] ok1 by (cases "read_call s1") auto
  have ok2: "reads_ok s2" using ok1 2(2) by (simp add: reading_reads_ok)
  have len: "length ?bytes = n" using there(2) by simp
  have zero: "take 0 (sram_bytes x) = take 0 ?bytes" by simp
  obtain y s3 where 3: "load_loop content n 0 x s2 = Some (True, y, s3)" "reading s2 s3" "sram_bytes y = ?bytes"
    "gb_port_sram_size y = n" "kept_cart x y"
    using load_loop_works [OF ok2 x refl len, of 0, OF mod_0 zero] by blast
  have ok3: "reads_ok s3" using ok2 3(2) by (simp add: reading_reads_ok)
  obtain s4 where 4: "sf_fread content (52 + n) 10 s3 = (?clock, s4)" "reading s3 s4" using sf_fread_works [OF ok3] .
  have ok4: "reads_ok s4" using ok3 4(2) by (simp add: reading_reads_ok)
  have clock: "length ?clock = 10" using there(2) by simp
  obtain z where z: "gb_port_import_rtc ?clock y = Some z" "sram_bytes z = sram_bytes y"
    "fst (gb_port_export_rtc z) = ?clock" "kept_cart y z"
    by (rule import_rtc_parts [OF clock])
  obtain s5 where 5: "read_call s4 = (True, s5)" "reading s4 s5"
    using read_call_reading [of s4] ok4 by (cases "read_call s4") auto
  have r: "reading s s5" using 1(2) 2(2) 3(2) 4(2) 5(2) by (blast intro: reading_trans)
  have "load_from_file path n x s = Some (GB_SAVE_LOADED, gb_port_mark_saved z, s5)"
    using 1(1) 2(1) 3(1) 4(1) clock z(1) 5(1) by (simp add: load_from_file_def)
  moreover have "?bytes @ ?clock = drop 52 content"
    using there(2) append_take_drop_id [of n "drop 52 content"] by (simp add: add.commute)
  then have "save_payload (gb_port_mark_saved z) = drop 52 content"
    using 3(3) z(2,3) by (simp add: save_payload_def)
  ultimately show thesis using that r 3(5) z(4) mark_saved_ok by auto
qed

text \<open>The three results of a load.\<close>

lemma gb_saves_load_result:
  assumes ok: "reads_ok s" and x: "sram_fits x" "n = gb_port_sram_size x" "gb_port_has_battery x"
  shows "case latest_save hash n s of
      Some d \<Rightarrow> \<exists>y t. gb_saves_load x hash s = Some (GB_SAVE_LOADED, y, t) \<and> reading s t \<and> save_payload y = d \<and>
        \<not> sramDirty (bufs (core y)) \<and> (kept_cart x y)
    | None \<Rightarrow> \<exists>t. reading s t \<and> gb_saves_load x hash s =
        Some (if sf_file s (save_path hash COPY_A) \<noteq> None \<or> sf_file s (save_path hash COPY_B) \<noteq> None
              then GB_SAVE_ERROR else GB_SAVE_EMPTY, x, t)"
proof -
  let ?c = "save_copies hash n s"
  have L: "copy_letter 0 = COPY_A" "copy_letter 1 = COPY_B" by (simp_all add: copy_letter_def)
  obtain ha s1 where 1: "check_copy (save_path hash COPY_A) hash n s = (ha, s1)" "reading s s1"
    "map_option header_sequence ha = map_option fst (?c 0)"
    using check_copy_copies [OF ok, where k = 0] unfolding L by blast
  have ok1: "reads_ok s1" using ok reading_reads_ok [OF 1(2)] by simp
  obtain hb s2 where 2: "check_copy (save_path hash COPY_B) hash n s1 = (hb, s2)" "reading s1 s2"
    "map_option header_sequence hb = map_option fst (save_copies hash n s1 1)"
    using check_copy_copies [OF ok1, where k = 1] unfolding L by blast
  have hb: "map_option header_sequence hb = map_option fst (?c 1)"
    using 2(3) save_copies_reading [OF 1(2)] by simp
  have r2: "reading s s2" using 1(2) 2(2) by (rule reading_trans)
  have ok2: "reads_ok s2" using ok reading_reads_ok [OF r2] by simp
  show ?thesis
  proof (cases "pick_copy later ?c")
    case None
    then have none: "ha = None" "hb = None" using 1(3) hb by (simp_all add: pick_copy_None)
    let ?A = "sf_file s (save_path hash COPY_A) \<noteq> None" and ?B = "sf_file s (save_path hash COPY_B) \<noteq> None"
    obtain s3 where 3: "reading s2 s3" "exists_file (save_path hash COPY_A) s2 = (?A, s3)"
      using exists_file_works [OF ok2, of "save_path hash COPY_A"] reading_file [OF r2] by metis
    have r3: "reading s s3" using r2 3(1) by (rule reading_trans)
    have ok3: "reads_ok s3" using ok2 3(1) by (simp add: reading_reads_ok)
    obtain s4 where 4: "reading s3 s4" "exists_file (save_path hash COPY_B) s3 = (?B, s4)"
      using exists_file_works [OF ok3, of "save_path hash COPY_B"] reading_file [OF r3] by metis
    have r4: "reading s s4" using r3 4(1) by (rule reading_trans)
    have "latest_save hash n s = None" using None by (simp add: latest_save_def)
    moreover have "gb_saves_load x hash s = Some (if ?A \<or> ?B then GB_SAVE_ERROR else GB_SAVE_EMPTY, x, if ?A then s3 else s4)"
      using none 1(1) 2(1) 3(2) 4(2) x(2,3) by (simp add: gb_saves_load_def)
    ultimately show ?thesis using r3 r4 by (intro exI [of _ "if ?A then s3 else s4"] | simp)+
  next
    case (Some p)
    obtain k g d where p: "p = (k, g, d)" by (cases p)
    have k: "?c k = Some (g, d)" "k < 2" using pick_copy_slot [of later ?c] Some p by auto
    let ?path = "save_path hash (copy_letter k)"
    have run: "gb_saves_load x hash s = load_from_file ?path n x s2"
      using Some p 1(1,3) 2(1) hb x(2,3)
      by (auto simp: gb_saves_load_def pick_copy_def copy_letter_def split: option.splits if_splits)
    obtain content where c: "sf_file s ?path = Some content" "length content = 62 + n" "d = drop 52 content"
      using k(1) by (auto simp: save_copies_def copy_ok_def split: option.splits if_splits)
    have c2: "sf_file s2 ?path = Some content" using c(1) r2 by (simp add: reading_file)
    obtain y t where y: "load_from_file ?path n x s2 = Some (GB_SAVE_LOADED, y, t)" "reading s2 t"
      "save_payload y = drop 52 content" "\<not> sramDirty (bufs (core y))" "kept_cart x y"
      by (rule load_from_file_works [OF ok2 x(1,2) c2 c(2)])
    have "latest_save hash n s = Some d" using Some p by (simp add: latest_save_def)
    then show ?thesis using run y c(3) reading_trans [OF r2 y(2)] by auto
  qed
qed

section \<open>Removing saves\<close>

lemma remove_copy_files:
  assumes "remove_copy path s = (r, t)"
  shows "sf_files t = (if r then filter (\<lambda>f. fst f \<noteq> base_name path) (sf_files s) else sf_files s)"
    "writes_ok s \<Longrightarrow> r" "reads_ok t = reads_ok s" "writes_ok t = writes_ok s"
proof -
  have absent: "filter (\<lambda>f. fst f \<noteq> base_name path) (sf_files s) = sf_files s" if "sf_file s path = None"
    using that by (intro filter_True) (force simp: sf_file_def map_of_eq_None_iff)
  have "AList.delete k xs = filter (\<lambda>f. fst f \<noteq> k) xs" for k and xs :: "(cstring \<times> u8 list) list"
    by (simp add: AList.delete_eq split_def eq_commute)
  then show "sf_files t = (if r then filter (\<lambda>f. fst f \<noteq> base_name path) (sf_files s) else sf_files s)"
    "writes_ok s \<Longrightarrow> r" "reads_ok t = reads_ok s" "writes_ok t = writes_ok s"
    using assms absent
    by (auto simp: remove_copy_def fs_remove_def write_call_def reads_ok_def writes_ok_def split: if_splits)
qed

abbreviation kept_files :: "rom_entry list \<Rightarrow> save_fs \<Rightarrow> (cstring \<times> u8 list) list" where
  "kept_files roms s \<equiv> filter (\<lambda>f. \<not> orphan roms (fst f)) (sf_files s)"

lemma remove_orphan:
  assumes "remove_copy (GB_SAVES_PREFIX @ name) s = (r, t)" "orphan roms name"
  shows "kept_files roms t = kept_files roms s"
proof -
  have "base_name (GB_SAVES_PREFIX @ name) = name" by (simp add: base_name_def)
  then show ?thesis
    unfolding remove_copy_files(1) [OF assms(1)] using assms(2) by (auto simp: filter_filter intro!: filter_cong)
qed

text \<open>What a scan from position \<open>i\<close> on guarantees.\<close>

definition pruned :: "rom_entry list \<Rightarrow> nat \<Rightarrow> bool \<Rightarrow> save_fs \<Rightarrow> bool \<times> save_fs \<Rightarrow> bool" where
  "pruned roms i okay s r \<longleftrightarrow>
     kept_files roms (snd r) = kept_files roms s \<and>
     (fst r \<longrightarrow> okay \<and>
       (filter (\<lambda>f. orphan roms (fst f)) (take i (sf_files s)) = [] \<longrightarrow> kept_files roms (snd r) = sf_files (snd r))) \<and>
     (reads_ok s \<and> writes_ok s \<and> okay \<longrightarrow> fst r) \<and> reads_ok (snd r) = reads_ok s"

lemma prune_loop_pruned: "pruned roms i okay s (prune_loop roms i okay s)"
proof (induction roms i okay s rule: prune_loop.induct)
  case (1 roms i okay s)
  obtain ok u where c: "read_call s = (ok, u)" by (cases "read_call s")
  have u: "sf_files u = sf_files s" "reads_ok u = reads_ok s" "writes_ok u = writes_ok s"
    using read_call_reading(1) [OF c] by (simp_all add: reading_def reads_ok_def writes_ok_def)
  have okr: "reads_ok s \<Longrightarrow> ok" using read_call_reading(2) [of s] c by simp
  let ?name = "fst (sf_files s ! i)"
  consider (failed) "\<not> ok" | (finished) "ok" "length (sf_files s) \<le> i"
    | (skip) "ok" "i < length (sf_files s)" "\<not> orphan roms ?name"
    | (orphan) "ok" "i < length (sf_files s)" "orphan roms ?name"
    by linarith
  then show ?case
  proof cases
    case failed
    then show ?thesis using c u okr by (subst prune_loop.simps) (auto simp: pruned_def)
  next
    case finished
    then have "filter (\<lambda>f. orphan roms (fst f)) (sf_files s) = [] \<Longrightarrow> kept_files roms s = sf_files s"
      by (auto simp: filter_empty_conv intro!: filter_True)
    with finished c u show ?thesis by (subst prune_loop.simps) (auto simp: pruned_def)
  next
    case skip
    have run: "prune_loop roms i okay s = prune_loop roms (i + 1) okay u"
      using skip c by (subst prune_loop.simps) simp
    have "pruned roms (i + 1) okay u (prune_loop roms (i + 1) okay u)"
      using skip c by (intro "1.IH"(1) [OF c [symmetric] refl]) simp_all
    then show ?thesis unfolding run using skip u by (auto simp: pruned_def take_Suc_conv_app_nth)
  next
    case orphan
    obtain r v where d: "remove_copy (GB_SAVES_PREFIX @ ?name) u = (r, v)" by (cases "remove_copy (GB_SAVES_PREFIX @ ?name) u")
    note v = remove_copy_files [OF d] remove_orphan [OF d orphan(3)]
    show ?thesis
    proof (cases r)
      case True
      have run: "prune_loop roms i okay s = prune_loop roms 0 okay v"
        using orphan c d True by (subst prune_loop.simps) simp
      have "pruned roms 0 okay v (prune_loop roms 0 okay v)"
        using orphan c d [symmetric] True by (intro "1.IH"(2) [OF c [symmetric] refl]) simp_all
      then show ?thesis unfolding run using u v(3,4,5) by (auto simp: pruned_def)
    next
      case False
      have run: "prune_loop roms i okay s = prune_loop roms (i + 1) False v"
        using orphan c d False by (subst prune_loop.simps) simp
      have "pruned roms (i + 1) False v (prune_loop roms (i + 1) False v)"
        using orphan c d [symmetric] False by (intro "1.IH"(3) [OF c [symmetric] refl]) simp_all
      then show ?thesis unfolding run using u v(2,3,5) False by (auto simp: pruned_def)
    qed
  qed
qed

lemma prune_orphans_result:
  assumes "gb_saves_prune_orphans st s = (r, t)"
  shows "kept_files (st_entries st) t = kept_files (st_entries st) s"
    and "r \<Longrightarrow> sf_files t = kept_files (st_entries st) s"
    and "reads_ok s \<Longrightarrow> writes_ok s \<Longrightarrow> sf_mounted s \<Longrightarrow> st_trusted st \<Longrightarrow> r"
proof -
  have "kept_files (st_entries st) t = kept_files (st_entries st) s \<and> (r \<longrightarrow> sf_files t = kept_files (st_entries st) s) \<and>
    (reads_ok s \<and> writes_ok s \<and> sf_mounted s \<and> st_trusted st \<longrightarrow> r)"
  proof (cases "sf_mounted s \<and> st_trusted st")
    case True
    obtain opened u where c: "read_call s = (opened, u)" by (cases "read_call s")
    have u: "sf_files u = sf_files s" "reads_ok u = reads_ok s" "writes_ok u = writes_ok s" "reads_ok s \<Longrightarrow> opened"
      using read_call_reading(1) [OF c] read_call_reading(2) [of s] c by (simp_all add: reading_def reads_ok_def writes_ok_def)
    obtain okay v where p: "prune_loop (st_entries st) 0 True u = (okay, v)" by (cases "prune_loop (st_entries st) 0 True u")
    obtain closed w where d: "read_call v = (closed, w)" by (cases "read_call v")
    have w: "sf_files w = sf_files v" "reads_ok v \<Longrightarrow> closed"
      using read_call_reading(1) [OF d] read_call_reading(2) [of v] d by (simp_all add: reading_def)
    show ?thesis
      using prune_loop_pruned [of "st_entries st" 0 True u] assms True c p d u w
      by (auto simp: pruned_def gb_saves_prune_orphans_def split: if_splits)
  qed (use assms in \<open>auto simp: gb_saves_prune_orphans_def\<close>)
  then show "kept_files (st_entries st) t = kept_files (st_entries st) s"
    "r \<Longrightarrow> sf_files t = kept_files (st_entries st) s"
    "reads_ok s \<Longrightarrow> writes_ok s \<Longrightarrow> sf_mounted s \<Longrightarrow> st_trusted st \<Longrightarrow> r" by simp_all
qed

text \<open>The saves of a ROM in the catalog are not orphans.\<close>

lemma length_save_name: "length hash = 32 \<Longrightarrow> length (save_name hash) = 16"
  by (simp add: save_name_def length_concat comp_def sum_list_triv)

lemma live_not_orphan:
  assumes "e \<in> set roms" "length (re_sha e) = 32"
  shows "\<not> orphan roms (base_name (save_path (re_sha e) c))"
  using assms length_save_name [of "re_sha e"] by (auto simp: orphan_def live_save_name_def base_save_path list_ex_iff)

lemma map_of_filter_key: "P k \<Longrightarrow> map_of (filter (\<lambda>f. P (fst f)) xs) k = map_of xs k"
  by (induction xs) auto

lemma kept_live_file:
  assumes "kept_files roms t = kept_files roms s" "e \<in> set roms" "length (re_sha e) = 32"
  shows "latest_save (re_sha e) m t = latest_save (re_sha e) m s"
proof -
  have "sf_file t (save_path (re_sha e) c) = sf_file s (save_path (re_sha e) c)" for c
    using live_not_orphan [OF assms(2,3), of c] assms(1)
      map_of_filter_key [of "\<lambda>n. \<not> orphan roms n" "base_name (save_path (re_sha e) c)"]
    by (metis sf_file_def)
  then have "save_copies (re_sha e) m t = save_copies (re_sha e) m s" by (intro ext) (simp add: save_copies_def)
  then show ?thesis by (simp add: latest_save_def)
qed

end
