(* ===== verification/Saves_Properties.thy ===== *)
theory Saves_Properties
  imports Gb_Saves_Load Emu_Properties Storage_Properties
begin

text \<open>
  The properties of saved games.  \<open>latest_save\<close> is the payload (save RAM, then the ten clock bytes) that a
  reader of the two files of a ROM finds; \<open>both_damaged\<close> says that both are there and neither is readable.
\<close>

definition demo_play :: gb_session where
  "demo_play = demo_saving\<lparr>has_batt := True, has_rtc := True\<rparr>"

definition demo_fs :: "(nat \<Rightarrow> bool) \<Rightarrow> save_fs" where
  "demo_fs good = \<lparr>sf_files = [], sf_mounted = True, sf_reads = 0, sf_read_ok = (\<lambda>_. True), sf_writes = 0,
     sf_write_ok = good, sf_cut = (\<lambda>_. 100)\<rparr>"

lemma demo_play_ok: "session_ok demo_play" "gb_port_has_battery demo_play" "gb_port_needs_save demo_play"
  "gb_port_sram_size demo_play = 8192"
  using demo_saving_ok
  by (simp_all add: demo_play_def session_ok_def gb_port_has_battery_def gb_port_needs_save_def gb_port_sram_size_def)

lemma demo_fs_ok: "reads_ok (demo_fs good)" "writes_ok (demo_fs (\<lambda>_. True))" "\<not> both_damaged h n (demo_fs good)"
  by (simp_all add: demo_fs_def reads_ok_def writes_ok_def both_damaged_def sf_file_def)

lemma session_clock: "session_ok x \<Longrightarrow> length (rtcLatched (rtc (core x))) = 5"
  by (simp add: session_ok_def frame_ok_def sys_ok_def machine_ok_def wf_gb_def)

text \<open>C11.  A save is atomic.  Whatever writes fail or are cut short, the files afterwards hold as their
  latest save what they held before or the session's state; success means the latter and that the
  session is clean, failure leaves the session dirty.  If no write fails the save succeeds, except where
  both files are there and damaged, which it leaves alone.  No other ROM's save changes.\<close>

theorem save_write_atomic:
  assumes "session_ok x" "gb_port_has_battery x" "gb_port_needs_save x" "length hash = 32" "reads_ok s"
    and "n = gb_port_sram_size x"
  shows "\<exists>okay y t. gb_saves_write x hash s = Some (okay, y, t) \<and>
    (latest_save hash n t = latest_save hash n s \<or> latest_save hash n t = Some (save_payload x)) \<and>
    (okay \<longrightarrow> latest_save hash n t = Some (save_payload x) \<and> \<not> sramDirty (bufs (core y))) \<and>
    (\<not> okay \<longrightarrow> sramDirty (bufs (core y)) = sramDirty (bufs (core x))) \<and>
    (writes_ok s \<longrightarrow> okay = (\<not> both_damaged hash n s)) \<and>
    (\<forall>other m. save_name other \<noteq> save_name hash \<longrightarrow> latest_save other m t = latest_save other m s)"
proof -
  obtain okay y t where "gb_saves_write x hash s = Some (okay, y, t)"
    "latest_save hash n t = latest_save hash n s \<or> latest_save hash n t = Some (save_payload x)"
    "okay \<Longrightarrow> latest_save hash n t = Some (save_payload x) \<and> \<not> sramDirty (bufs (core y))"
    "\<not> okay \<Longrightarrow> sramDirty (bufs (core y)) = sramDirty (bufs (core x))"
    "writes_ok s \<Longrightarrow> \<not> both_damaged hash n s \<Longrightarrow> okay" "both_damaged hash n s \<Longrightarrow> \<not> okay"
    "\<And>other m. save_name other \<noteq> save_name hash \<Longrightarrow> latest_save other m t = latest_save other m s"
    by (rule gb_saves_write_result [OF session_sram_fits [OF assms(1)] session_clock [OF assms(1)] assms(2-6)]) blast
  then show ?thesis by (intro exI [of _ okay] exI [of _ y] exI [of _ t]) blast
qed

lemma save_write_atomic_witness:
  "\<exists>okay y t. gb_saves_write demo_play (replicate 32 7) (demo_fs (\<lambda>k. k < 9)) = Some (okay, y, t) \<and>
    (latest_save (replicate 32 7) 8192 t = latest_save (replicate 32 7) 8192 (demo_fs (\<lambda>k. k < 9)) \<or>
     latest_save (replicate 32 7) 8192 t = Some (save_payload demo_play))"
  using save_write_atomic [OF demo_play_ok(1-3), of "replicate 32 7" "demo_fs (\<lambda>k. k < 9)" 8192]
    demo_fs_ok(1) demo_play_ok(4) by (metis length_replicate)

text \<open>C20.  Loading restores what was saved: after a successful save any session of the same cartridge
  loads successfully and then has the saved save RAM and clock, is clean and is still well-formed.\<close>

theorem save_roundtrip:
  assumes "session_ok x" "gb_port_has_battery x" "gb_port_needs_save x" "length hash = 32" "reads_ok s"
    and "gb_saves_write x hash s = Some (True, x', t)"
    and "session_ok y" "gb_port_has_battery y" "gb_port_sram_size y = gb_port_sram_size x"
  shows "\<exists>z u. gb_saves_load y hash t = Some (GB_SAVE_LOADED, z, u) \<and> sf_files u = sf_files t \<and> session_ok z \<and>
    sram_bytes z = sram_bytes x \<and> fst (gb_port_export_rtc z) = fst (gb_port_export_rtc x) \<and> \<not> sramDirty (bufs (core z))"
proof -
  have saved: "latest_save hash (gb_port_sram_size y) t = Some (save_payload x)" "reads_ok t"
    by (rule gb_saves_write_result [OF session_sram_fits [OF assms(1)] session_clock [OF assms(1)] assms(2-5) refl];
        use assms(6,9) in simp)+
  obtain z u where z: "gb_saves_load y hash t = Some (GB_SAVE_LOADED, z, u)" "reading t u" "save_payload z = save_payload x"
    "\<not> sramDirty (bufs (core z))" "session_ok z"
    using gb_saves_load_result [OF saved(2) session_sram_fits [OF assms(7)] refl assms(8), of hash] saved(1) assms(7) by auto
  have "length (fst (gb_port_export_rtc z)) = length (fst (gb_port_export_rtc x))"
    using assms(1) z(5) by (simp add: export_rtc_length session_clock)
  then have "sram_bytes z = sram_bytes x" "fst (gb_port_export_rtc z) = fst (gb_port_export_rtc x)"
    using z(3) by (simp_all add: save_payload_def)
  with z show ?thesis by (auto simp: reading_def)
qed

lemma save_roundtrip_witness:
  "\<exists>x' t z u. gb_saves_write demo_play (replicate 32 7) (demo_fs (\<lambda>_. True)) = Some (True, x', t) \<and>
    gb_saves_load demo_play (replicate 32 7) t = Some (GB_SAVE_LOADED, z, u) \<and> sram_bytes z = sram_bytes demo_play"
proof -
  have h: "length (replicate 32 (7 :: u8)) = 32" by simp
  obtain x' t where "gb_saves_write demo_play (replicate 32 7) (demo_fs (\<lambda>_. True)) = Some (True, x', t)"
    by (rule gb_saves_write_result [OF session_sram_fits [OF demo_play_ok(1)] session_clock [OF demo_play_ok(1)]
          demo_play_ok(2,3) h demo_fs_ok(1) [of "\<lambda>_. True"] refl]) (use demo_fs_ok(2,3) in auto)
  then show ?thesis
    using save_roundtrip [OF demo_play_ok(1-3) h demo_fs_ok(1) _ demo_play_ok(1,2) refl] by blast
qed

text \<open>Cleaning up removes no save of a ROM in the catalog.  The scan removes only files whose name is
  that of a save of no listed ROM; on success none is left; and it succeeds on a working file system.\<close>

theorem prune_keeps_games:
  assumes "gb_saves_prune_orphans st s = (r, t)"
  shows "filter (\<lambda>f. \<not> orphan (st_entries st) (fst f)) (sf_files t) = filter (\<lambda>f. \<not> orphan (st_entries st) (fst f)) (sf_files s) \<and>
    (r \<longrightarrow> sf_files t = filter (\<lambda>f. \<not> orphan (st_entries st) (fst f)) (sf_files s)) \<and>
    (reads_ok s \<and> writes_ok s \<and> sf_mounted s \<and> st_trusted st \<longrightarrow> r) \<and>
    (\<forall>e m. e \<in> set (st_entries st) \<and> length (re_sha e) = 32 \<longrightarrow> latest_save (re_sha e) m t = latest_save (re_sha e) m s)"
  using prune_orphans_result [OF assms] kept_live_file [of "st_entries st"] by blast

definition demo_orphans :: save_fs where
  "demo_orphans = (demo_fs (\<lambda>_. True))\<lparr>sf_files := [(replicate 16 0x30 @ [0x2E, 0x61], [1, 2, 3]), ([0x30], [])]\<rparr>"

lemma prune_keeps_games_witness:
  "sf_files (snd (gb_saves_prune_orphans (demo_storage\<lparr>st_trusted := True\<rparr>) demo_orphans)) = [([0x30], [])]"
proof -
  obtain r t where p: "gb_saves_prune_orphans (demo_storage\<lparr>st_trusted := True\<rparr>) demo_orphans = (r, t)"
    by (cases "gb_saves_prune_orphans (demo_storage\<lparr>st_trusted := True\<rparr>) demo_orphans")
  have o: "orphan [] (replicate 16 0x30 @ [0x2E, 0x61])" "\<not> orphan [] [0x30]"
    by (simp_all add: orphan_def live_save_name_def hex_name_char_def list_all_length nth_append)
  have "reads_ok demo_orphans \<and> writes_ok demo_orphans \<and> sf_mounted demo_orphans"
    by (simp add: demo_orphans_def demo_fs_def reads_ok_def writes_ok_def)
  with prune_keeps_games [OF p] have "sf_files t = filter (\<lambda>f. \<not> orphan [] (fst f)) (sf_files demo_orphans)"
    by (simp add: demo_storage_def)
  then show ?thesis using p o by (simp add: demo_orphans_def)
qed

end
