(* ===== verification/Game_Menu.thy ===== *)
theory Game_Menu
  imports Gb_Input
begin

text \<open>
  The menus of main/game_main.c as state machines: one step is one pass through a loop of the code.
  What the devices answer during a pass is a \<open>turn\<close>: the message of the button queue, the controller
  samples and clock readings in the order they are taken, the ADC voltage and the success of each kind
  of device call.  What is drawn is not modelled, except which rows of a list are shown.
\<close>

section \<open>The outside world during one pass\<close>

datatype bsp_btn = BSP_BTN_UP | BSP_BTN_DOWN | BSP_BTN_OK

datatype bsp_btn_ev = BSP_BTN_PRESS | BSP_BTN_CLICK | BSP_BTN_DOUBLE | BSP_BTN_LONG

type_synonym button_message = "bsp_btn \<times> bsp_btn_ev"

datatype device =
  AUDIO_START | AUDIO_STOP | AUDIO_SLEEP | AUDIO_WAKE | SCREEN_OFF | SCREEN_ON | PREPARE_SCREEN | BOOT_ANIMATION
| DISPLAY_STATUS | DISPLAY_IDLE | DISPLAY_FRAME | DISPLAY_QUEUED

text \<open>\<open>tn_button\<close> is what one receive returns, \<open>tn_buttons\<close> what a loop that drains the queue receives.\<close>

record turn =
  tn_button :: "button_message option"
  tn_buttons :: "button_message list"
  tn_pad :: "nat \<Rightarrow> pad_sample"
  tn_time :: "nat \<Rightarrow> int"
  tn_mv :: int
  tn_ok :: "device \<Rightarrow> bool"
  tn_healthy :: "nat \<Rightarrow> bool"

definition board_menu_action :: "button_message \<Rightarrow> gb_menu_action" where
  "board_menu_action msg =
     (case msg of (button, event) \<Rightarrow>
        if event \<noteq> BSP_BTN_CLICK then GB_MENU_NONE
        else case button of BSP_BTN_UP \<Rightarrow> GB_MENU_UP | BSP_BTN_DOWN \<Rightarrow> GB_MENU_DOWN | BSP_BTN_OK \<Rightarrow> GB_MENU_CONFIRM)"

abbreviation long_ok :: "button_message option" where
  "long_ok \<equiv> Some (BSP_BTN_OK, BSP_BTN_LONG)"

definition menu_button_receive :: "turn \<Rightarrow> gb_select_pause \<Rightarrow> button_message option \<times> gb_select_pause" where
  "menu_button_receive t hold =
     (let (fired, hold) = gb_select_pause_step (tn_pad t 0) (tn_time t 0) hold
      in (if fired then long_ok else tn_button t, hold))"

text \<open>The action of a pass: the board's buttons first, then the controller.\<close>

definition board_action :: "button_message option \<Rightarrow> gb_menu_action" where
  "board_action msg = (case msg of None \<Rightarrow> GB_MENU_NONE | Some m \<Rightarrow> board_menu_action m)"

section \<open>Settings\<close>

record nvs =
  nv_u8 :: "string \<Rightarrow> u8 option"
  nv_calls :: nat
  nv_ok :: "nat \<Rightarrow> bool"

record settings =
  s_volume :: u8
  s_brightness :: u8
  s_sound_enabled :: bool
  nv :: nvs

definition default_settings :: "nvs \<Rightarrow> settings" where
  "default_settings n = \<lparr>s_volume = 60, s_brightness = 80, s_sound_enabled = True, nv = n\<rparr>"

definition nv_call :: "settings \<Rightarrow> bool \<times> settings" where
  "nv_call c = (nv_ok (nv c) (nv_calls (nv c)), c\<lparr>nv := (nv c)\<lparr>nv_calls := nv_calls (nv c) + 1\<rparr>\<rparr>)"

definition nvs_get_u8 :: "string \<Rightarrow> settings \<Rightarrow> u8 option \<times> settings" where
  "nvs_get_u8 key c = (let (ok, d) = nv_call c in (if ok then nv_u8 (nv c) key else None, d))"

definition nvs_set_u8 :: "string \<Rightarrow> u8 \<Rightarrow> settings \<Rightarrow> bool \<times> settings" where
  "nvs_set_u8 key v c =
     (let (ok, d) = nv_call c in (ok, if ok then d\<lparr>nv := (nv d)\<lparr>nv_u8 := (nv_u8 (nv d))(key \<mapsto> v)\<rparr>\<rparr> else d))"

definition settings_load :: "settings \<Rightarrow> settings" where
  "settings_load c =
     (let (opened, c) = nv_call c
      in if \<not> opened then c
         else
           let (v, c) = nvs_get_u8 ''volume'' c;
               c = (case v of Some x \<Rightarrow> if x \<le> 100 then c\<lparr>s_volume := x\<rparr> else c | None \<Rightarrow> c);
               (v, c) = nvs_get_u8 ''bright'' c;
               c = (case v of Some x \<Rightarrow> if x \<le> 100 then c\<lparr>s_brightness := x\<rparr> else c | None \<Rightarrow> c);
               (v, c) = nvs_get_u8 ''sound'' c
           in (case v of Some x \<Rightarrow> if x \<le> 1 then c\<lparr>s_sound_enabled := (x \<noteq> 0)\<rparr> else c | None \<Rightarrow> c))"

definition then_nvs :: "(settings \<Rightarrow> bool \<times> settings) \<Rightarrow> bool \<times> settings \<Rightarrow> bool \<times> settings" where
  "then_nvs f r = (case r of (ok, c) \<Rightarrow> if ok then f c else (False, c))"

definition settings_save :: "settings \<Rightarrow> bool \<times> settings" where
  "settings_save c =
     then_nvs nv_call
       (then_nvs (nvs_set_u8 ''sound'' (if s_sound_enabled c then 1 else 0))
         (then_nvs (nvs_set_u8 ''bright'' (s_brightness c))
           (then_nvs (nvs_set_u8 ''volume'' (s_volume c)) (nv_call c))))"

record settings_menu =
  sm_selected :: nat
  sm_editing :: bool
  sm_hold :: gb_select_pause
  sm_pad :: gb_menu_input

definition settings_enter :: "pad_sample \<Rightarrow> pad_sample \<Rightarrow> settings_menu" where
  "settings_enter p q =
     \<lparr>sm_selected = 0, sm_editing = False, sm_hold = gb_select_pause_init p, sm_pad = gb_menu_input_init q\<rparr>"

definition clamp :: "int \<Rightarrow> int \<Rightarrow> u8" where
  "clamp lo v = of_int (if v < lo then lo else if 100 < v then 100 else v)"

text \<open>Up and down while a value is edited.\<close>

definition settings_adjust :: "nat \<Rightarrow> int \<Rightarrow> settings \<Rightarrow> settings" where
  "settings_adjust selected change c =
     (if selected = 0 then c\<lparr>s_volume := clamp 0 (uint (s_volume c) + change)\<rparr>
      else if selected = 1 then
        c\<lparr>s_brightness := clamp 10 (uint (s_brightness c) + change)\<rparr>
      else c)"

definition settings_act :: "gb_menu_action \<Rightarrow> settings_menu \<Rightarrow> settings \<Rightarrow> bool \<times> settings_menu \<times> settings" where
  "settings_act action m c =
     (if action = GB_MENU_BACK then
        (if sm_editing m then (False, m\<lparr>sm_editing := False\<rparr>, snd (settings_save c)) else (True, m, c))
      else if action = GB_MENU_NONE then (False, m, c)
      else if sm_editing m then
        (if action = GB_MENU_CONFIRM then (False, m\<lparr>sm_editing := False\<rparr>, snd (settings_save c))
         else (False, m, settings_adjust (sm_selected m) (if action = GB_MENU_UP then 10 else -10) c))
      else if action = GB_MENU_UP then (False, m\<lparr>sm_selected := (sm_selected m + 3) mod 4\<rparr>, c)
      else if action = GB_MENU_DOWN then (False, m\<lparr>sm_selected := (sm_selected m + 1) mod 4\<rparr>, c)
      else if sm_selected m = 3 then (True, m, c)
      else if sm_selected m = 2 then (False, m, snd (settings_save (c\<lparr>s_sound_enabled := \<not> s_sound_enabled c\<rparr>)))
      else (False, m\<lparr>sm_editing := True\<rparr>, c))"

text \<open>One pass of \<open>settings_loop\<close>; the first component says that it returns.\<close>

definition settings_step :: "turn \<Rightarrow> settings_menu \<Rightarrow> settings \<Rightarrow> bool \<times> settings_menu \<times> settings" where
  "settings_step t m c =
     (let (msg, hold) = menu_button_receive t (sm_hold m);
          (pad_action, pad) = gb_menu_input_step (tn_pad t 1) (sm_pad m);
          action = (if msg = long_ok then GB_MENU_BACK else board_action msg);
          action = (if action = GB_MENU_NONE then pad_action else action)
      in settings_act action (m\<lparr>sm_hold := hold, sm_pad := pad\<rparr>) c)"

section \<open>The home screen and the list of games\<close>

record home_menu =
  hm_selected :: nat
  hm_pad :: gb_menu_input

text \<open>One pass of \<open>home_loop\<close>: the chosen row, if one was confirmed.\<close>

definition home_step :: "turn \<Rightarrow> home_menu \<Rightarrow> nat option \<times> home_menu" where
  "home_step t m =
     (let (pad_action, pad) = gb_menu_input_step (tn_pad t 0) (hm_pad m);
          m = m\<lparr>hm_pad := pad\<rparr>;
          action = board_action (tn_button t);
          action = (if action = GB_MENU_NONE then pad_action else action)
      in if action = GB_MENU_UP \<or> action = GB_MENU_DOWN then
           (None, m\<lparr>hm_selected := (hm_selected m + (if action = GB_MENU_UP then 3 else 1)) mod 4\<rparr>)
         else if action = GB_MENU_CONFIRM then (Some (hm_selected m), m)
         else (None, m))"

record list_menu =
  lm_selected :: nat
  lm_hold :: gb_select_pause
  lm_pad :: gb_menu_input

definition list_enter :: "pad_sample \<Rightarrow> list_menu" where
  "list_enter p = \<lparr>lm_selected = 0, lm_hold = gb_select_pause_init p, lm_pad = gb_menu_input_init p\<rparr>"

datatype list_result = List_stay | List_back | List_run nat

text \<open>One pass of \<open>menu_loop\<close> over \<open>count\<close> games.  After \<open>List_run\<close> the loop goes on with
  \<open>list_resumed\<close>.\<close>

definition list_step :: "nat \<Rightarrow> turn \<Rightarrow> list_menu \<Rightarrow> list_result \<times> list_menu" where
  "list_step count t m =
     (let (msg, hold) = menu_button_receive t (lm_hold m); connected = pad_connected (tn_pad t 1)
      in if \<not> connected then (List_back, m)
         else if count = 0 then (if msg = long_ok then List_back else List_stay, m\<lparr>lm_hold := hold\<rparr>)
         else
           let (pad_action, pad) = gb_menu_input_step (tn_pad t 1) (lm_pad m);
               m = m\<lparr>lm_hold := hold, lm_pad := pad\<rparr>;
               action = (if msg = long_ok then GB_MENU_BACK else board_action msg);
               action = (if action = GB_MENU_NONE \<and> pad_action \<noteq> GB_MENU_BACK then pad_action else action)
           in if action = GB_MENU_BACK then (List_back, m)
              else if action = GB_MENU_UP \<or> action = GB_MENU_DOWN then
                (List_stay, m\<lparr>lm_selected := (lm_selected m + (if action = GB_MENU_UP then count - 1 else 1)) mod count\<rparr>)
              else if action = GB_MENU_CONFIRM then (List_run (lm_selected m), m)
              else (List_stay, m))"

definition list_resumed :: "pad_sample \<Rightarrow> list_menu \<Rightarrow> list_menu" where
  "list_resumed p m = m\<lparr>lm_hold := gb_select_pause_init p, lm_pad := gb_menu_input_init p\<rparr>"

definition GB_UI_MAX_ITEMS :: nat where "GB_UI_MAX_ITEMS = 5"

text \<open>The rows drawn, as catalog positions, and which of them is marked.\<close>

definition list_rows :: "nat \<Rightarrow> nat \<Rightarrow> nat list \<times> nat" where
  "list_rows count selected =
     (let first = (if 3 < selected then selected - 3 else 0);
          shown = count - first;
          shown = (if GB_UI_MAX_ITEMS < shown then GB_UI_MAX_ITEMS else shown)
      in ([first..<first + shown], selected - first))"

section \<open>Screen off\<close>

definition screen_off_enter :: "turn \<Rightarrow> bool" where
  "screen_off_enter t \<longleftrightarrow> tn_ok t AUDIO_STOP \<and> tn_ok t AUDIO_SLEEP \<and> tn_ok t SCREEN_OFF"

definition screen_off_start :: gb_screen_sleep where
  "screen_off_start = \<lparr>sl_phase = 0, sl_released_ms = 0, sl_released = False\<rparr>"

definition any_press :: "turn \<Rightarrow> bool" where
  "any_press t \<longleftrightarrow> 0 \<le> tn_mv t \<and> tn_mv t < 1900 \<or> pad_connected (tn_pad t 0) \<and> any_button (tn_pad t 0)"

text \<open>One pass of the loop of \<open>screen_off_loop\<close>; \<open>Some okay\<close> is its return.\<close>

definition screen_off_step :: "turn \<Rightarrow> gb_screen_sleep \<Rightarrow> bool \<Rightarrow> bool option \<times> gb_screen_sleep \<times> bool" where
  "screen_off_step t s lit =
     (let s = gb_screen_sleep_step (any_press t) (of_int (tn_time t 0 div 1000)) s
      in if 2 \<le> sl_phase s \<and> \<not> lit \<and> \<not> tn_ok t SCREEN_ON then (Some False, s, True)
         else if sl_phase s = 3 then (Some (tn_ok t AUDIO_WAKE), s, True)
         else (None, s, lit \<or> 2 \<le> sl_phase s))"

section \<open>Settings stay in range and survive a restart\<close>

definition settings_ok :: "settings \<Rightarrow> bool" where
  "settings_ok c \<longleftrightarrow> s_volume c \<le> 100 \<and> s_brightness c \<le> 100"

text \<open>What is in NVS is what is in effect.\<close>

definition settings_stored :: "settings \<Rightarrow> bool" where
  "settings_stored c \<longleftrightarrow>
     nv_u8 (nv c) ''volume'' = Some (s_volume c) \<and> nv_u8 (nv c) ''bright'' = Some (s_brightness c) \<and>
     nv_u8 (nv c) ''sound'' = Some (if s_sound_enabled c then 1 else 0)"

definition nvs_works :: "settings \<Rightarrow> bool" where
  "nvs_works c \<longleftrightarrow> (\<forall>k. nv_ok (nv c) k)"

lemma nvs_works_upd [simp]:
  "nvs_works (c\<lparr>s_volume := v\<rparr>) = nvs_works c" "nvs_works (c\<lparr>s_brightness := v\<rparr>) = nvs_works c"
  "nvs_works (c\<lparr>s_sound_enabled := b\<rparr>) = nvs_works c"
  by (simp_all add: nvs_works_def)

lemmas nvs_defs = nv_call_def nvs_get_u8_def nvs_set_u8_def then_nvs_def

lemma settings_save_keeps:
  "s_volume (snd (settings_save c)) = s_volume c" "s_brightness (snd (settings_save c)) = s_brightness c"
  "s_sound_enabled (snd (settings_save c)) = s_sound_enabled c" "nvs_works (snd (settings_save c)) = nvs_works c"
  by (simp_all add: settings_save_def nvs_defs nvs_works_def Let_def)

lemma settings_save_stores: "nvs_works c \<Longrightarrow> fst (settings_save c) \<and> settings_stored (snd (settings_save c))"
  by (simp add: settings_save_def nvs_defs nvs_works_def settings_stored_def)

lemma settings_load_stored:
  assumes "settings_stored c" "settings_ok c" "nvs_works c" "nv d = nv c"
  shows "s_volume (settings_load d) = s_volume c" "s_brightness (settings_load d) = s_brightness c"
    "s_sound_enabled (settings_load d) = s_sound_enabled c"
  using assms
  by (simp_all add: settings_load_def nvs_defs nvs_works_def settings_stored_def settings_ok_def)

lemma settings_load_ok: "settings_ok c \<Longrightarrow> settings_ok (settings_load c)"
proof -
  have get: "settings_ok (snd (nvs_get_u8 key d)) = settings_ok d" "settings_ok (snd (nv_call d)) = settings_ok d" for key d
    by (simp_all add: nvs_get_u8_def nv_call_def settings_ok_def)
  have set: "settings_ok (case v of Some x \<Rightarrow> if x \<le> 100 then d\<lparr>s_volume := x\<rparr> else d | None \<Rightarrow> d)"
    "settings_ok (case v of Some x \<Rightarrow> if x \<le> 100 then d\<lparr>s_brightness := x\<rparr> else d | None \<Rightarrow> d)"
    "settings_ok (case v of Some x \<Rightarrow> if x \<le> 1 then d\<lparr>s_sound_enabled := (x \<noteq> 0)\<rparr> else d | None \<Rightarrow> d)"
    if "settings_ok d" for v d
    using that by (simp_all add: settings_ok_def split: option.split)
  assume "settings_ok c"
  then show ?thesis unfolding settings_load_def Let_def split_beta by (simp add: get set)
qed

lemma clamp_le: "0 \<le> lo \<Longrightarrow> lo \<le> 100 \<Longrightarrow> clamp lo v \<le> 100"
  by (simp add: clamp_def word_le_def unsigned_of_int take_bit_eq_mod)

text \<open>The invariant of the settings screen: unsaved values only while one is edited.\<close>

definition settings_inv :: "settings_menu \<Rightarrow> settings \<Rightarrow> bool" where
  "settings_inv m c \<longleftrightarrow> sm_selected m < 4 \<and> settings_ok c \<and> nvs_works c \<and> (\<not> sm_editing m \<longrightarrow> settings_stored c)"

lemma settings_act_inv:
  assumes "settings_inv m c"
  shows "case settings_act action m c of (over, m', c') \<Rightarrow> settings_inv m' c' \<and> (over \<longrightarrow> settings_stored c')"
  using assms settings_save_stores [of c] settings_save_stores [of "c\<lparr>s_sound_enabled := \<not> s_sound_enabled c\<rparr>"]
  by (cases action) (simp_all add: settings_act_def settings_inv_def settings_ok_def settings_save_keeps
      settings_adjust_def clamp_le)

lemma settings_step_inv:
  assumes "settings_inv m c" "settings_step t m c = (over, m', c')"
  shows "settings_inv m' c'" "over \<Longrightarrow> settings_stored c'"
proof -
  have "settings_inv (m\<lparr>sm_hold := hold, sm_pad := pad\<rparr>) c" for hold pad
    using assms(1) by (simp add: settings_inv_def)
  then have "settings_inv m' c' \<and> (over \<longrightarrow> settings_stored c')"
    using assms(2) settings_act_inv by (fastforce simp: settings_step_def Let_def split: prod.splits)
  then show "settings_inv m' c'" "over \<Longrightarrow> settings_stored c'" by simp_all
qed

text \<open>\<open>settings_loop\<close>: passes until it returns; \<open>None\<close> if the given passes are not enough.\<close>

fun settings_run :: "turn list \<Rightarrow> settings_menu \<Rightarrow> settings \<Rightarrow> settings option" where
  "settings_run [] m c = None"
| "settings_run (t # ts) m c =
     (case settings_step t m c of (done, m, c) \<Rightarrow> if done then Some c else settings_run ts m c)"

lemma settings_run_stored:
  assumes "settings_inv m c" "settings_run ts m c = Some c'"
  shows "settings_ok c' \<and> nvs_works c' \<and> settings_stored c'"
  using assms
proof (induction ts m c rule: settings_run.induct)
  case (2 t ts m c)
  obtain d m1 c1 where s: "settings_step t m c = (d, m1, c1)" by (metis prod_cases3)
  note i = settings_step_inv [OF "2.prems"(1) s]
  show ?case
  proof (cases d)
    case True
    then show ?thesis using i "2.prems"(2) s by (simp add: settings_inv_def)
  next
    case False
    then show ?thesis using "2.IH" [OF s [symmetric] refl False i(1)] "2.prems"(2) s by simp
  qed
qed simp

section \<open>The selection stays on the list and on the screen\<close>

lemma list_step_bound:
  assumes "count = 0 \<or> lm_selected m < count" "list_step count t m = (r, m')"
  shows "count = 0 \<or> lm_selected m' < count" "r = List_run i \<Longrightarrow> i < count"
  using assms by (auto simp: list_step_def Let_def split: prod.splits if_splits)

lemma home_step_bound:
  "hm_selected m < 4 \<Longrightarrow> home_step t m = (r, m') \<Longrightarrow> hm_selected m' < 4 \<and> (\<forall>i. r = Some i \<longrightarrow> i < 4)"
  by (auto simp: home_step_def Let_def split: prod.splits if_splits)

lemma list_rows_shown:
  assumes "selected < count" "list_rows count selected = (rows, mark)"
  shows "mark < length rows \<and> rows ! mark = selected \<and> length rows \<le> GB_UI_MAX_ITEMS \<and> (\<forall>i \<in> set rows. i < count)"
proof -
  define first where "first = (if 3 < selected then selected - 3 else 0)"
  define shown where "shown = (if GB_UI_MAX_ITEMS < count - first then GB_UI_MAX_ITEMS else count - first)"
  have e: "rows = [first..<first + shown]" "mark = selected - first"
    using assms(2) unfolding list_rows_def Let_def first_def [symmetric] shown_def [symmetric] by simp_all
  have b: "first \<le> selected" "selected - first < shown" "first + shown \<le> count" "shown \<le> GB_UI_MAX_ITEMS"
    using assms(1) by (auto simp: first_def shown_def GB_UI_MAX_ITEMS_def)
  then have "rows ! mark = selected" by (simp add: e nth_upt)
  then show ?thesis using b by (simp add: e)
qed

end
