(* ===== verification/Emu_Session.thy ===== *)
theory Emu_Session
  imports Emu_Behaviour
begin

text \<open>
  A session can be played for ever: every call of the C interface keeps it well-formed, and emulation
  does not lose track of unsaved progress: the save RAM is as it was or marked dirty, and nothing but a
  save takes the mark back.  Locale \<open>frame_invariant\<close> is what a property of the machine needs, beyond
  what the interpreter asks of the bus, to survive whole frames.
\<close>

section \<open>Frames\<close>

text \<open>Everything but the processor, the timers, the PPU and the two frame buffers is as it was.\<close>

definition screen_only :: "'snd gb \<Rightarrow> 'snd gb \<Rightarrow> bool" where
  "screen_only s t \<longleftrightarrow>
     (\<exists>f c. bufs t = (bufs s)\<lparr>framebuf := f, colorFramebuf := c\<rparr>) \<and>
     soundContext t = soundContext s \<and> soundWrite t = soundWrite s \<and> soundRead t = soundRead s \<and>
     joy t = joy s \<and> mbc t = mbc s \<and> rom t = rom s \<and> rtc t = rtc s \<and> cgb t = cgb s \<and>
     cheats t = cheats s \<and> shadeRemap t = shadeRemap s"

lemma bufs_frame:
  "\<exists>f c. b = b\<lparr>framebuf := f, colorFramebuf := c\<rparr>"
  "\<exists>f c. b\<lparr>framebuf := x\<rparr> = b\<lparr>framebuf := f, colorFramebuf := c\<rparr>"
  "\<exists>f c. b\<lparr>colorFramebuf := y\<rparr> = b\<lparr>framebuf := f, colorFramebuf := c\<rparr>"
  "\<exists>f c. b\<lparr>framebuf := x, colorFramebuf := y\<rparr> = b\<lparr>framebuf := f, colorFramebuf := c\<rparr>"
  "\<exists>f c. b\<lparr>colorFramebuf := y, framebuf := x\<rparr> = b\<lparr>framebuf := f, colorFramebuf := c\<rparr>"
  by (rule exI [of _ "framebuf b"], rule exI [of _ "colorFramebuf b"], simp)
    (rule exI [of _ x], rule exI [of _ "colorFramebuf b"], simp,
     rule exI [of _ "framebuf b"], rule exI [of _ y], simp,
     (rule exI [of _ x], rule exI [of _ y], simp)+)

lemma screen_only_trans: "screen_only s t \<Longrightarrow> screen_only t u \<Longrightarrow> screen_only s u"
  unfolding screen_only_def by (elim conjE exE, intro conjI) (simp_all, blast)

lemma screen_only_parts [simp]:
  "screen_only s s" "screen_only s (u\<lparr>cpu := c\<rparr>) = screen_only s u" "screen_only s (u\<lparr>lcd := l\<rparr>) = screen_only s u"
  "screen_only s (u\<lparr>timer := t\<rparr>) = screen_only s u"
  by (simp_all add: screen_only_def bufs_frame)

lemma screen_only_steps [simp]:
  "screen_only s (checkStatInterrupt u) = screen_only s u" "screen_only s (enter_mode3 u) = screen_only s u"
  "screen_only s (next_line u) = screen_only s u"
  by (simp_all add: checkStatInterrupt_def enter_mode3_def next_line_def Let_def)

lemma store_line_parts: "pcp (store_line n l b) (\<lambda>d. \<exists>f c. d = b\<lparr>framebuf := f, colorFramebuf := c\<rparr>)"
  unfolding pcp_def store_line_def
  by (auto simp: bind_eq_Some_conv bufs_frame split: option.splits)

lemma renderLine_parts: "pcp (renderLine n s) (screen_only s)"
  unfolding renderLine_def Let_def
  by (intro pcp_rules) (auto simp: screen_only_def bufs_frame dest: pcpD [OF store_line_parts])

lemma leave_mode3_parts: "pcp (leave_mode3 s) (screen_only s)"
  unfolding leave_mode3_def
  by (intro pcp_rules) (auto dest!: pcpD [OF renderLine_parts] split: if_splits)

locale frame_invariant = bus_invariant I for I :: "'snd gb \<Rightarrow> bool" +
  assumes inv_screen: "I s \<Longrightarrow> wf_gb t \<Longrightarrow> screen_only s t \<Longrightarrow> I t"
begin

lemma cpu_run_inv:
  assumes "sys_ok s" "I s" "budget - cycles \<le> 60000" "0 \<le> cycles" "cpu_run budget cycles s = Some r"
  shows "I (snd r)"
proof -
  have "sys_ok s \<longrightarrow> I s \<longrightarrow> budget - cycles \<le> 60000 \<longrightarrow> 0 \<le> cycles \<longrightarrow> I (snd r)"
    using assms(5)
  proof (induction rule: cpu_run.raw_induct [rotated, where P = "\<lambda>budget cycles s r.
      sys_ok s \<longrightarrow> I s \<longrightarrow> budget - cycles \<le> 60000 \<longrightarrow> 0 \<le> cycles \<longrightarrow> I (snd r)", consumes 1])
    case (1 run budget cycles s r)
    show ?case
    proof (intro impI)
      assume s: "sys_ok s" "I s" "budget - cycles \<le> 60000" "0 \<le> cycles"
      show "I (snd r)"
      proof (cases "cycles < budget \<and> \<not> lcdChanged (lcd s)")
        case True
        with 1(2) obtain c u where st: "cpu_step (budget - cycles) s = Some (c, u)"
          "run budget (cycles + c) (updateTimer c u) = Some r"
          by (auto simp: bind_eq_Some_conv)
        have u: "0 \<le> c" "c \<le> 36 \<or> c \<le> budget - cycles" "sys_ok u"
          using sys_ok_step [OF s(1), of "budget - cycles"] st(1) by (auto simp: okp_iff)
        have c: "c \<le> 60000" using u(2) s(3) by auto
        have "f_clean (cpu s)" using s(1) by (simp add: sys_ok_def)
        then have "I u" using cpu_step_keeps [OF s(2), of "budget - cycles"] st(1) by (simp add: okp_iff)
        moreover have wf: "wf_gb u" using u(3) by (simp add: sys_ok_def machine_ok_def)
        moreover have "screen_only u (updateTimer c u)"
          by (subst updateTimer_parts(7) [OF wf_gbD(4) [OF wf] u(1) c]) simp
        ultimately have "I (updateTimer c u)"
          using inv_screen updateTimer_wf [OF wf u(1) c] by blast
        then show ?thesis
          using 1(1) [OF st(2)] updateTimer_frame(1) [OF u(3,1) c] s(3,4) u(1) by simp
      qed (use 1(2) s in auto)
    qed
  qed
  then show ?thesis using assms(1-4) by simp
qed

lemma run_slice_inv:
  assumes "sys_ok s" "I s" "run_slice elapsed s = Some (e, t)" "elapsed < 70224"
  shows "I t"
proof -
  let ?s = "s\<lparr>lcd := (lcd s)\<lparr>lcdChanged := False\<rparr>\<rparr>"
  have ok: "sys_ok ?s" using assms(1) by (auto simp: sys_ok_def machine_ok_def wf_ppu_def)
  have ppu: "0 \<le> ppuDots (lcd s)" and wf: "wf_gb ?s"
    using assms(1) by (simp_all add: sys_ok_def machine_ok_def wf_ppu_def)
  have i: "I ?s" by (rule inv_screen [OF assms(2) wf]) simp
  have wt: "wf_gb t" using run_slice_ok [OF assms(1,4)] assms(3) by (simp add: okp_iff sys_ok_def machine_ok_def)
  have run: "I u" if "cpu_run budget 0 ?s = Some (c, u)" "budget \<le> 912" for budget c u
    using cpu_run_inv [OF ok i _ order_refl that(1)] that(2) by simp
  have rest: "screen_only v (next_line w)" if "leave_mode3 (enter_mode3 (v\<lparr>lcd := l\<rparr>)) = Some w" for v l w
    using pcpD [OF leave_mode3_parts that] by (auto intro: screen_only_trans [rotated])
  obtain u where u: "I u" "t = u \<or> screen_only u t"
    using assms(3) ppu unfolding run_slice_def Let_def
    by (auto simp: bind_eq_Some_conv split: if_splits dest!: run rest)
  then show ?thesis using inv_screen wt by blast
qed

lemma frame_loop_inv:
  assumes "sys_ok s" "I s" "elapsed < 70260" "frame_loop elapsed s = Some (e, t)"
  shows "I t"
  using assms
proof (induction "nat (70224 - elapsed)" arbitrary: elapsed s rule: less_induct)
  case less
  show ?case
  proof (cases "elapsed < 70224")
    case False
    with less.prems(2,4) show ?thesis by (subst (asm) frame_loop.simps) simp
  next
    case True
    obtain e' u where r: "run_slice elapsed s = Some (e', u)" "sys_ok u" "elapsed < e'" "e' < 70260"
      using run_slice_ok [OF less.prems(1) True] by (auto simp: okp_iff)
    have "frame_loop e' u = Some (e, t)" using less.prems(4) True r(1) by (subst (asm) frame_loop.simps) simp
    then show ?thesis using True r run_slice_inv [OF less.prems(1,2) r(1) True] by (intro less.hyps) auto
  qed
qed

lemma runFrame_inv:
  assumes "frame_ok s" "I s" "runFrame s = Some t"
  shows "I t"
proof -
  have s: "sys_ok s" "frameOvershoot (lcd s) < 70260" using assms(1) by (auto simp: frame_ok_def)
  obtain e u where u: "frame_loop (frameOvershoot (lcd s)) s = Some (e, u)"
    "t = u\<lparr>lcd := (lcd u)\<lparr>frameOvershoot := e - 70224\<rparr>\<rparr>"
    using assms(3) by (auto simp: runFrame_def bind_eq_Some_conv)
  have "I u" using frame_loop_inv [OF s(1) assms(2) s(2) u(1)] .
  moreover have "wf_gb t" using runFrame_ok [OF assms(1)] assms(3) by (simp add: okp_iff frame_ok_def sys_ok_def machine_ok_def)
  ultimately show ?thesis using inv_screen [of u t] u(2) by simp
qed

end

section \<open>What the bus may do to save RAM and sound\<close>

definition sounding :: "minigb_apu_ctx gb \<Rightarrow> bool" where
  "sounding s \<longleftrightarrow> apu_ok (soundContext s) \<and> soundWrite s = Some apu_write \<and> soundRead s = Some apu_read"

definition live_step :: "minigb_apu_ctx gb \<Rightarrow> minigb_apu_ctx gb \<Rightarrow> bool" where
  "live_step s t \<longleftrightarrow>
     (sramDirty (bufs s) \<longrightarrow> sramDirty (bufs t)) \<and> (sramDirty (bufs t) \<or> sramData (bufs t) = sramData (bufs s)) \<and>
     (sounding s \<longrightarrow> sounding t)"

lemma live_step_refl [simp]: "live_step s s"
  by (simp add: live_step_def)

lemma live_step_trans: "live_step s t \<Longrightarrow> live_step t u \<Longrightarrow> live_step s u"
  by (auto simp: live_step_def)

lemma live_step_parts [simp]:
  "live_step s (u\<lparr>cpu := c\<rparr>) = live_step s u" "live_step s (u\<lparr>lcd := l\<rparr>) = live_step s u"
  "live_step s (u\<lparr>timer := ti\<rparr>) = live_step s u" "live_step s (u\<lparr>joy := j\<rparr>) = live_step s u"
  "live_step s (u\<lparr>cgb := g\<rparr>) = live_step s u" "live_step s (u\<lparr>rtc := r\<rparr>) = live_step s u"
  "live_step s (u\<lparr>mbc := m\<rparr>) = live_step s u" "live_step s (u\<lparr>rom := ro\<rparr>) = live_step s u"
  "live_step s (checkStatInterrupt u) = live_step s u"
  by (simp_all add: live_step_def sounding_def checkStatInterrupt_def Let_def)

lemma live_step_bufs:
  "sramDirty b = sramDirty (bufs u) \<Longrightarrow> sramData b = sramData (bufs u) \<Longrightarrow> live_step s (u\<lparr>bufs := b\<rparr>) = live_step s u"
  by (simp add: live_step_def sounding_def)

lemma apu_write_ok:
  assumes "apu_ok x"
  shows "apu_ok (apu_write x a v)"
proof (cases "unat (a - AUDIO_ADDR_COMPENSATION) < 48")
  case True
  define d where "d = a - 0xFF10"
  have "a = d + 0xFF10" "unat d < 48" using True by (simp_all add: d_def AUDIO_ADDR_COMPENSATION_def)
  then have "unat a = unat d + 0xFF10" by (simp add: unat_word_ariths take_bit_eq_mod)
  then have "0xFF10 \<le> a" "a \<le> 0xFF3F" using \<open>unat d < 48\<close> by (simp_all add: word_le_nat_alt)
  then show ?thesis using audio_write_ok [OF assms, of a v] by (auto simp: apu_write_def okp_iff)
next
  case False
  then have none: "mem_set (audio_mem x) (unat (a - AUDIO_ADDR_COMPENSATION)) w = None" for w
    using assms by (simp add: mem_set_def apu_ok_def)
  have "a \<noteq> 0xFF26" using False by (auto simp: AUDIO_ADDR_COMPENSATION_def)
  with none have "minigb_apu_audio_write a v x = None \<or> minigb_apu_audio_write a v x = Some x"
    by (simp add: minigb_apu_audio_write_def Let_def)
  then show ?thesis using assms by (auto simp: apu_write_def)
qed

lemma readByte_live: "wf_gb s \<Longrightarrow> okp (readByte a s) (\<lambda>(v, t). wf_gb t \<and> live_step s t)"
  by (rule okp_mono [OF readByte_ok]) (auto simp: read_ok_def read_frame_def live_step_def sounding_def)

lemma writeMBC_live: "live_step s (writeMBC a v s)"
  by (simp add: writeMBC_def refreshMappedRomBanks_def split: MBCType.split)

lemma write_vram_live: "pcp (write_vram a v s) (live_step s)"
  unfolding write_vram_def Let_def by (intro pcp_rules) (simp_all add: live_step_bufs)

lemma sram_store_live: "pcp (sram_store i v s) (live_step s)"
  unfolding sram_store_def by (intro pcp_rules) (simp_all add: live_step_def sounding_def)

lemma write_ext_ram_live: "pcp (write_ext_ram a v s) (live_step s)"
  unfolding write_ext_ram_def Let_def by (intro pcp_rules sram_store_live) simp_all

lemma write_wram_live: "pcp (write_wram a v s) (live_step s)"
  unfolding write_wram_def Let_def by (intro pcp_rules) (simp_all add: live_step_bufs)

lemma write_sound_live: "pcp (write_sound a v s) (live_step s)"
  unfolding write_sound_def Let_def
  by (intro pcp_rules) (simp add: live_step_def sounding_def apu_write_ok split: option.split)

lemma oam_dma_live: "wf_gb s \<Longrightarrow> oam_dma val is s = Some t \<Longrightarrow> live_step s t"
proof (induction "is" arbitrary: s)
  case (Cons i "is")
  obtain v u where r: "readByte (w16 val (of_nat i)) s = Some (v, u)" "wf_gb u" "live_step s u"
    using readByte_live [OF Cons.prems(1), of "w16 val (of_nat i)"] by (auto simp: okp_iff)
  with Cons.prems(2) obtain o' where o': "mem_set (oam (bufs u)) i v = Some o'"
    "oam_dma val is (u\<lparr>bufs := (bufs u)\<lparr>oam := o'\<rparr>\<rparr>) = Some t"
    by (auto simp: bind_eq_Some_conv)
  from o'(1) have "length o' = length (oam (bufs u))" by (rule mem_set_length)
  then have "wf_gb (u\<lparr>bufs := (bufs u)\<lparr>oam := o'\<rparr>\<rparr>)"
    using wf_gbD(3) [OF r(2)] r(2) by (intro wf_set_bufs) (auto simp: wf_bufs_def)
  from live_step_trans [OF _ Cons.IH [OF this o'(2)]] r(3) show ?case by (simp add: live_step_bufs)
qed simp

lemma hdma_copy_live:
  "wf_gb s \<Longrightarrow> 0x8000 \<le> unat dst \<Longrightarrow> hdma_copy src dst is s = Some t \<Longrightarrow> live_step s t"
proof (induction "is" arbitrary: s)
  case (Cons i "is")
  show ?case
  proof (cases "unat dst + i < 0xA000")
    case True
    obtain v u where r: "readByte (src + of_nat i) s = Some (v, u)" "wf_gb u" "live_step s u"
      using readByte_live [OF Cons.prems(1), of "src + of_nat i"] by (auto simp: okp_iff)
    have "unat (dst + of_nat i) = unat dst + i" using True by (simp add: unat_plus_small)
    then obtain x where x: "write_vram (dst + of_nat i) v u = Some x" "wf_gb x"
      using write_vram_ok [OF r(2), of "dst + of_nat i" v] Cons.prems(2) True by (auto simp: okp_iff)
    have "live_step x t" using Cons.IH [OF x(2)] Cons.prems(2,3) r x(1) True by simp
    then show ?thesis using r(3) pcpD [OF write_vram_live x(1)] live_step_trans by blast
  qed (use Cons.prems in simp)
qed simp

lemma write_hdma5_live:
  assumes "wf_gb s"
  shows "pcp (write_hdma5 v s) (live_step s)"
  unfolding write_hdma5_def Let_def
proof (intro pcp_if pcp_bind)
  fix t
  assume "hdma_copy (w16 (hdma1 (cgb s)) (hdma2 (cgb s)) AND 0xFFF0)
    ((0x8000 OR w16 (hdma3 (cgb s)) (hdma4 (cgb s))) AND 0x9FF0) [0..<(unat (v AND 0x7F) + 1) * 16] s = Some t"
  from hdma_copy_live [OF assms hdma_dst this]
  show "pcp (Some (t\<lparr>cgb := (cgb t)\<lparr>hdma5 := 0xFF\<rparr>\<rparr>)) (live_step s)" by simp
qed simp

lemma lcd_writes_live: "live_step s (write_lcdc v s)" "live_step s (write_lcd_reg a v s)"
  by (simp_all add: write_lcdc_def write_lcd_reg_def live_step_bufs blank_screen_def Let_def)

lemma write_io_live:
  assumes "wf_gb s"
  shows "pcp (write_io a v s) (live_step s)"
proof -
  have oam: "pcp (oam_dma v [0..<0xA0] s) (live_step s)"
    using oam_dma_live [OF assms] by (simp add: pcp_def)
  have c: "pcp (write_cgb_reg n v (cgb s) \<bind> (\<lambda>c. Some (s\<lparr>cgb := c\<rparr>))) (live_step s)" for n
    by (rule pcp_bind) simp
  have h: "pcp (mem_set (hram (bufs s)) n v \<bind> (\<lambda>h. Some (s\<lparr>bufs := (bufs s)\<lparr>hram := h\<rparr>\<rparr>))) (live_step s)" for n
    by (rule pcp_bind) (simp add: live_step_bufs)
  show ?thesis
    unfolding write_io_def Let_def
    by (intro pcp_if write_sound_live oam write_hdma5_live [OF assms] c h)
      (simp_all add: lcd_writes_live write_serial_control_def Let_def)
qed

lemma writeByte_live:
  assumes "wf_gb s"
  shows "okp (writeByte a v s) (\<lambda>t. wf_gb t \<and> core_regs (cpu t) = core_regs (cpu s) \<and> live_step s t)"
proof -
  have oam: "pcp (mem_set (oam (bufs s)) n v \<bind> (\<lambda>x. Some (s\<lparr>bufs := (bufs s)\<lparr>oam := x\<rparr>\<rparr>))) (live_step s)" for n
    by (rule pcp_bind) (simp add: live_step_bufs)
  have "pcp (writeByte a v s) (live_step s)"
    unfolding writeByte_def Let_def
    by (intro pcp_if write_vram_live write_ext_ram_live write_wram_live oam write_io_live assms)
      (simp_all add: writeMBC_live)
  with writeByte_effect [OF assms, of a v] show ?thesis by (auto simp: okp_iff pcp_def write_effect_def)
qed

section \<open>The invariant of a game\<close>

text \<open>Seen from a moment when the save RAM was \<open>d\<close> and the mark \<open>dirty\<close>.\<close>

definition live :: "bool \<Rightarrow> u8 list \<Rightarrow> minigb_apu_ctx gb \<Rightarrow> bool" where
  "live dirty d s \<longleftrightarrow>
     wf_gb s \<and> sounding s \<and> (dirty \<longrightarrow> sramDirty (bufs s)) \<and> (sramDirty (bufs s) \<or> sramData (bufs s) = d)"

lemma live_live_step: "live dirty d s \<Longrightarrow> wf_gb t \<Longrightarrow> live_step s t \<Longrightarrow> live dirty d t"
  by (auto simp: live_def live_step_def)

interpretation live: frame_invariant "live dirty d" for dirty d
proof
  fix s t :: "minigb_apu_ctx gb" and a v r ds k
  show "live dirty d (s\<lparr>cpu := r\<rparr>) = live dirty d s" by (simp add: live_def sounding_def)
  assume s: "live dirty d s"
  then have w: "wf_gb s" by (simp add: live_def)
  show "okp (readByte a s) (\<lambda>(v, t). live dirty d t \<and> cpu t = cpu s)"
    by (rule okp_mono [OF readByte_ok [OF w]])
      (use s in \<open>auto simp: live_def sounding_def read_ok_def read_frame_def\<close>)
  show "okp (writeByte a v s) (\<lambda>t. live dirty d t \<and> core_regs (cpu t) = core_regs (cpu s))"
    by (rule okp_mono [OF writeByte_live [OF w]]) (use s in \<open>auto intro: live_live_step\<close>)
  show "live dirty d (s\<lparr>cgb := (cgb s)\<lparr>doubleSpeed := ds, key1 := k\<rparr>\<rparr>)"
    using s wf_gbD(2) [OF w] by (auto simp: live_def sounding_def wf_cgb_def intro!: wf_set_cgb)
  show "live dirty d t" if "wf_gb t" "screen_only s t"
    using s that by (auto simp: live_def sounding_def screen_only_def)
qed

section \<open>The session\<close>

text \<open>What every call of a game keeps.\<close>

definition plays_on :: "gb_session \<Rightarrow> gb_session \<Rightarrow> bool" where
  "plays_on x y \<longleftrightarrow>
     session_ok y \<and> live_step (core x) (core y) \<and> cart_of (core y) = cart_of (core x) \<and>
     has_batt y = has_batt x \<and> has_rtc y = has_rtc x"

lemma plays_on_refl: "session_ok x \<Longrightarrow> plays_on x x"
  by (simp add: plays_on_def)

lemma plays_on_trans: "plays_on x y \<Longrightarrow> plays_on y z \<Longrightarrow> plays_on x z"
  by (auto simp: plays_on_def intro: live_step_trans)

lemma plays_on_size: "plays_on x y \<Longrightarrow> gb_port_sram_size y = gb_port_sram_size x"
  by (simp add: plays_on_def cart_of_def gb_port_sram_size_def)

lemma session_sounding: "session_ok x \<longleftrightarrow> frame_ok (core x) \<and> sounding (core x)"
  by (auto simp: session_ok_def sounding_def)

lemma set_keys_plays:
  assumes "session_ok x"
  shows "plays_on x (gb_port_set_keys k x)"
proof -
  have f: "frame_ok (core x)" "sounding (core x)" using assms by (simp_all add: session_sounding)
  have "frame_ok (setInput m (core x))" for m
    using f(1) by (simp add: setInput_def Let_def frame_ok_def sys_ok_def machine_ok_def f_clean_def)
  moreover have "sounding (setInput m (core x))" "live_step (core x) (setInput m (core x))"
    "cart_of (setInput m (core x)) = cart_of (core x)" for m
    using f(2) by (simp_all add: setInput_def Let_def sounding_def)
  ultimately show ?thesis by (simp add: plays_on_def gb_port_set_keys_def session_sounding)
qed

lemma step_frame_plays:
  assumes "session_ok x"
  shows "okp (gb_port_step_frame render x) (\<lambda>(ok, y). plays_on x y)"
proof (cases "romIoFailed (rom (core x))")
  case True
  then show ?thesis using assms by (simp add: gb_port_step_frame_def plays_on_refl)
next
  case False
  let ?s = "(core x)\<lparr>lcd := (lcd (core x))\<lparr>renderThisFrame := render\<rparr>\<rparr>"
  have ok: "frame_ok (core x)" "sounding (core x)" using assms by (simp_all add: session_sounding)
  have s: "frame_ok ?s" "sounding ?s"
    using ok by (auto simp: frame_ok_def sys_ok_def machine_ok_def wf_ppu_def sounding_def)
  obtain t where t: "runFrame ?s = Some t" "frame_ok t" "cart_of t = cart_of (core x)"
    using runFrame_ok [OF s(1)] by (auto simp: okp_iff)
  have "live (sramDirty (bufs (core x))) (sramData (bufs (core x))) ?s"
    using s by (simp add: live_def frame_ok_def sys_ok_def machine_ok_def)
  from live.runFrame_inv [OF s(1) this t(1)]
  have "sounding t" "live_step (core x) t" by (auto simp: live_def live_step_def)
  then show ?thesis using t False by (simp add: gb_port_step_frame_def plays_on_def session_sounding)
qed

lemma audio_frame_plays:
  assumes "session_ok x"
  shows "okp (gb_port_audio_frame n x) (\<lambda>(pcm, y). plays_on x y \<and> (AUDIO_SAMPLES \<le> n \<longrightarrow> length pcm = AUDIO_SAMPLES))"
proof -
  have mix: "2 * length ks \<le> length ss \<Longrightarrow> list_all (\<lambda>k. k * 2 + 1 < length ss) ks \<Longrightarrow> okp (mono_mix ks ss) (\<lambda>r. length r = length ks)"
    for ks ss
    by (induction ks) (auto simp: okp_iff mem_get_def)
  obtain apu ss where a: "minigb_apu_audio_callback (soundContext (core x)) = Some (apu, ss)" "apu_ok apu"
    "length ss = AUDIO_SAMPLES_TOTAL"
    using audio_callback_ok [of "soundContext (core x)"] assms by (auto simp: okp_iff session_ok_def)
  obtain out where o: "mono_mix [0..<AUDIO_SAMPLES] ss = Some out" "length out = AUDIO_SAMPLES"
    using mix [of "[0..<AUDIO_SAMPLES]" ss] a(3) by (auto simp: okp_iff AUDIO_SAMPLES_def AUDIO_SAMPLES_TOTAL_def list_all_iff)
  have "plays_on x (x\<lparr>core := (core x)\<lparr>soundContext := apu\<rparr>, stereo := ss\<rparr>)"
    using assms a(2) by (simp add: plays_on_def session_ok_def live_step_def sounding_def cart_of_def frame_ok_def sys_ok_def
      machine_ok_def wf_gb_def mapped_low_def mapped_high_def)
  then show ?thesis using a(1) o plays_on_refl [OF assms] by (simp add: gb_port_audio_frame_def)
qed

text \<open>The calls of the game loop, in any order.\<close>

datatype session_call = Set_keys gb_port_keys | Step_frame bool | Audio_frame nat

fun run_calls :: "session_call list \<Rightarrow> gb_session \<Rightarrow> gb_session option" where
  "run_calls [] x = Some x"
| "run_calls (Set_keys k # cs) x = run_calls cs (gb_port_set_keys k x)"
| "run_calls (Step_frame render # cs) x = do { (okay, x) \<leftarrow> gb_port_step_frame render x; run_calls cs x }"
| "run_calls (Audio_frame n # cs) x = do { (pcm, x) \<leftarrow> gb_port_audio_frame n x; run_calls cs x }"

lemma run_calls_play: "session_ok x \<Longrightarrow> okp (run_calls cs x) (plays_on x)"
proof (induction cs x rule: run_calls.induct)
  case (2 k cs x)
  note keys = set_keys_plays [OF "2.prems", of k]
  then have "okp (run_calls cs (gb_port_set_keys k x)) (plays_on (gb_port_set_keys k x))"
    by (intro "2.IH") (simp add: plays_on_def)
  from okp_mono [OF this plays_on_trans [OF keys]] show ?case by simp
next
  case (3 render cs x)
  obtain okay y where y: "gb_port_step_frame render x = Some (okay, y)" "plays_on x y"
    using step_frame_plays [OF "3.prems", of render] by (auto simp: okp_iff)
  have "okp (run_calls cs y) (plays_on y)" by (intro "3.IH" [OF y(1) refl]) (use y(2) in \<open>simp add: plays_on_def\<close>)
  from okp_mono [OF this plays_on_trans [OF y(2)]] show ?case using y(1) by simp
next
  case (4 n cs x)
  obtain pcm y where y: "gb_port_audio_frame n x = Some (pcm, y)" "plays_on x y"
    using audio_frame_plays [OF "4.prems", of n] by (auto simp: okp_iff)
  have "okp (run_calls cs y) (plays_on y)" by (intro "4.IH" [OF y(1) refl]) (use y(2) in \<open>simp add: plays_on_def\<close>)
  from okp_mono [OF this plays_on_trans [OF y(2)]] show ?case using y(1) by simp
qed (simp add: plays_on_refl)

end
