(* ===== verification/Game_Play.thy ===== *)
theory Game_Play
  imports Game_Menu Gb_Pacing Gb_Saves_Load Emu_Session
begin

text \<open>
  Playing a game (main/game_main.c: \<open>run_game\<close>, \<open>pause_game\<close>, \<open>poll_game_buttons\<close>), as a state machine whose
  steps are the passes through the game loop and through the loops nested in it (pause menu, settings,
  screen off).  A pass gets a \<open>turn\<close> of device answers and works on the session, the save files and the
  settings.  The outer \<open>None\<close> is an access outside a buffer.  The waiting at the end of a pass, the
  statistics and the drawing are left out.
\<close>

section \<open>The pause menu\<close>

record game =
  g_session :: gb_session
  g_fs :: save_fs
  g_settings :: settings

text \<open>\<open>gb_saves_write(session, hash)\<close>.\<close>

definition save_now :: "u8 list \<Rightarrow> game \<Rightarrow> (bool \<times> game) option" where
  "save_now hash g = do {
     (okay, x, s) \<leftarrow> gb_saves_write (g_session g) hash (g_fs g);
     Some (okay, g\<lparr>g_session := x, g_fs := s\<rparr>)
   }"

datatype pause_hint =
  HINT_BATTERY | HINT_NO_BATTERY | HINT_SYNC_FAILED | HINT_RECONNECT | HINT_NOTHING_NEW | HINT_SYNCED | HINT_WAKE_FAILED

record pause_menu =
  pm_selected :: nat
  pm_hint :: pause_hint
  pm_connected :: bool
  pm_hold :: gb_select_pause
  pm_pad :: gb_menu_input

datatype pause_mode = Choosing | In_settings settings_menu | Screen_off gb_screen_sleep bool

datatype pause_result = Stay pause_mode pause_menu | Resume | Leave

definition base_hint :: "game \<Rightarrow> pause_hint" where
  "base_hint g = (if gb_port_has_battery (g_session g) then HINT_BATTERY else HINT_NO_BATTERY)"

definition pause_enter :: "turn \<Rightarrow> bool \<Rightarrow> u8 list \<Rightarrow> game \<Rightarrow> (pause_menu \<times> game) option" where
  "pause_enter t connected hash g = do {
     (okay, g) \<leftarrow> save_now hash g;
     Some (\<lparr>pm_selected = 0, pm_hint = (if okay then base_hint g else HINT_SYNC_FAILED), pm_connected = connected,
             pm_hold = gb_select_pause_init (tn_pad t 3), pm_pad = gb_menu_input_init (tn_pad t 4)\<rparr>, g)
   }"

text \<open>Back to the top of the menu loop; after a nested loop the gestures start afresh.\<close>

definition stay :: "turn \<Rightarrow> pause_menu \<Rightarrow> pause_result" where
  "stay t pm = Stay Choosing (pm\<lparr>pm_connected := pad_connected (tn_pad t 2)\<rparr>)"

definition restart_input :: "turn \<Rightarrow> pause_menu \<Rightarrow> pause_menu" where
  "restart_input t pm = pm\<lparr>pm_hold := gb_select_pause_init (tn_pad t 3), pm_pad := gb_menu_input_init (tn_pad t 4)\<rparr>"

definition pause_leave :: "turn \<Rightarrow> u8 list \<Rightarrow> pause_menu \<Rightarrow> game \<Rightarrow> (pause_result \<times> game) option" where
  "pause_leave t hash pm g = do {
     (okay, g) \<leftarrow> save_now hash g;
     Some (if okay then Leave else stay t (pm\<lparr>pm_hint := HINT_SYNC_FAILED\<rparr>), g)
   }"

definition pause_resume :: "turn \<Rightarrow> pause_menu \<Rightarrow> pause_result" where
  "pause_resume t pm = (if pad_connected (tn_pad t 1) then Resume else stay t (pm\<lparr>pm_hint := HINT_RECONNECT\<rparr>))"

definition pause_confirm :: "turn \<Rightarrow> u8 list \<Rightarrow> pause_menu \<Rightarrow> game \<Rightarrow> (pause_result \<times> game) option" where
  "pause_confirm t hash pm g =
     (if pm_selected pm = 0 then Some (pause_resume t pm, g)
      else if pm_selected pm = 1 then
        (if \<not> gb_port_has_battery (g_session g) then Some (stay t (pm\<lparr>pm_hint := HINT_NO_BATTERY\<rparr>), g)
         else if \<not> gb_port_needs_save (g_session g) then Some (stay t (pm\<lparr>pm_hint := HINT_NOTHING_NEW\<rparr>), g)
         else do {
           (okay, g) \<leftarrow> save_now hash g;
           Some (stay t (pm\<lparr>pm_hint := if okay then HINT_SYNCED else HINT_SYNC_FAILED\<rparr>), g)
         })
      else if pm_selected pm = 2 then Some (Stay (In_settings (settings_enter (tn_pad t 5) (tn_pad t 6))) pm, g)
      else if pm_selected pm = 3 then
        Some (if screen_off_enter t then Stay (Screen_off screen_off_start False) pm
              else stay t (restart_input t (pm\<lparr>pm_hint := HINT_WAKE_FAILED\<rparr>)), g)
      else pause_leave t hash pm g)"

definition pause_act :: "gb_menu_action \<Rightarrow> turn \<Rightarrow> u8 list \<Rightarrow> pause_menu \<Rightarrow> game \<Rightarrow> (pause_result \<times> game) option" where
  "pause_act action t hash pm g =
     (case action of
        GB_MENU_UP \<Rightarrow> Some (stay t (pm\<lparr>pm_selected := (pm_selected pm + 4) mod 5\<rparr>), g)
      | GB_MENU_DOWN \<Rightarrow> Some (stay t (pm\<lparr>pm_selected := (pm_selected pm + 1) mod 5\<rparr>), g)
      | GB_MENU_BACK \<Rightarrow> Some (pause_resume t pm, g)
      | GB_MENU_CONFIRM \<Rightarrow> pause_confirm t hash pm g
      | GB_MENU_NONE \<Rightarrow> Some (stay t pm, g))"

text \<open>A pass of the menu loop, of \<open>settings_loop\<close> or of \<open>screen_off_loop\<close>, whichever is running.\<close>

definition pause_step :: "turn \<Rightarrow> u8 list \<Rightarrow> pause_mode \<Rightarrow> pause_menu \<Rightarrow> game \<Rightarrow> (pause_result \<times> game) option" where
  "pause_step t hash mode pm g =
     (case mode of
        Choosing \<Rightarrow>
          let (msg, hold) = menu_button_receive t (pm_hold pm);
              (pad_action, pad) = gb_menu_input_step (tn_pad t 1) (pm_pad pm);
              pm = pm\<lparr>pm_hold := hold, pm_pad := pad\<rparr>
          in if msg = long_ok then pause_leave t hash pm g
             else pause_act (if board_action msg = GB_MENU_NONE then pad_action else board_action msg) t hash pm g
      | In_settings m \<Rightarrow>
          (case settings_step t m (g_settings g) of (over, m, c) \<Rightarrow>
             Some (if over then stay t (restart_input t (pm\<lparr>pm_hint := base_hint g\<rparr>)) else Stay (In_settings m) pm,
                   g\<lparr>g_settings := c\<rparr>))
      | Screen_off s lit \<Rightarrow>
          Some (case screen_off_step t s lit of
                  (None, s, lit) \<Rightarrow> Stay (Screen_off s lit) pm
                | (Some okay, s, lit) \<Rightarrow>
                    if \<not> okay then stay t (restart_input t (pm\<lparr>pm_hint := HINT_WAKE_FAILED\<rparr>))
                    else if pad_connected (tn_pad t 5) then Resume
                    else stay t (restart_input t (pm\<lparr>pm_hint := HINT_RECONNECT\<rparr>)), g))"

section \<open>The game loop\<close>

definition port_keys :: "gb_keys \<Rightarrow> gb_port_keys" where
  "port_keys k =
     \<lparr>key_right = k_right k, key_left = k_left k, key_up = k_up k, key_down = k_down k,
      key_a = k_a k, key_b = k_b k, key_select = k_select k, key_start = k_start k\<rparr>"

definition no_keys :: gb_port_keys where
  "no_keys = \<lparr>key_right = False, key_left = False, key_up = False, key_down = False,
     key_a = False, key_b = False, key_select = False, key_start = False\<rparr>"

record game_button_actions =
  ga_pause :: bool
  ga_start :: bool
  ga_select :: bool

fun poll_game_buttons :: "button_message list \<Rightarrow> game_button_actions \<Rightarrow> game_button_actions" where
  "poll_game_buttons [] a = a"
| "poll_game_buttons ((button, event) # msgs) a =
     poll_game_buttons msgs
       (if button = BSP_BTN_OK \<and> event = BSP_BTN_LONG then a\<lparr>ga_pause := True\<rparr>
        else if event = BSP_BTN_CLICK then
          (if button = BSP_BTN_OK then a\<lparr>ga_start := True\<rparr>
           else if button = BSP_BTN_UP then a\<lparr>ga_select := True\<rparr> else a)
        else a)"

record play =
  p_game :: game
  p_hash :: "u8 list"
  p_audio :: bool
  p_pacing :: gb_frame_pacing
  p_epoch :: int
  p_blocks :: u64
  p_last_save :: int
  p_hold :: gb_select_pause

datatype game_error =
  ROM_CHECK_FAILED | UNSUPPORTED | NO_SAVE_SPACE | SAVE_DAMAGED | BOOT_FAILED | AUDIO_START_FAILED
| AUDIO_STOP_FAILED | SCREEN_FAILED | READ_FAILED | AUDIO_OUTPUT_FAILED

text \<open>Why the game is paused: it has not begun, the player asked (or the controller is gone), or an
  automatic save failed.\<close>

datatype pause_site = Before_start | On_request | Save_failed

datatype game_mode = Playing | Paused pause_site pause_mode pause_menu

datatype game_result = Go game_mode play | Left play | Failed game_error play

definition audio_wanted :: "settings \<Rightarrow> bool" where
  "audio_wanted c \<longleftrightarrow> s_sound_enabled c \<and> 0 < s_volume c"

text \<open>Sound and screen on, before the loop and after a pause.\<close>

definition game_outputs :: "turn \<Rightarrow> play \<Rightarrow> game_error option \<times> play" where
  "game_outputs t p =
     (let p = p\<lparr>p_audio := audio_wanted (g_settings (p_game p))\<rparr>
      in if p_audio p \<and> \<not> tn_ok t AUDIO_START then (Some AUDIO_START_FAILED, p)
         else if \<not> tn_ok t PREPARE_SCREEN then (Some SCREEN_FAILED, p)
         else (None, p))"

text \<open>From the boot animation to the loop.\<close>

definition game_begin :: "turn \<Rightarrow> play \<Rightarrow> game_result" where
  "game_begin t p =
     (if \<not> tn_ok t BOOT_ANIMATION then Failed BOOT_FAILED p
      else case game_outputs t p of
        (Some e, p) \<Rightarrow> Failed e p
      | (None, p) \<Rightarrow>
          Go Playing (p\<lparr>p_epoch := tn_time t 1, p_blocks := 0, p_last_save := tn_time t 1,
            p_pacing := gb_frame_pacing_init, p_hold := gb_select_pause_init (tn_pad t 7)\<rparr>))"

definition game_resume :: "turn \<Rightarrow> pause_site \<Rightarrow> play \<Rightarrow> game_result" where
  "game_resume t site p =
     (if site = Before_start then game_begin t p
      else case game_outputs t p of
        (Some e, p) \<Rightarrow> Failed e p
      | (None, p) \<Rightarrow>
          let p = p\<lparr>p_epoch := tn_time t 1, p_blocks := 0, p_hold := gb_select_pause_init (tn_pad t 7)\<rparr>
          in Go Playing
               (if site = On_request then p\<lparr>p_pacing := gb_frame_pacing_init\<rparr> else p\<lparr>p_last_save := tn_time t 2\<rparr>))"

text \<open>The sound owed to the clock, block by block.\<close>

fun audio_blocks :: "turn \<Rightarrow> nat list \<Rightarrow> play \<Rightarrow> (bool \<times> play) option" where
  "audio_blocks t [] p = Some (True, p)"
| "audio_blocks t (i # is) p = do {
     (pcm, x) \<leftarrow> gb_port_audio_frame AUDIO_SAMPLES (g_session (p_game p));
     let p = p\<lparr>p_game := (p_game p)\<lparr>g_session := x\<rparr>\<rparr>;
     (if length pcm \<noteq> AUDIO_SAMPLES \<or> \<not> tn_healthy t i then Some (False, p)
      else audio_blocks t is (p\<lparr>p_blocks := p_blocks p + 1\<rparr>))
   }"

definition set_session :: "gb_session \<Rightarrow> play \<Rightarrow> play" where
  "set_session x p = p\<lparr>p_game := (p_game p)\<lparr>g_session := x\<rparr>\<rparr>"

text \<open>The save every 30 seconds; if it fails the game is paused.\<close>

definition AUTOSAVE_US :: int where "AUTOSAVE_US = 30000000"

definition autosave :: "turn \<Rightarrow> play \<Rightarrow> game_result option" where
  "autosave t p =
     (if AUTOSAVE_US \<le> tn_time t 4 - p_last_save p \<and> gb_port_has_battery (g_session (p_game p)) then do {
        (okay, g) \<leftarrow> save_now (p_hash p) (p_game p);
        (if okay then Some (Go Playing (p\<lparr>p_game := g, p_last_save := tn_time t 5\<rparr>))
         else do {
           (pm, g) \<leftarrow> pause_enter t True (p_hash p) g;
           Some (Go (Paused Save_failed Choosing pm) (p\<lparr>p_game := g\<rparr>))
         })
      } else Some (Go Playing p))"

text \<open>A pass that emulates a frame.\<close>

definition game_frame :: "turn \<Rightarrow> gb_port_keys \<Rightarrow> play \<Rightarrow> game_result option" where
  "game_frame t keys p =
     (let p = set_session (gb_port_set_keys keys (g_session (p_game p))) p
      in if \<not> tn_ok t DISPLAY_STATUS then Some (Failed SCREEN_FAILED p)
         else
           let draw = (tn_ok t DISPLAY_IDLE \<and> gb_frame_pacing_draw (p_pacing p))
           in do {
             (okay, x) \<leftarrow> gb_port_step_frame draw (g_session (p_game p));
             let p = set_session x p;
             (if \<not> okay then Some (Failed READ_FAILED p)
              else do {
                (okay, p) \<leftarrow> (if p_audio p
                  then audio_blocks t [0..<unat (gb_audio_blocks_due (of_int (tn_time t 2 - p_epoch p)) (p_blocks p))] p
                  else Some (True, p));
                (if \<not> okay then Some (Failed AUDIO_OUTPUT_FAILED p)
                 else if draw \<and> \<not> tn_ok t DISPLAY_FRAME then Some (Failed SCREEN_FAILED p)
                 else
                   let queued = (gb_port_is_cgb (g_session (p_game p)) \<or> tn_ok t DISPLAY_QUEUED);
                       pacing = (if draw \<and> queued then gb_frame_pacing_mark_drawn (p_pacing p) else p_pacing p)
                   in autosave t (p\<lparr>p_pacing := gb_frame_pacing_record (of_int (tn_time t 3 - tn_time t 1)) pacing\<rparr>))
              })
           })"

text \<open>A pass of the game loop.\<close>

definition game_turn :: "turn \<Rightarrow> play \<Rightarrow> game_result option" where
  "game_turn t p =
     (let board = poll_game_buttons (tn_buttons t) \<lparr>ga_pause = False, ga_start = False, ga_select = False\<rparr>;
          pad = tn_pad t 0;
          (held, hold) = gb_select_pause_step (tn_pad t 1) (tn_time t 0) (p_hold p);
          p = p\<lparr>p_hold := hold\<rparr>
      in if ga_pause board \<or> held \<or> \<not> pad_connected pad then
           let p = set_session (gb_port_set_keys no_keys (g_session (p_game p))) p
           in if p_audio p \<and> \<not> tn_ok t AUDIO_STOP then Some (Failed AUDIO_STOP_FAILED p)
              else do {
                (pm, g) \<leftarrow> pause_enter t (pad_connected pad) (p_hash p) (p_game p);
                Some (Go (Paused On_request Choosing pm) (p\<lparr>p_game := g\<rparr>))
              }
         else
           let keys = gb_input_map pad
           in game_frame t (port_keys (keys\<lparr>k_start := k_start keys \<or> ga_start board, k_select := k_select keys \<or> ga_select board\<rparr>)) p)"

definition game_step :: "turn \<Rightarrow> game_mode \<Rightarrow> play \<Rightarrow> game_result option" where
  "game_step t mode p =
     (case mode of
        Playing \<Rightarrow> game_turn t p
      | Paused site pmode pm \<Rightarrow> do {
          (r, g) \<leftarrow> pause_step t (p_hash p) pmode pm (p_game p);
          let p = p\<lparr>p_game := g\<rparr>;
          Some (case r of
                  Stay pmode pm \<Rightarrow> Go (Paused site pmode pm) p
                | Resume \<Rightarrow> game_resume t site p
                | Leave \<Rightarrow> Left p)
        })"

fun game_run :: "turn list \<Rightarrow> game_result \<Rightarrow> game_result option" where
  "game_run [] r = Some r"
| "game_run (t # ts) r =
     (case r of Go mode p \<Rightarrow> do { r \<leftarrow> game_step t mode p; game_run ts r } | _ \<Rightarrow> Some r)"

section \<open>Starting a game\<close>

datatype game_start = No_game | Start_failed game_error | Started game_result

text \<open>\<open>reads\<close> are the answers of the ROM reader during the game.\<close>

definition game_source :: "(nat \<Rightarrow> nat \<Rightarrow> nat \<Rightarrow> bool \<times> (nat \<Rightarrow> u8)) \<Rightarrow> rom_source \<Rightarrow> gb_rom_source" where
  "game_source reads r = \<lparr>src_read = Some reads, src_size = re_bytes (rs_entry r), src_mapped = rs_mapped r\<rparr>"

definition fresh_play :: "gb_session \<Rightarrow> u8 list \<Rightarrow> save_fs \<Rightarrow> settings \<Rightarrow> play" where
  "fresh_play x hash fs c =
     \<lparr>p_game = \<lparr>g_session = x, g_fs = fs, g_settings = c\<rparr>, p_hash = hash, p_audio = False,
      p_pacing = gb_frame_pacing_init, p_epoch = 0, p_blocks = 0, p_last_save = 0,
      p_hold = gb_select_pause_init no_pad\<rparr>"

text \<open>\<open>run_game\<close> once the session exists: the save is loaded, then the game begins or waits in the menu.\<close>

definition game_load :: "turn \<Rightarrow> bool \<Rightarrow> gb_session \<Rightarrow> u8 list \<Rightarrow> save_fs \<Rightarrow> settings \<Rightarrow> game_start option" where
  "game_load t saves_ready x hash fs c =
     (if gb_port_has_battery x \<and> \<not> saves_ready then Some (Start_failed NO_SAVE_SPACE)
      else do {
        (loaded, x, fs) \<leftarrow> (if gb_port_has_battery x then gb_saves_load x hash fs else Some (GB_SAVE_EMPTY, x, fs));
        (if loaded = GB_SAVE_ERROR then Some (Start_failed SAVE_DAMAGED)
         else
           let p = fresh_play x hash fs c
           in if pad_connected (tn_pad t 0) then Some (Started (game_begin t p))
              else do {
                (pm, g) \<leftarrow> pause_enter t False hash (p_game p);
                Some (Started (Go (Paused Before_start Choosing pm) (p\<lparr>p_game := g\<rparr>)))
              })
      })"

definition run_game ::
  "(u8 list \<Rightarrow> u8 list) \<Rightarrow> bool \<Rightarrow> heap \<Rightarrow> core_junk \<Rightarrow> (nat \<Rightarrow> u32) \<Rightarrow> (nat \<Rightarrow> nat \<Rightarrow> nat \<Rightarrow> bool \<times> (nat \<Rightarrow> u8)) \<Rightarrow>
   turn \<Rightarrow> bool \<Rightarrow> nat \<Rightarrow> storage \<Rightarrow> save_fs \<Rightarrow> settings \<Rightarrow> (game_start \<times> storage) option" where
  "run_game sha cgb_build h j clock reads t saves_ready index st fs c =
     (case gb_storage_entry index st of
        None \<Rightarrow> Some (No_game, st)
      | Some e \<Rightarrow>
          (case gb_storage_open sha index st of
             (None, st) \<Rightarrow> Some (Start_failed ROM_CHECK_FAILED, st)
           | (Some r, st) \<Rightarrow> do {
               session \<leftarrow> gb_port_create cgb_build h j clock (game_source reads r);
               (case session of
                  None \<Rightarrow> Some (Start_failed UNSUPPORTED, st)
                | Some x \<Rightarrow> do { r \<leftarrow> game_load t saves_ready x (re_sha e) fs c; Some (r, st) })
             }))"

end
