(* ===== verification/Game_Safe.thy ===== *)
theory Game_Safe
  imports Game_Play
begin

text \<open>
  Playing never accesses memory out of bounds and never loses the save RAM: at every moment the RAM is
  either marked dirty or what the save files give back, and the game can only be left through a save
  that succeeded.
\<close>

section \<open>The invariant of a game\<close>

text \<open>What a later load would give back is the save RAM; without a save there is no file either and the
  RAM is still as in \<open>x0\<close>, the session as it was created.\<close>

definition in_files :: "gb_session \<Rightarrow> u8 list \<Rightarrow> gb_session \<Rightarrow> save_fs \<Rightarrow> bool" where
  "in_files x0 hash x s \<longleftrightarrow>
     (case latest_save hash (gb_port_sram_size x) s of
        Some d \<Rightarrow> take (gb_port_sram_size x) d = sram_bytes x
      | None \<Rightarrow> sram_bytes x = sram_bytes x0 \<and> sf_file s (save_path hash COPY_A) = None \<and> sf_file s (save_path hash COPY_B) = None)"

definition game_saved :: "gb_session \<Rightarrow> u8 list \<Rightarrow> game \<Rightarrow> bool" where
  "game_saved x0 hash g \<longleftrightarrow> (gb_port_has_battery (g_session g) \<longrightarrow> in_files x0 hash (g_session g) (g_fs g))"

text \<open>Where writing works, the files of the ROM are never both damaged, which is what makes a save fail.\<close>

definition game_ok :: "gb_session \<Rightarrow> u8 list \<Rightarrow> game \<Rightarrow> bool" where
  "game_ok x0 hash g \<longleftrightarrow>
     session_ok (g_session g) \<and> reads_ok (g_fs g) \<and> length hash = 32 \<and>
     has_batt (g_session g) = has_batt x0 \<and> gb_port_sram_size (g_session g) = gb_port_sram_size x0 \<and>
     (gb_port_needs_save (g_session g) \<or> game_saved x0 hash g) \<and>
     (gb_port_has_battery (g_session g) \<and> writes_ok (g_fs g) \<longrightarrow>
       \<not> both_damaged hash (gb_port_sram_size (g_session g)) (g_fs g))"

lemma game_ok_settings [simp]:
  "game_ok x0 hash (g\<lparr>g_settings := c\<rparr>) = game_ok x0 hash g"
  "game_saved x0 hash (g\<lparr>g_settings := c\<rparr>) = game_saved x0 hash g"
  by (simp_all add: game_ok_def game_saved_def)

lemma in_files_payload:
  assumes "sram_fits x" "latest_save hash (gb_port_sram_size x) s = Some (save_payload x)"
  shows "in_files x0 hash x s"
  using assms length_sram_bytes [OF assms(1)] by (simp add: in_files_def save_payload_def)

lemma in_files_undamaged: "in_files x0 hash x s \<Longrightarrow> \<not> both_damaged hash (gb_port_sram_size x) s"
  by (auto simp: in_files_def both_damaged_def)

lemma save_now_ok:
  assumes "game_ok x0 hash g"
  shows "okp (save_now hash g) (\<lambda>(okay, g'). game_ok x0 hash g' \<and> (okay \<longrightarrow> game_saved x0 hash g') \<and>
    sram_bytes (g_session g') = sram_bytes (g_session g) \<and>
    writes_ok (g_fs g') = writes_ok (g_fs g) \<and> (writes_ok (g_fs g) \<longrightarrow> okay))"
proof -
  let ?x = "g_session g" and ?s = "g_fs g"
  have g: "session_ok ?x" "reads_ok ?s" "length hash = 32" "has_batt ?x = has_batt x0" "gb_port_sram_size ?x = gb_port_sram_size x0"
    using assms by (simp_all add: game_ok_def)
  note fits = session_sram_fits [OF g(1)]
  show ?thesis
  proof (cases "gb_port_has_battery ?x \<and> gb_port_needs_save ?x")
    case False
    then have "gb_saves_write ?x hash ?s = Some (True, ?x, ?s)" by (auto simp: gb_saves_write_def)
    moreover have "game_saved x0 hash g" using assms False by (auto simp: game_ok_def game_saved_def)
    ultimately show ?thesis using assms by (simp add: save_now_def)
  next
    case True
    have clock: "length (rtcLatched (rtc (core ?x))) = 5" using session_wf [OF g(1)] by (simp add: wf_gb_def)
    show ?thesis
    proof (rule gb_saves_write_result [OF fits clock conjunct1 [OF True] conjunct2 [OF True] g(3,2) refl], goal_cases)
      case (1 okay y t)
      have "in_files x0 hash y t" if okay
      proof -
        have "in_files x0 hash ?x t" using 1(3) [OF that] fits by (intro in_files_payload) simp_all
        then show ?thesis using 1(7,9) by (simp add: in_files_def split: option.splits)
      qed
      moreover have "gb_port_needs_save y" if "\<not> okay"
        using 1(4) [OF that] 1(9) True by (simp add: gb_port_needs_save_def gb_port_has_battery_def)
      moreover have "\<not> writes_ok ?s" if "\<not> okay"
        using 1(5) that True assms by (auto simp: game_ok_def)
      ultimately show ?case
        using 1(1,7,8,9) g in_files_undamaged [of x0 hash y t]
        by (cases okay) (auto simp: save_now_def game_saved_def game_ok_def)
    qed
  qed
qed

lemma plays_game_ok:
  assumes "game_ok x0 hash g" "plays_on (g_session g) y"
  shows "game_ok x0 hash (g\<lparr>g_session := y\<rparr>)"
proof -
  have "in_files x0 hash y (g_fs g)" if "in_files x0 hash (g_session g) (g_fs g)"
    "sramData (bufs (core y)) = sramData (bufs (core (g_session g)))"
    using that plays_on_size [OF assms(2)] by (simp add: in_files_def sram_bytes_def split: option.splits)
  then show ?thesis
    using assms
      plays_on_size [OF assms(2)]
    by (auto simp: game_ok_def game_saved_def plays_on_def live_step_def gb_port_needs_save_def gb_port_has_battery_def)
qed

section \<open>The pause menu\<close>

text \<open>What a pass leaves behind, for the game and for whoever leaves it.\<close>

definition pause_ok :: "gb_session \<Rightarrow> u8 list \<Rightarrow> pause_result \<times> game \<Rightarrow> bool" where
  "pause_ok x0 hash r \<longleftrightarrow> game_ok x0 hash (snd r) \<and> (fst r = Leave \<longrightarrow> game_saved x0 hash (snd r))"

lemma stay_result [simp]: "stay t pm \<noteq> Leave" "pause_resume t pm \<noteq> Leave"
  by (simp_all add: stay_def pause_resume_def)

lemma pause_enter_ok:
  assumes "game_ok x0 hash g"
  shows "okp (pause_enter t connected hash g) (\<lambda>(pm, g'). game_ok x0 hash g')"
  unfolding pause_enter_def by (rule okp_bind2I [OF save_now_ok [OF assms]]) simp

lemma pause_leave_ok:
  assumes "game_ok x0 hash g"
  shows "okp (pause_leave t hash pm g) (pause_ok x0 hash)"
  unfolding pause_leave_def by (rule okp_bind2I [OF save_now_ok [OF assms]]) (simp add: pause_ok_def)

lemma pause_confirm_ok:
  assumes "game_ok x0 hash g"
  shows "okp (pause_confirm t hash pm g) (pause_ok x0 hash)"
  unfolding pause_confirm_def
  by (intro okp_if okp_bind2I [OF save_now_ok [OF assms]] pause_leave_ok [OF assms])
    (use assms in \<open>simp_all add: pause_ok_def\<close>)

lemma pause_act_ok:
  assumes "game_ok x0 hash g"
  shows "okp (pause_act action t hash pm g) (pause_ok x0 hash)"
  using assms pause_confirm_ok [OF assms] by (cases action) (simp_all add: pause_act_def pause_ok_def)

lemma pause_step_ok:
  assumes "game_ok x0 hash g"
  shows "okp (pause_step t hash mode pm g) (pause_ok x0 hash)"
proof (cases mode)
  case Choosing
  then show ?thesis
    by (auto simp: pause_step_def pause_leave_ok [OF assms] pause_act_ok [OF assms] Let_def split: prod.split)
qed (use assms in \<open>auto simp: pause_step_def pause_ok_def Let_def split: prod.split option.split\<close>)

section \<open>The game loop\<close>

definition play_ok :: "gb_session \<Rightarrow> u8 list \<Rightarrow> play \<Rightarrow> bool" where
  "play_ok x0 hash p \<longleftrightarrow> p_hash p = hash \<and> game_ok x0 (p_hash p) (p_game p)"

fun result_ok :: "gb_session \<Rightarrow> u8 list \<Rightarrow> game_result \<Rightarrow> bool" where
  "result_ok x0 hash (Go mode p) = play_ok x0 hash p"
| "result_ok x0 hash (Left p) = (play_ok x0 hash p \<and> game_saved x0 hash (p_game p))"
| "result_ok x0 hash (Failed e p) = play_ok x0 hash p"

lemma play_okI: "p_hash p = hash \<Longrightarrow> game_ok x0 hash (p_game p) \<Longrightarrow> play_ok x0 hash p"
  by (simp add: play_ok_def)

lemma play_game: "play_ok x0 hash p \<Longrightarrow> game_ok x0 (p_hash p) (p_game p)"
  and play_hash: "play_ok x0 hash p \<Longrightarrow> p_hash p = hash"
  by (auto simp: play_ok_def)

lemma play_ok_game: "play_ok x0 hash p \<Longrightarrow> game_ok x0 (p_hash p) g \<Longrightarrow> play_ok x0 hash (p\<lparr>p_game := g\<rparr>)"
  by (auto simp: play_ok_def)

lemma play_ok_upd [simp]:
  "play_ok x0 hash (p\<lparr>p_hold := h\<rparr>) = play_ok x0 hash p" "play_ok x0 hash (p\<lparr>p_pacing := f\<rparr>) = play_ok x0 hash p"
  "play_ok x0 hash (p\<lparr>p_blocks := b\<rparr>) = play_ok x0 hash p"
  by (simp_all add: play_ok_def)

lemma set_session_ok:
  "play_ok x0 hash p \<Longrightarrow> plays_on (g_session (p_game p)) y \<Longrightarrow> play_ok x0 hash (set_session y p)"
  by (auto simp: play_ok_def set_session_def plays_game_ok)

lemma play_session_ok: "play_ok x0 hash p \<Longrightarrow> session_ok (g_session (p_game p))"
  by (auto simp: play_ok_def game_ok_def)

lemma game_outputs_ok: "game_outputs t p = (e, q) \<Longrightarrow> p_game q = p_game p \<and> p_hash q = p_hash p"
  by (auto simp: game_outputs_def Let_def split: if_splits)

lemma game_begin_ok: "play_ok x0 hash p \<Longrightarrow> result_ok x0 hash (game_begin t p)"
  by (auto simp: game_begin_def play_ok_def dest: game_outputs_ok split: prod.split option.split)

lemma game_resume_ok: "play_ok x0 hash p \<Longrightarrow> result_ok x0 hash (game_resume t site p)"
  by (auto simp: game_resume_def game_begin_ok play_ok_def Let_def dest: game_outputs_ok split: prod.split option.split)

lemma audio_blocks_ok:
  "play_ok x0 hash p \<Longrightarrow> okp (audio_blocks t is p) (\<lambda>(okay, q). play_ok x0 hash q)"
proof (induction "is" arbitrary: p)
  case (Cons i "is")
  have step: "okp (gb_port_audio_frame AUDIO_SAMPLES (g_session (p_game p))) (\<lambda>(pcm, x). play_ok x0 hash (set_session x p))"
    by (rule okp_mono [OF audio_frame_plays [OF play_session_ok [OF Cons.prems]]])
      (auto intro: set_session_ok [OF Cons.prems])
  show ?case
    unfolding audio_blocks.simps Let_def
    by (rule okp_bind2I [OF step], intro okp_if Cons.IH) (simp_all add: set_session_def)
qed simp

lemma autosave_ok:
  assumes "play_ok x0 hash p"
  shows "okp (autosave t p) (result_ok x0 hash)"
proof -
  note h = play_hash [OF assms] and g = play_game [OF assms]
  show ?thesis
    unfolding autosave_def
    by (intro okp_if okp_bind2I [OF save_now_ok [OF g]] okp_bind2I [OF pause_enter_ok])
      (use assms h in \<open>auto simp: play_ok_def\<close>)
qed

text \<open>The end of a pass, after the sound.\<close>

lemma game_frame_ok:
  assumes "play_ok x0 hash p"
  shows "okp (game_frame t keys p) (result_ok x0 hash)"
proof -
  define q where "q = set_session (gb_port_set_keys keys (g_session (p_game p))) p"
  have q: "play_ok x0 hash q" unfolding q_def by (rule set_session_ok [OF assms set_keys_plays [OF play_session_ok [OF assms]]])
  let ?draw = "tn_ok t DISPLAY_IDLE \<and> gb_frame_pacing_draw (p_pacing q)"
  have frame: "okp (gb_port_step_frame ?draw (g_session (p_game q))) (\<lambda>(okay, x). play_ok x0 hash (set_session x q))"
    by (rule okp_mono [OF step_frame_plays [OF play_session_ok [OF q]]]) (auto intro: set_session_ok [OF q])
  have sound: "okp (if b then audio_blocks t is r else Some (True, r)) (\<lambda>(okay, q). play_ok x0 hash q)" if "play_ok x0 hash r" for b "is" r
    using that audio_blocks_ok by simp
  have last: "okp (if \<not> okay then Some (Failed AUDIO_OUTPUT_FAILED r) else if b then Some (Failed SCREEN_FAILED r)
      else autosave t (r\<lparr>p_pacing := f r\<rparr>)) (result_ok x0 hash)" if "play_ok x0 hash r" for okay b r f
    using that autosave_ok by simp
  show ?thesis
    unfolding game_frame_def Let_def q_def [symmetric]
    by (intro okp_if okp_bind2I [OF frame] okp_bind2I [OF sound] last) (use q in simp_all)
qed

lemma game_turn_ok:
  assumes "play_ok x0 hash p"
  shows "okp (game_turn t p) (result_ok x0 hash)"
proof -
  define q where "q h = set_session (gb_port_set_keys no_keys (g_session (p_game (p\<lparr>p_hold := h\<rparr>)))) (p\<lparr>p_hold := h\<rparr>)" for h
  have q: "play_ok x0 hash (q h)" for h
    unfolding q_def using assms set_keys_plays [OF play_session_ok [OF assms]] by (intro set_session_ok) simp_all
  show ?thesis
    unfolding game_turn_def Let_def split_beta q_def [symmetric]
    by (intro okp_if okp_bindI [OF pause_enter_ok [OF play_game [OF q]]] game_frame_ok) (use assms q in \<open>auto split: prod.splits intro: play_ok_game [OF q]\<close>)
qed

lemma game_step_ok:
  assumes "play_ok x0 hash p"
  shows "okp (game_step t mode p) (result_ok x0 hash)"
proof (cases mode)
  case Playing
  then show ?thesis using game_turn_ok [OF assms] by (simp add: game_step_def)
next
  case (Paused site pmode pm)
  have step: "okp (pause_step t (p_hash p) pmode pm (p_game p)) (pause_ok x0 (p_hash p))" by (rule pause_step_ok [OF play_game [OF assms]])
  have result: "result_ok x0 hash (case fst r of Stay pmode pm \<Rightarrow> Go (Paused site pmode pm) (p\<lparr>p_game := snd r\<rparr>)
      | Resume \<Rightarrow> game_resume t site (p\<lparr>p_game := snd r\<rparr>) | Leave \<Rightarrow> Left (p\<lparr>p_game := snd r\<rparr>))"
    if "pause_ok x0 (p_hash p) r" for r
    using that play_hash [OF assms] by (auto simp: pause_ok_def play_ok_def game_resume_ok split: pause_result.split)
  show ?thesis
    unfolding Paused game_step_def game_mode.case Let_def split_beta
    by (rule okp_bindI [OF step]) (simp add: result)
qed

lemma game_run_ok: "result_ok x0 hash r \<Longrightarrow> okp (game_run ts r) (result_ok x0 hash)"
proof (induction ts arbitrary: r)
  case (Cons t ts)
  show ?case
  proof (cases r)
    case (Go mode p)
    then have "play_ok x0 hash p" using Cons.prems by simp
    from okp_bindI [OF game_step_ok [OF this] Cons.IH] show ?thesis using Go by simp
  qed (use Cons.prems in auto)
qed simp

section \<open>Starting a game\<close>

fun session_of :: "game_result \<Rightarrow> gb_session" where
  "session_of (Go mode p) = g_session (p_game p)"
| "session_of (Left p) = g_session (p_game p)"
| "session_of (Failed e p) = g_session (p_game p)"

lemma game_begin_session: "session_of (game_begin t p) = g_session (p_game p)"
  by (auto simp: game_begin_def dest: game_outputs_ok split: prod.split option.split)

lemma fresh_play_parts [simp]:
  "p_game (fresh_play x hash s c) = \<lparr>g_session = x, g_fs = s, g_settings = c\<rparr>" "p_hash (fresh_play x hash s c) = hash"
  by (simp_all add: fresh_play_def)

lemma files_game_ok:
  assumes "in_files x0 hash y u" "session_ok y" "reads_ok u" "length hash = 32"
    and "has_batt y = has_batt x0" "gb_port_sram_size y = gb_port_sram_size x0"
  shows "game_ok x0 hash \<lparr>g_session = y, g_fs = u, g_settings = c\<rparr>"
  using assms in_files_undamaged [OF assms(1)] by (simp add: game_ok_def game_saved_def)

lemma game_load_begins:
  assumes "game_ok x0 hash \<lparr>g_session = y, g_fs = u, g_settings = c\<rparr>"
    and "(if gb_port_has_battery x then gb_saves_load x hash s else Some (GB_SAVE_EMPTY, x, s)) = Some (how, y, u)"
    and "how \<noteq> GB_SAVE_ERROR" "gb_port_has_battery x \<longrightarrow> saves_ready"
  shows "okp (game_load t saves_ready x hash s c) (\<lambda>r. \<exists>q. r = Started q \<and> result_ok x0 hash q \<and> sram_bytes (session_of q) = sram_bytes y)"
proof -
  have begin_ok: "result_ok x0 hash (game_begin t (fresh_play y hash u c))"
    using game_begin_ok [of x0 hash "fresh_play y hash u c" t] assms(1) by (simp add: play_ok_def)
  have enter: "okp (pause_enter t False hash \<lparr>g_session = y, g_fs = u, g_settings = c\<rparr>)
      (\<lambda>(pm, g). game_ok x0 hash g \<and> sram_bytes (g_session g) = sram_bytes y)"
    unfolding pause_enter_def by (rule okp_bind2I [OF save_now_ok [OF assms(1)]]) simp
  have "okp (if pad_connected (tn_pad t 0) then Some (Started (game_begin t (fresh_play y hash u c)))
      else pause_enter t False hash (p_game (fresh_play y hash u c)) \<bind>
        (\<lambda>(pm, g). Some (Started (Go (Paused Before_start Choosing pm) ((fresh_play y hash u c)\<lparr>p_game := g\<rparr>)))))
      (\<lambda>r. \<exists>q. r = Started q \<and> result_ok x0 hash q \<and> sram_bytes (session_of q) = sram_bytes y)"
  proof (intro okp_if)
    show "okp (pause_enter t False hash (p_game (fresh_play y hash u c)) \<bind>
        (\<lambda>(pm, g). Some (Started (Go (Paused Before_start Choosing pm) ((fresh_play y hash u c)\<lparr>p_game := g\<rparr>)))))
      (\<lambda>r. \<exists>q. r = Started q \<and> result_ok x0 hash q \<and> sram_bytes (session_of q) = sram_bytes y)"
      unfolding fresh_play_parts by (rule okp_bind2I [OF enter]) (simp add: play_ok_def)
  qed (use begin_ok in \<open>simp add: game_begin_session\<close>)
  then show ?thesis using assms(2-4) by (simp add: game_load_def Let_def)
qed

text \<open>A game starts well unless it does not start: without save files, from the latest save, or not at all.\<close>

lemma game_load_ok:
  assumes x: "session_ok x" and s: "reads_ok s" and hash: "length hash = 32"
  shows "okp (game_load t saves_ready x hash s c) (\<lambda>r. \<forall>q. r = Started q \<longrightarrow> result_ok x hash q)"
proof (cases "gb_port_has_battery x")
  case False
  then have "game_ok x hash \<lparr>g_session = x, g_fs = s, g_settings = c\<rparr>"
    using assms by (simp add: game_ok_def game_saved_def)
  then show ?thesis
    by (rule okp_mono [OF game_load_begins [OF _, of _ _ _ _ _ x s GB_SAVE_EMPTY]]) (use False in auto)
next
  case True
  note fits = session_sram_fits [OF x]
  note load = gb_saves_load_result [OF s fits refl True, of hash]
  show ?thesis
  proof (cases "saves_ready")
    case ready: True
    show ?thesis
    proof (cases "latest_save hash (gb_port_sram_size x) s")
      case None
      obtain u where u: "reading s u" "gb_saves_load x hash s =
        Some (if sf_file s (save_path hash COPY_A) \<noteq> None \<or> sf_file s (save_path hash COPY_B) \<noteq> None
              then GB_SAVE_ERROR else GB_SAVE_EMPTY, x, u)"
        using load None by auto
      show ?thesis
      proof (cases "sf_file s (save_path hash COPY_A) \<noteq> None \<or> sf_file s (save_path hash COPY_B) \<noteq> None")
        case damaged: True
        then show ?thesis using u(2) True ready by (simp add: game_load_def)
      next
        case False
        have "game_ok x hash \<lparr>g_session = x, g_fs = u, g_settings = c\<rparr>"
          using assms None False u(1)
          by (simp add: game_ok_def game_saved_def in_files_def both_damaged_def reading_reads_ok latest_save_def save_copies_reading reading_file)
        then show ?thesis
          by (rule okp_mono [OF game_load_begins [OF _, of _ _ _ _ _ x s GB_SAVE_EMPTY]]) (use u(2) False True ready in auto)
      qed
    next
      case (Some d)
      then obtain y u where y: "gb_saves_load x hash s = Some (GB_SAVE_LOADED, y, u)" "reading s u" "save_payload y = d" "kept_cart x y"
        using load by auto
      have "sram_fits y" using x y(4) by (simp add: session_sram_fits)
      then have "in_files x hash y u"
        using Some y(2,3,4) by (intro in_files_payload) (simp_all add: latest_save_def save_copies_reading)
      then have "game_ok x hash \<lparr>g_session = y, g_fs = u, g_settings = c\<rparr>"
        by (rule files_game_ok) (use assms y(2,4) reading_reads_ok [OF y(2)] in simp_all)
      then show ?thesis
          by (rule okp_mono [OF game_load_begins [OF _, of _ _ _ _ _ x s GB_SAVE_LOADED]]) (use y(1) True ready in auto)
    qed
  qed (use True in \<open>simp add: game_load_def\<close>)
qed

text \<open>From files that hold a game's save RAM the next session of the cartridge gets it back.\<close>

lemma game_load_resumes:
  assumes x: "session_ok x" "gb_port_has_battery x" and s: "reads_ok s" and hash: "length hash = 32"
    and g: "in_files x hash z s" "gb_port_sram_size z = gb_port_sram_size x" "sram_fits z"
  shows "okp (game_load t True x hash s c) (\<lambda>r. \<exists>q. r = Started q \<and> sram_bytes (session_of q) = sram_bytes z)"
proof -
  note fits = session_sram_fits [OF x(1)]
  note load = gb_saves_load_result [OF s fits refl x(2), of hash]
  show ?thesis
  proof (cases "latest_save hash (gb_port_sram_size x) s")
    case None
    have f: "sram_bytes z = sram_bytes x" "sf_file s (save_path hash COPY_A) = None" "sf_file s (save_path hash COPY_B) = None"
      using None g(1,2) by (simp_all add: in_files_def)
    obtain u where u: "reading s u" "gb_saves_load x hash s = Some (GB_SAVE_EMPTY, x, u)"
      using load None f(2,3) by auto
    have "game_ok x hash \<lparr>g_session = x, g_fs = u, g_settings = c\<rparr>"
      using x s hash None f u(1)
      by (simp add: game_ok_def game_saved_def in_files_def both_damaged_def reading_reads_ok latest_save_def save_copies_reading reading_file)
    then show ?thesis
          by (rule okp_mono [OF game_load_begins [OF _, of _ _ _ _ _ x s GB_SAVE_EMPTY]]) (use u(2) x(2) f(1) in auto)
  next
    case (Some d)
    then obtain y u where y: "gb_saves_load x hash s = Some (GB_SAVE_LOADED, y, u)" "reading s u" "save_payload y = d" "kept_cart x y"
      using load by auto
    have fy: "sram_fits y" using x y(4) by (simp add: session_sram_fits)
    have "sram_bytes y = take (gb_port_sram_size y) (save_payload y)"
      using length_sram_bytes [OF fy] by (simp add: save_payload_def)
    also have "\<dots> = sram_bytes z" using Some g(1,2) y(3,4) by (simp add: in_files_def)
    finally have same: "sram_bytes y = sram_bytes z" .
    have "in_files x hash y u"
      using Some y(2,3,4) fy by (intro in_files_payload) (simp_all add: latest_save_def save_copies_reading)
    then have "game_ok x hash \<lparr>g_session = y, g_fs = u, g_settings = c\<rparr>"
      by (rule files_game_ok) (use x s hash y(2,4) reading_reads_ok [OF y(2)] in simp_all)
    then show ?thesis
          by (rule okp_mono [OF game_load_begins [OF _, of _ _ _ _ _ x s GB_SAVE_LOADED]]) (use y(1) x(2) same in auto)
  qed
qed

end
