(* ===== verification/Game_Properties.thy ===== *)
theory Game_Properties
  imports Game_Safe Saves_Properties
begin

text \<open>
  The properties of playing a game, from the session calls to the pause menu and the settings.
\<close>

section \<open>A game that is started, played and left\<close>

definition quiet_turn :: turn where
  "quiet_turn = \<lparr>tn_button = None, tn_buttons = [], tn_pad = (\<lambda>_. no_pad), tn_time = (\<lambda>_. 0), tn_mv = 3000,
     tn_ok = (\<lambda>_. True), tn_healthy = (\<lambda>_. True)\<rparr>"

definition leave_turn :: turn where
  "leave_turn = quiet_turn\<lparr>tn_button := long_ok\<rparr>"

definition demo_settings :: settings where
  "demo_settings = default_settings \<lparr>nv_u8 = Map.empty, nv_calls = 0, nv_ok = (\<lambda>_. True)\<rparr>"

abbreviation demo_hash :: "u8 list" where
  "demo_hash \<equiv> replicate 32 7"

lemma leave_receive: "tn_button t = long_ok \<Longrightarrow> fst (menu_button_receive t h) = long_ok"
  by (simp add: menu_button_receive_def split_beta)

text \<open>C5.  Playing is safe and loses nothing.  A session of a cartridge either does not start or, whatever
  the buttons, the controller, the clock, the devices and the writes of the save files do during any
  number of passes, never accesses memory outside a buffer; it stays well-formed, and at each moment
  either a save is still due or a load would give back the save RAM.  A game that was left has nothing due.\<close>

theorem game_keeps_progress:
  assumes "session_ok x" "reads_ok s" "length hash = 32"
  shows "okp (game_load t saves_ready x hash s c) (\<lambda>r. \<forall>q. r = Started q \<longrightarrow> okp (game_run ts q) (result_ok x hash))"
  by (rule okp_mono [OF game_load_ok [OF assms]]) (blast intro: game_run_ok)

lemma demo_starts:
  assumes "writes_ok (demo_fs good)"
  obtains pm p where "game_load quiet_turn True demo_play demo_hash (demo_fs good) c = Some (Started (Go (Paused Before_start Choosing pm) p))"
    "play_ok demo_play demo_hash p" "writes_ok (g_fs (p_game p))"
proof -
  let ?g = "\<lparr>g_session = demo_play, g_fs = (demo_fs good)\<lparr>sf_reads := 6\<rparr>, g_settings = c\<rparr>"
  have h: "length demo_hash = 32" by simp
  have s: "latest_save demo_hash n (demo_fs good) = None" "sf_file (demo_fs good) path = None" for n path
    using demo_fs_ok(3) by (simp_all add: both_damaged_def demo_fs_def sf_file_def latest_save_def pick_copy_def save_copies_def)
  obtain u where u: "reading (demo_fs good) u" "gb_saves_load demo_play demo_hash (demo_fs good) = Some (GB_SAVE_EMPTY, demo_play, u)"
    using gb_saves_load_result [OF demo_fs_ok(1) [of good] session_sram_fits [OF demo_play_ok(1)] refl demo_play_ok(2), where hash = demo_hash] s by auto
  have "game_ok demo_play demo_hash \<lparr>g_session = demo_play, g_fs = u, g_settings = c\<rparr>"
    using demo_play_ok(1,3) demo_fs_ok(1) [of good] s reading_reads_ok [OF u(1)] reading_file [OF u(1)]
    by (simp add: game_ok_def both_damaged_def)
  from save_now_ok [OF this] obtain okay g where g: "save_now demo_hash \<lparr>g_session = demo_play, g_fs = u, g_settings = c\<rparr> = Some (okay, g)"
    "game_ok demo_play demo_hash g" "writes_ok (g_fs g) = writes_ok u"
    by (auto simp: okp_iff)
  define pm where "pm = \<lparr>pm_selected = 0, pm_hint = (if okay then base_hint g else HINT_SYNC_FAILED), pm_connected = False,
    pm_hold = gb_select_pause_init no_pad, pm_pad = gb_menu_input_init no_pad\<rparr>"
  have "game_load quiet_turn True demo_play demo_hash (demo_fs good) c =
    Some (Started (Go (Paused Before_start Choosing pm) ((fresh_play demo_play demo_hash u c)\<lparr>p_game := g\<rparr>)))"
    using u(2) g(1) demo_play_ok(2) by (simp add: game_load_def pause_enter_def pm_def quiet_turn_def no_pad_def)
  then show thesis
    by (rule that) (use g assms u(1) in \<open>simp_all add: play_ok_def writes_ok_def reading_def\<close>)
qed

lemma game_keeps_progress_witness:
  "\<exists>q l. game_load quiet_turn True demo_play demo_hash (demo_fs (\<lambda>_. True)) demo_settings = Some (Started q) \<and>
     game_run [quiet_turn, leave_turn] q = Some l \<and> result_ok demo_play demo_hash l"
proof -
  obtain pm p where p: "game_load quiet_turn True demo_play demo_hash (demo_fs (\<lambda>_. True)) demo_settings =
      Some (Started (Go (Paused Before_start Choosing pm) p))"
    by (rule demo_starts [OF demo_fs_ok(2)])
  from okpD [OF game_keeps_progress [OF demo_play_ok(1) demo_fs_ok(1) length_replicate] p, of "[quiet_turn, leave_turn]"]
  show ?thesis using p unfolding okp_iff by blast
qed


lemma leave_turn_button: "tn_button leave_turn = long_ok"
  by (simp add: leave_turn_def)


text \<open>C6.  A game goes on where it was left.  After any play that ended with leaving the game, the next
  session of the same cartridge with a battery starts, and has the save RAM the last one ended with.\<close>

theorem game_resumes:
  assumes "session_ok x" "reads_ok s" "length hash = 32"
    and "game_load t saves_ready x hash s c = Some (Started r)" "game_run ts r = Some (Left p)"
    and "session_ok y" "gb_port_has_battery x" "gb_port_has_battery y" "gb_port_sram_size y = gb_port_sram_size x"
    and "sram_bytes y = sram_bytes x"
  shows "\<exists>q. game_load u True y hash (g_fs (p_game p)) d = Some (Started q) \<and>
    sram_bytes (session_of q) = sram_bytes (g_session (p_game p))"
proof -
  have "result_ok x hash r" using okpD [OF game_load_ok [OF assms(1-3)] assms(4)] by simp
  from okpD [OF game_run_ok [OF this] assms(5)] have "result_ok x hash (Left p)" .
  then have p: "game_saved x hash (p_game p)" "game_ok x hash (p_game p)"
    by (auto simp: play_ok_def)
  then have "okp (game_load u True y hash (g_fs (p_game p)) d)
      (\<lambda>r. \<exists>q. r = Started q \<and> sram_bytes (session_of q) = sram_bytes (g_session (p_game p)))"
    using assms
    by (intro game_load_resumes) (auto simp: game_saved_def game_ok_def session_sram_fits in_files_def gb_port_has_battery_def split: option.splits)
  then show ?thesis by (auto simp: okp_iff)
qed

lemma game_resumes_witness:
  "\<exists>r p q. game_load quiet_turn True demo_play demo_hash (demo_fs (\<lambda>_. True)) demo_settings = Some (Started r) \<and>
     game_run [leave_turn] r = Some (Left p) \<and>
     game_load quiet_turn True demo_play demo_hash (g_fs (p_game p)) demo_settings = Some (Started q) \<and>
     sram_bytes (session_of q) = sram_bytes (g_session (p_game p))"
proof -
  obtain pm p where p: "game_load quiet_turn True demo_play demo_hash (demo_fs (\<lambda>_. True)) demo_settings =
      Some (Started (Go (Paused Before_start Choosing pm) p))"
    "play_ok demo_play demo_hash p" "writes_ok (g_fs (p_game p))"
    by (rule demo_starts [OF demo_fs_ok(2)])
  obtain okay g where g: "save_now demo_hash (p_game p) = Some (okay, g)" "okay"
    using save_now_ok [OF play_game [OF p(2)]] p(3) play_hash [OF p(2)] by (auto simp: okp_iff)
  then have run: "game_run [leave_turn] (Go (Paused Before_start Choosing pm) p) = Some (Left (p\<lparr>p_game := g\<rparr>))"
    using play_hash [OF p(2)] leave_receive [OF leave_turn_button]
    by (simp add: game_step_def pause_step_def pause_leave_def Let_def split_beta)
  note d = demo_play_ok(1,2)
  show ?thesis
    using game_resumes [OF d(1) demo_fs_ok(1) length_replicate p(1) run d(1) d(2) d(2) refl refl, of quiet_turn demo_settings]
      p(1) run by blast
qed

section \<open>A session plays on\<close>

text \<open>C26.  Every sequence of the calls of the game loop (keys, frames, sound) on a well-formed session runs
  without an access outside a buffer and returns a well-formed session of the same cartridge; the save
  RAM is then as before or marked dirty, and the mark is never lost.\<close>

theorem session_plays_on:
  assumes "session_ok x"
  shows "\<exists>y. run_calls cs x = Some y \<and> session_ok y \<and> cart_of (core y) = cart_of (core x) \<and>
    (sramDirty (bufs (core y)) \<or> sramData (bufs (core y)) = sramData (bufs (core x)) \<and> \<not> sramDirty (bufs (core x)))"
  using run_calls_play [OF assms, of cs] by (auto simp: okp_iff plays_on_def live_step_def)

lemma session_plays_on_witness:
  "\<exists>y. run_calls [Set_keys no_keys, Step_frame True, Audio_frame 267, Step_frame False] demo_play = Some y \<and> session_ok y"
  using session_plays_on [OF demo_play_ok(1)] by blast

section \<open>Settings\<close>




section \<open>The list of games\<close>

text \<open>The selection of the list of games stays on the list, is among the at most five rows drawn and is
  the one marked, and only a listed game is run.\<close>

theorem selection_on_list:
  assumes "lm_selected m < n" "list_step n t m = (r, m')" "list_rows n (lm_selected m') = (rows, mark)"
  shows "lm_selected m' < n \<and> length rows \<le> 5 \<and> mark < length rows \<and> rows ! mark = lm_selected m' \<and>
    set rows \<subseteq> {..<n} \<and> (r = List_run i \<longrightarrow> i < n)"
proof -
  have m: "lm_selected m' < n" "r = List_run i \<Longrightarrow> i < n"
    using list_step_bound [OF disjI2 [OF assms(1)] assms(2)] assms(1) by auto
  from list_rows_shown [OF m(1) assms(3)] m show ?thesis by (auto simp: GB_UI_MAX_ITEMS_def)
qed

lemma selection_on_list_witness:
  "snd (list_rows 7 (lm_selected (snd (list_step 7 (quiet_turn\<lparr>tn_button := Some (BSP_BTN_UP, BSP_BTN_CLICK),
     tn_pad := \<lambda>_. no_pad\<lparr>pad_connected := True\<rparr>\<rparr>) (list_enter no_pad))))) < 5"
proof -
  let ?t = "quiet_turn\<lparr>tn_button := Some (BSP_BTN_UP, BSP_BTN_CLICK), tn_pad := \<lambda>_. no_pad\<lparr>pad_connected := True\<rparr>\<rparr>"
  obtain r m' where m: "list_step 7 ?t (list_enter no_pad) = (r, m')" by (cases "list_step 7 ?t (list_enter no_pad)")
  obtain rows mark where l: "list_rows 7 (lm_selected m') = (rows, mark)" by (cases "list_rows 7 (lm_selected m')")
  have "lm_selected (list_enter no_pad) < 7" by (simp add: list_enter_def)
  from selection_on_list [OF this m l, of 0] show ?thesis using m l by simp
qed

end
