(* ===== verification/Emu_Saves.thy ===== *)
theory Emu_Saves
  imports Emu_Frame
begin

text \<open>
  Save states and save files of the core (gb_emulator.h: \<open>saveState\<close>, \<open>loadState\<close>, \<open>saveSRAM\<close>,
  \<open>loadSRAM\<close>; gb_emulator_base.h: \<open>safeRename\<close>), over the file layer of sdfat_compat.cpp.  Every
  file call may fail: \<open>sd_works\<close> says which, by its number, and \<open>sd_kept\<close> how many bytes a failing
  write or read still moves.  A power cut is a schedule on which everything fails from some call on.
\<close>

section \<open>The file layer\<close>

record sdfat =
  sd_file :: "string \<Rightarrow> u8 list option"
  sd_calls :: nat
  sd_works :: "nat \<Rightarrow> bool"
  sd_kept :: "nat \<Rightarrow> nat"
  sd_replaces :: bool

definition sd_call :: "sdfat \<Rightarrow> bool \<times> sdfat" where
  "sd_call s = (sd_works s (sd_calls s), s\<lparr>sd_calls := sd_calls s + 1\<rparr>)"

definition sd_set :: "string \<Rightarrow> u8 list option \<Rightarrow> sdfat \<Rightarrow> sdfat" where
  "sd_set path c s = s\<lparr>sd_file := (sd_file s)(path := c)\<rparr>"

definition sd_exists :: "string \<Rightarrow> sdfat \<Rightarrow> bool \<times> sdfat" where
  "sd_exists path s = (let (ok, t) = sd_call s in (ok \<and> sd_file s path \<noteq> None, t))"

definition sd_remove :: "string \<Rightarrow> sdfat \<Rightarrow> bool \<times> sdfat" where
  "sd_remove path s =
     (let (ok, t) = sd_call s
      in if ok \<and> sd_file s path \<noteq> None then (True, sd_set path None t) else (False, t))"

text \<open>Whether \<open>rename\<close> replaces an existing file is up to the file system (\<open>sd_replaces\<close>).\<close>

definition sd_rename :: "string \<Rightarrow> string \<Rightarrow> sdfat \<Rightarrow> bool \<times> sdfat" where
  "sd_rename old new s =
     (let (ok, t) = sd_call s
      in if ok \<and> sd_file s old \<noteq> None \<and> (sd_file s new = None \<or> sd_replaces s)
         then (True, sd_set old None (sd_set new (sd_file s old) t)) else (False, t))"

definition sd_create :: "string \<Rightarrow> sdfat \<Rightarrow> bool \<times> sdfat" where
  "sd_create path s = (let (ok, t) = sd_call s in (ok, if ok then sd_set path (Some []) t else t))"

definition sd_append :: "string \<Rightarrow> u8 list \<Rightarrow> sdfat \<Rightarrow> sdfat" where
  "sd_append path bytes s =
     (let (ok, t) = sd_call s
      in case sd_file s path of
           None \<Rightarrow> t
         | Some c \<Rightarrow> sd_set path (Some (c @ (if ok then bytes else take (sd_kept s (sd_calls s)) bytes))) t)"

text \<open>Flushing what is buffered: on failure only the first \<open>sd_kept\<close> bytes have reached the card.\<close>

definition sd_sync :: "string \<Rightarrow> sdfat \<Rightarrow> sdfat" where
  "sd_sync path s =
     (let (ok, t) = sd_call s
      in if ok then t else sd_set path (map_option (take (sd_kept s (sd_calls s))) (sd_file s path)) t)"

text \<open>An open file that is read is the list of the bytes still to come.\<close>

definition sd_open :: "string \<Rightarrow> sdfat \<Rightarrow> u8 list option \<times> sdfat" where
  "sd_open path s = (let (ok, t) = sd_call s in (if ok then sd_file s path else None, t))"

definition sd_read :: "nat \<Rightarrow> u8 list \<Rightarrow> sdfat \<Rightarrow> u8 list \<times> u8 list \<times> sdfat" where
  "sd_read n rest s =
     (let (ok, t) = sd_call s; got = (if ok then take n rest else take (min n (sd_kept s (sd_calls s))) rest)
      in (got, drop (length got) rest, t))"

definition sd_size :: "u8 list \<Rightarrow> sdfat \<Rightarrow> nat \<times> sdfat" where
  "sd_size rest s = (let (ok, t) = sd_call s in (if ok then length rest else 0, t))"

section \<open>Replacing a file\<close>

definition buildTmpPath :: "string \<Rightarrow> nat \<Rightarrow> string" where
  "buildTmpPath path n = take (n - 1) (path @ ''.tmp'')"

definition bak_path :: "string \<Rightarrow> string" where
  "bak_path path = take 95 (path @ ''.bak'')"

definition safeRename :: "string \<Rightarrow> string \<Rightarrow> sdfat \<Rightarrow> bool \<times> sdfat" where
  "safeRename tmp path s =
     (let bak = bak_path path;
          (stale, s) = sd_exists bak s;
          s = (if stale then snd (sd_remove bak s) else s);
          (had, s) = sd_exists path s;
          (moved, s) = (if had then sd_rename path bak s else (True, s))
      in if \<not> moved then (False, snd (sd_remove tmp s))
         else
           let (promoted, s) = sd_rename tmp path s
           in if \<not> promoted then
                let s = (if had then snd (sd_rename bak path s) else s)
                in (False, snd (sd_remove tmp s))
              else (True, if had then snd (sd_remove bak s) else s))"

section \<open>The header of a save state\<close>

text \<open>\<open>struct SaveHeader\<close> by its bytes, in declaration order; two alignment gaps, at 37 and at the end.\<close>

definition GB_SAVE_MAGIC :: "u8 list" where
  "GB_SAVE_MAGIC = [0x34, 0x4D, 0x55, 0x53]"

definition HEADER_SIZE :: nat where "HEADER_SIZE = 256"

definition le16 :: "u16 \<Rightarrow> u8 list" where
  "le16 v = [ucast v, ucast (drop_bit 8 v)]"

definition le32 :: "u32 \<Rightarrow> u8 list" where
  "le32 v = [ucast v, ucast (drop_bit 8 v), ucast (drop_bit 16 v), ucast (drop_bit 24 v)]"

definition flag_byte :: "bool \<Rightarrow> u8" where
  "flag_byte b = (if b then 1 else 0)"

definition mbc_byte :: "MBCType \<Rightarrow> u8" where
  "mbc_byte m = (case m of MBC_NONE \<Rightarrow> 0 | MBC_MBC1 \<Rightarrow> 1 | MBC_MBC2 \<Rightarrow> 2 | MBC_MBC3 \<Rightarrow> 3 | MBC_MBC5 \<Rightarrow> 4)"

definition header_cpu :: "cpu_regs \<Rightarrow> u8 list" where
  "header_cpu c =
     le16 (reg_pc c) @ le16 (reg_sp c) @
     [reg_a c, reg_f c, reg_b c, reg_c c, reg_d c, reg_e c, reg_h c, reg_l c,
      flag_byte (ime c), flag_byte (halted c), flag_byte (haltBug c), flag_byte (eiPending c), ie c, iflag c]"

definition header_lcd :: "lcd_regs \<Rightarrow> u8 list" where
  "header_lcd l = [lcdc l, lcdstat l, scy l, scx l, ly l, lyc l, bgp l, obp0 l, obp1 l, wy l, wx l]"

definition header_timer :: "timer_regs \<Rightarrow> u8 list" where
  "header_timer t = [tima t, tma t, tac t, divReg t, 0] @ le16 (timerCounter t) @ le16 (divCounter t)"

definition header_mbc :: "'snd gb \<Rightarrow> u8 list" where
  "header_mbc x =
     le16 (romBank (mbc x)) @
     [ramBank (mbc x), flag_byte (ramEnabled (mbc x)), joypadSelect (joy x), mbc_byte (mbcType (mbc x)),
      mbc1Mode (mbc x), mbc1Bank2 (mbc x), ppuMode (lcd x), flag_byte (prevStatLine (lcd x))]"

definition header_cgb :: "'snd gb \<Rightarrow> u8 list" where
  "header_cgb x =
     [flag_byte (isCgb (cgb x)), vramBank (cgb x), wramBank (cgb x), key1 (cgb x), flag_byte (doubleSpeed (cgb x)),
      bcpsReg (cgb x), ocpsReg (cgb x)] @ bgPalette (cgb x) @ objPalette (cgb x) @
     [hdma1 (cgb x), hdma2 (cgb x), hdma3 (cgb x), hdma4 (cgb x), hdma5 (cgb x), sbReg (joy x), scReg (joy x)] @
     replicate 10 0"

definition header_bytes :: "u32 \<Rightarrow> 'snd gb \<Rightarrow> u8 list" where
  "header_bytes frameCount x =
     GB_SAVE_MAGIC @ header_cpu (cpu x) @ header_lcd (lcd x) @ header_timer (timer x) @ header_mbc x @
     soundRegs (bufs x) @ le32 frameCount @ header_cgb x"

text \<open>Reading the header back.\<close>

definition word16 :: "u8 list \<Rightarrow> nat \<Rightarrow> u16" where
  "word16 b i = ucast (b ! i) OR push_bit 8 (ucast (b ! (i + 1)))"

definition word32 :: "u8 list \<Rightarrow> nat \<Rightarrow> u32" where
  "word32 b i =
     ucast (b ! i) OR push_bit 8 (ucast (b ! (i + 1))) OR push_bit 16 (ucast (b ! (i + 2))) OR
     push_bit 24 (ucast (b ! (i + 3)))"

definition bytes_at :: "nat \<Rightarrow> nat \<Rightarrow> u8 list \<Rightarrow> u8 list" where
  "bytes_at i n b = take n (drop i b)"

definition load_cpu :: "u8 list \<Rightarrow> cpu_regs \<Rightarrow> cpu_regs" where
  "load_cpu b c =
     c\<lparr>reg_pc := word16 b 4, reg_sp := word16 b 6, reg_a := b ! 8, reg_f := b ! 9, reg_b := b ! 10, reg_c := b ! 11,
       reg_d := b ! 12, reg_e := b ! 13, reg_h := b ! 14, reg_l := b ! 15, ime := b ! 16 \<noteq> 0, halted := b ! 17 \<noteq> 0,
       haltBug := b ! 18 \<noteq> 0, eiPending := b ! 19 \<noteq> 0, ie := b ! 20, iflag := b ! 21\<rparr>"

definition load_lcd :: "u8 list \<Rightarrow> lcd_regs \<Rightarrow> lcd_regs" where
  "load_lcd b l =
     l\<lparr>lcdc := b ! 22, lcdstat := b ! 23, scy := b ! 24, scx := b ! 25, ly := b ! 26, lyc := b ! 27, bgp := b ! 28,
       obp0 := b ! 29, obp1 := b ! 30, wy := b ! 31, wx := b ! 32, ppuMode := b ! 50,
       ppuDots := (if b ! 50 = 3 then 80 else if b ! 50 = 0 \<and> b ! 22 AND 0x80 \<noteq> 0 then 252 else 0),
       frameOvershoot := 0, lcdChanged := False, lcdFirstFrame := False, prevStatLine := b ! 51 \<noteq> 0\<rparr>"

definition load_timer :: "u8 list \<Rightarrow> timer_regs \<Rightarrow> timer_regs" where
  "load_timer b t =
     t\<lparr>tima := b ! 33, tma := b ! 34, tac := b ! 35, divReg := b ! 36, timerCounter := word16 b 38, divCounter := word16 b 40\<rparr>"

definition load_mbc :: "u8 list \<Rightarrow> mbc_regs \<Rightarrow> mbc_regs" where
  "load_mbc b m =
     m\<lparr>romBank := word16 b 42, ramBank := b ! 44, ramEnabled := b ! 45 \<noteq> 0, mbc1Mode := b ! 48, mbc1Bank2 := b ! 49\<rparr>"

definition load_cgb :: "u8 list \<Rightarrow> cgb_regs \<Rightarrow> cgb_regs" where
  "load_cgb b c =
     c\<lparr>vramBank := b ! 105, wramBank := (if b ! 106 = 0 then 1 else b ! 106), key1 := b ! 107, doubleSpeed := b ! 108 \<noteq> 0,
       bcpsReg := b ! 109, ocpsReg := b ! 110, bgPalette := bytes_at 111 64 b, objPalette := bytes_at 175 64 b,
       hdma1 := b ! 239, hdma2 := b ! 240, hdma3 := b ! 241, hdma4 := b ! 242, hdma5 := b ! 243\<rparr>"

definition load_header :: "u8 list \<Rightarrow> 'snd gb \<Rightarrow> 'snd gb" where
  "load_header b x =
     (let x = refreshMappedRomBanks (x\<lparr>cpu := load_cpu b (cpu x), timer := load_timer b (timer x),
                joy := (joy x)\<lparr>joypadSelect := b ! 46\<rparr>, mbc := load_mbc b (mbc x)\<rparr>)
      in x\<lparr>lcd := load_lcd b (lcd x), bufs := (bufs x)\<lparr>soundRegs := bytes_at 52 48 b\<rparr>, cgb := load_cgb b (cgb x),
           joy := (joy x)\<lparr>sbReg := b ! 244, scReg := b ! 245\<rparr>\<rparr>)"

section \<open>Save states\<close>

text \<open>The buffers of a save state, in file order.\<close>

definition state_parts :: "'snd gb \<Rightarrow> u8 list list" where
  "state_parts x =
     [vram (bufs x), wram (bufs x), oam (bufs x), hram (bufs x), sramData (bufs x)] @
     (if isCgb (cgb x) then (case vram1 (cgb x) of Some v \<Rightarrow> [v] | None \<Rightarrow> []) @
        (case wramExtra (cgb x) of Some w \<Rightarrow> [w] | None \<Rightarrow> []) else [])"

definition saveState :: "string \<Rightarrow> u32 \<Rightarrow> 'snd gb \<Rightarrow> sdfat \<Rightarrow> bool \<times> sdfat" where
  "saveState path frameCount x s =
     (let tmp = buildTmpPath path 84; (opened, s) = sd_create tmp s
      in if \<not> opened then (False, s)
         else safeRename tmp path (sd_sync tmp (fold (sd_append tmp) (header_bytes frameCount x # state_parts x) s)))"

text \<open>\<open>readExact\<close> into a buffer of the machine; a short read leaves the bytes it got.\<close>

definition read_exact :: "nat \<Rightarrow> u8 list \<Rightarrow> u8 list \<Rightarrow> sdfat \<Rightarrow> bool \<times> u8 list \<times> u8 list \<times> sdfat" where
  "read_exact n buf rest s =
     (let (got, rest, s) = sd_read n rest s in (length got = n, got @ drop (length got) buf, rest, s))"

definition load_part ::
  "('snd gb \<Rightarrow> u8 list) \<Rightarrow> (u8 list \<Rightarrow> 'snd gb \<Rightarrow> 'snd gb) \<Rightarrow> nat \<Rightarrow> bool \<times> 'snd gb \<times> u8 list \<times> sdfat \<Rightarrow>
   bool \<times> 'snd gb \<times> u8 list \<times> sdfat" where
  "load_part get put n r =
     (case r of (ok, x, rest, s) \<Rightarrow>
        if \<not> ok then r
        else let (ok, b, rest, s) = read_exact n (get x) rest s in (ok, put b x, rest, s))"

definition put_bufs :: "(u8 list \<Rightarrow> mem_bufs \<Rightarrow> mem_bufs) \<Rightarrow> u8 list \<Rightarrow> 'snd gb \<Rightarrow> 'snd gb" where
  "put_bufs f b x = x\<lparr>bufs := f b (bufs x)\<rparr>"

definition load_body :: "u8 list \<Rightarrow> 'snd gb \<times> u8 list \<times> sdfat \<Rightarrow> bool \<times> 'snd gb \<times> u8 list \<times> sdfat" where
  "load_body b r =
     (let r = load_part (vram \<circ> bufs) (put_bufs (\<lambda>v m. m\<lparr>vram := v\<rparr>)) GB_VRAM_SIZE (True, r);
          r = load_part (wram \<circ> bufs) (put_bufs (\<lambda>v m. m\<lparr>wram := v\<rparr>)) GB_WRAM_SIZE r;
          r = load_part (oam \<circ> bufs) (put_bufs (\<lambda>v m. m\<lparr>oam := v\<rparr>)) 0xA0 r;
          r = load_part (hram \<circ> bufs) (put_bufs (\<lambda>v m. m\<lparr>hram := v\<rparr>)) 0x80 r;
          x = fst (snd r);
          r = load_part (sramData \<circ> bufs) (put_bufs (\<lambda>v m. m\<lparr>sramData := v\<rparr>)) (sramSize (bufs x)) r;
          saved_cgb = (b ! 104 \<noteq> 0 \<and> isCgb (cgb x));
          r = (if saved_cgb \<and> vram1 (cgb x) \<noteq> None
               then load_part (the \<circ> vram1 \<circ> cgb) (\<lambda>v x. x\<lparr>cgb := (cgb x)\<lparr>vram1 := Some v\<rparr>\<rparr>) 0x2000 r else r)
      in if saved_cgb \<and> wramExtra (cgb x) \<noteq> None
         then load_part (the \<circ> wramExtra \<circ> cgb) (\<lambda>v x. x\<lparr>cgb := (cgb x)\<lparr>wramExtra := Some v\<rparr>\<rparr>) 0x6000 r else r)"

text \<open>The result, the frame count, the machine; \<open>None\<close> is an access outside a buffer in the two frames run.\<close>

definition loadState :: "string \<Rightarrow> u32 \<Rightarrow> 'snd gb \<Rightarrow> sdfat \<Rightarrow> (bool \<times> u32 \<times> 'snd gb \<times> sdfat) option" where
  "loadState path frameCount x s =
     (let (there, s) = sd_exists path s
      in if \<not> there then Some (False, frameCount, x, s)
         else case sd_open path s of
           (None, s) \<Rightarrow> Some (False, frameCount, x, s)
         | (Some content, s) \<Rightarrow>
             let (b, rest, s) = sd_read HEADER_SIZE content s
             in if length b \<noteq> HEADER_SIZE \<or> take 4 b \<noteq> GB_SAVE_MAGIC \<or> b ! 47 \<noteq> mbc_byte (mbcType (mbc x))
                then Some (False, frameCount, x, snd (sd_remove path s))
                else
                  let frameCount = word32 b 100; (ok, x, rest, s) = load_body b (load_header b x, rest, s)
                  in if \<not> ok then Some (False, frameCount, x, snd (sd_remove path s))
                     else do {
                       x \<leftarrow> runFrame (x\<lparr>joy := (joy x)\<lparr>joyDpad := 0x0F, joyButtons := 0x0F\<rparr>\<rparr>);
                       x \<leftarrow> runFrame x;
                       Some (True, frameCount, x, s)
                     })"

section \<open>Save files\<close>

definition rtc_blob :: "rtc_regs \<Rightarrow> u8 list" where
  "rtc_blob r = [rtcSec r, rtcMin r, rtcHour r, rtcDay r, rtcDayHi r] @ rtcLatched r"

definition saveSRAM :: "string \<Rightarrow> 'snd gb \<Rightarrow> sdfat \<Rightarrow> bool \<times> sdfat" where
  "saveSRAM path x s =
     (let tmp = buildTmpPath path 84; (opened, s) = sd_create tmp s
      in if \<not> opened then (False, s)
         else safeRename tmp path (sd_sync tmp (fold (sd_append tmp) [sramData (bufs x), rtc_blob (rtc x)] s)))"

definition loadSRAM :: "string \<Rightarrow> 'snd gb \<Rightarrow> sdfat \<Rightarrow> bool \<times> 'snd gb \<times> sdfat" where
  "loadSRAM path x s =
     (let (there, s) = sd_exists path s
      in if \<not> there then (False, x, s)
         else case sd_open path s of
           (None, s) \<Rightarrow> (False, x, s)
         | (Some content, s) \<Rightarrow>
             let (size, s) = sd_size content s
             in if size < sramSize (bufs x) then (False, x, s)
                else
                  let (got, rest, s) = sd_read (sramSize (bufs x)) content s;
                      x = x\<lparr>bufs := (bufs x)\<lparr>sramData := got @ drop (length got) (sramData (bufs x))\<rparr>\<rparr>;
                      (available, s) = sd_size rest s
                  in if available < 10 then (True, x, s)
                     else
                       let (got, rest, s) = sd_read 10 rest s; blob = got @ replicate (10 - length got) 0
                       in (True, x\<lparr>rtc := (rtc x)\<lparr>rtcSec := blob ! 0, rtcMin := blob ! 1, rtcHour := blob ! 2,
                             rtcDay := blob ! 3, rtcDayHi := blob ! 4, rtcLatched := drop 5 blob\<rparr>\<rparr>, s))"

end
