(* ===== verification/Emu_Saves_Works.thy ===== *)
theory Emu_Saves_Works
  imports Emu_Saves
begin

text \<open>
  What a save state and a save file give back, and what is left on the card whichever call fails.
\<close>

section \<open>The header\<close>

lemma word16_le16: "ucast (ucast v :: u8) OR push_bit 8 (ucast (ucast (drop_bit 8 v) :: u8)) = (v :: u16)"
  by (rule bit_word_eqI) (auto simp: bit_simps)

lemma word32_le32:
  "ucast (ucast v :: u8) OR push_bit 8 (ucast (ucast (drop_bit 8 v) :: u8)) OR
   push_bit 16 (ucast (ucast (drop_bit 16 v) :: u8)) OR push_bit 24 (ucast (ucast (drop_bit 24 v) :: u8)) = (v :: u32)"
proof (rule bit_word_eqI)
  fix n assume "n < LENGTH(32)"
  then consider "n < 8" | "8 \<le> n" "n < 16" | "16 \<le> n" "n < 24" | "24 \<le> n" "n < 32" by force
  then show "bit (ucast (ucast v :: u8) OR push_bit 8 (ucast (ucast (drop_bit 8 v) :: u8)) OR
      push_bit 16 (ucast (ucast (drop_bit 16 v) :: u8)) OR push_bit 24 (ucast (ucast (drop_bit 24 v) :: u8)) :: u32) n = bit v n"
    by cases (auto simp: bit_simps)
qed

lemma flag_byte [simp]: "flag_byte b \<noteq> 0 \<longleftrightarrow> b" "flag_byte b = 0 \<longleftrightarrow> \<not> b"
  by (simp_all add: flag_byte_def)

text \<open>The three stretches of the header.\<close>

definition header_front :: "'snd gb \<Rightarrow> u8 list" where
  "header_front x = GB_SAVE_MAGIC @ header_cpu (cpu x) @ header_lcd (lcd x) @ header_timer (timer x) @ header_mbc x"

lemmas header_front_bytes = header_front_def GB_SAVE_MAGIC_def header_cpu_def header_lcd_def header_timer_def header_mbc_def le16_def

lemma length_header_front [simp]: "length (header_front x) = 52"
  by (simp add: header_front_bytes)

lemma header_split: "header_bytes fc x = header_front x @ soundRegs (bufs x) @ le32 fc @ header_cgb x"
  by (simp add: header_bytes_def header_front_def)

lemma header_length: "wf_gb x \<Longrightarrow> length (header_bytes fc x) = HEADER_SIZE"
  by (simp add: header_split header_cgb_def le32_def HEADER_SIZE_def wf_gb_def wf_bufs_def wf_cgb_def)

lemma header_nth_front: "i < 52 \<Longrightarrow> header_bytes fc x ! i = header_front x ! i"
  by (simp add: header_split nth_append)

lemma sound_length: "wf_gb x \<Longrightarrow> length (soundRegs (bufs x)) = 48"
  using wf_gbD(3) [of x] by (simp add: wf_bufs_def)

lemma header_nth_back:
  assumes "wf_gb x" "100 \<le> i"
  shows "header_bytes fc x ! i = (le32 fc @ header_cgb x) ! (i - 100)"
proof -
  have "\<not> i < 52" "\<not> i - 52 < 48" "i - 52 - 48 = i - 100" using assms(2) by auto
  then show ?thesis unfolding header_split nth_append by (simp add: sound_length [OF assms(1)] nth_append)
qed

lemma header_drop_back:
  assumes "wf_gb x" "100 \<le> i"
  shows "drop i (header_bytes fc x) = drop (i - 100) (le32 fc @ header_cgb x)"
proof -
  have "i - 52 - 48 = i - 100" using assms(2) by auto
  then show ?thesis using assms(2) unfolding header_split by (simp add: sound_length [OF assms(1)])
qed

lemma load_cpu_header: "load_cpu (header_bytes fc x) c = cpu x"
  by (simp add: load_cpu_def word16_def header_nth_front header_front_bytes word16_le16)

lemma load_timer_header: "load_timer (header_bytes fc x) t = timer x"
  by (simp add: load_timer_def word16_def header_nth_front header_front_bytes word16_le16)

lemma load_mbc_header: "mbcType m = mbcType (mbc x) \<Longrightarrow> load_mbc (header_bytes fc x) m = mbc x"
  by (simp add: load_mbc_def word16_def header_nth_front header_front_bytes word16_le16)

text \<open>The picture unit is restored but for the place inside the line and the window's line counter.\<close>

definition restored_lcd :: "lcd_regs \<Rightarrow> lcd_regs \<Rightarrow> lcd_regs" where
  "restored_lcd l old =
     l\<lparr>ppuDots := (if ppuMode l = 3 then 80 else if ppuMode l = 0 \<and> lcdc l AND 0x80 \<noteq> 0 then 252 else 0),
       frameOvershoot := 0, lcdChanged := False, lcdFirstFrame := False,
       renderThisFrame := renderThisFrame old, windowLine := windowLine old\<rparr>"

lemma load_lcd_header: "load_lcd (header_bytes fc x) l = restored_lcd (lcd x) l"
  by (simp add: load_lcd_def restored_lcd_def header_nth_front header_front_bytes)

lemma load_cgb_header:
  assumes "wf_gb x"
  shows "load_cgb (header_bytes fc x) c =
    (cgb x)\<lparr>isCgb := isCgb c, vram1 := vram1 c, wramExtra := wramExtra c,
      wramBank := (if wramBank (cgb x) = 0 then 1 else wramBank (cgb x))\<rparr>"
proof -
  have l: "length (bgPalette (cgb x)) = 64" "length (objPalette (cgb x)) = 64"
    using wf_gbD(2) [OF assms] by (simp_all add: wf_cgb_def)
  show ?thesis
    using l
    by (simp add: load_cgb_def bytes_at_def header_nth_back [OF assms] header_drop_back [OF assms] le32_def header_cgb_def nth_append)
qed

lemma header_rest:
  assumes "wf_gb x"
  shows "header_bytes fc x ! 46 = joypadSelect (joy x)" "header_bytes fc x ! 47 = mbc_byte (mbcType (mbc x))"
    "header_bytes fc x ! 104 = flag_byte (isCgb (cgb x))" "header_bytes fc x ! 244 = sbReg (joy x)"
    "header_bytes fc x ! 245 = scReg (joy x)" "word32 (header_bytes fc x) 100 = fc"
    "bytes_at 52 48 (header_bytes fc x) = soundRegs (bufs x)" "take 4 (header_bytes fc x) = GB_SAVE_MAGIC"
proof -
  have l: "length (bgPalette (cgb x)) = 64" "length (objPalette (cgb x)) = 64" "length (soundRegs (bufs x)) = 48"
    using wf_gbD(2,3) [OF assms] by (simp_all add: wf_cgb_def wf_bufs_def)
  show "header_bytes fc x ! 46 = joypadSelect (joy x)" "header_bytes fc x ! 47 = mbc_byte (mbcType (mbc x))"
    "take 4 (header_bytes fc x) = GB_SAVE_MAGIC"
    by (simp_all add: header_nth_front header_front_bytes header_split)
  show "header_bytes fc x ! 104 = flag_byte (isCgb (cgb x))" "header_bytes fc x ! 244 = sbReg (joy x)"
    "header_bytes fc x ! 245 = scReg (joy x)"
    using l by (simp_all add: header_nth_back [OF assms] le32_def header_cgb_def nth_append)
  show "word32 (header_bytes fc x) 100 = fc"
    by (simp add: word32_def header_nth_back [OF assms] le32_def word32_le32)
  show "bytes_at 52 48 (header_bytes fc x) = soundRegs (bufs x)"
    using l by (simp add: bytes_at_def header_split)
qed

section \<open>The machine a state is loaded into\<close>

text \<open>\<open>y\<close> with everything a state saved from \<open>x\<close> holds.\<close>

definition restored :: "'snd gb \<Rightarrow> 'snd gb \<Rightarrow> 'snd gb" where
  "restored x y =
     (let y = refreshMappedRomBanks (y\<lparr>mbc := mbc x\<rparr>)
      in y\<lparr>cpu := cpu x, lcd := restored_lcd (lcd x) (lcd y), timer := timer x,
           joy := (joy y)\<lparr>joypadSelect := joypadSelect (joy x), sbReg := sbReg (joy x), scReg := scReg (joy x),
             joyDpad := 0x0F, joyButtons := 0x0F\<rparr>,
           cgb := (cgb x)\<lparr>wramBank := (if wramBank (cgb x) = 0 then 1 else wramBank (cgb x)),
             vram1 := (if isCgb (cgb x) then vram1 (cgb x) else vram1 (cgb y)),
             wramExtra := (if isCgb (cgb x) then wramExtra (cgb x) else wramExtra (cgb y))\<rparr>,
           bufs := (bufs y)\<lparr>vram := vram (bufs x), wram := wram (bufs x), oam := oam (bufs x), hram := hram (bufs x),
             sramData := sramData (bufs x), soundRegs := soundRegs (bufs x)\<rparr>\<rparr>)"

text \<open>Machines of the same cartridge in the same mode.\<close>

definition same_machine :: "'snd gb \<Rightarrow> 'snd gb \<Rightarrow> bool" where
  "same_machine x y \<longleftrightarrow>
     mbcType (mbc y) = mbcType (mbc x) \<and> isCgb (cgb y) = isCgb (cgb x) \<and> sramPersistSize (bufs y) = sramPersistSize (bufs x)"

lemma refresh_parts [simp]:
  "cgb (refreshMappedRomBanks s) = cgb s" "bufs (refreshMappedRomBanks s) = bufs s" "lcd (refreshMappedRomBanks s) = lcd s"
  "joy (refreshMappedRomBanks s) = joy s" "cpu (refreshMappedRomBanks s) = cpu s" "mbc (refreshMappedRomBanks s) = mbc s"
  by (simp_all add: refreshMappedRomBanks_def)

lemma restored_ok:
  assumes x: "frame_ok x" and y: "frame_ok y" and same: "same_machine x y" and window: "windowLine (lcd y) = 0"
  shows "frame_ok (restored x y)"
proof -
  have wx: "wf_gb x" "wf_ppu (lcd x)" "f_clean (cpu x)" and wy: "wf_gb y"
    using x y by (simp_all add: frame_ok_def sys_ok_def machine_ok_def)
  note x' = wf_gbD [OF wx(1)] and y' = wf_gbD [OF wy]
  have "wf_ppu (restored_lcd (lcd x) (lcd y))"
    using wx(2) window by (auto simp: wf_ppu_def restored_lcd_def)
  moreover have "wf_gb (restored x y)"
  proof -
    let ?z = "restored x y"
    have parts: "rom ?z = rom (refreshMappedRomBanks (y\<lparr>mbc := mbc x\<rparr>))" "mbc ?z = mbc x" "timer ?z = timer x" "rtc ?z = rtc y"
      "shadeRemap ?z = shadeRemap y" "sramPersistSize (bufs ?z) = sramPersistSize (bufs y)"
      "colorFramebuf (bufs ?z) = colorFramebuf (bufs y)" "isCgb (cgb ?z) = isCgb (cgb x)"
      by (simp_all add: restored_def Let_def refreshMappedRomBanks_def)
    have "wf_rom (rom ?z)" using y'(1) unfolding parts by (simp add: wf_rom_def refreshMappedRomBanks_def)
    moreover have "wf_cgb (cgb ?z)" using x'(2) y'(2) same by (auto simp: restored_def Let_def wf_cgb_def same_machine_def)
    moreover have "wf_bufs (bufs ?z)"
      using x'(3) y'(3) same by (simp add: restored_def Let_def wf_bufs_def same_machine_def refreshMappedRomBanks_def)
    moreover have "mapped0 (rom ?z) = mapped_low ?z" "mapped1 (rom ?z) = mapped_high ?z"
      by (simp_all add: mapped_low_def mapped_high_def parts refreshMappedRomBanks_def)
    moreover have "isCgb (cgb y) = (colorFramebuf (bufs y) \<noteq> None)" using wy by (simp add: wf_gb_def)
    ultimately show ?thesis
      using x'(4,7) y'(5,6,7) same unfolding wf_gb_def parts by (simp add: same_machine_def)
  qed
  moreover have "cpu (restored x y) = cpu x" "lcd (restored x y) = restored_lcd (lcd x) (lcd y)"
    by (simp_all add: restored_def Let_def)
  ultimately show ?thesis
    using wx(3) unfolding frame_ok_def sys_ok_def machine_ok_def by (simp add: restored_lcd_def)
qed

section \<open>Files\<close>

text \<open>From now on every call works.\<close>

definition all_works :: "sdfat \<Rightarrow> bool" where
  "all_works s \<longleftrightarrow> (\<forall>k. sd_calls s \<le> k \<longrightarrow> sd_works s k)"

lemmas sd_defs = sd_call_def sd_set_def sd_exists_def sd_remove_def sd_rename_def sd_create_def sd_append_def sd_sync_def
  sd_open_def sd_read_def sd_size_def

lemma all_works_keep [simp]:
  "all_works s \<Longrightarrow> sd_calls s \<le> n \<Longrightarrow> all_works (s\<lparr>sd_calls := n\<rparr>)" "all_works (s\<lparr>sd_file := f\<rparr>) = all_works s"
  by (simp_all add: all_works_def)

lemma works_run:
  assumes "all_works s"
  shows "sd_exists path s = (sd_file s path \<noteq> None, s\<lparr>sd_calls := sd_calls s + 1\<rparr>)"
    "sd_create path s = (True, s\<lparr>sd_calls := sd_calls s + 1, sd_file := (sd_file s)(path := Some [])\<rparr>)"
    "sd_append path bs s = s\<lparr>sd_calls := sd_calls s + 1, sd_file := (sd_file s)(path := map_option (\<lambda>c. c @ bs) (sd_file s path))\<rparr>"
    "sd_sync path s = s\<lparr>sd_calls := sd_calls s + 1\<rparr>"
    "sd_open path s = (sd_file s path, s\<lparr>sd_calls := sd_calls s + 1\<rparr>)"
    "sd_read n rest s = (take n rest, drop n rest, s\<lparr>sd_calls := sd_calls s + 1\<rparr>)"
    "sd_size rest s = (length rest, s\<lparr>sd_calls := sd_calls s + 1\<rparr>)"
    "sd_remove path s = (sd_file s path \<noteq> None, s\<lparr>sd_calls := sd_calls s + 1, sd_file := (sd_file s)(path := None)\<rparr>)"
  using assms by (auto simp: sd_defs all_works_def fun_upd_idem min_def split: option.split)

text \<open>What the calls do to the files, whether they work or not.\<close>

lemma sd_exists_files: "sd_exists p s = (b, t) \<Longrightarrow> sd_file t = sd_file s \<and> (b \<longrightarrow> sd_file s p \<noteq> None)"
  by (auto simp: sd_defs Let_def)

lemma sd_remove_files: "sd_remove p s = (r, t) \<Longrightarrow> sd_file t = (if r then (sd_file s)(p := None) else sd_file s)"
  by (auto simp: sd_defs Let_def split: if_splits)

lemma sd_rename_files:
  "sd_rename old new s = (r, t) \<Longrightarrow>
   sd_file t = (if r then (sd_file s)(new := sd_file s old, old := None) else sd_file s) \<and> (r \<longrightarrow> sd_file s old \<noteq> None)"
  by (auto simp: sd_defs Let_def split: if_splits)

text \<open>Replacing a file: the new bytes or the old ones are always in one of the two places.\<close>

lemma safeRename_files:
  assumes paths: "tmp \<noteq> path" "bak_path path \<noteq> path" "tmp \<noteq> bak_path path"
    and new: "sd_file s tmp = Some new" and run: "safeRename tmp path s = (ok, t)"
  shows "ok \<Longrightarrow> sd_file t path = Some new"
    and "\<not> ok \<Longrightarrow> sd_file s path = Some old \<Longrightarrow> sd_file t path = Some old \<or> sd_file t (bak_path path) = Some old"
    and "p \<notin> {tmp, path, bak_path path} \<Longrightarrow> sd_file t p = sd_file s p"
proof -
  let ?bak = "bak_path path"
  obtain stale s1 where 1: "sd_exists ?bak s = (stale, s1)" by (cases "sd_exists ?bak s")
  define s2 where "s2 = (if stale then snd (sd_remove ?bak s1) else s1)"
  obtain had s3 where 3: "sd_exists path s2 = (had, s3)" by (cases "sd_exists path s2")
  obtain m u where mu: "sd_rename path ?bak s3 = (m, u)" by (cases "sd_rename path ?bak s3")
  define moved where "moved \<longleftrightarrow> (had \<longrightarrow> m)"
  define s4 where "s4 = (if had then u else s3)"
  have 4: "(if had then sd_rename path ?bak s3 else (True, s3)) = (moved, s4)" by (simp add: mu moved_def s4_def)
  obtain promoted s5 where 5: "sd_rename tmp path s4 = (promoted, s5)" by (cases "sd_rename tmp path s4")
  define s6 where "s6 = (if had then snd (sd_rename ?bak path s5) else s5)"
  have t: "ok = (moved \<and> promoted)"
    "t = (if \<not> moved then snd (sd_remove tmp s4) else if \<not> promoted then snd (sd_remove tmp s6)
          else if had then snd (sd_remove ?bak s5) else s5)"
    using run unfolding safeRename_def Let_def 1 split s2_def [symmetric] 3 4 5 s6_def [symmetric] by (auto split: if_splits)
  obtain r2 t2 where r2: "sd_remove ?bak s1 = (r2, t2)" by (cases "sd_remove ?bak s1")
  obtain r4 t4 where r4: "sd_remove tmp s4 = (r4, t4)" by (cases "sd_remove tmp s4")
  obtain r6 t6 where r6: "sd_remove tmp s6 = (r6, t6)" by (cases "sd_remove tmp s6")
  obtain r5 t5 where r5: "sd_remove ?bak s5 = (r5, t5)" by (cases "sd_remove ?bak s5")
  obtain r7 t7 where r7: "sd_rename ?bak path s5 = (r7, t7)" by (cases "sd_rename ?bak path s5")
  note r = r2 r4 r6 r5 r7
  note files = sd_exists_files [OF 1] sd_exists_files [OF 3] sd_rename_files [OF 5] r(1-4) [THEN sd_remove_files]
    sd_rename_files [OF r(5)]
  have f2: "sd_file s2 = (if stale \<and> r2 then (sd_file s)(?bak := None) else sd_file s)"
    using files by (simp add: s2_def r)
  have f4: "sd_file s4 = (if had \<and> moved then (sd_file s2)(?bak := sd_file s2 path, path := None) else sd_file s2)"
    "had \<Longrightarrow> sd_file s2 path \<noteq> None" "\<not> moved \<Longrightarrow> had"
    using files(2) sd_rename_files [OF mu] by (auto simp: moved_def s4_def)
  have f6: "sd_file s6 = (if had \<and> r7 then (sd_file s5)(path := sd_file s5 ?bak, ?bak := None) else sd_file s5)"
    using files(8) by (simp add: s6_def r)
  show "sd_file t path = Some new" if ok
    using that paths new f2 f4 files(3,7) unfolding t r by (auto split: if_splits)
  show "sd_file t path = Some old \<or> sd_file t ?bak = Some old" if "\<not> ok" "sd_file s path = Some old"
    using that paths f2 f4 f6 files(3,5,6) unfolding t r by (auto split: if_splits)
  show "sd_file t p = sd_file s p" if "p \<notin> {tmp, path, ?bak}"
    using that f2 f4 f6 files(3,5,6,7) unfolding t r by (auto split: if_splits)
qed

lemma works_rename:
  assumes "all_works s" "sd_file s old \<noteq> None" "sd_file s new = None"
  shows "sd_rename old new s = (True, s\<lparr>sd_calls := sd_calls s + 1, sd_file := (sd_file s)(new := sd_file s old, old := None)\<rparr>)"
  using assms by (auto simp: sd_defs all_works_def)

lemma safeRename_works:
  assumes works: "all_works s" and paths: "tmp \<noteq> path" "bak_path path \<noteq> path" "tmp \<noteq> bak_path path"
    and new: "sd_file s tmp = Some new"
  obtains t where "safeRename tmp path s = (True, t)" "all_works t"
proof -
  let ?bak = "bak_path path"
  define s2 where "s2 = (if sd_file s ?bak \<noteq> None then snd (sd_remove ?bak (s\<lparr>sd_calls := sd_calls s + 1\<rparr>))
    else s\<lparr>sd_calls := sd_calls s + 1\<rparr>)"
  have 2: "all_works s2" "sd_file s2 ?bak = None" "sd_file s2 tmp = Some new" "sd_file s2 path = sd_file s path"
    using works paths new by (auto simp: s2_def works_run)
  define s3 where "s3 = s2\<lparr>sd_calls := sd_calls s2 + 1\<rparr>"
  have 3: "all_works s3" "sd_file s3 = sd_file s2" using 2 by (simp_all add: s3_def)
  have run: "safeRename tmp path s =
    (let (moved, s) = (if sd_file s3 path \<noteq> None then sd_rename path ?bak s3 else (True, s3))
     in if \<not> moved then (False, snd (sd_remove tmp s))
        else let (promoted, s) = sd_rename tmp path s
             in if \<not> promoted then
                  let s = (if sd_file s3 path \<noteq> None then snd (sd_rename ?bak path s) else s) in (False, snd (sd_remove tmp s))
                else (True, if sd_file s3 path \<noteq> None then snd (sd_remove ?bak s) else s))"
    unfolding safeRename_def Let_def works_run(1) [OF works] split s2_def [symmetric] works_run(1) [OF 2(1)]
      s3_def [symmetric] 3(2) by (rule refl)
  show thesis
  proof (cases "sd_file s3 path")
    case None
    then show thesis
      using that run works_rename [OF 3(1), of tmp path] 2 3 by simp
  next
    case (Some old)
    define s4 where "s4 = s3\<lparr>sd_calls := sd_calls s3 + 1, sd_file := (sd_file s3)(?bak := sd_file s3 path, path := None)\<rparr>"
    have 4: "sd_rename path ?bak s3 = (True, s4)" "all_works s4" "sd_file s4 tmp = Some new" "sd_file s4 path = None"
      using works_rename [OF 3(1), of path ?bak] Some 2 3 paths by (simp_all add: s4_def)
    then show thesis using that run works_rename [OF 4(2), of tmp path] Some works_run(8) by simp
  qed
qed

lemma fold_append:
  assumes "all_works s" "sd_file s tmp = Some c"
  shows "sd_file (fold (sd_append tmp) bs s) = (sd_file s)(tmp := Some (c @ concat bs)) \<and> all_works (fold (sd_append tmp) bs s)"
  using assms
proof (induction bs arbitrary: s c)
  case (Cons b bs)
  have b: "sd_file (sd_append tmp b s) = (sd_file s)(tmp := Some (c @ b))" "all_works (sd_append tmp b s)"
    using Cons.prems by (simp_all add: works_run)
  have "sd_file (sd_append tmp b s) tmp = Some (c @ b)" unfolding b(1) by simp
  from Cons.IH [OF b(2) this] show ?case unfolding b(1) fun_upd_upd by simp
qed (simp add: fun_upd_idem)

text \<open>The names of the temporary and the backup file are not cut off up to 79 characters.\<close>

lemma save_paths:
  assumes "length path \<le> 79"
  shows "buildTmpPath path 84 = path @ ''.tmp''" "bak_path path = path @ ''.bak''"
    "buildTmpPath path 84 \<noteq> path" "bak_path path \<noteq> path" "buildTmpPath path 84 \<noteq> bak_path path"
  using assms by (simp_all add: buildTmpPath_def bak_path_def)

text \<open>Writing a file the safe way, on a card that works.\<close>

lemma write_safely:
  assumes "all_works s" "length path \<le> 79"
  obtains t u where "sd_create (buildTmpPath path 84) s = (True, t)"
    "safeRename (buildTmpPath path 84) path (sd_sync (buildTmpPath path 84) (fold (sd_append (buildTmpPath path 84)) bs t)) = (True, u)"
    "all_works u" "sd_file u path = Some (concat bs)"
proof -
  let ?tmp = "buildTmpPath path 84"
  define t where "t = s\<lparr>sd_calls := sd_calls s + 1, sd_file := (sd_file s)(?tmp := Some [])\<rparr>"
  have t: "sd_create ?tmp s = (True, t)" "all_works t" "sd_file t ?tmp = Some []"
    using assms(1) by (simp_all add: t_def works_run)
  define v where "v = sd_sync ?tmp (fold (sd_append ?tmp) bs t)"
  have v: "all_works v" "sd_file v ?tmp = Some (concat bs)"
    using fold_append [OF t(2,3), of bs] by (simp_all add: v_def works_run)
  note paths = save_paths(3-5) [OF assms(2)]
  obtain u where u: "safeRename ?tmp path v = (True, u)" "all_works u"
    by (rule safeRename_works [OF v(1) paths v(2)])
  have "sd_file u path = Some (concat bs)" using safeRename_files(1) [OF paths v(2) u(1)] by simp
  then show thesis using that t(1) u unfolding v_def by blast
qed

section \<open>Save states\<close>

lemma load_part_works:
  assumes "all_works s" "length b = n" "length (get x) = n"
  shows "load_part get put n (True, x, b @ rest, s) = (True, put b x, rest, s\<lparr>sd_calls := sd_calls s + 1\<rparr>)"
  using assms by (simp add: load_part_def read_exact_def works_run(6))

lemma load_body_works:
  assumes x: "wf_gb x" and z: "wf_bufs (bufs z)" "wf_cgb (cgb z)" "isCgb (cgb z) = isCgb (cgb x)"
    and sram: "sramSize (bufs z) = sramSize (bufs x)" and s: "all_works s" and b: "b ! 104 = flag_byte (isCgb (cgb x))"
  obtains t where "load_body b (z, concat (state_parts x), s) =
    (True, z\<lparr>bufs := (bufs z)\<lparr>vram := vram (bufs x), wram := wram (bufs x), oam := oam (bufs x), hram := hram (bufs x),
        sramData := sramData (bufs x)\<rparr>,
      cgb := (cgb z)\<lparr>vram1 := (if isCgb (cgb x) then vram1 (cgb x) else vram1 (cgb z)),
        wramExtra := (if isCgb (cgb x) then wramExtra (cgb x) else wramExtra (cgb z))\<rparr>\<rparr>, [], t)"
proof -
  have lx: "length (vram (bufs x)) = GB_VRAM_SIZE" "length (wram (bufs x)) = GB_WRAM_SIZE" "length (oam (bufs x)) = 0xA0"
    "length (hram (bufs x)) = 0x80" "length (sramData (bufs x)) = sramSize (bufs x)"
    using wf_gbD(3) [OF x] by (simp_all add: wf_bufs_def)
  have lz: "length (vram (bufs z)) = GB_VRAM_SIZE" "length (wram (bufs z)) = GB_WRAM_SIZE" "length (oam (bufs z)) = 0xA0"
    "length (hram (bufs z)) = 0x80" "length (sramData (bufs z)) = sramSize (bufs z)"
    using z(1) by (simp_all add: wf_bufs_def)
  have last: "load_part get put n (True, u, b, t) = (True, put b u, [], t\<lparr>sd_calls := sd_calls t + 1\<rparr>)"
    if "all_works t" "length b = n" "length (get u) = n" for get put n u b t
    using load_part_works [of t b n get u put "[]"] that by simp
  show thesis
  proof (cases "isCgb (cgb x)")
    case False
    then show thesis
      using that b z(3) s lx lz sram
      by (simp add: load_body_def state_parts_def load_part_works last put_bufs_def Let_def)
  next
    case True
    then obtain v w v' w' where c: "vram1 (cgb x) = Some v" "wramExtra (cgb x) = Some w" "length v = 0x2000" "length w = 0x6000"
      "vram1 (cgb z) = Some v'" "wramExtra (cgb z) = Some w'" "length v' = 0x2000" "length w' = 0x6000"
      using wf_gbD(2) [OF x] z(2,3) by (auto simp: wf_cgb_def)
    show thesis
      using that b z(3) s lx lz sram c True
      by (simp add: load_body_def state_parts_def load_part_works last put_bufs_def Let_def)
  qed
qed

lemma loaded_state:
  assumes x: "wf_gb x" and y: "wf_gb y" and same: "same_machine x y"
  shows "(let z = load_header (header_bytes fc x) y;
      z = z\<lparr>bufs := (bufs z)\<lparr>vram := vram (bufs x), wram := wram (bufs x), oam := oam (bufs x), hram := hram (bufs x),
          sramData := sramData (bufs x)\<rparr>,
        cgb := (cgb z)\<lparr>vram1 := (if isCgb (cgb x) then vram1 (cgb x) else vram1 (cgb z)),
          wramExtra := (if isCgb (cgb x) then wramExtra (cgb x) else wramExtra (cgb z))\<rparr>\<rparr>
    in z\<lparr>joy := (joy z)\<lparr>joyDpad := 0x0F, joyButtons := 0x0F\<rparr>\<rparr>) = restored x y"
  using same
  by (simp add: load_header_def restored_def Let_def load_cpu_header load_timer_header load_mbc_header load_lcd_header
      load_cgb_header [OF x] header_rest [OF x] same_machine_def refreshMappedRomBanks_def mapped_low_def mapped_high_def)

lemma state_saved:
  assumes "all_works s" "length path \<le> 79"
  obtains t where "saveState path fc x s = (True, t)" "all_works t" "sd_file t path = Some (header_bytes fc x @ concat (state_parts x))"
proof -
  obtain t u where "sd_create (buildTmpPath path 84) s = (True, t)"
    "safeRename (buildTmpPath path 84) path (sd_sync (buildTmpPath path 84)
      (fold (sd_append (buildTmpPath path 84)) (header_bytes fc x # state_parts x) t)) = (True, u)"
    "all_works u" "sd_file u path = Some (concat (header_bytes fc x # state_parts x))"
    by (rule write_safely [OF assms])
  then show thesis using that by (simp add: saveState_def)
qed

text \<open>Loading what was saved gives the saved machine, two frames on.\<close>

lemma state_loaded:
  assumes x: "frame_ok x" and y: "frame_ok y" and same: "same_machine x y" and window: "windowLine (lcd y) = 0"
    and s: "all_works s" "sd_file s path = Some (header_bytes fc x @ concat (state_parts x))"
  obtains z t where "loadState path f y s = Some (True, fc, z, t)" "frame_ok z" "runFrame (restored x y) \<bind> runFrame = Some z"
proof -
  have wx: "wf_gb x" and wy: "wf_gb y" using x y by (simp_all add: frame_ok_def sys_ok_def machine_ok_def)
  let ?b = "header_bytes fc x"
  let ?h = "load_header ?b y"
  note len = header_length [OF wx, of fc] and rest = header_rest [OF wx, of fc]
  have bufs_h: "bufs ?h = (bufs y)\<lparr>soundRegs := soundRegs (bufs x)\<rparr>"
    by (simp add: load_header_def Let_def rest)
  have cgb_h: "cgb ?h = (cgb x)\<lparr>isCgb := isCgb (cgb y), vram1 := vram1 (cgb y), wramExtra := wramExtra (cgb y),
      wramBank := (if wramBank (cgb x) = 0 then 1 else wramBank (cgb x))\<rparr>"
    by (simp add: load_header_def Let_def load_cgb_header [OF wx])
  have z: "wf_bufs (bufs ?h)" "wf_cgb (cgb ?h)" "isCgb (cgb ?h) = isCgb (cgb x)" "sramSize (bufs ?h) = sramSize (bufs x)"
    using wf_gbD(2,3) [OF wx] wf_gbD(2,3) [OF wy] same unfolding bufs_h cgb_h
    by (simp_all add: wf_bufs_def wf_cgb_def same_machine_def)
  define s3 where "s3 = s\<lparr>sd_calls := Suc (Suc (Suc (sd_calls s)))\<rparr>"
  have s3: "all_works s3" using s(1) by (simp add: s3_def)
  obtain t where t: "load_body ?b (?h, concat (state_parts x), s3) =
    (True, ?h\<lparr>bufs := (bufs ?h)\<lparr>vram := vram (bufs x), wram := wram (bufs x), oam := oam (bufs x), hram := hram (bufs x),
        sramData := sramData (bufs x)\<rparr>,
      cgb := (cgb ?h)\<lparr>vram1 := (if isCgb (cgb x) then vram1 (cgb x) else vram1 (cgb ?h)),
        wramExtra := (if isCgb (cgb x) then wramExtra (cgb x) else wramExtra (cgb ?h))\<rparr>\<rparr>, [], t)"
    by (rule load_body_works [OF wx z s3 rest(3)])
  obtain u where u: "runFrame (restored x y) = Some u" "frame_ok u"
    using runFrame_ok [OF restored_ok [OF x y same window]] by (auto simp: okp_iff)
  obtain v where v: "runFrame u = Some v" "frame_ok v" using runFrame_ok [OF u(2)] by (auto simp: okp_iff)
  have "loadState path f y s = Some (True, fc, v, t)"
    using s same len rest t loaded_state [OF wx wy same, of fc] u(1) v(1)
    by (simp add: loadState_def works_run s3_def [symmetric] same_machine_def Let_def)
  then show thesis using that u v by simp
qed

section \<open>Save files\<close>

lemma sram_file_roundtrip:
  assumes x: "wf_gb x" and y: "wf_gb y" and sram: "sramSize (bufs y) = sramSize (bufs x)" and s: "all_works s" "length path \<le> 79"
  obtains t u where "saveSRAM path x s = (True, t)"
    "loadSRAM path y t = (True, y\<lparr>bufs := (bufs y)\<lparr>sramData := sramData (bufs x)\<rparr>,
       rtc := (rtc y)\<lparr>rtcSec := rtcSec (rtc x), rtcMin := rtcMin (rtc x), rtcHour := rtcHour (rtc x), rtcDay := rtcDay (rtc x),
         rtcDayHi := rtcDayHi (rtc x), rtcLatched := rtcLatched (rtc x)\<rparr>\<rparr>, u)"
proof -
  obtain r t where w: "sd_create (buildTmpPath path 84) s = (True, r)"
    "safeRename (buildTmpPath path 84) path (sd_sync (buildTmpPath path 84)
      (fold (sd_append (buildTmpPath path 84)) [sramData (bufs x), rtc_blob (rtc x)] r)) = (True, t)"
    "all_works t" "sd_file t path = Some (concat [sramData (bufs x), rtc_blob (rtc x)])"
    by (rule write_safely [OF s])
  have l: "length (sramData (bufs x)) = sramSize (bufs x)" "length (sramData (bufs y)) = sramSize (bufs x)" "length (rtcLatched (rtc x)) = 5"
    using wf_gbD(3,5) [OF x] wf_gbD(3) [OF y] sram by (simp_all add: wf_bufs_def)
  have "saveSRAM path x s = (True, t)" using w(1,2) by (simp add: saveSRAM_def)
  moreover have "\<exists>u. loadSRAM path y t = (True, y\<lparr>bufs := (bufs y)\<lparr>sramData := sramData (bufs x)\<rparr>,
       rtc := (rtc y)\<lparr>rtcSec := rtcSec (rtc x), rtcMin := rtcMin (rtc x), rtcHour := rtcHour (rtc x), rtcDay := rtcDay (rtc x),
         rtcDayHi := rtcDayHi (rtc x), rtcLatched := rtcLatched (rtc x)\<rparr>\<rparr>, u)"
    using w(3,4) l sram by (simp add: loadSRAM_def works_run rtc_blob_def)
  ultimately show thesis using that by blast
qed

section \<open>What goes wrong\<close>

text \<open>\<open>saveState\<close> ignores what its writes return: with the header lost it still replaces the good state,
  and reports success.\<close>

lemma torn_state_replaces_good:
  assumes "sd_calls s = 0" "\<And>k. sd_works s k = (k \<noteq> 1)" "sd_kept s 1 = 0" "length path \<le> 79"
  shows "\<exists>t. saveState path fc x s = (True, t) \<and> sd_file t path = Some (concat (state_parts x))"
proof -
  let ?tmp = "buildTmpPath path 84"
  define t where "t = s\<lparr>sd_calls := 2, sd_file := (sd_file s)(?tmp := Some [])\<rparr>"
  have run: "sd_create ?tmp s = (True, s\<lparr>sd_calls := 1, sd_file := (sd_file s)(?tmp := Some [])\<rparr>)"
    "sd_append ?tmp h (s\<lparr>sd_calls := 1, sd_file := (sd_file s)(?tmp := Some [])\<rparr>) = t" for h
    using assms by (simp_all add: sd_defs t_def)
  have t: "all_works t" "sd_file t ?tmp = Some []" using assms by (simp_all add: t_def all_works_def)
  define v where "v = sd_sync ?tmp (fold (sd_append ?tmp) (state_parts x) t)"
  have v: "all_works v" "sd_file v ?tmp = Some (concat (state_parts x))"
    using fold_append [OF t, of "state_parts x"] by (simp_all add: v_def works_run)
  note paths = save_paths(3-5) [OF assms(4)]
  obtain u where u: "safeRename ?tmp path v = (True, u)" by (rule safeRename_works [OF v(1) paths v(2)])
  have "saveState path fc x s = (True, u)" using u run by (simp add: saveState_def v_def)
  then show ?thesis using safeRename_files(1) [OF paths v(2) u] by simp
qed

text \<open>If the last save was cut off after its first rename, only the backup is left; the next save removes it
  first, and when its own rename then fails nothing is left.\<close>

lemma stale_backup_lost:
  assumes "sd_file s path = None" "sd_file s (bak_path path) \<noteq> None" "sd_file s tmp \<noteq> None"
    and "sd_calls s = 0" "\<And>k. sd_works s k = (k \<noteq> 3)" "tmp \<noteq> path" "bak_path path \<noteq> path" "tmp \<noteq> bak_path path"
  shows "\<exists>t. safeRename tmp path s = (False, t) \<and> sd_file t path = None \<and> sd_file t (bak_path path) = None \<and> sd_file t tmp = None"
  using assms by (simp add: safeRename_def sd_defs Let_def)

text \<open>A state cut off after its header is refused, but by then the registers are overwritten.\<close>

lemma truncated_state_half_loaded:
  fixes x y :: "'snd gb"
  assumes "wf_gb x" "wf_gb y" "mbcType (mbc y) = mbcType (mbc x)" "all_works s" "sd_file s path = Some (header_bytes fc x)"
  shows "\<exists>z t. loadState path f y s = Some (False, fc, z, t) \<and> cpu z = cpu x \<and> sd_file t path = None"
proof -
  note len = header_length [OF assms(1), of fc] and rest = header_rest [OF assms(1), of fc]
  have short: "\<exists>u t. load_body b (z, [], s) = (False, u, [], t) \<and> cpu u = cpu z \<and> all_works t \<and> sd_file t = sd_file s"
    if "all_works s" for b and z :: "'snd gb" and s
    using that by (simp add: load_body_def load_part_def read_exact_def works_run put_bufs_def GB_VRAM_SIZE_def Let_def)
  define s3 where "s3 = s\<lparr>sd_calls := Suc (Suc (Suc (sd_calls s)))\<rparr>"
  have "all_works s3" using assms(4) by (simp add: s3_def)
  then obtain u t where u: "load_body (header_bytes fc x) (load_header (header_bytes fc x) y, [], s3) = (False, u, [], t)"
    "cpu u = cpu (load_header (header_bytes fc x) y)" "all_works t" "sd_file t = sd_file s3"
    using short [of s3 "header_bytes fc x" "load_header (header_bytes fc x) y"] by blast
  moreover have "cpu (load_header (header_bytes fc x) y) = cpu x"
    by (simp add: load_header_def Let_def load_cpu_header)
  ultimately show ?thesis
    using assms len rest
    by (simp add: loadState_def works_run s3_def [symmetric])
qed

text \<open>The work RAM bank of a state is not checked: with bank 9 the next access to the window leaves the buffer.\<close>

lemma state_bank_unchecked:
  assumes "wf_gb y" "isCgb (cgb y)" "b ! 106 = 9"
  shows "readByte 0xD000 (load_header b y) = None"
proof -
  obtain w where w: "wramExtra (cgb y) = Some w" "length w = 0x6000"
    using wf_gbD(2) [OF assms(1)] assms(2) by (auto simp: wf_cgb_def)
  define z where "z = load_header b y"
  have z: "isCgb (cgb z)" "wramBank (cgb z) = 9" "wramExtra (cgb z) = Some w"
    using assms(2,3) w(1) by (simp_all add: z_def load_header_def load_cgb_def Let_def)
  have "read_wram 0xD000 z = None" using z w(2) by (simp add: read_wram_def mem_get_def)
  then show ?thesis unfolding z_def [symmetric] using z by (simp add: readByte_def readByteSlow_def pure_read_def)
qed

end
