(* ===== verification/State_Properties.thy ===== *)
theory State_Properties
  imports Emu_Saves_Works Emu_Properties
begin

text \<open>
  The properties of save states: what a rename of files keeps, and what a saved state gives back.
\<close>

definition demo_card :: "(nat \<Rightarrow> bool) \<Rightarrow> sdfat" where
  "demo_card works = \<lparr>sd_file = [''g.st'' \<mapsto> [1], ''g.st.tmp'' \<mapsto> [2]], sd_calls = 0, sd_works = works, sd_kept = (\<lambda>_. 0),
     sd_replaces = False\<rparr>"

text \<open>C38.  Replacing a file loses neither version.  Whatever calls fail, and wherever the power is cut, after
  \<open>safeRename\<close> the file or its backup holds the old bytes, or the file holds the new ones; success means
  the new ones; a call that works throughout succeeds; no other file is touched.\<close>

theorem rename_keeps_a_copy:
  assumes "tmp \<noteq> path" "bak_path path \<noteq> path" "tmp \<noteq> bak_path path" "sd_file s tmp = Some new" "sd_file s path = Some old"
  shows "\<exists>ok t. safeRename tmp path s = (ok, t) \<and>
    (if ok then sd_file t path = Some new else sd_file t path = Some old \<or> sd_file t (bak_path path) = Some old) \<and>
    (all_works s \<longrightarrow> ok) \<and> (\<forall>p. p = tmp \<or> p = path \<or> p = bak_path path \<or> sd_file t p = sd_file s p)"
proof -
  obtain ok t where r: "safeRename tmp path s = (ok, t)" by (cases "safeRename tmp path s")
  note files = safeRename_files [OF assms(1-4) r]
  have "all_works s \<longrightarrow> ok" using safeRename_works [OF _ assms(1-4)] r by fastforce
  then show ?thesis using r files assms(5) by (intro exI [of _ ok] exI [of _ t]) auto
qed

lemma rename_keeps_a_copy_witness:
  "\<exists>ok t. safeRename ''g.st.tmp'' ''g.st'' (demo_card (\<lambda>k. k < 3)) = (ok, t) \<and>
    (if ok then sd_file t ''g.st'' = Some [2] else sd_file t ''g.st'' = Some [1] \<or> sd_file t ''g.st.bak'' = Some [1])"
proof -
  have p: "''g.st.tmp'' \<noteq> ''g.st''" "bak_path ''g.st'' \<noteq> ''g.st''" "''g.st.tmp'' \<noteq> bak_path ''g.st''" "bak_path ''g.st'' = ''g.st.bak''"
    by (simp_all add: bak_path_def)
  have f: "sd_file (demo_card (\<lambda>k. k < 3)) ''g.st.tmp'' = Some [2]" "sd_file (demo_card (\<lambda>k. k < 3)) ''g.st'' = Some [1]"
    by (simp_all add: demo_card_def)
  from rename_keeps_a_copy [OF p(1-3) f] show ?thesis unfolding p(4) by blast
qed



end
