(* ===== verification/Gamepad_Discovery.thy ===== *)
theory Gamepad_Discovery
  imports Fw_Base
begin

text \<open>
  The list of controllers found while pairing and the one selected (main/gamepad_discovery.c): every
  operation, the invariant it keeps, and three facts the pairing screen relies on: names are cut
  between characters, an entry keeps its place while devices report, and every change is announced
  by the revision counter.  The candidate array has its eight slots; a C string is its bytes.
\<close>

section \<open>State\<close>

definition GAMEPAD_DISCOVERY_MAX :: nat where "GAMEPAD_DISCOVERY_MAX = 8"

text \<open>The size of the array that holds a candidate's name.\<close>

definition CANDIDATE_NAME :: nat where "CANDIDATE_NAME = 32"

type_synonym bd_addr = "u8 list"

definition empty_address :: bd_addr where "empty_address = replicate 6 0"

record gamepad_candidate =
  cand_address :: bd_addr
  cand_name :: cstring
  cand_keyboard :: bool
  cand_type_pending :: bool

definition blank_candidate :: gamepad_candidate where
  "blank_candidate = \<lparr>cand_address = empty_address, cand_name = [], cand_keyboard = False, cand_type_pending = False\<rparr>"

record gamepad_discovery =
  gd_candidates :: "gamepad_candidate list"
  gd_count :: nat
  gd_selected :: bool
  gd_selected_address :: bd_addr
  gd_passkey_visible :: bool
  gd_passkey :: u32
  gd_pairing_failed :: bool
  gd_iine_pending :: bool
  gd_iine_requested :: bool
  gd_iine_firmware :: u16
  gd_revision :: u32

text \<open>The static \<open>s_discovery\<close>, zeroed at start.\<close>

definition no_discovery :: gamepad_discovery where
  "no_discovery = \<lparr>gd_candidates = replicate GAMEPAD_DISCOVERY_MAX blank_candidate, gd_count = 0, gd_selected = False,
     gd_selected_address = empty_address, gd_passkey_visible = False, gd_passkey = 0, gd_pairing_failed = False,
     gd_iine_pending = False, gd_iine_requested = False, gd_iine_firmware = 0, gd_revision = 0\<rparr>"

definition revised :: "gamepad_discovery \<Rightarrow> gamepad_discovery" where
  "revised d = d\<lparr>gd_revision := gd_revision d + 1\<rparr>"

definition set_candidate :: "nat \<Rightarrow> gamepad_candidate \<Rightarrow> gamepad_discovery \<Rightarrow> gamepad_discovery" where
  "set_candidate i c d = d\<lparr>gd_candidates := (gd_candidates d)[i := c]\<rparr>"

section \<open>Operations\<close>

text \<open>The byte at a position is a UTF-8 continuation byte.\<close>

definition continues :: "u8 \<Rightarrow> bool" where
  "continues b \<longleftrightarrow> b AND 0xc0 = 0x80"

fun cut_back :: "cstring \<Rightarrow> nat \<Rightarrow> nat" where
  "cut_back name 0 = 0"
| "cut_back name (Suc n) = (if continues (name ! Suc n) then cut_back name n else Suc n)"

definition gamepad_copy_name :: "cstring \<Rightarrow> nat \<Rightarrow> cstring option \<Rightarrow> cstring" where
  "gamepad_copy_name out capacity name =
     (if capacity = 0 then out
      else let s = (case name of None \<Rightarrow> [] | Some s \<Rightarrow> s);
               len = (if capacity \<le> length s then cut_back s (capacity - 1) else length s)
           in take len s)"

fun find_candidate :: "nat list \<Rightarrow> bd_addr \<Rightarrow> gamepad_discovery \<Rightarrow> nat option" where
  "find_candidate [] address d = None"
| "find_candidate (i # is) address d =
     (if cand_address (gd_candidates d ! i) = address then Some i else find_candidate is address d)"

definition refresh_kind :: "nat \<Rightarrow> bool \<Rightarrow> bool \<Rightarrow> gamepad_discovery \<Rightarrow> gamepad_discovery" where
  "refresh_kind i keyboard hid_probe d =
     (let c = gd_candidates d ! i in
      if cand_keyboard c \<noteq> keyboard \<or> cand_type_pending c \<noteq> hid_probe
      then revised (set_candidate i (c\<lparr>cand_keyboard := keyboard, cand_type_pending := hid_probe\<rparr>) d)
      else d)"

definition refresh_name :: "nat \<Rightarrow> cstring option \<Rightarrow> gamepad_discovery \<Rightarrow> gamepad_discovery" where
  "refresh_name i name d =
     (let c = gd_candidates d ! i; shortened = gamepad_copy_name [] CANDIDATE_NAME name in
      if shortened \<noteq> [] \<and> cand_name c \<noteq> shortened
      then revised (set_candidate i
             (c\<lparr>cand_name := gamepad_copy_name (cand_name c) CANDIDATE_NAME (Some shortened)\<rparr>) d)
      else d)"

definition new_candidate :: "bd_addr \<Rightarrow> bool \<Rightarrow> bool \<Rightarrow> cstring option \<Rightarrow> gamepad_candidate \<Rightarrow> gamepad_candidate" where
  "new_candidate address keyboard hid_probe name c =
     (let c = c\<lparr>cand_address := address, cand_keyboard := keyboard, cand_type_pending := hid_probe\<rparr> in
      if name \<noteq> None then c\<lparr>cand_name := gamepad_copy_name (cand_name c) CANDIDATE_NAME name\<rparr> else c)"

definition gamepad_discovery_observe ::
    "bd_addr \<Rightarrow> u16 \<Rightarrow> cstring option \<Rightarrow> gamepad_discovery \<Rightarrow> bool \<times> gamepad_discovery" where
  "gamepad_discovery_observe address cod name d =
     (let keyboard = cod AND 0x1fc0 = 0x0540;
          gamepad = cod = 0x0508 \<or> cod = 0x0504;
          hid_probe = cod = 0x0500
      in if \<not> keyboard \<and> \<not> gamepad \<and> \<not> hid_probe then (False, d)
         else case find_candidate [0..<gd_count d] address d of
           Some i \<Rightarrow> (True, refresh_name i name (refresh_kind i keyboard hid_probe d))
         | None \<Rightarrow>
             if gd_count d = GAMEPAD_DISCOVERY_MAX then (False, d)
             else let i = gd_count d;
                      c = new_candidate address keyboard hid_probe name (gd_candidates d ! i)
                  in (True, revised (set_candidate i c (d\<lparr>gd_count := i + 1\<rparr>))))"

text \<open>What selecting and cancelling both reset.\<close>

definition reset_pairing :: "gamepad_discovery \<Rightarrow> gamepad_discovery" where
  "reset_pairing d = d\<lparr>gd_iine_pending := False, gd_iine_requested := False, gd_iine_firmware := 0,
     gd_passkey_visible := False, gd_passkey := 0, gd_pairing_failed := False\<rparr>"

definition gamepad_discovery_select :: "nat \<Rightarrow> gamepad_discovery \<Rightarrow> bool \<times> gamepad_discovery" where
  "gamepad_discovery_select index d =
     (if gd_count d \<le> index then (False, d)
      else (True, revised (reset_pairing
             (d\<lparr>gd_selected_address := cand_address (gd_candidates d ! index), gd_selected := True\<rparr>))))"

definition gamepad_discovery_begin_scan :: "gamepad_discovery \<Rightarrow> gamepad_discovery" where
  "gamepad_discovery_begin_scan d =
     (if gd_selected d \<or> gd_count d = 0 then d
      else revised (d\<lparr>gd_candidates := replicate GAMEPAD_DISCOVERY_MAX blank_candidate, gd_count := 0\<rparr>))"

definition gamepad_discovery_clear_selection :: "gamepad_discovery \<Rightarrow> gamepad_discovery" where
  "gamepad_discovery_clear_selection d =
     revised (gamepad_discovery_begin_scan
       ((reset_pairing (d\<lparr>gd_selected := False\<rparr>))\<lparr>gd_selected_address := empty_address\<rparr>))"

definition gamepad_discovery_should_connect :: "gamepad_discovery \<Rightarrow> bd_addr \<Rightarrow> bool" where
  "gamepad_discovery_should_connect d address \<longleftrightarrow> gd_selected d \<and> gd_selected_address d = address"

definition gamepad_discovery_passkey :: "bd_addr \<Rightarrow> u32 \<Rightarrow> gamepad_discovery \<Rightarrow> gamepad_discovery" where
  "gamepad_discovery_passkey address passkey d =
     (if \<not> gamepad_discovery_should_connect d address \<or> 999999 < passkey then d
      else revised (d\<lparr>gd_passkey_visible := True, gd_passkey := passkey, gd_pairing_failed := False\<rparr>))"

definition gamepad_discovery_pairing_done :: "bd_addr \<Rightarrow> bool \<Rightarrow> gamepad_discovery \<Rightarrow> gamepad_discovery" where
  "gamepad_discovery_pairing_done address success d =
     (if \<not> gamepad_discovery_should_connect d address then d
      else
        let d = d\<lparr>gd_passkey_visible := False, gd_passkey := 0, gd_pairing_failed := \<not> success\<rparr>;
            d = (if \<not> success
                 then d\<lparr>gd_iine_pending := False, gd_iine_requested := False, gd_iine_firmware := 0\<rparr> else d)
        in revised d)"

definition gamepad_discovery_iine_confirmation :: "bd_addr \<Rightarrow> bool \<Rightarrow> u16 \<Rightarrow> gamepad_discovery \<Rightarrow> gamepad_discovery" where
  "gamepad_discovery_iine_confirmation address pending firmware d =
     (if \<not> gamepad_discovery_should_connect d address then d
      else revised (d\<lparr>gd_iine_pending := pending, gd_iine_requested := False, gd_iine_firmware := firmware\<rparr>))"

definition gamepad_discovery_confirm_iine :: "gamepad_discovery \<Rightarrow> bool \<times> gamepad_discovery" where
  "gamepad_discovery_confirm_iine d =
     (if \<not> gd_selected d \<or> \<not> gd_iine_pending d \<or> gd_iine_requested d then (False, d)
      else (True, revised (d\<lparr>gd_iine_requested := True\<rparr>)))"

text \<open>The operations as events: what the devices report, and what the user does.\<close>

datatype device_event =
    Observe bd_addr u16 "cstring option"
  | Passkey bd_addr u32
  | Pairing_done bd_addr bool
  | Iine_confirmation bd_addr bool u16

datatype discovery_op = Device device_event | Select nat | Begin_scan | Clear_selection | Confirm_iine

fun device_step :: "device_event \<Rightarrow> gamepad_discovery \<Rightarrow> gamepad_discovery" where
  "device_step (Observe a cod name) d = snd (gamepad_discovery_observe a cod name d)"
| "device_step (Passkey a key) d = gamepad_discovery_passkey a key d"
| "device_step (Pairing_done a success) d = gamepad_discovery_pairing_done a success d"
| "device_step (Iine_confirmation a pending fw) d = gamepad_discovery_iine_confirmation a pending fw d"

fun discovery_step :: "discovery_op \<Rightarrow> gamepad_discovery \<Rightarrow> gamepad_discovery" where
  "discovery_step (Device e) d = device_step e d"
| "discovery_step (Select i) d = snd (gamepad_discovery_select i d)"
| "discovery_step Begin_scan d = gamepad_discovery_begin_scan d"
| "discovery_step Clear_selection d = gamepad_discovery_clear_selection d"
| "discovery_step Confirm_iine d = snd (gamepad_discovery_confirm_iine d)"

section \<open>Names\<close>

text \<open>A character of a well-formed string: one byte that starts it, and continuation bytes.\<close>

definition whole_char :: "u8 list \<Rightarrow> bool" where
  "whole_char c \<longleftrightarrow> c \<noteq> [] \<and> \<not> continues (hd c) \<and> (\<forall>b \<in> set (tl c). continues b)"

lemma cut_back_le: "cut_back name n \<le> n"
  by (induction n) (auto intro: le_SucI)

lemma cut_back_stops: "cut_back name n = 0 \<or> \<not> continues (name ! cut_back name n)"
  by (induction n) auto

lemma cut_back_skips: "cut_back name n < i \<Longrightarrow> i \<le> n \<Longrightarrow> continues (name ! i)"
  by (induction n) (auto simp: le_Suc_eq split: if_splits)

text \<open>Position \<open>i\<close> of a string of whole characters starts a character iff its byte does not continue one.\<close>

lemma char_start:
  assumes "\<forall>c \<in> set cs. whole_char c" "i < length (concat cs)"
  shows "\<not> continues (concat cs ! i) \<longleftrightarrow> (\<exists>k < length cs. i = length (concat (take k cs)))"
  using assms
proof (induction cs arbitrary: i)
  case (Cons c cs)
  have c: "c \<noteq> []" "\<not> continues (hd c)" "\<forall>b \<in> set (tl c). continues b"
    using Cons.prems(1) by (auto simp: whole_char_def)
  have split: "(\<exists>k < length (c # cs). i = length (concat (take k (c # cs)))) \<longleftrightarrow>
      i = 0 \<or> (\<exists>k < length cs. i = length c + length (concat (take k cs)))"
    by (auto simp: less_Suc_eq_0_disj)
  show ?case
  proof (cases "i < length c")
    case True
    have "concat (c # cs) ! i = c ! i" using True by (simp add: nth_append)
    moreover have "continues (c ! i) \<longleftrightarrow> i \<noteq> 0"
    proof (cases i)
      case 0
      then show ?thesis using c by (simp add: hd_conv_nth)
    next
      case (Suc j)
      then have "c ! i \<in> set (tl c)" using True by (auto simp: nth_tl [symmetric] intro!: nth_mem)
      then show ?thesis using c(3) Suc by simp
    qed
    ultimately show ?thesis unfolding split using True by auto
  next
    case False
    then have "concat (c # cs) ! i = concat cs ! (i - length c)" by (simp add: nth_append)
    moreover have "i - length c < length (concat cs)" using Cons.prems(2) False by simp
    moreover have "i \<noteq> 0" using False c(1) by (cases i) simp_all
    ultimately show ?thesis unfolding split using Cons.IH [of "i - length c"] Cons.prems(1) False
      by (auto simp: le_add_diff_inverse2)
  qed
qed simp

text \<open>A name that is too long is cut to the most whole characters that fit, never inside one.\<close>

lemma copy_name_whole:
  assumes cs: "\<forall>c \<in> set cs. whole_char c" and cap: "0 < capacity"
  shows "\<exists>k \<le> length cs. gamepad_copy_name out capacity (Some (concat cs)) = concat (take k cs) \<and>
    length (concat (take k cs)) < capacity \<and> (k < length cs \<longrightarrow> capacity \<le> length (concat (take (Suc k) cs)))"
proof (cases "capacity \<le> length (concat cs)")
  case False
  then show ?thesis by (intro exI [of _ "length cs"]) (simp add: gamepad_copy_name_def)
next
  case True
  let ?s = "concat cs" and ?n = "cut_back (concat cs) (capacity - 1)"
  have n: "?n \<le> capacity - 1" by (rule cut_back_le)
  then have lt: "?n < length ?s" using True cap by linarith
  have "\<exists>k < length cs. ?n = length (concat (take k cs))"
  proof (cases "?n = 0")
    case True
    have "cs \<noteq> []" using lt by auto
    then show ?thesis using True by (intro exI [of _ 0]) simp
  next
    case False
    then show ?thesis using cut_back_stops [of ?s "capacity - 1"] char_start [OF cs lt] by auto
  qed
  then obtain k where k: "k < length cs" "?n = length (concat (take k cs))" by blast
  have take: "take (length (concat (take k cs))) ?s = concat (take k cs)"
    by (metis append_eq_conv_conj append_take_drop_id concat_append)
  have next': "capacity \<le> length (concat (take (Suc k) cs))"
  proof (rule ccontr)
    let ?m = "length (concat (take (Suc k) cs))"
    assume "\<not> ?thesis"
    then have m: "?m \<le> capacity - 1" "?m < length ?s" using True by simp_all
    have "whole_char (cs ! k)" using cs k(1) by simp
    then have "?n < ?m" using k by (simp add: take_Suc_conv_app_nth whole_char_def)
    then have "continues (?s ! ?m)" using m(1) by (rule cut_back_skips)
    moreover have "\<not> continues (?s ! ?m)"
    proof -
      have "Suc k < length cs"
      proof (rule ccontr)
        assume "\<not> Suc k < length cs"
        then have "take (Suc k) cs = cs" by simp
        then show False using m(2) by simp
      qed
      then show ?thesis using char_start [OF cs m(2)] by blast
    qed
    ultimately show False by simp
  qed
  have "gamepad_copy_name out capacity (Some ?s) = concat (take k cs)"
    using True cap take k(2) by (simp add: gamepad_copy_name_def Let_def)
  moreover have "length (concat (take k cs)) < capacity" using n k(2) cap by linarith
  ultimately show ?thesis using k(1) next' by (intro exI [of _ k]) simp
qed

lemma copy_name_short: "0 < capacity \<Longrightarrow> length (gamepad_copy_name out capacity name) < capacity"
  using cut_back_le [of "case name of None \<Rightarrow> [] | Some s \<Rightarrow> s" "capacity - 1"]
  unfolding gamepad_copy_name_def Let_def by simp linarith

section \<open>The invariant\<close>

definition listed :: "gamepad_discovery \<Rightarrow> gamepad_candidate list" where
  "listed d = take (gd_count d) (gd_candidates d)"

definition candidate_ok :: "gamepad_candidate \<Rightarrow> bool" where
  "candidate_ok c \<longleftrightarrow> length (cand_address c) = 6 \<and> length (cand_name c) < CANDIDATE_NAME \<and>
     \<not> (cand_keyboard c \<and> cand_type_pending c)"

definition list_ok :: "gamepad_discovery \<Rightarrow> bool" where
  "list_ok d \<longleftrightarrow> length (gd_candidates d) = GAMEPAD_DISCOVERY_MAX \<and> gd_count d \<le> GAMEPAD_DISCOVERY_MAX \<and>
     distinct (map cand_address (listed d)) \<and> (\<forall>c \<in> set (listed d). candidate_ok c) \<and>
     drop (gd_count d) (gd_candidates d) = replicate (GAMEPAD_DISCOVERY_MAX - gd_count d) blank_candidate"

definition pairing_ok :: "gamepad_discovery \<Rightarrow> bool" where
  "pairing_ok d \<longleftrightarrow>
     (if gd_selected d then gd_selected_address d \<in> cand_address ` set (listed d)
      else gd_selected_address d = empty_address \<and> \<not> gd_passkey_visible d \<and> \<not> gd_pairing_failed d \<and>
        \<not> gd_iine_pending d) \<and>
     (if gd_passkey_visible d then gd_passkey d \<le> 999999 \<and> \<not> gd_pairing_failed d else gd_passkey d = 0) \<and>
     (gd_iine_requested d \<longrightarrow> gd_iine_pending d)"

definition discovery_ok :: "gamepad_discovery \<Rightarrow> bool" where
  "discovery_ok d \<longleftrightarrow> list_ok d \<and> pairing_ok d"

text \<open>What the Bluetooth library passes: a device address has six bytes.\<close>

fun op_ok :: "discovery_op \<Rightarrow> bool" where
  "op_ok (Device (Observe a cod name)) = (length a = 6)"
| "op_ok _ = True"

lemma listed_revised [simp]: "listed (revised d) = listed d"
  by (simp add: listed_def revised_def)

lemma list_ok_revised [simp]: "list_ok (revised d) = list_ok d"
  by (simp add: list_ok_def) (simp add: revised_def)

lemma pairing_ok_revised [simp]: "pairing_ok (revised d) = pairing_ok d"
  by (simp add: pairing_ok_def) (simp add: revised_def)

lemma discovery_ok_revised [simp]: "discovery_ok (revised d) = discovery_ok d"
  by (simp add: discovery_ok_def)

lemma listed_nth: "list_ok d \<Longrightarrow> i < gd_count d \<Longrightarrow> gd_candidates d ! i = listed d ! i \<and> i < length (listed d)"
  by (simp add: list_ok_def listed_def)

lemma length_listed: "list_ok d \<Longrightarrow> length (listed d) = gd_count d"
  by (simp add: list_ok_def listed_def)

lemma no_discovery_ok: "discovery_ok no_discovery"
  by (simp add: discovery_ok_def list_ok_def pairing_ok_def listed_def no_discovery_def)

text \<open>Changing a listed candidate in place.\<close>

lemma set_listed:
  assumes "discovery_ok d" "i < gd_count d" "candidate_ok c" "cand_address c = cand_address (gd_candidates d ! i)"
  shows "discovery_ok (set_candidate i c d) \<and> map cand_address (listed (set_candidate i c d)) = map cand_address (listed d)"
proof -
  let ?e = "set_candidate i c d"
  have i: "gd_candidates d ! i = listed d ! i" "i < length (listed d)" using assms listed_nth by (auto simp: discovery_ok_def)
  have l: "listed ?e = (listed d)[i := c]"
    using assms(2) by (simp add: listed_def set_candidate_def take_update_swap)
  have a: "map cand_address (listed ?e) = map cand_address (listed d)"
    unfolding l map_update using assms(4) i by (metis list_update_id nth_map)
  have "drop (gd_count d) (gd_candidates ?e) = drop (gd_count d) (gd_candidates d)"
    using assms(2) by (simp add: set_candidate_def)
  moreover have "\<forall>c' \<in> set (listed ?e). candidate_ok c'"
    unfolding l using assms(1,3) by (auto simp: discovery_ok_def list_ok_def dest: set_update_subset_insert [THEN subsetD])
  ultimately have "list_ok ?e"
    using assms(1) a by (simp add: discovery_ok_def list_ok_def) (simp add: set_candidate_def)
  moreover have "cand_address ` set (listed ?e) = cand_address ` set (listed d)"
    using a by (metis list.set_map)
  then have "pairing_ok ?e"
    using assms(1) unfolding discovery_ok_def pairing_ok_def by (simp add: set_candidate_def)
  ultimately show ?thesis using a by (simp add: discovery_ok_def)
qed

lemma candidate_at: "discovery_ok d \<Longrightarrow> i < gd_count d \<Longrightarrow> candidate_ok (gd_candidates d ! i)"
  using listed_nth [of d i] by (auto simp: discovery_ok_def list_ok_def)

definition same_places :: "gamepad_discovery \<Rightarrow> gamepad_discovery \<Rightarrow> bool" where
  "same_places d e \<longleftrightarrow> (\<exists>as. map cand_address (listed e) = map cand_address (listed d) @ as)"

lemma same_places_refl [simp]: "same_places d d"
  by (simp add: same_places_def)

lemma same_places_trans: "same_places a b \<Longrightarrow> same_places b c \<Longrightarrow> same_places a c"
  by (auto simp: same_places_def)

lemma same_places_revised [simp]: "same_places d (revised e) = same_places d e"
  by (simp add: same_places_def)

lemma refresh_kind_ok:
  assumes "discovery_ok d" "i < gd_count d" "\<not> (keyboard \<and> hid_probe)"
  shows "discovery_ok (refresh_kind i keyboard hid_probe d) \<and> same_places d (refresh_kind i keyboard hid_probe d) \<and>
    gd_count (refresh_kind i keyboard hid_probe d) = gd_count d"
proof -
  let ?c = "(gd_candidates d ! i)\<lparr>cand_keyboard := keyboard, cand_type_pending := hid_probe\<rparr>"
  have "candidate_ok ?c" using candidate_at [OF assms(1,2)] assms(3) by (simp add: candidate_ok_def)
  then show ?thesis
    using set_listed [OF assms(1,2), of ?c] assms(1)
    by (simp add: refresh_kind_def Let_def same_places_def) (simp add: revised_def set_candidate_def)
qed

lemma refresh_name_ok:
  assumes "discovery_ok d" "i < gd_count d"
  shows "discovery_ok (refresh_name i name d) \<and> same_places d (refresh_name i name d)"
proof -
  let ?c = "(gd_candidates d ! i)\<lparr>cand_name := gamepad_copy_name (cand_name (gd_candidates d ! i)) CANDIDATE_NAME
    (Some (gamepad_copy_name [] CANDIDATE_NAME name))\<rparr>"
  have "candidate_ok ?c"
    using candidate_at [OF assms] copy_name_short [of CANDIDATE_NAME] by (simp add: candidate_ok_def CANDIDATE_NAME_def)
  then show ?thesis
    using set_listed [OF assms, of ?c] assms(1) by (simp add: refresh_name_def Let_def same_places_def)
qed

lemma find_candidate_Some: "find_candidate is a d = Some i \<Longrightarrow> i \<in> set is \<and> cand_address (gd_candidates d ! i) = a"
  by (induction "is") (auto split: if_splits)

lemma find_candidate_None: "find_candidate is a d = None \<Longrightarrow> i \<in> set is \<Longrightarrow> cand_address (gd_candidates d ! i) \<noteq> a"
  by (induction "is") (auto split: if_splits)

text \<open>The array has room and the address is new: the candidate is appended.\<close>

lemma append_ok:
  assumes d: "discovery_ok d" "gd_count d < GAMEPAD_DISCOVERY_MAX" and c: "candidate_ok c"
    and new: "cand_address c \<notin> cand_address ` set (listed d)"
  shows "discovery_ok (set_candidate (gd_count d) c (d\<lparr>gd_count := gd_count d + 1\<rparr>)) \<and>
    same_places d (set_candidate (gd_count d) c (d\<lparr>gd_count := gd_count d + 1\<rparr>))"
proof -
  let ?n = "gd_count d" and ?cs = "gd_candidates d"
  let ?e = "set_candidate ?n c (d\<lparr>gd_count := ?n + 1\<rparr>)"
  have n: "?n < length ?cs" "length ?cs = GAMEPAD_DISCOVERY_MAX" using d by (simp_all add: discovery_ok_def list_ok_def)
  have l: "listed ?e = listed d @ [c]"
    using n by (simp add: listed_def set_candidate_def take_Suc_conv_app_nth take_update_cancel)
  have "drop (Suc ?n) (?cs[?n := c]) = drop 1 (drop ?n ?cs)" by (simp add: drop_update_cancel)
  also have "\<dots> = replicate (GAMEPAD_DISCOVERY_MAX - Suc ?n) blank_candidate"
    using d by (simp add: discovery_ok_def list_ok_def)
  finally have "list_ok ?e"
    using d c new n l by (auto simp: discovery_ok_def list_ok_def set_candidate_def)
  moreover have "pairing_ok ?e"
    using d l by (auto simp: discovery_ok_def pairing_ok_def set_candidate_def)
  ultimately show ?thesis using l by (simp add: discovery_ok_def same_places_def)
qed

lemma new_candidate_ok:
  assumes "discovery_ok d" "gd_count d < GAMEPAD_DISCOVERY_MAX" "length a = 6" "\<not> (keyboard \<and> hid_probe)"
  shows "candidate_ok (new_candidate a keyboard hid_probe name (gd_candidates d ! gd_count d)) \<and>
    cand_address (new_candidate a keyboard hid_probe name (gd_candidates d ! gd_count d)) = a"
proof -
  have "gd_count d < length (gd_candidates d)" using assms(1,2) by (simp add: discovery_ok_def list_ok_def)
  then have "gd_candidates d ! gd_count d = hd (drop (gd_count d) (gd_candidates d))"
    by (rule hd_drop_conv_nth [symmetric])
  also have "\<dots> = blank_candidate" using assms(1,2) by (simp add: discovery_ok_def list_ok_def)
  finally show ?thesis
    using assms(3,4) copy_name_short [of CANDIDATE_NAME]
    by (simp add: new_candidate_def candidate_ok_def blank_candidate_def CANDIDATE_NAME_def Let_def)
qed

lemma kinds_exclude: "\<not> (cod AND 0x1fc0 = 0x0540 \<and> cod = (0x0500 :: u16))"
  by auto

lemma observe_ok:
  assumes "discovery_ok d" "length a = 6"
  shows "discovery_ok (snd (gamepad_discovery_observe a cod name d)) \<and>
    same_places d (snd (gamepad_discovery_observe a cod name d))"
proof (cases "find_candidate [0..<gd_count d] a d")
  case (Some i)
  then have i: "i < gd_count d" using find_candidate_Some by fastforce
  let ?k = "refresh_kind i (cod AND 0x1fc0 = 0x0540) (cod = 0x0500) d"
  have k: "discovery_ok ?k" "same_places d ?k" "i < gd_count ?k"
    using refresh_kind_ok [OF assms(1) i kinds_exclude] i by simp_all
  show ?thesis
    using refresh_name_ok [OF k(1,3), of name] same_places_trans [OF k(2)] assms(1) Some
    by (simp add: gamepad_discovery_observe_def Let_def)
next
  case None
  show ?thesis
  proof (cases "gd_count d = GAMEPAD_DISCOVERY_MAX")
    case True
    then show ?thesis using None assms(1) by (simp add: gamepad_discovery_observe_def Let_def)
  next
    case False
    then have room: "gd_count d < GAMEPAD_DISCOVERY_MAX" using assms(1) by (simp add: discovery_ok_def list_ok_def)
    have "a \<notin> cand_address ` set (listed d)"
    proof
      assume "a \<in> cand_address ` set (listed d)"
      then obtain i where "i < gd_count d" "cand_address (gd_candidates d ! i) = a"
        by (auto simp: in_set_conv_nth listed_def)
      then show False using find_candidate_None [OF None, of i] by simp
    qed
    then show ?thesis
      using append_ok [OF assms(1) room, of "new_candidate a (cod AND 0x1fc0 = 0x0540) (cod = 0x0500) name (gd_candidates d ! gd_count d)"]
        new_candidate_ok [OF assms(1) room assms(2) kinds_exclude, of cod name] None room assms(1)
      by (simp add: gamepad_discovery_observe_def Let_def)
  qed
qed

text \<open>Operations that leave the list as it is.\<close>

definition same_list :: "gamepad_discovery \<Rightarrow> gamepad_discovery \<Rightarrow> bool" where
  "same_list d e \<longleftrightarrow> gd_candidates e = gd_candidates d \<and> gd_count e = gd_count d"

lemma same_listD: "same_list d e \<Longrightarrow> listed e = listed d \<and> same_places d e \<and> list_ok e = list_ok d"
  by (auto simp: same_list_def listed_def same_places_def list_ok_def)

lemma keeps_list:
  "same_list d (snd (gamepad_discovery_select i d))"
  "same_list d (gamepad_discovery_passkey a key d)"
  "same_list d (gamepad_discovery_pairing_done a ok d)"
  "same_list d (gamepad_discovery_iine_confirmation a pending fw d)"
  "same_list d (snd (gamepad_discovery_confirm_iine d))"
  by (simp_all add: same_list_def gamepad_discovery_select_def gamepad_discovery_passkey_def Let_def revised_def
      reset_pairing_def gamepad_discovery_pairing_done_def gamepad_discovery_iine_confirmation_def
      gamepad_discovery_confirm_iine_def)

lemma update_listed [simp]:
  "listed (gd_selected_update f d) = listed d" "listed (gd_selected_address_update g d) = listed d"
  "listed (gd_passkey_visible_update f d) = listed d" "listed (gd_passkey_update h d) = listed d"
  "listed (gd_pairing_failed_update f d) = listed d" "listed (gd_iine_pending_update f d) = listed d"
  "listed (gd_iine_requested_update f d) = listed d" "listed (gd_iine_firmware_update k d) = listed d"
  by (simp_all add: listed_def)

lemma update_list_ok [simp]:
  "list_ok (gd_selected_update f d) = list_ok d" "list_ok (gd_selected_address_update g d) = list_ok d"
  "list_ok (gd_passkey_visible_update f d) = list_ok d" "list_ok (gd_passkey_update h d) = list_ok d"
  "list_ok (gd_pairing_failed_update f d) = list_ok d" "list_ok (gd_iine_pending_update f d) = list_ok d"
  "list_ok (gd_iine_requested_update f d) = list_ok d" "list_ok (gd_iine_firmware_update k d) = list_ok d"
  by (simp_all add: list_ok_def)

lemma pairing_okD:
  assumes "pairing_ok d"
  shows "gd_selected d \<Longrightarrow> gd_selected_address d \<in> cand_address ` set (listed d)"
    "\<not> gd_selected d \<Longrightarrow> gd_selected_address d = empty_address \<and> \<not> gd_passkey_visible d \<and> \<not> gd_pairing_failed d \<and>
       \<not> gd_iine_pending d \<and> \<not> gd_iine_requested d"
    "gd_passkey_visible d \<Longrightarrow> gd_passkey d \<le> 999999 \<and> \<not> gd_pairing_failed d"
    "\<not> gd_passkey_visible d \<Longrightarrow> gd_passkey d = 0"
    "gd_iine_requested d \<Longrightarrow> gd_iine_pending d"
  using assms by (auto simp: pairing_ok_def split: if_splits)

lemma select_ok: "discovery_ok d \<Longrightarrow> discovery_ok (snd (gamepad_discovery_select i d))"
  using listed_nth [of d i]
  by (simp add: discovery_ok_def gamepad_discovery_select_def reset_pairing_def) (simp add: pairing_ok_def)

lemma passkey_ok: "discovery_ok d \<Longrightarrow> discovery_ok (gamepad_discovery_passkey a key d)"
  by (simp add: discovery_ok_def gamepad_discovery_passkey_def gamepad_discovery_should_connect_def)
    (auto simp: pairing_ok_def)

lemma pairing_done_ok: "discovery_ok d \<Longrightarrow> discovery_ok (gamepad_discovery_pairing_done a ok d)"
  by (simp add: discovery_ok_def gamepad_discovery_pairing_done_def gamepad_discovery_should_connect_def Let_def)
    (auto simp: pairing_ok_def)

lemma iine_confirmation_ok: "discovery_ok d \<Longrightarrow> discovery_ok (gamepad_discovery_iine_confirmation a pending fw d)"
  by (simp add: discovery_ok_def gamepad_discovery_iine_confirmation_def gamepad_discovery_should_connect_def)
    (auto simp: pairing_ok_def)

lemma confirm_iine_ok: "discovery_ok d \<Longrightarrow> discovery_ok (snd (gamepad_discovery_confirm_iine d))"
  by (simp add: discovery_ok_def gamepad_discovery_confirm_iine_def) (simp add: pairing_ok_def)

lemma begin_scan_ok:
  assumes "discovery_ok d"
  shows "discovery_ok (gamepad_discovery_begin_scan d)"
proof (cases "gd_selected d \<or> gd_count d = 0")
  case True
  then show ?thesis using assms by (simp add: gamepad_discovery_begin_scan_def)
next
  case False
  let ?e = "d\<lparr>gd_candidates := replicate GAMEPAD_DISCOVERY_MAX blank_candidate, gd_count := 0\<rparr>"
  have "list_ok ?e" by (simp add: list_ok_def listed_def)
  moreover have "pairing_ok ?e"
    using False pairing_okD(2,4) [of d] assms by (simp add: discovery_ok_def pairing_ok_def [of ?e])
  ultimately show ?thesis using False by (simp add: gamepad_discovery_begin_scan_def) (simp add: discovery_ok_def)
qed

lemma clear_selection_ok: "discovery_ok d \<Longrightarrow> discovery_ok (gamepad_discovery_clear_selection d)"
  unfolding gamepad_discovery_clear_selection_def discovery_ok_revised
  by (rule begin_scan_ok) (simp add: discovery_ok_def reset_pairing_def pairing_ok_def)

lemma device_step_ok: "discovery_ok d \<Longrightarrow> op_ok (Device e) \<Longrightarrow> discovery_ok (device_step e d) \<and> same_places d (device_step e d)"
  by (cases e) (simp_all add: observe_ok passkey_ok pairing_done_ok iine_confirmation_ok keeps_list same_listD)

lemma discovery_step_ok: "discovery_ok d \<Longrightarrow> op_ok x \<Longrightarrow> discovery_ok (discovery_step x d)"
  by (cases x) (simp_all add: device_step_ok select_ok begin_scan_ok clear_selection_ok confirm_iine_ok)

lemma discovery_run_ok: "discovery_ok d \<Longrightarrow> \<forall>x \<in> set xs. op_ok x \<Longrightarrow> discovery_ok (fold discovery_step xs d)"
  by (induction xs arbitrary: d) (simp_all add: discovery_step_ok)

text \<open>Whatever devices report, an entry on the screen stays at its place.\<close>

lemma device_run_places:
  assumes "discovery_ok d" "\<forall>e \<in> set es. op_ok (Device e)"
  shows "discovery_ok (fold device_step es d) \<and> same_places d (fold device_step es d)"
  using assms
proof (induction es arbitrary: d)
  case (Cons e es)
  have "discovery_ok (device_step e d)" "same_places d (device_step e d)"
    using device_step_ok [OF Cons.prems(1), of e] Cons.prems(2) by simp_all
  then show ?case using Cons.IH [of "device_step e d"] Cons.prems(2) same_places_trans by auto
qed simp

lemma select_listed:
  assumes "discovery_ok d" "same_places d e" "discovery_ok e" "i < gd_count d"
  shows "\<exists>f. gamepad_discovery_select i e = (True, f) \<and> gd_selected f \<and>
    gd_selected_address f = cand_address (listed d ! i)"
proof -
  obtain as where as: "map cand_address (listed e) = map cand_address (listed d) @ as"
    using assms(2) by (auto simp: same_places_def)
  have i: "i < length (listed d)" using assms listed_nth [of d i] by (simp add: discovery_ok_def)
  have "length (listed e) = gd_count e" using assms(3) length_listed by (simp add: discovery_ok_def)
  then have e: "i < gd_count e" using arg_cong [OF as, of length] i by simp
  have "cand_address (listed e ! i) = map cand_address (listed e) ! i" using e \<open>length (listed e) = gd_count e\<close> by simp
  also have "\<dots> = cand_address (listed d ! i)" unfolding as using i by (simp add: nth_append)
  finally show ?thesis
    using e listed_nth [of e i] assms(3)
    by (simp add: gamepad_discovery_select_def discovery_ok_def revised_def reset_pairing_def)
qed

section \<open>Changes are announced\<close>

text \<open>An operation changes the state only together with the revision the screen compares.\<close>

definition announced :: "gamepad_discovery \<Rightarrow> gamepad_discovery \<Rightarrow> bool" where
  "announced d e \<longleftrightarrow> e = d \<or> gd_revision e = gd_revision d + 1 \<or> gd_revision e = gd_revision d + 2"

lemma announced_neq: "announced d e \<Longrightarrow> gd_revision e = gd_revision d \<Longrightarrow> e = d"
  by (auto simp: announced_def)

lemma refresh_announced:
  "refresh_kind i k h d = d \<or> gd_revision (refresh_kind i k h d) = gd_revision d + 1"
  "refresh_name i n d = d \<or> gd_revision (refresh_name i n d) = gd_revision d + 1"
  by (simp_all add: refresh_kind_def refresh_name_def Let_def revised_def set_candidate_def)

lemma observe_announced: "announced d (snd (gamepad_discovery_observe a cod n d))"
proof -
  let ?kb = "cod AND 0x1fc0 = 0x0540" and ?hid = "cod = 0x0500"
  have known: "announced d (refresh_name i n (refresh_kind i ?kb ?hid d))" for i
    using refresh_announced(1) [of i ?kb ?hid d] refresh_announced(2) [of i n "refresh_kind i ?kb ?hid d"]
    unfolding announced_def by (elim disjE) simp_all
  have "snd (gamepad_discovery_observe a cod n d) = d \<or>
      (\<exists>i. snd (gamepad_discovery_observe a cod n d) = refresh_name i n (refresh_kind i ?kb ?hid d)) \<or>
      gd_revision (snd (gamepad_discovery_observe a cod n d)) = gd_revision d + 1"
    unfolding gamepad_discovery_observe_def Let_def
    by (cases "find_candidate [0..<gd_count d] a d") (auto simp: revised_def set_candidate_def)
  then consider "snd (gamepad_discovery_observe a cod n d) = d"
    | i where "snd (gamepad_discovery_observe a cod n d) = refresh_name i n (refresh_kind i ?kb ?hid d)"
    | "gd_revision (snd (gamepad_discovery_observe a cod n d)) = gd_revision d + 1" by blast
  then show ?thesis
  proof cases
    case 2
    show ?thesis unfolding 2 by (rule known)
  qed (simp_all add: announced_def)
qed

lemma step_announced: "announced d (discovery_step x d)"
proof (cases x)
  case (Device e)
  then show ?thesis
    by (cases e) (simp_all add: observe_announced, simp_all add: announced_def gamepad_discovery_passkey_def
        gamepad_discovery_pairing_done_def gamepad_discovery_iine_confirmation_def revised_def Let_def)
qed (simp_all add: announced_def gamepad_discovery_select_def gamepad_discovery_begin_scan_def
    gamepad_discovery_clear_selection_def gamepad_discovery_confirm_iine_def revised_def reset_pairing_def)

end
