(* ===== verification/Gamepad_Test.thy ===== *)
theory Gamepad_Test
  imports Fw_Base "HOL-Library.Signed_Division"
begin

text \<open>
  The state behind the gamepad test page (main/gamepad_test.c): what is held, when each of the 18
  buttons was last pressed, and the scaling of an axis for drawing.
\<close>

record gamepad_test_state =
  gt_connected :: bool
  gt_keyboard :: bool
  gt_iine :: bool
  gt_firmware :: u16
  gt_buttons :: u16
  gt_dpad :: u8
  gt_axes :: "i32 list"
  gt_triggers :: "i32 list"
  gt_reports :: u32
  gt_pressed_at :: "u32 list"
  gt_seen_press :: u32

definition gamepad_test_reset :: "bool \<Rightarrow> bool \<Rightarrow> gamepad_test_state" where
  "gamepad_test_reset connected keyboard =
     \<lparr>gt_connected = connected, gt_keyboard = keyboard, gt_iine = False, gt_firmware = 0, gt_buttons = 0, gt_dpad = 0,
      gt_axes = [0, 0, 0, 0], gt_triggers = [0, 0], gt_reports = 0, gt_pressed_at = replicate 18 0, gt_seen_press = 0\<rparr>"

text \<open>The 18 buttons as one word: 14 buttons, then the four directions.\<close>

definition pressed_word :: "u16 \<Rightarrow> u8 \<Rightarrow> u32" where
  "pressed_word buttons dpad = ucast buttons OR push_bit 14 (ucast dpad)"

fun stamp_loop :: "nat list \<Rightarrow> u32 \<Rightarrow> u32 \<Rightarrow> u32 list \<Rightarrow> u32 list" where
  "stamp_loop [] rising now ts = ts"
| "stamp_loop (b # bs) rising now ts =
     stamp_loop bs rising now (if rising AND push_bit b 1 \<noteq> 0 then ts[b := now] else ts)"

definition gamepad_test_update ::
    "u16 \<Rightarrow> u8 \<Rightarrow> i32 list \<Rightarrow> i32 list \<Rightarrow> u32 \<Rightarrow> gamepad_test_state \<Rightarrow> gamepad_test_state" where
  "gamepad_test_update buttons dpad axes triggers now s =
     (if \<not> gt_connected s then s
      else
        let previous = pressed_word (gt_buttons s) (gt_dpad s);
            current = pressed_word (buttons AND 0x3fff) (dpad AND 15);
            rising = current AND NOT previous
        in s\<lparr>gt_pressed_at := stamp_loop [0..<18] rising now (gt_pressed_at s),
             gt_seen_press := gt_seen_press s OR rising, gt_buttons := buttons AND 0x3fff, gt_dpad := dpad AND 15,
             gt_axes := axes, gt_triggers := triggers, gt_reports := gt_reports s + 1\<rparr>)"

definition gamepad_test_axis :: "int \<Rightarrow> int \<Rightarrow> int" where
  "gamepad_test_axis value radius =
     (let value = (if value < -512 then -512 else value);
          value = (if 511 < value then 511 else value)
      in if value < 0 then (value * radius) sdiv 512 else (value * radius) sdiv 511)"

definition gamepad_test_recent :: "nat \<Rightarrow> u32 \<Rightarrow> gamepad_test_state \<Rightarrow> bool" where
  "gamepad_test_recent b now s \<longleftrightarrow>
     b < 18 \<and> gt_seen_press s AND push_bit b 1 \<noteq> 0 \<and> now - gt_pressed_at s ! b < 600"

section \<open>Axes\<close>

text \<open>The knob stays inside its circle, reaches both ends, and moves with the axis.\<close>

lemma axis_value:
  assumes "0 \<le> r"
  shows "gamepad_test_axis v r = (if v < 0 then - (min 512 (- v) * r div 512) else min 511 v * r div 511)"
proof (cases "v < 0")
  case True
  have "((- min 512 (- v)) * r) sdiv 512 = - (min 512 (- v) * r div 512)"
    using assms True by (cases "r = 0") (simp_all add: signed_divide_int_def sgn_mult)
  moreover have "gamepad_test_axis v r = ((- min 512 (- v)) * r) sdiv 512"
  proof -
    have e: "(if v < -512 then -512 else v) = - min 512 (- v)" by simp
    have "- min 512 (- v) < 0" "\<not> 511 < - min 512 (- v)" using True by auto
    then show ?thesis unfolding gamepad_test_axis_def Let_def e by (simp only: if_True if_False)
  qed
  ultimately show ?thesis using True by simp
next
  case False
  have "(min 511 v * r) sdiv 511 = min 511 v * r div 511"
    using assms False by (cases "r = 0"; cases "v = 0") (simp_all add: signed_divide_int_def sgn_mult min_def)
  moreover have "gamepad_test_axis v r = (min 511 v * r) sdiv 511"
  proof -
    have e: "(if v < -512 then -512 else v) = v" "(if 511 < v then 511 else v) = min 511 v" using False by auto
    have "\<not> min 511 v < 0" using False by simp
    then show ?thesis unfolding gamepad_test_axis_def Let_def e by (simp only: if_False)
  qed
  ultimately show ?thesis using False by simp
qed

lemma part_of:
  assumes "0 \<le> r" "0 \<le> a" "a \<le> k" "0 < (k :: int)"
  shows "0 \<le> a * r div k \<and> a * r div k \<le> r"
proof -
  have "a * r div k \<le> k * r div k" using assms by (intro zdiv_mono1 mult_right_mono) simp_all
  then show ?thesis using assms by (simp add: pos_imp_zdiv_nonneg_iff)
qed

lemma axis_in_circle:
  assumes "0 \<le> r"
  shows "\<bar>gamepad_test_axis v r\<bar> \<le> r"
  using part_of [OF assms, of "min 512 (- v)" 512] part_of [OF assms, of "min 511 v" 511]
  by (cases "v < 0") (simp_all add: axis_value [OF assms])

lemma axis_ends: "0 \<le> r \<Longrightarrow> gamepad_test_axis (-512) r = - r \<and> gamepad_test_axis 511 r = r"
  by (simp add: axis_value)

lemma axis_mono:
  assumes "0 \<le> r" "v \<le> w"
  shows "gamepad_test_axis v r \<le> gamepad_test_axis w r"
proof -
  have neg: "min 512 (- w) * r div 512 \<le> min 512 (- v) * r div 512"
    by (intro zdiv_mono1 mult_right_mono) (use assms in auto)
  have pos: "min 511 v * r div 511 \<le> min 511 w * r div 511"
    by (intro zdiv_mono1 mult_right_mono) (use assms in auto)
  consider "v < 0" "w < 0" | "v < 0" "0 \<le> w" | "0 \<le> v" "0 \<le> w" using assms(2) by linarith
  then show ?thesis
  proof cases
    case 2
    then show ?thesis
      using part_of [OF assms(1), of "min 512 (- v)" 512] part_of [OF assms(1), of "min 511 w" 511]
      unfolding axis_value [OF assms(1)] by simp
  qed (use neg pos in \<open>simp_all add: axis_value [OF assms(1)]\<close>)
qed

section \<open>Recent presses\<close>

lemma bit_test: "(w :: u32) AND 2 ^ b = 0 \<longleftrightarrow> \<not> bit w b"
  by (rule and_exp_eq_0_iff_not_bit)

lemma stamp_loop_nth:
  "i < length ts \<Longrightarrow> stamp_loop bs rising now ts ! i = (if i \<in> set bs \<and> rising AND push_bit i 1 \<noteq> 0 then now else ts ! i)"
proof (induction bs arbitrary: ts)
  case (Cons b bs)
  then show ?case by (cases "b = i") simp_all
qed simp

lemma stamp_loop_length [simp]: "length (stamp_loop bs rising now ts) = length ts"
  by (induction bs arbitrary: ts) simp_all

definition test_ok :: "gamepad_test_state \<Rightarrow> bool" where
  "test_ok s \<longleftrightarrow> length (gt_pressed_at s) = 18"

lemma test_reset_ok: "test_ok (gamepad_test_reset c k)"
  by (simp add: test_ok_def gamepad_test_reset_def)

lemma test_update_ok: "test_ok s \<Longrightarrow> test_ok (gamepad_test_update b d ax tr now s)"
  by (simp add: test_ok_def gamepad_test_update_def Let_def)

text \<open>The button is held after an update that reports it.\<close>

definition holds_button :: "nat \<Rightarrow> gamepad_test_state \<Rightarrow> bool" where
  "holds_button b s \<longleftrightarrow> bit (pressed_word (gt_buttons s) (gt_dpad s)) b"

lemma update_rising:
  assumes "test_ok s" "gt_connected s" "b < 18"
  shows "let s' = gamepad_test_update bt dp ax tr now s; rises = \<not> holds_button b s \<and> holds_button b s'
    in gt_pressed_at s' ! b = (if rises then now else gt_pressed_at s ! b) \<and>
       (bit (gt_seen_press s') b \<longleftrightarrow> rises \<or> bit (gt_seen_press s) b) \<and> gt_connected s'"
  using assms
  by (auto simp: gamepad_test_update_def Let_def stamp_loop_nth test_ok_def bit_test holds_button_def bit_simps)

text \<open>A sequence of reports \<open>(buttons, dpad, axes, triggers, time)\<close>.\<close>

type_synonym test_report = "u16 \<times> u8 \<times> i32 list \<times> i32 list \<times> u32"

definition test_report :: "test_report \<Rightarrow> gamepad_test_state \<Rightarrow> gamepad_test_state" where
  "test_report r s = (case r of (bt, dp, ax, tr, now) \<Rightarrow> gamepad_test_update bt dp ax tr now s)"

definition reports_button :: "nat \<Rightarrow> test_report \<Rightarrow> bool" where
  "reports_button b r \<longleftrightarrow> (case r of (bt, dp, _) \<Rightarrow> bit (pressed_word (bt AND 0x3fff) (dp AND 15)) b)"

lemma report_holds: "gt_connected s \<Longrightarrow> holds_button b (test_report r s) = reports_button b r"
  by (cases r) (simp add: test_report_def reports_button_def holds_button_def gamepad_test_update_def Let_def)

text \<open>While a button stays held its press time stays the time it went down.\<close>

lemma held_keeps_time:
  assumes "test_ok s" "gt_connected s" "b < 18" "holds_button b s" "\<forall>r \<in> set rs. reports_button b r"
  shows "gt_pressed_at (fold test_report rs s) ! b = gt_pressed_at s ! b \<and>
    (bit (gt_seen_press s) b \<longrightarrow> bit (gt_seen_press (fold test_report rs s)) b)"
  using assms(1,2,4,5)
proof (induction rs arbitrary: s)
  case (Cons r rs)
  obtain bt dp ax tr now where r: "r = (bt, dp, ax, tr, now)" by (cases r)
  let ?s = "test_report r s"
  have u: "?s = gamepad_test_update bt dp ax tr now s" by (simp add: r test_report_def)
  have "holds_button b ?s" using report_holds [OF Cons.prems(2), of b r] Cons.prems(4) by simp
  moreover note update_rising [OF Cons.prems(1,2) assms(3), of bt dp ax tr now]
  ultimately show ?case
    using Cons.IH [of ?s] Cons.prems test_update_ok [OF Cons.prems(1), of bt dp ax tr now]
    by (simp add: u Let_def)
qed simp

lemma press_shows:
  assumes "test_ok s" "gt_connected s" "b < 18" "\<not> holds_button b s"
    and "reports_button b (bt, dp, ax, tr, t)" "\<forall>r \<in> set rs. reports_button b r"
  shows "gamepad_test_recent b now (fold test_report ((bt, dp, ax, tr, t) # rs) s) \<longleftrightarrow> now - t < 600"
proof -
  let ?s = "test_report (bt, dp, ax, tr, t) s"
  have h: "holds_button b ?s" using report_holds [OF assms(2)] assms(5) by blast
  have u: "gt_pressed_at ?s ! b = t" "bit (gt_seen_press ?s) b" "gt_connected ?s" "test_ok ?s"
    using update_rising [OF assms(1-3), of bt dp ax tr t] h assms(4) test_update_ok [OF assms(1)]
    by (simp_all add: test_report_def Let_def)
  show ?thesis
    using held_keeps_time [OF u(4,3) assms(3) h assms(6)] u assms(3)
    by (simp add: gamepad_test_recent_def bit_test)
qed

end
