(* ===== verification/Gamepad.thy ===== *)
theory Gamepad
  imports Gb_Input Gamepad_Discovery Gamepad_Test
begin

text \<open>
  The controller task (main/gamepad.c).  Two threads run: Bluetooth callbacks on one, the application's
  calls on the other.  What they share is touched only inside critical sections, so a function is a
  sequence of \<^emph>\<open>acts\<close>: its definition performs everything up to the end of its first critical section
  and returns the acts still to do.  \<open>perform\<close> performs one act; \<open>gamepad_step\<close> interleaves the threads.
  Calls into bluepad32 and BTstack are events of a log, to which the model adds what the user and the
  devices did; the library's answers are the argument \<open>answers\<close>.
\<close>

section \<open>State\<close>

text \<open>What the callbacks read of a \<open>uni_hid_device_t\<close>; a pointer is the number of its slot.\<close>

record hid_device =
  dev_id :: nat
  dev_address :: bd_addr
  dev_is_gamepad :: bool
  dev_is_keyboard :: bool
  dev_iine :: bool
  dev_firmware :: u16

record uni_gamepad =
  ug_dpad :: u8
  ug_axis_x :: i32
  ug_axis_y :: i32
  ug_axis_rx :: i32
  ug_axis_ry :: i32
  ug_brake :: i32
  ug_throttle :: i32
  ug_buttons :: u16
  ug_misc :: u8

datatype controller = Keyboard_class "u8 list" u8 | Gamepad_class uni_gamepad | Other_class

datatype sm_event = Passkey_display u32 | Passkey_cancel | Pairing_complete u8 | Reencryption_complete u8 | Other_event

datatype bt_event =
    Start_scanning | Stop_scanning
  | Iine_confirm hid_device
  | Connect_cancel | Disconnect hid_device | Delete_device hid_device
  | Io_capabilities bool
  | Start_passkey_timer | Stop_passkey_timer | Extend_connection_timer hid_device
  | Confirmed bd_addr | Picked bd_addr | Cancelled | Failed bd_addr | Firmware_report bd_addr

record gamepad =
  gp_sample :: pad_sample
  gp_test :: gamepad_test_state
  gp_input :: gb_input_buffer
  gp_discovery :: gamepad_discovery
  gp_owner :: "nat option"
  gp_started :: bool
  gp_scan_allowed :: bool
  gp_update_pending :: bool
  gp_passkey_address :: bd_addr
  gp_reported_drops :: u32
  gp_queued :: nat
  gp_scanning :: "bool option"
  gp_log :: "bt_event list"

definition no_gamepad :: gamepad where
  "no_gamepad = \<lparr>gp_sample = no_pad, gp_test = gamepad_test_reset False False,
     gp_input = \<lparr>ib_latest = no_pad, ib_events = replicate 16 \<lparr>ev_sample = no_pad, ev_at = 0\<rparr>, ib_head = 0,
       ib_count = 0, ib_enabled = False, ib_armed = False, ib_dropped = 0\<rparr>,
     gp_discovery = no_discovery, gp_owner = None, gp_started = False, gp_scan_allowed = True,
     gp_update_pending = False, gp_passkey_address = empty_address, gp_reported_drops = 0, gp_queued = 0,
     gp_scanning = None, gp_log = []\<rparr>"

text \<open>What is still to do of a function: sections, calls, and the places where the library may call back.\<close>

datatype act =
    App_begin | App_select nat | App_clear | App_confirm | App_scanning bool | App_gameplay bool | App_frame
  | Bt_timeout | Bt_policy | Bt_iine hid_device bool u16 | Bt_security sm_event "hid_device option"
  | Bt_discovered bd_addr "cstring option" u16 | Bt_disconnected hid_device | Bt_ready hid_device
  | Bt_data hid_device controller
  | Update | Enqueue | Reset_test bool bool bool u16 | Set_sample pad_sample | Slot | Nest | Delete hid_device
  | Scan bool

text \<open>The clock in microseconds, the device in the slot looked at, and whether it has no link.\<close>

record answers =
  an_now :: int
  an_slot :: "hid_device option"
  an_no_link :: bool

definition CONFIG_BLUEPAD32_MAX_DEVICES :: nat where "CONFIG_BLUEPAD32_MAX_DEVICES = 1"

section \<open>Functions\<close>

definition noted :: "bt_event \<Rightarrow> gamepad \<Rightarrow> gamepad" where
  "noted e g = g\<lparr>gp_log := e # gp_log g\<rparr>"

definition with_discovery :: "(gamepad_discovery \<Rightarrow> gamepad_discovery) \<Rightarrow> gamepad \<Rightarrow> gamepad" where
  "with_discovery f g = g\<lparr>gp_discovery := f (gp_discovery g)\<rparr>"

text \<open>\<open>gamepad_discovery_pairing_done\<close> on the shared state; a failure is noted.\<close>

definition pairing_done :: "bd_addr \<Rightarrow> bool \<Rightarrow> gamepad \<Rightarrow> gamepad" where
  "pairing_done a success g =
     (let g = with_discovery (gamepad_discovery_pairing_done a success) g
      in if success then g else noted (Failed a) g)"

definition passkey_timeout :: "gamepad \<Rightarrow> gamepad" where
  "passkey_timeout g = pairing_done (gp_passkey_address g) False g"

definition apply_scan_policy :: "gamepad \<Rightarrow> act list \<times> gamepad" where
  "apply_scan_policy g =
     (let scan = gp_scan_allowed g \<and> \<not> pad_connected (gp_sample g);
          passkey_visible = gd_passkey_visible (gp_discovery g);
          g = g\<lparr>gp_update_pending := False\<rparr>;
          g = (if \<not> passkey_visible then noted Stop_passkey_timer g else g)
      in (replicate CONFIG_BLUEPAD32_MAX_DEVICES Slot @ [Scan scan], g))"

text \<open>One round of the loop over the device slots.\<close>

definition policy_slot :: "hid_device option \<Rightarrow> bool \<Rightarrow> gamepad \<Rightarrow> act list \<times> gamepad" where
  "policy_slot device no_link g =
     (case device of None \<Rightarrow> ([], g)
      | Some device \<Rightarrow>
          if gp_owner g = Some (dev_id device) then ([], g)
          else if dev_address device = empty_address then ([], g)
          else
            let d = gp_discovery g;
                selected = gamepad_discovery_should_connect d (dev_address device);
                confirm = selected \<and> gd_iine_pending d \<and> gd_iine_requested d;
                g = (if confirm then noted (Iine_confirm device) (g\<lparr>gp_discovery := d\<lparr>gd_iine_requested := False\<rparr>\<rparr>) else g)
            in if selected then (if confirm then [Nest] else [], g)
               else
                 let g = (if no_link then noted Connect_cancel g else g)
                 in ([Nest, Delete device], noted (Disconnect device) g))"

definition delete_device :: "hid_device \<Rightarrow> gamepad \<Rightarrow> act list \<times> gamepad" where
  "delete_device device g = ([Nest], noted (Delete_device device) g)"

definition scan_request :: "bool \<Rightarrow> gamepad \<Rightarrow> gamepad" where
  "scan_request scan g = noted (if scan then Start_scanning else Stop_scanning) (g\<lparr>gp_scanning := Some scan\<rparr>)"

definition update_scan_policy :: "gamepad \<Rightarrow> act list \<times> gamepad" where
  "update_scan_policy g =
     (let enqueue = \<not> gp_update_pending g
      in (if enqueue then [Enqueue] else [], g\<lparr>gp_update_pending := True\<rparr>))"

definition set_sample :: "pad_sample \<Rightarrow> int \<Rightarrow> gamepad \<Rightarrow> gamepad" where
  "set_sample p now g = g\<lparr>gp_sample := p, gp_input := gb_input_buffer_push p now (gp_input g)\<rparr>"

definition gamepad_set_gameplay :: "bool \<Rightarrow> gamepad \<Rightarrow> gamepad" where
  "gamepad_set_gameplay enabled g = g\<lparr>gp_input := gb_input_buffer_reset (gp_sample g) enabled (gp_input g)\<rparr>"

definition gamepad_frame_snapshot :: "int \<Rightarrow> gamepad \<Rightarrow> pad_sample \<times> gamepad" where
  "gamepad_frame_snapshot now g =
     (let (copy, buffer) = gb_input_buffer_take now (gp_input g)
      in (copy, g\<lparr>gp_input := buffer, gp_reported_drops := ib_dropped buffer\<rparr>))"

definition gamepad_begin_discovery :: "gamepad \<Rightarrow> gamepad" where
  "gamepad_begin_discovery g =
     (if \<not> pad_connected (gp_sample g) then with_discovery gamepad_discovery_begin_scan g else g)"

definition gamepad_select_candidate :: "nat \<Rightarrow> gamepad \<Rightarrow> bool \<times> act list \<times> gamepad" where
  "gamepad_select_candidate index g =
     (let (selected, d) = gamepad_discovery_select index (gp_discovery g);
          g = g\<lparr>gp_discovery := d\<rparr>
      in if selected then (True, [Update], noted (Picked (gd_selected_address d)) g) else (False, [], g))"

definition gamepad_clear_selection :: "gamepad \<Rightarrow> act list \<times> gamepad" where
  "gamepad_clear_selection g = ([Update], noted Cancelled (with_discovery gamepad_discovery_clear_selection g))"

definition gamepad_confirm_iine :: "gamepad \<Rightarrow> bool \<times> act list \<times> gamepad" where
  "gamepad_confirm_iine g =
     (let (accepted, d) = gamepad_discovery_confirm_iine (gp_discovery g);
          g = g\<lparr>gp_discovery := d\<rparr>
      in if accepted then (True, [Update], noted (Confirmed (gd_selected_address d)) g) else (False, [], g))"

definition iine_confirmation :: "hid_device \<Rightarrow> bool \<Rightarrow> u16 \<Rightarrow> gamepad \<Rightarrow> gamepad" where
  "iine_confirmation device pending firmware g =
     noted (Firmware_report (dev_address device))
       (with_discovery (gamepad_discovery_iine_confirmation (dev_address device) pending firmware) g)"

fun security_status :: "sm_event \<Rightarrow> u8" where
  "security_status (Pairing_complete status) = status"
| "security_status (Reencryption_complete status) = status"
| "security_status _ = 0"

definition security_event :: "sm_event \<Rightarrow> hid_device option \<Rightarrow> gamepad \<Rightarrow> gamepad" where
  "security_event event device g =
     (if event = Other_event then g
      else case device of None \<Rightarrow> g
      | Some device \<Rightarrow>
          let a = dev_address device;
              selected = gamepad_discovery_should_connect (gp_discovery g) a
          in case event of
               Passkey_display key \<Rightarrow>
                 let g = with_discovery (gamepad_discovery_passkey a key) g
                 in if selected
                    then noted Start_passkey_timer (noted Stop_passkey_timer
                           ((noted (Extend_connection_timer device) g)\<lparr>gp_passkey_address := a\<rparr>))
                    else g
             | _ \<Rightarrow>
                 let g = pairing_done a (security_status event = 0) g
                 in if selected then noted Stop_passkey_timer g else g)"

definition platform_ready :: "gamepad \<Rightarrow> gamepad" where
  "platform_ready g = scan_request True g"

text \<open>The first component is whether the library is told to connect.\<close>

definition device_discovered :: "bd_addr \<Rightarrow> cstring option \<Rightarrow> u16 \<Rightarrow> gamepad \<Rightarrow> bool \<times> gamepad" where
  "device_discovered a name cod g =
     (let (candidate, d) = gamepad_discovery_observe a cod name (gp_discovery g);
          selected = candidate \<and> gamepad_discovery_should_connect d a;
          g = g\<lparr>gp_discovery := d\<rparr>;
          g = (if selected then pairing_done a True g else g)
      in if \<not> selected then (False, g)
         else (True, noted (Io_capabilities (cod AND 0x0040 \<noteq> 0 \<or> cod = 0x0500)) g))"

definition device_disconnected :: "hid_device \<Rightarrow> gamepad \<Rightarrow> act list \<times> gamepad" where
  "device_disconnected device g =
     (let a = dev_address device;
          g = pairing_done a False g;
          g = (if gp_passkey_address g = a then noted Stop_passkey_timer g else g)
      in if gp_owner g \<noteq> Some (dev_id device) then ([], g)
         else ([Reset_test False False False 0, Set_sample no_pad, Update], g\<lparr>gp_owner := None\<rparr>))"

definition device_ready :: "hid_device \<Rightarrow> gamepad \<Rightarrow> bool \<times> act list \<times> gamepad" where
  "device_ready device g =
     (if gp_owner g \<noteq> None \<and> gp_owner g \<noteq> Some (dev_id device) then (False, [], g)
      else
        let a = dev_address device;
            selected = gamepad_discovery_should_connect (gp_discovery g) a;
            g = (if selected then pairing_done a True g else g)
        in if \<not> selected \<or> (\<not> dev_is_gamepad device \<and> \<not> dev_is_keyboard device) then (False, [], g)
           else (True, [Reset_test True (dev_is_keyboard device) (dev_iine device) (dev_firmware device),
                  Set_sample (no_pad\<lparr>pad_connected := True\<rparr>), Update],
                 (noted Stop_passkey_timer g)\<lparr>gp_owner := Some (dev_id device)\<rparr>))"

definition flag16 :: "bool \<Rightarrow> u16 \<Rightarrow> u16" where "flag16 b m = (if b then m else 0)"
definition flag8 :: "bool \<Rightarrow> u8 \<Rightarrow> u8" where "flag8 b m = (if b then m else 0)"

definition millis :: "int \<Rightarrow> u32" where "millis now = of_int (now div 1000)"

definition gamepad_sample :: "uni_gamepad \<Rightarrow> pad_sample" where
  "gamepad_sample gp =
     \<lparr>pad_connected = True, pad_right = ug_dpad gp AND 4 \<noteq> 0, pad_left = ug_dpad gp AND 8 \<noteq> 0,
      pad_up = ug_dpad gp AND 1 \<noteq> 0, pad_down = ug_dpad gp AND 2 \<noteq> 0, pad_a = ug_buttons gp AND 1 \<noteq> 0,
      pad_b = ug_buttons gp AND 2 \<noteq> 0, pad_view = ug_misc gp AND 2 \<noteq> 0, pad_menu = ug_misc gp AND 4 \<noteq> 0,
      any_button = ug_buttons gp \<noteq> 0 \<or> ug_misc gp \<noteq> 0 \<or> ug_dpad gp \<noteq> 0 \<or> 64 < sint (ug_brake gp) \<or>
        64 < sint (ug_throttle gp)\<rparr>"

definition controller_data :: "hid_device \<Rightarrow> controller \<Rightarrow> int \<Rightarrow> gamepad \<Rightarrow> act list \<times> gamepad" where
  "controller_data device ctl now g =
     (if gp_owner g \<noteq> Some (dev_id device) then ([], g)
      else case ctl of
        Keyboard_class keys modifiers \<Rightarrow>
          let p = gb_input_keyboard (Some keys) modifiers;
              buttons = flag16 (pad_a p) 1 OR flag16 (pad_b p) 2 OR flag16 (pad_view p) 0x400 OR flag16 (pad_menu p) 0x800;
              dpad = flag8 (pad_up p) 1 OR flag8 (pad_down p) 2 OR flag8 (pad_right p) 4 OR flag8 (pad_left p) 8
          in ([Set_sample p],
              g\<lparr>gp_test := gamepad_test_update buttons dpad [0, 0, 0, 0] [0, 0] (millis now) (gp_test g)\<rparr>)
      | Gamepad_class gp \<Rightarrow>
          let m = ug_misc gp;
              buttons = ug_buttons gp OR flag16 (m AND 2 \<noteq> 0) 0x400 OR flag16 (m AND 4 \<noteq> 0) 0x800 OR
                flag16 (m AND 1 \<noteq> 0) 0x1000 OR flag16 (m AND 8 \<noteq> 0) 0x2000;
              p = gb_input_left_stick (sint (ug_axis_x gp)) (sint (ug_axis_y gp)) (gamepad_sample gp)
          in ([Set_sample p],
              g\<lparr>gp_test := gamepad_test_update buttons (ug_dpad gp)
                   [ug_axis_x gp, ug_axis_y gp, ug_axis_rx gp, ug_axis_ry gp] [ug_brake gp, ug_throttle gp]
                   (millis now) (gp_test g)\<rparr>)
      | Other_class \<Rightarrow> ([], g))"

definition gamepad_start :: "bool \<Rightarrow> gamepad \<Rightarrow> bool \<times> gamepad" where
  "gamepad_start task_created g =
     (if gp_started g then (True, g)
      else if \<not> task_created then (False, g)
      else (True, g\<lparr>gp_started := True\<rparr>))"

definition gamepad_set_scanning :: "bool \<Rightarrow> gamepad \<Rightarrow> act list \<times> gamepad" where
  "gamepad_set_scanning enabled g =
     (if \<not> gp_started g then ([], g) else ([Update], g\<lparr>gp_scan_allowed := enabled\<rparr>))"

section \<open>Threads\<close>

fun perform :: "answers \<Rightarrow> act \<Rightarrow> gamepad \<Rightarrow> act list \<times> gamepad" where
  "perform e App_begin g = ([], gamepad_begin_discovery g)"
| "perform e (App_select i) g = snd (gamepad_select_candidate i g)"
| "perform e App_clear g = gamepad_clear_selection g"
| "perform e App_confirm g = snd (gamepad_confirm_iine g)"
| "perform e (App_scanning b) g = gamepad_set_scanning b g"
| "perform e (App_gameplay b) g = ([], gamepad_set_gameplay b g)"
| "perform e App_frame g = ([], snd (gamepad_frame_snapshot (an_now e) g))"
| "perform e Bt_timeout g = ([], passkey_timeout g)"
| "perform e Bt_policy g = apply_scan_policy g"
| "perform e (Bt_iine device pending fw) g = ([], iine_confirmation device pending fw g)"
| "perform e (Bt_security event device) g = ([], security_event event device g)"
| "perform e (Bt_discovered a name cod) g = ([], snd (device_discovered a name cod g))"
| "perform e (Bt_disconnected device) g = device_disconnected device g"
| "perform e (Bt_ready device) g = snd (device_ready device g)"
| "perform e (Bt_data device ctl) g = controller_data device ctl (an_now e) g"
| "perform e Update g = update_scan_policy g"
| "perform e Enqueue g = ([], g\<lparr>gp_queued := gp_queued g + 1\<rparr>)"
| "perform e (Reset_test connected keyboard iine fw) g =
     ([], g\<lparr>gp_test := (gamepad_test_reset connected keyboard)\<lparr>gt_iine := iine, gt_firmware := fw\<rparr>\<rparr>)"
| "perform e (Set_sample p) g = ([], set_sample p (an_now e) g)"
| "perform e Slot g = policy_slot (an_slot e) (an_no_link e) g"
| "perform e Nest g = ([], g)"
| "perform e (Delete device) g = delete_device device g"
| "perform e (Scan b) g = ([], scan_request b g)"

text \<open>What the application may call, what the library may call, and what it may call from inside a call.\<close>

fun app_call :: "act \<Rightarrow> bool" where
  "app_call App_begin = True" | "app_call (App_select i) = True" | "app_call App_clear = True"
| "app_call App_confirm = True" | "app_call (App_scanning b) = True" | "app_call (App_gameplay b) = True"
| "app_call App_frame = True" | "app_call _ = False"

fun bt_callback :: "act \<Rightarrow> bool" where
  "bt_callback Bt_timeout = True" | "bt_callback (Bt_iine d p f) = True" | "bt_callback (Bt_security e d) = True"
| "bt_callback (Bt_discovered a n c) = (length a = 6)" | "bt_callback (Bt_disconnected d) = True"
| "bt_callback (Bt_ready d) = True" | "bt_callback (Bt_data d c) = True" | "bt_callback _ = False"

fun nested_callback :: "act \<Rightarrow> bool" where
  "nested_callback (Bt_iine d p f) = True" | "nested_callback (Bt_disconnected d) = True"
| "nested_callback _ = False"

record gamepad_system =
  sys_gp :: gamepad
  sys_bt :: "act list"
  sys_app :: "act list"

text \<open>Steps that go on with work already begun, and steps that begin something.\<close>

inductive work_step :: "gamepad_system \<Rightarrow> gamepad_system \<Rightarrow> bool" where
  Bt_runs: "sys_bt s = a # as \<Longrightarrow> perform e a (sys_gp s) = (todo, g) \<Longrightarrow>
    work_step s (s\<lparr>sys_bt := todo @ as, sys_gp := g\<rparr>)"
| App_runs: "sys_app s = a # as \<Longrightarrow> perform e a (sys_gp s) = (todo, g) \<Longrightarrow>
    work_step s (s\<lparr>sys_app := todo @ as, sys_gp := g\<rparr>)"
| Run_loop: "sys_bt s = [] \<Longrightarrow> 0 < gp_queued (sys_gp s) \<Longrightarrow>
    work_step s (s\<lparr>sys_bt := [Bt_policy], sys_gp := (sys_gp s)\<lparr>gp_queued := gp_queued (sys_gp s) - 1\<rparr>\<rparr>)"

inductive gamepad_step :: "gamepad_system \<Rightarrow> gamepad_system \<Rightarrow> bool" where
  Works: "work_step s t \<Longrightarrow> gamepad_step s t"
| Callback: "sys_bt s = [] \<Longrightarrow> bt_callback a \<Longrightarrow> gamepad_step s (s\<lparr>sys_bt := [a]\<rparr>)"
| Nested: "sys_bt s = Nest # as \<Longrightarrow> nested_callback a \<Longrightarrow> gamepad_step s (s\<lparr>sys_bt := a # Nest # as\<rparr>)"
| Called: "sys_app s = [] \<Longrightarrow> app_call a \<Longrightarrow> gamepad_step s (s\<lparr>sys_app := [a]\<rparr>)"

text \<open>Bluetooth is up: \<open>gamepad_start\<close>, then the library's \<open>platform_ready\<close>.\<close>

definition gamepad_up :: gamepad_system where
  "gamepad_up = \<lparr>sys_gp = platform_ready (snd (gamepad_start True no_gamepad)), sys_bt = [], sys_app = []\<rparr>"

inductive gamepad_reach :: "gamepad_system \<Rightarrow> bool" where
  Up: "gamepad_reach gamepad_up"
| More: "gamepad_reach s \<Longrightarrow> gamepad_step s t \<Longrightarrow> gamepad_reach t"

end
