(* ===== verification/Gamepad_Safe.thy ===== *)
theory Gamepad_Safe
  imports Gamepad
begin

text \<open>
  What every interleaving of the two threads keeps: the shared structures stay well-formed, the scan
  request is queued at most once, the latest scan policy is or will be applied, the owner and the
  connected flag agree, and an unverified firmware is tried only on the user's word.
\<close>

section \<open>The invariant\<close>

text \<open>An unexecuted scan-policy callback: asked for, queued, or begun.\<close>

fun policy_token :: "act \<Rightarrow> bool" where
  "policy_token Enqueue = True" | "policy_token Bt_policy = True" | "policy_token _ = False"

definition tokens :: "act list \<Rightarrow> nat" where
  "tokens as = length (filter policy_token as)"

text \<open>Connected and scanning once a list of acts is done.\<close>

fun settles :: "bool \<Rightarrow> act list \<Rightarrow> bool" where
  "settles c [] = c"
| "settles c (Set_sample p # as) = settles (pad_connected p) as"
| "settles c (_ # as) = settles c as"

fun scans :: "bool option \<Rightarrow> act list \<Rightarrow> bool option" where
  "scans c [] = c"
| "scans c (Scan b # as) = scans (Some b) as"
| "scans c (_ # as) = scans c as"

definition no_sample :: "act list \<Rightarrow> bool" where "no_sample as \<longleftrightarrow> (\<forall>p. Set_sample p \<notin> set as)"
definition no_scan :: "act list \<Rightarrow> bool" where "no_scan as \<longleftrightarrow> (\<forall>b. Scan b \<notin> set as)"

text \<open>Below a callback, and where one may nest, no sample is waiting; below the policy no scan request is.\<close>

fun continuation_act :: "act \<Rightarrow> bool" where
  "continuation_act Update = True" | "continuation_act Enqueue = True" | "continuation_act (Reset_test a b c d) = True"
| "continuation_act (Set_sample p) = True" | "continuation_act (Scan b) = True" | "continuation_act _ = False"

fun stack_ok :: "act list \<Rightarrow> bool" where
  "stack_ok [] = True"
| "stack_ok (a # as) \<longleftrightarrow> (\<not> continuation_act a \<longrightarrow> no_sample as) \<and> (a = Bt_policy \<longrightarrow> no_scan as) \<and>
     (\<forall>p. a = Set_sample p \<longrightarrow> no_sample as) \<and> stack_ok as"

text \<open>The application's thread never touches samples, the owner or the scan request.\<close>

definition app_act :: "act \<Rightarrow> bool" where
  "app_act a \<longleftrightarrow> app_call a \<or> a = Update \<or> a = Enqueue"

definition policy_due :: "act list \<Rightarrow> act list \<Rightarrow> gamepad \<Rightarrow> bool" where
  "policy_due bt app g \<longleftrightarrow> gp_update_pending g \<or> Update \<in> set bt \<or> Update \<in> set app"

text \<open>The confirmation the log says is in force.\<close>

fun approved :: "bt_event list \<Rightarrow> bd_addr option" where
  "approved [] = None"
| "approved (Confirmed a # l) = Some a"
| "approved (Iine_confirm d # l) = None"
| "approved (Picked a # l) = None"
| "approved (Cancelled # l) = None"
| "approved (Failed a # l) = (if approved l = Some a then None else approved l)"
| "approved (Firmware_report a # l) = (if approved l = Some a then None else approved l)"
| "approved (_ # l) = approved l"

fun confirms_ok :: "bt_event list \<Rightarrow> bool" where
  "confirms_ok [] = True"
| "confirms_ok (Iine_confirm d # l) \<longleftrightarrow> approved l = Some (dev_address d) \<and> confirms_ok l"
| "confirms_ok (_ # l) = confirms_ok l"

definition requested_address :: "gamepad_discovery \<Rightarrow> bd_addr option" where
  "requested_address d = (if gd_iine_requested d then Some (gd_selected_address d) else None)"

definition parts_ok :: "gamepad \<Rightarrow> bool" where
  "parts_ok g \<longleftrightarrow> discovery_ok (gp_discovery g) \<and> buffer_ok (gp_input g) \<and> test_ok (gp_test g) \<and>
     approved (gp_log g) = requested_address (gp_discovery g) \<and> confirms_ok (gp_log g)"

definition counts_ok :: "act list \<Rightarrow> act list \<Rightarrow> gamepad \<Rightarrow> bool" where
  "counts_ok bt app g \<longleftrightarrow> tokens bt + tokens app + gp_queued g = (if gp_update_pending g then 1 else 0)"

definition owner_ok :: "act list \<Rightarrow> gamepad \<Rightarrow> bool" where
  "owner_ok bt g \<longleftrightarrow> (settles (pad_connected (gp_sample g)) bt \<longleftrightarrow> gp_owner g \<noteq> None)"

definition policy_ok :: "act list \<Rightarrow> act list \<Rightarrow> gamepad \<Rightarrow> bool" where
  "policy_ok bt app g \<longleftrightarrow> policy_due bt app g \<or>
     scans (gp_scanning g) bt = Some (gp_scan_allowed g \<and> gp_owner g = None)"

definition threads_ok :: "act list \<Rightarrow> act list \<Rightarrow> gamepad \<Rightarrow> bool" where
  "threads_ok bt app g \<longleftrightarrow> counts_ok bt app g \<and> owner_ok bt g \<and> policy_ok bt app g \<and> stack_ok bt \<and>
     list_all app_act app"

definition system_ok :: "gamepad_system \<Rightarrow> bool" where
  "system_ok s \<longleftrightarrow> parts_ok (sys_gp s) \<and> threads_ok (sys_bt s) (sys_app s) (sys_gp s)"

text \<open>The acts that may appear: an address the library passes has six bytes.\<close>

fun act_ok :: "act \<Rightarrow> bool" where
  "act_ok (Bt_discovered a n c) = (length a = 6)" | "act_ok _ = True"

section \<open>The shared structures\<close>

lemma noted_simps [simp]:
  "gp_discovery (noted e g) = gp_discovery g" "gp_input (noted e g) = gp_input g" "gp_test (noted e g) = gp_test g"
  "gp_log (noted e g) = e # gp_log g" "gp_sample (noted e g) = gp_sample g" "gp_owner (noted e g) = gp_owner g"
  "gp_scan_allowed (noted e g) = gp_scan_allowed g" "gp_update_pending (noted e g) = gp_update_pending g"
  "gp_queued (noted e g) = gp_queued g" "gp_scanning (noted e g) = gp_scanning g" "gp_started (noted e g) = gp_started g"
  "gp_passkey_address (noted e g) = gp_passkey_address g"
  by (simp_all add: noted_def)

lemma with_discovery_simps [simp]:
  "gp_discovery (with_discovery f g) = f (gp_discovery g)" "gp_input (with_discovery f g) = gp_input g"
  "gp_test (with_discovery f g) = gp_test g" "gp_log (with_discovery f g) = gp_log g"
  "gp_sample (with_discovery f g) = gp_sample g" "gp_owner (with_discovery f g) = gp_owner g"
  "gp_scan_allowed (with_discovery f g) = gp_scan_allowed g"
  "gp_update_pending (with_discovery f g) = gp_update_pending g" "gp_queued (with_discovery f g) = gp_queued g"
  "gp_scanning (with_discovery f g) = gp_scanning g" "gp_started (with_discovery f g) = gp_started g"
  "gp_passkey_address (with_discovery f g) = gp_passkey_address g"
  by (simp_all add: with_discovery_def)

lemma requested_pairing_done:
  assumes "discovery_ok d"
  shows "requested_address (gamepad_discovery_pairing_done a success d) =
     (if \<not> success \<and> requested_address d = Some a then None else requested_address d)"
  using pairing_okD(2) [of d] assms
  by (auto simp: requested_address_def gamepad_discovery_pairing_done_def gamepad_discovery_should_connect_def
      Let_def revised_def discovery_ok_def)

lemma requested_iine_confirmation:
  assumes "discovery_ok d"
  shows "requested_address (gamepad_discovery_iine_confirmation a pending fw d) =
     (if requested_address d = Some a then None else requested_address d)"
  using pairing_okD(2) [of d] assms
  by (auto simp: requested_address_def gamepad_discovery_iine_confirmation_def gamepad_discovery_should_connect_def
      revised_def discovery_ok_def)

lemma requested_kept [simp]:
  "requested_address (revised d) = requested_address d" "requested_address (set_candidate i c d) = requested_address d"
  "requested_address (d\<lparr>gd_count := n\<rparr>) = requested_address d"
  by (simp_all add: requested_address_def revised_def set_candidate_def)

lemma requested_refresh [simp]:
  "requested_address (refresh_kind i k h d) = requested_address d" "requested_address (refresh_name i n d) = requested_address d"
  by (simp_all add: refresh_kind_def refresh_name_def Let_def)

lemma requested_same:
  "requested_address (gamepad_discovery_passkey a key d) = requested_address d"
  "requested_address (gamepad_discovery_begin_scan d) = requested_address d"
  "requested_address (snd (gamepad_discovery_observe a cod name d)) = requested_address d"
proof -
  show "requested_address (snd (gamepad_discovery_observe a cod name d)) = requested_address d"
    unfolding gamepad_discovery_observe_def Let_def
    by (cases "find_candidate [0..<gd_count d] a d") simp_all
qed (simp_all add: requested_address_def gamepad_discovery_passkey_def gamepad_discovery_begin_scan_def revised_def)

lemma requested_clear: "requested_address (gamepad_discovery_clear_selection d) = None"
  by (simp add: gamepad_discovery_clear_selection_def requested_address_def gamepad_discovery_begin_scan_def
      revised_def reset_pairing_def)

lemma requested_select: "gamepad_discovery_select i d = (True, e) \<Longrightarrow> requested_address e = None"
  by (auto simp: gamepad_discovery_select_def requested_address_def revised_def reset_pairing_def split: if_splits)

lemma requested_confirm:
  "gamepad_discovery_confirm_iine d = (True, e) \<Longrightarrow> requested_address e = Some (gd_selected_address e)"
  by (auto simp: gamepad_discovery_confirm_iine_def requested_address_def revised_def split: if_splits)

lemma parts_pairing_done: "parts_ok g \<Longrightarrow> parts_ok (pairing_done a success g)"
  by (simp add: parts_ok_def pairing_done_def Let_def pairing_done_ok requested_pairing_done)

text \<open>Events that neither give nor take the confirmation.\<close>

fun neutral :: "bt_event \<Rightarrow> bool" where
  "neutral (Confirmed a) = False" | "neutral (Iine_confirm d) = False" | "neutral (Picked a) = False"
| "neutral Cancelled = False" | "neutral (Failed a) = False" | "neutral (Firmware_report a) = False" | "neutral _ = True"

lemma parts_noted [simp]: "neutral e \<Longrightarrow> parts_ok (noted e g) = parts_ok g"
  by (cases e) (simp_all add: parts_ok_def)

lemma parts_other [simp]:
  "parts_ok (gp_owner_update f g) = parts_ok g" "parts_ok (gp_scan_allowed_update b g) = parts_ok g"
  "parts_ok (gp_update_pending_update b g) = parts_ok g" "parts_ok (gp_passkey_address_update h g) = parts_ok g"
  "parts_ok (gp_reported_drops_update k g) = parts_ok g" "parts_ok (gp_queued_update n g) = parts_ok g"
  "parts_ok (gp_scanning_update c g) = parts_ok g" "parts_ok (gp_started_update b g) = parts_ok g"
  by (simp_all add: parts_ok_def)

lemma parts_select: "parts_ok g \<Longrightarrow> parts_ok (snd (snd (gamepad_select_candidate i g)))"
  using select_ok [of "gp_discovery g" i] requested_select [of i "gp_discovery g"]
  by (cases "gamepad_discovery_select i (gp_discovery g)")
    (auto simp: gamepad_select_candidate_def parts_ok_def gamepad_discovery_select_def Let_def split: if_splits)

lemma parts_confirm: "parts_ok g \<Longrightarrow> parts_ok (snd (snd (gamepad_confirm_iine g)))"
  using confirm_iine_ok [of "gp_discovery g"] requested_confirm [of "gp_discovery g"]
  by (cases "gamepad_discovery_confirm_iine (gp_discovery g)")
    (auto simp: gamepad_confirm_iine_def parts_ok_def gamepad_discovery_confirm_iine_def Let_def split: if_splits)

lemma parts_slot:
  assumes "parts_ok g"
  shows "parts_ok (snd (policy_slot device no_link g))"
proof (cases device)
  case (Some v)
  let ?d = "gp_discovery g"
  have d: "discovery_ok ?d" using assms by (simp add: parts_ok_def)
  have "discovery_ok (?d\<lparr>gd_iine_requested := False\<rparr>)"
    using d by (simp add: discovery_ok_def) (simp add: pairing_ok_def)
  moreover have "requested_address (?d\<lparr>gd_iine_requested := False\<rparr>) = None" by (simp add: requested_address_def)
  moreover have "requested_address ?d = Some (dev_address v)"
    if "gamepad_discovery_should_connect ?d (dev_address v)" "gd_iine_requested ?d"
    using that by (simp add: requested_address_def gamepad_discovery_should_connect_def)
  ultimately show ?thesis
    using assms Some by (auto simp: policy_slot_def Let_def) (simp_all add: parts_ok_def)
qed (use assms in \<open>simp add: policy_slot_def\<close>)

lemma parts_security: "parts_ok g \<Longrightarrow> parts_ok (security_event ev device g)"
  by (cases ev; cases device)
    (simp_all add: security_event_def Let_def parts_pairing_done, simp add: parts_ok_def passkey_ok requested_same)

lemma parts_discovered:
  assumes "parts_ok g" "length a = 6"
  shows "parts_ok (snd (device_discovered a name cod g))"
proof -
  obtain c d where o: "gamepad_discovery_observe a cod name (gp_discovery g) = (c, d)" by fastforce
  have "parts_ok (g\<lparr>gp_discovery := d\<rparr>)"
    using assms o observe_ok [of "gp_discovery g" a cod name] requested_same(3) [of a cod name "gp_discovery g"]
    by (simp add: parts_ok_def)
  then show ?thesis using o by (simp add: device_discovered_def Let_def parts_pairing_done)
qed

lemma report_reset_ok: "buffer_ok s \<Longrightarrow> buffer_ok (gb_input_buffer_reset p en s)"
  by (simp add: gb_input_buffer_reset_def ring_clear_def buffer_ok_def)

lemma perform_parts:
  assumes "parts_ok g" "act_ok a"
  shows "parts_ok (snd (perform e a g))"
proof (cases a)
  case App_begin
  then show ?thesis
    using assms by (simp add: gamepad_begin_discovery_def) (simp add: parts_ok_def begin_scan_ok requested_same)
next
  case App_clear
  then show ?thesis
    using assms by (simp add: gamepad_clear_selection_def) (simp add: parts_ok_def clear_selection_ok requested_clear)
next
  case (Bt_iine device pending fw)
  then show ?thesis
    using assms by (simp add: iine_confirmation_def) (simp add: parts_ok_def iine_confirmation_ok requested_iine_confirmation)
next
  case (Bt_data device ctl)
  then show ?thesis
    using assms
    by (cases ctl) (auto simp: controller_data_def Let_def parts_ok_def intro: test_update_ok)
next
  case (Set_sample p)
  then show ?thesis
    using assms push_refines by (simp add: set_sample_def) (simp add: parts_ok_def)
next
  case (Reset_test c k i f)
  then show ?thesis
    using assms test_reset_ok [of c k] by (simp add: parts_ok_def test_ok_def)
next
  case (App_gameplay b)
  then show ?thesis
    using assms by (simp add: gamepad_set_gameplay_def) (simp add: parts_ok_def report_reset_ok)
next
  case App_frame
  then show ?thesis
    using assms take_refines [of "gp_input g" "an_now e"]
    by (auto simp: gamepad_frame_snapshot_def parts_ok_def split: prod.split)
qed (use assms in \<open>simp_all add: parts_select parts_confirm parts_slot parts_security parts_discovered parts_pairing_done
    passkey_timeout_def gamepad_set_scanning_def apply_scan_policy_def
    Let_def device_disconnected_def device_ready_def update_scan_policy_def delete_device_def scan_request_def\<close>)

section \<open>The threads\<close>

lemma settles_append [simp]: "settles c (xs @ ys) = settles (settles c xs) ys"
  by (induction c xs rule: settles.induct) simp_all

lemma scans_append [simp]: "scans c (xs @ ys) = scans (scans c xs) ys"
  by (induction c xs rule: scans.induct) simp_all

lemma settles_no_sample: "no_sample as \<Longrightarrow> settles c as = c"
  by (induction c as rule: settles.induct) (auto simp: no_sample_def)

lemma scans_no_scan: "no_scan as \<Longrightarrow> scans c as = c"
  by (induction c as rule: scans.induct) (auto simp: no_scan_def)

lemma tokens_simps [simp]:
  "tokens [] = 0" "tokens (a # as) = (if policy_token a then 1 else 0) + tokens as"
  "tokens (as @ bs) = tokens as + tokens bs"
  by (simp_all add: tokens_def)

lemma no_sample_simps [simp]:
  "no_sample []" "no_sample (a # as) \<longleftrightarrow> (\<forall>p. a \<noteq> Set_sample p) \<and> no_sample as"
  by (auto simp: no_sample_def)

text \<open>What the thread invariants see of the state.\<close>

definition view :: "gamepad \<Rightarrow> bool \<times> bool \<times> bool option \<times> bool \<times> bool \<times> nat" where
  "view g = (pad_connected (gp_sample g), gp_owner g \<noteq> None, gp_scanning g, gp_scan_allowed g, gp_update_pending g,
     gp_queued g)"

lemma threads_view:
  assumes "view g = view g'"
  shows "threads_ok bt app g = threads_ok bt app g'"
proof -
  have "pad_connected (gp_sample g) = pad_connected (gp_sample g')" "(gp_owner g \<noteq> None) = (gp_owner g' \<noteq> None)"
    "gp_scanning g = gp_scanning g'" "gp_scan_allowed g = gp_scan_allowed g'"
    "gp_update_pending g = gp_update_pending g'" "gp_queued g = gp_queued g'"
    using assms unfolding view_def prod.inject by blast+
  then show ?thesis
    unfolding threads_ok_def counts_ok_def owner_ok_def policy_ok_def policy_due_def by presburger
qed

lemma view_simps [simp]:
  "view (noted e g) = view g" "view (with_discovery f g) = view g" "view (gp_discovery_update f g) = view g"
  "view (gp_input_update h g) = view g" "view (gp_test_update t g) = view g"
  "view (gp_passkey_address_update k g) = view g" "view (gp_reported_drops_update d g) = view g"
  by (simp_all add: view_def)

lemma view_pairing_done [simp]: "view (pairing_done a s g) = view g"
  by (simp add: pairing_done_def Let_def)

lemma view_security [simp]: "view (security_event ev device g) = view g"
  by (cases ev; cases device) (simp_all add: security_event_def Let_def)

text \<open>Acts that leave the view alone and have nothing to follow, or only the places where callbacks nest.\<close>

fun aside :: "act \<Rightarrow> bool" where
  "aside App_begin = True" | "aside (App_gameplay b) = True" | "aside App_frame = True" | "aside Bt_timeout = True"
| "aside (Bt_iine d p f) = True" | "aside (Bt_security e d) = True" | "aside (Bt_discovered a n c) = True"
| "aside (Reset_test c k i f) = True" | "aside Nest = True" | "aside Slot = True" | "aside (Delete d) = True"
| "aside _ = False"

lemma perform_aside:
  assumes "aside a" "perform e a g = (todo, g')"
  shows "view g' = view g \<and> (todo = [] \<or> todo = [Nest] \<and> \<not> continuation_act a \<or>
    (\<exists>d. todo = [Nest, Delete d] \<and> \<not> continuation_act a))"
proof (cases a)
  case Slot
  show ?thesis
  proof (cases "an_slot e")
    case None
    then show ?thesis using assms Slot by (simp add: policy_slot_def)
  next
    case (Some v)
    then show ?thesis
      using assms Slot by (auto simp: policy_slot_def Let_def split: if_splits)
  qed
qed (use assms in \<open>auto simp: gamepad_begin_discovery_def gamepad_set_gameplay_def gamepad_frame_snapshot_def
    passkey_timeout_def iine_confirmation_def device_discovered_def Let_def delete_device_def
    split: prod.splits if_splits\<close>)

lemma aside_head:
  assumes "aside a"
  shows "settles c (a # as) = settles c as" "scans k (a # as) = scans k as" "\<not> policy_token a" "a \<noteq> Update"
    "a \<noteq> Bt_policy" "\<And>p. a \<noteq> Set_sample p"
  using assms by (cases a; simp)+

lemma threads_drop_aside:
  assumes "threads_ok (a # as) app g" "aside a"
  shows "threads_ok as app g \<and> (\<not> continuation_act a \<longrightarrow> no_sample as)"
  using assms aside_head(4) [OF assms(2)]
  by (auto simp: threads_ok_def counts_ok_def owner_ok_def policy_ok_def policy_due_def aside_head)

lemma threads_nest:
  assumes "threads_ok as app g" "no_sample as"
  shows "threads_ok (Nest # as) app g" "threads_ok (Nest # Delete d # as) app g"
  using assms by (simp_all add: threads_ok_def counts_ok_def owner_ok_def policy_ok_def policy_due_def)

lemma bt_aside:
  assumes "threads_ok (a # as) app g" "aside a" "perform e a g = (todo, g')"
  shows "threads_ok (todo @ as) app g'"
proof -
  have v: "view g' = view g" and t: "todo = [] \<or> todo = [Nest] \<and> \<not> continuation_act a \<or>
      (\<exists>d. todo = [Nest, Delete d] \<and> \<not> continuation_act a)"
    using perform_aside [OF assms(2,3)] by blast+
  have "threads_ok (todo @ as) app g"
    using threads_drop_aside [OF assms(1,2)] t threads_nest [of as app g] by auto
  then show ?thesis using threads_view [OF v] by simp
qed

text \<open>The other acts of the Bluetooth thread.\<close>

lemmas threads_defs = threads_ok_def counts_ok_def owner_ok_def policy_ok_def policy_due_def

lemma connected_only [simp]: "pad_connected (no_pad\<lparr>pad_connected := c\<rparr>) = c" "\<not> pad_connected no_pad"
  by (simp_all add: no_pad_def)

lemma bt_disconnected:
  assumes "threads_ok (Bt_disconnected d # as) app g" "device_disconnected d g = (todo, g')"
  shows "threads_ok (todo @ as) app g'"
proof -
  define h where "h = (if gp_passkey_address (pairing_done (dev_address d) False g) = dev_address d
    then noted Stop_passkey_timer (pairing_done (dev_address d) False g) else pairing_done (dev_address d) False g)"
  have v: "view h = view g" by (simp add: h_def)
  have ns: "no_sample as" and t: "threads_ok as app h"
    using assms(1) threads_view [OF v, of as app] by (simp_all add: threads_defs)
  have r: "(todo, g') = (if gp_owner h \<noteq> Some (dev_id d) then ([], h)
      else ([Reset_test False False False 0, Set_sample no_pad, Update], h\<lparr>gp_owner := None\<rparr>))"
    using assms(2) unfolding device_disconnected_def Let_def h_def by simp
  show ?thesis
  proof (cases "gp_owner h = Some (dev_id d)")
    case True
    then show ?thesis using r t ns by (simp add: threads_defs settles_no_sample)
  qed (use r t in simp)
qed

lemma bt_ready:
  assumes "threads_ok (Bt_ready d # as) app g" "device_ready d g = (res, todo, g')"
  shows "threads_ok (todo @ as) app g'"
proof -
  define h where "h = (if gamepad_discovery_should_connect (gp_discovery g) (dev_address d)
    then pairing_done (dev_address d) True g else g)"
  have v: "view h = view g" by (simp add: h_def)
  have ns: "no_sample as" and tg: "threads_ok as app g" using assms(1) by (simp_all add: threads_defs)
  then have t: "threads_ok as app h" using threads_view [OF v, of as app] by simp
  have "(todo = [] \<and> (g' = g \<or> g' = h)) \<or>
      (\<exists>k i f. todo = [Reset_test True k i f, Set_sample (no_pad\<lparr>pad_connected := True\<rparr>), Update] \<and>
        g' = (noted Stop_passkey_timer h)\<lparr>gp_owner := Some (dev_id d)\<rparr>)"
    using assms(2) by (auto simp: device_ready_def Let_def h_def split: if_splits)
  then show ?thesis
  proof (elim disjE exE conjE)
    fix k i f
    assume "todo = [Reset_test True k i f, Set_sample (no_pad\<lparr>pad_connected := True\<rparr>), Update]"
      "g' = (noted Stop_passkey_timer h)\<lparr>gp_owner := Some (dev_id d)\<rparr>"
    then show ?thesis using t ns by (simp add: threads_defs settles_no_sample)
  qed (use t tg in simp_all)
qed

lemma keyboard_connected [simp]: "pad_connected (gb_input_keyboard (Some ks) m)"
  by (simp add: keyboard_by_set keyboard_spec_def no_pad_def)

lemma stick_connected [simp]: "pad_connected (gb_input_left_stick x y p) = pad_connected p"
  by (simp add: gb_input_left_stick_def Let_def)

lemma bt_data:
  assumes "threads_ok (Bt_data d ctl # as) app g" "controller_data d ctl now g = (todo, g')"
  shows "threads_ok (todo @ as) app g'"
proof -
  have ns: "no_sample as" and t: "threads_ok as app g" using assms(1) by (simp_all add: threads_defs)
  have v: "view g' = view g"
    using assms(2) by (auto simp: controller_data_def Let_def split: if_splits controller.splits)
  have todo: "todo = [] \<or> (\<exists>p. todo = [Set_sample p] \<and> pad_connected p) \<and> gp_owner g \<noteq> None"
    using assms(2) by (auto simp: controller_data_def Let_def gamepad_sample_def split: if_splits controller.splits)
  have "threads_ok (todo @ as) app g"
    using todo t ns by (auto simp: threads_defs settles_no_sample)
  then show ?thesis using threads_view [OF v] by simp
qed

lemma settles_slots [simp]: "settles c (replicate n Slot @ as) = settles c as"
  by (induction n) simp_all

lemma bt_policy:
  assumes "threads_ok (Bt_policy # as) app g" "apply_scan_policy g = (todo, g')"
  shows "threads_ok (todo @ as) app g'"
proof -
  let ?b = "gp_scan_allowed g \<and> \<not> pad_connected (gp_sample g)"
  have ns: "no_sample as" "no_scan as" and t: "threads_ok (Bt_policy # as) app g"
    using assms(1) by (simp_all add: threads_ok_def)
  have todo: "todo = [Slot, Scan ?b]"
    using assms(2) by (simp add: apply_scan_policy_def CONFIG_BLUEPAD32_MAX_DEVICES_def Let_def)
  have v: "view g' = view (g\<lparr>gp_update_pending := False\<rparr>)"
    using assms(2) by (auto simp: apply_scan_policy_def Let_def)
  have p: "gp_update_pending g" "tokens as + tokens app + gp_queued g = 0"
    using t by (auto simp: threads_ok_def counts_ok_def split: if_splits)
  have "threads_ok (todo @ as) app (g\<lparr>gp_update_pending := False\<rparr>)"
    using t p ns by (auto simp: todo threads_defs settles_no_sample scans_no_scan)
  then show ?thesis using threads_view [OF v] by simp
qed

lemma bt_update:
  assumes "threads_ok (Update # as) app g" "update_scan_policy g = (todo, g')"
  shows "threads_ok (todo @ as) app g'"
  using assms by (auto simp: update_scan_policy_def Let_def threads_defs split: if_splits)

text \<open>Acts of the application: one section, then possibly a request to review the scan policy.\<close>

fun asking :: "act \<Rightarrow> bool" where
  "asking (App_select i) = True" | "asking App_clear = True" | "asking App_confirm = True"
| "asking (App_scanning b) = True" | "asking _ = False"

lemma perform_asking:
  assumes "asking a" "perform e a g = (todo, g')"
  shows "(todo = [] \<or> todo = [Update]) \<and> view g' = view g \<or>
    todo = [Update] \<and> (\<exists>b. view g' = view (g\<lparr>gp_scan_allowed := b\<rparr>))"
  using assms
  by (cases a) (auto simp: gamepad_select_candidate_def gamepad_clear_selection_def gamepad_confirm_iine_def
      gamepad_set_scanning_def Let_def split: prod.splits if_splits)

lemma threads_ask: "threads_ok as app g \<Longrightarrow> no_sample as \<Longrightarrow> threads_ok (Update # as) app g"
  by (simp add: threads_defs)

lemma bt_asking:
  assumes "threads_ok (a # as) app g" "asking a" "perform e a g = (todo, g')"
  shows "threads_ok (todo @ as) app g'"
proof -
  have a: "settles c (a # as) = settles c as" "scans k (a # as) = scans k as" "\<not> policy_token a" "a \<noteq> Update"
    "\<not> continuation_act a" for c k using assms(2) by (cases a; simp)+
  have t: "threads_ok as app g" using assms(1) a(4) by (auto simp: threads_defs a)
  consider "todo = []" "view g' = view g" | "todo = [Update]" "view g' = view g"
    | b where "todo = [Update]" "view g' = view (g\<lparr>gp_scan_allowed := b\<rparr>)"
    using perform_asking [OF assms(2,3)] by blast
  then show ?thesis
  proof cases
    case 1
    then show ?thesis using t threads_view [OF 1(2)] by simp
  next
    case 2
    then have "threads_ok (todo @ as) app g" using t by (simp add: threads_defs)
    then show ?thesis using threads_view [OF 2(2)] by simp
  next
    case 3
    then have "threads_ok (todo @ as) app (g\<lparr>gp_scan_allowed := b\<rparr>)" using t by (simp add: threads_defs)
    then show ?thesis using threads_view [OF 3(2)] by simp
  qed
qed

lemma app_asking:
  assumes "threads_ok bt (a # as) g" "asking a" "perform e a g = (todo, g')"
  shows "threads_ok bt (todo @ as) g'"
proof -
  have a: "\<not> policy_token a" "a \<noteq> Update" using assms(2) by (cases a; simp)+
  have t: "threads_ok bt as g" using assms(1) a(2) by (auto simp: threads_defs a)
  consider "todo = []" "view g' = view g" | "todo = [Update]" "view g' = view g"
    | b where "todo = [Update]" "view g' = view (g\<lparr>gp_scan_allowed := b\<rparr>)"
    using perform_asking [OF assms(2,3)] by blast
  then show ?thesis
  proof cases
    case 1
    then show ?thesis using t threads_view [OF 1(2)] by simp
  next
    case 2
    then have "threads_ok bt (todo @ as) g" using t by (simp add: threads_defs app_act_def)
    then show ?thesis using threads_view [OF 2(2)] by simp
  next
    case 3
    then have "threads_ok bt (todo @ as) (g\<lparr>gp_scan_allowed := b\<rparr>)" using t by (simp add: threads_defs app_act_def)
    then show ?thesis using threads_view [OF 3(2)] by simp
  qed
qed

lemma bt_performs:
  assumes "threads_ok (a # as) app g" "perform e a g = (todo, g')"
  shows "threads_ok (todo @ as) app g'"
proof (cases "aside a \<or> asking a")
  case True
  then show ?thesis using bt_aside [OF assms(1) _ assms(2)] bt_asking [OF assms(1) _ assms(2)] by blast
next
  case False
  then show ?thesis
  proof (cases a)
    case Bt_policy
    then show ?thesis using assms bt_policy by simp
  next
    case (Bt_disconnected d)
    then show ?thesis using assms bt_disconnected by simp
  next
    case (Bt_ready d)
    then show ?thesis using assms bt_ready [of d as app g] by (cases "device_ready d g") simp
  next
    case (Bt_data d c)
    then show ?thesis using assms bt_data by simp
  next
    case Update
    then show ?thesis using assms bt_update by simp
  next
    case Enqueue
    then show ?thesis using assms by (auto simp: threads_defs split: if_splits)
  next
    case (Set_sample p)
    then show ?thesis using assms by (auto simp: threads_defs set_sample_def settles_no_sample)
  next
    case (Scan b)
    then show ?thesis using assms by (auto simp: threads_defs scan_request_def)
  qed simp_all
qed

lemma app_performs:
  assumes "threads_ok bt (a # as) g" "perform e a g = (todo, g')"
  shows "threads_ok bt (todo @ as) g'"
proof -
  have act: "app_act a" using assms(1) by (simp add: threads_ok_def)
  consider "aside a" "app_call a" | "asking a" | "a = Update" | "a = Enqueue"
    using act by (cases a) (auto simp: app_act_def)
  then show ?thesis
  proof cases
    case 1
    have t: "todo = []" using 1 assms(2) by (cases a) simp_all
    have v: "view g' = view g" using perform_aside [OF 1(1) assms(2)] by blast
    have "threads_ok bt as g" using assms(1) aside_head(3,4) [OF 1(1)] by (auto simp: threads_defs)
    then show ?thesis using t threads_view [OF v] by simp
  next
    case 2
    then show ?thesis using app_asking [OF assms(1) _ assms(2)] by blast
  next
    case 3
    then show ?thesis
      using assms by (auto simp: update_scan_policy_def Let_def threads_defs app_act_def split: if_splits)
  next
    case 4
    then show ?thesis using assms by (auto simp: threads_defs split: if_splits)
  qed
qed

section \<open>Reachable states\<close>

text \<open>The acts waiting on the Bluetooth thread pass addresses of six bytes.\<close>

definition bt_acts_ok :: "gamepad_system \<Rightarrow> bool" where
  "bt_acts_ok s \<longleftrightarrow> list_all act_ok (sys_bt s) \<and> list_all act_ok (sys_app s)"

lemma perform_acts: "perform e a g = (todo, g') \<Longrightarrow> list_all act_ok todo"
  by (cases a) (auto simp: gamepad_select_candidate_def gamepad_clear_selection_def gamepad_confirm_iine_def
      gamepad_set_scanning_def apply_scan_policy_def policy_slot_def delete_device_def device_disconnected_def
      device_ready_def controller_data_def update_scan_policy_def Let_def list_all_iff
      split: prod.splits if_splits option.splits controller.splits)

lemma bt_callback_ok: "bt_callback a \<Longrightarrow> act_ok a" "nested_callback a \<Longrightarrow> act_ok a" "app_call a \<Longrightarrow> act_ok a"
  by (cases a; simp)+

lemma callback_head:
  assumes "bt_callback a \<or> nested_callback a"
  shows "settles c (a # as) = settles c as" "scans k (a # as) = scans k as" "\<not> policy_token a" "a \<noteq> Bt_policy"
    "\<And>p. a \<noteq> Set_sample p"
  using assms by (cases a; simp)+

lemma threads_push:
  assumes "threads_ok as app g" "bt_callback a \<or> nested_callback a" "no_sample as"
  shows "threads_ok (a # as) app g"
  using assms by (auto simp: threads_defs callback_head)

lemma work_ok:
  assumes "work_step s t" "system_ok s" "bt_acts_ok s"
  shows "system_ok t \<and> bt_acts_ok t"
  using assms
proof (induction rule: work_step.induct)
  case (Bt_runs s a as e todo g)
  have "parts_ok g" using perform_parts [of "sys_gp s" a e] Bt_runs by (simp add: system_ok_def bt_acts_ok_def)
  moreover have "threads_ok (todo @ as) (sys_app s) g"
    using bt_performs [of a as "sys_app s" "sys_gp s" e] Bt_runs by (simp add: system_ok_def)
  ultimately show ?case using Bt_runs perform_acts by (simp add: system_ok_def bt_acts_ok_def)
next
  case (App_runs s a as e todo g)
  have "parts_ok g" using perform_parts [of "sys_gp s" a e] App_runs by (simp add: system_ok_def bt_acts_ok_def)
  moreover have "threads_ok (sys_bt s) (todo @ as) g"
    using app_performs [of "sys_bt s" a as "sys_gp s" e] App_runs by (simp add: system_ok_def)
  ultimately show ?case using App_runs perform_acts by (simp add: system_ok_def bt_acts_ok_def)
next
  case (Run_loop s)
  then show ?case by (auto simp: system_ok_def bt_acts_ok_def threads_defs no_scan_def split: if_splits)
qed

lemma step_ok:
  assumes "gamepad_step s t" "system_ok s" "bt_acts_ok s"
  shows "system_ok t \<and> bt_acts_ok t"
  using assms
proof (induction rule: gamepad_step.induct)
  case (Works s t)
  then show ?case by (rule work_ok)
next
  case (Callback s a)
  then show ?case using threads_push [of "[]" "sys_app s" "sys_gp s" a] bt_callback_ok(1)
    by (simp add: system_ok_def bt_acts_ok_def)
next
  case (Nested s as a)
  have "no_sample as" using Nested by (simp add: system_ok_def threads_ok_def)
  then show ?case using Nested threads_push [of "Nest # as" "sys_app s" "sys_gp s" a] bt_callback_ok(2)
    by (simp add: system_ok_def bt_acts_ok_def)
next
  case (Called s a)
  have "\<not> policy_token a" "app_act a" using Called by (cases a; simp add: app_act_def)+
  then show ?case using Called bt_callback_ok(3)
    by (auto simp: system_ok_def bt_acts_ok_def threads_defs)
qed

lemma gamepad_up_ok: "system_ok gamepad_up \<and> bt_acts_ok gamepad_up"
  by (simp add: gamepad_up_def system_ok_def bt_acts_ok_def platform_ready_def scan_request_def gamepad_start_def
      no_gamepad_def parts_ok_def threads_defs no_discovery_ok test_reset_ok buffer_ok_def)
    (simp add: requested_address_def no_discovery_def)

lemma reach_ok: "gamepad_reach s \<Longrightarrow> system_ok s \<and> bt_acts_ok s"
  by (induction rule: gamepad_reach.induct) (use gamepad_up_ok step_ok in blast)+

section \<open>Work comes to an end\<close>

text \<open>How much an act still brings about, a queued callback included.\<close>

fun weight :: "act \<Rightarrow> nat" where
  "weight (App_select i) = 10" | "weight App_clear = 10" | "weight App_confirm = 10" | "weight (App_scanning b) = 10"
| "weight Bt_policy = 6" | "weight (Bt_disconnected d) = 12" | "weight (Bt_ready d) = 12" | "weight (Bt_data d c) = 2"
| "weight Update = 9" | "weight Enqueue = 8" | "weight Slot = 4" | "weight (Delete d) = 2" | "weight _ = 1"

definition work :: "gamepad_system \<Rightarrow> nat" where
  "work s = sum_list (map weight (sys_bt s)) + sum_list (map weight (sys_app s)) + 7 * gp_queued (sys_gp s)"

definition idle :: "gamepad_system \<Rightarrow> bool" where
  "idle s \<longleftrightarrow> sys_bt s = [] \<and> sys_app s = [] \<and> gp_queued (sys_gp s) = 0"

lemma pairing_done_queued [simp]: "gp_queued (pairing_done a b g) = gp_queued g"
  by (simp add: pairing_done_def Let_def)

lemma security_queued [simp]: "gp_queued (security_event ev d g) = gp_queued g"
  by (cases ev; cases d) (simp_all add: security_event_def Let_def)

lemma slot_weight: "policy_slot d l g = (todo, g') \<Longrightarrow> sum_list (map weight todo) \<le> 3 \<and> gp_queued g' = gp_queued g"
  by (cases d) (auto simp: policy_slot_def Let_def split: if_splits)

lemma aside_weight:
  assumes "aside a" "perform e a g = (todo, g')"
  shows "sum_list (map weight todo) < weight a \<and> gp_queued g' = gp_queued g"
proof (cases a)
  case Slot
  then show ?thesis using assms slot_weight [of "an_slot e" "an_no_link e" g todo g'] by simp
qed (use assms in \<open>auto simp: gamepad_begin_discovery_def gamepad_set_gameplay_def gamepad_frame_snapshot_def
    passkey_timeout_def iine_confirmation_def device_discovered_def Let_def delete_device_def
    split: prod.splits if_splits\<close>)

lemma asking_weight:
  assumes "asking a" "perform e a g = (todo, g')"
  shows "sum_list (map weight todo) < weight a \<and> gp_queued g' = gp_queued g"
  using assms
  by (cases a) (auto simp: gamepad_select_candidate_def gamepad_clear_selection_def gamepad_confirm_iine_def
      gamepad_set_scanning_def Let_def split: prod.splits if_splits)

lemma perform_weight:
  assumes "perform e a g = (todo, g')"
  shows "sum_list (map weight todo) + 7 * gp_queued g' < weight a + 7 * gp_queued g"
proof (cases "aside a \<or> asking a")
  case True
  then show ?thesis using aside_weight [OF _ assms] asking_weight [OF _ assms] by auto
next
  case False
  then show ?thesis
    using assms
    by (cases a) (auto simp: apply_scan_policy_def CONFIG_BLUEPAD32_MAX_DEVICES_def device_disconnected_def
        device_ready_def controller_data_def update_scan_policy_def set_sample_def scan_request_def Let_def
        split: if_splits controller.splits prod.splits)
qed

lemma work_decreases: "work_step s t \<Longrightarrow> work t < work s"
proof (induction rule: work_step.induct)
  case (Bt_runs s a as e todo g)
  then show ?case using perform_weight [of e a "sys_gp s" todo g] by (simp add: work_def)
next
  case (App_runs s a as e todo g)
  then show ?case using perform_weight [of e a "sys_gp s" todo g] by (simp add: work_def)
next
  case (Run_loop s)
  then show ?case by (simp add: work_def)
qed

lemma work_goes_on: "\<not> idle s \<Longrightarrow> \<exists>t. work_step s t"
proof -
  fix e :: answers
  assume "\<not> idle s"
  then consider a as where "sys_bt s = a # as" | a as where "sys_app s = a # as"
    | "sys_bt s = []" "0 < gp_queued (sys_gp s)"
    by (cases "sys_bt s"; cases "sys_app s") (auto simp: idle_def)
  then show "\<exists>t. work_step s t"
  proof cases
    case (1 a as)
    then show ?thesis by (cases "perform e a (sys_gp s)") (blast intro: Bt_runs)
  next
    case (2 a as)
    then show ?thesis by (cases "perform e a (sys_gp s)") (blast intro: App_runs)
  next
    case 3
    then show ?thesis by (blast intro: Run_loop)
  qed
qed

lemma work_ends: "\<exists>t. work_step\<^sup>*\<^sup>* s t \<and> idle t"
proof (induction "work s" arbitrary: s rule: less_induct)
  case less
  show ?case
  proof (cases "idle s")
    case False
    then obtain t where t: "work_step s t" using work_goes_on by blast
    then obtain u where "work_step\<^sup>*\<^sup>* t u" "idle u" using less work_decreases by blast
    then show ?thesis using t by (meson converse_rtranclp_into_rtranclp)
  qed blast
qed

lemma work_reach: "work_step\<^sup>*\<^sup>* s t \<Longrightarrow> gamepad_reach s \<Longrightarrow> gamepad_reach t"
  by (induction rule: rtranclp_induct) (auto intro: More Works)

lemma idle_settled:
  assumes "gamepad_reach s" "idle s"
  shows "gp_scanning (sys_gp s) = Some (gp_scan_allowed (sys_gp s) \<and> \<not> pad_connected (gp_sample (sys_gp s)))"
  using reach_ok [OF assms(1)] assms(2) by (auto simp: system_ok_def threads_defs idle_def split: if_splits)

section \<open>Running the relation\<close>

text \<open>One choice of what happens next, and the state after it if it can happen.\<close>

datatype choice = Go_bt answers | Go_app answers | Go_loop | Call_back act | Call_nested act | Call act

definition run_act :: "answers \<Rightarrow> act list \<Rightarrow> gamepad \<Rightarrow> (act list \<times> gamepad) option" where
  "run_act e as g = (case as of [] \<Rightarrow> None | a # as \<Rightarrow> (let (todo, g) = perform e a g in Some (todo @ as, g)))"

fun follow :: "choice \<Rightarrow> gamepad_system \<Rightarrow> gamepad_system option" where
  "follow (Go_bt e) s = map_option (\<lambda>(as, g). s\<lparr>sys_bt := as, sys_gp := g\<rparr>) (run_act e (sys_bt s) (sys_gp s))"
| "follow (Go_app e) s = map_option (\<lambda>(as, g). s\<lparr>sys_app := as, sys_gp := g\<rparr>) (run_act e (sys_app s) (sys_gp s))"
| "follow Go_loop s =
     (if sys_bt s = [] \<and> 0 < gp_queued (sys_gp s)
      then Some (s\<lparr>sys_bt := [Bt_policy], sys_gp := (sys_gp s)\<lparr>gp_queued := gp_queued (sys_gp s) - 1\<rparr>\<rparr>) else None)"
| "follow (Call_back a) s = (if sys_bt s = [] \<and> bt_callback a then Some (s\<lparr>sys_bt := [a]\<rparr>) else None)"
| "follow (Call_nested a) s =
     (case sys_bt s of Nest # as \<Rightarrow> if nested_callback a then Some (s\<lparr>sys_bt := a # Nest # as\<rparr>) else None | _ \<Rightarrow> None)"
| "follow (Call a) s = (if sys_app s = [] \<and> app_call a then Some (s\<lparr>sys_app := [a]\<rparr>) else None)"

fun follow_all :: "choice list \<Rightarrow> gamepad_system \<Rightarrow> gamepad_system option" where
  "follow_all [] s = Some s"
| "follow_all (c # cs) s = (case follow c s of None \<Rightarrow> None | Some t \<Rightarrow> follow_all cs t)"

lemma follow_step: "follow c s = Some t \<Longrightarrow> gamepad_step s t"
proof (cases c)
  case (Go_bt e)
  assume "follow c s = Some t"
  then show ?thesis using Go_bt
    by (cases "sys_bt s") (auto simp: run_act_def split: prod.splits intro!: Works Bt_runs)
next
  case (Go_app e)
  assume "follow c s = Some t"
  then show ?thesis using Go_app
    by (cases "sys_app s") (auto simp: run_act_def split: prod.splits intro!: Works App_runs)
next
  case Go_loop
  assume "follow c s = Some t"
  then show ?thesis using Go_loop Works [OF Run_loop, of s] by (auto split: if_splits)
next
  case (Call_nested a)
  assume "follow c s = Some t"
  then show ?thesis using Call_nested by (auto split: list.splits act.splits if_splits intro: Nested)
qed (auto split: if_splits intro: Callback Called)

lemma follow_all_reach: "follow_all cs s = Some t \<Longrightarrow> gamepad_reach s \<Longrightarrow> gamepad_reach t"
proof (induction cs arbitrary: s)
  case (Cons c cs)
  then show ?case by (cases "follow c s") (auto dest: follow_step More)
qed simp

end
