(* ===== verification/Pad_Properties.thy ===== *)
theory Pad_Properties
  imports Gamepad_Safe
begin

text \<open>
  The properties of controller discovery and of the controller task, each with a witness where it
  has hypotheses.
\<close>

section \<open>A concrete run\<close>

text \<open>A user picks the first controller found, confirms its unverified firmware, and it connects.\<close>

abbreviation dev1 :: hid_device where
  "dev1 \<equiv> \<lparr>dev_id = 0, dev_address = [1, 2, 3, 4, 5, 6], dev_is_gamepad = True, dev_is_keyboard = False, dev_iine = True,
     dev_firmware = 0x2703\<rparr>"

abbreviation env1 :: answers where
  "env1 \<equiv> \<lparr>an_now = 1000, an_slot = Some dev1, an_no_link = False\<rparr>"

abbreviation pick :: "choice list" where
  "pick \<equiv> [Call_back (Bt_discovered [1, 2, 3, 4, 5, 6] None 0x0508), Go_bt env1, Call (App_select 0), Go_app env1, Go_app env1,
     Go_app env1, Go_loop, Go_bt env1, Go_bt env1, Go_bt env1]"

abbreviation confirm :: "choice list" where
  "confirm \<equiv> [Call_back (Bt_iine dev1 True 0x2703), Go_bt env1, Call App_confirm, Go_app env1, Go_app env1,
     Go_app env1, Go_loop, Go_bt env1, Go_bt env1, Go_bt env1, Go_bt env1]"

abbreviation connect :: "choice list" where
  "connect \<equiv> [Call_back (Bt_ready dev1), Go_bt env1, Go_bt env1, Go_bt env1, Go_bt env1, Go_bt env1]"

definition connected_system :: gamepad_system where
  "connected_system = the (follow_all (pick @ confirm @ connect) gamepad_up)"

lemma connected_run: "follow_all (pick @ confirm @ connect) gamepad_up = Some connected_system"
  unfolding connected_system_def by code_simp

lemma connected_reach: "gamepad_reach connected_system"
  by (rule follow_all_reach [OF connected_run Up])

section \<open>The two threads\<close>

text \<open>C9.  However the application's calls and the Bluetooth callbacks interleave: the candidate list, the pairing
  state, the sample ring and the test state stay well-formed; the scan-policy callback is registered
  with the run loop at most once at a time, also by a thread about to register it; and when neither
  thread is inside a function a controller is owned exactly while the sample says connected.\<close>

theorem gamepad_invariant:
  assumes "gamepad_reach s"
  shows "discovery_ok (gp_discovery (sys_gp s)) \<and> buffer_ok (gp_input (sys_gp s)) \<and> test_ok (gp_test (sys_gp s)) \<and>
    gp_queued (sys_gp s) + tokens (sys_bt s) + tokens (sys_app s) \<le> 1 \<and>
    (sys_bt s = [] \<longrightarrow> (gp_owner (sys_gp s) \<noteq> None \<longleftrightarrow> pad_connected (gp_sample (sys_gp s))))"
proof -
  have p: "parts_ok (sys_gp s)" and t: "threads_ok (sys_bt s) (sys_app s) (sys_gp s)"
    using reach_ok [OF assms] by (simp_all add: system_ok_def)
  have "tokens (sys_bt s) + tokens (sys_app s) + gp_queued (sys_gp s) \<le> 1"
    using t by (auto simp: threads_ok_def counts_ok_def split: if_splits)
  then show ?thesis using p t by (auto simp: parts_ok_def threads_ok_def owner_ok_def)
qed

lemma gamepad_invariant_witness:
  "gp_owner (sys_gp connected_system) = Some 0 \<and> pad_connected (gp_sample (sys_gp connected_system))"
proof -
  have "sys_bt connected_system = []" "gp_owner (sys_gp connected_system) = Some 0"
    unfolding connected_system_def by code_simp+
  then show ?thesis using gamepad_invariant [OF connected_reach] by simp
qed



text \<open>C32.  Unverified controller firmware is tried only on the user's word: whenever the library was told to go on
  with a device, the user had confirmed that very device, and since then neither cancelled, nor
  picked again, nor used the confirmation up, nor did its pairing fail or its firmware report anew.\<close>

theorem firmware_confirmed:
  assumes "gamepad_reach s" "gp_log (sys_gp s) = later @ Iine_confirm device # earlier"
  shows "approved earlier = Some (dev_address device)"
proof -
  have "confirms_ok (gp_log (sys_gp s))" using reach_ok [OF assms(1)] by (simp add: system_ok_def parts_ok_def)
  then have "confirms_ok (later @ Iine_confirm device # earlier)" using assms(2) by simp
  then show ?thesis
  proof (induction later)
    case (Cons e later)
    then show ?case by (cases e) simp_all
  qed simp
qed

lemma firmware_confirmed_witness:
  "approved [Stop_passkey_timer, Confirmed [1, 2, 3, 4, 5, 6], Firmware_report [1, 2, 3, 4, 5, 6], Start_scanning,
     Stop_passkey_timer, Picked [1, 2, 3, 4, 5, 6], Start_scanning] = Some (dev_address dev1)"
proof -
  have "gp_log (sys_gp connected_system) = [Stop_passkey_timer, Start_scanning] @ Iine_confirm dev1 #
      [Stop_passkey_timer, Confirmed [1, 2, 3, 4, 5, 6], Firmware_report [1, 2, 3, 4, 5, 6], Start_scanning,
       Stop_passkey_timer, Picked [1, 2, 3, 4, 5, 6], Start_scanning]"
    unfolding connected_system_def by code_simp
  then show ?thesis by (rule firmware_confirmed [OF connected_reach])
qed

text \<open>
  Scanning can stay on although the application had turned it off, when it did so before the Bluetooth
  thread came up: \<open>platform_ready\<close> starts scanning without looking at what is allowed.  The next
  policy pass repairs it, so this is no state the property above speaks of.
\<close>

lemma late_start_scans:
  "(case follow_all [Call (App_scanning False), Go_app env1, Go_app env1, Go_app env1, Go_loop, Go_bt env1, Go_bt env1, Go_bt env1]
       \<lparr>sys_gp = snd (gamepad_start True no_gamepad), sys_bt = [], sys_app = []\<rparr> of
     None \<Rightarrow> None
   | Some s \<Rightarrow> let g = platform_ready (sys_gp s) in Some (gp_scan_allowed g, gp_scanning g, gp_queued g)) =
   Some (False, Some True, 0)"
  by code_simp

section \<open>Discovery\<close>

text \<open>What the user picks is what is selected: while devices go on reporting, in any number and order, the
  entry shown at a position stays there, so picking that position later selects its address.\<close>

theorem pick_is_selected:
  assumes "\<forall>x \<in> set xs. op_ok x" "d = fold discovery_step xs no_discovery" "i < gd_count d"
    and "\<forall>e \<in> set es. op_ok (Device e)"
  shows "\<exists>f. gamepad_discovery_select i (fold device_step es d) = (True, f) \<and> gd_selected f \<and>
    gd_selected_address f = cand_address (gd_candidates d ! i)"
proof -
  have d: "discovery_ok d" unfolding assms(2) by (rule discovery_run_ok [OF no_discovery_ok assms(1)])
  have "gd_candidates d ! i = listed d ! i" using d assms(3) listed_nth by (simp add: discovery_ok_def)
  then show ?thesis
    using select_listed [OF d _ _ assms(3)] device_run_places [OF d assms(4)] by simp
qed

lemma pick_is_selected_witness:
  "\<exists>f. gamepad_discovery_select 0 (fold device_step [Observe [9, 9, 9, 9, 9, 9] 0x0540 None]
      (fold discovery_step [Device (Observe [1, 2, 3, 4, 5, 6] 0x0508 (Some [65]))] no_discovery)) = (True, f) \<and>
    gd_selected f \<and> gd_selected_address f = [1, 2, 3, 4, 5, 6]"
proof -
  let ?d = "fold discovery_step [Device (Observe [1, 2, 3, 4, 5, 6] 0x0508 (Some [65]))] no_discovery"
  have "0 < gd_count ?d" "cand_address (gd_candidates ?d ! 0) = [1, 2, 3, 4, 5, 6]" by code_simp+
  then show ?thesis
    using pick_is_selected [of "[Device (Observe [1, 2, 3, 4, 5, 6] 0x0508 (Some [65]))]" ?d 0
      "[Observe [9, 9, 9, 9, 9, 9] 0x0540 None]"] by simp
qed

text \<open>A name too long for its array is cut between characters: of a name made of whole UTF-8 characters the copy
  holds the most leading ones that fit, complete.\<close>

theorem names_cut_between_characters:
  assumes "\<forall>c \<in> set cs. whole_char c" "0 < capacity"
  shows "\<exists>k \<le> length cs. gamepad_copy_name out capacity (Some (concat cs)) = concat (take k cs) \<and>
    length (concat (take k cs)) < capacity \<and> (k < length cs \<longrightarrow> capacity \<le> length (concat (take (Suc k) cs)))"
  by (rule copy_name_whole [OF assms])

lemma names_cut_between_characters_witness:
  "gamepad_copy_name [] 3 (Some [65, 0xE6, 0x89, 0x8B]) = [65]"
proof -
  let ?cs = "[[65], [0xE6, 0x89, 0x8B]] :: cstring list"
  have w: "\<forall>c \<in> set ?cs. whole_char c" by (simp add: whole_char_def continues_def)
  obtain k where k: "k \<le> length ?cs \<and> gamepad_copy_name [] 3 (Some (concat ?cs)) = concat (take k ?cs) \<and>
      length (concat (take k ?cs)) < 3 \<and> (k < length ?cs \<longrightarrow> 3 \<le> length (concat (take (Suc k) ?cs)))"
    using names_cut_between_characters [OF w, of 3 "[]"] by auto
  then have "k = 0 \<or> k = 1 \<or> k = 2" by auto
  then have "k = 1" using k by auto
  then show ?thesis using k by simp
qed

end
