(* ===== verification/Gb_Display.thy ===== *)
theory Gb_Display
  imports Gb_Pixels
begin

text \<open>
  The display (main/gb_display.c) without its texts: the strip buffer and its transfers to the panel,
  clearing, monochrome frames with the strips that did not change left out, colour frames and the
  boot animation.  The panel is a map from coordinates to pixels; \<open>esp_lcd_panel_draw_bitmap\<close> sends
  a rectangle of pixels, and a transfer that fails leaves anything inside that rectangle.
\<close>

section \<open>State\<close>

datatype esp_err =
    ESP_OK | ESP_ERR_NO_MEM | ESP_ERR_INVALID_ARG | ESP_ERR_INVALID_STATE | ESP_ERR_TIMEOUT | Driver_error nat

type_synonym panel = "nat \<Rightarrow> nat \<Rightarrow> u16"

text \<open>What becomes of a transfer: done, refused by the driver, or not reported done within a second.  A report
  that comes after its second is not modelled: it would answer the wait of the next transfer.\<close>

datatype transfer = Sent | Refused nat panel | Timed_out panel

definition BSP_LCD_W :: nat where "BSP_LCD_W = 240"
definition BSP_LCD_H :: nat where "BSP_LCD_H = 320"
definition STRIP_ROWS :: nat where "STRIP_ROWS = 20"

record display =
  ds_strip :: "u16 list"
  ds_ready :: bool
  ds_previous :: "u8 list"
  ds_previous_valid :: bool
  ds_previous_enlarged :: bool
  ds_queued :: "u8 list"
  ds_queued_enlarged :: bool
  ds_frame_task :: bool
  ds_frame_error :: esp_err
  ds_completed :: u32
  ds_panel :: panel
  ds_transfers :: "transfer list"

text \<open>A drawing function returns its error code and the state; \<open>None\<close> is an access outside a buffer.\<close>

type_synonym drawn = "(esp_err \<times> display) option"

section \<open>Strips\<close>

definition in_rect :: "nat \<Rightarrow> nat \<Rightarrow> nat \<Rightarrow> nat \<Rightarrow> nat \<Rightarrow> nat \<Rightarrow> bool" where
  "in_rect x y w h px py \<longleftrightarrow> x \<le> px \<and> px < x + w \<and> y \<le> py \<and> py < y + h"

definition paint :: "nat \<Rightarrow> nat \<Rightarrow> nat \<Rightarrow> nat \<Rightarrow> u16 list \<Rightarrow> panel \<Rightarrow> panel" where
  "paint x y w h pixels p = (\<lambda>px py. if in_rect x y w h px py then pixels ! ((py - y) * w + (px - x)) else p px py)"

definition damage :: "nat \<Rightarrow> nat \<Rightarrow> nat \<Rightarrow> nat \<Rightarrow> panel \<Rightarrow> panel \<Rightarrow> panel" where
  "damage x y w h junk p = (\<lambda>px py. if in_rect x y w h px py then junk px py else p px py)"

definition draw_bitmap :: "nat \<Rightarrow> nat \<Rightarrow> nat \<Rightarrow> nat \<Rightarrow> u16 list \<Rightarrow> display \<Rightarrow> esp_err \<times> display" where
  "draw_bitmap x y w h pixels d =
     (case ds_transfers d of
        [] \<Rightarrow> (ESP_OK, d\<lparr>ds_panel := paint x y w h pixels (ds_panel d)\<rparr>)
      | Sent # ts \<Rightarrow> (ESP_OK, d\<lparr>ds_panel := paint x y w h pixels (ds_panel d), ds_transfers := ts\<rparr>)
      | Refused n junk # ts \<Rightarrow> (Driver_error n, d\<lparr>ds_panel := damage x y w h junk (ds_panel d), ds_transfers := ts\<rparr>)
      | Timed_out junk # ts \<Rightarrow> (ESP_ERR_TIMEOUT, d\<lparr>ds_panel := damage x y w h junk (ds_panel d), ds_transfers := ts\<rparr>))"

definition send_strip :: "nat \<Rightarrow> nat \<Rightarrow> nat \<Rightarrow> nat \<Rightarrow> display \<Rightarrow> drawn" where
  "send_strip x y width rows d = do {
     pixels \<leftarrow> mem_slice (ds_strip d) 0 (width * rows);
     Some (draw_bitmap x y width rows pixels d)
   }"

text \<open>\<open>for (row = first; row < limit; row += STRIP_ROWS)\<close>.\<close>

definition strip_starts :: "nat \<Rightarrow> nat \<Rightarrow> nat list" where
  "strip_starts first limit = map (\<lambda>i. first + STRIP_ROWS * i) [0..<(limit - first + STRIP_ROWS - 1) div STRIP_ROWS]"

definition strip_height :: "nat \<Rightarrow> nat \<Rightarrow> nat" where
  "strip_height row limit = (if STRIP_ROWS < limit - row then STRIP_ROWS else limit - row)"

text \<open>
  The loop every drawing function has: fill the strip buffer for the rows from \<open>row\<close> on (or skip them:
  \<open>None\<close> inside), send it, and stop at the first error.
\<close>

fun strip_loop ::
    "(nat \<Rightarrow> nat \<Rightarrow> display \<Rightarrow> u16 list option option) \<Rightarrow> nat \<Rightarrow> nat \<Rightarrow> nat \<Rightarrow> nat \<Rightarrow> nat list \<Rightarrow> display \<Rightarrow> drawn" where
  "strip_loop fill limit x y width [] d = Some (ESP_OK, d)"
| "strip_loop fill limit x y width (row # rows) d = do {
     let count = strip_height row limit;
     filled \<leftarrow> fill row count d;
     (case filled of
        None \<Rightarrow> strip_loop fill limit x y width rows d
      | Some strip \<Rightarrow> do {
          (e, d) \<leftarrow> send_strip x (y + row) width count (d\<lparr>ds_strip := strip\<rparr>);
          (if e \<noteq> ESP_OK then Some (e, d) else strip_loop fill limit x y width rows d)
        })
   }"

text \<open>\<open>wait_frame_idle\<close>: \<open>free\<close> is whether the frame task gave the semaphore within a second.\<close>

definition wait_frame_idle :: "bool \<Rightarrow> display \<Rightarrow> esp_err" where
  "wait_frame_idle free d =
     (if \<not> ds_frame_task d then ESP_OK else if \<not> free then ESP_ERR_TIMEOUT else ds_frame_error d)"

section \<open>Clearing\<close>

definition fill_all :: "u16 \<Rightarrow> nat \<Rightarrow> nat \<Rightarrow> display \<Rightarrow> u16 list option option" where
  "fill_all wire row count d =
     map_option Some (mem_blit (ds_strip d) 0 (replicate (BSP_LCD_W * count) wire))"

definition gb_display_clear :: "u16 \<Rightarrow> bool \<Rightarrow> display \<Rightarrow> drawn" where
  "gb_display_clear rgb565 free d =
     (if \<not> ds_ready d then Some (ESP_ERR_INVALID_STATE, d)
      else let idle = wait_frame_idle free d in
      if idle \<noteq> ESP_OK then Some (idle, d)
      else strip_loop (fill_all (bswap16 rgb565)) BSP_LCD_H 0 0 BSP_LCD_W (strip_starts 0 BSP_LCD_H)
             (d\<lparr>ds_previous_valid := False\<rparr>))"

section \<open>Monochrome frames\<close>

text \<open>One row of a frame in its own size.\<close>

fun plain_row :: "nat list \<Rightarrow> u8 list \<Rightarrow> nat \<Rightarrow> nat \<Rightarrow> u16 list \<Rightarrow> u16 list option" where
  "plain_row [] frame sy out strip = Some strip"
| "plain_row (dx # dxs) frame sy out strip = do {
     shade \<leftarrow> gb_pixel_shade frame dx sy;
     strip \<leftarrow> mem_set strip (out + dx) (bswap16 (gb_pixel_rgb565 shade));
     plain_row dxs frame sy out strip
   }"

text \<open>One row of an enlarged frame: copied from the row above if it shows the same source row.\<close>

definition wide_row :: "u8 list \<Rightarrow> nat \<Rightarrow> nat option \<Rightarrow> nat \<Rightarrow> u16 list \<Rightarrow> u16 list option" where
  "wide_row frame sy previous_sy out strip =
     (if previous_sy = Some sy then do {
        above \<leftarrow> mem_slice strip (out - BSP_LCD_W) BSP_LCD_W;
        mem_blit strip out above
      } else do {
        packed \<leftarrow> mem_slice frame (sy * (GB_WIDTH div 4)) (GB_WIDTH div 4);
        wire \<leftarrow> mem_slice strip out BSP_LCD_W;
        wire \<leftarrow> gb_pixels_expand_row_3_2 packed wire;
        mem_blit strip out wire
      })"

fun frame_rows :: "nat list \<Rightarrow> nat \<Rightarrow> u8 list \<Rightarrow> bool \<Rightarrow> nat \<Rightarrow> nat option \<Rightarrow> u16 list \<Rightarrow> u16 list option" where
  "frame_rows [] row frame enlarged width previous_sy strip = Some strip"
| "frame_rows (dy # dys) row frame enlarged width previous_sy strip = do {
     let sy = gb_pixel_source_y (row + dy) enlarged;
     let out = dy * width;
     strip \<leftarrow> (if enlarged then wide_row frame sy previous_sy out strip
               else plain_row [0..<width] frame sy out strip);
     frame_rows dys row frame enlarged width (Some sy) strip
   }"

definition frame_width :: "bool \<Rightarrow> nat" where "frame_width enlarged = (if enlarged then 240 else GB_WIDTH)"
definition frame_height :: "bool \<Rightarrow> nat" where "frame_height enlarged = (if enlarged then 216 else GB_HEIGHT)"

definition frame_strip :: "u8 list \<Rightarrow> bool \<Rightarrow> nat \<Rightarrow> nat \<Rightarrow> display \<Rightarrow> u16 list option option" where
  "frame_strip frame enlarged row count d = do {
     changed \<leftarrow> (if ds_previous_valid d \<and> ds_previous_enlarged d = enlarged
                 then gb_pixels_strip_changed frame (ds_previous d) row count enlarged else Some True);
     (if \<not> changed then Some None
      else map_option Some (frame_rows [0..<count] row frame enlarged (frame_width enlarged) None (ds_strip d)))
   }"

text \<open>\<open>frame\<close> is \<open>None\<close> for a null pointer.\<close>

definition gb_display_frame :: "u8 list option \<Rightarrow> bool \<Rightarrow> display \<Rightarrow> drawn" where
  "gb_display_frame frame enlarged d =
     (if \<not> ds_ready d then Some (ESP_ERR_INVALID_ARG, d)
      else case frame of None \<Rightarrow> Some (ESP_ERR_INVALID_ARG, d)
      | Some frame \<Rightarrow> do {
          let width = frame_width enlarged;
          let height = frame_height enlarged;
          (e, d) \<leftarrow> strip_loop (frame_strip frame enlarged) height ((BSP_LCD_W - width) div 2) ((BSP_LCD_H - height) div 2)
                     width (strip_starts 0 height) d;
          (if e \<noteq> ESP_OK then Some (e, d\<lparr>ds_previous_valid := False\<rparr>)
           else do {
             previous \<leftarrow> mem_slice frame 0 GB_FRAME_BYTES;
             Some (ESP_OK, d\<lparr>ds_previous := previous, ds_previous_enlarged := enlarged, ds_previous_valid := True\<rparr>)
           })
        })"

section \<open>The boot animation\<close>

fun boot_row :: "nat list \<Rightarrow> u8 list \<Rightarrow> nat \<Rightarrow> nat \<Rightarrow> u16 list \<Rightarrow> u16 list option" where
  "boot_row [] frame sy out strip = Some strip"
| "boot_row (x # xs) frame sy out strip = do {
     dark \<leftarrow> gb_pixel_shade frame (x * 2 div 3) sy;
     strip \<leftarrow> mem_set strip (out + x) (bswap16 (if dark \<noteq> 0 then GB_LCD_DARK else GB_LCD_LIGHT));
     boot_row xs frame sy out strip
   }"

fun boot_rows :: "nat list \<Rightarrow> nat \<Rightarrow> u8 list \<Rightarrow> u16 list \<Rightarrow> u16 list option" where
  "boot_rows [] row frame strip = Some strip"
| "boot_rows (y # ys) row frame strip = do {
     strip \<leftarrow> boot_row [0..<BSP_LCD_W] frame ((row + y) * 2 div 3) (y * BSP_LCD_W) strip;
     boot_rows ys row frame strip
   }"

definition boot_strip :: "u8 list \<Rightarrow> nat \<Rightarrow> nat \<Rightarrow> display \<Rightarrow> u16 list option option" where
  "boot_strip frame row count d = do {
     changed \<leftarrow> (if ds_previous_valid d then gb_pixels_strip_changed frame (ds_previous d) row count True else Some True);
     (if \<not> changed then Some None else map_option Some (boot_rows [0..<count] row frame (ds_strip d)))
   }"

definition gb_display_boot_frame :: "u8 list \<Rightarrow> bool \<Rightarrow> display \<Rightarrow> drawn" where
  "gb_display_boot_frame frame free d =
     (let e = wait_frame_idle free d in
      if e \<noteq> ESP_OK then Some (e, d)
      else do {
        (e, d) \<leftarrow> strip_loop (boot_strip frame) 216 0 52 BSP_LCD_W (strip_starts 0 216) d;
        (if e \<noteq> ESP_OK then Some (e, d\<lparr>ds_previous_valid := False\<rparr>)
         else do {
           previous \<leftarrow> mem_slice frame 0 GB_FRAME_BYTES;
           Some (ESP_OK, d\<lparr>ds_previous := previous, ds_previous_valid := True, ds_previous_enlarged := True\<rparr>)
         })
      })"

section \<open>Colour frames\<close>

definition COLOR_BLANK :: nat where "COLOR_BLANK = 64"

definition rgb565_of :: "u16 \<Rightarrow> u16" where
  "rgb565_of rgb555 =
     (let r = rgb555 AND 31; g = drop_bit 5 rgb555 AND 31; b = drop_bit 10 rgb555 AND 31
      in push_bit 11 r OR push_bit 5 (push_bit 1 g OR drop_bit 4 g) OR b)"

fun color_table :: "nat list \<Rightarrow> u8 list \<Rightarrow> u8 list \<Rightarrow> u16 list \<Rightarrow> u16 list option" where
  "color_table [] bg obj colors = Some colors"
| "color_table (i # is) bg obj colors = do {
     let palette = (if i < 32 then bg else obj);
     let offset = i mod 32 * 2;
     lo \<leftarrow> mem_get palette offset;
     hi \<leftarrow> mem_get palette (offset + 1);
     colors \<leftarrow> mem_set colors i (bswap16 (rgb565_of (ucast lo OR push_bit 8 (ucast hi))));
     color_table is bg obj colors
   }"

fun color_row :: "nat list \<Rightarrow> u8 list \<Rightarrow> u16 list \<Rightarrow> nat \<Rightarrow> nat \<Rightarrow> u16 list \<Rightarrow> u16 list option" where
  "color_row [] indices colors sy out strip = Some strip"
| "color_row (x # xs) indices colors sy out strip = do {
     i \<leftarrow> mem_get indices (sy * GB_WIDTH + x * 2 div 3);
     c \<leftarrow> mem_get colors (if unat i \<le> COLOR_BLANK then unat i else COLOR_BLANK);
     strip \<leftarrow> mem_set strip (out + x) c;
     color_row xs indices colors sy out strip
   }"

fun color_rows :: "nat list \<Rightarrow> nat \<Rightarrow> u8 list \<Rightarrow> u16 list \<Rightarrow> u16 list \<Rightarrow> u16 list option" where
  "color_rows [] row indices colors strip = Some strip"
| "color_rows (dy # dys) row indices colors strip = do {
     strip \<leftarrow> color_row [0..<240] indices colors ((row + dy) * 2 div 3) (dy * 240) strip;
     color_rows dys row indices colors strip
   }"

definition gb_display_color_frame ::
    "u8 list \<Rightarrow> u8 list \<Rightarrow> u8 list \<Rightarrow> bool \<Rightarrow> display \<Rightarrow> drawn" where
  "gb_display_color_frame indices bg_palette obj_palette free d =
     (if \<not> ds_ready d then Some (ESP_ERR_INVALID_ARG, d)
      else let idle = wait_frame_idle free d in
      if idle \<noteq> ESP_OK then Some (idle, d)
      else do {
        colors \<leftarrow> color_table [0..<64] bg_palette obj_palette (replicate 65 0xffff);
        (e, d) \<leftarrow> strip_loop (\<lambda>row rows d. map_option Some (color_rows [0..<rows] row indices colors (ds_strip d)))
                   216 0 52 240 (strip_starts 0 216) (d\<lparr>ds_previous_valid := False\<rparr>);
        (if e \<noteq> ESP_OK then Some (e, d)
         else Some (ESP_OK, d\<lparr>ds_completed := ds_completed d + 1\<rparr>))
      })"

end
