(* ===== verification/Gb_Display_Shows.thy ===== *)
theory Gb_Display_Shows
  imports Gb_Display
begin

text \<open>
  What the drawing functions leave on the panel: the loop over strips draws the picture its filler
  describes, and a frame drawn with the unchanged strips left out is on the panel completely.
\<close>

section \<open>The loop over strips\<close>

text \<open>Only the strip buffer, the panel and the driver's answers differ.\<close>

definition rest :: "display \<Rightarrow> display" where
  "rest d = d\<lparr>ds_strip := [], ds_panel := (\<lambda>_ _. 0), ds_transfers := []\<rparr>"

definition touches :: "display \<Rightarrow> display \<Rightarrow> bool" where
  "touches d e \<longleftrightarrow> rest e = rest d"

lemma touches_refl [simp]: "touches d d"
  by (simp add: touches_def)

lemma touches_trans: "touches a b \<Longrightarrow> touches b c \<Longrightarrow> touches a c"
  by (simp add: touches_def)

lemma touches_upd [simp]:
  "touches d (e\<lparr>ds_strip := s\<rparr>) = touches d e" "touches d (e\<lparr>ds_panel := p\<rparr>) = touches d e"
  "touches d (e\<lparr>ds_transfers := t\<rparr>) = touches d e" "touches (d\<lparr>ds_strip := s\<rparr>) e = touches d e"
  by (simp_all add: touches_def rest_def)

lemma touchesD:
  assumes "touches d e"
  shows "ds_ready e = ds_ready d" "ds_previous e = ds_previous d" "ds_previous_valid e = ds_previous_valid d"
    "ds_previous_enlarged e = ds_previous_enlarged d" "ds_queued e = ds_queued d"
    "ds_queued_enlarged e = ds_queued_enlarged d" "ds_frame_task e = ds_frame_task d"
    "ds_frame_error e = ds_frame_error d" "ds_completed e = ds_completed d"
proof -
  note cong = arg_cong [OF assms [unfolded touches_def]]
  show "ds_ready e = ds_ready d" "ds_previous e = ds_previous d" "ds_previous_valid e = ds_previous_valid d"
    "ds_previous_enlarged e = ds_previous_enlarged d" "ds_queued e = ds_queued d"
    "ds_queued_enlarged e = ds_queued_enlarged d" "ds_frame_task e = ds_frame_task d"
    "ds_frame_error e = ds_frame_error d" "ds_completed e = ds_completed d"
    using cong [of ds_ready] cong [of ds_previous] cong [of ds_previous_valid] cong [of ds_previous_enlarged]
      cong [of ds_queued] cong [of ds_queued_enlarged] cong [of ds_frame_task] cong [of ds_frame_error]
      cong [of ds_completed] by (simp_all add: rest_def)
qed

text \<open>The rows of a strip, and what filling it must achieve for a picture \<open>T\<close>.\<close>

definition fills ::
    "(nat \<Rightarrow> nat \<Rightarrow> display \<Rightarrow> u16 list option option) \<Rightarrow> (nat \<Rightarrow> nat \<Rightarrow> u16) \<Rightarrow> nat \<Rightarrow> nat \<Rightarrow> nat \<Rightarrow> nat \<Rightarrow> nat \<Rightarrow> display \<Rightarrow> bool"
where
  "fills fill T limit x y width row d0 \<longleftrightarrow>
     (\<forall>d. touches d0 d \<and> length (ds_strip d) = 4800 \<longrightarrow>
        okp (fill row (strip_height row limit) d) (\<lambda>filled. case filled of
          None \<Rightarrow> \<forall>px < width. \<forall>dy < strip_height row limit. ds_panel d0 (x + px) (y + row + dy) = T px (row + dy)
        | Some strip \<Rightarrow> length strip = 4800 \<and>
            (\<forall>px < width. \<forall>dy < strip_height row limit. strip ! (dy * width + px) = T px (row + dy))))"

lemma strip_height_le: "strip_height row limit \<le> 20" "row < limit \<Longrightarrow> row + strip_height row limit \<le> limit"
  by (auto simp: strip_height_def STRIP_ROWS_def)

definition strips_end :: "esp_err \<times> display \<Rightarrow> (nat \<Rightarrow> nat \<Rightarrow> u16) \<Rightarrow> nat \<Rightarrow> nat \<Rightarrow> nat \<Rightarrow> nat \<Rightarrow> nat list \<Rightarrow> display \<Rightarrow> display \<Rightarrow> bool" where
  "strips_end r T limit x y width rows d0 d \<longleftrightarrow>
     (case r of (e, d') \<Rightarrow> touches d0 d' \<and> length (ds_strip d') = 4800 \<and>
        (\<forall>px py. (\<forall>row \<in> set rows. \<not> in_rect x (y + row) width (strip_height row limit) px py) \<longrightarrow>
           ds_panel d' px py = ds_panel d px py) \<and>
        (e = ESP_OK \<longrightarrow> (\<forall>row \<in> set rows. \<forall>px < width. \<forall>dy < strip_height row limit.
           ds_panel d' (x + px) (y + row + dy) = T px (row + dy))))"

lemma send_strip_ok:
  assumes "length (ds_strip d) = 4800" "width \<le> 240" "rows \<le> 20"
  shows "okp (send_strip x y width rows d) (\<lambda>(e, d'). touches d d' \<and> ds_strip d' = ds_strip d \<and>
    (\<forall>px py. \<not> in_rect x y width rows px py \<longrightarrow> ds_panel d' px py = ds_panel d px py) \<and>
    (e = ESP_OK \<longrightarrow> (\<forall>px < width. \<forall>dy < rows. ds_panel d' (x + px) (y + dy) = ds_strip d ! (dy * width + px))))"
proof -
  have n: "width * rows \<le> 4800" using mult_mono [OF assms(2,3)] by simp
  have i: "dy * width + px < width * rows" if "px < width" "dy < rows" for px dy
  proof -
    have "dy * width + px < dy * width + width" using that by simp
    also have "\<dots> = width * (dy + 1)" by simp
    also have "\<dots> \<le> width * rows" using that(2) by (intro mult_le_mono2) simp
    finally show ?thesis .
  qed
  show ?thesis
    using assms(1) n i
    by (auto simp: send_strip_def mem_slice_def draw_bitmap_def paint_def damage_def in_rect_def
        split: list.split transfer.split)
qed

lemma strip_loop_ok:
  assumes "\<forall>row \<in> set rows. fills fill T limit x y width row d0" "width \<le> 240"
    and "sorted_wrt (\<lambda>a b. a + 20 \<le> b) rows"
    and "touches d0 d" "length (ds_strip d) = 4800"
    and "\<forall>row \<in> set rows. \<forall>px dy. dy < strip_height row limit \<longrightarrow> ds_panel d px (y + row + dy) = ds_panel d0 px (y + row + dy)"
  shows "okp (strip_loop fill limit x y width rows d) (\<lambda>r. strips_end r T limit x y width rows d0 d)"
  using assms
proof (induction rows arbitrary: d)
  case Nil
  then show ?case by (simp add: strips_end_def)
next
  case (Cons row rows)
  let ?n = "strip_height row limit"
  have later: "y + row + dy \<noteq> y + r + ey \<and> row + dy < r" if "r \<in> set rows" "dy < ?n" for r dy ey
    using that Cons.prems(3) strip_height_le(1) [of row limit] by (auto dest!: bspec)
  have later_rect: "\<not> in_rect x (y + row) width ?n px (y + r + ey)" if "r \<in> set rows" for px r ey
    using that Cons.prems(3) strip_height_le(1) [of row limit] by (auto simp: in_rect_def dest!: bspec)
  have later_rect': "\<not> in_rect x (y + r) width (strip_height r limit) px (y + row + dy)"
    if "r \<in> set rows" "dy < ?n" for px r dy
    using that Cons.prems(3) strip_height_le(1) [of row limit] by (auto simp: in_rect_def dest!: bspec)
  have "okp (fill row ?n d) (\<lambda>filled. case filled of
          None \<Rightarrow> \<forall>px < width. \<forall>dy < ?n. ds_panel d0 (x + px) (y + row + dy) = T px (row + dy)
        | Some strip \<Rightarrow> length strip = 4800 \<and> (\<forall>px < width. \<forall>dy < ?n. strip ! (dy * width + px) = T px (row + dy)))"
    using Cons.prems(1,4,5) by (simp add: fills_def)
  then obtain filled where f: "fill row ?n d = Some filled" and fp: "case filled of
          None \<Rightarrow> \<forall>px < width. \<forall>dy < ?n. ds_panel d0 (x + px) (y + row + dy) = T px (row + dy)
        | Some strip \<Rightarrow> length strip = 4800 \<and> (\<forall>px < width. \<forall>dy < ?n. strip ! (dy * width + px) = T px (row + dy))"
    by (auto simp: okp_iff)
  show ?case
  proof (cases filled)
    case None
    have "okp (strip_loop fill limit x y width rows d) (\<lambda>r. strips_end r T limit x y width rows d0 d)"
      using Cons.IH [of d] Cons.prems by simp
    moreover have "strips_end r T limit x y width (row # rows) d0 d" if "strips_end r T limit x y width rows d0 d" for r
    proof -
      have "ds_panel (snd r) (x + px) (y + row + dy) = T px (row + dy)" if "px < width" "dy < ?n" for px dy
      proof -
        have "ds_panel (snd r) (x + px) (y + row + dy) = ds_panel d (x + px) (y + row + dy)"
          using \<open>strips_end r T limit x y width rows d0 d\<close> later_rect' that by (auto simp: strips_end_def split: prod.splits)
        then show ?thesis using fp None that Cons.prems(6) by simp
      qed
      then show ?thesis using that by (auto simp: strips_end_def split: prod.splits)
    qed
    ultimately show ?thesis using f None by (auto simp: Let_def intro: okp_mono)
  next
    case (Some strip)
    let ?d = "d\<lparr>ds_strip := strip\<rparr>"
    have s: "length strip = 4800" "\<forall>px < width. \<forall>dy < ?n. strip ! (dy * width + px) = T px (row + dy)" using fp Some by simp_all
    obtain e d1 where sd: "send_strip x (y + row) width ?n ?d = Some (e, d1)"
      and d1: "touches ?d d1" "ds_strip d1 = strip"
        "\<forall>px py. \<not> in_rect x (y + row) width ?n px py \<longrightarrow> ds_panel d1 px py = ds_panel d px py"
        "e = ESP_OK \<longrightarrow> (\<forall>px < width. \<forall>dy < ?n. ds_panel d1 (x + px) (y + row + dy) = T px (row + dy))"
      using send_strip_ok [of ?d width ?n x "y + row"] s Cons.prems(2) strip_height_le(1) [of row limit]
      by (auto simp: okp_iff)
    have t1: "touches d0 d1" using touches_trans [of d0 ?d d1] Cons.prems(4) d1(1) by simp
    show ?thesis
    proof (cases "e = ESP_OK")
      case False
      then have "strip_loop fill limit x y width (row # rows) d = Some (e, d1)"
        using f Some sd by (simp add: Let_def)
      moreover have "strips_end (e, d1) T limit x y width (row # rows) d0 d"
        using False t1 d1 s by (auto simp: strips_end_def)
      ultimately show ?thesis by simp
    next
      case True
      have "okp (strip_loop fill limit x y width rows d1) (\<lambda>r. strips_end r T limit x y width rows d0 d1)"
      proof (rule Cons.IH)
        show "\<forall>r \<in> set rows. \<forall>px dy. dy < strip_height r limit \<longrightarrow>
            ds_panel d1 px (y + r + dy) = ds_panel d0 px (y + r + dy)"
          using d1(3) later_rect Cons.prems(6) by simp
      qed (use Cons.prems t1 d1 s in auto)
      moreover have "strips_end r T limit x y width (row # rows) d0 d" if "strips_end r T limit x y width rows d0 d1" for r
      proof -
        have "ds_panel (snd r) (x + px) (y + row + dy) = T px (row + dy)" if "px < width" "dy < ?n" for px dy
        proof -
          have "ds_panel (snd r) (x + px) (y + row + dy) = ds_panel d1 (x + px) (y + row + dy)"
            using \<open>strips_end r T limit x y width rows d0 d1\<close> later_rect' that by (auto simp: strips_end_def split: prod.splits)
          then show ?thesis using d1(4) True that by simp
        qed
        then show ?thesis using that d1(3) by (auto simp: strips_end_def split: prod.splits)
      qed
      ultimately show ?thesis using f Some sd True by (auto simp: Let_def intro: okp_mono)
    qed
  qed
qed

lemma starts_sorted: "sorted_wrt (\<lambda>a b. a + 20 \<le> b) (strip_starts first limit)"
proof -
  have "sorted_wrt (\<lambda>a b. a + 20 \<le> b) (map (\<lambda>i. first + STRIP_ROWS * i) [0..<n])" for n
    by (induction n) (auto simp: sorted_wrt_append STRIP_ROWS_def)
  then show ?thesis by (simp add: strip_starts_def)
qed

lemma starts_below: "row \<in> set (strip_starts first limit) \<Longrightarrow> first \<le> row \<and> row < limit"
  by (auto simp: strip_starts_def STRIP_ROWS_def)

lemma starts_cover:
  assumes "first \<le> py" "py < limit"
  shows "\<exists>row \<in> set (strip_starts first limit). \<exists>dy < strip_height row limit. py = row + dy"
proof -
  let ?i = "(py - first) div 20"
  have "?i < (limit - first + 19) div 20"
  proof -
    have "(py - first + 20) div 20 \<le> (limit - first + 19) div 20" using assms by (intro div_le_mono) linarith
    then show ?thesis by simp
  qed
  then have "first + 20 * ?i \<in> set (strip_starts first limit)" by (simp add: strip_starts_def STRIP_ROWS_def)
  moreover have "py = (first + 20 * ?i) + (py - first) mod 20" using assms(1) by simp
  moreover have "(py - first) mod 20 < strip_height (first + 20 * ?i) limit"
  proof -
    have "20 * ?i + (py - first) mod 20 = py - first" by simp
    then have "(py - first) mod 20 < limit - (first + 20 * ?i)" using assms by linarith
    then show ?thesis by (simp add: strip_height_def STRIP_ROWS_def)
  qed
  ultimately show ?thesis by blast
qed

text \<open>The loop over all strips from row 0 on draws the whole picture, or reports an error.\<close>

definition drawn :: "esp_err \<times> display \<Rightarrow> (nat \<Rightarrow> nat \<Rightarrow> u16) \<Rightarrow> nat \<Rightarrow> nat \<Rightarrow> nat \<Rightarrow> nat \<Rightarrow> nat \<Rightarrow> display \<Rightarrow> bool" where
  "drawn r T first limit x y width d \<longleftrightarrow>
     (case r of (e, d') \<Rightarrow> touches d d' \<and> length (ds_strip d') = 4800 \<and>
        (\<forall>px py. \<not> in_rect x (y + first) width (limit - first) px py \<longrightarrow> ds_panel d' px py = ds_panel d px py) \<and>
        (e = ESP_OK \<longrightarrow> (\<forall>px < width. \<forall>py. first \<le> py \<and> py < limit \<longrightarrow> ds_panel d' (x + px) (y + py) = T px py)))"

lemma strips_drawn:
  assumes "\<forall>row \<in> set (strip_starts first limit). fills fill T limit x y width row d" "width \<le> 240"
    and "length (ds_strip d) = 4800"
  shows "okp (strip_loop fill limit x y width (strip_starts first limit) d) (\<lambda>r. drawn r T first limit x y width d)"
proof -
  have "okp (strip_loop fill limit x y width (strip_starts first limit) d)
      (\<lambda>r. strips_end r T limit x y width (strip_starts first limit) d d)"
    using strip_loop_ok [OF assms(1,2) starts_sorted touches_refl assms(3)] by simp
  moreover have "drawn r T first limit x y width d" if "strips_end r T limit x y width (strip_starts first limit) d d" for r
  proof -
    obtain e d' where r: "r = (e, d')" by (cases r)
    have "ds_panel d' px py = ds_panel d px py" if o: "\<not> in_rect x (y + first) width (limit - first) px py" for px py
    proof -
      have "\<not> in_rect x (y + row) width (strip_height row limit) px py" if "row \<in> set (strip_starts first limit)" for row
        using o starts_below [OF that] strip_height_le(2) [of row limit] by (auto simp: in_rect_def)
      then show ?thesis using \<open>strips_end r _ _ _ _ _ _ _ _\<close> r by (simp add: strips_end_def)
    qed
    moreover have "ds_panel d' (x + px) (y + py) = T px py"
      if "e = ESP_OK" "px < width" "first \<le> py" "py < limit" for px py
      using starts_cover [OF that(3,4)] \<open>strips_end r _ _ _ _ _ _ _ _\<close> r that by (auto simp: strips_end_def add.assoc)
    ultimately show ?thesis using that r by (auto simp: strips_end_def drawn_def)
  qed
  ultimately show ?thesis by (rule okp_mono)
qed

section \<open>The pixels of a frame\<close>

text \<open>The word on the wire for a pixel of the drawn picture.\<close>

definition frame_pixel :: "u8 list \<Rightarrow> bool \<Rightarrow> nat \<Rightarrow> nat \<Rightarrow> u16" where
  "frame_pixel f e px py = wire_color (the (gb_pixel_shade f (gb_pixel_source_x px e) (gb_pixel_source_y py e)))"

lemma shade_defined:
  assumes "length f = 5760" "x < 160" "y < 144"
  shows "gb_pixel_shade f x y = Some (shade_in (f ! (y * 40 + x div 4)) (x mod 4))"
proof -
  have "x div 4 < 40" using assms(2) by simp
  then have "y * 40 + x div 4 < 5760" using assms(3) by linarith
  then show ?thesis using assms(1) by (simp add: gb_pixel_shade_def frame_size)
qed

lemma source_in_frame:
  "px < frame_width e \<Longrightarrow> gb_pixel_source_x px e < 160" "py < frame_height e \<Longrightarrow> gb_pixel_source_y py e < 144"
  by (cases e; simp add: gb_pixel_source_x_def gb_pixel_source_y_def frame_width_def frame_height_def frame_size
      less_mult_imp_div_less)+

text \<open>One row of \<open>width\<close> words has been written.\<close>

definition row_written :: "nat \<Rightarrow> nat \<Rightarrow> (nat \<Rightarrow> u16) \<Rightarrow> u16 list \<Rightarrow> u16 list \<Rightarrow> bool" where
  "row_written out width T s t \<longleftrightarrow> length t = length s \<and>
     (\<forall>i < length s. t ! i = (if out \<le> i \<and> i < out + width then T (i - out) else s ! i))"

text \<open>A loop that stores one word after the other writes the row.\<close>

lemma row_written_store:
  assumes "row_written (out + Suc k) n (\<lambda>i. T (Suc k + i)) (s[out + k := T k]) t" "out + k < length s"
  shows "row_written (out + k) (Suc n) (\<lambda>i. T (k + i)) s t"
  unfolding row_written_def
proof (intro conjI allI impI)
  show "length t = length s" using assms(1) by (simp add: row_written_def)
  fix i assume "i < length s"
  then show "t ! i = (if out + k \<le> i \<and> i < out + k + Suc n then T (k + (i - (out + k))) else s ! i)"
    using assms by (cases "i = out + k") (auto simp: row_written_def intro!: arg_cong [of _ _ T])
qed

lemma row_written_empty [simp]: "row_written out 0 T s s"
  by (auto simp: row_written_def)

lemma plain_row_ok:
  assumes "length f = 5760" "sy < 144" "out + 160 \<le> length s" "k + n = 160"
  shows "okp (plain_row [k..<160] f sy out s)
    (row_written (out + k) n (\<lambda>i. wire_color (the (gb_pixel_shade f (k + i) sy))) s)"
  using assms(3,4)
proof (induction n arbitrary: k s)
  case (Suc n)
  have k: "[k..<160] = k # [Suc k..<160]" "k < 160" using Suc.prems by (simp_all add: upt_conv_Cons)
  let ?T = "\<lambda>i. wire_color (the (gb_pixel_shade f i sy))"
  have "plain_row [k..<160] f sy out s = plain_row [Suc k..<160] f sy out (s[out + k := ?T k])"
    using shade_defined [OF assms(1) k(2) assms(2)] Suc.prems(1) k by (simp add: wire_color_def)
  moreover have "okp (plain_row [Suc k..<160] f sy out (s[out + k := ?T k]))
      (row_written (out + Suc k) n (\<lambda>i. ?T (Suc k + i)) (s[out + k := ?T k]))"
    using Suc.IH [of "s[out + k := ?T k]" "Suc k"] Suc.prems by simp
  ultimately show ?case
    using row_written_store [of out k n ?T s] Suc.prems(1) k(2) by (auto elim!: okp_mono)
qed simp

lemma slice_shade:
  assumes "length f = 5760" "sy < 144" "x < 160"
  shows "gb_pixel_shade (take 40 (drop (sy * 40) f)) x 0 = gb_pixel_shade f x sy"
proof -
  have "x div 4 < 40" using assms(3) by simp
  then show ?thesis
    using assms shade_defined [OF assms(1,3,2)] by (simp add: gb_pixel_shade_def frame_size)
qed

lemma blit_row_written:
  assumes "out + width \<le> length s" "length w = width" "\<forall>i < width. w ! i = T i"
  shows "okp (mem_blit s out w) (row_written out width T s)"
proof -
  obtain t where t: "mem_blit s out w = Some t" "length t = length s"
    using okp_mem_blit [of out w s] assms by (auto simp: okp_iff)
  then show ?thesis using mem_blit_nth [OF t(1)] assms by (auto simp: row_written_def)
qed

lemma wide_row_ok:
  fixes f sy
  defines "T \<equiv> \<lambda>i. wire_color (the (gb_pixel_shade f (i * 2 div 3) sy))"
  assumes "length f = 5760" "sy < 144" "out + 240 \<le> length s"
    and "prev = Some sy \<Longrightarrow> \<exists>k. out = k + 240 \<and> (\<forall>i < 240. s ! (k + i) = T i)"
  shows "okp (wide_row f sy prev out s) (row_written out 240 T s)"
proof (cases "prev = Some sy")
  case True
  obtain k where k: "out = k + 240" "\<forall>i < 240. s ! (k + i) = T i" using assms(5) [OF True] by blast
  have "wide_row f sy prev out s = mem_blit s out (take 240 (drop k s))"
    using True assms(4) k(1) by (simp add: wide_row_def BSP_LCD_W_def mem_slice_def)
  then show ?thesis using blit_row_written [of out 240 s "take 240 (drop k s)" T] assms(4) k by simp
next
  case False
  have p: "mem_slice f (sy * 40) 40 = Some (take 40 (drop (sy * 40) f))"
    and q: "mem_slice s out 240 = Some (take 240 (drop out s))" using assms(2-4) by (simp_all add: mem_slice_def)
  have l: "length (take 40 (drop (sy * 40) f)) = 40" "length (take 240 (drop out s)) = 240" using assms(2-4) by simp_all
  obtain w where w: "gb_pixels_expand_row_3_2 (take 40 (drop (sy * 40) f)) (take 240 (drop out s)) = Some w" "length w = 240"
    "\<forall>d < 240. map_option wire_color (gb_pixel_shade (take 40 (drop (sy * 40) f)) (gb_pixel_source_x d True) 0) = Some (w ! d)"
    using expand_row_spec [OF l] by auto
  have sx: "gb_pixel_source_x d True = d * 2 div 3" for d
    using div_mult_mult2 [of 80 "d * 2" 3] by (simp add: gb_pixel_source_x_def GB_WIDTH_def mult.assoc)
  have "w ! d = T d" if d: "d < 240" for d
  proof -
    have "d * 2 div 3 < 160" using d by (simp add: less_mult_imp_div_less)
    then have "gb_pixel_shade (take 40 (drop (sy * 40) f)) (gb_pixel_source_x d True) 0 = gb_pixel_shade f (d * 2 div 3) sy"
      unfolding sx by (rule slice_shade [OF assms(2,3)])
    then have "map_option wire_color (gb_pixel_shade f (d * 2 div 3) sy) = Some (w ! d)" using w(3) d by metis
    then show ?thesis unfolding T_def by auto
  qed
  moreover have "wide_row f sy prev out s = mem_blit s out w"
    using False p q w(1) by (simp add: wide_row_def BSP_LCD_W_def GB_WIDTH_def)
  ultimately show ?thesis using blit_row_written [of out 240 s w T] assms(4) w(2) by simp
qed

lemma row_ok:
  assumes "length f = 5760" "length s = 4800" "dy < 20" "row + dy < frame_height e"
    and "prev = Some (gb_pixel_source_y (row + dy) e) \<Longrightarrow> e \<Longrightarrow>
      \<exists>j. dy = Suc j \<and> (\<forall>px < 240. s ! (j * 240 + px) = frame_pixel f e px (row + dy))"
  shows "okp (if e then wide_row f (gb_pixel_source_y (row + dy) e) prev (dy * frame_width e) s
       else plain_row [0..<frame_width e] f (gb_pixel_source_y (row + dy) e) (dy * frame_width e) s)
    (row_written (dy * frame_width e) (frame_width e) (\<lambda>px. frame_pixel f e px (row + dy)) s)"
proof -
  let ?sy = "gb_pixel_source_y (row + dy) e"
  have sy: "?sy < 144" using source_in_frame(2) [OF assms(4)] .
  have sx: "gb_pixel_source_x d True = d * 2 div 3" for d
    using div_mult_mult2 [of 80 "d * 2" 3] by (simp add: gb_pixel_source_x_def GB_WIDTH_def mult.assoc)
  show ?thesis
  proof (cases e)
    case True
    have T: "(\<lambda>px. frame_pixel f e px (row + dy)) = (\<lambda>i. wire_color (the (gb_pixel_shade f (i * 2 div 3) ?sy)))"
      using True by (simp add: frame_pixel_def sx fun_eq_iff)
    have "okp (wide_row f ?sy prev (dy * 240) s)
        (row_written (dy * 240) 240 (\<lambda>i. wire_color (the (gb_pixel_shade f (i * 2 div 3) ?sy))) s)"
    proof (rule wide_row_ok [OF assms(1) sy])
      show "dy * 240 + 240 \<le> length s" using assms(2,3) by simp
      assume p: "prev = Some ?sy"
      obtain j where j: "dy = Suc j" "\<forall>px < 240. s ! (j * 240 + px) = frame_pixel f e px (row + dy)"
        using assms(5) [OF p True] by blast
      then show "\<exists>k. dy * 240 = k + 240 \<and> (\<forall>i < 240. s ! (k + i) = wire_color (the (gb_pixel_shade f (i * 2 div 3) ?sy)))"
        using True by (intro exI [of _ "j * 240"]) (simp add: frame_pixel_def sx)
    qed
    then show ?thesis unfolding T using True by (simp add: frame_width_def)
  next
    case False
    have T: "(\<lambda>px. frame_pixel f e px (row + dy)) = (\<lambda>i. wire_color (the (gb_pixel_shade f (0 + i) ?sy)))"
      using False by (simp add: frame_pixel_def gb_pixel_source_x_def fun_eq_iff)
    have "okp (plain_row [0..<160] f ?sy (dy * 160) s)
        (row_written (dy * 160 + 0) 160 (\<lambda>i. wire_color (the (gb_pixel_shade f (0 + i) ?sy))) s)"
      using plain_row_ok [OF assms(1) sy, of "dy * 160" s 0 160] assms(2,3) by simp
    then show ?thesis unfolding T using False by (simp add: frame_width_def GB_WIDTH_def)
  qed
qed

text \<open>The rows of a strip: those before \<open>k\<close> are there, the source row above \<open>k\<close> is \<open>previous_sy\<close>.\<close>

lemma frame_rows_ok:
  assumes "length f = 5760" "row + n \<le> frame_height e" "n \<le> 20"
    and "length s = 4800" "k + m = n" "prev = (if k = 0 then None else Some (gb_pixel_source_y (row + (k - 1)) e))"
    and "\<forall>dy < k. \<forall>px < frame_width e. s ! (dy * frame_width e + px) = frame_pixel f e px (row + dy)"
  shows "okp (frame_rows [k..<n] row f e (frame_width e) prev s) (\<lambda>t. length t = 4800 \<and>
    (\<forall>px < frame_width e. \<forall>dy < n. t ! (dy * frame_width e + px) = frame_pixel f e px (row + dy)))"
  using assms(4-7)
proof (induction m arbitrary: k prev s)
  case (Suc m)
  let ?w = "frame_width e"
  have w: "?w \<le> 240" by (simp add: frame_width_def GB_WIDTH_def)
  have k: "[k..<n] = k # [Suc k..<n]" "k < n" using Suc.prems(2) by (simp_all add: upt_conv_Cons)
  have idx: "dy * ?w + px < 4800" if "dy < n" "px < ?w" for dy px
  proof -
    have "dy * ?w + px < Suc dy * ?w" using that by simp
    also have "\<dots> \<le> 20 * 240" using that assms(3) w by (intro mult_le_mono) simp_all
    finally show ?thesis by simp
  qed
  have "okp (if e then wide_row f (gb_pixel_source_y (row + k) e) prev (k * ?w) s
       else plain_row [0..<?w] f (gb_pixel_source_y (row + k) e) (k * ?w) s)
    (row_written (k * ?w) ?w (\<lambda>px. frame_pixel f e px (row + k)) s)"
  proof (rule row_ok [OF assms(1) Suc.prems(1)])
    assume p: "prev = Some (gb_pixel_source_y (row + k) e)" and e: e
    obtain j where j: "k = Suc j" using p Suc.prems(3) by (cases k) auto
    have "gb_pixel_source_y (row + j) e = gb_pixel_source_y (row + k) e" using p Suc.prems(3) j by simp
    then have "frame_pixel f e px (row + j) = frame_pixel f e px (row + k)" for px by (simp add: frame_pixel_def)
    then show "\<exists>j. k = Suc j \<and> (\<forall>px < 240. s ! (j * 240 + px) = frame_pixel f e px (row + k))"
      using j e Suc.prems(4) by (auto simp: frame_width_def)
  qed (use k assms(2,3) in auto)
  then obtain t where t: "(if e then wide_row f (gb_pixel_source_y (row + k) e) prev (k * ?w) s
       else plain_row [0..<?w] f (gb_pixel_source_y (row + k) e) (k * ?w) s) = Some t"
    and rw: "row_written (k * ?w) ?w (\<lambda>px. frame_pixel f e px (row + k)) s t" by (auto simp: okp_iff)
  have written: "t ! (dy * ?w + px) = frame_pixel f e px (row + dy)" if d: "dy < Suc k" "px < ?w" for dy px
  proof (cases "dy = k")
    case True
    then show ?thesis using rw idx [of k px] k(2) d Suc.prems(1) by (simp add: row_written_def)
  next
    case False
    then have "Suc dy * ?w \<le> k * ?w" using d(1) by (intro mult_le_mono1) simp
    then have "\<not> k * ?w \<le> dy * ?w + px" using d(2) by simp
    then show ?thesis using rw idx [of dy px] k(2) d Suc.prems(1,4) False by (simp add: row_written_def)
  qed
  have "okp (frame_rows [Suc k..<n] row f e ?w (Some (gb_pixel_source_y (row + k) e)) t) (\<lambda>t. length t = 4800 \<and>
      (\<forall>px < ?w. \<forall>dy < n. t ! (dy * ?w + px) = frame_pixel f e px (row + dy)))"
    using Suc.IH [of t "Suc k" "Some (gb_pixel_source_y (row + k) e)"] rw Suc.prems(1,2) written
    by (simp add: row_written_def)
  then show ?case using t unfolding k(1) frame_rows.simps Let_def by simp
qed simp

section \<open>Frames on the panel\<close>

definition frame_x :: "bool \<Rightarrow> nat" where "frame_x e = (BSP_LCD_W - frame_width e) div 2"
definition frame_y :: "bool \<Rightarrow> nat" where "frame_y e = (BSP_LCD_H - frame_height e) div 2"

definition on_screen :: "u8 list \<Rightarrow> bool \<Rightarrow> panel \<Rightarrow> bool" where
  "on_screen f e p \<longleftrightarrow> (\<forall>px < frame_width e. \<forall>py < frame_height e. p (frame_x e + px) (frame_y e + py) = frame_pixel f e px py)"

text \<open>What the display remembers as drawn is on the panel.\<close>

definition screen_ok :: "display \<Rightarrow> bool" where
  "screen_ok d \<longleftrightarrow> length (ds_strip d) = 4800 \<and> length (ds_previous d) = 5760 \<and>
     (ds_previous_valid d \<longrightarrow> on_screen (ds_previous d) (ds_previous_enlarged d) (ds_panel d))"

lemma frame_width_le: "frame_width e \<le> 240" "frame_height e \<le> 216"
  by (simp_all add: frame_width_def frame_height_def frame_size)

lemma unchanged_pixels:
  assumes "length f = 5760" "length g = 5760" "0 < n" "row + n \<le> frame_height e"
    and "gb_pixels_strip_changed f g row n e = Some False" "px < frame_width e" "dy < n"
  shows "frame_pixel g e px (row + dy) = frame_pixel f e px (row + dy)"
proof -
  have "row + n \<le> (if e then 216 else 144)" using assms(4) by (cases e) (simp_all add: frame_height_def frame_size)
  note iff = strip_changed_iff [OF assms(1-3) this]
  have "\<not> (\<exists>d x. row \<le> d \<and> d < row + n \<and> x < 160 \<and>
      gb_pixel_shade f x (gb_pixel_source_y d e) \<noteq> gb_pixel_shade g x (gb_pixel_source_y d e))"
    using iff assms(5) by simp
  then have "gb_pixel_shade f (gb_pixel_source_x px e) (gb_pixel_source_y (row + dy) e) =
      gb_pixel_shade g (gb_pixel_source_x px e) (gb_pixel_source_y (row + dy) e)"
    using source_in_frame(1) [OF assms(6)] assms(7) by (metis le_add1 nat_add_left_cancel_less)
  then show ?thesis by (simp add: frame_pixel_def)
qed

lemma strip_changed_defined:
  assumes "length f = 5760" "length g = 5760" "0 < n" "row + n \<le> frame_height e"
  shows "\<exists>c. gb_pixels_strip_changed f g row n e = Some c"
proof -
  have "row + n \<le> (if e then 216 else 144)" using assms(4) by (cases e) (simp_all add: frame_height_def frame_size)
  then show ?thesis using strip_changed_iff [OF assms(1-3)] by blast
qed

lemma start_height: "row \<in> set (strip_starts first limit) \<Longrightarrow> 0 < strip_height row limit"
  using starts_below [of row first limit] by (auto simp: strip_height_def STRIP_ROWS_def)

lemma frame_fills:
  assumes "length f = 5760" "screen_ok d" "row \<in> set (strip_starts 0 (frame_height e))"
  shows "fills (frame_strip f e) (frame_pixel f e) (frame_height e) (frame_x e) (frame_y e) (frame_width e) row d"
  unfolding fills_def
proof (intro allI impI, elim conjE)
  fix d1
  let ?n = "strip_height row (frame_height e)" and ?w = "frame_width e"
  assume t: "touches d d1" and l: "length (ds_strip d1) = 4800"
  have n: "0 < ?n" "?n \<le> 20" "row + ?n \<le> frame_height e"
    using start_height [OF assms(3)] strip_height_le [of row "frame_height e"] starts_below [OF assms(3)] by simp_all
  have rows: "okp (frame_rows [0..<?n] row f e ?w None (ds_strip d1)) (\<lambda>t. length t = 4800 \<and>
      (\<forall>px < ?w. \<forall>dy < ?n. t ! (dy * ?w + px) = frame_pixel f e px (row + dy)))"
    using frame_rows_ok [OF assms(1) n(3,2) l, of 0 ?n None] by simp
  have all: "okp (map_option Some (frame_rows [0..<?n] row f e ?w None (ds_strip d1))) (\<lambda>filled. case filled of
       None \<Rightarrow> \<forall>px < ?w. \<forall>dy < ?n. ds_panel d (frame_x e + px) (frame_y e + row + dy) = frame_pixel f e px (row + dy)
     | Some strip \<Rightarrow> length strip = 4800 \<and> (\<forall>px < ?w. \<forall>dy < ?n. strip ! (dy * ?w + px) = frame_pixel f e px (row + dy)))"
    using rows by (auto simp: okp_iff)
  show "okp (frame_strip f e row ?n d1) (\<lambda>filled. case filled of
       None \<Rightarrow> \<forall>px < ?w. \<forall>dy < ?n. ds_panel d (frame_x e + px) (frame_y e + row + dy) = frame_pixel f e px (row + dy)
     | Some strip \<Rightarrow> length strip = 4800 \<and> (\<forall>px < ?w. \<forall>dy < ?n. strip ! (dy * ?w + px) = frame_pixel f e px (row + dy)))"
  proof (cases "ds_previous_valid d1 \<and> ds_previous_enlarged d1 = e")
    case False
    then have "frame_strip f e row ?n d1 = map_option Some (frame_rows [0..<?n] row f e ?w None (ds_strip d1))"
      unfolding frame_strip_def by (subst if_not_P) simp_all
    then show ?thesis using all by (simp only:)
  next
    case True
    then have v: "ds_previous_valid d" "ds_previous_enlarged d = e" using touchesD [OF t] by simp_all
    have g: "length (ds_previous d) = 5760" "ds_previous d1 = ds_previous d" "on_screen (ds_previous d) e (ds_panel d)"
      using assms(2) v touchesD(2) [OF t] by (simp_all add: screen_ok_def)
    obtain c where c: "gb_pixels_strip_changed f (ds_previous d) row ?n e = Some c"
      using strip_changed_defined [OF assms(1) g(1) n(1,3)] by blast
    show ?thesis
    proof (cases c)
      case changed: True
      then show ?thesis using all True c g(2) by (simp add: frame_strip_def)
    next
      case same: False
      have "ds_panel d (frame_x e + px) (frame_y e + row + dy) = frame_pixel f e px (row + dy)"
        if "px < ?w" "dy < ?n" for px dy
        using g(3) that n(3) unchanged_pixels [OF assms(1) g(1) n(1,3) _ that] c same
        by (simp add: on_screen_def add.assoc)
      then show ?thesis using True c g(2) same by (simp add: frame_strip_def)
    qed
  qed
qed

text \<open>A drawn frame: everything outside its area is as it was.\<close>

lemma display_frame_ok:
  assumes "screen_ok d" "length f = 5760" "ds_ready d"
  shows "okp (gb_display_frame (Some f) e d) (\<lambda>(r, d'). screen_ok d' \<and>
    (\<forall>px py. \<not> in_rect (frame_x e) (frame_y e) (frame_width e) (frame_height e) px py \<longrightarrow> ds_panel d' px py = ds_panel d px py) \<and>
    (if r = ESP_OK then on_screen f e (ds_panel d') else \<not> ds_previous_valid d') \<and>
    ds_ready d' \<and> ds_frame_task d' = ds_frame_task d \<and> ds_frame_error d' = ds_frame_error d \<and>
    ds_queued d' = ds_queued d \<and> ds_queued_enlarged d' = ds_queued_enlarged d \<and> ds_completed d' = ds_completed d)"
proof -
  let ?h = "frame_height e" and ?w = "frame_width e"
  obtain r d' where l: "strip_loop (frame_strip f e) ?h (frame_x e) (frame_y e) ?w (strip_starts 0 ?h) d = Some (r, d')"
    and dr: "drawn (r, d') (frame_pixel f e) 0 ?h (frame_x e) (frame_y e) ?w d"
    using strips_drawn [of 0 ?h "frame_strip f e" "frame_pixel f e" "frame_x e" "frame_y e" ?w d]
      frame_fills [OF assms(2,1)] frame_width_le(1) assms(1) by (auto simp: okp_iff screen_ok_def)
  have t: "touches d d'" "length (ds_strip d') = 4800" using dr by (simp_all add: drawn_def)
  note keep = touchesD [OF t(1)]
  have res: "gb_display_frame (Some f) e d =
      (if r \<noteq> ESP_OK then Some (r, d'\<lparr>ds_previous_valid := False\<rparr>)
       else Some (ESP_OK, d'\<lparr>ds_previous := f, ds_previous_enlarged := e, ds_previous_valid := True\<rparr>))"
    using l assms(2,3) by (simp add: gb_display_frame_def frame_x_def frame_y_def Let_def mem_slice_def frame_size)
  have "r = ESP_OK \<Longrightarrow> on_screen f e (ds_panel d')" using dr by (simp add: drawn_def on_screen_def)
  then show ?thesis
    using dr t keep assms unfolding res by (auto simp: drawn_def screen_ok_def)
qed

end
