(* ===== verification/Gb_Display_More.thy ===== *)
theory Gb_Display_More
  imports Gb_Display_Shows
begin

text \<open>
  Clearing the screen, colour frames and the boot animation: what they put on the panel, and that what
  the display remembers stays true.
\<close>

text \<open>What every drawing function keeps.\<close>

definition same_task :: "display \<Rightarrow> display \<Rightarrow> bool" where
  "same_task d e \<longleftrightarrow> ds_ready e = ds_ready d \<and> ds_frame_task e = ds_frame_task d \<and> ds_frame_error e = ds_frame_error d \<and>
     ds_queued e = ds_queued d \<and> ds_queued_enlarged e = ds_queued_enlarged d"

lemma same_task_refl [simp]: "same_task d d"
  by (simp add: same_task_def)

lemma touches_same_task: "touches d e \<Longrightarrow> same_task d e"
  by (simp add: same_task_def touchesD)

lemma invalid_screen: "length (ds_strip d) = 4800 \<Longrightarrow> length (ds_previous d) = 5760 \<Longrightarrow> \<not> ds_previous_valid d \<Longrightarrow> screen_ok d"
  by (simp add: screen_ok_def)

section \<open>Clearing\<close>

lemma clear_fills:
  assumes "row \<in> set (strip_starts 0 320)"
  shows "fills (fill_all wire) (\<lambda>_ _. wire) 320 0 0 240 row d"
  unfolding fills_def
proof (intro allI impI, elim conjE)
  fix d1 :: display
  let ?n = "strip_height row 320"
  assume "length (ds_strip d1) = 4800"
  moreover have "240 * ?n \<le> 4800" using strip_height_le(1) [of row 320] by simp
  moreover have "dy * 240 + px < 240 * ?n" if "dy < ?n" "px < 240" for dy px
  proof -
    have "dy * 240 + px < Suc dy * 240" using that by simp
    also have "\<dots> \<le> ?n * 240" using that by (intro mult_le_mono1) simp
    finally show ?thesis by (simp add: mult.commute)
  qed
  ultimately show "okp (fill_all wire row ?n d1) (\<lambda>filled. case filled of
       None \<Rightarrow> \<forall>px < 240. \<forall>dy < ?n. ds_panel d (0 + px) (0 + row + dy) = wire
     | Some strip \<Rightarrow> length strip = 4800 \<and> (\<forall>px < 240. \<forall>dy < ?n. strip ! (dy * 240 + px) = wire))"
    by (simp add: fill_all_def mem_blit_def BSP_LCD_W_def nth_append)
qed

lemma display_clear_ok:
  assumes "screen_ok d"
  shows "okp (gb_display_clear c free d) (\<lambda>(r, d'). screen_ok d' \<and> same_task d d' \<and>
    (r = ESP_OK \<longrightarrow> \<not> ds_previous_valid d' \<and> (\<forall>px < 240. \<forall>py < 320. ds_panel d' px py = bswap16 c)))"
proof (cases "ds_ready d \<and> wait_frame_idle free d = ESP_OK")
  case True
  let ?d = "d\<lparr>ds_previous_valid := False\<rparr>"
  obtain r d' where l: "strip_loop (fill_all (bswap16 c)) 320 0 0 240 (strip_starts 0 320) ?d = Some (r, d')"
    and dr: "drawn (r, d') (\<lambda>_ _. bswap16 c) 0 320 0 0 240 ?d"
    using strips_drawn [of 0 320 "fill_all (bswap16 c)" "\<lambda>_ _. bswap16 c" 0 0 240 ?d] clear_fills assms
    by (auto simp: okp_iff screen_ok_def)
  have t: "touches ?d d'" "length (ds_strip d') = 4800" using dr by (simp_all add: drawn_def)
  have "screen_ok d'" using t touchesD [OF t(1)] assms by (intro invalid_screen) (simp_all add: screen_ok_def)
  moreover have "same_task d d'" using touches_same_task [OF t(1)] by (simp add: same_task_def)
  moreover have "gb_display_clear c free d = Some (r, d')"
    using l True by (simp add: gb_display_clear_def BSP_LCD_W_def BSP_LCD_H_def)
  ultimately show ?thesis using dr touchesD(3) [OF t(1)] by (simp add: drawn_def)
next
  case False
  then show ?thesis using assms by (auto simp: gb_display_clear_def Let_def)
qed

section \<open>Colour frames\<close>

text \<open>Entry \<open>i\<close> of the colour table: the palette colour in the panel's format, white beyond the palettes.\<close>

definition palette_color :: "u8 list \<Rightarrow> u8 list \<Rightarrow> nat \<Rightarrow> u16" where
  "palette_color bg obj i =
     (if i < 64 then let p = (if i < 32 then bg else obj); k = i mod 32 * 2
        in bswap16 (rgb565_of (ucast (p ! k) OR push_bit 8 (ucast (p ! (k + 1)))))
      else 0xffff)"

lemma color_table_ok:
  assumes "length bg = 64" "length obj = 64" "length cs = 65" "k + n = 64"
  shows "\<exists>t. color_table [k..<64] bg obj cs = Some t \<and> length t = 65 \<and>
    (\<forall>i < 65. t ! i = (if k \<le> i \<and> i < 64 then palette_color bg obj i else cs ! i))"
  using assms(3,4)
proof (induction n arbitrary: k cs)
  case (Suc n)
  have k: "[k..<64] = k # [Suc k..<64]" "k < 64" using Suc.prems by (simp_all add: upt_conv_Cons)
  have "k mod 32 < 32" by simp
  then have "k mod 32 * 2 + 1 < 64" by linarith
  then have "color_table [k..<64] bg obj cs = color_table [Suc k..<64] bg obj (cs[k := palette_color bg obj k])"
    using assms(1,2) Suc.prems(1) k(2) unfolding k(1) by (simp add: palette_color_def Let_def)
  then show ?case
    using Suc.IH [of "cs[k := palette_color bg obj k]" "Suc k"] Suc.prems k(2) by (auto simp: nth_list_update le_less Suc_le_eq)
qed auto

text \<open>The pixel of a colour frame at a place of the enlarged picture.\<close>

definition color_pixel :: "u8 list \<Rightarrow> u8 list \<Rightarrow> u8 list \<Rightarrow> nat \<Rightarrow> nat \<Rightarrow> u16" where
  "color_pixel indices bg obj px py = palette_color bg obj (unat (indices ! (py * 2 div 3 * 160 + px * 2 div 3)))"

lemma color_row_ok:
  assumes "length ix = 23040" "length cs = 65" "\<forall>i < 65. cs ! i = palette_color bg obj i" "py < 216" "out + 240 \<le> length s" "k + n = 240"
  shows "okp (color_row [k..<240] ix cs (py * 2 div 3) out s) (row_written (out + k) n (\<lambda>i. color_pixel ix bg obj (k + i) py) s)"
  using assms(5,6)
proof (induction n arbitrary: k s)
  case (Suc n)
  have k: "[k..<240] = k # [Suc k..<240]" "k < 240" using Suc.prems by (simp_all add: upt_conv_Cons)
  let ?T = "\<lambda>i. color_pixel ix bg obj i py"
  have b: "py * 2 div 3 \<le> 143" "k * 2 div 3 \<le> 159" using assms(4) k(2) by (simp_all add: div_le_mono [of _ "430" 3, simplified] less_mult_imp_div_less)
  then have i: "py * 2 div 3 * 160 + k * 2 div 3 < 23040" by linarith
  have c: "unat v \<le> 64 \<Longrightarrow> cs ! unat v = palette_color bg obj (unat v)"
    "\<not> unat v \<le> 64 \<Longrightarrow> cs ! 64 = palette_color bg obj (unat v)" for v :: u8
    using assms(3) by (simp_all add: palette_color_def)
  have "color_row [k..<240] ix cs (py * 2 div 3) out s = color_row [Suc k..<240] ix cs (py * 2 div 3) out (s[out + k := ?T k])"
    using i assms(1,2) Suc.prems(1) k(2) c unfolding k(1)
    by (simp add: GB_WIDTH_def COLOR_BLANK_def color_pixel_def)
  moreover have "okp (color_row [Suc k..<240] ix cs (py * 2 div 3) out (s[out + k := ?T k]))
      (row_written (out + Suc k) n (\<lambda>i. ?T (Suc k + i)) (s[out + k := ?T k]))"
    using Suc.IH [of "s[out + k := ?T k]" "Suc k"] Suc.prems by simp
  ultimately show ?case
    using row_written_store [of out k n ?T s] Suc.prems(1) k(2) by (auto elim!: okp_mono)
qed simp

text \<open>A loop that writes the rows of a strip one after the other.\<close>

lemma rows_written:
  assumes step: "\<And>dy s. dy < n \<Longrightarrow> length s = 4800 \<Longrightarrow> okp (step dy s) (row_written (dy * 240) 240 (T dy) s)"
    and F: "\<And>s. F [] s = Some s" "\<And>dy dys s. F (dy # dys) s = step dy s \<bind> F dys"
    and n: "n \<le> 20" and s: "length s = 4800" "k + m = n" "\<forall>dy < k. \<forall>px < 240. s ! (dy * 240 + px) = T dy px"
  shows "okp (F [k..<n] s) (\<lambda>t. length t = 4800 \<and> (\<forall>px < 240. \<forall>dy < n. t ! (dy * 240 + px) = T dy px))"
  using s
proof (induction m arbitrary: k s)
  case 0
  then show ?case by (simp add: F)
next
  case (Suc m)
  have k: "[k..<n] = k # [Suc k..<n]" "k < n" using Suc.prems(2) by (simp_all add: upt_conv_Cons)
  obtain t where t: "step k s = Some t" "row_written (k * 240) 240 (T k) s t"
    using step [OF k(2) Suc.prems(1)] by (auto simp: okp_iff)
  have "t ! (dy * 240 + px) = T dy px" if "dy < Suc k" "px < 240" for dy px
  proof (cases "dy = k")
    case True
    then show ?thesis using t(2) that k(2) n Suc.prems(1) by (simp add: row_written_def)
  next
    case False
    then have "\<not> k * 240 \<le> dy * 240 + px" using that by simp
    then show ?thesis using t(2) that False k(2) n Suc.prems(1,3) by (simp add: row_written_def)
  qed
  then show ?case
    using Suc.IH [of t "Suc k"] t Suc.prems(1,2) unfolding k(1) F by (simp add: row_written_def)
qed

text \<open>A filler that never skips.\<close>

lemma fills_always:
  assumes "\<And>s. length s = 4800 \<Longrightarrow> okp (F s) (\<lambda>t. length t = 4800 \<and>
    (\<forall>px < width. \<forall>dy < strip_height row limit. t ! (dy * width + px) = T px (row + dy)))"
    and "\<And>d. fill row (strip_height row limit) d = map_option Some (F (ds_strip d))"
  shows "fills fill T limit x y width row d0"
  unfolding fills_def assms(2)
proof (intro allI impI, elim conjE)
  fix d :: display
  assume "length (ds_strip d) = 4800"
  from assms(1) [OF this] show "okp (map_option Some (F (ds_strip d))) (\<lambda>filled. case filled of
      None \<Rightarrow> \<forall>px < width. \<forall>dy < strip_height row limit. ds_panel d0 (x + px) (y + row + dy) = T px (row + dy)
    | Some strip \<Rightarrow> length strip = 4800 \<and>
        (\<forall>px < width. \<forall>dy < strip_height row limit. strip ! (dy * width + px) = T px (row + dy)))"
    by (auto simp: okp_iff)
qed

lemma color_fills:
  assumes "length ix = 23040" "length cs = 65" "\<forall>i < 65. cs ! i = palette_color bg obj i"
    and "row \<in> set (strip_starts 0 216)"
  shows "fills (\<lambda>row rows d. map_option Some (color_rows [0..<rows] row ix cs (ds_strip d))) (color_pixel ix bg obj)
    216 0 52 240 row d"
proof (rule fills_always [where F = "color_rows [0..<strip_height row 216] row ix cs"])
  fix s :: "u16 list" assume s: "length s = 4800"
  let ?n = "strip_height row 216"
  have n: "?n \<le> 20" "row + ?n \<le> 216" using strip_height_le [of row 216] starts_below [OF assms(4)] by simp_all
  show "okp (color_rows [0..<?n] row ix cs s) (\<lambda>t. length t = 4800 \<and>
      (\<forall>px < 240. \<forall>dy < ?n. t ! (dy * 240 + px) = color_pixel ix bg obj px (row + dy)))"
  proof (rule rows_written [where step = "\<lambda>dy. color_row [0..<240] ix cs ((row + dy) * 2 div 3) (dy * 240)"
        and T = "\<lambda>dy px. color_pixel ix bg obj px (row + dy)" and k = 0])
    fix dy and s :: "u16 list" assume "dy < ?n" "length s = 4800"
    then show "okp (color_row [0..<240] ix cs ((row + dy) * 2 div 3) (dy * 240) s)
        (row_written (dy * 240) 240 (\<lambda>px. color_pixel ix bg obj px (row + dy)) s)"
      using color_row_ok [OF assms(1-3), of "row + dy" "dy * 240" s 0 240] n by simp
  qed (use n s in simp_all)
qed simp

lemma display_color_ok:
  assumes "screen_ok d" "length ix = 23040" "length bg = 64" "length obj = 64"
  shows "okp (gb_display_color_frame ix bg obj free d) (\<lambda>(r, d'). screen_ok d' \<and> same_task d d' \<and>
    (r = ESP_OK \<longrightarrow> (\<forall>px < 240. \<forall>py < 216. ds_panel d' px (52 + py) = color_pixel ix bg obj px py)))"
proof (cases "ds_ready d \<and> wait_frame_idle free d = ESP_OK")
  case True
  let ?d = "d\<lparr>ds_previous_valid := False\<rparr>"
  obtain cs where cs: "color_table [0..<64] bg obj (replicate 65 0xffff) = Some cs" "length cs = 65"
    "\<forall>i < 65. cs ! i = palette_color bg obj i"
    using color_table_ok [OF assms(3,4), of "replicate 65 0xffff" 0 64] by (auto simp: palette_color_def)
  let ?fill = "\<lambda>row rows d. map_option Some (color_rows [0..<rows] row ix cs (ds_strip d))"
  obtain r d' where l: "strip_loop ?fill 216 0 52 240 (strip_starts 0 216) ?d = Some (r, d')"
    and dr: "drawn (r, d') (color_pixel ix bg obj) 0 216 0 52 240 ?d"
    using strips_drawn [of 0 216 ?fill "color_pixel ix bg obj" 0 52 240 ?d] color_fills [OF assms(2) cs(2,3)] assms(1)
    by (auto simp: okp_iff screen_ok_def)
  have t: "touches ?d d'" "length (ds_strip d') = 4800" using dr by (simp_all add: drawn_def)
  let ?e = "if r \<noteq> ESP_OK then d' else d'\<lparr>ds_completed := ds_completed d' + 1\<rparr>"
  have "screen_ok ?e" using t touchesD [OF t(1)] assms(1) by (intro invalid_screen) (simp_all add: screen_ok_def)
  moreover have "same_task d ?e" using touches_same_task [OF t(1)] by (simp add: same_task_def)
  moreover have "gb_display_color_frame ix bg obj free d = Some (r, ?e)"
    using l cs(1) True by (simp add: gb_display_color_frame_def)
  ultimately show ?thesis using dr by (simp add: drawn_def)
next
  case False
  then show ?thesis using assms by (auto simp: gb_display_color_frame_def Let_def)
qed

section \<open>The boot animation\<close>

text \<open>Only light and dark pixels: what the boot frames are made of.\<close>

definition two_tone :: "u8 list \<Rightarrow> bool" where
  "two_tone f \<longleftrightarrow> (\<forall>x < 160. \<forall>y < 144. gb_pixel_shade f x y = Some 0 \<or> gb_pixel_shade f x y = Some 3)"

lemma boot_frames_two_tone:
  assumes "gb_boot_frame y0 = Some f"
  shows "two_tone f \<and> length f = 5760"
  using boot_frame_spec [of y0] assms by (auto simp: two_tone_def frame_size)

lemma boot_row_ok:
  assumes "length f = 5760" "two_tone f" "py < 216" "out + 240 \<le> length s" "k + n = 240"
  shows "okp (boot_row [k..<240] f (py * 2 div 3) out s) (row_written (out + k) n (\<lambda>i. frame_pixel f True (k + i) py) s)"
  using assms(4,5)
proof (induction n arbitrary: k s)
  case (Suc n)
  have k: "[k..<240] = k # [Suc k..<240]" "k < 240" using Suc.prems by (simp_all add: upt_conv_Cons)
  let ?T = "\<lambda>i. frame_pixel f True i py"
  have sx: "gb_pixel_source_x d True = d * 2 div 3" for d
    using div_mult_mult2 [of 80 "d * 2" 3] by (simp add: gb_pixel_source_x_def GB_WIDTH_def mult.assoc)
  have b: "py * 2 div 3 < 144" "k * 2 div 3 < 160" using assms(3) k(2) by (simp_all add: less_mult_imp_div_less)
  have p: "gb_pixel_shade f (k * 2 div 3) (py * 2 div 3) = Some 0 \<or> gb_pixel_shade f (k * 2 div 3) (py * 2 div 3) = Some 3"
    using assms(2) b unfolding two_tone_def by blast
  have w: "wire_color 0 = bswap16 GB_LCD_LIGHT" "wire_color 3 = bswap16 GB_LCD_DARK"
    by (simp_all add: wire_color_def gb_pixel_rgb565_def)
  have "boot_row [k..<240] f (py * 2 div 3) out s = boot_row [Suc k..<240] f (py * 2 div 3) out (s[out + k := ?T k])"
    using p Suc.prems(1) k(2) w unfolding k(1) by (auto simp: frame_pixel_def sx source_y_enlarged)
  moreover have "okp (boot_row [Suc k..<240] f (py * 2 div 3) out (s[out + k := ?T k]))
      (row_written (out + Suc k) n (\<lambda>i. ?T (Suc k + i)) (s[out + k := ?T k]))"
    using Suc.IH [of "s[out + k := ?T k]" "Suc k"] Suc.prems by simp
  ultimately show ?case
    using row_written_store [of out k n ?T s] Suc.prems(1) k(2) by (auto elim!: okp_mono)
qed simp

lemma boot_area: "frame_x True = 0" "frame_y True = 52" "frame_width True = 240" "frame_height True = 216"
  by (simp_all add: frame_x_def frame_y_def frame_width_def frame_height_def BSP_LCD_W_def BSP_LCD_H_def)

lemma boot_fills:
  assumes "length f = 5760" "two_tone f" "screen_ok d" "ds_previous_valid d \<Longrightarrow> ds_previous_enlarged d"
    and "row \<in> set (strip_starts 0 216)"
  shows "fills (boot_strip f) (frame_pixel f True) 216 0 52 240 row d"
  unfolding fills_def
proof (intro allI impI, elim conjE)
  fix d1 :: display
  let ?n = "strip_height row 216"
  let ?P = "\<lambda>filled. case filled of
       None \<Rightarrow> \<forall>px < 240. \<forall>dy < ?n. ds_panel d (0 + px) (52 + row + dy) = frame_pixel f True px (row + dy)
     | Some strip \<Rightarrow> length strip = 4800 \<and> (\<forall>px < 240. \<forall>dy < ?n. strip ! (dy * 240 + px) = frame_pixel f True px (row + dy))"
  assume t: "touches d d1" and l: "length (ds_strip d1) = 4800"
  have n: "0 < ?n" "?n \<le> 20" "row + ?n \<le> 216"
    using start_height [OF assms(5)] strip_height_le [of row 216] starts_below [OF assms(5)] by simp_all
  have rows: "okp (boot_rows [0..<?n] row f (ds_strip d1)) (\<lambda>t. length t = 4800 \<and>
      (\<forall>px < 240. \<forall>dy < ?n. t ! (dy * 240 + px) = frame_pixel f True px (row + dy)))"
  proof (rule rows_written [where step = "\<lambda>dy. boot_row [0..<240] f ((row + dy) * 2 div 3) (dy * 240)"
        and T = "\<lambda>dy px. frame_pixel f True px (row + dy)" and k = 0])
    fix dy and s :: "u16 list" assume "dy < ?n" "length s = 4800"
    then show "okp (boot_row [0..<240] f ((row + dy) * 2 div 3) (dy * 240) s)
        (row_written (dy * 240) 240 (\<lambda>px. frame_pixel f True px (row + dy)) s)"
      using boot_row_ok [OF assms(1,2), of "row + dy" "dy * 240" s 0 240] n by simp
  qed (use n l in \<open>simp_all add: BSP_LCD_W_def\<close>)
  have all: "okp (map_option Some (boot_rows [0..<?n] row f (ds_strip d1))) ?P" using rows by (auto simp: okp_iff)
  show "okp (boot_strip f row ?n d1) ?P"
  proof (cases "ds_previous_valid d1")
    case False
    then have "boot_strip f row ?n d1 = map_option Some (boot_rows [0..<?n] row f (ds_strip d1))"
      by (simp add: boot_strip_def)
    then show ?thesis using all by (simp only:)
  next
    case True
    then have v: "ds_previous_valid d" "ds_previous_enlarged d" using touchesD(3) [OF t] assms(4) by simp_all
    have g: "length (ds_previous d) = 5760" "ds_previous d1 = ds_previous d" "on_screen (ds_previous d) True (ds_panel d)"
      using assms(3) v touchesD(2) [OF t] by (simp_all add: screen_ok_def)
    have h: "row + ?n \<le> frame_height True" using n(3) by (simp add: boot_area)
    obtain c where c: "gb_pixels_strip_changed f (ds_previous d) row ?n True = Some c"
      using strip_changed_defined [OF assms(1) g(1) n(1) h] by blast
    show ?thesis
    proof (cases c)
      case changed: True
      then have "boot_strip f row ?n d1 = map_option Some (boot_rows [0..<?n] row f (ds_strip d1))"
        using True c g(2) by (simp add: boot_strip_def)
      then show ?thesis using all by (simp only:)
    next
      case same: False
      have "ds_panel d (0 + px) (52 + row + dy) = frame_pixel f True px (row + dy)" if "px < 240" "dy < ?n" for px dy
        using g(3) that n(3) unchanged_pixels [OF assms(1) g(1) n(1) h, of px dy] c same
        by (simp add: on_screen_def boot_area add.assoc)
      then show ?thesis using True c g(2) same by (simp add: boot_strip_def)
    qed
  qed
qed

lemma display_boot_ok:
  assumes "screen_ok d" "length f = 5760" "two_tone f" "ds_previous_valid d \<Longrightarrow> ds_previous_enlarged d"
  shows "okp (gb_display_boot_frame f free d) (\<lambda>(r, d'). screen_ok d' \<and> same_task d d' \<and>
    (ds_previous_valid d' \<longrightarrow> ds_previous_enlarged d') \<and>
    (\<forall>px py. \<not> in_rect 0 52 240 216 px py \<longrightarrow> ds_panel d' px py = ds_panel d px py) \<and>
    (r = ESP_OK \<longrightarrow> on_screen f True (ds_panel d')))"
proof (cases "wait_frame_idle free d = ESP_OK")
  case True
  obtain r d' where l: "strip_loop (boot_strip f) 216 0 52 240 (strip_starts 0 216) d = Some (r, d')"
    and dr: "drawn (r, d') (frame_pixel f True) 0 216 0 52 240 d"
    using strips_drawn [of 0 216 "boot_strip f" "frame_pixel f True" 0 52 240 d] boot_fills [OF assms(2,3,1,4)] assms(1)
    by (auto simp: okp_iff screen_ok_def)
  have t: "touches d d'" "length (ds_strip d') = 4800" using dr by (simp_all add: drawn_def)
  note keep = touchesD [OF t(1)]
  have res: "gb_display_boot_frame f free d =
      (if r \<noteq> ESP_OK then Some (r, d'\<lparr>ds_previous_valid := False\<rparr>)
       else Some (ESP_OK, d'\<lparr>ds_previous := f, ds_previous_valid := True, ds_previous_enlarged := True\<rparr>))"
    using l assms(2) True by (simp add: gb_display_boot_frame_def BSP_LCD_W_def Let_def mem_slice_def frame_size)
  have "r = ESP_OK \<Longrightarrow> on_screen f True (ds_panel d')" using dr by (simp add: drawn_def on_screen_def boot_area)
  then show ?thesis
    using dr t keep assms(1,2) unfolding res by (auto simp: drawn_def screen_ok_def same_task_def)
next
  case False
  then show ?thesis using assms(1,4) by (simp add: gb_display_boot_frame_def)
qed

text \<open>The drawing of \<open>boot_animation\<close> (main/game_main.c): the screen cleared, then the logo sliding down.\<close>

fun boot_slide :: "int list \<Rightarrow> (int \<Rightarrow> bool) \<Rightarrow> display \<Rightarrow> drawn" where
  "boot_slide [] free d = Some (ESP_OK, d)"
| "boot_slide (y # ys) free d = do {
     frame \<leftarrow> gb_boot_frame y;
     (e, d) \<leftarrow> gb_display_boot_frame frame (free y) d;
     (if e \<noteq> ESP_OK then Some (e, d) else boot_slide ys free d)
   }"

definition boot_animation :: "bool \<Rightarrow> (int \<Rightarrow> bool) \<Rightarrow> display \<Rightarrow> drawn" where
  "boot_animation free0 free d = do {
     (e, d) \<leftarrow> gb_display_clear GB_LCD_LIGHT free0 d;
     (if e \<noteq> ESP_OK then Some (e, d) else boot_slide [-36..64] free d)
   }"

lemma boot_slide_ok:
  assumes "screen_ok d" "ds_previous_valid d \<Longrightarrow> ds_previous_enlarged d"
  shows "okp (boot_slide ys free d) (\<lambda>(r, d'). screen_ok d' \<and> same_task d d' \<and>
    (\<forall>px py. \<not> in_rect 0 52 240 216 px py \<longrightarrow> ds_panel d' px py = ds_panel d px py) \<and>
    (r = ESP_OK \<and> ys \<noteq> [] \<longrightarrow> (\<exists>f. gb_boot_frame (last ys) = Some f \<and> on_screen f True (ds_panel d'))))"
  using assms
proof (induction ys arbitrary: d)
  case (Cons y ys)
  obtain f where f: "gb_boot_frame y = Some f" using boot_frame_spec [of y] by blast
  have ff: "length f = 5760" "two_tone f" using boot_frames_two_tone [OF f] by simp_all
  obtain r d1 where b: "gb_display_boot_frame f (free y) d = Some (r, d1)" and d1: "screen_ok d1" "same_task d d1"
    "ds_previous_valid d1 \<longrightarrow> ds_previous_enlarged d1"
    "\<forall>px py. \<not> in_rect 0 52 240 216 px py \<longrightarrow> ds_panel d1 px py = ds_panel d px py"
    "r = ESP_OK \<longrightarrow> on_screen f True (ds_panel d1)"
    using display_boot_ok [OF Cons.prems(1) ff Cons.prems(2), of "free y"] by (auto simp: okp_iff)
  show ?case
  proof (cases "r = ESP_OK")
    case False
    then show ?thesis using f b d1 by simp
  next
    case True
    have "okp (boot_slide ys free d1) (\<lambda>(r, d'). screen_ok d' \<and> same_task d1 d' \<and>
        (\<forall>px py. \<not> in_rect 0 52 240 216 px py \<longrightarrow> ds_panel d' px py = ds_panel d1 px py) \<and>
        (r = ESP_OK \<and> ys \<noteq> [] \<longrightarrow> (\<exists>f. gb_boot_frame (last ys) = Some f \<and> on_screen f True (ds_panel d'))))"
      using Cons.IH [OF d1(1)] d1(3) by simp
    then show ?thesis
      using True f b d1 by (cases ys) (auto simp: okp_iff same_task_def)
  qed
qed simp

end
