(* ===== verification/Gb_Display_Task.thy ===== *)
theory Gb_Display_Task
  imports Gb_Display_More
begin

text \<open>
  The frame task of main/gb_display.c.  The application hands a frame over and goes on emulating while
  a second task draws it; both use the strip buffer, the panel and what is remembered of the last
  frame.  The binary semaphore \<open>s_frame_free\<close> and the task notification keep them apart.  A step is
  what one of the two does between two of its calls into FreeRTOS.
\<close>

section \<open>Start-up\<close>

record init_answers =
  ia_bsp :: esp_err
  ia_strip :: "u16 list option"
  ia_done :: bool
  ia_callbacks :: esp_err
  ia_frame_free :: bool
  ia_task :: bool

text \<open>\<open>ia_strip\<close> is the memory \<open>heap_caps_malloc\<close> returned, with whatever it holds.\<close>

definition gb_display_init :: "init_answers \<Rightarrow> display \<Rightarrow> drawn" where
  "gb_display_init a d =
     (if ds_ready d then Some (ESP_OK, d)
      else if ia_bsp a \<noteq> ESP_OK then Some (ia_bsp a, d)
      else case ia_strip a of
        None \<Rightarrow> Some (ESP_ERR_NO_MEM, d\<lparr>ds_strip := []\<rparr>)
      | Some strip \<Rightarrow>
          if \<not> ia_done a then Some (ESP_ERR_NO_MEM, d\<lparr>ds_strip := []\<rparr>)
          else if ia_callbacks a \<noteq> ESP_OK then Some (ia_callbacks a, d\<lparr>ds_strip := []\<rparr>)
          else do {
            (e, d) \<leftarrow> gb_display_clear 0 True (d\<lparr>ds_strip := strip, ds_ready := True\<rparr>);
            (if e \<noteq> ESP_OK then Some (e, d)
             else if \<not> ia_frame_free a then Some (ESP_ERR_NO_MEM, d)
             else if \<not> ia_task a then Some (ESP_ERR_NO_MEM, d)
             else Some (ESP_OK, d\<lparr>ds_frame_task := True\<rparr>))
          })"

definition no_display :: "panel \<Rightarrow> transfer list \<Rightarrow> display" where
  "no_display p ts = \<lparr>ds_strip = [], ds_ready = False, ds_previous = replicate GB_FRAME_BYTES 0, ds_previous_valid = False,
     ds_previous_enlarged = False, ds_queued = replicate GB_FRAME_BYTES 0, ds_queued_enlarged = False,
     ds_frame_task = False, ds_frame_error = ESP_OK, ds_completed = 0, ds_panel = p, ds_transfers = ts\<rparr>"

section \<open>The two tasks\<close>

datatype draw_op = Op_clear u16 | Op_color "u8 list" "u8 list" "u8 list" | Op_boot_animation

datatype app_pc =
    App_runs
  | Submitting "u8 list" bool
  | Checking
  | Waiting draw_op
  | Drawing draw_op

datatype task_pc = Task_sleeps | Task_draws | Task_drawn

record screen_system =
  sc_display :: display
  sc_free :: bool
  sc_notified :: bool
  sc_app :: app_pc
  sc_task :: task_pc
  sc_last :: "(u8 list \<times> bool) option"

text \<open>The body of \<open>frame_task\<close> once woken: draw, count or remember the error.\<close>

definition frame_task_draw :: "display \<Rightarrow> display option" where
  "frame_task_draw d = do {
     (e, d) \<leftarrow> gb_display_frame (Some (ds_queued d)) (ds_queued_enlarged d) d;
     let d = (if e = ESP_OK then d\<lparr>ds_completed := ds_completed d + 1\<rparr> else d);
     Some (if e \<noteq> ESP_OK then d\<lparr>ds_frame_error := e\<rparr> else d)
   }"

text \<open>\<open>gb_display_submit_frame\<close>: its guards and the attempt to take the semaphore, and what follows it.\<close>

definition submit_take :: "u8 list \<Rightarrow> bool \<Rightarrow> screen_system \<Rightarrow> screen_system" where
  "submit_take frame enlarged s =
     (if \<not> ds_ready (sc_display s) \<or> \<not> ds_frame_task (sc_display s) then s
      else if \<not> sc_free s then s
      else s\<lparr>sc_free := False, sc_app := Submitting frame enlarged\<rparr>)"

definition submit_finish :: "u8 list \<Rightarrow> bool \<Rightarrow> screen_system \<Rightarrow> screen_system" where
  "submit_finish frame enlarged s =
     (if ds_frame_error (sc_display s) \<noteq> ESP_OK then s\<lparr>sc_free := True, sc_app := App_runs\<rparr>
      else s\<lparr>sc_display := (sc_display s)\<lparr>ds_queued := frame, ds_queued_enlarged := enlarged\<rparr>,
             sc_notified := True, sc_app := App_runs, sc_last := Some (frame, enlarged)\<rparr>)"

text \<open>\<open>gb_display_idle\<close>.\<close>

definition idle_take :: "screen_system \<Rightarrow> screen_system" where
  "idle_take s =
     (if \<not> ds_ready (sc_display s) \<or> \<not> ds_frame_task (sc_display s) then s
      else if \<not> sc_free s then s
      else s\<lparr>sc_free := False, sc_app := Checking\<rparr>)"

text \<open>\<open>wait_frame_idle\<close> at the start of a drawing function: the semaphore taken, and given back.\<close>

definition wait_take :: "draw_op \<Rightarrow> screen_system \<Rightarrow> screen_system" where
  "wait_take x s =
     (if \<not> ds_frame_task (sc_display s) then s\<lparr>sc_app := Drawing x\<rparr>
      else if \<not> sc_free s then s\<lparr>sc_app := App_runs\<rparr>
      else s\<lparr>sc_free := False, sc_app := Waiting x\<rparr>)"

definition wait_give :: "draw_op \<Rightarrow> screen_system \<Rightarrow> screen_system" where
  "wait_give x s =
     s\<lparr>sc_free := True, sc_app := (if ds_frame_error (sc_display s) \<noteq> ESP_OK then App_runs else Drawing x)\<rparr>"

fun draw_op_run :: "draw_op \<Rightarrow> display \<Rightarrow> drawn" where
  "draw_op_run (Op_clear c) d = gb_display_clear c True d"
| "draw_op_run (Op_color ix bg obj) d = gb_display_color_frame ix bg obj True d"
| "draw_op_run Op_boot_animation d = boot_animation True (\<lambda>_. True) d"

fun op_sizes :: "draw_op \<Rightarrow> bool" where
  "op_sizes (Op_color ix bg obj) \<longleftrightarrow> length ix = 23040 \<and> length bg = 64 \<and> length obj = 64"
| "op_sizes _ = True"

inductive screen_step :: "screen_system \<Rightarrow> screen_system \<Rightarrow> bool" where
  Submit: "sc_app s = App_runs \<Longrightarrow> length f = 5760 \<Longrightarrow> screen_step s (submit_take f e s)"
| Submitted: "sc_app s = Submitting f e \<Longrightarrow> screen_step s (submit_finish f e s)"
| Check: "sc_app s = App_runs \<Longrightarrow> screen_step s (idle_take s)"
| Checked: "sc_app s = Checking \<Longrightarrow> screen_step s (s\<lparr>sc_free := True, sc_app := App_runs\<rparr>)"
| Wait: "sc_app s = App_runs \<Longrightarrow> op_sizes x \<Longrightarrow> screen_step s (wait_take x s)"
| Waited: "sc_app s = Waiting x \<Longrightarrow> screen_step s (wait_give x s)"
| Draw: "sc_app s = Drawing x \<Longrightarrow> draw_op_run x (sc_display s) = Some (r, d) \<Longrightarrow>
    screen_step s (s\<lparr>sc_display := d, sc_app := App_runs, sc_last := None\<rparr>)"
| Wake: "sc_task s = Task_sleeps \<Longrightarrow> sc_notified s \<Longrightarrow> screen_step s (s\<lparr>sc_notified := False, sc_task := Task_draws\<rparr>)"
| Frame: "sc_task s = Task_draws \<Longrightarrow> frame_task_draw (sc_display s) = Some d \<Longrightarrow>
    screen_step s (s\<lparr>sc_display := d, sc_task := Task_drawn\<rparr>)"
| Give: "sc_task s = Task_drawn \<Longrightarrow> screen_step s (s\<lparr>sc_free := True, sc_task := Task_sleeps\<rparr>)"

definition screen_start :: "display \<Rightarrow> screen_system" where
  "screen_start d = \<lparr>sc_display = d, sc_free = True, sc_notified = False, sc_app = App_runs, sc_task = Task_sleeps,
     sc_last = None\<rparr>"

text \<open>The display after a successful \<open>gb_display_init\<close>.\<close>

inductive screen_reach :: "screen_system \<Rightarrow> bool" where
  Ready: "gb_display_init a (no_display p ts) = Some (ESP_OK, d) \<Longrightarrow> ia_strip a = Some strip \<Longrightarrow> length strip = 4800 \<Longrightarrow>
    screen_reach (screen_start d)"
| Goes_on: "screen_reach s \<Longrightarrow> screen_step s t \<Longrightarrow> screen_reach t"

section \<open>The invariant\<close>

text \<open>Who has the right to draw: the semaphore, the application, a notification, or the task.\<close>

fun holds_token :: "app_pc \<Rightarrow> bool" where
  "holds_token (Submitting f e) = True" | "holds_token Checking = True" | "holds_token (Waiting x) = True"
| "holds_token _ = False"

definition token_count :: "screen_system \<Rightarrow> nat" where
  "token_count s = (if sc_free s then 1 else 0) + (if holds_token (sc_app s) then 1 else 0) +
     (if sc_notified s then 1 else 0) + (if sc_task s = Task_sleeps then 0 else 1)"

definition apart :: "screen_system \<Rightarrow> bool" where
  "apart s \<longleftrightarrow> (\<forall>x. sc_app s = Drawing x \<longrightarrow> sc_free s \<and> \<not> sc_notified s \<and> sc_task s = Task_sleeps \<and>
     ds_frame_error (sc_display s) = ESP_OK)"

definition sizes_ok :: "screen_system \<Rightarrow> bool" where
  "sizes_ok s \<longleftrightarrow> length (ds_queued (sc_display s)) = 5760 \<and> ds_ready (sc_display s) \<and> ds_frame_task (sc_display s) \<and>
     (\<forall>f e. sc_app s = Submitting f e \<longrightarrow> length f = 5760) \<and>
     (\<forall>x. sc_app s = Waiting x \<or> sc_app s = Drawing x \<longrightarrow> op_sizes x)"

text \<open>The frame handed over last is queued, or on the screen.\<close>

definition last_frame :: "screen_system \<Rightarrow> bool" where
  "last_frame s \<longleftrightarrow> (\<forall>f e. sc_last s = Some (f, e) \<longrightarrow>
     (if sc_notified s \<or> sc_task s = Task_draws then ds_queued (sc_display s) = f \<and> ds_queued_enlarged (sc_display s) = e
      else ds_frame_error (sc_display s) = ESP_OK \<longrightarrow> on_screen f e (ds_panel (sc_display s))))"

definition system_fine :: "screen_system \<Rightarrow> bool" where
  "system_fine s \<longleftrightarrow> screen_ok (sc_display s) \<and> token_count s = 1 \<and> apart s \<and> sizes_ok s \<and> last_frame s"

lemma boot_animation_ok:
  assumes "screen_ok d"
  shows "okp (boot_animation free0 free d) (\<lambda>(r, d'). screen_ok d' \<and> same_task d d' \<and>
    (r = ESP_OK \<longrightarrow> (\<exists>f. gb_boot_frame 64 = Some f \<and> on_screen f True (ds_panel d')) \<and>
       (\<forall>px py. px < 240 \<and> py < 320 \<and> \<not> in_rect 0 52 240 216 px py \<longrightarrow> ds_panel d' px py = bswap16 GB_LCD_LIGHT)))"
proof -
  obtain r d1 where c: "gb_display_clear GB_LCD_LIGHT free0 d = Some (r, d1)" and d1: "screen_ok d1" "same_task d d1"
    "r = ESP_OK \<longrightarrow> \<not> ds_previous_valid d1 \<and> (\<forall>px < 240. \<forall>py < 320. ds_panel d1 px py = bswap16 GB_LCD_LIGHT)"
    using display_clear_ok [OF assms, of GB_LCD_LIGHT free0] by (auto simp: okp_iff)
  show ?thesis
  proof (cases "r = ESP_OK")
    case False
    then show ?thesis using c d1 by (simp add: boot_animation_def)
  next
    case True
    have l: "last [-36..64] = (64 :: int)" "[-36..64 :: int] \<noteq> []" by (subst upto_rec2; simp)+
    obtain r2 d2 where b: "boot_slide [-36..64] free d1 = Some (r2, d2)" and d2: "screen_ok d2" "same_task d1 d2"
      "\<forall>px py. \<not> in_rect 0 52 240 216 px py \<longrightarrow> ds_panel d2 px py = ds_panel d1 px py"
      "r2 = ESP_OK \<longrightarrow> (\<exists>f. gb_boot_frame 64 = Some f \<and> on_screen f True (ds_panel d2))"
      using boot_slide_ok [OF d1(1), of "[-36..64]" free] d1(3) True l by (auto simp: okp_iff)
    have "boot_animation free0 free d = Some (r2, d2)" using c b True by (simp add: boot_animation_def)
    then show ?thesis using d1 d2 True by (auto simp: same_task_def)
  qed
qed

lemma draw_op_ok:
  assumes "screen_ok d" "op_sizes x"
  shows "okp (draw_op_run x d) (\<lambda>(r, d'). screen_ok d' \<and> same_task d d')"
proof (cases x)
  case (Op_clear c)
  then show ?thesis using display_clear_ok [OF assms(1), of c True] by (auto simp: okp_iff)
next
  case (Op_color ix bg obj)
  then show ?thesis using display_color_ok [OF assms(1), of ix bg obj True] assms(2) by (auto simp: okp_iff)
next
  case Op_boot_animation
  then show ?thesis using boot_animation_ok [OF assms(1), of True "\<lambda>_. True"] by (auto simp: okp_iff)
qed

lemma display_init_ok:
  assumes "gb_display_init a (no_display p ts) = Some (ESP_OK, d)" "ia_strip a = Some strip" "length strip = 4800"
  shows "screen_ok d \<and> ds_ready d \<and> ds_frame_task d \<and> ds_frame_error d = ESP_OK \<and> length (ds_queued d) = 5760"
proof -
  let ?d = "(no_display p ts)\<lparr>ds_strip := strip, ds_ready := True\<rparr>"
  have "screen_ok ?d" using assms(3) by (simp add: screen_ok_def no_display_def frame_size)
  then obtain r d1 where c: "gb_display_clear 0 True ?d = Some (r, d1)" "screen_ok d1" "same_task ?d d1"
    using display_clear_ok [of ?d 0 True] by (auto simp: okp_iff)
  have "\<not> ds_ready (no_display p ts)" by (simp add: no_display_def)
  then have "d = d1\<lparr>ds_frame_task := True\<rparr>"
    using assms(1,2) c(1) by (auto simp: gb_display_init_def split: if_splits)
  then show ?thesis using c(2,3) by (simp add: screen_ok_def same_task_def no_display_def frame_size)
qed

lemma frame_task_ok:
  assumes "screen_ok d" "ds_ready d" "length (ds_queued d) = 5760"
  shows "okp (frame_task_draw d) (\<lambda>d'. screen_ok d' \<and> ds_ready d' \<and> ds_frame_task d' = ds_frame_task d \<and>
    ds_queued d' = ds_queued d \<and> ds_queued_enlarged d' = ds_queued_enlarged d \<and>
    (ds_frame_error d' = ESP_OK \<longrightarrow> on_screen (ds_queued d) (ds_queued_enlarged d) (ds_panel d')))"
proof -
  obtain r d1 where f: "gb_display_frame (Some (ds_queued d)) (ds_queued_enlarged d) d = Some (r, d1)"
    and d1: "screen_ok d1" "if r = ESP_OK then on_screen (ds_queued d) (ds_queued_enlarged d) (ds_panel d1) else \<not> ds_previous_valid d1"
    "ds_ready d1" "ds_frame_task d1 = ds_frame_task d" "ds_queued d1 = ds_queued d" "ds_queued_enlarged d1 = ds_queued_enlarged d"
    using display_frame_ok [OF assms(1,3,2), of "ds_queued_enlarged d"] by (auto simp: okp_iff)
  show ?thesis using d1 by (simp add: frame_task_draw_def f Let_def screen_ok_def)
qed

lemma same_screen [simp]:
  "screen_ok (d\<lparr>ds_queued := f, ds_queued_enlarged := e\<rparr>) = screen_ok d"
  by (simp add: screen_ok_def)

lemmas fine_defs = system_fine_def token_count_def apart_def sizes_ok_def last_frame_def

lemma step_fine: "screen_step s t \<Longrightarrow> system_fine s \<Longrightarrow> system_fine t"
proof (induction rule: screen_step.induct)
  case (Submit s f e)
  then show ?case by (auto simp: submit_take_def fine_defs split: if_splits)
next
  case (Submitted s f e)
  then show ?case by (auto simp: submit_finish_def fine_defs split: if_splits)
next
  case (Check s)
  then show ?case by (auto simp: idle_take_def fine_defs split: if_splits)
next
  case (Checked s)
  then show ?case by (auto simp: fine_defs split: if_splits)
next
  case (Wait s x)
  then show ?case by (auto simp: wait_take_def fine_defs split: if_splits)
next
  case (Waited s x)
  then show ?case by (auto simp: wait_give_def fine_defs split: if_splits)
next
  case (Draw s x r d)
  have x: "screen_ok (sc_display s)" "op_sizes x" using Draw by (simp_all add: system_fine_def sizes_ok_def)
  have "screen_ok d" "same_task (sc_display s) d" using draw_op_ok [OF x] Draw(2) by (auto simp: okp_iff)
  then show ?case using Draw by (auto simp: fine_defs same_task_def split: if_splits)
next
  case (Wake s)
  then show ?case by (auto simp: fine_defs split: if_splits)
next
  case (Frame s d)
  have q: "screen_ok (sc_display s)" "ds_ready (sc_display s)" "length (ds_queued (sc_display s)) = 5760"
    using Frame by (simp_all add: system_fine_def sizes_ok_def)
  have d: "screen_ok d" "ds_ready d" "ds_frame_task d = ds_frame_task (sc_display s)" "ds_queued d = ds_queued (sc_display s)"
    "ds_frame_error d = ESP_OK \<longrightarrow> on_screen (ds_queued (sc_display s)) (ds_queued_enlarged (sc_display s)) (ds_panel d)"
    using frame_task_ok [OF q] Frame(2) by (auto simp: okp_iff)
  have n: "\<not> sc_notified s" using Frame by (auto simp: fine_defs split: if_splits)
  show ?case using Frame d n by (auto simp: fine_defs split: if_splits)
next
  case (Give s)
  then show ?case by (auto simp: fine_defs split: if_splits)
qed

lemma reach_fine: "screen_reach s \<Longrightarrow> system_fine s"
proof (induction rule: screen_reach.induct)
  case (Ready a p ts d strip)
  then show ?case using display_init_ok [OF Ready] by (simp add: fine_defs screen_start_def)
next
  case (Goes_on s t)
  then show ?case using step_fine by blast
qed

text \<open>A transfer that failed once is never forgotten: nothing clears \<open>s_frame_error\<close>.\<close>

lemma frame_error_stays:
  assumes "screen_step s t" "ds_frame_error (sc_display s) \<noteq> ESP_OK" "system_fine s"
  shows "ds_frame_error (sc_display t) \<noteq> ESP_OK"
  using assms
proof (induction rule: screen_step.induct)
  case (Draw s x r d)
  then show ?case by (simp add: fine_defs)
next
  case (Frame s d)
  have q: "screen_ok (sc_display s)" "ds_ready (sc_display s)" "length (ds_queued (sc_display s)) = 5760"
    using Frame by (simp_all add: system_fine_def sizes_ok_def)
  obtain r d1 where f: "gb_display_frame (Some (ds_queued (sc_display s))) (ds_queued_enlarged (sc_display s)) (sc_display s) = Some (r, d1)"
    and e: "ds_frame_error d1 = ds_frame_error (sc_display s)"
    using display_frame_ok [OF q(1,3,2), of "ds_queued_enlarged (sc_display s)"] by (auto simp: okp_iff)
  show ?case using Frame(2,3) e by (auto simp: frame_task_draw_def f Let_def split: if_splits)
qed (simp_all add: submit_take_def submit_finish_def idle_take_def wait_take_def wait_give_def)

text \<open>With such an error every screen the application draws is refused.\<close>

lemma frame_error_refuses:
  "ds_frame_task d \<Longrightarrow> ds_frame_error d \<noteq> ESP_OK \<Longrightarrow> ds_ready d \<Longrightarrow>
    gb_display_clear c True d = Some (ds_frame_error d, d)"
  by (simp add: gb_display_clear_def wait_frame_idle_def)

end
