(* ===== verification/Display_Properties.thy ===== *)
theory Display_Properties
  imports Gb_Display_Task
begin

text \<open>
  The properties of the display, each with a witness where it has hypotheses.
\<close>

section \<open>Transfers that are done\<close>

definition all_sent :: "display \<Rightarrow> bool" where
  "all_sent d \<longleftrightarrow> set (ds_transfers d) \<subseteq> {Sent}"

lemma send_strip_sent:
  "all_sent d \<Longrightarrow> send_strip x y w n d = Some (r, e) \<Longrightarrow> r = ESP_OK \<and> all_sent e"
  by (cases "ds_transfers d") (auto simp: all_sent_def send_strip_def draw_bitmap_def bind_eq_Some_conv split: transfer.splits)

lemma strip_loop_sent:
  "all_sent d \<Longrightarrow> strip_loop fill limit x y w rows d = Some (r, e) \<Longrightarrow> r = ESP_OK \<and> all_sent e"
proof (induction rows arbitrary: d)
  case (Cons row rows)
  obtain filled where f: "fill row (strip_height row limit) d = Some filled"
    using Cons.prems(2) by (auto simp: bind_eq_Some_conv Let_def)
  show ?case
  proof (cases filled)
    case None
    then show ?thesis using Cons f by simp
  next
    case (Some strip)
    obtain r1 d1 where s: "send_strip x (y + row) w (strip_height row limit) (d\<lparr>ds_strip := strip\<rparr>) = Some (r1, d1)"
      using Cons.prems(2) f Some by (auto simp: bind_eq_Some_conv Let_def)
    have "r1 = ESP_OK \<and> all_sent d1" using send_strip_sent [OF _ s] Cons.prems(1) by (simp add: all_sent_def)
    then show ?thesis using Cons.IH [of d1] Cons.prems(2) f Some s by simp
  qed
qed simp

lemma frame_sent:
  assumes "all_sent d" "ds_ready d" "gb_display_frame (Some f) e d = Some (r, d')"
  shows "r = ESP_OK"
  using assms strip_loop_sent [OF assms(1)]
  by (auto simp: gb_display_frame_def bind_eq_Some_conv Let_def split: if_splits)

lemma clear_sent:
  assumes "all_sent d" "gb_display_clear c free d = Some (r, d')" "ds_ready d" "wait_frame_idle free d = ESP_OK"
  shows "r = ESP_OK \<and> all_sent d'"
  using assms strip_loop_sent [of "d\<lparr>ds_previous_valid := False\<rparr>"]
  by (simp add: gb_display_clear_def all_sent_def)

lemma boot_frame_sent:
  assumes "all_sent d" "gb_display_boot_frame f free d = Some (r, d')" "wait_frame_idle free d = ESP_OK"
  shows "r = ESP_OK \<and> all_sent d'"
proof -
  obtain r1 d1 where l: "strip_loop (boot_strip f) 216 0 52 BSP_LCD_W (strip_starts 0 216) d = Some (r1, d1)"
    using assms(2,3) by (auto simp: gb_display_boot_frame_def bind_eq_Some_conv Let_def)
  have "r1 = ESP_OK" "all_sent d1" using strip_loop_sent [OF assms(1) l] by simp_all
  then show ?thesis using assms(2,3) l
    by (auto simp: gb_display_boot_frame_def bind_eq_Some_conv Let_def all_sent_def)
qed

lemma same_task_idle: "same_task d e \<Longrightarrow> wait_frame_idle free e = wait_frame_idle free d"
  by (simp add: wait_frame_idle_def same_task_def)

lemma boot_slide_sent:
  assumes "all_sent d" "\<forall>y. wait_frame_idle (free y) d = ESP_OK" "boot_slide ys free d = Some (r, d')"
    and "screen_ok d" "ds_previous_valid d \<Longrightarrow> ds_previous_enlarged d"
  shows "r = ESP_OK"
  using assms
proof (induction ys arbitrary: d)
  case (Cons y ys)
  obtain f where f: "gb_boot_frame y = Some f" using boot_frame_spec [of y] by blast
  have ff: "length f = 5760" "two_tone f" using boot_frames_two_tone [OF f] by simp_all
  obtain r1 d1 where b: "gb_display_boot_frame f (free y) d = Some (r1, d1)" and d1: "screen_ok d1" "same_task d d1"
    "ds_previous_valid d1 \<longrightarrow> ds_previous_enlarged d1"
    using display_boot_ok [OF Cons.prems(4) ff Cons.prems(5), of "free y"] by (auto simp: okp_iff)
  have s: "r1 = ESP_OK" "all_sent d1" using boot_frame_sent [OF Cons.prems(1) b] Cons.prems(2) by simp_all
  have i: "\<forall>y. wait_frame_idle (free y) d1 = ESP_OK" using Cons.prems(2) same_task_idle [OF d1(2)] by simp
  show ?case using Cons.IH [OF s(2) i _ d1(1)] Cons.prems(3) f b s(1) d1(3) by simp
qed simp

section \<open>Frames\<close>

text \<open>C17.  A drawn frame is on the screen completely, although the strips that did not change were left out: every
  pixel of its area shows the frame, every pixel outside is as it was, and what is remembered for the
  next comparison is what the screen shows; a failed transfer forgets it.  Drawing fails only if a
  transfer does, and reads and writes inside its buffers.\<close>

theorem frame_drawn:
  assumes "screen_ok d" "length f = 5760" "ds_ready d"
  shows "\<exists>r d'. gb_display_frame (Some f) e d = Some (r, d') \<and> screen_ok d' \<and>
    (\<forall>px py. \<not> in_rect (frame_x e) (frame_y e) (frame_width e) (frame_height e) px py \<longrightarrow> ds_panel d' px py = ds_panel d px py) \<and>
    (if r = ESP_OK then on_screen f e (ds_panel d') else \<not> ds_previous_valid d') \<and> (all_sent d \<longrightarrow> r = ESP_OK)"
proof -
  obtain r d' where g: "gb_display_frame (Some f) e d = Some (r, d')"
    and p: "screen_ok d'" "if r = ESP_OK then on_screen f e (ds_panel d') else \<not> ds_previous_valid d'"
      "\<forall>px py. \<not> in_rect (frame_x e) (frame_y e) (frame_width e) (frame_height e) px py \<longrightarrow> ds_panel d' px py = ds_panel d px py"
    using display_frame_ok [OF assms, of e] by (auto simp: okp_iff)
  show ?thesis using g p frame_sent [OF _ assms(3) g] by blast
qed

definition blank_display :: display where
  "blank_display = (no_display (\<lambda>_ _. 7) [])\<lparr>ds_strip := replicate 4800 0, ds_ready := True\<rparr>"

lemma blank_display_ok: "screen_ok blank_display \<and> ds_ready blank_display \<and> all_sent blank_display \<and>
    ds_frame_error blank_display = ESP_OK \<and> \<not> ds_frame_task blank_display"
  by (simp add: blank_display_def no_display_def screen_ok_def all_sent_def frame_size)

lemma frame_drawn_witness:
  "\<exists>d'. gb_display_frame (Some (replicate 5760 0xff)) False blank_display = Some (ESP_OK, d') \<and>
    ds_panel d' 0 0 = 7 \<and> ds_panel d' 40 88 = wire_color 3"
proof -
  let ?f = "replicate 5760 0xff :: u8 list"
  obtain r d' where g: "gb_display_frame (Some ?f) False blank_display = Some (r, d')" "r = ESP_OK"
    "on_screen ?f False (ds_panel d')"
    "\<forall>px py. \<not> in_rect (frame_x False) (frame_y False) (frame_width False) (frame_height False) px py \<longrightarrow>
       ds_panel d' px py = ds_panel blank_display px py"
    using frame_drawn [of blank_display ?f False] blank_display_ok by auto
  have area: "frame_x False = 40" "frame_y False = 88" "frame_width False = 160" "frame_height False = 144"
    by (simp_all add: frame_x_def frame_y_def frame_width_def frame_height_def BSP_LCD_W_def BSP_LCD_H_def frame_size)
  have c: "ds_panel d' 0 0 = 7" using g(4) by (simp add: in_rect_def area blank_display_def no_display_def)
  have "\<And>px py. px < 160 \<Longrightarrow> py < 144 \<Longrightarrow> ds_panel d' (40 + px) (88 + py) = frame_pixel ?f False px py"
    using g(3) by (simp add: on_screen_def area)
  from this [of 0 0] have "ds_panel d' 40 88 = frame_pixel ?f False 0 0" by simp
  moreover have "frame_pixel ?f False 0 0 = wire_color 3"
    by (simp add: frame_pixel_def gb_pixel_source_x_def gb_pixel_source_y_def shade_defined shade_in_def)
  ultimately show ?thesis using g(1,2) c by simp
qed

section \<open>The boot animation\<close>

text \<open>The boot animation ends with the logo in its place: if every transfer is done and no frame is being
  drawn, all 101 frames are drawn, the last one, with the logo at rest, is on the screen, and the rest
  of the screen has the light colour.\<close>

theorem boot_animation_drawn:
  assumes "screen_ok d" "ds_ready d" "all_sent d" "wait_frame_idle free0 d = ESP_OK" "\<forall>y. wait_frame_idle (free y) d = ESP_OK"
  shows "\<exists>d'. boot_animation free0 free d = Some (ESP_OK, d') \<and>
    (\<exists>f. gb_boot_frame 64 = Some f \<and> on_screen f True (ds_panel d')) \<and>
    (\<forall>px py. px < 240 \<and> py < 320 \<and> \<not> in_rect 0 52 240 216 px py \<longrightarrow> ds_panel d' px py = bswap16 GB_LCD_LIGHT)"
proof -
  obtain r d' where b: "boot_animation free0 free d = Some (r, d')"
    and p: "r = ESP_OK \<longrightarrow> (\<exists>f. gb_boot_frame 64 = Some f \<and> on_screen f True (ds_panel d')) \<and>
       (\<forall>px py. px < 240 \<and> py < 320 \<and> \<not> in_rect 0 52 240 216 px py \<longrightarrow> ds_panel d' px py = bswap16 GB_LCD_LIGHT)"
    using boot_animation_ok [OF assms(1), of free0 free] by (auto simp: okp_iff)
  obtain r1 d1 where c: "gb_display_clear GB_LCD_LIGHT free0 d = Some (r1, d1)" and d1: "screen_ok d1" "same_task d d1"
    "r1 = ESP_OK \<longrightarrow> \<not> ds_previous_valid d1"
    using display_clear_ok [OF assms(1), of GB_LCD_LIGHT free0] by (auto simp: okp_iff)
  have s: "r1 = ESP_OK" "all_sent d1" using clear_sent [OF assms(3) c assms(2,4)] by simp_all
  have "boot_slide [-36..64] free d1 = Some (r, d')" using b c s(1) by (simp add: boot_animation_def)
  then have "r = ESP_OK"
    by (rule boot_slide_sent [OF s(2) _ _ d1(1), rotated 1]) (use same_task_idle [OF d1(2)] assms(5) d1(3) s(1) in simp_all)
  then show ?thesis using b p by blast
qed

lemma boot_animation_drawn_witness:
  "\<exists>d'. boot_animation True (\<lambda>_. True) blank_display = Some (ESP_OK, d') \<and> ds_panel d' 0 0 = bswap16 GB_LCD_LIGHT"
proof -
  have "wait_frame_idle True blank_display = ESP_OK" using blank_display_ok by (simp add: wait_frame_idle_def)
  then obtain d' where "boot_animation True (\<lambda>_. True) blank_display = Some (ESP_OK, d')"
    "\<forall>px py. px < 240 \<and> py < 320 \<and> \<not> in_rect 0 52 240 216 px py \<longrightarrow> ds_panel d' px py = bswap16 GB_LCD_LIGHT"
    using boot_animation_drawn [of blank_display True "\<lambda>_. True"] blank_display_ok by auto
  then show ?thesis by (auto simp: in_rect_def)
qed

section \<open>The two tasks\<close>

text \<open>C33.  The application and the frame task never draw at the same time, and no frame is lost: in every reachable
  state at most one of them uses the strip buffer and the panel, the frame to be drawn is not
  overwritten before it is drawn, and when the semaphore is free and no transfer has failed the frame
  handed over last, unless the application has drawn since, is on the screen.\<close>

theorem display_tasks_apart:
  assumes "screen_reach s"
  shows "(sc_app s = Drawing x \<longrightarrow> sc_task s = Task_sleeps \<and> \<not> sc_notified s) \<and>
    (sc_notified s \<or> sc_task s \<noteq> Task_sleeps \<longrightarrow> \<not> sc_free s \<and> (\<forall>f e. sc_app s \<noteq> Submitting f e)) \<and>
    (sc_last s = Some (f, e) \<and> sc_free s \<and> ds_frame_error (sc_display s) = ESP_OK \<longrightarrow> on_screen f e (ds_panel (sc_display s)))"
  using reach_fine [OF assms] by (auto simp: fine_defs split: if_splits)

lemma first_clear:
  "\<exists>d. gb_display_init \<lparr>ia_bsp = ESP_OK, ia_strip = Some (replicate 4800 0), ia_done = True, ia_callbacks = ESP_OK,
     ia_frame_free = True, ia_task = True\<rparr> (no_display (\<lambda>_ _. 0) []) = Some (ESP_OK, d) \<and> all_sent d"
proof -
  let ?d = "(no_display (\<lambda>_ _. 0) [])\<lparr>ds_strip := replicate 4800 0, ds_ready := True\<rparr>"
  have d: "screen_ok ?d" "all_sent ?d" "ds_ready ?d" "wait_frame_idle True ?d = ESP_OK"
    by (simp_all add: no_display_def screen_ok_def all_sent_def frame_size wait_frame_idle_def)
  obtain r d1 where c: "gb_display_clear 0 True ?d = Some (r, d1)"
    using display_clear_ok [OF d(1), of 0 True] by (auto simp: okp_iff)
  have "r = ESP_OK" "all_sent d1" using clear_sent [OF d(2) c d(3,4)] by simp_all
  moreover have "\<not> ds_ready (no_display (\<lambda>_ _. 0) [])" by (simp add: no_display_def)
  ultimately show ?thesis using c by (simp add: gb_display_init_def all_sent_def)
qed

text \<open>A run: a frame is handed over, drawn by the task, and the semaphore given back.\<close>

lemma display_tasks_apart_witness:
  "\<exists>s. screen_reach s \<and> sc_last s = Some (replicate 5760 0, True) \<and> on_screen (replicate 5760 0) True (ds_panel (sc_display s))"
proof -
  let ?a = "\<lparr>ia_bsp = ESP_OK, ia_strip = Some (replicate 4800 0), ia_done = True, ia_callbacks = ESP_OK,
     ia_frame_free = True, ia_task = True\<rparr>" and ?f = "replicate 5760 0 :: u8 list"
  obtain d where i: "gb_display_init ?a (no_display (\<lambda>_ _. 0) []) = Some (ESP_OK, d)" and a: "all_sent d"
    using first_clear by blast
  have d: "screen_ok d" "ds_ready d" "ds_frame_task d" "ds_frame_error d = ESP_OK" using display_init_ok [OF i, of "replicate 4800 0"] by simp_all
  let ?d = "d\<lparr>ds_queued := ?f, ds_queued_enlarged := True\<rparr>"
  obtain r e where g: "gb_display_frame (Some ?f) True ?d = Some (r, e)" and r: "r = ESP_OK"
    using frame_drawn [of ?d ?f True] d a by (auto simp: all_sent_def)
  have e: "ds_frame_error e = ESP_OK" using display_frame_ok [of ?d ?f True] d g by (auto simp: okp_iff)
  let ?h = "e\<lparr>ds_completed := ds_completed e + 1\<rparr>"
  have t: "frame_task_draw ?d = Some ?h" using g r by (simp add: frame_task_draw_def)
  define s0 where "s0 = screen_start d"
  define s1 where "s1 = submit_take ?f True s0"
  define s2 where "s2 = submit_finish ?f True s1"
  define s3 where "s3 = s2\<lparr>sc_notified := False, sc_task := Task_draws\<rparr>"
  define s4 where "s4 = s3\<lparr>sc_display := ?h, sc_task := Task_drawn\<rparr>"
  define s5 where "s5 = s4\<lparr>sc_free := True, sc_task := Task_sleeps\<rparr>"
  have v1: "s1 = (screen_start d)\<lparr>sc_free := False, sc_app := Submitting ?f True\<rparr>"
    using d by (simp add: s1_def s0_def submit_take_def screen_start_def)
  have v2: "s2 = \<lparr>sc_display = ?d, sc_free = False, sc_notified = True, sc_app = App_runs, sc_task = Task_sleeps,
      sc_last = Some (?f, True)\<rparr>" using d by (simp add: s2_def v1 submit_finish_def screen_start_def)
  have "screen_reach s0" unfolding s0_def by (rule Ready [OF i, of "replicate 4800 0"]) simp_all
  then have "screen_reach s1" unfolding s1_def by (rule Goes_on) (rule Submit; simp add: s0_def screen_start_def)
  then have "screen_reach s2" unfolding s2_def by (rule Goes_on) (rule Submitted; simp add: v1 screen_start_def)
  then have "screen_reach s3" unfolding s3_def by (rule Goes_on) (rule Wake; simp add: v2)
  then have "screen_reach s4" unfolding s4_def by (rule Goes_on) (rule Frame; simp add: s3_def v2 t)
  then have s5: "screen_reach s5" unfolding s5_def by (rule Goes_on) (rule Give; simp add: s4_def)
  have "sc_last s5 = Some (?f, True)" "sc_free s5" "ds_frame_error (sc_display s5) = ESP_OK"
    by (simp_all add: s5_def s4_def s3_def v2 e)
  then show ?thesis using display_tasks_apart [OF s5, of "Op_clear 0" ?f True] s5 by blast
qed

end
