(* ===== verification/Gb_Web.thy ===== *)
theory Gb_Web
  imports Gb_Saves_Load Gb_Storage_Ops
begin

text \<open>
  The web pages of game management (main/gb_web.c): the handlers for the list of games and for
  uploading, renaming and deleting, over the ROM storage and the saves; and bringing the network up
  and down.  What the HTTP server reads from a request is given by the request: the length and value
  of a header, the query string and the value of a key in it, each for the size of the buffer passed.
  A reply is its status and which of the texts is sent.
\<close>

section \<open>Requests and replies\<close>

definition ascii :: "string \<Rightarrow> u8 list" where
  "ascii s = map of_char s"

record http_request =
  rq_content_len :: nat
  rq_origin_len :: nat
  rq_origin :: "nat \<Rightarrow> cstring option"
  rq_query :: "nat \<Rightarrow> cstring option"
  rq_value :: "cstring \<Rightarrow> string \<Rightarrow> nat \<Rightarrow> cstring option"

datatype status = OK_200 | Bad_Request_400 | Forbidden_403 | Conflict_409 | Server_Error_500 | Unavailable_503

datatype message =
    Cross_site
  | Size_or_name_invalid | Check_upload_after_restart | Upload_done | Upload_failed
  | Name_invalid | Reread_after_restart | List_changed | Check_rename_after_restart | Rename_failed | Name_updated
  | Token_missing | Saves_unavailable | Check_delete_after_restart | Directory_not_written | Deleted_save_shared
  | Deleted_save_left | Deleted_with_save

type_synonym reply = "status \<times> message"

record web =
  wb_storage :: storage
  wb_saves :: save_fs

definition on_storage :: "(storage \<Rightarrow> 'a \<times> storage) \<Rightarrow> web \<Rightarrow> 'a \<times> web" where
  "on_storage op w = (let (r, s) = op (wb_storage w) in (r, w\<lparr>wb_storage := s\<rparr>))"

definition same_origin :: "http_request \<Rightarrow> bool" where
  "same_origin rq =
     (if rq_origin_len rq = 0 then True
      else if 48 \<le> rq_origin_len rq then False
      else case rq_origin rq 48 of None \<Rightarrow> False | Some origin \<Rightarrow> cstr origin = ascii ''http://192.168.4.1'')"

section \<open>Upload\<close>

text \<open>\<open>httpd_req_recv\<close>: a number, negative for an error, with the buffer; or the time-out code.\<close>

datatype received = Recv_timeout | Received int "nat \<Rightarrow> u8"

type_synonym 'c connection = "nat \<Rightarrow> 'c \<Rightarrow> received \<times> 'c"

definition receive_chunk :: "'c connection \<Rightarrow> 'c reader" where
  "receive_chunk recv max_bytes c =
     (case recv max_bytes c of
        (Recv_timeout, c) \<Rightarrow> ((-1, (\<lambda>_. 0)), c)
      | (Received got buffer, c) \<Rightarrow> ((got, buffer), c))"

text \<open>The name in a query: the query string, the value of \<open>name\<close>, decoded.\<close>

definition query_name :: "nat \<Rightarrow> http_request \<Rightarrow> cstring option" where
  "query_name room rq = do {
     query \<leftarrow> rq_query rq room;
     encoded \<leftarrow> rq_value rq query ''name'' 96;
     gb_name_url_decode encoded 32
   }"

definition query_token :: "nat \<Rightarrow> http_request \<Rightarrow> cstring option" where
  "query_token room rq = do {
     query \<leftarrow> rq_query rq room;
     rq_value rq query ''token'' 65
   }"

definition upload_handler :: "(u8 list \<Rightarrow> u8 list) \<Rightarrow> 'c connection \<Rightarrow> 'c \<Rightarrow> http_request \<Rightarrow> web \<Rightarrow> reply \<times> web" where
  "upload_handler sha recv c rq w =
     (if \<not> same_origin rq then ((Forbidden_403, Cross_site), w)
      else if rq_content_len rq < 32768 \<or> gb_storage_limit (wb_storage w) < rq_content_len rq
      then ((Bad_Request_400, Size_or_name_invalid), w)
      else case query_name 128 rq of
        None \<Rightarrow> ((Bad_Request_400, Size_or_name_invalid), w)
      | Some name \<Rightarrow>
          let (ok, w) = on_storage (gb_storage_upload sha name (rq_content_len rq) (Some (receive_chunk recv)) c) w
          in if st_reload (wb_storage w) then ((Unavailable_503, Check_upload_after_restart), w)
             else if \<not> ok then ((Bad_Request_400, Upload_failed), w)
             else ((OK_200, Upload_done), w))"

section \<open>Rename\<close>

definition rename_handler :: "(u8 list \<Rightarrow> u8 list) \<Rightarrow> http_request \<Rightarrow> web \<Rightarrow> reply \<times> web" where
  "rename_handler sha rq w =
     (if \<not> same_origin rq then ((Forbidden_403, Cross_site), w)
      else case (query_token 192 rq, query_name 192 rq) of
        (Some token, Some name) \<Rightarrow>
          if st_reload (wb_storage w) then ((Unavailable_503, Reread_after_restart), w)
          else (case on_storage (gb_storage_resolve_token sha token) w of
            (None, w) \<Rightarrow> ((Conflict_409, List_changed), w)
          | (Some index, w) \<Rightarrow>
              let (ok, w) = on_storage (gb_storage_rename sha index name) w
              in if \<not> ok then
                   (if st_reload (wb_storage w) then ((Unavailable_503, Check_rename_after_restart), w)
                    else ((Bad_Request_400, Rename_failed), w))
                 else ((OK_200, Name_updated), w))
      | _ \<Rightarrow> ((Bad_Request_400, Name_invalid), w))"

section \<open>Delete\<close>

definition shared_save :: "nat \<Rightarrow> rom_entry list \<Rightarrow> bool" where
  "shared_save index es \<longleftrightarrow> list_ex (\<lambda>i. i \<noteq> index \<and> re_sha (es ! i) = re_sha (es ! index)) [0..<length es]"

definition gb_saves_ready :: "save_fs \<Rightarrow> bool" where
  "gb_saves_ready s = sf_mounted s"

text \<open>Once the row is known.\<close>

definition delete_row :: "(u8 list \<Rightarrow> u8 list) \<Rightarrow> nat \<Rightarrow> web \<Rightarrow> reply \<times> web" where
  "delete_row sha index w =
     (let hash = re_sha (st_entries (wb_storage w) ! index);
          shared = shared_save index (st_entries (wb_storage w))
      in if \<not> shared \<and> \<not> gb_saves_ready (wb_saves w) then ((Unavailable_503, Saves_unavailable), w)
         else
           let (ok, w) = on_storage (gb_storage_delete sha index) w
           in if \<not> ok then
                (if st_reload (wb_storage w) then ((Unavailable_503, Check_delete_after_restart), w)
                 else ((Server_Error_500, Directory_not_written), w))
              else if shared then ((OK_200, Deleted_save_shared), w)
              else
                let (removed, saves) = gb_saves_delete hash (wb_saves w);
                    w = w\<lparr>wb_saves := saves\<rparr>
                in if \<not> removed then ((Server_Error_500, Deleted_save_left), w)
                   else ((OK_200, Deleted_with_save), w))"

definition delete_handler :: "(u8 list \<Rightarrow> u8 list) \<Rightarrow> http_request \<Rightarrow> web \<Rightarrow> reply \<times> web" where
  "delete_handler sha rq w =
     (if \<not> same_origin rq then ((Forbidden_403, Cross_site), w)
      else case query_token 96 rq of
        None \<Rightarrow> ((Bad_Request_400, Token_missing), w)
      | Some token \<Rightarrow>
          if st_reload (wb_storage w) then ((Unavailable_503, Reread_after_restart), w)
          else (case on_storage (gb_storage_resolve_token sha token) w of
            (None, w) \<Rightarrow> ((Conflict_409, List_changed), w)
          | (Some index, w) \<Rightarrow> delete_row sha index w))"

section \<open>The list of games\<close>

text \<open>\<open>%lu\<close>, \<open>%04X\<close> of a control character, and \<open>snprintf\<close> into a buffer of a given size.\<close>

fun decimal :: "nat \<Rightarrow> u8 list" where
  "decimal n = (if n < 10 then [0x30 + of_nat n] else decimal (n div 10) @ [0x30 + of_nat (n mod 10)])"

declare decimal.simps [simp del]

definition hex_upper :: "u8 \<Rightarrow> u8" where
  "hex_upper d = (if d < 10 then 0x30 + d else 0x41 + (d - 10))"

definition unicode_escape :: "u8 \<Rightarrow> u8 list" where
  "unicode_escape c = [0x5C, 0x75, 0x30, 0x30, hex_upper (drop_bit 4 c), hex_upper (c AND 15)]"

definition text_in :: "nat \<Rightarrow> u8 list \<Rightarrow> u8 list" where
  "text_in room s = take (room - 1) s"

definition ESCAPED_BYTES :: nat where "ESCAPED_BYTES = 32 * 6 + 1"

text \<open>Bytes put at the end of the escaped text; \<open>None\<close> if they do not fit its buffer.\<close>

definition put_escaped :: "u8 list \<Rightarrow> u8 list \<Rightarrow> u8 list option" where
  "put_escaped bytes escaped = (if length escaped + length bytes \<le> ESCAPED_BYTES then Some (escaped @ bytes) else None)"

definition escape_byte :: "u8 \<Rightarrow> u8 list" where
  "escape_byte c = (if c = 0x22 \<or> c = 0x5C then [0x5C, c] else if c < 0x20 then unicode_escape c else [c])"

text \<open>The loop over a name looks at the byte before it compares the index with the size of the array.\<close>

fun escape_loop :: "nat list \<Rightarrow> u8 list \<Rightarrow> u8 list \<Rightarrow> u8 list option" where
  "escape_loop [] name escaped = Some escaped"
| "escape_loop (j # js) name escaped = do {
     c \<leftarrow> mem_get name j;
     (if c = 0 \<or> 32 \<le> j then Some escaped
      else do {
        escaped \<leftarrow> put_escaped (escape_byte c) escaped;
        escape_loop js name escaped
      })
   }"

definition list_item :: "nat \<Rightarrow> u8 list \<Rightarrow> nat \<Rightarrow> u8 list \<Rightarrow> u8 list" where
  \<open>list_item i escaped bytes token =
     text_in (ESCAPED_BYTES + 65 + 80)
       ((if i \<noteq> 0 then ascii '','' else []) @ ascii ''{"name":"'' @ escaped @ ascii ''","size":'' @ decimal bytes @
        ascii '',"token":"'' @ token @ ascii ''"}'')\<close>

text \<open>The chunks sent, and whether every token could be made.\<close>

fun list_loop :: "(u8 list \<Rightarrow> u8 list) \<Rightarrow> nat list \<Rightarrow> u8 list list \<Rightarrow> storage \<Rightarrow> ((bool \<times> u8 list list) \<times> storage) option" where
  "list_loop sha [] chunks s = Some ((True, chunks), s)"
| "list_loop sha (i # is) chunks s =
     (case gb_storage_entry i s of
        None \<Rightarrow> list_loop sha is chunks s
      | Some e \<Rightarrow>
          (case gb_storage_token sha i s of
             (None, s) \<Rightarrow> Some ((False, chunks), s)
           | (Some token, s) \<Rightarrow> do {
               escaped \<leftarrow> escape_loop [0..<33] (re_name e) [];
               _ \<leftarrow> put_escaped [0] escaped;
               list_loop sha is (chunks @ [list_item i escaped (re_bytes e) token]) s
             }))"

definition list_head :: "storage \<Rightarrow> u8 list" where
  \<open>list_head s = text_in 160 (ascii ''{"used":'' @ decimal (gb_storage_used s) @ ascii '',"capacity":'' @
     decimal (gb_storage_limit s) @ ascii '',"available":'' @ decimal (gb_storage_available s) @ ascii '',"games":['')\<close>

datatype list_reply = List_unavailable | Listed bool "u8 list list"

definition list_handler :: "(u8 list \<Rightarrow> u8 list) \<Rightarrow> storage \<Rightarrow> (list_reply \<times> storage) option" where
  "list_handler sha s =
     (if st_reload s then Some (List_unavailable, s)
      else do {
        ((okay, chunks), s) \<leftarrow> list_loop sha [0..<length (st_entries s)] [list_head s] s;
        Some (if okay then Listed True (chunks @ [ascii '']}'']) else Listed False chunks, s)
      })"

section \<open>The network\<close>

datatype net_err = Net_ok | Net_invalid_state | Net_failed nat

record network =
  nw_running :: bool
  nw_ap :: bool
  nw_server :: bool
  nw_initialized :: bool
  nw_started :: bool
  nw_handler :: bool
  nw_live_aps :: nat

text \<open>Which calls into ESP-IDF succeed while starting and while stopping.\<close>

record start_answers =
  sa_netif :: net_err
  sa_loop :: net_err
  sa_ap :: bool
  sa_init :: bool
  sa_storage :: bool
  sa_handler :: bool
  sa_mode :: bool
  sa_config :: bool
  sa_start :: bool
  sa_server :: bool
  sa_routes :: "nat \<Rightarrow> bool"

record stop_answers =
  pa_stop :: bool
  pa_deinit :: bool

definition gb_web_stop :: "stop_answers \<Rightarrow> network \<Rightarrow> network" where
  "gb_web_stop p n =
     (let n = (if nw_server n then n\<lparr>nw_server := False\<rparr> else n);
          n = (if nw_started n \<and> pa_stop p then n\<lparr>nw_started := False\<rparr> else n);
          n = (if nw_initialized n \<and> pa_deinit p then n\<lparr>nw_initialized := False\<rparr> else n);
          n = (if nw_handler n then n\<lparr>nw_handler := False\<rparr> else n);
          n = (if nw_ap n \<and> \<not> nw_initialized n then n\<lparr>nw_ap := False, nw_live_aps := nw_live_aps n - 1\<rparr> else n)
      in n\<lparr>nw_running := False\<rparr>)"

text \<open>The body of \<open>gb_web_start\<close> up to its label \<open>fail\<close>: whether it got to the end, and the state.\<close>

definition server_start :: "start_answers \<Rightarrow> network \<Rightarrow> bool \<times> network" where
  "server_start a n =
     (if \<not> sa_server a then (False, n)
      else
        let n = n\<lparr>nw_server := True\<rparr>
        in if \<not> list_all (sa_routes a) [0..<5] then (False, n)
           else (True, n\<lparr>nw_running := True\<rparr>))"

definition wifi_start :: "start_answers \<Rightarrow> network \<Rightarrow> bool \<times> network" where
  "wifi_start a n =
     (if \<not> sa_init a then (False, n)
      else
        let n = n\<lparr>nw_initialized := True\<rparr>
        in if \<not> sa_storage a then (False, n)
           else if \<not> sa_handler a then (False, n)
           else
             let n = n\<lparr>nw_handler := True\<rparr>
             in if \<not> sa_mode a then (False, n)
                else if \<not> sa_config a then (False, n)
                else if \<not> sa_start a then (False, n)
                else server_start a (n\<lparr>nw_started := True\<rparr>))"

definition gb_web_start :: "start_answers \<Rightarrow> stop_answers \<Rightarrow> network \<Rightarrow> bool \<times> network" where
  "gb_web_start a p n =
     (if nw_running n then (True, n)
      else
        let (okay, n) =
          (if sa_netif a \<noteq> Net_ok \<and> sa_netif a \<noteq> Net_invalid_state then (False, n)
           else if sa_loop a \<noteq> Net_ok \<and> sa_loop a \<noteq> Net_invalid_state then (False, n)
           else if \<not> sa_ap a then (False, n\<lparr>nw_ap := False\<rparr>)
           else wifi_start a (n\<lparr>nw_ap := True, nw_live_aps := nw_live_aps n + 1\<rparr>))
        in if okay then (True, n) else (False, gb_web_stop p n))"

end
