(* ===== verification/Gb_Web_Replies.thy ===== *)
theory Gb_Web_Replies
  imports Gb_Web
begin

text \<open>
  What the replies of the game management pages promise: about the catalog a restart would find,
  about the row a token stands for, and about the saves.
\<close>

section \<open>Tokens\<close>

lemma tick_calls: "on_flash tick s = (b, t) \<Longrightarrow> same_outside 0 0 (st_flash s) (st_flash t) \<and> same_catalog s t \<and> st_reload t = st_reload s"
  by (auto simp: on_flash_eq same_catalog_def)

definition only_calls :: "storage \<Rightarrow> storage \<Rightarrow> bool" where
  "only_calls s t \<longleftrightarrow> same_outside 0 0 (st_flash s) (st_flash t) \<and> same_catalog s t \<and> st_reload t = st_reload s"

lemma only_calls_refl [simp]: "only_calls s s"
  by (simp add: only_calls_def same_outside_refl same_catalog_def)

lemma only_calls_trans: "only_calls s t \<Longrightarrow> only_calls t u \<Longrightarrow> only_calls s u"
  unfolding only_calls_def same_catalog_def
  by (elim conjE, intro conjI) (erule (1) same_outside_trans, simp_all)

lemma only_callsD:
  assumes "only_calls s t"
  shows "st_entries t = st_entries s" "st_generation t = st_generation s" "st_reload t = st_reload s" "st_partition t = st_partition s"
  using assms by (simp_all add: only_calls_def same_catalog_def)

lemma ticks_calls: "ticks n s = (b, t) \<Longrightarrow> only_calls s t"
proof (induction n arbitrary: s)
  case (Suc n)
  obtain c u where u: "on_flash tick s = (c, u)" by (cases "on_flash tick s")
  have "only_calls s u" using tick_calls [OF u] by (simp add: only_calls_def)
  moreover have "only_calls u t" using Suc.prems Suc.IH [of u] u by (cases c) simp_all
  ultimately show ?case by (rule only_calls_trans)
qed simp

text \<open>What a token is the digest of: the generation, the row and its entry.\<close>

definition token_input :: "storage \<Rightarrow> nat \<Rightarrow> u8 list" where
  "token_input s i = le 4 (unat (st_generation s)) @ le 4 i @ entry_bytes (st_entries s ! i)"

definition hex_text :: "u8 list \<Rightarrow> u8 list" where
  "hex_text bs = concat (map (\<lambda>b. [hex_char (drop_bit 4 b), hex_char (b AND 15)]) bs)"

lemma token_spec:
  assumes "gb_storage_token sha i s = (r, t)"
  shows "only_calls s t" "r = Some m \<Longrightarrow> \<not> st_reload s \<and> i < length (st_entries s) \<and> m = hex_text (sha (token_input s i))"
proof -
  obtain ok u where u: "ticks 5 s = (ok, u)" by (cases "ticks 5 s")
  have c: "only_calls s u" by (rule ticks_calls [OF u])
  note d = assms [unfolded gb_storage_token_def u Let_def prod.case]
  show "only_calls s t" using d c by (auto split: if_splits)
  show "r = Some m \<Longrightarrow> \<not> st_reload s \<and> i < length (st_entries s) \<and> m = hex_text (sha (token_input s i))"
    using d only_callsD(1,2) [OF c] by (auto simp: token_input_def hex_text_def split: if_splits)
qed

lemma resolve_loop_spec:
  assumes "resolve_loop sha token is s = (r, t)"
  shows "only_calls s t \<and> (r = Some i \<longrightarrow> i \<in> set is \<and> \<not> st_reload s \<and> i < length (st_entries s) \<and>
    cstr token = hex_text (sha (token_input s i)))"
  using assms
proof (induction "is" arbitrary: s)
  case (Cons k ks)
  obtain m u where u: "gb_storage_token sha k s = (m, u)" by (cases "gb_storage_token sha k s")
  have c: "only_calls s u" by (rule token_spec(1) [OF u])
  note v = only_callsD [OF c]
  have input: "token_input u j = token_input s j" for j using v by (simp add: token_input_def)
  show ?case
  proof (cases "m = Some (cstr token)")
    case True
    then have "r = Some k" "t = u" using Cons.prems u by simp_all
    then show ?thesis using c token_spec(2) [OF u, of "cstr token"] True by auto
  next
    case False
    then have l: "resolve_loop sha token ks u = (r, t)" using Cons.prems u by (auto split: option.splits if_splits)
    then show ?thesis using only_calls_trans [OF c] Cons.IH [OF l] v(1,3) input by auto
  qed
qed simp

lemma resolve_spec:
  assumes "gb_storage_resolve_token sha token s = (r, t)"
  shows "only_calls s t"
    and "r = Some i \<Longrightarrow> \<not> st_reload s \<and> i < length (st_entries s) \<and> cstr token = hex_text (sha (token_input s i))"
  using assms resolve_loop_spec [of sha token "[0..<length (st_entries s)]" s r t i]
  by (auto simp: gb_storage_resolve_token_def split: if_splits)

text \<open>A token can be read back: hexadecimal digits, then fields of fixed length.\<close>

definition unhex :: "u8 \<Rightarrow> u8" where
  "unhex c = (if c < 0x61 then c - 0x30 else c - 0x61 + 10)"

lemma less_16_cases: "(d :: u8) < 16 \<Longrightarrow> d \<in> {0, 1, 2, 3, 4, 5, 6, 7, 8, 9, 10, 11, 12, 13, 14, 15}"
proof -
  assume "d < 16"
  then have "unat d < 16" by (simp add: word_less_nat_alt)
  then have "unat d \<in> {0, 1, 2, 3, 4, 5, 6, 7, 8, 9, 10, 11, 12, 13, 14, 15}" by (simp, presburger)
  then have "of_nat (unat d) \<in> (of_nat ` {0, 1, 2, 3, 4, 5, 6, 7, 8, 9, 10, 11, 12, 13, 14, 15} :: u8 set)" by (rule imageI)
  then show ?thesis by simp
qed

lemma unhex_char: "d < 16 \<Longrightarrow> unhex (hex_char d) = d \<and> hex_char d \<noteq> 0"
  by (drule less_16_cases) (auto simp: unhex_def hex_char_def)

lemma hex_char_inject: "hex_char a = hex_char b \<Longrightarrow> a < 16 \<Longrightarrow> b < 16 \<Longrightarrow> a = b"
  by (metis unhex_char)

lemma nibbles: "drop_bit 4 (b :: u8) < 16" "b AND 15 < 16" "push_bit 4 (drop_bit 4 b) OR (b AND 15) = b"
proof -
  show "drop_bit 4 b < 16"
  proof -
    have "unat (drop_bit 4 b) = unat b div 16" by (simp add: unat_drop_bit_eq drop_bit_eq_div unat_div_distrib)
    also have "\<dots> < 16" using u8_lt [of b] by (simp add: less_mult_imp_div_less del: u8_lt)
    finally show ?thesis by (simp add: word_less_nat_alt)
  qed
  have m: "(15 :: u8) = mask 4" by (simp add: mask_eq_exp_minus_1)
  show "b AND 15 < 16" unfolding m by (simp add: and_mask_less_size word_size word_less_nat_alt unat_and_mask)
  show "push_bit 4 (drop_bit 4 b) OR (b AND 15) = b"
    unfolding m by (rule bit_word_eqI) (auto simp: bit_simps)
qed

lemma hex_text_inject: "hex_text bs = hex_text cs \<Longrightarrow> bs = cs"
proof (induction bs arbitrary: cs)
  case Nil
  then show ?case by (cases cs) (simp_all add: hex_text_def)
next
  case (Cons b bs)
  then obtain c cs' where c: "cs = c # cs'" by (cases cs) (simp_all add: hex_text_def)
  then have e: "hex_char (drop_bit 4 b) = hex_char (drop_bit 4 c)" "hex_char (b AND 15) = hex_char (c AND 15)" "hex_text bs = hex_text cs'"
    using Cons.prems by (simp_all add: hex_text_def)
  have "drop_bit 4 b = drop_bit 4 c" by (rule hex_char_inject [OF e(1) nibbles(1) nibbles(1)])
  moreover have "b AND 15 = c AND 15" by (rule hex_char_inject [OF e(2) nibbles(2) nibbles(2)])
  ultimately have "b = c" by (metis nibbles(3))
  then show ?case using Cons.IH [OF e(3)] c by simp
qed

lemma cstr_hex_text: "cstr (hex_text bs) = hex_text bs"
  by (induction bs) (simp_all add: cstr_def hex_text_def unhex_char nibbles)

lemma token_input_inject:
  assumes "token_input s i = token_input s' j" "entry_fits (st_entries s ! i)" "entry_fits (st_entries s' ! j)" "i < 2 ^ 32" "j < 2 ^ 32"
  shows "j = i \<and> st_generation s' = st_generation s \<and> st_entries s' ! j = st_entries s ! i"
proof -
  have e: "le 4 (unat (st_generation s)) = le 4 (unat (st_generation s'))" "le 4 i = le 4 j"
    "entry_bytes (st_entries s ! i) = entry_bytes (st_entries s' ! j)"
    using assms(1) by (simp_all add: token_input_def)
  have "unat (st_generation s) = unat (st_generation s')" "i = j"
    using arg_cong [OF e(1), of nat_of_le] arg_cong [OF e(2), of nat_of_le] assms(4,5) u32_lt [of "st_generation s"] u32_lt [of "st_generation s'"]
    by (simp_all add: nat_of_le_le del: u32_lt)
  moreover have "st_entries s' ! j = st_entries s ! i"
    using entry_of_bytes [OF assms(2), of "[]"] entry_of_bytes [OF assms(3), of "[]"] e(3) by simp
  ultimately show ?thesis by (simp add: word_unat_eq_iff)
qed

lemma stored_entries:
  assumes "storage_ok sha s" "i < length (st_entries s)"
  shows "entry_fits (st_entries s ! i)" "i < 16"
  using assms by (auto simp: storage_ok_def catalog_ok_def)

lemma resolved_row:
  assumes "storage_ok sha s" "storage_ok sha s'" "gb_storage_token sha i s = (Some m, t)"
    and "gb_storage_resolve_token sha m s' = (Some j, t')"
    and "sha (token_input s i) = sha (token_input s' j) \<Longrightarrow> token_input s i = token_input s' j"
  shows "j = i \<and> st_generation s' = st_generation s \<and> st_entries s' ! j = st_entries s ! i"
proof -
  note a = token_spec(2) [OF assms(3), of m, simplified]
  note b = resolve_spec(2) [OF assms(4), of j, simplified]
  have "hex_text (sha (token_input s i)) = hex_text (sha (token_input s' j))" using a b cstr_hex_text by metis
  then have "token_input s i = token_input s' j" using hex_text_inject assms(5) by blast
  then show ?thesis
    by (rule token_input_inject) (use stored_entries [OF assms(1), of i] stored_entries [OF assms(2), of j] a b in simp_all)
qed

section \<open>The catalog after a reply\<close>

datatype 'c web_request =
    Post_upload "'c connection" 'c http_request
  | Post_rename http_request
  | Post_delete http_request

fun handle_request :: "(u8 list \<Rightarrow> u8 list) \<Rightarrow> 'c web_request \<Rightarrow> web \<Rightarrow> reply \<times> web" where
  "handle_request sha (Post_upload recv c rq) w = upload_handler sha recv c rq w"
| "handle_request sha (Post_rename rq) w = rename_handler sha rq w"
| "handle_request sha (Post_delete rq) w = delete_handler sha rq w"

abbreviation web_entries :: "web \<Rightarrow> rom_entry list" where "web_entries w \<equiv> st_entries (wb_storage w)"
abbreviation web_flash :: "web \<Rightarrow> flash" where "web_flash w \<equiv> st_flash (wb_storage w)"

text \<open>The catalog a restart would find.\<close>

definition found_after_restart :: "(u8 list \<Rightarrow> u8 list) \<Rightarrow> web \<Rightarrow> rom_entry list option" where
  "found_after_restart sha w = map_option (\<lambda>(k, g, es). es) (boot_catalog sha (web_flash w))"

text \<open>The catalog a request asks for.\<close>

fun asked :: "(u8 list \<Rightarrow> u8 list) \<Rightarrow> 'c web_request \<Rightarrow> web \<Rightarrow> flash \<Rightarrow> rom_entry list \<Rightarrow> bool" where
  "asked sha (Post_upload recv c rq) w f es \<longleftrightarrow>
     (\<exists>name. query_name 128 rq = Some name \<and> intended sha (Upload name (rq_content_len rq) None c) f (web_entries w) es)"
| "asked sha (Post_rename rq) w f es \<longleftrightarrow>
     (\<exists>token name i. query_token 192 rq = Some token \<and> query_name 192 rq = Some name \<and>
        fst (gb_storage_resolve_token sha token (wb_storage w)) = Some i \<and>
        intended sha (Rename i name :: unit storage_op) f (web_entries w) es)"
| "asked sha (Post_delete rq) w f es \<longleftrightarrow>
     (\<exists>token i. query_token 96 rq = Some token \<and> fst (gb_storage_resolve_token sha token (wb_storage w)) = Some i \<and>
        intended sha (Delete i :: unit storage_op) f (web_entries w) es)"

lemma found_no_reload:
  "storage_ok sha (wb_storage w) \<Longrightarrow> \<not> st_reload (wb_storage w) \<Longrightarrow> found_after_restart sha w = Some (web_entries w)"
  by (simp add: found_after_restart_def storage_ok_boot)

text \<open>What an operation on the storage leaves, whether it reports success or not.\<close>

definition after_op :: "(u8 list \<Rightarrow> u8 list) \<Rightarrow> (flash \<Rightarrow> rom_entry list \<Rightarrow> bool) \<Rightarrow> web \<Rightarrow> bool \<Rightarrow> web \<Rightarrow> bool" where
  "after_op sha wanted w r w' \<longleftrightarrow> storage_ok sha (wb_storage w') \<and> wb_saves w' = wb_saves w \<and>
     (r \<longrightarrow> \<not> st_reload (wb_storage w') \<and> found_after_restart sha w' = Some (web_entries w') \<and> wanted (web_flash w') (web_entries w')) \<and>
     (\<not> r \<longrightarrow> web_entries w' = web_entries w) \<and>
     (\<not> r \<and> \<not> st_reload (wb_storage w') \<longrightarrow> found_after_restart sha w' = found_after_restart sha w) \<and>
     (found_after_restart sha w' = found_after_restart sha w \<or> (\<exists>es. found_after_restart sha w' = Some es \<and> wanted (web_flash w') es))"

lemma outcome_after_op:
  assumes "outcome sha op (wb_storage w) r t" "storage_ok sha (wb_storage w)"
  shows "after_op sha (\<lambda>f es. intended sha op f (web_entries w) es) w r (w\<lparr>wb_storage := t\<rparr>)"
proof -
  let ?w = "w\<lparr>wb_storage := t\<rparr>"
  have ok: "storage_ok sha t" using assms(1) by (simp add: outcome_def)
  have f: "\<not> st_reload t \<Longrightarrow> found_after_restart sha ?w = Some (st_entries t)" using found_no_reload [of sha ?w] ok by simp
  show ?thesis
  proof (cases "st_reload (wb_storage w)")
    case True
    then have "\<not> r" "t = wb_storage w" using assms(1) by (auto simp: outcome_def)
    then show ?thesis using ok by (simp add: after_op_def)
  next
    case False
    have g: "found_after_restart sha w = Some (web_entries w)" by (rule found_no_reload [OF assms(2) False])
    obtain k gen es' where b: "boot_catalog sha (st_flash t) = Some (k, gen, es')"
      "es' = web_entries w \<or> intended sha op (st_flash t) (web_entries w) es'"
      using assms(1) False by (auto simp: outcome_def)
    have "found_after_restart sha ?w = Some es'" using b(1) by (simp add: found_after_restart_def)
    then show ?thesis using assms(1) False ok f g b(2) by (auto simp: after_op_def outcome_def)
  qed
qed

lemma calls_after:
  assumes "only_calls (wb_storage w) t" "storage_ok sha (wb_storage w)" "\<not> st_reload (wb_storage w)"
  shows "storage_ok sha t" "found_after_restart sha (w\<lparr>wb_storage := t\<rparr>) = found_after_restart sha w"
proof -
  show ok: "storage_ok sha t" using storage_ok_calls(1) [OF assms(2)] assms(1) by (simp add: only_calls_def)
  show "found_after_restart sha (w\<lparr>wb_storage := t\<rparr>) = found_after_restart sha w"
    using found_no_reload [of sha w] found_no_reload [of sha "w\<lparr>wb_storage := t\<rparr>"] ok assms only_callsD [OF assms(1)] by simp
qed

text \<open>What a reply promises.\<close>

definition reply_holds :: "(u8 list \<Rightarrow> u8 list) \<Rightarrow> (flash \<Rightarrow> rom_entry list \<Rightarrow> bool) \<Rightarrow> reply \<Rightarrow> web \<Rightarrow> web \<Rightarrow> bool" where
  "reply_holds sha wanted r w w' \<longleftrightarrow> storage_ok sha (wb_storage w') \<and>
     (fst r = OK_200 \<or> snd r = Deleted_save_left \<longrightarrow>
        found_after_restart sha w' = Some (web_entries w') \<and> wanted (web_flash w') (web_entries w')) \<and>
     (fst r \<noteq> OK_200 \<and> fst r \<noteq> Unavailable_503 \<and> snd r \<noteq> Deleted_save_left \<longrightarrow>
        found_after_restart sha w' = found_after_restart sha w \<and> web_entries w' = web_entries w \<and> wb_saves w' = wb_saves w) \<and>
     (fst r = Unavailable_503 \<longrightarrow> wb_saves w' = wb_saves w \<and>
        (found_after_restart sha w' = found_after_restart sha w \<or> (\<exists>es. found_after_restart sha w' = Some es \<and> wanted (web_flash w') es)))"

lemma reply_refused: "storage_ok sha (wb_storage w) \<Longrightarrow> fst r \<noteq> OK_200 \<Longrightarrow> snd r \<noteq> Deleted_save_left \<Longrightarrow> reply_holds sha wanted r w w"
  by (simp add: reply_holds_def)

lemma upload_replies:
  assumes "digest_fn sha" "storage_ok sha (wb_storage w)" "upload_handler sha recv c rq w = (r, w')"
  shows "reply_holds sha (asked sha (Post_upload recv c rq) w) r w w'"
proof (cases "\<not> same_origin rq \<or> rq_content_len rq < 32768 \<or> gb_storage_limit (wb_storage w) < rq_content_len rq \<or> query_name 128 rq = None")
  case True
  then have "w' = w" "fst r \<noteq> OK_200" "snd r \<noteq> Deleted_save_left"
    using assms(3) by (auto simp: upload_handler_def split: if_splits option.splits)
  then show ?thesis using reply_refused assms(2) by blast
next
  case False
  then obtain name where n: "query_name 128 rq = Some name" by blast
  let ?reader = "Some (receive_chunk recv)"
  obtain ok t where u: "gb_storage_upload sha name (rq_content_len rq) ?reader c (wb_storage w) = (ok, t)"
    by (cases "gb_storage_upload sha name (rq_content_len rq) ?reader c (wb_storage w)")
  let ?w = "w\<lparr>wb_storage := t\<rparr>"
  have a: "after_op sha (\<lambda>f es. intended sha (Upload name (rq_content_len rq) ?reader c) f (web_entries w) es) w ok ?w"
    using outcome_after_op [OF upload_outcome [OF assms(1,2) u] assms(2)] .
  have "(r, w') = (if st_reload t then ((Unavailable_503, Check_upload_after_restart), ?w)
     else if \<not> ok then ((Bad_Request_400, Upload_failed), ?w) else ((OK_200, Upload_done), ?w))"
    using assms(3) False n u by (simp add: upload_handler_def on_storage_def)
  then show ?thesis using a n by (auto simp: after_op_def reply_holds_def split: if_splits)
qed

lemma after_op_calls:
  assumes "after_op sha wanted (w\<lparr>wb_storage := t\<rparr>) r w'" "only_calls (wb_storage w) t"
    and "found_after_restart sha (w\<lparr>wb_storage := t\<rparr>) = found_after_restart sha w"
  shows "after_op sha wanted w r w'"
  using assms only_callsD [OF assms(2)] by (simp add: after_op_def)

text \<open>Resolving the token, then the operation on the row.\<close>

lemma row_op:
  assumes "storage_ok sha (wb_storage w)" "\<not> st_reload (wb_storage w)"
    and "gb_storage_resolve_token sha token (wb_storage w) = (Some i, t)"
    and "\<And>r u. op t = (r, u) \<Longrightarrow> storage_ok sha t \<Longrightarrow> outcome sha oper t r u" "op t = (r, u)"
  shows "after_op sha (\<lambda>f es. intended sha oper f (web_entries w) es) w r (w\<lparr>wb_storage := u\<rparr>)"
proof -
  have c: "only_calls (wb_storage w) t" by (rule resolve_spec(1) [OF assms(3)])
  note t = calls_after [OF c assms(1,2)]
  have "after_op sha (\<lambda>f es. intended sha oper f (st_entries t) es) (w\<lparr>wb_storage := t\<rparr>) r (w\<lparr>wb_storage := u\<rparr>)"
    using outcome_after_op [of sha oper "w\<lparr>wb_storage := t\<rparr>" r u] assms(4) [OF assms(5) t(1)] t(1) by simp
  then show ?thesis using after_op_calls [OF _ c t(2)] only_callsD(1) [OF c] by simp
qed

lemma conflict_replies:
  assumes "storage_ok sha (wb_storage w)" "\<not> st_reload (wb_storage w)"
    and "gb_storage_resolve_token sha token (wb_storage w) = (r, t)"
    and "fst rep \<noteq> OK_200" "snd rep \<noteq> Deleted_save_left"
  shows "reply_holds sha wanted rep w (w\<lparr>wb_storage := t\<rparr>)"
proof -
  have c: "only_calls (wb_storage w) t" by (rule resolve_spec(1) [OF assms(3)])
  show ?thesis using calls_after [OF c assms(1,2)] only_callsD(1) [OF c] assms(4,5) by (simp add: reply_holds_def)
qed

lemma rename_replies:
  assumes "digest_fn sha" "storage_ok sha (wb_storage w)" "rename_handler sha rq w = (r, w')"
  shows "reply_holds sha (asked sha (Post_rename rq) w) r w w'"
proof (cases "\<not> same_origin rq \<or> query_token 192 rq = None \<or> query_name 192 rq = None \<or> st_reload (wb_storage w)")
  case True
  then have "w' = w" "fst r \<noteq> OK_200" "snd r \<noteq> Deleted_save_left"
    using assms(3) by (auto simp: rename_handler_def split: if_splits option.splits)
  then show ?thesis using reply_refused assms(2) by blast
next
  case False
  then obtain token name where n: "query_token 192 rq = Some token" "query_name 192 rq = Some name" by auto
  obtain i t where i: "gb_storage_resolve_token sha token (wb_storage w) = (i, t)"
    by (cases "gb_storage_resolve_token sha token (wb_storage w)")
  show ?thesis
  proof (cases i)
    case None
    then have "r = (Conflict_409, List_changed)" "w' = w\<lparr>wb_storage := t\<rparr>"
      using assms(3) False n i by (simp_all add: rename_handler_def on_storage_def)
    then show ?thesis using conflict_replies [OF assms(2) _ i] False by simp
  next
    case (Some row)
    obtain ok u where u: "gb_storage_rename sha row name t = (ok, u)" by (cases "gb_storage_rename sha row name t")
    have a: "after_op sha (\<lambda>f es. intended sha (Rename row name :: unit storage_op) f (web_entries w) es) w ok (w\<lparr>wb_storage := u\<rparr>)"
      by (rule row_op [where op = "gb_storage_rename sha row name", OF assms(2) _ i [unfolded Some] rename_outcome u])
        (use False assms(1) in simp_all)
    have "(r, w') = (if \<not> ok then (if st_reload u then ((Unavailable_503, Check_rename_after_restart), w\<lparr>wb_storage := u\<rparr>)
        else ((Bad_Request_400, Rename_failed), w\<lparr>wb_storage := u\<rparr>)) else ((OK_200, Name_updated), w\<lparr>wb_storage := u\<rparr>))"
      using assms(3) False n i Some u by (auto simp: rename_handler_def on_storage_def)
    then show ?thesis using a n i Some by (auto simp: after_op_def reply_holds_def split: if_splits)
  qed
qed

lemma delete_replies:
  assumes "digest_fn sha" "storage_ok sha (wb_storage w)" "delete_handler sha rq w = (r, w')"
  shows "reply_holds sha (asked sha (Post_delete rq) w) r w w'"
proof (cases "\<not> same_origin rq \<or> query_token 96 rq = None \<or> st_reload (wb_storage w)")
  case True
  then have "w' = w" "fst r \<noteq> OK_200" "snd r \<noteq> Deleted_save_left"
    using assms(3) by (auto simp: delete_handler_def split: if_splits option.splits)
  then show ?thesis using reply_refused assms(2) by blast
next
  case False
  then obtain token where n: "query_token 96 rq = Some token" by auto
  obtain i t where i: "gb_storage_resolve_token sha token (wb_storage w) = (i, t)"
    by (cases "gb_storage_resolve_token sha token (wb_storage w)")
  show ?thesis
  proof (cases i)
    case None
    then have "r = (Conflict_409, List_changed)" "w' = w\<lparr>wb_storage := t\<rparr>"
      using assms(3) False n i by (simp_all add: delete_handler_def on_storage_def)
    then show ?thesis using conflict_replies [OF assms(2) _ i] False by simp
  next
    case (Some row)
    have h: "delete_row sha row (w\<lparr>wb_storage := t\<rparr>) = (r, w')"
      using assms(3) False n i Some by (simp add: delete_handler_def on_storage_def)
    define hash where "hash = re_sha (st_entries t ! row)"
    show ?thesis
    proof (cases "\<not> shared_save row (st_entries t) \<and> \<not> gb_saves_ready (wb_saves w)")
      case True
      then have "r = (Unavailable_503, Saves_unavailable)" "w' = w\<lparr>wb_storage := t\<rparr>"
        using h by (simp_all add: delete_row_def)
      then show ?thesis using conflict_replies [OF assms(2) _ i] False by simp
    next
      case go: False
      obtain ok u where u: "gb_storage_delete sha row t = (ok, u)" by (cases "gb_storage_delete sha row t")
      obtain removed saves where s: "gb_saves_delete hash (wb_saves w) = (removed, saves)" by (cases "gb_saves_delete hash (wb_saves w)")
      have a: "after_op sha (\<lambda>f es. intended sha (Delete row :: unit storage_op) f (web_entries w) es) w ok (w\<lparr>wb_storage := u\<rparr>)"
        by (rule row_op [where op = "gb_storage_delete sha row", OF assms(2) _ i [unfolded Some] delete_outcome u])
          (use False assms(1) in simp_all)
      have f: "found_after_restart sha (w\<lparr>wb_storage := u, wb_saves := saves\<rparr>) = found_after_restart sha (w\<lparr>wb_storage := u\<rparr>)"
        by (simp add: found_after_restart_def)
      have "(r, w') = (if \<not> ok then (if st_reload u then ((Unavailable_503, Check_delete_after_restart), w\<lparr>wb_storage := u\<rparr>)
          else ((Server_Error_500, Directory_not_written), w\<lparr>wb_storage := u\<rparr>))
        else if shared_save row (st_entries t) then ((OK_200, Deleted_save_shared), w\<lparr>wb_storage := u\<rparr>)
        else if \<not> removed then ((Server_Error_500, Deleted_save_left), w\<lparr>wb_storage := u, wb_saves := saves\<rparr>)
        else ((OK_200, Deleted_with_save), w\<lparr>wb_storage := u, wb_saves := saves\<rparr>))"
        using h go u s by (auto simp: delete_row_def on_storage_def hash_def)
      then show ?thesis using a n i Some f by (auto simp: after_op_def reply_holds_def split: if_splits)
    qed
  qed
qed

lemma replies_hold:
  assumes "digest_fn sha" "storage_ok sha (wb_storage w)" "handle_request sha x w = (r, w')"
  shows "reply_holds sha (asked sha x w) r w w'"
proof (cases x)
  case (Post_upload recv c rq)
  show ?thesis unfolding Post_upload by (rule upload_replies [OF assms(1,2)]) (use assms(3) Post_upload in simp)
next
  case (Post_rename rq)
  show ?thesis using rename_replies [OF assms(1,2), of rq r w'] assms(3) Post_rename by simp
next
  case (Post_delete rq)
  show ?thesis using delete_replies [OF assms(1,2), of rq r w'] assms(3) Post_delete by simp
qed

end
