(* ===== verification/Gb_Web_List.thy ===== *)
theory Gb_Web_List
  imports Gb_Web_Replies
begin

text \<open>
  The list of games the page reads: a reader of its text, and that it reads back the catalog.
\<close>

section \<open>A reader of the list\<close>

text \<open>A literal, a decimal number, and a quoted string with escapes up to its closing quote.\<close>

definition read_text :: "string \<Rightarrow> u8 list \<Rightarrow> u8 list option" where
  "read_text lit s = (if take (length lit) s = ascii lit then Some (drop (length lit) s) else None)"

definition digit :: "u8 \<Rightarrow> bool" where "digit c \<longleftrightarrow> 0x30 \<le> c \<and> c \<le> 0x39"

fun read_digits :: "u8 list \<Rightarrow> nat \<Rightarrow> nat \<times> u8 list" where
  "read_digits (c # cs) n = (if digit c then read_digits cs (10 * n + unat (c - 0x30)) else (n, c # cs))"
| "read_digits [] n = (n, [])"

definition read_number :: "u8 list \<Rightarrow> (nat \<times> u8 list) option" where
  "read_number s = (case s of c # cs \<Rightarrow> if digit c then Some (read_digits s 0) else None | [] \<Rightarrow> None)"

definition unhex_upper :: "u8 \<Rightarrow> u8" where
  "unhex_upper c = (if c < 0x41 then c - 0x30 else c - 0x41 + 10)"

fun read_string :: "u8 list \<Rightarrow> u8 list \<Rightarrow> (u8 list \<times> u8 list) option" where
  "read_string (c # cs) out =
     (if c = 0x22 then Some (out, cs)
      else if c < 0x20 then None
      else if c = 0x5C then
        (case cs of
           e # cs' \<Rightarrow>
             if e = 0x22 \<or> e = 0x5C then read_string cs' (out @ [e])
             else if e = 0x75 then
               (case cs' of a # b # x # y # cs'' \<Rightarrow>
                  if a = 0x30 \<and> b = 0x30 then read_string cs'' (out @ [push_bit 4 (unhex_upper x) OR unhex_upper y]) else None
                | _ \<Rightarrow> None)
             else None
         | [] \<Rightarrow> None)
      else read_string cs (out @ [c]))"
| "read_string [] out = None"

type_synonym game_row = "u8 list \<times> nat \<times> u8 list"

definition read_row :: "u8 list \<Rightarrow> (game_row \<times> u8 list) option" where
  \<open>read_row s = do {
     s \<leftarrow> read_text ''{"name":"'' s;
     (name, s) \<leftarrow> read_string s [];
     s \<leftarrow> read_text '',"size":'' s;
     (n, s) \<leftarrow> read_number s;
     s \<leftarrow> read_text '',"token":"'' s;
     (token, s) \<leftarrow> read_string s [];
     s \<leftarrow> read_text ''}'' s;
     Some ((name, n, token), s)
   }\<close>

text \<open>Rows separated by commas; at most \<open>k\<close> of them.\<close>

fun read_more_rows :: "nat \<Rightarrow> u8 list \<Rightarrow> (game_row list \<times> u8 list) option" where
  "read_more_rows 0 s = Some ([], s)"
| "read_more_rows (Suc k) s =
     (case read_text '','' s of
        None \<Rightarrow> Some ([], s)
      | Some s \<Rightarrow> do { (r, s) \<leftarrow> read_row s; (rs, s) \<leftarrow> read_more_rows k s; Some (r # rs, s) })"

definition read_rows :: "nat \<Rightarrow> u8 list \<Rightarrow> (game_row list \<times> u8 list) option" where
  "read_rows k s =
     (if read_text '']'' s \<noteq> None then Some ([], s)
      else do { (r, s) \<leftarrow> read_row s; (rs, s) \<leftarrow> read_more_rows k s; Some (r # rs, s) })"

definition read_list :: "u8 list \<Rightarrow> (nat \<times> nat \<times> nat \<times> game_row list) option" where
  \<open>read_list s = do {
     s \<leftarrow> read_text ''{"used":'' s;
     (used, s) \<leftarrow> read_number s;
     s \<leftarrow> read_text '',"capacity":'' s;
     (capacity, s) \<leftarrow> read_number s;
     s \<leftarrow> read_text '',"available":'' s;
     (available, s) \<leftarrow> read_number s;
     s \<leftarrow> read_text '',"games":['' s;
     (rows, s) \<leftarrow> read_rows 16 s;
     s \<leftarrow> read_text '']}'' s;
     if s = [] then Some (used, capacity, available, rows) else None
   }\<close>

section \<open>Its parts read back\<close>

lemma length_ascii [simp]: "length (ascii s) = length s"
  by (simp add: ascii_def)

lemma read_text_ascii [simp]: "read_text lit (ascii lit @ s) = Some s"
  by (simp add: read_text_def)

lemma digit_char: "n < 10 \<Longrightarrow> digit (0x30 + of_nat n) \<and> unat (0x30 + of_nat n - (0x30 :: u8)) = n"
proof -
  assume "n < 10"
  then have "n \<in> {0, 1, 2, 3, 4, 5, 6, 7, 8, 9}" by (simp, presburger)
  then show ?thesis by (auto simp: digit_def)
qed

lemma read_digits_decimal:
  "read_digits (decimal n @ s) 0 = read_digits s n"
proof (induction n arbitrary: s rule: decimal.induct)
  case (1 n)
  show ?case
  proof (cases "n < 10")
    case True
    then show ?thesis using digit_char [OF True] by (subst decimal.simps) simp
  next
    case False
    have m: "n mod 10 < 10" by simp
    have "read_digits (decimal n @ s) 0 = read_digits (decimal (n div 10) @ (0x30 + of_nat (n mod 10)) # s) 0"
      using False by (subst decimal.simps) simp
    also have "\<dots> = read_digits ((0x30 + of_nat (n mod 10)) # s) (n div 10)" using False by (rule "1.IH")
    also have "\<dots> = read_digits s n" using digit_char [OF m] by simp
    finally show ?thesis .
  qed
qed

lemma decimal_first: "\<exists>c cs. decimal n = c # cs \<and> digit c"
proof (induction n rule: decimal.induct)
  case (1 n)
  show ?case
  proof (cases "n < 10")
    case True
    then show ?thesis using digit_char [OF True] by (subst decimal.simps) simp
  next
    case False
    obtain c cs where "decimal (n div 10) = c # cs" "digit c" using "1.IH" [OF False] by blast
    then show ?thesis using False by (subst decimal.simps) simp
  qed
qed

lemma read_number_decimal:
  assumes "c \<in> {0x2C, 0x7D}"
  shows "read_number (decimal n @ c # s) = Some (n, c # s)"
proof -
  obtain d ds where "decimal n = d # ds" "digit d" using decimal_first by blast
  then have "read_number (decimal n @ c # s) = Some (read_digits (decimal n @ c # s) 0)" by (simp add: read_number_def)
  also have "\<dots> = Some (n, c # s)" using assms unfolding read_digits_decimal by (auto simp: digit_def)
  finally show ?thesis .
qed

lemma unhex_upper_char: "d < 16 \<Longrightarrow> unhex_upper (hex_upper d) = d"
  by (drule less_16_cases) (auto simp: unhex_upper_def hex_upper_def)

lemma read_string_byte: "read_string (escape_byte c @ s) out = read_string s (out @ [c])"
  using nibbles [of c] unhex_upper_char
  by (auto simp: escape_byte_def unicode_escape_def)

lemma read_string_escaped: "read_string (concat (map escape_byte n) @ 0x22 # s) out = Some (out @ n, s)"
  by (induction n arbitrary: out) (simp_all add: read_string_byte del: read_string.simps, simp)

lemma escape_hex_text: "concat (map escape_byte (hex_text bs)) = hex_text bs"
proof -
  have "escape_byte (hex_char d) = [hex_char d]" if "d < 16" for d
    using less_16_cases [OF that] unfolding escape_byte_def hex_char_def by (elim insertE emptyE; simp)
  then show ?thesis by (induction bs) (simp_all add: hex_text_def nibbles)
qed

lemma read_token: "read_string (hex_text bs @ 0x22 # s) [] = Some (hex_text bs, s)"
  using read_string_escaped [of "hex_text bs" s "[]"] by (simp add: escape_hex_text)

section \<open>The text of a row\<close>

lemma escape_length: "length (concat (map escape_byte n)) \<le> 6 * length n"
proof (induction n)
  case (Cons c n)
  have "length (escape_byte c) \<le> 6" by (simp add: escape_byte_def unicode_escape_def)
  then show ?case using Cons by simp
qed simp

lemma decimal_length: "n < 10 ^ k \<Longrightarrow> 0 < k \<Longrightarrow> length (decimal n) \<le> k"
proof (induction n arbitrary: k rule: decimal.induct)
  case (1 n)
  show ?case
  proof (cases "n < 10")
    case True
    then show ?thesis using "1.prems" by (subst decimal.simps) simp
  next
    case False
    then have k: "1 < k" using "1.prems" by (cases "k = 1") simp_all
    have "n div 10 < 10 ^ (k - 1)" using "1.prems" k by (intro less_mult_imp_div_less) (simp flip: power_Suc2)
    then have "length (decimal (n div 10)) \<le> k - 1" using "1.IH" [OF False] k by simp
    then show ?thesis using False k by (subst decimal.simps) simp
  qed
qed

lemma decimal_u32: "n < 2 ^ 32 \<Longrightarrow> length (decimal n) \<le> 10"
  by (rule decimal_length) simp_all

lemma escape_loop_from:
  assumes "length name = 32" "cstr name = ys" "length ys \<le> 31" "j + n = 33" "j \<le> length ys"
  shows "escape_loop [j..<33] name (concat (map escape_byte (take j ys))) = Some (concat (map escape_byte ys))"
  using assms(4,5)
proof (induction n arbitrary: j)
  case (Suc n)
  have j: "[j..<33] = j # [Suc j..<33]" "j < 32" using Suc.prems assms(3) by (simp_all add: upt_conv_Cons)
  show ?case
  proof (cases "j = length ys")
    case True
    have "name ! j = 0" using True j(2) assms(1,2) nth_length_takeWhile [of "\<lambda>b. b \<noteq> 0" name] by (simp add: cstr_def)
    then show ?thesis using j True assms(1) by (simp add: mem_get_def)
  next
    case False
    then have l: "j < length ys" using Suc.prems by simp
    have c: "name ! j = ys ! j" "ys ! j \<noteq> 0"
      using l assms(2) takeWhile_nth [of j "\<lambda>b. b \<noteq> 0" name] nth_mem [OF l] set_takeWhileD [of _ "\<lambda>b. b \<noteq> 0" name]
      by (auto simp: cstr_def)
    have t: "concat (map escape_byte (take (Suc j) ys)) = concat (map escape_byte (take j ys)) @ escape_byte (ys ! j)"
      using l by (simp add: take_Suc_conv_app_nth)
    have "length (take (Suc j) ys) \<le> 31" using assms(3) by simp
    then have "length (concat (map escape_byte (take (Suc j) ys))) \<le> 186" using escape_length [of "take (Suc j) ys"] by linarith
    then have p: "put_escaped (escape_byte (ys ! j)) (concat (map escape_byte (take j ys))) = Some (concat (map escape_byte (take (Suc j) ys)))"
      unfolding t by (simp add: put_escaped_def ESCAPED_BYTES_def)
    show ?thesis
      using Suc.IH [of "Suc j"] Suc.prems l j c p assms(1) by (simp add: mem_get_def)
  qed
qed (use assms(3) in simp)

definition escaped_name :: "rom_entry \<Rightarrow> u8 list" where
  "escaped_name e = concat (map escape_byte (cstr (re_name e)))"

lemma entry_name:
  assumes "storage_ok sha s" "i < length (st_entries s)"
  shows "escape_loop [0..<33] (re_name (st_entries s ! i)) [] = Some (escaped_name (st_entries s ! i))"
    and "length (cstr (re_name (st_entries s ! i))) \<le> 31"
proof -
  let ?e = "st_entries s ! i"
  have "entry_sane (data_end (st_flash s)) ?e" using assms by (auto simp: storage_ok_def catalog_ok_def)
  then have v: "gb_name_valid (re_name ?e)" by (simp add: entry_sane_def)
  have l: "length (re_name ?e) = 32" using stored_entries(1) [OF assms] by (simp add: entry_fits_def)
  have "length (cstr (take 32 (re_name ?e))) < 32" using v by (auto simp: gb_name_valid_def Let_def split: if_splits)
  then show n: "length (cstr (re_name ?e)) \<le> 31" using l by simp
  show "escape_loop [0..<33] (re_name ?e) [] = Some (escaped_name ?e)"
    using escape_loop_from [OF l refl n, of 0 33] by (simp add: escaped_name_def)
qed

definition row_text :: "rom_entry \<Rightarrow> u8 list \<Rightarrow> u8 list" where
  \<open>row_text e token = ascii ''{"name":"'' @ escaped_name e @ ascii ''","size":'' @ decimal (re_bytes e) @
     ascii '',"token":"'' @ token @ ascii ''"}''\<close>

lemma list_item_text:
  assumes "storage_ok sha s" "i < length (st_entries s)" "length token \<le> 64"
  shows "list_item k (escaped_name (st_entries s ! i)) (re_bytes (st_entries s ! i)) token =
    (if k \<noteq> 0 then ascii '','' else []) @ row_text (st_entries s ! i) token"
proof -
  let ?e = "st_entries s ! i"
  have "length (escaped_name ?e) \<le> 186"
    using escape_length [of "cstr (re_name ?e)"] entry_name(2) [OF assms(1,2)] by (simp add: escaped_name_def)
  moreover have "length (decimal (re_bytes ?e)) \<le> 10"
    using stored_entries(1) [OF assms(1,2)] by (intro decimal_u32) (simp add: entry_fits_def)
  ultimately have "length ((if k \<noteq> 0 then ascii '','' else []) @ row_text ?e token) \<le> 337"
    using assms(3) by (simp add: row_text_def)
  then show ?thesis by (simp add: list_item_def text_in_def ESCAPED_BYTES_def row_text_def)
qed

lemma read_row_text: "read_row (row_text e (hex_text h) @ s) = Some ((cstr (re_name e), re_bytes e, hex_text h), s)"
proof -
  have q: "ascii ''\",\"size\":'' = 0x22 # ascii '',\"size\":''" "ascii ''\"}'' = 0x22 # ascii ''}''"
    "ascii '',\"token\":\"'' = 0x2C # ascii ''\"token\":\"''"
    by (simp_all add: ascii_def)
  have n: "read_string (escaped_name e @ 0x22 # t) [] = Some (cstr (re_name e), t)" for t
    using read_string_escaped [of "cstr (re_name e)" t "[]"] by (simp add: escaped_name_def)
  have d: "read_number (decimal k @ ascii '',\"token\":\"'' @ t) = Some (k, ascii '',\"token\":\"'' @ t)" for k t
    unfolding q by (simp add: read_number_decimal)
  show ?thesis
    unfolding read_row_def row_text_def append_assoc read_text_ascii bind.bind_lunit q(1) append_Cons n prod.case d q(2) read_token
    by simp
qed

section \<open>The whole list\<close>

definition row_token :: "(u8 list \<Rightarrow> u8 list) \<Rightarrow> storage \<Rightarrow> nat \<Rightarrow> u8 list" where
  "row_token sha s i = hex_text (sha (token_input s i))"

definition row_chunk :: "(u8 list \<Rightarrow> u8 list) \<Rightarrow> storage \<Rightarrow> nat \<Rightarrow> u8 list" where
  "row_chunk sha s i = (if i \<noteq> 0 then ascii '','' else []) @ row_text (st_entries s ! i) (row_token sha s i)"

lemma hex_text_length: "length (hex_text bs) = 2 * length bs"
  by (simp add: hex_text_def length_concat comp_def sum_list_triv)

lemma only_calls_storage: "only_calls s t \<Longrightarrow> storage_ok sha s \<Longrightarrow> storage_ok sha t"
  using storage_ok_calls(1) by (simp add: only_calls_def)

lemma list_loop_rows:
  assumes "storage_ok sha s" "digest_fn sha" "set is \<subseteq> {..<length (st_entries s)}"
  shows "\<exists>okay chunks' t. list_loop sha is chunks s = Some ((okay, chunks'), t) \<and> only_calls s t \<and>
    (okay \<longrightarrow> chunks' = chunks @ map (row_chunk sha s) is)"
  using assms
proof (induction "is" arbitrary: chunks s)
  case (Cons i "is")
  have i: "i < length (st_entries s)" using Cons.prems by simp
  obtain r u where u: "gb_storage_token sha i s = (r, u)" by (cases "gb_storage_token sha i s")
  have c: "only_calls s u" by (rule token_spec(1) [OF u])
  note v = only_callsD [OF c]
  show ?case
  proof (cases r)
    case None
    then show ?thesis using i u c by (intro exI [of _ False]) (simp add: gb_storage_entry_def)
  next
    case (Some token)
    have tk: "token = row_token sha s i" using token_spec(2) [OF u Some] by (simp add: row_token_def)
    have l: "length token \<le> 64" using Cons.prems(2) by (simp add: tk row_token_def hex_text_length digest_fn_def)
    have "length (escaped_name (st_entries s ! i)) \<le> 186"
      using escape_length [of "cstr (re_name (st_entries s ! i))"] entry_name(2) [OF Cons.prems(1) i] by (simp add: escaped_name_def)
    then obtain z where z: "put_escaped [0] (escaped_name (st_entries s ! i)) = Some z" by (simp add: put_escaped_def ESCAPED_BYTES_def)
    have run: "list_loop sha (i # is) chunks s = list_loop sha is (chunks @ [row_chunk sha s i]) u"
      using i u Some entry_name(1) [OF Cons.prems(1) i] z list_item_text [OF Cons.prems(1) i l, of i]
      by (simp add: gb_storage_entry_def row_chunk_def tk)
    have same: "row_chunk sha u = row_chunk sha s"
      by (rule ext) (simp add: row_chunk_def row_token_def token_input_def v)
    obtain okay chunks' t where t: "list_loop sha is (chunks @ [row_chunk sha s i]) u = Some ((okay, chunks'), t)" "only_calls u t"
      "okay \<longrightarrow> chunks' = (chunks @ [row_chunk sha s i]) @ map (row_chunk sha u) is"
      using Cons.IH [OF only_calls_storage [OF c Cons.prems(1)] Cons.prems(2), of "chunks @ [row_chunk sha s i]"] Cons.prems(3) v(1) by auto
    show ?thesis using run t only_calls_trans [OF c] same by simp
  qed
qed (intro exI [of _ True], simp)

lemma read_more_chunks:
  assumes "length is \<le> k" "\<forall>i \<in> set is. 0 < i" "read_text '','' s' = None"
  shows "read_more_rows k (concat (map (row_chunk sha s) is) @ s') =
    Some (map (\<lambda>i. (cstr (re_name (st_entries s ! i)), re_bytes (st_entries s ! i), row_token sha s i)) is, s')"
  using assms(1,2)
proof (induction "is" arbitrary: k)
  case Nil
  then show ?case using assms(3) by (cases k) simp_all
next
  case (Cons i "is")
  then obtain m where k: "k = Suc m" "length is \<le> m" by (cases k) simp_all
  have "concat (map (row_chunk sha s) (i # is)) @ s' =
      ascii '','' @ row_text (st_entries s ! i) (row_token sha s i) @ concat (map (row_chunk sha s) is) @ s'"
    using Cons.prems by (simp add: row_chunk_def)
  then show ?case
    using Cons.IH [OF k(2)] Cons.prems(2) k(1) by (simp add: row_token_def read_row_text del: map_append)
qed

lemma read_rows_chunks:
  assumes "n \<le> 17"
  shows "read_rows 16 (concat (map (row_chunk sha s) [0..<n]) @ ascii '']}'') =
    Some (map (\<lambda>i. (cstr (re_name (st_entries s ! i)), re_bytes (st_entries s ! i), row_token sha s i)) [0..<n], ascii '']}'')"
proof (cases n)
  case 0
  have "read_text '']'' (ascii '']}'') \<noteq> None" by (simp add: read_text_def ascii_def)
  then show ?thesis using 0 by (simp add: read_rows_def)
next
  case (Suc m)
  have u: "[0..<n] = 0 # [Suc 0..<n]" using Suc by (simp add: upt_conv_Cons)
  have e: "concat (map (row_chunk sha s) [0..<n]) @ ascii '']}'' =
      row_text (st_entries s ! 0) (row_token sha s 0) @ concat (map (row_chunk sha s) [Suc 0..<n]) @ ascii '']}''"
    unfolding u by (simp add: row_chunk_def)
  have x: "read_text '']'' (row_text f t @ r) = None" for f t r by (simp add: row_text_def read_text_def ascii_def)
  have y: "read_text '','' (ascii '']}'') = None" by (simp add: read_text_def ascii_def)
  have m: "read_more_rows 16 (concat (map (row_chunk sha s) [Suc 0..<n]) @ ascii '']}'') =
      Some (map (\<lambda>i. (cstr (re_name (st_entries s ! i)), re_bytes (st_entries s ! i), row_token sha s i)) [Suc 0..<n], ascii '']}'')"
    by (rule read_more_chunks) (use assms y in simp_all)
  have "read_rows 16 (concat (map (row_chunk sha s) [0..<n]) @ ascii '']}'') =
      Some ((cstr (re_name (st_entries s ! 0)), re_bytes (st_entries s ! 0), row_token sha s 0) #
        map (\<lambda>i. (cstr (re_name (st_entries s ! i)), re_bytes (st_entries s ! i), row_token sha s i)) [Suc 0..<n], ascii '']}'')"
    unfolding e read_rows_def x by (simp add: row_token_def read_row_text m [unfolded row_token_def])
  then show ?thesis unfolding u by simp
qed

lemma storage_numbers:
  assumes "storage_ok sha s"
  shows "gb_storage_used s < 2 ^ 32" "gb_storage_limit s < 2 ^ 32" "gb_storage_available s < 2 ^ 32"
proof -
  have "fold (\<lambda>e used. add32 used (re_bytes e)) es k < 2 ^ 32" if "k < 2 ^ 32" for es k
    using that by (induction es arbitrary: k) (simp_all add: add32_less [simplified])
  from this [of 0 "st_entries s"] show "gb_storage_used s < 2 ^ 32" by (simp add: gb_storage_used_def)
  have f: "flash_ok (st_flash s)" using assms by (simp add: storage_ok_def)
  have "x div 16384 * 16384 \<le> x" for x :: nat by simp
  then have "gb_storage_limit s \<le> fl_size (st_flash s)"
    by (auto simp: gb_storage_limit_def Let_def storage_sizes intro: order_trans [OF _ diff_le_self])
  then show l: "gb_storage_limit s < 2 ^ 32" using f by (simp add: flash_ok_def)
  show "gb_storage_available s < 2 ^ 32"
    using available_bound(1) [OF f, of "gb_storage_available s"] l by (cases "gb_storage_available s = 0") simp_all
qed

lemma list_head_text:
  assumes "storage_ok sha s"
  shows \<open>list_head s = ascii ''{"used":'' @ decimal (gb_storage_used s) @ ascii '',"capacity":'' @
     decimal (gb_storage_limit s) @ ascii '',"available":'' @ decimal (gb_storage_available s) @ ascii '',"games":[''\<close>
  using decimal_u32 [OF storage_numbers(1) [OF assms]] decimal_u32 [OF storage_numbers(2) [OF assms]]
    decimal_u32 [OF storage_numbers(3) [OF assms]]
  by (simp add: list_head_def text_in_def)

lemma read_listed:
  assumes "storage_ok sha s" "n \<le> 17"
  shows "read_list (list_head s @ concat (map (row_chunk sha s) [0..<n]) @ ascii '']}'') =
    Some (gb_storage_used s, gb_storage_limit s, gb_storage_available s,
      map (\<lambda>i. (cstr (re_name (st_entries s ! i)), re_bytes (st_entries s ! i), row_token sha s i)) [0..<n])"
proof -
  have q: \<open>ascii '',"capacity":'' = 0x2C # ascii ''"capacity":''\<close> \<open>ascii '',"available":'' = 0x2C # ascii ''"available":''\<close>
    \<open>ascii '',"games":['' = 0x2C # ascii ''"games":[''\<close>
    by (simp_all add: ascii_def)
  have d: \<open>read_number (decimal k @ ascii '',"capacity":'' @ t) = Some (k, ascii '',"capacity":'' @ t)\<close>
    \<open>read_number (decimal k @ ascii '',"available":'' @ t) = Some (k, ascii '',"available":'' @ t)\<close>
    \<open>read_number (decimal k @ ascii '',"games":['' @ t) = Some (k, ascii '',"games":['' @ t)\<close> for k t
    unfolding q by (simp_all add: read_number_decimal)
  have e: "read_text '']}'' (ascii '']}'') = Some []" using read_text_ascii [of "'']}''" "[]"] by (simp del: read_text_ascii)
  show ?thesis
    unfolding read_list_def list_head_text [OF assms(1)] append_assoc read_text_ascii bind.bind_lunit d prod.case
      read_rows_chunks [OF assms(2)] e by simp
qed

lemma list_handler_reads:
  assumes "storage_ok sha s" "digest_fn sha"
  shows "\<exists>r t. list_handler sha s = Some (r, t) \<and> only_calls s t \<and> (r = List_unavailable \<longleftrightarrow> st_reload s) \<and>
    (\<forall>chunks. r = Listed True chunks \<longrightarrow> read_list (concat chunks) =
       Some (gb_storage_used s, gb_storage_limit s, gb_storage_available s,
         map (\<lambda>i. (cstr (re_name (st_entries s ! i)), re_bytes (st_entries s ! i), row_token sha s i)) [0..<length (st_entries s)]))"
proof (cases "st_reload s")
  case True
  then show ?thesis by (simp add: list_handler_def)
next
  case False
  let ?n = "length (st_entries s)"
  have n: "?n \<le> 17" using assms(1) by (simp add: storage_ok_def catalog_ok_def)
  obtain okay chunks t where l: "list_loop sha [0..<?n] [list_head s] s = Some ((okay, chunks), t)" "only_calls s t"
    "okay \<longrightarrow> chunks = [list_head s] @ map (row_chunk sha s) [0..<?n]"
    using list_loop_rows [OF assms, of "[0..<?n]" "[list_head s]"] by (auto simp: subset_iff)
  have "read_list (concat ([list_head s] @ map (row_chunk sha s) [0..<?n] @ [ascii '']}''])) =
      Some (gb_storage_used s, gb_storage_limit s, gb_storage_available s,
        map (\<lambda>i. (cstr (re_name (st_entries s ! i)), re_bytes (st_entries s ! i), row_token sha s i)) [0..<?n])"
    using read_listed [OF assms(1) n] by simp
  then show ?thesis using False l by (auto simp: list_handler_def)
qed

end
