(* ===== verification/Web_Properties.thy ===== *)
theory Web_Properties
  imports Gb_Web_List Storage_Properties
begin

text \<open>
  The properties of the game management pages, each with a witness where it has hypotheses.  They put
  together the handlers, the ROM storage and the saves; every call into flash or file system may fail.
\<close>

section \<open>Saves of a deleted game\<close>

lemma saves_delete_files:
  assumes "gb_saves_delete hash s = (okay, t)"
  shows "base_name p \<notin> {base_name (save_path hash COPY_A), base_name (save_path hash COPY_B)} \<Longrightarrow> sf_file t p = sf_file s p"
    and "okay \<Longrightarrow> c \<in> {COPY_A, COPY_B} \<Longrightarrow> sf_file t (save_path hash c) = None"
proof -
  have keep: "base_name q \<noteq> base_name path \<Longrightarrow> sf_file v q = sf_file u q" "b \<Longrightarrow> sf_file v path = None"
    if "remove_copy path u = (b, v)" for path u b v q
  proof -
    show "base_name q \<noteq> base_name path \<Longrightarrow> sf_file v q = sf_file u q"
      using remove_copy_files(1) [OF that] map_of_filter_key [of "\<lambda>k. k \<noteq> base_name path" "base_name q" "sf_files u"]
      by (auto simp: sf_file_def)
    show "b \<Longrightarrow> sf_file v path = None"
      using remove_copy_files(1) [OF that] by (auto simp: sf_file_def map_of_eq_None_iff)
  qed
  obtain a u where u: "remove_copy (save_path hash COPY_A) s = (a, u)" by (cases "remove_copy (save_path hash COPY_A) s")
  obtain b v where v: "remove_copy (save_path hash COPY_B) u = (b, v)" by (cases "remove_copy (save_path hash COPY_B) u")
  note d = assms [unfolded gb_saves_delete_def u Let_def prod.case v]
  show "base_name p \<notin> {base_name (save_path hash COPY_A), base_name (save_path hash COPY_B)} \<Longrightarrow> sf_file t p = sf_file s p"
    using d keep(1) [OF u, of p] keep(1) [OF v, of p] by (auto split: if_splits)
  have "base_name (save_path hash COPY_A) \<noteq> base_name (save_path hash COPY_B)" by (simp add: base_save_path)
  then show "okay \<Longrightarrow> c \<in> {COPY_A, COPY_B} \<Longrightarrow> sf_file t (save_path hash c) = None"
    using d keep(2) [OF u] keep(2) [OF v] keep(1) [OF v, of "save_path hash COPY_A"] by (auto split: if_splits)
qed

lemma other_save_kept:
  assumes "gb_saves_delete hash s = (okay, t)" "take 8 hash \<noteq> take 8 hash'"
  shows "latest_save hash' m t = latest_save hash' m s"
proof -
  have "hex_text (take 8 hash) \<noteq> hex_text (take 8 hash')" using hex_text_inject assms(2) by blast
  then have "save_name hash \<noteq> save_name hash'" by (simp add: save_name_def hex_text_def)
  then have "sf_file t (save_path hash' c) = sf_file s (save_path hash' c)" for c
    by (intro saves_delete_files(1) [OF assms(1)]) (simp add: base_save_path)
  then have "save_copies hash' m t = save_copies hash' m s" by (intro ext) (simp add: save_copies_def)
  then show ?thesis by (simp add: latest_save_def)
qed

lemma left_entry: "f \<in> set (take i es @ drop (Suc i) es) \<Longrightarrow> \<exists>j < length es. j \<noteq> i \<and> f = es ! j"
proof -
  assume "f \<in> set (take i es @ drop (Suc i) es)"
  then consider "f \<in> set (take i es)" | "f \<in> set (drop (Suc i) es)" by auto
  then show ?thesis
  proof cases
    case 1
    then obtain j where "j < length es" "j < i" "f = es ! j" by (auto simp: in_set_conv_nth)
    then show ?thesis by blast
  next
    case 2
    then obtain j where "j < length es - Suc i" "f = es ! (Suc i + j)" by (auto simp: in_set_conv_nth)
    then show ?thesis by (intro exI [of _ "Suc i + j"]) simp
  qed
qed

text \<open>What a delete request did, from its reply.\<close>

lemma delete_done:
  assumes "digest_fn sha" "storage_ok sha (wb_storage w)" "delete_handler sha rq w = ((status, message), w')"
    and "message \<in> {Deleted_with_save, Deleted_save_left}"
  obtains i okay where "i < length (web_entries w)" "web_entries w' = take i (web_entries w) @ drop (Suc i) (web_entries w)"
    "\<not> shared_save i (web_entries w)" "gb_saves_delete (re_sha (web_entries w ! i)) (wb_saves w) = (okay, wb_saves w')"
    "message = Deleted_with_save \<longleftrightarrow> okay" "status = (if okay then OK_200 else Server_Error_500)"
proof -
  have g: "same_origin rq" "\<not> st_reload (wb_storage w)" "query_token 96 rq \<noteq> None"
    using assms(3,4) by (auto simp: delete_handler_def split: if_splits option.splits)
  then obtain token where n: "query_token 96 rq = Some token" by auto
  obtain row t where i: "gb_storage_resolve_token sha token (wb_storage w) = (row, t)"
    by (cases "gb_storage_resolve_token sha token (wb_storage w)")
  obtain i where row: "row = Some i" using assms(3,4) g n i by (cases row) (auto simp: delete_handler_def on_storage_def)
  have c: "only_calls (wb_storage w) t" by (rule resolve_spec(1) [OF i])
  have e: "st_entries t = web_entries w" by (rule only_callsD(1) [OF c])
  have h: "delete_row sha i (w\<lparr>wb_storage := t\<rparr>) = ((status, message), w')"
    using assms(3) g n i row by (simp add: delete_handler_def on_storage_def)
  obtain ok u where u: "gb_storage_delete sha i t = (ok, u)" by (cases "gb_storage_delete sha i t")
  obtain okay saves where s: "gb_saves_delete (re_sha (web_entries w ! i)) (wb_saves w) = (okay, saves)"
    by (cases "gb_saves_delete (re_sha (web_entries w ! i)) (wb_saves w)")
  have d: "((status, message), w') =
      (if \<not> shared_save i (web_entries w) \<and> \<not> gb_saves_ready (wb_saves w) then ((Unavailable_503, Saves_unavailable), w\<lparr>wb_storage := t\<rparr>)
       else if \<not> ok then (if st_reload u then ((Unavailable_503, Check_delete_after_restart), w\<lparr>wb_storage := u\<rparr>)
          else ((Server_Error_500, Directory_not_written), w\<lparr>wb_storage := u\<rparr>))
       else if shared_save i (web_entries w) then ((OK_200, Deleted_save_shared), w\<lparr>wb_storage := u\<rparr>)
       else if \<not> okay then ((Server_Error_500, Deleted_save_left), w\<lparr>wb_storage := u, wb_saves := saves\<rparr>)
       else ((OK_200, Deleted_with_save), w\<lparr>wb_storage := u, wb_saves := saves\<rparr>))"
    using h u s e by (auto simp: delete_row_def on_storage_def Let_def)
  have r: "ok" "\<not> shared_save i (web_entries w)" "w' = w\<lparr>wb_storage := u, wb_saves := saves\<rparr>" "message = Deleted_with_save \<longleftrightarrow> okay"
    "status = (if okay then OK_200 else Server_Error_500)"
    using d assms(4) by (auto split: if_splits)
  have "outcome sha (Delete i :: unit storage_op) t ok u"
    by (rule delete_outcome [OF assms(1) only_calls_storage [OF c assms(2)] u])
  then have "st_entries u = take i (web_entries w) @ drop (Suc i) (web_entries w)"
    using r(1) e by (auto simp: outcome_def)
  then show thesis
    using that [of i okay] resolve_spec(2) [OF i row] r s by simp
qed

section \<open>A working device with one game\<close>

lemma ticks_working: "working (st_flash s) \<Longrightarrow> fst (ticks n s) \<and> working (st_flash (snd (ticks n s)))"
  by (induction n arbitrary: s) (simp_all add: on_flash_eq tick_def working_def)

lemma token_working:
  assumes "working (st_flash s)" "\<not> st_reload s" "i < length (st_entries s)"
  shows "\<exists>t. gb_storage_token sha i s = (Some (hex_text (sha (token_input s i))), t) \<and> working (st_flash t)"
proof -
  obtain ok t where t: "ticks 5 s = (ok, t)" by (cases "ticks 5 s")
  have w: "ok" "working (st_flash t)" using ticks_working [OF assms(1), of 5] t by simp_all
  have c: "only_calls s t" by (rule ticks_calls [OF t])
  show ?thesis
    using t w assms(2,3) only_callsD [OF c] by (simp add: gb_storage_token_def hex_text_def token_input_def)
qed

lemma list_working:
  assumes "list_loop sha is chunks s = Some ((okay, chunks'), t)" "working (st_flash s)" "\<not> st_reload s"
  shows "okay"
  using assms
proof (induction "is" arbitrary: chunks s)
  case (Cons i "is")
  show ?case
  proof (cases "i < length (st_entries s)")
    case True
    obtain u where u: "gb_storage_token sha i s = (Some (hex_text (sha (token_input s i))), u)" "working (st_flash u)"
      using token_working [OF Cons.prems(2,3) True] by blast
    have "\<not> st_reload u" using only_callsD(3) [OF token_spec(1) [OF u(1)]] Cons.prems(3) by simp
    then show ?thesis
      using Cons.prems(1) True u Cons.IH [OF _ u(2)] by (auto simp: gb_storage_entry_def bind_eq_Some_conv)
  next
    case False
    then show ?thesis using Cons by (simp add: gb_storage_entry_def)
  qed
qed simp

lemma one_game:
  "\<exists>s e. storage_ok demo_sha s \<and> working (st_flash s) \<and> st_partition s \<and> \<not> st_reload s \<and> st_entries s = [e]"
  using upload_working [OF demo_digest demo_working_ok demo_serves _ demo_allowed, of 0]
  by (auto simp: demo_working_def demo_storage_def)

definition demo_request :: http_request where
  "demo_request = \<lparr>rq_content_len = 32768, rq_origin_len = 0, rq_origin = (\<lambda>_. None), rq_query = (\<lambda>_. Some []),
     rq_value = (\<lambda>query key room. if key = ''token'' then Some (hex_text (replicate 32 0)) else Some [0x52])\<rparr>"

definition demo_web :: "storage \<Rightarrow> web" where
  "demo_web s = \<lparr>wb_storage = s, wb_saves = \<lparr>sf_files = [], sf_mounted = True, sf_reads = 0, sf_read_ok = (\<lambda>_. True), sf_writes = 0,
     sf_write_ok = (\<lambda>_. True), sf_cut = (\<lambda>_. 0)\<rparr>\<rparr>"

lemma demo_query: "same_origin demo_request" "query_token 96 demo_request = Some (hex_text (replicate 32 0))"
  by (simp_all add: demo_request_def same_origin_def query_token_def)

lemma demo_entries: "st_entries s = [e] \<Longrightarrow> web_entries (demo_web s) = [e]" "wb_storage (demo_web s) = s"
  by (simp_all add: demo_web_def)

lemma demo_deletes:
  assumes "storage_ok demo_sha s" "working (st_flash s)" "st_partition s" "\<not> st_reload s" "st_entries s = [e]"
  shows "\<exists>w'. delete_handler demo_sha demo_request (demo_web s) = ((OK_200, Deleted_with_save), w')"
proof -
  let ?t = "hex_text (replicate 32 (0 :: u8))"
  obtain u where u: "gb_storage_token demo_sha 0 s = (Some ?t, u)" "working (st_flash u)"
    using token_working [OF assms(2,4), of 0 demo_sha] assms(5) by (auto simp: demo_sha_def)
  have c: "only_calls s u" by (rule token_spec(1) [OF u(1)])
  note v = only_callsD [OF c]
  have "length ?t = 64" by (simp add: hex_text_length)
  then have r: "gb_storage_resolve_token demo_sha ?t s = (Some 0, u)"
    using u(1) assms(4,5) by (simp add: gb_storage_resolve_token_def cstr_hex_text)
  have uok: "storage_ok demo_sha u" by (rule only_calls_storage [OF c assms(1)])
  then have "flash_ok (st_flash u)" by (simp add: storage_ok_def)
  then obtain t where "publish_directory demo_sha [] (unmap_selected u) = (True, t)"
    using publish_working [OF demo_digest, of "unmap_selected u" "[]"] u(2) by (auto simp: catalog_ok_def)
  then have d: "gb_storage_delete demo_sha 0 u = (True, t)"
    using v assms(3-5) by (simp add: gb_storage_delete_def)
  have "\<not> shared_save 0 (st_entries u)" using v(1) assms(5) by (simp add: shared_save_def)
  moreover obtain saves where "gb_saves_delete (re_sha (st_entries u ! 0)) (wb_saves (demo_web s)) = (True, saves)"
    by (simp add: gb_saves_delete_def demo_web_def remove_copy_def fs_remove_def write_call_def sf_file_def)
  moreover have "gb_saves_ready (wb_saves (demo_web s))" "wb_storage (demo_web s) = s" by (simp_all add: demo_web_def gb_saves_ready_def)
  ultimately show ?thesis
    using demo_query r d assms(4) by (simp add: delete_handler_def on_storage_def delete_row_def Let_def)
qed

section \<open>Replies\<close>



text \<open>C16.  Deleting a game deletes no other game's save: of every game a restart would list the latest save is as
  it was, provided the games in the catalog differ in the eight bytes of the digest that name a save;
  no save is touched unless the reply says so; and when it says that the save is deleted, no game of
  that digest is left and neither of its files.\<close>

theorem delete_keeps_other_saves:
  assumes "digest_fn sha" "storage_ok sha (wb_storage w)" "delete_handler sha rq w = ((status, message), w')"
    and "\<forall>e \<in> set (web_entries w). \<forall>f \<in> set (web_entries w). take 8 (re_sha e) = take 8 (re_sha f) \<longrightarrow> re_sha e = re_sha f"
  shows "(found_after_restart sha w' = Some es \<longrightarrow>
      (\<forall>e \<in> set es. latest_save (re_sha e) m (wb_saves w') = latest_save (re_sha e) m (wb_saves w))) \<and>
    (message \<notin> {Deleted_with_save, Deleted_save_left} \<longrightarrow> wb_saves w' = wb_saves w) \<and>
    (message = Deleted_with_save \<longrightarrow> (\<exists>e \<in> set (web_entries w). (\<forall>f \<in> set (web_entries w'). re_sha f \<noteq> re_sha e) \<and>
       sf_file (wb_saves w') (save_path (re_sha e) COPY_A) = None \<and> sf_file (wb_saves w') (save_path (re_sha e) COPY_B) = None))"
proof (cases "message \<in> {Deleted_with_save, Deleted_save_left}")
  case False
  then have "wb_saves w' = wb_saves w"
    using assms(3) by (auto simp: delete_handler_def delete_row_def on_storage_def Let_def split: if_splits option.splits prod.splits)
  then show ?thesis using False by simp
next
  case True
  obtain i okay where i: "i < length (web_entries w)" "web_entries w' = take i (web_entries w) @ drop (Suc i) (web_entries w)"
    "\<not> shared_save i (web_entries w)" "gb_saves_delete (re_sha (web_entries w ! i)) (wb_saves w) = (okay, wb_saves w')"
    "message = Deleted_with_save \<longleftrightarrow> okay" "status = (if okay then OK_200 else Server_Error_500)"
    by (rule delete_done [OF assms(1-3) True])
  have sub: "set (web_entries w') \<subseteq> set (web_entries w)" using i(2) by (auto dest: in_set_takeD in_set_dropD)
  have other: "re_sha f \<noteq> re_sha (web_entries w ! i)" if f: "f \<in> set (web_entries w')" for f
  proof -
    obtain j where "j < length (web_entries w)" "j \<noteq> i" "f = web_entries w ! j"
      using left_entry [OF f [unfolded i(2)]] by blast
    then show ?thesis using i(3) by (auto simp: shared_save_def list_ex_iff)
  qed
  have "found_after_restart sha w' = Some (web_entries w')"
    using delete_replies [OF assms(1-3)] True i(5,6) by (auto simp: reply_holds_def)
  moreover have "latest_save (re_sha e) m (wb_saves w') = latest_save (re_sha e) m (wb_saves w)" if "e \<in> set (web_entries w')" for e
    by (rule other_save_kept [OF i(4)]) (use other [OF that] assms(4) that sub i(1) nth_mem in \<open>metis subsetD\<close>)
  moreover have "message = Deleted_with_save \<longrightarrow> (\<exists>e \<in> set (web_entries w). (\<forall>f \<in> set (web_entries w'). re_sha f \<noteq> re_sha e) \<and>
       sf_file (wb_saves w') (save_path (re_sha e) COPY_A) = None \<and> sf_file (wb_saves w') (save_path (re_sha e) COPY_B) = None)"
    using i(5) other saves_delete_files(2) [OF i(4)] nth_mem [OF i(1)] by blast
  ultimately show ?thesis using True by simp
qed

lemma delete_keeps_other_saves_witness:
  "\<exists>s w'. delete_handler demo_sha demo_request (demo_web s) = ((OK_200, Deleted_with_save), w') \<and>
    (\<exists>e. e \<in> set (web_entries (demo_web s)) \<and> sf_file (wb_saves w') (save_path (re_sha e) COPY_A) = None)"
proof -
  obtain s e where s: "storage_ok demo_sha s" "working (st_flash s)" "st_partition s" "\<not> st_reload s" "st_entries s = [e]"
    using one_game by blast
  obtain w' where w: "delete_handler demo_sha demo_request (demo_web s) = ((OK_200, Deleted_with_save), w')"
    using demo_deletes [OF s] by blast
  have "\<exists>e \<in> set (web_entries (demo_web s)). sf_file (wb_saves w') (save_path (re_sha e) COPY_A) = None"
    using delete_keeps_other_saves [OF demo_digest _ w, of "[]" 0] s(1) demo_entries(1) [OF s(5)] by (simp add: demo_entries(2))
  then show ?thesis using w by blast
qed

section \<open>Rows\<close>

text \<open>C29.  A deletion deletes the game its row showed.  If the page read the list when the storage was \<open>s\<close>, and
  later a request with the token of a row is answered with success, then the catalog had not changed
  since (same generation), the row still was that game, under that name, and exactly it is gone;
  provided the digest does not give two rows the same token.\<close>

theorem shown_row_is_deleted:
  assumes "digest_fn sha" "storage_ok sha s" "storage_ok sha (wb_storage w)"
    and "list_handler sha s = Some (Listed True chunks, t)" "read_list (concat chunks) = Some (used, capacity, available, rows)"
    and "i < length rows" "rows ! i = (name, bytes, token)"
    and "query_token 96 rq = Some token" "delete_handler sha rq w = ((OK_200, message), w')"
    and "\<forall>j < length (web_entries w). sha (token_input (wb_storage w) j) = sha (token_input s i) \<longrightarrow>
      token_input (wb_storage w) j = token_input s i"
  shows "st_generation (wb_storage w) = st_generation s \<and> i < length (web_entries w) \<and> web_entries w ! i = st_entries s ! i \<and>
    cstr (re_name (web_entries w ! i)) = name \<and> web_entries w' = take i (web_entries w) @ drop (Suc i) (web_entries w)"
proof -
  have rows: "rows = map (\<lambda>i. (cstr (re_name (st_entries s ! i)), re_bytes (st_entries s ! i), row_token sha s i)) [0..<length (st_entries s)]"
    using list_handler_reads [OF assms(2,1)] assms(4,5) by auto
  then have i: "i < length (st_entries s)" "name = cstr (re_name (st_entries s ! i))" "token = hex_text (sha (token_input s i))"
    using assms(6,7) by (simp_all add: row_token_def)
  have "asked sha (Post_delete rq :: unit web_request) w (web_flash w') (web_entries w')"
    using delete_replies [OF assms(1,3,9)] by (simp add: reply_holds_def)
  then obtain j where j: "fst (gb_storage_resolve_token sha token (wb_storage w)) = Some j"
    "web_entries w' = take j (web_entries w) @ drop (Suc j) (web_entries w)" using assms(8) by auto
  note r = resolve_spec(2) [OF prod.collapse [symmetric] j(1)]
  have "hex_text (sha (token_input (wb_storage w) j)) = hex_text (sha (token_input s i))" using r i(3) cstr_hex_text by metis
  then have "token_input (wb_storage w) j = token_input s i" using hex_text_inject assms(10) r by blast
  then have "i = j \<and> st_generation s = st_generation (wb_storage w) \<and> st_entries s ! i = web_entries w ! j"
    by (rule token_input_inject)
      (use stored_entries [OF assms(2) i(1)] stored_entries [OF assms(3), of j] r in simp_all)
  then have "j = i" "st_generation (wb_storage w) = st_generation s" "web_entries w ! i = st_entries s ! i" by auto
  then show ?thesis using i(2) j(2) r by simp
qed

lemma shown_row_is_deleted_witness:
  "\<exists>s chunks t used capacity available name bytes token w'. list_handler demo_sha s = Some (Listed True chunks, t) \<and>
    read_list (concat chunks) = Some (used, capacity, available, [(name, bytes, token)]) \<and>
    delete_handler demo_sha demo_request (demo_web s) = ((OK_200, Deleted_with_save), w') \<and>
    cstr (re_name (web_entries (demo_web s) ! 0)) = name \<and> web_entries w' = []"
proof -
  obtain s e where s: "storage_ok demo_sha s" "working (st_flash s)" "st_partition s" "\<not> st_reload s" "st_entries s = [e]"
    using one_game by blast
  obtain w' where w: "delete_handler demo_sha demo_request (demo_web s) = ((OK_200, Deleted_with_save), w')"
    using demo_deletes [OF s] by blast
  obtain r t where r: "list_handler demo_sha s = Some (r, t)" "r \<noteq> List_unavailable"
    "\<forall>chunks. r = Listed True chunks \<longrightarrow> read_list (concat chunks) =
       Some (gb_storage_used s, gb_storage_limit s, gb_storage_available s, [(cstr (re_name e), re_bytes e, row_token demo_sha s 0)])"
    using list_handler_reads [OF s(1) demo_digest] s(4,5) by auto
  obtain chunks where c: "r = Listed True chunks"
    using r(1) s(4) list_working [of demo_sha _ _ s, OF _ s(2,4)]
    by (fastforce simp: list_handler_def bind_eq_Some_conv split: if_splits)
  have l: "list_handler demo_sha s = Some (Listed True chunks, t)" using r(1) c by simp
  have d: "read_list (concat chunks) = Some (gb_storage_used s, gb_storage_limit s, gb_storage_available s,
      [(cstr (re_name e), re_bytes e, row_token demo_sha s 0)])" using r(3) c by simp
  have q: "query_token 96 demo_request = Some (row_token demo_sha s 0)" using demo_query(2) by (simp add: row_token_def demo_sha_def)
  have z: "cstr (re_name (web_entries (demo_web s) ! 0)) = cstr (re_name e) \<and> web_entries w' = take 0 [e] @ drop (Suc 0) [e]"
    using shown_row_is_deleted [OF demo_digest s(1) _ l d _ _ q w, of 0 "cstr (re_name e)" "re_bytes e"] s(1,5) by (simp add: demo_web_def)
  have "cstr (re_name (web_entries (demo_web s) ! 0)) = cstr (re_name e)" "web_entries w' = []" using z by simp_all
  then show ?thesis using l d w by blast
qed

section \<open>The list\<close>

text \<open>C24.  The page shows the catalog.  The list is sent without leaving a buffer and
  if every token could be made its text is one JSON object that reads back as the space used, the
  capacity, the space available, and one row per game with its name, size and token.\<close>

theorem list_shows_catalog:
  assumes "digest_fn sha" "storage_ok sha s"
  shows "\<exists>r t. list_handler sha s = Some (r, t) \<and> st_entries t = st_entries s \<and> (r = List_unavailable \<longleftrightarrow> st_reload s) \<and>
    (\<forall>chunks. r = Listed True chunks \<longrightarrow> read_list (concat chunks) =
       Some (gb_storage_used s, gb_storage_limit s, gb_storage_available s,
         map (\<lambda>i. (cstr (re_name (st_entries s ! i)), re_bytes (st_entries s ! i), hex_text (sha (token_input s i))))
           [0..<length (st_entries s)]))"
  using list_handler_reads [OF assms(2,1)] only_callsD(1) unfolding row_token_def by blast

lemma list_shows_catalog_witness:
  "\<exists>chunks t. list_handler demo_sha demo_working = Some (Listed True chunks, t) \<and>
    read_list (concat chunks) = Some (gb_storage_used demo_working, gb_storage_limit demo_working, gb_storage_available demo_working, [])"
proof -
  have e: "\<not> st_reload demo_working" "st_entries demo_working = []" by (simp_all add: demo_working_def demo_storage_def)
  then have "list_handler demo_sha demo_working = Some (Listed True [list_head demo_working, ascii '']}''], demo_working)"
    by (simp add: list_handler_def)
  then show ?thesis using list_shows_catalog [OF demo_digest demo_working_ok(1)] e by auto
qed

section \<open>The network\<close>

text \<open>With the calls that stop it working, the network is up as a whole or not at all.\<close>

inductive net_reach :: "network \<Rightarrow> bool" where
  Off: "net_reach \<lparr>nw_running = False, nw_ap = False, nw_server = False, nw_initialized = False, nw_started = False,
     nw_handler = False, nw_live_aps = 0\<rparr>"
| Start: "net_reach n \<Longrightarrow> pa_stop p \<Longrightarrow> pa_deinit p \<Longrightarrow> net_reach (snd (gb_web_start a p n))"
| Stop: "net_reach n \<Longrightarrow> pa_stop p \<Longrightarrow> pa_deinit p \<Longrightarrow> net_reach (gb_web_stop p n)"

definition net_whole :: "network \<Rightarrow> bool" where
  "net_whole n \<longleftrightarrow> nw_ap n = nw_running n \<and> nw_server n = nw_running n \<and> nw_initialized n = nw_running n \<and>
     nw_started n = nw_running n \<and> nw_handler n = nw_running n \<and> nw_live_aps n = (if nw_running n then 1 else 0)"

definition one_ap :: "network \<Rightarrow> bool" where
  "one_ap n \<longleftrightarrow> nw_live_aps n = (if nw_ap n then 1 else 0)"

lemma stop_whole: "pa_stop p \<Longrightarrow> pa_deinit p \<Longrightarrow> one_ap n \<Longrightarrow> net_whole (gb_web_stop p n)"
  by (cases n) (simp add: gb_web_stop_def net_whole_def one_ap_def Let_def)

lemma server_start_cases:
  assumes "server_start a n = (okay, m)" "one_ap n"
  shows "one_ap m \<and> (okay \<longrightarrow> m = n\<lparr>nw_server := True, nw_running := True\<rparr>)"
  using assms by (auto simp: server_start_def one_ap_def Let_def split: if_splits)

lemma wifi_start_cases:
  assumes "wifi_start a n = (okay, m)" "one_ap n"
  shows "one_ap m \<and> (okay \<longrightarrow> m = n\<lparr>nw_initialized := True, nw_handler := True, nw_started := True, nw_server := True, nw_running := True\<rparr>)"
proof -
  let ?n = "n\<lparr>nw_initialized := True, nw_handler := True, nw_started := True\<rparr>"
  have o: "one_ap ?n" "one_ap (n\<lparr>nw_initialized := True, nw_handler := True\<rparr>)" "one_ap (n\<lparr>nw_initialized := True\<rparr>)"
    using assms(2) by (simp_all add: one_ap_def)
  show ?thesis
    using assms(1) o assms(2) server_start_cases [of a ?n okay m] by (auto simp: wifi_start_def Let_def split: if_splits)
qed

lemma network_whole: "net_reach n \<Longrightarrow> net_whole n"
proof (induction rule: net_reach.induct)
  case (Start n p a)
  show ?case
  proof (cases "nw_running n")
    case True
    then show ?thesis using Start by (simp add: gb_web_start_def)
  next
    case False
    then have n: "one_ap n" "\<not> nw_ap n" "one_ap (n\<lparr>nw_ap := False\<rparr>)" "one_ap (n\<lparr>nw_ap := True, nw_live_aps := Suc (nw_live_aps n)\<rparr>)"
      using Start by (simp_all add: net_whole_def one_ap_def)
    obtain okay m where w: "wifi_start a (n\<lparr>nw_ap := True, nw_live_aps := Suc (nw_live_aps n)\<rparr>) = (okay, m)"
      by (cases "wifi_start a (n\<lparr>nw_ap := True, nw_live_aps := Suc (nw_live_aps n)\<rparr>)")
    have m: "one_ap m" "okay \<longrightarrow> net_whole m"
      using wifi_start_cases [OF w n(4)] n(1,2) by (auto simp: net_whole_def one_ap_def)
    show ?thesis
      using False n m stop_whole [OF Start(2,3)] by (auto simp: gb_web_start_def w)
  qed
next
  case (Stop n p)
  then show ?case by (intro stop_whole) (simp_all add: net_whole_def one_ap_def)
qed (simp add: net_whole_def)

text \<open>If \<open>esp_wifi_deinit\<close> fails the access point stays, and the next start makes a second one.\<close>

lemma second_access_point:
  "(let a = \<lparr>sa_netif = Net_ok, sa_loop = Net_ok, sa_ap = True, sa_init = True, sa_storage = True, sa_handler = True,
       sa_mode = True, sa_config = True, sa_start = True, sa_server = True, sa_routes = (\<lambda>_. True)\<rparr>;
     off = \<lparr>nw_running = False, nw_ap = False, nw_server = False, nw_initialized = False, nw_started = False,
       nw_handler = False, nw_live_aps = 0\<rparr>;
     p = \<lparr>pa_stop = True, pa_deinit = False\<rparr>
   in nw_live_aps (snd (gb_web_start a p (gb_web_stop p (snd (gb_web_start a p off)))))) = 2"
  by code_simp

end
