(* ===== verification/Gb_Audio.thy ===== *)
theory Gb_Audio
  imports Gb_Pacing "HOL-Library.Sublist"
begin

text \<open>
  The audio task of main/gb_audio.c.  The application hands blocks of 267 samples to a FreeRTOS queue of
  eight; the task takes them out in pairs, resamples them and writes them to the codec.  A step is what
  one of the two does between two calls into FreeRTOS or the codec, and any interleaving may occur.  The
  task leaves its loop, mutes the codec, gives a semaphore, and from then on touches nothing but itself.
\<close>

section \<open>Resampling a block\<close>

definition GB_AUDIO_SAMPLES :: nat where "GB_AUDIO_SAMPLES = 267"
definition GB_AUDIO_MAX_OUTPUT_SAMPLES :: nat where "GB_AUDIO_MAX_OUTPUT_SAMPLES = 267"

lemmas audio_sizes = GB_AUDIO_SAMPLES_def GB_AUDIO_MAX_OUTPUT_SAMPLES_def

text \<open>One output sample; the product stays below \<open>2\<^sup>31\<close>, and \<open>>>\<close> of a negative number rounds down.\<close>

definition interpolate :: "i16 list \<Rightarrow> u32 \<Rightarrow> i16 option" where
  "interpolate source position =
     (let index = unat (drop_bit 8 position)
      in if GB_AUDIO_SAMPLES - 1 \<le> index then mem_get source (GB_AUDIO_SAMPLES - 1)
         else do {
           following \<leftarrow> mem_get source (index + 1);
           here \<leftarrow> mem_get source index;
           let delta = sint following - sint here;
           Some (word_of_int (sint here + (delta * int (unat (position AND 255))) div 256))
         })"

fun resample_loop :: "i16 list \<Rightarrow> u32 \<Rightarrow> nat \<Rightarrow> nat \<Rightarrow> nat \<Rightarrow> u32 \<Rightarrow> i16 list \<Rightarrow> i16 list option" where
  "resample_loop source step at i 0 position output = Some output"
| "resample_loop source step at i (Suc n) position output = do {
     v \<leftarrow> interpolate source position;
     output \<leftarrow> mem_set output (at + i) v;
     resample_loop source step at (i + 1) n (position + step) output
   }"

text \<open>The result is written from \<open>at\<close> on; a count of 1 divides by zero.\<close>

definition resample_block :: "i16 list \<Rightarrow> nat \<Rightarrow> u32 \<Rightarrow> i16 list \<Rightarrow> i16 list option" where
  "resample_block source at n output =
     (if unat n = GB_AUDIO_SAMPLES then do {
        samples \<leftarrow> mem_slice source 0 GB_AUDIO_SAMPLES;
        mem_blit output at samples
      }
      else if n - 1 = 0 then None
      else do {
        let step = push_bit 8 (of_nat (GB_AUDIO_SAMPLES - 1)) div (n - 1);
        output \<leftarrow> resample_loop source step at 0 (unat n) 0 output;
        final \<leftarrow> mem_get source (GB_AUDIO_SAMPLES - 1);
        mem_set output (at + unat (n - 1)) final
      })"

section \<open>The state\<close>

record audio_block =
  ab_stop :: bool
  ab_output_count :: u16
  ab_samples :: "i16 list"

datatype audio_pc = No_task | Prebuffering | Looping | Receiving nat u32 | Writing u32 | Ending | Giving

datatype audio_app =
    App_idle
  | Sending audio_block
  | Retaking audio_block
  | Resending audio_block
  | Stop_resetting
  | Stop_posting
  | Stop_waiting

text \<open>
  The static variables, a NULL handle being \<open>None\<close> or \<open>False\<close>; the codec's volume and what was written
  to it since the start; where the two tasks are; and, for the statements, the blocks accepted.
\<close>

record audio =
  au_queue :: "audio_block list option"
  au_stopped :: "bool option"
  au_task :: bool
  au_failed :: bool
  au_stop_requested :: bool
  au_dropped :: u32
  au_output_samples :: u32
  au_waits :: u32
  au_max_wait :: u32
  au_submitted :: u64
  au_output :: "i16 list"
  au_volume :: u8
  au_played :: "i16 list"
  au_pc :: audio_pc
  au_app :: audio_app
  au_accepted :: "i16 list list"

definition audio_boot :: audio where
  "audio_boot = \<lparr>au_queue = None, au_stopped = None, au_task = False, au_failed = False, au_stop_requested = False,
     au_dropped = 0, au_output_samples = 0, au_waits = 0, au_max_wait = 0, au_submitted = 0,
     au_output = replicate (GB_AUDIO_MAX_OUTPUT_SAMPLES * 2) 0, au_volume = 0, au_played = [],
     au_pc = No_task, au_app = App_idle, au_accepted = []\<rparr>"

section \<open>The application\<close>

record audio_answers =
  aa_codec :: bool
  aa_queue :: bool
  aa_stopped :: bool
  aa_task :: bool

definition gb_audio_start :: "u8 \<Rightarrow> audio_answers \<Rightarrow> audio \<Rightarrow> bool \<times> audio" where
  "gb_audio_start volume a s =
     (if au_task s \<or> au_queue s \<noteq> None then (False, s)
      else if \<not> aa_codec a then (False, s)
      else if \<not> aa_queue a \<or> \<not> aa_stopped a then (False, s\<lparr>au_queue := None, au_stopped := None\<rparr>)
      else
        let s = s\<lparr>au_queue := Some [], au_stopped := Some False, au_failed := False, au_stop_requested := False,
                  au_dropped := 0, au_output_samples := 0, au_waits := 0, au_max_wait := 0, au_submitted := 0,
                  au_volume := volume, au_played := [], au_accepted := []\<rparr>
        in if \<not> aa_task a then (False, s\<lparr>au_volume := 0, au_queue := None, au_stopped := None\<rparr>)
           else (True, s\<lparr>au_task := True, au_pc := Prebuffering\<rparr>))"

text \<open>\<open>gb_audio_submit\<close> up to its first call, and after each of its calls on the queue.\<close>

definition gb_audio_submit :: "i16 list option \<Rightarrow> audio \<Rightarrow> audio" where
  "gb_audio_submit samples s =
     (case samples of None \<Rightarrow> s
      | Some samples \<Rightarrow>
          if au_queue s = None \<or> length samples \<noteq> GB_AUDIO_SAMPLES \<or> au_failed s then s
          else let n = au_submitted s + 1
               in s\<lparr>au_submitted := n, au_accepted := au_accepted s @ [samples],
                    au_app := Sending \<lparr>ab_stop = False, ab_output_count = ucast (gb_audio_resampled_count n),
                                       ab_samples = samples\<rparr>\<rparr>)"

definition submit_send :: "audio_block \<Rightarrow> audio \<Rightarrow> audio option" where
  "submit_send block s = do {
     q \<leftarrow> au_queue s;
     Some (if length q < 8 then s\<lparr>au_queue := Some (q @ [block]), au_app := App_idle\<rparr>
           else s\<lparr>au_app := Retaking block\<rparr>)
   }"

definition submit_retake :: "audio_block \<Rightarrow> audio \<Rightarrow> audio option" where
  "submit_retake block s = do {
     q \<leftarrow> au_queue s;
     Some (case q of [] \<Rightarrow> s\<lparr>au_app := Resending block\<rparr>
           | stale # q \<Rightarrow> s\<lparr>au_queue := Some q, au_dropped := au_dropped s + 1, au_app := Resending block\<rparr>)
   }"

definition submit_resend :: "audio_block \<Rightarrow> audio \<Rightarrow> audio option" where
  "submit_resend block s = do {
     q \<leftarrow> au_queue s;
     Some (if length q < 8 then s\<lparr>au_queue := Some (q @ [block]), au_app := App_idle\<rparr>
           else s\<lparr>au_dropped := au_dropped s + 1, au_app := App_idle\<rparr>)
   }"

text \<open>\<open>gb_audio_stop\<close>: raise the flag, empty the queue, post the stop block, and wait for the task.\<close>

definition gb_audio_stop :: "audio \<Rightarrow> audio" where
  "gb_audio_stop s = (if au_queue s = None then s else s\<lparr>au_stop_requested := True, au_app := Stop_resetting\<rparr>)"

definition stop_reset :: "audio \<Rightarrow> audio option" where
  "stop_reset s = do { _ \<leftarrow> au_queue s; Some (s\<lparr>au_queue := Some [], au_app := Stop_posting\<rparr>) }"

definition stop_block :: audio_block where
  "stop_block = \<lparr>ab_stop = True, ab_output_count = 0, ab_samples = replicate GB_AUDIO_SAMPLES 0\<rparr>"

definition stop_post :: "audio \<Rightarrow> audio option" where
  "stop_post s = do {
     q \<leftarrow> au_queue s;
     Some (s\<lparr>au_queue := Some (if length q < 8 then q @ [stop_block] else q), au_app := Stop_waiting\<rparr>)
   }"

text \<open>The semaphore was taken; the result of \<open>gb_audio_stop\<close> is \<open>gb_audio_healthy\<close>.\<close>

definition stop_finish :: "audio \<Rightarrow> audio" where
  "stop_finish s = s\<lparr>au_task := False, au_queue := None, au_stopped := None, au_app := App_idle\<rparr>"

definition gb_audio_healthy :: "audio \<Rightarrow> bool" where "gb_audio_healthy s \<longleftrightarrow> \<not> au_failed s"

definition gb_audio_requested_samples :: "audio \<Rightarrow> u32" where
  "gb_audio_requested_samples s =
     ucast (au_submitted s * GB_AUDIO_SOURCE_SAMPLES * GB_AUDIO_OUTPUT_RATE div GB_AUDIO_SOURCE_RATE)"

definition app_next :: "audio \<Rightarrow> audio option" where
  "app_next s = (case au_app s of
     App_idle \<Rightarrow> Some s
   | Sending b \<Rightarrow> submit_send b s
   | Retaking b \<Rightarrow> submit_retake b s
   | Resending b \<Rightarrow> submit_resend b s
   | Stop_resetting \<Rightarrow> stop_reset s
   | Stop_posting \<Rightarrow> stop_post s
   | Stop_waiting \<Rightarrow> Some (stop_finish s))"

section \<open>The task\<close>

definition task_receive :: "u32 \<Rightarrow> nat \<Rightarrow> u32 \<Rightarrow> audio \<Rightarrow> audio option" where
  "task_receive waited i n s = do {
     q \<leftarrow> au_queue s;
     (case q of [] \<Rightarrow> Some s
      | block # q \<Rightarrow>
          if ab_stop block then Some (s\<lparr>au_queue := Some q, au_pc := Ending\<rparr>)
          else do {
            output \<leftarrow> resample_block (ab_samples block) (unat n) (ucast (ab_output_count block)) (au_output s);
            let n = n + ucast (ab_output_count block);
            Some (s\<lparr>au_queue := Some q, au_output := output,
                    au_waits := (if 5000 < waited then au_waits s + 1 else au_waits s),
                    au_max_wait := (if au_max_wait s < waited then waited else au_max_wait s),
                    au_pc := (if i + 1 < 2 then Receiving (i + 1) n else Writing n)\<rparr>)
          })
   }"

definition task_write :: "bool \<Rightarrow> u32 \<Rightarrow> audio \<Rightarrow> audio option" where
  "task_write ok n s = do {
     samples \<leftarrow> mem_slice (au_output s) 0 (unat n);
     Some (if \<not> ok then s\<lparr>au_failed := True, au_pc := Ending\<rparr>
           else s\<lparr>au_played := au_played s @ samples, au_output_samples := au_output_samples s + n, au_pc := Looping\<rparr>)
   }"

text \<open>One step of \<open>audio_task\<close>; \<open>waited\<close> is the time it waited for a block, \<open>ok\<close> the codec's answer.\<close>

definition task_next :: "u32 \<Rightarrow> bool \<Rightarrow> audio \<Rightarrow> audio option" where
  "task_next waited ok s = (case au_pc s of
     No_task \<Rightarrow> Some s
   | Prebuffering \<Rightarrow> do {
       q \<leftarrow> au_queue s;
       Some (if length q < 4 \<and> \<not> au_stop_requested s then s else s\<lparr>au_pc := Looping\<rparr>)
     }
   | Looping \<Rightarrow> Some (s\<lparr>au_pc := (if au_stop_requested s then Ending else Receiving 0 0)\<rparr>)
   | Receiving i n \<Rightarrow> task_receive waited i n s
   | Writing n \<Rightarrow> task_write ok n s
   | Ending \<Rightarrow> Some (s\<lparr>au_volume := 0, au_pc := Giving\<rparr>)
   | Giving \<Rightarrow> do { _ \<leftarrow> au_stopped s; Some (s\<lparr>au_stopped := Some True, au_pc := No_task\<rparr>) })"

section \<open>Steps\<close>

datatype audio_action =
    Do_start u8 audio_answers
  | Do_submit "i16 list option"
  | Do_stop
  | Do_next
  | Do_time_out
  | Do_task u32 bool

text \<open>
  A receive without a time-out waits for a block (\<open>portMAX_DELAY\<close>), and so does taking the semaphore,
  unless two seconds pass.
\<close>

fun audio_enabled :: "audio_action \<Rightarrow> audio \<Rightarrow> bool" where
  "audio_enabled (Do_start v a) s \<longleftrightarrow> au_app s = App_idle"
| "audio_enabled (Do_submit x) s \<longleftrightarrow> au_app s = App_idle"
| "audio_enabled Do_stop s \<longleftrightarrow> au_app s = App_idle"
| "audio_enabled Do_next s \<longleftrightarrow> au_app s \<noteq> App_idle \<and> (au_app s = Stop_waiting \<longrightarrow> au_stopped s = Some True)"
| "audio_enabled Do_time_out s \<longleftrightarrow> au_app s = Stop_waiting \<and> au_stopped s \<noteq> Some True"
| "audio_enabled (Do_task w ok) s \<longleftrightarrow> au_pc s \<noteq> No_task \<and>
     (case au_pc s of Receiving i n \<Rightarrow> au_queue s \<noteq> Some [] | _ \<Rightarrow> True)"

fun audio_act :: "audio_action \<Rightarrow> audio \<Rightarrow> audio option" where
  "audio_act (Do_start v a) s = Some (snd (gb_audio_start v a s))"
| "audio_act (Do_submit x) s = Some (gb_audio_submit x s)"
| "audio_act Do_stop s = Some (gb_audio_stop s)"
| "audio_act Do_next s = app_next s"
| "audio_act Do_time_out s = Some (s\<lparr>au_app := App_idle\<rparr>)"
| "audio_act (Do_task w ok) s = task_next w ok s"

inductive audio_reach :: "audio \<Rightarrow> bool" where
  Boot: "audio_reach audio_boot"
| Act: "audio_reach s \<Longrightarrow> audio_enabled a s \<Longrightarrow> audio_act a s = Some t \<Longrightarrow> audio_reach t"

text \<open>A run of given actions, each of which must be enabled.\<close>

fun audio_run :: "audio_action list \<Rightarrow> audio \<Rightarrow> audio option" where
  "audio_run [] s = Some s"
| "audio_run (a # as) s = (if audio_enabled a s then audio_act a s \<bind> audio_run as else None)"

lemma audio_run_reach: "audio_reach s \<Longrightarrow> audio_run as s = Some t \<Longrightarrow> audio_reach t"
  by (induction as arbitrary: s) (auto simp: bind_eq_Some_conv split: if_splits intro: audio_reach.Act)

end
