(* ===== verification/Gb_Audio_Plays.thy ===== *)
theory Gb_Audio_Plays
  imports Gb_Audio
begin

text \<open>
  What reaches the codec, and how the audio task ends: which blocks are where (\<open>blocks_order\<close>), which
  handles exist when the task runs (\<open>handles_ok\<close>), and what the stop protocol relies on (\<open>stop_ok\<close>).
\<close>

section \<open>Resampling\<close>

lemma resample_copy:
  assumes "length source = 267" "n = 267" "at + 267 \<le> length out"
  shows "resample_block source at n out = Some (take at out @ source @ drop (at + 267) out)"
  using assms by (simp add: resample_block_def audio_sizes mem_slice_def mem_blit_def)

lemma between_neighbours:
  assumes "0 \<le> f" "f \<le> (255 :: int)"
  shows "min a b \<le> a + ((b - a) * f) div 256" "a + ((b - a) * f) div 256 \<le> max a b"
proof -
  let ?p = "(b - a) * f"
  show "min a b \<le> a + ?p div 256"
  proof (cases "a \<le> b")
    case True
    then have "0 \<le> ?p" using assms by simp
    then show ?thesis using True by (simp add: pos_imp_zdiv_nonneg_iff)
  next
    case False
    then have "(b - a) * 256 \<le> ?p" using assms by (intro mult_left_mono_neg) simp_all
    then have "b - a \<le> ?p div 256" by simp
    then show ?thesis using False by simp
  qed
  show "a + ?p div 256 \<le> max a b"
  proof (cases "a \<le> b")
    case True
    then have "?p \<le> (b - a) * 256" using assms by (intro mult_left_mono) simp_all
    then have "?p div 256 \<le> b - a" by simp
    then show ?thesis using True by simp
  next
    case False
    then have "?p \<le> 0" using assms by (simp add: mult_le_0_iff)
    then show ?thesis using False by simp
  qed
qed

text \<open>An interpolated sample is one of the source's, or lies between two of its neighbours.\<close>

definition between :: "i16 list \<Rightarrow> i16 \<Rightarrow> bool" where
  "between source v \<longleftrightarrow> (\<exists>a\<in>set source. \<exists>b\<in>set source. sint a \<le> sint v \<and> sint v \<le> sint b)"

lemma between_member: "v \<in> set source \<Longrightarrow> between source v"
  by (auto simp: between_def)

lemma interpolate_between:
  assumes "length source = 267"
  shows "okp (interpolate source position) (between source)"
proof -
  let ?i = "unat (drop_bit 8 position)" and ?f = "int (unat (position AND 255))"
  show ?thesis
  proof (cases "266 \<le> ?i")
    case True
    then show ?thesis using assms by (simp add: interpolate_def Let_def audio_sizes between_member)
  next
    case False
    define a where "a = source ! ?i"
    define b where "b = source ! (?i + 1)"
    have mem: "a \<in> set source" "b \<in> set source" using False assms by (simp_all add: a_def b_def)
    have "unat (position AND 255) \<le> 255" using unat_and_le [of position 255] by simp
    then have f: "0 \<le> ?f" "?f \<le> 255" by linarith+
    define v where "v = sint a + ((sint b - sint a) * ?f) div 256"
    note bb = between_neighbours [OF f, of "sint a" "sint b", folded v_def]
    have r: "-(2 ^ 15) \<le> sint x" "sint x < 2 ^ 15" for x :: i16
      using sint_greater_eq [of x] sint_less [of x] by simp_all
    have vr: "-(2 ^ 15) \<le> v" "v < 2 ^ 15"
      using bb r [of a] r [of b] by (auto simp: min_def max_def split: if_splits)
    have s: "sint (word_of_int v :: i16) = v"
      using vr by (simp add: signed_of_int signed_take_bit_int_eq_self)
    have e: "interpolate source position = Some (word_of_int v)"
      using False assms by (simp add: interpolate_def Let_def audio_sizes a_def b_def v_def)
    have "between source (word_of_int v)"
      unfolding between_def s using bb mem by (cases "sint a \<le> sint b") (auto simp: min_def max_def)
    then show ?thesis by (simp add: e)
  qed
qed

definition all_between :: "i16 list \<Rightarrow> nat \<Rightarrow> nat \<Rightarrow> i16 list \<Rightarrow> bool" where
  "all_between source lo hi out \<longleftrightarrow> (\<forall>k. lo \<le> k \<and> k < hi \<longrightarrow> between source (out ! k))"

lemma resample_loop_between:
  assumes "length source = 267" "at + i + n \<le> length out" "all_between source at (at + i) out"
  shows "okp (resample_loop source step at i n position out)
    (\<lambda>o'. length o' = length out \<and> all_between source at (at + i + n) o' \<and> take at o' = take at out)"
  using assms
proof (induction n arbitrary: i position out)
  case (Suc n)
  obtain v where v: "interpolate source position = Some v" and b: "between source v"
    using okp_ex [OF interpolate_between [OF Suc.prems(1)]] by blast
  let ?o = "out[at + i := v]"
  have "all_between source at (at + (i + 1)) ?o"
    using Suc.prems b by (auto simp: all_between_def nth_list_update less_Suc_eq)
  then have "okp (resample_loop source step at (i + 1) n (position + step) ?o)
    (\<lambda>o'. length o' = length ?o \<and> all_between source at (at + (i + 1) + n) o' \<and> take at o' = take at ?o)"
    using Suc.IH [of "i + 1" ?o] Suc.prems by simp
  then show ?case
    using v Suc.prems by (auto simp: mem_set_def elim!: okp_mono)
qed simp

theorem resample_bounds:
  assumes "length source = 267" "2 \<le> unat n" "at + unat n \<le> length out"
  shows "okp (resample_block source at n out)
    (\<lambda>o'. length o' = length out \<and> all_between source at (at + unat n) o' \<and>
       o' ! (at + unat n - 1) = source ! 266)"
proof (cases "unat n = 267")
  case True
  then show ?thesis
    using assms by (auto simp: resample_block_def audio_sizes mem_slice_def mem_blit_def all_between_def nth_append
      intro!: between_member)
next
  case False
  have m: "unat (n - 1) = unat n - 1" using assms(2) by (simp add: unat_sub word_le_nat_alt)
  then have nz: "n - 1 \<noteq> 0" using assms(2) by (auto simp: word_unat_eq_iff)
  let ?step = "push_bit 8 (of_nat (267 - 1)) div (n - 1)"
  have l: "okp (resample_loop source ?step at 0 (unat n) 0 out)
    (\<lambda>o'. length o' = length out \<and> all_between source at (at + 0 + unat n) o' \<and> take at o' = take at out)"
    using assms by (intro resample_loop_between) (auto simp: all_between_def)
  then obtain o' where o: "resample_loop source ?step at 0 (unat n) 0 out = Some o'"
    and p: "length o' = length out" "all_between source at (at + unat n) o'"
    by (auto simp: okp_iff)
  have "resample_block source at n out = Some (o'[at + unat (n - 1) := source ! 266])"
    unfolding resample_block_def audio_sizes if_not_P [OF False] if_not_P [OF nz] Let_def o
    using p assms m by simp
  then show ?thesis
    using p assms m by (auto simp: all_between_def nth_list_update intro!: between_member)
qed

section \<open>Handles and the task\<close>

text \<open>Queue and semaphore exist together, from start to stop; without them no task runs; while no task
  runs the codec is muted.\<close>

definition handles_ok :: "audio \<Rightarrow> bool" where
  "handles_ok s \<longleftrightarrow> (au_task s \<longleftrightarrow> au_queue s \<noteq> None) \<and> (au_stopped s = None \<longleftrightarrow> au_queue s = None) \<and>
     (au_queue s = None \<longrightarrow> au_pc s = No_task \<and> au_app s = App_idle) \<and>
     (\<forall>b. au_stopped s = Some b \<longrightarrow> (b \<longleftrightarrow> au_pc s = No_task)) \<and>
     (au_pc s = Giving \<or> au_pc s = No_task \<longrightarrow> au_volume s = 0)"

text \<open>Once posted, the stop block is what a waiting task receives.\<close>

definition stop_ok :: "audio \<Rightarrow> bool" where
  "stop_ok s \<longleftrightarrow>
     (au_app s = Stop_resetting \<or> au_app s = Stop_posting \<or> au_app s = Stop_waiting \<longrightarrow> au_stop_requested s) \<and>
     (au_app s = Stop_posting \<longrightarrow> au_queue s = Some []) \<and>
     (au_app s = Stop_waiting \<longrightarrow> (\<forall>i n. au_pc s = Receiving i n \<longrightarrow> au_queue s = Some [stop_block]))"

definition good_block :: "audio_block \<Rightarrow> bool" where
  "good_block b \<longleftrightarrow> ab_stop b \<or> ab_output_count b = 267 \<and> length (ab_samples b) = 267"

definition queued :: "audio \<Rightarrow> audio_block list" where
  "queued s = (case au_queue s of None \<Rightarrow> [] | Some q \<Rightarrow> q)"

fun pending :: "audio_app \<Rightarrow> audio_block list" where
  "pending (Sending b) = [b]" | "pending (Retaking b) = [b]" | "pending (Resending b) = [b]"
| "pending _ = []"

text \<open>Sample lists among the blocks on their way.\<close>

definition sounds :: "audio_block list \<Rightarrow> i16 list list" where
  "sounds bs = map ab_samples (filter (\<lambda>b. \<not> ab_stop b) bs)"

lemma sounds_simps [simp]:
  "sounds [] = []" "sounds (b # bs) = (if ab_stop b then sounds bs else ab_samples b # sounds bs)"
  "sounds (bs @ cs) = sounds bs @ sounds cs"
  by (simp_all add: sounds_def)

text \<open>What the task holds in its buffer: the blocks received for the next write.\<close>

fun holds :: "audio_pc \<Rightarrow> i16 list \<Rightarrow> i16 list list \<Rightarrow> bool" where
  "holds (Receiving i n) out held \<longleftrightarrow> i < 2 \<and> length held = i \<and> unat n = 267 * i \<and> take (267 * i) out = concat held"
| "holds (Writing n) out held \<longleftrightarrow> length held = 2 \<and> unat n = 534 \<and> out = concat held"
| "holds Prebuffering out held \<longleftrightarrow> held = []"
| "holds Looping out held \<longleftrightarrow> held = []"
| "holds _ out held \<longleftrightarrow> length held \<le> 2"

text \<open>Every accepted block is heard, held, queued, pending or counted as dropped, in this order; what a
  stop throws away is neither.\<close>

definition blocks_order :: "audio \<Rightarrow> i16 list list \<Rightarrow> i16 list list \<Rightarrow> nat \<Rightarrow> bool" where
  "blocks_order s heard held lost \<longleftrightarrow>
     subseq (heard @ held @ sounds (queued s) @ sounds (pending (au_app s))) (au_accepted s) \<and>
     au_played s = concat heard \<and> au_dropped s = of_nat lost \<and> holds (au_pc s) (au_output s) held \<and>
     (\<not> au_stop_requested s \<longrightarrow>
        length (au_accepted s) = length heard + length held + length (queued s) + length (pending (au_app s)) + lost)"

definition blocks_ok :: "audio \<Rightarrow> bool" where
  "blocks_ok s \<longleftrightarrow> (\<forall>b\<in>set (queued s) \<union> set (pending (au_app s)). good_block b) \<and>
     (\<exists>heard held lost. blocks_order s heard held lost)"

text \<open>The counter of submitted blocks is exact; the rest needs it below \<open>2\<^sup>40\<close>, five centuries of sound.\<close>

definition audio_ok :: "audio \<Rightarrow> bool" where
  "audio_ok s \<longleftrightarrow> handles_ok s \<and> stop_ok s \<and> length (au_output s) = 534 \<and> length (queued s) \<le> 8 \<and>
     (\<not> au_stop_requested s \<longrightarrow> (\<forall>b\<in>set (queued s). \<not> ab_stop b)) \<and>
     (\<forall>b\<in>set (pending (au_app s)). \<not> ab_stop b) \<and>
     au_submitted s = of_nat (length (au_accepted s)) \<and> (length (au_accepted s) < 2 ^ 40 \<longrightarrow> blocks_ok s)"

lemmas audio_parts = handles_ok_def stop_ok_def queued_def

section \<open>Steps keep it\<close>

lemma boot_audio_ok: "audio_ok audio_boot"
  by (auto simp: audio_ok_def handles_ok_def stop_ok_def queued_def audio_boot_def blocks_ok_def blocks_order_def
      audio_sizes intro!: exI [of _ "[]"] exI [of _ "0 :: nat"])

lemma blocks_okI:
  assumes "\<forall>b\<in>set (queued s) \<union> set (pending (au_app s)). good_block b"
    and "blocks_order s heard held lost"
  shows "blocks_ok s"
  using assms unfolding blocks_ok_def by blast

lemma blocks_okE:
  assumes "blocks_ok s"
  obtains heard held lost where "blocks_order s heard held lost"
  using assms unfolding blocks_ok_def by blast

lemma no_stop_length: "\<forall>b\<in>set bs. \<not> ab_stop b \<Longrightarrow> length (sounds bs) = length bs"
  by (simp add: sounds_def)

lemma start_audio_ok:
  assumes "audio_ok s" "au_app s = App_idle"
  shows "audio_ok (snd (gb_audio_start v a s))"
proof (cases "au_task s \<or> au_queue s \<noteq> None \<or> \<not> aa_codec a")
  case True
  then show ?thesis using assms by (auto simp: gb_audio_start_def)
next
  case False
  then have h: "au_stopped s = None" "au_pc s = No_task" using assms by (auto simp: audio_ok_def handles_ok_def)
  let ?t = "snd (gb_audio_start v a s)"
  show ?thesis
  proof (cases "aa_queue a \<and> aa_stopped a")
    case False: False
    then have "?t = s" using \<open>\<not> (au_task s \<or> _)\<close> h by (simp add: gb_audio_start_def)
    then show ?thesis using assms by simp
  next
    case True
    have o: "blocks_order ?t [] [] 0"
      using False True h assms by (auto simp: gb_audio_start_def blocks_order_def Let_def queued_def)
    have "blocks_ok ?t"
      using o by (rule blocks_okI [rotated]) (use False True h assms in \<open>auto simp: gb_audio_start_def Let_def queued_def\<close>)
    then show ?thesis
      using False True h assms by (auto simp: gb_audio_start_def Let_def audio_ok_def audio_parts)
  qed
qed

lemma submit_audio_ok:
  assumes "audio_ok s" "au_app s = App_idle"
  shows "audio_ok (gb_audio_submit x s)"
proof (cases "x = None \<or> au_queue s = None \<or> length (the x) \<noteq> 267 \<or> au_failed s")
  case True
  then show ?thesis using assms by (auto simp: gb_audio_submit_def audio_sizes split: option.splits)
next
  case False
  then obtain sm where x: "x = Some sm" "length sm = 267" by auto
  let ?n = "au_submitted s + 1"
  let ?b = "\<lparr>ab_stop = False, ab_output_count = ucast (gb_audio_resampled_count ?n), ab_samples = sm\<rparr>"
  define t where "t = gb_audio_submit x s"
  have t: "t = s\<lparr>au_submitted := ?n, au_accepted := au_accepted s @ [sm], au_app := Sending ?b\<rparr>"
    using False x by (auto simp: t_def gb_audio_submit_def audio_sizes Let_def)
  have "blocks_ok t" if len: "length (au_accepted s) + 1 < 2 ^ 40"
  proof -
    have ok: "blocks_ok s" using assms len by (simp add: audio_ok_def)
    then obtain heard held lost where o: "blocks_order s heard held lost" by (rule blocks_okE)
    have "unat ?n = length (au_accepted s) + 1"
      using assms len by (simp add: audio_ok_def unat_word_ariths unsigned_of_nat take_bit_eq_mod)
    then have "unat (gb_audio_resampled_count ?n) = 267" using len by (intro resampled_count_eq) simp_all
    then have c: "ucast (gb_audio_resampled_count ?n) = (267 :: u16)"
      by (simp add: word_unat_eq_iff unsigned_ucast_eq take_bit_eq_mod)
    have "blocks_order t heard held lost"
      using o assms(2) unfolding t blocks_order_def queued_def 
      by simp (metis append.assoc list_emb_append_mono subseq_order.refl)
    then show ?thesis
      by (rule blocks_okI [rotated]) (use ok assms(2) x c in \<open>auto simp: t blocks_ok_def queued_def good_block_def\<close>)
  qed
  then show ?thesis
    using assms False unfolding t_def [symmetric] by (auto simp: audio_ok_def audio_parts t)
qed

lemma audio_ok_step:
  assumes "audio_ok s" "au_accepted t = au_accepted s" "au_submitted t = au_submitted s"
    and "handles_ok t" "stop_ok t" "length (au_output t) = 534" "length (queued t) \<le> 8"
    and "\<not> au_stop_requested t \<Longrightarrow> \<forall>b\<in>set (queued t). \<not> ab_stop b"
    and "\<forall>b\<in>set (pending (au_app t)). \<not> ab_stop b"
    and "blocks_ok s \<Longrightarrow> blocks_ok t"
  shows "audio_ok t"
  using assms unfolding audio_ok_def by simp

lemma audio_okD:
  assumes "audio_ok s"
  shows "handles_ok s" "stop_ok s" "length (au_output s) = 534" "length (queued s) \<le> 8"
    "\<not> au_stop_requested s \<Longrightarrow> \<forall>b\<in>set (queued s). \<not> ab_stop b"
    "\<forall>b\<in>set (pending (au_app s)). \<not> ab_stop b"
  using assms unfolding audio_ok_def by simp_all

text \<open>The three calls of a submission: each either moves the block on or puts it into the queue.\<close>

lemma enqueue_audio_ok:
  assumes ok: "audio_ok s" and app: "au_app s = Sending b \<or> au_app s = Resending b"
    and q: "au_queue s = Some q" "length q < 8"
  shows "audio_ok (s\<lparr>au_queue := Some (q @ [b]), au_app := App_idle\<rparr>)" (is "audio_ok ?t")
proof (rule audio_ok_step [OF ok])
  have pb: "\<not> ab_stop b" using audio_okD(6) [OF ok] app by auto
  show "handles_ok ?t" using audio_okD(1) [OF ok] q by (auto simp: handles_ok_def)
  show "blocks_ok ?t" if b: "blocks_ok s"
  proof -
    obtain heard held lost where o: "blocks_order s heard held lost" using b by (rule blocks_okE)
    have "blocks_order ?t heard held lost"
      using o app q pb by (auto simp: blocks_order_def queued_def)
    then show ?thesis
      by (rule blocks_okI [rotated]) (use b app q in \<open>auto simp: blocks_ok_def queued_def\<close>)
  qed
qed (use ok app q in \<open>auto simp: audio_ok_def stop_ok_def queued_def\<close>)

lemma retake_audio_ok:
  assumes ok: "audio_ok s" and app: "au_app s = Retaking b" and q: "au_queue s = Some (stale # q)"
  shows "audio_ok (s\<lparr>au_queue := Some q, au_dropped := au_dropped s + 1, au_app := Resending b\<rparr>)" (is "audio_ok ?t")
proof (rule audio_ok_step [OF ok])
  have pb: "\<not> ab_stop b" using audio_okD(6) [OF ok] app by auto
  show "handles_ok ?t" using audio_okD(1) [OF ok] q by (auto simp: handles_ok_def)
  show "blocks_ok ?t" if b: "blocks_ok s"
  proof -
    obtain heard held lost where o: "blocks_order s heard held lost" using b by (rule blocks_okE)
    have "subseq (heard @ held @ sounds q @ [ab_samples b]) (heard @ held @ sounds (stale # q) @ [ab_samples b])"
      by (auto intro!: list_emb_append_mono)
    then have "subseq (heard @ held @ sounds q @ [ab_samples b]) (au_accepted s)"
      using o app q pb by (auto simp: blocks_order_def queued_def  intro: subseq_order.trans)
    then have "blocks_order ?t heard held (Suc lost)"
      using o app q pb by (auto simp: blocks_order_def queued_def )
    then show ?thesis
      by (rule blocks_okI [rotated]) (use b app q in \<open>auto simp: blocks_ok_def queued_def\<close>)
  qed
qed (use ok app q in \<open>auto simp: audio_ok_def stop_ok_def queued_def\<close>)

lemma give_up_audio_ok:
  assumes ok: "audio_ok s" and app: "au_app s = Resending b"
  shows "audio_ok (s\<lparr>au_dropped := au_dropped s + 1, au_app := App_idle\<rparr>)" (is "audio_ok ?t")
proof (rule audio_ok_step [OF ok])
  have pb: "\<not> ab_stop b" using audio_okD(6) [OF ok] app by auto
  show "handles_ok ?t" using audio_okD(1) [OF ok] by (auto simp: handles_ok_def)
  show "blocks_ok ?t" if b: "blocks_ok s"
  proof -
    obtain heard held lost where o: "blocks_order s heard held lost" using b by (rule blocks_okE)
    have "subseq (heard @ held @ sounds (queued s)) ((heard @ held @ sounds (queued s)) @ [ab_samples b])"
      by (rule subseq_rev_drop_many) simp
    then have "subseq (heard @ held @ sounds (queued s)) (au_accepted s)"
      using o app pb by (auto simp: blocks_order_def  intro: subseq_order.trans)
    then have "blocks_order ?t heard held (Suc lost)"
      using o app by (auto simp: blocks_order_def queued_def)
    then show ?thesis
      by (rule blocks_okI [rotated]) (use b in \<open>auto simp: blocks_ok_def queued_def\<close>)
  qed
qed (use ok app in \<open>auto simp: audio_ok_def stop_ok_def queued_def\<close>)

text \<open>Steps that only move the application, or throw the queue away once a stop is requested.\<close>

lemma subseq_drop_queue:
  assumes "subseq (heard @ held @ sounds q @ sounds p) acc"
  shows "subseq (heard @ held) acc" "subseq (heard @ held @ sounds p) acc"
proof -
  have "subseq (heard @ held) (heard @ held @ sounds q @ sounds p)"
    "subseq (heard @ held @ sounds p) (heard @ held @ sounds q @ sounds p)"
    by (auto intro!: list_emb_append_mono)
  then show "subseq (heard @ held) acc" "subseq (heard @ held @ sounds p) acc"
    using assms by (auto intro: subseq_order.trans)
qed

lemma blocks_order_same:
  assumes "blocks_order s heard held lost" "sounds (queued t) = sounds (queued s)" "length (queued t) = length (queued s)"
    "pending (au_app t) = pending (au_app s)" "au_accepted t = au_accepted s" "au_played t = au_played s"
    "au_dropped t = au_dropped s" "holds (au_pc t) (au_output t) held"
    "\<not> au_stop_requested t \<Longrightarrow> \<not> au_stop_requested s"
  shows "blocks_order t heard held lost"
  using assms unfolding blocks_order_def by simp

lemma moved_blocks_ok:
  assumes b: "blocks_ok s" and same: "queued t = queued s" "pending (au_app t) = pending (au_app s)"
      "au_accepted t = au_accepted s" "au_played t = au_played s" "au_dropped t = au_dropped s"
      "au_pc t = au_pc s" "au_output t = au_output s"
    and stop: "\<not> au_stop_requested t \<Longrightarrow> \<not> au_stop_requested s"
  shows "blocks_ok t"
proof -
  obtain heard held lost where o: "blocks_order s heard held lost" using b by (rule blocks_okE)
  have "blocks_order t heard held lost"
    by (rule blocks_order_same [OF o]) (use o same stop in \<open>auto simp: blocks_order_def\<close>)
  then show ?thesis by (rule blocks_okI [rotated]) (use b same in \<open>simp add: blocks_ok_def\<close>)
qed

lemma flushed_blocks_ok:
  assumes b: "blocks_ok s" and stop: "au_stop_requested t" and p: "pending (au_app s) = []" "pending (au_app t) = []"
    and q: "queued t = [] \<or> queued t = [stop_block]"
    and same: "au_accepted t = au_accepted s" "au_played t = au_played s" "au_dropped t = au_dropped s"
      "au_pc t = au_pc s" "au_output t = au_output s"
  shows "blocks_ok t"
proof -
  obtain heard held lost where o: "blocks_order s heard held lost" using b by (rule blocks_okE)
  have s: "sounds (queued t) = []" using q by (auto simp: stop_block_def)
  have "blocks_order t heard held lost"
    using o s stop p same subseq_drop_queue(1) [of heard held "queued s" "pending (au_app s)"]
    by (simp add: blocks_order_def)
  then show ?thesis
    by (rule blocks_okI [rotated]) (use q p in \<open>auto simp: good_block_def stop_block_def\<close>)
qed

lemma stop_steps_audio_ok:
  assumes ok: "audio_ok s"
  shows "au_app s = App_idle \<Longrightarrow> audio_ok (gb_audio_stop s)"
    and "au_app s = Stop_resetting \<Longrightarrow> stop_reset s = Some t \<Longrightarrow> audio_ok t"
    and "au_app s = Stop_posting \<Longrightarrow> stop_post s = Some t \<Longrightarrow> audio_ok t"
    and "au_app s = Stop_waiting \<Longrightarrow> au_stopped s = Some True \<Longrightarrow> audio_ok (stop_finish s)"
    and "au_app s = Stop_waiting \<Longrightarrow> audio_ok (s\<lparr>au_app := App_idle\<rparr>)"
proof -
  note h = audio_okD(1) [OF ok] and st = audio_okD(2) [OF ok]
  show "audio_ok (gb_audio_stop s)" if a: "au_app s = App_idle"
  proof (cases "au_queue s = None")
    case False
    then have g: "gb_audio_stop s = s\<lparr>au_stop_requested := True, au_app := Stop_resetting\<rparr>" by (auto simp: gb_audio_stop_def)
    show ?thesis unfolding g
    proof (rule audio_ok_step [OF ok])
      show "blocks_ok (s\<lparr>au_stop_requested := True, au_app := Stop_resetting\<rparr>)" if "blocks_ok s"
        by (rule moved_blocks_ok [OF that]) (use a in \<open>simp_all add: queued_def\<close>)
    qed (use ok a False in \<open>auto simp: audio_ok_def audio_parts\<close>)
  qed (use ok in \<open>simp add: gb_audio_stop_def\<close>)
  show "audio_ok t" if a: "au_app s = Stop_resetting" and t: "stop_reset s = Some t"
  proof -
    from t obtain q where q: "au_queue s = Some q" and tt: "t = s\<lparr>au_queue := Some [], au_app := Stop_posting\<rparr>"
      by (auto simp: stop_reset_def bind_eq_Some_conv)
    show ?thesis
    proof (rule audio_ok_step [OF ok])
      show "blocks_ok t" if "blocks_ok s"
        by (rule flushed_blocks_ok [OF that]) (use a st tt in \<open>auto simp: stop_ok_def queued_def\<close>)
    qed (use ok a q tt in \<open>auto simp: audio_ok_def audio_parts\<close>)
  qed
  show "audio_ok t" if a: "au_app s = Stop_posting" and t: "stop_post s = Some t"
  proof -
    have q: "au_queue s = Some []" using a st by (simp add: stop_ok_def)
    then have tt: "t = s\<lparr>au_queue := Some [stop_block], au_app := Stop_waiting\<rparr>" using t by (simp add: stop_post_def)
    show ?thesis
    proof (rule audio_ok_step [OF ok])
      show "blocks_ok t" if "blocks_ok s"
        by (rule flushed_blocks_ok [OF that]) (use a st tt in \<open>auto simp: stop_ok_def queued_def\<close>)
    qed (use ok a q tt in \<open>auto simp: audio_ok_def audio_parts\<close>)
  qed
  show "audio_ok (stop_finish s)" if a: "au_app s = Stop_waiting" and g: "au_stopped s = Some True"
  proof (rule audio_ok_step [OF ok])
    show "blocks_ok (stop_finish s)" if "blocks_ok s"
      by (rule flushed_blocks_ok [OF that]) (use a st in \<open>auto simp: stop_finish_def stop_ok_def queued_def\<close>)
  qed (use ok a g in \<open>auto simp: audio_ok_def audio_parts stop_finish_def\<close>)
  show "audio_ok (s\<lparr>au_app := App_idle\<rparr>)" if a: "au_app s = Stop_waiting"
  proof (rule audio_ok_step [OF ok])
    show "blocks_ok (s\<lparr>au_app := App_idle\<rparr>)" if "blocks_ok s"
      by (rule moved_blocks_ok [OF that]) (use a in \<open>simp_all add: queued_def\<close>)
  qed (use ok a in \<open>auto simp: audio_ok_def audio_parts\<close>)
qed

lemma app_next_audio_ok:
  assumes ok: "audio_ok s" and en: "audio_enabled Do_next s" and t: "app_next s = Some t"
  shows "audio_ok t"
proof (cases "au_app s")
  case (Sending b)
  with t obtain q where q: "au_queue s = Some q"
    and tt: "t = (if length q < 8 then s\<lparr>au_queue := Some (q @ [b]), au_app := App_idle\<rparr> else s\<lparr>au_app := Retaking b\<rparr>)"
    by (auto simp: app_next_def submit_send_def bind_eq_Some_conv)
  show ?thesis
  proof (cases "length q < 8")
    case True
    then show ?thesis using enqueue_audio_ok [OF ok _ q] Sending tt by simp
  next
    case False
    have "audio_ok (s\<lparr>au_app := Retaking b\<rparr>)"
    proof (rule audio_ok_step [OF ok])
      show "blocks_ok (s\<lparr>au_app := Retaking b\<rparr>)" if "blocks_ok s"
        by (rule moved_blocks_ok [OF that]) (use Sending in \<open>simp_all add: queued_def\<close>)
    qed (use ok Sending q in \<open>auto simp: audio_ok_def audio_parts\<close>)
    then show ?thesis using False tt by simp
  qed
next
  case (Retaking b)
  with t obtain q where q: "au_queue s = Some q" by (auto simp: app_next_def submit_retake_def bind_eq_Some_conv)
  show ?thesis
  proof (cases q)
    case Nil
    have "audio_ok (s\<lparr>au_app := Resending b\<rparr>)"
    proof (rule audio_ok_step [OF ok])
      show "blocks_ok (s\<lparr>au_app := Resending b\<rparr>)" if "blocks_ok s"
        by (rule moved_blocks_ok [OF that]) (use Retaking in \<open>simp_all add: queued_def\<close>)
    qed (use ok Retaking q in \<open>auto simp: audio_ok_def audio_parts\<close>)
    then show ?thesis using Nil t q Retaking by (simp add: app_next_def submit_retake_def)
  next
    case (Cons stale r)
    then show ?thesis
      using retake_audio_ok [OF ok Retaking] q t Retaking by (simp add: app_next_def submit_retake_def)
  qed
next
  case (Resending b)
  with t obtain q where q: "au_queue s = Some q"
    and tt: "t = (if length q < 8 then s\<lparr>au_queue := Some (q @ [b]), au_app := App_idle\<rparr>
                  else s\<lparr>au_dropped := au_dropped s + 1, au_app := App_idle\<rparr>)"
    by (auto simp: app_next_def submit_resend_def bind_eq_Some_conv)
  show ?thesis
    using enqueue_audio_ok [OF ok _ q] give_up_audio_ok [OF ok Resending] Resending tt by (simp split: if_splits)
qed (use stop_steps_audio_ok [OF ok] en t in \<open>simp_all add: app_next_def\<close>)

section \<open>The task's steps\<close>

lemma resample_loop_length:
  "resample_loop source step at i n position out = Some o' \<Longrightarrow> length o' = length out"
  by (induction n arbitrary: i position out) (auto simp: bind_eq_Some_conv dest: mem_set_length)

lemma resample_length: "resample_block source at n out = Some o' \<Longrightarrow> length o' = length out"
  by (auto simp: resample_block_def bind_eq_Some_conv Let_def mem_blit_def
      dest!: resample_loop_length mem_set_length split: if_splits)

text \<open>Steps of the task that leave queue and buffer alone.\<close>

lemma task_moves:
  assumes ok: "audio_ok s" and pc: "au_pc s \<noteq> No_task"
    and same: "au_queue t = au_queue s" "au_accepted t = au_accepted s" "au_submitted t = au_submitted s"
      "au_output t = au_output s" "au_task t = au_task s" "au_app t = au_app s" "au_stop_requested t = au_stop_requested s"
      "au_played t = au_played s" "au_dropped t = au_dropped s"
    and stopped: "\<forall>b. au_stopped t = Some b \<longrightarrow> (b \<longleftrightarrow> au_pc t = No_task)" "au_stopped t = None \<longleftrightarrow> au_stopped s = None"
    and volume: "au_pc t = Giving \<or> au_pc t = No_task \<longrightarrow> au_volume t = 0"
    and receiving: "\<And>i n. au_pc t = Receiving i n \<Longrightarrow> \<not> au_stop_requested s"
    and held: "\<And>held. holds (au_pc s) (au_output s) held \<Longrightarrow> holds (au_pc t) (au_output s) held"
  shows "audio_ok t"
proof (rule audio_ok_step [OF ok])
  have q: "queued t = queued s" by (simp add: queued_def same)
  have qn: "au_queue s \<noteq> None" using audio_okD(1) [OF ok] pc by (auto simp: handles_ok_def)
  show "handles_ok t" using audio_okD(1) [OF ok] qn stopped volume same by (auto simp: handles_ok_def)
  show "stop_ok t" using audio_okD(2) [OF ok] same receiving by (auto simp: stop_ok_def)
  show "blocks_ok t" if b: "blocks_ok s"
    using b held unfolding blocks_ok_def blocks_order_def q same by blast
qed (use ok same in \<open>auto simp: audio_ok_def queued_def\<close>)

end
