(* ===== verification/Gb_Audio_Task.thy ===== *)
theory Gb_Audio_Task
  imports Gb_Audio_Plays
begin

text \<open>The steps of the audio task keep the invariant, never fail, and end once a stop was posted.\<close>

section \<open>Receiving and writing\<close>

lemma take_append_block:
  "length out = 534 \<Longrightarrow> i < 2 \<Longrightarrow> length sm = 267 \<Longrightarrow>
   take (267 * Suc i) (take (267 * i) out @ sm @ drop (267 * i + 267) out) = take (267 * i) out @ sm"
  by (cases i) (auto simp: numeral_2_eq_2 less_Suc_eq)

text \<open>What one receive does with a block of samples.\<close>

lemma receive_block:
  assumes ok: "audio_ok s" and b: "blocks_ok s" and pc: "au_pc s = Receiving i n"
    and q: "au_queue s = Some (block # q)" and plain: "\<not> ab_stop block"
  shows "okp (task_receive w i n s) blocks_ok"
proof -
  obtain heard held lost where o: "blocks_order s heard held lost" using b by (rule blocks_okE)
  have g: "ab_output_count block = 267" "length (ab_samples block) = 267"
    using b q plain by (auto simp: blocks_ok_def queued_def good_block_def)
  have h: "i < 2" "length held = i" "unat n = 267 * i" "take (267 * i) (au_output s) = concat held"
    using o pc by (simp_all add: blocks_order_def)
  have len: "length (au_output s) = 534" by (rule audio_okD(3) [OF ok])
  let ?out = "take (267 * i) (au_output s) @ ab_samples block @ drop (267 * i + 267) (au_output s)"
  have r: "resample_block (ab_samples block) (unat n) (ucast (ab_output_count block)) (au_output s) = Some ?out"
    using h g len by (simp add: resample_copy unsigned_ucast_eq)
  have m: "unat (n + ucast (ab_output_count block)) = 267 * Suc i"
    using h(1,3) g(1) by (auto simp: unat_word_ariths take_bit_eq_mod less_2_cases_iff)
  define t where "t = s\<lparr>au_queue := Some q, au_output := ?out,
                    au_waits := (if 5000 < w then au_waits s + 1 else au_waits s),
                    au_max_wait := (if au_max_wait s < w then w else au_max_wait s),
                    au_pc := (if i + 1 < 2 then Receiving (i + 1) (n + ucast (ab_output_count block))
                              else Writing (n + ucast (ab_output_count block)))\<rparr>"
  have hold: "holds (au_pc t) (au_output t) (held @ [ab_samples block])"
  proof (cases "i = 0")
    case True
    then show ?thesis using h m g len take_append_block [of "au_output s" i "ab_samples block"] by (simp add: t_def)
  next
    case False
    then have "i = 1" using h(1) by simp
    then show ?thesis using h m g len by (simp add: t_def)
  qed
  have "blocks_order t heard (held @ [ab_samples block]) lost"
    using o hold q plain unfolding blocks_order_def by (simp add: t_def queued_def)
  then have "blocks_ok t"
    by (rule blocks_okI [rotated]) (use b q in \<open>auto simp: blocks_ok_def t_def queued_def\<close>)
  moreover have "task_receive w i n s = Some t"
    unfolding task_receive_def q using plain r by (simp add: t_def Let_def)
  ultimately show ?thesis by simp
qed

lemma receive_audio_ok:
  assumes ok: "audio_ok s" and pc: "au_pc s = Receiving i n" and t: "task_receive w i n s = Some t"
    and q: "au_queue s = Some (block # q)"
  shows "audio_ok t"
proof (cases "ab_stop block")
  case True
  then have tt: "t = s\<lparr>au_queue := Some q, au_pc := Ending\<rparr>" using t q by (simp add: task_receive_def)
  have sr: "au_stop_requested s" using audio_okD(5) [OF ok] True q by (auto simp: queued_def)
  show ?thesis
  proof (rule audio_ok_step [OF ok])
    show "blocks_ok t" if b: "blocks_ok s"
    proof -
      obtain heard held lost where o: "blocks_order s heard held lost" using b by (rule blocks_okE)
      have "blocks_order t heard held lost" using o q pc sr True by (simp add: blocks_order_def tt queued_def)
      then show ?thesis by (rule blocks_okI [rotated]) (use b q in \<open>auto simp: blocks_ok_def tt queued_def\<close>)
    qed
  qed (use ok pc q tt sr in \<open>auto simp: audio_ok_def audio_parts\<close>)
next
  case False
  obtain out where r: "resample_block (ab_samples block) (unat n) (ucast (ab_output_count block)) (au_output s) = Some out"
    and q': "au_queue t = Some q" and out: "au_output t = out"
    and same: "au_accepted t = au_accepted s" "au_submitted t = au_submitted s" "au_task t = au_task s"
      "au_stopped t = au_stopped s" "au_app t = au_app s" "au_stop_requested t = au_stop_requested s"
    and pt: "au_pc t \<noteq> No_task" "au_pc t \<noteq> Giving"
    using t q False by (auto simp: task_receive_def bind_eq_Some_conv Let_def split: if_splits)
  have nw: "au_app s \<noteq> Stop_waiting" "au_app s \<noteq> Stop_posting"
    using audio_okD(2) [OF ok] pc q False by (auto simp: stop_ok_def stop_block_def)
  show ?thesis
  proof (rule audio_ok_step [OF ok same(1,2)])
    show "handles_ok t" using audio_okD(1) [OF ok] same pt q q' pc by (auto simp: handles_ok_def)
    show "stop_ok t" using audio_okD(2) [OF ok] nw same by (auto simp: stop_ok_def)
    show "length (au_output t) = 534" using audio_okD(3) [OF ok] resample_length [OF r] out by simp
    show "length (queued t) \<le> 8" using audio_okD(4) [OF ok] q q' by (simp add: queued_def)
    show "\<forall>b\<in>set (queued t). \<not> ab_stop b" if "\<not> au_stop_requested t"
      using audio_okD(5) [OF ok] that same q q' by (simp add: queued_def)
    show "\<forall>b\<in>set (pending (au_app t)). \<not> ab_stop b" using audio_okD(6) [OF ok] same by simp
    show "blocks_ok t" if "blocks_ok s"
      using receive_block [OF ok that pc q False, of w] t by simp
  qed
qed

lemma write_audio_ok:
  assumes ok: "audio_ok s" and pc: "au_pc s = Writing n" and t: "task_write k n s = Some t"
  shows "audio_ok t"
proof (cases k)
  case False
  then have tt: "t = s\<lparr>au_failed := True, au_pc := Ending\<rparr>" using t by (auto simp: task_write_def bind_eq_Some_conv)
  show ?thesis
    by (rule task_moves [OF ok]) (use pc audio_okD(1) [OF ok] tt in \<open>auto simp: handles_ok_def\<close>)
next
  case True
  then obtain sm where sm: "mem_slice (au_output s) 0 (unat n) = Some sm"
    and tt: "t = s\<lparr>au_played := au_played s @ sm, au_output_samples := au_output_samples s + n, au_pc := Looping\<rparr>"
    using t by (auto simp: task_write_def bind_eq_Some_conv)
  show ?thesis
  proof (rule audio_ok_step [OF ok])
    show "blocks_ok t" if b: "blocks_ok s"
    proof -
      obtain heard held lost where o: "blocks_order s heard held lost" using b by (rule blocks_okE)
      have "sm = concat held"
        using o pc sm audio_okD(3) [OF ok] by (auto simp: blocks_order_def mem_slice_def)
      then have "blocks_order t (heard @ held) [] lost"
        using o pc by (auto simp: blocks_order_def tt queued_def)
      then show ?thesis by (rule blocks_okI [rotated]) (use b in \<open>auto simp: blocks_ok_def tt queued_def\<close>)
    qed
  qed (use ok pc tt in \<open>auto simp: audio_ok_def audio_parts\<close>)
qed

lemma task_audio_ok:
  assumes ok: "audio_ok s" and en: "audio_enabled (Do_task w k) s" and t: "task_next w k s = Some t"
  shows "audio_ok t"
proof (cases "au_pc s")
  case (Receiving i n)
  then obtain block q where q: "au_queue s = Some (block # q)"
    using en audio_okD(1) [OF ok] by (cases "au_queue s"; cases "the (au_queue s)") (auto simp: handles_ok_def)
  show ?thesis using receive_audio_ok [OF ok Receiving _ q] t Receiving by (simp add: task_next_def)
next
  case (Writing n)
  then show ?thesis using write_audio_ok [OF ok] t by (simp add: task_next_def)
next
  case Prebuffering
  then have tt: "t = s \<or> t = s\<lparr>au_pc := Looping\<rparr>"
    using t by (auto simp: task_next_def bind_eq_Some_conv)
  show ?thesis
    by (rule task_moves [OF ok]) (use Prebuffering audio_okD(1) [OF ok] tt in \<open>auto simp: handles_ok_def\<close>)
next
  case Looping
  then have tt: "t = s\<lparr>au_pc := (if au_stop_requested s then Ending else Receiving 0 0)\<rparr>" using t by (simp add: task_next_def)
  show ?thesis
    by (rule task_moves [OF ok])
      (use Looping audio_okD(1) [OF ok] tt in \<open>auto simp: handles_ok_def split: if_splits\<close>)
next
  case Ending
  then have tt: "t = s\<lparr>au_volume := 0, au_pc := Giving\<rparr>" using t by (simp add: task_next_def)
  show ?thesis
    by (rule task_moves [OF ok]) (use Ending audio_okD(1) [OF ok] tt in \<open>auto simp: handles_ok_def\<close>)
next
  case Giving
  then obtain b where tt: "t = s\<lparr>au_stopped := Some True, au_pc := No_task\<rparr>" "au_stopped s = Some b"
    using t by (auto simp: task_next_def bind_eq_Some_conv)
  show ?thesis
    by (rule task_moves [OF ok]) (use Giving audio_okD(1) [OF ok] tt in \<open>auto simp: handles_ok_def\<close>)
qed (use ok t in \<open>simp add: task_next_def\<close>)

theorem audio_act_ok:
  assumes "audio_ok s" "audio_enabled a s" "audio_act a s = Some t"
  shows "audio_ok t"
proof (cases a)
  case (Do_start v x)
  then show ?thesis using assms start_audio_ok by auto
next
  case (Do_submit x)
  then show ?thesis using assms submit_audio_ok by auto
next
  case Do_stop
  then show ?thesis using assms stop_steps_audio_ok(1) by auto
next
  case Do_next
  then show ?thesis using assms app_next_audio_ok by auto
next
  case Do_time_out
  then show ?thesis using assms stop_steps_audio_ok(5) by auto
next
  case (Do_task w k)
  then show ?thesis using assms task_audio_ok by auto
qed

lemma audio_reach_ok: "audio_reach s \<Longrightarrow> audio_ok s"
  by (induction rule: audio_reach.induct) (auto intro: boot_audio_ok audio_act_ok)

section \<open>No step fails\<close>

lemma task_returns:
  assumes ok: "audio_ok s" and len: "length (au_accepted s) < 2 ^ 40" and en: "audio_enabled (Do_task w k) s"
  shows "\<exists>t. task_next w k s = Some t"
proof -
  have b: "blocks_ok s" using ok len by (simp add: audio_ok_def)
  have h: "au_queue s \<noteq> None" "au_stopped s \<noteq> None" using audio_okD(1) [OF ok] en by (auto simp: handles_ok_def)
  show ?thesis
  proof (cases "au_pc s")
    case (Receiving i n)
    then obtain block q where q: "au_queue s = Some (block # q)"
      using en h by (cases "au_queue s"; cases "the (au_queue s)") auto
    show ?thesis
    proof (cases "ab_stop block")
      case True
      then show ?thesis using Receiving q by (simp add: task_next_def task_receive_def)
    next
      case False
      then show ?thesis
        using okp_ex [OF receive_block [OF ok b Receiving q False, of w]] Receiving by (auto simp: task_next_def)
    qed
  next
    case (Writing n)
    obtain heard held lost where "blocks_order s heard held lost" using b by (rule blocks_okE)
    then have "unat n = 534" using Writing by (simp add: blocks_order_def)
    then show ?thesis using Writing audio_okD(3) [OF ok] by (simp add: task_next_def task_write_def mem_slice_def)
  qed (use h in \<open>auto simp: task_next_def\<close>)
qed

theorem audio_steps_return:
  assumes "audio_reach s" "length (au_accepted s) < 2 ^ 40" "audio_enabled a s"
  shows "\<exists>t. audio_act a s = Some t"
proof -
  have ok: "audio_ok s" using assms(1) by (rule audio_reach_ok)
  show ?thesis
  proof (cases a)
    case Do_next
    then have "au_queue s \<noteq> None" using audio_okD(1) [OF ok] assms(3) by (auto simp: handles_ok_def)
    then show ?thesis
      using Do_next by (auto simp: app_next_def submit_send_def submit_retake_def submit_resend_def stop_reset_def stop_post_def
          split: audio_app.splits)
  qed (use task_returns [OF ok assms(2)] assms(3) in auto)
qed

section \<open>The end of the task\<close>

fun steps_left :: "audio_pc \<Rightarrow> nat" where
  "steps_left No_task = 0" | "steps_left Giving = 1" | "steps_left Ending = 2" | "steps_left Looping = 3"
| "steps_left (Receiving i n) = 3" | "steps_left Prebuffering = 4" | "steps_left (Writing n) = 4"

lemma stopping_step:
  assumes ok: "audio_ok s" and app: "au_app s = Stop_waiting" and t: "task_next w k s = Some t" and pc: "au_pc s \<noteq> No_task"
  shows "au_app t = Stop_waiting" "steps_left (au_pc t) < steps_left (au_pc s)" "au_accepted t = au_accepted s"
proof -
  have sr: "au_stop_requested s" "\<forall>i n. au_pc s = Receiving i n \<longrightarrow> au_queue s = Some [stop_block]"
    using audio_okD(2) [OF ok] app by (auto simp: stop_ok_def)
  show "au_app t = Stop_waiting" "steps_left (au_pc t) < steps_left (au_pc s)" "au_accepted t = au_accepted s"
    using t pc sr app
    by (auto simp: task_next_def task_receive_def task_write_def bind_eq_Some_conv stop_block_def split: audio_pc.splits if_splits)
qed

lemma stopping_enabled:
  assumes ok: "audio_ok s" and app: "au_app s = Stop_waiting" and pc: "au_pc s \<noteq> No_task"
  shows "audio_enabled (Do_task w k) s"
  using audio_okD(2) [OF ok] app pc by (auto simp: stop_ok_def split: audio_pc.splits)

lemma stopping_run:
  assumes "audio_ok s" "au_app s = Stop_waiting" "length (au_accepted s) < 2 ^ 40"
    and "steps_left (au_pc s) \<le> length answers"
  shows "\<exists>n t. n \<le> steps_left (au_pc s) \<and> audio_run (map (\<lambda>(w, k). Do_task w k) (take n answers)) s = Some t \<and>
    audio_ok t \<and> au_app t = Stop_waiting \<and> au_pc t = No_task"
  using assms
proof (induction answers arbitrary: s)
  case Nil
  then have "au_pc s = No_task" by (cases "au_pc s") auto
  then show ?case using Nil.prems by (intro exI [of _ 0] exI [of _ s]) simp
next
  case (Cons wk answers)
  obtain w k where wk: "wk = (w, k)" by (cases wk)
  show ?case
  proof (cases "au_pc s = No_task")
    case True
    then show ?thesis using Cons.prems by (intro exI [of _ 0] exI [of _ s]) simp
  next
    case False
    note en = stopping_enabled [OF Cons.prems(1,2) False, of w k]
    obtain t where t: "task_next w k s = Some t" using task_returns [OF Cons.prems(1,3) en] by blast
    note st = stopping_step [OF Cons.prems(1,2) t False]
    obtain n u where n: "n \<le> steps_left (au_pc t)"
      and r: "audio_run (map (\<lambda>(w, k). Do_task w k) (take n answers)) t = Some u"
      and u: "audio_ok u" "au_app u = Stop_waiting" "au_pc u = No_task"
      using Cons.IH [of t] task_audio_ok [OF Cons.prems(1) en t] st Cons.prems(3,4) by auto
    have "audio_run (map (\<lambda>(w, k). Do_task w k) (take (Suc n) (wk # answers))) s = Some u"
      using en t r wk by simp
    moreover have "Suc n \<le> steps_left (au_pc s)" using n st(2) by simp
    ultimately show ?thesis using u by blast
  qed
qed

lemma steps_left_bound: "steps_left pc \<le> 4"
  by (cases pc) simp_all

section \<open>What was heard\<close>

lemma heard_blocks:
  assumes "audio_reach s" "length (au_accepted s) < 2 ^ 32"
  shows "\<exists>heard. subseq heard (au_accepted s) \<and> au_played s = concat heard \<and>
    (\<not> au_stop_requested s \<longrightarrow> length (au_accepted s) \<le> length heard + unat (au_dropped s) + 11 \<and>
       (au_dropped s = 0 \<longrightarrow> prefix heard (au_accepted s)))"
proof -
  have ok: "audio_ok s" using assms(1) by (rule audio_reach_ok)
  then have "blocks_ok s" using assms(2) by (simp add: audio_ok_def)
  then obtain heard held lost where o: "blocks_order s heard held lost" by (rule blocks_okE)
  let ?rest = "held @ sounds (queued s) @ sounds (pending (au_app s))"
  have sub: "subseq (heard @ ?rest) (au_accepted s)" using o by (simp add: blocks_order_def)
  have "subseq heard (heard @ ?rest)" by (rule subseq_rev_drop_many) simp
  then have h: "subseq heard (au_accepted s)" using sub by (rule subseq_order.trans)
  have "length (au_accepted s) \<le> length heard + unat (au_dropped s) + 11 \<and>
       (au_dropped s = 0 \<longrightarrow> prefix heard (au_accepted s))" if run: "\<not> au_stop_requested s"
  proof -
    have len: "length (au_accepted s) = length heard + length held + length (queued s) + length (pending (au_app s)) + lost"
      using o run by (simp add: blocks_order_def)
    then have lost: "unat (au_dropped s) = lost"
      using o assms(2) by (simp add: blocks_order_def unsigned_of_nat take_bit_eq_mod)
    have held: "length held \<le> 2" using o by (cases "au_pc s") (auto simp: blocks_order_def)
    have pend: "length (pending (au_app s)) \<le> 1" by (cases "au_app s") simp_all
    have all: "length (heard @ ?rest) + lost = length (au_accepted s)"
      using len audio_okD(5,6) [OF ok] run by (simp add: no_stop_length)
    have "prefix heard (au_accepted s)" if "au_dropped s = 0"
    proof -
      have "length (heard @ ?rest) = length (au_accepted s)" using all lost that by simp
      then have "heard @ ?rest = au_accepted s" using sub by (rule subseq_same_length [rotated])
      then show ?thesis by (metis prefixI)
    qed
    then show ?thesis using len lost held pend audio_okD(4) [OF ok] by simp
  qed
  then show ?thesis using h o by (auto simp: blocks_order_def)
qed

end
