(* ===== verification/Audio_Properties.thy ===== *)
theory Audio_Properties
  imports Gb_Audio_Task
begin

text \<open>The properties of the audio task, and their witnesses.\<close>

section \<open>What is heard\<close>

text \<open>C27.  Whatever the interleaving of application and task, up to \<open>2\<^sup>32\<close> blocks: what the codec has played is
  the samples of some of the submitted blocks, whole and in order of submission.  While no stop is
  requested, it lags behind by at most eleven blocks and those counted as dropped, and if none was dropped
  it is exactly the first of the submitted blocks.\<close>

theorem audio_plays_in_order:
  assumes "audio_reach s" and "length (au_accepted s) < 2 ^ 32"
  shows "\<exists>heard. subseq heard (au_accepted s) \<and> au_played s = concat heard \<and>
    (\<not> au_stop_requested s \<longrightarrow> length (au_accepted s) \<le> length heard + unat (au_dropped s) + 11 \<and>
       (au_dropped s = 0 \<longrightarrow> prefix heard (au_accepted s)))"
  using assms by (rule heard_blocks)

text \<open>A session: the start, the four blocks the task waits for, and its first write.\<close>

definition all_starts :: audio_answers where
  "all_starts = \<lparr>aa_codec = True, aa_queue = True, aa_stopped = True, aa_task = True\<rparr>"

definition four_blocks :: "audio_action list" where
  "four_blocks = Do_start 60 all_starts #
     concat (map (\<lambda>k. [Do_submit (Some (replicate 267 (of_nat k))), Do_next]) [1..<5])"

definition first_write :: "audio_action list" where
  "first_write = replicate 5 (Do_task 0 True)"

lemma first_write_run:
  "case audio_run (four_blocks @ first_write) audio_boot of None \<Rightarrow> False
   | Some s \<Rightarrow> au_accepted s = map (\<lambda>k. replicate 267 (of_nat k)) [1..<5] \<and> \<not> au_stop_requested s \<and> au_dropped s = 0 \<and>
       au_played s = replicate 267 1 @ replicate 267 2"
  by code_simp

theorem audio_plays_in_order_witness:
  "\<exists>s heard. audio_run (four_blocks @ first_write) audio_boot = Some s \<and> length (au_accepted s) = 4 \<and>
     length (au_played s) = 534 \<and> prefix heard (au_accepted s) \<and> au_played s = concat heard"
proof -
  obtain s where r: "audio_run (four_blocks @ first_write) audio_boot = Some s"
    and s: "au_accepted s = map (\<lambda>k. replicate 267 (of_nat k)) [1..<5]" "\<not> au_stop_requested s" "au_dropped s = 0"
      "au_played s = replicate 267 1 @ replicate 267 2"
    using first_write_run by (auto split: option.splits)
  have reach: "audio_reach s" by (rule audio_run_reach [OF audio_reach.Boot r])
  have len: "length (au_accepted s) = 4" by (simp add: s(1))
  obtain heard where "prefix heard (au_accepted s)" "au_played s = concat heard"
    using audio_plays_in_order [OF reach] len s by auto
  moreover have "length (au_played s) = 534" by (simp add: s(4))
  ultimately show ?thesis using r len by blast
qed

section \<open>Stopping\<close>

text \<open>C30.  Once \<open>gb_audio_stop\<close> waits for the task, the task ends within four of its steps, whatever it was
  doing and however the codec answers; the codec is then muted, and the wait is over: the queue and the
  semaphore are deleted, no task is left, and the next \<open>gb_audio_start\<close> whose calls succeed starts one.\<close>

theorem audio_stop_completes:
  assumes "audio_reach s" and "au_app s = Stop_waiting" and "length (au_accepted s) < 2 ^ 40" and "4 \<le> length answers"
  shows "\<exists>n t u. n \<le> 4 \<and> audio_run (map (\<lambda>(w, ok). Do_task w ok) (take n answers)) s = Some t \<and>
    au_pc t = No_task \<and> au_volume t = 0 \<and> audio_run [Do_next] t = Some u \<and>
    au_queue u = None \<and> au_stopped u = None \<and> \<not> au_task u \<and>
    fst (gb_audio_start v \<lparr>aa_codec = True, aa_queue = True, aa_stopped = True, aa_task = True\<rparr> u)"
proof -
  obtain n t where n: "n \<le> steps_left (au_pc s)"
    and t: "audio_run (map (\<lambda>(w, k). Do_task w k) (take n answers)) s = Some t" "audio_ok t"
      "au_app t = Stop_waiting" "au_pc t = No_task"
    using stopping_run [OF audio_reach_ok [OF assms(1)] assms(2,3)] steps_left_bound [of "au_pc s"] assms(4)
    by (meson le_trans)
  have h: "au_volume t = 0" "au_stopped t = Some True"
    using audio_okD(1) [OF t(2)] t(3,4) by (auto simp: handles_ok_def)
  have "audio_run [Do_next] t = Some (stop_finish t)" using t(3) h by (simp add: app_next_def)
  moreover have "au_queue (stop_finish t) = None" "au_stopped (stop_finish t) = None" "\<not> au_task (stop_finish t)"
    by (simp_all add: stop_finish_def)
  moreover from this
  have "fst (gb_audio_start v \<lparr>aa_codec = True, aa_queue = True, aa_stopped = True, aa_task = True\<rparr> (stop_finish t))"
    by (simp add: gb_audio_start_def Let_def)
  moreover have "n \<le> 4" using n steps_left_bound [of "au_pc s"] by simp
  ultimately show ?thesis using t h by blast
qed

text \<open>Stopped while the task holds one block and waits for the second.\<close>

definition stopped_midway :: "audio_action list" where
  "stopped_midway = four_blocks @ replicate 3 (Do_task 0 True) @ [Do_stop, Do_next, Do_next]"

lemma stopped_midway_run:
  "case audio_run stopped_midway audio_boot of None \<Rightarrow> False
   | Some s \<Rightarrow> au_app s = Stop_waiting \<and> au_accepted s = map (\<lambda>k. replicate 267 (of_nat k)) [1..<5] \<and> au_pc s = Receiving 1 267"
  by code_simp

theorem audio_stop_completes_witness:
  "\<exists>s n t u. audio_run stopped_midway audio_boot = Some s \<and> au_pc s = Receiving 1 267 \<and> n \<le> 4 \<and>
     audio_run (map (\<lambda>(w, ok). Do_task w ok) (take n (replicate 4 (0, False)))) s = Some t \<and>
     au_pc t = No_task \<and> audio_run [Do_next] t = Some u \<and> \<not> au_task u"
proof -
  obtain s where r: "audio_run stopped_midway audio_boot = Some s" and a: "au_app s = Stop_waiting"
    and c: "au_accepted s = map (\<lambda>k. replicate 267 (of_nat k)) [1..<5]" and p: "au_pc s = Receiving 1 267"
    using stopped_midway_run by (auto split: option.splits)
  have reach: "audio_reach s" by (rule audio_run_reach [OF audio_reach.Boot r])
  have len: "length (au_accepted s) < 2 ^ 40" "4 \<le> length (replicate 4 (0 :: u32, False))" by (simp_all add: c)
  obtain n t u where "n \<le> 4" "audio_run (map (\<lambda>(w, ok). Do_task w ok) (take n (replicate 4 (0, False)))) s = Some t"
    "au_pc t = No_task" "audio_run [Do_next] t = Some u" "\<not> au_task u"
    using audio_stop_completes [OF reach a len, of 0] by blast
  then show ?thesis using r p by blast
qed

text \<open>Without a stop block posted after the flag, a task that waits for a block would never look at the
  flag again: the receive has no time-out.\<close>

lemma flag_alone_is_not_enough:
  "case audio_run (four_blocks @ first_write @ replicate 5 (Do_task 0 True) @ [Do_stop, Do_next]) audio_boot of None \<Rightarrow> False
   | Some s \<Rightarrow> au_stop_requested s \<and> au_pc s = Receiving 0 0 \<and> \<not> audio_enabled (Do_task 0 True) s"
  by code_simp

text \<open>With nobody receiving, the ninth and every later block costs the oldest one.\<close>

lemma full_queue_drops_oldest:
  "case audio_run (Do_start 60 all_starts #
       concat (map (\<lambda>k. [Do_submit (Some (replicate 267 (of_nat k))), Do_next]) [1..<9]) @
       [Do_submit (Some (replicate 267 9)), Do_next, Do_next, Do_next]) audio_boot of None \<Rightarrow> False
   | Some s \<Rightarrow> au_dropped s = 1 \<and> map (hd \<circ> ab_samples) (queued s) = [2, 3, 4, 5, 6, 7, 8, 9]"
  by code_simp

end
