(* ===== verification/Game_App.thy ===== *)
theory Game_App
  imports Game_Menu Gb_Web_Replies Gamepad_Discovery
begin

text \<open>
  The frame around the menus in main/game_main.c: what \<open>app_main\<close> does before its loop, the game
  management page over storage, saves and network, the pairing page over the list of controllers, and
  the controller test page.  As in the menus, a step is one pass through a loop; what is drawn is left
  out.
\<close>

section \<open>Start-up\<close>

record boot_answers =
  ba_nvs :: bool
  ba_display :: bool
  ba_queue :: bool
  ba_buttons :: bool
  ba_gamepad :: bool
  ba_saves :: bool
  ba_partition :: bool

datatype boot_failure = No_nvs | No_display | No_queue_memory | No_buttons | No_bluetooth

text \<open>\<open>ap_scanning\<close> is the argument of the last \<open>gamepad_set_scanning\<close>.\<close>

record app =
  ap_settings :: settings
  ap_saves_ready :: bool
  ap_web :: web
  ap_network :: network
  ap_scanning :: bool

text \<open>Saves of games no longer in flash are removed only with a catalog that was read in full.\<close>

definition prune_if_trusted :: "app \<Rightarrow> app" where
  "prune_if_trusted ap =
     (let st = wb_storage (ap_web ap)
      in if ap_saves_ready ap \<and> st_trusted st
         then ap\<lparr>ap_web := (ap_web ap)\<lparr>wb_saves := snd (gb_saves_prune_orphans st (wb_saves (ap_web ap)))\<rparr>\<rparr>
         else ap)"

text \<open>\<open>app_main\<close> up to its loop: the failure it stops at, and the state.\<close>

definition app_startup :: "(u8 list \<Rightarrow> u8 list) \<Rightarrow> boot_answers \<Rightarrow> app \<Rightarrow> boot_failure option \<times> app" where
  "app_startup sha a ap =
     (if \<not> ba_nvs a then (Some No_nvs, ap)
      else if \<not> ba_display a then (Some No_display, ap)
      else if \<not> ba_queue a then (Some No_queue_memory, ap)
      else if \<not> ba_buttons a then (Some No_buttons, ap)
      else
        let ap = ap\<lparr>ap_settings := settings_load (ap_settings ap)\<rparr>
        in if \<not> ba_gamepad a then (Some No_bluetooth, ap)
           else
             let w = ap_web ap;
                 (ready, saves) = gb_saves_init (ba_saves a) (wb_saves w);
                 (found, st) = gb_storage_init sha (ba_partition a) (wb_storage w);
                 ap = ap\<lparr>ap_saves_ready := ready, ap_web := w\<lparr>wb_storage := st, wb_saves := saves\<rparr>\<rparr>
             in (None, if \<not> found then ap else prune_if_trusted ap))"

text \<open>What the main loop goes to from the row chosen on the home screen.\<close>

datatype page = Input_entry | Management_page | Test_page | Settings_page | Home_page

definition app_choice :: "nat \<Rightarrow> page" where
  "app_choice choice =
     (if choice = 0 then Input_entry else if choice = 1 then Management_page
      else if choice = 2 then Test_page else if choice = 3 then Settings_page else Home_page)"

section \<open>Game management\<close>

datatype management = Serving gb_select_pause | Start_failed gb_select_pause

text \<open>The page opens: scanning off, clean up, network on.\<close>

definition management_enter :: "pad_sample \<Rightarrow> start_answers \<Rightarrow> stop_answers \<Rightarrow> app \<Rightarrow> management \<times> app" where
  "management_enter pad a p ap =
     (let hold = gb_select_pause_init pad;
          ap = prune_if_trusted (ap\<lparr>ap_scanning := False\<rparr>);
          (up, net) = gb_web_start a p (ap_network ap);
          ap = ap\<lparr>ap_network := net\<rparr>
      in if \<not> up then (Start_failed hold, ap\<lparr>ap_scanning := True\<rparr>)
         else (Serving hold, ap))"

definition management_leave :: "stop_answers \<Rightarrow> app \<Rightarrow> app" where
  "management_leave p ap = ap\<lparr>ap_network := gb_web_stop p (ap_network ap), ap_scanning := True\<rparr>"

text \<open>One pass: whether the page is left.\<close>

fun management_step :: "turn \<Rightarrow> management \<Rightarrow> bool \<times> management" where
  "management_step t (Serving hold) =
     (let (msg, hold) = menu_button_receive t hold in (msg = long_ok, Serving hold))"
| "management_step t (Start_failed hold) =
     (let (msg, hold) = menu_button_receive t hold
      in ((case msg of Some (button, event) \<Rightarrow> button = BSP_BTN_OK | None \<Rightarrow> False), Start_failed hold))"

text \<open>While the server runs, its thread answers requests between any two passes.\<close>

datatype 'c visit_event = Pass turn | Asked "'c web_request"

definition answer :: "(u8 list \<Rightarrow> u8 list) \<Rightarrow> 'c web_request \<Rightarrow> app \<Rightarrow> app" where
  "answer sha x ap = ap\<lparr>ap_web := snd (handle_request sha x (ap_web ap))\<rparr>"

text \<open>A visit: whether it has ended, and the state; requests reach the storage only while the page serves.\<close>

fun management_run :: "(u8 list \<Rightarrow> u8 list) \<Rightarrow> stop_answers \<Rightarrow> 'c visit_event list \<Rightarrow> management \<Rightarrow> app \<Rightarrow> bool \<times> app" where
  "management_run sha p [] m ap = (False, ap)"
| "management_run sha p (Pass t # es) m ap =
     (let (leave, m) = management_step t m
      in if leave then (True, (case m of Serving _ \<Rightarrow> management_leave p ap | Start_failed _ \<Rightarrow> ap))
         else management_run sha p es m ap)"
| "management_run sha p (Asked x # es) m ap =
     management_run sha p es m (case m of Serving _ \<Rightarrow> answer sha x ap | Start_failed _ \<Rightarrow> ap)"

definition management_visit ::
    "(u8 list \<Rightarrow> u8 list) \<Rightarrow> pad_sample \<Rightarrow> start_answers \<Rightarrow> stop_answers \<Rightarrow> 'c visit_event list \<Rightarrow> app \<Rightarrow> bool \<times> app" where
  "management_visit sha pad a p es ap = (let (m, ap) = management_enter pad a p ap in management_run sha p es m ap)"

section \<open>Controller test\<close>

text \<open>The drain of the button queue: a held OK or Select leaves.\<close>

fun test_drain :: "turn list \<Rightarrow> gb_select_pause \<Rightarrow> bool \<times> gb_select_pause" where
  "test_drain [] hold = (False, hold)"
| "test_drain (t # ts) hold =
     (let (msg, hold) = menu_button_receive t hold
      in case msg of
           None \<Rightarrow> (False, hold)
         | Some m \<Rightarrow> if m = (BSP_BTN_OK, BSP_BTN_LONG) then (True, hold) else test_drain ts hold)"

definition gamepad_test_step :: "turn list \<Rightarrow> bool \<Rightarrow> gb_select_pause \<Rightarrow> bool \<times> gb_select_pause" where
  "gamepad_test_step ts drawn hold = (let (leave, hold) = test_drain ts hold in (leave \<or> \<not> drawn, hold))"

section \<open>Pairing\<close>

text \<open>
  The list of controllers is shared with the Bluetooth thread: what the devices report may come between
  any two of the page's calls, and that thread takes note of a confirmation.  A \<open>key_turn\<close> is one receive with the reports before it and, where the
  page looks at the list again, before that.
\<close>

datatype report = Report device_event | Request_taken

fun report_step :: "report \<Rightarrow> gamepad_discovery \<Rightarrow> gamepad_discovery" where
  "report_step (Report e) d = device_step e d"
| "report_step Request_taken d = d\<lparr>gd_iine_requested := False\<rparr>"

record key_turn =
  kt_turn :: turn
  kt_before :: "report list"
  kt_after :: "report list"

record pairing_turn =
  pt_connected :: bool
  pt_start :: "report list"
  pt_keys :: "key_turn list"
  pt_end :: "report list"
  pt_time :: "nat \<Rightarrow> int"

record pairing =
  pr_hold :: gb_select_pause
  pr_selected :: nat
  pr_selected_at :: int
  pr_slow :: bool
  pr_snapshot :: gamepad_discovery

definition pairing_enter :: "pad_sample \<Rightarrow> gamepad_discovery \<Rightarrow> pairing \<times> gamepad_discovery" where
  "pairing_enter pad d =
     (\<lparr>pr_hold = gb_select_pause_init pad, pr_selected = 0, pr_selected_at = 0, pr_slow = False, pr_snapshot = no_discovery\<rparr>,
      if \<not> pad_connected pad then gamepad_discovery_begin_scan d else d)"

definition reported :: "report list \<Rightarrow> gamepad_discovery \<Rightarrow> gamepad_discovery" where
  "reported es d = fold report_step es d"

text \<open>A click while nothing is selected: the mark moves, or the marked device is selected.\<close>

definition pairing_click :: "bsp_btn \<Rightarrow> int \<Rightarrow> pairing \<Rightarrow> gamepad_discovery \<Rightarrow> pairing \<times> gamepad_discovery" where
  "pairing_click button now p d =
     (let count = gd_count (pr_snapshot p)
      in case button of
           BSP_BTN_UP \<Rightarrow> (p\<lparr>pr_selected := (pr_selected p + count - 1) mod count\<rparr>, d)
         | BSP_BTN_DOWN \<Rightarrow> (p\<lparr>pr_selected := (pr_selected p + 1) mod count\<rparr>, d)
         | BSP_BTN_OK \<Rightarrow>
             (let (selected, d) = gamepad_discovery_select (pr_selected p) d
              in (if selected then p\<lparr>pr_selected_at := now, pr_slow := False\<rparr> else p, d)))"

text \<open>What the page does with one message: \<open>None\<close> if it returns false.\<close>

definition pairing_message ::
    "button_message \<Rightarrow> int \<Rightarrow> report list \<Rightarrow> pairing \<Rightarrow> gamepad_discovery \<Rightarrow> (pairing \<times> gamepad_discovery) option" where
  "pairing_message msg now after p d =
     (let snap = pr_snapshot p
      in if msg = (BSP_BTN_OK, BSP_BTN_LONG) then
           (if \<not> gd_selected snap then None
            else let d = reported after (gamepad_discovery_clear_selection d)
                 in Some (p\<lparr>pr_snapshot := d, pr_selected := 0, pr_selected_at := 0, pr_slow := False\<rparr>, d))
         else if gd_iine_pending snap \<and> msg = (BSP_BTN_OK, BSP_BTN_CLICK) then
           (let (accepted, d) = gamepad_discovery_confirm_iine d
            in Some (if accepted then p\<lparr>pr_selected_at := now, pr_slow := False\<rparr> else p, d))
         else if \<not> gd_selected snap \<and> snd msg = BSP_BTN_CLICK \<and> gd_count snap \<noteq> 0 then
           Some (pairing_click (fst msg) now p d)
         else Some (p, d))"

fun pairing_drain :: "key_turn list \<Rightarrow> pairing \<Rightarrow> gamepad_discovery \<Rightarrow> bool \<times> pairing \<times> gamepad_discovery" where
  "pairing_drain [] p d = (False, p, d)"
| "pairing_drain (k # ks) p d =
     (let d = reported (kt_before k) d;
          (msg, hold) = menu_button_receive (kt_turn k) (pr_hold p);
          p = p\<lparr>pr_hold := hold\<rparr>
      in case msg of
           None \<Rightarrow> (False, p, d)
         | Some m \<Rightarrow>
             (case pairing_message m (tn_time (kt_turn k) 1) (kt_after k) p d of
                None \<Rightarrow> (True, p, d)
              | Some (p, d) \<Rightarrow> pairing_drain ks p d))"

text \<open>After the keys: the list again, and whether connecting takes too long.\<close>

definition pairing_watch :: "(nat \<Rightarrow> int) \<Rightarrow> pairing \<Rightarrow> pairing" where
  "pairing_watch time p =
     (let snap = pr_snapshot p;
          p = (if gd_selected snap \<and> pr_selected_at p = 0 then p\<lparr>pr_selected_at := time 0\<rparr> else p)
      in if gd_selected snap \<and> \<not> pr_slow p \<and> \<not> gd_passkey_visible snap \<and> 25000000 \<le> time 1 - pr_selected_at p
         then p\<lparr>pr_slow := True\<rparr> else p)"

text \<open>One pass of \<open>pairing_loop\<close>: \<open>Some\<close> of what it returns.\<close>

definition pairing_step :: "pairing_turn \<Rightarrow> pairing \<Rightarrow> gamepad_discovery \<Rightarrow> bool option \<times> pairing \<times> gamepad_discovery" where
  "pairing_step t p d =
     (if pt_connected t then (Some True, p, d)
      else
        let d = reported (pt_start t) d;
            p = p\<lparr>pr_snapshot := d\<rparr>;
            p = (if gd_count d \<noteq> 0 \<and> gd_count d \<le> pr_selected p then p\<lparr>pr_selected := gd_count d - 1\<rparr> else p);
            (left, p, d) = pairing_drain (pt_keys t) p d
        in if left then (Some False, p, d)
           else let d = reported (pt_end t) d
                in (None, pairing_watch (pt_time t) (p\<lparr>pr_snapshot := d\<rparr>), d))"

fun pairing_run :: "pairing_turn list \<Rightarrow> pairing \<Rightarrow> gamepad_discovery \<Rightarrow> bool option \<times> gamepad_discovery" where
  "pairing_run [] p d = (None, d)"
| "pairing_run (t # ts) p d =
     (case pairing_step t p d of
        (Some r, p, d) \<Rightarrow> (Some r, d)
      | (None, p, d) \<Rightarrow> pairing_run ts p d)"

end
