(* ===== verification/Game_App_Safe.thy ===== *)
theory Game_App_Safe
  imports Game_App Web_Properties
begin

text \<open>
  Start-up and game management leave the saves of listed games alone: what a trusted catalog is
  (\<open>init_trusted\<close>), and one visit of the management page, request by request; and the way out of pairing.
\<close>

section \<open>A trusted catalog is the one in flash\<close>

text \<open>If the directory sector can be read and looks like one, the call that hashes it succeeds.\<close>

definition hash_answers :: "nat \<Rightarrow> storage \<Rightarrow> bool" where
  "hash_answers slot s \<longleftrightarrow>
     (let f = st_flash s in
      fl_ok f (fl_calls f) \<and> directory_plausible (data_end f) (bytes_at f (slot_offset f slot) 1196) \<longrightarrow>
      fl_ok f (fl_calls f + 1))"

text \<open>The state in which \<open>gb_storage_init\<close> looks at the first directory copy.\<close>

definition init_state :: "storage \<Rightarrow> storage" where
  "init_state s = (unmap_selected s)\<lparr>st_entries := [], st_trusted := False, st_reload := True, st_read_error := False,
     st_slot := None, st_generation := 0, st_partition := True, st_flash := snd (tick (st_flash s))\<rparr>"

definition hashing_works :: "(u8 list \<Rightarrow> u8 list) \<Rightarrow> storage \<Rightarrow> bool" where
  "hashing_works sha s \<longleftrightarrow> hash_answers 0 (init_state s) \<and> hash_answers 1 (try_slot sha 0 (init_state s))"

lemma read_directory_sound:
  assumes "flash_ok (st_flash s)" "k < 2" "hash_answers k s" "\<not> st_read_error (snd (read_directory sha k s))"
  shows "\<exists>m. read_directory sha k s =
    (if dir_at sha (st_flash s) k = None then None else Some (bytes_at (st_flash s) (slot_offset (st_flash s) k) 1196),
     s\<lparr>st_flash := (st_flash s)\<lparr>fl_calls := m\<rparr>\<rparr>)"
  using slot_readable [OF assms(1,2)] assms(3,4)
  by (auto simp: read_directory_def on_flash_eq Let_def dir_at_def parse_directory_def hash_answers_def fl_read_def tick_def
      split: if_splits)

text \<open>What looking at a copy does to the state that matters here.\<close>

definition looked :: "(u8 list \<Rightarrow> u8 list) \<Rightarrow> nat \<Rightarrow> storage \<Rightarrow> storage \<Rightarrow> bool" where
  "looked sha k s t \<longleftrightarrow> (\<exists>m. t =
    (let t = s\<lparr>st_flash := (st_flash s)\<lparr>fl_calls := m\<rparr>\<rparr> in
     case dir_at sha (st_flash s) k of
       None \<Rightarrow> t
     | Some (g, es) \<Rightarrow>
         if st_slot s = None \<or> newer g (st_generation s)
         then t\<lparr>st_slot := Some k, st_generation := g, st_entries := es\<rparr> else t))"

lemma try_slot_error: "st_read_error (try_slot sha k s) = st_read_error (snd (read_directory sha k s))"
  by (auto simp: try_slot_def split: prod.splits option.splits)

lemma try_slot_trusted: "st_trusted (try_slot sha k s) = st_trusted s"
  by (auto simp: try_slot_def read_directory_def on_flash_eq Let_def split: prod.splits option.splits if_splits)

lemma read_error_stays: "st_read_error s \<Longrightarrow> st_read_error (try_slot sha k s)"
  by (auto simp: try_slot_error read_directory_def on_flash_eq Let_def split: option.splits)

lemma try_slot_sound:
  assumes "flash_ok (st_flash s)" "k < 2" "hash_answers k s" "\<not> st_read_error (try_slot sha k s)"
  shows "looked sha k s (try_slot sha k s)"
proof -
  obtain m where m: "read_directory sha k s =
    (if dir_at sha (st_flash s) k = None then None else Some (bytes_at (st_flash s) (slot_offset (st_flash s) k) 1196),
     s\<lparr>st_flash := (st_flash s)\<lparr>fl_calls := m\<rparr>\<rparr>)"
    using read_directory_sound [OF assms(1-3)] assms(4) unfolding try_slot_error by blast
  show ?thesis unfolding looked_def
    by (rule exI [of _ m])
      (auto simp: try_slot_def m Let_def dir_at_def parse_directory_def split: option.splits if_splits)
qed

lemma looked_twice:
  assumes "looked sha 0 s s1" "looked sha 1 s1 s2" "st_slot s = None" "st_generation s = 0" "st_entries s = []"
  shows "case boot_slot sha (st_flash s) of
      None \<Rightarrow> st_slot s2 = None \<and> st_entries s2 = []
    | Some (k, g, es) \<Rightarrow> st_slot s2 = Some k \<and> st_generation s2 = g \<and> st_entries s2 = es"
    "\<exists>m. st_flash s2 = (st_flash s)\<lparr>fl_calls := m\<rparr>" "st_trusted s2 = st_trusted s"
proof -
  let ?f = "st_flash s"
  obtain m0 where m0: "s1 = (let t = s\<lparr>st_flash := ?f\<lparr>fl_calls := m0\<rparr>\<rparr> in
     case dir_at sha ?f 0 of None \<Rightarrow> t | Some (g, es) \<Rightarrow>
         if st_slot s = None \<or> newer g (st_generation s)
         then t\<lparr>st_slot := Some 0, st_generation := g, st_entries := es\<rparr> else t)"
    using assms(1) unfolding looked_def by blast
  have f1: "st_flash s1 = ?f\<lparr>fl_calls := m0\<rparr>" "st_trusted s1 = st_trusted s"
    unfolding m0 by (simp_all add: Let_def split: option.split)
  have d0: "st_slot s1 = map_option (\<lambda>x. 0) (dir_at sha ?f 0)"
    "st_generation s1 = (case dir_at sha ?f 0 of None \<Rightarrow> 0 | Some (g, es) \<Rightarrow> g)"
    "st_entries s1 = (case dir_at sha ?f 0 of None \<Rightarrow> [] | Some (g, es) \<Rightarrow> es)"
    unfolding m0 using assms(3-5) by (simp_all add: Let_def split: option.split)
  obtain m1 where m1: "s2 = (let t = s1\<lparr>st_flash := (st_flash s1)\<lparr>fl_calls := m1\<rparr>\<rparr> in
     case dir_at sha (st_flash s1) 1 of None \<Rightarrow> t | Some (g, es) \<Rightarrow>
         if st_slot s1 = None \<or> newer g (st_generation s1)
         then t\<lparr>st_slot := Some 1, st_generation := g, st_entries := es\<rparr> else t)"
    using assms(2) unfolding looked_def by blast
  show "case boot_slot sha ?f of
      None \<Rightarrow> st_slot s2 = None \<and> st_entries s2 = []
    | Some (k, g, es) \<Rightarrow> st_slot s2 = Some k \<and> st_generation s2 = g \<and> st_entries s2 = es"
    unfolding m1 using d0 f1(1) by (auto simp: boot_slot_def pick_copy_def Let_def split: option.split)
  show "\<exists>m. st_flash s2 = ?f\<lparr>fl_calls := m\<rparr>" "st_trusted s2 = st_trusted s"
    unfolding m1 using f1 by (auto simp: Let_def split: option.split)
qed

lemma read_legacy_trusted:
  assumes "st_trusted (snd (read_legacy s))" "\<not> st_trusted s"
  shows "legacy_entries (st_flash s) = Some (st_entries (snd (read_legacy s)))"
  using assms
  by (auto simp: read_legacy_def on_flash_eq Let_def legacy_entries_def fl_read_def tick_def bytes_at_def data_end_def
      split: if_splits option.splits)

lemma init_trusted:
  assumes "flash_ok (st_flash s)" "hashing_works sha s" "gb_storage_init sha found s = (r, t)" "st_trusted t"
  shows "\<exists>k g. boot_catalog sha (st_flash s) = Some (k, g, st_entries t)"
proof -
  obtain ok f where tick: "tick (st_flash s) = (ok, f)" by (cases "tick (st_flash s)")
  have f: "f = (st_flash s)\<lparr>fl_calls := fl_calls (st_flash s) + 1\<rparr>" using tick by (simp add: tick_def)
  let ?i = "init_state s"
  let ?s1 = "try_slot sha 0 ?i"
  let ?s2 = "try_slot sha 1 ?s1"
  have i: "st_flash ?i = f" "st_slot ?i = None" "st_generation ?i = 0" "st_entries ?i = []" "\<not> st_trusted ?i"
    by (simp_all add: init_state_def tick)
  have run: "found \<and> ok \<and> \<not> st_read_error ?s2 \<and>
      (r, t) = (if st_slot ?s2 \<noteq> None then (True, ?s2\<lparr>st_trusted := True, st_reload := False\<rparr>) else read_legacy ?s2)"
  proof -
    have e: "(unmap_selected s)\<lparr>st_entries := [], st_trusted := False, st_reload := True, st_read_error := False,
        st_slot := None, st_generation := 0, st_partition := True, st_flash := f\<rparr> = ?i"
      by (simp add: init_state_def tick)
    have u: "st_flash (unmap_selected s) = st_flash s" by (simp add: unmap_selected_def)
    show ?thesis
      using assms(3,4) i(5) try_slot_trusted
      by (auto simp: gb_storage_init_def on_flash_eq Let_def u tick e split: if_splits)
  qed
  then have e2: "\<not> st_read_error ?s2" by simp
  then have e1: "\<not> st_read_error ?s1" using read_error_stays by blast
  have ok0: "flash_ok (st_flash ?i)" using assms(1) f i(1) by simp
  have l1: "looked sha 0 ?i ?s1"
    by (rule try_slot_sound [OF ok0]) (use assms(2) e1 in \<open>simp_all add: hashing_works_def\<close>)
  have ok1: "flash_ok (st_flash ?s1)" using l1 ok0 by (auto simp: looked_def Let_def split: option.split)
  have l2: "looked sha 1 ?s1 ?s2"
    by (rule try_slot_sound [OF ok1]) (use assms(2) e2 in \<open>simp_all add: hashing_works_def\<close>)
  note l = looked_twice [OF l1 l2 i(2-4)]
  obtain m where m: "st_flash ?s2 = f\<lparr>fl_calls := m\<rparr>" using l(2) i(1) by auto
  have dirs: "dir_at sha f = dir_at sha (st_flash s)" by (rule ext) (simp add: f)
  have b: "boot_slot sha f = boot_slot sha (st_flash s)" "legacy_entries (st_flash ?s2) = legacy_entries (st_flash s)"
    unfolding boot_slot_def m dirs by (simp_all add: f legacy_entries_def Let_def)
  show ?thesis
  proof (cases "boot_slot sha (st_flash s)")
    case None
    then have "st_slot ?s2 = None" using l(1) i(1) b(1) by simp
    then have "t = snd (read_legacy ?s2)" using run by (cases "read_legacy ?s2") simp
    then have "legacy_entries (st_flash s) = Some (st_entries t)"
      using read_legacy_trusted [of ?s2] assms(4) l(3) i(5) b(2) by simp
    then show ?thesis using None by (simp add: boot_catalog_def)
  next
    case (Some x)
    then show ?thesis using l(1) i(1) b(1) run by (cases x) (auto simp: boot_catalog_def)
  qed
qed

section \<open>Start-up and saves\<close>

text \<open>The saves of all games of a catalog are as they were.\<close>

definition saves_kept :: "rom_entry list \<Rightarrow> save_fs \<Rightarrow> save_fs \<Rightarrow> bool" where
  "saves_kept es s t \<longleftrightarrow> (\<forall>e \<in> set es. \<forall>m. latest_save (re_sha e) m t = latest_save (re_sha e) m s)"

lemma latest_save_mounted [simp]: "latest_save h m (s\<lparr>sf_mounted := b\<rparr>) = latest_save h m s"
proof -
  have "save_copies h m (s\<lparr>sf_mounted := b\<rparr>) = save_copies h m s" by (intro ext) (simp add: save_copies_def sf_file_def)
  then show ?thesis by (simp add: latest_save_def)
qed

lemma prune_saves_kept:
  assumes "\<forall>e \<in> set (st_entries (wb_storage (ap_web ap))). length (re_sha e) = 32"
  shows "saves_kept (st_entries (wb_storage (ap_web ap))) (wb_saves (ap_web ap)) (wb_saves (ap_web (prune_if_trusted ap)))"
    and "wb_storage (ap_web (prune_if_trusted ap)) = wb_storage (ap_web ap)"
proof -
  let ?st = "wb_storage (ap_web ap)"
  obtain r t where p: "gb_saves_prune_orphans ?st (wb_saves (ap_web ap)) = (r, t)"
    by (cases "gb_saves_prune_orphans ?st (wb_saves (ap_web ap))")
  show "saves_kept (st_entries ?st) (wb_saves (ap_web ap)) (wb_saves (ap_web (prune_if_trusted ap)))"
    using kept_live_file [OF prune_orphans_result(1) [OF p]] assms
    by (simp add: prune_if_trusted_def saves_kept_def p Let_def)
  show "wb_storage (ap_web (prune_if_trusted ap)) = ?st" by (simp add: prune_if_trusted_def Let_def)
qed

lemma startup_saves_kept:
  assumes "flash_ok (st_flash (wb_storage (ap_web ap)))" "hashing_works sha (wb_storage (ap_web ap))"
    and "app_startup sha a ap = (r, ap')"
  shows "(case boot_catalog sha (st_flash (wb_storage (ap_web ap))) of
       Some (k, g, es) \<Rightarrow> saves_kept es (wb_saves (ap_web ap)) (wb_saves (ap_web ap'))
     | None \<Rightarrow> sf_files (wb_saves (ap_web ap')) = sf_files (wb_saves (ap_web ap)))"
proof -
  let ?w = "ap_web ap"
  obtain found st where init: "gb_storage_init sha (ba_partition a) (wb_storage ?w) = (found, st)"
    by (cases "gb_storage_init sha (ba_partition a) (wb_storage ?w)")
  let ?saves = "(wb_saves ?w)\<lparr>sf_mounted := ba_saves a\<rparr>"
  define b where "b = ap\<lparr>ap_settings := settings_load (ap_settings ap), ap_saves_ready := ba_saves a,
    ap_web := ?w\<lparr>wb_storage := st, wb_saves := ?saves\<rparr>\<rparr>"
  have cases: "wb_saves (ap_web ap') = wb_saves ?w \<or> wb_saves (ap_web ap') = ?saves \<or> st_trusted st \<and> ap' = prune_if_trusted b"
    using assms(3) by (auto simp: app_startup_def gb_saves_init_def init Let_def prune_if_trusted_def b_def split: if_splits)
  have bw: "wb_storage (ap_web b) = st" "wb_saves (ap_web b) = ?saves" by (simp_all add: b_def)
  show ?thesis
  proof (cases "st_trusted st \<and> ap' = prune_if_trusted b")
    case True
    then obtain k g where c: "boot_catalog sha (st_flash (wb_storage ?w)) = Some (k, g, st_entries st)"
      using init_trusted [OF assms(1,2) init] by blast
    then have "\<forall>e \<in> set (st_entries (wb_storage (ap_web b))). length (re_sha e) = 32"
      using boot_catalog_ok [OF c assms(1)] bw by (auto simp: entry_fits_def)
    from prune_saves_kept(1) [OF this] show ?thesis using True c bw by (simp add: saves_kept_def)
  next
    case False
    then show ?thesis using cases by (auto simp: saves_kept_def split: option.splits)
  qed
qed

section \<open>A visit to game management\<close>

text \<open>A game of digest \<open>h\<close> is listed, and no other game listed shares the name of its save.\<close>

definition listed_alone :: "u8 list \<Rightarrow> web \<Rightarrow> bool" where
  "listed_alone h w \<longleftrightarrow> (\<exists>e \<in> set (web_entries w). re_sha e = h) \<and>
     (\<forall>f \<in> set (web_entries w). take 8 (re_sha f) = take 8 h \<longrightarrow> re_sha f = h)"

text \<open>It is, before and after every request of a visit; with no network up, no request gets through.\<close>

fun listed_through :: "(u8 list \<Rightarrow> u8 list) \<Rightarrow> u8 list \<Rightarrow> bool \<Rightarrow> 'c visit_event list \<Rightarrow> web \<Rightarrow> bool" where
  "listed_through sha h up [] w = listed_alone h w"
| "listed_through sha h up (Pass t # es) w = listed_through sha h up es w"
| "listed_through sha h up (Asked x # es) w =
     (listed_alone h w \<and> listed_through sha h up es (if up then snd (handle_request sha x w) else w))"

lemma listed_through_now: "listed_through sha h up es w \<Longrightarrow> listed_alone h w"
  by (induction sha h up es w rule: listed_through.induct) simp_all

definition serves :: "management \<Rightarrow> bool" where
  "serves m = (case m of Serving _ \<Rightarrow> True | Start_failed _ \<Rightarrow> False)"

lemma serves_simps [simp]: "serves (Serving hold)" "\<not> serves (Start_failed hold)"
  by (simp_all add: serves_def)

lemma serves_step: "serves (snd (management_step t m)) = serves m"
  by (cases m) (simp_all add: split_beta Let_def)

text \<open>What a request may do to the saves: nothing, or delete those of the row it removes.\<close>

lemma request_saves:
  assumes "digest_fn sha" "storage_ok sha (wb_storage w)" "handle_request sha x w = (r, w')"
  shows "wb_saves w' = wb_saves w \<or>
    (\<exists>i okay. i < length (web_entries w) \<and> web_entries w' = take i (web_entries w) @ drop (Suc i) (web_entries w) \<and>
       \<not> shared_save i (web_entries w) \<and> gb_saves_delete (re_sha (web_entries w ! i)) (wb_saves w) = (okay, wb_saves w'))"
proof (cases x)
  case (Post_upload recv c rq)
  then show ?thesis
    using assms(3) by (auto simp: upload_handler_def on_storage_def Let_def split: if_splits option.splits prod.splits)
next
  case (Post_rename rq)
  then show ?thesis
    using assms(3) by (auto simp: rename_handler_def on_storage_def Let_def split: if_splits option.splits prod.splits)
next
  case (Post_delete rq)
  obtain status message where r: "r = (status, message)" by (cases r)
  have d: "delete_handler sha rq w = ((status, message), w')" using assms(3) Post_delete r by simp
  show ?thesis
  proof (cases "message \<in> {Deleted_with_save, Deleted_save_left}")
    case True
    show ?thesis by (rule delete_done [OF assms(1,2) d True]) blast
  next
    case False
    then show ?thesis
      using d by (auto simp: delete_handler_def delete_row_def on_storage_def Let_def split: if_splits option.splits prod.splits)
  qed
qed

lemma request_keeps_listed:
  assumes "digest_fn sha" "storage_ok sha (wb_storage w)" "handle_request sha x w = (r, w')"
    and "listed_alone h w" "listed_alone h w'"
  shows "latest_save h m (wb_saves w') = latest_save h m (wb_saves w)"
proof (cases "wb_saves w' = wb_saves w")
  case False
  then obtain i okay where i: "i < length (web_entries w)" "web_entries w' = take i (web_entries w) @ drop (Suc i) (web_entries w)"
    "\<not> shared_save i (web_entries w)" "gb_saves_delete (re_sha (web_entries w ! i)) (wb_saves w) = (okay, wb_saves w')"
    using request_saves [OF assms(1-3)] by blast
  obtain e where e: "e \<in> set (web_entries w')" "re_sha e = h" using assms(5) by (auto simp: listed_alone_def)
  obtain j where "j < length (web_entries w)" "j \<noteq> i" "e = web_entries w ! j"
    using left_entry [OF e(1) [unfolded i(2)]] by blast
  then have "re_sha (web_entries w ! i) \<noteq> h" using i(3) e(2) by (auto simp: shared_save_def list_ex_iff)
  then have "take 8 (re_sha (web_entries w ! i)) \<noteq> take 8 h"
    using assms(4) nth_mem [OF i(1)] by (auto simp: listed_alone_def)
  then show ?thesis by (rule other_save_kept [OF i(4)])
qed simp

lemma request_storage_ok:
  assumes "digest_fn sha" "storage_ok sha (wb_storage w)"
  shows "storage_ok sha (wb_storage (snd (handle_request sha x w)))"
  using replies_hold [OF assms prod.collapse [symmetric], of x] by (cases "fst (handle_request sha x w)") (simp add: reply_holds_def)

lemma stop_shape: "nw_running (gb_web_stop p n) = False"
  by (simp add: gb_web_stop_def Let_def)

lemma management_run_keeps:
  assumes "digest_fn sha" "storage_ok sha (wb_storage (ap_web ap))" "listed_through sha h (serves m) es (ap_web ap)"
    and "management_run sha p es m ap = (left, ap')"
  shows "latest_save h k (wb_saves (ap_web ap')) = latest_save h k (wb_saves (ap_web ap))"
  using assms
proof (induction sha p es m ap arbitrary: ap' rule: management_run.induct)
  case (2 sha p t es m ap)
  obtain leave m' where s: "management_step t m = (leave, m')" by (cases "management_step t m")
  show ?case
  proof (cases leave)
    case True
    then show ?thesis using "2.prems"(4) s by (auto simp: management_leave_def split: management.splits)
  next
    case False
    have "serves m' = serves m" using serves_step [of t m] s by simp
    then show ?thesis by (intro "2.IH" [OF s [symmetric] refl]) (use False s "2.prems" in simp_all)
  qed
next
  case (3 sha p x es m ap)
  show ?case
  proof (cases m)
    case (Start_failed hold)
    show ?thesis by (rule "3.IH" [of ap', unfolded Start_failed, simplified]) (use "3.prems" Start_failed in simp_all)
  next
    case (Serving hold)
    let ?b = "answer sha x ap"
    obtain r w where w: "handle_request sha x (ap_web ap) = (r, w)" by (cases "handle_request sha x (ap_web ap)")
    have l: "listed_alone h (ap_web ap)" "listed_through sha h True es w" using "3.prems"(3) w Serving by simp_all
    have "latest_save h k (wb_saves (ap_web ap')) = latest_save h k (wb_saves (ap_web ?b))"
      by (rule "3.IH" [of ap', unfolded Serving, simplified])
        (use "3.prems" Serving l w request_storage_ok [OF "3.prems"(1,2), of x] in \<open>simp_all add: answer_def\<close>)
    also have "\<dots> = latest_save h k (wb_saves (ap_web ap))"
      using request_keeps_listed [OF "3.prems"(1,2) w l(1) listed_through_now [OF l(2)]] w by (simp add: answer_def)
    finally show ?thesis .
  qed
qed simp

lemma management_run_left:
  assumes "management_run sha p es m ap = (True, ap')" "serves m \<or> ap_scanning ap \<and> \<not> nw_running (ap_network ap)"
  shows "ap_scanning ap' \<and> \<not> nw_running (ap_network ap')"
  using assms
proof (induction sha p es m ap arbitrary: ap' rule: management_run.induct)
  case (2 sha p t es m ap)
  obtain leave m' where s: "management_step t m = (leave, m')" by (cases "management_step t m")
  have sv: "serves m' = serves m" using serves_step [of t m] s by simp
  show ?case
  proof (cases leave)
    case True
    then show ?thesis
      using "2.prems" s sv by (cases m') (auto simp: management_leave_def stop_shape)
  next
    case False
    then show ?thesis using "2.IH" [OF s [symmetric] refl] "2.prems" s sv by simp
  qed
next
  case (3 sha p x es m ap)
  then show ?case by (cases m) (auto simp: answer_def)
qed simp

lemma web_start_failed: "gb_web_start a p n = (False, n') \<Longrightarrow> \<not> nw_running n'"
  by (auto simp: gb_web_start_def Let_def stop_shape split: if_splits prod.splits)

lemma enter_keeps:
  assumes "\<forall>e \<in> set (web_entries (ap_web ap)). length (re_sha e) = 32" "management_enter pad a p ap = (m, b)"
  shows "wb_storage (ap_web b) = wb_storage (ap_web ap)"
    and "saves_kept (web_entries (ap_web ap)) (wb_saves (ap_web ap)) (wb_saves (ap_web b))"
    and "serves m \<or> ap_scanning b \<and> \<not> nw_running (ap_network b)"
    and "serves m = fst (gb_web_start a p (ap_network ap))"
proof -
  let ?q = "prune_if_trusted (ap\<lparr>ap_scanning := False\<rparr>)"
  obtain up net where n: "gb_web_start a p (ap_network ap) = (up, net)" by (cases "gb_web_start a p (ap_network ap)")
  have q: "ap_network ?q = ap_network ap" by (simp add: prune_if_trusted_def Let_def)
  have e: "m = (if up then Serving else Start_failed) (gb_select_pause_init pad)"
    "b = (if up then ?q\<lparr>ap_network := net\<rparr> else ?q\<lparr>ap_network := net, ap_scanning := True\<rparr>)"
    using assms(2) n q by (auto simp: management_enter_def Let_def split: if_splits)
  note k = prune_saves_kept [of "ap\<lparr>ap_scanning := False\<rparr>"]
  show "wb_storage (ap_web b) = wb_storage (ap_web ap)"
    "saves_kept (web_entries (ap_web ap)) (wb_saves (ap_web ap)) (wb_saves (ap_web b))"
    using k assms(1) e by simp_all
  show "serves m \<or> ap_scanning b \<and> \<not> nw_running (ap_network b)" "serves m = fst (gb_web_start a p (ap_network ap))"
    using e n web_start_failed [of a p "ap_network ap" net] by auto
qed

lemma visit_keeps:
  assumes "digest_fn sha" "storage_ok sha (wb_storage (ap_web ap))" "management_enter pad a p ap = (m, b)"
    and "listed_through sha h (serves m) es (ap_web b)" "management_run sha p es m b = (left, ap')"
  shows "latest_save h k (wb_saves (ap_web ap')) = latest_save h k (wb_saves (ap_web ap))"
    and "left \<Longrightarrow> ap_scanning ap' \<and> \<not> nw_running (ap_network ap')"
proof -
  have len: "\<forall>e \<in> set (web_entries (ap_web ap)). length (re_sha e) = 32"
    using assms(2) by (auto simp: storage_ok_def entry_fits_def)
  note en = enter_keeps [OF len assms(3)]
  obtain e where e: "e \<in> set (web_entries (ap_web ap))" "re_sha e = h"
    using listed_through_now [OF assms(4)] en(1) by (auto simp: listed_alone_def)
  have "latest_save h k (wb_saves (ap_web ap')) = latest_save h k (wb_saves (ap_web b))"
    by (rule management_run_keeps [OF assms(1) _ assms(4,5)]) (simp add: en(1) assms(2))
  also have "\<dots> = latest_save h k (wb_saves (ap_web ap))" using en(2) e by (auto simp: saves_kept_def)
  finally show "latest_save h k (wb_saves (ap_web ap')) = latest_save h k (wb_saves (ap_web ap))" .
  show "ap_scanning ap' \<and> \<not> nw_running (ap_network ap')" if left
    using management_run_left [of sha p es m b ap'] en(3) assms(5) that by simp
qed

section \<open>Pairing\<close>

lemma revised_selected [simp]: "gd_selected (revised d) = gd_selected d" "gd_selected (set_candidate i c d) = gd_selected d"
  by (simp_all add: revised_def set_candidate_def)

lemma observe_selected: "gd_selected (snd (gamepad_discovery_observe a cod name d)) = gd_selected d"
proof -
  have r: "gd_selected (refresh_name i name (refresh_kind i keyboard probe d)) = gd_selected d" for i keyboard probe
    by (simp add: refresh_name_def refresh_kind_def Let_def)
  show ?thesis unfolding gamepad_discovery_observe_def Let_def by (simp add: r split: option.split)
qed

lemma device_selected: "gd_selected (device_step e d) = gd_selected d"
proof (cases e)
  case (Observe a cod name)
  then show ?thesis by (simp add: observe_selected)
next
  case (Passkey a key)
  then show ?thesis by (simp add: gamepad_discovery_passkey_def)
next
  case (Pairing_done a success)
  then show ?thesis by (simp add: gamepad_discovery_pairing_done_def Let_def)
next
  case (Iine_confirmation a pending fw)
  then show ?thesis by (simp add: gamepad_discovery_iine_confirmation_def)
qed

lemma report_selected: "gd_selected (report_step e d) = gd_selected d"
  by (cases e) (simp_all add: device_selected)

lemma reported_selected: "gd_selected (reported es d) = gd_selected d"
  unfolding reported_def by (induction es arbitrary: d) (simp_all add: report_selected)

lemma cleared_selected: "\<not> gd_selected (gamepad_discovery_clear_selection d)"
  by (simp add: gamepad_discovery_clear_selection_def gamepad_discovery_begin_scan_def reset_pairing_def revised_def)

text \<open>A pass in which the first message is a held OK.\<close>

definition held_first :: "pairing_turn \<Rightarrow> pairing \<Rightarrow> bool" where
  "held_first t p \<longleftrightarrow> (\<exists>k. pt_keys t = [k] \<and> fst (menu_button_receive (kt_turn k) (pr_hold p)) = long_ok)"

lemma held_pass:
  assumes "held_first t p" "\<not> pt_connected t" "pairing_step t p d = (r, p', d')"
  shows "if gd_selected d then r = None \<and> \<not> gd_selected d' else r = Some False"
proof -
  obtain k where k: "pt_keys t = [k]" "fst (menu_button_receive (kt_turn k) (pr_hold p)) = long_ok"
    using assms(1) by (auto simp: held_first_def)
  obtain hold where h: "menu_button_receive (kt_turn k) (pr_hold p) = (long_ok, hold)"
    using k(2) by (cases "menu_button_receive (kt_turn k) (pr_hold p)") simp
  define d1 where "d1 = reported (pt_start t) d"
  have s: "gd_selected d1 = gd_selected d" by (simp add: d1_def reported_selected)
  have hold: "pr_hold (if c then q\<lparr>pr_selected := n\<rparr> else q) = pr_hold q"
    "pr_snapshot (if c then q\<lparr>pr_selected := n\<rparr> else q) = pr_snapshot q" for c q n by simp_all
  show ?thesis
    using assms(2,3) k(1) h s
    by (auto simp: pairing_step_def Let_def d1_def [symmetric] hold pairing_message_def reported_selected cleared_selected
        split: if_splits)
qed

text \<open>The message is a held OK whatever the controller does, and the queue is empty after it.\<close>

definition ok_held :: "pairing_turn \<Rightarrow> bool" where
  "ok_held t \<longleftrightarrow> (\<exists>k. pt_keys t = [k] \<and> tn_button (kt_turn k) = long_ok)"

lemma ok_held_first: "ok_held t \<Longrightarrow> held_first t p"
  by (auto simp: ok_held_def held_first_def menu_button_receive_def split_beta Let_def)

lemma quiet_pass:
  assumes "pt_keys t = []" "\<not> pt_connected t" "\<not> gd_selected d" "pairing_step t p d = (r, p', d')"
  shows "r = None \<and> \<not> gd_selected d'"
  using assms by (auto simp: pairing_step_def Let_def reported_selected)

lemma quiet_then_held:
  assumes "\<forall>t \<in> set quiet. pt_keys t = [] \<and> \<not> pt_connected t" "ok_held u" "\<not> pt_connected u" "\<not> gd_selected d"
  shows "fst (pairing_run (quiet @ [u]) p d) = Some False"
  using assms
proof (induction quiet arbitrary: p d)
  case Nil
  obtain r p' d' where s: "pairing_step u p d = (r, p', d')" by (metis prod_cases3)
  then show ?case using held_pass [OF ok_held_first [OF Nil.prems(2)] Nil.prems(3) s] Nil.prems(4) by simp
next
  case (Cons t quiet)
  obtain r p' d' where s: "pairing_step t p d = (r, p', d')" by (metis prod_cases3)
  then have "r = None \<and> \<not> gd_selected d'" using quiet_pass [OF _ _ Cons.prems(4) s] Cons.prems(1) by simp
  then show ?case using Cons.IH [of d' p'] Cons.prems s by simp
qed

lemma held_twice:
  assumes "ok_held t" "\<not> pt_connected t" "\<forall>t \<in> set quiet. pt_keys t = [] \<and> \<not> pt_connected t" "ok_held u" "\<not> pt_connected u"
  shows "fst (pairing_run (t # quiet @ [u]) p d) = Some False"
proof -
  obtain r p' d' where s: "pairing_step t p d = (r, p', d')" by (metis prod_cases3)
  then have "r = Some False \<or> r = None \<and> \<not> gd_selected d'"
    using held_pass [OF ok_held_first [OF assms(1)] assms(2) s] by (auto split: if_splits)
  then show ?thesis using s quiet_then_held [OF assms(3-5), of d' p'] by auto
qed

text \<open>Nothing is selected but by clicking OK.\<close>

lemma message_selected:
  assumes "pairing_message m now after p d = Some (p', d')" "m \<noteq> (BSP_BTN_OK, BSP_BTN_CLICK)"
  shows "gd_selected d' \<Longrightarrow> gd_selected d"
  using assms
  by (cases m) (auto simp: pairing_message_def pairing_click_def reported_selected cleared_selected Let_def
      split: if_splits bsp_btn.splits)

end
