(* ===== verification/App_Properties.thy ===== *)
theory App_Properties
  imports Game_App_Safe
begin

text \<open>
  The properties of the application as a whole: start-up and game management over storage and saves,
  and the pairing page over the list of controllers; with their witnesses.
\<close>

section \<open>An application to apply them to\<close>

definition quiet_turn :: "button_message option \<Rightarrow> turn" where
  "quiet_turn msg = \<lparr>tn_button = msg, tn_buttons = [], tn_pad = (\<lambda>_. no_pad), tn_time = (\<lambda>_. 0), tn_mv = 2500,
     tn_ok = (\<lambda>_. True), tn_healthy = (\<lambda>_. True)\<rparr>"

definition demo_app :: "storage \<Rightarrow> app" where
  "demo_app s = \<lparr>ap_settings = default_settings \<lparr>nv_u8 = (\<lambda>_. None), nv_calls = 0, nv_ok = (\<lambda>_. True)\<rparr>, ap_saves_ready = False,
     ap_web = demo_web s, ap_network = \<lparr>nw_running = False, nw_ap = False, nw_server = False, nw_initialized = False,
       nw_started = False, nw_handler = False, nw_live_aps = 0\<rparr>, ap_scanning = True\<rparr>"

definition all_well :: boot_answers where
  "all_well = \<lparr>ba_nvs = True, ba_display = True, ba_queue = True, ba_buttons = True, ba_gamepad = True, ba_saves = True,
     ba_partition = True\<rparr>"

section \<open>Start-up\<close>

text \<open>C4.  Starting the device loses no save.  Whatever calls into the flash or the file system fail during
  start-up, wherever it stops: of every game that the catalog in flash lists, the newest intact directory
  or the table of the packing tool, the latest save is as it was; and if flash holds no readable catalog,
  no file is touched.  The one call that must not fail is the hash of a directory that was read.\<close>

theorem startup_keeps_saves:
  assumes "flash_ok (st_flash (wb_storage (ap_web ap)))" and "hashing_works sha (wb_storage (ap_web ap))"
  shows "case boot_catalog sha (st_flash (wb_storage (ap_web ap))) of
      Some (k, g, es) \<Rightarrow> (\<forall>e \<in> set es. \<forall>m. latest_save (re_sha e) m (wb_saves (ap_web (snd (app_startup sha a ap)))) =
        latest_save (re_sha e) m (wb_saves (ap_web ap)))
    | None \<Rightarrow> sf_files (wb_saves (ap_web (snd (app_startup sha a ap)))) = sf_files (wb_saves (ap_web ap))"
  by (rule startup_saves_kept [OF assms prod.collapse [symmetric], unfolded saves_kept_def])

lemma startup_keeps_saves_witness:
  "\<exists>s e k g. boot_catalog demo_sha (st_flash s) = Some (k, g, [e]) \<and>
    fst (app_startup demo_sha all_well (demo_app s)) = None \<and>
    latest_save (re_sha e) 0 (wb_saves (ap_web (snd (app_startup demo_sha all_well (demo_app s))))) =
      latest_save (re_sha e) 0 (wb_saves (ap_web (demo_app s)))"
proof -
  obtain s e where s: "storage_ok demo_sha s" "working (st_flash s)" "st_partition s" "\<not> st_reload s" "st_entries s = [e]"
    using one_game by blast
  then have c: "boot_catalog demo_sha (st_flash s) = Some (st_slot s, st_generation s, [e])" "flash_ok (st_flash s)"
    by (simp_all add: storage_ok_def)
  have w: "wb_storage (ap_web (demo_app s)) = s" by (simp add: demo_app_def demo_web_def)
  have "fl_ok (st_flash (try_slot demo_sha 0 (init_state s))) n" for n
    using try_slot_working [of "init_state s" 0 demo_sha] s(2) c(2)
    by (auto simp: init_state_def tick_def working_def flash_ok_def Let_def split: option.splits)
  then have h: "hashing_works demo_sha s"
    using s(2) by (simp add: hashing_works_def hash_answers_def init_state_def tick_def working_def Let_def)
  have f: "fst (app_startup demo_sha all_well (demo_app s)) = None"
    by (simp add: app_startup_def all_well_def gb_saves_init_def Let_def split_beta)
  show ?thesis
    using startup_keeps_saves [of "demo_app s" demo_sha all_well] w h c f by auto
qed

section \<open>Game management\<close>

text \<open>C28.  A visit to game management deletes the saves of no game that stays.  Whatever is uploaded, renamed or
  deleted over the network between the passes of the page, whatever fails: a game that is listed before
  and after each request, and shares the name of its save with no other game listed, keeps its latest
  save.  And when the page is left, the server is down and the controllers are scanned for again.\<close>

theorem management_keeps_saves:
  assumes "digest_fn sha" and "storage_ok sha (wb_storage (ap_web ap))" and "management_enter pad a p ap = (m, b)"
    and "listed_through sha h (serves m) es (ap_web b)" and "management_run sha p es m b = (left, ap')"
  shows "latest_save h k (wb_saves (ap_web ap')) = latest_save h k (wb_saves (ap_web ap)) \<and>
    (left \<longrightarrow> ap_scanning ap' \<and> \<not> nw_running (ap_network ap'))"
  using visit_keeps [OF assms] by blast

text \<open>A refused request, and the OK held.\<close>

definition foreign_request :: http_request where
  "foreign_request = demo_request\<lparr>rq_origin_len := 60\<rparr>"

definition demo_visit :: "unit visit_event list" where
  "demo_visit = [Asked (Post_delete foreign_request), Pass (quiet_turn None), Pass (quiet_turn long_ok)]"

definition net_up :: start_answers where
  "net_up = \<lparr>sa_netif = Net_ok, sa_loop = Net_ok, sa_ap = True, sa_init = True, sa_storage = True, sa_handler = True,
     sa_mode = True, sa_config = True, sa_start = True, sa_server = True, sa_routes = (\<lambda>_. True)\<rparr>"

lemma management_keeps_saves_witness:
  "\<exists>s e m b ap'. web_entries (ap_web (demo_app s)) = [e] \<and>
    management_enter no_pad net_up \<lparr>pa_stop = True, pa_deinit = True\<rparr> (demo_app s) = (m, b) \<and>
    management_run demo_sha \<lparr>pa_stop = True, pa_deinit = True\<rparr> demo_visit m b = (True, ap') \<and> nw_running (ap_network b) \<and>
    latest_save (re_sha e) 0 (wb_saves (ap_web ap')) = latest_save (re_sha e) 0 (wb_saves (ap_web (demo_app s))) \<and>
    ap_scanning ap' \<and> \<not> nw_running (ap_network ap')"
proof -
  let ?p = "\<lparr>pa_stop = True, pa_deinit = True\<rparr>"
  obtain s e where s: "storage_ok demo_sha s" "st_entries s = [e]" using one_game by blast
  let ?ap = "demo_app s"
  have w: "wb_storage (ap_web ?ap) = s" "web_entries (ap_web ?ap) = [e]" using s by (simp_all add: demo_app_def demo_web_def)
  obtain m b where en: "management_enter no_pad net_up ?p ?ap = (m, b)" by (cases "management_enter no_pad net_up ?p ?ap")
  have up: "m = Serving (gb_select_pause_init no_pad)" "nw_running (ap_network b)" "ap_web b = ap_web ?ap"
    using en by (auto simp: management_enter_def net_up_def gb_web_start_def wifi_start_def server_start_def
        prune_if_trusted_def demo_app_def Let_def list_all_iff)
  have rf: "delete_handler demo_sha foreign_request v = ((Forbidden_403, Cross_site), v)" for v
    by (simp add: delete_handler_def same_origin_def foreign_request_def)
  have off: "gb_select_pause_step no_pad t h = (False, gb_select_pause_init no_pad)" for t h
    by (simp add: gb_select_pause_step_def no_pad_def)
  obtain ap' where run: "management_run demo_sha ?p demo_visit m b = (True, ap')"
    unfolding demo_visit_def up(1)
    by (simp add: menu_button_receive_def quiet_turn_def off answer_def rf)
  have "listed_alone (re_sha e) (ap_web b)" using w up(3) by (simp add: listed_alone_def)
  then have l: "listed_through demo_sha (re_sha e) (serves m) demo_visit (ap_web b)"
    by (simp add: demo_visit_def up(1) rf)
  have "latest_save (re_sha e) 0 (wb_saves (ap_web ap')) = latest_save (re_sha e) 0 (wb_saves (ap_web ?ap)) \<and>
      (True \<longrightarrow> ap_scanning ap' \<and> \<not> nw_running (ap_network ap'))"
    by (rule management_keeps_saves [OF demo_digest _ en l run]) (simp add: w s)
  then show ?thesis using w(2) en run up(2) by blast
qed

section \<open>Pairing\<close>


definition hold_ok :: pairing_turn where
  "hold_ok = \<lparr>pt_connected = False, pt_start = [], pt_keys = [\<lparr>kt_turn = quiet_turn long_ok, kt_before = [], kt_after = []\<rparr>],
     pt_end = [], pt_time = (\<lambda>_. 0)\<rparr>"



text \<open>Within one pass the page goes by the list it took at the start: if OK is clicked and Select held in the same
  pass, it leaves although a device has just been selected, and stays so.\<close>

lemma leaves_with_device_selected:
  "let found = snd (gamepad_discovery_observe (replicate 6 1) 0x0508 None no_discovery);
       click = \<lparr>kt_turn = quiet_turn (Some (BSP_BTN_OK, BSP_BTN_CLICK)), kt_before = [], kt_after = []\<rparr>;
       (r, d) = pairing_run [hold_ok\<lparr>pt_keys := click # pt_keys hold_ok\<rparr>] (fst (pairing_enter no_pad found)) found
   in r = Some False \<and> gd_selected d"
  by code_simp

end
