(* ===== verification/Spec2Isabelle.thy ===== *)
theory Spec2Isabelle
  imports Emu_Properties Fw_Properties Storage_Properties Saves_Properties Game_Properties State_Properties Pad_Properties Display_Properties Web_Properties Audio_Properties App_Properties
begin

text \<open>
  A verification library for the FoloToy Game Boy firmware.

  The firmware is an emulator core, SUMI (\<open>components/gb_core/gb\<close>, a C++ header), behind a C session
  interface (\<open>components/gb_core/gb_port.cpp\<close>), a sound unit (\<open>components/minigb_apu\<close>), and an ESP32
  application (\<open>main\<close>) that stores ROMs and saves in flash, reads controllers and drives the screen
  and the codec.  The application creates a session from a ROM, and per frame sets the keys, steps
  the core, reads the frame buffer and pulls one block of sound; between frames it reads and writes
  save RAM and the cartridge clock through windows.

  Theories.

  \<^item> \<^bold>\<open>Prelude\<close>: machine words, checked memory access (an access outside a buffer is \<open>None\<close>), and
    \<open>okp\<close>, "the computation returns and its result satisfies", with its rules for \<open>bind\<close>.
  \<^item> \<^bold>\<open>Emu_Patches\<close>: the ROM patch tables (gb/pokemon_red_patch.h, gb/gb_eink_patches.h).
  \<^item> \<^bold>\<open>Emu_State\<close>: class \<open>GBEmulator\<close> as nested records, its well-formedness \<open>wf_gb\<close>.
  \<^item> \<^bold>\<open>Emu_Rom\<close>: \<open>tickRTC\<close>, the bank cache over \<open>FsFile\<close>, cheats, the STAT interrupt.
  \<^item> \<^bold>\<open>Emu_Bus\<close>: \<open>readByte\<close>, \<open>readByteSlow\<close>, \<open>writeByte\<close>, \<open>writeMBC\<close>, both DMA engines; bounds, and what
    a bus access may change (\<open>bus_frame\<close>, \<open>write_effect\<close>).
  \<^item> \<^bold>\<open>Emu_Timer\<close>: \<open>updateTimer\<close> with closed forms of its loops.
  \<^item> \<^bold>\<open>Emu_Cpu\<close>: \<open>cpu_step\<close>, every opcode; the locale \<open>bus_invariant\<close> is what the interpreter needs of
    the bus to keep a property of the machine, interpreted for well-formedness, the cartridge and the
    picture position.
  \<^item> \<^bold>\<open>Emu_Ppu\<close>, \<^bold>\<open>Emu_Sprites\<close>, \<^bold>\<open>Emu_Scanline\<close>: \<open>renderLine\<close>, and its refinement of \<open>line_shade\<close> and
    \<open>line_color\<close>, the value each pixel of a line is meant to have.
  \<^item> \<^bold>\<open>Emu_Frame\<close>: \<open>runFrame\<close> and \<open>runScanline\<close>.  The loops are \<open>partial_function (option)\<close>; that they
    end is \<open>runFrame_ok\<close>, from the cycle tables: an instruction that costs nothing is an illegal opcode,
    and 65536 of them in a row would have to leave the program counter where it was.
  \<^item> \<^bold>\<open>Apu\<close>: minigb_apu.c at the configured 16 kHz, with closed forms of the phase counters.
  \<^item> \<^bold>\<open>Emu_Setup\<close>, \<^bold>\<open>Gb_Port\<close>: construction, \<open>loadRom\<close>, \<open>init\<close>, \<open>reset\<close>, and the session interface.
  \<^item> \<^bold>\<open>Emu_Behaviour\<close>, \<^bold>\<open>Emu_Properties\<close>: behaviour of the parts, and the properties with their witnesses.

  \<^item> \<^bold>\<open>Emu_Saves\<close>: save states and save files of the core (\<open>saveState\<close>, \<open>loadState\<close>, \<open>saveSRAM\<close>, \<open>loadSRAM\<close>,
    \<open>safeRename\<close>) over a card whose every call may fail; \<^bold>\<open>Emu_Saves_Works\<close>: header and buffers read back,
    what a rename leaves, and four ways a state is lost or half loaded; \<^bold>\<open>State_Properties\<close>: their properties.

  \<^item> \<^bold>\<open>Fw_Base\<close>: counters, C strings and the locale \<open>bounded_queue\<close> for the application.
  \<^item> \<^bold>\<open>Gb_Pacing\<close> (main/gb_frame_pacing.c, gb_audio_pacing.c), \<^bold>\<open>Gb_Input\<close> (gb_input.c,
    gb_screen_sleep.h; the sample ring is an interpretation of \<open>bounded_queue\<close>), \<^bold>\<open>Gb_Name\<close> (gb_name.c;
    the accepted names are exactly the UTF-8 encodings of permitted characters), \<^bold>\<open>Gb_Pixels\<close>
    (gb_pixels.c, gb_boot.c).
  \<^item> \<^bold>\<open>Gb_Flash\<close>: the flash partition with every failure of a call, a power cut among them, and
    little-endian layout; \<^bold>\<open>Gb_Catalog\<close>: directory entries, their checks and their bytes;
    \<^bold>\<open>Gb_Storage\<close>: main/gb_storage.c, every operation.
  \<^item> \<^bold>\<open>Two_Copies\<close>: the locale of a structure kept in two generations, which the directory sectors
    interpret; \<^bold>\<open>Gb_Storage_Safe\<close>: what a restart finds (\<open>boot_catalog\<close>), every way a publication can end,
    the invariant \<open>storage_ok\<close>; \<^bold>\<open>Gb_Storage_Ops\<close>: free space, and the outcome of every operation;
    \<^bold>\<open>Gb_Storage_Boot\<close>: start-up; \<^bold>\<open>Gb_Storage_Open\<close>, \<^bold>\<open>Gb_Storage_Works\<close>: opening a ROM, and what
    succeeds on a working partition.
  \<^item> \<^bold>\<open>Gb_Saves\<close>: main/gb_saves.c over a file system whose every call may fail or be cut short;
    \<^bold>\<open>Gb_Saves_Safe\<close>: checking a copy; \<^bold>\<open>Gb_Saves_Write\<close>: what an interrupted save leaves in its file;
    \<^bold>\<open>Gb_Saves_Works\<close>: the two files as an interpretation of \<open>two_copies\<close>, and the outcome of a save;
    \<^bold>\<open>Gb_Saves_Load\<close>: loading, and pruning of saves without a ROM.
  \<^item> \<^bold>\<open>Emu_Session\<close>: locale \<open>frame_invariant\<close>, what a property of the machine needs to survive whole frames,
    interpreted for "no save RAM is lost unmarked"; with it every call of a session keeps \<open>plays_on\<close>.
  \<^item> \<^bold>\<open>Game_Menu\<close>, \<^bold>\<open>Game_Play\<close>: main/game_main.c as state machines.  A step is one pass through a loop; a
    \<open>turn\<close> holds what the devices answer in it (buttons, controller, clock, success of each kind of call).
    \<^bold>\<open>Game_Safe\<close>: the invariant \<open>game_ok\<close> of session and save files through every pass.
  \<^item> \<^bold>\<open>Gamepad_Discovery\<close> (main/gamepad_discovery.c), \<^bold>\<open>Gamepad_Test\<close> (gamepad_test.c),
    \<^bold>\<open>Gamepad\<close> (gamepad.c): the application and the Bluetooth thread as two lists of actions, an action
    being one critical section or one call into bluepad32, in any interleaving; \<^bold>\<open>Gamepad_Safe\<close>: the
    invariant \<open>system_ok\<close>, the end of begun work, and \<open>follow\<close>, which runs a given interleaving.
  \<^item> \<^bold>\<open>Gb_Display\<close> (main/gb_display.c): strips, frames, the boot animation, over a panel that is a map from
    coordinates to pixels; \<^bold>\<open>Gb_Display_Shows\<close>, \<^bold>\<open>Gb_Display_More\<close>: what is on the panel after each drawing
    function, from one lemma on the loop over strips; \<^bold>\<open>Gb_Display_Task\<close>: start-up, the frame task and
    the application as a step relation, and who may draw.
  \<^item> \<^bold>\<open>Gb_Web\<close> (main/gb_web.c): the handlers of the list, of upload, rename and delete over storage and
    saves, and the network brought up and down; \<^bold>\<open>Gb_Web_Replies\<close>: the token of a row names its ROM, and
    every reply says what happened; \<^bold>\<open>Gb_Web_List\<close>: a reader of the list the page receives.
  \<^item> \<^bold>\<open>Gb_Audio\<close> (main/gb_audio.c): the application and the audio task as a step relation over their queue and
    semaphore; \<^bold>\<open>Gb_Audio_Plays\<close>: resampling bounds and the invariant on where each block is;
    \<^bold>\<open>Gb_Audio_Task\<close>: the task's steps keep it, return, and end once a stop is posted.  The results need
    fewer than \<open>2\<^sup>40\<close> blocks since the start, about five centuries of sound, where the 64-bit products of
    \<open>gb_audio_resampled_count\<close> are exact.
  \<^item> \<^bold>\<open>Game_App\<close> (main/game_main.c: \<open>app_main\<close>, \<open>management_loop\<close>, \<open>pairing_loop\<close>, \<open>gamepad_test_loop\<close>):
    what joins storage, saves, network and controllers; \<^bold>\<open>Game_App_Safe\<close>: a catalog marked as trusted is the
    one in flash, and what start-up and a visit to game management leave of the saves.
  \<^item> \<^bold>\<open>Fw_Properties\<close>, \<^bold>\<open>Storage_Properties\<close>, \<^bold>\<open>Saves_Properties\<close>, \<^bold>\<open>Game_Properties\<close>, \<^bold>\<open>Pad_Properties\<close>,
    \<^bold>\<open>Display_Properties\<close>, \<^bold>\<open>Web_Properties\<close>, \<^bold>\<open>Audio_Properties\<close>, \<^bold>\<open>App_Properties\<close>: the properties of the application.

  Parameters.  SHA-256 is a function \<open>sha\<close>; \<open>digest_fn\<close> (32 bytes, never all ones) and \<open>junk_refused\<close> (a
  half-erased sector carries no matching digest) are what the storage relies on.  The ROM reader, the clock \<open>millis()\<close>, the allocator and the contents of uninitialised
  memory are functions the definitions take; a theorem that needs more of them than their type names
  it as a hypothesis.  What the LCD driver answers to each transfer is part of the display's state; what
  bluepad32 answers, and which of its callbacks come when, is chosen by the steps.  The controller's two
  threads interleave from \<open>platform_ready\<close> on.  What the HTTP server reads from a request, and which of the
  Wi-Fi and server calls succeed, is an argument of the handlers.

  Not modelled.  \<open>gb_port_destroy\<close> and the destructors only release memory.  The vendored Bluetooth
  stack (\<open>components/btstack\<close>) and controller library (\<open>components/bluepad32\<close>), the drivers of the board
  (\<open>components/bsp\<close>), the generated font, the static page of the web
  server, the texts and menu screens; of the game loop the waiting between frames, the statistics and the drawing.
\<close>

end
